(* ===== verification/Prelude.thy ===== *)
theory Prelude
  imports Main "HOL-Library.Word" "HOL-Library.Multiset"
begin

unbundle bit_operations_syntax

text \<open>
  The prelude: types the components share (machine integers, \<open>errno\<close> values, \<open>struct timeval\<close>
  with the libc macros on it), the collections of hints the component theories fill, generic
  lemmas on lists and words, and the interface of a state machine with an invariant.
\<close>

section \<open>Hint collections\<close>

named_theorems frame_simps \<open>what an operation leaves unchanged\<close>
named_theorems pres_intros \<open>operations that preserve an invariant\<close>

section \<open>Machine integers and bytes\<close>

type_synonym byte = "8 word"
type_synonym int32 = "32 word"
type_synonym uint32 = "32 word"
type_synonym int16 = "16 word"
type_synonym uint16 = "16 word"

text \<open>
  \<open>ntohl\<close> on a little-endian host reverses the four bytes; \<open>htonl\<close> is the same function.
\<close>

definition ntohl :: "uint32 \<Rightarrow> uint32" where
  "ntohl w = push_bit 24 (w AND 0xff) OR push_bit 8 (w AND 0xff00)
      OR drop_bit 8 (w AND 0xff0000) OR drop_bit 24 w"

lemma ntohl_0 [simp]: "ntohl 0 = 0"
  by (simp add: ntohl_def)

definition htons :: "uint16 \<Rightarrow> uint16" where
  "htons w = push_bit 8 w OR drop_bit 8 w"

text \<open>The bytes of a 32 bit integer as they lie in the memory of a little-endian host.\<close>

definition bytes32 :: "uint32 \<Rightarrow> byte list" where
  "bytes32 w = [ucast w, ucast (drop_bit 8 w), ucast (drop_bit 16 w), ucast (drop_bit 24 w)]"

lemma length_bytes32 [simp]: "length (bytes32 w) = 4"
  by (simp add: bytes32_def)

section \<open>Errors as values\<close>

datatype errno =
    EINTR | EAGAIN | ENOMEM | EINVAL | ENOENT | ENOBUFS | EMSGSIZE | EHOSTUNREACH
  | ECONNREFUSED | ECONNRESET | ELNRNG | ECHRNG | EACCES | ENOTUNIQ | EOTHER nat

text \<open>
  The outcome of a C function that returns an integer, sets \<open>errno\<close> and returns -1, or ends the
  process by \<open>exit()\<close>.
\<close>

datatype 'a outcome = Ret 'a | Fail errno | Exit

section \<open>Time values\<close>

datatype timeval = Timeval (tv_sec: int) (tv_usec: int)

definition timerclear :: timeval where
  "timerclear = Timeval 0 0"

definition timerisset :: "timeval \<Rightarrow> bool" where
  "timerisset t \<longleftrightarrow> tv_sec t \<noteq> 0 \<or> tv_usec t \<noteq> 0"

definition timeradd :: "timeval \<Rightarrow> timeval \<Rightarrow> timeval" where
  "timeradd a b =
     (let s = tv_sec a + tv_sec b; u = tv_usec a + tv_usec b
      in if u \<ge> 1000000 then Timeval (s + 1) (u - 1000000) else Timeval s u)"

definition timersub :: "timeval \<Rightarrow> timeval \<Rightarrow> timeval" where
  "timersub a b =
     (let s = tv_sec a - tv_sec b; u = tv_usec a - tv_usec b
      in if u < 0 then Timeval (s - 1) (u + 1000000) else Timeval s u)"

text \<open>\<open>timercmp\<close> compares the seconds first: the lexicographic order.\<close>

instantiation timeval :: linorder
begin

definition less_eq_timeval :: "timeval \<Rightarrow> timeval \<Rightarrow> bool" where
  "a \<le> b \<longleftrightarrow> (if tv_sec a = tv_sec b then tv_usec a \<le> tv_usec b else tv_sec a < tv_sec b)"

definition less_timeval :: "timeval \<Rightarrow> timeval \<Rightarrow> bool" where
  "a < b \<longleftrightarrow> (if tv_sec a = tv_sec b then tv_usec a < tv_usec b else tv_sec a < tv_sec b)"

instance
  by standard (auto simp: less_eq_timeval_def less_timeval_def timeval.expand split: if_splits)

end

text \<open>A normalised time value has its microseconds in range; the macros keep it so.\<close>

definition tv_norm :: "timeval \<Rightarrow> bool" where
  "tv_norm t \<longleftrightarrow> 0 \<le> tv_usec t \<and> tv_usec t < 1000000"

lemma tv_norm_timeradd: "tv_norm a \<Longrightarrow> tv_norm b \<Longrightarrow> tv_norm (timeradd a b)"
  by (auto simp: tv_norm_def timeradd_def Let_def)

lemma tv_norm_timersub: "tv_norm a \<Longrightarrow> tv_norm b \<Longrightarrow> tv_norm (timersub a b)"
  by (auto simp: tv_norm_def timersub_def Let_def)

lemma timersub_timeradd: "tv_norm a \<Longrightarrow> tv_norm b \<Longrightarrow> timersub (timeradd a b) b = a"
  by (cases a) (auto simp: tv_norm_def timeradd_def timersub_def Let_def)

lemma timeradd_later:
  "tv_norm a \<Longrightarrow> tv_norm b \<Longrightarrow> timerclear < b \<Longrightarrow> a < timeradd a b"
  by (auto simp: tv_norm_def timeradd_def less_timeval_def timerclear_def Let_def split: if_splits)

section \<open>Lists\<close>

lemma distinct_remove1_set: "distinct xs \<Longrightarrow> set (remove1 x xs) = set xs - {x}"
  by simp

lemma length_remove1_mem: "x \<in> set xs \<Longrightarrow> length (remove1 x xs) = length xs - 1"
  by (simp add: length_remove1)

lemma remove1_append_notin: "x \<notin> set ys \<Longrightarrow> remove1 x (ys @ x # zs) = ys @ zs"
  by (simp add: remove1_append)

text \<open>A family of lists over the first numbers, one of which changes.\<close>

lemma sum_mset_upd:
  fixes n :: nat
  assumes "n < N"
  shows "(\<Sum>m<N. mset (if m = n then xs else f m)) + mset (f n) = (\<Sum>m<N. mset (f m)) + mset xs"
proof -
  have "(\<Sum>m<N. mset (if m = n then xs else f m)) = mset xs + (\<Sum>m\<in>{..<N} - {n}. mset (f m))"
    using assms by (subst sum.remove [of _ n]) auto
  moreover have "(\<Sum>m<N. mset (f m)) = mset (f n) + (\<Sum>m\<in>{..<N} - {n}. mset (f m))"
    using assms by (subst sum.remove [of _ n]) auto
  ultimately show ?thesis by (simp add: ac_simps)
qed

lemma sum_mset_remove1:
  fixes n :: nat
  assumes "n < N" "i \<in> set (f n)"
  shows "add_mset i (\<Sum>m<N. mset (if m = n then remove1 i (f n) else f m)) = (\<Sum>m<N. mset (f m))"
proof -
  let ?A = "\<Sum>m<N. mset (if m = n then remove1 i (f n) else f m)" and ?R = "mset (remove1 i (f n))"
  have "?A + mset (f n) = (\<Sum>m<N. mset (f m)) + ?R" by (rule sum_mset_upd [OF assms(1)])
  moreover have "mset (f n) = add_mset i ?R" using assms(2) by simp
  ultimately have "add_mset i ?A + ?R = (\<Sum>m<N. mset (f m)) + ?R"
    by (simp only: union_mset_add_mset_left union_mset_add_mset_right)
  then show ?thesis by (rule add_right_imp_eq)
qed

lemma mset_le_sum:
  fixes n :: nat
  shows "n < N \<Longrightarrow> mset (f n) \<subseteq># (\<Sum>m<N. mset (f m))"
  by (subst sum.remove [of _ n]) auto

lemma mset_upt_distinct:
  assumes "mset xs \<subseteq># mset [0..<k]"
  shows "distinct xs"
proof -
  have "count (mset xs) a \<le> 1" for a
  proof -
    have "count (mset [0..<k]) a \<le> 1" by (subst mset_upt) (simp add: count_mset_set')
    then show ?thesis using mset_subset_eq_count [OF assms, of a] by linarith
  qed
  then have "count (mset xs) a = (if a \<in> set xs then 1 else 0)" for a
    by (metis count_greater_eq_one_iff count_mset_0_iff le_antisym set_mset_mset)
  then show ?thesis by (simp add: distinct_count_atmost_1)
qed

text \<open>Words that count up from a start, as sequence numbers do.\<close>

primrec seq_from :: "'a::len word \<Rightarrow> nat \<Rightarrow> 'a word list" where
  "seq_from w 0 = []"
| "seq_from w (Suc n) = w # seq_from (w + 1) n"

lemma length_seq_from [simp]: "length (seq_from w n) = n"
  by (induction n arbitrary: w) auto

lemma nth_seq_from: "i < n \<Longrightarrow> seq_from w n ! i = w + of_nat i"
proof (induction n arbitrary: w i)
  case (Suc n)
  then show ?case by (cases i) (auto simp: algebra_simps)
qed simp

lemma seq_from_snoc: "seq_from w (Suc n) = seq_from w n @ [w + of_nat n]"
proof (induction n arbitrary: w)
  case (Suc n)
  from Suc [of "w + 1"] show ?case by (simp add: add.assoc)
qed simp

section \<open>State machines with an invariant\<close>

text \<open>
  The interface of a component whose operations all keep an invariant: a step function over the
  operations' inputs and a predicate every step preserves. A client gets the invariant of every
  run, of every prefix of a run, and of every reachable state.
\<close>

locale inv_machine =
  fixes step :: "'e \<Rightarrow> 's \<Rightarrow> 's"
    and inv :: "'s \<Rightarrow> bool"
  assumes step_inv: "inv s \<Longrightarrow> inv (step e s)"
begin

lemma run_inv: "inv s \<Longrightarrow> inv (fold step es s)"
  by (induction es arbitrary: s) (auto intro: step_inv)

lemma run_inv_prefix: "inv s \<Longrightarrow> inv (fold step (take n es) s)"
  by (rule run_inv)

end

end
