(* ===== verification/Rdp_Iptable.thy ===== *)
theory Rdp_Iptable
  imports Prelude
begin

text \<open>
  The hash of IP addresses of \<open>src/lib/putil/rdp.c\<close>: 256 buckets indexed by the last octet, each
  a base entry inside the array with a chain of further entries.  A bucket is the list of its
  entries, the base entry first; the base entry always exists and is free when its address is 0.
  The lemmas show that the table is a partial function from addresses to nodes and that the
  operations update exactly the address they name; they are bundled as the locale
  \<open>node_registry\<close>, which the table interprets.
\<close>

record ipentry =
  ip_addr :: uint32
  ip_node :: int

type_synonym iptable = "nat \<Rightarrow> ipentry list"

definition free_entry :: ipentry where
  "free_entry = \<lparr>ip_addr = 0, ip_node = 0\<rparr>"

definition INADDR_ANY :: uint32 where "INADDR_ANY = 0"
definition INADDR_NONE :: uint32 where "INADDR_NONE = 0xffffffff"
definition IN_LOOPBACKNET :: uint32 where "IN_LOOPBACKNET = 127"

text \<open>The last octet of the address selects the bucket.\<close>

definition ip_hash :: "uint32 \<Rightarrow> nat" where
  "ip_hash addr = unat (ntohl addr AND 0xff)"

definition initIPTable :: iptable where
  "initIPTable = (\<lambda>i. [free_entry])"

text \<open>An address of the loopback network ends the process, hence the option.\<close>

definition addToIPTable :: "uint32 \<Rightarrow> int \<Rightarrow> iptable \<Rightarrow> iptable option" where
  "addToIPTable addr node t =
     (if drop_bit 24 (ntohl addr) = IN_LOOPBACKNET then None
      else
        let idx = ip_hash addr; new = \<lparr>ip_addr = addr, ip_node = node\<rparr>
        in if ip_addr (hd (t idx)) \<noteq> 0
           then Some (t(idx := t idx @ [new]))
           else Some (t(idx := new # tl (t idx))))"

text \<open>
  \<open>doRemove\<close> gets the pointer to an entry, here the chain from that entry on: it copies the next
  entry over the one to remove and frees the next one; without a next one the entry is zeroed.
\<close>

fun doRemove :: "ipentry list \<Rightarrow> bool \<times> ipentry list" where
  "doRemove [] = (False, [])"
| "doRemove [ip] = (True, [free_entry])"
| "doRemove (ip # tmp # rest) = (True, tmp # rest)"

fun rm_chain :: "uint32 \<Rightarrow> int \<Rightarrow> ipentry list \<Rightarrow> bool \<times> ipentry list" where
  "rm_chain addr node [] = (False, [])"
| "rm_chain addr node (ip # next) =
     (if ip_addr ip = addr \<and> ip_node ip = node then doRemove (ip # next)
      else let (r, next') = rm_chain addr node next in (r, ip # next'))"

definition rmFromIPTable :: "uint32 \<Rightarrow> int \<Rightarrow> iptable \<Rightarrow> bool \<times> iptable" where
  "rmFromIPTable addr node t =
     (let idx = ip_hash addr; (r, c) = rm_chain addr node (t idx) in (r, t(idx := c)))"

fun lookup_chain :: "uint32 \<Rightarrow> ipentry list \<Rightarrow> int" where
  "lookup_chain addr [] = -1"
| "lookup_chain addr (ip # next) =
     (if ip_addr ip = addr then ip_node ip else lookup_chain addr next)"

definition lookupIPTable :: "uint32 \<Rightarrow> iptable \<Rightarrow> int" where
  "lookupIPTable addr t = lookup_chain addr (t (ip_hash addr))"

section \<open>The shape of the table\<close>

text \<open>
  Every bucket has its base entry; the entries in use carry a node number; no two entries in use
  of a bucket have the same address.
\<close>

definition chain_ok :: "ipentry list \<Rightarrow> bool" where
  "chain_ok c \<longleftrightarrow> c \<noteq> [] \<and> (\<forall>e\<in>set c. 0 \<le> ip_node e)
     \<and> distinct (filter (\<lambda>a. a \<noteq> 0) (map ip_addr c))"

definition iptable_ok :: "iptable \<Rightarrow> bool" where
  "iptable_ok t \<longleftrightarrow> (\<forall>i. chain_ok (t i))"

lemma initIPTable_ok: "iptable_ok initIPTable"
  by (simp add: iptable_ok_def chain_ok_def initIPTable_def free_entry_def)

lemma lookup_chain_absent: "\<forall>e\<in>set c. ip_addr e \<noteq> a \<Longrightarrow> lookup_chain a c = -1"
  by (induction c) auto

lemma lookup_chain_nonneg:
  "\<forall>e\<in>set c. 0 \<le> ip_node e \<Longrightarrow> lookup_chain a c \<noteq> -1 \<longleftrightarrow> a \<in> ip_addr ` set c"
  by (induction c) (auto split: if_splits)

lemma lookup_chain_append:
  "\<forall>e\<in>set c. 0 \<le> ip_node e \<Longrightarrow>
     lookup_chain a (c @ d) = (if a \<in> ip_addr ` set c then lookup_chain a c else lookup_chain a d)"
  by (induction c) auto

lemma lookup_chain_free:
  "a \<noteq> 0 \<Longrightarrow> ip_addr e = 0 \<Longrightarrow> lookup_chain a (e # c) = lookup_chain a c"
  by simp

section \<open>Removing an entry\<close>

lemma doRemove_lookup:
  "b \<noteq> ip_addr e \<Longrightarrow> b \<noteq> 0 \<Longrightarrow> lookup_chain b (snd (doRemove (e # c))) = lookup_chain b (e # c)"
  by (cases c) (auto simp: free_entry_def)

lemma rm_chain_lookup_other:
  "b \<noteq> addr \<Longrightarrow> b \<noteq> 0 \<Longrightarrow> lookup_chain b (snd (rm_chain addr n c)) = lookup_chain b c"
proof (induction c)
  case (Cons e c)
  show ?case
  proof (cases "ip_addr e = addr \<and> ip_node e = n")
    case True
    with Cons.prems show ?thesis using doRemove_lookup [of b e c] by simp
  next
    case False
    with Cons show ?thesis by (auto split: prod.splits)
  qed
qed simp

lemma rm_chain_fst: "fst (rm_chain addr n c) \<longleftrightarrow> (\<exists>e\<in>set c. ip_addr e = addr \<and> ip_node e = n)"
proof (induction c)
  case (Cons e c)
  then show ?case by (cases c) (auto split: prod.splits)
qed simp

lemma rm_chain_set: "set (snd (rm_chain addr n c)) \<subseteq> insert free_entry (set c)"
proof (induction c)
  case (Cons e c)
  then show ?case by (cases c) (auto split: prod.splits)
qed simp

lemma rm_chain_nonempty: "c \<noteq> [] \<Longrightarrow> snd (rm_chain addr n c) \<noteq> []"
  by (cases c; cases "tl c") (auto split: prod.splits)

lemma addrs_doRemove:
  "filter (\<lambda>a. a \<noteq> 0) (map ip_addr (snd (doRemove (e # c)))) = filter (\<lambda>a. a \<noteq> 0) (map ip_addr c)"
  by (cases c) (auto simp: free_entry_def)

lemma addrs_rm_chain_set:
  "set (filter (\<lambda>a. a \<noteq> 0) (map ip_addr (snd (rm_chain addr n c))))
     \<subseteq> set (filter (\<lambda>a. a \<noteq> 0) (map ip_addr c))"
proof -
  have "x \<in> ip_addr ` set c" if "x \<in> ip_addr ` set (snd (rm_chain addr n c))" "x \<noteq> 0" for x
    using rm_chain_set [of addr n c] that by (auto simp: free_entry_def)
  then show ?thesis by auto
qed

lemma rm_chain_distinct:
  "distinct (filter (\<lambda>a. a \<noteq> 0) (map ip_addr c)) \<Longrightarrow>
     distinct (filter (\<lambda>a. a \<noteq> 0) (map ip_addr (snd (rm_chain addr n c))))"
proof (induction c)
  case (Cons e c)
  show ?case
  proof (cases "ip_addr e = addr \<and> ip_node e = n")
    case True
    then have "snd (rm_chain addr n (e # c)) = snd (doRemove (e # c))" by simp
    moreover have "distinct (filter (\<lambda>a. a \<noteq> 0) (map ip_addr c))"
      using Cons.prems by (auto split: if_splits)
    ultimately show ?thesis by (metis addrs_doRemove)
  next
    case False
    then have "snd (rm_chain addr n (e # c)) = e # snd (rm_chain addr n c)"
      by (auto split: prod.splits)
    with Cons show ?thesis using addrs_rm_chain_set [of addr n c] by (auto split: if_splits)
  qed
qed simp

lemma rm_chain_ok: "chain_ok c \<Longrightarrow> chain_ok (snd (rm_chain addr n c))"
  using rm_chain_set [of addr n c] rm_chain_nonempty [of c addr n] rm_chain_distinct [of c addr n]
  unfolding chain_ok_def by (auto simp: free_entry_def)

lemma rm_chain_lookup_same:
  assumes "distinct (filter (\<lambda>a. a \<noteq> 0) (map ip_addr c))" and "addr \<noteq> 0"
    and "\<exists>e\<in>set c. ip_addr e = addr \<and> ip_node e = n"
  shows "lookup_chain addr (snd (rm_chain addr n c)) = -1"
  using assms
proof (induction c)
  case (Cons e c)
  show ?case
  proof (cases "ip_addr e = addr \<and> ip_node e = n")
    case True
    with Cons.prems have "\<forall>x\<in>set c. ip_addr x \<noteq> addr" by (auto simp: image_iff)
    with True Cons.prems(2) show ?thesis
      by (cases c) (auto simp: free_entry_def intro!: lookup_chain_absent)
  next
    case False
    with Cons.prems have "\<exists>x\<in>set c. ip_addr x = addr \<and> ip_node x = n" by auto
    moreover from this Cons.prems have "ip_addr e \<noteq> addr" by (force simp: image_iff)
    ultimately show ?thesis using False Cons by (auto split: prod.splits if_splits)
  qed
qed simp

section \<open>The table operations\<close>

lemma rmFromIPTable_ok: "iptable_ok t \<Longrightarrow> iptable_ok (snd (rmFromIPTable a n t))"
  using rm_chain_ok [of "t (ip_hash a)" a n]
  by (auto simp: iptable_ok_def rmFromIPTable_def Let_def split: prod.splits)

lemma rmFromIPTable_lookup_other:
  "b \<noteq> a \<Longrightarrow> b \<noteq> 0 \<Longrightarrow> lookupIPTable b (snd (rmFromIPTable a n t)) = lookupIPTable b t"
  using rm_chain_lookup_other [of b a n "t (ip_hash a)"]
  by (auto simp: lookupIPTable_def rmFromIPTable_def Let_def split: prod.splits)

lemma lookup_chain_mem:
  "lookup_chain a c = n \<Longrightarrow> n \<noteq> -1 \<Longrightarrow> \<exists>e\<in>set c. ip_addr e = a \<and> ip_node e = n"
  by (induction c) (auto split: if_splits)

lemma rmFromIPTable_lookup_same:
  assumes "iptable_ok t" "a \<noteq> 0" "lookupIPTable a t = n" "n \<noteq> -1"
  shows "lookupIPTable a (snd (rmFromIPTable a n t)) = -1"
  using rm_chain_lookup_same [of "t (ip_hash a)" a n] lookup_chain_mem [of a "t (ip_hash a)" n] assms
  by (auto simp: iptable_ok_def chain_ok_def lookupIPTable_def rmFromIPTable_def Let_def
      split: prod.splits)

text \<open>A node is removed only where it is registered: the flag \<open>rmFromIPTable\<close> returns.\<close>

lemma rmFromIPTable_absent:
  "lookupIPTable a t = -1 \<Longrightarrow> n \<noteq> -1 \<Longrightarrow> iptable_ok t \<Longrightarrow> \<not> fst (rmFromIPTable a n t)"
  using rm_chain_fst [of a n "t (ip_hash a)"] lookup_chain_nonneg [of "t (ip_hash a)" a]
  by (auto simp: iptable_ok_def chain_ok_def lookupIPTable_def rmFromIPTable_def Let_def
      split: prod.splits)

lemma chain_ok_take_base:
  assumes "chain_ok c" "ip_addr (hd c) = 0" "a \<notin> ip_addr ` set c" "0 \<le> n"
  shows "chain_ok (\<lparr>ip_addr = a, ip_node = n\<rparr> # tl c)"
  using assms by (cases c) (auto simp: chain_ok_def)

lemma chain_ok_append:
  assumes "chain_ok c" "a \<notin> ip_addr ` set c" "0 \<le> n"
  shows "chain_ok (c @ [\<lparr>ip_addr = a, ip_node = n\<rparr>])"
  using assms by (auto simp: chain_ok_def)

lemma lookup_fresh:
  "iptable_ok t \<Longrightarrow> lookupIPTable a t = -1 \<longleftrightarrow> a \<notin> ip_addr ` set (t (ip_hash a))"
  using lookup_chain_nonneg [of "t (ip_hash a)" a]
  by (auto simp: iptable_ok_def chain_ok_def lookupIPTable_def)

lemma addToIPTable_ok:
  "addToIPTable a n t = Some t' \<Longrightarrow> iptable_ok t \<Longrightarrow> lookupIPTable a t = -1 \<Longrightarrow> 0 \<le> n
     \<Longrightarrow> iptable_ok t'"
  using lookup_fresh [of t a]
  by (auto simp: iptable_ok_def addToIPTable_def Let_def chain_ok_take_base chain_ok_append
      split: if_splits)

lemma addToIPTable_lookup_same:
  assumes "addToIPTable a n t = Some t'" "iptable_ok t" "lookupIPTable a t = -1"
  shows "lookupIPTable a t' = n"
proof -
  have ok: "\<forall>e\<in>set (t (ip_hash a)). 0 \<le> ip_node e" and ne: "t (ip_hash a) \<noteq> []"
    using assms(2) by (auto simp: iptable_ok_def chain_ok_def)
  have "a \<notin> ip_addr ` set (t (ip_hash a))" using assms(2,3) by (simp add: lookup_fresh)
  with ok ne assms(1) show ?thesis
    by (auto simp: addToIPTable_def lookupIPTable_def Let_def lookup_chain_append split: if_splits)
qed

lemma addToIPTable_lookup_other:
  assumes "addToIPTable a n t = Some t'" "iptable_ok t" "b \<noteq> a" "b \<noteq> 0"
  shows "lookupIPTable b t' = lookupIPTable b t"
proof -
  have ok: "\<forall>e\<in>set (t (ip_hash a)). 0 \<le> ip_node e" and ne: "t (ip_hash a) \<noteq> []"
    using assms(2) by (auto simp: iptable_ok_def chain_ok_def)
  have "lookup_chain b (t (ip_hash a)) = lookup_chain b (tl (t (ip_hash a)))"
    if "ip_addr (hd (t (ip_hash a))) = 0"
    using that ne assms(4) by (cases "t (ip_hash a)") auto
  moreover have "lookup_chain b (t (ip_hash a) @ [\<lparr>ip_addr = a, ip_node = n\<rparr>])
      = lookup_chain b (t (ip_hash a))"
    using ok assms(3) lookup_chain_nonneg [OF ok, of b]
    by (auto simp: lookup_chain_append)
  ultimately show ?thesis
    using assms by (auto simp: addToIPTable_def lookupIPTable_def Let_def split: if_splits)
qed

section \<open>The interface\<close>

text \<open>
  What the protocol needs of the table: it names at most one node for an address, a new address
  is found under the node it was entered for, a removed one is gone, and no other address is
  touched.
\<close>

locale node_registry =
  fixes add :: "'a \<Rightarrow> int \<Rightarrow> 't \<Rightarrow> 't option"
    and rm :: "'a \<Rightarrow> int \<Rightarrow> 't \<Rightarrow> 't"
    and lkp :: "'a \<Rightarrow> 't \<Rightarrow> int"
    and ok :: "'t \<Rightarrow> bool"
    and valid :: "'a \<Rightarrow> bool"
  assumes add_ok: "add a n t = Some t' \<Longrightarrow> ok t \<Longrightarrow> lkp a t = -1 \<Longrightarrow> 0 \<le> n \<Longrightarrow> ok t'"
    and add_same: "add a n t = Some t' \<Longrightarrow> ok t \<Longrightarrow> lkp a t = -1 \<Longrightarrow> lkp a t' = n"
    and add_other: "add a n t = Some t' \<Longrightarrow> ok t \<Longrightarrow> b \<noteq> a \<Longrightarrow> valid b \<Longrightarrow> lkp b t' = lkp b t"
    and rm_ok: "ok t \<Longrightarrow> ok (rm a n t)"
    and rm_same: "ok t \<Longrightarrow> valid a \<Longrightarrow> lkp a t = n \<Longrightarrow> n \<noteq> -1 \<Longrightarrow> lkp a (rm a n t) = -1"
    and rm_other: "b \<noteq> a \<Longrightarrow> valid b \<Longrightarrow> lkp b (rm a n t) = lkp b t"
begin

text \<open>Moving a node from an old to a new address, as an update of a dynamic address does.\<close>

lemma move_lookup:
  assumes "ok t" "lkp old t = n" "0 \<le> n" "valid old" "valid new" "old \<noteq> new"
    and "lkp new t = -1" and "add new n (rm old n t) = Some t'"
  shows "ok t'" "lkp new t' = n" "lkp old t' = -1"
    "\<And>b. valid b \<Longrightarrow> b \<noteq> old \<Longrightarrow> b \<noteq> new \<Longrightarrow> lkp b t' = lkp b t"
proof -
  have fresh: "lkp new (rm old n t) = -1" using assms rm_other by metis
  show "ok t'" using add_ok [OF assms(8) rm_ok [OF assms(1)] fresh assms(3)] .
  show "lkp new t' = n" using add_same [OF assms(8) rm_ok [OF assms(1)] fresh] .
  show "lkp old t' = -1"
    using add_other [OF assms(8) rm_ok [OF assms(1)] assms(6) assms(4)] rm_same assms by force
  show "lkp b t' = lkp b t" if "valid b" "b \<noteq> old" "b \<noteq> new" for b
    using add_other [OF assms(8) rm_ok [OF assms(1)] that(3) that(1)] rm_other that by metis
qed

end

interpretation ipt: node_registry addToIPTable "\<lambda>a n t. snd (rmFromIPTable a n t)" lookupIPTable
  iptable_ok "\<lambda>a. a \<noteq> 0"
proof
qed (simp_all add: addToIPTable_ok addToIPTable_lookup_same addToIPTable_lookup_other rmFromIPTable_ok
  rmFromIPTable_lookup_same rmFromIPTable_lookup_other)

end
