(* ===== verification/Rdp_State.thy ===== *)
theory Rdp_State
  imports Rdp_Iptable
begin

text \<open>
  The state of the reliable datagram protocol of \<open>src/lib/putil/rdp.c\<close>: packet headers, the pools
  of small frames and of message buffers, the connection table, and the environment the code
  reads (clock, random numbers, results of system calls).  The list heads of the C code are lists
  of buffer numbers: a buffer is an index into \<open>MsgPool\<close>, a small frame an index into \<open>SmsgPool\<close>.
  On a little-endian host \<open>pshton16\<close> and its kin are the identity (\<open>include/psbyteorder.h\<close>), so
  headers in the pool and on the wire are the same.  System calls take their results from scripts
  in the state; what the code does to its surroundings (packets handed to \<open>sendto()\<close>, callbacks,
  calls of the dispatcher) is appended to the trace \<open>outp\<close>.
\<close>

section \<open>Packets\<close>

definition RDP_DATA :: int16 where "RDP_DATA = 1"
definition RDP_SYN :: int16 where "RDP_SYN = 2"
definition RDP_ACK :: int16 where "RDP_ACK = 3"
definition RDP_SYNACK :: int16 where "RDP_SYNACK = 4"
definition RDP_NACK :: int16 where "RDP_NACK = 5"

lemmas rdp_types = RDP_DATA_def RDP_SYN_def RDP_ACK_def RDP_SYNACK_def RDP_NACK_def

record rdphdr =
  h_type :: int16
  h_len :: uint16
  h_seqno :: int32
  h_ackno :: int32
  h_connid :: int32

definition RDP_HDR_SIZE :: nat where "RDP_HDR_SIZE = 16"
definition RDP_SMALL_DATA_SIZE :: nat where "RDP_SMALL_DATA_SIZE = 64"
definition RDP_MAX_DATA_SIZE :: nat where "RDP_MAX_DATA_SIZE = 1472 - RDP_HDR_SIZE"
definition MAX_WINDOW_SIZE :: nat where "MAX_WINDOW_SIZE = 32"
definition NUM_WARMUP :: uint32 where "NUM_WARMUP = 15"

lemmas rdp_consts = RDP_HDR_SIZE_def RDP_SMALL_DATA_SIZE_def RDP_MAX_DATA_SIZE_def
  MAX_WINDOW_SIZE_def NUM_WARMUP_def

text \<open>
  \<open>RSEQCMP(a,b)\<close> is the signed 32 bit difference; it is read here with the wrap-around the
  machine gives it.
\<close>

definition RSEQCMP :: "int32 \<Rightarrow> int32 \<Rightarrow> int" where
  "RSEQCMP a b = sint (a - b)"

section \<open>Buffers\<close>

datatype frame = SmallFrame nat | LargeFrame

text \<open>
  \<open>mb_frame\<close> is the pointer to the frame (\<open>None\<close> for NULL), \<open>mb_hdr\<close> and \<open>mb_data\<close> the frame's
  content.
\<close>

record msgbuf =
  mb_node :: int
  mb_len :: int
  mb_frame :: "frame option"
  mb_hdr :: rdphdr
  mb_data :: "byte list"
  mb_sentTime :: timeval
  mb_deleted :: bool

datatype RDPState = CLOSED | SYN_SENT | SYN_RECVD | ACTIVE

record Rconninfo =
  window :: int
  ackPending :: int
  msgPending :: int
  sin_addr :: uint32
  sin_port :: uint16
  frameToSend :: int32
  ackExpected :: int32
  frameExpected :: int32
  ConnID_in :: int32
  ConnID_out :: int32
  cstate :: RDPState
  pendList :: "nat list"
  tmout :: timeval
  closed :: timeval
  TTA :: timeval
  retrans :: int
  totRetrans :: uint32
  totSent :: uint32
  totNACK :: uint32

section \<open>The environment\<close>

text \<open>
  What reading the error queue of the socket gives: nothing there, a failure of \<open>recvmsg()\<close>, a
  message one of the checks of \<open>handleErr()\<close> rejects, or an error of the given address.
\<close>

datatype errqueue = ErrqEmpty | ErrqFail errno | ErrqBad | ErrqFrom uint32

text \<open>A result of \<open>sendto()\<close>; the second component of an error is what the error queue holds.\<close>

datatype sendres = SendOk | SendErr errno errqueue

text \<open>A datagram with its sender; \<open>d_ret\<close> is the number of bytes \<open>recvfrom()\<close> reports.\<close>

record dgram =
  d_addr :: uint32
  d_port :: uint16
  d_hdr :: rdphdr
  d_data :: "byte list"
  d_ret :: int

text \<open>
  A result of \<open>recvfrom()\<close>; an error carries the error queue and what \<open>select()\<close> finally says
  (an error, or whether another packet is pending).
\<close>

datatype recvres = RecvDgram dgram | RecvErr errno errqueue "errno + bool"

datatype rdp_cb =
    NEW_CONNECTION nat
  | LOST_CONNECTION nat
  | PKT_UNDELIVERABLE nat "byte list"
  | CAN_CONTINUE nat
  | UNKNOWN_SENDER uint32

datatype rdp_event = EvSend nat rdphdr "byte list" | EvCB rdp_cb | EvDispatch

record rdp =
  nrOfNodes :: nat
  rdpID :: nat
  iptab :: iptable
  conntable :: "nat \<Rightarrow> Rconninfo"
  MsgPool :: "nat \<Rightarrow> msgbuf"
  MsgFreeList :: "nat list"
  SMsgFreeList :: "nat list"
  AckList :: "nat list"
  cleanupReq :: bool
  retransCount :: uint32
  RDPMaxRetransCount :: int
  RDPMaxAckPending :: int
  RDPStatistics :: bool
  RDPPktLoss :: int
  RESEND_TIMEOUT :: timeval
  CLOSED_TIMEOUT :: timeval
  hasCallback :: bool
  hasDispatcher :: bool
  clock :: "nat \<Rightarrow> timeval"
  ticks :: nat
  rnd :: "nat \<Rightarrow> uint32"
  rticks :: nat
  sendq :: "sendres list"
  recvq :: "recvres list"
  mallocq :: "bool list"
  outp :: "rdp_event list"

section \<open>Reading the environment, writing the trace\<close>

definition gettimeofday :: "rdp \<Rightarrow> timeval \<times> rdp" where
  "gettimeofday s = (clock s (ticks s), s\<lparr>ticks := Suc (ticks s)\<rparr>)"

definition random32 :: "rdp \<Rightarrow> uint32 \<times> rdp" where
  "random32 s = (rnd s (rticks s) AND 0x7fffffff, s\<lparr>rticks := Suc (rticks s)\<rparr>)"

text \<open>\<open>malloc()\<close> succeeds unless the script says otherwise.\<close>

definition malloc :: "rdp \<Rightarrow> bool \<times> rdp" where
  "malloc s = (case mallocq s of [] \<Rightarrow> (True, s) | b # bs \<Rightarrow> (b, s\<lparr>mallocq := bs\<rparr>))"

definition emit :: "rdp_event \<Rightarrow> rdp \<Rightarrow> rdp" where
  "emit e s = s\<lparr>outp := outp s @ [e]\<rparr>"

definition RDPCallback :: "rdp_cb \<Rightarrow> rdp \<Rightarrow> rdp" where
  "RDPCallback c s = (if hasCallback s then emit (EvCB c) s else s)"

definition upd_conn :: "nat \<Rightarrow> (Rconninfo \<Rightarrow> Rconninfo) \<Rightarrow> rdp \<Rightarrow> rdp" where
  "upd_conn n f s = s\<lparr>conntable := (conntable s)(n := f (conntable s n))\<rparr>"

definition upd_msg :: "nat \<Rightarrow> (msgbuf \<Rightarrow> msgbuf) \<Rightarrow> rdp \<Rightarrow> rdp" where
  "upd_msg i f s = s\<lparr>MsgPool := (MsgPool s)(i := f (MsgPool s i))\<rparr>"

section \<open>The pool of small frames\<close>

definition initSMsgList :: "nat \<Rightarrow> rdp \<Rightarrow> rdp" where
  "initSMsgList nodes s = s\<lparr>SMsgFreeList := [0..<nodes * MAX_WINDOW_SIZE]\<rparr>"

definition getSMsg :: "rdp \<Rightarrow> nat option \<times> rdp" where
  "getSMsg s =
     (case SMsgFreeList s of
        [] \<Rightarrow> (None, s)
      | mp # rest \<Rightarrow> (Some mp, s\<lparr>SMsgFreeList := rest\<rparr>))"

definition putSMsg :: "nat \<Rightarrow> rdp \<Rightarrow> rdp" where
  "putSMsg mp s = s\<lparr>SMsgFreeList := mp # SMsgFreeList s\<rparr>"

section \<open>The pool of message buffers\<close>

definition hdr0 :: rdphdr where
  "hdr0 = \<lparr>h_type = 0, h_len = 0, h_seqno = 0, h_ackno = 0, h_connid = 0\<rparr>"

definition msgbuf0 :: msgbuf where
  "msgbuf0 = \<lparr>mb_node = -1, mb_len = -1, mb_frame = None, mb_hdr = hdr0, mb_data = [],
     mb_sentTime = timerclear, mb_deleted = False\<rparr>"

definition initMsgList :: "nat \<Rightarrow> rdp \<Rightarrow> rdp" where
  "initMsgList nodes s =
     s\<lparr>MsgPool := (\<lambda>i. msgbuf0), MsgFreeList := [0..<nodes * MAX_WINDOW_SIZE], AckList := []\<rparr>"

definition getMsg :: "rdp \<Rightarrow> nat option \<times> rdp" where
  "getMsg s =
     (case MsgFreeList s of
        [] \<Rightarrow> (None, s)
      | mp # rest \<Rightarrow> (Some mp, s\<lparr>MsgFreeList := rest\<rparr>))"

text \<open>
  \<open>putMsg\<close> releases the frame, resets the buffer, unlinks it from the list of pending ACKs and
  from the list of pending messages of its node, and appends it to the free list.  (A frame of a
  large message is given back to \<open>free()\<close>.)
\<close>

definition put_frame :: "msgbuf \<Rightarrow> rdp \<Rightarrow> rdp" where
  "put_frame m s =
     (if mb_len m > int RDP_SMALL_DATA_SIZE then s
      else case mb_frame m of Some (SmallFrame k) \<Rightarrow> putSMsg k s | _ \<Rightarrow> s)"

definition putMsg :: "nat \<Rightarrow> rdp \<Rightarrow> rdp" where
  "putMsg i s =
     (let m = MsgPool s i;
          s1 = put_frame m s;
          s2 = upd_msg i (\<lambda>m. m\<lparr>mb_frame := None, mb_node := -1, mb_deleted := False,
                 mb_sentTime := timerclear\<rparr>) s1;
          s3 = s2\<lparr>AckList := remove1 i (AckList s2)\<rparr>;
          s4 = upd_conn (nat (mb_node m)) (\<lambda>c. c\<lparr>pendList := remove1 i (pendList c)\<rparr>) s3
      in s4\<lparr>MsgFreeList := MsgFreeList s4 @ [i]\<rparr>)"

end
