(* ===== verification/Rdp_Ops.thy ===== *)
theory Rdp_Ops
  imports Rdp_State
begin

text \<open>
  The operations of \<open>src/lib/putil/rdp.c\<close>, in the order of the source: initialisation, sending
  and receiving of packets, closing and resending, the connection state machine, the handling of
  acknowledgments, and the interface the daemon calls.  Blocking and restoring of the RDP timer
  (\<open>Timer_block()\<close>) only keeps the timeout handler from interrupting an operation and has no
  counterpart here, where every operation runs to its end; log messages are left out.  A callback
  is an event of the trace: what the host does in reaction is a further operation.
\<close>

section \<open>Initialisation\<close>

definition init_conn :: "uint32 \<Rightarrow> uint16 \<Rightarrow> uint32 \<Rightarrow> uint32 \<Rightarrow> uint32 \<Rightarrow> Rconninfo" where
  "init_conn addr port r1 r2 r3 =
     \<lparr>window = int MAX_WINDOW_SIZE, ackPending = 0, msgPending = 0,
      sin_addr = addr, sin_port = port,
      frameToSend = r1, ackExpected = r1, frameExpected = r2,
      ConnID_in = -1, ConnID_out = r3, cstate = CLOSED, pendList = [],
      tmout = timerclear, closed = timerclear, TTA = timerclear,
      retrans = 0, totRetrans = 0, totSent = 0, totNACK = 0\<rparr>"

definition init_node :: "uint16 \<Rightarrow> nat \<Rightarrow> uint32 \<Rightarrow> rdp \<Rightarrow> rdp option" where
  "init_node port i addr s =
     (case (if addr \<noteq> INADDR_ANY \<and> addr \<noteq> INADDR_NONE
            then addToIPTable addr (int i) (iptab s) else Some (iptab s)) of
        None \<Rightarrow> None
      | Some t \<Rightarrow>
          let (r1, s1) = random32 (s\<lparr>iptab := t\<rparr>);
              (r2, s2) = random32 s1;
              (r3, s3) = random32 s2
          in Some (upd_conn i (\<lambda>_. init_conn addr port r1 r2 r3) s3))"

fun init_nodes :: "uint16 \<Rightarrow> nat \<Rightarrow> uint32 list \<Rightarrow> rdp \<Rightarrow> rdp option" where
  "init_nodes port i [] s = Some s"
| "init_nodes port i (h # hs) s =
     (case init_node port i h s of None \<Rightarrow> None | Some s' \<Rightarrow> init_nodes port (Suc i) hs s')"

definition initConntable :: "uint32 list \<Rightarrow> uint16 \<Rightarrow> rdp \<Rightarrow> rdp option" where
  "initConntable hosts port s = init_nodes port 0 hosts (s\<lparr>iptab := initIPTable\<rparr>)"

text \<open>
  \<open>RDP_init\<close>: \<open>None\<close> where the process exits.  Sockets, selector and timer registration are not
  part of the state.
\<close>

definition DEFAULT_RDP_PORT :: uint16 where "DEFAULT_RDP_PORT = 886"

definition RDP_init :: "uint32 list \<Rightarrow> int \<Rightarrow> uint16 \<Rightarrow> bool \<Rightarrow> bool \<Rightarrow> rdp \<Rightarrow> rdp option" where
  "RDP_init hosts localID portno dispatcher cb s =
     (let nodes = length hosts in
      if localID < 0 \<or> localID \<ge> int nodes then None
      else initConntable hosts (htons (if portno = 0 then DEFAULT_RDP_PORT else portno))
             (initSMsgList nodes (initMsgList nodes
               (s\<lparr>hasDispatcher := dispatcher, hasCallback := cb, nrOfNodes := nodes,
                  rdpID := nat localID\<rparr>))))"

section \<open>Closing a connection\<close>

text \<open>One round of the loop of \<open>clearMsgQ\<close>.\<close>

definition drop_pending :: "nat \<Rightarrow> nat \<Rightarrow> rdp \<Rightarrow> rdp" where
  "drop_pending node i s =
     (let m = MsgPool s i in
      if mb_deleted m then s
      else (RDPCallback (PKT_UNDELIVERABLE node (take (nat (mb_len m)) (mb_data m))) s)
             \<lparr>MsgPool := (MsgPool s)(i := m\<lparr>mb_deleted := True\<rparr>), cleanupReq := True\<rparr>)"

definition clearMsgQ :: "nat \<Rightarrow> rdp \<Rightarrow> rdp" where
  "clearMsgQ node s =
     upd_conn node (\<lambda>c. c\<lparr>ackExpected := frameToSend c\<rparr>)
       (fold (drop_pending node) (pendList (conntable s node)) s)"

definition closeConnection :: "nat \<Rightarrow> bool \<Rightarrow> rdp \<Rightarrow> rdp" where
  "closeConnection node callback s =
     (let s1 = clearMsgQ node s;
          (r, s2) = random32 s1;
          s3 = upd_conn node (\<lambda>c. c\<lparr>cstate := CLOSED, ackPending := 0, msgPending := 0,
                 ConnID_out := r, retrans := 0, totRetrans := 0, totSent := 0, totNACK := 0,
                 tmout := timerclear, TTA := timerclear\<rparr>) s2
      in if callback then RDPCallback (LOST_CONNECTION node) s3 else s3)"

text \<open>\<open>handleErr\<close>: 0 is \<open>Inr\<close>, -1 with its \<open>errno\<close> is \<open>Inl\<close>.\<close>

definition handleErr :: "errno \<Rightarrow> errqueue \<Rightarrow> rdp \<Rightarrow> (errno + unit) \<times> rdp" where
  "handleErr eno q s =
     (case q of
        ErrqEmpty \<Rightarrow> (Inr (), s)
      | ErrqFail e \<Rightarrow> (if e = EAGAIN then (Inr (), s) else (Inl e, s))
      | ErrqBad \<Rightarrow> (Inl eno, s)
      | ErrqFrom a \<Rightarrow>
          let node = lookupIPTable a (iptab s) in
          if node < 0 then (Inl ELNRNG, s)
          else if eno = ECONNREFUSED \<or> eno = EHOSTUNREACH \<or> eno = ENOENT
               then (Inr (), closeConnection (nat node) True s)
               else (Inr (), s))"

section \<open>Sending and receiving packets\<close>

text \<open>
  The restart loop of \<open>MYsendto\<close> runs over the script of results; at its end \<open>sendto()\<close> succeeds.
\<close>

fun sendto_loop ::
  "sendres list \<Rightarrow> nat \<Rightarrow> rdphdr \<Rightarrow> byte list \<Rightarrow> rdp \<Rightarrow> (errno + int) \<times> rdp" where
  "sendto_loop [] node h d s =
     (Inr (int (RDP_HDR_SIZE + length d)), emit (EvSend node h d) (s\<lparr>sendq := []\<rparr>))"
| "sendto_loop (SendOk # q) node h d s =
     (Inr (int (RDP_HDR_SIZE + length d)), emit (EvSend node h d) (s\<lparr>sendq := q\<rparr>))"
| "sendto_loop (SendErr eno eq # q) node h d s =
     (if eno = EINTR then sendto_loop q node h d s
      else if eno = ECONNREFUSED \<or> eno = EHOSTUNREACH \<or> eno = ENOENT then
        (case handleErr eno eq (s\<lparr>sendq := q\<rparr>) of
           (Inl e, s1) \<Rightarrow> (Inl e, s1)
         | (Inr _, s1) \<Rightarrow>
             if cstate (conntable s1 node) = CLOSED then (Inl eno, s1)
             else sendto_loop q node h d s1)
      else (Inl eno, s\<lparr>sendq := q\<rparr>))"

definition MYsendto :: "nat \<Rightarrow> rdphdr \<Rightarrow> byte list \<Rightarrow> rdp \<Rightarrow> (errno + int) \<times> rdp" where
  "MYsendto node h d s =
     (if sin_addr (conntable s node) = INADDR_ANY then (Inl EINVAL, s)
      else sendto_loop (sendq s) node h d s)"

text \<open>
  \<open>MYrecvfrom\<close>: \<open>Inl\<close> is -1 with its \<open>errno\<close>, \<open>Inr None\<close> is 0, \<open>Inr (Some d)\<close> the datagram in the
  buffer.  A peeked datagram stays in the queue.  An empty queue would block: \<open>EAGAIN\<close>.
\<close>

fun recvfrom_loop :: "bool \<Rightarrow> recvres list \<Rightarrow> rdp \<Rightarrow> (errno + dgram option) \<times> rdp" where
  "recvfrom_loop peek [] s = (Inl EAGAIN, s\<lparr>recvq := []\<rparr>)"
| "recvfrom_loop peek (RecvDgram d # q) s =
     (Inr (if d_ret d = 0 then None else Some d),
      s\<lparr>recvq := (if peek then RecvDgram d # q else q)\<rparr>)"
| "recvfrom_loop peek (RecvErr eno eq sel # q) s =
     (if eno = EINTR then recvfrom_loop peek q s
      else if eno = ECONNREFUSED \<or> eno = EHOSTUNREACH \<or> eno = ENOENT then
        (case handleErr eno eq (s\<lparr>recvq := q\<rparr>) of
           (Inl e, s1) \<Rightarrow> (Inl e, s1)
         | (Inr _, s1) \<Rightarrow>
             (case sel of
                Inl e \<Rightarrow> (Inl e, s1)
              | Inr pending \<Rightarrow> if pending then recvfrom_loop peek q s1 else (Inr None, s1)))
      else (Inl eno, s\<lparr>recvq := q\<rparr>))"

definition MYrecvfrom :: "bool \<Rightarrow> rdp \<Rightarrow> (errno + dgram option) \<times> rdp" where
  "MYrecvfrom peek s = recvfrom_loop peek (recvq s) s"

definition sendSYN :: "nat \<Rightarrow> rdp \<Rightarrow> rdp" where
  "sendSYN dest s =
     (let c = conntable s dest in
      snd (MYsendto dest \<lparr>h_type = RDP_SYN, h_len = 4, h_seqno = frameToSend c, h_ackno = 0,
             h_connid = ConnID_out c\<rparr> (bytes32 (of_nat (rdpID s))) s))"

definition sendACK :: "nat \<Rightarrow> rdp \<Rightarrow> rdp" where
  "sendACK node s =
     (let c = conntable s node in
      upd_conn node (\<lambda>c. c\<lparr>ackPending := 0\<rparr>)
        (snd (MYsendto node \<lparr>h_type = RDP_ACK, h_len = 0, h_seqno = 0,
           h_ackno = frameExpected c - 1, h_connid = ConnID_out c\<rparr> [] s)))"

definition sendSYNACK :: "nat \<Rightarrow> rdp \<Rightarrow> rdp" where
  "sendSYNACK node s =
     (let c = conntable s node in
      upd_conn node (\<lambda>c. c\<lparr>ackPending := 0\<rparr>)
        (snd (MYsendto node \<lparr>h_type = RDP_SYNACK, h_len = 0, h_seqno = frameToSend c,
           h_ackno = frameExpected c - 1, h_connid = ConnID_out c\<rparr> [] s)))"

definition sendNACK :: "nat \<Rightarrow> rdp \<Rightarrow> rdp" where
  "sendNACK node s =
     (let c = conntable s node;
          s1 = upd_conn node (\<lambda>c. c\<lparr>totNACK := totNACK c + 1\<rparr>) s in
      snd (MYsendto node \<lparr>h_type = RDP_NACK, h_len = 0, h_seqno = 0,
           h_ackno = frameExpected c - 1, h_connid = ConnID_out c\<rparr> [] s1))"

section \<open>Resending\<close>

text \<open>The loop over the pending messages in the \<open>ACTIVE\<close> case of \<open>resendMsgs\<close>.\<close>

fun resend_loop :: "nat \<Rightarrow> nat list \<Rightarrow> rdp \<Rightarrow> rdp" where
  "resend_loop node [] s = s"
| "resend_loop node (i # is) s =
     (if mb_deleted (MsgPool s i) then resend_loop node is s
      else
        let s1 = upd_msg i (\<lambda>m. m\<lparr>mb_hdr := (mb_hdr m)
                   \<lparr>h_ackno := frameExpected (conntable s node) - 1\<rparr>\<rparr>) s;
            m = MsgPool s1 i
        in case MYsendto node (mb_hdr m) (take (nat (mb_len m)) (mb_data m)) s1 of
             (Inl e, s2) \<Rightarrow> s2
           | (Inr r, s2) \<Rightarrow> resend_loop node is s2)"

definition resendMsgs :: "nat \<Rightarrow> rdp \<Rightarrow> rdp" where
  "resendMsgs node s =
     (if pendList (conntable s node) = [] then s
      else
        let (tv, s1) = gettimeofday s in
        if \<not> tmout (conntable s1 node) < tv then s1
        else
          let s2 = upd_conn node (\<lambda>c. c\<lparr>tmout := timeradd tv (RESEND_TIMEOUT s1)\<rparr>) s1 in
          if retrans (conntable s2 node) > RDPMaxRetransCount s2
          then closeConnection node True s2
          else
            let s3 = upd_conn node (\<lambda>c. c\<lparr>retrans := retrans c + 1,
                       totRetrans := totRetrans c + 1\<rparr>) s2;
                s4 = s3\<lparr>retransCount := retransCount s3 + 1\<rparr>
            in case cstate (conntable s4 node) of
                 CLOSED \<Rightarrow> s4
               | SYN_SENT \<Rightarrow> sendSYN node s4
               | SYN_RECVD \<Rightarrow> sendSYNACK node s4
               | ACTIVE \<Rightarrow>
                   upd_conn node (\<lambda>c. c\<lparr>ackPending := 0\<rparr>)
                     (resend_loop node (pendList (conntable s4 node)) s4))"

section \<open>The connection state machine\<close>

text \<open>
  What both transitions to \<open>ACTIVE\<close> do: pending messages are sent and counted into \<open>frameToSend\<close>,
  otherwise an explicit ACK goes out; the host is told of the new connection.
\<close>

definition go_active :: "nat \<Rightarrow> rdp \<Rightarrow> rdp" where
  "go_active node s =
     (let s1 = upd_conn node (\<lambda>c. c\<lparr>cstate := ACTIVE\<rparr>) s;
          s2 = (if msgPending (conntable s1 node) \<noteq> 0
                then upd_conn node (\<lambda>c. c\<lparr>frameToSend := frameToSend c + of_int (msgPending c),
                       msgPending := 0\<rparr>) (resendMsgs node s1)
                else sendACK node s1)
      in RDPCallback (NEW_CONNECTION node) s2)"

definition set_peer :: "rdphdr \<Rightarrow> RDPState \<Rightarrow> Rconninfo \<Rightarrow> Rconninfo" where
  "set_peer hdr st c = c\<lparr>cstate := st, frameExpected := h_seqno hdr, ConnID_in := h_connid hdr\<rparr>"

definition updateState_closed :: "rdphdr \<Rightarrow> nat \<Rightarrow> rdp \<Rightarrow> rdp" where
  "updateState_closed hdr node s =
     (if h_type hdr = RDP_SYN then sendSYNACK node (upd_conn node (set_peer hdr SYN_RECVD) s)
      else sendSYN node (upd_conn node (\<lambda>c. c\<lparr>cstate := SYN_SENT\<rparr>) s))"

definition updateState_synsent :: "rdphdr \<Rightarrow> nat \<Rightarrow> rdp \<Rightarrow> rdp" where
  "updateState_synsent hdr node s =
     (if h_type hdr = RDP_SYN then sendSYNACK node (upd_conn node (set_peer hdr SYN_RECVD) s)
      else if h_type hdr = RDP_SYNACK then go_active node (upd_conn node (set_peer hdr ACTIVE) s)
      else sendSYN node s)"

text \<open>
  In \<open>SYN_RECVD\<close> the connection ID is overwritten only where it differs, which comes to the same.
\<close>

definition updateState_synrecvd :: "rdphdr \<Rightarrow> nat \<Rightarrow> rdp \<Rightarrow> rdp" where
  "updateState_synrecvd hdr node s =
     (if h_type hdr = RDP_SYN then
        sendSYNACK node (upd_conn node (\<lambda>c. c\<lparr>frameExpected := h_seqno hdr,
          ConnID_in := (if h_connid hdr \<noteq> ConnID_in c then h_connid hdr else ConnID_in c)\<rparr>) s)
      else if h_type hdr = RDP_SYNACK then
        go_active node (upd_conn node (\<lambda>c. c\<lparr>frameExpected := h_seqno hdr,
          ConnID_in := (if h_connid hdr \<noteq> ConnID_in c then h_connid hdr else ConnID_in c)\<rparr>) s)
      else if h_type hdr = RDP_ACK \<or> h_type hdr = RDP_DATA then go_active node s
      else sendSYN node (upd_conn node (\<lambda>c. c\<lparr>cstate := SYN_SENT\<rparr>) s))"

definition updateState_active :: "rdphdr \<Rightarrow> nat \<Rightarrow> rdp \<Rightarrow> rdp" where
  "updateState_active hdr node s =
     (if h_connid hdr \<noteq> ConnID_in (conntable s node) then
        (if h_type hdr = RDP_SYN then
           sendSYNACK node (upd_conn node (set_peer hdr SYN_RECVD) (closeConnection node True s))
         else if h_type hdr = RDP_SYNACK then
           sendSYN node (upd_conn node (set_peer hdr SYN_SENT) (closeConnection node True s))
         else closeConnection node True s)
      else
        (if h_type hdr = RDP_SYN then
           sendSYNACK node (upd_conn node (\<lambda>c. c\<lparr>cstate := SYN_RECVD, frameExpected := h_seqno hdr\<rparr>)
             (closeConnection node True s))
         else s))"

definition updateState :: "rdphdr \<Rightarrow> nat \<Rightarrow> rdp \<Rightarrow> rdp" where
  "updateState hdr node s =
     (case cstate (conntable s node) of
        CLOSED \<Rightarrow> updateState_closed hdr node s
      | SYN_SENT \<Rightarrow> updateState_synsent hdr node s
      | SYN_RECVD \<Rightarrow> updateState_synrecvd hdr node s
      | ACTIVE \<Rightarrow> updateState_active hdr node s)"

section \<open>The timeout handler\<close>

definition timeout_resend :: "timeval \<Rightarrow> nat \<Rightarrow> rdp \<Rightarrow> rdp" where
  "timeout_resend tv i s =
     (let m = MsgPool s i; node = nat (mb_node m) in
      if mb_deleted m then s
      else if tmout (conntable s node) < tv then resendMsgs node s else s)"

text \<open>Release a buffer and open the window of its node again.\<close>

definition release_buf :: "nat \<Rightarrow> nat \<Rightarrow> rdp \<Rightarrow> rdp" where
  "release_buf node i s = upd_conn node (\<lambda>c. c\<lparr>window := window c + 1\<rparr>) (putMsg i s)"

definition timeout_cleanup :: "nat \<Rightarrow> rdp \<Rightarrow> rdp" where
  "timeout_cleanup i s =
     (let m = MsgPool s i; node = nat (mb_node m) in
      if mb_deleted m then
        (let cb = (window (conntable s node) = 0);
             s1 = release_buf node i s
         in if cb then RDPCallback (CAN_CONTINUE node) s1 else s1)
      else s)"

definition handleTimeoutRDP :: "rdp \<Rightarrow> rdp" where
  "handleTimeoutRDP s =
     (let (tv, s1) = gettimeofday s;
          s2 = fold (timeout_resend tv) (AckList s1) s1
      in if cleanupReq s2
         then (fold timeout_cleanup (AckList s2) s2)\<lparr>cleanupReq := False\<rparr>
         else s2)"

section \<open>Acknowledgments\<close>

text \<open>
  The loop of \<open>doACK\<close> over the pending messages; the flag collects whether the window was closed.
\<close>

fun doACK_loop ::
  "nat list \<Rightarrow> nat \<Rightarrow> int32 \<Rightarrow> bool \<Rightarrow> timeval \<Rightarrow> bool \<Rightarrow> rdp \<Rightarrow> bool \<times> rdp" where
  "doACK_loop [] n ackno stat now cb s = (cb, s)"
| "doACK_loop (i # is) n ackno stat now cb s =
     (let m = MsgPool s i; cb' = (cb \<or> window (conntable s n) = 0) in
      if mb_deleted m then doACK_loop is n ackno stat now cb' (release_buf n i s)
      else if RSEQCMP (h_seqno (mb_hdr m)) ackno \<le> 0 then
        let s1 = upd_conn n (\<lambda>c. c\<lparr>totSent := totSent c + 1\<rparr>) s;
            s2 = (if stat \<and> totSent (conntable s1 n) > NUM_WARMUP
                  then upd_conn n (\<lambda>c. c\<lparr>TTA := timeradd (timersub now (mb_sentTime m)) (TTA c)\<rparr>) s1
                  else s1);
            s3 = upd_conn n (\<lambda>c. c\<lparr>ackExpected := ackExpected c + 1, retrans := 0\<rparr>)
                   (release_buf n i s2)
        in doACK_loop is n ackno stat now cb' s3
      else (cb, s))"

text \<open>The answers to a duplicated and to a missing data packet.\<close>

definition doACK_data :: "rdphdr \<Rightarrow> nat \<Rightarrow> rdp \<Rightarrow> rdp" where
  "doACK_data hdr n s =
     (if h_type hdr = RDP_DATA then
        (let s1 = (if RSEQCMP (h_seqno hdr) (frameExpected (conntable s n)) < 0
                   then sendACK n s else s)
         in if RSEQCMP (h_seqno hdr) (frameExpected (conntable s1 n)) > 0
            then sendNACK n s1 else s1)
      else s)"

definition doACK :: "rdphdr \<Rightarrow> nat \<Rightarrow> rdp \<Rightarrow> rdp" where
  "doACK hdr n s =
     (if h_type hdr = RDP_SYN \<or> h_type hdr = RDP_SYNACK then s
      else if h_connid hdr \<noteq> ConnID_in (conntable s n) then updateState hdr n s
      else
        let s1 = doACK_data hdr n s;
            stat = RDPStatistics s;
            (now, s2) = (if stat then gettimeofday s1 else (timerclear, s1));
            (cb, s3) = doACK_loop (pendList (conntable s2 n)) n (h_ackno hdr) stat now False s2
        in if cb then RDPCallback (CAN_CONTINUE n) s3 else s3)"

definition handleControlPacket :: "rdphdr \<Rightarrow> nat \<Rightarrow> rdp \<Rightarrow> rdp" where
  "handleControlPacket hdr node s =
     (if h_type hdr = RDP_ACK then
        (if cstate (conntable s node) \<noteq> ACTIVE then updateState hdr node s else doACK hdr node s)
      else if h_type hdr = RDP_NACK then
        (let s1 = (if cstate (conntable s node) \<noteq> ACTIVE then updateState hdr node s
                   else doACK hdr node s)
         in if cstate (conntable s1 node) = ACTIVE then resendMsgs node s1 else s1)
      else if h_type hdr = RDP_SYN \<or> h_type hdr = RDP_SYNACK then updateState hdr node s
      else s)"

section \<open>Changing the address of a node\<close>

definition RDP_updateNode :: "int \<Rightarrow> uint32 \<Rightarrow> rdp \<Rightarrow> bool outcome \<times> rdp" where
  "RDP_updateNode node addr s =
     (if node < 0 \<or> node \<ge> int (nrOfNodes s) then (Ret False, s)
      else
        let n = nat node in
        if sin_addr (conntable s n) = addr then (Ret True, s)
        else
          let s1 = (if cstate (conntable s n) \<noteq> CLOSED then closeConnection n False s else s);
              s2 = s1\<lparr>iptab := snd (rmFromIPTable (sin_addr (conntable s1 n)) node (iptab s1))\<rparr>;
              s3 = upd_conn n (\<lambda>c. c\<lparr>sin_addr := addr\<rparr>) s2
          in if addr \<noteq> INADDR_ANY \<and> addr \<noteq> INADDR_NONE then
               (case addToIPTable addr node (iptab s3) of
                  None \<Rightarrow> (Exit, s3)
                | Some t \<Rightarrow> (Ret True, s3\<lparr>iptab := t\<rparr>))
             else (Ret True, s3))"

section \<open>The socket handler\<close>

text \<open>
  Dropping a peeked message: fetch it and forget it; a failure to fetch ends the process.
\<close>

definition fetch_and :: "int outcome \<Rightarrow> rdp \<Rightarrow> int outcome \<times> rdp" where
  "fetch_and r s = (case MYrecvfrom False s of (Inl e, s1) \<Rightarrow> (Exit, s1) | (Inr _, s1) \<Rightarrow> (r, s1))"

text \<open>
  The part of \<open>handleRDP\<close> after the sender is known to be node \<open>n\<close> and the closed timer was
  checked.
\<close>

definition handleRDP_from :: "dgram \<Rightarrow> nat \<Rightarrow> rdp \<Rightarrow> int outcome \<times> rdp" where
  "handleRDP_from d n s =
     (if h_type (d_hdr d) \<noteq> RDP_DATA then
        (case MYrecvfrom False s of
           (Inr (Some d'), s1) \<Rightarrow> (Ret 0, handleControlPacket (d_hdr d') n s1)
         | (_, s1) \<Rightarrow> (Ret 0, s1))
      else if RSEQCMP (h_seqno (d_hdr d)) (frameExpected (conntable s n)) \<noteq> 0
              \<or> cstate (conntable s n) \<noteq> ACTIVE then
        (case MYrecvfrom False s of
           (Inl e, s1) \<Rightarrow> (Fail e, s1)
         | (Inr None, s1) \<Rightarrow> (Ret 0, s1)
         | (Inr (Some d'), s1) \<Rightarrow>
             (Ret 0, if cstate (conntable s1 n) = ACTIVE then doACK (d_hdr d') n s1
                     else updateState (d_hdr d') n s1))
      else if hasDispatcher s then (Ret 0, emit EvDispatch s)
      else (Ret 1, s))"

definition handleRDP_known :: "dgram \<Rightarrow> nat \<Rightarrow> rdp \<Rightarrow> int outcome \<times> rdp" where
  "handleRDP_known d n s =
     (if timerisset (closed (conntable s n)) then
        (let (tv, s1) = gettimeofday s in
         if tv < closed (conntable s1 n) then fetch_and (Ret 0) s1
         else handleRDP_from d n (upd_conn n (\<lambda>c. c\<lparr>closed := timerclear\<rparr>) s1))
      else handleRDP_from d n s)"

text \<open>
  The callback for an unknown sender may change the address of a node by \<open>RDP_updateNode\<close>; the
  parameter \<open>upd\<close> is that call, if the host makes it.
\<close>

definition unknown_sender :: "(int \<times> uint32) option \<Rightarrow> uint32 \<Rightarrow> rdp \<Rightarrow> bool \<times> rdp" where
  "unknown_sender upd addr s =
     (let s1 = RDPCallback (UNKNOWN_SENDER addr) s in
      case upd of
        None \<Rightarrow> (True, s1)
      | Some (node, a) \<Rightarrow>
          (case RDP_updateNode node a s1 of (Exit, s2) \<Rightarrow> (False, s2) | (_, s2) \<Rightarrow> (True, s2)))"

definition handleRDP_sender ::
  "(int \<times> uint32) option \<Rightarrow> dgram \<Rightarrow> rdp \<Rightarrow> int outcome \<times> rdp" where
  "handleRDP_sender upd d s =
     (let from = lookupIPTable (d_addr d) (iptab s);
          (alive, s1) = (if from < 0 \<and> h_type (d_hdr d) = RDP_SYN \<and> hasCallback s
                         then unknown_sender upd (d_addr d) s else (True, s));
          from' = lookupIPTable (d_addr d) (iptab s1)
      in if \<not> alive then (Exit, s1)
         else if from' < 0 then fetch_and (Fail ELNRNG) s1
         else handleRDP_known d (nat from') s1)"

text \<open>
  The artificial packet loss drops a packet when \<open>100.0*rand()/(RAND_MAX+1.0) < RDPPktLoss\<close>, with
  \<open>RAND_MAX\<close> one less than \<open>2 ^ 31\<close>: the quotient is exact, so the comparison is one of integers.
\<close>

definition handleRDP :: "(int \<times> uint32) option \<Rightarrow> rdp \<Rightarrow> int outcome \<times> rdp" where
  "handleRDP upd s =
     (case MYrecvfrom True s of
        (Inl e, s1) \<Rightarrow> (Fail e, s1)
      | (Inr None, s1) \<Rightarrow> (Ret 0, s1)
      | (Inr (Some d), s1) \<Rightarrow>
          let (lost, s2) = (if RDPPktLoss s1 \<noteq> 0
                then (let (r, s') = random32 s1
                      in (100 * uint r < RDPPktLoss s1 * 2 ^ 31, s'))
                else (False, s1))
          in if lost then fetch_and (Ret 0) s2
             else if d_port d \<noteq> sin_port (conntable s2 (rdpID s2)) then fetch_and (Fail ECHRNG) s2
             else handleRDP_sender upd d s2)"

section \<open>The interface: sending\<close>

text \<open>
  Setting up a message buffer for \<open>len\<close> bytes: a small frame of the pool or one of \<open>malloc()\<close>.
\<close>

definition get_frame :: "nat \<Rightarrow> rdp \<Rightarrow> frame option \<times> rdp" where
  "get_frame len s =
     (if len \<le> RDP_SMALL_DATA_SIZE
      then (let (k, s1) = getSMsg s in (map_option SmallFrame k, s1))
      else (let (ok, s1) = malloc s in (if ok then Some LargeFrame else None, s1)))"

text \<open>The buffer \<open>i\<close> with frame \<open>f\<close> is filled with the data and put into the lists of node \<open>n\<close>.\<close>

definition queue_msg :: "nat \<Rightarrow> byte list \<Rightarrow> nat \<Rightarrow> frame \<Rightarrow> rdp \<Rightarrow> rdp" where
  "queue_msg n buf i f s =
     (let (now, s1) = gettimeofday s;
          s2 = (if pendList (conntable s1 n) = [] \<and> cstate (conntable s1 n) = ACTIVE
                then upd_conn n (\<lambda>c. c\<lparr>tmout := timeradd now (RESEND_TIMEOUT s1), retrans := 0\<rparr>) s1
                else s1);
          s3 = upd_conn n (\<lambda>c. c\<lparr>pendList := pendList c @ [i]\<rparr>) s2;
          c = conntable s3 n;
          s4 = upd_msg i (\<lambda>m. m\<lparr>mb_frame := Some f, mb_sentTime := now, mb_node := int n,
                 mb_len := int (length buf),
                 mb_hdr := \<lparr>h_type = RDP_DATA, h_len = of_nat (length buf),
                   h_seqno = frameToSend c + of_int (msgPending c),
                   h_ackno = frameExpected c - 1, h_connid = ConnID_out c\<rparr>,
                 mb_data := buf\<rparr>) s3;
          s5 = upd_conn n (\<lambda>c. c\<lparr>ackPending := 0\<rparr>) s4;
          s6 = s5\<lparr>AckList := AckList s5 @ [i]\<rparr>
      in upd_conn n (\<lambda>c. c\<lparr>window := window c - 1\<rparr>) s6)"

text \<open>The switch on the state of the connection, with the value it leaves in \<open>retval\<close>.\<close>

definition transmit :: "nat \<Rightarrow> nat \<Rightarrow> rdp \<Rightarrow> (errno + int) \<times> rdp" where
  "transmit n i s =
     (let len = mb_len (MsgPool s i) in
      case cstate (conntable s n) of
        CLOSED \<Rightarrow>
          (Inr (len + int RDP_HDR_SIZE), sendSYN n (upd_conn n (\<lambda>c. c\<lparr>cstate := SYN_SENT,
             msgPending := msgPending c + 1\<rparr>) s))
      | SYN_SENT \<Rightarrow>
          (Inr (len + int RDP_HDR_SIZE), sendSYN n (upd_conn n (\<lambda>c. c\<lparr>
             msgPending := msgPending c + 1\<rparr>) s))
      | SYN_RECVD \<Rightarrow>
          (Inr (len + int RDP_HDR_SIZE), sendSYNACK n (upd_conn n (\<lambda>c. c\<lparr>
             msgPending := msgPending c + 1\<rparr>) s))
      | ACTIVE \<Rightarrow>
          MYsendto n (mb_hdr (MsgPool s i)) (mb_data (MsgPool s i))
            (upd_conn n (\<lambda>c. c\<lparr>frameToSend := frameToSend c + 1\<rparr>) s))"

definition send_buffered :: "nat \<Rightarrow> byte list \<Rightarrow> rdp \<Rightarrow> int outcome \<times> rdp" where
  "send_buffered n buf s =
     (case getMsg s of
        (None, s1) \<Rightarrow> (Fail EAGAIN, s1)
      | (Some i, s1) \<Rightarrow>
          (case get_frame (length buf) s1 of
             (None, s2) \<Rightarrow> (Fail ENOMEM, s2)
           | (Some f, s2) \<Rightarrow>
               (case transmit n i (queue_msg n buf i f s2) of
                  (Inl e, s3) \<Rightarrow>
                    if e = ENOBUFS
                    then (Ret (int (length buf) - int RDP_HDR_SIZE), s3)
                    else (Fail e, s3)
                | (Inr r, s3) \<Rightarrow> (Ret (r - int RDP_HDR_SIZE), s3))))"

definition Rsendto :: "int \<Rightarrow> byte list \<Rightarrow> rdp \<Rightarrow> int outcome \<times> rdp" where
  "Rsendto node buf s =
     (if node < 0 \<or> node \<ge> int (nrOfNodes s) then (Fail EHOSTUNREACH, s)
      else
        let n = nat node; c = conntable s n in
        if sin_addr c = INADDR_ANY \<or> sin_addr c = INADDR_NONE then (Fail EHOSTUNREACH, s)
        else if window c = 0 then (Fail EAGAIN, s)
        else if length buf > RDP_MAX_DATA_SIZE then (Fail EMSGSIZE, s)
        else if cstate c = CLOSED \<and> timerisset (closed c) then
          (let (tv, s1) = gettimeofday s in
           if tv < closed c then (Fail ECONNRESET, s1)
           else send_buffered n buf (upd_conn n (\<lambda>c. c\<lparr>closed := timerclear\<rparr>) s1))
        else send_buffered n buf s)"

section \<open>The interface: receiving\<close>

text \<open>
  The data part of \<open>Rrecvfrom\<close>: result, node written through the pointer (-1 if none) and the
  bytes copied to the caller's buffer.
\<close>

definition accept_data ::
  "dgram \<Rightarrow> nat \<Rightarrow> nat \<Rightarrow> int \<Rightarrow> rdp \<Rightarrow> (int outcome \<times> int \<times> byte list) \<times> rdp" where
  "accept_data d n len node s =
     (let s1 = doACK (d_hdr d) n s in
      if frameExpected (conntable s1 n) = h_seqno (d_hdr d) then
        (let s2 = upd_conn n (\<lambda>c. c\<lparr>frameExpected := frameExpected c + 1,
                    ackPending := ackPending c + 1\<rparr>) s1;
             s3 = (if ackPending (conntable s2 n) \<ge> RDPMaxAckPending s2 then sendACK n s2 else s2)
         in if len < unat (h_len (d_hdr d)) then ((Fail EMSGSIZE, node, []), s3)
            else ((Ret (d_ret d - int RDP_HDR_SIZE), int n,
                   take (unat (h_len (d_hdr d))) (d_data d)), s3))
      else ((Fail EAGAIN, -1, []), s1))"

definition receive_from ::
  "dgram \<Rightarrow> nat \<Rightarrow> nat \<Rightarrow> int \<Rightarrow> rdp \<Rightarrow> (int outcome \<times> int \<times> byte list) \<times> rdp" where
  "receive_from d n len node s =
     (if h_type (d_hdr d) \<noteq> RDP_DATA
      then ((Fail EAGAIN, -1, []), handleControlPacket (d_hdr d) n s)
      else
        case cstate (conntable s n) of
          CLOSED \<Rightarrow> ((Fail EAGAIN, -1, []), updateState (d_hdr d) n s)
        | SYN_SENT \<Rightarrow> ((Fail EAGAIN, -1, []), updateState (d_hdr d) n s)
        | SYN_RECVD \<Rightarrow> accept_data d n len node (updateState (d_hdr d) n s)
        | ACTIVE \<Rightarrow> accept_data d n len node s)"

text \<open>\<open>nodep\<close> is what the node pointer points to, \<open>msgp\<close> whether the buffer pointer is not NULL.\<close>

definition Rrecvfrom ::
  "int option \<Rightarrow> bool \<Rightarrow> nat \<Rightarrow> rdp \<Rightarrow> (int outcome \<times> int \<times> byte list) \<times> rdp" where
  "Rrecvfrom nodep msgp len s =
     (case nodep of
        None \<Rightarrow> ((Fail EINVAL, -1, []), s)
      | Some node \<Rightarrow>
          if \<not> msgp then ((Fail EINVAL, node, []), s)
          else if node < -1 \<or> node \<ge> int (nrOfNodes s) then ((Fail EINVAL, node, []), s)
          else if node \<noteq> -1 \<and> cstate (conntable s (nat node)) \<noteq> ACTIVE
               then ((Fail EAGAIN, node, []), s)
          else
            (case MYrecvfrom False s of
               (Inl e, s1) \<Rightarrow>
                 if e = EAGAIN then ((Fail EAGAIN, node, []), s1) else ((Exit, node, []), s1)
             | (Inr None, s1) \<Rightarrow> ((Ret 0, node, []), s1)
             | (Inr (Some d), s1) \<Rightarrow>
                 let from = lookupIPTable (d_addr d) (iptab s1) in
                 if from < 0 then ((Fail ELNRNG, node, []), s1)
                 else receive_from d (nat from) len node s1))"

section \<open>The interface: state and parameters\<close>

definition closeConnRDP :: "nat \<Rightarrow> rdp \<Rightarrow> rdp" where
  "closeConnRDP node s =
     (let s1 = closeConnection node False s;
          (tv, s2) = gettimeofday s1
      in upd_conn node (\<lambda>c. c\<lparr>closed := timeradd tv (CLOSED_TIMEOUT s2)\<rparr>) s2)"

definition RDP_getState :: "int \<Rightarrow> rdp \<Rightarrow> RDPState option" where
  "RDP_getState node s =
     (if node < 0 \<or> node \<ge> int (nrOfNodes s) then None else Some (cstate (conntable s (nat node))))"

definition RDP_getNumPend :: "int \<Rightarrow> rdp \<Rightarrow> int" where
  "RDP_getNumPend node s =
     (if node < 0 \<or> node \<ge> int (nrOfNodes s) then -1 else msgPending (conntable s (nat node)))"

definition setPktLossRDP :: "int \<Rightarrow> rdp \<Rightarrow> rdp" where
  "setPktLossRDP rate s = (if 0 \<le> rate \<and> rate \<le> 100 then s\<lparr>RDPPktLoss := rate\<rparr> else s)"

definition setMaxRetransRDP :: "int \<Rightarrow> rdp \<Rightarrow> rdp" where
  "setMaxRetransRDP limit s = (if limit > 0 then s\<lparr>RDPMaxRetransCount := limit\<rparr> else s)"

definition setMaxAckPendRDP :: "int \<Rightarrow> rdp \<Rightarrow> rdp" where
  "setMaxAckPendRDP limit s = s\<lparr>RDPMaxAckPending := limit\<rparr>"

definition setRsndTmOutRDP :: "int \<Rightarrow> rdp \<Rightarrow> rdp" where
  "setRsndTmOutRDP timeout s =
     (if timeout > 0
      then s\<lparr>RESEND_TIMEOUT := Timeval (timeout div 1000) (timeout mod 1000 * 1000)\<rparr> else s)"

definition getRsndTmOutRDP :: "rdp \<Rightarrow> int" where
  "getRsndTmOutRDP s = tv_sec (RESEND_TIMEOUT s) * 1000 + tv_usec (RESEND_TIMEOUT s) div 1000"

definition setClsdTmOutRDP :: "int \<Rightarrow> rdp \<Rightarrow> rdp" where
  "setClsdTmOutRDP timeout s =
     (if timeout \<ge> 0
      then s\<lparr>CLOSED_TIMEOUT := Timeval (timeout div 1000) (timeout mod 1000 * 1000)\<rparr> else s)"

definition getClsdTmOutRDP :: "rdp \<Rightarrow> int" where
  "getClsdTmOutRDP s = tv_sec (CLOSED_TIMEOUT s) * 1000 + tv_usec (CLOSED_TIMEOUT s) div 1000"

definition reset_stats :: "Rconninfo \<Rightarrow> Rconninfo" where
  "reset_stats c = c\<lparr>TTA := timerclear, totRetrans := 0, totSent := 0, totNACK := 0\<rparr>"

definition RDP_setStatistics :: "bool \<Rightarrow> rdp \<Rightarrow> rdp" where
  "RDP_setStatistics st s =
     (let s1 = s\<lparr>RDPStatistics := st\<rparr> in
      if \<not> st then s1 else fold (\<lambda>n. upd_conn n reset_stats) [0..<nrOfNodes s1] s1)"

end
