(* ===== verification/Rdp_Inv.thy ===== *)
theory Rdp_Inv
  imports Rdp_Ops
begin

text \<open>
  The resource invariant of the protocol.  Every message buffer is either free or pending, every
  pending buffer is in the list of exactly one node, the window of a node is what its list leaves
  of \<open>MAX_WINDOW_SIZE\<close>, every small frame is either free or held by one pending buffer, and the
  sequence numbers of the live pending messages of a node count up from \<open>ackExpected\<close> to
  \<open>frameToSend + msgPending\<close>.  The lemmas show that every operation of \<open>Rdp_Ops\<close> keeps it.
\<close>

section \<open>The invariant\<close>

definition frame_ms :: "msgbuf \<Rightarrow> nat multiset" where
  "frame_ms m = (case mb_frame m of Some (SmallFrame k) \<Rightarrow> {#k#} | _ \<Rightarrow> {#})"

definition used_frames :: "rdp \<Rightarrow> nat multiset" where
  "used_frames s = sum_mset (image_mset (\<lambda>i. frame_ms (MsgPool s i)) (mset (AckList s)))"

text \<open>A pending buffer: its length, and the frame that goes with it.\<close>

definition buf_ok :: "msgbuf \<Rightarrow> bool" where
  "buf_ok m \<longleftrightarrow> mb_len m = int (length (mb_data m)) \<and> length (mb_data m) \<le> RDP_MAX_DATA_SIZE
     \<and> (case mb_frame m of None \<Rightarrow> False
        | Some (SmallFrame k) \<Rightarrow> length (mb_data m) \<le> RDP_SMALL_DATA_SIZE
        | Some LargeFrame \<Rightarrow> length (mb_data m) > RDP_SMALL_DATA_SIZE)"

definition live :: "rdp \<Rightarrow> nat \<Rightarrow> nat list" where
  "live s n = filter (\<lambda>i. \<not> mb_deleted (MsgPool s i)) (pendList (conntable s n))"

definition live_seqs :: "rdp \<Rightarrow> nat \<Rightarrow> int32 list" where
  "live_seqs s n = map (\<lambda>i. h_seqno (mb_hdr (MsgPool s i))) (live s n)"

text \<open>The offset \<open>d\<close> is 0 but between queueing a message and counting it.\<close>

definition seq_ok :: "int32 \<Rightarrow> rdp \<Rightarrow> nat \<Rightarrow> bool" where
  "seq_ok d s n \<longleftrightarrow>
     live_seqs s n = seq_from (ackExpected (conntable s n)) (length (live s n))
     \<and> ackExpected (conntable s n) + of_nat (length (live s n))
         = frameToSend (conntable s n) + of_int (msgPending (conntable s n)) + d"

definition conn_ok :: "rdp \<Rightarrow> nat \<Rightarrow> bool" where
  "conn_ok s n \<longleftrightarrow> (\<forall>i\<in>set (pendList (conntable s n)). mb_node (MsgPool s i) = int n)
     \<and> window (conntable s n) = int MAX_WINDOW_SIZE - int (length (pendList (conntable s n)))
     \<and> 0 \<le> window (conntable s n) \<and> 0 \<le> msgPending (conntable s n)"

definition pool_ok :: "nat \<Rightarrow> rdp \<Rightarrow> bool" where
  "pool_ok N s \<longleftrightarrow>
     mset (MsgFreeList s) + mset (AckList s) = mset [0..<N * MAX_WINDOW_SIZE]
     \<and> mset (AckList s) = (\<Sum>n<N. mset (pendList (conntable s n)))
     \<and> mset (SMsgFreeList s) + used_frames s = mset [0..<N * MAX_WINDOW_SIZE]
     \<and> (\<forall>i\<in>set (AckList s). buf_ok (MsgPool s i))
     \<and> (\<forall>i. mb_node (MsgPool s i) < int N)
     \<and> (\<forall>i. mb_deleted (MsgPool s i) \<longrightarrow> i \<in> set (AckList s))"

definition env_ok :: "nat \<Rightarrow> rdp \<Rightarrow> bool" where
  "env_ok N s \<longleftrightarrow> nrOfNodes s = N \<and> rdpID s < N \<and> False \<notin> set (mallocq s)
     \<and> (\<forall>i. \<forall>e\<in>set (iptab s i). 0 \<le> ip_node e \<and> ip_node e < int N)"

definition rdp_invx :: "(nat \<Rightarrow> int32) \<Rightarrow> nat \<Rightarrow> rdp \<Rightarrow> bool" where
  "rdp_invx d N s \<longleftrightarrow> env_ok N s \<and> pool_ok N s
     \<and> (\<forall>n<N. conn_ok s n) \<and> (\<forall>n<N. seq_ok (d n) s n)"

abbreviation rdp_inv :: "nat \<Rightarrow> rdp \<Rightarrow> bool" where
  "rdp_inv \<equiv> rdp_invx (\<lambda>_. 0)"

section \<open>Changes that do not touch the invariant\<close>

text \<open>What the invariant reads of a connection and of a buffer.\<close>

definition conn_core where
  "conn_core c = (window c, pendList c, ackExpected c, frameToSend c, msgPending c)"

definition msg_core where
  "msg_core m = (mb_node m, mb_len m, mb_frame m, mb_data m, mb_deleted m, h_seqno (mb_hdr m))"

definition core_eq :: "rdp \<Rightarrow> rdp \<Rightarrow> bool" where
  "core_eq s s' \<longleftrightarrow> nrOfNodes s' = nrOfNodes s \<and> rdpID s' = rdpID s \<and> mallocq s' = mallocq s
     \<and> iptab s' = iptab s
     \<and> MsgFreeList s' = MsgFreeList s \<and> SMsgFreeList s' = SMsgFreeList s \<and> AckList s' = AckList s
     \<and> (\<forall>n. conn_core (conntable s' n) = conn_core (conntable s n))
     \<and> (\<forall>i. msg_core (MsgPool s' i) = msg_core (MsgPool s i))"

lemma core_eq_refl [simp, intro]: "core_eq s s"
  by (simp add: core_eq_def)

lemma core_eq_trans: "core_eq s t \<Longrightarrow> core_eq t u \<Longrightarrow> core_eq s u"
  by (simp add: core_eq_def)

lemma core_eq_live: "core_eq s s' \<Longrightarrow> live s' n = live s n"
  unfolding core_eq_def live_def conn_core_def msg_core_def by simp

lemma core_eq_live_seqs: "core_eq s s' \<Longrightarrow> live_seqs s' n = live_seqs s n"
  unfolding live_seqs_def by (simp add: core_eq_live) (simp add: core_eq_def msg_core_def)

lemma core_eq_used_frames: "core_eq s s' \<Longrightarrow> used_frames s' = used_frames s"
  unfolding core_eq_def used_frames_def frame_ms_def msg_core_def by simp

lemma core_eq_buf_ok: "core_eq s s' \<Longrightarrow> buf_ok (MsgPool s' i) = buf_ok (MsgPool s i)"
  unfolding core_eq_def buf_ok_def msg_core_def by (simp split: option.split frame.split)

lemma core_eq_invx:
  assumes eq: "core_eq s s'" and inv: "rdp_invx d N s"
  shows "rdp_invx d N s'"
proof -
  have c: "window (conntable s' n) = window (conntable s n)"
    "pendList (conntable s' n) = pendList (conntable s n)"
    "ackExpected (conntable s' n) = ackExpected (conntable s n)"
    "frameToSend (conntable s' n) = frameToSend (conntable s n)"
    "msgPending (conntable s' n) = msgPending (conntable s n)"
    and m: "mb_node (MsgPool s' i) = mb_node (MsgPool s i)"
      "mb_deleted (MsgPool s' i) = mb_deleted (MsgPool s i)" for n i
    using eq by (auto simp: core_eq_def conn_core_def msg_core_def)
  have "seq_ok (d n) s' n = seq_ok (d n) s n" "conn_ok s' n = conn_ok s n" for n
    by (simp_all add: seq_ok_def conn_ok_def core_eq_live [OF eq] core_eq_live_seqs [OF eq] c m)
  moreover have "pool_ok N s' = pool_ok N s"
    using eq by (simp add: pool_ok_def core_eq_used_frames [OF eq] core_eq_buf_ok [OF eq] c m)
      (simp add: core_eq_def)
  moreover have "env_ok N s' = env_ok N s" using eq by (simp add: env_ok_def core_eq_def)
  ultimately show ?thesis using inv by (simp add: rdp_invx_def)
qed

lemma core_eq_emit [intro]: "core_eq s t \<Longrightarrow> core_eq s (emit e t)"
  by (simp add: core_eq_def emit_def)

lemma core_eq_callback [intro]: "core_eq s t \<Longrightarrow> core_eq s (RDPCallback c t)"
  by (simp add: RDPCallback_def core_eq_emit)

lemma core_eq_upd_conn:
  "core_eq s t \<Longrightarrow> conn_core (f (conntable t n)) = conn_core (conntable t n)
     \<Longrightarrow> core_eq s (upd_conn n f t)"
  by (simp add: core_eq_def upd_conn_def)

lemma core_eq_upd_msg:
  "core_eq s t \<Longrightarrow> msg_core (f (MsgPool t i)) = msg_core (MsgPool t i)
     \<Longrightarrow> core_eq s (upd_msg i f t)"
  by (simp add: core_eq_def upd_msg_def)

lemma core_eq_gettimeofday: "core_eq s (snd (gettimeofday s))"
  by (simp add: core_eq_def gettimeofday_def)

lemma core_eq_random32: "core_eq s (snd (random32 s))"
  by (simp add: core_eq_def random32_def)

lemma invx_callback [pres_intros]: "rdp_invx d N s \<Longrightarrow> rdp_invx d N (RDPCallback c s)"
  by (rule core_eq_invx [OF core_eq_callback]) auto

lemma invx_emit [pres_intros]: "rdp_invx d N s \<Longrightarrow> rdp_invx d N (emit e s)"
  by (rule core_eq_invx [OF core_eq_emit]) auto

lemma invx_gettimeofday: "rdp_invx d N s \<Longrightarrow> gettimeofday s = (tv, s') \<Longrightarrow> rdp_invx d N s'"
  using core_eq_invx [OF core_eq_gettimeofday] by (metis snd_conv)

lemma invx_random32: "rdp_invx d N s \<Longrightarrow> random32 s = (r, s') \<Longrightarrow> rdp_invx d N s'"
  using core_eq_invx [OF core_eq_random32] by (metis snd_conv)

lemma invx_upd_conn:
  "rdp_invx d N s \<Longrightarrow> conn_core (f (conntable s n)) = conn_core (conntable s n)
     \<Longrightarrow> rdp_invx d N (upd_conn n f s)"
  by (rule core_eq_invx [OF core_eq_upd_conn]) auto

text \<open>Fields of the state the invariant does not read.\<close>

lemma invx_fields [simp]:
  "rdp_invx d N (s\<lparr>sendq := a\<rparr>) = rdp_invx d N s"
  "rdp_invx d N (s\<lparr>recvq := b\<rparr>) = rdp_invx d N s"
  "rdp_invx d N (s\<lparr>retransCount := c\<rparr>) = rdp_invx d N s"
  "rdp_invx d N (s\<lparr>cleanupReq := e\<rparr>) = rdp_invx d N s"
  "rdp_invx d N (s\<lparr>RDPStatistics := e\<rparr>) = rdp_invx d N s"
  "rdp_invx d N (s\<lparr>RDPPktLoss := g\<rparr>) = rdp_invx d N s"
  "rdp_invx d N (s\<lparr>RDPMaxRetransCount := g\<rparr>) = rdp_invx d N s"
  "rdp_invx d N (s\<lparr>RDPMaxAckPending := g\<rparr>) = rdp_invx d N s"
  "rdp_invx d N (s\<lparr>RESEND_TIMEOUT := t\<rparr>) = rdp_invx d N s"
  "rdp_invx d N (s\<lparr>CLOSED_TIMEOUT := t\<rparr>) = rdp_invx d N s"
  by (simp_all add: rdp_invx_def env_ok_def pool_ok_def conn_ok_def seq_ok_def live_def
      live_seqs_def used_frames_def)

section \<open>Pending buffers and their nodes\<close>

lemma pend_le_ack: "pool_ok N s \<Longrightarrow> n < N \<Longrightarrow> mset (pendList (conntable s n)) \<subseteq># mset (AckList s)"
  using mset_le_sum [of n N "\<lambda>n. pendList (conntable s n)"] by (simp add: pool_ok_def)

lemma pend_in_ack:
  "pool_ok N s \<Longrightarrow> n < N \<Longrightarrow> i \<in> set (pendList (conntable s n)) \<Longrightarrow> i \<in> set (AckList s)"
  using pend_le_ack [of N s n] by (metis mset_subset_eqD set_mset_mset)

lemma ack_distinct: "pool_ok N s \<Longrightarrow> distinct (AckList s)"
  unfolding pool_ok_def by (metis mset_upt_distinct mset_subset_eq_add_right)

lemma pend_distinct: "pool_ok N s \<Longrightarrow> n < N \<Longrightarrow> distinct (pendList (conntable s n))"
  using pend_le_ack [of N s n] unfolding pool_ok_def
  by (metis mset_upt_distinct mset_subset_eq_add_right subset_mset.trans)

lemma free_not_ack: "pool_ok N s \<Longrightarrow> i \<in> set (MsgFreeList s) \<Longrightarrow> i \<notin> set (AckList s)"
proof
  assume a: "pool_ok N s" "i \<in> set (MsgFreeList s)" "i \<in> set (AckList s)"
  then have "mset (MsgFreeList s @ AckList s) \<subseteq># mset [0..<N * MAX_WINDOW_SIZE]"
    unfolding pool_ok_def by (metis mset_append subset_mset.order_refl)
  then have "distinct (MsgFreeList s @ AckList s)" by (rule mset_upt_distinct)
  with a show False by auto
qed

lemma ack_in_pend:
  assumes "pool_ok N s" "\<forall>n<N. conn_ok s n" "i \<in> set (AckList s)"
  shows "\<exists>n<N. i \<in> set (pendList (conntable s n)) \<and> mb_node (MsgPool s i) = int n"
proof -
  have "i \<in># (\<Sum>n<N. mset (pendList (conntable s n)))"
    using assms(1,3) unfolding pool_ok_def by (metis set_mset_mset)
  then obtain n where "n < N" "i \<in> set (pendList (conntable s n))"
    by (auto simp: set_mset_sum)
  with assms(2) show ?thesis by (auto simp: conn_ok_def)
qed

lemma pend_other:
  assumes "conn_ok s n" "conn_ok s m" "i \<in> set (pendList (conntable s n))" "m \<noteq> n"
  shows "i \<notin> set (pendList (conntable s m))"
  using assms by (auto simp: conn_ok_def)

lemma deleted_pending:
  assumes "rdp_invx d N s" "mb_deleted (MsgPool s i)"
  shows "nat (mb_node (MsgPool s i)) < N \<and> i \<in> set (pendList (conntable s (nat (mb_node (MsgPool s i)))))"
  using assms ack_in_pend [of N s i] unfolding rdp_invx_def pool_ok_def by fastforce

lemma invx_node: "rdp_invx d N s \<Longrightarrow> n < N \<Longrightarrow> nat (mb_node (MsgPool s i)) < N"
proof -
  assume "rdp_invx d N s" "n < N"
  then have "mb_node (MsgPool s i) < int N" by (simp add: rdp_invx_def pool_ok_def)
  with \<open>n < N\<close> show ?thesis by linarith
qed

lemma upd_conn_simps [simp]:
  "nrOfNodes (upd_conn n f s) = nrOfNodes s" "rdpID (upd_conn n f s) = rdpID s"
  "mallocq (upd_conn n f s) = mallocq s" "iptab (upd_conn n f s) = iptab s"
  "MsgPool (upd_conn n f s) = MsgPool s" "MsgFreeList (upd_conn n f s) = MsgFreeList s"
  "SMsgFreeList (upd_conn n f s) = SMsgFreeList s" "AckList (upd_conn n f s) = AckList s"
  "hasCallback (upd_conn n f s) = hasCallback s" "hasDispatcher (upd_conn n f s) = hasDispatcher s"
  "clock (upd_conn n f s) = clock s" "ticks (upd_conn n f s) = ticks s"
  "rnd (upd_conn n f s) = rnd s" "rticks (upd_conn n f s) = rticks s"
  "sendq (upd_conn n f s) = sendq s" "recvq (upd_conn n f s) = recvq s"
  "outp (upd_conn n f s) = outp s" "cleanupReq (upd_conn n f s) = cleanupReq s"
  "RDPMaxRetransCount (upd_conn n f s) = RDPMaxRetransCount s"
  "RDPMaxAckPending (upd_conn n f s) = RDPMaxAckPending s"
  "RDPStatistics (upd_conn n f s) = RDPStatistics s"
  "RESEND_TIMEOUT (upd_conn n f s) = RESEND_TIMEOUT s"
  "CLOSED_TIMEOUT (upd_conn n f s) = CLOSED_TIMEOUT s"
  "conntable (upd_conn n f s) = (conntable s)(n := f (conntable s n))"
  by (simp_all add: upd_conn_def)

lemma pool_ok_upd_conn:
  assumes "pendList (f (conntable s n)) = pendList (conntable s n)"
  shows "pool_ok N (upd_conn n f s) = pool_ok N s"
proof -
  have "pendList (conntable (upd_conn n f s) m) = pendList (conntable s m)" for m
    using assms by simp
  then show ?thesis unfolding pool_ok_def used_frames_def by (simp only: upd_conn_simps)
qed

section \<open>Releasing a buffer\<close>

lemma put_frame_SMsg:
  "buf_ok m \<Longrightarrow> mset (SMsgFreeList (put_frame m s)) = mset (SMsgFreeList s) + frame_ms m"
  by (auto simp: buf_ok_def put_frame_def putSMsg_def frame_ms_def split: option.splits frame.splits)

lemma put_frame_simps [simp]:
  "nrOfNodes (put_frame m s) = nrOfNodes s" "rdpID (put_frame m s) = rdpID s"
  "mallocq (put_frame m s) = mallocq s"
  "iptab (put_frame m s) = iptab s" "MsgPool (put_frame m s) = MsgPool s"
  "AckList (put_frame m s) = AckList s" "MsgFreeList (put_frame m s) = MsgFreeList s"
  "conntable (put_frame m s) = conntable s"
  by (simp_all add: put_frame_def putSMsg_def split: option.split frame.split)

text \<open>The state after a release, field by field.\<close>

definition freed_buf :: "msgbuf \<Rightarrow> msgbuf" where
  "freed_buf m = m\<lparr>mb_frame := None, mb_node := -1, mb_deleted := False, mb_sentTime := timerclear\<rparr>"

lemma release_buf_fields:
  assumes "mb_node (MsgPool s i) = int n"
  shows "nrOfNodes (release_buf n i s) = nrOfNodes s" "rdpID (release_buf n i s) = rdpID s"
    "mallocq (release_buf n i s) = mallocq s" "iptab (release_buf n i s) = iptab s"
    "MsgPool (release_buf n i s) = (MsgPool s)(i := freed_buf (MsgPool s i))"
    "AckList (release_buf n i s) = remove1 i (AckList s)"
    "MsgFreeList (release_buf n i s) = MsgFreeList s @ [i]"
    "SMsgFreeList (release_buf n i s) = SMsgFreeList (put_frame (MsgPool s i) s)"
    "conntable (release_buf n i s) = (conntable s)(n := (conntable s n)
        \<lparr>pendList := remove1 i (pendList (conntable s n)), window := window (conntable s n) + 1\<rparr>)"
  using assms
  by (simp_all add: release_buf_def putMsg_def upd_conn_def upd_msg_def freed_buf_def Let_def fun_eq_iff)

lemma release_pool_ok:
  assumes pool: "pool_ok N s" and conn: "\<forall>n<N. conn_ok s n" and "n < N"
    and i: "i \<in> set (pendList (conntable s n))"
  shows "pool_ok N (release_buf n i s)"
proof -
  have node: "mb_node (MsgPool s i) = int n" using conn \<open>n < N\<close> i by (auto simp: conn_ok_def)
  note f = release_buf_fields [OF node]
  have ia: "i \<in> set (AckList s)" using pend_in_ack [OF pool \<open>n < N\<close> i] .
  have dist: "distinct (AckList s)" using ack_distinct [OF pool] .
  let ?ack = "mset (AckList s)"
  have split: "add_mset i (mset (remove1 i (AckList s))) = ?ack" using ia by simp
  have used: "used_frames s = frame_ms (MsgPool s i) + used_frames (release_buf n i s)"
  proof -
    have "image_mset (\<lambda>j. frame_ms (((MsgPool s)(i := freed_buf (MsgPool s i))) j)) (mset (remove1 i (AckList s)))
        = image_mset (\<lambda>j. frame_ms (MsgPool s j)) (mset (remove1 i (AckList s)))"
    proof (intro image_mset_cong)
      fix j
      assume "j \<in># mset (remove1 i (AckList s))"
      then have "j \<in> set (remove1 i (AckList s))" by (simp only: set_mset_mset)
      then have "j \<noteq> i" using dist by simp
      then show "frame_ms (((MsgPool s)(i := freed_buf (MsgPool s i))) j) = frame_ms (MsgPool s j)"
        by simp
    qed
    then show ?thesis
      by (simp only: used_frames_def f split [symmetric] image_mset_add_mset sum_mset.add_mset)
  qed
  have "mset (remove1 i (AckList s))
      = (\<Sum>m<N. mset (if m = n then remove1 i (pendList (conntable s n)) else pendList (conntable s m)))"
    using sum_mset_remove1 [OF \<open>n < N\<close>, of i "\<lambda>m. pendList (conntable s m)"] i pool split
    unfolding pool_ok_def by (metis add_mset_add_mset_same_iff)
  moreover have "(\<Sum>m<N. mset (pendList (conntable (release_buf n i s) m)))
      = (\<Sum>m<N. mset (if m = n then remove1 i (pendList (conntable s n)) else pendList (conntable s m)))"
    by (intro sum.cong) (auto simp: f)
  ultimately have "mset (AckList (release_buf n i s))
      = (\<Sum>m<N. mset (pendList (conntable (release_buf n i s) m)))" by (simp only: f)
  moreover have "mset (MsgFreeList (release_buf n i s)) + mset (AckList (release_buf n i s))
      = mset [0..<N * MAX_WINDOW_SIZE]"
  proof -
    have "mset (MsgFreeList (release_buf n i s)) + mset (AckList (release_buf n i s))
        = mset (MsgFreeList s) + add_mset i (mset (remove1 i (AckList s)))" by (simp add: f)
    then show ?thesis using pool split unfolding pool_ok_def by metis
  qed
  moreover have "mset (SMsgFreeList (release_buf n i s)) + used_frames (release_buf n i s)
      = mset [0..<N * MAX_WINDOW_SIZE]"
    using pool ia used put_frame_SMsg [of "MsgPool s i" s] unfolding pool_ok_def f(8)
    by (metis union_assoc)
  moreover have "\<forall>j\<in>set (AckList (release_buf n i s)). buf_ok (MsgPool (release_buf n i s) j)"
    using pool dist by (auto simp: f pool_ok_def)
  moreover have "\<forall>j. mb_node (MsgPool (release_buf n i s) j) < int N"
    using pool by (auto simp: f pool_ok_def freed_buf_def)
  moreover have "\<forall>j. mb_deleted (MsgPool (release_buf n i s) j) \<longrightarrow> j \<in> set (AckList (release_buf n i s))"
    using pool dist by (auto simp: f pool_ok_def freed_buf_def)
  ultimately show ?thesis unfolding pool_ok_def by blast
qed

text \<open>
  Releasing a deleted buffer leaves the live messages of every node alone; releasing the first
  live one takes it off the front.
\<close>

lemma release_conn_ok:
  assumes conn: "\<forall>n<N. conn_ok s n" and pool: "pool_ok N s" and "n < N"
    and i: "i \<in> set (pendList (conntable s n))" and "m < N"
  shows "conn_ok (release_buf n i s) m"
proof -
  have node: "mb_node (MsgPool s i) = int n" using conn \<open>n < N\<close> i by (auto simp: conn_ok_def)
  note f = release_buf_fields [OF node]
  have dist: "distinct (pendList (conntable s n))" using pend_distinct [OF pool \<open>n < N\<close>] .
  have pos: "length (pendList (conntable s n)) > 0" using i by (cases "pendList (conntable s n)") auto
  have ok: "conn_ok s n" "conn_ok s m" using conn \<open>n < N\<close> \<open>m < N\<close> by auto
  show ?thesis
  proof (cases "m = n")
    case True
    have "int (length (pendList (conntable s n)) - 1) = int (length (pendList (conntable s n))) - 1"
      using pos by linarith
    with True ok i dist show ?thesis by (auto simp: conn_ok_def f length_remove1)
  next
    case False
    with pend_other [OF ok i] ok show ?thesis by (auto simp: conn_ok_def f)
  qed
qed

lemma live_release:
  assumes "mb_node (MsgPool s i) = int n" "distinct (pendList (conntable s n))"
  shows "live (release_buf n i s) n = remove1 i (live s n)"
proof -
  note f = release_buf_fields [OF assms(1)]
  have "live (release_buf n i s) n
      = filter (\<lambda>j. \<not> mb_deleted (MsgPool s j)) (remove1 i (pendList (conntable s n)))"
    using assms(2) by (auto simp: live_def f intro: filter_cong)
  then show ?thesis by (simp add: live_def filter_remove1)
qed

lemma live_seqs_release:
  assumes "mb_node (MsgPool s i) = int n" "distinct (pendList (conntable s n))"
  shows "live_seqs (release_buf n i s) n
    = map (\<lambda>j. h_seqno (mb_hdr (MsgPool s j))) (remove1 i (live s n))"
  unfolding live_seqs_def live_release [OF assms] using assms
  by (intro map_cong refl) (auto simp: release_buf_fields live_def)

lemma seq_ok_release_other:
  assumes "mb_node (MsgPool s i) = int n" "i \<notin> set (pendList (conntable s m))" "m \<noteq> n"
  shows "seq_ok d (release_buf n i s) m = seq_ok d s m"
proof -
  note f = release_buf_fields [OF assms(1)]
  have "live (release_buf n i s) m = live s m"
    using assms(2,3) by (auto simp: live_def f intro!: filter_cong)
  moreover from this have "live_seqs (release_buf n i s) m = live_seqs s m"
    using assms(2) by (auto simp: live_seqs_def live_def f)
  ultimately show ?thesis using assms(3) by (simp add: seq_ok_def f)
qed

lemma release_deleted_inv [pres_intros]:
  assumes inv: "rdp_invx d N s" and "n < N" and i: "i \<in> set (pendList (conntable s n))"
    and del: "mb_deleted (MsgPool s i)"
  shows "rdp_invx d N (release_buf n i s)"
proof -
  have pool: "pool_ok N s" and conn: "\<forall>n<N. conn_ok s n" and seq: "\<forall>n<N. seq_ok (d n) s n"
    using inv by (auto simp: rdp_invx_def)
  have node: "mb_node (MsgPool s i) = int n" using conn \<open>n < N\<close> i by (auto simp: conn_ok_def)
  note f = release_buf_fields [OF node]
  have dist: "distinct (pendList (conntable s n))" using pend_distinct [OF pool \<open>n < N\<close>] .
  have "i \<notin> set (live s n)" using del by (simp add: live_def)
  then have lv: "live (release_buf n i s) n = live s n"
    "live_seqs (release_buf n i s) n = live_seqs s n"
    using live_release [OF node dist] live_seqs_release [OF node dist]
    by (simp_all add: remove1_idem live_seqs_def)
  have "seq_ok (d m) (release_buf n i s) m" if "m < N" for m
  proof (cases "m = n")
    case True
    with seq \<open>n < N\<close> show ?thesis by (simp add: seq_ok_def lv) (simp add: f seq_ok_def)
  next
    case False
    have "i \<notin> set (pendList (conntable s m))"
      using pend_other [of s n m i] conn \<open>n < N\<close> that i False by blast
    with seq that False show ?thesis by (simp add: seq_ok_release_other [OF node])
  qed
  then show ?thesis
    using release_pool_ok [OF pool conn \<open>n < N\<close> i] release_conn_ok [OF conn pool \<open>n < N\<close> i] inv
    by (simp add: rdp_invx_def env_ok_def f)
qed

definition ack_conn :: "Rconninfo \<Rightarrow> Rconninfo" where
  "ack_conn c = c\<lparr>ackExpected := ackExpected c + 1, retrans := 0\<rparr>"

lemma release_acked_inv [pres_intros]:
  assumes inv: "rdp_invx d N s" and "n < N" and i: "live s n = i # is"
  shows "rdp_invx d N (upd_conn n ack_conn (release_buf n i s))"
    "h_seqno (mb_hdr (MsgPool s i)) = ackExpected (conntable s n)"
proof -
  have pool: "pool_ok N s" and conn: "\<forall>n<N. conn_ok s n" and seq: "\<forall>n<N. seq_ok (d n) s n"
    using inv by (auto simp: rdp_invx_def)
  have ip: "i \<in> set (pendList (conntable s n))"
    using i by (metis filter_is_subset list.set_intros(1) live_def subsetD)
  have node: "mb_node (MsgPool s i) = int n" using conn \<open>n < N\<close> ip by (auto simp: conn_ok_def)
  note f = release_buf_fields [OF node]
  have dist: "distinct (pendList (conntable s n))" using pend_distinct [OF pool \<open>n < N\<close>] .
  let ?r = "release_buf n i s" and ?u = "upd_conn n ack_conn (release_buf n i s)"
  have u: "live ?u m = live ?r m" "live_seqs ?u m = live_seqs ?r m" for m
    by (simp_all add: live_seqs_def live_def upd_conn_def ack_conn_def)
  have sn: "seq_ok (d n) s n" using seq \<open>n < N\<close> by simp
  then show "h_seqno (mb_hdr (MsgPool s i)) = ackExpected (conntable s n)"
    by (simp add: seq_ok_def live_seqs_def i)
  have lr: "live ?r n = is" "live_seqs ?r n = map (\<lambda>j. h_seqno (mb_hdr (MsgPool s j))) is"
    using live_release [OF node dist] live_seqs_release [OF node dist] i by simp_all
  have "seq_ok (d n) ?u n"
    using sn unfolding seq_ok_def u lr
    by (simp add: i live_seqs_def) (simp add: upd_conn_def ack_conn_def f algebra_simps)
  moreover have "seq_ok (d m) ?u m" if "m < N" "m \<noteq> n" for m
  proof -
    have "i \<notin> set (pendList (conntable s m))"
      using pend_other [of s n m i] conn \<open>n < N\<close> that ip by blast
    then have "seq_ok (d m) ?r m" using seq that by (simp add: seq_ok_release_other [OF node])
    then show ?thesis using that by (simp add: seq_ok_def u)
  qed
  ultimately have "\<forall>m<N. seq_ok (d m) ?u m" by metis
  moreover have "conn_ok ?u m" if "m < N" for m
    using release_conn_ok [OF conn pool \<open>n < N\<close> ip that]
    by (auto simp: conn_ok_def upd_conn_def ack_conn_def)
  moreover have "pool_ok N ?u"
    using release_pool_ok [OF pool conn \<open>n < N\<close> ip]
    by (simp add: pool_ok_upd_conn ack_conn_def)
  moreover have "env_ok N ?u" using inv by (simp add: rdp_invx_def env_ok_def upd_conn_def f)
  ultimately show "rdp_invx d N ?u" by (simp add: rdp_invx_def)
qed

end
