(* ===== verification/Rdp_Pres.thy ===== *)
theory Rdp_Pres
  imports Rdp_Inv
begin

text \<open>
  Every operation of the protocol keeps the resource invariant of \<open>Rdp_Inv\<close>: closing, sending,
  resending, the state machine, acknowledgments, the timeout and socket handlers and the
  interface.  At the end the operations form one state machine, an instance of \<open>inv_machine\<close>.
\<close>

section \<open>Closing a connection\<close>

lemma set_deleted_idem [simp]: "mb_deleted m \<Longrightarrow> m\<lparr>mb_deleted := True\<rparr> = m"
  by (cases m) simp

lemma drop_pending_simps [simp]:
  "nrOfNodes (drop_pending n i s) = nrOfNodes s" "rdpID (drop_pending n i s) = rdpID s"
  "mallocq (drop_pending n i s) = mallocq s" "iptab (drop_pending n i s) = iptab s"
  "MsgFreeList (drop_pending n i s) = MsgFreeList s"
  "SMsgFreeList (drop_pending n i s) = SMsgFreeList s" "AckList (drop_pending n i s) = AckList s"
  "conntable (drop_pending n i s) = conntable s" "hasCallback (drop_pending n i s) = hasCallback s"
  "rnd (drop_pending n i s) = rnd s" "rticks (drop_pending n i s) = rticks s"
  "sendq (drop_pending n i s) = sendq s"
  "RDPMaxRetransCount (drop_pending n i s) = RDPMaxRetransCount s"
  "MsgPool (drop_pending n i s) = (MsgPool s)(i := (MsgPool s i)\<lparr>mb_deleted := True\<rparr>)"
  by (simp_all add: drop_pending_def RDPCallback_def emit_def Let_def)

lemma fold_drop_simps [simp]:
  "nrOfNodes (fold (drop_pending n) is s) = nrOfNodes s"
  "rdpID (fold (drop_pending n) is s) = rdpID s"
  "mallocq (fold (drop_pending n) is s) = mallocq s"
  "iptab (fold (drop_pending n) is s) = iptab s"
  "MsgFreeList (fold (drop_pending n) is s) = MsgFreeList s"
  "SMsgFreeList (fold (drop_pending n) is s) = SMsgFreeList s"
  "AckList (fold (drop_pending n) is s) = AckList s"
  "conntable (fold (drop_pending n) is s) = conntable s"
  "hasCallback (fold (drop_pending n) is s) = hasCallback s"
  "rnd (fold (drop_pending n) is s) = rnd s"
  "rticks (fold (drop_pending n) is s) = rticks s"
  "sendq (fold (drop_pending n) is s) = sendq s"
  "RDPMaxRetransCount (fold (drop_pending n) is s) = RDPMaxRetransCount s"
  by (induction "is" arbitrary: s) simp_all

lemma fold_drop_MsgPool:
  "MsgPool (fold (drop_pending n) is s) j =
     (if j \<in> set is then (MsgPool s j)\<lparr>mb_deleted := True\<rparr> else MsgPool s j)"
  by (induction "is" arbitrary: s) auto

definition closed_conn :: "uint32 \<Rightarrow> Rconninfo \<Rightarrow> Rconninfo" where
  "closed_conn r c = c\<lparr>ackExpected := frameToSend c, cstate := CLOSED, ackPending := 0,
     msgPending := 0, ConnID_out := r, retrans := 0, totRetrans := 0, totSent := 0, totNACK := 0,
     tmout := timerclear, TTA := timerclear\<rparr>"

lemma close_fields [simp]:
  "nrOfNodes (closeConnection n cb s) = nrOfNodes s" "rdpID (closeConnection n cb s) = rdpID s"
  "mallocq (closeConnection n cb s) = mallocq s" "iptab (closeConnection n cb s) = iptab s"
  "MsgFreeList (closeConnection n cb s) = MsgFreeList s"
  "SMsgFreeList (closeConnection n cb s) = SMsgFreeList s"
  "AckList (closeConnection n cb s) = AckList s" "sendq (closeConnection n cb s) = sendq s"
  "hasCallback (closeConnection n cb s) = hasCallback s"
  "RDPMaxRetransCount (closeConnection n cb s) = RDPMaxRetransCount s"
  "conntable (closeConnection n cb s) =
     (conntable s)(n := closed_conn (fst (random32 s)) (conntable s n))"
  by (simp_all add: closeConnection_def clearMsgQ_def random32_def RDPCallback_def emit_def
      Let_def closed_conn_def split: prod.split)

lemma close_MsgPool:
  "MsgPool (closeConnection n cb s) j =
     (if j \<in> set (pendList (conntable s n)) then (MsgPool s j)\<lparr>mb_deleted := True\<rparr>
      else MsgPool s j)"
  by (simp add: closeConnection_def clearMsgQ_def random32_def RDPCallback_def emit_def
      Let_def fold_drop_MsgPool)

lemma live_close_same [simp]: "live (closeConnection n cb s) n = []"
  by (auto simp: live_def close_MsgPool closed_conn_def filter_empty_conv)

lemma live_close_other:
  assumes "m \<noteq> n" "set (pendList (conntable s m)) \<inter> set (pendList (conntable s n)) = {}"
  shows "live (closeConnection n cb s) m = live s m"
    "live_seqs (closeConnection n cb s) m = live_seqs s m"
proof -
  show l: "live (closeConnection n cb s) m = live s m"
    using assms unfolding live_def by (intro filter_cong) (auto simp: close_MsgPool)
  show "live_seqs (closeConnection n cb s) m = live_seqs s m"
    using assms unfolding live_seqs_def l by (intro map_cong refl) (auto simp: close_MsgPool live_def)
qed

lemma close_pool_ok:
  assumes pool: "pool_ok N s" and "n < N"
  shows "pool_ok N (closeConnection n cb s)"
proof -
  let ?c = "closeConnection n cb s"
  have p: "pendList (conntable ?c m) = pendList (conntable s m)" for m
    by (simp add: closed_conn_def)
  have fr: "frame_ms (MsgPool ?c i) = frame_ms (MsgPool s i)" "buf_ok (MsgPool ?c i) = buf_ok (MsgPool s i)"
    "mb_node (MsgPool ?c i) = mb_node (MsgPool s i)" for i
    by (simp_all add: close_MsgPool frame_ms_def buf_ok_def split: option.split frame.split)
  have "mb_deleted (MsgPool ?c i) \<longrightarrow> i \<in> set (AckList s)" for i
    using pool pend_in_ack [OF pool \<open>n < N\<close>] by (auto simp: close_MsgPool pool_ok_def)
  then show ?thesis
    using pool unfolding pool_ok_def used_frames_def p fr close_fields(5-7) by blast
qed

lemma close_inv [pres_intros]:
  assumes inv: "rdp_invx d N s" and "n < N" and "d n = 0"
  shows "rdp_invx d N (closeConnection n cb s)"
proof -
  have pool: "pool_ok N s" and conn: "\<forall>n<N. conn_ok s n" and seq: "\<forall>n<N. seq_ok (d n) s n"
    using inv by (auto simp: rdp_invx_def)
  have "seq_ok (d m) (closeConnection n cb s) m" if "m < N" for m
  proof (cases "m = n")
    case True
    then show ?thesis using \<open>d n = 0\<close> by (simp add: seq_ok_def live_seqs_def closed_conn_def)
  next
    case False
    have "set (pendList (conntable s m)) \<inter> set (pendList (conntable s n)) = {}"
      using pend_other [of s n m] conn that \<open>n < N\<close> False by blast
    from live_close_other [OF False this] False seq that show ?thesis by (simp add: seq_ok_def)
  qed
  moreover have "conn_ok (closeConnection n cb s) m" if "m < N" for m
    using conn that by (auto simp: conn_ok_def close_MsgPool closed_conn_def)
  ultimately show ?thesis
    using close_pool_ok [OF pool \<open>n < N\<close>] inv by (simp add: rdp_invx_def env_ok_def)
qed

section \<open>Sending and receiving\<close>

lemma lookup_node:
  assumes "rdp_invx d N s" "\<not> lookupIPTable a (iptab s) < 0"
  shows "nat (lookupIPTable a (iptab s)) < N"
  using assms lookup_chain_mem [of a "iptab s (ip_hash a)" "lookupIPTable a (iptab s)"]
  by (fastforce simp: rdp_invx_def env_ok_def lookupIPTable_def)

lemma handleErr_inv: "rdp_inv N s \<Longrightarrow> rdp_inv N (snd (handleErr eno q s))"
  by (auto simp: handleErr_def Let_def lookup_node intro!: close_inv split: errqueue.split)

lemma sendto_loop_inv: "rdp_inv N s \<Longrightarrow> rdp_inv N (snd (sendto_loop q n h d s))"
proof (induction q n h d s rule: sendto_loop.induct)
  case (3 eno eq q n h d s)
  have "rdp_inv N (snd (handleErr eno eq (s\<lparr>sendq := q\<rparr>)))"
    using 3 by (intro handleErr_inv) simp
  with 3 show ?case by (auto split: prod.split sum.split)
qed (simp_all add: invx_emit)

lemma MYsendto_inv [pres_intros]: "rdp_inv N s \<Longrightarrow> rdp_inv N (snd (MYsendto n h d s))"
  by (simp add: MYsendto_def sendto_loop_inv)

lemma MYsendto_inv': "MYsendto n h d s = (r, s') \<Longrightarrow> rdp_inv N s \<Longrightarrow> rdp_inv N s'"
  by (metis MYsendto_inv snd_conv)

lemma recvfrom_loop_inv: "rdp_inv N s \<Longrightarrow> rdp_inv N (snd (recvfrom_loop p q s))"
proof (induction p q s rule: recvfrom_loop.induct)
  case (3 p eno eq sel q s)
  have "rdp_inv N (snd (handleErr eno eq (s\<lparr>recvq := q\<rparr>)))"
    using 3 by (intro handleErr_inv) simp
  with 3 show ?case by (auto split: prod.split sum.split)
qed simp_all

lemma MYrecvfrom_inv [pres_intros]: "MYrecvfrom p s = (r, s') \<Longrightarrow> rdp_inv N s \<Longrightarrow> rdp_inv N s'"
  using recvfrom_loop_inv [of N s p "recvq s"] by (simp add: MYrecvfrom_def)

lemma sends_inv [pres_intros]:
  assumes "rdp_inv N s"
  shows "rdp_inv N (sendSYN n s)" "rdp_inv N (sendACK n s)" "rdp_inv N (sendSYNACK n s)"
    "rdp_inv N (sendNACK n s)"
  using assms
  by (auto simp: sendSYN_def sendACK_def sendSYNACK_def sendNACK_def Let_def conn_core_def
      intro!: MYsendto_inv invx_upd_conn)

section \<open>Resending and the state machine\<close>

lemma resend_loop_inv: "rdp_inv N s \<Longrightarrow> rdp_inv N (resend_loop n is s)"
proof (induction n "is" s rule: resend_loop.induct)
  case (2 n i "is" s)
  let ?s1 = "upd_msg i (\<lambda>m. m\<lparr>mb_hdr := (mb_hdr m)\<lparr>h_ackno := frameExpected (conntable s n) - 1\<rparr>\<rparr>) s"
  have "rdp_inv N ?s1"
    using 2(3) by (rule core_eq_invx [rotated]) (auto intro!: core_eq_upd_msg simp: msg_core_def)
  then have step: "rdp_inv N s2"
    if "MYsendto n (mb_hdr (MsgPool ?s1 i)) (take (nat (mb_len (MsgPool ?s1 i)))
          (mb_data (MsgPool ?s1 i))) ?s1 = (r, s2)" for r s2
    using MYsendto_inv' [OF that] by blast
  show ?case
    using 2(1) [OF _ 2(3)] 2(2) [OF _ refl refl _ _ step]
    by (auto simp: Let_def step split: prod.split sum.split)
qed simp

lemma resendMsgs_inv [pres_intros]:
  assumes "rdp_inv N s" "n < N"
  shows "rdp_inv N (resendMsgs n s)"
proof -
  obtain tv s1 where g: "gettimeofday s = (tv, s1)" by fastforce
  have s1: "rdp_inv N s1" using invx_gettimeofday [OF assms(1) g] .
  have s2: "rdp_inv N (upd_conn n (\<lambda>c. c\<lparr>tmout := t\<rparr>) s1)" for t
    using s1 by (rule invx_upd_conn) (simp add: conn_core_def)
  then have s3: "rdp_inv N (upd_conn n (\<lambda>c. c\<lparr>retrans := retrans c + 1, totRetrans := totRetrans c + 1\<rparr>)
      (upd_conn n (\<lambda>c. c\<lparr>tmout := t\<rparr>) s1))" for t
    by (rule invx_upd_conn) (simp add: conn_core_def)
  show ?thesis
    using assms s1 s2 s3
    by (auto simp: resendMsgs_def g Let_def conn_core_def
        intro!: close_inv sends_inv invx_upd_conn resend_loop_inv split: RDPState.split)
qed

lemma count_pending_inv:
  assumes "rdp_inv N s"
  shows "rdp_inv N (upd_conn n (\<lambda>c. c\<lparr>frameToSend := frameToSend c + of_int (msgPending c),
           msgPending := 0\<rparr>) s)"
    (is "rdp_inv N (upd_conn n ?f s)")
proof -
  have "live (upd_conn n ?f s) m = live s m" "live_seqs (upd_conn n ?f s) m = live_seqs s m" for m
    by (simp_all add: live_def live_seqs_def)
  then have "seq_ok 0 s m \<Longrightarrow> seq_ok 0 (upd_conn n ?f s) m" for m
    by (auto simp: seq_ok_def)
  moreover have "conn_ok s m \<Longrightarrow> conn_ok (upd_conn n ?f s) m" for m
    by (auto simp: conn_ok_def)
  ultimately show ?thesis
    using assms pool_ok_upd_conn [of ?f s n N] by (simp add: rdp_invx_def env_ok_def)
qed

lemma go_active_inv [pres_intros]:
  assumes "rdp_inv N s" "n < N"
  shows "rdp_inv N (go_active n s)"
proof -
  have "rdp_inv N (upd_conn n (\<lambda>c. c\<lparr>cstate := ACTIVE\<rparr>) s)"
    using assms(1) by (rule invx_upd_conn) (simp add: conn_core_def)
  with assms(2) show ?thesis
    by (auto simp: go_active_def Let_def
        intro!: invx_callback count_pending_inv resendMsgs_inv sends_inv)
qed

lemma set_peer_inv [pres_intros]: "rdp_inv N s \<Longrightarrow> rdp_inv N (upd_conn n (set_peer hdr st) s)"
  by (rule invx_upd_conn) (simp_all add: conn_core_def set_peer_def)

lemma updateState_inv [pres_intros]:
  assumes "rdp_inv N s" "n < N"
  shows "rdp_inv N (updateState hdr n s)"
  using assms
  by (auto simp: updateState_def updateState_closed_def updateState_synsent_def
      updateState_synrecvd_def updateState_active_def conn_core_def
      intro!: sends_inv go_active_inv set_peer_inv close_inv invx_upd_conn split: RDPState.split)

section \<open>Acknowledgments\<close>

lemma doACK_loop_inv:
  assumes "rdp_inv N s" "n < N" "pendList (conntable s n) = is"
  shows "rdp_inv N (snd (doACK_loop is n ackno stat now cb s))"
  using assms
proof (induction "is" arbitrary: s cb)
  case (Cons i "is")
  have ip: "i \<in> set (pendList (conntable s n))" using Cons.prems(3) by simp
  have node: "mb_node (MsgPool s i) = int n"
    using Cons.prems ip by (auto simp: rdp_invx_def conn_ok_def)
  let ?m = "MsgPool s i"
  show ?case
  proof (cases "mb_deleted ?m")
    case True
    have "rdp_inv N (release_buf n i s)"
      using release_deleted_inv [OF Cons.prems(1,2) ip True] .
    moreover have "pendList (conntable (release_buf n i s) n) = is"
      using Cons.prems(3) by (simp add: release_buf_fields [OF node])
    ultimately show ?thesis using Cons.IH Cons.prems(2) True by (simp add: Let_def)
  next
    case live: False
    let ?s1 = "upd_conn n (\<lambda>c. c\<lparr>totSent := totSent c + 1\<rparr>) s"
    let ?s2 = "if stat \<and> totSent (conntable ?s1 n) > NUM_WARMUP
               then upd_conn n (\<lambda>c. c\<lparr>TTA := timeradd (timersub now (mb_sentTime ?m)) (TTA c)\<rparr>) ?s1
               else ?s1"
    have "rdp_inv N ?s1" using Cons.prems(1) by (rule invx_upd_conn) (simp add: conn_core_def)
    then have s2: "rdp_inv N ?s2" by (auto intro!: invx_upd_conn simp: conn_core_def)
    have p2: "pendList (conntable ?s2 n) = i # is" "MsgPool ?s2 = MsgPool s"
      using Cons.prems(3) by auto
    then have "live ?s2 n = i # filter (\<lambda>i. \<not> mb_deleted (MsgPool s i)) is"
      using live by (simp only: live_def) simp
    then have "rdp_inv N (upd_conn n ack_conn (release_buf n i ?s2))"
      using release_acked_inv(1) [OF s2 Cons.prems(2)] by blast
    moreover have "pendList (conntable (upd_conn n ack_conn (release_buf n i ?s2)) n) = is"
      using p2 node by (simp add: release_buf_fields ack_conn_def)
    ultimately show ?thesis
      using Cons.IH Cons.prems live by (simp add: Let_def ack_conn_def [abs_def])
  qed
qed simp

lemma doACK_data_inv [pres_intros]: "rdp_inv N s \<Longrightarrow> rdp_inv N (doACK_data hdr n s)"
  by (simp add: doACK_data_def Let_def sends_inv)

lemma doACK_inv [pres_intros]:
  assumes "rdp_inv N s" "n < N"
  shows "rdp_inv N (doACK hdr n s)"
proof -
  have d: "rdp_inv N (doACK_data hdr n s)" using assms(1) by (rule doACK_data_inv)
  then have g: "rdp_inv N (snd (gettimeofday (doACK_data hdr n s)))"
    by (metis invx_gettimeofday prod.collapse)
  have l: "rdp_inv N (snd (doACK_loop (pendList (conntable t n)) n a st w cb t))"
    if "rdp_inv N t" for t a st w cb using doACK_loop_inv [OF that assms(2) refl] .
  show ?thesis
    using assms d g by (auto simp: doACK_def Let_def split_beta
        intro!: updateState_inv invx_callback l)
qed

lemma handleControlPacket_inv [pres_intros]:
  assumes "rdp_inv N s" "n < N"
  shows "rdp_inv N (handleControlPacket hdr n s)"
  using assms
  by (auto simp: handleControlPacket_def Let_def intro!: updateState_inv doACK_inv resendMsgs_inv)

section \<open>The timeout handler\<close>

lemma timeout_resend_inv [pres_intros]:
  "rdp_inv N s \<Longrightarrow> 0 < N \<Longrightarrow> rdp_inv N (timeout_resend tv i s)"
  by (auto simp: timeout_resend_def Let_def intro!: resendMsgs_inv invx_node)

lemma timeout_cleanup_inv [pres_intros]: "rdp_inv N s \<Longrightarrow> rdp_inv N (timeout_cleanup i s)"
  using deleted_pending [of "\<lambda>_. 0" N s i]
  by (auto simp: timeout_cleanup_def Let_def intro!: invx_callback release_deleted_inv)

lemma fold_inv:
  "(\<And>x s. P s \<Longrightarrow> P (f x s)) \<Longrightarrow> P s \<Longrightarrow> P (fold f xs s)"
  by (induction xs arbitrary: s) auto

lemma handleTimeoutRDP_inv [pres_intros]:
  assumes "rdp_inv N s" "0 < N"
  shows "rdp_inv N (handleTimeoutRDP s)"
proof -
  obtain tv s1 where g: "gettimeofday s = (tv, s1)" by fastforce
  have "rdp_inv N (fold (timeout_resend tv) (AckList s1) s1)"
    using invx_gettimeofday [OF assms(1) g] assms(2) by (auto intro!: fold_inv timeout_resend_inv)
  then show ?thesis
    by (auto simp: handleTimeoutRDP_def g Let_def intro!: fold_inv timeout_cleanup_inv)
qed

end
