(* ===== verification/Rdp_Api.thy ===== *)
theory Rdp_Api
  imports Rdp_Pres
begin

text \<open>
  The interface functions keep the resource invariant: \<open>Rsendto\<close> with its buffers, \<open>Rrecvfrom\<close>, the
  socket handler, address updates, initialisation.  The pools are large enough: a message is never
  refused for lack of a buffer while the window to its destination is open.  The operations
  together form the machine \<open>rdp_step\<close>, an instance of the locale \<open>inv_machine\<close>.
\<close>

section \<open>The pools suffice\<close>

lemma ack_length:
  assumes "pool_ok N s"
  shows "length (AckList s) = (\<Sum>n<N. length (pendList (conntable s n)))"
proof -
  have "size (mset (AckList s)) = (\<Sum>n<N. size (mset (pendList (conntable s n))))"
    using assms by (simp add: pool_ok_def size_multiset_sum)
  then show ?thesis by simp
qed

lemma size_used_frames: "size (used_frames s) \<le> length (AckList s)"
proof -
  have "size (sum_mset (image_mset (\<lambda>i. frame_ms (MsgPool s i)) M)) \<le> size M" for M
    by (induction M) (auto simp: frame_ms_def split: option.split frame.split)
  from this [of "mset (AckList s)"] show ?thesis by (simp add: used_frames_def)
qed

lemma window_free_buffer:
  assumes "rdp_invx d N s" "n < N" "window (conntable s n) \<noteq> 0"
  shows "MsgFreeList s \<noteq> []" "SMsgFreeList s \<noteq> []"
proof -
  have pool: "pool_ok N s" and conn: "\<forall>n<N. conn_ok s n" using assms(1) by (auto simp: rdp_invx_def)
  have le: "length (pendList (conntable s m)) \<le> MAX_WINDOW_SIZE" if "m < N" for m
    using conn that by (auto simp: conn_ok_def)
  have lt: "length (pendList (conntable s n)) < MAX_WINDOW_SIZE"
    using conn assms(2,3) by (auto simp: conn_ok_def)
  have "(\<Sum>m<N. length (pendList (conntable s m))) < (\<Sum>m<N. MAX_WINDOW_SIZE)"
    using le lt assms(2) by (intro sum_strict_mono_ex1) auto
  then have lt: "length (AckList s) < N * MAX_WINDOW_SIZE" by (simp add: ack_length [OF pool])
  have "size (mset (MsgFreeList s) + mset (AckList s)) = size (mset [0..<N * MAX_WINDOW_SIZE])"
    using pool unfolding pool_ok_def by argo
  then have "length (MsgFreeList s) + length (AckList s) = N * MAX_WINDOW_SIZE" by simp
  with lt show "MsgFreeList s \<noteq> []" by auto
  have "size (mset (SMsgFreeList s) + used_frames s) = size (mset [0..<N * MAX_WINDOW_SIZE])"
    using pool unfolding pool_ok_def by argo
  then have "length (SMsgFreeList s) + size (used_frames s) = N * MAX_WINDOW_SIZE" by simp
  with lt size_used_frames [of s] show "SMsgFreeList s \<noteq> []" by auto
qed

section \<open>Queueing a message\<close>

definition queued_buf :: "nat \<Rightarrow> byte list \<Rightarrow> frame \<Rightarrow> timeval \<Rightarrow> Rconninfo \<Rightarrow> msgbuf \<Rightarrow> msgbuf" where
  "queued_buf n buf f now c m = m\<lparr>mb_frame := Some f, mb_sentTime := now, mb_node := int n,
     mb_len := int (length buf),
     mb_hdr := \<lparr>h_type = RDP_DATA, h_len = of_nat (length buf),
       h_seqno = frameToSend c + of_int (msgPending c),
       h_ackno = frameExpected c - 1, h_connid = ConnID_out c\<rparr>,
     mb_data := buf\<rparr>"

lemma queue_msg_fields:
  "nrOfNodes (queue_msg n buf i f s) = nrOfNodes s" "rdpID (queue_msg n buf i f s) = rdpID s"
  "mallocq (queue_msg n buf i f s) = mallocq s" "iptab (queue_msg n buf i f s) = iptab s"
  "MsgFreeList (queue_msg n buf i f s) = MsgFreeList s"
  "SMsgFreeList (queue_msg n buf i f s) = SMsgFreeList s"
  "AckList (queue_msg n buf i f s) = AckList s @ [i]"
  "sendq (queue_msg n buf i f s) = sendq s"
  "MsgPool (queue_msg n buf i f s) = (MsgPool s)
     (i := queued_buf n buf f (clock s (ticks s)) (conntable s n) (MsgPool s i))"
  "m \<noteq> n \<Longrightarrow> conntable (queue_msg n buf i f s) m = conntable s m"
  "cstate (conntable (queue_msg n buf i f s) n) = cstate (conntable s n)"
  "sin_addr (conntable (queue_msg n buf i f s) n) = sin_addr (conntable s n)"
  "conn_core (conntable (queue_msg n buf i f s) n) =
     conn_core ((conntable s n)\<lparr>pendList := pendList (conntable s n) @ [i],
       window := window (conntable s n) - 1\<rparr>)"
  by (simp_all add: queue_msg_def gettimeofday_def Let_def upd_msg_def queued_buf_def conn_core_def)

text \<open>
  The state \<open>s2\<close> from which a message is queued: the buffer and its frame were taken out of the
  free lists of a state with the invariant.
\<close>

definition taken :: "nat \<Rightarrow> nat \<Rightarrow> byte list \<Rightarrow> frame \<Rightarrow> rdp \<Rightarrow> rdp \<Rightarrow> bool" where
  "taken N i buf f s s2 \<longleftrightarrow> (\<exists>rest sfree mq. MsgFreeList s = i # rest
     \<and> s2 = s\<lparr>MsgFreeList := rest, SMsgFreeList := sfree, mallocq := mq\<rparr>
     \<and> False \<notin> set mq
     \<and> (if length buf \<le> RDP_SMALL_DATA_SIZE
        then \<exists>k. f = SmallFrame k \<and> SMsgFreeList s = k # sfree
        else f = LargeFrame \<and> sfree = SMsgFreeList s))"

lemma queue_msg_pool_ok:
  assumes pool: "pool_ok N s" and "n < N" and "length buf \<le> RDP_MAX_DATA_SIZE"
    and tk: "taken N i buf f s s2"
  shows "pool_ok N (queue_msg n buf i f s2)"
proof -
  from tk obtain rest sfree mq where fr: "MsgFreeList s = i # rest"
    and s2: "s2 = s\<lparr>MsgFreeList := rest, SMsgFreeList := sfree, mallocq := mq\<rparr>"
    and frm: "if length buf \<le> RDP_SMALL_DATA_SIZE then \<exists>k. f = SmallFrame k \<and> SMsgFreeList s = k # sfree
        else f = LargeFrame \<and> sfree = SMsgFreeList s"
    unfolding taken_def by blast
  let ?q = "queue_msg n buf i f s2" and ?new = "queued_buf n buf f (clock s2 (ticks s2)) (conntable s2 n) (MsgPool s2 i)"
  note f = queue_msg_fields [where n = n and buf = buf and i = i and f = f and s = s2]
  have na: "i \<notin> set (AckList s)" using free_not_ack [OF pool] fr by simp
  have p: "MsgPool s2 = MsgPool s" "AckList s2 = AckList s" "conntable s2 = conntable s" by (simp_all add: s2)
  have "pendList (conntable ?q m) = (if m = n then pendList (conntable s n) @ [i] else pendList (conntable s m))" for m
    using f(10) f(13) by (simp add: conn_core_def p)
  then have "(\<Sum>m<N. mset (pendList (conntable ?q m)))
      = (\<Sum>m<N. mset (if m = n then pendList (conntable s n) @ [i] else pendList (conntable s m)))" by simp
  moreover have "(\<Sum>m<N. mset (if m = n then pendList (conntable s n) @ [i] else pendList (conntable s m)))
      + mset (pendList (conntable s n))
      = (\<Sum>m<N. mset (pendList (conntable s m))) + mset (pendList (conntable s n) @ [i])"
    by (rule sum_mset_upd [OF \<open>n < N\<close>])
  ultimately have sum: "(\<Sum>m<N. mset (pendList (conntable ?q m))) = mset (AckList ?q)"
    using pool unfolding pool_ok_def f p by (simp add: add_mset_add_single [symmetric])
  have "mset (MsgFreeList ?q) + mset (AckList ?q) = mset (MsgFreeList s) + mset (AckList s)"
    unfolding f p using fr by (simp add: s2)
  moreover have used: "used_frames ?q = used_frames s + frame_ms ?new"
  proof -
    have "image_mset (\<lambda>j. frame_ms (MsgPool ?q j)) (mset (AckList s))
        = image_mset (\<lambda>j. frame_ms (MsgPool s j)) (mset (AckList s))"
      using na by (intro image_mset_cong) (auto simp: f p)
    then show ?thesis by (simp add: used_frames_def f(7) p) (simp add: f p)
  qed
  have "mset (SMsgFreeList ?q) + used_frames ?q = mset (SMsgFreeList s) + used_frames s"
    unfolding used f using frm by (auto simp: s2 frame_ms_def queued_buf_def split: if_splits)
  moreover have "buf_ok ?new"
    using frm assms(3) by (auto simp: buf_ok_def queued_buf_def split: if_splits)
  then have "\<forall>j\<in>set (AckList ?q). buf_ok (MsgPool ?q j)"
    using pool na by (auto simp: pool_ok_def f p)
  moreover have "\<forall>j. mb_node (MsgPool ?q j) < int N"
    using pool \<open>n < N\<close> by (auto simp: pool_ok_def f p queued_buf_def)
  moreover have "\<forall>j. mb_deleted (MsgPool ?q j) \<longrightarrow> j \<in> set (AckList ?q)"
    using pool by (auto simp: pool_ok_def f p queued_buf_def)
  ultimately show ?thesis using pool sum unfolding pool_ok_def by metis
qed

lemma queue_msg_seq_ok:
  assumes pool: "pool_ok N s" and conn: "\<forall>n<N. conn_ok s n" and seq: "\<forall>n<N. seq_ok 0 s n"
    and "n < N" and "m < N" and tk: "taken N i buf f s s2"
  shows "seq_ok (if m = n then 1 else 0) (queue_msg n buf i f s2) m"
proof -
  from tk obtain rest where fr: "MsgFreeList s = i # rest"
    and p: "MsgPool s2 = MsgPool s" "AckList s2 = AckList s" "conntable s2 = conntable s"
    unfolding taken_def by auto
  let ?q = "queue_msg n buf i f s2"
  note f = queue_msg_fields [where n = n and buf = buf and i = i and f = f and s = s2]
  have na: "i \<notin> set (AckList s)" using free_not_ack [OF pool] fr by simp
  then have del: "\<not> mb_deleted (MsgPool s i)" using pool by (auto simp: pool_ok_def)
  have np: "i \<notin> set (pendList (conntable s m))" if "m < N" for m
    using pend_in_ack [OF pool that] na by blast
  show ?thesis
  proof (cases "m = n")
    case False
    have "live ?q m = live s m"
      using np [OF \<open>m < N\<close>] False unfolding live_def by (auto simp: f p intro!: filter_cong)
    moreover from this have "live_seqs ?q m = live_seqs s m"
      using np [OF \<open>m < N\<close>] unfolding live_seqs_def by (auto simp: f p live_def)
    ultimately show ?thesis using seq \<open>m < N\<close> False by (simp add: seq_ok_def f p)
  next
    case True
    let ?c = "conntable s n" and ?c' = "conntable ?q n"
    have c': "pendList ?c' = pendList ?c @ [i]" "ackExpected ?c' = ackExpected ?c"
      "frameToSend ?c' = frameToSend ?c" "msgPending ?c' = msgPending ?c"
      using f(13) by (simp_all add: conn_core_def p)
    have l: "live ?q n = live s n @ [i]"
      using np [OF \<open>n < N\<close>] del unfolding live_def c'
      by (auto simp: f p queued_buf_def intro!: filter_cong)
    have ls: "live_seqs ?q n = live_seqs s n @ [frameToSend ?c + of_int (msgPending ?c)]"
      using np [OF \<open>n < N\<close>] unfolding live_seqs_def l
      by (auto simp: f p queued_buf_def live_def)
    have "seq_ok 0 s n" using seq \<open>n < N\<close> by simp
    then show ?thesis
      unfolding True seq_ok_def l ls c' length_append_singleton seq_from_snoc
      by (simp add: algebra_simps)
  qed
qed

lemma queue_msg_inv:
  assumes inv: "rdp_inv N s" and "n < N" and w: "window (conntable s n) \<noteq> 0"
    and len: "length buf \<le> RDP_MAX_DATA_SIZE" and tk: "taken N i buf f s s2"
  shows "rdp_invx (\<lambda>m. if m = n then 1 else 0) N (queue_msg n buf i f s2)"
proof -
  have pool: "pool_ok N s" and conn: "\<forall>n<N. conn_ok s n" and seq: "\<forall>n<N. seq_ok 0 s n"
    using inv by (auto simp: rdp_invx_def)
  from tk obtain rest where fr: "MsgFreeList s = i # rest"
    and p: "MsgPool s2 = MsgPool s" "AckList s2 = AckList s" "conntable s2 = conntable s"
      "iptab s2 = iptab s" "nrOfNodes s2 = nrOfNodes s" "rdpID s2 = rdpID s" "False \<notin> set (mallocq s2)"
    unfolding taken_def by auto
  let ?q = "queue_msg n buf i f s2"
  note f = queue_msg_fields [where n = n and buf = buf and i = i and f = f and s = s2]
  have na: "i \<notin> set (AckList s)" using free_not_ack [OF pool] fr by simp
  have np: "i \<notin> set (pendList (conntable s m))" if "m < N" for m
    using pend_in_ack [OF pool that] na by blast
  have "conn_ok ?q m" if "m < N" for m
  proof (cases "m = n")
    case True
    have "conn_ok s n" using conn \<open>n < N\<close> by simp
    with True w np [OF \<open>n < N\<close>] f(13) show ?thesis
      by (auto simp: conn_ok_def conn_core_def f(9) p queued_buf_def)
  next
    case False
    with conn that np [OF that] show ?thesis by (auto simp: conn_ok_def f p)
  qed
  then show ?thesis
    using queue_msg_pool_ok [OF pool \<open>n < N\<close> len tk] inv
      queue_msg_seq_ok [OF pool conn seq \<open>n < N\<close> _ tk]
    by (simp add: rdp_invx_def env_ok_def f p)
qed

section \<open>Counting and transmitting it\<close>

lemma count_inv:
  assumes inv: "rdp_invx (\<lambda>m. if m = n then 1 else 0) N s"
    and "window (f (conntable s n)) = window (conntable s n)"
    and p: "pendList (f (conntable s n)) = pendList (conntable s n)"
    and "ackExpected (f (conntable s n)) = ackExpected (conntable s n)"
    and "frameToSend (f (conntable s n)) + of_int (msgPending (f (conntable s n)))
      = frameToSend (conntable s n) + of_int (msgPending (conntable s n)) + 1"
    and "msgPending (f (conntable s n)) \<ge> msgPending (conntable s n)"
  shows "rdp_inv N (upd_conn n f s)"
proof -
  have "live (upd_conn n f s) m = live s m" "live_seqs (upd_conn n f s) m = live_seqs s m" for m
    using p by (simp_all add: live_def live_seqs_def)
  then have "seq_ok (if m = n then 1 else 0) s m \<Longrightarrow> seq_ok 0 (upd_conn n f s) m" for m
    using assms(4,5) by (auto simp: seq_ok_def algebra_simps)
  moreover have "conn_ok s m \<Longrightarrow> conn_ok (upd_conn n f s) m" for m
    using assms by (auto simp: conn_ok_def)
  ultimately show ?thesis
    using inv pool_ok_upd_conn [of f s n N, OF p] by (simp add: rdp_invx_def env_ok_def)
qed

lemma transmit_inv:
  assumes "rdp_invx (\<lambda>m. if m = n then 1 else 0) N s"
  shows "rdp_inv N (snd (transmit n i s))"
  using assms
  by (auto simp: transmit_def Let_def intro!: sends_inv MYsendto_inv count_inv split: RDPState.split)

text \<open>With an open window and memory available the buffer and the frame are there.\<close>

lemma send_buffered_taken:
  assumes inv: "rdp_inv N s" and "n < N" and w: "window (conntable s n) \<noteq> 0"
  obtains i f s1 s2 where "getMsg s = (Some i, s1)" "get_frame (length buf) s1 = (Some f, s2)"
    "taken N i buf f s s2"
proof -
  obtain i rest where fr: "MsgFreeList s = i # rest"
    using window_free_buffer(1) [OF assms] by (cases "MsgFreeList s") auto
  obtain k sfree where sf: "SMsgFreeList s = k # sfree"
    using window_free_buffer(2) [OF assms] by (cases "SMsgFreeList s") auto
  have mal: "False \<notin> set (mallocq s)" using inv by (simp add: rdp_invx_def env_ok_def)
  let ?s1 = "s\<lparr>MsgFreeList := rest\<rparr>"
  have g: "getMsg s = (Some i, ?s1)" by (simp add: getMsg_def fr)
  show thesis
  proof (cases "length buf \<le> RDP_SMALL_DATA_SIZE")
    case True
    then have "get_frame (length buf) ?s1 = (Some (SmallFrame k), ?s1\<lparr>SMsgFreeList := sfree\<rparr>)"
      by (simp add: get_frame_def getSMsg_def sf)
    moreover have "taken N i buf (SmallFrame k) s (?s1\<lparr>SMsgFreeList := sfree\<rparr>)"
      unfolding taken_def using True sf fr mal
      by (intro exI [of _ rest] exI [of _ sfree] exI [of _ "mallocq s"]) auto
    ultimately show thesis using that [OF g] by blast
  next
    case False
    let ?mq = "tl (mallocq s)"
    have "get_frame (length buf) ?s1 = (Some LargeFrame, ?s1\<lparr>mallocq := ?mq\<rparr>)"
      using False mal by (cases "mallocq s") (auto simp: get_frame_def malloc_def)
    moreover have "taken N i buf LargeFrame s (?s1\<lparr>mallocq := ?mq\<rparr>)"
      unfolding taken_def using False fr mal
      by (intro exI [of _ rest] exI [of _ "SMsgFreeList s"] exI [of _ ?mq])
        (auto dest: list.set_sel(2) [rotated] split: list.splits, cases "mallocq s", auto)
    ultimately show thesis using that [OF g] by blast
  qed
qed

lemma send_buffered_inv:
  assumes "rdp_inv N s" "n < N" "window (conntable s n) \<noteq> 0" "length buf \<le> RDP_MAX_DATA_SIZE"
  shows "rdp_inv N (snd (send_buffered n buf s))"
proof -
  from send_buffered_taken [OF assms(1-3), of buf]
  obtain i f s1 s2 where g: "getMsg s = (Some i, s1)" "get_frame (length buf) s1 = (Some f, s2)"
    and tk: "taken N i buf f s s2" .
  have "rdp_inv N (snd (transmit n i (queue_msg n buf i f s2)))"
    by (rule transmit_inv) (rule queue_msg_inv [OF assms tk])
  then show ?thesis by (auto simp: send_buffered_def g split: prod.split sum.split)
qed

lemma Rsendto_inv [pres_intros]:
  assumes "rdp_inv N s"
  shows "rdp_inv N (snd (Rsendto node buf s))"
proof (cases "node < 0 \<or> node \<ge> int (nrOfNodes s)")
  case False
  have N: "nrOfNodes s = N" using assms by (simp add: rdp_invx_def env_ok_def)
  let ?n = "nat node"
  have n: "?n < N" using False N by linarith
  obtain tv s1 where g: "gettimeofday s = (tv, s1)" by fastforce
  have c1: "conntable s1 = conntable s" using g by (auto simp: gettimeofday_def)
  have s1: "rdp_inv N s1" using invx_gettimeofday [OF assms g] .
  then have "rdp_inv N (upd_conn ?n (\<lambda>c. c\<lparr>closed := timerclear\<rparr>) s1)"
    by (rule invx_upd_conn) (simp add: conn_core_def)
  then show ?thesis
    using False assms n s1 c1
    by (auto simp: Rsendto_def Let_def g intro!: send_buffered_inv)
qed (simp add: Rsendto_def assms)

end
