(* ===== verification/Rdp_Machine.thy ===== *)
theory Rdp_Machine
  imports Rdp_Api
begin

text \<open>
  The remaining entry points (\<open>Rrecvfrom\<close>, \<open>handleRDP\<close>, \<open>RDP_updateNode\<close>, \<open>closeConnRDP\<close>,
  initialisation) keep the resource invariant, and all entry points together are the operations
  of one machine, \<open>rdp_step\<close>, which interprets the locale \<open>inv_machine\<close>.
\<close>

section \<open>Receiving\<close>

lemma accept_data_inv [pres_intros]:
  assumes "rdp_inv N s" "n < N"
  shows "rdp_inv N (snd (accept_data d n len node s))"
proof -
  have s1: "rdp_inv N (doACK (d_hdr d) n s)" using assms by (rule doACK_inv)
  then have s2: "rdp_inv N (upd_conn n (\<lambda>c. c\<lparr>frameExpected := frameExpected c + 1,
      ackPending := ackPending c + 1\<rparr>) (doACK (d_hdr d) n s))"
    by (rule invx_upd_conn) (simp add: conn_core_def)
  from s1 s2 show ?thesis by (auto simp: accept_data_def Let_def intro: sends_inv)
qed

lemma receive_from_inv [pres_intros]:
  assumes "rdp_inv N s" "n < N"
  shows "rdp_inv N (snd (receive_from d n len node s))"
  using assms
  by (auto simp: receive_from_def intro!: handleControlPacket_inv updateState_inv accept_data_inv
      split: RDPState.split)

lemma Rrecvfrom_inv [pres_intros]:
  assumes "rdp_inv N s"
  shows "rdp_inv N (snd (Rrecvfrom nodep msgp len s))"
proof -
  have "rdp_inv N s1" if "MYrecvfrom False s = (r, s1)" for r s1
    using MYrecvfrom_inv [OF that assms] .
  then show ?thesis
    using assms
    by (auto simp: Rrecvfrom_def Let_def lookup_node intro!: receive_from_inv
        split: option.split prod.split sum.split)
qed

section \<open>Address updates\<close>

text \<open>The table is read by the invariant only for the node numbers in it.\<close>

lemma iptab_inv:
  assumes "rdp_inv N s" and "\<forall>i. \<forall>e\<in>set (t i). 0 \<le> ip_node e \<and> ip_node e < int N"
  shows "rdp_inv N (s\<lparr>iptab := t\<rparr>)"
proof -
  let ?s = "s\<lparr>iptab := t\<rparr>"
  have "conn_ok ?s n = conn_ok s n" "seq_ok d ?s n = seq_ok d s n" "pool_ok N ?s = pool_ok N s" for d n
    by (simp_all add: conn_ok_def seq_ok_def live_def live_seqs_def pool_ok_def used_frames_def)
  with assms show ?thesis by (simp add: rdp_invx_def env_ok_def)
qed

lemma rmFromIPTable_nodes:
  assumes "\<forall>i. \<forall>e\<in>set (t i). 0 \<le> ip_node e \<and> ip_node e < int N" "0 < N"
  shows "\<forall>i. \<forall>e\<in>set (snd (rmFromIPTable a n t) i). 0 \<le> ip_node e \<and> ip_node e < int N"
proof -
  have c: "snd (rmFromIPTable a n t) = t(ip_hash a := snd (rm_chain a n (t (ip_hash a))))"
    by (simp add: rmFromIPTable_def Let_def split_beta)
  have "\<forall>e\<in>set (snd (rm_chain a n (t (ip_hash a)))). 0 \<le> ip_node e \<and> ip_node e < int N"
  proof
    fix e
    assume "e \<in> set (snd (rm_chain a n (t (ip_hash a))))"
    then have "e = free_entry \<or> e \<in> set (t (ip_hash a))" using rm_chain_set by blast
    then show "0 \<le> ip_node e \<and> ip_node e < int N" using assms by (auto simp: free_entry_def)
  qed
  with assms(1) show ?thesis by (simp add: c)
qed

lemma addToIPTable_nodes:
  assumes "addToIPTable a n t = Some t'" "0 \<le> n" "n < int N"
    and "\<forall>i. \<forall>e\<in>set (t i). 0 \<le> ip_node e \<and> ip_node e < int N"
  shows "\<forall>i. \<forall>e\<in>set (t' i). 0 \<le> ip_node e \<and> ip_node e < int N"
  using assms by (auto simp: addToIPTable_def Let_def split: if_splits dest: list.set_sel(2) [rotated])
    (metis list.set_sel(2) empty_iff list.set(1) tl_Nil)+

lemma RDP_updateNode_inv [pres_intros]:
  assumes "rdp_inv N s"
  shows "rdp_inv N (snd (RDP_updateNode node addr s))"
proof (cases "node < 0 \<or> node \<ge> int (nrOfNodes s)")
  case False
  have N: "nrOfNodes s = N" using assms by (simp add: rdp_invx_def env_ok_def)
  let ?n = "nat node"
  have n: "?n < N" "0 \<le> node" "node < int N" using False N by linarith+
  define s1 where "s1 = (if cstate (conntable s ?n) \<noteq> CLOSED then closeConnection ?n False s else s)"
  have s1: "rdp_inv N s1" using assms n by (simp add: s1_def close_inv)
  define s3 where "s3 = upd_conn ?n (\<lambda>c. c\<lparr>sin_addr := addr\<rparr>)
    (s1\<lparr>iptab := snd (rmFromIPTable (sin_addr (conntable s1 ?n)) node (iptab s1))\<rparr>)"
  have t1: "\<forall>i. \<forall>e\<in>set (iptab s1 i). 0 \<le> ip_node e \<and> ip_node e < int N"
    using s1 by (simp add: rdp_invx_def env_ok_def)
  have t3: "\<forall>i. \<forall>e\<in>set (iptab s3 i). 0 \<le> ip_node e \<and> ip_node e < int N"
    unfolding s3_def using rmFromIPTable_nodes [OF t1] n by simp
  have s3: "rdp_inv N s3"
    unfolding s3_def using n
    by (intro invx_upd_conn iptab_inv s1 rmFromIPTable_nodes [OF t1]) (simp_all add: conn_core_def)
  have s4: "rdp_inv N (s3\<lparr>iptab := t\<rparr>)" if "addToIPTable addr node (iptab s3) = Some t" for t
    using addToIPTable_nodes [OF that n(2,3) t3] s3 by (intro iptab_inv)
  have eq: "RDP_updateNode node addr s =
     (if sin_addr (conntable s ?n) = addr then (Ret True, s)
      else if addr \<noteq> INADDR_ANY \<and> addr \<noteq> INADDR_NONE then
               (case addToIPTable addr node (iptab s3) of
                  None \<Rightarrow> (Exit, s3)
                | Some t \<Rightarrow> (Ret True, s3\<lparr>iptab := t\<rparr>))
             else (Ret True, s3))"
    using False by (simp only: RDP_updateNode_def Let_def s1_def s3_def if_False)
  show ?thesis unfolding eq using assms s3 s4 by (auto split: option.split)
qed (simp add: RDP_updateNode_def assms)

section \<open>The socket handler\<close>

lemma fetch_and_inv: "rdp_inv N s \<Longrightarrow> rdp_inv N (snd (fetch_and r s))"
  by (auto simp: fetch_and_def dest: MYrecvfrom_inv split: prod.split sum.split)

lemma handleRDP_from_inv:
  assumes "rdp_inv N s" "n < N"
  shows "rdp_inv N (snd (handleRDP_from d n s))"
proof -
  have "rdp_inv N s1" if "MYrecvfrom False s = (r, s1)" for r s1
    using MYrecvfrom_inv [OF that assms(1)] .
  then show ?thesis
    using assms
    by (auto simp: handleRDP_from_def intro!: handleControlPacket_inv doACK_inv updateState_inv
        invx_emit split: prod.split sum.split option.split)
qed

lemma handleRDP_known_inv:
  assumes "rdp_inv N s" "n < N"
  shows "rdp_inv N (snd (handleRDP_known d n s))"
proof -
  obtain tv s1 where g: "gettimeofday s = (tv, s1)" by fastforce
  have s1: "rdp_inv N s1" using invx_gettimeofday [OF assms(1) g] .
  have "rdp_inv N (upd_conn n (\<lambda>c. c\<lparr>closed := timerclear\<rparr>) s1)"
    using s1 by (rule invx_upd_conn) (simp add: conn_core_def)
  with s1 assms show ?thesis
    by (auto simp: handleRDP_known_def g intro!: fetch_and_inv handleRDP_from_inv)
qed

lemma unknown_sender_inv: "rdp_inv N s \<Longrightarrow> rdp_inv N (snd (unknown_sender upd a s))"
  using RDP_updateNode_inv [OF invx_callback [of "\<lambda>_. 0" N s "UNKNOWN_SENDER a"]]
  by (auto simp: unknown_sender_def Let_def invx_callback split: option.split prod.split outcome.split)
    (metis snd_conv)+

lemma handleRDP_sender_inv:
  assumes "rdp_inv N s"
  shows "rdp_inv N (snd (handleRDP_sender upd d s))"
proof -
  note u = unknown_sender_inv [OF assms, of upd "d_addr d"]
  show ?thesis
    using assms u lookup_node [OF assms] lookup_node [OF u]
    by (auto simp: handleRDP_sender_def Let_def split_beta
        intro!: fetch_and_inv handleRDP_known_inv)
qed

lemma handleRDP_inv [pres_intros]:
  assumes "rdp_inv N s"
  shows "rdp_inv N (snd (handleRDP upd s))"
proof -
  obtain r s1 where m: "MYrecvfrom True s = (r, s1)" by fastforce
  have s1: "rdp_inv N s1" using MYrecvfrom_inv [OF m assms] .
  have s2: "rdp_inv N (snd (random32 s1))" using core_eq_invx [OF core_eq_random32 s1] .
  from s1 s2 show ?thesis
    by (auto simp: handleRDP_def m Let_def split_beta
        intro!: fetch_and_inv handleRDP_sender_inv split: sum.split option.split)
qed

section \<open>State and parameters\<close>

lemma closeConnRDP_inv [pres_intros]:
  assumes "rdp_inv N s" "n < N"
  shows "rdp_inv N (closeConnRDP n s)"
proof -
  obtain tv s2 where g: "gettimeofday (closeConnection n False s) = (tv, s2)" by fastforce
  have "rdp_inv N s2" using invx_gettimeofday [OF close_inv [OF assms] g] by simp
  then show ?thesis by (auto simp: closeConnRDP_def g Let_def conn_core_def intro!: invx_upd_conn)
qed

lemma RDP_setStatistics_inv [pres_intros]:
  assumes "rdp_inv N s"
  shows "rdp_inv N (RDP_setStatistics st s)"
proof -
  have "rdp_inv N (upd_conn n reset_stats t)" if "rdp_inv N t" for n t
    using that by (rule invx_upd_conn) (simp add: conn_core_def reset_stats_def)
  then have "rdp_inv N (fold (\<lambda>n. upd_conn n reset_stats) ns t)" if "rdp_inv N t" for ns t
    using that by (rule fold_inv)
  then show ?thesis using assms by (simp add: RDP_setStatistics_def Let_def)
qed

section \<open>The machine\<close>

text \<open>
  The operations, with the arguments the caller gives and, for the environment, the results the
  system calls of the following operations will have.  \<open>closeConnRDP\<close> is called by the daemon for
  valid nodes only.
\<close>

datatype rdp_op =
    OpSend int "byte list"
  | OpRecv "int option" bool nat
  | OpSocket "(int \<times> uint32) option"
  | OpTimeout
  | OpClose nat
  | OpUpdateNode int uint32
  | OpStatistics bool
  | OpPktLoss int
  | OpMaxRetrans int
  | OpMaxAckPend int
  | OpRsndTmOut int
  | OpClsdTmOut int
  | OpEnv "sendres list" "recvres list"

fun rdp_step :: "rdp_op \<Rightarrow> rdp \<Rightarrow> rdp" where
  "rdp_step (OpSend node buf) s = snd (Rsendto node buf s)"
| "rdp_step (OpRecv nodep msgp len) s = snd (Rrecvfrom nodep msgp len s)"
| "rdp_step (OpSocket upd) s = snd (handleRDP upd s)"
| "rdp_step OpTimeout s = handleTimeoutRDP s"
| "rdp_step (OpClose n) s = (if n < nrOfNodes s then closeConnRDP n s else s)"
| "rdp_step (OpUpdateNode node addr) s = snd (RDP_updateNode node addr s)"
| "rdp_step (OpStatistics st) s = RDP_setStatistics st s"
| "rdp_step (OpPktLoss r) s = setPktLossRDP r s"
| "rdp_step (OpMaxRetrans l) s = setMaxRetransRDP l s"
| "rdp_step (OpMaxAckPend l) s = setMaxAckPendRDP l s"
| "rdp_step (OpRsndTmOut t) s = setRsndTmOutRDP t s"
| "rdp_step (OpClsdTmOut t) s = setClsdTmOutRDP t s"
| "rdp_step (OpEnv sq rq) s = s\<lparr>sendq := sq, recvq := rq\<rparr>"

lemma rdp_step_inv:
  assumes "rdp_inv N s" "0 < N"
  shows "rdp_inv N (rdp_step e s)"
proof -
  have N: "nrOfNodes s = N" using assms(1) by (simp add: rdp_invx_def env_ok_def)
  show ?thesis
    using assms N
    by (cases e) (auto intro: pres_intros simp: setPktLossRDP_def setMaxRetransRDP_def
        setMaxAckPendRDP_def setRsndTmOutRDP_def setClsdTmOutRDP_def)
qed

definition rdp_good :: "rdp \<Rightarrow> bool" where
  "rdp_good s \<longleftrightarrow> 0 < nrOfNodes s \<and> rdp_inv (nrOfNodes s) s"

lemma rdp_good_inv: "rdp_good s \<Longrightarrow> rdp_inv (nrOfNodes s) s"
  by (simp add: rdp_good_def)

lemma rdp_goodI: "rdp_inv N s \<Longrightarrow> 0 < N \<Longrightarrow> rdp_good s"
  by (simp add: rdp_good_def rdp_invx_def env_ok_def)

interpretation rdpm: inv_machine rdp_step rdp_good
  by unfold_locales (meson rdp_goodI rdp_good_def rdp_step_inv)

section \<open>Initialisation\<close>

lemma init_node_fields:
  assumes "init_node port k a s = Some s'" "k < N"
    and "\<forall>i. \<forall>e\<in>set (iptab s i). 0 \<le> ip_node e \<and> ip_node e < int N"
  shows "nrOfNodes s' = nrOfNodes s" "rdpID s' = rdpID s" "mallocq s' = mallocq s"
    "MsgPool s' = MsgPool s" "MsgFreeList s' = MsgFreeList s" "SMsgFreeList s' = SMsgFreeList s"
    "AckList s' = AckList s" "outp s' = outp s"
    "\<exists>r1 r2 r3. conntable s' = (conntable s)(k := init_conn a port r1 r2 r3)"
    "\<forall>i. \<forall>e\<in>set (iptab s' i). 0 \<le> ip_node e \<and> ip_node e < int N"
proof -
  from assms(1) obtain t where t: "(if a \<noteq> INADDR_ANY \<and> a \<noteq> INADDR_NONE
      then addToIPTable a (int k) (iptab s) else Some (iptab s)) = Some t"
    by (auto simp: init_node_def split: option.splits)
  have s': "s' = upd_conn k (\<lambda>_. init_conn a port (rnd s (rticks s) AND 0x7fffffff)
      (rnd s (Suc (rticks s)) AND 0x7fffffff) (rnd s (Suc (Suc (rticks s))) AND 0x7fffffff))
      (s\<lparr>iptab := t, rticks := Suc (Suc (Suc (rticks s)))\<rparr>)"
    using assms(1) unfolding init_node_def t by (simp add: random32_def Let_def)
  show "nrOfNodes s' = nrOfNodes s" "rdpID s' = rdpID s" "mallocq s' = mallocq s"
    "MsgPool s' = MsgPool s" "MsgFreeList s' = MsgFreeList s" "SMsgFreeList s' = SMsgFreeList s"
    "AckList s' = AckList s" "outp s' = outp s"
    by (simp_all add: s')
  show "\<exists>r1 r2 r3. conntable s' = (conntable s)(k := init_conn a port r1 r2 r3)"
    unfolding s' by (intro exI) simp
  show "\<forall>i. \<forall>e\<in>set (iptab s' i). 0 \<le> ip_node e \<and> ip_node e < int N"
    using t assms(2,3) addToIPTable_nodes [of a "int k" "iptab s" t N]
    by (auto simp: s' split: if_splits)
qed

lemma init_nodes_fields:
  assumes "init_nodes port k hs s = Some s'" "k + length hs \<le> N"
    and "\<forall>i. \<forall>e\<in>set (iptab s i). 0 \<le> ip_node e \<and> ip_node e < int N"
  shows "nrOfNodes s' = nrOfNodes s \<and> rdpID s' = rdpID s \<and> mallocq s' = mallocq s
    \<and> MsgPool s' = MsgPool s \<and> MsgFreeList s' = MsgFreeList s \<and> SMsgFreeList s' = SMsgFreeList s
    \<and> AckList s' = AckList s \<and> outp s' = outp s
    \<and> (\<forall>n<k. conntable s' n = conntable s n)
    \<and> (\<forall>i<length hs. \<exists>r1 r2 r3. conntable s' (k + i) = init_conn (hs ! i) port r1 r2 r3)
    \<and> (\<forall>i. \<forall>e\<in>set (iptab s' i). 0 \<le> ip_node e \<and> ip_node e < int N)"
  using assms
proof (induction hs arbitrary: k s)
  case (Cons h hs)
  from Cons.prems obtain s1 where s1: "init_node port k h s = Some s1"
    and rest: "init_nodes port (Suc k) hs s1 = Some s'" by (auto split: option.splits)
  have "k < N" using Cons.prems(2) by simp
  note f = init_node_fields [OF s1 \<open>k < N\<close> Cons.prems(3)]
  have IH: "nrOfNodes s' = nrOfNodes s1 \<and> rdpID s' = rdpID s1 \<and> mallocq s' = mallocq s1
    \<and> MsgPool s' = MsgPool s1 \<and> MsgFreeList s' = MsgFreeList s1 \<and> SMsgFreeList s' = SMsgFreeList s1
    \<and> AckList s' = AckList s1 \<and> outp s' = outp s1
    \<and> (\<forall>n<Suc k. conntable s' n = conntable s1 n)
    \<and> (\<forall>i<length hs. \<exists>r1 r2 r3. conntable s' (Suc k + i) = init_conn (hs ! i) port r1 r2 r3)
    \<and> (\<forall>i. \<forall>e\<in>set (iptab s' i). 0 \<le> ip_node e \<and> ip_node e < int N)"
    using Cons.IH [OF rest] Cons.prems(2) f(10) by simp
  obtain r1 r2 r3 where c: "conntable s1 = (conntable s)(k := init_conn h port r1 r2 r3)"
    using f(9) by blast
  have "\<exists>r1 r2 r3. conntable s' (k + i) = init_conn ((h # hs) ! i) port r1 r2 r3"
    if "i < length (h # hs)" for i
  proof (cases i)
    case 0
    have "conntable s' k = conntable s1 k" using IH by blast
    with 0 c show ?thesis by auto
  next
    case (Suc j)
    then show ?thesis using IH that by simp
  qed
  then show ?case using IH f(1-8) c by auto
qed auto

lemma RDP_init_inv:
  assumes init: "RDP_init hosts localID portno disp cb s = Some s'"
    and mal: "False \<notin> set (mallocq s)"
  shows "rdp_inv (length hosts) s' \<and> 0 < length hosts \<and> outp s' = outp s
    \<and> (\<forall>n<length hosts. cstate (conntable s' n) = CLOSED \<and> pendList (conntable s' n) = []
         \<and> sin_addr (conntable s' n) = hosts ! n \<and> msgPending (conntable s' n) = 0)"
proof -
  let ?N = "length hosts"
  have id: "0 \<le> localID" "localID < int ?N" using init by (auto simp: RDP_init_def Let_def split: if_splits)
  then have pos: "0 < ?N" by linarith
  define t where "t = (initSMsgList ?N (initMsgList ?N (s\<lparr>hasDispatcher := disp, hasCallback := cb,
    nrOfNodes := ?N, rdpID := nat localID\<rparr>)))\<lparr>iptab := initIPTable\<rparr>"
  have run: "init_nodes (htons (if portno = 0 then DEFAULT_RDP_PORT else portno)) 0 hosts t = Some s'"
    using init id by (simp add: RDP_init_def initConntable_def Let_def t_def)
  have tab: "\<forall>i. \<forall>e\<in>set (iptab t i). 0 \<le> ip_node e \<and> ip_node e < int ?N"
    using pos by (simp add: t_def initIPTable_def free_entry_def)
  have r: "nrOfNodes s' = ?N" "rdpID s' = nat localID" "mallocq s' = mallocq s"
    "MsgPool s' = (\<lambda>i. msgbuf0)" "MsgFreeList s' = [0..<?N * MAX_WINDOW_SIZE]"
    "SMsgFreeList s' = [0..<?N * MAX_WINDOW_SIZE]" "AckList s' = []" "outp s' = outp s"
    "\<forall>i. \<forall>e\<in>set (iptab s' i). 0 \<le> ip_node e \<and> ip_node e < int ?N"
    using init_nodes_fields [OF run _ tab] by (simp_all add: t_def initSMsgList_def initMsgList_def)
  have c: "\<exists>p r1 r2 r3. conntable s' n = init_conn (hosts ! n) p r1 r2 r3" if "n < ?N" for n
    using init_nodes_fields [OF run _ tab] that by (simp add: Ball_def) blast
  have "conn_ok s' n \<and> seq_ok 0 s' n \<and> pendList (conntable s' n) = []
      \<and> cstate (conntable s' n) = CLOSED \<and> sin_addr (conntable s' n) = hosts ! n
      \<and> msgPending (conntable s' n) = 0" if "n < ?N" for n
    using c [OF that] by (auto simp: conn_ok_def seq_ok_def live_seqs_def live_def init_conn_def)
  moreover from this have "(\<Sum>n<?N. mset (pendList (conntable s' n))) = {#}" by simp
  then have "pool_ok ?N s'" using pos by (simp add: pool_ok_def used_frames_def r msgbuf0_def)
  moreover have "env_ok ?N s'" using id mal r by (auto simp: env_ok_def)
  ultimately show ?thesis using pos r(8) by (simp add: rdp_invx_def)
qed

end
