(* ===== verification/Rdp_Frame.thy ===== *)
theory Rdp_Frame
  imports Rdp_Machine
begin

text \<open>
  What the sending operations leave alone.  A send can, through an extended error of the socket,
  close a connection; nothing else of the connections changes.  The lemmas state this as a
  relation between the states before and after, and use it for the second invariant of the
  protocol: a closed connection has no live messages, and only a connection under construction
  counts messages as outstanding.
\<close>

section \<open>Sending changes nothing but closes\<close>

text \<open>The fields of a connection \<open>closeConnection\<close> keeps.\<close>

definition conn_kept where
  "conn_kept c = (frameExpected c, ConnID_in c, sin_addr c, sin_port c, pendList c, window c,
     frameToSend c, closed c)"

text \<open>
  \<open>sent_rel s t\<close>: from \<open>s\<close> to \<open>t\<close> some connections may have been closed.  A connection is either
  untouched in its state, its counters and its live messages, or \<open>CLOSED\<close> and empty; which
  buffers are queued where is unchanged.
\<close>

definition sent_rel :: "rdp \<Rightarrow> rdp \<Rightarrow> bool" where
  "sent_rel s t \<longleftrightarrow>
     nrOfNodes t = nrOfNodes s \<and> AckList t = AckList s \<and> MsgFreeList t = MsgFreeList s
     \<and> SMsgFreeList t = SMsgFreeList s \<and> iptab t = iptab s
     \<and> RDPMaxAckPending t = RDPMaxAckPending s \<and> RDPMaxRetransCount t = RDPMaxRetransCount s
     \<and> hasCallback t = hasCallback s
     \<and> (\<forall>i. mb_deleted (MsgPool s i) \<longrightarrow> mb_deleted (MsgPool t i))
     \<and> (\<forall>n. conn_kept (conntable t n) = conn_kept (conntable s n))
     \<and> (\<forall>n. (cstate (conntable t n) = cstate (conntable s n)
             \<and> msgPending (conntable t n) = msgPending (conntable s n))
           \<or> (cstate (conntable t n) = CLOSED \<and> live t n = []
             \<and> msgPending (conntable t n) = 0))"

lemma sent_rel_refl [intro!, simp]: "sent_rel s s"
  by (simp add: sent_rel_def)

lemma live_mono:
  assumes "\<forall>i. mb_deleted (MsgPool s i) \<longrightarrow> mb_deleted (MsgPool t i)"
    "pendList (conntable t n) = pendList (conntable s n)" "live s n = []"
  shows "live t n = []"
  using assms by (auto simp: live_def filter_empty_conv)

lemma sent_rel_trans:
  assumes st: "sent_rel s t" and tu: "sent_rel t u"
  shows "sent_rel s u"
proof -
  have "live u n = []" if "live t n = []" for n
    using live_mono [of t u n] that tu by (simp add: sent_rel_def conn_kept_def)
  then have "(cstate (conntable u n) = cstate (conntable s n)
             \<and> msgPending (conntable u n) = msgPending (conntable s n))
           \<or> (cstate (conntable u n) = CLOSED \<and> live u n = []
             \<and> msgPending (conntable u n) = 0)" for n
    using st tu unfolding sent_rel_def by metis
  then show ?thesis using st tu unfolding sent_rel_def by simp
qed

lemma sent_rel_emit [intro]: "sent_rel s t \<Longrightarrow> sent_rel s (emit e t)"
  by (simp add: sent_rel_def emit_def live_def)

lemma sent_rel_callback [intro]: "sent_rel s t \<Longrightarrow> sent_rel s (RDPCallback c t)"
  by (simp add: RDPCallback_def sent_rel_emit)

lemma sent_rel_fields [simp]:
  "sent_rel s (t\<lparr>sendq := q\<rparr>) = sent_rel s t" "sent_rel (s\<lparr>sendq := q\<rparr>) t = sent_rel s t"
  "sent_rel s (t\<lparr>recvq := r\<rparr>) = sent_rel s t" "sent_rel (s\<lparr>recvq := r\<rparr>) t = sent_rel s t"
  "sent_rel s (t\<lparr>retransCount := c\<rparr>) = sent_rel s t"
  by (simp_all add: sent_rel_def live_def)

lemma sent_rel_upd_conn:
  assumes "sent_rel s t" "conn_kept (f (conntable t n)) = conn_kept (conntable t n)"
    "cstate (f (conntable t n)) = cstate (conntable t n)"
    "msgPending (f (conntable t n)) = msgPending (conntable t n)"
  shows "sent_rel s (upd_conn n f t)"
proof -
  have "live (upd_conn n f t) m = live t m" for m
    using assms(2) by (simp add: live_def conn_kept_def)
  then show ?thesis using assms by (simp add: sent_rel_def)
qed

lemma sent_rel_close [intro]: "sent_rel s (closeConnection n cb s)"
proof -
  have "RDPMaxAckPending (closeConnection n cb s) = RDPMaxAckPending s"
    by (simp add: closeConnection_def clearMsgQ_def random32_def RDPCallback_def emit_def Let_def
        fold_invariant [where P = "\<lambda>t. RDPMaxAckPending t = RDPMaxAckPending s" and Q = "\<lambda>_. True"]
        drop_pending_def)
  then show ?thesis
    by (simp add: sent_rel_def close_MsgPool conn_kept_def closed_conn_def)
qed

lemma sent_rel_handleErr: "sent_rel s (snd (handleErr eno q s))"
  by (auto simp: handleErr_def Let_def split: errqueue.split)

lemma sent_rel_sendto_loop: "sent_rel s (snd (sendto_loop q n h d s))"
proof (induction q n h d s rule: sendto_loop.induct)
  case (3 eno eq q n h d s)
  have "sent_rel s (snd (handleErr eno eq (s\<lparr>sendq := q\<rparr>)))"
    using sent_rel_handleErr [of "s\<lparr>sendq := q\<rparr>"] by simp
  then show ?case using 3 by (auto split: prod.split sum.split intro: sent_rel_trans)
qed (simp_all add: sent_rel_emit)

lemma sent_rel_MYsendto [intro]: "sent_rel s (snd (MYsendto n h d s))"
  by (simp add: MYsendto_def sent_rel_sendto_loop)

lemma sent_rel_MYsendto': "MYsendto n h d s = (r, t) \<Longrightarrow> sent_rel s t"
  by (metis sent_rel_MYsendto snd_conv)

lemma sent_rel_recvfrom_loop: "sent_rel s (snd (recvfrom_loop p q s))"
proof (induction p q s rule: recvfrom_loop.induct)
  case (3 p eno eq sel q s)
  have "sent_rel s (snd (handleErr eno eq (s\<lparr>recvq := q\<rparr>)))"
    using sent_rel_handleErr [of "s\<lparr>recvq := q\<rparr>"] by simp
  then show ?case using 3 by (auto split: prod.split sum.split intro: sent_rel_trans)
qed simp_all

lemma sent_rel_MYrecvfrom: "MYrecvfrom p s = (r, t) \<Longrightarrow> sent_rel s t"
  using sent_rel_recvfrom_loop [of s p "recvq s"] by (simp add: MYrecvfrom_def)

lemma sent_rel_sends [intro]:
  "sent_rel s (sendSYN n s)" "sent_rel s (sendACK n s)" "sent_rel s (sendSYNACK n s)"
  "sent_rel s (sendNACK n s)"
proof -
  show "sent_rel s (sendSYN n s)" by (simp add: sendSYN_def Let_def sent_rel_MYsendto)
  show "sent_rel s (sendACK n s)" "sent_rel s (sendSYNACK n s)"
    by (auto simp: sendACK_def sendSYNACK_def Let_def conn_kept_def intro!: sent_rel_upd_conn)
  have "sent_rel s (upd_conn n (\<lambda>c. c\<lparr>totNACK := totNACK c + 1\<rparr>) s)"
    by (rule sent_rel_upd_conn) (simp_all add: conn_kept_def)
  then show "sent_rel s (sendNACK n s)"
    by (auto simp: sendNACK_def Let_def intro: sent_rel_trans)
qed

lemma sent_rel_upd_msg:
  assumes "sent_rel s t" "mb_deleted (f (MsgPool t i)) = mb_deleted (MsgPool t i)"
  shows "sent_rel s (upd_msg i f t)"
proof -
  have d: "mb_deleted (MsgPool (upd_msg i f t) j) = mb_deleted (MsgPool t j)" for j
    using assms(2) by (simp add: upd_msg_def)
  then have "live (upd_msg i f t) n = live t n" for n
    by (simp add: live_def) (simp add: upd_msg_def)
  then show ?thesis using assms(1) unfolding sent_rel_def d by (simp add: upd_msg_def)
qed

lemma sent_rel_resend_loop: "sent_rel s (resend_loop n is s)"
proof (induction n "is" s rule: resend_loop.induct)
  case (2 n i "is" s)
  let ?s1 = "upd_msg i (\<lambda>m. m\<lparr>mb_hdr := (mb_hdr m)\<lparr>h_ackno := frameExpected (conntable s n) - 1\<rparr>\<rparr>) s"
  have s1: "sent_rel s ?s1" by (intro sent_rel_upd_msg) simp_all
  show ?case
  proof (cases "mb_deleted (MsgPool s i)")
    case True
    with 2 show ?thesis by simp
  next
    case False
    obtain r s2 where m: "MYsendto n (mb_hdr (MsgPool ?s1 i)) (take (nat (mb_len (MsgPool ?s1 i)))
          (mb_data (MsgPool ?s1 i))) ?s1 = (r, s2)" by (rule prod.exhaust)
    have "sent_rel ?s1 s2" using m by (rule sent_rel_MYsendto')
    with s1 have s2: "sent_rel s s2" by (rule sent_rel_trans)
    show ?thesis
    proof (cases r)
      case (Inl e)
      with False m s2 show ?thesis by (simp add: Let_def)
    next
      case (Inr x)
      have "sent_rel s2 (resend_loop n is s2)" using 2(2) [OF False refl refl m [symmetric] Inr] .
      with s2 have "sent_rel s (resend_loop n is s2)" by (rule sent_rel_trans)
      with False m Inr show ?thesis by (simp add: Let_def)
    qed
  qed
qed simp

lemma sent_rel_gettimeofday: "gettimeofday s = (tv, t) \<Longrightarrow> sent_rel s t"
  by (auto simp: gettimeofday_def sent_rel_def live_def)

lemma sent_rel_resendMsgs [intro]: "sent_rel s (resendMsgs n s)"
proof -
  obtain tv s1 where g: "gettimeofday s = (tv, s1)" by fastforce
  have s1: "sent_rel s s1" using sent_rel_gettimeofday [OF g] .
  have s2: "sent_rel s (upd_conn n (\<lambda>c. c\<lparr>tmout := t\<rparr>) s1)" for t
    using s1 by (rule sent_rel_upd_conn) (simp_all add: conn_kept_def)
  then have s4: "sent_rel s ((upd_conn n (\<lambda>c. c\<lparr>retrans := retrans c + 1, totRetrans := totRetrans c + 1\<rparr>)
      (upd_conn n (\<lambda>c. c\<lparr>tmout := t\<rparr>) s1))\<lparr>retransCount := k\<rparr>)" for t k
    using sent_rel_upd_conn by (simp add: sent_rel_upd_conn conn_kept_def)
  show ?thesis
    by (auto simp: resendMsgs_def g Let_def conn_kept_def s1 intro!: s4 sent_rel_upd_conn
        intro: sent_rel_trans [OF s2] sent_rel_trans [OF s4] sent_rel_resend_loop
        split: RDPState.split)
qed

end
