(* ===== verification/Rdp_States.thy ===== *)
theory Rdp_States
  imports Rdp_Frame
begin

text \<open>
  The connection state machine.  \<open>rdp_next\<close> is its transition table; \<open>updateState\<close> follows it,
  but for connections an error of the socket or the retransmission limit closes.  The second
  invariant \<open>st_ok\<close>: a closed connection has no live messages and none outstanding, and an active
  one has none outstanding.  It is kept by every operation, a second instance of \<open>inv_machine\<close>.
\<close>

section \<open>The transition table\<close>

fun rdp_next :: "RDPState \<Rightarrow> int16 \<Rightarrow> bool \<Rightarrow> RDPState" where
  "rdp_next CLOSED t same = (if t = RDP_SYN then SYN_RECVD else SYN_SENT)"
| "rdp_next SYN_SENT t same =
     (if t = RDP_SYN then SYN_RECVD else if t = RDP_SYNACK then ACTIVE else SYN_SENT)"
| "rdp_next SYN_RECVD t same =
     (if t = RDP_SYN then SYN_RECVD
      else if t = RDP_SYNACK \<or> t = RDP_ACK \<or> t = RDP_DATA then ACTIVE else SYN_SENT)"
| "rdp_next ACTIVE t same =
     (if t = RDP_SYN then SYN_RECVD
      else if same then ACTIVE else if t = RDP_SYNACK then SYN_SENT else CLOSED)"

text \<open>What one operation may do to the state of a node: the step \<open>x\<close>, or closing it.\<close>

definition moves_to :: "rdp \<Rightarrow> rdp \<Rightarrow> nat \<Rightarrow> RDPState \<Rightarrow> bool" where
  "moves_to s t n x \<longleftrightarrow> cstate (conntable t n) \<in> {x, CLOSED}
     \<and> (\<forall>m. m \<noteq> n \<longrightarrow> cstate (conntable t m) \<in> {cstate (conntable s m), CLOSED})"

lemma sent_rel_moves:
  assumes "sent_rel s' t" "moves_to s s' n x"
  shows "moves_to s t n x"
proof -
  have "cstate (conntable t m) \<in> {cstate (conntable s' m), CLOSED}" for m
    using assms(1) unfolding sent_rel_def by blast
  then show ?thesis using assms(2) unfolding moves_to_def by (metis insert_iff singletonD)
qed

lemma moves_upd: "cstate (f (conntable s n)) = x \<Longrightarrow> moves_to s (upd_conn n f s) n x"
  by (simp add: moves_to_def)

lemma moves_refl: "cstate (conntable s n) = x \<Longrightarrow> moves_to s s n x"
  by (simp add: moves_to_def)

lemma moves_close: "moves_to s (closeConnection n cb s) n CLOSED"
  by (simp add: moves_to_def closed_conn_def)

lemma moves_upd_close:
  "cstate (f (conntable (closeConnection n cb s) n)) = x
     \<Longrightarrow> moves_to s (upd_conn n f (closeConnection n cb s)) n x"
  by (simp add: moves_to_def)


lemma moves_go_active:
  assumes "moves_to s0 (upd_conn n (\<lambda>c. c\<lparr>cstate := ACTIVE\<rparr>) s) n ACTIVE"
  shows "moves_to s0 (go_active n s) n ACTIVE"
proof -
  let ?s1 = "upd_conn n (\<lambda>c. c\<lparr>cstate := ACTIVE\<rparr>) s"
  have "moves_to s0 (resendMsgs n ?s1) n ACTIVE" "moves_to s0 (sendACK n ?s1) n ACTIVE"
    using assms by (blast intro: sent_rel_moves)+
  then show ?thesis
    by (simp add: go_active_def Let_def moves_to_def RDPCallback_def emit_def)
qed

theorem updateState_table:
  "moves_to s (updateState hdr n s) n
     (rdp_next (cstate (conntable s n)) (h_type hdr) (h_connid hdr = ConnID_in (conntable s n)))"
  by (cases "cstate (conntable s n)")
    (auto simp: updateState_def updateState_closed_def updateState_synsent_def
      updateState_synrecvd_def updateState_active_def set_peer_def rdp_types closed_conn_def
      moves_to_def [of s "upd_conn _ _ (upd_conn _ _ _)"]
      intro!: sent_rel_moves [OF sent_rel_sends(1)] sent_rel_moves [OF sent_rel_sends(3)]
        moves_go_active moves_upd moves_upd_close moves_refl moves_close)

section \<open>The second invariant\<close>

definition conn_st :: "rdp \<Rightarrow> nat \<Rightarrow> bool" where
  "conn_st s n \<longleftrightarrow>
     (cstate (conntable s n) = CLOSED \<longrightarrow> live s n = [] \<and> msgPending (conntable s n) = 0)
     \<and> (cstate (conntable s n) = ACTIVE \<longrightarrow> msgPending (conntable s n) = 0)"

definition st_ok :: "rdp \<Rightarrow> bool" where
  "st_ok s \<longleftrightarrow> (\<forall>n<nrOfNodes s. conn_st s n)"

lemma st_okD: "st_ok s \<Longrightarrow> n < nrOfNodes s \<Longrightarrow> conn_st s n"
  by (simp add: st_ok_def)

lemma sent_rel_cases:
  "sent_rel s t \<Longrightarrow>
     (cstate (conntable t n) = cstate (conntable s n)
        \<and> msgPending (conntable t n) = msgPending (conntable s n))
     \<or> (cstate (conntable t n) = CLOSED \<and> live t n = [] \<and> msgPending (conntable t n) = 0)"
  unfolding sent_rel_def by blast

lemma conn_st_sent:
  assumes "sent_rel s t" "conn_st s n"
  shows "conn_st t n"
proof -
  have "live s n = [] \<Longrightarrow> live t n = []"
    using live_mono [of s t n] assms(1) by (simp add: sent_rel_def conn_kept_def)
  then show ?thesis using assms unfolding conn_st_def sent_rel_def by metis
qed

lemma sent_rel_nodes: "sent_rel s t \<Longrightarrow> nrOfNodes t = nrOfNodes s"
  by (simp add: sent_rel_def)

lemma st_ok_sent: "sent_rel s t \<Longrightarrow> st_ok s \<Longrightarrow> st_ok t"
  by (simp add: st_ok_def conn_st_sent sent_rel_nodes)

lemma live_upd_conn [simp]:
  "pendList (f (conntable s n)) = pendList (conntable s n) \<Longrightarrow> live (upd_conn n f s) m = live s m"
  by (simp add: live_def)

lemma conn_st_upd_other: "m \<noteq> n \<Longrightarrow> conn_st (upd_conn n f s) m = conn_st s m"
  by (simp add: conn_st_def live_def)

lemma conn_st_emit [simp]: "conn_st (RDPCallback c s) n = conn_st s n"
  "conn_st (emit e s) n = conn_st s n"
  by (simp_all add: conn_st_def live_def RDPCallback_def emit_def)

lemma st_ok_emit [simp]: "st_ok (RDPCallback c s) = st_ok s" "st_ok (emit e s) = st_ok s"
  by (simp_all add: st_ok_def RDPCallback_def emit_def conn_st_def live_def)

lemma st_ok_upd:
  assumes "st_ok s" and "pendList (f (conntable s n)) = pendList (conntable s n)"
    and "cstate (f (conntable s n)) = ACTIVE \<longrightarrow> msgPending (f (conntable s n)) = 0"
    and "cstate (f (conntable s n)) = CLOSED \<longrightarrow> cstate (conntable s n) = CLOSED
      \<and> msgPending (f (conntable s n)) = 0"
  shows "st_ok (upd_conn n f s)"
proof -
  have "conn_st (upd_conn n f s) m" if "m < nrOfNodes s" for m
    using assms that by (cases "m = n") (auto simp: conn_st_def st_ok_def conn_st_upd_other)
  then show ?thesis by (simp add: st_ok_def)
qed

lemma st_ok_fields [simp]:
  "st_ok (s\<lparr>sendq := a\<rparr>) = st_ok s" "st_ok (s\<lparr>recvq := b\<rparr>) = st_ok s"
  "st_ok (s\<lparr>cleanupReq := e\<rparr>) = st_ok s" "st_ok (s\<lparr>RDPStatistics := e\<rparr>) = st_ok s"
  "st_ok (s\<lparr>RDPPktLoss := g\<rparr>) = st_ok s" "st_ok (s\<lparr>RDPMaxRetransCount := g\<rparr>) = st_ok s"
  "st_ok (s\<lparr>RDPMaxAckPending := g\<rparr>) = st_ok s" "st_ok (s\<lparr>RESEND_TIMEOUT := t\<rparr>) = st_ok s"
  "st_ok (s\<lparr>CLOSED_TIMEOUT := t\<rparr>) = st_ok s" "st_ok (s\<lparr>iptab := u\<rparr>) = st_ok s"
  "st_ok (s\<lparr>rticks := k\<rparr>) = st_ok s"
  by (simp_all add: st_ok_def conn_st_def live_def)

lemma st_ok_close: "st_ok s \<Longrightarrow> st_ok (closeConnection n cb s)"
  by (rule st_ok_sent [OF sent_rel_close])

text \<open>
  Between setting \<open>ACTIVE\<close> and counting the outstanding messages the invariant fails for the one
  node; sending keeps it for the others, and counting restores it.
\<close>

lemma go_active_st:
  assumes "\<And>m. m \<noteq> n \<Longrightarrow> m < nrOfNodes s \<Longrightarrow> conn_st s m"
  shows "st_ok (go_active n s)"
proof -
  let ?s1 = "upd_conn n (\<lambda>c. c\<lparr>cstate := ACTIVE\<rparr>) s"
  let ?cnt = "upd_conn n (\<lambda>c. c\<lparr>frameToSend := frameToSend c + of_int (msgPending c), msgPending := 0\<rparr>)"
  have nodes: "nrOfNodes (resendMsgs n ?s1) = nrOfNodes s" "nrOfNodes (sendACK n ?s1) = nrOfNodes s"
    using sent_rel_nodes [OF sent_rel_resendMsgs [of ?s1 n]]
      sent_rel_nodes [OF sent_rel_sends(2) [of ?s1 n]] by simp_all
  have o: "conn_st ?s1 m" if "m \<noteq> n" "m < nrOfNodes s" for m
    using assms that by (simp add: conn_st_upd_other)
  have cnt: "conn_st (?cnt (resendMsgs n ?s1)) m" if "m < nrOfNodes s" for m
  proof (cases "m = n")
    case True
    have "cstate (conntable (resendMsgs n ?s1) n) = ACTIVE
        \<or> cstate (conntable (resendMsgs n ?s1) n) = CLOSED \<and> live (resendMsgs n ?s1) n = []"
      using sent_rel_cases [OF sent_rel_resendMsgs [of ?s1 n], of n] by auto
    with True show ?thesis by (auto simp: conn_st_def)
  next
    case False
    then show ?thesis
      using conn_st_sent [OF sent_rel_resendMsgs o] that by (simp add: conn_st_upd_other)
  qed
  have "conn_st (sendACK n ?s1) m" if "msgPending (conntable s n) = 0" "m < nrOfNodes s" for m
  proof (cases "m = n")
    case True
    have "conn_st ?s1 n" using that by (simp add: conn_st_def)
    with True show ?thesis using conn_st_sent [OF sent_rel_sends(2)] by blast
  next
    case False
    then show ?thesis using conn_st_sent [OF sent_rel_sends(2) o] that by blast
  qed
  with cnt show ?thesis by (simp add: go_active_def Let_def st_ok_def [of "upd_conn _ _ _"]
    st_ok_def [of "sendACK _ _"] nodes)
qed

lemma updateState_st: "st_ok s \<Longrightarrow> st_ok (updateState hdr n s)"
  by (cases "cstate (conntable s n)")
    (auto simp: updateState_def updateState_closed_def updateState_synsent_def set_peer_def
      updateState_synrecvd_def updateState_active_def conn_st_upd_other st_okD
      intro!: st_ok_sent [OF sent_rel_sends(1)] st_ok_sent [OF sent_rel_sends(3)] go_active_st
        st_ok_close st_ok_upd)

section \<open>The remaining operations\<close>

text \<open>Here the resource invariant is needed: a released buffer is in one list only.\<close>

lemma live_release_other:
  assumes "mb_node (MsgPool s i) = int n" "i \<notin> set (pendList (conntable s m))" "m \<noteq> n"
  shows "live (release_buf n i s) m = live s m"
  using assms(2,3) by (auto simp: live_def release_buf_fields [OF assms(1)] intro!: filter_cong)

lemma release_st:
  assumes inv: "rdp_inv N s" and st: "st_ok s" and "n < N" and i: "i \<in> set (pendList (conntable s n))"
  shows "st_ok (release_buf n i s)"
proof -
  have pool: "pool_ok N s" and conn: "\<forall>n<N. conn_ok s n" and N: "nrOfNodes s = N"
    using inv by (auto simp: rdp_invx_def env_ok_def)
  have node: "mb_node (MsgPool s i) = int n" using conn \<open>n < N\<close> i by (auto simp: conn_ok_def)
  note f = release_buf_fields [OF node]
  have "conn_st (release_buf n i s) m" if "m < N" for m
  proof (cases "m = n")
    case True
    have "live (release_buf n i s) n = remove1 i (live s n)"
      using live_release [OF node pend_distinct [OF pool \<open>n < N\<close>]] .
    with True st_okD [OF st, of n] \<open>n < N\<close> N show ?thesis by (auto simp: conn_st_def f)
  next
    case False
    have "i \<notin> set (pendList (conntable s m))"
      using pend_other [of s n m i] conn \<open>n < N\<close> that i False by blast
    with False st_okD [OF st, of m] that N show ?thesis
      by (simp add: conn_st_def live_release_other [OF node]) (simp add: f)
  qed
  then show ?thesis by (simp add: st_ok_def f N)
qed

lemma doACK_loop_st:
  assumes "rdp_inv N s" "st_ok s" "n < N" "pendList (conntable s n) = is"
  shows "st_ok (snd (doACK_loop is n ackno stat now cb s))"
  using assms
proof (induction "is" arbitrary: s cb)
  case (Cons i "is")
  have ip: "i \<in> set (pendList (conntable s n))" using Cons.prems(4) by simp
  have node: "mb_node (MsgPool s i) = int n"
    using Cons.prems ip by (auto simp: rdp_invx_def conn_ok_def)
  let ?m = "MsgPool s i"
  show ?case
  proof (cases "mb_deleted ?m")
    case True
    have "rdp_inv N (release_buf n i s)" "st_ok (release_buf n i s)"
      using release_deleted_inv [OF Cons.prems(1,3) ip True] release_st [OF Cons.prems(1-3) ip] .
    moreover have "pendList (conntable (release_buf n i s) n) = is"
      using Cons.prems(4) by (simp add: release_buf_fields [OF node])
    ultimately show ?thesis using Cons.IH Cons.prems(3) True by (simp add: Let_def)
  next
    case live: False
    let ?s1 = "upd_conn n (\<lambda>c. c\<lparr>totSent := totSent c + 1\<rparr>) s"
    let ?s2 = "if stat \<and> totSent (conntable ?s1 n) > NUM_WARMUP
               then upd_conn n (\<lambda>c. c\<lparr>TTA := timeradd (timersub now (mb_sentTime ?m)) (TTA c)\<rparr>) ?s1
               else ?s1"
    have "rdp_inv N ?s1" using Cons.prems(1) by (rule invx_upd_conn) (simp add: conn_core_def)
    then have s2: "rdp_inv N ?s2" by (auto intro!: invx_upd_conn simp: conn_core_def)
    have N: "nrOfNodes s = N" using Cons.prems(1) by (simp add: rdp_invx_def env_ok_def)
    have c: "conn_st s n" using st_okD [OF Cons.prems(2)] Cons.prems(3) N by simp
    then have st2: "st_ok ?s2" using Cons.prems(2) by (auto intro!: st_ok_upd simp: conn_st_def)
    have p2: "pendList (conntable ?s2 n) = i # is" "MsgPool ?s2 = MsgPool s"
      using Cons.prems(4) by auto
    then have l2: "live ?s2 n = i # filter (\<lambda>i. \<not> mb_deleted (MsgPool s i)) is"
      using live by (simp only: live_def) simp
    have "rdp_inv N (upd_conn n ack_conn (release_buf n i ?s2))"
      using release_acked_inv(1) [OF s2 Cons.prems(3) l2] .
    moreover have "st_ok (release_buf n i ?s2)"
      using release_st [OF s2 st2 Cons.prems(3)] p2 by simp
    then have "st_ok (upd_conn n ack_conn (release_buf n i ?s2))"
      using st_okD [of "release_buf n i ?s2" n] Cons.prems(3) N p2 node
      by (intro st_ok_upd) (auto simp: ack_conn_def conn_st_def release_buf_fields)
    moreover have "pendList (conntable (upd_conn n ack_conn (release_buf n i ?s2)) n) = is"
      using p2 node by (simp add: release_buf_fields ack_conn_def)
    ultimately show ?thesis
      using Cons.IH Cons.prems live by (simp add: Let_def ack_conn_def [abs_def])
  qed
qed simp

lemma sent_rel_doACK_data: "sent_rel s (doACK_data hdr n s)"
  by (auto simp: doACK_data_def Let_def intro: sent_rel_trans)

lemma doACK_st:
  assumes "rdp_inv N s" "st_ok s" "n < N"
  shows "st_ok (doACK hdr n s)"
proof -
  let ?s1 = "doACK_data hdr n s"
  have d: "rdp_inv N ?s1" "st_ok ?s1"
    using assms doACK_data_inv st_ok_sent [OF sent_rel_doACK_data] by blast+
  obtain tv s2 where g: "gettimeofday ?s1 = (tv, s2)" by fastforce
  have s2: "rdp_inv N s2" "st_ok s2"
    using invx_gettimeofday [OF d(1) g] st_ok_sent [OF sent_rel_gettimeofday [OF g] d(2)] .
  have l: "st_ok (snd (doACK_loop (pendList (conntable t n)) n a st w cb t))"
    if "rdp_inv N t" "st_ok t" for t a st w cb using doACK_loop_st [OF that assms(3) refl] .
  show ?thesis
    using assms d s2 by (auto simp: doACK_def g Let_def split_beta intro!: updateState_st l)
qed

lemma handleControlPacket_st:
  assumes "rdp_inv N s" "st_ok s" "n < N"
  shows "st_ok (handleControlPacket hdr n s)"
  using assms
  by (auto simp: handleControlPacket_def Let_def
      intro!: updateState_st doACK_st st_ok_sent [OF sent_rel_resendMsgs])

lemma timeout_cleanup_st:
  assumes "rdp_inv N s" "st_ok s"
  shows "st_ok (timeout_cleanup i s)"
  using assms deleted_pending [of "\<lambda>_. 0" N s i]
  by (auto simp: timeout_cleanup_def Let_def intro!: release_st)

lemma handleTimeoutRDP_st:
  assumes "rdp_inv N s" "st_ok s" "0 < N"
  shows "st_ok (handleTimeoutRDP s)"
proof -
  obtain tv s1 where g: "gettimeofday s = (tv, s1)" by fastforce
  have s1: "rdp_inv N s1" "st_ok s1"
    using invx_gettimeofday [OF assms(1) g] st_ok_sent [OF sent_rel_gettimeofday [OF g] assms(2)] .
  let ?P = "\<lambda>t. rdp_inv N t \<and> st_ok t"
  have r: "?P (timeout_resend tv i t)" if "?P t" for i t
    using that timeout_resend_inv [of N t tv i] assms(3)
    by (auto simp: timeout_resend_def Let_def intro!: st_ok_sent [OF sent_rel_resendMsgs])
  have c: "?P (timeout_cleanup i t)" if "?P t" for i t
    using that timeout_cleanup_inv timeout_cleanup_st by blast
  have s2: "?P (fold (timeout_resend tv) xs s1)" for xs
    by (rule fold_inv [of ?P "timeout_resend tv"]) (use r s1 in blast)+
  then have s3: "?P (fold timeout_cleanup ys (fold (timeout_resend tv) xs s1))" for xs ys
    by (intro fold_inv [of ?P timeout_cleanup]) (use c in blast)+
  show ?thesis using s2 s3
    by (auto simp: handleTimeoutRDP_def g Let_def)
qed

end
