(* ===== verification/Rdp_Sound.thy ===== *)
theory Rdp_Sound
  imports Rdp_States
begin

text \<open>
  The entry points keep the second invariant \<open>st_ok\<close>, which makes it, together with the resource
  invariant, a second instance of the locale \<open>inv_machine\<close> on the operations of the protocol.
\<close>

section \<open>Sending\<close>

lemma live_queue_other:
  assumes "m \<noteq> n" "i \<notin> set (pendList (conntable s m))"
  shows "live (queue_msg n buf i f s) m = live s m"
  using assms by (auto simp: live_def queue_msg_fields intro!: filter_cong)

lemma queue_msg_st:
  assumes inv: "rdp_inv N s" and st: "st_ok s" and "m < N" and tk: "taken N i buf f s s2"
    and "m \<noteq> n"
  shows "conn_st (queue_msg n buf i f s2) m"
proof -
  obtain rest sfree mq where free: "MsgFreeList s = i # rest"
    and s2: "s2 = s\<lparr>MsgFreeList := rest, SMsgFreeList := sfree, mallocq := mq\<rparr>"
    using tk unfolding taken_def by blast
  have pool: "pool_ok N s" and N: "nrOfNodes s = N" using inv by (auto simp: rdp_invx_def env_ok_def)
  have "i \<notin> set (AckList s)" using free_not_ack [OF pool] free by simp
  then have "i \<notin> set (pendList (conntable s2 m))"
    using pend_in_ack [OF pool \<open>m < N\<close>] s2 by auto
  moreover have "conn_st s2 m" using st_okD [OF st] \<open>m < N\<close> N s2 by (simp add: conn_st_def live_def)
  ultimately show ?thesis
    using \<open>m \<noteq> n\<close> by (simp add: conn_st_def live_queue_other) (simp add: queue_msg_fields)
qed

lemma queue_msg_active:
  "conn_core (conntable (queue_msg n buf i f s2) n) =
     conn_core ((conntable s2 n)\<lparr>pendList := pendList (conntable s2 n) @ [i],
       window := window (conntable s2 n) - 1\<rparr>)"
  by (rule queue_msg_fields)

lemma st_ok_at:
  assumes "\<And>m. m \<noteq> n \<Longrightarrow> m < nrOfNodes s \<Longrightarrow> conn_st s m"
    and "cstate (f (conntable s n)) = ACTIVE \<longrightarrow> msgPending (f (conntable s n)) = 0"
    and "cstate (f (conntable s n)) \<noteq> CLOSED"
  shows "st_ok (upd_conn n f s)"
proof -
  have "conn_st (upd_conn n f s) n" using assms(2,3) by (simp add: conn_st_def)
  then have "conn_st (upd_conn n f s) m" if "m < nrOfNodes s" for m
    using assms(1) that by (cases "m = n") (auto simp: conn_st_upd_other)
  then show ?thesis by (simp add: st_ok_def)
qed

lemma transmit_st:
  assumes "\<And>m. m \<noteq> n \<Longrightarrow> m < nrOfNodes s \<Longrightarrow> conn_st s m"
    and "cstate (conntable s n) = ACTIVE \<Longrightarrow> msgPending (conntable s n) = 0"
  shows "st_ok (snd (transmit n i s))"
  using assms
  by (cases "cstate (conntable s n)")
    (auto simp: transmit_def Let_def intro!: st_ok_sent [OF sent_rel_sends(1)]
      st_ok_sent [OF sent_rel_sends(3)] st_ok_sent [OF sent_rel_MYsendto] st_ok_at)

lemma send_buffered_st:
  assumes "rdp_inv N s" "st_ok s" "n < N" "window (conntable s n) \<noteq> 0"
  shows "st_ok (snd (send_buffered n buf s))"
proof -
  from send_buffered_taken [OF assms(1,3,4), of buf]
  obtain i f s1 s2 where g: "getMsg s = (Some i, s1)" "get_frame (length buf) s1 = (Some f, s2)"
    and tk: "taken N i buf f s s2" .
  have N: "nrOfNodes s = N" using assms(1) by (simp add: rdp_invx_def env_ok_def)
  have s2: "nrOfNodes s2 = N" "conntable s2 = conntable s"
    using tk N by (auto simp: taken_def)
  have "msgPending (conntable s n) = 0" if "cstate (conntable s n) = ACTIVE"
    using st_okD [OF assms(2)] assms(3) N that by (auto simp: conn_st_def)
  then have "st_ok (snd (transmit n i (queue_msg n buf i f s2)))"
    using queue_msg_st [OF assms(1,2) _ tk] s2 queue_msg_active [of n buf i f s2]
    by (intro transmit_st) (auto simp: queue_msg_fields conn_core_def)
  then show ?thesis by (auto simp: send_buffered_def g split: prod.split sum.split)
qed

lemma Rsendto_st:
  assumes "rdp_inv N s" "st_ok s"
  shows "st_ok (snd (Rsendto node buf s))"
proof (cases "node < 0 \<or> node \<ge> int (nrOfNodes s)")
  case False
  have N: "nrOfNodes s = N" using assms by (simp add: rdp_invx_def env_ok_def)
  let ?n = "nat node"
  have n: "?n < N" using False N by linarith
  obtain tv s1 where g: "gettimeofday s = (tv, s1)" by fastforce
  have c1: "conntable s1 = conntable s" using g by (auto simp: gettimeofday_def)
  have s1: "rdp_inv N s1" "st_ok s1"
    using invx_gettimeofday [OF assms(1) g] st_ok_sent [OF sent_rel_gettimeofday [OF g] assms(2)] .
  let ?s2 = "upd_conn ?n (\<lambda>c. c\<lparr>closed := timerclear\<rparr>) s1"
  have "rdp_inv N ?s2" using s1(1) by (rule invx_upd_conn) (simp add: conn_core_def)
  moreover have "st_ok ?s2"
    using st_okD [OF s1(2), of ?n] N n g
    by (intro st_ok_upd s1(2)) (auto simp: conn_st_def gettimeofday_def)
  ultimately show ?thesis
    using False assms n s1 c1
    by (auto simp: Rsendto_def Let_def g intro!: send_buffered_st)
qed (simp add: Rsendto_def assms)


section \<open>Receiving\<close>

lemma st_ok_upd_keep:
  assumes "st_ok s" and "pendList (f (conntable s n)) = pendList (conntable s n)"
    and "cstate (f (conntable s n)) = cstate (conntable s n)"
    and "msgPending (f (conntable s n)) = msgPending (conntable s n)"
  shows "st_ok (upd_conn n f s)"
proof (cases "n < nrOfNodes s")
  case True
  then show ?thesis using st_okD [OF assms(1)] assms by (intro st_ok_upd) (auto simp: conn_st_def)
next
  case False
  then have "conn_st (upd_conn n f s) m" if "m < nrOfNodes s" for m
    using st_okD [OF assms(1) that] that by (cases "m = n") (auto simp: conn_st_upd_other)
  then show ?thesis by (simp add: st_ok_def)
qed

lemma nodes_inv: "rdp_inv N s \<Longrightarrow> nrOfNodes s = N"
  by (simp add: rdp_invx_def env_ok_def)

lemma accept_data_st:
  assumes "rdp_inv N s" "st_ok s" "n < N"
  shows "st_ok (snd (accept_data d n len node s))"
proof -
  have "st_ok (doACK (d_hdr d) n s)" "nrOfNodes (doACK (d_hdr d) n s) = N"
    using doACK_st [OF assms] nodes_inv [OF doACK_inv [OF assms(1,3)]] .
  then show ?thesis
    using assms(3)
    by (auto simp: accept_data_def Let_def
        intro!: st_ok_sent [OF sent_rel_sends(2)] st_ok_upd_keep)
qed

lemma receive_from_st:
  assumes "rdp_inv N s" "st_ok s" "n < N"
  shows "st_ok (snd (receive_from d n len node s))"
  using assms
  by (auto simp: receive_from_def intro!: handleControlPacket_st updateState_st accept_data_st
      updateState_inv split: RDPState.split)

lemma MYrecvfrom_both:
  "MYrecvfrom p s = (r, t) \<Longrightarrow> rdp_inv N s \<Longrightarrow> st_ok s \<Longrightarrow> rdp_inv N t \<and> st_ok t"
  using MYrecvfrom_inv [of p s r t] st_ok_sent [OF sent_rel_MYrecvfrom] by blast

lemma Rrecvfrom_st:
  assumes "rdp_inv N s" "st_ok s"
  shows "st_ok (snd (Rrecvfrom nodep msgp len s))"
proof -
  have "rdp_inv N s1 \<and> st_ok s1" if "MYrecvfrom False s = (r, s1)" for r s1
    using MYrecvfrom_both [OF that assms] .
  then show ?thesis
    using assms
    by (auto simp: Rrecvfrom_def Let_def lookup_node intro!: receive_from_st
        split: option.split prod.split sum.split)
qed

section \<open>The socket handler\<close>

lemma RDP_updateNode_st: "st_ok s \<Longrightarrow> st_ok (snd (RDP_updateNode node addr s))"
proof (cases "node < 0 \<or> node \<ge> int (nrOfNodes s)")
  case False
  assume st: "st_ok s"
  let ?n = "nat node"
  let ?s1 = "if cstate (conntable s ?n) \<noteq> CLOSED then closeConnection ?n False s else s"
  let ?s3 = "\<lambda>t. upd_conn ?n (\<lambda>c. c\<lparr>sin_addr := addr\<rparr>) (?s1\<lparr>iptab := t\<rparr>)"
  have "nrOfNodes ?s1 = nrOfNodes s" using sent_rel_nodes [OF sent_rel_close] by simp
  moreover have "st_ok ?s1" using st st_ok_close by simp
  ultimately have "st_ok (?s3 t)" for t using False by (intro st_ok_upd_keep) auto
  then show ?thesis
    using False st by (auto simp: RDP_updateNode_def Let_def split: option.split)
qed (simp add: RDP_updateNode_def)

lemma fetch_and_st: "rdp_inv N s \<Longrightarrow> st_ok s \<Longrightarrow> st_ok (snd (fetch_and r s))"
  using MYrecvfrom_both [of False s] by (auto simp: fetch_and_def split: prod.split sum.split)

lemma handleRDP_from_st:
  assumes "rdp_inv N s" "st_ok s" "n < N"
  shows "st_ok (snd (handleRDP_from d n s))"
proof -
  have "rdp_inv N s1 \<and> st_ok s1" if "MYrecvfrom False s = (r, s1)" for r s1
    using MYrecvfrom_both [OF that assms(1,2)] .
  then show ?thesis
    using assms
    by (auto simp: handleRDP_from_def intro!: handleControlPacket_st doACK_st updateState_st
        split: prod.split sum.split option.split)
qed

lemma handleRDP_known_st:
  assumes "rdp_inv N s" "st_ok s" "n < N"
  shows "st_ok (snd (handleRDP_known d n s))"
proof -
  obtain tv s1 where g: "gettimeofday s = (tv, s1)" by fastforce
  have s1: "rdp_inv N s1" "st_ok s1"
    using invx_gettimeofday [OF assms(1) g] st_ok_sent [OF sent_rel_gettimeofday [OF g] assms(2)] .
  have "rdp_inv N (upd_conn n (\<lambda>c. c\<lparr>closed := timerclear\<rparr>) s1)"
    using s1(1) by (rule invx_upd_conn) (simp add: conn_core_def)
  moreover have "st_ok (upd_conn n (\<lambda>c. c\<lparr>closed := timerclear\<rparr>) s1)"
    using s1 assms(3) nodes_inv by (intro st_ok_upd_keep) auto
  ultimately show ?thesis
    using s1 assms by (auto simp: handleRDP_known_def g intro!: fetch_and_st handleRDP_from_st)
qed

lemma unknown_sender_st: "st_ok s \<Longrightarrow> st_ok (snd (unknown_sender upd a s))"
  using RDP_updateNode_st [of "RDPCallback (UNKNOWN_SENDER a) s"]
  by (auto simp: unknown_sender_def Let_def split: option.split prod.split outcome.split)
    (metis snd_conv)+

lemma handleRDP_sender_st:
  assumes "rdp_inv N s" "st_ok s"
  shows "st_ok (snd (handleRDP_sender upd d s))"
proof -
  note u = unknown_sender_inv [OF assms(1), of upd "d_addr d"]
  show ?thesis
    using assms u unknown_sender_st lookup_node [OF assms(1)] lookup_node [OF u]
    by (auto simp: handleRDP_sender_def Let_def split_beta intro!: fetch_and_st handleRDP_known_st)
qed

lemma handleRDP_st:
  assumes "rdp_inv N s" "st_ok s"
  shows "st_ok (snd (handleRDP upd s))"
proof -
  obtain r s1 where m: "MYrecvfrom True s = (r, s1)" by fastforce
  have s1: "rdp_inv N s1" "st_ok s1" using MYrecvfrom_both [OF m assms] by auto
  have "rdp_inv N (snd (random32 s1))" "st_ok (snd (random32 s1))"
    using core_eq_invx [OF core_eq_random32 s1(1)] s1(2) by (simp_all add: random32_def)
  with s1 show ?thesis
    by (auto simp: handleRDP_def m Let_def split_beta
        intro!: fetch_and_st handleRDP_sender_st split: sum.split option.split)
qed

section \<open>The machine\<close>

lemma closeConnRDP_st:
  assumes "st_ok s" "n < nrOfNodes s"
  shows "st_ok (closeConnRDP n s)"
proof -
  have "nrOfNodes (closeConnection n False s) = nrOfNodes s" by (rule sent_rel_nodes) blast
  then show ?thesis
    using st_ok_close [OF assms(1), of n False] assms(2)
    by (auto simp: closeConnRDP_def Let_def gettimeofday_def intro!: st_ok_upd_keep)
      (simp add: st_ok_def conn_st_def live_def)
qed

lemma RDP_setStatistics_st:
  assumes "st_ok s"
  shows "st_ok (RDP_setStatistics st s)"
proof -
  have "st_ok (fold (\<lambda>n. upd_conn n reset_stats) ns t)" if "st_ok t" for ns t
    using that by (rule fold_inv [rotated]) (auto simp: reset_stats_def intro!: st_ok_upd_keep)
  then show ?thesis using assms by (simp add: RDP_setStatistics_def Let_def)
qed

definition rdp_sound :: "rdp \<Rightarrow> bool" where
  "rdp_sound s \<longleftrightarrow> rdp_good s \<and> st_ok s"

lemma rdp_step_sound: "rdp_sound s \<Longrightarrow> rdp_sound (rdp_step e s)"
proof -
  assume s: "rdp_sound s"
  then have inv: "rdp_inv (nrOfNodes s) s" "st_ok s" "0 < nrOfNodes s"
    by (auto simp: rdp_sound_def rdp_good_def)
  have "st_ok (rdp_step e s)"
    using inv
    by (cases e) (auto simp: setPktLossRDP_def setMaxRetransRDP_def setMaxAckPendRDP_def
        setRsndTmOutRDP_def setClsdTmOutRDP_def
        intro: Rsendto_st Rrecvfrom_st handleRDP_st handleTimeoutRDP_st closeConnRDP_st
          RDP_updateNode_st RDP_setStatistics_st)
  with s rdpm.step_inv show ?thesis by (simp add: rdp_sound_def)
qed

interpretation rdps: inv_machine rdp_step rdp_sound
  by unfold_locales (rule rdp_step_sound)

lemma RDP_init_sound:
  assumes "RDP_init hosts localID portno disp cb s = Some s'" "False \<notin> set (mallocq s)"
  shows "rdp_sound s'"
proof -
  note i = RDP_init_inv [OF assms]
  then have N: "nrOfNodes s' = length hosts" using nodes_inv by blast
  have g: "rdp_good s'" using i rdp_goodI by blast
  have "msgPending (conntable s' n) = 0 \<and> live s' n = []" if "n < length hosts" for n
    using i that by (auto simp: live_def)
  with i N g show ?thesis by (simp add: rdp_sound_def st_ok_def conn_st_def)
qed

end
