(* ===== verification/Rdp_Deliver.thy ===== *)
theory Rdp_Deliver
  imports Rdp_Sound
begin

text \<open>
  The functional behaviour of the protocol: what closing a connection reports, what an
  acknowledgment releases, what a retransmission sends, which packets a receiver delivers and what
  a send queues.  The messages of a connection are read through \<open>payloads\<close>, the data of its live
  buffers in order.
\<close>

definition payloads :: "rdp \<Rightarrow> nat \<Rightarrow> byte list list" where
  "payloads s n = map (\<lambda>i. mb_data (MsgPool s i)) (live s n)"

lemma live_buf:
  assumes "rdp_invx d N s" "n < N" "i \<in> set (live s n)"
  shows "mb_len (MsgPool s i) = int (length (mb_data (MsgPool s i)))"
proof -
  have pool: "pool_ok N s" using assms(1) by (simp add: rdp_invx_def)
  have "i \<in> set (pendList (conntable s n))" using assms(3) by (auto simp: live_def)
  then have "buf_ok (MsgPool s i)"
    using pool pend_in_ack [OF pool assms(2)] unfolding pool_ok_def by blast
  then show ?thesis by (simp add: buf_ok_def)
qed

section \<open>Closing\<close>

definition undeliverable :: "nat \<Rightarrow> msgbuf \<Rightarrow> rdp_event" where
  "undeliverable n m = EvCB (PKT_UNDELIVERABLE n (take (nat (mb_len m)) (mb_data m)))"

lemma fold_drop_outp:
  assumes "distinct is"
  shows "outp (fold (drop_pending n) is s) = outp s @
     (if hasCallback s
      then map (\<lambda>i. undeliverable n (MsgPool s i)) (filter (\<lambda>i. \<not> mb_deleted (MsgPool s i)) is)
      else [])"
  using assms
proof (induction "is" arbitrary: s)
  case (Cons i "is")
  let ?s = "drop_pending n i s"
  have same: "MsgPool ?s j = MsgPool s j" if "j \<in> set is" for j
    using that Cons.prems by auto
  then have f: "filter (\<lambda>j. \<not> mb_deleted (MsgPool ?s j)) is = filter (\<lambda>j. \<not> mb_deleted (MsgPool s j)) is"
    by (intro filter_cong) simp_all
  have "map (\<lambda>j. undeliverable n (MsgPool ?s j)) (filter (\<lambda>j. \<not> mb_deleted (MsgPool ?s j)) is)
      = map (\<lambda>j. undeliverable n (MsgPool s j)) (filter (\<lambda>j. \<not> mb_deleted (MsgPool s j)) is)"
    unfolding f using same by (intro map_cong refl) simp
  moreover have "outp ?s = outp s @ (if hasCallback s \<and> \<not> mb_deleted (MsgPool s i)
      then [undeliverable n (MsgPool s i)] else [])"
    by (simp add: drop_pending_def RDPCallback_def emit_def undeliverable_def Let_def)
  ultimately show ?case using Cons.IH [of ?s] Cons.prems by simp
qed simp

lemma close_outp:
  assumes "distinct (pendList (conntable s n))"
  shows "outp (closeConnection n cb s) = outp s @
     (if hasCallback s
      then map (\<lambda>i. undeliverable n (MsgPool s i)) (live s n)
        @ (if cb then [EvCB (LOST_CONNECTION n)] else [])
      else [])"
  using fold_drop_outp [OF assms, of n s]
  by (simp add: closeConnection_def clearMsgQ_def random32_def Let_def RDPCallback_def emit_def live_def)

lemma close_reports:
  assumes inv: "rdp_inv N s" and "n < N" and "hasCallback s"
  shows "outp (closeConnection n cb s) = outp s
    @ map (\<lambda>p. EvCB (PKT_UNDELIVERABLE n p)) (payloads s n)
    @ (if cb then [EvCB (LOST_CONNECTION n)] else [])"
proof -
  have "distinct (pendList (conntable s n))"
    using inv pend_distinct [of N s n] \<open>n < N\<close> by (simp add: rdp_invx_def)
  moreover have "map (\<lambda>i. undeliverable n (MsgPool s i)) (live s n)
      = map (\<lambda>p. EvCB (PKT_UNDELIVERABLE n p)) (payloads s n)"
    using live_buf [OF inv \<open>n < N\<close>] by (simp add: payloads_def undeliverable_def)
  ultimately show ?thesis using close_outp \<open>hasCallback s\<close> by simp
qed

section \<open>Acknowledgments\<close>

text \<open>
  Sequence numbers within half the number space compare like the integers they stand for.
\<close>

lemma RSEQCMP_offset:
  assumes "j < 2 ^ 31" "k < 2 ^ 31"
  shows "RSEQCMP (a + of_nat j) (a + of_nat k) = int j - int k"
proof -
  have eq: "a + of_nat j - (a + of_nat k) = (word_of_int (int j - int k) :: int32)" by simp
  have "sint (word_of_int x :: int32) = signed_take_bit 31 x" for x
    by (simp add: sint_sbintrunc')
  then have "sint (word_of_int (int j - int k) :: int32) = signed_take_bit 31 (int j - int k)" .
  also have "\<dots> = int j - int k" using assms by (intro signed_take_bit_int_eq_self) auto
  finally show ?thesis by (simp add: RSEQCMP_def eq)
qed

lemma RSEQCMP_acked:
  assumes "j < 2 ^ 30" "k < 2 ^ 30"
  shows "RSEQCMP (a + of_nat j) (a - 1 + of_nat k) \<le> 0 \<longleftrightarrow> j < k"
proof -
  have "RSEQCMP (a + of_nat j) (a - 1 + of_nat k) = RSEQCMP ((a - 1) + of_nat (Suc j)) ((a - 1) + of_nat k)"
    by simp
  also have "\<dots> = int (Suc j) - int k" using assms by (intro RSEQCMP_offset) auto
  finally show ?thesis by linarith
qed

definition acked_buf :: "rdp \<Rightarrow> int32 \<Rightarrow> nat \<Rightarrow> bool" where
  "acked_buf s ackno i \<longleftrightarrow> mb_deleted (MsgPool s i) \<or> RSEQCMP (h_seqno (mb_hdr (MsgPool s i))) ackno \<le> 0"


text \<open>The connection after a release, with or without counting an acknowledged message.\<close>

definition released :: "nat \<Rightarrow> bool \<Rightarrow> Rconninfo \<Rightarrow> Rconninfo" where
  "released i acked c = c\<lparr>pendList := remove1 i (pendList c), window := window c + 1,
     ackExpected := (if acked then ackExpected c + 1 else ackExpected c)\<rparr>"

definition same_peer :: "nat \<Rightarrow> rdp \<Rightarrow> rdp \<Rightarrow> bool" where
  "same_peer n s t \<longleftrightarrow> hasCallback t = hasCallback s \<and> outp t = outp s \<and> sendq t = sendq s
     \<and> RDPMaxAckPending t = RDPMaxAckPending s
     \<and> (\<forall>m. frameExpected (conntable t m) = frameExpected (conntable s m)
           \<and> ConnID_in (conntable t m) = ConnID_in (conntable s m)
           \<and> sin_addr (conntable t m) = sin_addr (conntable s m)
           \<and> cstate (conntable t m) = cstate (conntable s m)
           \<and> frameToSend (conntable t m) = frameToSend (conntable s m)
           \<and> msgPending (conntable t m) = msgPending (conntable s m))"

lemma same_peer_refl [simp]: "same_peer n s s"
  by (simp add: same_peer_def)

lemma same_peer_trans: "same_peer n s t \<Longrightarrow> same_peer n t u \<Longrightarrow> same_peer n s u"
  by (simp add: same_peer_def)

lemma put_frame_more [simp]:
  "hasCallback (put_frame m s) = hasCallback s" "outp (put_frame m s) = outp s"
  "sendq (put_frame m s) = sendq s" "RDPMaxAckPending (put_frame m s) = RDPMaxAckPending s"
  by (simp_all add: put_frame_def putSMsg_def split: option.split frame.split)

lemma same_peer_release: "mb_node (MsgPool s i) = int n \<Longrightarrow> same_peer n s (release_buf n i s)"
  by (simp add: same_peer_def release_buf_def putMsg_def upd_msg_def Let_def)

lemma same_peer_upd:
  assumes "frameExpected (f (conntable s n)) = frameExpected (conntable s n)"
    "ConnID_in (f (conntable s n)) = ConnID_in (conntable s n)"
    "sin_addr (f (conntable s n)) = sin_addr (conntable s n)"
    "cstate (f (conntable s n)) = cstate (conntable s n)"
    "frameToSend (f (conntable s n)) = frameToSend (conntable s n)"
    "msgPending (f (conntable s n)) = msgPending (conntable s n)"
  shows "same_peer n s (upd_conn n f s)"
  using assms by (simp add: same_peer_def)

lemma filter_takeWhile_cong:
  assumes "\<And>i. i \<in> set xs \<Longrightarrow> P i = Q i" "\<And>i. i \<in> set xs \<Longrightarrow> R i = R' i"
  shows "length (filter R (takeWhile P xs)) = length (filter R' (takeWhile Q xs))"
  using assms by (induction xs) auto

text \<open>
  \<open>ack_effect\<close>: what the loop over the pending buffers \<open>is\<close> does, from \<open>s\<close> to \<open>t\<close>: the acknowledged
  prefix is released, nothing else of the connection's messages changes.
\<close>

definition ack_effect :: "nat \<Rightarrow> int32 \<Rightarrow> nat list \<Rightarrow> rdp \<Rightarrow> rdp \<Rightarrow> bool" where
  "ack_effect n ackno is s t \<longleftrightarrow>
     pendList (conntable t n) = dropWhile (acked_buf s ackno) is
     \<and> (\<forall>j\<in>set (dropWhile (acked_buf s ackno) is). MsgPool t j = MsgPool s j)
     \<and> ackExpected (conntable t n) = ackExpected (conntable s n)
         + of_nat (length (filter (\<lambda>i. \<not> mb_deleted (MsgPool s i)) (takeWhile (acked_buf s ackno) is)))
     \<and> window (conntable t n) = window (conntable s n)
         + int (length (takeWhile (acked_buf s ackno) is))
     \<and> same_peer n s t"

lemma ack_effect_step:
  assumes eff: "ack_effect n ackno is s1 t"
    and acked: "acked_buf s ackno i"
    and same: "\<forall>j\<in>set is. MsgPool s1 j = MsgPool s j"
    and c1: "ackExpected (conntable s1 n) = ackExpected (conntable s n)
        + (if mb_deleted (MsgPool s i) then 0 else 1)"
      "window (conntable s1 n) = window (conntable s n) + 1" "same_peer n s s1"
  shows "ack_effect n ackno (i # is) s t"
proof -
  have a: "acked_buf s1 ackno j = acked_buf s ackno j" if "j \<in> set is" for j
    using same that by (simp add: acked_buf_def)
  have dw: "dropWhile (acked_buf s1 ackno) is = dropWhile (acked_buf s ackno) is"
    using a by (rule dropWhile_cong [OF refl])
  have "length (filter (\<lambda>j. \<not> mb_deleted (MsgPool s1 j)) (takeWhile (acked_buf s1 ackno) is))
      = length (filter (\<lambda>j. \<not> mb_deleted (MsgPool s j)) (takeWhile (acked_buf s ackno) is))"
    using a same by (intro filter_takeWhile_cong) auto
  moreover have "takeWhile (acked_buf s1 ackno) is = takeWhile (acked_buf s ackno) is"
    using a by (rule takeWhile_cong [OF refl])
  moreover have "MsgPool t j = MsgPool s j" if "j \<in> set (dropWhile (acked_buf s ackno) is)" for j
    using eff that same set_dropWhileD unfolding ack_effect_def dw by metis
  ultimately show ?thesis
    using eff acked c1 same_peer_trans [OF c1(3)] unfolding ack_effect_def dw by simp
qed

lemma doACK_loop_effect:
  assumes "pendList (conntable s n) = is" "distinct is" "\<forall>i\<in>set is. mb_node (MsgPool s i) = int n"
  shows "ack_effect n ackno is s (snd (doACK_loop is n ackno stat now cb s))"
  using assms
proof (induction "is" arbitrary: s cb)
  case Nil
  then show ?case by (simp add: ack_effect_def)
next
  case (Cons i "is")
  have node: "mb_node (MsgPool s i) = int n" using Cons.prems by simp
  note f = release_buf_fields [OF node]
  let ?m = "MsgPool s i"
  show ?case
  proof (cases "mb_deleted ?m")
    case True
    let ?s1 = "release_buf n i s"
    have "ack_effect n ackno is ?s1 (snd (doACK_loop is n ackno stat now (cb \<or> window (conntable s n) = 0) ?s1))"
      using Cons.prems by (intro Cons.IH) (auto simp: f)
    then have "ack_effect n ackno (i # is) s
        (snd (doACK_loop is n ackno stat now (cb \<or> window (conntable s n) = 0) ?s1))"
      using True Cons.prems same_peer_release [OF node]
      by (intro ack_effect_step [of n ackno "is" ?s1]) (auto simp: acked_buf_def f)
    with True show ?thesis by (simp add: Let_def)
  next
    case live: False
    show ?thesis
    proof (cases "RSEQCMP (h_seqno (mb_hdr ?m)) ackno \<le> 0")
      case True
      let ?s1 = "upd_conn n (\<lambda>c. c\<lparr>totSent := totSent c + 1\<rparr>) s"
      define s2 where "s2 = (if stat \<and> totSent (conntable ?s1 n) > NUM_WARMUP
                 then upd_conn n (\<lambda>c. c\<lparr>TTA := timeradd (timersub now (mb_sentTime ?m)) (TTA c)\<rparr>) ?s1
                 else ?s1)"
      let ?s3 = "upd_conn n (\<lambda>c. c\<lparr>ackExpected := ackExpected c + 1, retrans := 0\<rparr>) (release_buf n i s2)"
      have s2: "MsgPool s2 = MsgPool s" "same_peer n s s2"
        "pendList (conntable s2 n) = pendList (conntable s n)"
        "window (conntable s2 n) = window (conntable s n)"
        "ackExpected (conntable s2 n) = ackExpected (conntable s n)"
        by (simp_all add: same_peer_def s2_def)
      have node2: "mb_node (MsgPool s2 i) = int n" using node s2(1) by simp
      note f2 = release_buf_fields [OF node2]
      have sp: "same_peer n s ?s3"
        by (rule same_peer_trans [OF same_peer_trans [OF s2(2) same_peer_release [OF node2]]
              same_peer_upd]) simp_all
      have IH: "ack_effect n ackno is ?s3 (snd (doACK_loop is n ackno stat now (cb \<or> window (conntable s n) = 0) ?s3))"
        using Cons.prems s2 by (intro Cons.IH) (auto simp: f2)
      have "ack_effect n ackno (i # is) s
          (snd (doACK_loop is n ackno stat now (cb \<or> window (conntable s n) = 0) ?s3))"
        using True Cons.prems live sp s2
        by (intro ack_effect_step [OF IH]) (auto simp: acked_buf_def f2)
      with True live show ?thesis by (simp add: Let_def s2_def)
    next
      case False
      with live Cons.prems show ?thesis by (simp add: Let_def ack_effect_def acked_buf_def)
    qed
  qed
qed


lemma dropWhile_live:
  assumes "\<forall>j<length (filter (\<lambda>i. \<not> P i) is). R (filter (\<lambda>i. \<not> P i) is ! j) \<longleftrightarrow> j < k"
    and "k \<le> length (filter (\<lambda>i. \<not> P i) is)"
  shows "filter (\<lambda>i. \<not> P i) (dropWhile (\<lambda>i. P i \<or> R i) is) = drop k (filter (\<lambda>i. \<not> P i) is)
    \<and> length (filter (\<lambda>i. \<not> P i) (takeWhile (\<lambda>i. P i \<or> R i) is)) = k"
  using assms
proof (induction "is" arbitrary: k)
  case (Cons i "is")
  show ?case
  proof (cases "P i")
    case False
    show ?thesis
    proof (cases k)
      case 0
      with Cons.prems(1) False have "\<not> R i" by (auto dest: spec [of _ 0])
      with 0 False show ?thesis by simp
    next
      case (Suc k')
      have "R i" using Cons.prems(1) False Suc by (auto dest: spec [of _ 0])
      moreover have "\<forall>j<length (filter (\<lambda>i. \<not> P i) is). R (filter (\<lambda>i. \<not> P i) is ! j) \<longleftrightarrow> j < k'"
      proof (intro allI impI)
        fix j
        assume "j < length (filter (\<lambda>i. \<not> P i) is)"
        then show "R (filter (\<lambda>i. \<not> P i) is ! j) \<longleftrightarrow> j < k'"
          using Cons.prems(1) False Suc by (auto dest: spec [of _ "Suc j"])
      qed
      ultimately show ?thesis using Cons.IH [of k'] Cons.prems(2) False Suc by simp
    qed
  qed (use Cons in simp)
qed simp

lemma live_length:
  assumes "rdp_invx d N s" "n < N"
  shows "length (live s n) \<le> MAX_WINDOW_SIZE"
proof -
  have "conn_ok s n" using assms by (simp add: rdp_invx_def)
  moreover have "length (live s n) \<le> length (pendList (conntable s n))" by (simp add: live_def)
  ultimately show ?thesis by (auto simp: conn_ok_def)
qed

lemma acked_prefix:
  assumes inv: "rdp_inv N s" and n: "n < N" and k: "k \<le> length (live s n)"
    and ack: "ackno = ackExpected (conntable s n) - 1 + of_nat k" and "j < length (live s n)"
  shows "RSEQCMP (h_seqno (mb_hdr (MsgPool s (live s n ! j)))) ackno \<le> 0 \<longleftrightarrow> j < k"
proof -
  have seq: "live_seqs s n = seq_from (ackExpected (conntable s n)) (length (live s n))"
    using inv n by (simp add: rdp_invx_def seq_ok_def)
  have "live_seqs s n ! j = h_seqno (mb_hdr (MsgPool s (live s n ! j)))"
    using assms(5) by (simp add: live_seqs_def)
  then have "h_seqno (mb_hdr (MsgPool s (live s n ! j))) = ackExpected (conntable s n) + of_nat j"
    using seq nth_seq_from [OF assms(5)] by metis
  moreover have "j < 2 ^ 30" "k < 2 ^ 30"
    using live_length [OF inv n] k assms(5) by (simp_all add: MAX_WINDOW_SIZE_def)
  ultimately show ?thesis using RSEQCMP_acked [of j k] ack by simp
qed

lemma ack_loop_cumulative:
  assumes inv: "rdp_inv N s" and n: "n < N" and k: "k \<le> length (live s n)"
    and ack: "ackno = ackExpected (conntable s n) - 1 + of_nat k"
    and eff: "ack_effect n ackno (pendList (conntable s n)) s t"
  shows "payloads t n = drop k (payloads s n)"
    "ackExpected (conntable t n) = ackExpected (conntable s n) + of_nat k"
    "window (conntable t n) \<ge> window (conntable s n) + int k"
proof -
  let ?is = "pendList (conntable s n)"
  have acked: "acked_buf s ackno = (\<lambda>i. mb_deleted (MsgPool s i)
      \<or> RSEQCMP (h_seqno (mb_hdr (MsgPool s i))) ackno \<le> 0)"
    by (simp add: acked_buf_def fun_eq_iff)
  have d: "filter (\<lambda>i. \<not> mb_deleted (MsgPool s i)) (dropWhile (acked_buf s ackno) ?is) = drop k (live s n)"
    "length (filter (\<lambda>i. \<not> mb_deleted (MsgPool s i)) (takeWhile (acked_buf s ackno) ?is)) = k"
    using dropWhile_live [of "\<lambda>i. mb_deleted (MsgPool s i)" ?is
        "\<lambda>i. RSEQCMP (h_seqno (mb_hdr (MsgPool s i))) ackno \<le> 0" k]
      acked_prefix [OF inv n k ack] k unfolding acked live_def [symmetric] by auto
  have p: "pendList (conntable t n) = dropWhile (acked_buf s ackno) ?is"
    and m: "\<forall>j\<in>set (dropWhile (acked_buf s ackno) ?is). MsgPool t j = MsgPool s j"
    using eff by (auto simp: ack_effect_def)
  have l: "live t n = drop k (live s n)"
    unfolding live_def p d(1) [unfolded live_def, symmetric]
    using m by (intro filter_cong) auto
  have "set (live t n) \<subseteq> set (dropWhile (acked_buf s ackno) ?is)" by (auto simp: live_def p)
  then have "map (\<lambda>i. mb_data (MsgPool t i)) (live t n) = map (\<lambda>i. mb_data (MsgPool s i)) (live t n)"
    using m by (intro map_cong) auto
  then show "payloads t n = drop k (payloads s n)" by (simp add: payloads_def l drop_map)
  show "ackExpected (conntable t n) = ackExpected (conntable s n) + of_nat k"
    using eff d(2) by (simp add: ack_effect_def)
  have "k \<le> length (takeWhile (acked_buf s ackno) ?is)" using d(2) length_filter_le by metis
  then show "window (conntable t n) \<ge> window (conntable s n) + int k"
    using eff by (simp add: ack_effect_def)
qed

text \<open>An acknowledgment without data: \<open>RDP_ACK\<close> or \<open>RDP_NACK\<close> of the right connection.\<close>

lemma doACK_cumulative:
  assumes inv: "rdp_inv N s" and n: "n < N" and k: "k \<le> length (live s n)"
    and ack: "h_ackno hdr = ackExpected (conntable s n) - 1 + of_nat k"
    and ty: "h_type hdr \<in> {RDP_ACK, RDP_NACK}" and id: "h_connid hdr = ConnID_in (conntable s n)"
  shows "payloads (doACK hdr n s) n = drop k (payloads s n)"
    "ackExpected (conntable (doACK hdr n s) n) = ackExpected (conntable s n) + of_nat k"
    "window (conntable (doACK hdr n s) n) \<ge> window (conntable s n) + int k"
proof -
  define s2 where "s2 = (if RDPStatistics s then snd (gettimeofday s) else s)"
  define now where "now = (if RDPStatistics s then fst (gettimeofday s) else timerclear)"
  define r where "r = doACK_loop (pendList (conntable s n)) n (h_ackno hdr) (RDPStatistics s) now False s2"
  have s2: "conntable s2 = conntable s" "MsgPool s2 = MsgPool s"
    by (simp_all add: s2_def gettimeofday_def)
  have inv2: "rdp_inv N s2" using inv core_eq_invx [OF core_eq_gettimeofday] by (simp add: s2_def)
  have live2: "live s2 n = live s n" "payloads s2 n = payloads s n"
    by (simp_all add: live_def payloads_def s2)
  have eq: "doACK hdr n s = (if fst r then RDPCallback (CAN_CONTINUE n) (snd r) else snd r)"
    using ty id s2 by (auto simp: doACK_def doACK_data_def rdp_types Let_def r_def s2_def now_def
        split_beta gettimeofday_def)
  have "distinct (pendList (conntable s n))" "\<forall>i\<in>set (pendList (conntable s n)). mb_node (MsgPool s2 i) = int n"
    using inv pend_distinct [of N s n] n s2 by (auto simp: rdp_invx_def conn_ok_def)
  then have eff: "ack_effect n (h_ackno hdr) (pendList (conntable s2 n)) s2 (snd r)"
    unfolding r_def s2(1) by (intro doACK_loop_effect) (simp_all add: s2)
  have c: "payloads (RDPCallback x t) n = payloads t n" "conntable (RDPCallback x t) = conntable t" for x t
    by (simp_all add: payloads_def live_def RDPCallback_def emit_def)
  note cum = ack_loop_cumulative [OF inv2 n _ _ eff, unfolded live2 s2]
  show "payloads (doACK hdr n s) n = drop k (payloads s n)"
    "ackExpected (conntable (doACK hdr n s) n) = ackExpected (conntable s n) + of_nat k"
    "window (conntable (doACK hdr n s) n) \<ge> window (conntable s n) + int k"
    using cum(1) [OF k ack] cum(2) [OF k ack] cum(3) [OF k ack] by (simp_all add: eq c)
qed

end
