(* ===== verification/Rdp_Link.thy ===== *)
theory Rdp_Link
  imports Rdp_Deliver
begin

text \<open>
  The protocol over a socket that accepts every packet (\<open>sendq = []\<close>, the network may still lose
  what is sent): what a receiver delivers, what a retransmission puts on the wire, what a send
  queues, and the opening handshake.
\<close>

lemma sound_distinct: "rdp_sound s \<Longrightarrow> n < nrOfNodes s \<Longrightarrow> distinct (pendList (conntable s n))"
  using pend_distinct [of "nrOfNodes s" s n] by (simp add: rdp_sound_def rdp_good_def rdp_invx_def)

lemma sound_inv: "rdp_sound s \<Longrightarrow> rdp_inv (nrOfNodes s) s"
  by (simp add: rdp_sound_def rdp_good_def)

section \<open>Sending over a socket without errors\<close>

lemma sendq_nil: "sendq s = [] \<Longrightarrow> s\<lparr>sendq := []\<rparr> = s"
  by (cases s) simp

lemma MYsendto_quiet:
  "sendq s = [] \<Longrightarrow> MYsendto n h d s =
     (if sin_addr (conntable s n) = INADDR_ANY then (Inl EINVAL, s)
      else (Inr (int (RDP_HDR_SIZE + length d)), emit (EvSend n h d) s))"
  by (simp add: MYsendto_def sendq_nil)

lemma emit_simps [simp]:
  "conntable (emit e s) = conntable s" "MsgPool (emit e s) = MsgPool s" "sendq (emit e s) = sendq s"
  "RDPMaxAckPending (emit e s) = RDPMaxAckPending s" "hasCallback (emit e s) = hasCallback s"
  "outp (emit e s) = outp s @ [e]" "rdpID (emit e s) = rdpID s"
  "RDPStatistics (emit e s) = RDPStatistics s" "iptab (emit e s) = iptab s"
  "RESEND_TIMEOUT (emit e s) = RESEND_TIMEOUT s" "clock (emit e s) = clock s"
  "ticks (emit e s) = ticks s" "nrOfNodes (emit e s) = nrOfNodes s"
  by (simp_all add: emit_def)

lemma RDPCallback_simps [simp]:
  "conntable (RDPCallback c s) = conntable s" "MsgPool (RDPCallback c s) = MsgPool s"
  "sendq (RDPCallback c s) = sendq s" "RDPMaxAckPending (RDPCallback c s) = RDPMaxAckPending s"
  "iptab (RDPCallback c s) = iptab s" "nrOfNodes (RDPCallback c s) = nrOfNodes s"
  by (simp_all add: RDPCallback_def)

definition ack_hdr :: "Rconninfo \<Rightarrow> rdphdr" where
  "ack_hdr c = \<lparr>h_type = RDP_ACK, h_len = 0, h_seqno = 0, h_ackno = frameExpected c - 1,
     h_connid = ConnID_out c\<rparr>"

text \<open>What a receiver's bookkeeping reads.\<close>

definition rx_same :: "nat \<Rightarrow> rdp \<Rightarrow> rdp \<Rightarrow> bool" where
  "rx_same n s t \<longleftrightarrow> sendq t = sendq s \<and> RDPMaxAckPending t = RDPMaxAckPending s
     \<and> frameExpected (conntable t n) = frameExpected (conntable s n)
     \<and> ConnID_in (conntable t n) = ConnID_in (conntable s n)
     \<and> cstate (conntable t n) = cstate (conntable s n)"

lemma rx_same_peer: "same_peer n s t \<Longrightarrow> rx_same n s t"
  by (simp add: same_peer_def rx_same_def)

lemma rx_same_sends:
  "sendq s = [] \<Longrightarrow> rx_same n s (sendACK n s)" "sendq s = [] \<Longrightarrow> rx_same n s (sendNACK n s)"
  by (simp_all add: sendACK_def sendNACK_def MYsendto_quiet Let_def rx_same_def)

lemma rx_same_trans: "rx_same n s t \<Longrightarrow> rx_same n t u \<Longrightarrow> rx_same n s u"
  by (simp add: rx_same_def)

lemma doACK_data_rx: "sendq s = [] \<Longrightarrow> rx_same n s (doACK_data hdr n s)"
  using rx_same_sends [of s n] rx_same_sends(2) [of "sendACK n s" n]
  by (auto simp: doACK_data_def Let_def rx_same_def)

lemma doACK_rx:
  assumes inv: "rdp_inv N s" and n: "n < N" and q: "sendq s = []"
    and ty: "h_type hdr = RDP_DATA" and id: "h_connid hdr = ConnID_in (conntable s n)"
  shows "rx_same n s (doACK hdr n s)"
proof -
  define s1 where "s1 = doACK_data hdr n s"
  define s2 where "s2 = (if RDPStatistics s then snd (gettimeofday s1) else s1)"
  define now where "now = (if RDPStatistics s then fst (gettimeofday s1) else timerclear)"
  define r where "r = doACK_loop (pendList (conntable s2 n)) n (h_ackno hdr) (RDPStatistics s) now False s2"
  have inv1: "rdp_inv N s1" unfolding s1_def by (rule doACK_data_inv [OF inv])
  have inv2: "rdp_inv N s2" using inv1 core_eq_invx [OF core_eq_gettimeofday] by (simp add: s2_def)
  have r1: "rx_same n s s2" using doACK_data_rx [OF q, of n hdr]
    by (auto simp: s2_def s1_def gettimeofday_def rx_same_def)
  have eq: "doACK hdr n s = (if fst r then RDPCallback (CAN_CONTINUE n) (snd r) else snd r)"
    using ty id by (simp add: doACK_def rdp_types Let_def r_def s1_def s2_def now_def split_beta)
  have "distinct (pendList (conntable s2 n))" "\<forall>i\<in>set (pendList (conntable s2 n)). mb_node (MsgPool s2 i) = int n"
    using inv2 pend_distinct [of N s2 n] n by (auto simp: rdp_invx_def conn_ok_def)
  then have "ack_effect n (h_ackno hdr) (pendList (conntable s2 n)) s2 (snd r)"
    unfolding r_def by (intro doACK_loop_effect refl)
  then have "rx_same n s2 (snd r)" by (auto simp: ack_effect_def intro: rx_same_peer)
  then have "rx_same n s (snd r)" by (rule rx_same_trans [OF r1])
  then show ?thesis by (simp add: eq rx_same_def)
qed

section \<open>In-order delivery\<close>

text \<open>
  A receiver handed a sequence of packets by \<open>Rrecvfrom\<close>: the state afterwards and the data
  delivered, in order.
\<close>

fun deliver_all :: "nat \<Rightarrow> nat \<Rightarrow> dgram list \<Rightarrow> rdp \<Rightarrow> byte list list \<times> rdp" where
  "deliver_all n len [] s = ([], s)"
| "deliver_all n len (d # ds) s =
     (case receive_from d n len (-1) s of
        ((Ret r, from, buf), s1) \<Rightarrow> let (bs, s2) = deliver_all n len ds s1 in (buf # bs, s2)
      | (_, s1) \<Rightarrow> deliver_all n len ds s1)"

text \<open>Packet \<open>d\<close> is a copy of message \<open>j\<close> of \<open>msgs\<close>, numbered from \<open>base\<close>.\<close>

definition carries :: "byte list list \<Rightarrow> int32 \<Rightarrow> int32 \<Rightarrow> dgram \<Rightarrow> nat \<Rightarrow> bool" where
  "carries msgs base connid d j \<longleftrightarrow> j < length msgs \<and> h_type (d_hdr d) = RDP_DATA
     \<and> h_connid (d_hdr d) = connid \<and> h_seqno (d_hdr d) = base + of_nat j
     \<and> d_data d = msgs ! j \<and> unat (h_len (d_hdr d)) = length (msgs ! j)"

text \<open>The abstract receiver: it accepts the next message and drops every other one.\<close>

definition next_msg :: "nat \<Rightarrow> nat \<Rightarrow> nat" where
  "next_msg j k = (if j = k then Suc k else k)"

lemma next_msg_same: "next_msg k k = Suc k" and next_msg_other: "j \<noteq> k \<Longrightarrow> next_msg j k = k"
  by (simp_all add: next_msg_def)

lemma of_nat_less_eq:
  assumes "of_nat j = (of_nat k :: int32)" "j < 2 ^ 32" "k < 2 ^ 32"
  shows "j = k"
proof -
  have "unat (of_nat j :: int32) = unat (of_nat k :: int32)" using assms(1) by simp
  then show ?thesis using assms(2,3) by (simp add: unat_of_nat)
qed

lemma receive_data:
  assumes inv: "rdp_inv N s" and n: "n < N" and q: "sendq s = []"
    and st: "cstate (conntable s n) = ACTIVE"
    and car: "carries msgs base (ConnID_in (conntable s n)) d j"
    and fe: "frameExpected (conntable s n) = base + of_nat k"
    and k: "k \<le> length msgs" "length msgs < 2 ^ 32" and len: "length (msgs ! j) \<le> len"
  shows "\<exists>t. receive_from d n len node s =
      ((if j = k then (Ret (d_ret d - int RDP_HDR_SIZE), int n, msgs ! j) else (Fail EAGAIN, -1, [])), t)
    \<and> rdp_inv N t \<and> sendq t = [] \<and> cstate (conntable t n) = ACTIVE
    \<and> ConnID_in (conntable t n) = ConnID_in (conntable s n)
    \<and> frameExpected (conntable t n) = base + of_nat (next_msg j k)"
proof -
  define s1 where "s1 = doACK (d_hdr d) n s"
  have rx: "rx_same n s s1" unfolding s1_def
    using car by (intro doACK_rx [OF inv n q]) (auto simp: carries_def)
  have j: "(frameExpected (conntable s1 n) = h_seqno (d_hdr d)) = (j = k)"
  proof -
    have "frameExpected (conntable s1 n) = base + of_nat k" "h_seqno (d_hdr d) = base + of_nat j"
      "j < 2 ^ 32" "k < 2 ^ 32"
      using rx car fe k by (simp_all add: rx_same_def carries_def)
    then show ?thesis using of_nat_less_eq [of j k] by auto
  qed
  define s2 where "s2 = upd_conn n (\<lambda>c. c\<lparr>frameExpected := frameExpected c + 1,
    ackPending := ackPending c + 1\<rparr>) s1"
  define s3 where "s3 = (if ackPending (conntable s2 n) \<ge> RDPMaxAckPending s2 then sendACK n s2 else s2)"
  have s2: "sendq s2 = []" "cstate (conntable s2 n) = ACTIVE"
    "ConnID_in (conntable s2 n) = ConnID_in (conntable s n)"
    "frameExpected (conntable s2 n) = base + of_nat k + 1"
    using rx q st fe by (simp_all add: rx_same_def s2_def)
  have "rx_same n s2 s3" using rx_same_sends(1) [OF s2(1)] by (simp add: s3_def rx_same_def)
  then have f3: "sendq s3 = []" "cstate (conntable s3 n) = ACTIVE"
    "ConnID_in (conntable s3 n) = ConnID_in (conntable s n)"
    "frameExpected (conntable s3 n) = base + of_nat k + 1"
    using s2 by (simp_all add: rx_same_def)
  have "accept_data d n len node s = (if j = k
      then ((Ret (d_ret d - int RDP_HDR_SIZE), int n, msgs ! j), s3) else ((Fail EAGAIN, -1, []), s1))"
    unfolding accept_data_def Let_def s1_def [symmetric] s2_def [symmetric] s3_def [symmetric] j
    using car len by (cases "j = k") (auto simp: carries_def)
  then have eq: "receive_from d n len node s = (if j = k
      then ((Ret (d_ret d - int RDP_HDR_SIZE), int n, msgs ! j), s3) else ((Fail EAGAIN, -1, []), s1))"
    using car st by (simp add: receive_from_def carries_def)
  have inv': "rdp_inv N (snd (receive_from d n len node s))" using inv n by (rule receive_from_inv)
  show ?thesis
  proof (cases "j = k")
    case True
    have "rdp_inv N s3" using inv' unfolding eq if_P [OF True] snd_conv .
    then show ?thesis unfolding eq if_P [OF True] using f3 True
      by (intro exI [of _ s3]) (simp add: next_msg_same add.assoc)
  next
    case False
    have "rdp_inv N s1" using inv' unfolding eq if_not_P [OF False] snd_conv .
    then show ?thesis unfolding eq if_not_P [OF False] using rx q st fe False
      by (intro exI [of _ s1]) (simp add: next_msg_other rx_same_def)
  qed
qed

lemma deliver_in_order:
  assumes "rdp_inv N s" "n < N" "sendq s = []" "cstate (conntable s n) = ACTIVE"
    and "list_all2 (carries msgs base (ConnID_in (conntable s n))) ds js"
    and "frameExpected (conntable s n) = base + of_nat k"
    and "k \<le> length msgs" "length msgs < 2 ^ 32" "\<forall>m\<in>set msgs. length m \<le> len"
  shows "\<exists>t. deliver_all n len ds s = (map (\<lambda>j. msgs ! j) [k..<fold next_msg js k], t)
    \<and> frameExpected (conntable t n) = base + of_nat (fold next_msg js k)
    \<and> fold next_msg js k \<le> length msgs \<and> k \<le> fold next_msg js k"
  using assms
proof (induction ds arbitrary: js s k)
  case (Cons d ds)
  from Cons.prems(5) obtain j js' where js: "js = j # js'"
    and car: "carries msgs base (ConnID_in (conntable s n)) d j"
    and rest: "list_all2 (carries msgs base (ConnID_in (conntable s n))) ds js'"
    by (auto simp: list_all2_Cons1)
  have jl: "j < length msgs" using car by (simp add: carries_def)
  then have "length (msgs ! j) \<le> len" using Cons.prems(9) by simp
  from receive_data [OF Cons.prems(1-4) car Cons.prems(6-8) this]
  obtain t where t: "receive_from d n len (-1) s = ((if j = k then
      (Ret (d_ret d - int RDP_HDR_SIZE), int n, msgs ! j) else (Fail EAGAIN, -1, [])), t)"
    and t_inv: "rdp_inv N t" "sendq t = []" "cstate (conntable t n) = ACTIVE"
      "ConnID_in (conntable t n) = ConnID_in (conntable s n)"
      "frameExpected (conntable t n) = base + of_nat (next_msg j k)" by blast
  have k': "next_msg j k \<le> length msgs" using jl Cons.prems(7) by (simp add: next_msg_def)
  from Cons.IH [OF t_inv(1) Cons.prems(2) t_inv(2,3) _ t_inv(5) k' Cons.prems(8,9), of js'] rest t_inv(4)
  obtain u where u: "deliver_all n len ds t = (map (\<lambda>j. msgs ! j) [next_msg j k..<fold next_msg js' (next_msg j k)], u)"
    and fu: "frameExpected (conntable u n) = base + of_nat (fold next_msg js' (next_msg j k))"
      "fold next_msg js' (next_msg j k) \<le> length msgs" "next_msg j k \<le> fold next_msg js' (next_msg j k)"
    by auto
  have "k < fold next_msg js' (Suc k)" if "j = k" using fu(3) that by (simp add: next_msg_same)
  then show ?case
    using t u fu by (cases "j = k") (auto simp: js next_msg_same next_msg_other upt_conv_Cons)
qed simp


section \<open>Retransmission\<close>

definition resent :: "nat \<Rightarrow> rdp \<Rightarrow> nat \<Rightarrow> rdp_event" where
  "resent n s i = EvSend n ((mb_hdr (MsgPool s i))\<lparr>h_ackno := frameExpected (conntable s n) - 1\<rparr>)
     (take (nat (mb_len (MsgPool s i))) (mb_data (MsgPool s i)))"

lemma upd_msg_simps [simp]:
  "conntable (upd_msg i f s) = conntable s" "sendq (upd_msg i f s) = sendq s"
  "outp (upd_msg i f s) = outp s" "MsgPool (upd_msg i f s) = (MsgPool s)(i := f (MsgPool s i))"
  by (simp_all add: upd_msg_def)

lemma resend_loop_outp:
  assumes "sendq s = []" "distinct is" "sin_addr (conntable s n) \<noteq> INADDR_ANY"
  shows "outp (resend_loop n is s) = outp s
      @ map (resent n s) (filter (\<lambda>i. \<not> mb_deleted (MsgPool s i)) is)
    \<and> conntable (resend_loop n is s) = conntable s \<and> sendq (resend_loop n is s) = []"
  using assms
proof (induction "is" arbitrary: s)
  case (Cons i "is")
  show ?case
  proof (cases "mb_deleted (MsgPool s i)")
    case True
    with Cons show ?thesis by simp
  next
    case False
    define s1 where "s1 = upd_msg i (\<lambda>m. m\<lparr>mb_hdr := (mb_hdr m)
      \<lparr>h_ackno := frameExpected (conntable s n) - 1\<rparr>\<rparr>) s"
    define s2 where "s2 = emit (resent n s i) s1"
    have s1: "conntable s1 = conntable s" "sendq s1 = []" "outp s1 = outp s"
      "MsgPool s1 i = (MsgPool s i)\<lparr>mb_hdr := (mb_hdr (MsgPool s i))
        \<lparr>h_ackno := frameExpected (conntable s n) - 1\<rparr>\<rparr>"
      "\<And>j. j \<noteq> i \<Longrightarrow> MsgPool s1 j = MsgPool s j"
      using Cons.prems(1) by (simp_all add: s1_def)
    have "MYsendto n (mb_hdr (MsgPool s1 i)) (take (nat (mb_len (MsgPool s1 i))) (mb_data (MsgPool s1 i))) s1
        = (Inr (int (RDP_HDR_SIZE + length (take (nat (mb_len (MsgPool s i))) (mb_data (MsgPool s i))))), s2)"
      using Cons.prems(3) s1 by (simp add: MYsendto_quiet s2_def resent_def)
    then have eq: "resend_loop n (i # is) s = resend_loop n is s2"
      using False by (simp add: Let_def s1_def [symmetric])
    have ne: "j \<noteq> i" if "j \<in> set is" for j using that Cons.prems(2) by auto
    have f: "filter (\<lambda>j. \<not> mb_deleted (MsgPool s2 j)) is = filter (\<lambda>j. \<not> mb_deleted (MsgPool s j)) is"
      using ne s1(5) by (intro filter_cong) (simp_all add: s2_def)
    have m: "map (resent n s2) (filter (\<lambda>j. \<not> mb_deleted (MsgPool s j)) is)
        = map (resent n s) (filter (\<lambda>j. \<not> mb_deleted (MsgPool s j)) is)"
      using ne s1 by (intro map_cong refl) (simp add: s2_def resent_def)
    have s2: "outp s2 = outp s @ [resent n s i]" "conntable s2 = conntable s" "sendq s2 = []"
      using s1 by (simp_all add: s2_def)
    have "outp (resend_loop n is s2) = outp s2
        @ map (resent n s) (filter (\<lambda>j. \<not> mb_deleted (MsgPool s j)) is)
      \<and> conntable (resend_loop n is s2) = conntable s2 \<and> sendq (resend_loop n is s2) = []"
      using Cons.IH [of s2] Cons.prems s2(2,3) unfolding f m by simp
    then show ?thesis using False s2 unfolding eq by simp
  qed
qed simp

text \<open>One timeout of an active connection: every live message goes out again, in order.\<close>

lemma resendMsgs_all:
  assumes inv: "rdp_inv N s" and n: "n < N" and q: "sendq s = []"
    and pend: "pendList (conntable s n) \<noteq> []" and tm: "tmout (conntable s n) < clock s (ticks s)"
    and st: "cstate (conntable s n) = ACTIVE" and addr: "sin_addr (conntable s n) \<noteq> INADDR_ANY"
    and re: "retrans (conntable s n) \<le> RDPMaxRetransCount s"
  shows "outp (resendMsgs n s) = outp s @ map (resent n s) (live s n)
    \<and> retrans (conntable (resendMsgs n s) n) = retrans (conntable s n) + 1
    \<and> tmout (conntable (resendMsgs n s) n) = timeradd (clock s (ticks s)) (RESEND_TIMEOUT s)
    \<and> cstate (conntable (resendMsgs n s) n) = ACTIVE"
proof -
  define s3 where "s3 = upd_conn n (\<lambda>c. c\<lparr>retrans := retrans c + 1, totRetrans := totRetrans c + 1\<rparr>)
    (upd_conn n (\<lambda>c. c\<lparr>tmout := timeradd (clock s (ticks s)) (RESEND_TIMEOUT s)\<rparr>)
      (s\<lparr>ticks := Suc (ticks s)\<rparr>))"
  define s4 where "s4 = s3\<lparr>retransCount := retransCount s3 + 1\<rparr>"
  have eq: "resendMsgs n s = upd_conn n (\<lambda>c. c\<lparr>ackPending := 0\<rparr>)
      (resend_loop n (pendList (conntable s n)) s4)"
    using pend tm st re
    by (simp add: resendMsgs_def gettimeofday_def Let_def s4_def s3_def)
  have r: "resent n s4 = resent n s" "live s4 n = live s n" "MsgPool s4 = MsgPool s" "outp s4 = outp s"
    by (auto simp: s4_def s3_def resent_def live_def fun_eq_iff)
  have d: "distinct (pendList (conntable s n))"
    using inv pend_distinct [of N s n] n by (simp add: rdp_invx_def)
  have c: "conntable s4 n = (conntable s n)\<lparr>tmout := timeradd (clock s (ticks s)) (RESEND_TIMEOUT s),
    retrans := retrans (conntable s n) + 1, totRetrans := totRetrans (conntable s n) + 1\<rparr>"
    by (simp add: s4_def s3_def)
  have "sendq s4 = []" "sin_addr (conntable s4 n) \<noteq> INADDR_ANY" using q addr by (simp_all add: s4_def s3_def)
  note loop = resend_loop_outp [OF this(1) d this(2)]
  show ?thesis using loop st by (simp add: eq r c) (simp add: live_def)
qed

text \<open>At the limit the connection is closed instead.\<close>

lemma resendMsgs_limit:
  assumes "pendList (conntable s n) \<noteq> []" "tmout (conntable s n) < clock s (ticks s)"
    and "retrans (conntable s n) > RDPMaxRetransCount s"
  shows "resendMsgs n s = closeConnection n True
     (upd_conn n (\<lambda>c. c\<lparr>tmout := timeradd (clock s (ticks s)) (RESEND_TIMEOUT s)\<rparr>)
       (snd (gettimeofday s)))"
  using assms by (simp add: resendMsgs_def gettimeofday_def Let_def)


section \<open>Queueing a message\<close>

lemma sends_quiet:
  assumes "sendq s = []" "sin_addr (conntable s n) \<noteq> INADDR_ANY"
  shows "sendSYN n s = emit (EvSend n \<lparr>h_type = RDP_SYN, h_len = 4,
      h_seqno = frameToSend (conntable s n), h_ackno = 0, h_connid = ConnID_out (conntable s n)\<rparr>
      (bytes32 (of_nat (rdpID s)))) s"
    "sendSYNACK n s = upd_conn n (\<lambda>c. c\<lparr>ackPending := 0\<rparr>) (emit (EvSend n
      \<lparr>h_type = RDP_SYNACK, h_len = 0, h_seqno = frameToSend (conntable s n),
       h_ackno = frameExpected (conntable s n) - 1, h_connid = ConnID_out (conntable s n)\<rparr> []) s)"
    "sendACK n s = upd_conn n (\<lambda>c. c\<lparr>ackPending := 0\<rparr>) (emit (EvSend n (ack_hdr (conntable s n)) []) s)"
  using assms by (simp_all add: sendSYN_def sendSYNACK_def sendACK_def MYsendto_quiet Let_def ack_hdr_def)

text \<open>What a send leaves alone of the connection it goes to.\<close>

definition peer_id where
  "peer_id c = (sin_addr c, ConnID_in c, ConnID_out c, ackExpected c, frameExpected c, closed c)"

lemma queue_msg_peer:
  "peer_id (conntable (queue_msg n buf i f s) n) = peer_id (conntable s n)"
  "outp (queue_msg n buf i f s) = outp s"
  by (simp_all add: queue_msg_def gettimeofday_def Let_def peer_id_def)

text \<open>What a transmission does to the connection it goes to.\<close>

lemma transmit_quiet:
  assumes q: "sendq s = []" and addr: "sin_addr (conntable s n) \<noteq> INADDR_ANY"
    and len: "mb_len (MsgPool s i) = int (length (mb_data (MsgPool s i)))"
  shows "\<exists>t. transmit n i s = (Inr (mb_len (MsgPool s i) + int RDP_HDR_SIZE), t)
    \<and> MsgPool t = MsgPool s \<and> sendq t = []
    \<and> peer_id (conntable t n) = peer_id (conntable s n)
    \<and> (\<forall>m. pendList (conntable t m) = pendList (conntable s m)
         \<and> window (conntable t m) = window (conntable s m))
    \<and> cstate (conntable t n)
        = (if cstate (conntable s n) = CLOSED then SYN_SENT else cstate (conntable s n))
    \<and> (cstate (conntable s n) = ACTIVE \<longrightarrow>
         outp t = outp s @ [EvSend n (mb_hdr (MsgPool s i)) (mb_data (MsgPool s i))])"
proof -
  let ?r = "mb_len (MsgPool s i) + int RDP_HDR_SIZE"
  let ?c = "\<lambda>f. upd_conn n f s"
  show ?thesis
  proof (cases "cstate (conntable s n)")
    case CLOSED
    then show ?thesis using q addr
      by (simp add: transmit_def Let_def sends_quiet peer_id_def)
  next
    case SYN_SENT
    then show ?thesis using q addr by (simp add: transmit_def Let_def sends_quiet peer_id_def)
  next
    case SYN_RECVD
    then show ?thesis using q addr by (simp add: transmit_def Let_def sends_quiet peer_id_def)
  next
    case ACTIVE
    then show ?thesis using q addr len by (simp add: transmit_def Let_def MYsendto_quiet peer_id_def)
  qed
qed

text \<open>The buffer of a message, up to its transmission.\<close>

lemma send_buffered_queues:
  assumes inv: "rdp_inv N s" and n: "n < N" and w: "window (conntable s n) \<noteq> 0"
  obtains i f s1 s2 where "getMsg s = (Some i, s1)" "get_frame (length buf) s1 = (Some f, s2)"
    "payloads (queue_msg n buf i f s2) n = payloads s n @ [buf]"
    "sendq (queue_msg n buf i f s2) = sendq s" "outp (queue_msg n buf i f s2) = outp s"
    "cstate (conntable (queue_msg n buf i f s2) n) = cstate (conntable s n)"
    "sin_addr (conntable (queue_msg n buf i f s2) n) = sin_addr (conntable s n)"
    "\<And>m. m < N \<Longrightarrow> m \<noteq> n \<Longrightarrow> payloads (queue_msg n buf i f s2) m = payloads s m"
    "window (conntable (queue_msg n buf i f s2) n) = window (conntable s n) - 1"
    "peer_id (conntable (queue_msg n buf i f s2) n) = peer_id (conntable s n)"
    "MsgPool (queue_msg n buf i f s2) i
       = queued_buf n buf f (clock s2 (ticks s2)) (conntable s n) (MsgPool s i)"
proof -
  from send_buffered_taken [OF inv n w, of buf]
  obtain i f s1 s2 where g: "getMsg s = (Some i, s1)" "get_frame (length buf) s1 = (Some f, s2)"
    and tk: "taken N i buf f s s2" .
  from tk obtain rest where fr: "MsgFreeList s = i # rest"
    and p: "MsgPool s2 = MsgPool s" "conntable s2 = conntable s" "sendq s2 = sendq s" "outp s2 = outp s"
    unfolding taken_def by auto
  have pool: "pool_ok N s" using inv by (simp add: rdp_invx_def)
  let ?q = "queue_msg n buf i f s2"
  note f = queue_msg_fields [where n = n and buf = buf and i = i and f = f and s = s2]
  have na: "i \<notin> set (AckList s)" using free_not_ack [OF pool] fr by simp
  then have del: "\<not> mb_deleted (MsgPool s i)" using pool by (auto simp: pool_ok_def)
  have np: "i \<notin> set (pendList (conntable s m))" if "m < N" for m
    using pend_in_ack [OF pool that] na by blast
  have c': "pendList (conntable ?q n) = pendList (conntable s n) @ [i]"
    "window (conntable ?q n) = window (conntable s n) - 1"
    using f(13) by (simp_all add: conn_core_def p)
  have "live ?q n = live s n @ [i]"
    using np [OF n] del unfolding live_def c' by (auto simp: f p queued_buf_def intro!: filter_cong)
  then have pn: "payloads ?q n = payloads s n @ [buf]"
    using np [OF n] by (auto simp: payloads_def f p live_def queued_buf_def)
  have "live ?q m = live s m" if "m < N" "m \<noteq> n" for m
    using np [OF that(1)] that(2) unfolding live_def by (auto simp: f p intro!: filter_cong)
  then have pm: "payloads ?q m = payloads s m" if "m < N" "m \<noteq> n" for m
    using np [OF that(1)] that by (auto simp: payloads_def f p live_def)
  have r: "sendq ?q = sendq s" "outp ?q = outp s"
    "cstate (conntable ?q n) = cstate (conntable s n)" "sin_addr (conntable ?q n) = sin_addr (conntable s n)"
    "peer_id (conntable ?q n) = peer_id (conntable s n)"
    "MsgPool ?q i = queued_buf n buf f (clock s2 (ticks s2)) (conntable s n) (MsgPool s i)"
    by (simp_all add: f p queue_msg_peer)
  show thesis using that [OF g pn r(1-4) pm c'(2) r(5,6)] .
qed

lemma send_buffered_quiet:
  assumes inv: "rdp_inv N s" and n: "n < N" and w: "window (conntable s n) \<noteq> 0"
    and len: "length buf \<le> RDP_MAX_DATA_SIZE" and q: "sendq s = []"
    and addr: "sin_addr (conntable s n) \<noteq> INADDR_ANY"
  shows "\<exists>t. send_buffered n buf s = (Ret (int (length buf)), t)
    \<and> payloads t n = payloads s n @ [buf]
    \<and> (\<forall>m<N. m \<noteq> n \<longrightarrow> payloads t m = payloads s m)
    \<and> window (conntable t n) = window (conntable s n) - 1 \<and> sendq t = []
    \<and> peer_id (conntable t n) = peer_id (conntable s n)
    \<and> (cstate (conntable s n) = ACTIVE \<longrightarrow> (\<exists>hdr. outp t = outp s @ [EvSend n hdr buf]
         \<and> h_type hdr = RDP_DATA \<and> h_connid hdr = ConnID_out (conntable s n)
         \<and> h_seqno hdr = frameToSend (conntable s n) + of_int (msgPending (conntable s n))))
    \<and> cstate (conntable t n)
        = (if cstate (conntable s n) = CLOSED then SYN_SENT else cstate (conntable s n))"
proof -
  obtain i f s1 s2 where g: "getMsg s = (Some i, s1)" "get_frame (length buf) s1 = (Some f, s2)"
    and qm: "payloads (queue_msg n buf i f s2) n = payloads s n @ [buf]"
      "sendq (queue_msg n buf i f s2) = sendq s" "outp (queue_msg n buf i f s2) = outp s"
      "cstate (conntable (queue_msg n buf i f s2) n) = cstate (conntable s n)"
      "sin_addr (conntable (queue_msg n buf i f s2) n) = sin_addr (conntable s n)"
      "\<And>m. m < N \<Longrightarrow> m \<noteq> n \<Longrightarrow> payloads (queue_msg n buf i f s2) m = payloads s m"
      "window (conntable (queue_msg n buf i f s2) n) = window (conntable s n) - 1"
      "peer_id (conntable (queue_msg n buf i f s2) n) = peer_id (conntable s n)"
      "MsgPool (queue_msg n buf i f s2) i
         = queued_buf n buf f (clock s2 (ticks s2)) (conntable s n) (MsgPool s i)"
    by (rule send_buffered_queues [OF inv n w, of buf]) (rule that)
  let ?q = "queue_msg n buf i f s2"
  have "sendq ?q = []" "sin_addr (conntable ?q n) \<noteq> INADDR_ANY" using q addr by (simp_all add: qm)
  from transmit_quiet [OF this, of i]
  obtain t where t: "transmit n i ?q = (Inr (int (length buf) + int RDP_HDR_SIZE), t)"
    "MsgPool t = MsgPool ?q" "sendq t = []"
    "\<And>m. pendList (conntable t m) = pendList (conntable ?q m)"
    "\<And>m. window (conntable t m) = window (conntable ?q m)"
    "cstate (conntable t n) = (if cstate (conntable ?q n) = CLOSED then SYN_SENT else cstate (conntable ?q n))"
    "peer_id (conntable t n) = peer_id (conntable ?q n)"
    "cstate (conntable ?q n) = ACTIVE \<longrightarrow> outp t = outp ?q @ [EvSend n (mb_hdr (MsgPool ?q i)) buf]"
    by (auto simp: qm queued_buf_def)
  have pt: "payloads t m = payloads ?q m" for m by (simp add: payloads_def live_def t)
  have "send_buffered n buf s = (Ret (int (length buf)), t)"
    by (simp add: send_buffered_def g t(1))
  then show ?thesis
    using qm pt t(3,5-8) by (auto simp: queued_buf_def)
qed

lemma Rsendto_accepts:
  assumes s: "rdp_sound s" "n < nrOfNodes s" "sendq s = []" and w: "window (conntable s n) \<noteq> 0"
    and len: "length buf \<le> RDP_MAX_DATA_SIZE"
    and addr: "sin_addr (conntable s n) \<notin> {INADDR_ANY, INADDR_NONE}"
    and cl: "cstate (conntable s n) \<noteq> CLOSED \<or> \<not> timerisset (closed (conntable s n))"
  shows "\<exists>t. Rsendto (int n) buf s = (Ret (int (length buf)), t)
    \<and> payloads t n = payloads s n @ [buf]
    \<and> (\<forall>m<nrOfNodes s. m \<noteq> n \<longrightarrow> payloads t m = payloads s m)
    \<and> window (conntable t n) = window (conntable s n) - 1 \<and> sendq t = []
    \<and> peer_id (conntable t n) = peer_id (conntable s n)
    \<and> (cstate (conntable s n) = ACTIVE \<longrightarrow> (\<exists>hdr. outp t = outp s @ [EvSend n hdr buf]
         \<and> h_type hdr = RDP_DATA \<and> h_connid hdr = ConnID_out (conntable s n)
         \<and> h_seqno hdr = frameToSend (conntable s n) + of_int (msgPending (conntable s n))))
    \<and> cstate (conntable t n)
        = (if cstate (conntable s n) = CLOSED then SYN_SENT else cstate (conntable s n))"
proof -
  have "Rsendto (int n) buf s = send_buffered n buf s"
    using assms by (auto simp: Rsendto_def Let_def)
  then show ?thesis
    using send_buffered_quiet [OF sound_inv [OF s(1)] s(2) w len s(3)] addr by auto
qed

section \<open>The handshake\<close>

text \<open>
  The SYN of a connection: what \<open>sendSYN\<close> puts on the wire, and the answer of the other side.
\<close>

definition syn_hdr :: "Rconninfo \<Rightarrow> rdphdr" where
  "syn_hdr c = \<lparr>h_type = RDP_SYN, h_len = 4, h_seqno = frameToSend c, h_ackno = 0,
     h_connid = ConnID_out c\<rparr>"

definition synack_hdr :: "Rconninfo \<Rightarrow> rdphdr" where
  "synack_hdr c = \<lparr>h_type = RDP_SYNACK, h_len = 0, h_seqno = frameToSend c,
     h_ackno = frameExpected c - 1, h_connid = ConnID_out c\<rparr>"

lemma accept_syn:
  assumes "sendq b = []" "sin_addr (conntable b n) \<noteq> INADDR_ANY" "cstate (conntable b n) = CLOSED"
    and "h_type hdr = RDP_SYN"
  shows "updateState hdr n b = upd_conn n (\<lambda>c. c\<lparr>ackPending := 0\<rparr>)
     (emit (EvSend n (synack_hdr (set_peer hdr SYN_RECVD (conntable b n))) [])
       (upd_conn n (set_peer hdr SYN_RECVD) b))"
  using assms
  by (simp add: updateState_def updateState_closed_def sends_quiet synack_hdr_def set_peer_def)

text \<open>Becoming active keeps the peer's number and identity, whatever happens to the socket.\<close>

lemma go_active_kept:
  "frameExpected (conntable (go_active n s) n) = frameExpected (conntable s n)"
  "ConnID_in (conntable (go_active n s) n) = ConnID_in (conntable s n)"
proof -
  let ?s1 = "upd_conn n (\<lambda>c. c\<lparr>cstate := ACTIVE\<rparr>) s"
  have "conn_kept (conntable (resendMsgs n ?s1) n) = conn_kept (conntable ?s1 n)"
    "conn_kept (conntable (sendACK n ?s1) n) = conn_kept (conntable ?s1 n)"
    using sent_rel_resendMsgs [of ?s1 n] sent_rel_sends(2) [of ?s1 n] unfolding sent_rel_def by blast+
  then show "frameExpected (conntable (go_active n s) n) = frameExpected (conntable s n)"
    "ConnID_in (conntable (go_active n s) n) = ConnID_in (conntable s n)"
    by (simp_all add: go_active_def Let_def conn_kept_def)
qed

lemma resendMsgs_stays:
  assumes "sendq s = []" "distinct (pendList (conntable s n))"
    and "sin_addr (conntable s n) \<noteq> INADDR_ANY" "cstate (conntable s n) = ACTIVE"
    and "retrans (conntable s n) \<le> RDPMaxRetransCount s"
  shows "cstate (conntable (resendMsgs n s) n) = ACTIVE"
proof (cases "pendList (conntable s n) = [] \<or> \<not> tmout (conntable s n) < clock s (ticks s)")
  case True
  with assms(4) show ?thesis by (auto simp: resendMsgs_def gettimeofday_def Let_def)
next
  case False
  define s3 where "s3 = upd_conn n (\<lambda>c. c\<lparr>retrans := retrans c + 1, totRetrans := totRetrans c + 1\<rparr>)
    (upd_conn n (\<lambda>c. c\<lparr>tmout := timeradd (clock s (ticks s)) (RESEND_TIMEOUT s)\<rparr>)
      (s\<lparr>ticks := Suc (ticks s)\<rparr>))"
  define s4 where "s4 = s3\<lparr>retransCount := retransCount s3 + 1\<rparr>"
  have eq: "resendMsgs n s = upd_conn n (\<lambda>c. c\<lparr>ackPending := 0\<rparr>)
      (resend_loop n (pendList (conntable s n)) s4)"
    using False assms(4,5) by (simp add: resendMsgs_def gettimeofday_def Let_def s4_def s3_def)
  have "sendq s4 = []" "sin_addr (conntable s4 n) \<noteq> INADDR_ANY" "cstate (conntable s4 n) = ACTIVE"
    using assms by (simp_all add: s4_def s3_def)
  then show ?thesis using resend_loop_outp [of s4 "pendList (conntable s n)" n] assms(2)
    by (simp add: eq)
qed

lemma go_active_stays:
  assumes "sendq s = []" "distinct (pendList (conntable s n))"
    and "sin_addr (conntable s n) \<noteq> INADDR_ANY"
    and "retrans (conntable s n) \<le> RDPMaxRetransCount s"
  shows "cstate (conntable (go_active n s) n) = ACTIVE"
  using assms resendMsgs_stays [of "upd_conn n (\<lambda>c. c\<lparr>cstate := ACTIVE\<rparr>) s" n]
  by (simp add: go_active_def Let_def sends_quiet)

lemma handshake:
  assumes a: "rdp_sound a" "p < nrOfNodes a" "sendq a = []" "cstate (conntable a p) = SYN_SENT"
      "sin_addr (conntable a p) \<noteq> INADDR_ANY" "retrans (conntable a p) \<le> RDPMaxRetransCount a"
    and b: "rdp_sound b" "q < nrOfNodes b" "sendq b = []" "cstate (conntable b q) = CLOSED"
      "sin_addr (conntable b q) \<noteq> INADDR_ANY" "retrans (conntable b q) \<le> RDPMaxRetransCount b"
    and ty: "h_type hdr \<in> {RDP_ACK, RDP_DATA}"
    and b1: "b1 = updateState (syn_hdr (conntable a p)) q b"
    and a1: "a1 = updateState (synack_hdr (conntable b1 q)) p a"
    and b2: "b2 = updateState hdr q b1"
  shows "outp b1 = outp b @ [EvSend q (synack_hdr (conntable b1 q)) []]"
    "cstate (conntable a1 p) = ACTIVE" "cstate (conntable b2 q) = ACTIVE"
    "frameExpected (conntable a1 p) = frameToSend (conntable b q)"
    "frameExpected (conntable b2 q) = frameToSend (conntable a p)"
    "ConnID_in (conntable a1 p) = ConnID_out (conntable b q)"
    "ConnID_in (conntable b2 q) = ConnID_out (conntable a p)"
proof -
  let ?syn = "syn_hdr (conntable a p)" and ?cb = "conntable b q"
  have B1: "b1 = upd_conn q (\<lambda>c. c\<lparr>ackPending := 0\<rparr>)
     (emit (EvSend q (synack_hdr (set_peer ?syn SYN_RECVD ?cb)) [])
       (upd_conn q (set_peer ?syn SYN_RECVD) b))"
    unfolding b1 by (rule accept_syn) (use b in \<open>simp_all add: syn_hdr_def\<close>)
  have c1: "conntable b1 q = (set_peer ?syn SYN_RECVD ?cb)\<lparr>ackPending := 0\<rparr>" by (simp add: B1)
  have sa: "synack_hdr (conntable b1 q) = synack_hdr (set_peer ?syn SYN_RECVD ?cb)"
    by (simp add: c1 synack_hdr_def)
  show "outp b1 = outp b @ [EvSend q (synack_hdr (conntable b1 q)) []]"
    unfolding sa by (simp add: B1)
  let ?ga = "upd_conn p (set_peer (synack_hdr (conntable b1 q)) ACTIVE) a"
  have A1: "a1 = go_active p ?ga" unfolding a1
    using a(4) by (simp add: updateState_def updateState_synsent_def synack_hdr_def rdp_types)
  have ga: "sendq ?ga = []" "distinct (pendList (conntable ?ga p))"
    "sin_addr (conntable ?ga p) \<noteq> INADDR_ANY" "retrans (conntable ?ga p) \<le> RDPMaxRetransCount ?ga"
    using a sound_distinct [OF a(1,2)] by (simp_all add: set_peer_def)
  show "cstate (conntable a1 p) = ACTIVE" unfolding A1 by (rule go_active_stays [OF ga])
  show "frameExpected (conntable a1 p) = frameToSend (conntable b q)"
    "ConnID_in (conntable a1 p) = ConnID_out (conntable b q)"
    by (simp_all add: A1 go_active_kept set_peer_def synack_hdr_def c1)
  have B2: "b2 = go_active q b1" unfolding b2
    using ty by (auto simp: updateState_def updateState_synrecvd_def c1 set_peer_def rdp_types)
  have gb: "sendq b1 = []" "distinct (pendList (conntable b1 q))"
    "sin_addr (conntable b1 q) \<noteq> INADDR_ANY" "retrans (conntable b1 q) \<le> RDPMaxRetransCount b1"
    using b sound_distinct [OF b(1,2)] by (simp_all add: B1 set_peer_def emit_def)
  show "cstate (conntable b2 q) = ACTIVE" unfolding B2 by (rule go_active_stays [OF gb])
  show "frameExpected (conntable b2 q) = frameToSend (conntable a p)"
    "ConnID_in (conntable b2 q) = ConnID_out (conntable a p)"
    by (simp_all add: B2 go_active_kept c1 set_peer_def syn_hdr_def)
qed

section \<open>One step of the state machine over a socket without errors\<close>

definition sends_to :: "nat \<Rightarrow> rdp_event list \<Rightarrow> bool" where
  "sends_to n ws \<longleftrightarrow> (\<forall>e \<in> set ws. \<exists>h d. e = EvSend n h d)"

text \<open>A step for the node \<open>n\<close> that puts \<open>ws\<close> on the wire and leaves the other connections alone.\<close>

definition sent_only :: "nat \<Rightarrow> rdp_event list \<Rightarrow> rdp \<Rightarrow> rdp \<Rightarrow> bool" where
  "sent_only n ws s t \<longleftrightarrow> outp t = outp s @ ws \<and> sends_to n ws \<and> hasCallback t = hasCallback s
     \<and> (\<forall>m. m \<noteq> n \<longrightarrow> conntable t m = conntable s m)"

lemma resendMsgs_quiet:
  assumes "sendq s = []" "distinct (pendList (conntable s n))"
    and "sin_addr (conntable s n) \<noteq> INADDR_ANY" "cstate (conntable s n) = ACTIVE"
    and "retrans (conntable s n) \<le> RDPMaxRetransCount s"
  shows "\<exists>ws. sent_only n ws s (resendMsgs n s)"
proof -
  have cb: "hasCallback (resendMsgs n s) = hasCallback s"
    using sent_rel_resendMsgs [of s n] by (simp add: sent_rel_def)
  show ?thesis
  proof (cases "pendList (conntable s n) = [] \<or> \<not> tmout (conntable s n) < clock s (ticks s)")
    case True
    then have "sent_only n [] s (resendMsgs n s)"
      using cb by (auto simp: resendMsgs_def gettimeofday_def Let_def sent_only_def sends_to_def)
    then show ?thesis by blast
  next
    case False
    define s3 where "s3 = upd_conn n (\<lambda>c. c\<lparr>retrans := retrans c + 1, totRetrans := totRetrans c + 1\<rparr>)
      (upd_conn n (\<lambda>c. c\<lparr>tmout := timeradd (clock s (ticks s)) (RESEND_TIMEOUT s)\<rparr>)
        (s\<lparr>ticks := Suc (ticks s)\<rparr>))"
    define s4 where "s4 = s3\<lparr>retransCount := retransCount s3 + 1\<rparr>"
    have eq: "resendMsgs n s = upd_conn n (\<lambda>c. c\<lparr>ackPending := 0\<rparr>)
        (resend_loop n (pendList (conntable s n)) s4)"
      using False assms(4,5) by (simp add: resendMsgs_def gettimeofday_def Let_def s4_def s3_def)
    have s4: "sendq s4 = []" "sin_addr (conntable s4 n) \<noteq> INADDR_ANY" "outp s4 = outp s"
      "\<forall>m. m \<noteq> n \<longrightarrow> conntable s4 m = conntable s m"
      using assms by (simp_all add: s4_def s3_def)
    let ?ws = "map (resent n s4) (filter (\<lambda>i. \<not> mb_deleted (MsgPool s4 i)) (pendList (conntable s n)))"
    have "sends_to n ?ws" by (auto simp: sends_to_def resent_def)
    then have "sent_only n ?ws s (resendMsgs n s)"
      using resend_loop_outp [of s4 "pendList (conntable s n)" n] assms(2) s4 cb by (simp add: eq sent_only_def)
    then show ?thesis by blast
  qed
qed

lemma go_active_quiet:
  assumes "sendq s = []" "distinct (pendList (conntable s n))" "hasCallback s"
    and "sin_addr (conntable s n) \<noteq> INADDR_ANY" "retrans (conntable s n) \<le> RDPMaxRetransCount s"
  shows "\<exists>ws. sends_to n ws \<and> outp (go_active n s) = outp s @ ws @ [EvCB (NEW_CONNECTION n)]
    \<and> (\<forall>m. m \<noteq> n \<longrightarrow> conntable (go_active n s) m = conntable s m)"
proof -
  let ?s1 = "upd_conn n (\<lambda>c. c\<lparr>cstate := ACTIVE\<rparr>) s"
  have a: "sent_only n [EvSend n (ack_hdr (conntable ?s1 n)) []] ?s1 (sendACK n ?s1)"
    using assms by (simp add: sends_quiet sent_only_def sends_to_def)
  obtain ws where "sent_only n ws ?s1 (resendMsgs n ?s1)"
    using resendMsgs_quiet [of ?s1 n] assms by auto
  then show ?thesis using a assms(3) by (auto simp: go_active_def Let_def sent_only_def RDPCallback_def)
qed

text \<open>
  The number and the identity of the peer are taken from a SYN, and from a SYNACK unless the connection is
  closed or it is one more of an active connection.
\<close>

definition learns :: "RDPState \<Rightarrow> int16 \<Rightarrow> bool \<Rightarrow> bool" where
  "learns st t same \<longleftrightarrow> t = RDP_SYN \<or> t = RDP_SYNACK \<and> st \<noteq> CLOSED \<and> \<not> (st = ACTIVE \<and> same)"

text \<open>What the daemon is told before and after: the end of an active connection, and a new one.\<close>

definition old_lost :: "nat \<Rightarrow> rdphdr \<Rightarrow> rdp \<Rightarrow> rdp_event list" where
  "old_lost n hdr s = (if cstate (conntable s n) = ACTIVE \<and> (h_connid hdr \<noteq> ConnID_in (conntable s n) \<or> h_type hdr = RDP_SYN)
     then map (\<lambda>p. EvCB (PKT_UNDELIVERABLE n p)) (payloads s n) @ [EvCB (LOST_CONNECTION n)] else [])"

definition told_new :: "nat \<Rightarrow> rdp \<Rightarrow> rdp \<Rightarrow> rdp_event list" where
  "told_new n s t = (if cstate (conntable s n) \<noteq> ACTIVE \<and> cstate (conntable t n) = ACTIVE then [EvCB (NEW_CONNECTION n)] else [])"

text \<open>The answer follows from the new state.\<close>

definition answers :: "nat \<Rightarrow> rdp \<Rightarrow> rdp \<Rightarrow> rdp_event list \<Rightarrow> bool" where
  "answers n s t ws \<longleftrightarrow> sends_to n ws \<and> (case cstate (conntable t n) of
      SYN_RECVD \<Rightarrow> ws = [EvSend n (synack_hdr (conntable t n)) []]
    | SYN_SENT \<Rightarrow> ws = [EvSend n (syn_hdr (conntable t n)) (bytes32 (of_nat (rdpID s)))]
    | CLOSED \<Rightarrow> ws = []
    | ACTIVE \<Rightarrow> cstate (conntable s n) = ACTIVE \<longrightarrow> ws = [])"

definition exact_step :: "nat \<Rightarrow> rdphdr \<Rightarrow> rdp \<Rightarrow> rdp \<Rightarrow> bool" where
  "exact_step n hdr s t \<longleftrightarrow> (let c = conntable s n; c' = conntable t n; same = (h_connid hdr = ConnID_in c) in
     cstate c' = rdp_next (cstate c) (h_type hdr) same
     \<and> (frameExpected c', ConnID_in c') = (if learns (cstate c) (h_type hdr) same then (h_seqno hdr, h_connid hdr)
          else (frameExpected c, ConnID_in c))
     \<and> (\<forall>m. m \<noteq> n \<longrightarrow> conntable t m = conntable s m)
     \<and> (\<exists>ws. outp t = outp s @ old_lost n hdr s @ ws @ told_new n s t \<and> answers n s t ws))"

lemma updateState_exact:
  assumes "rdp_sound s" "n < nrOfNodes s" "hasCallback s" "sendq s = []"
    and "sin_addr (conntable s n) \<noteq> INADDR_ANY" "retrans (conntable s n) \<le> RDPMaxRetransCount s"
  shows "exact_step n hdr s (updateState hdr n s)"
proof -
  have d: "distinct (pendList (conntable s n))" by (rule sound_distinct [OF assms(1,2)])
  note cl = close_reports [OF sound_inv [OF assms(1)] assms(2,3), of True]
  note defs = exact_step_def Let_def updateState_def learns_def old_lost_def told_new_def answers_def sends_to_def rdp_types
    set_peer_def syn_hdr_def synack_hdr_def
  show ?thesis
  proof (cases "cstate (conntable s n)")
    case CLOSED
    then show ?thesis using assms(4,5)
      by (auto simp: defs updateState_closed_def sends_quiet)
  next
    case SYN_SENT
    show ?thesis
    proof (cases "h_type hdr = RDP_SYNACK")
      case True
      let ?g = "upd_conn n (set_peer hdr ACTIVE) s"
      have g: "sendq ?g = []" "distinct (pendList (conntable ?g n))" "hasCallback ?g" "sin_addr (conntable ?g n) \<noteq> INADDR_ANY"
        "retrans (conntable ?g n) \<le> RDPMaxRetransCount ?g" using assms d by (simp_all add: set_peer_def)
      show ?thesis using go_active_quiet [OF g] go_active_stays [OF g(1,2,4,5)] go_active_kept [of n ?g] True SYN_SENT
        by (auto simp: defs updateState_synsent_def)
    next
      case False
      then show ?thesis using SYN_SENT assms(4,5) by (auto simp: defs updateState_synsent_def sends_quiet)
    qed
  next
    case SYN_RECVD
    show ?thesis
    proof (cases "h_type hdr = RDP_SYN \<or> h_type hdr \<noteq> RDP_SYNACK \<and> h_type hdr \<noteq> RDP_ACK \<and> h_type hdr \<noteq> RDP_DATA")
      case True
      then show ?thesis using SYN_RECVD assms(4,5) by (auto simp: defs updateState_synrecvd_def sends_quiet)
    next
      case False
      define g where "g = (if h_type hdr = RDP_SYNACK then upd_conn n (\<lambda>c. c\<lparr>frameExpected := h_seqno hdr,
        ConnID_in := (if h_connid hdr \<noteq> ConnID_in c then h_connid hdr else ConnID_in c)\<rparr>) s else s)"
      have g: "sendq g = []" "distinct (pendList (conntable g n))" "hasCallback g" "sin_addr (conntable g n) \<noteq> INADDR_ANY"
        "retrans (conntable g n) \<le> RDPMaxRetransCount g" using assms d by (simp_all add: g_def)
      have "updateState hdr n s = go_active n g"
        using False SYN_RECVD by (auto simp: g_def updateState_def updateState_synrecvd_def)
      then show ?thesis using go_active_quiet [OF g] go_active_stays [OF g(1,2,4,5)] go_active_kept [of n g] False SYN_RECVD
        by (auto simp: g_def exact_step_def Let_def learns_def old_lost_def told_new_def answers_def rdp_types split: if_splits)
    qed
  next
    case ACTIVE
    then show ?thesis using assms(3-5) cl
      by (auto simp: defs updateState_active_def sends_quiet closed_conn_def)
  qed
qed
end
