(* ===== verification/Rdp_Props.thy ===== *)
theory Rdp_Props
  imports Rdp_Link
begin

text \<open>
  The properties of the protocol, each with a witness where it has hypotheses.  The witnesses run
  on two nodes: \<open>ex_init\<close> after initialisation, \<open>ex_active\<close> with an open connection to node 1, and
  \<open>ex_busy\<close> with two messages on that connection.
\<close>

section \<open>Concrete states\<close>

definition rdp_blank :: rdp where
  "rdp_blank = \<lparr>nrOfNodes = 0, rdpID = 0, iptab = initIPTable,
     conntable = (\<lambda>_. init_conn 0 0 0 0 0), MsgPool = (\<lambda>_. msgbuf0), MsgFreeList = [],
     SMsgFreeList = [], AckList = [], cleanupReq = False, retransCount = 0,
     RDPMaxRetransCount = 128, RDPMaxAckPending = 4, RDPStatistics = False, RDPPktLoss = 0,
     RESEND_TIMEOUT = Timeval 0 300000, CLOSED_TIMEOUT = Timeval 2 0, hasCallback = False,
     hasDispatcher = False, clock = (\<lambda>k. Timeval (int k + 1) 0), ticks = 0, rnd = (\<lambda>k. 5),
     rticks = 0, sendq = [], recvq = [], mallocq = [], outp = []\<rparr>"

definition ex_hosts :: "uint32 list" where
  "ex_hosts = [0x0100000a, 0x0200000a]"

definition ex_init :: rdp where
  "ex_init = the (RDP_init ex_hosts 0 0 False True rdp_blank)"

definition ex_active :: rdp where
  "ex_active = upd_conn 1 (\<lambda>c. c\<lparr>cstate := ACTIVE, ConnID_in := 9\<rparr>) ex_init"

definition ex_busy :: rdp where
  "ex_busy = snd (Rsendto 1 [4] (snd (Rsendto 1 [2, 3] ex_active)))"

lemma ex_init_eq: "RDP_init ex_hosts 0 0 False True rdp_blank = Some ex_init"
proof -
  have "RDP_init ex_hosts 0 0 False True rdp_blank \<noteq> None"
    by (simp add: RDP_init_def ex_hosts_def initConntable_def init_node_def INADDR_ANY_def
        INADDR_NONE_def addToIPTable_def ntohl_def IN_LOOPBACKNET_def Let_def random32_def
        initIPTable_def free_entry_def)
  then show ?thesis by (simp add: ex_init_def)
qed

lemma ex_init_conn:
  "conntable ex_init 1 = init_conn 0x0200000a (htons 886) 5 5 5" "nrOfNodes ex_init = 2"
  "sendq ex_init = []" "outp ex_init = []" "hasCallback ex_init" "clock ex_init = (\<lambda>k. Timeval (int k + 1) 0)"
  "RDPMaxRetransCount ex_init = 128"
  by (simp_all add: ex_init_def RDP_init_def ex_hosts_def initConntable_def init_node_def INADDR_ANY_def
        INADDR_NONE_def addToIPTable_def ntohl_def IN_LOOPBACKNET_def Let_def random32_def rdp_blank_def
        initMsgList_def initSMsgList_def DEFAULT_RDP_PORT_def initIPTable_def free_entry_def upd_conn_def ip_hash_def)


lemmas ex_init_simps = ex_init_conn ex_init_conn [unfolded One_nat_def]

lemma ex_init_sound: "rdp_sound ex_init"
  by (rule RDP_init_sound [OF ex_init_eq]) (simp add: rdp_blank_def)

lemma ex_active_sound: "rdp_sound ex_active"
proof -
  have "rdp_inv 2 ex_active"
    unfolding ex_active_def using sound_inv [OF ex_init_sound]
    by (intro invx_upd_conn) (simp_all add: conn_core_def ex_init_simps)
  moreover have "st_ok ex_active"
    unfolding ex_active_def using ex_init_sound
    by (intro st_ok_upd) (simp_all add: rdp_sound_def ex_init_simps init_conn_def)
  ultimately show ?thesis using rdp_goodI [of 2 ex_active] by (simp add: rdp_sound_def)
qed

lemma ex_active_conn:
  "conntable ex_active 1 = (init_conn 0x0200000a (htons 886) 5 5 5)\<lparr>cstate := ACTIVE, ConnID_in := 9\<rparr>"
  "nrOfNodes ex_active = 2" "sendq ex_active = []" "outp ex_active = []" "hasCallback ex_active"
  "live ex_active 1 = []" "payloads ex_active 1 = []"
  by (simp_all add: ex_active_def ex_init_simps live_def payloads_def init_conn_def)

lemmas ex_active_simps = ex_active_conn ex_active_conn [unfolded One_nat_def]

lemma ex_busy_sound: "rdp_sound ex_busy"
  unfolding ex_busy_def using rdps.step_inv [OF rdps.step_inv [OF ex_active_sound]]
  by (metis rdp_step.simps(1))

text \<open>The busy state: two messages, on the wire and waiting for their acknowledgment.\<close>

lemma ex_addr: "sin_addr (conntable ex_active 1) \<notin> {INADDR_ANY, INADDR_NONE}"
  "window (conntable ex_active 1) = 32" "cstate (conntable ex_active 1) = ACTIVE"
  by (simp_all add: ex_active_simps init_conn_def INADDR_ANY_def INADDR_NONE_def MAX_WINDOW_SIZE_def)


lemma ex_half: "\<exists>t. snd (Rsendto 1 [2, 3] ex_active) = t \<and> rdp_sound t \<and> payloads t 1 = [[2, 3]]
  \<and> window (conntable t 1) = 31 \<and> sendq t = [] \<and> cstate (conntable t 1) = ACTIVE
  \<and> peer_id (conntable t 1) = peer_id (conntable ex_active 1) \<and> nrOfNodes t = 2"
proof -
  have s: "rdp_sound (snd (Rsendto 1 [2, 3] ex_active))"
    using rdps.step_inv [OF ex_active_sound, of "OpSend 1 [2, 3]"] by simp
  have "nrOfNodes (snd (Rsendto 1 [2, 3] ex_active)) = 2"
    using Rsendto_inv [OF sound_inv [OF ex_active_sound], of 1 "[2, 3]"] nodes_inv
    by (simp add: ex_active_simps)
  with s Rsendto_accepts [OF ex_active_sound, of 1 "[2, 3]"] ex_addr show ?thesis
    by (simp add: ex_active_simps RDP_MAX_DATA_SIZE_def RDP_HDR_SIZE_def) force
qed

lemma ex_busy_facts:
  "payloads ex_busy 1 = [[2, 3], [4]]" "window (conntable ex_busy 1) = 30" "sendq ex_busy = []"
  "cstate (conntable ex_busy 1) = ACTIVE" "nrOfNodes ex_busy = 2"
  "peer_id (conntable ex_busy 1) = peer_id (conntable ex_active 1)"
proof -
  obtain t where t: "ex_busy = snd (Rsendto 1 [4] t)" "rdp_sound t" "payloads t 1 = [[2, 3]]"
    "window (conntable t 1) = 31" "sendq t = []" "cstate (conntable t 1) = ACTIVE"
    "peer_id (conntable t 1) = peer_id (conntable ex_active 1)" "nrOfNodes t = 2"
    using ex_half by (auto simp: ex_busy_def)
  have "sin_addr (conntable t 1) \<notin> {INADDR_ANY, INADDR_NONE}"
    using t(7) ex_addr(1) by (simp add: peer_id_def)
  moreover have "nrOfNodes ex_busy = 2"
    using Rsendto_inv [OF sound_inv [OF t(2)], of 1 "[4]"] nodes_inv by (simp add: t(1,8))
  ultimately show "payloads ex_busy 1 = [[2, 3], [4]]" "window (conntable ex_busy 1) = 30"
    "sendq ex_busy = []" "cstate (conntable ex_busy 1) = ACTIVE" "nrOfNodes ex_busy = 2"
    "peer_id (conntable ex_busy 1) = peer_id (conntable ex_active 1)"
    using Rsendto_accepts [OF t(2), of 1 "[4]"] t
    by (auto simp: RDP_MAX_DATA_SIZE_def RDP_HDR_SIZE_def)
qed

lemma ex_busy_conn:
  "ConnID_in (conntable ex_busy 1) = 9" "ackExpected (conntable ex_busy 1) = 5"
  "sin_addr (conntable ex_busy 1) = 0x0200000a" "length (live ex_busy 1) = 2"
  using ex_busy_facts(6) arg_cong [OF ex_busy_facts(1), of length]
  by (simp_all add: peer_id_def ex_active_simps init_conn_def payloads_def)

lemmas ex_busy_simps = ex_busy_facts ex_busy_facts [unfolded One_nat_def] ex_busy_conn
  ex_busy_conn [unfolded One_nat_def]

section \<open>Resources and states\<close>

text \<open>
  C1: after initialisation every sequence of operations (sends, receives, socket events, timeouts,
  closes, address updates, in any order and with any results of the calls of the socket) in which no
  \<open>malloc\<close> fails leaves the pools intact: the message buffers are split between the free list and the pending list, each once; the
  window of every node is 32 less its pending buffers and never negative; the sequence numbers of
  the live messages of a node count up from \<open>ackExpected\<close>; and a closed connection has none.  (Each failing \<open>malloc\<close> of a frame would lose a
  message buffer for good.)
\<close>

theorem rdp_run_resources:
  assumes "RDP_init hosts localID portno disp cb s0 = Some s1" "False \<notin> set (mallocq s0)"
  shows "let s = fold rdp_step ops s1; N = length hosts in
     nrOfNodes s = N \<and> distinct (MsgFreeList s @ AckList s)
     \<and> set (MsgFreeList s @ AckList s) = {..<N * MAX_WINDOW_SIZE}
     \<and> (\<forall>n<N. let c = conntable s n in
          window c = int MAX_WINDOW_SIZE - int (length (pendList c)) \<and> 0 \<le> window c
          \<and> live_seqs s n = seq_from (ackExpected c) (length (live s n))
          \<and> (cstate c = CLOSED \<longrightarrow> live s n = []))"
proof -
  let ?s = "fold rdp_step ops s1"
  have s: "rdp_sound ?s" by (rule rdps.run_inv [OF RDP_init_sound [OF assms]])
  have run: "rdp_inv N (fold rdp_step es t)" if "rdp_inv N t" "0 < N" for es t N
    using that by (induction es arbitrary: t) (simp_all add: rdp_step_inv)
  have inv: "rdp_inv (length hosts) ?s" using RDP_init_inv [OF assms] run by blast
  have N: "nrOfNodes ?s = length hosts" using nodes_inv [OF inv] .
  have pool: "pool_ok (length hosts) ?s" using inv by (simp add: rdp_invx_def)
  have m: "mset (MsgFreeList ?s @ AckList ?s) = mset [0..<length hosts * MAX_WINDOW_SIZE]"
    using pool unfolding pool_ok_def mset_append by argo
  have "distinct (MsgFreeList ?s @ AckList ?s)" 
    by (rule mset_upt_distinct [of _ "length hosts * MAX_WINDOW_SIZE"])
      (simp only: m subset_mset.order_refl)
  moreover have "set (MsgFreeList ?s @ AckList ?s) = {..<length hosts * MAX_WINDOW_SIZE}"
    using arg_cong [OF m, of set_mset] unfolding set_mset_mset by (simp only: atLeast_upt lessThan_atLeast0)
  moreover have "conn_st ?s n" if "n < length hosts" for n
    using s that N by (simp add: rdp_sound_def st_ok_def)
  ultimately show ?thesis
    using inv N unfolding Let_def rdp_invx_def conn_ok_def seq_ok_def conn_st_def by blast
qed

lemma rdp_run_resources_witness:
  "let s = fold rdp_step [OpSend 1 [2, 3], OpTimeout, OpClose 1] ex_init in
     distinct (MsgFreeList s @ AckList s) \<and> set (MsgFreeList s @ AckList s) = {..<64}
     \<and> window (conntable s 1) = 32 - int (length (pendList (conntable s 1)))"
  using rdp_run_resources [OF ex_init_eq, of "[OpSend 1 [2, 3], OpTimeout, OpClose 1]"]
  unfolding Let_def
  by (simp add: rdp_blank_def ex_hosts_def MAX_WINDOW_SIZE_def del: fold_simps rdp_step.simps)

text \<open>
  C24: in a sound state an open window is enough: a send over a socket without errors accepts every
  message of at most \<open>RDP_MAX_DATA_SIZE\<close> bytes, returns its length, appends it to the messages of
  the node and to no other's, and takes one slot of the window.  On an active connection the
  message goes out at once, numbered \<open>frameToSend + msgPending\<close>.
\<close>

theorem Rsendto_queues:
  assumes "rdp_sound s" "n < nrOfNodes s" "sendq s = []" "window (conntable s n) \<noteq> 0"
    and "length buf \<le> RDP_MAX_DATA_SIZE" "sin_addr (conntable s n) \<notin> {INADDR_ANY, INADDR_NONE}"
    and "cstate (conntable s n) \<noteq> CLOSED \<or> \<not> timerisset (closed (conntable s n))"
  shows "\<exists>t. Rsendto (int n) buf s = (Ret (int (length buf)), t)
    \<and> payloads t n = payloads s n @ [buf]
    \<and> (\<forall>m<nrOfNodes s. m \<noteq> n \<longrightarrow> payloads t m = payloads s m)
    \<and> window (conntable t n) = window (conntable s n) - 1
    \<and> (cstate (conntable s n) = ACTIVE \<longrightarrow> (\<exists>hdr. outp t = outp s @ [EvSend n hdr buf]
         \<and> h_type hdr = RDP_DATA \<and> h_connid hdr = ConnID_out (conntable s n)
         \<and> h_seqno hdr = frameToSend (conntable s n) + of_int (msgPending (conntable s n))))
    \<and> cstate (conntable t n)
        = (if cstate (conntable s n) = CLOSED then SYN_SENT else cstate (conntable s n))"
  using Rsendto_accepts [OF assms] by blast

lemma Rsendto_queues_witness:
  "\<exists>t. Rsendto (int 1) [9, 8, 7] ex_busy = (Ret 3, t) \<and> payloads t 1 = [[2, 3], [4], [9, 8, 7]]"
proof -
  have "\<exists>t. Rsendto (int 1) [9, 8, 7] ex_busy = (Ret (int (length [9, 8, 7 :: byte])), t)
      \<and> payloads t 1 = payloads ex_busy 1 @ [[9, 8, 7]]"
    using Rsendto_queues [OF ex_busy_sound, of 1 "[9, 8, 7]"]
    by (auto simp: ex_busy_simps INADDR_ANY_def INADDR_NONE_def RDP_MAX_DATA_SIZE_def RDP_HDR_SIZE_def)
  then show ?thesis by (simp add: ex_busy_simps)
qed

section \<open>Acknowledgments and delivery\<close>

text \<open>
  C19: acknowledgments are cumulative.  An ACK or NACK of the right connection that acknowledges
  \<open>k\<close> more messages than before releases exactly the first \<open>k\<close> live messages of the node, advances
  \<open>ackExpected\<close> by \<open>k\<close> (modulo \<open>2 ^ 32\<close>) and opens the window by at least \<open>k\<close>.
\<close>

theorem doACK_releases_prefix:
  assumes "rdp_sound s" "n < nrOfNodes s" "k \<le> length (live s n)"
    and "h_ackno hdr = ackExpected (conntable s n) - 1 + of_nat k"
    and "h_type hdr \<in> {RDP_ACK, RDP_NACK}" "h_connid hdr = ConnID_in (conntable s n)"
  shows "payloads (doACK hdr n s) n = drop k (payloads s n)
    \<and> ackExpected (conntable (doACK hdr n s) n) = ackExpected (conntable s n) + of_nat k
    \<and> window (conntable (doACK hdr n s) n) \<ge> window (conntable s n) + int k"
  using doACK_cumulative [OF sound_inv [OF assms(1)] assms(2-)] by blast

lemma doACK_releases_prefix_witness:
  "payloads (doACK \<lparr>h_type = RDP_ACK, h_len = 0, h_seqno = 0, h_ackno = 5, h_connid = 9\<rparr> 1 ex_busy) 1 = [[4]]"
  using doACK_releases_prefix [OF ex_busy_sound, of 1 1
      "\<lparr>h_type = RDP_ACK, h_len = 0, h_seqno = 0, h_ackno = 5, h_connid = 9\<rparr>"]
  by (simp add: ex_busy_simps)

text \<open>
  C4: in-order, exactly-once delivery.  Let the packets handed to an active receiver be copies of
  messages of a sender (at most \<open>2 ^ 32\<close> of them, numbered from \<open>base\<close>), in any order, with any
  losses and duplicates.  What \<open>Rrecvfrom\<close> delivers is a contiguous run of the messages, each once
  and in order, from the one the receiver expects; how far it gets is decided by the abstract
  receiver \<open>next_msg\<close>, and \<open>frameExpected\<close> counts along.
\<close>

theorem Rrecvfrom_in_order:
  assumes "rdp_sound s" "n < nrOfNodes s" "sendq s = []" "cstate (conntable s n) = ACTIVE"
    and "list_all2 (carries msgs base (ConnID_in (conntable s n))) ds js"
    and "frameExpected (conntable s n) = base + of_nat k"
    and "k \<le> length msgs" "length msgs < 2 ^ 32" "\<forall>m\<in>set msgs. length m \<le> len"
  shows "\<exists>t. deliver_all n len ds s = (map (\<lambda>j. msgs ! j) [k..<fold next_msg js k], t)
    \<and> frameExpected (conntable t n) = base + of_nat (fold next_msg js k)
    \<and> fold next_msg js k \<le> length msgs \<and> k \<le> fold next_msg js k"
  using deliver_in_order [OF sound_inv [OF assms(1)] assms(2-)] .

text \<open>Packets for the witness: message 1 comes early and again, message 0 twice.\<close>

definition ex_pkt :: "nat \<Rightarrow> byte list \<Rightarrow> dgram" where
  "ex_pkt j d = \<lparr>d_addr = 0x0200000a, d_port = htons 886, d_hdr = \<lparr>h_type = RDP_DATA,
     h_len = of_nat (length d), h_seqno = 5 + of_nat j, h_ackno = 4, h_connid = 9\<rparr>,
     d_data = d, d_ret = 16 + int (length d)\<rparr>"

lemma Rrecvfrom_in_order_witness:
  "fst (deliver_all 1 100 [ex_pkt 1 [7], ex_pkt 0 [6], ex_pkt 0 [6], ex_pkt 1 [7]] ex_busy) = [[6], [7]]"
proof -
  have "\<exists>t. deliver_all 1 100 [ex_pkt 1 [7], ex_pkt 0 [6], ex_pkt 0 [6], ex_pkt 1 [7]] ex_busy
      = (map (\<lambda>j. [[6], [7]] ! j) [0..<fold next_msg [1, 0, 0, 1] 0], t)"
    using Rrecvfrom_in_order [OF ex_busy_sound, of 1 "[[6], [7]]" 5
        "[ex_pkt 1 [7], ex_pkt 0 [6], ex_pkt 0 [6], ex_pkt 1 [7]]" "[1, 0, 0, 1]" 0 100]
      ex_busy_facts(6)
    by (simp add: ex_busy_simps ex_active_simps peer_id_def init_conn_def carries_def ex_pkt_def) blast
  then show ?thesis by (auto simp: next_msg_def)
qed


section \<open>Closing and retransmission\<close>

text \<open>
  C20: closing loses no message silently.  With a callback installed, \<open>closeConnection\<close> hands every
  live message of the node back as undeliverable, once and in order, then reports the lost
  connection if asked to; afterwards the connection is \<open>CLOSED\<close>, has no live message, and
  \<open>ackExpected\<close> meets \<open>frameToSend\<close>.
\<close>

theorem closeConnection_reports:
  assumes "rdp_sound s" "n < nrOfNodes s" "hasCallback s"
  shows "let t = closeConnection n cb s in
     outp t = outp s @ map (\<lambda>p. EvCB (PKT_UNDELIVERABLE n p)) (payloads s n)
       @ (if cb then [EvCB (LOST_CONNECTION n)] else [])
     \<and> cstate (conntable t n) = CLOSED \<and> live t n = [] \<and> msgPending (conntable t n) = 0
     \<and> ackExpected (conntable t n) = frameToSend (conntable t n)"
  using close_reports [OF sound_inv [OF assms(1)] assms(2,3)]
  by (simp add: Let_def) (simp add: closed_conn_def)

lemma ex_busy_callback: "hasCallback ex_busy"
proof -
  have c: "hasCallback t = hasCallback s" if "sent_rel s t" for s t using that by (simp add: sent_rel_def)
  have "hasCallback (sendSYN n s) = hasCallback s" "hasCallback (sendSYNACK n s) = hasCallback s"
    "hasCallback (snd (MYsendto n h d s)) = hasCallback s" for n s h d
    by (rule c [OF sent_rel_sends(1)] c [OF sent_rel_sends(3)] c [OF sent_rel_MYsendto])+
  then have "hasCallback (snd (transmit n i s)) = hasCallback s" for n i s
    by (simp add: transmit_def Let_def split: RDPState.split)
  moreover have "hasCallback (queue_msg n b i f s) = hasCallback s" for n b i f s
    by (simp add: queue_msg_def gettimeofday_def Let_def upd_msg_def)
  moreover have "hasCallback s1 = hasCallback s" if "getMsg s = (r, s1)" for r s s1
    using that by (auto simp: getMsg_def split: list.splits)
  moreover have "hasCallback s1 = hasCallback s" if "get_frame l s = (r, s1)" for r s s1 l
    using that by (auto simp: get_frame_def getSMsg_def malloc_def split: list.splits if_splits)
  ultimately have "hasCallback (snd (send_buffered n b s)) = hasCallback s" for n b s
    by (auto simp: send_buffered_def split: prod.split option.split sum.split) (metis snd_conv)+
  then have "hasCallback (snd (Rsendto n b s)) = hasCallback s" for n b s
    by (auto simp: Rsendto_def Let_def gettimeofday_def)
  then show ?thesis by (simp add: ex_busy_def ex_active_simps)
qed

lemma closeConnection_reports_witness:
  "\<exists>evs. outp (closeConnection 1 True ex_busy) = evs @ [EvCB (PKT_UNDELIVERABLE 1 [2, 3]),
     EvCB (PKT_UNDELIVERABLE 1 [4]), EvCB (LOST_CONNECTION 1)]"
  using closeConnection_reports [OF ex_busy_sound, of 1 True] ex_busy_callback
  by (simp add: ex_busy_simps Let_def)

text \<open>
  C34: a retransmission timeout of an active connection within the limit, over a socket that sends without
  errors, puts every live message on the wire again, in order and with the current acknowledgment, counts
  the attempt and sets the next timeout.  (The comment of \<open>resendMsgs\<close> speaks of the first pending message only.)
\<close>

theorem resendMsgs_resends_all:
  assumes "rdp_sound s" "n < nrOfNodes s" "sendq s = []" "pendList (conntable s n) \<noteq> []"
    and "tmout (conntable s n) < clock s (ticks s)" "cstate (conntable s n) = ACTIVE"
    and "sin_addr (conntable s n) \<noteq> INADDR_ANY"
    and "retrans (conntable s n) \<le> RDPMaxRetransCount s"
  shows "outp (resendMsgs n s) = outp s @ map (resent n s) (live s n)
    \<and> retrans (conntable (resendMsgs n s) n) = retrans (conntable s n) + 1
    \<and> tmout (conntable (resendMsgs n s) n) = timeradd (clock s (ticks s)) (RESEND_TIMEOUT s)
    \<and> cstate (conntable (resendMsgs n s) n) = ACTIVE"
  by (rule resendMsgs_all [OF sound_inv [OF assms(1)] assms(2-)])

text \<open>The busy state with its timer reset and the clock past it.\<close>

lemma env_fields:
  "rdp_invx d N (s\<lparr>clock := c\<rparr>) = rdp_invx d N s" "st_ok (s\<lparr>clock := c\<rparr>) = st_ok s"
  "rdp_invx d N (s\<lparr>hasCallback := b\<rparr>) = rdp_invx d N s" "st_ok (s\<lparr>hasCallback := b\<rparr>) = st_ok s"
  by (simp_all add: rdp_invx_def env_ok_def pool_ok_def conn_ok_def seq_ok_def live_def
      live_seqs_def used_frames_def st_ok_def conn_st_def)

definition ex_late :: rdp where
  "ex_late = (upd_conn 1 (\<lambda>c. c\<lparr>tmout := timerclear, retrans := 0\<rparr>) ex_busy)
     \<lparr>clock := (\<lambda>k. Timeval 90 0), RDPMaxRetransCount := 3\<rparr>"

lemma ex_late_sound: "rdp_sound ex_late"
proof -
  let ?u = "upd_conn 1 (\<lambda>c. c\<lparr>tmout := timerclear, retrans := 0\<rparr>) ex_busy"
  have "rdp_inv 2 ?u"
    using sound_inv [OF ex_busy_sound] ex_busy_facts(5)
    by (intro invx_upd_conn) (simp_all add: conn_core_def)
  then have "rdp_inv 2 ex_late"
    by (simp add: ex_late_def env_fields)
  moreover have "st_ok ?u"
    using ex_busy_sound by (intro st_ok_upd_keep) (simp_all add: rdp_sound_def)
  then have "st_ok ex_late" by (simp add: ex_late_def env_fields)
  ultimately show ?thesis using rdp_goodI [of 2 ex_late] by (simp add: rdp_sound_def)
qed

lemma ex_late_simps:
  "nrOfNodes ex_late = 2" "sendq ex_late = []" "live ex_late 1 = live ex_busy 1"
  "tmout (conntable ex_late 1) = timerclear" "cstate (conntable ex_late 1) = ACTIVE"
  "retrans (conntable ex_late 1) = 0" "RDPMaxRetransCount ex_late = 3"
  "sin_addr (conntable ex_late 1) = 0x0200000a" "clock ex_late k = Timeval 90 0"
  "payloads ex_late 1 = [[2, 3], [4]]" "pendList (conntable ex_late 1) \<noteq> []"
proof -
  have "live ex_busy 1 \<noteq> []" using ex_busy_conn(4) by auto
  then show "pendList (conntable ex_late 1) \<noteq> []" by (auto simp: ex_late_def live_def)
  show "payloads ex_late 1 = [[2, 3], [4]]"
    using ex_busy_facts(1) by (simp add: ex_late_def payloads_def live_def)
qed (simp_all add: ex_late_def ex_busy_simps live_def)

lemma resendMsgs_resends_all_witness:
  "outp (resendMsgs 1 ex_late) = outp ex_late @ map (resent 1 ex_late) (live ex_late 1)
   \<and> length (live ex_late 1) = 2 \<and> retrans (conntable (resendMsgs 1 ex_late) 1) = 1"
  using resendMsgs_resends_all [OF ex_late_sound, of 1]
  by (simp add: ex_late_simps ex_late_simps [unfolded One_nat_def] ex_busy_simps INADDR_ANY_def
      less_timeval_def timerclear_def)

lemma ex_late_callback: "hasCallback ex_late"
  using ex_busy_callback by (simp add: ex_late_def)

text \<open>
  C14: one step of the connection state machine, in a sound state with a callback, over a socket that sends without errors
  and with no more retransmissions than the limit: the connection moves exactly along the table \<open>rdp_next\<close> (so it is closed
  only where the table says so), and other connections are left alone.  The number and the identity of the
  peer are taken from the header exactly where \<open>learns\<close> says so.  If an active connection is given up, the daemon is told of
  every message that was not acknowledged, in order, and then of the loss (\<open>old_lost\<close>); if one becomes active it is told of that
  (\<open>told_new\<close>), and of nothing else.  On the wire (\<open>answers\<close>), \<open>SYN_RECVD\<close> answers with exactly one SYNACK, \<open>SYN_SENT\<close> with exactly one
  SYN, both with the numbers of the new state, and a closed connection or one that stays active with nothing.
\<close>

theorem updateState_follows_table:
  assumes "rdp_sound s" "n < nrOfNodes s" "hasCallback s" "sendq s = []"
    and "sin_addr (conntable s n) \<noteq> INADDR_ANY" "retrans (conntable s n) \<le> RDPMaxRetransCount s"
  shows "let t = updateState hdr n s; c = conntable s n; c' = conntable t n; same = (h_connid hdr = ConnID_in c) in
     cstate c' = rdp_next (cstate c) (h_type hdr) same
     \<and> (frameExpected c', ConnID_in c') = (if learns (cstate c) (h_type hdr) same then (h_seqno hdr, h_connid hdr)
          else (frameExpected c, ConnID_in c))
     \<and> (\<forall>m. m \<noteq> n \<longrightarrow> conntable t m = conntable s m)
     \<and> (\<exists>ws. outp t = outp s @ old_lost n hdr s @ ws @ told_new n s t \<and> answers n s t ws)"
  using updateState_exact [OF assms, of hdr] unfolding exact_step_def Let_def by blast

text \<open>A SYN with a new identity on an active connection that waits for two acknowledgments.\<close>

lemma updateState_follows_table_witness:
  "let hdr = \<lparr>h_type = RDP_SYN, h_len = 4, h_seqno = 77, h_ackno = 0, h_connid = 12\<rparr>; t = updateState hdr 1 ex_late in
     cstate (conntable t 1) = SYN_RECVD \<and> frameExpected (conntable t 1) = 77 \<and> ConnID_in (conntable t 1) = 12
     \<and> outp t = outp ex_late @ [EvCB (PKT_UNDELIVERABLE 1 [2, 3]), EvCB (PKT_UNDELIVERABLE 1 [4]), EvCB (LOST_CONNECTION 1),
          EvSend 1 (synack_hdr (conntable t 1)) []]"
proof -
  have h: "1 < nrOfNodes ex_late" "sendq ex_late = []" "sin_addr (conntable ex_late 1) \<noteq> INADDR_ANY"
    "retrans (conntable ex_late 1) \<le> RDPMaxRetransCount ex_late"
    by (simp_all add: ex_late_simps ex_late_simps [unfolded One_nat_def] INADDR_ANY_def)
  let ?hdr = "\<lparr>h_type = RDP_SYN, h_len = 4, h_seqno = 77, h_ackno = 0, h_connid = 12\<rparr>"
  note u = updateState_follows_table [OF ex_late_sound h(1) ex_late_callback h(2-4), of ?hdr, unfolded Let_def]
  have st: "cstate (conntable ex_late 1) = ACTIVE" "payloads ex_late 1 = [[2, 3], [4]]" by (rule ex_late_simps)+
  have new: "cstate (conntable (updateState ?hdr 1 ex_late) 1) = SYN_RECVD" using u st by simp
  moreover have "(frameExpected (conntable (updateState ?hdr 1 ex_late) 1), ConnID_in (conntable (updateState ?hdr 1 ex_late) 1)) = (77, 12)"
    using u by (simp add: learns_def)
  moreover obtain ws where "outp (updateState ?hdr 1 ex_late) = outp ex_late @ old_lost 1 ?hdr ex_late @ ws @ told_new 1 ex_late (updateState ?hdr 1 ex_late)"
    "answers 1 ex_late (updateState ?hdr 1 ex_late) ws" using u by blast
  moreover have "old_lost 1 ?hdr ex_late = [EvCB (PKT_UNDELIVERABLE 1 [2, 3]), EvCB (PKT_UNDELIVERABLE 1 [4]), EvCB (LOST_CONNECTION 1)]"
    unfolding old_lost_def st by simp
  ultimately show ?thesis unfolding Let_def told_new_def st answers_def new by simp
qed

text \<open>
  C36: the retransmission limit.  A timeout of a connection that has been resent more often than the
  limit allows closes it: its live messages are reported undeliverable, in order, and the loss of
  the connection after them.
\<close>

theorem resendMsgs_gives_up:
  assumes "rdp_sound s" "n < nrOfNodes s" "hasCallback s" "pendList (conntable s n) \<noteq> []"
    and "tmout (conntable s n) < clock s (ticks s)"
    and "retrans (conntable s n) > RDPMaxRetransCount s"
  shows "cstate (conntable (resendMsgs n s) n) = CLOSED
    \<and> outp (resendMsgs n s) = outp s @ map (\<lambda>p. EvCB (PKT_UNDELIVERABLE n p)) (payloads s n)
        @ [EvCB (LOST_CONNECTION n)]"
proof -
  let ?u = "upd_conn n (\<lambda>c. c\<lparr>tmout := timeradd (clock s (ticks s)) (RESEND_TIMEOUT s)\<rparr>)
      (snd (gettimeofday s))"
  have "rdp_inv (nrOfNodes s) ?u"
    using core_eq_invx [OF core_eq_gettimeofday sound_inv [OF assms(1)]]
    by (rule invx_upd_conn) (simp add: conn_core_def)
  moreover have "payloads ?u n = payloads s n" "outp ?u = outp s" "hasCallback ?u = hasCallback s"
    by (simp_all add: payloads_def live_def gettimeofday_def)
  ultimately show ?thesis
    using close_reports [of "nrOfNodes s" ?u n True] assms(2,3) resendMsgs_limit [OF assms(4-6)]
    by (simp add: closed_conn_def)
qed

definition ex_limit :: rdp where
  "ex_limit = ex_late\<lparr>RDPMaxRetransCount := -1, hasCallback := True\<rparr>"

lemma resendMsgs_gives_up_witness:
  "cstate (conntable (resendMsgs 1 ex_limit) 1) = CLOSED
   \<and> outp (resendMsgs 1 ex_limit) = outp ex_limit @ [EvCB (PKT_UNDELIVERABLE 1 [2, 3]),
       EvCB (PKT_UNDELIVERABLE 1 [4]), EvCB (LOST_CONNECTION 1)]"
proof -
  have "rdp_inv 2 ex_limit" "st_ok ex_limit"
    using ex_late_sound sound_inv [OF ex_late_sound]
    by (simp_all add: ex_limit_def ex_late_simps rdp_sound_def env_fields)
  then have "rdp_sound ex_limit" using rdp_goodI [of 2 ex_limit] by (simp add: rdp_sound_def)
  moreover have "nrOfNodes ex_limit = 2" "hasCallback ex_limit" "pendList (conntable ex_limit 1) \<noteq> []"
    "tmout (conntable ex_limit 1) < clock ex_limit (ticks ex_limit)"
    "retrans (conntable ex_limit 1) > RDPMaxRetransCount ex_limit"
    "payloads ex_limit 1 = [[2, 3], [4]]"
    using ex_late_simps
    by (simp_all add: ex_limit_def less_timeval_def timerclear_def payloads_def live_def)
  ultimately show ?thesis using resendMsgs_gives_up [of ex_limit 1] by simp
qed


section \<open>Addresses\<close>

text \<open>
  A node that changes its address is found under the new one and no longer under the old one,
  every other address still leads where it led, and an open connection to the node is closed.
\<close>

theorem RDP_updateNode_moves:
  assumes ok: "iptable_ok (iptab s)" and node: "0 \<le> node" "node < int (nrOfNodes s)"
    and old: "sin_addr (conntable s (nat node)) = old" "lookupIPTable old (iptab s) = node" "old \<noteq> 0"
    and new: "new \<noteq> old" "new \<notin> {INADDR_ANY, INADDR_NONE}" "lookupIPTable new (iptab s) = -1"
    and upd: "RDP_updateNode node new s = (Ret True, t)"
  shows "lookupIPTable new (iptab t) = node \<and> lookupIPTable old (iptab t) = -1
    \<and> (\<forall>b. b \<notin> {0, old, new} \<longrightarrow> lookupIPTable b (iptab t) = lookupIPTable b (iptab s))
    \<and> iptable_ok (iptab t) \<and> sin_addr (conntable t (nat node)) = new
    \<and> cstate (conntable t (nat node)) = CLOSED"
proof -
  let ?n = "nat node"
  define s1 where "s1 = (if cstate (conntable s ?n) \<noteq> CLOSED then closeConnection ?n False s else s)"
  have s1: "iptab s1 = iptab s" "sin_addr (conntable s1 ?n) = old" "cstate (conntable s1 ?n) = CLOSED"
    using old(1) by (simp_all add: s1_def closed_conn_def)
  obtain tab where add: "addToIPTable new node (snd (rmFromIPTable old node (iptab s))) = Some tab"
    and t: "t = (upd_conn ?n (\<lambda>c. c\<lparr>sin_addr := new\<rparr>)
        (s1\<lparr>iptab := snd (rmFromIPTable old node (iptab s))\<rparr>))\<lparr>iptab := tab\<rparr>"
    using upd node new old(1) s1
    unfolding RDP_updateNode_def s1_def [symmetric] Let_def by (auto split: option.splits)
  have "new \<noteq> 0" using new(2) by (simp add: INADDR_ANY_def)
  note mv = ipt.move_lookup [OF ok old(2) node(1) old(3) this new(1) [symmetric] new(3) add]
  from mv show ?thesis by (simp add: t s1)
qed

lemma RDP_updateNode_moves_witness:
  "lookupIPTable 0x0300000a (iptab (snd (RDP_updateNode 1 0x0300000a ex_init))) = 1"
proof -
  have tab: "iptab ex_init = initIPTable(ip_hash 0x0100000a := [\<lparr>ip_addr = 0x0100000a, ip_node = 0\<rparr>],
      ip_hash 0x0200000a := [\<lparr>ip_addr = 0x0200000a, ip_node = 1\<rparr>])"
    by (simp add: ex_init_def RDP_init_def ex_hosts_def initConntable_def init_node_def INADDR_ANY_def
        INADDR_NONE_def addToIPTable_def ntohl_def IN_LOOPBACKNET_def Let_def random32_def rdp_blank_def
        initMsgList_def initSMsgList_def initIPTable_def free_entry_def ip_hash_def)
  have h: "ip_hash 0x0100000a = 1" "ip_hash 0x0200000a = 2" "ip_hash 0x0300000a = 3"
    by (simp_all add: ip_hash_def ntohl_def)
  have ok: "iptable_ok (iptab ex_init)"
    by (auto simp: tab h iptable_ok_def chain_ok_def initIPTable_def free_entry_def)
  have l: "lookupIPTable 0x0200000a (iptab ex_init) = 1" "lookupIPTable 0x0300000a (iptab ex_init) = -1"
    by (simp_all add: lookupIPTable_def tab h initIPTable_def free_entry_def)
  have "fst (RDP_updateNode 1 0x0300000a ex_init) = Ret True"
    by (simp add: RDP_updateNode_def ex_init_simps init_conn_def addToIPTable_def ntohl_def
        IN_LOOPBACKNET_def Let_def)
  then have "RDP_updateNode 1 0x0300000a ex_init
      = (Ret True, snd (RDP_updateNode 1 0x0300000a ex_init))" by (metis prod.collapse)
  from RDP_updateNode_moves [OF ok _ _ _ _ _ _ _ _ this, of "0x0200000a"] l
  show ?thesis by (simp add: ex_init_simps init_conn_def INADDR_ANY_def INADDR_NONE_def)
qed

section \<open>The handshake\<close>

text \<open>
  C37: the three-way handshake synchronises the two ends.  Node \<open>a\<close> waits in \<open>SYN_SENT\<close> for its peer
  \<open>b\<close>, where the connection is closed.  The SYN of \<open>a\<close> makes \<open>b\<close> answer with exactly one SYNACK;
  that and any acknowledgment or data packet in return make both ends active; each end expects the
  first number the other will send, and knows the connection ID the other puts in its packets.
\<close>

theorem handshake_synchronises:
  assumes "rdp_sound a" "p < nrOfNodes a" "sendq a = []" "cstate (conntable a p) = SYN_SENT"
    and "sin_addr (conntable a p) \<noteq> INADDR_ANY" "retrans (conntable a p) \<le> RDPMaxRetransCount a"
    and "rdp_sound b" "q < nrOfNodes b" "sendq b = []" "cstate (conntable b q) = CLOSED"
    and "sin_addr (conntable b q) \<noteq> INADDR_ANY" "retrans (conntable b q) \<le> RDPMaxRetransCount b"
    and "h_type hdr \<in> {RDP_ACK, RDP_DATA}"
  shows "let b1 = updateState (syn_hdr (conntable a p)) q b;
        a1 = updateState (synack_hdr (conntable b1 q)) p a;
        b2 = updateState hdr q b1
    in outp b1 = outp b @ [EvSend q (synack_hdr (conntable b1 q)) []]
     \<and> cstate (conntable a1 p) = ACTIVE \<and> cstate (conntable b2 q) = ACTIVE
     \<and> frameExpected (conntable a1 p) = frameToSend (conntable b q)
     \<and> frameExpected (conntable b2 q) = frameToSend (conntable a p)
     \<and> ConnID_in (conntable a1 p) = ConnID_out (conntable b q)
     \<and> ConnID_in (conntable b2 q) = ConnID_out (conntable a p)"
  using handshake [OF assms refl refl refl] unfolding Let_def by blast

lemma ex_synsent:
  "rdp_sound (snd (Rsendto 1 [1] ex_init)) \<and> nrOfNodes (snd (Rsendto 1 [1] ex_init)) = 2
   \<and> sendq (snd (Rsendto 1 [1] ex_init)) = []
   \<and> cstate (conntable (snd (Rsendto 1 [1] ex_init)) 1) = SYN_SENT
   \<and> sin_addr (conntable (snd (Rsendto 1 [1] ex_init)) 1) = 0x0200000a"
proof -
  let ?s = "snd (Rsendto 1 [1] ex_init)"
  have "rdp_sound ?s" using rdps.step_inv [OF ex_init_sound, of "OpSend 1 [1]"] by simp
  moreover have "nrOfNodes ?s = 2"
    using Rsendto_inv [OF sound_inv [OF ex_init_sound], of 1 "[1]"] nodes_inv
    by (simp add: ex_init_simps)
  moreover have "sendq ?s = [] \<and> cstate (conntable ?s 1) = SYN_SENT
      \<and> peer_id (conntable ?s 1) = peer_id (conntable ex_init 1)"
    using Rsendto_accepts [OF ex_init_sound, of 1 "[1]"]
    by (auto simp: ex_init_simps init_conn_def MAX_WINDOW_SIZE_def RDP_MAX_DATA_SIZE_def
        RDP_HDR_SIZE_def INADDR_ANY_def INADDR_NONE_def timerisset_def timerclear_def)
  ultimately show ?thesis by (simp add: peer_id_def ex_init_simps init_conn_def)
qed

lemma handshake_synchronises_witness:
  "\<exists>a. cstate (conntable a 1) = SYN_SENT
     \<and> (let b1 = updateState (syn_hdr (conntable a 1)) 1 ex_init;
            a1 = updateState (synack_hdr (conntable b1 1)) 1 a
        in cstate (conntable a1 1) = ACTIVE
         \<and> frameExpected (conntable a1 1) = frameToSend (conntable ex_init 1))"
proof -
  define a where "a = (upd_conn 1 (\<lambda>c. c\<lparr>retrans := 0\<rparr>) (snd (Rsendto 1 [1] ex_init)))
    \<lparr>RDPMaxRetransCount := 3\<rparr>"
  let ?u = "upd_conn 1 (\<lambda>c. c\<lparr>retrans := 0\<rparr>) (snd (Rsendto 1 [1] ex_init))"
  have "rdp_inv 2 ?u" using sound_inv [of "snd (Rsendto 1 [1] ex_init)"] ex_synsent
    by (intro invx_upd_conn) (simp_all add: conn_core_def)
  moreover have "st_ok ?u" using ex_synsent by (intro st_ok_upd_keep) (simp_all add: rdp_sound_def)
  ultimately have "rdp_sound a" using rdp_goodI [of 2 a] by (simp add: rdp_sound_def a_def)
  moreover have "nrOfNodes a = 2" "sendq a = []" "cstate (conntable a 1) = SYN_SENT"
    "sin_addr (conntable a 1) = 0x0200000a" "retrans (conntable a 1) \<le> RDPMaxRetransCount a"
    using ex_synsent by (simp_all add: a_def)
  ultimately show ?thesis
    using handshake_synchronises [of a 1 ex_init 1 "\<lparr>h_type = RDP_ACK, h_len = 0, h_seqno = 0, h_ackno = 0, h_connid = 0\<rparr>"]
    by (intro exI [of _ a]) (simp add: ex_init_sound ex_init_simps init_conn_def INADDR_ANY_def Let_def)
qed

section \<open>A full send queue\<close>

text \<open>
  When the socket reports \<open>ENOBUFS\<close> for a message on an active connection, the message is queued
  like any other and will be resent, but the value returned is the length of the message less the
  16 bytes of the header: a caller that compares it with the length it passed sees a short or,
  below 16 bytes, a negative count.
\<close>

theorem Rsendto_enobufs_short:
  assumes "rdp_sound s" "n < nrOfNodes s" "window (conntable s n) \<noteq> 0"
    and "length buf \<le> RDP_MAX_DATA_SIZE" "sin_addr (conntable s n) \<notin> {INADDR_ANY, INADDR_NONE}"
    and "cstate (conntable s n) = ACTIVE" "sendq s = SendErr ENOBUFS eq # rest"
  shows "\<exists>t. Rsendto (int n) buf s = (Ret (int (length buf) - 16), t)
    \<and> payloads t n = payloads s n @ [buf] \<and> outp t = outp s"
proof -
  have inv: "rdp_inv (nrOfNodes s) s" using sound_inv [OF assms(1)] .
  obtain i f s1 s2 where g: "getMsg s = (Some i, s1)" "get_frame (length buf) s1 = (Some f, s2)"
    and q: "payloads (queue_msg n buf i f s2) n = payloads s n @ [buf]"
      "sendq (queue_msg n buf i f s2) = sendq s" "outp (queue_msg n buf i f s2) = outp s"
      "cstate (conntable (queue_msg n buf i f s2) n) = cstate (conntable s n)"
      "sin_addr (conntable (queue_msg n buf i f s2) n) = sin_addr (conntable s n)"
    by (rule send_buffered_queues [OF inv assms(2,3), of buf]) (rule that)
  let ?q = "queue_msg n buf i f s2"
  have t: "transmit n i ?q = (Inl ENOBUFS,
      (upd_conn n (\<lambda>c. c\<lparr>frameToSend := frameToSend c + 1\<rparr>) ?q)\<lparr>sendq := rest\<rparr>)"
    using assms(5-7) q by (simp add: transmit_def Let_def MYsendto_def)
  have "Rsendto (int n) buf s = send_buffered n buf s"
    using assms(2-6) by (auto simp: Rsendto_def Let_def)
  then show ?thesis using q
    by (simp add: send_buffered_def g t RDP_HDR_SIZE_def payloads_def live_def)
qed

lemma Rsendto_enobufs_short_witness:
  "\<exists>t. Rsendto 1 [1, 2, 3] (ex_active\<lparr>sendq := [SendErr ENOBUFS ErrqEmpty]\<rparr>) = (Ret (-13), t)
     \<and> payloads t 1 = [[1, 2, 3]]"
proof -
  let ?s = "ex_active\<lparr>sendq := [SendErr ENOBUFS ErrqEmpty]\<rparr>"
  have "rdp_sound ?s" using ex_active_sound by (simp add: rdp_sound_def rdp_good_def)
  moreover have "payloads ?s 1 = []" by (simp add: payloads_def live_def ex_active_simps init_conn_def)
  ultimately show ?thesis using Rsendto_enobufs_short [of ?s 1 "[1, 2, 3]" ErrqEmpty "[]"] ex_addr
    by (simp add: ex_active_simps RDP_MAX_DATA_SIZE_def RDP_HDR_SIZE_def) blast
qed

end
