(* ===== verification/Bytes.thy ===== *)
theory Bytes
  imports Prelude
begin

text \<open>
  Numbers as bytes in the memory of a little-endian host, memory as a function from addresses to
  bytes, and the interface of a reader that takes encoded values off the front of a byte stream.
\<close>

section \<open>Little-endian numbers\<close>

primrec le_bytes :: "nat \<Rightarrow> nat \<Rightarrow> byte list" where
  "le_bytes 0 n = []"
| "le_bytes (Suc k) n = of_nat n # le_bytes k (n div 256)"

primrec le_nat :: "byte list \<Rightarrow> nat" where
  "le_nat [] = 0"
| "le_nat (b # bs) = unat b + 256 * le_nat bs"

lemma length_le_bytes [simp]: "length (le_bytes k n) = k"
  by (induction k arbitrary: n) auto

lemma le_nat_bytes: "le_nat (le_bytes k n) = n mod 256 ^ k"
proof (induction k arbitrary: n)
  case (Suc k)
  have "unat (of_nat n :: byte) = n mod 256" by (simp add: unat_of_nat)
  then show ?case by (simp add: Suc mod_mult2_eq)
qed simp

lemma le_nat_bound: "le_nat bs < 256 ^ length bs"
proof (induction bs)
  case (Cons b bs)
  have "unat b < 2 ^ LENGTH(8)" by (rule unsigned_less)
  then show ?case using Cons by simp
qed simp

lemma le_nat_bytes_id [simp]: "n < 256 ^ k \<Longrightarrow> le_nat (le_bytes k n) = n"
  by (simp add: le_nat_bytes)

section \<open>Memory\<close>

type_synonym memory = "nat \<Rightarrow> byte"

definition put_bytes :: "nat \<Rightarrow> byte list \<Rightarrow> memory \<Rightarrow> memory" where
  "put_bytes off bs m = (\<lambda>i. if off \<le> i \<and> i < off + length bs then bs ! (i - off) else m i)"

definition get_bytes :: "nat \<Rightarrow> nat \<Rightarrow> memory \<Rightarrow> byte list" where
  "get_bytes off n m = map m [off..<off + n]"

lemma length_get_bytes [simp]: "length (get_bytes off n m) = n"
  by (simp add: get_bytes_def)

lemma get_put_same [simp]: "get_bytes off (length bs) (put_bytes off bs m) = bs"
  by (intro nth_equalityI) (auto simp: get_bytes_def put_bytes_def)

lemma get_put_other:
  "off' + n \<le> off \<or> off + length bs \<le> off' \<Longrightarrow> get_bytes off' n (put_bytes off bs m) = get_bytes off' n m"
  by (auto simp: get_bytes_def put_bytes_def)

lemma get_bytes_split: "get_bytes off (n + k) m = get_bytes off n m @ get_bytes (off + n) k m"
  using upt_add_eq_append [of off "off + n" k] by (simp add: get_bytes_def add.assoc)

lemma get_put_append:
  assumes "off = o' + n" "k = length bs"
  shows "get_bytes o' (n + k) (put_bytes off bs m) = get_bytes o' n m @ bs"
proof -
  have "get_bytes o' n (put_bytes (o' + n) bs m) = get_bytes o' n m"
    by (rule get_put_other) simp
  then show ?thesis by (simp add: get_bytes_split assms)
qed

lemma take_get_bytes: "i \<le> n \<Longrightarrow> take i (get_bytes off n m) = get_bytes off i m"
  by (simp add: get_bytes_def take_map)

lemma drop_get_bytes: "i \<le> n \<Longrightarrow> drop i (get_bytes off n m) = get_bytes (off + i) (n - i) m"
  by (simp add: get_bytes_def drop_map)

section \<open>Readers of a byte stream\<close>

text \<open>
  A reader \<open>rd\<close> takes a value of a given kind off the front of what a state still has to read
  (\<open>rest\<close>); a state that is not \<open>ok\<close> gives nothing and stays as it is.  The law: what the writer's
  encoding \<open>enc\<close> put in front comes back, and the reader is then behind it.
\<close>

locale byte_reader =
  fixes rd :: "'k \<Rightarrow> 's \<Rightarrow> 'v option \<times> 's"
    and rest :: "'s \<Rightarrow> byte list"
    and ok :: "'s \<Rightarrow> bool"
    and enc :: "'v \<Rightarrow> byte list"
    and kind :: "'v \<Rightarrow> 'k"
    and valid :: "'v \<Rightarrow> bool"
  assumes rd_enc: "ok s \<Longrightarrow> valid v \<Longrightarrow> rest s = enc v @ r
      \<Longrightarrow> \<exists>t. rd (kind v) s = (Some v, t) \<and> ok t \<and> rest t = r"
begin

fun read_all :: "'k list \<Rightarrow> 's \<Rightarrow> 'v list option \<times> 's" where
  "read_all [] s = (Some [], s)"
| "read_all (k # ks) s =
     (case rd k s of
        (None, t) \<Rightarrow> (None, t)
      | (Some v, t) \<Rightarrow> (case read_all ks t of (None, u) \<Rightarrow> (None, u) | (Some vs, u) \<Rightarrow> (Some (v # vs), u)))"

lemma read_all_enc:
  assumes "ok s" "\<forall>v\<in>set vs. valid v" "rest s = concat (map enc vs) @ r"
  shows "\<exists>t. read_all (map kind vs) s = (Some vs, t) \<and> ok t \<and> rest t = r"
  using assms
proof (induction vs arbitrary: s)
  case (Cons v vs)
  from rd_enc [OF Cons.prems(1), of v "concat (map enc vs) @ r"] Cons.prems(2,3)
  obtain t where t: "rd (kind v) s = (Some v, t)" "ok t" "rest t = concat (map enc vs) @ r" by auto
  from Cons.IH [OF t(2) _ t(3)] Cons.prems(2) t(1) show ?case by auto
qed simp

end

end
