(* ===== verification/Ps_Msg.thy ===== *)
theory Ps_Msg
  imports Bytes
begin

text \<open>
  Task identifiers (\<open>src/lib/pscommon/pscommon.c\<close>) and the message buffers of the ParaStation
  protocol (\<open>src/lib/pscommon/psprotocol.c\<close>, \<open>src/include/psprotocol.h\<close>): a message is a header and
  a buffer of fixed size into which items are put one after the other and from which they are read
  back.  The counter \<open>header.len\<close> includes the header; for typed messages the first four bytes of
  the buffer hold the sub-type.  The NULL tests for the message itself, which only report a
  programming error, are left out.
\<close>

section \<open>Task identifiers\<close>

type_synonym taskid = "64 word"
type_synonym nodeid = "32 word"

text \<open>\<open>myID\<close> is the static variable of the C code.\<close>

definition PSC_getTID :: "nodeid \<Rightarrow> nodeid \<Rightarrow> int32 \<Rightarrow> taskid" where
  "PSC_getTID myID node pid =
     (let n = (if node = -1 then myID else node)
      in push_bit 32 ((scast n :: taskid) AND 0xffffffff) OR ((scast pid :: taskid) AND 0xffffffff))"

definition PSC_getID :: "nodeid \<Rightarrow> taskid \<Rightarrow> nodeid" where
  "PSC_getID myID tid =
     (let node = (ucast (signed_drop_bit 32 tid AND 0xffffffff) :: nodeid)
      in if node = -1 then myID else node)"

definition PSC_getPID :: "taskid \<Rightarrow> int32" where
  "PSC_getPID tid = ucast (tid AND 0xffffffff)"

definition PSC_validNode :: "nodeid \<Rightarrow> nodeid \<Rightarrow> bool" where
  "PSC_validNode nrOfNodes i \<longleftrightarrow> \<not> (nrOfNodes = -1 \<or> sint i < 0 \<or> sint i \<ge> sint nrOfNodes)"

section \<open>Messages\<close>

definition DDBufferMsgOffset :: nat where "DDBufferMsgOffset = 24"
definition DDTypedBufMsgOffset :: nat where "DDTypedBufMsgOffset = 28"
definition BufMsgSize :: nat where "BufMsgSize = 1456 - DDBufferMsgOffset"
definition BufTypedMsgSize :: nat where "BufTypedMsgSize = BufMsgSize - 4"

lemmas msg_consts = DDBufferMsgOffset_def DDTypedBufMsgOffset_def BufMsgSize_def BufTypedMsgSize_def

record ddmsg =
  m_type :: int16
  m_len :: nat
  m_sender :: taskid
  m_dest :: taskid
  m_subtype :: int32
  m_buf :: memory

text \<open>
  \<open>doPutMsgBuf\<close>: the data and its size; without data one zero byte is written, and an item of size 0
  takes one byte.  On failure the length may already have been set up for the first item.
\<close>

definition doPutMsgBuf :: "bool \<Rightarrow> byte list option \<Rightarrow> nat \<Rightarrow> ddmsg \<Rightarrow> bool \<times> ddmsg" where
  "doPutMsgBuf typed data sz msg =
     (let len1 = (if m_len msg = 0 then DDBufferMsgOffset else m_len msg);
          off1 = len1 - DDBufferMsgOffset;
          t_off = DDTypedBufMsgOffset - DDBufferMsgOffset;
          (off, len2) = (if typed \<and> off1 = 0 then (off1 + t_off, len1 + t_off) else (off1, len1));
          s = (if sz \<noteq> 0 then sz else 1)
      in if \<not> (BufMsgSize - off \<ge> s) then (False, msg\<lparr>m_len := len2\<rparr>)
         else (True, msg\<lparr>m_len := len2 + s,
           m_buf := (case data of Some d \<Rightarrow> put_bytes off (take sz d) (m_buf msg)
                     | None \<Rightarrow> put_bytes off [0] (m_buf msg))\<rparr>))"

definition PSP_putMsgBuf :: "byte list \<Rightarrow> ddmsg \<Rightarrow> bool \<times> ddmsg" where
  "PSP_putMsgBuf d = doPutMsgBuf False (Some d) (length d)"

definition PSP_putTypedMsgBuf :: "byte list \<Rightarrow> ddmsg \<Rightarrow> bool \<times> ddmsg" where
  "PSP_putTypedMsgBuf d = doPutMsgBuf True (Some d) (length d)"

text \<open>\<open>doGetMsgBuf\<close>: the counter \<open>used\<close> is returned advanced, the data where there is enough.\<close>

definition doGetMsgBuf :: "bool \<Rightarrow> nat \<Rightarrow> ddmsg \<Rightarrow> nat \<Rightarrow> byte list option \<times> nat" where
  "doGetMsgBuf typed sz msg used =
     (let u = used + (if typed then DDTypedBufMsgOffset - DDBufferMsgOffset else 0);
          totAvail = int (m_len msg) - int DDBufferMsgOffset
      in if int (sz + u) > totAvail then (None, used)
         else (Some (get_bytes u sz (m_buf msg)), used + sz))"

definition PSP_getMsgBuf :: "nat \<Rightarrow> ddmsg \<Rightarrow> nat \<Rightarrow> byte list option \<times> nat" where
  "PSP_getMsgBuf = doGetMsgBuf False"

definition PSP_getTypedMsgBuf :: "nat \<Rightarrow> ddmsg \<Rightarrow> nat \<Rightarrow> byte list option \<times> nat" where
  "PSP_getTypedMsgBuf = doGetMsgBuf True"

section \<open>The content of a typed message\<close>

definition typed_ok :: "ddmsg \<Rightarrow> bool" where
  "typed_ok m \<longleftrightarrow> m_len m = 0 \<or> DDTypedBufMsgOffset \<le> m_len m \<and> m_len m \<le> 1456"

definition tlen :: "ddmsg \<Rightarrow> nat" where
  "tlen m = m_len m - DDTypedBufMsgOffset"

definition tbytes :: "ddmsg \<Rightarrow> byte list" where
  "tbytes m = get_bytes 4 (tlen m) (m_buf m)"

lemma length_tbytes [simp]: "length (tbytes m) = tlen m"
  by (simp add: tbytes_def)

lemma put_typed:
  assumes ok: "typed_ok m" and d: "d \<noteq> []" and room: "tlen m + length d \<le> BufTypedMsgSize"
  shows "\<exists>m'. PSP_putTypedMsgBuf d m = (True, m') \<and> typed_ok m' \<and> tbytes m' = tbytes m @ d
    \<and> m_len m' = DDTypedBufMsgOffset + tlen m + length d
    \<and> m_sender m' = m_sender m \<and> m_type m' = m_type m \<and> m_subtype m' = m_subtype m
    \<and> m_dest m' = m_dest m"
proof -
  let ?m = "m\<lparr>m_len := DDTypedBufMsgOffset + tlen m + length d, m_buf := put_bytes (4 + tlen m) d (m_buf m)\<rparr>"
  have "PSP_putTypedMsgBuf d m = (True, ?m)"
  proof (cases "m_len m = 0")
    case True
    then show ?thesis
      using d room by (simp add: PSP_putTypedMsgBuf_def doPutMsgBuf_def tlen_def msg_consts)
  next
    case False
    then obtain k where k: "m_len m = 28 + k"
      using ok by (auto simp: typed_ok_def msg_consts dest: le_Suc_ex)
    then show ?thesis
      using d room by (simp add: PSP_putTypedMsgBuf_def doPutMsgBuf_def tlen_def msg_consts Let_def)
  qed
  moreover have "tbytes ?m = tbytes m @ d"
    unfolding tbytes_def by (simp add: tlen_def) (rule get_put_append, simp_all)
  moreover have "typed_ok ?m" using room by (simp add: typed_ok_def msg_consts)
  ultimately show ?thesis by simp
qed

lemma put_typed_full:
  assumes "typed_ok m" "tlen m + length d > BufTypedMsgSize" "m_len m \<noteq> 0"
  shows "PSP_putTypedMsgBuf d m = (False, m)"
  using assms by (auto simp: PSP_putTypedMsgBuf_def doPutMsgBuf_def Let_def typed_ok_def tlen_def msg_consts)

lemma get_typed:
  assumes ok: "typed_ok m" and len: "m_len m \<noteq> 0"
  shows "PSP_getTypedMsgBuf n m used =
     (if used + n \<le> tlen m then (Some (take n (drop used (tbytes m))), used + n) else (None, used))"
proof (cases "used + n \<le> tlen m")
  case True
  then have "take n (drop used (tbytes m)) = get_bytes (used + 4) n (m_buf m)"
    by (simp add: tbytes_def drop_get_bytes take_get_bytes add.commute)
  with True show ?thesis
    using ok len by (auto simp: PSP_getTypedMsgBuf_def doGetMsgBuf_def Let_def typed_ok_def tlen_def
        msg_consts)
next
  case False
  then show ?thesis
    using ok len by (auto simp: PSP_getTypedMsgBuf_def doGetMsgBuf_def Let_def typed_ok_def tlen_def
        msg_consts)
qed

text \<open>
  Reading a typed message item by item is a reader of its content: the state is the counter of the
  bytes used, the kind of an item its size.
\<close>

definition msg_rd :: "nat \<Rightarrow> ddmsg \<times> nat \<Rightarrow> byte list option \<times> (ddmsg \<times> nat)" where
  "msg_rd n s = (case PSP_getTypedMsgBuf n (fst s) (snd s) of (r, u) \<Rightarrow> (r, (fst s, u)))"

definition msg_rest :: "ddmsg \<times> nat \<Rightarrow> byte list" where
  "msg_rest s = drop (snd s) (tbytes (fst s))"

definition msg_rd_ok :: "ddmsg \<times> nat \<Rightarrow> bool" where
  "msg_rd_ok s \<longleftrightarrow> typed_ok (fst s) \<and> m_len (fst s) \<noteq> 0 \<and> snd s \<le> tlen (fst s)"

interpretation msg_reader: byte_reader msg_rd msg_rest msg_rd_ok "\<lambda>v. v" length "\<lambda>v. True"
proof
  fix s :: "ddmsg \<times> nat" and v r :: "byte list"
  assume ok: "msg_rd_ok s" and eq: "msg_rest s = v @ r"
  have "length (msg_rest s) = tlen (fst s) - snd s" by (simp add: msg_rest_def)
  then have le: "snd s + length v \<le> tlen (fst s)"
    using ok eq unfolding msg_rd_ok_def by (metis length_append le_add_diff_inverse2 nat_add_left_cancel_le
        add.commute le_add1)
  then have g: "PSP_getTypedMsgBuf (length v) (fst s) (snd s) = (Some v, snd s + length v)"
    using ok eq by (simp add: get_typed msg_rd_ok_def msg_rest_def)
  have "drop (snd s + length v) (tbytes (fst s)) = drop (length v) (msg_rest s)"
    by (simp add: msg_rest_def add.commute)
  with g le ok eq show "\<exists>t. msg_rd (length v) s = (Some v, t) \<and> msg_rd_ok t \<and> msg_rest t = r"
    by (intro exI [of _ "(fst s, snd s + length v)"]) (simp add: msg_rd_def msg_rd_ok_def msg_rest_def)
qed

section \<open>Task identifiers read back\<close>

lemma mask32: "(0xffffffff :: 64 word) = mask 32"
  by (simp add: mask_eq_exp_minus_1)

lemma getPID_getTID: "PSC_getPID (PSC_getTID me node pid) = pid"
  unfolding PSC_getPID_def PSC_getTID_def Let_def mask32
  by (rule bit_word_eqI) (auto simp: bit_simps)

lemma getID_getTID: "node \<noteq> -1 \<Longrightarrow> PSC_getID me (PSC_getTID me node pid) = node"
proof -
  assume n: "node \<noteq> -1"
  have "(ucast (signed_drop_bit 32 (PSC_getTID me node pid) AND 0xffffffff) :: nodeid) = node"
    using n unfolding PSC_getTID_def Let_def mask32
    by (intro bit_word_eqI) (auto simp: bit_simps)
  then show ?thesis using n by (simp add: PSC_getID_def)
qed

end
