(* ===== verification/Ser_Data.thy ===== *)
theory Ser_Data
  imports Ps_Msg
begin

text \<open>
  The data buffers of \<open>src/lib/pscommon/psserial.c\<close> and the functions that unpack them.  The memory
  of a buffer is the list of its used bytes (\<open>None\<close> for a NULL pointer); \<open>db_unpack\<close> is the offset of
  \<open>unpackPtr\<close> in it.  \<open>realloc()\<close> may move the memory and leaves \<open>unpackPtr\<close> behind: then it is
  \<open>UStale\<close> until the buffer is rewound, and reading through it is undefined.  Success of an
  allocation is an argument.  NULL tests of arguments that only report an error are left out.
\<close>

section \<open>Types\<close>

datatype PS_DataType =
    PSDATA_STRING | PSDATA_TIME | PSDATA_INT8 | PSDATA_INT16 | PSDATA_INT32 | PSDATA_INT64
  | PSDATA_UINT8 | PSDATA_UINT16 | PSDATA_UINT32 | PSDATA_UINT64 | PSDATA_PID | PSDATA_MEM
  | PSDATA_DOUBLE | PSDATA_DATA

fun type_code :: "PS_DataType \<Rightarrow> byte" where
  "type_code PSDATA_STRING = 3" | "type_code PSDATA_TIME = 4" | "type_code PSDATA_INT8 = 5"
| "type_code PSDATA_INT16 = 6" | "type_code PSDATA_INT32 = 7" | "type_code PSDATA_INT64 = 8"
| "type_code PSDATA_UINT8 = 9" | "type_code PSDATA_UINT16 = 10" | "type_code PSDATA_UINT32 = 11"
| "type_code PSDATA_UINT64 = 12" | "type_code PSDATA_PID = 13" | "type_code PSDATA_MEM = 14"
| "type_code PSDATA_DOUBLE = 15" | "type_code PSDATA_DATA = 16"

datatype serial_err =
    E_PSSERIAL_SUCCESS | E_PSSERIAL_INSUF | E_PSSERIAL_PARAM | E_PSSERIAL_TYPE
  | E_PSSERIAL_BUFSIZE | E_PSSERIAL_MEM | E_PSSERIAL_CONV

datatype uptr = UNull | UOff nat | UStale

record PS_DataBuffer =
  db_buf :: "byte list option"
  db_size :: nat
  db_nextFrag :: uint16
  db_unpack :: uptr
  db_err :: serial_err

text \<open>The flags \<open>byteOrder\<close> and \<open>typeInfo\<close>.\<close>

record sercfg =
  byteOrder :: bool
  typeInfo :: bool

text \<open>What a function that unpacks returns: a value, \<open>false\<close> (or NULL), or nothing defined.\<close>

datatype 'a rd = Got 'a | Bad | Undef

definition DEFAULT_BUFFER_SIZE :: nat where "DEFAULT_BUFFER_SIZE = 128 * 1024"
definition UINT32_MAX :: nat where "UINT32_MAX = 2 ^ 32 - 1"

section \<open>Data buffers\<close>

definition content :: "PS_DataBuffer \<Rightarrow> byte list" where
  "content d = (case db_buf d of None \<Rightarrow> [] | Some b \<Rightarrow> b)"

definition empty_db :: PS_DataBuffer where
  "empty_db = \<lparr>db_buf = None, db_size = 0, db_nextFrag = 0, db_unpack = UNull,
     db_err = E_PSSERIAL_SUCCESS\<rparr>"

definition PSdbNew :: "bool \<Rightarrow> byte list option \<Rightarrow> PS_DataBuffer option" where
  "PSdbNew alloc buffer =
     (if alloc then Some (empty_db\<lparr>db_buf := buffer,
        db_unpack := (case buffer of None \<Rightarrow> UNull | Some b \<Rightarrow> UOff 0),
        db_size := (case buffer of None \<Rightarrow> 0 | Some b \<Rightarrow> length b)\<rparr>)
      else None)"

definition resetBuf :: "PS_DataBuffer \<Rightarrow> PS_DataBuffer" where
  "resetBuf d = empty_db"

definition growDataBuffer :: "bool \<Rightarrow> nat \<Rightarrow> PS_DataBuffer \<Rightarrow> bool \<times> PS_DataBuffer" where
  "growDataBuffer alloc len d0 =
     (let d = (if db_buf d0 = None then resetBuf d0 else d0);
          used = length (content d);
          newLen = (if len \<noteq> 0 then ((used + len - 1) div BufMsgSize + 1) * BufMsgSize
                    else if db_size d \<noteq> 0 then db_size d else BufMsgSize)
      in if newLen > UINT32_MAX then (False, d)
         else if newLen > db_size d then
           (if \<not> alloc then (False, d)
            else (True, d\<lparr>db_buf := Some (content d), db_size := newLen,
              db_unpack := (case db_unpack d of UNull \<Rightarrow> UNull | _ \<Rightarrow> UStale)\<rparr>))
         else (True, d))"

definition memToDataBuffer :: "bool \<Rightarrow> byte list \<Rightarrow> PS_DataBuffer \<Rightarrow> bool \<times> PS_DataBuffer" where
  "memToDataBuffer alloc mem d =
     (case growDataBuffer alloc (length mem) d of
        (False, d1) \<Rightarrow> (False, d1)
      | (True, d1) \<Rightarrow> (True, d1\<lparr>db_buf := Some (content d1 @ mem)\<rparr>))"

definition PSdbGrow :: "bool \<Rightarrow> nat \<Rightarrow> PS_DataBuffer \<Rightarrow> bool \<times> PS_DataBuffer" where
  "PSdbGrow alloc newSize d =
     (if db_size d \<ge> newSize then (True, d)
      else growDataBuffer alloc (newSize - length (content d)) d)"

definition PSdbRewind :: "PS_DataBuffer \<Rightarrow> PS_DataBuffer" where
  "PSdbRewind d = d\<lparr>db_unpack := (case db_buf d of None \<Rightarrow> UNull | Some b \<Rightarrow> UOff 0),
     db_err := E_PSSERIAL_SUCCESS\<rparr>"

definition PSdbClearBuf :: "PS_DataBuffer \<Rightarrow> PS_DataBuffer" where
  "PSdbClearBuf d = PSdbRewind (d\<lparr>db_buf := map_option (\<lambda>b. []) (db_buf d)\<rparr>)"

definition PSdbGetSize :: "PS_DataBuffer \<Rightarrow> nat" where
  "PSdbGetSize d = db_size d"

definition PSdbGetUsed :: "PS_DataBuffer \<Rightarrow> nat" where
  "PSdbGetUsed d = length (content d)"

text \<open>\<open>buf + used - unpackPtr\<close>: for a NULL buffer 0, undefined (here 0) without a valid \<open>unpackPtr\<close>.\<close>

definition PSdbGetAvail :: "PS_DataBuffer \<Rightarrow> nat" where
  "PSdbGetAvail d = (case db_unpack d of UOff k \<Rightarrow> length (content d) - k | _ \<Rightarrow> 0)"

definition PSdbSkip :: "nat \<Rightarrow> PS_DataBuffer \<Rightarrow> unit rd \<times> PS_DataBuffer" where
  "PSdbSkip num d =
     (if db_err d \<noteq> E_PSSERIAL_SUCCESS then (Bad, d)
      else case db_unpack d of
        UOff k \<Rightarrow>
          if num > PSdbGetAvail d then (Bad, d\<lparr>db_err := E_PSSERIAL_INSUF\<rparr>)
          else (Got (), d\<lparr>db_unpack := UOff (k + num)\<rparr>)
      | UNull \<Rightarrow>
          if db_buf d \<noteq> None then (Undef, d)
          else if num > 0 then (Bad, d\<lparr>db_err := E_PSSERIAL_INSUF\<rparr>) else (Got (), d)
      | UStale \<Rightarrow> (Undef, d))"

text \<open>The copy and the original, whose error is set if the copy fails.\<close>

definition PSdbDup ::
  "bool \<Rightarrow> bool \<Rightarrow> PS_DataBuffer \<Rightarrow> PS_DataBuffer option \<times> PS_DataBuffer" where
  "PSdbDup alloc1 alloc2 d =
     (case PSdbNew alloc1 None of
        None \<Rightarrow> (None, d\<lparr>db_err := E_PSSERIAL_MEM\<rparr>)
      | Some dup \<Rightarrow>
          if db_size d = 0 then (Some dup, d)
          else if \<not> alloc2 then (None, d\<lparr>db_err := E_PSSERIAL_MEM\<rparr>)
          else (Some (dup\<lparr>db_buf := Some (content d), db_size := db_size d,
                  db_err := E_PSSERIAL_SUCCESS, db_unpack := UOff 0\<rparr>), d))"

section \<open>Unpacking\<close>

definition verifyTypeInfo :: "sercfg \<Rightarrow> PS_DataType \<Rightarrow> nat \<Rightarrow> PS_DataBuffer \<Rightarrow> bool \<times> nat \<times> PS_DataBuffer" where
  "verifyTypeInfo cfg ty k d =
     (if \<not> typeInfo cfg then (True, k, d)
      else let d1 = d\<lparr>db_unpack := UOff (k + 1)\<rparr>
           in if content d ! k \<noteq> type_code ty
              then (False, k + 1, d1\<lparr>db_err := E_PSSERIAL_TYPE\<rparr>) else (True, k + 1, d1))"

definition verifyDataBuf :: "sercfg \<Rightarrow> nat \<Rightarrow> bool \<Rightarrow> PS_DataBuffer \<Rightarrow> bool \<times> PS_DataBuffer" where
  "verifyDataBuf cfg sz addTypeInfo d =
     (if db_err d \<noteq> E_PSSERIAL_SUCCESS then (False, d)
      else if (if addTypeInfo \<and> typeInfo cfg then 1 + sz else sz) > PSdbGetAvail d
           then (False, d\<lparr>db_err := E_PSSERIAL_INSUF\<rparr>)
      else (True, d))"

text \<open>
  The byte order conversions \<open>ntohs()\<close>, \<open>ntohl()\<close>, \<open>NTOH64()\<close> and their inverses reverse the bytes
  of a number on a little-endian host.
\<close>

definition swappable :: "nat \<Rightarrow> bool" where
  "swappable sz \<longleftrightarrow> sz = 1 \<or> sz = 2 \<or> sz = 4 \<or> sz = 8"

definition getFromBuf ::
  "sercfg \<Rightarrow> PS_DataType \<Rightarrow> nat \<Rightarrow> PS_DataBuffer \<Rightarrow> byte list rd \<times> PS_DataBuffer" where
  "getFromBuf cfg ty sz d =
     (case db_unpack d of
        UNull \<Rightarrow> (Bad, d\<lparr>db_err := E_PSSERIAL_PARAM\<rparr>)
      | UStale \<Rightarrow> (Undef, d)
      | UOff k \<Rightarrow>
          (case verifyDataBuf cfg sz True d of
             (False, d1) \<Rightarrow> (Bad, d1)
           | (True, d1) \<Rightarrow>
               (case verifyTypeInfo cfg ty k d1 of
                  (False, _, d2) \<Rightarrow> (Bad, d2)
                | (True, k', d2) \<Rightarrow>
                    let v = take sz (drop k' (content d2)) in
                    if byteOrder cfg \<and> ty \<noteq> PSDATA_MEM then
                      (if swappable sz then (Got (rev v), d2\<lparr>db_unpack := UOff (k' + sz)\<rparr>)
                       else (Bad, d2\<lparr>db_err := E_PSSERIAL_CONV\<rparr>))
                    else (Got v, d2\<lparr>db_unpack := UOff (k' + sz)\<rparr>))))"

fun get_values ::
  "sercfg \<Rightarrow> PS_DataType \<Rightarrow> nat \<Rightarrow> nat \<Rightarrow> PS_DataBuffer \<Rightarrow> byte list list rd \<times> PS_DataBuffer" where
  "get_values cfg ty sz 0 d = (Got [], d)"
| "get_values cfg ty sz (Suc n) d =
     (case getFromBuf cfg ty sz d of
        (Got v, d1) \<Rightarrow>
          (case get_values cfg ty sz n d1 of
             (Got vs, d2) \<Rightarrow> (Got (v # vs), d2) | (Bad, d2) \<Rightarrow> (Bad, d2) | (Undef, d2) \<Rightarrow> (Undef, d2))
      | (Bad, d1) \<Rightarrow> (Bad, d1) | (Undef, d1) \<Rightarrow> (Undef, d1))"

definition getArrayFromBuf ::
  "sercfg \<Rightarrow> bool \<Rightarrow> PS_DataType \<Rightarrow> nat \<Rightarrow> PS_DataBuffer \<Rightarrow> byte list list rd \<times> PS_DataBuffer" where
  "getArrayFromBuf cfg alloc ty sz d =
     (case getFromBuf cfg PSDATA_UINT32 4 d of
        (Got l, d1) \<Rightarrow>
          if le_nat l = 0 then (Got [], d1)
          else if \<not> alloc then (Bad, d1\<lparr>db_err := E_PSSERIAL_MEM\<rparr>)
          else get_values cfg ty sz (le_nat l) d1
      | (Bad, d1) \<Rightarrow> (Bad, d1) | (Undef, d1) \<Rightarrow> (Undef, d1))"

text \<open>
  \<open>dest\<close> is the size of a buffer the caller provides, \<open>None\<close> where the function allocates one.  A
  string gets a terminating zero in the place of its last byte (an empty one in its first).
\<close>

definition terminate_str :: "PS_DataType \<Rightarrow> byte list \<Rightarrow> byte list" where
  "terminate_str ty v =
     (if ty = PSDATA_STRING then (if v = [] then [0] else butlast v @ [0]) else v)"

definition getMemFromBuf ::
  "sercfg \<Rightarrow> bool \<Rightarrow> nat option \<Rightarrow> PS_DataType \<Rightarrow> PS_DataBuffer \<Rightarrow> byte list rd \<times> PS_DataBuffer" where
  "getMemFromBuf cfg alloc dest ty d =
     (case db_unpack d of
        UNull \<Rightarrow> (Bad, d\<lparr>db_err := E_PSSERIAL_PARAM\<rparr>)
      | UStale \<Rightarrow> (Undef, d)
      | UOff k \<Rightarrow>
          (case verifyDataBuf cfg 4 True d of
             (False, d1) \<Rightarrow> (Bad, d1)
           | (True, d1) \<Rightarrow>
               (case verifyTypeInfo cfg ty k d1 of
                  (False, _, d2) \<Rightarrow> (Bad, d2)
                | (True, k', d2) \<Rightarrow>
                    let raw = take 4 (drop k' (content d2));
                        l = le_nat (if byteOrder cfg then rev raw else raw);
                        d3 = d2\<lparr>db_unpack := UOff (k' + 4)\<rparr>
                    in case verifyDataBuf cfg l False d3 of
                         (False, d4) \<Rightarrow> (Bad, d4)
                       | (True, d4) \<Rightarrow>
                           if (case dest of Some destSize \<Rightarrow> l \<ge> destSize | None \<Rightarrow> False)
                           then (Bad, d4\<lparr>db_err := E_PSSERIAL_BUFSIZE\<rparr>)
                           else if dest = None \<and> \<not> alloc
                           then (Bad, d4\<lparr>db_err := E_PSSERIAL_MEM\<rparr>)
                           else (Got (terminate_str ty (take l (drop (k' + 4) (content d4)))),
                                 d4\<lparr>db_unpack := UOff (k' + 4 + l)\<rparr>))))"

fun get_strings :: "sercfg \<Rightarrow> bool \<Rightarrow> nat \<Rightarrow> PS_DataBuffer \<Rightarrow> byte list list rd \<times> PS_DataBuffer" where
  "get_strings cfg alloc 0 d = (Got [], d)"
| "get_strings cfg alloc (Suc n) d =
     (case getMemFromBuf cfg alloc None PSDATA_STRING d of
        (Got v, d1) \<Rightarrow>
          (case get_strings cfg alloc n d1 of
             (Got vs, d2) \<Rightarrow> (Got (v # vs), d2) | (Bad, d2) \<Rightarrow> (Bad, d2) | (Undef, d2) \<Rightarrow> (Undef, d2))
      | (Bad, d1) \<Rightarrow> (Bad, d1) | (Undef, d1) \<Rightarrow> (Undef, d1))"

definition getStringArrayM ::
  "sercfg \<Rightarrow> bool \<Rightarrow> PS_DataBuffer \<Rightarrow> byte list list rd \<times> PS_DataBuffer" where
  "getStringArrayM cfg alloc d =
     (case getFromBuf cfg PSDATA_UINT32 4 d of
        (Got l, d1) \<Rightarrow>
          if le_nat l = 0 then (Got [], d1)
          else if \<not> alloc then (Bad, d1\<lparr>db_err := E_PSSERIAL_MEM\<rparr>)
          else get_strings cfg alloc (le_nat l) d1
      | (Bad, d1) \<Rightarrow> (Bad, d1) | (Undef, d1) \<Rightarrow> (Undef, d1))"

end
