(* ===== verification/Ser_Send.thy ===== *)
theory Ser_Send
  imports Ser_Data
begin

text \<open>
  The sending and receiving half of \<open>src/lib/pscommon/psserial.c\<close>: adding values to a send buffer,
  cutting a message into fragments, and collecting the fragments of a sender again.  The static
  variables of the file are the record \<open>ser\<close>; results of allocations and of the function that sends
  a message come from scripts (an empty script means success); the messages handed to it are
  collected in \<open>sent\<close>.
\<close>

section \<open>State\<close>

record PS_SendDB =
  sd_buf :: bool
  bufUsed :: nat
  useFrag :: bool
  headType :: int16
  msgType :: int32
  fragNum :: uint16
  numDest :: nat
  extra :: "byte list"

record ser =
  s_cfg :: sercfg
  sendBuf :: "memory option"
  sendBufLen :: nat
  destTIDs :: "taskid list option"
  fragMsg :: ddmsg
  sendPSMsg :: bool
  recvBufs :: "(taskid \<times> PS_DataBuffer) list"
  activeUsers :: int
  s_myID :: nodeid
  s_myTID :: taskid
  s_numNodes :: nodeid
  memq :: "bool list"
  sendres :: "bool list"
  sent :: "ddmsg list"

definition FRAGMENT_PART :: byte where "FRAGMENT_PART = 1"
definition FRAGMENT_END :: byte where "FRAGMENT_END = 2"

definition alloc_mem :: "ser \<Rightarrow> bool \<times> ser" where
  "alloc_mem s = (case memq s of [] \<Rightarrow> (True, s) | b # bs \<Rightarrow> (b, s\<lparr>memq := bs\<rparr>))"

section \<open>Initialisation\<close>

definition initSerialBuf :: "nat \<Rightarrow> ser \<Rightarrow> bool \<times> ser" where
  "initSerialBuf bufSize s =
     (if sendBuf s \<noteq> None then (True, s)
      else let (ok, s1) = alloc_mem (s\<lparr>sendBufLen := (if bufSize \<noteq> 0 then bufSize else DEFAULT_BUFFER_SIZE)\<rparr>)
           in if ok then (True, s1\<lparr>sendBuf := Some (\<lambda>_. 0)\<rparr>) else (False, s1))"

text \<open>
  \<open>initSerial\<close> returns the number of users before the call where there are some, so callers after
  the first get \<open>true\<close>.  The last two allocations are the destinations and the receive buffers.
\<close>

definition initSerial :: "nat \<Rightarrow> bool \<Rightarrow> ser \<Rightarrow> bool \<times> ser" where
  "initSerial bufSize func s =
     (if activeUsers s \<noteq> 0 then (True, s\<lparr>activeUsers := activeUsers s + 1\<rparr>)
      else if s_numNodes s = -1 then (False, s)
      else
        case initSerialBuf bufSize s of
          (False, s1) \<Rightarrow> (False, s1)
        | (True, s1) \<Rightarrow>
            let (ok, s2) = alloc_mem s1 in
            if \<not> ok then (False, s2\<lparr>sendBuf := None, destTIDs := None\<rparr>)
            else
              let s3 = s2\<lparr>destTIDs := Some (replicate (unat (s_numNodes s)) 0), sendPSMsg := func\<rparr>;
                  (ok2, s4) = alloc_mem s3
              in if \<not> ok2 then (False, s4\<lparr>sendBuf := None, destTIDs := None\<rparr>)
                 else (True, s4\<lparr>activeUsers := activeUsers s4 + 1\<rparr>))"

definition clearMem :: "ser \<Rightarrow> ser" where
  "clearMem s = s\<lparr>sendBuf := None, sendBufLen := 0, destTIDs := None, recvBufs := [],
     activeUsers := 0, sendPSMsg := False\<rparr>"

definition finalizeSerial :: "ser \<Rightarrow> ser" where
  "finalizeSerial s =
     (let s1 = s\<lparr>activeUsers := activeUsers s - 1\<rparr> in
      if activeUsers s1 \<noteq> 0 then s1 else clearMem s1)"

definition initFragBufferExtra :: "int16 \<Rightarrow> int32 \<Rightarrow> byte list \<Rightarrow> PS_SendDB \<Rightarrow> PS_SendDB" where
  "initFragBufferExtra ht mt ex b =
     b\<lparr>useFrag := True, bufUsed := 0, headType := ht, msgType := mt, fragNum := 0, numDest := 0,
       extra := ex\<rparr>"

definition setFragDest :: "taskid \<Rightarrow> PS_SendDB \<Rightarrow> ser \<Rightarrow> bool \<times> PS_SendDB \<times> ser" where
  "setFragDest tid b s =
     (case destTIDs s of
        None \<Rightarrow> (False, b, s)
      | Some ds \<Rightarrow>
          if int (numDest b) \<ge> sint (s_numNodes s) then (False, b, s)
          else if \<not> PSC_validNode (s_numNodes s) (PSC_getID (s_myID s) tid) then (False, b, s)
          else (True, b\<lparr>numDest := numDest b + 1\<rparr>, s\<lparr>destTIDs := Some (ds[numDest b := tid])\<rparr>))"

definition setFragDestUniq :: "taskid \<Rightarrow> PS_SendDB \<Rightarrow> ser \<Rightarrow> bool \<times> PS_SendDB \<times> ser" where
  "setFragDestUniq tid b s =
     (case destTIDs s of
        None \<Rightarrow> (False, b, s)
      | Some ds \<Rightarrow>
          if tid \<in> set (take (numDest b) ds) then (False, b, s) else setFragDest tid b s)"

section \<open>Sending a fragment\<close>

text \<open>Hand \<open>fragMsg\<close> to the send function; false for an error other than \<open>EWOULDBLOCK\<close>.\<close>

definition send_to :: "taskid \<Rightarrow> ser \<Rightarrow> bool \<times> ser" where
  "send_to d s =
     (let s1 = s\<lparr>fragMsg := (fragMsg s)\<lparr>m_dest := d\<rparr>, sent := sent s @ [(fragMsg s)\<lparr>m_dest := d\<rparr>]\<rparr>
      in case sendres s1 of [] \<Rightarrow> (True, s1) | r # rs \<Rightarrow> (r, s1\<lparr>sendres := rs\<rparr>))"

text \<open>The loop over the destinations keeps the last local one for the end (-1 if none).\<close>

fun send_remote :: "taskid list \<Rightarrow> bool \<Rightarrow> taskid \<Rightarrow> ser \<Rightarrow> bool \<times> taskid \<times> ser" where
  "send_remote [] ret localDest s = (ret, localDest, s)"
| "send_remote (d # ds) ret localDest s =
     (if PSC_getID (s_myID s) d = s_myID s then send_remote ds ret d s
      else let (ok, s1) = send_to d s in send_remote ds (ret \<and> ok) localDest s1)"

definition sendFragment :: "PS_SendDB \<Rightarrow> ser \<Rightarrow> bool \<times> ser" where
  "sendFragment b s =
     (if numDest b = 0 then (False, s)
      else if \<not> sendPSMsg s then (False, s)
      else
        let (ret, localDest, s1) =
              send_remote (take (numDest b) (case destTIDs s of None \<Rightarrow> [] | Some ds \<Rightarrow> ds)) True (-1) s
        in if localDest \<noteq> -1 then (let (ok, s2) = send_to localDest s1 in (ret \<and> ok, s2))
           else (ret, s1))"

definition put_frag :: "byte list \<Rightarrow> ser \<Rightarrow> ser" where
  "put_frag d s = s\<lparr>fragMsg := snd (PSP_putTypedMsgBuf d (fragMsg s))\<rparr>"

definition setupFragMsg :: "PS_SendDB \<Rightarrow> ser \<Rightarrow> ser" where
  "setupFragMsg b s =
     (let s1 = s\<lparr>fragMsg := (fragMsg s)\<lparr>m_type := headType b, m_len := 0, m_sender := s_myTID s,
                   m_subtype := msgType b\<rparr>\<rparr>;
          s2 = put_frag [FRAGMENT_PART] s1;
          s3 = put_frag (le_bytes 2 (unat (fragNum b))) s2;
          s4 = put_frag [of_nat (length (extra b))] s3
      in if length (extra b) \<noteq> 0 then put_frag (extra b) s4 else s4)"

definition sendFragMsg :: "PS_SendDB \<Rightarrow> ser \<Rightarrow> int \<times> ser" where
  "sendFragMsg b s =
     (if sendBuf s = None then (-1, s)
      else
        let s1 = (if bufUsed b = 0 then setupFragMsg b s else s);
            s2 = s1\<lparr>fragMsg := (fragMsg s1)\<lparr>m_buf := (m_buf (fragMsg s1))(4 := FRAGMENT_END)\<rparr>\<rparr>;
            (ok, s3) = sendFragment b s2
        in if ok then (int (bufUsed b), s3) else (-1, s3))"

section \<open>Adding data\<close>

definition next_frag :: "uint16 \<Rightarrow> uint16" where
  "next_frag k = (if k + 1 = 0 then 1 else k + 1)"

text \<open>
  One round of the loop of \<open>addFragmentedData\<close>: the data that is left, the buffer and the state.
  A filled fragment is sent and the next one set up.
\<close>

definition add_frag_step :: "byte list \<Rightarrow> PS_SendDB \<Rightarrow> ser \<Rightarrow> byte list \<times> PS_SendDB \<times> ser" where
  "add_frag_step data b s =
     (let off = m_len (fragMsg s) - DDTypedBufMsgOffset;
          chunkLeft = BufTypedMsgSize - off;
          tocopy = (if length data > chunkLeft then chunkLeft else length data);
          s1 = put_frag (take tocopy data) s;
          b1 = b\<lparr>bufUsed := bufUsed b + tocopy\<rparr>;
          b2 = b1\<lparr>fragNum := next_frag (fragNum b1)\<rparr>
      in if chunkLeft - tocopy = 0
         then (drop tocopy data, b2, setupFragMsg b2 (snd (sendFragment b1 s1)))
         else (drop tocopy data, b1, s1))"

text \<open>
  The loop with fuel; every round takes at least one byte, so the length of the data is enough
  (lemma \<open>add_frag_loop_spec\<close>).
\<close>

primrec add_frag_loop ::
  "nat \<Rightarrow> byte list \<Rightarrow> PS_SendDB \<Rightarrow> ser \<Rightarrow> byte list \<times> PS_SendDB \<times> ser" where
  "add_frag_loop 0 data b s = (data, b, s)"
| "add_frag_loop (Suc fuel) data b s =
     (if data = [] then ([], b, s)
      else case add_frag_step data b s of (rest, b1, s1) \<Rightarrow> add_frag_loop fuel rest b1 s1)"

definition addFragmentedData :: "byte list \<Rightarrow> PS_SendDB \<Rightarrow> ser \<Rightarrow> PS_SendDB \<times> ser" where
  "addFragmentedData data b s =
     snd (add_frag_loop (length data) data b (if bufUsed b = 0 then setupFragMsg b s else s))"

definition roundup :: "nat \<Rightarrow> nat \<Rightarrow> nat" where
  "roundup x y = ((x + (y - 1)) div y) * y"

definition addData :: "byte list \<Rightarrow> PS_SendDB \<Rightarrow> ser \<Rightarrow> bool \<times> PS_SendDB \<times> ser" where
  "addData data b s =
     (if useFrag b then (let (b1, s1) = addFragmentedData data b s in (True, b1, s1))
      else
        let b0 = (if \<not> sd_buf b then b\<lparr>bufUsed := 0\<rparr> else b);
            need = bufUsed b0 + length data;
            (ok, s1) = (if need > sendBufLen s
                        then (let (a, s') = alloc_mem s
                              in (a, if a then s'\<lparr>sendBufLen := roundup need DEFAULT_BUFFER_SIZE\<rparr> else s'))
                        else (True, s))
        in if \<not> ok then (False, b0, s1)
           else (True, b0\<lparr>bufUsed := need, sd_buf := True\<rparr>,
                 s1\<lparr>sendBuf := map_option (put_bytes (bufUsed b0) data) (sendBuf s1)\<rparr>))"

definition hasLen :: "PS_DataType \<Rightarrow> bool" where
  "hasLen ty \<longleftrightarrow> ty = PSDATA_STRING \<or> ty = PSDATA_DATA"

text \<open>The bytes of a value as they are added: converted where the size is one of an integer.\<close>

definition len_bytes :: "sercfg \<Rightarrow> nat \<Rightarrow> byte list" where
  "len_bytes cfg n = (if byteOrder cfg then rev (le_bytes 4 n) else le_bytes 4 n)"

definition val_bytes :: "sercfg \<Rightarrow> PS_DataType \<Rightarrow> byte list \<Rightarrow> byte list" where
  "val_bytes cfg ty v =
     (if byteOrder cfg \<and> \<not> hasLen ty \<and> ty \<noteq> PSDATA_MEM
      then (if swappable (length v) then rev v else v) else v)"

definition addToBuf ::
  "byte list option \<Rightarrow> PS_DataType \<Rightarrow> PS_SendDB \<Rightarrow> ser \<Rightarrow> bool \<times> PS_SendDB \<times> ser" where
  "addToBuf val ty b s =
     (if val = None \<and> \<not> hasLen ty then (False, b, s)
      else if sendBuf s = None then (False, b, s)
      else
        let v = (case val of None \<Rightarrow> [] | Some v \<Rightarrow> v) in
        case (if typeInfo (s_cfg s) then addData [type_code ty] b s else (True, b, s)) of
          (False, b1, s1) \<Rightarrow> (False, b1, s1)
        | (True, b1, s1) \<Rightarrow>
            (case (if hasLen ty then addData (len_bytes (s_cfg s) (length v)) b1 s1 else (True, b1, s1)) of
               (False, b2, s2) \<Rightarrow> (False, b2, s2)
             | (True, b2, s2) \<Rightarrow> addData (val_bytes (s_cfg s) ty v) b2 s2))"

fun add_values :: "byte list list \<Rightarrow> PS_DataType \<Rightarrow> PS_SendDB \<Rightarrow> ser \<Rightarrow> PS_SendDB \<times> ser" where
  "add_values [] ty b s = (b, s)"
| "add_values (v # vs) ty b s = (let (ok, b1, s1) = addToBuf (Some v) ty b s in add_values vs ty b1 s1)"

definition addArrayToBuf ::
  "byte list list \<Rightarrow> PS_DataType \<Rightarrow> PS_SendDB \<Rightarrow> ser \<Rightarrow> bool \<times> PS_SendDB \<times> ser" where
  "addArrayToBuf vs ty b s =
     (case addToBuf (Some (le_bytes 4 (length vs))) PSDATA_UINT32 b s of
        (False, b1, s1) \<Rightarrow> (False, b1, s1)
      | (True, b1, s1) \<Rightarrow> (True, add_values vs ty b1 s1))"

text \<open>A string array holds the bytes of its strings without the terminating zero.\<close>

fun add_strings :: "byte list list \<Rightarrow> PS_SendDB \<Rightarrow> ser \<Rightarrow> bool \<times> PS_SendDB \<times> ser" where
  "add_strings [] b s = (True, b, s)"
| "add_strings (v # vs) b s =
     (case addToBuf (Some (v @ [0])) PSDATA_STRING b s of
        (False, b1, s1) \<Rightarrow> (False, b1, s1) | (True, b1, s1) \<Rightarrow> add_strings vs b1 s1)"

definition addStringArrayToBuf ::
  "byte list list option \<Rightarrow> PS_SendDB \<Rightarrow> ser \<Rightarrow> bool \<times> PS_SendDB \<times> ser" where
  "addStringArrayToBuf arr b s =
     (let vs = (case arr of None \<Rightarrow> [] | Some a \<Rightarrow> a) in
      case addToBuf (Some (le_bytes 4 (length vs))) PSDATA_UINT32 b s of
        (False, b1, s1) \<Rightarrow> (False, b1, s1)
      | (True, b1, s1) \<Rightarrow> add_strings vs b1 s1)"

definition addDBToBuf :: "PS_DataBuffer \<Rightarrow> PS_SendDB \<Rightarrow> ser \<Rightarrow> bool \<times> PS_SendDB \<times> ser" where
  "addDBToBuf d b s =
     (if sendBuf s = None then (False, b, s)
      else if content d = [] then (True, b, s)
      else addToBuf (Some (content d)) PSDATA_MEM b s)"

section \<open>Receiving\<close>

text \<open>
  \<open>fetchFragHeader\<close>: fragment type and number, the size of the extra data and the bytes used.  The
  result of reading the size is not checked; \<open>None\<close> for the size stands for the uninitialised
  variable the code then goes on with.
\<close>

definition fetchFragHeader :: "ddmsg \<Rightarrow> (byte \<times> uint16 \<times> nat option \<times> nat) option" where
  "fetchFragHeader msg =
     (case PSP_getTypedMsgBuf 1 msg 0 of
        (None, _) \<Rightarrow> None
      | (Some ty, u1) \<Rightarrow>
          (case PSP_getTypedMsgBuf 2 msg u1 of
             (None, _) \<Rightarrow> None
           | (Some num, u2) \<Rightarrow>
               (case PSP_getTypedMsgBuf 1 msg u2 of
                  (None, _) \<Rightarrow> Some (hd ty, of_nat (le_nat num), None, u2)
                | (Some es, u3) \<Rightarrow>
                    Some (hd ty, of_nat (le_nat num), Some (unat (hd es)), u3 + unat (hd es)))))"

definition findRecvBuf :: "taskid \<Rightarrow> ser \<Rightarrow> PS_DataBuffer option" where
  "findRecvBuf tid s = map_of (recvBufs s) tid"

fun upd_assoc :: "'k \<Rightarrow> 'v \<Rightarrow> ('k \<times> 'v) list \<Rightarrow> ('k \<times> 'v) list" where
  "upd_assoc k v [] = []"
| "upd_assoc k v ((k', v') # xs) = (if k' = k then (k, v) # xs else (k', v') # upd_assoc k v xs)"

fun del_assoc :: "'k \<Rightarrow> ('k \<times> 'v) list \<Rightarrow> ('k \<times> 'v) list" where
  "del_assoc k [] = []"
| "del_assoc k ((k', v') # xs) = (if k' = k then xs else (k', v') # del_assoc k xs)"

definition set_recv :: "taskid \<Rightarrow> PS_DataBuffer \<Rightarrow> ser \<Rightarrow> ser" where
  "set_recv tid d s = s\<lparr>recvBufs := upd_assoc tid d (recvBufs s)\<rparr>"

definition putRecvBuf :: "taskid \<Rightarrow> ser \<Rightarrow> ser" where
  "putRecvBuf tid s = s\<lparr>recvBufs := del_assoc tid (recvBufs s)\<rparr>"

definition nodeDownHandler :: "nodeid \<Rightarrow> ser \<Rightarrow> ser" where
  "nodeDownHandler node s =
     (if \<not> PSC_validNode (s_numNodes s) node then s
      else s\<lparr>recvBufs := filter (\<lambda>(tid, d). PSC_getID (s_myID s) tid \<noteq> node) (recvBufs s)\<rparr>)"

text \<open>
  What handling a fragment gives: \<open>false\<close>, nothing yet, or the whole message, which goes to the
  callback.  \<open>RvUndef\<close> stands for undefined behaviour: the code reads and writes out of bounds, and
  the state that comes with it has no meaning, so that no run goes on from there.
\<close>

datatype rcv = RvFail | RvMore | RvDone "byte list" | RvUndef

text \<open>The receive buffer of the sender: found, or taken from the pool and appended.\<close>

definition active_buf :: "taskid \<Rightarrow> ser \<Rightarrow> PS_DataBuffer option \<times> ser" where
  "active_buf tid s =
     (case findRecvBuf tid s of
        Some d \<Rightarrow> (Some d, s)
      | None \<Rightarrow>
          let (ok, s1) = alloc_mem s in
          if ok then (Some empty_db, s1\<lparr>recvBufs := recvBufs s1 @ [(tid, empty_db)]\<rparr>) else (None, s1))"

text \<open>Fragment 0 starts the buffer afresh.\<close>

definition start_buf :: "taskid \<Rightarrow> uint16 \<Rightarrow> PS_DataBuffer \<Rightarrow> ser \<Rightarrow> PS_DataBuffer option \<times> ser" where
  "start_buf tid num d s =
     (if num \<noteq> 0 then (Some d, s)
      else
        let (ok, s1) = alloc_mem s in
        if ok then (Some ((resetBuf d)\<lparr>db_size := DEFAULT_BUFFER_SIZE, db_buf := Some []\<rparr>), s1)
        else (None, putRecvBuf tid s1))"

text \<open>The payload is appended, after doubling the buffer if it does not fit.\<close>

definition append_frag :: "taskid \<Rightarrow> byte list \<Rightarrow> PS_DataBuffer \<Rightarrow> ser \<Rightarrow> PS_DataBuffer option \<times> ser" where
  "append_frag tid p d s =
     (let (ok, s1) = (if length (content d) + length p > db_size d then alloc_mem s else (True, s));
          d1 = (if length (content d) + length p > db_size d then d\<lparr>db_size := 2 * db_size d\<rparr> else d)
      in if \<not> ok then (None, putRecvBuf tid s1)
         else let d2 = d1\<lparr>db_buf := Some (content d1 @ p), db_nextFrag := next_frag (db_nextFrag d1)\<rparr>
              in (Some d2, set_recv tid d2 s1))"

text \<open>
  A message that is shorter than its header says by \<open>k\<close> bytes (or that ends before the size of the
  extra data, which is then read uninitialised): \<open>toCopy\<close> wraps to \<open>2 ^ 64 - k\<close>.  With fewer than
  \<open>k\<close> bytes in the buffer its sum with \<open>used\<close> is large, and the buffer is reallocated first; the test in
  \<open>PSP_getTypedMsgBuf\<close> passes, since the sum wraps back, and \<open>2 ^ 64 - k\<close> bytes are copied.
\<close>

definition is_short :: "nat option \<Rightarrow> nat \<Rightarrow> ddmsg \<Rightarrow> bool" where
  "is_short es used msg \<longleftrightarrow> es = None \<or> m_len msg < DDTypedBufMsgOffset + used"

definition append_short :: "taskid \<Rightarrow> nat option \<Rightarrow> nat \<Rightarrow> PS_DataBuffer \<Rightarrow> ser \<Rightarrow> rcv \<times> ser" where
  "append_short tid es k d s =
     (if es = None \<or> k \<le> length (content d) then (RvUndef, s)
      else let (ok, s1) = alloc_mem s in if ok then (RvUndef, s1) else (RvFail, putRecvBuf tid s1))"

definition recvFragMsg :: "ddmsg \<Rightarrow> ser \<Rightarrow> rcv \<times> ser" where
  "recvFragMsg msg s =
     (case fetchFragHeader msg of
        None \<Rightarrow> (RvFail, s)
      | Some (ty, num, es, used) \<Rightarrow>
          if ty \<noteq> FRAGMENT_PART \<and> ty \<noteq> FRAGMENT_END then (RvFail, s)
          else
            let tid = m_sender msg;
                short = is_short es used msg;
                p = get_bytes (4 + used) (m_len msg - DDTypedBufMsgOffset - used) (m_buf msg)
            in if ty = FRAGMENT_END \<and> num = 0 then (if short then RvUndef else RvDone p, s)
               else if sendBuf s = None then (RvFail, s)
               else if num \<noteq> (case findRecvBuf tid s of None \<Rightarrow> 0 | Some d \<Rightarrow> db_nextFrag d) \<and> num \<noteq> 0
                    then (RvFail, s)
               else
                 (case active_buf tid s of
                    (None, s1) \<Rightarrow> (RvFail, s1)
                  | (Some d, s1) \<Rightarrow>
                      (case start_buf tid num d s1 of
                         (None, s2) \<Rightarrow> (RvFail, s2)
                       | (Some d1, s2) \<Rightarrow>
                           if short then append_short tid es (DDTypedBufMsgOffset + used - m_len msg) d1 s2
                           else
                             (case append_frag tid p d1 s2 of
                                (None, s3) \<Rightarrow> (RvFail, s3)
                              | (Some d2, s3) \<Rightarrow>
                                  if ty = FRAGMENT_END
                                  then (RvDone (content d2), if num \<noteq> 0 then putRecvBuf tid s3 else s3)
                                  else (RvMore, s3)))))"

text \<open>The messages that lead there.\<close>

definition short_frag :: "ddmsg \<Rightarrow> bool" where
  "short_frag msg \<longleftrightarrow> (case fetchFragHeader msg of None \<Rightarrow> False | Some (ty, num, es, used) \<Rightarrow> is_short es used msg)"

end
