(* ===== verification/Ser_Pack.thy ===== *)
theory Ser_Pack
  imports Ser_Send
begin

text \<open>
  Packing and unpacking.  Whatever way a send buffer keeps its data, \<open>addToBuf\<close> appends the
  encoding \<open>enc_item\<close> of the item (locale \<open>byte_sink\<close>, interpreted for the buffer without
  fragments here and for fragments in \<open>Ser_Frag\<close>), and the functions that unpack read the items
  back (\<open>byte_reader\<close>, interpreted on the data buffers).
\<close>

type_synonym item = "PS_DataType \<times> byte list"

definition enc_item :: "sercfg \<Rightarrow> item \<Rightarrow> byte list" where
  "enc_item cfg i = (case i of (ty, v) \<Rightarrow>
     (if typeInfo cfg then [type_code ty] else [])
     @ (if hasLen ty then len_bytes cfg (length v) else []) @ val_bytes cfg ty v)"

section \<open>Sinks\<close>

text \<open>
  \<open>holds data b s\<close>: what was added to the buffer so far is \<open>data\<close>.  The law of \<open>addData\<close> is all a
  client needs.
\<close>

locale byte_sink =
  fixes holds :: "sercfg \<Rightarrow> byte list \<Rightarrow> PS_SendDB \<Rightarrow> ser \<Rightarrow> bool"
  assumes addData_law: "holds cfg data b s \<Longrightarrow>
      \<exists>b' s'. addData d b s = (True, b', s') \<and> holds cfg (data @ d) b' s'"
    and holds_cfg: "holds cfg data b s \<Longrightarrow> s_cfg s = cfg \<and> sendBuf s \<noteq> None"
begin

lemma addData_if:
  assumes "holds cfg data b s"
  shows "\<exists>b' s'. (if c then addData d b s else (True, b, s)) = (True, b', s')
     \<and> holds cfg (data @ (if c then d else [])) b' s'"
  using addData_law [OF assms, of d] assms by (cases c) auto

lemma addToBuf_law:
  assumes h: "holds cfg data b s"
  shows "\<exists>b' s'. addToBuf (Some v) ty b s = (True, b', s') \<and> holds cfg (data @ enc_item cfg (ty, v)) b' s'"
proof -
  have c: "s_cfg s = cfg" "sendBuf s \<noteq> None" using holds_cfg [OF h] by auto
  let ?t = "if typeInfo cfg then [type_code ty] else []"
  let ?l = "if hasLen ty then len_bytes cfg (length v) else []"
  obtain b1 s1 where 1: "(if typeInfo cfg then addData [type_code ty] b s else (True, b, s)) = (True, b1, s1)"
    "holds cfg (data @ ?t) b1 s1"
    using addData_if [OF h, of "typeInfo cfg" "[type_code ty]"] by blast
  obtain b2 s2 where 2: "(if hasLen ty then addData (len_bytes cfg (length v)) b1 s1 else (True, b1, s1)) = (True, b2, s2)"
    "holds cfg ((data @ ?t) @ ?l) b2 s2"
    using addData_if [OF 1(2), of "hasLen ty" "len_bytes cfg (length v)"] by blast
  obtain b3 s3 where 3: "addData (val_bytes cfg ty v) b2 s2 = (True, b3, s3)"
    "holds cfg (((data @ ?t) @ ?l) @ val_bytes cfg ty v) b3 s3"
    using addData_law [OF 2(2)] by blast
  have "addToBuf (Some v) ty b s = (True, b3, s3)"
    using c(2) unfolding addToBuf_def Let_def c(1) option.case 1(1) prod.case bool.case 2(1) 3(1)
    by simp
  then show ?thesis using 3(2) by (simp add: enc_item_def)
qed

end

fun add_items :: "item list \<Rightarrow> PS_SendDB \<Rightarrow> ser \<Rightarrow> PS_SendDB \<times> ser" where
  "add_items [] b s = (b, s)"
| "add_items ((ty, v) # is) b s = (case addToBuf (Some v) ty b s of (_, b1, s1) \<Rightarrow> add_items is b1 s1)"

context byte_sink
begin

lemma add_items_law:
  assumes "holds cfg data b s"
  shows "\<exists>b' s'. add_items is b s = (b', s') \<and> holds cfg (data @ concat (map (enc_item cfg) is)) b' s'"
  using assms
proof (induction "is" arbitrary: data b s)
  case (Cons i "is")
  obtain ty v where i: "i = (ty, v)" by fastforce
  from addToBuf_law [OF Cons.prems, of v ty]
  obtain b1 s1 where 1: "addToBuf (Some v) ty b s = (True, b1, s1)"
    "holds cfg (data @ enc_item cfg (ty, v)) b1 s1" by blast
  from Cons.IH [OF 1(2)] show ?case by (simp add: i 1(1))
qed simp

lemma add_values_law:
  assumes "holds cfg data b s"
  shows "\<exists>b' s'. add_values vs ty b s = (b', s')
     \<and> holds cfg (data @ concat (map (\<lambda>v. enc_item cfg (ty, v)) vs)) b' s'"
  using assms
proof (induction vs arbitrary: data b s)
  case (Cons v vs)
  from addToBuf_law [OF Cons.prems, of v ty]
  obtain b1 s1 where 1: "addToBuf (Some v) ty b s = (True, b1, s1)"
    "holds cfg (data @ enc_item cfg (ty, v)) b1 s1" by blast
  from Cons.IH [OF 1(2)] show ?case by (auto simp: 1(1))
qed simp

lemma addArrayToBuf_law:
  assumes "holds cfg data b s"
  shows "\<exists>b' s'. addArrayToBuf vs ty b s = (True, b', s')
     \<and> holds cfg (data @ enc_item cfg (PSDATA_UINT32, le_bytes 4 (length vs))
         @ concat (map (\<lambda>v. enc_item cfg (ty, v)) vs)) b' s'"
proof -
  from addToBuf_law [OF assms, of "le_bytes 4 (length vs)" PSDATA_UINT32]
  obtain b1 s1 where 1: "addToBuf (Some (le_bytes 4 (length vs))) PSDATA_UINT32 b s = (True, b1, s1)"
    "holds cfg (data @ enc_item cfg (PSDATA_UINT32, le_bytes 4 (length vs))) b1 s1" by blast
  from add_values_law [OF 1(2), of vs ty] show ?thesis by (auto simp: addArrayToBuf_def 1(1))
qed

lemma add_strings_law:
  assumes "holds cfg data b s"
  shows "\<exists>b' s'. add_strings vs b s = (True, b', s')
     \<and> holds cfg (data @ concat (map (\<lambda>v. enc_item cfg (PSDATA_STRING, v @ [0])) vs)) b' s'"
  using assms
proof (induction vs arbitrary: data b s)
  case (Cons v vs)
  from addToBuf_law [OF Cons.prems, of "v @ [0]" PSDATA_STRING]
  obtain b1 s1 where 1: "addToBuf (Some (v @ [0])) PSDATA_STRING b s = (True, b1, s1)"
    "holds cfg (data @ enc_item cfg (PSDATA_STRING, v @ [0])) b1 s1" by blast
  from Cons.IH [OF 1(2)] show ?case by (auto simp: 1(1))
qed simp

lemma addStringArrayToBuf_law:
  assumes "holds cfg data b s"
  shows "\<exists>b' s'. addStringArrayToBuf (Some vs) b s = (True, b', s')
     \<and> holds cfg (data @ enc_item cfg (PSDATA_UINT32, le_bytes 4 (length vs))
         @ concat (map (\<lambda>v. enc_item cfg (PSDATA_STRING, v @ [0])) vs)) b' s'"
proof -
  from addToBuf_law [OF assms, of "le_bytes 4 (length vs)" PSDATA_UINT32]
  obtain b1 s1 where 1: "addToBuf (Some (le_bytes 4 (length vs))) PSDATA_UINT32 b s = (True, b1, s1)"
    "holds cfg (data @ enc_item cfg (PSDATA_UINT32, le_bytes 4 (length vs))) b1 s1" by blast
  from add_strings_law [OF 1(2), of vs] show ?thesis by (auto simp: addStringArrayToBuf_def 1(1))
qed

end

section \<open>The buffer without fragments\<close>

definition nofrag_holds :: "sercfg \<Rightarrow> byte list \<Rightarrow> PS_SendDB \<Rightarrow> ser \<Rightarrow> bool" where
  "nofrag_holds cfg data b s \<longleftrightarrow> s_cfg s = cfg \<and> \<not> useFrag b \<and> memq s = []
     \<and> (case sendBuf s of None \<Rightarrow> False
        | Some m \<Rightarrow> data = (if sd_buf b then get_bytes 0 (bufUsed b) m else []))"

lemma addData_nofrag:
  assumes "nofrag_holds cfg data b s"
  shows "\<exists>b' s'. addData d b s = (True, b', s') \<and> nofrag_holds cfg (data @ d) b' s'"
proof -
  from assms obtain m where m: "sendBuf s = Some m"
    and data: "data = (if sd_buf b then get_bytes 0 (bufUsed b) m else [])"
    by (auto simp: nofrag_holds_def split: option.splits)
  define u where "u = (if sd_buf b then bufUsed b else 0)"
  have d: "data = get_bytes 0 u m" using data by (simp add: u_def get_bytes_def)
  have g: "get_bytes 0 (u + length d) (put_bytes u d m) = data @ d"
    unfolding d by (rule get_put_append) simp_all
  show ?thesis
    using assms m g
    by (auto simp: addData_def Let_def nofrag_holds_def alloc_mem_def u_def)
qed

interpretation nofrag: byte_sink nofrag_holds
  by unfold_locales (auto simp: addData_nofrag, auto simp: nofrag_holds_def split: option.splits)

section \<open>Reading the items back\<close>

definition ser_rest :: "PS_DataBuffer \<Rightarrow> byte list" where
  "ser_rest d = (case db_unpack d of UOff k \<Rightarrow> drop k (content d) | _ \<Rightarrow> [])"

definition ser_ok :: "PS_DataBuffer \<Rightarrow> bool" where
  "ser_ok d \<longleftrightarrow> db_err d = E_PSSERIAL_SUCCESS
     \<and> (case db_unpack d of UOff k \<Rightarrow> k \<le> length (content d) | _ \<Rightarrow> False)"

definition item_rd :: "sercfg \<Rightarrow> PS_DataType \<times> nat \<Rightarrow> PS_DataBuffer \<Rightarrow> item option \<times> PS_DataBuffer" where
  "item_rd cfg k d = (case k of (ty, n) \<Rightarrow>
     (case (if hasLen ty then getMemFromBuf cfg True None ty d else getFromBuf cfg ty n d) of
        (Got v, d1) \<Rightarrow> (Some (ty, v), d1) | (_, d1) \<Rightarrow> (None, d1)))"

definition item_kind :: "item \<Rightarrow> PS_DataType \<times> nat" where
  "item_kind i = (fst i, length (snd i))"

text \<open>
  Items that can be read back: strings end with their zero, numbers have a size there is a
  conversion for (if the byte order is converted).
\<close>

definition item_ok :: "sercfg \<Rightarrow> item \<Rightarrow> bool" where
  "item_ok cfg i \<longleftrightarrow> (case i of (ty, v) \<Rightarrow>
     (hasLen ty \<longrightarrow> length v < 2 ^ 32) \<and> (ty = PSDATA_STRING \<longrightarrow> v \<noteq> [] \<and> last v = 0)
     \<and> (\<not> hasLen ty \<and> byteOrder cfg \<and> ty \<noteq> PSDATA_MEM \<longrightarrow> swappable (length v)))"

lemma content_simps [simp]:
  "content (d\<lparr>db_unpack := p\<rparr>) = content d" "content (d\<lparr>db_err := e\<rparr>) = content d"
  by (simp_all add: content_def)

text \<open>Reading the type information and leaving the offset behind it.\<close>

lemma verify_ok:
  assumes ok: "ser_ok d" and k: "db_unpack d = UOff k"
    and rest: "ser_rest d = (if typeInfo cfg then [type_code ty] else []) @ v @ r"
  obtains k' d' where "verifyDataBuf cfg (length v) True d = (True, d)"
    "verifyTypeInfo cfg ty k d = (True, k', d')" "content d' = content d" "ser_ok d'"
    "drop k' (content d) = v @ r" "db_unpack d' = UOff k'" "k' \<le> length (content d)"
    "db_err d' = E_PSSERIAL_SUCCESS"
proof -
  have dr: "drop k (content d) = (if typeInfo cfg then [type_code ty] else []) @ v @ r"
    and kl: "k \<le> length (content d)" and err: "db_err d = E_PSSERIAL_SUCCESS"
    using ok k rest by (auto simp: ser_ok_def ser_rest_def)
  have len: "length (content d) - k = (if typeInfo cfg then 1 else 0) + length v + length r"
    using arg_cong [OF dr, of length] by simp
  have 1: "verifyDataBuf cfg (length v) True d = (True, d)"
    using len err k by (simp add: verifyDataBuf_def PSdbGetAvail_def)
  show thesis
  proof (cases "typeInfo cfg")
    case True
    then have "content d ! k = type_code ty" "drop (k + 1) (content d) = v @ r" "k + 1 \<le> length (content d)"
      using dr kl len by (auto simp: drop_Suc [of k] tl_drop [symmetric] nth_via_drop)
    with True show thesis
      using that [OF 1, of "k + 1" "d\<lparr>db_unpack := UOff (k + 1)\<rparr>"] err
      by (simp add: verifyTypeInfo_def Let_def ser_ok_def)
  next
    case False
    then show thesis using that [OF 1, of k d] dr kl ok k err by (simp add: verifyTypeInfo_def)
  qed
qed

lemma getFromBuf_enc:
  assumes ok: "ser_ok d" and nl: "\<not> hasLen ty" and v: "item_ok cfg (ty, v)"
    and rest: "ser_rest d = enc_item cfg (ty, v) @ r"
  shows "\<exists>t. getFromBuf cfg ty (length v) d = (Got v, t) \<and> ser_ok t \<and> ser_rest t = r
    \<and> content t = content d"
proof -
  from ok obtain k where k: "db_unpack d = UOff k" by (auto simp: ser_ok_def split: uptr.splits)
  let ?e = "val_bytes cfg ty v"
  have le: "length ?e = length v" by (simp add: val_bytes_def)
  have "ser_rest d = (if typeInfo cfg then [type_code ty] else []) @ ?e @ r"
    using rest nl by (simp add: enc_item_def)
  from verify_ok [OF ok k this] obtain k' d' where
    ver: "verifyDataBuf cfg (length ?e) True d = (True, d)" "verifyTypeInfo cfg ty k d = (True, k', d')"
    and c: "content d' = content d" "drop k' (content d) = ?e @ r" "k' \<le> length (content d)"
      "db_err d' = E_PSSERIAL_SUCCESS" by metis
  have lr: "length (content d) - k' = length v + length r" using arg_cong [OF c(2), of length] le by simp
  have t: "take (length v) (drop k' (content d)) = ?e" "drop (k' + length v) (content d) = r"
    using c(2) le by (simp_all add: add.commute [of k'] drop_drop [symmetric] del: drop_drop)
  let ?t = "d'\<lparr>db_unpack := UOff (k' + length v)\<rparr>"
  have "getFromBuf cfg ty (length v) d = (Got v, ?t)"
    using k ver le t v nl c(1)
    by (auto simp: getFromBuf_def Let_def val_bytes_def item_ok_def)
  moreover have "ser_ok ?t" "ser_rest ?t = r" using c lr t by (auto simp: ser_ok_def ser_rest_def)
  ultimately show ?thesis using c(1) by auto
qed

lemma getMemFromBuf_enc:
  assumes ok: "ser_ok d" and hl: "hasLen ty" and v: "item_ok cfg (ty, v)"
    and rest: "ser_rest d = enc_item cfg (ty, v) @ r"
  shows "\<exists>t. getMemFromBuf cfg True None ty d = (Got v, t) \<and> ser_ok t \<and> ser_rest t = r
    \<and> content t = content d"
proof -
  from ok obtain k where k: "db_unpack d = UOff k" by (auto simp: ser_ok_def split: uptr.splits)
  let ?l = "len_bytes cfg (length v)"
  have ll: "length ?l = 4" by (simp add: len_bytes_def)
  have vb: "val_bytes cfg ty v = v" using hl by (simp add: val_bytes_def)
  have "ser_rest d = (if typeInfo cfg then [type_code ty] else []) @ ?l @ (v @ r)"
    using rest hl vb by (simp add: enc_item_def)
  from verify_ok [OF ok k this] obtain k' d' where
    ver: "verifyDataBuf cfg (length ?l) True d = (True, d)" "verifyTypeInfo cfg ty k d = (True, k', d')"
    and c: "content d' = content d" "drop k' (content d) = ?l @ v @ r" "k' \<le> length (content d)"
      "db_err d' = E_PSSERIAL_SUCCESS" by metis
  have lr: "length (content d) - k' = 4 + length v + length r"
    using arg_cong [OF c(2), of length] ll by simp
  have t: "take 4 (drop k' (content d)) = ?l" using c(2) ll by simp
  have d4: "drop (k' + 4) (content d) = v @ r"
    using c(2) ll by (simp add: add.commute [of k'] drop_drop [symmetric] del: drop_drop)
  have d4v: "drop (k' + 4 + length v) (content d) = r"
    using d4 by (simp add: add.commute [of "k' + 4"] drop_drop [symmetric] del: drop_drop)
  have n: "byteOrder cfg \<Longrightarrow> le_nat (rev ?l) = length v" "\<not> byteOrder cfg \<Longrightarrow> le_nat ?l = length v"
    using v hl by (simp_all add: len_bytes_def item_ok_def)
  let ?d3 = "d'\<lparr>db_unpack := UOff (k' + 4)\<rparr>" and ?t = "d'\<lparr>db_unpack := UOff (k' + 4 + length v)\<rparr>"
  have v3: "verifyDataBuf cfg (length v) False ?d3 = (True, ?d3)"
    using c lr by (simp add: verifyDataBuf_def PSdbGetAvail_def)
  have tm: "terminate_str ty v = v"
  proof (cases "ty = PSDATA_STRING")
    case True
    then have nz: "v \<noteq> []" "last v = 0" using v by (auto simp: item_ok_def)
    then have "butlast v @ [0] = v" by (metis append_butlast_last_id)
    with True nz show ?thesis by (simp add: terminate_str_def)
  qed (simp add: terminate_str_def)
  have "getMemFromBuf cfg True None ty d = (Got v, ?t)"
    using k ver ll t d4 n v3 c(1) tm by (cases "byteOrder cfg") (simp_all add: getMemFromBuf_def Let_def)
  moreover have "ser_ok ?t" "ser_rest ?t = r" using c lr d4v by (auto simp: ser_ok_def ser_rest_def)
  ultimately show ?thesis using c(1) by auto
qed

interpretation items: byte_reader "item_rd cfg" ser_rest ser_ok "enc_item cfg" item_kind "item_ok cfg"
  for cfg
proof
  fix s v r
  assume a: "ser_ok s" "item_ok cfg v" "ser_rest s = enc_item cfg v @ r"
  obtain ty b where v: "v = (ty, b)" by fastforce
  show "\<exists>t. item_rd cfg (item_kind v) s = (Some v, t) \<and> ser_ok t \<and> ser_rest t = r"
    using getFromBuf_enc [OF a(1), of ty cfg b r] getMemFromBuf_enc [OF a(1), of ty cfg b r] a
    by (cases "hasLen ty") (auto simp: item_rd_def item_kind_def v)
qed

end
