(* ===== verification/Ser_Frag.thy ===== *)
theory Ser_Frag
  imports Ser_Pack
begin

text \<open>
  Sending a message in fragments.  \<open>frag_holds\<close> says of a fragmented buffer what was added to it so
  far: the filled fragments are sent, each to all destinations in the order \<open>send_order\<close>, and the
  rest lies in the fragment under construction.  It is a second \<open>byte_sink\<close>, so \<open>addToBuf\<close> and the
  functions on top of it append the same encoding as without fragments.
\<close>

section \<open>Sending one fragment\<close>

definition send_order :: "nodeid \<Rightarrow> taskid list \<Rightarrow> taskid list" where
  "send_order me ds =
     (let loc = filter (\<lambda>d. PSC_getID me d = me) ds
      in filter (\<lambda>d. PSC_getID me d \<noteq> me) ds
         @ (if loc = [] \<or> last loc = -1 then [] else [last loc]))"

definition sent_to :: "ser \<Rightarrow> taskid list \<Rightarrow> taskid \<Rightarrow> ser" where
  "sent_to s ds x = s\<lparr>fragMsg := (fragMsg s)\<lparr>m_dest := x\<rparr>,
     sent := sent s @ map (\<lambda>d. (fragMsg s)\<lparr>m_dest := d\<rparr>) ds\<rparr>"

lemma sent_to_nil: "sent_to s [] (m_dest (fragMsg s)) = s"
  by (simp add: sent_to_def)

lemma sent_to_sent_to: "sent_to (sent_to s ds x) es y = sent_to s (ds @ es) y"
  by (simp add: sent_to_def)

lemma sent_to_simps [simp]:
  "s_cfg (sent_to s ds x) = s_cfg s" "sendBuf (sent_to s ds x) = sendBuf s"
  "destTIDs (sent_to s ds x) = destTIDs s" "sendPSMsg (sent_to s ds x) = sendPSMsg s"
  "s_myID (sent_to s ds x) = s_myID s" "s_myTID (sent_to s ds x) = s_myTID s"
  "sendres (sent_to s ds x) = sendres s"
  "sent (sent_to s ds x) = sent s @ map (\<lambda>d. (fragMsg s)\<lparr>m_dest := d\<rparr>) ds"
  by (simp_all add: sent_to_def)

lemma send_to_ok: "sendres s = [] \<Longrightarrow> send_to d s = (True, sent_to s [d] d)"
  by (simp add: send_to_def sent_to_def Let_def)

lemma send_remote_spec:
  assumes "sendres s = []"
  shows "\<exists>x. send_remote ds ret loc s =
     (ret, (let l = filter (\<lambda>d. PSC_getID (s_myID s) d = s_myID s) ds in if l = [] then loc else last l),
      sent_to s (filter (\<lambda>d. PSC_getID (s_myID s) d \<noteq> s_myID s) ds) x)"
  using assms
proof (induction ds arbitrary: loc s)
  case Nil
  show ?case by (intro exI [of _ "m_dest (fragMsg s)"]) (simp add: sent_to_nil)
next
  case (Cons d ds)
  show ?case
  proof (cases "PSC_getID (s_myID s) d = s_myID s")
    case True
    with Cons.IH [OF Cons.prems, of d] show ?thesis by (auto simp: Let_def)
  next
    case False
    from Cons.IH [of "sent_to s [d] d" loc] Cons.prems
    obtain x where "send_remote ds ret loc (sent_to s [d] d) =
        (ret, (let l = filter (\<lambda>d. PSC_getID (s_myID s) d = s_myID s) ds in if l = [] then loc else last l),
         sent_to (sent_to s [d] d) (filter (\<lambda>d. PSC_getID (s_myID s) d \<noteq> s_myID s) ds) x)" by auto
    with False Cons.prems show ?thesis by (auto simp: send_to_ok sent_to_sent_to)
  qed
qed

lemma sendFragment_spec:
  assumes "numDest b \<noteq> 0" "sendPSMsg s" "sendres s = []" "destTIDs s = Some ds"
  shows "\<exists>x. sendFragment b s = (True, sent_to s (send_order (s_myID s) (take (numDest b) ds)) x)"
proof -
  let ?ds = "take (numDest b) ds"
  let ?l = "filter (\<lambda>d. PSC_getID (s_myID s) d = s_myID s) ?ds"
  from send_remote_spec [OF assms(3), of ?ds True "-1"]
  obtain x where x: "send_remote ?ds True (-1) s = (True, (if ?l = [] then -1 else last ?l),
      sent_to s (filter (\<lambda>d. PSC_getID (s_myID s) d \<noteq> s_myID s) ?ds) x)" by (auto simp: Let_def)
  show ?thesis
  proof (cases "?l = [] \<or> last ?l = -1")
    case True
    then show ?thesis using assms x
      by (intro exI [of _ x]) (auto simp: sendFragment_def send_order_def Let_def)
  next
    case False
    then show ?thesis using assms x
      by (intro exI [of _ "last ?l"])
        (simp add: sendFragment_def send_order_def send_to_ok sent_to_sent_to Let_def)
  qed
qed

section \<open>Fragments\<close>

primrec fnum :: "nat \<Rightarrow> uint16" where
  "fnum 0 = 0"
| "fnum (Suc n) = next_frag (fnum n)"

definition frag_hdr :: "byte list \<Rightarrow> uint16 \<Rightarrow> byte \<Rightarrow> byte list" where
  "frag_hdr ex num ty = [ty] @ le_bytes 2 (unat num) @ [of_nat (length ex)] @ ex"

definition frag_cap :: "byte list \<Rightarrow> nat" where
  "frag_cap ex = BufTypedMsgSize - 4 - length ex"

lemma length_frag_hdr: "length (frag_hdr ex num ty) = 4 + length ex"
  by (simp add: frag_hdr_def)

lemma frag_cap_pos: "length ex \<le> 255 \<Longrightarrow> 0 < frag_cap ex \<and> frag_cap ex + 4 + length ex = BufTypedMsgSize"
  by (simp add: frag_cap_def msg_consts)

text \<open>What a receiver sees of a message.\<close>

definition msg_view :: "ddmsg \<Rightarrow> taskid \<times> taskid \<times> byte list" where
  "msg_view m = (m_dest m, m_sender m, tbytes m)"

definition msg_good :: "ddmsg \<Rightarrow> bool" where
  "msg_good m \<longleftrightarrow> typed_ok m \<and> m_len m \<noteq> 0"

lemma dest_simps [simp]:
  "tbytes (m\<lparr>m_dest := d\<rparr>) = tbytes m" "typed_ok (m\<lparr>m_dest := d\<rparr>) = typed_ok m"
  "tlen (m\<lparr>m_dest := d\<rparr>) = tlen m" "msg_good (m\<lparr>m_dest := d\<rparr>) = msg_good m"
  by (simp_all add: tbytes_def typed_ok_def tlen_def msg_good_def)

lemma put_frag_spec:
  assumes "typed_ok (fragMsg s)" "d \<noteq> []" "tlen (fragMsg s) + length d \<le> BufTypedMsgSize"
  shows "\<exists>m. put_frag d s = s\<lparr>fragMsg := m\<rparr> \<and> msg_good m \<and> tbytes m = tbytes (fragMsg s) @ d
    \<and> m_sender m = m_sender (fragMsg s)"
proof -
  from put_typed [OF assms] obtain m where
    m: "PSP_putTypedMsgBuf d (fragMsg s) = (True, m)" "typed_ok m" "tbytes m = tbytes (fragMsg s) @ d"
    "m_len m = DDTypedBufMsgOffset + tlen (fragMsg s) + length d" "m_sender m = m_sender (fragMsg s)" by blast
  then show ?thesis by (intro exI [of _ m]) (simp add: put_frag_def msg_good_def msg_consts)
qed

lemma tlen_length: "tlen m = length (tbytes m)"
  by simp

lemma setupFragMsg_spec:
  assumes "length (extra b) \<le> 255"
  shows "\<exists>m. setupFragMsg b s = s\<lparr>fragMsg := m\<rparr> \<and> msg_good m \<and> m_sender m = s_myTID s
    \<and> tbytes m = frag_hdr (extra b) (fragNum b) FRAGMENT_PART"
proof -
  define m0 where "m0 = (fragMsg s)\<lparr>m_type := headType b, m_len := 0, m_sender := s_myTID s,
    m_subtype := msgType b\<rparr>"
  define s1 where "s1 = s\<lparr>fragMsg := m0\<rparr>"
  have 0: "typed_ok m0" "tbytes m0 = []" "m_sender m0 = s_myTID s"
    by (simp_all add: m0_def typed_ok_def tbytes_def tlen_def get_bytes_def)
  obtain m1 where 1: "put_frag [FRAGMENT_PART] s1 = s\<lparr>fragMsg := m1\<rparr>" "msg_good m1"
    "tbytes m1 = [FRAGMENT_PART]" "m_sender m1 = s_myTID s"
    using put_frag_spec [of s1 "[FRAGMENT_PART]"] 0 by (auto simp: s1_def tlen_length msg_consts simp del: length_tbytes)
  obtain m2 where 2: "put_frag (le_bytes 2 (unat (fragNum b))) (s\<lparr>fragMsg := m1\<rparr>) = s\<lparr>fragMsg := m2\<rparr>"
    "msg_good m2" "tbytes m2 = [FRAGMENT_PART] @ le_bytes 2 (unat (fragNum b))" "m_sender m2 = s_myTID s"
    using put_frag_spec [of "s\<lparr>fragMsg := m1\<rparr>" "le_bytes 2 (unat (fragNum b))"] 1
    by (auto simp: msg_good_def tlen_length msg_consts numeral_2_eq_2 simp del: length_tbytes)
  obtain m3 where 3: "put_frag [of_nat (length (extra b))] (s\<lparr>fragMsg := m2\<rparr>) = s\<lparr>fragMsg := m3\<rparr>"
    "msg_good m3" "tbytes m3 = ([FRAGMENT_PART] @ le_bytes 2 (unat (fragNum b))) @ [of_nat (length (extra b))]"
    "m_sender m3 = s_myTID s"
    using put_frag_spec [of "s\<lparr>fragMsg := m2\<rparr>" "[of_nat (length (extra b))]"] 2
    by (auto simp: msg_good_def tlen_length msg_consts simp del: length_tbytes)
  have eq: "setupFragMsg b s = (if length (extra b) \<noteq> 0 then put_frag (extra b) (s\<lparr>fragMsg := m3\<rparr>)
      else s\<lparr>fragMsg := m3\<rparr>)"
    unfolding setupFragMsg_def Let_def m0_def [symmetric] s1_def [symmetric] 1(1) 2(1) 3(1) by simp
  show ?thesis
  proof (cases "extra b = []")
    case True
    with 3 eq show ?thesis by (intro exI [of _ m3]) (simp add: frag_hdr_def)
  next
    case False
    from put_frag_spec [of "s\<lparr>fragMsg := m3\<rparr>" "extra b"] 3 False assms
    obtain m4 where "put_frag (extra b) (s\<lparr>fragMsg := m3\<rparr>) = s\<lparr>fragMsg := m4\<rparr>" "msg_good m4"
      "tbytes m4 = tbytes m3 @ extra b" "m_sender m4 = s_myTID s"
      by (auto simp: msg_good_def tlen_length msg_consts simp del: length_tbytes)
    with 3 eq False show ?thesis by (intro exI [of _ m4]) (simp add: frag_hdr_def)
  qed
qed


section \<open>What was added so far\<close>

text \<open>
  The setting of a message: extra header \<open>ex\<close>, destinations in send order \<open>ords\<close>, sender \<open>tid\<close>, the
  messages \<open>base\<close> sent before, and the flags.
\<close>

definition frag_env :: "byte list \<Rightarrow> taskid list \<Rightarrow> taskid \<Rightarrow> sercfg \<Rightarrow> PS_SendDB \<Rightarrow> ser \<Rightarrow> bool" where
  "frag_env ex ords tid cfg b s \<longleftrightarrow> s_cfg s = cfg \<and> sendBuf s \<noteq> None \<and> useFrag b \<and> extra b = ex
     \<and> length ex \<le> 255 \<and> numDest b \<noteq> 0 \<and> sendPSMsg s \<and> sendres s = [] \<and> s_myTID s = tid
     \<and> (\<exists>ds. destTIDs s = Some ds \<and> send_order (s_myID s) (take (numDest b) ds) = ords)"

definition chunk :: "byte list \<Rightarrow> nat \<Rightarrow> byte list \<Rightarrow> byte list" where
  "chunk ex i data = take (frag_cap ex) (drop (i * frag_cap ex) data)"

definition frag_views ::
  "byte list \<Rightarrow> taskid list \<Rightarrow> taskid \<Rightarrow> byte list \<Rightarrow> nat \<Rightarrow> (taskid \<times> taskid \<times> byte list) list" where
  "frag_views ex ords tid data q = concat (map (\<lambda>i.
     map (\<lambda>d. (d, tid, frag_hdr ex (fnum i) FRAGMENT_PART @ chunk ex i data)) ords) [0..<q])"

definition frag_ready ::
  "byte list \<Rightarrow> taskid list \<Rightarrow> taskid \<Rightarrow> ddmsg list \<Rightarrow> sercfg \<Rightarrow> byte list \<Rightarrow> PS_SendDB \<Rightarrow> ser \<Rightarrow> bool" where
  "frag_ready ex ords tid base cfg data b s \<longleftrightarrow> frag_env ex ords tid cfg b s
     \<and> bufUsed b = length data \<and> fragNum b = fnum (length data div frag_cap ex)
     \<and> (\<exists>new. sent s = base @ new \<and> (\<forall>m\<in>set new. msg_good m)
          \<and> map msg_view new = frag_views ex ords tid data (length data div frag_cap ex))
     \<and> msg_good (fragMsg s) \<and> m_sender (fragMsg s) = tid
     \<and> tbytes (fragMsg s) = frag_hdr ex (fragNum b) FRAGMENT_PART
         @ drop (length data div frag_cap ex * frag_cap ex) data"

definition frag_holds ::
  "byte list \<Rightarrow> taskid list \<Rightarrow> taskid \<Rightarrow> ddmsg list \<Rightarrow> sercfg \<Rightarrow> byte list \<Rightarrow> PS_SendDB \<Rightarrow> ser \<Rightarrow> bool" where
  "frag_holds ex ords tid base cfg data b s \<longleftrightarrow>
     (if data = [] then frag_env ex ords tid cfg b s \<and> bufUsed b = 0 \<and> fragNum b = 0 \<and> sent s = base
      else frag_ready ex ords tid base cfg data b s)"

lemma frag_env_upd:
  "frag_env ex ords tid cfg (b\<lparr>bufUsed := u\<rparr>) s = frag_env ex ords tid cfg b s"
  "frag_env ex ords tid cfg (b\<lparr>fragNum := k\<rparr>) s = frag_env ex ords tid cfg b s"
  "frag_env ex ords tid cfg b (s\<lparr>fragMsg := m\<rparr>) = frag_env ex ords tid cfg b s"
  "frag_env ex ords tid cfg b (sent_to s ds x) = frag_env ex ords tid cfg b s"
  by (simp_all add: frag_env_def)

lemma setup_ready:
  assumes "frag_env ex ords tid cfg b s" "bufUsed b = 0" "fragNum b = 0" "sent s = base"
  shows "frag_ready ex ords tid base cfg [] b (setupFragMsg b s)"
proof -
  have ex: "extra b = ex" "length ex \<le> 255" using assms(1) by (auto simp: frag_env_def)
  from setupFragMsg_spec [of b s] ex obtain m where m: "setupFragMsg b s = s\<lparr>fragMsg := m\<rparr>"
    "msg_good m" "m_sender m = s_myTID s" "tbytes m = frag_hdr ex (fragNum b) FRAGMENT_PART" by auto
  then show ?thesis using assms
    by (simp add: frag_ready_def frag_env_upd frag_views_def) (simp add: frag_env_def)
qed

text \<open>Chunks that are complete do not change when data is appended.\<close>

lemma chunk_append: "(i + 1) * frag_cap ex \<le> length data \<Longrightarrow> chunk ex i (data @ d) = chunk ex i data"
  by (simp add: chunk_def)

lemma frag_views_append:
  "q * frag_cap ex \<le> length data \<Longrightarrow> frag_views ex ords tid (data @ d) q = frag_views ex ords tid data q"
proof -
  assume a: "q * frag_cap ex \<le> length data"
  have "chunk ex i (data @ d) = chunk ex i data" if "i < q" for i
  proof (rule chunk_append)
    have "(i + 1) * frag_cap ex \<le> q * frag_cap ex" using that by (intro mult_le_mono1) simp
    then show "(i + 1) * frag_cap ex \<le> length data" using a by simp
  qed
  then show ?thesis unfolding frag_views_def by (intro arg_cong [of _ _ concat] map_cong refl) auto
qed

lemma frag_views_Suc:
  "frag_views ex ords tid data (Suc q) = frag_views ex ords tid data q
     @ map (\<lambda>d. (d, tid, frag_hdr ex (fnum q) FRAGMENT_PART @ chunk ex q data)) ords"
  by (simp add: frag_views_def)

lemma frag_step_part:
  assumes r: "frag_ready ex ords tid base cfg data b s" and d: "d \<noteq> []"
    and le: "length data mod frag_cap ex + length d < frag_cap ex"
  shows "\<exists>b' s'. add_frag_step d b s = ([], b', s') \<and> frag_ready ex ords tid base cfg (data @ d) b' s'"
proof -
  define c where "c = frag_cap ex"
  define q where "q = length data div c"
  have env: "frag_env ex ords tid cfg b s" and ex: "length ex \<le> 255" using r by (auto simp: frag_ready_def frag_env_def)
  have c: "0 < c" "c + 4 + length ex = BufTypedMsgSize" using frag_cap_pos [OF ex] by (simp_all add: c_def)
  have dm: "length data = q * c + length data mod c" by (simp add: q_def)
  have tb: "tbytes (fragMsg s) = frag_hdr ex (fragNum b) FRAGMENT_PART @ drop (q * c) data"
    and good: "msg_good (fragMsg s)" using r by (auto simp: frag_ready_def c_def q_def)
  have tl: "tlen (fragMsg s) = 4 + length ex + length data mod c"
    using dm by (subst tlen_length) (simp add: tb length_frag_hdr del: length_tbytes)
  have q': "(length data + length d) div c = q"
  proof -
    have gen: "(k + q * c) div c = q" if "k < c" for k using that c(1) by simp
    have "length data + length d = (length data mod c + length d) + q * c" using dm by linarith
    then show ?thesis using gen [of "length data mod c + length d"] le by (simp only: c_def [symmetric])
  qed
  have chunk: "m_len (fragMsg s) - DDTypedBufMsgOffset = tlen (fragMsg s)" by (simp add: tlen_def)
  have left: "BufTypedMsgSize - tlen (fragMsg s) = c - length data mod c" using tl c(2) by linarith
  have room: "tlen (fragMsg s) + length d \<le> BufTypedMsgSize" using tl c(2) le by (simp add: c_def)
  from put_frag_spec [of s d] good d room
  obtain m where m: "put_frag d s = s\<lparr>fragMsg := m\<rparr>" "msg_good m" "tbytes m = tbytes (fragMsg s) @ d"
    "m_sender m = m_sender (fragMsg s)" by (auto simp: msg_good_def)
  have tk: "(if length d > c - length data mod c then c - length data mod c else length d) = length d"
    using le by (simp add: c_def)
  have nz: "c - length data mod c - length d \<noteq> 0" using le by (simp add: c_def)
  have eq: "add_frag_step d b s = ([], b\<lparr>bufUsed := bufUsed b + length d\<rparr>, s\<lparr>fragMsg := m\<rparr>)"
    unfolding add_frag_step_def Let_def chunk left tk using nz m(1) by simp
  have "drop (q * c) (data @ d) = drop (q * c) data @ d" using dm by simp
  moreover have "frag_views ex ords tid (data @ d) q = frag_views ex ords tid data q"
    using dm by (intro frag_views_append) (simp add: c_def)
  ultimately have "frag_ready ex ords tid base cfg (data @ d) (b\<lparr>bufUsed := bufUsed b + length d\<rparr>) (s\<lparr>fragMsg := m\<rparr>)"
    using r m tb q' unfolding frag_ready_def by (simp add: frag_env_upd q_def c_def)
  then show ?thesis using eq by blast
qed


lemma frag_step_fill:
  assumes r: "frag_ready ex ords tid base cfg data b s"
    and k: "k = frag_cap ex - length data mod frag_cap ex" "k \<le> length d"
  shows "\<exists>b' s'. add_frag_step d b s = (drop k d, b', s')
    \<and> frag_ready ex ords tid base cfg (data @ take k d) b' s'"
proof -
  define c where "c = frag_cap ex"
  define q where "q = length data div c"
  let ?p = "take k d" and ?D = "data @ take k d"
  have env: "frag_env ex ords tid cfg b s" and ex: "length ex \<le> 255" using r by (auto simp: frag_ready_def frag_env_def)
  have c: "0 < c" "c + 4 + length ex = BufTypedMsgSize" using frag_cap_pos [OF ex] by (simp_all add: c_def)
  have dm: "length data = q * c + length data mod c" by (simp add: q_def)
  have mc: "length data mod c < c" using c(1) by simp
  have lp: "length ?p = k" "0 < k" "length data mod c + k = c"
    using k mc by (simp_all add: c_def)
  have tb: "tbytes (fragMsg s) = frag_hdr ex (fragNum b) FRAGMENT_PART @ drop (q * c) data"
    and good: "msg_good (fragMsg s)" and snd: "m_sender (fragMsg s) = tid"
    using r by (auto simp: frag_ready_def c_def q_def)
  have tl: "tlen (fragMsg s) = 4 + length ex + length data mod c"
    using dm by (subst tlen_length) (simp add: tb length_frag_hdr del: length_tbytes)
  have lD: "length ?D = Suc q * c"
  proof -
    have "length ?D = q * c + (length data mod c + k)" using dm lp(1) by simp
    then show ?thesis by (simp add: lp(3))
  qed
  have chunk: "m_len (fragMsg s) - DDTypedBufMsgOffset = tlen (fragMsg s)" by (simp add: tlen_def)
  have left: "BufTypedMsgSize - tlen (fragMsg s) = k" using tl c(2) lp(3) by linarith
  have room: "tlen (fragMsg s) + length ?p \<le> BufTypedMsgSize" using tl c(2) lp by linarith
  have "?p \<noteq> []" using lp by auto
  from put_frag_spec [of s ?p, OF _ this room] good
  obtain m where m: "put_frag ?p s = s\<lparr>fragMsg := m\<rparr>" "msg_good m" "tbytes m = tbytes (fragMsg s) @ ?p"
    "m_sender m = m_sender (fragMsg s)" by (auto simp: msg_good_def)
  let ?b1 = "b\<lparr>bufUsed := bufUsed b + k\<rparr>" and ?s1 = "s\<lparr>fragMsg := m\<rparr>"
  let ?b2 = "?b1\<lparr>fragNum := next_frag (fragNum b)\<rparr>"
  have env1: "frag_env ex ords tid cfg ?b1 ?s1" using env by (simp add: frag_env_upd)
  then obtain ds where ds: "destTIDs ?s1 = Some ds" "send_order (s_myID ?s1) (take (numDest ?b1) ds) = ords"
    "numDest ?b1 \<noteq> 0" "sendPSMsg ?s1" "sendres ?s1 = []" by (auto simp: frag_env_def)
  from sendFragment_spec [OF ds(3,4,5,1)] ds(2)
  obtain x where x: "sendFragment ?b1 ?s1 = (True, sent_to ?s1 ords x)" by metis
  have env2: "frag_env ex ords tid cfg ?b2 (sent_to ?s1 ords x)" using env by (simp add: frag_env_upd)
  from setupFragMsg_spec [of ?b2 "sent_to ?s1 ords x"] env2 ex
  obtain m2 where m2: "setupFragMsg ?b2 (sent_to ?s1 ords x) = (sent_to ?s1 ords x)\<lparr>fragMsg := m2\<rparr>"
    "msg_good m2" "m_sender m2 = tid" "tbytes m2 = frag_hdr ex (next_frag (fragNum b)) FRAGMENT_PART"
    by (auto simp: frag_env_def)
  let ?s2 = "(sent_to ?s1 ords x)\<lparr>fragMsg := m2\<rparr>"
  have "add_frag_step d b s = (drop k d, ?b2, ?s2)"
  proof -
    have tk: "(if length d > k then k else length d) = k" using k(2) by simp
    show ?thesis unfolding add_frag_step_def Let_def chunk left tk m(1) using x m2(1) by simp
  qed
  moreover have "frag_ready ex ords tid base cfg ?D ?b2 ?s2"
  proof -
    obtain new where new: "sent s = base @ new" "\<forall>m\<in>set new. msg_good m"
      "map msg_view new = frag_views ex ords tid data q"
      using r by (auto simp: frag_ready_def c_def q_def)
    let ?out = "map (\<lambda>d. m\<lparr>m_dest := d\<rparr>) ords"
    have dD: "drop (q * c) ?D = drop (q * c) data @ ?p" using dm by simp
    have "length (drop (q * c) ?D) = c" using lD by simp
    then have "length (drop (q * c) data @ ?p) \<le> c" unfolding dD by linarith
    then have ck: "chunk ex q ?D = drop (q * c) data @ ?p"
      unfolding chunk_def c_def [symmetric] dD by (rule take_all)
    have fn: "fragNum b = fnum q" using r by (simp add: frag_ready_def q_def c_def)
    have "map msg_view ?out = map (\<lambda>d. (d, tid, frag_hdr ex (fnum q) FRAGMENT_PART @ chunk ex q ?D)) ords"
      by (simp add: msg_view_def m(3,4) tb snd fn ck)
    moreover have "frag_views ex ords tid ?D q = frag_views ex ords tid data q"
      using dm by (intro frag_views_append) (simp add: c_def)
    ultimately have "map msg_view (new @ ?out) = frag_views ex ords tid ?D (Suc q)"
      using new(3) by (simp add: frag_views_Suc)
    moreover have "\<forall>m\<in>set (new @ ?out). msg_good m" using new(2) m(2) by auto
    moreover have "sent ?s2 = base @ (new @ ?out)" using new(1) by simp
    moreover have dv: "length ?D div c = Suc q" using lD c(1) by simp
    moreover have "drop (Suc q * c) ?D = []" by (rule drop_all) (simp only: lD order_refl)
    moreover have "frag_env ex ords tid cfg ?b2 ?s2" using env by (simp add: frag_env_upd)
    moreover have "bufUsed ?b2 = length ?D" using r lp(1) by (simp add: frag_ready_def)
    ultimately show ?thesis unfolding frag_ready_def c_def [symmetric] using m2 fn
      by (intro conjI) (auto simp del: sent_to_simps(8))
  qed
  ultimately show ?thesis by blast
qed


lemma frag_step:
  assumes r: "frag_ready ex ords tid base cfg data b s" and d: "d \<noteq> []"
  shows "\<exists>k b' s'. 0 < k \<and> k \<le> length d \<and> add_frag_step d b s = (drop k d, b', s')
    \<and> frag_ready ex ords tid base cfg (data @ take k d) b' s'"
proof (cases "length data mod frag_cap ex + length d < frag_cap ex")
  case True
  from frag_step_part [OF r d True] d show ?thesis
    by (intro exI [of _ "length d"]) auto
next
  case False
  have "length ex \<le> 255" using r by (auto simp: frag_ready_def frag_env_def)
  then have "length data mod frag_cap ex < frag_cap ex" using frag_cap_pos by simp
  with False frag_step_fill [OF r refl, of d] show ?thesis
    by (intro exI [of _ "frag_cap ex - length data mod frag_cap ex"]) auto
qed

text \<open>Enough fuel is the length of the data.\<close>

lemma add_frag_loop_spec:
  assumes "frag_ready ex ords tid base cfg data b s" "length d \<le> fuel"
  shows "\<exists>b' s'. add_frag_loop fuel d b s = ([], b', s') \<and> frag_ready ex ords tid base cfg (data @ d) b' s'"
  using assms
proof (induction fuel arbitrary: data d b s)
  case (Suc fuel)
  show ?case
  proof (cases "d = []")
    case False
    from frag_step [OF Suc.prems(1) False]
    obtain k b1 s1 where k: "0 < k" "k \<le> length d" "add_frag_step d b s = (drop k d, b1, s1)"
      and r1: "frag_ready ex ords tid base cfg (data @ take k d) b1 s1" by blast
    have "length (drop k d) \<le> fuel" using k Suc.prems(2) by simp
    from Suc.IH [OF r1 this] k(3) False show ?thesis by simp
  qed (use Suc.prems in simp)
qed simp

lemma addData_frag:
  assumes h: "frag_holds ex ords tid base cfg data b s"
  shows "\<exists>b' s'. addData d b s = (True, b', s') \<and> frag_holds ex ords tid base cfg (data @ d) b' s'"
proof -
  let ?s = "if bufUsed b = 0 then setupFragMsg b s else s"
  have "useFrag b" using h by (auto simp: frag_holds_def frag_ready_def frag_env_def split: if_splits)
  then have eq: "addData d b s = (True, snd (add_frag_loop (length d) d b ?s))"
    by (simp add: addData_def addFragmentedData_def split_beta)
  have r: "frag_ready ex ords tid base cfg data b ?s"
  proof (cases "data = []")
    case True
    then show ?thesis using h setup_ready by (auto simp: frag_holds_def)
  next
    case False
    then show ?thesis using h by (auto simp: frag_holds_def frag_ready_def)
  qed
  from add_frag_loop_spec [OF r order_refl, of d]
  obtain b' s' where l: "add_frag_loop (length d) d b ?s = ([], b', s')"
    "frag_ready ex ords tid base cfg (data @ d) b' s'" by blast
  have res: "addData d b s = (True, b', s')" using eq l(1) by simp
  have "frag_holds ex ords tid base cfg (data @ d) b' s'"
    using l(2) by (auto simp: frag_holds_def frag_ready_def frag_views_def)
  with res show ?thesis by blast
qed

interpretation frags: byte_sink "frag_holds ex ords tid base" for ex ords tid base
proof
  fix cfg data b s d
  assume h: "frag_holds ex ords tid base cfg data b s"
  show "\<exists>b' s'. addData d b s = (True, b', s') \<and> frag_holds ex ords tid base cfg (data @ d) b' s'"
    using addData_frag [OF h] .
  show "s_cfg s = cfg \<and> sendBuf s \<noteq> None"
    using h by (auto simp: frag_holds_def frag_ready_def frag_env_def split: if_splits)
qed

section \<open>Finishing the message\<close>

text \<open>The whole message: its full fragments and the last one.\<close>

definition msg_views :: "byte list \<Rightarrow> taskid list \<Rightarrow> taskid \<Rightarrow> byte list \<Rightarrow> (taskid \<times> taskid \<times> byte list) list" where
  "msg_views ex ords tid data =
     (let q = length data div frag_cap ex in
      frag_views ex ords tid data q
      @ map (\<lambda>d. (d, tid, frag_hdr ex (fnum q) FRAGMENT_END @ drop (q * frag_cap ex) data)) ords)"

lemma set_end:
  assumes "msg_good m" "tbytes m = frag_hdr ex num ty @ p"
  shows "msg_good (m\<lparr>m_buf := (m_buf m)(4 := FRAGMENT_END)\<rparr>)"
    "tbytes (m\<lparr>m_buf := (m_buf m)(4 := FRAGMENT_END)\<rparr>) = frag_hdr ex num FRAGMENT_END @ p"
proof -
  let ?m = "m\<lparr>m_buf := (m_buf m)(4 := FRAGMENT_END)\<rparr>"
  show "msg_good ?m" 
    using assms(1) by (simp only: msg_good_def typed_ok_def) (simp, linarith)
  have l: "tlen m = length (frag_hdr ex num ty @ p)" using assms(2) by (simp add: tlen_length del: length_tbytes)
  have "tbytes ?m = (tbytes m)[0 := FRAGMENT_END]"
    by (rule nth_equalityI) (auto simp: tbytes_def tlen_def get_bytes_def nth_list_update)
  then show "tbytes ?m = frag_hdr ex num FRAGMENT_END @ p"
    unfolding assms(2) by (simp add: frag_hdr_def)
qed

lemma sendFragMsg_spec:
  assumes h: "frag_holds ex ords tid base cfg data b s"
  shows "\<exists>s' new. sendFragMsg b s = (int (length data), s') \<and> sent s' = base @ new
    \<and> map msg_view new = msg_views ex ords tid data \<and> (\<forall>m\<in>set new. msg_good m)"
proof -
  define q where "q = length data div frag_cap ex"
  define s1 where "s1 = (if bufUsed b = 0 then setupFragMsg b s else s)"
  have r: "frag_ready ex ords tid base cfg data b s1"
    using h setup_ready by (auto simp: frag_holds_def frag_ready_def s1_def split: if_splits)
  then obtain new where new: "sent s1 = base @ new" "\<forall>m\<in>set new. msg_good m"
    "map msg_view new = frag_views ex ords tid data q"
    and fm: "msg_good (fragMsg s1)" "m_sender (fragMsg s1) = tid"
      "tbytes (fragMsg s1) = frag_hdr ex (fnum q) FRAGMENT_PART @ drop (q * frag_cap ex) data"
    and env: "frag_env ex ords tid cfg b s1" and bu: "bufUsed b = length data"
    by (auto simp: frag_ready_def q_def)
  define m where "m = (fragMsg s1)\<lparr>m_buf := (m_buf (fragMsg s1))(4 := FRAGMENT_END)\<rparr>"
  have m: "msg_good m" "tbytes m = frag_hdr ex (fnum q) FRAGMENT_END @ drop (q * frag_cap ex) data"
    "m_sender m = tid" using set_end [OF fm(1,3)] fm(2) by (simp_all add: m_def)
  have "frag_env ex ords tid cfg b (s1\<lparr>fragMsg := m\<rparr>)" using env by (simp add: frag_env_upd)
  then obtain ds where ds: "destTIDs (s1\<lparr>fragMsg := m\<rparr>) = Some ds"
    "send_order (s_myID (s1\<lparr>fragMsg := m\<rparr>)) (take (numDest b) ds) = ords"
    "numDest b \<noteq> 0" "sendPSMsg (s1\<lparr>fragMsg := m\<rparr>)" "sendres (s1\<lparr>fragMsg := m\<rparr>) = []"
    by (auto simp: frag_env_def)
  from sendFragment_spec [OF ds(3,4,5,1)] ds(2)
  obtain x where x: "sendFragment b (s1\<lparr>fragMsg := m\<rparr>) = (True, sent_to (s1\<lparr>fragMsg := m\<rparr>) ords x)" by metis
  have "sendBuf s \<noteq> None" using frags.holds_cfg [OF h] by simp
  then have "sendFragMsg b s = (int (length data), sent_to (s1\<lparr>fragMsg := m\<rparr>) ords x)"
    unfolding sendFragMsg_def s1_def [symmetric] Let_def m_def [symmetric] x using bu by simp
  moreover have "sent (sent_to (s1\<lparr>fragMsg := m\<rparr>) ords x) = base @ (new @ map (\<lambda>d. m\<lparr>m_dest := d\<rparr>) ords)"
    by (simp add: new(1))
  moreover have "map msg_view (new @ map (\<lambda>d. m\<lparr>m_dest := d\<rparr>) ords) = msg_views ex ords tid data"
    by (simp add: new(3) msg_views_def q_def [symmetric] msg_view_def m Let_def)
  moreover have "\<forall>m'\<in>set (new @ map (\<lambda>d. m\<lparr>m_dest := d\<rparr>) ords). msg_good m'" using new(2) m(1) by auto
  ultimately show ?thesis by blast
qed

end
