(* ===== verification/Ser_Recv.thy ===== *)
theory Ser_Recv
  imports Ser_Frag
begin

text \<open>
  Receiving the fragments of a message: the buffers of the senders are independent, a buffer never
  holds more than was allocated for it, and the fragments of one message give back its data.
\<close>

section \<open>The list of active buffers\<close>

lemma map_of_upd_assoc:
  "map_of (upd_assoc k v xs) = (if map_of xs k = None then map_of xs else (map_of xs)(k \<mapsto> v))"
  by (induction xs) (auto simp: fun_eq_iff)

lemma map_of_del_assoc: "k' \<noteq> k \<Longrightarrow> map_of (del_assoc k xs) k' = map_of xs k'"
  by (induction xs) auto

lemma map_of_del_same: "distinct (map fst xs) \<Longrightarrow> map_of (del_assoc k xs) k = None"
  by (induction xs) (auto simp: map_of_eq_None_iff split: if_splits, (metis fst_conv image_eqI)+)

lemma set_del_assoc: "set (del_assoc k xs) \<subseteq> set xs"
  by (induction xs) (auto split: if_splits)

lemma distinct_del_assoc: "distinct (map fst xs) \<Longrightarrow> distinct (map fst (del_assoc k xs))"
  by (induction xs) (use set_del_assoc in fastforce)+

lemma fst_upd_assoc [simp]: "map fst (upd_assoc k v xs) = map fst xs"
  by (induction xs) auto

lemma set_upd_assoc: "set (upd_assoc k v xs) \<subseteq> insert (k, v) (set xs)"
  by (induction xs) (auto split: if_splits)

text \<open>
  Senders are unique; a buffer has no memory and waits for fragment 0, or it has at least
  \<open>DEFAULT_BUFFER_SIZE\<close> bytes and room for its content.
\<close>

definition db_fits :: "PS_DataBuffer \<Rightarrow> bool" where
  "db_fits d \<longleftrightarrow> (case db_buf d of None \<Rightarrow> db_nextFrag d = 0
     | Some c \<Rightarrow> length c \<le> db_size d \<and> DEFAULT_BUFFER_SIZE \<le> db_size d)"

definition recv_ok :: "ser \<Rightarrow> bool" where
  "recv_ok s \<longleftrightarrow> distinct (map fst (recvBufs s)) \<and> (\<forall>x\<in>set (recvBufs s). db_fits (snd x))"

lemma recv_okI:
  "distinct (map fst (recvBufs s)) \<Longrightarrow> (\<And>t d. (t, d) \<in> set (recvBufs s) \<Longrightarrow> db_fits d) \<Longrightarrow> recv_ok s"
  by (auto simp: recv_ok_def)

lemma recv_ok_find: "recv_ok s \<Longrightarrow> findRecvBuf t s = Some d \<Longrightarrow> db_fits d"
  unfolding recv_ok_def findRecvBuf_def by (auto dest: map_of_SomeD)

lemma recv_ok_put: "recv_ok s \<Longrightarrow> recv_ok (putRecvBuf t s)"
  unfolding recv_ok_def putRecvBuf_def using set_del_assoc distinct_del_assoc by fastforce

lemma recv_ok_set: "recv_ok s \<Longrightarrow> db_fits d \<Longrightarrow> recv_ok (set_recv t d s)"
  unfolding recv_ok_def set_recv_def using set_upd_assoc by fastforce

lemma find_put: "t' \<noteq> t \<Longrightarrow> findRecvBuf t' (putRecvBuf t s) = findRecvBuf t' s"
  by (simp add: findRecvBuf_def putRecvBuf_def map_of_del_assoc)

lemma find_put_same: "recv_ok s \<Longrightarrow> findRecvBuf t (putRecvBuf t s) = None"
  by (simp add: findRecvBuf_def putRecvBuf_def map_of_del_same recv_ok_def)

lemma find_set: "findRecvBuf t' (set_recv t d s) =
    (if t' = t then (if findRecvBuf t s = None then None else Some d) else findRecvBuf t' s)"
  by (auto simp: findRecvBuf_def set_recv_def map_of_upd_assoc)

section \<open>The parts of a message\<close>

lemma frag_hdr_take:
  "take 1 (frag_hdr ex num ty @ p) = [ty]"
  "take 2 (drop 1 (frag_hdr ex num ty @ p)) = le_bytes 2 (unat num)"
  "take 1 (drop 3 (frag_hdr ex num ty @ p)) = [of_nat (length ex)]"
  "drop (4 + length ex) (frag_hdr ex num ty @ p) = p"
proof -
  show "drop (4 + length ex) (frag_hdr ex num ty @ p) = p"
    using length_frag_hdr [of ex num ty] by simp
qed (simp_all add: frag_hdr_def)

lemma fetchFragHeader_good:
  assumes "msg_good m" "tbytes m = frag_hdr ex num ty @ p" "length ex \<le> 255"
  shows "fetchFragHeader m = Some (ty, num, Some (length ex), 4 + length ex)"
proof -
  have ok: "typed_ok m" "m_len m \<noteq> 0" using assms(1) by (auto simp: msg_good_def)
  have len: "tlen m = 4 + length ex + length p"
    by (subst tlen_length) (simp add: assms(2) length_frag_hdr del: length_tbytes)
  have n: "of_nat (le_nat (le_bytes 2 (unat num))) = num"
  proof -
    have "unat num < 256 ^ 2" using unsigned_less [of num] by simp
    then show ?thesis by simp
  qed
  have e: "unat (of_nat (length ex) :: byte) = length ex"
    using assms(3) by (simp add: unat_of_nat)
  have 1: "PSP_getTypedMsgBuf 1 m 0 = (Some [ty], 1)"
    and 2: "PSP_getTypedMsgBuf 2 m 1 = (Some (le_bytes 2 (unat num)), 3)"
    and 3: "PSP_getTypedMsgBuf 1 m 3 = (Some [of_nat (length ex)], 4)"
    unfolding get_typed [OF ok] using len frag_hdr_take [of ex num ty p] assms(2) by auto
  show ?thesis by (simp add: fetchFragHeader_def 1 2 3 n e del: One_nat_def)
qed

lemma recv_payload:
  assumes "msg_good m" "tbytes m = frag_hdr ex num ty @ p"
  shows "get_bytes (8 + length ex) (m_len m - DDTypedBufMsgOffset - (4 + length ex)) (m_buf m) = p"
    and "DDTypedBufMsgOffset + (4 + length ex) \<le> m_len m"
proof -
  have len: "tlen m = 4 + length ex + length p"
    by (subst tlen_length) (simp add: assms(2) length_frag_hdr del: length_tbytes)
  show "DDTypedBufMsgOffset + (4 + length ex) \<le> m_len m"
    using len assms(1) by (auto simp: tlen_def msg_good_def typed_ok_def)
  have d: "drop (4 + length ex) (tbytes m) = p" using assms(2) frag_hdr_take(4) by simp
  have "drop (4 + length ex) (tbytes m) = get_bytes (4 + (4 + length ex)) (tlen m - (4 + length ex)) (m_buf m)"
    unfolding tbytes_def by (rule drop_get_bytes) (simp add: len)
  moreover have "4 + (4 + length ex) = 8 + length ex" by simp
  ultimately show "get_bytes (8 + length ex) (m_len m - DDTypedBufMsgOffset - (4 + length ex)) (m_buf m) = p"
    unfolding tlen_def d by simp
qed

lemma fnum_nz: "0 < n \<Longrightarrow> fnum n \<noteq> 0"
  by (cases n) (auto simp: next_frag_def)


section \<open>Delivering one fragment\<close>

text \<open>The receiver has the first \<open>n\<close> fragments of a message of \<open>t\<close>, with content \<open>data\<close>.\<close>

definition collected :: "taskid \<Rightarrow> nat \<Rightarrow> byte list \<Rightarrow> ser \<Rightarrow> bool" where
  "collected t n data s \<longleftrightarrow>
     (if n = 0 then data = [] else
      (\<exists>d. findRecvBuf t s = Some d \<and> content d = data \<and> db_nextFrag d = fnum n))"

definition recv_env :: "ser \<Rightarrow> bool" where
  "recv_env s \<longleftrightarrow> sendBuf s \<noteq> None \<and> memq s = [] \<and> recv_ok s"

lemma recv_env_simps [simp]:
  "sendBuf (putRecvBuf t s) = sendBuf s" "memq (putRecvBuf t s) = memq s"
  "sendBuf (set_recv t d s) = sendBuf s" "memq (set_recv t d s) = memq s"
  by (simp_all add: putRecvBuf_def set_recv_def)

lemma recv_env_put: "recv_env s \<Longrightarrow> recv_env (putRecvBuf t s)"
  by (simp add: recv_env_def recv_ok_put)

lemma append_frag_ok:
  assumes "memq s = []"
  shows "append_frag t p d s = (let d2 = d\<lparr>db_size := (if length (content d) + length p > db_size d
             then 2 * db_size d else db_size d), db_buf := Some (content d @ p), db_nextFrag := next_frag (db_nextFrag d)\<rparr>
     in (Some d2, set_recv t d2 s))"
  using assms by (auto simp: append_frag_def alloc_mem_def Let_def content_def)

lemma db_fits_append:
  assumes "db_fits d" "length p \<le> DEFAULT_BUFFER_SIZE" "db_buf d \<noteq> None"
  shows "db_fits (d\<lparr>db_size := (if length (content d) + length p > db_size d
             then 2 * db_size d else db_size d), db_buf := Some (content d @ p), db_nextFrag := k\<rparr>)"
  using assms by (auto simp: db_fits_def content_def)

text \<open>The buffer of a sender, put in the list if it has none.\<close>

definition stored :: "taskid \<Rightarrow> PS_DataBuffer \<Rightarrow> ser \<Rightarrow> ser" where
  "stored t d s = (if findRecvBuf t s = None then s\<lparr>recvBufs := recvBufs s @ [(t, d)]\<rparr> else set_recv t d s)"

lemma upd_assoc_new: "map_of xs k = None \<Longrightarrow> upd_assoc k v (xs @ [(k, e)]) = xs @ [(k, v)]"
  by (induction xs) (auto split: if_splits)

lemma set_recv_opened:
  "findRecvBuf t s = None \<Longrightarrow> set_recv t d (s\<lparr>recvBufs := recvBufs s @ [(t, e)]\<rparr>) = stored t d s"
  by (simp add: stored_def set_recv_def upd_assoc_new findRecvBuf_def)

lemma find_stored: "findRecvBuf t' (stored t d s) = (if t' = t then Some d else findRecvBuf t' s)"
  by (auto simp: stored_def find_set) (auto simp: findRecvBuf_def map_add_def split: option.splits)

lemma recv_ok_stored: "recv_ok s \<Longrightarrow> db_fits d \<Longrightarrow> recv_ok (stored t d s)"
  by (auto simp: stored_def recv_ok_set) (auto simp: recv_ok_def findRecvBuf_def map_of_eq_None_iff)

lemma recv_env_stored: "recv_env s \<Longrightarrow> db_fits d \<Longrightarrow> recv_env (stored t d s)"
  using recv_ok_stored by (auto simp: recv_env_def stored_def)

text \<open>What a fragment does, for a message with the header written by \<open>setupFragMsg\<close>.\<close>

definition old_buf :: "taskid \<Rightarrow> uint16 \<Rightarrow> ser \<Rightarrow> PS_DataBuffer" where
  "old_buf t num s = (if num = 0 then empty_db\<lparr>db_size := DEFAULT_BUFFER_SIZE, db_buf := Some []\<rparr>
     else case findRecvBuf t s of None \<Rightarrow> empty_db | Some d \<Rightarrow> d)"

definition new_buf :: "PS_DataBuffer \<Rightarrow> byte list \<Rightarrow> PS_DataBuffer" where
  "new_buf d p = d\<lparr>db_size := (if length (content d) + length p > db_size d then 2 * db_size d else db_size d),
     db_buf := Some (content d @ p), db_nextFrag := next_frag (db_nextFrag d)\<rparr>"

definition expected :: "taskid \<Rightarrow> ser \<Rightarrow> uint16" where
  "expected t s = (case findRecvBuf t s of None \<Rightarrow> 0 | Some d \<Rightarrow> db_nextFrag d)"

lemma recvFragMsg_good:
  assumes m: "msg_good m" "tbytes m = frag_hdr ex num ty @ p" "length ex \<le> 255" "m_sender m = t"
    and ty: "ty = FRAGMENT_PART \<or> ty = FRAGMENT_END" and s: "sendBuf s \<noteq> None" "memq s = []"
  shows "recvFragMsg m s =
    (if ty = FRAGMENT_END \<and> num = 0 then (RvDone p, s)
     else if num \<noteq> expected t s \<and> num \<noteq> 0 then (RvFail, s)
     else let d = new_buf (old_buf t num s) p; s1 = stored t d s in
       if ty = FRAGMENT_END then (RvDone (content d), putRecvBuf t s1) else (RvMore, s1))"
proof -
  note f = fetchFragHeader_good [OF m(1-3)] recv_payload [OF m(1,2)]
  show ?thesis
  proof (cases "findRecvBuf t s")
    case None
    then show ?thesis
      using s ty m(4) f
      by (auto simp: recvFragMsg_def is_short_def Let_def expected_def active_buf_def start_buf_def append_frag_ok
          alloc_mem_def resetBuf_def set_recv_opened new_buf_def old_buf_def FRAGMENT_END_def FRAGMENT_PART_def)
  next
    case (Some d)
    then have st: "\<And>x. stored t x s = set_recv t x s" by (simp add: stored_def)
    show ?thesis
      using s ty m(4) f Some
      by (auto simp: recvFragMsg_def is_short_def Let_def expected_def active_buf_def start_buf_def append_frag_ok st
          alloc_mem_def resetBuf_def new_buf_def old_buf_def FRAGMENT_END_def FRAGMENT_PART_def)
  qed
qed

section \<open>No buffer overflow\<close>

text \<open>What a step on behalf of sender \<open>t\<close> leaves alone.\<close>

definition only :: "taskid \<Rightarrow> ser \<Rightarrow> ser \<Rightarrow> bool" where
  "only t s s' \<longleftrightarrow> sendBuf s' = sendBuf s \<and> (memq s = [] \<longrightarrow> memq s' = [])
     \<and> (\<forall>t'. t' \<noteq> t \<longrightarrow> findRecvBuf t' s' = findRecvBuf t' s)"

lemma only_refl: "only t s s"
  by (simp add: only_def)

lemma only_trans: "only t s s' \<Longrightarrow> only t s' s'' \<Longrightarrow> only t s s''"
  by (simp add: only_def)

lemma alloc_mem_only: "only t s (snd (alloc_mem s)) \<and> recvBufs (snd (alloc_mem s)) = recvBufs s"
  by (auto simp: only_def alloc_mem_def findRecvBuf_def split: list.splits)

lemma put_only: "only t s (putRecvBuf t s)"
  by (simp add: only_def find_put)

lemma set_only: "only t s (set_recv t d s)"
  by (simp add: only_def find_set)

lemma active_buf_keeps:
  assumes "active_buf t s = (r, s1)" "recv_ok s"
  shows "recv_ok s1 \<and> only t s s1 \<and> (\<forall>d. r = Some d \<longrightarrow> findRecvBuf t s1 = Some d
    \<and> d = (case findRecvBuf t s of None \<Rightarrow> empty_db | Some d \<Rightarrow> d))"
proof (cases "findRecvBuf t s")
  case (Some d)
  with assms show ?thesis by (auto simp: active_buf_def only_refl)
next
  case None
  obtain ok s0 where a: "alloc_mem s = (ok, s0)" by (rule prod.exhaust)
  have k: "only t s s0" "recvBufs s0 = recvBufs s" using alloc_mem_only [of t s] a by simp_all
  show ?thesis
  proof (cases ok)
    case True
    have n: "findRecvBuf t s0 = None" using None k(2) by (simp add: findRecvBuf_def)
    have "db_fits empty_db" by (simp add: db_fits_def empty_db_def)
    moreover have "s1 = stored t empty_db s0" "r = Some empty_db"
      using assms(1) None a True n by (auto simp: active_buf_def stored_def)
    moreover have "recv_ok s0" using assms(2) k(2) by (simp add: recv_ok_def)
    moreover have "only t s0 (stored t empty_db s0)"
      using find_stored by (auto simp: only_def stored_def set_recv_def)
    ultimately have "recv_ok s1" "only t s s1" "findRecvBuf t s1 = Some empty_db" "r = Some empty_db"
      by (simp_all add: recv_ok_stored find_stored only_trans [OF k(1)])
    then show ?thesis using None by simp
  next
    case False
    then show ?thesis using assms None a k by (auto simp: active_buf_def recv_ok_def)
  qed
qed

lemma start_buf_keeps:
  assumes "start_buf t num d s = (r, s1)" "recv_ok s"
  shows "recv_ok s1 \<and> only t s s1 \<and> (\<forall>d1. r = Some d1 \<longrightarrow> findRecvBuf t s1 = findRecvBuf t s
    \<and> d1 = (if num = 0 then empty_db\<lparr>db_size := DEFAULT_BUFFER_SIZE, db_buf := Some []\<rparr> else d))"
proof (cases "num = 0")
  case False
  with assms show ?thesis by (auto simp: start_buf_def only_refl)
next
  case True
  obtain ok s0 where a: "alloc_mem s = (ok, s0)" by (rule prod.exhaust)
  have k: "only t s s0" "recvBufs s0 = recvBufs s" using alloc_mem_only [of t s] a by simp_all
  have o: "recv_ok s0" using assms(2) k(2) by (simp add: recv_ok_def)
  have p: "recv_ok (putRecvBuf t s0)" "only t s (putRecvBuf t s0)"
    using recv_ok_put [OF o] only_trans [OF k(1) put_only] by auto
  have f: "findRecvBuf t s0 = findRecvBuf t s" by (simp add: findRecvBuf_def k(2))
  show ?thesis
  proof (cases ok)
    case ok: True
    then have "r = Some (empty_db\<lparr>db_size := DEFAULT_BUFFER_SIZE, db_buf := Some []\<rparr>)" "s1 = s0"
      using assms(1) True a by (auto simp: start_buf_def resetBuf_def)
    then show ?thesis using o k(1) f True by simp
  next
    case False
    then have "r = None" "s1 = putRecvBuf t s0"
      using assms(1) True a by (auto simp: start_buf_def)
    then show ?thesis using p by simp
  qed
qed

lemma append_frag_keeps:
  assumes "append_frag t p d s = (r, s1)" "recv_ok s" "db_fits d" "db_buf d \<noteq> None"
    "length p \<le> DEFAULT_BUFFER_SIZE"
  shows "recv_ok s1 \<and> only t s s1 \<and> (\<forall>d1. r = Some d1 \<longrightarrow> content d1 = content d @ p)"
proof -
  let ?c = "length (content d) + length p > db_size d"
  obtain ok s0 where a: "(if ?c then alloc_mem s else (True, s)) = (ok, s0)" by (rule prod.exhaust)
  have k: "only t s s0" "recvBufs s0 = recvBufs s"
    using alloc_mem_only [of t s] a by (auto simp: only_refl split: if_splits)
  have o: "recv_ok s0" using assms(2) k(2) by (simp add: recv_ok_def)
  let ?d1 = "if ?c then d\<lparr>db_size := 2 * db_size d\<rparr> else d"
  let ?d2 = "?d1\<lparr>db_buf := Some (content ?d1 @ p), db_nextFrag := next_frag (db_nextFrag ?d1)\<rparr>"
  have eq: "append_frag t p d s = (if \<not> ok then (None, putRecvBuf t s0) else (Some ?d2, set_recv t ?d2 s0))"
    unfolding append_frag_def a by (simp add: Let_def)
  have "db_fits ?d2" using assms(3-5) by (auto simp: db_fits_def content_def)
  then have s: "recv_ok (set_recv t ?d2 s0)" by (rule recv_ok_set [OF o])
  have c: "content ?d2 = content d @ p" by (simp add: content_def)
  show ?thesis
  proof (cases ok)
    case True
    then have "r = Some ?d2" "s1 = set_recv t ?d2 s0" using assms(1) eq by simp_all
    then show ?thesis using s c only_trans [OF k(1) set_only] by simp
  next
    case False
    then have "r = None" "s1 = putRecvBuf t s0" using assms(1) eq by simp_all
    then show ?thesis using recv_ok_put [OF o] only_trans [OF k(1) put_only] by simp
  qed
qed

lemma append_short_keeps:
  assumes "append_short t es k d s = (r, s1)" "recv_ok s" "r \<noteq> RvUndef"
  shows "recv_ok s1 \<and> only t s s1"
proof -
  obtain ok s0 where a: "alloc_mem s = (ok, s0)" by (rule prod.exhaust)
  have k: "only t s s0" "recvBufs s0 = recvBufs s" using alloc_mem_only [of t s] a by simp_all
  have o: "recv_ok s0" using assms(2) k(2) by (simp add: recv_ok_def)
  have "s1 = putRecvBuf t s0" using assms(1,3) a by (auto simp: append_short_def split: if_splits)
  then show ?thesis using recv_ok_put [OF o] only_trans [OF k(1) put_only] by simp
qed

text \<open>Whatever a message does that is not undefined keeps the buffers in order.\<close>

lemma recvFragMsg_keeps:
  assumes "m_len m \<le> 1456" "recv_ok s" "fst (recvFragMsg m s) \<noteq> RvUndef"
  shows "recv_ok (snd (recvFragMsg m s)) \<and> only (m_sender m) s (snd (recvFragMsg m s))"
proof (cases "fetchFragHeader m")
  case None
  then show ?thesis using assms(2) by (simp add: recvFragMsg_def only_refl)
next
  case (Some x)
  obtain ty num es used where x: "x = (ty, num, es, used)" by (cases x) auto
  define t where "t = m_sender m"
  define p where "p = get_bytes (4 + used) (m_len m - DDTypedBufMsgOffset - used) (m_buf m)"
  have pl: "length p \<le> DEFAULT_BUFFER_SIZE"
    using assms(1) by (simp add: p_def DEFAULT_BUFFER_SIZE_def)
  note eq = recvFragMsg_def [of m s, unfolded Some x option.case prod.case Let_def,
      folded t_def, folded p_def]
  define exp where "exp = (case findRecvBuf t s of None \<Rightarrow> 0 | Some d \<Rightarrow> db_nextFrag d)"
  show ?thesis
  proof (cases "(ty \<noteq> FRAGMENT_PART \<and> ty \<noteq> FRAGMENT_END)
      \<or> (ty = FRAGMENT_END \<and> num = 0) \<or> sendBuf s = None \<or> (num \<noteq> exp \<and> num \<noteq> 0)")
    case True
    then have "snd (recvFragMsg m s) = s" unfolding eq exp_def by auto
    then show ?thesis using assms(2) by (simp add: only_refl)
  next
    case False
    obtain r1 s1 where 1: "active_buf t s = (r1, s1)" by (rule prod.exhaust)
    note k1 = active_buf_keeps [OF 1 assms(2)]
    have eq: "recvFragMsg m s = (case r1 of None \<Rightarrow> (RvFail, s1)
        | Some d \<Rightarrow> (case start_buf t num d s1 of (None, s2) \<Rightarrow> (RvFail, s2)
           | (Some d1, s2) \<Rightarrow> if is_short es used m then append_short t es (DDTypedBufMsgOffset + used - m_len m) d1 s2
               else (case append_frag t p d1 s2 of (None, s3) \<Rightarrow> (RvFail, s3)
              | (Some d2, s3) \<Rightarrow> if ty = FRAGMENT_END
                  then (RvDone (content d2), if num \<noteq> 0 then putRecvBuf t s3 else s3) else (RvMore, s3))))"
      unfolding eq using False by (auto simp: 1 exp_def)
    show ?thesis
    proof (cases r1)
      case None
      then show ?thesis using eq k1 by (simp add: t_def)
    next
      case (Some d)
      obtain r2 s2 where 2: "start_buf t num d s1 = (r2, s2)" by (rule prod.exhaust)
      from k1 have o1: "recv_ok s1" "only t s s1" by auto
      note k2 = start_buf_keeps [OF 2 o1(1)]
      show ?thesis
      proof (cases r2)
        case None
        then show ?thesis using eq 2 Some k2 only_trans [OF o1(2)] by (simp add: t_def)
      next
        case (Some d1)
        have d: "findRecvBuf t s1 = Some d" "d = (case findRecvBuf t s of None \<Rightarrow> empty_db | Some d \<Rightarrow> d)"
          using k1 \<open>r1 = Some d\<close> by auto
        have "exp = db_nextFrag d"
          unfolding exp_def d(2) by (auto simp: empty_db_def split: option.splits)
        then have nz: "db_buf d \<noteq> None \<and> db_fits d" if "num \<noteq> 0"
          using that False recv_ok_find [OF o1(1) d(1)] by (auto simp: db_fits_def split: option.splits)
        have d1: "db_buf d1 \<noteq> None" "db_fits d1"
          using nz k2 Some by (auto simp: db_fits_def)
        from k2 have o2: "recv_ok s2" "only t s s2" using only_trans [OF o1(2)] by auto
        show ?thesis
        proof (cases "is_short es used m")
          case True
          obtain r3 s3 where 3: "append_short t es (DDTypedBufMsgOffset + used - m_len m) d1 s2 = (r3, s3)" by (rule prod.exhaust)
          have e: "recvFragMsg m s = (r3, s3)" using eq 2 3 Some \<open>r1 = Some d\<close> True by simp
          then have "recv_ok s3 \<and> only t s2 s3" using append_short_keeps [OF 3 o2(1)] assms(3) by simp
          then show ?thesis using e only_trans [OF o2(2)] by (simp add: t_def)
        next
          case False
          obtain r3 s3 where 3: "append_frag t p d1 s2 = (r3, s3)" by (rule prod.exhaust)
          from append_frag_keeps [OF 3 o2(1) d1(2,1) pl]
          have o3: "recv_ok s3" "only t s s3" using only_trans [OF o2(2)] by auto
          have "snd (recvFragMsg m s) = s3 \<or> snd (recvFragMsg m s) = putRecvBuf t s3"
            using eq 2 3 Some \<open>r1 = Some d\<close> False by (auto split: option.splits)
          then show ?thesis
            using o3 recv_ok_put [OF o3(1)] only_trans [OF o3(2) put_only] by (auto simp: t_def)
        qed
      qed
    qed
  qed
qed

lemma recvFragMsg_undef: "fst (recvFragMsg m s) = RvUndef \<Longrightarrow> short_frag m"
  by (auto simp: recvFragMsg_def short_frag_def Let_def split: option.splits prod.splits if_splits)

lemma good_not_short: "msg_good m \<Longrightarrow> tbytes m = frag_hdr ex num ty @ p \<Longrightarrow> length ex \<le> 255 \<Longrightarrow> \<not> short_frag m"
  using fetchFragHeader_good [of m ex num ty p] recv_payload(2) [of m ex num ty p] by (simp add: short_frag_def is_short_def)

section \<open>Whole messages\<close>

lemma collected_other:
  "only t' s s' \<Longrightarrow> t \<noteq> t' \<Longrightarrow> collected t n data s' = collected t n data s"
  by (simp add: collected_def only_def)

lemma recv_env_only: "recv_env s \<Longrightarrow> only t s s' \<Longrightarrow> recv_ok s' \<Longrightarrow> recv_env s'"
  by (simp add: recv_env_def only_def)

lemma frag_cap_le: "frag_cap ex \<le> DEFAULT_BUFFER_SIZE"
  by (simp add: frag_cap_def msg_consts DEFAULT_BUFFER_SIZE_def)

lemma deliver_data:
  assumes s: "recv_env s" "collected t n data s" and p: "length p \<le> DEFAULT_BUFFER_SIZE"
  shows "let s1 = stored t (new_buf (old_buf t (fnum n) s) p) s in
     recv_env s1 \<and> collected t (Suc n) (data @ p) s1
     \<and> content (new_buf (old_buf t (fnum n) s) p) = data @ p"
proof -
  define d where "d = old_buf t (fnum n) s"
  have "content d = data \<and> db_nextFrag d = fnum n \<and> db_buf d \<noteq> None \<and> db_fits d"
  proof (cases "n = 0")
    case True
    then show ?thesis
      using s(2) by (simp add: d_def old_buf_def collected_def content_def db_fits_def empty_db_def)
  next
    case False
    then have nz: "fnum n \<noteq> 0" using fnum_nz by simp
    from s(2) False obtain d' where d': "findRecvBuf t s = Some d'" "content d' = data" "db_nextFrag d' = fnum n"
      by (auto simp: collected_def)
    have "db_fits d'" using recv_ok_find d'(1) s(1) by (auto simp: recv_env_def)
    moreover from this have "db_buf d' \<noteq> None" using nz d'(3) by (auto simp: db_fits_def split: option.splits)
    ultimately show ?thesis
      using d' nz by (simp add: d_def old_buf_def)
  qed
  then have d: "content d = data" "db_nextFrag d = fnum n" "db_buf d \<noteq> None" "db_fits d" by auto
  have "db_fits (new_buf d p)" unfolding new_buf_def by (rule db_fits_append [OF d(4) p d(3)])
  then have "recv_env (stored t (new_buf d p) s)" by (rule recv_env_stored [OF s(1)])
  moreover have "content (new_buf d p) = data @ p" using d(1) by (simp add: new_buf_def content_def)
  moreover have "db_nextFrag (new_buf d p) = fnum (Suc n)" using d(2) by (simp add: new_buf_def)
  ultimately show ?thesis by (simp add: d_def [symmetric] collected_def find_stored)
qed

lemma expected_collected: "collected t n data s \<Longrightarrow> \<not> (fnum n \<noteq> expected t s \<and> fnum n \<noteq> 0)"
  by (auto simp: collected_def expected_def split: if_splits)

lemma deliver_part:
  assumes m: "msg_good m" "m_sender m = t" "tbytes m = frag_hdr ex (fnum n) FRAGMENT_PART @ p" "length ex \<le> 255"
    and s: "recv_env s" "collected t n data s" and p: "length p \<le> DEFAULT_BUFFER_SIZE"
  shows "\<exists>s'. recvFragMsg m s = (RvMore, s') \<and> recv_env s' \<and> collected t (Suc n) (data @ p) s'"
proof -
  have e: "sendBuf s \<noteq> None" "memq s = []" using s(1) by (auto simp: recv_env_def)
  show ?thesis
    unfolding recvFragMsg_good [OF m(1,3,4,2) disjI1 [OF refl] e]
    using expected_collected [OF s(2)] deliver_data [OF s p]
    by (auto simp: FRAGMENT_PART_def FRAGMENT_END_def Let_def)
qed

lemma deliver_end:
  assumes m: "msg_good m" "m_sender m = t" "tbytes m = frag_hdr ex (fnum n) FRAGMENT_END @ p" "length ex \<le> 255"
    and s: "recv_env s" "collected t n data s" and p: "length p \<le> DEFAULT_BUFFER_SIZE"
  shows "\<exists>s'. recvFragMsg m s = (RvDone (data @ p), s') \<and> recv_env s' \<and> (n \<noteq> 0 \<longrightarrow> findRecvBuf t s' = None)"
proof -
  have e: "sendBuf s \<noteq> None" "memq s = []" using s(1) by (auto simp: recv_env_def)
  have n: "fnum n = 0 \<longleftrightarrow> n = 0" using fnum_nz [of n] by (cases "n = 0") auto
  show ?thesis
    unfolding recvFragMsg_good [OF m(1,3,4,2) disjI2 [OF refl] e]
    using expected_collected [OF s(2)] deliver_data [OF s p] s n recv_env_put find_put_same
    by (auto simp: Let_def collected_def recv_env_def)
qed

section \<open>Streams\<close>

text \<open>
  A stream of messages from any senders, with what each of them gave; it ends where the behaviour is undefined.
\<close>

fun recv_all :: "ddmsg list \<Rightarrow> ser \<Rightarrow> (taskid \<times> rcv) list \<times> ser" where
  "recv_all [] s = ([], s)"
| "recv_all (m # ms) s =
     (let (r, s1) = recvFragMsg m s; (rs, s2) = (if r = RvUndef then ([], s1) else recv_all ms s1)
      in ((m_sender m, r) # rs, s2))"

definition of_sender :: "taskid \<Rightarrow> (taskid \<times> rcv) list \<Rightarrow> rcv list" where
  "of_sender t rs = map snd (filter (\<lambda>x. fst x = t) rs)"

lemma of_sender_Cons: "of_sender t (x # rs) = (if fst x = t then snd x # of_sender t rs else of_sender t rs)"
  by (simp add: of_sender_def)

text \<open>The fragments \<open>n\<close>, \<open>n + 1\<close>, \<dots> of a message with the payloads \<open>ps\<close>; the last one ends it.\<close>

fun frag_stream :: "byte list \<Rightarrow> nat \<Rightarrow> byte list list \<Rightarrow> byte list list" where
  "frag_stream ex n [] = []"
| "frag_stream ex n [p] = [frag_hdr ex (fnum n) FRAGMENT_END @ p]"
| "frag_stream ex n (p # ps) = (frag_hdr ex (fnum n) FRAGMENT_PART @ p) # frag_stream ex (Suc n) ps"

lemma frag_stream_form: "b \<in> set (frag_stream ex n ps) \<Longrightarrow> \<exists>num ty p. b = frag_hdr ex num ty @ p"
  by (induction ex n ps rule: frag_stream.induct) auto

lemma recv_all_Cons:
  assumes "recvFragMsg m s = (r, s1)" "\<not> short_frag m"
  shows "recv_all (m # ms) s = ((m_sender m, r) # fst (recv_all ms s1), snd (recv_all ms s1))"
  using assms recvFragMsg_undef [of m s] by (auto simp: split_beta)

declare recv_all.simps(2) [simp del]

lemma recv_all_none:
  assumes "recv_env s" "\<forall>m\<in>set ms. m_len m \<le> 1456 \<and> \<not> short_frag m" "filter (\<lambda>m. m_sender m = t) ms = []"
  shows "of_sender t (fst (recv_all ms s)) = [] \<and> recv_env (snd (recv_all ms s))"
  using assms
proof (induction ms arbitrary: s)
  case (Cons m ms)
  obtain r s1 where r: "recvFragMsg m s = (r, s1)" by (rule prod.exhaust)
  have ns: "\<not> short_frag m" using Cons.prems(2) by simp
  have "recv_ok s1 \<and> only (m_sender m) s s1"
    using recvFragMsg_keeps [of m s] recvFragMsg_undef [of m s] Cons.prems(1,2) ns r by (auto simp: recv_env_def)
  then have "recv_env s1" using recv_env_only [OF Cons.prems(1)] by blast
  from Cons.IH [OF this] Cons.prems(2,3) show ?case
    by (simp add: recv_all_Cons [OF r ns] of_sender_Cons split: if_splits)
qed (simp add: of_sender_def)

lemma recv_all_stream:
  assumes "recv_env s" "collected t n data s" "length ex \<le> 255" "ps \<noteq> []"
    and "\<forall>p\<in>set ps. length p \<le> DEFAULT_BUFFER_SIZE"
    and "\<forall>m\<in>set ms. m_len m \<le> 1456 \<and> \<not> short_frag m \<and> (m_sender m = t \<longrightarrow> msg_good m)"
    and "map tbytes (filter (\<lambda>m. m_sender m = t) ms) = frag_stream ex n ps"
  shows "of_sender t (fst (recv_all ms s)) = replicate (length ps - 1) RvMore @ [RvDone (data @ concat ps)]
     \<and> recv_env (snd (recv_all ms s))"
  using assms
proof (induction ms arbitrary: s n data ps)
  case Nil
  then show ?case by (cases "(ex, n, ps)" rule: frag_stream.cases) auto
next
  case (Cons m ms)
  obtain r s1 where r: "recvFragMsg m s = (r, s1)" by (rule prod.exhaust)
  have ns: "\<not> short_frag m" using Cons.prems(6) by simp
  have keep: "recv_ok s1 \<and> only (m_sender m) s s1"
    using recvFragMsg_keeps [of m s] recvFragMsg_undef [of m s] Cons.prems(1,6) ns r by (auto simp: recv_env_def)
  note all = recv_all_Cons [OF r ns]
  show ?case
  proof (cases "m_sender m = t")
    case False
    have "recv_env s1" using recv_env_only [OF Cons.prems(1)] keep by blast
    moreover have "collected t n data s1" using collected_other keep False Cons.prems(2) by metis
    ultimately show ?thesis
      using Cons.IH [of s1 n data ps] Cons.prems False by (simp add: all of_sender_Cons)
  next
    case True
    then obtain p ps' where ps: "ps = p # ps'" using Cons.prems(4) by (cases ps) auto
    have p: "length p \<le> DEFAULT_BUFFER_SIZE" and good: "msg_good m" using Cons.prems(5,6) ps True by auto
    show ?thesis
    proof (cases ps')
      case Nil
      then have "tbytes m = frag_hdr ex (fnum n) FRAGMENT_END @ p"
        and rest: "filter (\<lambda>m. m_sender m = t) ms = []" using Cons.prems(7) ps True by auto
      from deliver_end [OF good True this(1) Cons.prems(3,1,2) p] r
      have "r = RvDone (data @ p)" "recv_env s1" by auto
      moreover have "of_sender t (fst (recv_all ms s1)) = [] \<and> recv_env (snd (recv_all ms s1))"
        using recv_all_none [OF \<open>recv_env s1\<close> _ rest] Cons.prems(6) by simp
      ultimately show ?thesis by (simp add: all of_sender_Cons True ps Nil)
    next
      case (Cons p' ps'')
      then have "tbytes m = frag_hdr ex (fnum n) FRAGMENT_PART @ p"
        and rest: "map tbytes (filter (\<lambda>m. m_sender m = t) ms) = frag_stream ex (Suc n) ps'"
        using Cons.prems(7) ps True by auto
      from deliver_part [OF good True this(1) Cons.prems(3,1,2) p] r
      have "r = RvMore" "recv_env s1" "collected t (Suc n) (data @ p) s1" by auto
      then show ?thesis using Cons.IH [of s1 "Suc n" "data @ p" ps'] Cons.prems(3,5,6) rest
        by (simp add: all of_sender_Cons True ps Cons)
    qed
  qed
qed

section \<open>What the sender sends is such a stream\<close>

definition pieces :: "byte list \<Rightarrow> byte list \<Rightarrow> byte list list" where
  "pieces ex data = (let q = length data div frag_cap ex in
     map (\<lambda>i. chunk ex i data) [0..<q] @ [drop (q * frag_cap ex) data])"

lemma concat_chunks: "concat (map (\<lambda>i. chunk ex i data) [0..<q]) = take (q * frag_cap ex) data"
proof (induction q)
  case (Suc q)
  have "take (Suc q * frag_cap ex) data = take (q * frag_cap ex + frag_cap ex) data" by (simp add: add.commute)
  then show ?case unfolding take_add using Suc by (simp add: chunk_def)
qed simp

lemma concat_pieces: "concat (pieces ex data) = data"
  by (simp add: pieces_def Let_def concat_chunks)

lemma pieces_le:
  assumes "length ex \<le> 255" "p \<in> set (pieces ex data)"
  shows "length p \<le> DEFAULT_BUFFER_SIZE"
proof -
  have c: "0 < frag_cap ex" using frag_cap_pos [OF assms(1)] by simp
  have "length data - length data div frag_cap ex * frag_cap ex = length data mod frag_cap ex"
    by (simp add: minus_div_mult_eq_mod)
  also have "\<dots> \<le> frag_cap ex" using c by (simp add: less_imp_le)
  finally have "length p \<le> frag_cap ex" using assms(2) by (auto simp: pieces_def Let_def chunk_def)
  then show ?thesis using frag_cap_le [of ex] by simp
qed

lemma frag_stream_index:
  "frag_stream ex n (map f [0..<q] @ [p]) =
     map (\<lambda>i. frag_hdr ex (fnum (n + i)) FRAGMENT_PART @ f i) [0..<q] @ [frag_hdr ex (fnum (n + q)) FRAGMENT_END @ p]"
proof (induction q arbitrary: f n)
  case (Suc q)
  have u: "[0..<Suc q] = 0 # map Suc [0..<q]" by (simp add: map_Suc_upt upt_conv_Cons del: upt_Suc)
  have c: "\<And>xs. xs \<noteq> [] \<Longrightarrow> frag_stream ex n (f 0 # xs) = (frag_hdr ex (fnum n) FRAGMENT_PART @ f 0) # frag_stream ex (Suc n) xs"
    by (metis frag_stream.simps(3) list.exhaust)
  show ?case unfolding u using Suc [of "Suc n" "f \<circ> Suc"] by (simp add: c comp_def)
qed simp

lemma filter_concat_one:
  assumes "distinct ords" "d \<in> set ords"
  shows "filter (\<lambda>x. fst x = d) (map (\<lambda>d. (d, g d)) ords) = [(d, g d)]"
  using assms by (induction ords) (auto simp: filter_empty_conv)

lemma msg_views_dest:
  assumes "distinct ords" "d \<in> set ords"
  shows "filter (\<lambda>x. fst x = d) (msg_views ex ords t data) = map (\<lambda>x. (d, t, x)) (frag_stream ex 0 (pieces ex data))"
  by (simp add: msg_views_def frag_views_def pieces_def Let_def frag_stream_index filter_concat comp_def
      filter_concat_one [OF assms])

text \<open>A node that goes down takes the buffers of its tasks with it, and no other.\<close>

lemma find_nodeDown:
  assumes "PSC_validNode (s_numNodes s) node"
  shows "findRecvBuf t (nodeDownHandler node s) =
    (if PSC_getID (s_myID s) t = node then None else findRecvBuf t s)"
proof -
  have "map_of (filter (\<lambda>(t, d). PSC_getID me t \<noteq> node) xs) t =
      (if PSC_getID me t = node then None else map_of xs t)" for me and xs :: "(taskid \<times> PS_DataBuffer) list"
    by (induction xs) auto
  then show ?thesis using assms by (simp add: nodeDownHandler_def findRecvBuf_def)
qed

lemma recv_ok_nodeDown: "recv_ok s \<Longrightarrow> recv_ok (nodeDownHandler node s)"
  by (auto simp: recv_ok_def nodeDownHandler_def distinct_map_filter)

end
