(* ===== verification/Ser_Safe.thy ===== *)
theory Ser_Safe
  imports Ser_Recv
begin

text \<open>
  Safety of the data buffers and of the list of destinations: unpacking stays within the used bytes
  whatever they are, an error sticks, growing a buffer makes the room that was asked for, and
  destinations stay within the array.
\<close>

section \<open>Unpacking arbitrary bytes\<close>

text \<open>A buffer whose read pointer lies in its used bytes.\<close>

definition db_wf :: "PS_DataBuffer \<Rightarrow> bool" where
  "db_wf d \<longleftrightarrow> (case db_unpack d of UOff k \<Rightarrow> k \<le> length (content d) | UNull \<Rightarrow> True | UStale \<Rightarrow> False)"

text \<open>
  What every function that unpacks keeps: the bytes, a good pointer, and where it does not give a
  value the error is set.
\<close>

definition reads_well :: "PS_DataBuffer \<Rightarrow> 'a rd \<times> PS_DataBuffer \<Rightarrow> bool" where
  "reads_well d r \<longleftrightarrow> fst r \<noteq> Undef \<and> content (snd r) = content d \<and> db_wf (snd r)
     \<and> (fst r = Bad \<longrightarrow> db_err (snd r) \<noteq> E_PSSERIAL_SUCCESS)
     \<and> (db_err d \<noteq> E_PSSERIAL_SUCCESS \<and> db_unpack d \<noteq> UNull \<longrightarrow> fst r = Bad \<and> snd r = d)"

lemma verifyDataBuf_cases:
  "verifyDataBuf cfg sz add d = (ok, d1) \<Longrightarrow>
     (if ok then d1 = d \<and> db_err d = E_PSSERIAL_SUCCESS
        \<and> (if add \<and> typeInfo cfg then 1 + sz else sz) \<le> PSdbGetAvail d
      else db_err d1 \<noteq> E_PSSERIAL_SUCCESS \<and> d1 = d\<lparr>db_err := db_err d1\<rparr>
        \<and> (db_err d \<noteq> E_PSSERIAL_SUCCESS \<longrightarrow> d1 = d))"
  by (auto simp: verifyDataBuf_def split: if_splits)

lemma verifyTypeInfo_cases:
  "verifyTypeInfo cfg ty k d = (ok, k', d2) \<Longrightarrow>
     k' = (if typeInfo cfg then k + 1 else k) \<and> content d2 = content d
     \<and> (db_unpack d = UOff k \<longrightarrow> db_unpack d2 = UOff k')
     \<and> (if ok then db_err d2 = db_err d else db_err d2 = E_PSSERIAL_TYPE)"
  by (auto simp: verifyTypeInfo_def Let_def split: if_splits)

lemma getFromBuf_well:
  assumes "db_wf d"
  shows "reads_well d (getFromBuf cfg ty sz d)"
proof (cases "db_unpack d")
  case UNull
  then show ?thesis by (simp add: getFromBuf_def reads_well_def db_wf_def)
next
  case UStale
  then show ?thesis using assms by (simp add: db_wf_def)
next
  case (UOff k)
  obtain ok d1 where 1: "verifyDataBuf cfg sz True d = (ok, d1)" by (rule prod.exhaust)
  note c1 = verifyDataBuf_cases [OF 1]
  show ?thesis
  proof (cases ok)
    case False
    then obtain e where "d1 = d\<lparr>db_err := e\<rparr>" using c1 by auto
    then have "content d1 = content d" "db_unpack d1 = UOff k" using UOff by simp_all
    then show ?thesis using False 1 c1 UOff assms by (simp add: getFromBuf_def reads_well_def db_wf_def)
  next
    case True
    then have d1: "d1 = d" "db_err d = E_PSSERIAL_SUCCESS" "(if typeInfo cfg then 1 + sz else sz) \<le> length (content d) - k"
      using c1 UOff by (simp_all add: PSdbGetAvail_def)
    obtain ok2 k' d2 where 2: "verifyTypeInfo cfg ty k d = (ok2, k', d2)" by (metis prod_cases3)
    note c2 = verifyTypeInfo_cases [OF 2]
    have k: "k \<le> length (content d)" using assms UOff by (simp add: db_wf_def)
    then have "k' + sz \<le> length (content d) \<or> typeInfo cfg \<and> length (content d) = k" using d1(3) c2
      by (auto split: if_splits)
    then have k': "k' + sz \<le> length (content d)" using d1(3) by auto
    show ?thesis
      using 1 2 True UOff d1 c2 k' by (cases ok2) (auto simp: getFromBuf_def reads_well_def db_wf_def Let_def)
  qed
qed

lemma getMemFromBuf_well:
  assumes "db_wf d"
  shows "reads_well d (getMemFromBuf cfg alloc dest ty d)"
proof (cases "db_unpack d")
  case UNull
  then show ?thesis by (simp add: getMemFromBuf_def reads_well_def db_wf_def)
next
  case UStale
  then show ?thesis using assms by (simp add: db_wf_def)
next
  case (UOff k)
  obtain ok d1 where 1: "verifyDataBuf cfg 4 True d = (ok, d1)" by (rule prod.exhaust)
  note c1 = verifyDataBuf_cases [OF 1]
  show ?thesis
  proof (cases ok)
    case False
    then obtain e where "d1 = d\<lparr>db_err := e\<rparr>" using c1 by auto
    then have "content d1 = content d" "db_unpack d1 = UOff k" using UOff by simp_all
    then show ?thesis using False 1 c1 UOff assms by (simp add: getMemFromBuf_def reads_well_def db_wf_def)
  next
    case True
    then have d1: "d1 = d" "db_err d = E_PSSERIAL_SUCCESS" "(if typeInfo cfg then 1 + 4 else 4) \<le> length (content d) - k"
      using c1 UOff by (simp_all add: PSdbGetAvail_def)
    obtain ok2 k' d2 where 2: "verifyTypeInfo cfg ty k d = (ok2, k', d2)" by (metis prod_cases3)
    note c2 = verifyTypeInfo_cases [OF 2]
    have k: "k \<le> length (content d)" using assms UOff by (simp add: db_wf_def)
    then have k': "k' + 4 \<le> length (content d)" using d1(3) c2 by (auto split: if_splits)
    show ?thesis
    proof (cases ok2)
      case False
      then show ?thesis
        using 1 2 True UOff d1 c2 k' by (auto simp: getMemFromBuf_def reads_well_def db_wf_def)
    next
      case ok2: True
      define l where "l = le_nat (if byteOrder cfg then rev (take 4 (drop k' (content d2))) else take 4 (drop k' (content d2)))"
      define d3 where "d3 = d2\<lparr>db_unpack := UOff (k' + 4)\<rparr>"
      obtain ok4 d4 where 4: "verifyDataBuf cfg l False d3 = (ok4, d4)" by (rule prod.exhaust)
      have d3: "db_unpack d3 = UOff (k' + 4)" "content d3 = content d" "db_err d3 = E_PSSERIAL_SUCCESS"
        using c2 d1(2) ok2 by (simp_all add: d3_def)
      have eq: "getMemFromBuf cfg alloc dest ty d = (case (ok4, d4) of
            (False, d4) \<Rightarrow> (Bad, d4)
          | (True, d4) \<Rightarrow>
              if (case dest of Some destSize \<Rightarrow> l \<ge> destSize | None \<Rightarrow> False)
              then (Bad, d4\<lparr>db_err := E_PSSERIAL_BUFSIZE\<rparr>)
              else if dest = None \<and> \<not> alloc then (Bad, d4\<lparr>db_err := E_PSSERIAL_MEM\<rparr>)
              else (Got (terminate_str ty (take l (drop (k' + 4) (content d4)))),
                    d4\<lparr>db_unpack := UOff (k' + 4 + l)\<rparr>))"
        unfolding 4 [symmetric] l_def d3_def using UOff 1 2 True ok2 d1(1) by (simp add: getMemFromBuf_def Let_def)
      show ?thesis
      proof (cases ok4)
        case False
        then obtain e where "d4 = d3\<lparr>db_err := e\<rparr>" "e \<noteq> E_PSSERIAL_SUCCESS"
          using verifyDataBuf_cases [OF 4] by (cases d4) auto
        then show ?thesis using False eq d3 k' d1(2) by (simp add: reads_well_def db_wf_def)
      next
        case True
        then have d4: "d4 = d3" "l \<le> length (content d) - (k' + 4)"
          using verifyDataBuf_cases [OF 4] d3 by (auto simp: PSdbGetAvail_def)
        have "k' + 4 + l \<le> length (content d)" using k' d4(2) by linarith
        then show ?thesis using eq True d4(1) d3 k' d1(2) by (auto simp: reads_well_def db_wf_def)
      qed
    qed
  qed
qed

text \<open>A sequence of reads: after the first that fails the rest fail too.\<close>

lemma reads_wellE:
  assumes "reads_well d r"
  obtains v d1 where "r = (Got v, d1)" "content d1 = content d" "db_wf d1" "db_err d = E_PSSERIAL_SUCCESS \<or> db_unpack d = UNull"
  | d1 where "r = (Bad, d1)" "content d1 = content d" "db_wf d1" "db_err d1 \<noteq> E_PSSERIAL_SUCCESS"
     "db_err d \<noteq> E_PSSERIAL_SUCCESS \<and> db_unpack d \<noteq> UNull \<longrightarrow> d1 = d"
  using assms by (cases r; cases "fst r") (auto simp: reads_well_def)

lemma get_values_well:
  assumes "db_wf d"
  shows "case get_values cfg ty sz n d of (r, d1) \<Rightarrow> r \<noteq> Undef \<and> content d1 = content d \<and> db_wf d1
     \<and> (r = Bad \<longrightarrow> db_err d1 \<noteq> E_PSSERIAL_SUCCESS) \<and> (\<forall>vs. r = Got vs \<longrightarrow> length vs = n)"
  using assms
proof (induction n arbitrary: d)
  case (Suc n)
  from getFromBuf_well [OF Suc.prems, of cfg ty sz] show ?case
  proof (cases rule: reads_wellE)
    case (1 v d1)
    obtain r d2 where 2: "get_values cfg ty sz n d1 = (r, d2)" by (rule prod.exhaust)
    from Suc.IH [OF 1(3)] show ?thesis using 1 2 by (cases r) auto
  qed auto
qed simp

lemma get_strings_well:
  assumes "db_wf d"
  shows "case get_strings cfg alloc n d of (r, d1) \<Rightarrow> r \<noteq> Undef \<and> content d1 = content d \<and> db_wf d1
     \<and> (r = Bad \<longrightarrow> db_err d1 \<noteq> E_PSSERIAL_SUCCESS) \<and> (\<forall>vs. r = Got vs \<longrightarrow> length vs = n)"
  using assms
proof (induction n arbitrary: d)
  case (Suc n)
  from getMemFromBuf_well [OF Suc.prems, of cfg alloc None PSDATA_STRING] show ?case
  proof (cases rule: reads_wellE)
    case (1 v d1)
    obtain r d2 where 2: "get_strings cfg alloc n d1 = (r, d2)" by (rule prod.exhaust)
    from Suc.IH [OF 1(3)] show ?thesis using 1 2 by (cases r) auto
  qed auto
qed simp

section \<open>Growing a buffer\<close>

lemma round_block: "0 < n \<Longrightarrow> 0 < c \<Longrightarrow> n \<le> ((n - 1) div c + 1) * c" for n c :: nat
proof -
  assume "0 < n" "0 < c"
  then have "n - 1 < ((n - 1) div c + 1) * c"
    by (metis Suc_eq_plus1 mult.commute mult_Suc_right dividend_less_times_div add.commute)
  then show ?thesis using \<open>0 < n\<close> by linarith
qed

text \<open>The bytes of a buffer lie within what was allocated.\<close>

definition db_room :: "PS_DataBuffer \<Rightarrow> bool" where
  "db_room d \<longleftrightarrow> (db_buf d \<noteq> None \<longrightarrow> length (content d) \<le> db_size d)"

lemma growDataBuffer_spec:
  assumes "growDataBuffer alloc len d = (ok, d')"
  shows "content d' = content d \<and> (db_room d \<longrightarrow> db_room d')
    \<and> (ok \<and> 0 < len \<longrightarrow> length (content d) + len \<le> db_size d')
    \<and> (ok \<longrightarrow> db_size d' \<le> UINT32_MAX \<or> d' = d)
    \<and> (\<not> ok \<longrightarrow> d' = (if db_buf d = None then empty_db else d))"
proof -
  define d0 where "d0 = (if db_buf d = None then resetBuf d else d)"
  define n where "n = (if len \<noteq> 0 then ((length (content d0) + len - 1) div BufMsgSize + 1) * BufMsgSize
    else if db_size d0 \<noteq> 0 then db_size d0 else BufMsgSize)"
  have c: "content d0 = content d" by (simp add: d0_def content_def resetBuf_def empty_db_def)
  have r0: "db_room d \<longrightarrow> db_room d0" by (auto simp: d0_def db_room_def resetBuf_def empty_db_def)
  have n: "length (content d) + len \<le> n" if "0 < len"
    using round_block [of "length (content d0) + len" BufMsgSize] that by (simp add: n_def c msg_consts)
  have eq: "growDataBuffer alloc len d = (if n > UINT32_MAX then (False, d0)
     else if n > db_size d0 then (if \<not> alloc then (False, d0)
        else (True, d0\<lparr>db_buf := Some (content d0), db_size := n,
           db_unpack := (case db_unpack d0 of UNull \<Rightarrow> UNull | _ \<Rightarrow> UStale)\<rparr>))
     else (True, d0))"
    unfolding growDataBuffer_def Let_def d0_def [symmetric] n_def [symmetric] ..
  have z: "d0 = d \<or> db_size d0 = 0" by (simp add: d0_def resetBuf_def empty_db_def)
  have e: "d0 = (if db_buf d = None then empty_db else d)" by (simp add: d0_def resetBuf_def)
  show ?thesis
  proof (cases "n > UINT32_MAX \<or> n > db_size d0 \<and> \<not> alloc")
    case True
    then have "ok = False \<and> d' = d0" using assms unfolding eq by (auto split: if_splits)
    then show ?thesis using c r0 e by simp
  next
    case False
    show ?thesis
    proof (cases "n > db_size d0")
      case True
      then have "ok" and d': "d' = d0\<lparr>db_buf := Some (content d0), db_size := n,
           db_unpack := (case db_unpack d0 of UNull \<Rightarrow> UNull | _ \<Rightarrow> UStale)\<rparr>"
        using assms False unfolding eq by auto
      have c': "content d' = content d" using c by (simp add: d' content_def)
      moreover have "db_room d \<longrightarrow> length (content d) \<le> n"
        using r0 True c by (auto simp: db_room_def content_def d0_def resetBuf_def empty_db_def split: if_splits)
      ultimately show ?thesis using n False \<open>ok\<close> by (auto simp: db_room_def d')
    next
      case ge: False
      then have "ok" "d' = d0" using assms False unfolding eq by auto
      then show ?thesis using n ge z c r0 by (auto simp: UINT32_MAX_def)
    qed
  qed
qed

lemma memToDataBuffer_spec:
  assumes "memToDataBuffer alloc mem d = (ok, d')" "db_room d"
  shows "db_room d' \<and> content d' = (if ok then content d @ mem else content d)"
proof -
  obtain r d1 where 1: "growDataBuffer alloc (length mem) d = (r, d1)" by (rule prod.exhaust)
  note g = growDataBuffer_spec [OF 1]
  show ?thesis
  proof (cases r)
    case True
    then have "ok" "d' = d1\<lparr>db_buf := Some (content d1 @ mem)\<rparr>" using assms 1 by (auto simp: memToDataBuffer_def)
    moreover from this have "content d' = content d1 @ mem" by (simp add: content_def)
    moreover have "mem = [] \<longrightarrow> length (content d) \<le> db_size d1"
      using g assms(2) by (auto simp: db_room_def content_def split: option.splits)
    ultimately show ?thesis using g True by (cases "mem = []") (auto simp: db_room_def)
  next
    case False
    then show ?thesis using assms 1 g by (auto simp: memToDataBuffer_def)
  qed
qed

section \<open>Destinations\<close>

text \<open>A caller's loop over the destinations; rejected ones are left out.\<close>

fun add_dests :: "taskid list \<Rightarrow> PS_SendDB \<Rightarrow> ser \<Rightarrow> PS_SendDB \<times> ser" where
  "add_dests [] b s = (b, s)"
| "add_dests (d # ds) b s = (case setFragDestUniq d b s of (_, b1, s1) \<Rightarrow> add_dests ds b1 s1)"

definition dests :: "PS_SendDB \<Rightarrow> ser \<Rightarrow> taskid list" where
  "dests b s = take (numDest b) (the (destTIDs s))"

definition dest_ok :: "PS_SendDB \<Rightarrow> ser \<Rightarrow> bool" where
  "dest_ok b s \<longleftrightarrow> (\<exists>ds. destTIDs s = Some ds \<and> int (length ds) = sint (s_numNodes s)
     \<and> numDest b \<le> length ds \<and> distinct (take (numDest b) ds))"

definition ok_dest :: "ser \<Rightarrow> taskid \<Rightarrow> bool" where
  "ok_dest s d \<longleftrightarrow> PSC_validNode (s_numNodes s) (PSC_getID (s_myID s) d)"

lemma setFragDestUniq_spec:
  assumes "dest_ok b s"
  shows "\<exists>r b' s'. setFragDestUniq d b s = (r, b', s') \<and> dest_ok b' s' \<and> s_myID s' = s_myID s
     \<and> s_numNodes s' = s_numNodes s
     \<and> dests b' s' = (if r then dests b s @ [d] else dests b s)
     \<and> (r \<longleftrightarrow> d \<notin> set (dests b s) \<and> ok_dest s d \<and> int (numDest b) < sint (s_numNodes s))"
proof -
  from assms obtain ds where ds: "destTIDs s = Some ds" "int (length ds) = sint (s_numNodes s)"
    "numDest b \<le> length ds" "distinct (take (numDest b) ds)" by (auto simp: dest_ok_def)
  show ?thesis
  proof (cases "d \<notin> set (dests b s) \<and> ok_dest s d \<and> int (numDest b) < sint (s_numNodes s)")
    case True
    then have lt: "numDest b < length ds" using ds by simp
    then have tk: "take (Suc (numDest b)) (ds[numDest b := d]) = take (numDest b) ds @ [d]"
      by (simp add: take_Suc_conv_app_nth)
    then show ?thesis using ds True lt
      by (auto simp: setFragDestUniq_def setFragDest_def dests_def ok_dest_def dest_ok_def)
  next
    case False
    then show ?thesis using ds
      by (auto simp: setFragDestUniq_def setFragDest_def dests_def ok_dest_def dest_ok_def)
  qed
qed

lemma add_dests_spec:
  assumes "dest_ok b s" "int (numDest b + length ds) \<le> sint (s_numNodes s)" "add_dests ds b s = (b', s')"
  shows "dest_ok b' s' \<and> distinct (dests b' s')
     \<and> (\<exists>new. dests b' s' = dests b s @ new \<and> set new \<subseteq> set ds)
     \<and> set (dests b' s') = set (dests b s) \<union> {d \<in> set ds. ok_dest s d}"
  using assms
proof (induction ds arbitrary: b s)
  case Nil
  then show ?case by (auto simp: dest_ok_def dests_def)
next
  case (Cons d ds)
  from setFragDestUniq_spec [OF Cons.prems(1), of d] obtain r b1 s1 where
    1: "setFragDestUniq d b s = (r, b1, s1)" "dest_ok b1 s1" "s_myID s1 = s_myID s" "s_numNodes s1 = s_numNodes s"
      "dests b1 s1 = (if r then dests b s @ [d] else dests b s)"
      "r \<longleftrightarrow> d \<notin> set (dests b s) \<and> ok_dest s d \<and> int (numDest b) < sint (s_numNodes s)" by blast
  have lt: "int (numDest b) < sint (s_numNodes s)" using Cons.prems(2) by simp
  have len: "length (dests x y) = numDest x" if "dest_ok x y" for x y
    using that by (auto simp: dest_ok_def dests_def)
  have "numDest b1 \<le> numDest b + 1"
    using len [OF 1(2)] len [OF Cons.prems(1)] 1(5) by (auto split: if_splits)
  then have "int (numDest b1 + length ds) \<le> sint (s_numNodes s1)" using Cons.prems(2) 1(4) by simp
  moreover have "add_dests ds b1 s1 = (b', s')" using Cons.prems(3) 1(1) by simp
  ultimately have IH: "dest_ok b' s' \<and> distinct (dests b' s')
     \<and> (\<exists>new. dests b' s' = dests b1 s1 @ new \<and> set new \<subseteq> set ds)
     \<and> set (dests b' s') = set (dests b1 s1) \<union> {d \<in> set ds. ok_dest s1 d}"
    using Cons.IH [OF 1(2)] by blast
  have "ok_dest s1 = ok_dest s" using 1(3,4) by (simp add: ok_dest_def fun_eq_iff)
  with IH 1(5,6) lt show ?case by (cases r) auto
qed

section \<open>The receiver as a machine\<close>

text \<open>\<open>None\<close>: something undefined has happened.\<close>

datatype recv_op = ORecv ddmsg | ODown nodeid

fun recv_step :: "recv_op \<Rightarrow> ser option \<Rightarrow> ser option" where
  "recv_step ev None = None"
| "recv_step (ORecv m) (Some s) = (case recvFragMsg m s of (r, s1) \<Rightarrow> if r = RvUndef then None else Some s1)"
| "recv_step (ODown n) (Some s) = Some (nodeDownHandler n s)"

text \<open>
  No message is longer than the buffers that messages are received into.  The machine of the invariant skips
  others; a run without them does the same there.
\<close>

fun msg_sized :: "recv_op \<Rightarrow> bool" where
  "msg_sized (ORecv m) \<longleftrightarrow> m_len m \<le> 1456"
| "msg_sized (ODown n) \<longleftrightarrow> True"

definition sized_step :: "recv_op \<Rightarrow> ser option \<Rightarrow> ser option" where
  "sized_step ev st = (if msg_sized ev then recv_step ev st else st)"

definition recv_inv :: "ser option \<Rightarrow> bool" where
  "recv_inv st \<longleftrightarrow> (case st of None \<Rightarrow> True | Some s \<Rightarrow> recv_ok s)"

interpretation recvs: inv_machine sized_step recv_inv
proof
  fix st e
  assume "recv_inv st"
  then show "recv_inv (sized_step e st)"
  proof (cases "(e, st)" rule: recv_step.cases)
    case (2 m s)
    obtain r s1 where "recvFragMsg m s = (r, s1)" by (rule prod.exhaust)
    then show ?thesis using recvFragMsg_keeps [of m s] \<open>recv_inv st\<close> 2 by (auto simp: recv_inv_def sized_step_def)
  qed (use \<open>recv_inv st\<close> recv_ok_nodeDown in \<open>auto simp: recv_inv_def sized_step_def\<close>)
qed

lemma recv_run_inv:
  assumes "recv_ok s" "\<forall>e \<in> set es. msg_sized e"
  shows "recv_inv (fold recv_step es (Some s))"
proof -
  have "fold recv_step es (Some s) = fold sized_step es (Some s)"
    by (rule fold_cong) (use assms(2) in \<open>auto simp: sized_step_def fun_eq_iff\<close>)
  then show ?thesis using recvs.run_inv [of "Some s" es] assms(1) by (simp add: recv_inv_def)
qed

text \<open>Only a message that is shorter than its header says makes a run undefined.\<close>

lemma recv_run_defined:
  "\<forall>m. ORecv m \<in> set es \<longrightarrow> \<not> short_frag m \<Longrightarrow> \<exists>s'. fold recv_step es (Some s) = Some s'"
proof (induction es arbitrary: s)
  case (Cons e es)
  have "\<exists>s1. recv_step e (Some s) = Some s1"
  proof (cases e)
    case (ORecv m)
    then have "fst (recvFragMsg m s) \<noteq> RvUndef" using Cons.prems recvFragMsg_undef [of m s] by auto
    then show ?thesis using ORecv by (auto split: prod.splits)
  qed simp
  then show ?case using Cons by auto
qed simp

end
