(* ===== verification/Ser_Props.thy ===== *)
theory Ser_Props
  imports Ser_Safe
begin

text \<open>
  The properties of serialisation, each with a witness where it has hypotheses.  The witnesses run
  on node 0 of four nodes, \<open>ex_ser\<close>, with type information and network byte order switched on.
\<close>

section \<open>Concrete states\<close>

definition ex_cfg :: sercfg where
  "ex_cfg = \<lparr>byteOrder = True, typeInfo = True\<rparr>"

definition ex_tid :: "nodeid \<Rightarrow> taskid" where
  "ex_tid n = PSC_getTID 0 n 17"

definition blank_msg :: ddmsg where
  "blank_msg = \<lparr>m_type = 0, m_len = 0, m_sender = 0, m_dest = 0, m_subtype = 0, m_buf = (\<lambda>_. 0)\<rparr>"

definition ex_ser :: ser where
  "ex_ser = \<lparr>s_cfg = ex_cfg, sendBuf = Some (\<lambda>_. 0), sendBufLen = DEFAULT_BUFFER_SIZE,
     destTIDs = Some [0, 0, 0, 0], fragMsg = blank_msg, sendPSMsg = True, recvBufs = [], activeUsers = 1,
     s_myID = 0, s_myTID = ex_tid 0, s_numNodes = 4, memq = [], sendres = [], sent = []\<rparr>"

definition ex_sdb :: PS_SendDB where
  "ex_sdb = \<lparr>sd_buf = False, bufUsed = 0, useFrag = False, headType = 0, msgType = 0, fragNum = 0,
     numDest = 0, extra = []\<rparr>"

lemma ex_ser_dest_ok: "numDest b = 0 \<Longrightarrow> dest_ok b ex_ser"
  by (simp add: dest_ok_def ex_ser_def)

lemma ex_ids: "PSC_getID 0 (ex_tid 0) = 0" "PSC_getID 0 (ex_tid 1) = 1" "PSC_getID 0 (ex_tid 2) = 2"
  by (simp_all add: ex_tid_def getID_getTID)

lemma ex_tids_neq: "ex_tid 1 \<noteq> ex_tid 2" "ex_tid 0 \<noteq> ex_tid 1"
proof -
  have "(1::nodeid) \<noteq> 2" "(0::nodeid) \<noteq> 1" by simp_all
  then show "ex_tid 1 \<noteq> ex_tid 2" "ex_tid 0 \<noteq> ex_tid 1" using ex_ids by metis+
qed

section \<open>Fragments there and back\<close>

text \<open>A buffer set up for sending in fragments to \<open>ds\<close>.\<close>

lemma add_dests_frame:
  "add_dests ds b s = (b', s') \<Longrightarrow> b' = b\<lparr>numDest := numDest b'\<rparr> \<and> s' = s\<lparr>destTIDs := destTIDs s'\<rparr>"
proof (induction ds arbitrary: b s)
  case (Cons d ds)
  obtain r b1 s1 where 1: "setFragDestUniq d b s = (r, b1, s1)" by (metis prod_cases3)
  then have "b1 = b\<lparr>numDest := numDest b1\<rparr> \<and> s1 = s\<lparr>destTIDs := destTIDs s1\<rparr>"
    by (auto simp: setFragDestUniq_def setFragDest_def split: option.splits if_splits)
  then obtain k l where k: "b1 = b\<lparr>numDest := k\<rparr>" "s1 = s\<lparr>destTIDs := l\<rparr>" by blast
  have "add_dests ds b1 s1 = (b', s')" using Cons.prems 1 by simp
  from Cons.IH [OF this] obtain k' l' where "b' = b1\<lparr>numDest := k'\<rparr>" "s' = s1\<lparr>destTIDs := l'\<rparr>" by blast
  then show ?case by (simp add: k)
qed simp

lemma frag_env_dests:
  assumes s: "dest_ok b0 s0" "sendBuf s0 \<noteq> None" "sendPSMsg s0" "sendres s0 = []"
    and b0: "b0 = initFragBufferExtra ht mt ex b" "length ex \<le> 255"
    and ds: "add_dests ds b0 s0 = (b1, s1)" "int (length ds) \<le> sint (s_numNodes s0)"
      "d \<in> set ds" "ok_dest s0 d"
  shows "frag_holds ex (send_order (s_myID s0) (dests b1 s1)) (s_myTID s0) (sent s0) (s_cfg s0) [] b1 s1"
    and "distinct (dests b1 s1)" and "d \<in> set (dests b1 s1)"
proof -
  from add_dests_frame [OF ds(1)] obtain k l where k: "b1 = b0\<lparr>numDest := k\<rparr>" "s1 = s0\<lparr>destTIDs := l\<rparr>" by blast
  have "int (numDest b0 + length ds) \<le> sint (s_numNodes s0)" using ds(2) b0(1) by (simp add: initFragBufferExtra_def)
  from add_dests_spec [OF s(1) this ds(1)] ds(3,4)
  have a: "dest_ok b1 s1" "distinct (dests b1 s1)" "d \<in> set (dests b1 s1)" by auto
  then show "distinct (dests b1 s1)" "d \<in> set (dests b1 s1)" by auto
  from a(3) have "numDest b1 \<noteq> 0" by (cases "numDest b1 = 0") (auto simp: dests_def)
  then show "frag_holds ex (send_order (s_myID s0) (dests b1 s1)) (s_myTID s0) (sent s0) (s_cfg s0) [] b1 s1"
    using k s(2-4) b0 a(1) by (auto simp: frag_holds_def frag_env_def initFragBufferExtra_def dest_ok_def dests_def)
qed

lemma send_order_remote:
  "distinct ds \<Longrightarrow> d \<in> set ds \<Longrightarrow> PSC_getID me d \<noteq> me \<Longrightarrow> distinct (send_order me ds) \<and> d \<in> set (send_order me ds)"
  by (auto simp: send_order_def Let_def dest: last_in_set)

text \<open>Items packed into fragments: what is sent, for all destinations.\<close>

lemma send_items:
  assumes h: "frag_holds ex ords t (sent s0) cfg [] b1 s1"
    and p: "add_items its b1 s1 = (b2, s2)" "sendFragMsg b2 s2 = (n, s3)"
  shows "\<exists>new. let data = concat (map (enc_item cfg) its) in
     n = int (length data) \<and> sent s3 = sent s0 @ new \<and> map msg_view new = msg_views ex ords t data
     \<and> (\<forall>m\<in>set new. msg_good m) \<and> length ex \<le> 255"
proof -
  let ?data = "concat (map (enc_item cfg) its)"
  from frags.add_items_law [OF h, of its] p(1)
  have h2: "frag_holds ex ords t (sent s0) cfg ?data b2 s2" by auto
  have "length ex \<le> 255"
    using h2 by (auto simp: frag_holds_def frag_ready_def frag_env_def split: if_splits)
  with sendFragMsg_spec [OF h2] p(2) show ?thesis by (auto simp: Let_def)
qed

lemma views_sender: "map msg_view new = msg_views ex ords t data \<Longrightarrow> m \<in> set new \<Longrightarrow> m_sender m = t"
proof -
  assume a: "map msg_view new = msg_views ex ords t data" "m \<in> set new"
  then have "msg_view m \<in> set (msg_views ex ords t data)" by (metis image_eqI image_set)
  then show ?thesis by (auto simp: msg_views_def frag_views_def msg_view_def Let_def)
qed

lemma views_dest:
  assumes "map msg_view new = msg_views ex ords t data" "distinct ords" "d \<in> set ords"
  shows "map tbytes (filter (\<lambda>m. m_dest m = d) new) = frag_stream ex 0 (pieces ex data)"
proof -
  have "map tbytes (filter (\<lambda>m. m_dest m = d) new) = map (\<lambda>x. snd (snd x)) (filter (\<lambda>x. fst x = d) (map msg_view new))"
    by (simp add: filter_map comp_def msg_view_def)
  also have "\<dots> = frag_stream ex 0 (pieces ex data)"
    unfolding assms(1) msg_views_dest [OF assms(2,3)] by (simp add: comp_def)
  finally show ?thesis .
qed

definition delivered :: "byte list \<Rightarrow> PS_DataBuffer" where
  "delivered p = empty_db\<lparr>db_buf := Some p, db_size := length p, db_unpack := UOff 0\<rparr>"

definition unpack_items :: "sercfg \<Rightarrow> (PS_DataType \<times> nat) list \<Rightarrow> PS_DataBuffer \<Rightarrow> item list option" where
  "unpack_items cfg ks d = fst (byte_reader.read_all (item_rd cfg) ks d)"

lemma unpack_delivered:
  assumes "\<forall>i\<in>set its. item_ok cfg i"
  shows "unpack_items cfg (map item_kind its) (delivered (concat (map (enc_item cfg) its))) = Some its"
proof -
  let ?d = "delivered (concat (map (enc_item cfg) its))"
  have "ser_ok ?d" "ser_rest ?d = concat (map (enc_item cfg) its) @ []"
    by (simp_all add: delivered_def ser_ok_def ser_rest_def content_def empty_db_def)
  from items.read_all_enc [OF this(1) assms this(2)] show ?thesis by (auto simp: unpack_items_def)
qed

text \<open>
  C6: a list of items added to a buffer that was set up for fragments and given destinations is
  received and unpacked again, the same items in the same order, by every remote destination \<open>d\<close>,
  whatever the receiver had before and whatever messages of other senders come between the fragments,
  if these are at most 1456 bytes long and none is shorter than its own header says (\<open>short_frag\<close>:
  there the behaviour of the receiver is undefined): all fragments but the last give nothing, the last
  one the bytes of the whole message, and the sender is told their number.  No send fails, and the
  receiver gets the memory it asks for.
\<close>

theorem fragments_round_trip:
  assumes s: "dest_ok b0 s0" "sendBuf s0 \<noteq> None" "sendPSMsg s0" "sendres s0 = []"
    and b0: "b0 = initFragBufferExtra ht mt ex b" "length ex \<le> 255"
    and ds: "add_dests ds b0 s0 = (b1, s1)" "int (length ds) \<le> sint (s_numNodes s0)"
      "d \<in> set ds" "ok_dest s0 d" "PSC_getID (s_myID s0) d \<noteq> s_myID s0"
    and its: "\<forall>i\<in>set its. item_ok (s_cfg s0) i"
    and send: "add_items its b1 s1 = (b2, s2)" "sendFragMsg b2 s2 = (n, s3)"
    and recv: "recv_env r" "\<forall>m\<in>set ms. m_sender m \<noteq> s_myTID s0 \<longrightarrow> m_len m \<le> 1456 \<and> \<not> short_frag m"
      "filter (\<lambda>m. m_sender m = s_myTID s0) ms
         = filter (\<lambda>m. m_dest m = d) (drop (length (sent s0)) (sent s3))"
  shows "\<exists>k data. n = int (length data)
     \<and> of_sender (s_myTID s0) (fst (recv_all ms r)) = replicate k RvMore @ [RvDone data]
     \<and> unpack_items (s_cfg s0) (map item_kind its) (delivered data) = Some its"
proof -
  let ?t = "s_myTID s0" and ?ords = "send_order (s_myID s0) (dests b1 s1)"
  define data where "data = concat (map (enc_item (s_cfg s0)) its)"
  note e = frag_env_dests [OF s b0 ds(1-4)]
  from send_items [OF e(1) send] obtain new where new: "n = int (length data)" "sent s3 = sent s0 @ new"
    "map msg_view new = msg_views ex ?ords ?t data" "\<forall>m\<in>set new. msg_good m"
    by (auto simp: Let_def data_def)
  have d: "distinct ?ords" "d \<in> set ?ords" using send_order_remote [OF e(2,3) ds(5)] by auto
  have f: "filter (\<lambda>m. m_sender m = ?t) ms = filter (\<lambda>m. m_dest m = d) new" using recv(3) new(2) by simp
  have good: "m_len m \<le> 1456 \<and> \<not> short_frag m \<and> (m_sender m = ?t \<longrightarrow> msg_good m)" if "m \<in> set ms" for m
  proof (cases "m_sender m = ?t")
    case True
    then have m: "m \<in> set (filter (\<lambda>m. m_dest m = d) new)" using that unfolding f [symmetric] by simp
    then have g: "msg_good m" using new(4) by simp
    have "tbytes m \<in> set (frag_stream ex 0 (pieces ex data))"
      using m views_dest [OF new(3) d] by (metis (no_types, lifting) image_eqI image_set)
    then obtain num ty p where "tbytes m = frag_hdr ex num ty @ p" using frag_stream_form by blast
    then have "\<not> short_frag m" by (rule good_not_short [OF g _ b0(2)])
    then show ?thesis using g by (auto simp: msg_good_def typed_ok_def)
  qed (use that recv(2) in simp)
  have p: "\<forall>p\<in>set (pieces ex data). length p \<le> DEFAULT_BUFFER_SIZE" using pieces_le [OF b0(2)] by blast
  have "collected ?t 0 [] r" "pieces ex data \<noteq> []" by (simp_all add: collected_def pieces_def Let_def)
  from recv_all_stream [OF recv(1) this(1) b0(2) this(2) p, of ms] good f views_dest [OF new(3) d]
  have "of_sender ?t (fst (recv_all ms r)) = replicate (length (pieces ex data) - 1) RvMore @ [RvDone data]"
    by (simp add: concat_pieces)
  with new(1) unpack_delivered [OF its] show ?thesis by (auto simp: data_def)
qed

definition ex_frag :: PS_SendDB where
  "ex_frag = initFragBufferExtra 3 4 [9] ex_sdb"

definition ex_items :: "item list" where
  "ex_items = [(PSDATA_STRING, [65, 66, 0]), (PSDATA_UINT16, [1, 2])]"

definition ex_sent :: "int \<times> ser" where
  "ex_sent = (case add_dests [ex_tid 1, ex_tid 2] ex_frag ex_ser of (b1, s1) \<Rightarrow>
     (case add_items ex_items b1 s1 of (b2, s2) \<Rightarrow> sendFragMsg b2 s2))"

lemma ex_items_ok: "\<forall>i\<in>set ex_items. item_ok ex_cfg i"
  by (simp add: ex_items_def item_ok_def swappable_def hasLen_def ex_cfg_def)

theorem fragments_round_trip_witness:
  "\<exists>k data. fst ex_sent = int (length data)
     \<and> of_sender (ex_tid 0) (fst (recv_all (filter (\<lambda>m. m_dest m = ex_tid 1) (sent (snd ex_sent))) ex_ser))
         = replicate k RvMore @ [RvDone data]
     \<and> unpack_items ex_cfg (map item_kind ex_items) (delivered data) = Some ex_items"
proof -
  obtain b1 s1 where 1: "add_dests [ex_tid 1, ex_tid 2] ex_frag ex_ser = (b1, s1)" by (rule prod.exhaust)
  obtain b2 s2 where 2: "add_items ex_items b1 s1 = (b2, s2)" by (rule prod.exhaust)
  obtain n s3 where 3: "sendFragMsg b2 s2 = (n, s3)" by (rule prod.exhaust)
  have ex: "ex_sent = (n, s3)" unfolding ex_sent_def 1 prod.case 2 3 ..
  have s: "dest_ok ex_frag ex_ser" "sendBuf ex_ser \<noteq> None" "sendPSMsg ex_ser" "sendres ex_ser = []"
    by (simp_all add: ex_ser_dest_ok ex_frag_def initFragBufferExtra_def) (simp_all add: ex_ser_def)
  have sim: "s_cfg ex_ser = ex_cfg" "s_myTID ex_ser = ex_tid 0" "s_myID ex_ser = 0" "sent ex_ser = []" "s_numNodes ex_ser = 4"
    by (simp_all add: ex_ser_def)
  have d: "ok_dest ex_ser (ex_tid 1)" by (simp add: ok_dest_def sim ex_ids PSC_validNode_def)
  have r: "recv_env ex_ser" by (simp add: recv_env_def recv_ok_def ex_ser_def)
  have l: "length ([9] :: byte list) \<le> 255" by simp
  have c: "int (length [ex_tid 1, ex_tid 2]) \<le> sint (s_numNodes ex_ser)" by (simp add: sim)
  have m: "ex_tid 1 \<in> set [ex_tid 1, ex_tid 2]" by simp
  from send_items [OF frag_env_dests(1) [OF s ex_frag_def l 1 c m d] 2 3]
  obtain new data where new: "sent s3 = new" "map msg_view new = msg_views [9] (send_order 0 (dests b1 s1)) (ex_tid 0) data"
    by (auto simp: sim Let_def)
  have snd: "\<And>m. m \<in> set (sent s3) \<Longrightarrow> m_sender m = ex_tid 0" using views_sender [OF new(2)] new(1) by simp
  have f: "filter (\<lambda>m. m_sender m = s_myTID ex_ser) (filter (\<lambda>m. m_dest m = ex_tid 1) (sent s3))
     = filter (\<lambda>m. m_dest m = ex_tid 1) (drop (length (sent ex_ser)) (sent s3))"
    unfolding filter_filter using snd by (intro filter_cong) (auto simp: sim)
  have o: "\<forall>m\<in>set (filter (\<lambda>m. m_dest m = ex_tid 1) (sent s3)). m_sender m \<noteq> s_myTID ex_ser \<longrightarrow> m_len m \<le> 1456 \<and> \<not> short_frag m"
    using snd by (auto simp: sim)
  have i: "\<forall>i\<in>set ex_items. item_ok (s_cfg ex_ser) i" using ex_items_ok by (simp add: sim)
  have nl: "PSC_getID (s_myID ex_ser) (ex_tid 1) \<noteq> s_myID ex_ser" by (simp add: sim ex_ids)
  from fragments_round_trip [OF s ex_frag_def l 1 c m d nl i 2 3 r o f]
  show ?thesis by (simp add: ex sim)
qed

section \<open>Destinations\<close>

text \<open>
  \<open>setFragDestUniq\<close> never lists a destination twice nor writes beyond the array of
  destinations, and as long as there is room every valid task gets in.
\<close>

theorem destinations_unique:
  assumes "dest_ok b s" "int (numDest b + length ds) \<le> sint (s_numNodes s)" "add_dests ds b s = (b', s')"
  shows "distinct (dests b' s') \<and> dest_ok b' s'
     \<and> set (dests b' s') = set (dests b s) \<union> {d \<in> set ds. ok_dest s d}"
  using add_dests_spec [OF assms] by blast

theorem destinations_unique_witness:
  "distinct (dests (fst (add_dests [ex_tid 1, ex_tid 1] ex_frag ex_ser)) (snd (add_dests [ex_tid 1, ex_tid 1] ex_frag ex_ser)))
   \<and> set (dests (fst (add_dests [ex_tid 1, ex_tid 1] ex_frag ex_ser)) (snd (add_dests [ex_tid 1, ex_tid 1] ex_frag ex_ser)))
      = {ex_tid 1}"
proof -
  have d: "dest_ok ex_frag ex_ser" by (simp add: ex_ser_dest_ok ex_frag_def initFragBufferExtra_def)
  have z: "numDest ex_frag = 0" "dests ex_frag ex_ser = []"
    by (simp_all add: ex_frag_def initFragBufferExtra_def dests_def)
  have v: "ok_dest ex_ser (ex_tid 1)" by (simp add: ok_dest_def ex_ser_def ex_ids PSC_validNode_def)
  have c: "int (numDest ex_frag + length [ex_tid 1, ex_tid 1]) \<le> sint (s_numNodes ex_ser)"
    by (simp add: z) (simp add: ex_ser_def)
  from destinations_unique [OF d c prod.collapse [symmetric]] v z(2) show ?thesis by auto
qed

text \<open>
  A fragment goes to every remote destination once, in order, and then to the last local one.
  Other local destinations get nothing, although \<open>sendFragment\<close> returns true.
\<close>

theorem sendFragment_one_local:
  assumes "numDest b \<noteq> 0" "sendPSMsg s" "sendres s = []" "destTIDs s = Some ds"
  shows "\<exists>s'. sendFragment b s = (True, s')
     \<and> map m_dest (drop (length (sent s)) (sent s')) = send_order (s_myID s) (take (numDest b) ds)
     \<and> (\<forall>d\<in>set (take (numDest b) ds). PSC_getID (s_myID s) d = s_myID s
          \<and> d \<in> set (map m_dest (drop (length (sent s)) (sent s')))
          \<longrightarrow> d = last (filter (\<lambda>d. PSC_getID (s_myID s) d = s_myID s) (take (numDest b) ds)))"
proof -
  from sendFragment_spec [OF assms] obtain x where
    x: "sendFragment b s = (True, sent_to s (send_order (s_myID s) (take (numDest b) ds)) x)" by blast
  then show ?thesis
    by (intro exI [of _ "sent_to s (send_order (s_myID s) (take (numDest b) ds)) x"])
      (auto simp: comp_def send_order_def Let_def split: if_splits)
qed

text \<open>Two local tasks and a remote one: the first local task is left out.\<close>

theorem sendFragment_one_local_witness:
  "\<exists>s'. sendFragment (ex_frag\<lparr>numDest := 3\<rparr>) (ex_ser\<lparr>destTIDs := Some [ex_tid 0, ex_tid 1, 0, 0]\<rparr>) = (True, s')
     \<and> map m_dest (sent s') = [ex_tid 1, 0]"
proof -
  let ?s = "ex_ser\<lparr>destTIDs := Some [ex_tid 0, ex_tid 1, 0, 0]\<rparr>"
  have z: "PSC_getID 0 0 = 0" by (simp add: PSC_getID_def)
  have "numDest (ex_frag\<lparr>numDest := 3\<rparr>) \<noteq> 0" "sendPSMsg ?s" "sendres ?s = []" "destTIDs ?s = Some [ex_tid 0, ex_tid 1, 0, 0]"
    by (simp_all add: ex_ser_def)
  from sendFragment_one_local [OF this] show ?thesis
    by (auto simp: ex_ser_def send_order_def Let_def ex_ids z)
qed

section \<open>Receive buffers\<close>

text \<open>
  C22: whatever messages arrive of at most 1456 bytes, none shorter than its own header says
  (\<open>short_frag\<close>), whatever allocations fail and whatever nodes go down, nothing undefined happens, no
  receive buffer ever holds more than was allocated for it, and there is at most one for a sender.
  \<open>recv_ok\<close> holds in particular at the start, when there are no buffers.
\<close>

theorem recv_never_overflows:
  assumes "recv_ok s" "\<forall>m. ORecv m \<in> set es \<longrightarrow> m_len m \<le> 1456 \<and> \<not> short_frag m"
  shows "\<exists>s'. fold recv_step es (Some s) = Some s' \<and> distinct (map fst (recvBufs s'))
    \<and> (\<forall>(t, d) \<in> set (recvBufs s'). length (content d) \<le> db_size d)"
proof -
  obtain s' where s': "fold recv_step es (Some s) = Some s'" using recv_run_defined assms(2) by blast
  have "\<forall>e \<in> set es. msg_sized e" using assms(2) by (metis msg_sized.simps recv_op.exhaust)
  then have "recv_ok s'" using recv_run_inv [OF assms(1), of es] s' by (simp add: recv_inv_def)
  then show ?thesis using s' by (fastforce simp: recv_ok_def db_fits_def content_def split: option.splits)
qed

text \<open>A full buffer of the usual size and one more fragment for it, of 5 bytes.\<close>

definition ex_full :: ser where
  "ex_full = ex_ser\<lparr>recvBufs := [(ex_tid 1, \<lparr>db_buf = Some (replicate DEFAULT_BUFFER_SIZE 7), db_size = DEFAULT_BUFFER_SIZE,
     db_nextFrag = 3, db_unpack = UNull, db_err = E_PSSERIAL_SUCCESS\<rparr>)]\<rparr>"

definition ex_frag3 :: ddmsg where
  "ex_frag3 = blank_msg\<lparr>m_len := DDTypedBufMsgOffset + 9, m_sender := ex_tid 1,
     m_buf := (\<lambda>k. if k = 4 then FRAGMENT_PART else if k = 5 then 3 else 0)\<rparr>"

lemma ex_frag3_tbytes: "tbytes ex_frag3 = frag_hdr [] 3 FRAGMENT_PART @ [0, 0, 0, 0, 0]"
  by code_simp

lemma ex_frag3_good: "msg_good ex_frag3"
  by (simp add: msg_good_def typed_ok_def ex_frag3_def blank_msg_def msg_consts)

lemma ex_full_ok: "recv_ok ex_full"
  by (simp add: recv_ok_def ex_full_def db_fits_def)

lemma ex_full_find: "\<exists>d. findRecvBuf (ex_tid 1) ex_full = Some d \<and> length (content d) = DEFAULT_BUFFER_SIZE \<and> db_nextFrag d = 3"
  by (simp add: ex_full_def findRecvBuf_def content_def)

lemma ex_full_env: "sendBuf ex_full \<noteq> None" "memq ex_full = []" "s_numNodes ex_full = 4" "s_myID ex_full = 0"
  by (simp_all add: ex_full_def ex_ser_def)

lemma ex_full_more:
  "\<exists>d. recvFragMsg ex_frag3 ex_full = (RvMore, set_recv (ex_tid 1) d ex_full) \<and> length (content d) = DEFAULT_BUFFER_SIZE + 5"
proof -
  obtain d where d: "findRecvBuf (ex_tid 1) ex_full = Some d" "length (content d) = DEFAULT_BUFFER_SIZE" "db_nextFrag d = 3"
    using ex_full_find by blast
  have l: "length ([] :: byte list) \<le> 255" by simp
  have t: "m_sender ex_frag3 = ex_tid 1" by (simp add: ex_frag3_def)
  have ne: "FRAGMENT_PART \<noteq> FRAGMENT_END" by (simp add: FRAGMENT_PART_def FRAGMENT_END_def)
  note g = recvFragMsg_good [OF ex_frag3_good ex_frag3_tbytes l t disjI1 [OF refl] ex_full_env(1,2)]
  have "recvFragMsg ex_frag3 ex_full = (RvMore, set_recv (ex_tid 1) (new_buf d [0, 0, 0, 0, 0]) ex_full)"
    unfolding g using ne d by (simp add: expected_def old_buf_def stored_def Let_def)
  moreover have "length (content (new_buf d [0, 0, 0, 0, 0])) = DEFAULT_BUFFER_SIZE + 5"
    using d(2) by (simp add: new_buf_def content_def)
  ultimately show ?thesis by blast
qed

theorem recv_never_overflows_witness:
  "\<exists>s' d. fold recv_step [ORecv ex_frag3, ODown 2] (Some ex_full) = Some s' \<and> findRecvBuf (ex_tid 1) s' = Some d
     \<and> DEFAULT_BUFFER_SIZE < length (content d) \<and> length (content d) \<le> db_size d"
proof -
  have short: "\<not> short_frag ex_frag3" by (rule good_not_short [OF ex_frag3_good ex_frag3_tbytes]) simp
  have "\<forall>m. ORecv m \<in> set [ORecv ex_frag3, ODown 2] \<longrightarrow> m_len m \<le> 1456 \<and> \<not> short_frag m"
    using short by (simp add: ex_frag3_def DDTypedBufMsgOffset_def)
  from recv_never_overflows [OF ex_full_ok this] obtain s' where
    s: "fold recv_step [ORecv ex_frag3, ODown 2] (Some ex_full) = Some s'"
      "\<forall>(t, d) \<in> set (recvBufs s'). length (content d) \<le> db_size d" by blast
  obtain d where d: "recvFragMsg ex_frag3 ex_full = (RvMore, set_recv (ex_tid 1) d ex_full)" "length (content d) = DEFAULT_BUFFER_SIZE + 5"
    using ex_full_more by blast
  have "s' = nodeDownHandler 2 (set_recv (ex_tid 1) d ex_full)" using s(1) by (simp add: d(1))
  moreover have "PSC_validNode (s_numNodes (set_recv (ex_tid 1) d ex_full)) 2"
    using ex_full_env(3) by (simp add: set_recv_def PSC_validNode_def)
  moreover have "findRecvBuf (ex_tid 1) (set_recv (ex_tid 1) d ex_full) = Some d"
    using ex_full_find by (auto simp: findRecvBuf_def set_recv_def map_of_upd_assoc)
  ultimately have f: "findRecvBuf (ex_tid 1) s' = Some d"
    using find_nodeDown ex_full_env(4) by (simp add: set_recv_def ex_ids)
  then have "(ex_tid 1, d) \<in> set (recvBufs s')" by (auto simp: findRecvBuf_def dest: map_of_SomeD)
  then have "length (content d) \<le> db_size d" using s(2) by blast
  moreover have "DEFAULT_BUFFER_SIZE < length (content d)" using d(2) by simp
  ultimately show ?thesis using s(1) f by blast
qed

text \<open>
  When a valid node goes down exactly the incomplete messages of its tasks are dropped.
\<close>

theorem nodeDown_drops_node:
  assumes "PSC_validNode (s_numNodes s) node"
  shows "findRecvBuf t (nodeDownHandler node s) =
      (if PSC_getID (s_myID s) t = node then None else findRecvBuf t s)"
  by (rule find_nodeDown [OF assms])

theorem nodeDown_drops_node_witness:
  "let s = ex_ser\<lparr>recvBufs := [(ex_tid 1, empty_db), (ex_tid 2, empty_db)]\<rparr> in
     findRecvBuf (ex_tid 1) (nodeDownHandler 1 s) = None \<and> findRecvBuf (ex_tid 2) (nodeDownHandler 1 s) = Some empty_db"
proof -
  have "PSC_validNode (s_numNodes (ex_ser\<lparr>recvBufs := [(ex_tid 1, empty_db), (ex_tid 2, empty_db)]\<rparr>)) 1"
    by (simp add: PSC_validNode_def ex_ser_def)
  note n = nodeDown_drops_node [OF this]
  show ?thesis using ex_tids_neq unfolding Let_def n by (simp add: ex_ser_def ex_ids findRecvBuf_def)
qed

section \<open>Buffers\<close>

text \<open>
  C33: unpacking any bytes stays inside the buffer: no function that unpacks does anything
  undefined, changes the bytes or leaves the read pointer outside them, and every failure sets the
  error of the buffer.
\<close>

theorem unpack_stays_inside:
  assumes "db_wf d"
  shows "reads_well d (getFromBuf cfg ty sz d) \<and> reads_well d (getMemFromBuf cfg alloc dest ty d)
     \<and> (case get_values cfg ty sz n d of (r, d1) \<Rightarrow> r \<noteq> Undef \<and> content d1 = content d \<and> db_wf d1
          \<and> (r = Bad \<longrightarrow> db_err d1 \<noteq> E_PSSERIAL_SUCCESS))
     \<and> (case get_strings cfg alloc n d of (r, d1) \<Rightarrow> r \<noteq> Undef \<and> content d1 = content d \<and> db_wf d1
          \<and> (r = Bad \<longrightarrow> db_err d1 \<noteq> E_PSSERIAL_SUCCESS))"
  using getFromBuf_well [OF assms] getMemFromBuf_well [OF assms]
    get_values_well [OF assms, of n cfg ty sz] get_strings_well [OF assms, of n cfg alloc]
  by (auto split: prod.splits)

text \<open>A string that claims 255 bytes where there are two.\<close>

theorem unpack_stays_inside_witness:
  "\<exists>d1. getMemFromBuf \<lparr>byteOrder = False, typeInfo = False\<rparr> True None PSDATA_STRING (delivered [255, 0, 0, 0, 65, 66])
      = (Bad, d1) \<and> db_err d1 = E_PSSERIAL_INSUF \<and> db_wf d1"
proof -
  have "db_wf (delivered [255, 0, 0, 0, 65, 66])" by (simp add: db_wf_def delivered_def)
  note w = unpack_stays_inside [OF this, of "\<lparr>byteOrder = False, typeInfo = False\<rparr>" PSDATA_STRING 1 True None]
  have "fst (getMemFromBuf \<lparr>byteOrder = False, typeInfo = False\<rparr> True None PSDATA_STRING (delivered [255, 0, 0, 0, 65, 66])) = Bad
     \<and> db_err (snd (getMemFromBuf \<lparr>byteOrder = False, typeInfo = False\<rparr> True None PSDATA_STRING (delivered [255, 0, 0, 0, 65, 66]))) = E_PSSERIAL_INSUF"
    by code_simp
  with w show ?thesis by (cases "getMemFromBuf \<lparr>byteOrder = False, typeInfo = False\<rparr> True None PSDATA_STRING (delivered [255, 0, 0, 0, 65, 66])")
    (auto simp: reads_well_def)
qed

text \<open>
  Adding bytes to a buffer keeps its content within the allocated size; on success they are
  appended, on failure the content is unchanged.
\<close>

theorem memToDataBuffer_appends:
  assumes "memToDataBuffer alloc mem d = (ok, d')" "db_room d"
  shows "content d' = (if ok then content d @ mem else content d) \<and> db_room d'"
  using memToDataBuffer_spec [OF assms] by simp

theorem memToDataBuffer_appends_witness:
  "content (snd (memToDataBuffer True [7] (snd (memToDataBuffer True [5, 6] empty_db)))) = [5, 6, 7]"
proof -
  have r: "db_room empty_db" by (simp add: db_room_def empty_db_def)
  obtain ok d1 where 1: "memToDataBuffer True [5, 6] empty_db = (ok, d1)" by (rule prod.exhaust)
  obtain ok2 d2 where 2: "memToDataBuffer True [7] d1 = (ok2, d2)" by (rule prod.exhaust)
  have o: "ok" using 1 by (auto simp: memToDataBuffer_def growDataBuffer_def empty_db_def resetBuf_def
      content_def msg_consts UINT32_MAX_def Let_def)
  have o2: "ok2" using 1 2 by (auto simp: memToDataBuffer_def growDataBuffer_def empty_db_def resetBuf_def
      content_def msg_consts UINT32_MAX_def Let_def)
  have "content d1 = [5, 6] \<and> db_room d1"
    using memToDataBuffer_appends [OF 1 r] o by (simp add: content_def empty_db_def)
  with memToDataBuffer_appends [OF 2] 1 2 o2 show ?thesis by simp
qed

section \<open>Messages and task identifiers\<close>

text \<open>
  What is put into a message with room for it is read back from the position where it was put,
  and what was in the message before is still read.
\<close>

theorem typed_message_round_trip:
  assumes "typed_ok m" "d \<noteq> []" "tlen m + length d \<le> BufTypedMsgSize"
    "PSP_putTypedMsgBuf d m = (ok, m')"
  shows "ok \<and> PSP_getTypedMsgBuf (length d) m' (tlen m) = (Some d, tlen m + length d)
     \<and> (m_len m \<noteq> 0 \<and> used + n \<le> tlen m \<longrightarrow> PSP_getTypedMsgBuf n m' used = PSP_getTypedMsgBuf n m used)"
proof -
  from put_typed [OF assms(1-3)] assms(4) have p: "ok" "typed_ok m'" "tbytes m' = tbytes m @ d"
    "m_len m' = DDTypedBufMsgOffset + tlen m + length d" by auto
  have z: "m_len m' \<noteq> 0" "tlen m' = tlen m + length d" using p(4) by (simp_all add: msg_consts tlen_def)
  show ?thesis
    using p(1) get_typed [OF p(2) z(1)] get_typed [OF assms(1)] z(2)
    by (auto simp: p(3) length_tbytes)
qed

theorem typed_message_round_trip_witness:
  "PSP_getTypedMsgBuf 3 (snd (PSP_putTypedMsgBuf [1, 2, 3] blank_msg)) 0 = (Some [1, 2, 3], 3)"
  using typed_message_round_trip [of blank_msg "[1, 2, 3]" "fst (PSP_putTypedMsgBuf [1, 2, 3] blank_msg)"
      "snd (PSP_putTypedMsgBuf [1, 2, 3] blank_msg)"]
  by (simp add: blank_msg_def typed_ok_def tlen_def msg_consts numeral_3_eq_3)

text \<open>
  Node and process of a task identifier are read back from it; the node -1 stands for the own.
\<close>

theorem task_id_round_trip:
  assumes "me \<noteq> -1"
  shows "PSC_getPID (PSC_getTID me node pid) = pid
     \<and> PSC_getID me (PSC_getTID me node pid) = (if node = -1 then me else node)"
proof -
  have "PSC_getTID me (-1) pid = PSC_getTID me me pid" using assms by (simp add: PSC_getTID_def)
  then show ?thesis using getPID_getTID getID_getTID assms by auto
qed

theorem task_id_round_trip_witness:
  "PSC_getPID (PSC_getTID 5 3 1234) = 1234 \<and> PSC_getID 5 (PSC_getTID 5 3 1234) = 3"
  using task_id_round_trip [of 5 3 1234] by simp

end
