(* ===== verification/Cpu_Set.thy ===== *)
theory Cpu_Set
  imports Prelude
begin

text \<open>
  Sets of CPUs (\<open>src/lib/pscommon/pscpu.c\<close>, \<open>src/include/pscpu.h\<close>): an array of 16-bit masks, here the
  list of its masks.  CPU numbers and sizes are \<open>uint16_t\<close> values and never overflow; shifts of a
  mask happen in \<open>int\<close>, as 32-bit words.  Some tests in the code rest on that width.
\<close>

type_synonym PSCPU_mask = "16 word"
type_synonym PSCPU_set = "PSCPU_mask list"

definition PSCPU_MAX :: nat where "PSCPU_MAX = 1024"
definition CPUmask_s :: nat where "CPUmask_s = 16"
definition CPU_words :: nat where "CPU_words = PSCPU_MAX div CPUmask_s"

lemmas cpu_consts = PSCPU_MAX_def CPUmask_s_def CPU_words_def

section \<open>Single CPUs\<close>

definition cpu_bit :: "nat \<Rightarrow> PSCPU_mask" where
  "cpu_bit cpu = ucast (push_bit (cpu mod CPUmask_s) (1 :: 32 word))"

definition PSCPU_setCPU :: "PSCPU_set \<Rightarrow> nat \<Rightarrow> PSCPU_set" where
  "PSCPU_setCPU cset cpu =
     (if cpu < PSCPU_MAX
      then cset[cpu div CPUmask_s := cset ! (cpu div CPUmask_s) OR cpu_bit cpu] else cset)"

definition PSCPU_clrCPU :: "PSCPU_set \<Rightarrow> nat \<Rightarrow> PSCPU_set" where
  "PSCPU_clrCPU cset cpu =
     (if cpu < PSCPU_MAX
      then cset[cpu div CPUmask_s := cset ! (cpu div CPUmask_s) AND NOT (cpu_bit cpu)] else cset)"

definition PSCPU_isSet :: "PSCPU_set \<Rightarrow> nat \<Rightarrow> bool" where
  "PSCPU_isSet cset cpu \<longleftrightarrow> cpu < PSCPU_MAX \<and> cset ! (cpu div CPUmask_s) AND cpu_bit cpu \<noteq> 0"

definition PSCPU_setAll :: "PSCPU_set \<Rightarrow> PSCPU_set" where
  "PSCPU_setAll cset = map (\<lambda>m. -1) cset"

definition PSCPU_clrAll :: "PSCPU_set \<Rightarrow> PSCPU_set" where
  "PSCPU_clrAll cset = map (\<lambda>m. 0) cset"

definition PSCPU_addCPUs :: "PSCPU_set \<Rightarrow> PSCPU_set \<Rightarrow> PSCPU_set" where
  "PSCPU_addCPUs cset add = map2 (OR) cset add"

definition PSCPU_remCPUs :: "PSCPU_set \<Rightarrow> PSCPU_set \<Rightarrow> PSCPU_set" where
  "PSCPU_remCPUs cset rem = map2 (\<lambda>m r. m AND NOT r) cset rem"

definition PSCPU_bytesForCPUs :: "nat \<Rightarrow> nat" where
  "PSCPU_bytesForCPUs num =
     (let bytes = (if num \<noteq> 0 then (num - 1) div 8 + 1 else 0) in if num > PSCPU_MAX then 0 else bytes)"

section \<open>Searching\<close>

text \<open>The loops walk over the masks; \<open>pCPUs\<close> counts the CPUs that are left.\<close>

fun any_loop :: "PSCPU_mask list \<Rightarrow> int \<Rightarrow> bool" where
  "any_loop [] pCPUs = False"
| "any_loop (m # ms) pCPUs =
     (if pCPUs \<le> 0 then False
      else if m \<noteq> 0 \<and> (pCPUs \<ge> int CPUmask_s \<or> push_bit (nat (int CPUmask_s - pCPUs)) (ucast m :: 32 word) \<noteq> 0)
      then True
      else any_loop ms (pCPUs - int CPUmask_s))"

definition PSCPU_any :: "PSCPU_set \<Rightarrow> nat \<Rightarrow> bool" where
  "PSCPU_any cset numBits = any_loop cset (int (if numBits > PSCPU_MAX then PSCPU_MAX else numBits))"

fun all_loop :: "PSCPU_mask list \<Rightarrow> int \<Rightarrow> bool" where
  "all_loop [] pCPUs = True"
| "all_loop (w # ms) pCPUs =
     (if pCPUs \<le> 0 then True
      else let m = NOT w in
        if m \<noteq> 0 \<and> (pCPUs \<ge> int CPUmask_s \<or> push_bit (nat (int CPUmask_s - pCPUs)) (ucast m :: 32 word) \<noteq> 0)
        then False
        else all_loop ms (pCPUs - int CPUmask_s))"

definition PSCPU_all :: "PSCPU_set \<Rightarrow> nat \<Rightarrow> bool" where
  "PSCPU_all cset numBits = all_loop cset (int (if numBits > PSCPU_MAX then PSCPU_MAX else numBits))"

fun overlap_loop :: "PSCPU_mask list \<Rightarrow> PSCPU_mask list \<Rightarrow> int \<Rightarrow> bool" where
  "overlap_loop (m1 # ms1) (m2 # ms2) pCPUs =
     (if pCPUs \<le> 0 then False
      else let k = nat (int CPUmask_s - pCPUs) in
        if m1 AND m2 \<noteq> 0 \<and> (pCPUs \<ge> int CPUmask_s
             \<or> push_bit k (ucast m1 :: 32 word) AND push_bit k (ucast m2) AND 0xffff \<noteq> 0)
        then True
        else overlap_loop ms1 ms2 (pCPUs - int CPUmask_s))"
| "overlap_loop _ _ pCPUs = False"

definition PSCPU_overlap :: "PSCPU_set \<Rightarrow> PSCPU_set \<Rightarrow> nat \<Rightarrow> bool" where
  "PSCPU_overlap set1 set2 numBits =
     overlap_loop set1 set2 (int (if numBits > PSCPU_MAX then PSCPU_MAX else numBits))"

definition PSCPU_disjoint :: "PSCPU_set \<Rightarrow> PSCPU_set \<Rightarrow> nat \<Rightarrow> bool" where
  "PSCPU_disjoint set1 set2 numBits \<longleftrightarrow> \<not> PSCPU_overlap set1 set2 numBits"

text \<open>The first mask that is not 0 and the number of its first CPU; then its first bit.\<close>

fun first_word :: "PSCPU_mask list \<Rightarrow> PSCPU_mask \<Rightarrow> nat \<Rightarrow> nat \<Rightarrow> PSCPU_mask \<times> nat" where
  "first_word [] m cpu numBits = (m, cpu)"
| "first_word (w # ws) m cpu numBits =
     (if \<not> cpu < numBits then (m, cpu)
      else if w \<noteq> 0 then (w, cpu)
      else first_word ws w (cpu + CPUmask_s) numBits)"

function first_bit :: "PSCPU_mask \<Rightarrow> nat \<Rightarrow> nat \<Rightarrow> nat" where
  "first_bit m cpu numBits =
     (if m \<noteq> 0 \<and> m AND 1 = 0 \<and> cpu < numBits then first_bit (drop_bit 1 m) (cpu + 1) numBits else cpu)"
  by pat_completeness auto
termination by (relation "measure (\<lambda>(m, cpu, n). n - cpu)") auto

declare first_bit.simps [simp del]

definition PSCPU_first :: "PSCPU_set \<Rightarrow> nat \<Rightarrow> int" where
  "PSCPU_first cset numBits =
     (let n = (if numBits > PSCPU_MAX then PSCPU_MAX else numBits);
          (m, cpu0) = first_word cset 0 0 n;
          cpu = first_bit m cpu0 n
      in if cpu \<ge> n then -1 else int cpu)"

section \<open>Selecting\<close>

text \<open>\<open>newSet\<close> and \<open>free\<close> are \<open>None\<close> for a NULL pointer; the loops run over the CPUs in order.\<close>

fun getCPUs_loop ::
  "nat list \<Rightarrow> PSCPU_set \<Rightarrow> int \<Rightarrow> PSCPU_set option \<Rightarrow> nat \<Rightarrow> PSCPU_set option \<times> nat" where
  "getCPUs_loop [] orig num new found = (new, found)"
| "getCPUs_loop (cpu # cpus) orig num new found =
     (if \<not> int found < num then (new, found)
      else if PSCPU_isSet orig cpu
      then getCPUs_loop cpus orig num (map_option (\<lambda>s. PSCPU_setCPU s cpu) new) (found + 1)
      else getCPUs_loop cpus orig num new found)"

definition PSCPU_getCPUs :: "PSCPU_set \<Rightarrow> PSCPU_set option \<Rightarrow> int \<Rightarrow> PSCPU_set option \<times> nat" where
  "PSCPU_getCPUs orig new num = getCPUs_loop [0..<PSCPU_MAX] orig num (map_option PSCPU_clrAll new) 0"

fun getUnset_loop :: "nat list \<Rightarrow> PSCPU_set \<Rightarrow> PSCPU_set option \<Rightarrow> nat \<Rightarrow> PSCPU_set option \<times> nat" where
  "getUnset_loop [] cset free found = (free, found)"
| "getUnset_loop (cpu # cpus) cset free found =
     (if \<not> PSCPU_isSet cset cpu
      then getUnset_loop cpus cset (map_option (\<lambda>s. PSCPU_setCPU s cpu) free) (found + 1)
      else getUnset_loop cpus cset free found)"

text \<open>Take CPUs off again from the top until their number is a multiple of \<open>tpp\<close>.\<close>

fun trim_loop :: "nat \<Rightarrow> PSCPU_set option \<Rightarrow> nat \<Rightarrow> nat \<Rightarrow> PSCPU_set option \<times> nat" where
  "trim_loop 0 free found tpp = (free, found)"
| "trim_loop (Suc cpu) free found tpp =
     (if found mod tpp = 0 then (free, found)
      else if (case free of Some s \<Rightarrow> PSCPU_isSet s cpu | None \<Rightarrow> True)
      then trim_loop cpu (map_option (\<lambda>s. PSCPU_clrCPU s cpu) free) (found - 1) tpp
      else trim_loop cpu free found tpp)"

definition PSCPU_getUnset ::
  "PSCPU_set \<Rightarrow> nat \<Rightarrow> PSCPU_set option \<Rightarrow> nat \<Rightarrow> PSCPU_set option \<times> nat" where
  "PSCPU_getUnset cset numBits free tpp =
     (let n = (if numBits > PSCPU_MAX then PSCPU_MAX else numBits);
          (free1, found) = getUnset_loop [0..<n] cset (map_option PSCPU_clrAll free) 0
      in trim_loop n free1 found tpp)"

end
