(* ===== verification/Cpu_Spec.thy ===== *)
theory Cpu_Spec
  imports Cpu_Set
begin

text \<open>
  What the operations on CPU sets do, in terms of the set of CPUs \<open>cpus\<close> a mask array stands for.
\<close>

section \<open>The set of CPUs\<close>

definition has :: "PSCPU_mask list \<Rightarrow> nat \<Rightarrow> bool" where
  "has ms k \<longleftrightarrow> k div 16 < length ms \<and> bit (ms ! (k div 16)) (k mod 16)"

definition cpus :: "PSCPU_mask list \<Rightarrow> nat set" where
  "cpus ms = {k. has ms k}"

definition cpu_wf :: "PSCPU_set \<Rightarrow> bool" where
  "cpu_wf s \<longleftrightarrow> length s = CPU_words"

lemma has_Nil [simp]: "\<not> has [] k"
  by (simp add: has_def)

lemma next_word: "(j + 16) div 16 = j div 16 + 1" for j :: nat
  by simp

lemma has_Cons: "has (m # ms) k = (if k < 16 then bit m k else has ms (k - 16))"
proof (cases "k < 16")
  case False
  then obtain j where "k = j + 16" by (metis le_add_diff_inverse2 linorder_not_le)
  then show ?thesis by (simp add: has_def next_word)
qed (simp add: has_def)

lemma mask_nz: "(m::PSCPU_mask) \<noteq> 0 \<longleftrightarrow> (\<exists>k<16. bit m k)"
  by (auto simp: bit_eq_iff)

lemma ex_has_Cons:
  "(\<exists>k. has (m # ms) k \<and> P k) \<longleftrightarrow> (\<exists>k<16. bit m k \<and> P k) \<or> (\<exists>j. has ms j \<and> P (j + 16))"
proof
  assume "\<exists>k. has (m # ms) k \<and> P k"
  then obtain k where k: "has (m # ms) k" "P k" by blast
  show "(\<exists>k<16. bit m k \<and> P k) \<or> (\<exists>j. has ms j \<and> P (j + 16))"
  proof (cases "k < 16")
    case False
    then have "k = (k - 16) + 16" by simp
    then show ?thesis using k False unfolding has_Cons by (metis (mono_tags))
  qed (use k has_Cons in auto)
next
  assume "(\<exists>k<16. bit m k \<and> P k) \<or> (\<exists>j. has ms j \<and> P (j + 16))"
  then show "\<exists>k. has (m # ms) k \<and> P k"
  proof
    assume "\<exists>k<16. bit m k \<and> P k"
    then show ?thesis by (auto simp: has_Cons)
  next
    assume "\<exists>j. has ms j \<and> P (j + 16)"
    then obtain j where "has ms j" "P (j + 16)" by blast
    then show ?thesis by (intro exI [of _ "j + 16"]) (simp add: has_Cons)
  qed
qed

lemma bit_cpu_bit: "bit (cpu_bit c) n \<longleftrightarrow> n = c mod 16"
  by (auto simp: cpu_bit_def cpu_consts bit_simps)

lemma cpu_div: "c < PSCPU_MAX \<Longrightarrow> c div 16 < CPU_words"
  by (simp add: cpu_consts)

lemma isSet_has: "cpu_wf s \<Longrightarrow> PSCPU_isSet s c = has s c"
proof -
  assume w: "cpu_wf s"
  have "s ! (c div 16) AND cpu_bit c \<noteq> 0 \<longleftrightarrow> bit (s ! (c div 16)) (c mod 16)"
    unfolding mask_nz by (auto simp: bit_and_iff bit_cpu_bit)
  moreover have "c < PSCPU_MAX \<longleftrightarrow> c div 16 < CPU_words" by (auto simp: cpu_consts)
  ultimately show ?thesis using w by (simp add: PSCPU_isSet_def has_def cpu_wf_def CPUmask_s_def)
qed

lemma cpu_wf_simps [simp]:
  "cpu_wf (PSCPU_setCPU s c) = cpu_wf s" "cpu_wf (PSCPU_clrCPU s c) = cpu_wf s"
  "cpu_wf (PSCPU_clrAll s) = cpu_wf s" "cpu_wf (PSCPU_setAll s) = cpu_wf s"
  by (simp_all add: cpu_wf_def PSCPU_setCPU_def PSCPU_clrCPU_def PSCPU_clrAll_def PSCPU_setAll_def)

lemma same_word: "k div 16 = c div 16 \<Longrightarrow> k mod 16 = c mod 16 \<longleftrightarrow> k = c" for k c :: nat
  by (metis div_mult_mod_eq)

lemma cpus_setCPU: "cpu_wf s \<Longrightarrow> cpus (PSCPU_setCPU s c) = cpus s \<union> (if c < PSCPU_MAX then {c} else {})"
  using same_word [of _ c] cpu_div [of c]
  by (auto simp: cpus_def has_def PSCPU_setCPU_def cpu_wf_def CPUmask_s_def nth_list_update bit_or_iff bit_cpu_bit
      split: if_splits)

lemma cpus_clrCPU: "cpu_wf s \<Longrightarrow> cpus (PSCPU_clrCPU s c) = cpus s - {c}"
proof -
  assume w: "cpu_wf s"
  have "c < PSCPU_MAX \<or> c \<notin> cpus s" using w by (auto simp: cpus_def has_def cpu_wf_def cpu_consts)
  then show ?thesis using w same_word [of _ c] cpu_div [of c]
    by (auto simp: cpus_def has_def PSCPU_clrCPU_def cpu_wf_def CPUmask_s_def nth_list_update bit_and_iff
        bit_not_iff bit_cpu_bit split: if_splits)
qed

lemma cpus_clrAll [simp]: "cpus (PSCPU_clrAll s) = {}"
  by (auto simp: cpus_def has_def PSCPU_clrAll_def)

lemma cpus_setAll: "cpu_wf s \<Longrightarrow> cpus (PSCPU_setAll s) = {..<PSCPU_MAX}"
  by (auto simp: cpus_def has_def PSCPU_setAll_def cpu_wf_def cpu_consts)

lemma cpus_addCPUs: "length a = length s \<Longrightarrow> cpus (PSCPU_addCPUs s a) = cpus s \<union> cpus a"
  by (auto simp: cpus_def has_def PSCPU_addCPUs_def bit_or_iff)

lemma cpus_remCPUs: "length a = length s \<Longrightarrow> cpus (PSCPU_remCPUs s a) = cpus s - cpus a"
  by (auto simp: cpus_def has_def PSCPU_remCPUs_def bit_and_iff bit_not_iff)

section \<open>The loops\<close>

lemma shifted_nz: "0 < p \<Longrightarrow> push_bit (nat (16 - p)) (ucast (m :: PSCPU_mask) :: 32 word) \<noteq> 0 \<longleftrightarrow> m \<noteq> 0"
proof -
  assume p: "0 < p"
  show ?thesis
  proof (cases "m = 0")
    case False
    then obtain k where k: "k < 16" "bit m k" unfolding mask_nz by blast
    then have "bit (push_bit (nat (16 - p)) (ucast m :: 32 word)) (k + nat (16 - p))"
      using p by (simp add: bit_simps)
    then show ?thesis using False by (metis bit_0_eq bot_apply bot_bool_def)
  qed simp
qed

lemma any_loop_spec: "any_loop ms p \<longleftrightarrow> (\<exists>k. has ms k \<and> int (k div 16 * 16) < p)"
proof (induction ms p rule: any_loop.induct)
  case (2 m ms p)
  show ?case
  proof (cases "p \<le> 0")
    case False
    then have "any_loop (m # ms) p \<longleftrightarrow> m \<noteq> 0 \<or> any_loop ms (p - 16)"
      using shifted_nz [of p m] by (auto simp: CPUmask_s_def)
    also have "\<dots> \<longleftrightarrow> (\<exists>k<16. bit m k) \<or> (\<exists>k. has ms k \<and> int (k div 16 * 16) < p - 16)"
    proof (cases "m \<noteq> 0")
      case True
      then show ?thesis using mask_nz by blast
    next
      case m: False
      have "any_loop ms (p - 16) \<longleftrightarrow> (\<exists>k. has ms k \<and> int (k div 16 * 16) < p - 16)"
        using 2 False m by (simp add: CPUmask_s_def)
      then show ?thesis using mask_nz [of m] m by simp
    qed
    also have "\<dots> \<longleftrightarrow> (\<exists>k. has (m # ms) k \<and> int (k div 16 * 16) < p)"
      unfolding ex_has_Cons next_word using False by (auto simp: algebra_simps)
    finally show ?thesis .
  qed auto
qed simp

lemma all_loop_any: "all_loop ms p \<longleftrightarrow> \<not> any_loop (map (\<lambda>m. NOT m) ms) p"
  by (induction ms p rule: all_loop.induct) (simp_all add: Let_def)

lemma has_map_not: "has (map (\<lambda>m. NOT m) ms) k \<longleftrightarrow> k div 16 < length ms \<and> \<not> has ms k"
  by (auto simp: has_def bit_not_iff)

lemma overlap_mask:
  assumes "0 < p" "p < 16"
  shows "push_bit (nat (16 - p)) (ucast (a :: PSCPU_mask) :: 32 word) AND push_bit (nat (16 - p)) (ucast (b :: PSCPU_mask)) AND 0xffff \<noteq> 0
     \<longleftrightarrow> (\<exists>k<16. bit a k \<and> bit b k \<and> int k < p)"
proof -
  define j where "j = nat (16 - p)"
  have j: "int j = 16 - p" "j < 16" using assms by (simp_all add: j_def)
  have ff: "(0xffff :: 32 word) = mask 16" by (simp add: mask_eq_exp_minus_1)
  have b: "bit (push_bit j (ucast a :: 32 word) AND push_bit j (ucast b) AND 0xffff) n
      \<longleftrightarrow> j \<le> n \<and> n < 16 \<and> bit a (n - j) \<and> bit b (n - j)" for n
    unfolding ff by (auto simp: bit_simps)
  have "push_bit j (ucast a :: 32 word) AND push_bit j (ucast b) AND 0xffff \<noteq> 0
     \<longleftrightarrow> (\<exists>n. j \<le> n \<and> n < 16 \<and> bit a (n - j) \<and> bit b (n - j))"
    unfolding bit_eq_iff b by (auto, metis less_trans [of _ 16 32] numeral_less_iff semiring_norm(76,78,81))
  also have "\<dots> \<longleftrightarrow> (\<exists>k<16. bit a k \<and> bit b k \<and> int k < p)"
  proof
    assume "\<exists>n. j \<le> n \<and> n < 16 \<and> bit a (n - j) \<and> bit b (n - j)"
    then obtain n where "j \<le> n" "n < 16" "bit a (n - j)" "bit b (n - j)" by blast
    then show "\<exists>k<16. bit a k \<and> bit b k \<and> int k < p" using j by (intro exI [of _ "n - j"]) auto
  next
    assume "\<exists>k<16. bit a k \<and> bit b k \<and> int k < p"
    then obtain k where "bit a k" "bit b k" "int k < p" by blast
    then show "\<exists>n. j \<le> n \<and> n < 16 \<and> bit a (n - j) \<and> bit b (n - j)"
      using j by (intro exI [of _ "k + j"]) auto
  qed
  finally show ?thesis by (simp add: j_def)
qed

lemma overlap_loop_spec:
  "length ms1 = length ms2 \<Longrightarrow> overlap_loop ms1 ms2 p \<longleftrightarrow> (\<exists>k. has ms1 k \<and> has ms2 k \<and> int k < p)"
proof (induction ms1 ms2 p rule: overlap_loop.induct)
  case (1 m1 ms1 m2 ms2 p)
  show ?case
  proof (cases "p \<le> 0")
    case False
    let ?hit = "\<exists>k<16. bit m1 k \<and> bit m2 k \<and> int k < p"
    have nz: "m1 AND m2 \<noteq> 0 \<longleftrightarrow> (\<exists>k<16. bit m1 k \<and> bit m2 k)" unfolding mask_nz by (simp add: bit_and_iff)
    have hit: "(m1 AND m2 \<noteq> 0 \<and> (p \<ge> 16 \<or> push_bit (nat (16 - p)) (ucast m1 :: 32 word)
          AND push_bit (nat (16 - p)) (ucast m2) AND 0xffff \<noteq> 0)) \<longleftrightarrow> ?hit"
    proof (cases "p \<ge> 16")
      case True
      then show ?thesis using nz by auto
    next
      case p: False
      then show ?thesis using overlap_mask [of p m1 m2] False nz by auto
    qed
    have eq: "overlap_loop (m1 # ms1) (m2 # ms2) p \<longleftrightarrow> (if ?hit then True else overlap_loop ms1 ms2 (p - 16))"
      using False unfolding overlap_loop.simps Let_def CPUmask_s_def of_nat_numeral hit by simp
    then have step: "overlap_loop (m1 # ms1) (m2 # ms2) p \<longleftrightarrow> ?hit \<or> overlap_loop ms1 ms2 (p - 16)"
      unfolding eq by auto
    have "(\<exists>k. has (m1 # ms1) k \<and> has (m2 # ms2) k \<and> int k < p)
        \<longleftrightarrow> ?hit \<or> (\<exists>k. has ms1 k \<and> has ms2 k \<and> int k < p - 16)"
      unfolding ex_has_Cons [of m1 ms1 "\<lambda>k. has (m2 # ms2) k \<and> int k < p"] by (auto simp: has_Cons algebra_simps)
    moreover have "\<not> ?hit \<Longrightarrow> overlap_loop ms1 ms2 (p - 16) \<longleftrightarrow> (\<exists>k. has ms1 k \<and> has ms2 k \<and> int k < p - 16)"
    proof -
      assume nh: "\<not> ?hit"
      have "\<not> (m1 AND m2 \<noteq> 0 \<and> (p \<ge> 16 \<or> push_bit (nat (16 - p)) (ucast m1 :: 32 word)
          AND push_bit (nat (16 - p)) (ucast m2) AND 0xffff \<noteq> 0))" unfolding hit by (rule nh)
      then show "overlap_loop ms1 ms2 (p - 16) \<longleftrightarrow> (\<exists>k. has ms1 k \<and> has ms2 k \<and> int k < p - 16)"
        using 1 False unfolding Let_def CPUmask_s_def of_nat_numeral by simp
    qed
    ultimately show ?thesis using step by blast
  qed auto
qed auto

section \<open>The first CPU\<close>

lemma first_bit_spec:
  assumes "m \<noteq> 0"
  shows "first_bit m cpu n = min (cpu + (LEAST k. bit m k)) (max cpu n)"
  using assms
proof (induction m cpu n rule: first_bit.induct)
  case (1 m cpu n)
  show ?case
  proof (cases "m AND 1 = 0")
    case False
    then have "bit m 0" by (simp add: bit_0 odd_iff_mod_2_eq_one and_one_eq)
    then have "(LEAST k. bit m k) = 0" by (simp add: Least_eq_0)
    then show ?thesis using False by (simp add: first_bit.simps [of m cpu n])
  next
    case True
    then have z: "\<not> bit m 0" by (simp add: bit_0 odd_iff_mod_2_eq_one and_one_eq)
    obtain k where k: "bit m k" using 1(2) mask_nz by blast
    have l: "(LEAST k. bit m k) = Suc (LEAST k. bit m (Suc k))" by (rule Least_Suc [OF k z])
    have b: "bit (drop_bit 1 m) = (\<lambda>k. bit m (Suc k))" by (simp add: bit_drop_bit_eq fun_eq_iff)
    obtain i where "k = Suc i" using k z by (cases k) auto
    then have "bit (drop_bit 1 m) i" using k unfolding b by simp
    then have nz: "drop_bit 1 m \<noteq> 0" by auto
    show ?thesis
    proof (cases "cpu < n")
      case lt: True
      have "first_bit m cpu n = first_bit (drop_bit 1 m) (cpu + 1) n"
        using lt True 1(2) by (simp add: first_bit.simps [of m cpu n])
      with 1(1) [OF _ nz] lt True 1(2) show ?thesis by (simp add: l b [unfolded One_nat_def])
    next
      case False
      then show ?thesis by (simp add: first_bit.simps [of m cpu n])
    qed
  qed
qed

lemma first_loop_spec:
  assumes "n \<le> c + 16 * length ws"
  shows "case first_word ws 0 c n of (m, c') \<Rightarrow> let cpu = first_bit m c' n in
     (n \<le> cpu \<and> (\<forall>k. has ws k \<longrightarrow> n \<le> c + k))
     \<or> (c \<le> cpu \<and> cpu < n \<and> has ws (cpu - c) \<and> (\<forall>k. has ws k \<longrightarrow> cpu \<le> c + k))"
  using assms
proof (induction ws arbitrary: c)
  case Nil
  then show ?case by (simp add: first_bit.simps)
next
  case (Cons w ws)
  show ?case
  proof (cases "c < n")
    case False
    then show ?thesis by (simp add: first_bit.simps)
  next
    case lt: True
    show ?thesis
    proof (cases "w = 0")
      case True
      have h: "has (w # ws) k \<longleftrightarrow> 16 \<le> k \<and> has ws (k - 16)" for k by (simp add: has_Cons True)
      obtain m c' where f: "first_word ws 0 (c + 16) n = (m, c')" by (rule prod.exhaust)
      then have f': "first_word (w # ws) 0 c n = (m, c')" using lt True by (simp add: CPUmask_s_def)
      define cpu where "cpu = first_bit m c' n"
      have "n \<le> (c + 16) + 16 * length ws" using Cons.prems by simp
      from Cons.IH [OF this] f have IH: "(n \<le> cpu \<and> (\<forall>k. has ws k \<longrightarrow> n \<le> c + 16 + k))
         \<or> (c + 16 \<le> cpu \<and> cpu < n \<and> has ws (cpu - (c + 16)) \<and> (\<forall>k. has ws k \<longrightarrow> cpu \<le> c + 16 + k))"
        by (simp add: cpu_def Let_def)
      have sh: "(\<forall>k. has (w # ws) k \<longrightarrow> x \<le> c + k) \<longleftrightarrow> (\<forall>k. has ws k \<longrightarrow> x \<le> c + 16 + k)" for x
      proof -
        have "(\<forall>k. has (w # ws) k \<longrightarrow> x \<le> c + k) \<longleftrightarrow> \<not> (\<exists>k. has (w # ws) k \<and> \<not> x \<le> c + k)" by blast
        also have "\<dots> \<longleftrightarrow> \<not> (\<exists>k. has ws k \<and> \<not> x \<le> c + (k + 16))"
          unfolding ex_has_Cons using True by simp
        finally show ?thesis by (simp add: algebra_simps)
      qed
      have "has (w # ws) (cpu - c) \<longleftrightarrow> has ws (cpu - (c + 16))" if "c + 16 \<le> cpu"
        using that unfolding h by (simp add: diff_diff_eq le_diff_conv2)
      then show ?thesis using IH unfolding f' prod.case Let_def cpu_def [symmetric] sh by auto
    next
      case False
      define l where "l = (LEAST k. bit w k)"
      have l: "bit w l" "l < 16" "\<And>k. bit w k \<Longrightarrow> l \<le> k"
        using False mask_nz [of w] unfolding l_def by (metis LeastI Least_le le_less_trans)+
      have f: "first_word (w # ws) 0 c n = (w, c)" using lt False by simp
      have b: "first_bit w c n = min (c + l) n" using first_bit_spec [OF False, of c n] lt by (simp add: l_def)
      have "\<forall>k. has (w # ws) k \<longrightarrow> l \<le> k" using l by (auto simp: has_Cons)
      moreover have "has (w # ws) l" using l by (simp add: has_Cons)
      ultimately show ?thesis unfolding f prod.case Let_def b by (auto simp: min_def)
    qed
  qed
qed

section \<open>Selecting\<close>

lemma getCPUs_loop_spec:
  assumes "\<forall>s. new = Some s \<longrightarrow> cpu_wf s" "cpu_wf orig" "sorted cs" "distinct cs" "\<forall>c\<in>set cs. c < PSCPU_MAX"
  shows "\<exists>sel. getCPUs_loop cs orig num new found = (map_option (\<lambda>s. fold (\<lambda>c s. PSCPU_setCPU s c) sel s) new, found + length sel)
     \<and> sel = take (nat (num - int found)) (filter (\<lambda>c. has orig c) cs)"
  using assms
proof (induction cs arbitrary: new found)
  case (Cons c cs)
  have i: "PSCPU_isSet orig c = has orig c" by (rule isSet_has [OF Cons.prems(2)])
  show ?case
  proof (cases "int found < num")
    case True
    show ?thesis
    proof (cases "has orig c")
      case h: True
      have "\<forall>s. map_option (\<lambda>s. PSCPU_setCPU s c) new = Some s \<longrightarrow> cpu_wf s" using Cons.prems(1) by auto
      from Cons.IH [OF this, of "found + 1"] Cons.prems
      have "getCPUs_loop cs orig num (map_option (\<lambda>s. PSCPU_setCPU s c) new) (found + 1) =
         (map_option (\<lambda>s. fold (\<lambda>c s. PSCPU_setCPU s c) (take (nat (num - int (found + 1))) (filter (\<lambda>c. has orig c) cs)) s)
           (map_option (\<lambda>s. PSCPU_setCPU s c) new), found + 1 + length (take (nat (num - int (found + 1))) (filter (\<lambda>c. has orig c) cs)))"
        by auto
      moreover have "nat (num - int found) = Suc (nat (num - int (found + 1)))" using True by simp
      ultimately show ?thesis using True h i by (simp add: option.map_comp comp_def)
    next
      case False
      then show ?thesis using Cons True i by auto
    qed
  qed (simp add: option.map_id)
qed (simp add: option.map_id)

lemma cpus_fold_set:
  "cpu_wf s \<Longrightarrow> \<forall>c\<in>set sel. c < PSCPU_MAX \<Longrightarrow>
     cpu_wf (fold (\<lambda>c s. PSCPU_setCPU s c) sel s) \<and> cpus (fold (\<lambda>c s. PSCPU_setCPU s c) sel s) = cpus s \<union> set sel"
  by (induction sel arbitrary: s) (auto simp: cpus_setCPU)

lemma cpus_list: "cpu_wf s \<Longrightarrow> filter (has s) [0..<PSCPU_MAX] = sorted_list_of_set (cpus s)"
proof -
  assume w: "cpu_wf s"
  have "set (filter (has s) [0..<PSCPU_MAX]) = cpus s"
    using w by (auto simp: cpus_def has_def cpu_wf_def cpu_consts)
  moreover have "sorted (filter (has s) [0..<PSCPU_MAX])" "distinct (filter (has s) [0..<PSCPU_MAX])"
    by (simp_all add: sorted_filter [of id, simplified])
  ultimately show ?thesis by (metis sorted_list_of_set.idem_if_sorted_distinct)
qed

lemma getUnset_loop_spec:
  assumes "cpu_wf s"
  shows "getUnset_loop cs s free found =
     (map_option (\<lambda>f. fold (\<lambda>c s. PSCPU_setCPU s c) (filter (\<lambda>c. \<not> has s c) cs) f) free,
      found + length (filter (\<lambda>c. \<not> has s c) cs))"
proof (induction cs arbitrary: free found)
  case (Cons c cs)
  then show ?case using isSet_has [OF assms, of c] by (simp add: option.map_comp comp_def)
qed (simp add: option.map_id)

lemma trim_loop_None: "found mod tpp \<le> cpu \<Longrightarrow> trim_loop cpu None found tpp = (None, found - found mod tpp)"
proof (induction cpu arbitrary: found)
  case (Suc cpu)
  show ?case
  proof (cases "found mod tpp = 0")
    case False
    then obtain f where "found = Suc f" by (cases found) auto
    then have "(found - 1) mod tpp = found mod tpp - 1" using False by (simp add: mod_Suc split: if_splits)
    then show ?thesis using Suc False by simp
  qed simp
qed simp

lemma trim_loop_Some:
  assumes "cpu_wf f" "cpus f = set L" "sorted L" "distinct L" "\<forall>c\<in>set L. c < cpu"
  shows "\<exists>f'. trim_loop cpu (Some f) (length L) tpp = (Some f', length L - length L mod tpp)
     \<and> cpu_wf f' \<and> cpus f' = set (take (length L - length L mod tpp) L)"
  using assms
proof (induction cpu arbitrary: f L)
  case 0
  then show ?case by simp
next
  case (Suc cpu)
  have i: "PSCPU_isSet f cpu \<longleftrightarrow> cpu \<in> set L"
    using isSet_has [OF Suc.prems(1)] Suc.prems(2) by (auto simp: cpus_def)
  show ?case
  proof (cases "length L mod tpp = 0")
    case True
    then show ?thesis using Suc.prems by auto
  next
    case nz: False
    show ?thesis
    proof (cases "cpu \<in> set L")
      case False
      then have "\<forall>c\<in>set L. c < cpu" using Suc.prems(5) by (metis less_Suc_eq)
      from Suc.IH [OF Suc.prems(1-4) this] show ?thesis using nz i False by simp
    next
      case True
      then have ne: "L \<noteq> []" by auto
      have "cpu \<le> last L"
      proof (cases "cpu = last L")
        case False
        then have "cpu \<in> set (butlast L)" 
          using True ne append_butlast_last_id [OF ne] by (metis UnE empty_iff empty_set set_ConsD set_append)
        moreover have "sorted (butlast L @ [last L])" using Suc.prems(3) ne by simp
        ultimately show ?thesis by (simp add: sorted_append)
      qed simp
      moreover have "last L \<le> cpu" using Suc.prems(5) ne by (simp add: less_Suc_eq_le)
      ultimately obtain M where M: "L = M @ [cpu]" using ne by (metis append_butlast_last_id order_antisym)
      have "cpu \<notin> set M" "sorted M" "distinct M" using Suc.prems(3,4) M by (auto simp: sorted_append)
      moreover have "\<forall>c\<in>set M. c < cpu"
        using Suc.prems(5) M calculation(1) by (metis UnI1 less_Suc_eq set_append)
      moreover have "cpus (PSCPU_clrCPU f cpu) = set M"
        using cpus_clrCPU [OF Suc.prems(1), of cpu] Suc.prems(2) M calculation(1) by auto
      ultimately obtain f' where f': "trim_loop cpu (Some (PSCPU_clrCPU f cpu)) (length M) tpp =
          (Some f', length M - length M mod tpp)" "cpu_wf f'" "cpus f' = set (take (length M - length M mod tpp) M)"
        using Suc.IH [of "PSCPU_clrCPU f cpu" M] Suc.prems(1) by auto
      have "length L mod tpp = Suc (length M mod tpp)" using nz M by (simp add: mod_Suc split: if_splits)
      then show ?thesis using f' nz i True M by simp
    qed
  qed
qed

section \<open>The operations\<close>

definition clip :: "nat \<Rightarrow> nat" where
  "clip n = (if n > PSCPU_MAX then PSCPU_MAX else n)"

lemma PSCPU_any_spec: "PSCPU_any s n \<longleftrightarrow> (\<exists>k\<in>cpus s. k div 16 * 16 < clip n)"
  by (auto simp: PSCPU_any_def any_loop_spec cpus_def clip_def)

lemma PSCPU_all_spec:
  assumes "cpu_wf s"
  shows "PSCPU_all s n \<longleftrightarrow> (\<forall>k. k div 16 * 16 < clip n \<longrightarrow> k \<in> cpus s)"
proof -
  have b: "k div 16 < length s" if "k div 16 * 16 < clip n" for k
    using that assms by (auto simp: clip_def cpu_wf_def cpu_consts split: if_splits)
  have "PSCPU_all s n \<longleftrightarrow> \<not> (\<exists>k. k div 16 < length s \<and> \<not> has s k \<and> k div 16 * 16 < clip n)"
    by (auto simp: PSCPU_all_def all_loop_any any_loop_spec has_map_not clip_def)
  then show ?thesis using b by (auto simp: cpus_def)
qed

lemma PSCPU_overlap_spec:
  "cpu_wf s \<Longrightarrow> cpu_wf t \<Longrightarrow> PSCPU_overlap s t n \<longleftrightarrow> (\<exists>k<clip n. k \<in> cpus s \<and> k \<in> cpus t)"
  by (auto simp: PSCPU_overlap_def overlap_loop_spec cpu_wf_def cpus_def clip_def)

lemma PSCPU_first_spec:
  assumes "cpu_wf s"
  shows "PSCPU_first s n = (if \<exists>k\<in>cpus s. k < clip n then int (LEAST k. k \<in> cpus s) else -1)"
proof -
  have len: "clip n \<le> 0 + 16 * length s" using assms by (simp add: clip_def cpu_wf_def cpu_consts)
  obtain m c where f: "first_word s 0 0 (clip n) = (m, c)" by (rule prod.exhaust)
  define cpu where "cpu = first_bit m c (clip n)"
  from first_loop_spec [OF len] f
  have c: "(clip n \<le> cpu \<and> (\<forall>k. has s k \<longrightarrow> clip n \<le> k))
     \<or> (cpu < clip n \<and> has s cpu \<and> (\<forall>k. has s k \<longrightarrow> cpu \<le> k))" by (simp add: cpu_def Let_def)
  have eq: "PSCPU_first s n = (if cpu \<ge> clip n then -1 else int cpu)"
    unfolding PSCPU_first_def Let_def clip_def [symmetric] f prod.case cpu_def [symmetric] ..
  from c show ?thesis
  proof
    assume "clip n \<le> cpu \<and> (\<forall>k. has s k \<longrightarrow> clip n \<le> k)"
    then show ?thesis using eq by (auto simp: cpus_def linorder_not_less)
  next
    assume h: "cpu < clip n \<and> has s cpu \<and> (\<forall>k. has s k \<longrightarrow> cpu \<le> k)"
    then have "(LEAST k. k \<in> cpus s) = cpu" by (intro Least_equality) (auto simp: cpus_def)
    then show ?thesis using eq h by (auto simp: cpus_def)
  qed
qed

lemma PSCPU_getCPUs_spec:
  assumes "cpu_wf s" "cpu_wf new"
  shows "\<exists>new'. PSCPU_getCPUs s (Some new) num = (Some new', length (take (nat num) (sorted_list_of_set (cpus s))))
     \<and> cpu_wf new' \<and> cpus new' = set (take (nat num) (sorted_list_of_set (cpus s)))"
proof -
  define sel where "sel = take (nat num) (sorted_list_of_set (cpus s))"
  have m: "\<forall>c\<in>set sel. c < PSCPU_MAX"
    unfolding sel_def cpus_list [OF assms(1), symmetric] by (auto dest: in_set_takeD)
  from getCPUs_loop_spec [of "Some (PSCPU_clrAll new)" s "[0..<PSCPU_MAX]" num 0] assms
  have "PSCPU_getCPUs s (Some new) num =
     (Some (fold (\<lambda>c s. PSCPU_setCPU s c) sel (PSCPU_clrAll new)), length sel)"
    by (simp add: PSCPU_getCPUs_def cpus_list sel_def)
  with cpus_fold_set [OF _ m, of "PSCPU_clrAll new"] assms(2) show ?thesis by (simp add: sel_def)
qed

lemma PSCPU_getUnset_spec:
  assumes "cpu_wf s" "cpu_wf new" and L: "L = filter (\<lambda>c. c \<notin> cpus s) [0..<clip n]"
  shows "\<exists>new'. PSCPU_getUnset s n (Some new) tpp = (Some new', length L - length L mod tpp)
     \<and> cpus new' = set (take (length L - length L mod tpp) L)"
    and "PSCPU_getUnset s n None tpp = (None, length L - length L mod tpp)"
proof -
  have L: "L = filter (\<lambda>c. \<not> has s c) [0..<clip n]" by (simp add: L cpus_def)
  have m: "\<forall>c\<in>set L. c < PSCPU_MAX" and l: "\<forall>c\<in>set L. c < clip n"
    by (auto simp: L clip_def split: if_splits)
  have sd: "sorted L" "distinct L" by (simp_all add: L sorted_filter [of id, simplified])
  let ?f = "fold (\<lambda>c s. PSCPU_setCPU s c) L (PSCPU_clrAll new)"
  have w: "cpu_wf ?f" "cpus ?f = set L" using cpus_fold_set [OF _ m, of "PSCPU_clrAll new"] assms(2) by auto
  from trim_loop_Some [OF w sd l, of tpp]
  show "\<exists>new'. PSCPU_getUnset s n (Some new) tpp = (Some new', length L - length L mod tpp)
     \<and> cpus new' = set (take (length L - length L mod tpp) L)"
    by (auto simp: PSCPU_getUnset_def getUnset_loop_spec [OF assms(1)] clip_def [symmetric] L [symmetric])
  have "length L \<le> clip n" unfolding L by (metis length_filter_le length_upt diff_zero)
  then have "length L mod tpp \<le> clip n" by (meson le_trans mod_less_eq_dividend)
  from trim_loop_None [OF this]
  show "PSCPU_getUnset s n None tpp = (None, length L - length L mod tpp)"
    by (simp add: PSCPU_getUnset_def getUnset_loop_spec [OF assms(1)] clip_def [symmetric] L [symmetric])
qed

end
