(* ===== verification/Cpu_Props.thy ===== *)
theory Cpu_Props
  imports Cpu_Spec
begin

text \<open>
  The properties of CPU sets, each with a witness where it has hypotheses.
\<close>

definition ex_cpus :: "nat list \<Rightarrow> PSCPU_set" where
  "ex_cpus cs = fold (\<lambda>c s. PSCPU_setCPU s c) cs (replicate CPU_words 0)"

lemma ex_cpus: "\<forall>c\<in>set cs. c < PSCPU_MAX \<Longrightarrow> cpu_wf (ex_cpus cs) \<and> cpus (ex_cpus cs) = set cs"
proof -
  assume m: "\<forall>c\<in>set cs. c < PSCPU_MAX"
  have "cpu_wf (replicate CPU_words 0)" "cpus (replicate CPU_words 0) = {}"
    by (auto simp: cpu_wf_def cpus_def has_def)
  with cpus_fold_set [OF this(1) m] show ?thesis by (simp add: ex_cpus_def)
qed

text \<open>
  The operations on the mask arrays are the operations on the sets of CPUs they stand for.
\<close>

theorem cpu_sets_are_sets:
  assumes "cpu_wf s" "cpu_wf t"
  shows "(PSCPU_isSet s c \<longleftrightarrow> c \<in> cpus s)
     \<and> cpus (PSCPU_setCPU s c) = (if c < PSCPU_MAX then insert c (cpus s) else cpus s)
     \<and> cpus (PSCPU_clrCPU s c) = cpus s - {c}
     \<and> cpus (PSCPU_addCPUs s t) = cpus s \<union> cpus t \<and> cpus (PSCPU_remCPUs s t) = cpus s - cpus t
     \<and> cpus (PSCPU_setAll s) = {..<PSCPU_MAX} \<and> cpus (PSCPU_clrAll s) = {}"
proof -
  have "length t = length s" using assms by (simp add: cpu_wf_def)
  then show ?thesis
    using isSet_has [OF assms(1)] cpus_setCPU [OF assms(1)] cpus_clrCPU [OF assms(1)] cpus_setAll [OF assms(1)]
    by (simp add: cpus_addCPUs cpus_remCPUs) (simp add: cpus_def)
qed

theorem cpu_sets_are_sets_witness:
  "cpus (PSCPU_remCPUs (PSCPU_setCPU (ex_cpus [3, 40]) 1023) (ex_cpus [40])) = {3, 1023}"
proof -
  have a: "cpu_wf (ex_cpus [3, 40])" "cpus (ex_cpus [3, 40]) = {3, 40}" "cpu_wf (ex_cpus [40])" "cpus (ex_cpus [40]) = {40}"
    using ex_cpus [of "[3, 40]"] ex_cpus [of "[40]"] by (simp_all add: PSCPU_MAX_def)
  have b: "cpu_wf (PSCPU_setCPU (ex_cpus [3, 40]) 1023)" using a by simp
  show ?thesis using cpu_sets_are_sets [OF a(1,3), of 1023] cpu_sets_are_sets [OF b a(3)] a
    by (auto simp: PSCPU_MAX_def)
qed

text \<open>
  \<open>PSCPU_any\<close> and \<open>PSCPU_all\<close> look at whole masks: a CPU beyond \<open>numBits\<close> counts as long as the
  mask it is in starts below \<open>numBits\<close> (the shift that should cut it off happens in \<open>int\<close>).
\<close>

theorem any_all_whole_masks:
  assumes "cpu_wf s"
  shows "(PSCPU_any s n \<longleftrightarrow> (\<exists>k\<in>cpus s. k div 16 * 16 < clip n))
     \<and> (PSCPU_all s n \<longleftrightarrow> (\<forall>k. k div 16 * 16 < clip n \<longrightarrow> k \<in> cpus s))"
  using PSCPU_any_spec PSCPU_all_spec [OF assms] by blast

text \<open>CPU 17 alone is found among the first 17; CPUs 0 to 16 are not all of the first 17.\<close>

theorem any_all_whole_masks_witness:
  "PSCPU_any (ex_cpus [17]) 17 \<and> \<not> PSCPU_all (ex_cpus [0..<17]) 17"
proof -
  have "cpu_wf (ex_cpus [17]) \<and> cpus (ex_cpus [17]) = {17}"
    using ex_cpus [of "[17]"] by (simp add: PSCPU_MAX_def)
  moreover have "cpu_wf (ex_cpus [0..<17]) \<and> cpus (ex_cpus [0..<17]) = {0..<17}"
    using ex_cpus [of "[0..<17]"] by (auto simp: PSCPU_MAX_def)
  moreover have "\<not> (\<forall>k. k div 16 * 16 < clip 17 \<longrightarrow> k \<in> {0..<17::nat})"
    by (simp add: clip_def PSCPU_MAX_def) (rule exI [of _ 17], simp)
  ultimately show ?thesis
    using any_all_whole_masks [of "ex_cpus [17]" 17] any_all_whole_masks [of "ex_cpus [0..<17]" 17]
    by (auto simp: clip_def PSCPU_MAX_def)
qed

text \<open>
  C39: \<open>PSCPU_overlap\<close> looks at exactly the first \<open>numBits\<close> CPUs, and \<open>PSCPU_first\<close> gives the lowest
  CPU among them, or -1.
\<close>

theorem overlap_first_exact:
  assumes "cpu_wf s" "cpu_wf t"
  shows "(PSCPU_overlap s t n \<longleftrightarrow> (\<exists>k<clip n. k \<in> cpus s \<and> k \<in> cpus t))
     \<and> PSCPU_first s n = (if \<exists>k\<in>cpus s. k < clip n then int (LEAST k. k \<in> cpus s) else -1)"
  using PSCPU_overlap_spec [OF assms] PSCPU_first_spec [OF assms(1)] by blast

theorem overlap_first_exact_witness:
  "\<not> PSCPU_overlap (ex_cpus [5, 17]) (ex_cpus [17]) 17 \<and> PSCPU_overlap (ex_cpus [5, 17]) (ex_cpus [17]) 18
   \<and> PSCPU_first (ex_cpus [17]) 17 = -1 \<and> PSCPU_first (ex_cpus [17]) 18 = 17"
proof -
  have a: "cpu_wf (ex_cpus [5, 17])" "cpus (ex_cpus [5, 17]) = {5, 17}"
    "cpu_wf (ex_cpus [17])" "cpus (ex_cpus [17]) = {17}"
    using ex_cpus [of "[5, 17]"] ex_cpus [of "[17]"] by (simp_all add: PSCPU_MAX_def)
  have "(LEAST k. k \<in> {17::nat}) = 17" by (rule Least_equality) auto
  with overlap_first_exact [OF a(1,3)] overlap_first_exact [OF a(3,3)] show ?thesis
    by (simp add: a clip_def PSCPU_MAX_def)
qed

text \<open>
  \<open>PSCPU_getUnset\<close> gives the lowest CPUs among the first \<open>numBits\<close> that are not set, as many as
  there are full groups of \<open>tpp\<close>, and their number, the same whether a set to store them is given
  or not; \<open>PSCPU_getCPUs\<close> gives the lowest \<open>num\<close> CPUs that are set.
\<close>

theorem selects_lowest:
  assumes "cpu_wf s" "cpu_wf new" and L: "L = filter (\<lambda>c. c \<notin> cpus s) [0..<clip n]"
  shows "\<exists>new1 new2. PSCPU_getUnset s n (Some new) tpp = (Some new1, length L - length L mod tpp)
     \<and> cpus new1 = set (take (length L - length L mod tpp) L)
     \<and> PSCPU_getUnset s n None tpp = (None, length L - length L mod tpp)
     \<and> PSCPU_getCPUs s (Some new) num = (Some new2, card (cpus new2))
     \<and> cpus new2 = set (take (nat num) (sorted_list_of_set (cpus s)))"
proof -
  from PSCPU_getCPUs_spec [OF assms(1,2), of num] obtain new2 where
    n: "PSCPU_getCPUs s (Some new) num = (Some new2, length (take (nat num) (sorted_list_of_set (cpus s))))"
    "cpus new2 = set (take (nat num) (sorted_list_of_set (cpus s)))" by blast
  moreover have "card (cpus new2) = length (take (nat num) (sorted_list_of_set (cpus s)))"
    unfolding n(2) by (rule distinct_card) (simp add: distinct_take)
  ultimately show ?thesis using PSCPU_getUnset_spec [OF assms] by metis
qed

theorem selects_lowest_witness:
  "\<exists>new. PSCPU_getUnset (ex_cpus [0, 2]) 6 (Some (ex_cpus [])) 3 = (Some new, 3) \<and> cpus new = {1, 3, 4}"
proof -
  have a: "cpu_wf (ex_cpus [0, 2])" "cpus (ex_cpus [0, 2]) = {0, 2}" "cpu_wf (ex_cpus [])"
    using ex_cpus [of "[0, 2]"] ex_cpus [of "[]"] by (simp_all add: PSCPU_MAX_def)
  have L: "filter (\<lambda>c. c \<notin> cpus (ex_cpus [0, 2])) [0..<clip 6] = [1, 3, 4, 5]"
    by (simp add: a clip_def PSCPU_MAX_def upt_rec)
  from selects_lowest [OF a(1,3) refl, of 6 3 0] show ?thesis unfolding L by auto
qed

end
