(* ===== verification/Env.thy ===== *)
theory Env
  imports Prelude
begin

text \<open>
  Environments (\<open>src/lib/pscommon/psenv.c\<close>): an array of strings \<open>name=value\<close> that ends with a NULL
  pointer.  A string has no zero character.  \<open>vars\<close> are the used entries of the array (\<open>None\<close> for a
  NULL pointer among them), \<open>e_array\<close> says that there is an array at all and \<open>e_term\<close> that the entry
  behind the used ones is the NULL pointer that ends it.  Results of allocations come from a
  script (an empty script means success).  \<open>None\<close> as the result of a function is undefined
  behaviour: a NULL pointer is dereferenced.
\<close>

section \<open>State\<close>

record env =
  e_init :: bool
  vars :: "string option list"
  e_size :: nat
  e_array :: bool
  e_term :: bool

type_synonym script = "bool list"

definition alloc :: "script \<Rightarrow> bool \<times> script" where
  "alloc q = (case q of [] \<Rightarrow> (True, []) | b # bs \<Rightarrow> (b, bs))"

definition VECTOR_CHUNK_SIZE :: nat where "VECTOR_CHUNK_SIZE = 16"

definition empty_env :: env where
  "empty_env = \<lparr>e_init = True, vars = [], e_size = 0, e_array = False, e_term = False\<rparr>"

definition envNew :: "string list option \<Rightarrow> script \<Rightarrow> env option \<times> script" where
  "envNew envArray q =
     (case alloc q of
        (False, q1) \<Rightarrow> (None, q1)
      | (True, q1) \<Rightarrow>
          (Some (case envArray of
             None \<Rightarrow> empty_env
           | Some a \<Rightarrow> empty_env\<lparr>vars := map Some a, e_size := length a + 1, e_array := True, e_term := True\<rparr>), q1))"

definition envInitialized :: "env \<Rightarrow> bool" where
  "envInitialized e = e_init e"

definition envSize :: "env \<Rightarrow> nat" where
  "envSize e = (if envInitialized e then length (vars e) else 0)"

text \<open>The last entry takes the place of the removed one.\<close>

definition envUnsetIndex :: "nat \<Rightarrow> env \<Rightarrow> env" where
  "envUnsetIndex idx e =
     (if \<not> envInitialized e then e
      else e\<lparr>vars := butlast ((vars e)[idx := last (vars e)]), e_term := True\<rparr>)"

section \<open>Looking up\<close>

definition is_eq :: "char \<Rightarrow> bool" where "is_eq c \<longleftrightarrow> c = CHR ''=''"

text \<open>\<open>strncmp(name, s, len)\<close> is 0 and \<open>s[len]\<close> is the equals sign.\<close>

definition entry_matches :: "string \<Rightarrow> nat \<Rightarrow> string \<Rightarrow> bool" where
  "entry_matches name len s \<longleftrightarrow> take len s = take len name \<and> len < length s \<and> is_eq (s ! len)"

fun find_entry :: "string \<Rightarrow> nat \<Rightarrow> string option list \<Rightarrow> nat \<Rightarrow> int option" where
  "find_entry name len [] i = Some (-1)"
| "find_entry name len (None # es) i = None"
| "find_entry name len (Some s # es) i =
     (if entry_matches name len s then Some (int i) else find_entry name len es (i + 1))"

definition getIndex :: "env \<Rightarrow> string option \<Rightarrow> nat \<Rightarrow> int option" where
  "getIndex e name nameLen =
     (case name of
        None \<Rightarrow> Some (-1)
      | Some n \<Rightarrow>
          if \<not> envInitialized e then Some (-1)
          else
            let len = (if nameLen \<noteq> 0 then nameLen else length n)
            in if \<exists>c\<in>set (take len n). is_eq c then Some (-1)
               else find_entry n len (vars e) 0)"

definition envGet :: "env \<Rightarrow> string option \<Rightarrow> string option option" where
  "envGet e name =
     (case getIndex e name 0 of
        None \<Rightarrow> None
      | Some idx \<Rightarrow>
          if idx = -1 then Some None
          else (case vars e ! nat idx of
                  None \<Rightarrow> None
                | Some s \<Rightarrow> Some (Some (tl (dropWhile (\<lambda>c. \<not> is_eq c) s)))))"

definition envDumpIndex :: "env \<Rightarrow> nat \<Rightarrow> string option" where
  "envDumpIndex e idx =
     (if \<not> envInitialized e \<or> idx \<ge> length (vars e) then None else vars e ! idx)"

section \<open>Changing\<close>

definition envUnset :: "string option \<Rightarrow> env \<Rightarrow> env option" where
  "envUnset name e =
     (case getIndex e name 0 of
        None \<Rightarrow> None
      | Some idx \<Rightarrow> Some (if idx = -1 then e else envUnsetIndex (nat idx) e))"

text \<open>The string is \<open>None\<close> where its allocation failed.\<close>

definition doSet :: "string option \<Rightarrow> env \<Rightarrow> script \<Rightarrow> bool \<times> env \<times> script" where
  "doSet envStr e q =
     (if \<not> envInitialized e \<or> envStr = None then (False, e, q)
      else
        let (ok, e1, q1) =
              (if length (vars e) + 1 \<ge> e_size e
               then (case alloc q of
                       (False, q1) \<Rightarrow> (False, e, q1)
                     | (True, q1) \<Rightarrow> (True, e\<lparr>e_size := e_size e + VECTOR_CHUNK_SIZE, e_array := True\<rparr>, q1))
               else (True, e, q))
        in if \<not> ok then (False, e1, q1)
           else (True, e1\<lparr>vars := vars e1 @ [envStr], e_term := True\<rparr>, q1))"

definition PSC_concat :: "string list \<Rightarrow> script \<Rightarrow> string option \<times> script" where
  "PSC_concat strs q = (case alloc q of (ok, q1) \<Rightarrow> (if ok then Some (concat strs) else None, q1))"

text \<open>Where the new string cannot be allocated an existing entry becomes a NULL pointer.\<close>

definition envSet ::
  "string option \<Rightarrow> string option \<Rightarrow> env \<Rightarrow> script \<Rightarrow> (bool \<times> env \<times> script) option" where
  "envSet name val e q =
     (case name of
        None \<Rightarrow> Some (False, e, q)
      | Some n \<Rightarrow>
          if \<not> envInitialized e \<or> (\<exists>c\<in>set n. is_eq c) then Some (False, e, q)
          else
            let v = (case val of None \<Rightarrow> [] | Some v \<Rightarrow> v) in
            case getIndex e name 0 of
              None \<Rightarrow> None
            | Some idx \<Rightarrow>
                let (str, q1) = PSC_concat [n, ''='', v] q in
                if idx \<noteq> -1
                then Some (str \<noteq> None, e\<lparr>vars := (vars e)[nat idx := str]\<rparr>, q1)
                else Some (doSet str e q1))"

definition envPut :: "string option \<Rightarrow> env \<Rightarrow> script \<Rightarrow> (bool \<times> env \<times> script) option" where
  "envPut envStr e q =
     (case envStr of
        None \<Rightarrow> Some (False, e, q)
      | Some s \<Rightarrow>
          if \<not> envInitialized e \<or> \<not> (\<exists>c\<in>set s. is_eq c) then Some (False, e, q)
          else
            let keyLen = length (takeWhile (\<lambda>c. \<not> is_eq c) s) in
            if keyLen = 0 then Some (False, e, q)
            else case getIndex e envStr keyLen of
                None \<Rightarrow> None
              | Some idx \<Rightarrow>
                  if idx \<noteq> -1 then Some (True, e\<lparr>vars := (vars e)[nat idx := Some s]\<rparr>, q)
                  else Some (doSet envStr e q))"

definition envAdd :: "string option \<Rightarrow> env \<Rightarrow> script \<Rightarrow> (bool \<times> env \<times> script) option" where
  "envAdd envStr e q =
     (case envStr of
        None \<Rightarrow> Some (False, e, q)
      | Some s \<Rightarrow>
          if \<not> envInitialized e then Some (False, e, q)
          else (case alloc q of (ok, q1) \<Rightarrow> envPut (if ok then Some s else None) e q1))"

section \<open>Whole environments\<close>

text \<open>
  Copying entries into an environment, all of them or those that pass the filter.  A NULL pointer
  among them is passed on to the filter or to \<open>strdup()\<close>.
\<close>

fun copy_entries ::
  "(string \<Rightarrow> bool) option \<Rightarrow> string option list \<Rightarrow> env \<Rightarrow> script \<Rightarrow> (bool \<times> env \<times> script) option" where
  "copy_entries flt [] e q = Some (True, e, q)"
| "copy_entries flt (None # ss) e q = None"
| "copy_entries flt (Some s # ss) e q =
     (if (case flt of Some f \<Rightarrow> \<not> f s | None \<Rightarrow> False) then copy_entries flt ss e q
      else
        let (ok, q1) = alloc q;
            (r, e1, q2) = doSet (if ok then Some s else None) e q1
        in if \<not> r then Some (False, e1, q2) else copy_entries flt ss e1 q2)"

definition envConstruct ::
  "string list option \<Rightarrow> (string \<Rightarrow> bool) option \<Rightarrow> script \<Rightarrow> (env option \<times> script) option" where
  "envConstruct envArray flt q =
     (case envArray of
        None \<Rightarrow> Some (None, q)
      | Some a \<Rightarrow>
          (case envNew None q of
             (None, q1) \<Rightarrow> Some (None, q1)
           | (Some e, q1) \<Rightarrow>
               if a = [] then Some (Some e, q1)
               else (case alloc q1 of
                   (False, q2) \<Rightarrow> Some (None, q2)
                 | (True, q2) \<Rightarrow>
                     (case copy_entries flt (map Some a) (e\<lparr>e_size := length a + 1, e_array := True\<rparr>) q2 of
                        None \<Rightarrow> None
                      | Some (False, e1, q3) \<Rightarrow> Some (None, q3)
                      | Some (True, e1, q3) \<Rightarrow> Some (Some e1, q3)))))"

text \<open>\<open>None\<close> for an array that is not terminated: its reader runs beyond the end.\<close>

definition envGetArray :: "env \<Rightarrow> string option list option option" where
  "envGetArray e =
     (if \<not> envInitialized e \<or> \<not> e_array e then Some None
      else if e_term e then Some (Some (vars e)) else None)"

definition envClone :: "env \<Rightarrow> (string \<Rightarrow> bool) option \<Rightarrow> script \<Rightarrow> (env option \<times> script) option" where
  "envClone e flt q =
     (if \<not> envInitialized e then Some (None, q)
      else case envNew None q of
        (None, q1) \<Rightarrow> Some (None, q1)
      | (Some c, q1) \<Rightarrow>
          if vars e = [] then Some (Some c, q1)
          else case alloc q1 of
            (False, q2) \<Rightarrow> Some (None, q2)
          | (True, q2) \<Rightarrow>
              (case copy_entries flt (vars e) (c\<lparr>e_size := e_size e, e_array := True\<rparr>) q2 of
                 None \<Rightarrow> None
               | Some (False, c1, q3) \<Rightarrow> Some (None, q3)
               | Some (True, c1, q3) \<Rightarrow> Some (Some c1, q3)))"

fun add_entries ::
  "(string \<Rightarrow> bool) option \<Rightarrow> bool \<Rightarrow> string option list \<Rightarrow> env \<Rightarrow> script \<Rightarrow> (bool \<times> env \<times> script) option" where
  "add_entries flt merge [] e q = Some (True, e, q)"
| "add_entries flt merge (s # ss) e q =
     (if flt \<noteq> None \<and> s = None then None
      else if (case flt of Some f \<Rightarrow> \<not> f (the s) | None \<Rightarrow> False) then add_entries flt merge ss e q
      else
        case (if merge then envAdd s e q
              else if s = None then None
              else (case alloc q of (ok, q1) \<Rightarrow> Some (doSet (if ok then s else None) e q1))) of
          None \<Rightarrow> None
        | Some (False, e1, q1) \<Rightarrow> Some (False, e1, q1)
        | Some (True, e1, q1) \<Rightarrow> add_entries flt merge ss e1 q1)"

text \<open>\<open>dst\<close> and \<open>src\<close> are different environments.\<close>

definition envConcat ::
  "env \<Rightarrow> (string \<Rightarrow> bool) option \<Rightarrow> bool \<Rightarrow> env \<Rightarrow> script \<Rightarrow> (bool \<times> env \<times> script) option" where
  "envConcat src flt merge dst q =
     (if \<not> envInitialized dst \<or> \<not> envInitialized src then Some (False, dst, q)
      else
        let count = length (vars dst) + length (vars src) + 1;
            (ok, dst1, q1) =
              (if count > e_size dst
               then (case alloc q of
                       (False, q1) \<Rightarrow> (False, dst, q1)
                     | (True, q1) \<Rightarrow> (True, dst\<lparr>e_size := count, e_array := True\<rparr>, q1))
               else (True, dst, q))
        in if \<not> ok then Some (False, dst1, q1)
           else add_entries flt merge (vars src) dst1 q1)"

text \<open>The index stays where it is after a removal.\<close>

function evict_loop :: "(string \<Rightarrow> bool) \<Rightarrow> nat \<Rightarrow> env \<Rightarrow> env option" where
  "evict_loop f i e =
     (if \<not> envInitialized e \<or> \<not> i < length (vars e) then Some e
      else case vars e ! i of
        None \<Rightarrow> None
      | Some s \<Rightarrow> if \<not> f s then evict_loop f (i + 1) e else evict_loop f i (envUnsetIndex i e))"
  by pat_completeness auto
termination
  by (relation "measure (\<lambda>(f, i, e). 2 * length (vars e) - i)") (auto simp: envUnsetIndex_def)

declare evict_loop.simps [simp del]

definition envEvict :: "(string \<Rightarrow> bool) option \<Rightarrow> env \<Rightarrow> env option" where
  "envEvict flt e =
     (case flt of None \<Rightarrow> Some e
      | Some f \<Rightarrow> if \<not> envInitialized e then Some e else evict_loop f 0 e)"

text \<open>Tokens between commas and blanks.\<close>

definition is_delim :: "char \<Rightarrow> bool" where
  "is_delim c \<longleftrightarrow> c = CHR '','' \<or> c = CHR '' ''"

function tokens :: "string \<Rightarrow> string list" where
  "tokens s =
     (case dropWhile is_delim s of
        [] \<Rightarrow> []
      | c # cs \<Rightarrow> takeWhile (\<lambda>c. \<not> is_delim c) (c # cs) # tokens (dropWhile (\<lambda>c. \<not> is_delim c) cs))"
  by pat_completeness auto
termination
proof (relation "measure length")
  fix s c cs
  assume "dropWhile is_delim s = c # cs"
  then have "length (c # cs) \<le> length s" by (metis length_dropWhile_le)
  then show "(dropWhile (\<lambda>c. \<not> is_delim c) cs, s) \<in> measure length"
    using length_dropWhile_le [of "\<lambda>c. \<not> is_delim c" cs] by simp
qed simp

declare tokens.simps [simp del]

fun add_tokens :: "string list \<Rightarrow> env \<Rightarrow> script \<Rightarrow> (env option \<times> script) option" where
  "add_tokens [] e q = Some (Some e, q)"
| "add_tokens (t # ts) e q =
     (case envAdd (Some t) e q of
        None \<Rightarrow> None
      | Some (False, e1, q1) \<Rightarrow> Some (None, q1)
      | Some (True, e1, q1) \<Rightarrow> add_tokens ts e1 q1)"

definition envFromString :: "string option \<Rightarrow> script \<Rightarrow> (env option \<times> script) option" where
  "envFromString str q =
     (case str of
        None \<Rightarrow> Some (None, q)
      | Some s \<Rightarrow>
          (case envNew None q of
             (None, q1) \<Rightarrow> Some (None, q1)
           | (Some e, q1) \<Rightarrow>
               (case alloc q1 of
                  (False, q2) \<Rightarrow> Some (None, q2)
                | (True, q2) \<Rightarrow> add_tokens (tokens s) e q2)))"

end
