(* ===== verification/Env_Spec.thy ===== *)
theory Env_Spec
  imports Env
begin

text \<open>
  What an environment promises: it is a finite map from names to values, whatever the order of the
  entries in the array.  The promise is the interface \<open>keyed_env\<close>; the functions of \<open>Env\<close> implement
  it as long as allocations succeed.
\<close>

section \<open>The interface\<close>

locale keyed_env =
  fixes get :: "'e \<Rightarrow> 'k \<Rightarrow> 'v option"
    and put :: "'k \<Rightarrow> 'v \<Rightarrow> 'e \<Rightarrow> 'e"
    and del :: "'k \<Rightarrow> 'e \<Rightarrow> 'e"
    and valid :: "'k \<Rightarrow> bool"
    and ok :: "'e \<Rightarrow> bool"
  assumes get_put: "ok e \<Longrightarrow> valid k \<Longrightarrow> get (put k v e) = (get e)(k \<mapsto> v)"
    and get_del: "ok e \<Longrightarrow> valid k \<Longrightarrow> get (del k e) = (get e)(k := None)"
    and ok_put: "ok e \<Longrightarrow> valid k \<Longrightarrow> ok (put k v e)"
    and ok_del: "ok e \<Longrightarrow> valid k \<Longrightarrow> ok (del k e)"
begin

lemma puts_spec:
  assumes "ok e" "\<forall>(k, v)\<in>set kvs. valid k"
  shows "ok (fold (\<lambda>(k, v). put k v) kvs e) \<and> get (fold (\<lambda>(k, v). put k v) kvs e) = get e ++ map_of (rev kvs)"
  using assms
proof (induction kvs arbitrary: e)
  case (Cons x kvs)
  obtain k v where x: "x = (k, v)" by fastforce
  with Cons.prems have p: "ok (put k v e)" "get (put k v e) = (get e)(k \<mapsto> v)" by (auto simp: ok_put get_put)
  have s: "fold (\<lambda>(k, v). put k v) (x # kvs) e = fold (\<lambda>(k, v). put k v) kvs (put k v e)" by (simp add: x)
  have m: "(get e)(k \<mapsto> v) ++ map_of (rev kvs) = get e ++ map_of (rev (x # kvs))"
    by (rule ext) (auto simp: x map_add_def split: option.splits)
  have "\<forall>(k, v)\<in>set kvs. valid k" using Cons.prems by simp
  from Cons.IH [OF p(1) this] show ?case unfolding s m [symmetric] p(2) .
qed simp

lemma put_del: "ok e \<Longrightarrow> valid k \<Longrightarrow> get (del k (put k v e)) = (get e)(k := None)"
  by (simp add: get_del get_put ok_put)

end

section \<open>Names and values\<close>

definition has_eq :: "string \<Rightarrow> bool" where
  "has_eq s \<longleftrightarrow> (\<exists>c\<in>set s. is_eq c)"

definition key_of :: "string \<Rightarrow> string" where
  "key_of s = takeWhile (\<lambda>c. \<not> is_eq c) s"

definition val_of :: "string \<Rightarrow> string" where
  "val_of s = tl (dropWhile (\<lambda>c. \<not> is_eq c) s)"

lemma key_no_eq: "\<not> has_eq (key_of s)"
  by (auto simp: has_eq_def key_of_def dest: set_takeWhileD)

lemma takeWhile_all_append:
  "\<not> has_eq n \<Longrightarrow> takeWhile (\<lambda>c. \<not> is_eq c) (n @ s) = n @ takeWhile (\<lambda>c. \<not> is_eq c) s"
  "\<not> has_eq n \<Longrightarrow> dropWhile (\<lambda>c. \<not> is_eq c) (n @ s) = dropWhile (\<lambda>c. \<not> is_eq c) s"
  by (induction n) (auto simp: has_eq_def)

lemma key_entry: "\<not> has_eq n \<Longrightarrow> key_of (n @ ''='' @ v) = n \<and> val_of (n @ ''='' @ v) = v \<and> has_eq (n @ ''='' @ v)"
  by (auto simp: key_of_def val_of_def takeWhile_all_append) (auto simp: has_eq_def is_eq_def)

lemma entry_split: "has_eq s \<Longrightarrow> s = key_of s @ ''='' @ val_of s"
proof -
  assume "has_eq s"
  then have ne: "dropWhile (\<lambda>c. \<not> is_eq c) s \<noteq> []" by (auto simp: has_eq_def dropWhile_eq_Nil_conv)
  have "is_eq (hd (dropWhile (\<lambda>c. \<not> is_eq c) s))" using hd_dropWhile [OF ne] by simp
  then have "dropWhile (\<lambda>c. \<not> is_eq c) s = ''='' @ val_of s"
    using ne by (cases "dropWhile (\<lambda>c. \<not> is_eq c) s") (auto simp: val_of_def is_eq_def)
  then show ?thesis using takeWhile_dropWhile_id [of "\<lambda>c. \<not> is_eq c" s] by (simp add: key_of_def)
qed

lemma entry_matches_key:
  assumes "\<not> has_eq (take len n)" "len \<le> length n"
  shows "entry_matches n len s \<longleftrightarrow> has_eq s \<and> key_of s = take len n"
proof
  assume "entry_matches n len s"
  then have m: "take len s = take len n" "len < length s" "is_eq (s ! len)" by (auto simp: entry_matches_def)
  have s: "s = take len n @ s ! len # drop (Suc len) s" using m id_take_nth_drop by metis
  have "key_of s = take len n"
    by (subst s) (simp add: key_of_def takeWhile_all_append assms(1) m(3))
  moreover have "has_eq s" using m by (auto simp: has_eq_def)
  ultimately show "has_eq s \<and> key_of s = take len n" by simp
next
  assume a: "has_eq s \<and> key_of s = take len n"
  then have s: "s = take len n @ ''='' @ val_of s" using entry_split by metis
  have l: "length (take len n) = len" using assms(2) by simp
  have "take len s = take len n" "s ! len = CHR ''=''" "len < length s"
    using arg_cong [OF s, of "take len"] arg_cong [OF s, of "\<lambda>s. s ! len"] arg_cong [OF s, of length] l
    by (simp_all add: nth_append)
  then show "entry_matches n len s" by (simp add: entry_matches_def is_eq_def)
qed

section \<open>The invariant and the map\<close>

definition entry_ok :: "string option \<Rightarrow> bool" where
  "entry_ok x \<longleftrightarrow> (case x of None \<Rightarrow> False | Some s \<Rightarrow> has_eq s)"

text \<open>The array has room for its end, and is ended once something was put into it.\<close>

definition env_mem :: "env \<Rightarrow> bool" where
  "env_mem e \<longleftrightarrow> (if e_array e then length (vars e) < e_size e else vars e = [] \<and> e_size e = 0)
     \<and> (vars e \<noteq> [] \<longrightarrow> e_term e)"

definition env_ok :: "env \<Rightarrow> bool" where
  "env_ok e \<longleftrightarrow> e_init e \<and> (\<forall>x\<in>set (vars e). entry_ok x)
     \<and> distinct (map (\<lambda>x. key_of (the x)) (vars e)) \<and> env_mem e"

definition env_map :: "env \<Rightarrow> string \<Rightarrow> string option" where
  "env_map e = map_of (map (\<lambda>x. (key_of (the x), val_of (the x))) (vars e))"

lemma find_entry_spec:
  assumes "\<forall>x\<in>set es. entry_ok x" "\<not> has_eq (take len n)" "len \<le> length n"
  shows "(\<exists>j<length es. find_entry n len es i = Some (int (i + j)) \<and> key_of (the (es ! j)) = take len n)
     \<or> (find_entry n len es i = Some (-1) \<and> (\<forall>x\<in>set es. key_of (the x) \<noteq> take len n))"
  using assms(1)
proof (induction es arbitrary: i)
  case (Cons x es)
  then obtain s where x: "x = Some s" "has_eq s" by (auto simp: entry_ok_def split: option.splits)
  have m: "entry_matches n len s \<longleftrightarrow> key_of s = take len n" using entry_matches_key [OF assms(2,3)] x(2) by simp
  show ?case
  proof (cases "key_of s = take len n")
    case True
    then show ?thesis using m x by (intro disjI1 exI [of _ 0]) simp
  next
    case False
    have "\<forall>x\<in>set es. entry_ok x" using Cons.prems by simp
    from Cons.IH [OF this, of "i + 1"] show ?thesis
    proof
      assume "\<exists>j<length es. find_entry n len es (i + 1) = Some (int (i + 1 + j)) \<and> key_of (the (es ! j)) = take len n"
      then obtain j where "j < length es" "find_entry n len es (i + 1) = Some (int (i + 1 + j))"
        "key_of (the (es ! j)) = take len n" by blast
      then show ?thesis using False m x by (intro disjI1 exI [of _ "Suc j"]) simp
    next
      assume "find_entry n len es (i + 1) = Some (-1) \<and> (\<forall>x\<in>set es. key_of (the x) \<noteq> take len n)"
      then show ?thesis using False m x by simp
    qed
  qed
qed simp

text \<open>What \<open>getIndex\<close> finds: the position of the only entry with that name.\<close>

lemma getIndex_spec:
  assumes "env_ok e" "k = take len n" "\<not> has_eq k" "len = (if nameLen \<noteq> 0 then nameLen else length n)" "len \<le> length n"
  shows "(\<exists>j<length (vars e). getIndex e (Some n) nameLen = Some (int j) \<and> key_of (the (vars e ! j)) = k)
     \<or> (getIndex e (Some n) nameLen = Some (-1) \<and> (\<forall>x\<in>set (vars e). key_of (the x) \<noteq> k))"
proof -
  have "getIndex e (Some n) nameLen = find_entry n len (vars e) 0"
    using assms by (auto simp: getIndex_def env_ok_def envInitialized_def has_eq_def Let_def)
  then show ?thesis using find_entry_spec [of "vars e" len n 0] assms by (auto simp: env_ok_def)
qed

section \<open>The operations on the map\<close>

lemma env_map_iff:
  assumes "env_ok e"
  shows "env_map e k = Some v \<longleftrightarrow> (\<exists>x\<in>set (vars e). key_of (the x) = k \<and> val_of (the x) = v)"
proof -
  have "distinct (map fst (map (\<lambda>x. (key_of (the x), val_of (the x))) (vars e)))"
    using assms by (simp add: env_ok_def comp_def)
  from map_of_eq_Some_iff [OF this, of k v] show ?thesis by (auto simp: env_map_def)
qed

lemma env_map_None: "env_map e k = None \<longleftrightarrow> (\<forall>x\<in>set (vars e). key_of (the x) \<noteq> k)"
  by (auto simp: env_map_def map_of_eq_None_iff image_image)

text \<open>An environment with these entries stands for this map.\<close>

lemma env_mapI:
  assumes "env_ok e'" "\<And>x. x \<in> set (vars e') \<Longrightarrow> m (key_of (the x)) = Some (val_of (the x))"
    "\<And>k. m k \<noteq> None \<Longrightarrow> \<exists>x\<in>set (vars e'). key_of (the x) = k"
  shows "env_map e' = m"
proof
  fix k
  show "env_map e' k = m k"
  proof (cases "m k")
    case None
    then have "env_map e' k = None" using assms(2) by (auto simp: env_map_None)
    then show ?thesis using None by simp
  next
    case (Some v)
    then obtain x where "x \<in> set (vars e')" "key_of (the x) = k" using assms(3) [of k] by auto
    moreover from this have "val_of (the x) = v" using assms(2) Some by force
    ultimately show ?thesis using Some env_map_iff [OF assms(1)] by auto
  qed
qed

lemma envGet_spec:
  assumes "env_ok e" "\<not> has_eq k"
  shows "envGet e (Some k) = Some (env_map e k)"
proof -
  have g: "(\<exists>j<length (vars e). getIndex e (Some k) 0 = Some (int j) \<and> key_of (the (vars e ! j)) = k)
     \<or> (getIndex e (Some k) 0 = Some (-1) \<and> (\<forall>x\<in>set (vars e). key_of (the x) \<noteq> k))"
    using getIndex_spec [of e k "length k" k 0] assms by simp
  then show ?thesis
  proof
    assume "\<exists>j<length (vars e). getIndex e (Some k) 0 = Some (int j) \<and> key_of (the (vars e ! j)) = k"
    then obtain j where j: "j < length (vars e)" "getIndex e (Some k) 0 = Some (int j)" "key_of (the (vars e ! j)) = k" by blast
    then have m: "vars e ! j \<in> set (vars e)" by simp
    then obtain s where s: "vars e ! j = Some s"
      using assms(1) by (auto simp: env_ok_def entry_ok_def split: option.splits)
    have "env_map e k = Some (val_of s)" using env_map_iff [OF assms(1)] m s j(3) by force
    then show ?thesis using j s by (simp add: envGet_def val_of_def)
  next
    assume "getIndex e (Some k) 0 = Some (-1) \<and> (\<forall>x\<in>set (vars e). key_of (the x) \<noteq> k)"
    then show ?thesis using env_map_None [of e k] by (auto simp: envGet_def)
  qed
qed

text \<open>Replacing an entry by one with the same name, and appending one with a new name.\<close>

lemma replace_entry:
  assumes "env_ok e" "j < length (vars e)" "key_of (the (vars e ! j)) = key_of s" "has_eq s"
  shows "env_ok (e\<lparr>vars := (vars e)[j := Some s]\<rparr>)"
    and "env_map (e\<lparr>vars := (vars e)[j := Some s]\<rparr>) = (env_map e)(key_of s \<mapsto> val_of s)"
proof -
  let ?e = "e\<lparr>vars := (vars e)[j := Some s]\<rparr>"
  have keys: "map (\<lambda>x. key_of (the x)) (vars ?e) = map (\<lambda>x. key_of (the x)) (vars e)"
    using assms(2,3) by (simp add: map_update list_update_same_conv)
  have ents: "\<forall>x\<in>set (vars ?e). entry_ok x"
    using assms(1,4) by (auto simp: env_ok_def entry_ok_def dest!: set_update_subset_insert [THEN subsetD])
  show ok: "env_ok ?e"
    using assms(1) ents unfolding env_ok_def keys by (auto simp: env_mem_def)
  show "env_map ?e = (env_map e)(key_of s \<mapsto> val_of s)"
  proof (rule env_mapI [OF ok])
    fix x assume "x \<in> set (vars ?e)"
    then obtain i where i: "i < length (vars e)" "x = (if i = j then Some s else vars e ! i)"
      by (auto simp: in_set_conv_nth nth_list_update)
    show "((env_map e)(key_of s \<mapsto> val_of s)) (key_of (the x)) = Some (val_of (the x))"
    proof (cases "i = j")
      case False
      have "key_of (the (vars e ! i)) \<noteq> key_of (the (vars e ! j))"
        using assms(1,2) i(1) False by (auto simp: env_ok_def distinct_conv_nth)
      moreover have "env_map e (key_of (the (vars e ! i))) = Some (val_of (the (vars e ! i)))"
        using env_map_iff [OF assms(1)] i(1) by auto
      ultimately show ?thesis using i False assms(3) by simp
    qed (simp add: i)
  next
    fix k assume k: "((env_map e)(key_of s \<mapsto> val_of s)) k \<noteq> None"
    have "k \<in> set (map (\<lambda>x. key_of (the x)) (vars e))"
    proof (cases "k = key_of s")
      case True
      then show ?thesis using assms(2,3) by (metis length_map nth_map nth_mem)
    next
      case False
      then show ?thesis using k env_map_None [of e k] by auto
    qed
    then show "\<exists>x\<in>set (vars ?e). key_of (the x) = k" unfolding keys [symmetric] by auto
  qed
qed

lemma append_entry:
  assumes "env_ok e" "\<forall>x\<in>set (vars e). key_of (the x) \<noteq> key_of s" "has_eq s"
  shows "\<exists>e' q'. doSet (Some s) e [] = (True, e', q') \<and> q' = [] \<and> env_ok e'
     \<and> env_map e' = (env_map e)(key_of s \<mapsto> val_of s)"
proof -
  define e' where "e' = (if length (vars e) + 1 \<ge> e_size e then e\<lparr>e_size := e_size e + VECTOR_CHUNK_SIZE, e_array := True\<rparr>
     else e)\<lparr>vars := vars e @ [Some s], e_term := True\<rparr>"
  have d: "doSet (Some s) e [] = (True, e', [])"
    using assms(1) by (auto simp: doSet_def e'_def alloc_def env_ok_def envInitialized_def)
  have v: "vars e' = vars e @ [Some s]" by (simp add: e'_def)
  have ok: "env_ok e'" using assms
    by (auto simp: env_ok_def e'_def env_mem_def entry_ok_def VECTOR_CHUNK_SIZE_def split: if_splits)
  have "env_map e' = (env_map e)(key_of s \<mapsto> val_of s)"
  proof (rule env_mapI [OF ok])
    fix x assume "x \<in> set (vars e')"
    then show "((env_map e)(key_of s \<mapsto> val_of s)) (key_of (the x)) = Some (val_of (the x))"
      using assms(2) env_map_iff [OF assms(1)] by (auto simp: v)
  next
    fix k assume "((env_map e)(key_of s \<mapsto> val_of s)) k \<noteq> None"
    then show "\<exists>x\<in>set (vars e'). key_of (the x) = k"
      using env_map_None [of e k] by (auto simp: v split: if_splits)
  qed
  with d ok show ?thesis by blast
qed

lemma mset_unset:
  "env_ok e \<Longrightarrow> j < length (vars e) \<Longrightarrow> mset (vars (envUnsetIndex j e)) = mset (vars e) - {#vars e ! j#}"
proof -
  assume a: "env_ok e" "j < length (vars e)"
  then obtain ys l where xs: "vars e = ys @ [l]" by (metis append_butlast_last_id length_0_conv not_less_zero)
  have ys: "vars (envUnsetIndex j e) = (if j < length ys then ys[j := l] else ys)"
    using a by (auto simp: envUnsetIndex_def env_ok_def envInitialized_def xs list_update_append less_Suc_eq)
  show ?thesis
  proof (cases "j < length ys")
    case True
    then show ?thesis by (simp add: ys xs nth_append mset_update)
  next
    case False
    then have "vars e ! j = l" using a(2) by (simp add: xs nth_append)
    then show ?thesis using False by (simp add: ys xs)
  qed
qed

lemma envUnsetIndex_spec:
  assumes "env_ok e" "j < length (vars e)"
  shows "env_ok (envUnsetIndex j e)"
    and "env_map (envUnsetIndex j e) = (env_map e)(key_of (the (vars e ! j)) := None)"
proof -
  let ?xs = "vars e" and ?e = "envUnsetIndex j e"
  have ne: "?xs \<noteq> []" using assms(2) by auto
  then obtain ys l where xs: "?xs = ys @ [l]" by (metis append_butlast_last_id)
  have ys: "vars ?e = (if j < length ys then ys[j := l] else ys)"
    using assms by (auto simp: envUnsetIndex_def env_ok_def envInitialized_def xs list_update_append less_Suc_eq)
  have init: "e_init e" "env_mem e" "e_array e" using assms ne by (auto simp: env_ok_def env_mem_def split: if_splits)
  note m = mset_unset [OF assms]
  have d: "distinct (map (\<lambda>x. key_of (the x)) ys)" "key_of (the l) \<notin> set (map (\<lambda>x. key_of (the x)) ys)"
    using assms(1) by (auto simp: env_ok_def xs)
  have dist: "distinct (map (\<lambda>x. key_of (the x)) (vars ?e))"
    using d by (auto simp: ys map_update intro!: distinct_list_update)
  have sub: "set (vars ?e) \<subseteq> set ?xs" using m by (metis diff_subset_eq_self set_mset_mset set_mset_mono)
  have "env_mem ?e" using init assms(2) by (auto simp: env_mem_def envUnsetIndex_def envInitialized_def)
  moreover have "e_init ?e" using init by (simp add: envUnsetIndex_def envInitialized_def)
  ultimately show ok: "env_ok ?e" using dist sub assms(1) by (auto simp: env_ok_def)
  have dx: "distinct ?xs" using assms(1) by (simp add: env_ok_def distinct_map)
  have set: "set (vars ?e) = set ?xs - {?xs ! j}"
    using m dx by (metis mset_remove1 set_mset_mset set_remove1_eq)
  have key: "key_of (the x) \<noteq> key_of (the (?xs ! j))" if x: "x \<in> set ?xs" "x \<noteq> ?xs ! j" for x
  proof -
    obtain i where i: "i < length ?xs" "x = ?xs ! i" using x(1) by (auto simp: in_set_conv_nth)
    then show ?thesis using assms x(2) by (auto simp: env_ok_def distinct_conv_nth)
  qed
  show "env_map ?e = (env_map e)(key_of (the (?xs ! j)) := None)"
  proof (rule env_mapI [OF ok])
    fix x assume "x \<in> set (vars ?e)"
    then show "((env_map e)(key_of (the (?xs ! j)) := None)) (key_of (the x)) = Some (val_of (the x))"
      using key env_map_iff [OF assms(1)] unfolding set by auto
  next
    fix k assume k: "((env_map e)(key_of (the (?xs ! j)) := None)) k \<noteq> None"
    then have ne: "k \<noteq> key_of (the (?xs ! j))" by auto
    with k obtain x where "x \<in> set ?xs" "key_of (the x) = k" using env_map_None [of e k] by auto
    then show "\<exists>x\<in>set (vars ?e). key_of (the x) = k" using ne unfolding set by auto
  qed
qed

lemma envUnset_spec:
  assumes "env_ok e" "\<not> has_eq k"
  shows "\<exists>e'. envUnset (Some k) e = Some e' \<and> env_ok e' \<and> env_map e' = (env_map e)(k := None)"
proof -
  have "(\<exists>j<length (vars e). getIndex e (Some k) 0 = Some (int j) \<and> key_of (the (vars e ! j)) = k)
     \<or> (getIndex e (Some k) 0 = Some (-1) \<and> (\<forall>x\<in>set (vars e). key_of (the x) \<noteq> k))"
    using getIndex_spec [of e k "length k" k 0] assms by simp
  then show ?thesis
  proof
    assume "\<exists>j<length (vars e). getIndex e (Some k) 0 = Some (int j) \<and> key_of (the (vars e ! j)) = k"
    then obtain j where "j < length (vars e)" "getIndex e (Some k) 0 = Some (int j)" "key_of (the (vars e ! j)) = k" by blast
    then show ?thesis using envUnsetIndex_spec [OF assms(1)] by (auto simp: envUnset_def)
  next
    assume a: "getIndex e (Some k) 0 = Some (-1) \<and> (\<forall>x\<in>set (vars e). key_of (the x) \<noteq> k)"
    then have "(env_map e)(k := None) = env_map e" using env_map_None [of e k] by (simp add: fun_upd_idem)
    then show ?thesis using a assms(1) by (auto simp: envUnset_def)
  qed
qed

lemma envSet_spec:
  assumes "env_ok e" "\<not> has_eq k"
  shows "\<exists>e'. envSet (Some k) (Some v) e [] = Some (True, e', []) \<and> env_ok e' \<and> env_map e' = (env_map e)(k \<mapsto> v)"
proof -
  let ?s = "k @ ''='' @ v"
  have s: "key_of ?s = k" "val_of ?s = v" "has_eq ?s" using key_entry [OF assms(2), of v] by auto
  have c: "PSC_concat [k, ''='', v] [] = (Some ?s, [])" by (simp add: PSC_concat_def alloc_def)
  have i: "envInitialized e" "\<not> (\<exists>c\<in>set k. is_eq c)" using assms by (auto simp: env_ok_def envInitialized_def has_eq_def)
  have "(\<exists>j<length (vars e). getIndex e (Some k) 0 = Some (int j) \<and> key_of (the (vars e ! j)) = k)
     \<or> (getIndex e (Some k) 0 = Some (-1) \<and> (\<forall>x\<in>set (vars e). key_of (the x) \<noteq> k))"
    using getIndex_spec [of e k "length k" k 0] assms by simp
  then show ?thesis
  proof
    assume "\<exists>j<length (vars e). getIndex e (Some k) 0 = Some (int j) \<and> key_of (the (vars e ! j)) = k"
    then obtain j where j: "j < length (vars e)" "getIndex e (Some k) 0 = Some (int j)" "key_of (the (vars e ! j)) = k" by blast
    have kk: "key_of (the (vars e ! j)) = key_of ?s" using j(3) s(1) by simp
    show ?thesis using replace_entry [OF assms(1) j(1) kk s(3)] s j i c by (auto simp: envSet_def)
  next
    assume a: "getIndex e (Some k) 0 = Some (-1) \<and> (\<forall>x\<in>set (vars e). key_of (the x) \<noteq> k)"
    then have "\<forall>x\<in>set (vars e). key_of (the x) \<noteq> key_of ?s" using s(1) by simp
    from append_entry [OF assms(1) this s(3)] a i c show ?thesis unfolding s(1,2) by (auto simp: envSet_def)
  qed
qed

lemma envPut_spec:
  assumes "env_ok e" "has_eq s" "key_of s \<noteq> []"
  shows "\<exists>e'. envPut (Some s) e [] = Some (True, e', []) \<and> env_ok e' \<and> env_map e' = (env_map e)(key_of s \<mapsto> val_of s)"
proof -
  let ?l = "length (key_of s)"
  have tk: "take ?l s = key_of s" using entry_split [OF assms(2)] by (metis append_eq_conv_conj)
  have le: "?l \<le> length s" unfolding key_of_def by (rule length_takeWhile_le)
  have i: "envInitialized e" "\<exists>c\<in>set s. is_eq c" using assms by (auto simp: env_ok_def envInitialized_def has_eq_def)
  have "(\<exists>j<length (vars e). getIndex e (Some s) ?l = Some (int j) \<and> key_of (the (vars e ! j)) = key_of s)
     \<or> (getIndex e (Some s) ?l = Some (-1) \<and> (\<forall>x\<in>set (vars e). key_of (the x) \<noteq> key_of s))"
    using getIndex_spec [of e "key_of s" ?l s ?l] assms tk key_no_eq le by simp
  then show ?thesis
  proof
    assume "\<exists>j<length (vars e). getIndex e (Some s) ?l = Some (int j) \<and> key_of (the (vars e ! j)) = key_of s"
    then obtain j where j: "j < length (vars e)" "getIndex e (Some s) ?l = Some (int j)" "key_of (the (vars e ! j)) = key_of s" by blast
    show ?thesis using replace_entry [OF assms(1) j(1,3) assms(2)] j i assms(3)
      by (auto simp: envPut_def key_of_def Let_def)
  next
    assume a: "getIndex e (Some s) ?l = Some (-1) \<and> (\<forall>x\<in>set (vars e). key_of (the x) \<noteq> key_of s)"
    from append_entry [OF assms(1) _ assms(2)] a i assms(3) show ?thesis
      by (auto simp: envPut_def key_of_def Let_def)
  qed
qed

lemma envAdd_spec:
  assumes "env_ok e" "has_eq s" "key_of s \<noteq> []"
  shows "\<exists>e'. envAdd (Some s) e [] = Some (True, e', []) \<and> env_ok e' \<and> env_map e' = (env_map e)(key_of s \<mapsto> val_of s)"
  using envPut_spec [OF assms] assms(1) by (simp add: envAdd_def alloc_def env_ok_def envInitialized_def)

section \<open>The environment as the map it promises to be\<close>

definition env_get :: "env \<Rightarrow> string \<Rightarrow> string option" where
  "env_get e k = the (envGet e (Some k))"

definition env_put :: "string \<Rightarrow> string \<Rightarrow> env \<Rightarrow> env" where
  "env_put k v e = fst (snd (the (envSet (Some k) (Some v) e [])))"

definition env_del :: "string \<Rightarrow> env \<Rightarrow> env" where
  "env_del k e = the (envUnset (Some k) e)"

lemma env_get_map: "env_ok e \<Longrightarrow> \<not> has_eq k \<Longrightarrow> env_get e k = env_map e k"
  by (simp add: env_get_def envGet_spec)

interpretation envs: keyed_env env_map env_put env_del "\<lambda>k. \<not> has_eq k" env_ok
proof
  fix e k v
  assume "env_ok e" "\<not> has_eq k"
  note s = envSet_spec [OF this, of v] and u = envUnset_spec [OF this]
  show "env_map (env_put k v e) = (env_map e)(k \<mapsto> v)" "env_ok (env_put k v e)"
    using s by (auto simp: env_put_def)
  show "env_map (env_del k e) = (env_map e)(k := None)" "env_ok (env_del k e)"
    using u by (auto simp: env_del_def)
qed

section \<open>Merging, copying and evicting\<close>

lemma add_entries_merge:
  assumes "env_ok dst" "\<forall>x\<in>set es. entry_ok x \<and> key_of (the x) \<noteq> []"
  shows "\<exists>dst'. add_entries None True es dst [] = Some (True, dst', []) \<and> env_ok dst'
     \<and> env_map dst' = env_map dst ++ map_of (rev (map (\<lambda>x. (key_of (the x), val_of (the x))) es))"
  using assms
proof (induction es arbitrary: dst)
  case (Cons x es)
  then obtain s where x: "x = Some s" "has_eq s" "key_of s \<noteq> []" by (auto simp: entry_ok_def split: option.splits)
  from envAdd_spec [OF Cons.prems(1) x(2,3)] obtain d where
    d: "envAdd (Some s) dst [] = Some (True, d, [])" "env_ok d" "env_map d = (env_map dst)(key_of s \<mapsto> val_of s)" by blast
  have m: "(env_map dst)(key_of s \<mapsto> val_of s) ++ map_of (rev (map (\<lambda>x. (key_of (the x), val_of (the x))) es))
     = env_map dst ++ map_of (rev (map (\<lambda>x. (key_of (the x), val_of (the x))) (x # es)))"
    by (rule ext) (auto simp: x map_add_def split: option.splits)
  have "\<forall>x\<in>set es. entry_ok x \<and> key_of (the x) \<noteq> []" using Cons.prems(2) by simp
  note IH = Cons.IH [OF d(2) this]
  have "add_entries None True (x # es) dst [] = add_entries None True es d []" by (simp add: x d(1))
  then show ?case using IH unfolding m [symmetric] d(3) by metis
qed simp

lemma copy_entries_all:
  assumes "env_ok e" "\<forall>x\<in>set es. entry_ok x" "distinct (map (\<lambda>x. key_of (the x)) es)"
    "\<forall>x\<in>set es. \<forall>y\<in>set (vars e). key_of (the x) \<noteq> key_of (the y)"
  shows "\<exists>e'. copy_entries None es e [] = Some (True, e', []) \<and> env_ok e' \<and> vars e' = vars e @ es"
  using assms
proof (induction es arbitrary: e)
  case (Cons x es)
  then obtain s where x: "x = Some s" "has_eq s" by (auto simp: entry_ok_def split: option.splits)
  have "\<forall>y\<in>set (vars e). key_of (the y) \<noteq> key_of s" using Cons.prems(4) x by auto
  from append_entry [OF Cons.prems(1) this x(2)] obtain e1 where
    e1: "doSet (Some s) e [] = (True, e1, [])" "env_ok e1" by blast
  have v: "vars e1 = vars e @ [x]" using e1(1) x by (auto simp: doSet_def Let_def alloc_def split: if_splits)
  have "\<forall>z\<in>set es. \<forall>y\<in>set (vars e1). key_of (the z) \<noteq> key_of (the y)" using Cons.prems(3,4)
    by (auto simp: v image_iff)
  from Cons.IH [OF e1(2) _ _ this] Cons.prems(2,3) e1(1) show ?case by (auto simp: x alloc_def v)
qed simp

text \<open>Eviction removes the entries that match and keeps the others.\<close>

lemma take_unset: "env_ok e \<Longrightarrow> j < length (vars e) \<Longrightarrow> take j (vars (envUnsetIndex j e)) = take j (vars e)"
  by (simp add: envUnsetIndex_def take_butlast)

lemma evict_loop_spec:
  assumes "env_ok e" "i \<le> length (vars e)" "\<forall>x\<in>set (take i (vars e)). \<not> f (the x)"
  shows "\<exists>e'. evict_loop f i e = Some e' \<and> env_ok e' \<and> mset (vars e') = filter_mset (\<lambda>x. \<not> f (the x)) (mset (vars e))"
  using assms
proof (induction f i e rule: evict_loop.induct)
  case (1 f i e)
  show ?case
  proof (cases "i < length (vars e)")
    case False
    then have "\<forall>x\<in>set (vars e). \<not> f (the x)" using 1(4,5) by simp
    then have "filter_mset (\<lambda>x. \<not> f (the x)) (mset (vars e)) = mset (vars e)"
      by (simp add: filter_mset_eq_conv)
    then show ?thesis using False 1(3) by (simp add: evict_loop.simps [of f i e])
  next
    case True
    then have "entry_ok (vars e ! i)" using 1(3) by (simp add: env_ok_def)
    then obtain s where s: "vars e ! i = Some s" by (auto simp: entry_ok_def split: option.splits)
    have init: "envInitialized e" using 1(3) by (simp add: env_ok_def envInitialized_def)
    show ?thesis
    proof (cases "f s")
      case False
      have "\<forall>x\<in>set (take (i + 1) (vars e)). \<not> f (the x)"
        using 1(5) False s True by (auto simp: take_Suc_conv_app_nth)
      then show ?thesis using 1(1) [OF _ s False] True init 1(3)
        by (simp add: evict_loop.simps [of f i e] s False)
    next
      case f: True
      have ok: "env_ok (envUnsetIndex i e)" by (rule envUnsetIndex_spec(1) [OF 1(3) True])
      have le: "i \<le> length (vars (envUnsetIndex i e))" using True init by (simp add: envUnsetIndex_def)
      have tk: "\<forall>x\<in>set (take i (vars (envUnsetIndex i e))). \<not> f (the x)"
        using take_unset [OF 1(3) True] 1(5) by simp
      have "filter_mset (\<lambda>x. \<not> f (the x)) (mset (vars e) - {#vars e ! i#}) = filter_mset (\<lambda>x. \<not> f (the x)) (mset (vars e))"
        using f s by (simp add: filter_diff_mset)
      then show ?thesis using 1(2) [OF _ s _ ok le tk] True init f mset_unset [OF 1(3) True]
        by (simp add: evict_loop.simps [of f i e] s)
    qed
  qed
qed

end
