(* ===== verification/Strv.thy ===== *)
theory Strv
  imports Env
begin

text \<open>
  String vectors (\<open>src/lib/pscommon/psstrv.c\<close>): an array of strings that ends with a NULL pointer and
  grows in chunks.  \<open>sv_array\<close> and \<open>sv_term\<close> are as for environments.
\<close>

section \<open>The operations\<close>

record strv =
  sv_init :: bool
  strings :: "string list"
  sv_size :: nat
  sv_array :: bool
  sv_term :: bool

definition STRV_CHUNK_SIZE :: nat where "STRV_CHUNK_SIZE = 8"

definition empty_strv :: strv where
  "empty_strv = \<lparr>sv_init = True, strings = [], sv_size = 0, sv_array = False, sv_term = False\<rparr>"

definition array_strv :: "string list \<Rightarrow> nat \<Rightarrow> strv" where
  "array_strv a sz = empty_strv\<lparr>strings := a, sv_size := sz, sv_array := True, sv_term := True\<rparr>"

definition strvNew :: "string list option \<Rightarrow> script \<Rightarrow> strv option \<times> script" where
  "strvNew strvArray q =
     (case alloc q of
        (False, q1) \<Rightarrow> (None, q1)
      | (True, q1) \<Rightarrow>
          (Some (case strvArray of None \<Rightarrow> empty_strv | Some a \<Rightarrow> array_strv a (length a + 1)), q1))"

definition strvConstruct :: "string list option \<Rightarrow> script \<Rightarrow> strv option \<times> script" where
  "strvConstruct strvArray q =
     (case strvArray of
        None \<Rightarrow> (None, q)
      | Some a \<Rightarrow>
          (case alloc q of
             (False, q1) \<Rightarrow> (None, q1)
           | (True, q1) \<Rightarrow>
               (case alloc q1 of
                  (False, q2) \<Rightarrow> (None, q2)
                | (True, q2) \<Rightarrow>
                    (Some (array_strv a ((length a div STRV_CHUNK_SIZE + 1) * STRV_CHUNK_SIZE)), q2))))"

definition strvInitialized :: "strv \<Rightarrow> bool" where
  "strvInitialized v = sv_init v"

fun clone_strings :: "string list \<Rightarrow> script \<Rightarrow> bool \<times> script" where
  "clone_strings [] q = (True, q)"
| "clone_strings (s # ss) q =
     (case alloc q of (False, q1) \<Rightarrow> (False, q1) | (True, q1) \<Rightarrow> clone_strings ss q1)"

definition strvClone :: "strv \<Rightarrow> script \<Rightarrow> strv option \<times> script" where
  "strvClone v q =
     (if \<not> strvInitialized v then (None, q)
      else case strvNew None q of
        (None, q1) \<Rightarrow> (None, q1)
      | (Some c, q1) \<Rightarrow>
          if strings v = [] then (Some c, q1)
          else (case alloc q1 of
             (False, q2) \<Rightarrow> (None, q2)
           | (True, q2) \<Rightarrow>
               (case clone_strings (strings v) q2 of
                  (False, q3) \<Rightarrow> (None, q3)
                | (True, q3) \<Rightarrow> (Some (array_strv (strings v) (sv_size v)), q3))))"

definition strvSize :: "strv \<Rightarrow> nat" where
  "strvSize v = (if strvInitialized v then length (strings v) else 0)"

definition doLink :: "string option \<Rightarrow> strv \<Rightarrow> script \<Rightarrow> bool \<times> strv \<times> script" where
  "doLink str v q =
     (case str of
        None \<Rightarrow> (False, v, q)
      | Some s \<Rightarrow>
          if \<not> strvInitialized v then (False, v, q)
          else
            let (ok, v1, q1) =
                  (if length (strings v) + 1 \<ge> sv_size v
                   then (case alloc q of
                           (False, q1) \<Rightarrow> (False, v, q1)
                         | (True, q1) \<Rightarrow> (True, v\<lparr>sv_size := sv_size v + STRV_CHUNK_SIZE, sv_array := True\<rparr>, q1))
                   else (True, v, q))
            in if \<not> ok then (False, v1, q1)
               else (True, v1\<lparr>strings := strings v1 @ [s], sv_term := True\<rparr>, q1))"

definition strvLink :: "string option \<Rightarrow> strv \<Rightarrow> script \<Rightarrow> bool \<times> strv \<times> script" where
  "strvLink str v q = doLink str v q"

definition strvAdd :: "string option \<Rightarrow> strv \<Rightarrow> script \<Rightarrow> bool \<times> strv \<times> script" where
  "strvAdd str v q =
     (if \<not> strvInitialized v \<or> str = None then (False, v, q)
      else case alloc q of (False, q1) \<Rightarrow> (False, v, q1) | (True, q1) \<Rightarrow> doLink str v q1)"

definition strvReplace :: "nat \<Rightarrow> string option \<Rightarrow> strv \<Rightarrow> script \<Rightarrow> bool \<times> strv \<times> script" where
  "strvReplace idx str v q =
     (case str of
        None \<Rightarrow> (False, v, q)
      | Some s \<Rightarrow>
          if idx \<ge> strvSize v then (False, v, q)
          else (case alloc q of
             (False, q1) \<Rightarrow> (False, v, q1)
           | (True, q1) \<Rightarrow> (True, v\<lparr>strings := (strings v)[idx := s]\<rparr>, q1)))"

definition strvGet :: "strv \<Rightarrow> nat \<Rightarrow> string option" where
  "strvGet v idx = (if idx \<ge> strvSize v then None else Some (strings v ! idx))"

fun add_strvs :: "string list \<Rightarrow> strv \<Rightarrow> script \<Rightarrow> bool \<times> strv \<times> script" where
  "add_strvs [] v q = (True, v, q)"
| "add_strvs (s # ss) v q =
     (case strvAdd (Some s) v q of
        (False, v1, q1) \<Rightarrow> (False, v1, q1)
      | (True, v1, q1) \<Rightarrow> add_strvs ss v1 q1)"

text \<open>\<open>dst\<close> and \<open>src\<close> are different vectors.\<close>

definition strvAppend :: "strv \<Rightarrow> strv \<Rightarrow> script \<Rightarrow> bool \<times> strv \<times> script" where
  "strvAppend src dst q =
     (if \<not> strvInitialized dst then (False, dst, q)
      else if \<not> strvInitialized src then (True, dst, q)
      else
        let count = length (strings dst) + length (strings src) + 1;
            (ok, dst1, q1) =
              (if count > sv_size dst
               then (case alloc q of
                       (False, q1) \<Rightarrow> (False, dst, q1)
                     | (True, q1) \<Rightarrow> (True, dst\<lparr>sv_size := count, sv_array := True\<rparr>, q1))
               else (True, dst, q))
        in if \<not> ok then (False, dst1, q1) else add_strvs (strings src) dst1 q1)"

definition strvGetArray :: "strv \<Rightarrow> string list option option" where
  "strvGetArray v =
     (if \<not> strvInitialized v \<or> \<not> sv_array v then Some None
      else if sv_term v then Some (Some (strings v)) else None)"

section \<open>Room for the end of the array\<close>

text \<open>
  A vector without strings may have an array that is not ended: \<open>strvAppend\<close> of an empty vector to
  an empty vector allocates one.
\<close>

definition strv_ok :: "strv \<Rightarrow> bool" where
  "strv_ok v \<longleftrightarrow> sv_init v \<and> (if sv_array v then length (strings v) < sv_size v else strings v = [] \<and> sv_size v = 0)
     \<and> (strings v \<noteq> [] \<longrightarrow> sv_term v)"

lemma doLink_keeps:
  assumes "strv_ok v" "doLink str v q = (ok, v', q')"
  shows "strv_ok v' \<and> strings v' = (if ok then strings v @ [the str] else strings v)
    \<and> (sv_term v \<longrightarrow> sv_term v') \<and> (ok \<longrightarrow> str \<noteq> None)"
  using assms
  by (auto simp: doLink_def strv_ok_def Let_def STRV_CHUNK_SIZE_def strvInitialized_def
      split: option.splits if_splits prod.splits bool.splits)

lemma strvAdd_keeps:
  assumes "strv_ok v" "strvAdd str v q = (ok, v', q')"
  shows "strv_ok v' \<and> strings v' = (if ok then strings v @ [the str] else strings v)
    \<and> (sv_term v \<longrightarrow> sv_term v')"
proof -
  from assms(2) consider "v' = v" "\<not> ok" | q1 where "doLink str v q1 = (ok, v', q')"
    by (auto simp: strvAdd_def split: if_splits prod.splits bool.splits)
  then show ?thesis
  proof cases
    case 2
    from doLink_keeps [OF assms(1) this] show ?thesis by simp
  qed (use assms(1) in simp)
qed

lemma add_strvs_keeps:
  assumes "strv_ok v" "add_strvs ss v q = (ok, v', q')"
  shows "strv_ok v' \<and> (\<exists>n\<le>length ss. strings v' = strings v @ take n ss \<and> (ok \<longrightarrow> n = length ss))"
  using assms
proof (induction ss arbitrary: v q)
  case (Cons s ss)
  obtain ok1 v1 q1 where 1: "strvAdd (Some s) v q = (ok1, v1, q1)" by (metis prod_cases3)
  note k = strvAdd_keeps [OF Cons.prems(1) 1]
  show ?case
  proof (cases ok1)
    case True
    then have "add_strvs ss v1 q1 = (ok, v', q')" using Cons.prems(2) 1 by simp
    from Cons.IH [OF _ this] k True obtain n where
      "strv_ok v'" "n \<le> length ss" "strings v' = (strings v @ [s]) @ take n ss" "ok \<longrightarrow> n = length ss" by auto
    then show ?thesis by (intro conjI exI [of _ "Suc n"]) auto
  next
    case False
    then show ?thesis using Cons.prems(2) 1 k by (intro conjI exI [of _ 0]) auto
  qed
qed simp

lemma strvAppend_keeps:
  assumes "strv_ok dst" "strvAppend src dst q = (ok, dst', q')"
  shows "strv_ok dst' \<and> (\<exists>n\<le>length (strings src). strings dst' = strings dst @ take n (strings src)
    \<and> (ok \<and> sv_init src \<longrightarrow> n = length (strings src)))"
proof (cases "sv_init src")
  case False
  then have "dst' = dst" using assms by (auto simp: strvAppend_def strvInitialized_def strv_ok_def)
  then show ?thesis using assms(1) False by (intro conjI exI [of _ 0]) simp_all
next
  case True
  define count where "count = length (strings dst) + length (strings src) + 1"
  let ?d = "dst\<lparr>sv_size := count, sv_array := True\<rparr>"
  have d: "strv_ok ?d" using assms(1) by (simp add: strv_ok_def count_def)
  from assms consider "dst' = dst" "\<not> ok" | q1 where "add_strvs (strings src) ?d q1 = (ok, dst', q')"
    | q1 where "add_strvs (strings src) dst q1 = (ok, dst', q')"
    using True by (auto simp: strvAppend_def strvInitialized_def strv_ok_def Let_def count_def
        split: if_splits prod.splits bool.splits)
  then show ?thesis
  proof cases
    case 1
    then show ?thesis using assms(1) by (intro conjI exI [of _ 0]) simp_all
  next
    case (2 q1)
    from add_strvs_keeps [OF d this] show ?thesis by auto
  next
    case (3 q1)
    from add_strvs_keeps [OF assms(1) this] show ?thesis by auto
  qed
qed

end
