(* ===== verification/Env_Props.thy ===== *)
theory Env_Props
  imports Env_Spec Strv
begin

text \<open>
  The properties of environments and string vectors, each with a witness where it has hypotheses,
  and two examples of what goes wrong at the edges.
\<close>

section \<open>Concrete environments\<close>

definition ex_env :: env where
  "ex_env = env_put ''B'' ''2'' (env_put ''A'' ''1'' empty_env)"

lemma empty_env_ok: "env_ok empty_env" "env_map empty_env = Map.empty"
  by (simp_all add: env_ok_def empty_env_def env_mem_def env_map_def)

lemma ex_names: "\<not> has_eq ''A''" "\<not> has_eq ''B''" "\<not> has_eq ''C''"
  by (simp_all add: has_eq_def is_eq_def)

lemma ex_env: "env_ok ex_env" "env_map ex_env = [''A'' \<mapsto> ''1'', ''B'' \<mapsto> ''2'']"
  using empty_env_ok ex_names envs.get_put envs.ok_put by (simp_all add: ex_env_def)

section \<open>Environments\<close>

text \<open>
  C27: an environment is a map.  After any number of \<open>envSet\<close>, in any order and with any names,
  \<open>envGet\<close> finds the last value set for a name, or what was there before; \<open>envUnset\<close> removes the
  name and nothing else, although it reorders the array.
\<close>

theorem env_is_map:
  assumes "env_ok e" "\<forall>(k, v)\<in>set kvs. \<not> has_eq k" "\<not> has_eq k" "\<not> has_eq n"
  shows "let e' = fold (\<lambda>(k, v). env_put k v) kvs e in
     env_ok e' \<and> envGet e' (Some n) = Some ((env_map e ++ map_of (rev kvs)) n)
     \<and> (\<exists>e''. envUnset (Some k) e' = Some e'' \<and> env_ok e''
          \<and> envGet e'' (Some n) = Some (((env_map e ++ map_of (rev kvs))(k := None)) n))"
proof -
  let ?e = "fold (\<lambda>(k, v). env_put k v) kvs e"
  from envs.puts_spec [OF assms(1,2)] have p: "env_ok ?e" "env_map ?e = env_map e ++ map_of (rev kvs)" by auto
  from envUnset_spec [OF p(1) assms(3)] obtain e2 where
    u: "envUnset (Some k) ?e = Some e2" "env_ok e2" "env_map e2 = (env_map ?e)(k := None)" by blast
  show ?thesis
    using envGet_spec [OF p(1) assms(4)] envGet_spec [OF u(2) assms(4)] p u unfolding Let_def by metis
qed

theorem env_is_map_witness:
  "envGet (fold (\<lambda>(k, v). env_put k v) [(''C'', ''3''), (''A'', ''4'')] ex_env) (Some ''A'') = Some (Some ''4'')"
proof -
  have "\<forall>(k, v)\<in>set [(''C'', ''3''), (''A'', ''4'')]. \<not> has_eq k" using ex_names by simp
  from env_is_map [OF ex_env(1) this ex_names(2,1)] show ?thesis by (simp add: Let_def map_add_def)
qed

text \<open>
  Merging an environment into another one adds its names and overrides those of the other.
\<close>

theorem env_merge_overrides:
  assumes "env_ok dst" "env_ok src" "\<forall>x\<in>set (vars src). key_of (the x) \<noteq> []"
  shows "\<exists>dst'. envConcat src None True dst [] = Some (True, dst', []) \<and> env_ok dst'
     \<and> env_map dst' = env_map dst ++ env_map src"
proof -
  define count where "count = length (vars dst) + length (vars src) + 1"
  define d where "d = (if count > e_size dst then dst\<lparr>e_size := count, e_array := True\<rparr> else dst)"
  have d: "env_ok d" "env_map d = env_map dst"
    using assms(1) by (auto simp: d_def env_ok_def env_mem_def env_map_def count_def split: if_splits)
  have "\<forall>x\<in>set (vars src). entry_ok x \<and> key_of (the x) \<noteq> []" using assms(2,3) by (auto simp: env_ok_def)
  from add_entries_merge [OF d(1) this] obtain dst' where
    a: "add_entries None True (vars src) d [] = Some (True, dst', [])" "env_ok dst'"
      "env_map dst' = env_map dst ++ map_of (rev (map (\<lambda>x. (key_of (the x), val_of (the x))) (vars src)))"
    unfolding d(2) by blast
  have "distinct (map fst (map (\<lambda>x. (key_of (the x), val_of (the x))) (vars src)))"
    using assms(2) by (simp add: env_ok_def comp_def)
  then have "map_of (rev (map (\<lambda>x. (key_of (the x), val_of (the x))) (vars src))) = env_map src"
    unfolding env_map_def by (subst map_of_inject_set) (simp_all add: rev_map [symmetric] del: rev_map map_map)
  moreover have "envConcat src None True dst [] = Some (True, dst', [])"
    using a(1) assms(1,2) by (auto simp: envConcat_def env_ok_def envInitialized_def Let_def alloc_def d_def count_def)
  ultimately show ?thesis using a(2,3) by auto
qed

theorem env_merge_overrides_witness:
  "\<exists>dst'. envConcat ex_env None True (env_put ''A'' ''9'' empty_env) [] = Some (True, dst', [])
     \<and> env_map dst' ''A'' = Some ''1''"
proof -
  have "env_ok (env_put ''A'' ''9'' empty_env)" using empty_env_ok ex_names envs.ok_put by blast
  moreover have "\<forall>x\<in>set (vars ex_env). key_of (the x) \<noteq> []"
  proof
    fix x assume "x \<in> set (vars ex_env)"
    then have "env_map ex_env (key_of (the x)) \<noteq> None" using env_map_None [of ex_env "key_of (the x)"] by auto
    then show "key_of (the x) \<noteq> []" unfolding ex_env(2) by (auto split: if_splits)
  qed
  ultimately show ?thesis using env_merge_overrides [OF _ ex_env(1)] by (fastforce simp: ex_env(2) map_add_def)
qed

text \<open>
  \<open>envEvict\<close> removes exactly the entries the filter matches.
\<close>

theorem env_evict_exact:
  assumes "env_ok e"
  shows "\<exists>e'. envEvict (Some f) e = Some e' \<and> env_ok e'
     \<and> mset (vars e') = filter_mset (\<lambda>x. \<not> f (the x)) (mset (vars e))
     \<and> (\<forall>k. env_map e' k = (case env_map e k of None \<Rightarrow> None
          | Some v \<Rightarrow> if f (k @ ''='' @ v) then None else Some v))"
proof -
  from evict_loop_spec [OF assms, of 0 f] obtain e' where
    e': "evict_loop f 0 e = Some e'" "env_ok e'" "mset (vars e') = filter_mset (\<lambda>x. \<not> f (the x)) (mset (vars e))" by auto
  have s: "set (vars e') = {x \<in> set (vars e). \<not> f (the x)}"
    using e'(3) by (metis set_mset_filter set_mset_mset)
  have ent: "the x = key_of (the x) @ ''='' @ val_of (the x)" if "x \<in> set (vars e)" for x
    using assms that entry_split by (auto simp: env_ok_def entry_ok_def split: option.splits)
  have "env_map e' = (\<lambda>k. case env_map e k of None \<Rightarrow> None | Some v \<Rightarrow> if f (k @ ''='' @ v) then None else Some v)"
  proof (rule env_mapI [OF e'(2)])
    fix x assume "x \<in> set (vars e')"
    then have x: "x \<in> set (vars e)" "\<not> f (the x)" by (auto simp: s)
    then have "env_map e (key_of (the x)) = Some (val_of (the x))" using env_map_iff [OF assms] by blast
    then show "(case env_map e (key_of (the x)) of None \<Rightarrow> None
        | Some v \<Rightarrow> if f (key_of (the x) @ ''='' @ v) then None else Some v) = Some (val_of (the x))"
      using x(2) ent [OF x(1)] by simp
  next
    fix k assume k: "(case env_map e k of None \<Rightarrow> None | Some v \<Rightarrow> if f (k @ ''='' @ v) then None else Some v) \<noteq> None"
    then obtain v where v: "env_map e k = Some v" "\<not> f (k @ ''='' @ v)" by (auto split: option.splits if_splits)
    then obtain x where "x \<in> set (vars e)" "key_of (the x) = k" "val_of (the x) = v"
      using env_map_iff [OF assms] by blast
    then show "\<exists>x\<in>set (vars e'). key_of (the x) = k" using v(2) ent [of x] by (auto simp: s)
  qed
  then show ?thesis using e' assms by (simp add: envEvict_def env_ok_def envInitialized_def)
qed

theorem env_evict_exact_witness:
  "\<exists>e'. envEvict (Some (\<lambda>s. hd s = CHR ''A'')) ex_env = Some e' \<and> env_map e' ''A'' = None \<and> env_map e' ''B'' = Some ''2''"
  using env_evict_exact [OF ex_env(1), of "\<lambda>s. hd s = CHR ''A''"] by (force simp: ex_env(2))

text \<open>
  A failed \<open>envSet\<close> of a name that exists leaves a NULL pointer among the entries; the next look-up
  behind it dereferences that pointer.
\<close>

lemma env_set_failure:
  "case envSet (Some ''A'') (Some ''7'') ex_env [False] of None \<Rightarrow> False
     | Some (ok, e', q) \<Rightarrow> \<not> ok \<and> envGet e' (Some ''B'') = None"
  by code_simp

text \<open>
  A copy whose filter rejects every entry has an array without the NULL pointer at its end.
\<close>

lemma env_clone_unterminated:
  "case envClone ex_env (Some (\<lambda>s. False)) [] of Some (Some c, q) \<Rightarrow> envGetArray c = None | _ \<Rightarrow> False"
  by code_simp

section \<open>String vectors\<close>

text \<open>
  Whatever allocations fail, linking, adding and appending keep room for the NULL pointer that
  ends the array, and the strings are those before followed by the new ones, all of them on success
  and the first ones otherwise.
\<close>

theorem strv_append_memory:
  assumes "strv_ok dst" "strvAdd (Some s) dst q = (ok, dst1, q1)" "strvAppend src dst1 q1 = (ok2, dst2, q2)"
  shows "strv_ok dst2 \<and> (\<exists>n\<le>length (strings src).
     strings dst2 = strings dst @ (if ok then [s] else []) @ take n (strings src)
     \<and> (ok2 \<and> sv_init src \<longrightarrow> n = length (strings src)))"
  using strvAdd_keeps [OF assms(1,2)] strvAppend_keeps [OF _ assms(3)] by auto

theorem strv_append_memory_witness:
  "strings (fst (snd (strvAppend (array_strv [''x'', ''y''] 8) (fst (snd (strvAdd (Some ''a'') empty_strv []))) [])))
     = [''a'', ''x'', ''y'']"
proof -
  have o: "strv_ok empty_strv" by (simp add: strv_ok_def empty_strv_def)
  obtain ok d1 q1 where 1: "strvAdd (Some ''a'') empty_strv [] = (ok, d1, q1)" by (metis prod_cases3)
  obtain ok2 d2 q2 where 2: "strvAppend (array_strv [''x'', ''y''] 8) d1 q1 = (ok2, d2, q2)" by (metis prod_cases3)
  have "fst (strvAdd (Some ''a'') empty_strv [])" "snd (snd (strvAdd (Some ''a'') empty_strv [])) = []" by code_simp+
  then have "ok" "q1 = []" using 1 by auto
  moreover have "fst (strvAppend (array_strv [''x'', ''y''] 8) (fst (snd (strvAdd (Some ''a'') empty_strv []))) [])" by code_simp
  then have "ok2" using 1 2 \<open>q1 = []\<close> by simp
  ultimately show ?thesis using strv_append_memory [OF o 1 2] 1 2
    by (simp add: array_strv_def empty_strv_def)
qed

end
