(* ===== verification/Items.thy ===== *)
theory Items
  imports Prelude
begin

text \<open>
  Pools of items (\<open>src/lib/pscommon/psitems.c\<close>).  An item is named by its chunk and its place in it;
  chunks get fresh numbers.  The state record is open: the user of a pool extends it by what it
  stores in the items and by the lists they are in, and the function that relocates an item works on
  the extended record.  The counters are far from the limits of their C types.  Results of
  allocations come from a script (an empty script means success).
\<close>

section \<open>State\<close>

type_synonym pitem = "nat \<times> nat"

record pool =
  p_init :: bool
  chunks :: "nat list"
  idleItems :: "pitem list"
  itemSize :: nat
  avail :: nat
  used :: nat
  iPC :: nat
  numGet :: nat
  numGrow :: nat
  ist :: "pitem \<Rightarrow> int32"
  nextChunk :: nat
  pmem :: "bool list"

definition CHUNK_SIZE :: nat where "CHUNK_SIZE = 128 * 1024"
definition LIST_T_SIZE :: nat where "LIST_T_SIZE = 16"
definition PSITEM_IDLE :: int32 where "PSITEM_IDLE = -1"
definition PSITEM_DRAINED :: int32 where "PSITEM_DRAINED = -2"

definition chunk_items :: "nat \<Rightarrow> nat \<Rightarrow> pitem list" where
  "chunk_items n c = map (Pair c) [0..<n]"

section \<open>Operations\<close>

definition PSitems_new :: "nat \<Rightarrow> 'a pool_scheme \<Rightarrow> 'a pool_scheme" where
  "PSitems_new isize s =
     s\<lparr>p_init := True, chunks := [], idleItems := [], itemSize := isize, avail := 0, used := 0,
       iPC := (CHUNK_SIZE - LIST_T_SIZE) div isize + 1, numGet := 0, numGrow := 0\<rparr>"

definition PSitems_getAvail :: "'a pool_scheme \<Rightarrow> nat" where
  "PSitems_getAvail s = (if p_init s then avail s else 0)"

definition PSitems_getUsed :: "'a pool_scheme \<Rightarrow> nat" where
  "PSitems_getUsed s = (if p_init s then used s else 0)"

definition PSitems_setChunkSize :: "nat \<Rightarrow> 'a pool_scheme \<Rightarrow> bool \<times> 'a pool_scheme" where
  "PSitems_setChunkSize chunkSize s =
     (if \<not> p_init s \<or> avail s \<noteq> 0 then (False, s)
      else (True, s\<lparr>iPC := (chunkSize - LIST_T_SIZE) div itemSize s + 1\<rparr>))"

definition growItems :: "'a pool_scheme \<Rightarrow> nat \<times> 'a pool_scheme" where
  "growItems s =
     (let (ok, s1) = (case pmem s of [] \<Rightarrow> (True, s) | b # bs \<Rightarrow> (b, s\<lparr>pmem := bs\<rparr>)) in
      if \<not> ok then (0, s1)
      else
        let new = chunk_items (iPC s1) (nextChunk s1) in
        (iPC s1, s1\<lparr>numGrow := numGrow s1 + 1, chunks := chunks s1 @ [nextChunk s1],
           nextChunk := nextChunk s1 + 1,
           ist := (\<lambda>i. if i \<in> set new then PSITEM_IDLE else ist s1 i),
           idleItems := idleItems s1 @ new, avail := avail s1 + iPC s1\<rparr>))"

definition PSitems_getItem :: "'a pool_scheme \<Rightarrow> pitem option \<times> 'a pool_scheme" where
  "PSitems_getItem s =
     (if \<not> p_init s then (None, s)
      else
        let s1 = s\<lparr>numGet := numGet s + 1\<rparr>;
            (n, s2) = (if idleItems s1 = [] then growItems s1 else (1, s1))
        in if n = 0 then (None, s2)
           else case idleItems s2 of
               [] \<Rightarrow> (None, s2)
             | i # is \<Rightarrow>
                 if ist s2 i \<noteq> PSITEM_IDLE then (None, s2)
                 else (Some i, s2\<lparr>idleItems := is, used := used s2 + 1\<rparr>))"

definition PSitems_putItem :: "pitem \<Rightarrow> 'a pool_scheme \<Rightarrow> 'a pool_scheme" where
  "PSitems_putItem i s =
     (if \<not> p_init s then s
      else s\<lparr>ist := (ist s)(i := PSITEM_IDLE), idleItems := idleItems s @ [i], used := used s - 1\<rparr>)"

section \<open>Garbage collection\<close>

definition PSitems_gcRequired :: "'a pool_scheme \<Rightarrow> bool" where
  "PSitems_gcRequired s \<longleftrightarrow> p_init s \<and> avail s > iPC s \<and> used s < (avail s - iPC s) div 2"

text \<open>First round: idle items of the chunk leave the list and are marked as drained.\<close>

definition drain_idle :: "pitem \<Rightarrow> 'a pool_scheme \<Rightarrow> 'a pool_scheme" where
  "drain_idle i s =
     (if ist s i = PSITEM_IDLE
      then s\<lparr>idleItems := remove1 i (idleItems s), ist := (ist s)(i := PSITEM_DRAINED)\<rparr> else s)"

text \<open>Second round: items in use are relocated; \<open>False\<close> where that failed.\<close>

fun reloc_items ::
  "(pitem \<Rightarrow> 'a pool_scheme \<Rightarrow> bool \<times> 'a pool_scheme) \<Rightarrow> pitem list \<Rightarrow> 'a pool_scheme
   \<Rightarrow> bool \<times> 'a pool_scheme" where
  "reloc_items reloc [] s = (True, s)"
| "reloc_items reloc (i # is) s =
     (if ist s i = PSITEM_DRAINED then reloc_items reloc is s
      else if ist s i = PSITEM_IDLE
      then reloc_items reloc is
             (s\<lparr>idleItems := remove1 i (idleItems s), ist := (ist s)(i := PSITEM_DRAINED)\<rparr>)
      else case reloc i s of
        (False, s1) \<Rightarrow> (False, s1)
      | (True, s1) \<Rightarrow>
          reloc_items reloc is (s1\<lparr>used := used s1 - 1, ist := (ist s1)(i := PSITEM_DRAINED)\<rparr>))"

definition freeChunk ::
  "(pitem \<Rightarrow> 'a pool_scheme \<Rightarrow> bool \<times> 'a pool_scheme) \<Rightarrow> nat \<Rightarrow> 'a pool_scheme \<Rightarrow> 'a pool_scheme" where
  "freeChunk reloc c s =
     (let is = chunk_items (iPC s) c;
          s1 = fold drain_idle is s
      in case reloc_items reloc is s1 of
           (False, s2) \<Rightarrow> s2
         | (True, s2) \<Rightarrow> s2\<lparr>chunks := remove1 c (chunks s2), avail := avail s2 - iPC s2\<rparr>)"

definition unused_items :: "nat \<Rightarrow> 'a pool_scheme \<Rightarrow> nat" where
  "unused_items c s =
     length (filter (\<lambda>i. ist s i = PSITEM_IDLE \<or> ist s i = PSITEM_DRAINED) (chunk_items (iPC s) c))"

text \<open>
  The loop over the chunks: the next chunk is looked up before the current one is handled.  A
  relocation might add chunks at the end, which the loop would visit too, hence the fuel; lemma
  \<open>gc_chunks_law\<close> shows that none is added and that the number of chunks is enough.
\<close>

primrec gc_chunks ::
  "nat \<Rightarrow> (pitem \<Rightarrow> 'a pool_scheme \<Rightarrow> bool \<times> 'a pool_scheme) \<Rightarrow> nat \<Rightarrow> 'a pool_scheme \<Rightarrow> 'a pool_scheme" where
  "gc_chunks 0 reloc c s = s"
| "gc_chunks (Suc fuel) reloc c s =
     (let next = tl (dropWhile (\<lambda>x. x \<noteq> c) (chunks s));
          s1 = (if unused_items c s > iPC s div 2 then freeChunk reloc c s else s)
      in if \<not> PSitems_gcRequired s1 then s1
         else case next of [] \<Rightarrow> s1 | n # ns \<Rightarrow> gc_chunks fuel reloc n s1)"

text \<open>The first chunk is always kept.\<close>

definition PSitems_gc ::
  "(pitem \<Rightarrow> 'a pool_scheme \<Rightarrow> bool \<times> 'a pool_scheme) \<Rightarrow> 'a pool_scheme \<Rightarrow> 'a pool_scheme" where
  "PSitems_gc reloc s =
     (if \<not> PSitems_gcRequired s then s
      else case chunks s of
        c0 # c # cs \<Rightarrow> gc_chunks (length (chunks s)) reloc c s
      | _ \<Rightarrow> s)"

definition PSitems_clearMem :: "'a pool_scheme \<Rightarrow> 'a pool_scheme" where
  "PSitems_clearMem s =
     (if \<not> p_init s then s
      else s\<lparr>p_init := False, chunks := [], idleItems := [], used := 0, avail := 0\<rparr>)"

end
