(* ===== verification/Items_Spec.thy ===== *)
theory Items_Spec
  imports Items
begin

text \<open>
  The promises of a pool.  \<open>pool_inv s B\<close> is its invariant while the items \<open>B\<close> are in use: every item
  of every chunk is either idle and in the list of idle items, or in use.  What a user has to do to
  relocate an item is the interface \<open>item_user\<close>; inside it garbage collection is shown to keep
  everything the user stored, to free whole chunks only and never to allocate.
\<close>

section \<open>The invariant\<close>

definition pool_items :: "'a pool_scheme \<Rightarrow> pitem set" where
  "pool_items s = set (chunks s) \<times> {..<iPC s}"

definition busy_state :: "int32 \<Rightarrow> bool" where
  "busy_state x \<longleftrightarrow> x \<noteq> PSITEM_IDLE \<and> x \<noteq> PSITEM_DRAINED"

definition pool_inv :: "'a pool_scheme \<Rightarrow> pitem set \<Rightarrow> bool" where
  "pool_inv s B \<longleftrightarrow> p_init s \<and> 0 < iPC s \<and> distinct (chunks s) \<and> (\<forall>c\<in>set (chunks s). c < nextChunk s)
     \<and> distinct (idleItems s) \<and> set (idleItems s) \<union> B = pool_items s \<and> set (idleItems s) \<inter> B = {}
     \<and> (\<forall>i\<in>set (idleItems s). ist s i = PSITEM_IDLE) \<and> (\<forall>i\<in>B. busy_state (ist s i))
     \<and> used s = card B \<and> avail s = length (chunks s) * iPC s"

lemma finite_pool_items [simp]: "finite (pool_items s)"
  by (simp add: pool_items_def)

lemma card_pool_items: "distinct (chunks s) \<Longrightarrow> card (pool_items s) = length (chunks s) * iPC s"
  by (simp add: pool_items_def card_cartesian_product distinct_card)

lemma pool_inv_finite: "pool_inv s B \<Longrightarrow> finite B"
  unfolding pool_inv_def by (metis finite_Un finite_pool_items)

lemma set_chunk_items: "set (chunk_items n c) = {c} \<times> {..<n}"
  by (auto simp: chunk_items_def)

lemma distinct_chunk_items [simp]: "distinct (chunk_items n c)"
  by (simp add: chunk_items_def distinct_map inj_on_def)

lemma idle_drained: "PSITEM_IDLE \<noteq> PSITEM_DRAINED"
  by (simp add: PSITEM_IDLE_def PSITEM_DRAINED_def)

lemma PSitems_new_inv: "pool_inv (PSitems_new n s) {}"
  by (simp add: pool_inv_def PSitems_new_def pool_items_def)

lemma pool_inv_pmem: "pool_inv (s\<lparr>pmem := q\<rparr>) B = pool_inv s B"
  by (simp add: pool_inv_def pool_items_def)

lemma growItems_inv:
  assumes "pool_inv s B" "growItems s = (n, s')"
  shows "pool_inv s' B \<and> (n \<noteq> 0 \<longrightarrow> idleItems s' \<noteq> []) \<and> pool.more s' = pool.more s"
proof -
  obtain ok s1 where 1: "(case pmem s of [] \<Rightarrow> (True, s) | b # bs \<Rightarrow> (b, s\<lparr>pmem := bs\<rparr>)) = (ok, s1)"
    by (rule prod.exhaust)
  then have s1: "pool_inv s1 B" "pool.more s1 = pool.more s"
    using assms(1) pool_inv_pmem by (cases "pmem s", auto)+
  show ?thesis
  proof (cases ok)
    case False
    then show ?thesis using assms(2) 1 s1 by (simp add: growItems_def)
  next
    case True
    let ?new = "chunk_items (iPC s1) (nextChunk s1)"
    have s': "s' = s1\<lparr>numGrow := numGrow s1 + 1, chunks := chunks s1 @ [nextChunk s1],
        nextChunk := nextChunk s1 + 1, ist := (\<lambda>i. if i \<in> set ?new then PSITEM_IDLE else ist s1 i),
        idleItems := idleItems s1 @ ?new, avail := avail s1 + iPC s1\<rparr>"
      using assms(2) 1 True by (auto simp: growItems_def Let_def)
    have new: "set ?new \<inter> pool_items s1 = {}"
      using s1(1) by (auto simp: set_chunk_items pool_items_def pool_inv_def)
    have "pool_items s' = pool_items s1 \<union> set ?new" by (auto simp: s' pool_items_def set_chunk_items)
    moreover have "nextChunk s1 \<notin> set (chunks s1)" using s1(1) by (auto simp: pool_inv_def)
    moreover have "?new \<noteq> []" using s1(1) by (auto simp: chunk_items_def pool_inv_def)
    ultimately show ?thesis using s1 new by (auto simp: pool_inv_def s')
  qed
qed

text \<open>
  An item taken from the pool was not in use.  It counts as in use once its user has stored
  something in it.
\<close>

lemma PSitems_getItem_inv:
  assumes "pool_inv s B" "PSitems_getItem s = (r, s')"
  shows "pool.more s' = pool.more s \<and> (r = None \<longrightarrow> pool_inv s' B)
     \<and> (\<forall>j. r = Some j \<longrightarrow> j \<notin> B \<and> (\<forall>x. busy_state x \<longrightarrow> pool_inv (s'\<lparr>ist := (ist s')(j := x)\<rparr>) (insert j B)))"
proof -
  let ?s1 = "s\<lparr>numGet := numGet s + 1\<rparr>"
  have 1: "pool_inv ?s1 B" using assms(1) by (simp add: pool_inv_def pool_items_def)
  have init: "p_init s" using assms(1) by (simp add: pool_inv_def)
  obtain n s2 where 2: "(if idleItems ?s1 = [] then growItems ?s1 else (1, ?s1)) = (n, s2)" by (rule prod.exhaust)
  have eq: "PSitems_getItem s = (if n = 0 then (None, s2) else case idleItems s2 of [] \<Rightarrow> (None, s2)
      | i # is \<Rightarrow> if ist s2 i \<noteq> PSITEM_IDLE then (None, s2) else (Some i, s2\<lparr>idleItems := is, used := used s2 + 1\<rparr>))"
    unfolding PSitems_getItem_def Let_def 2 prod.case using init by simp
  have s2: "pool_inv s2 B" "n \<noteq> 0 \<longrightarrow> idleItems s2 \<noteq> []" "pool.more s2 = pool.more s"
    using 2 growItems_inv [OF 1, of n s2] 1 by (auto split: if_splits)
  show ?thesis
  proof (cases "n = 0")
    case True
    then show ?thesis using assms(2) s2 by (auto simp: eq)
  next
    case False
    then obtain j js where j: "idleItems s2 = j # js" using s2(2) by (cases "idleItems s2") auto
    have idle: "ist s2 j = PSITEM_IDLE" using s2(1) j by (simp add: pool_inv_def)
    then have r: "r = Some j" "s' = s2\<lparr>idleItems := js, used := used s2 + 1\<rparr>"
      using assms(2) False j by (simp_all add: eq)
    have jB: "j \<notin> B" "finite B" using s2(1) j pool_inv_finite [OF s2(1)] by (auto simp: pool_inv_def)
    have "pool_inv (s'\<lparr>ist := (ist s')(j := x)\<rparr>) (insert j B)" if "busy_state x" for x
      using s2(1) j jB that by (auto simp: pool_inv_def r(2) pool_items_def)
    then show ?thesis using r s2(3) jB by simp
  qed
qed

lemma PSitems_putItem_inv:
  assumes "pool_inv s B" "i \<in> B"
  shows "pool_inv (PSitems_putItem i s) (B - {i}) \<and> pool.more (PSitems_putItem i s) = pool.more s"
  using assms pool_inv_finite [OF assms(1)]
  by (auto simp: pool_inv_def PSitems_putItem_def pool_items_def)

section \<open>Draining a chunk\<close>

lemma drain_round:
  assumes "distinct (idleItems s)" "\<forall>i\<in>set is. ist s i = PSITEM_IDLE \<longleftrightarrow> i \<in> set (idleItems s)" "distinct is"
  shows "fold drain_idle is s = s\<lparr>idleItems := filter (\<lambda>i. i \<notin> set is) (idleItems s),
     ist := (\<lambda>i. if i \<in> set is \<and> ist s i = PSITEM_IDLE then PSITEM_DRAINED else ist s i)\<rparr>"
  using assms
proof (induction "is" arbitrary: s)
  case (Cons i "is")
  show ?case
  proof (cases "ist s i = PSITEM_IDLE")
    case True
    let ?s = "s\<lparr>idleItems := remove1 i (idleItems s), ist := (ist s)(i := PSITEM_DRAINED)\<rparr>"
    have 1: "distinct (idleItems ?s)" "\<forall>k\<in>set is. ist ?s k = PSITEM_IDLE \<longleftrightarrow> k \<in> set (idleItems ?s)" "distinct is"
      using Cons.prems by (auto simp: set_remove1_eq)
    have f: "filter (\<lambda>k. k \<notin> set is) (remove1 i (idleItems s)) = filter (\<lambda>k. k \<notin> set (i # is)) (idleItems s)"
      using Cons.prems(1) by (simp add: distinct_remove1_removeAll removeAll_filter_not_eq) (auto intro: filter_cong)
    have g: "(\<lambda>k. if k \<in> set is \<and> ((ist s)(i := PSITEM_DRAINED)) k = PSITEM_IDLE then PSITEM_DRAINED else ((ist s)(i := PSITEM_DRAINED)) k)
        = (\<lambda>k. if k \<in> set (i # is) \<and> ist s k = PSITEM_IDLE then PSITEM_DRAINED else ist s k)"
      using True by (auto simp: fun_eq_iff)
    have "fold drain_idle (i # is) s = fold drain_idle is ?s" using True by (simp add: drain_idle_def)
    also have "\<dots> = s\<lparr>idleItems := filter (\<lambda>k. k \<notin> set is) (remove1 i (idleItems s)),
       ist := (\<lambda>k. if k \<in> set is \<and> ((ist s)(i := PSITEM_DRAINED)) k = PSITEM_IDLE then PSITEM_DRAINED else ((ist s)(i := PSITEM_DRAINED)) k)\<rparr>"
    proof -
      have u: "ist ?s = (ist s)(i := PSITEM_DRAINED)" "idleItems ?s = remove1 i (idleItems s)" by simp_all
      show ?thesis unfolding Cons.IH [OF 1] u by simp
    qed
    finally show ?thesis unfolding f g .
  next
    case False
    have "\<forall>k\<in>set is. ist s k = PSITEM_IDLE \<longleftrightarrow> k \<in> set (idleItems s)" "distinct is" using Cons.prems by auto
    note IH = Cons.IH [OF Cons.prems(1) this]
    have "i \<notin> set (idleItems s)" using Cons.prems(2) False by auto
    then have f: "filter (\<lambda>k. k \<notin> set (i # is)) (idleItems s) = filter (\<lambda>k. k \<notin> set is) (idleItems s)"
      by (intro filter_cong) auto
    have g: "(\<lambda>k. if k \<in> set (i # is) \<and> ist s k = PSITEM_IDLE then PSITEM_DRAINED else ist s k)
        = (\<lambda>k. if k \<in> set is \<and> ist s k = PSITEM_IDLE then PSITEM_DRAINED else ist s k)"
      using False by (auto simp: fun_eq_iff)
    show ?thesis using IH False unfolding f g by (simp add: drain_idle_def)
  qed
qed simp

text \<open>Between the rounds: what is left of chunk \<open>c\<close> lies in \<open>rem\<close>.\<close>

definition pool_mid :: "'a pool_scheme \<Rightarrow> pitem set \<Rightarrow> nat \<Rightarrow> pitem set \<Rightarrow> bool" where
  "pool_mid s B c rem \<longleftrightarrow> p_init s \<and> 0 < iPC s \<and> distinct (chunks s) \<and> (\<forall>c\<in>set (chunks s). c < nextChunk s)
     \<and> c \<in> set (chunks s) \<and> distinct (idleItems s)
     \<and> set (idleItems s) \<union> {i \<in> B. fst i \<noteq> c} = {i \<in> pool_items s. fst i \<noteq> c} \<and> set (idleItems s) \<inter> B = {}
     \<and> B \<subseteq> pool_items s \<and> {i \<in> B. fst i = c} \<subseteq> rem
     \<and> (\<forall>i\<in>set (idleItems s). ist s i = PSITEM_IDLE) \<and> (\<forall>i\<in>B. busy_state (ist s i))
     \<and> (\<forall>i\<in>pool_items s. fst i = c \<and> i \<notin> B \<longrightarrow> ist s i = PSITEM_DRAINED)
     \<and> used s = card B \<and> avail s = length (chunks s) * iPC s
     \<and> card {i \<in> B. fst i = c} \<le> length (idleItems s)"

lemma drained_mid:
  assumes inv: "pool_inv s B" and c: "c \<in> set (chunks s)" and room: "used s \<le> avail s - iPC s" "iPC s \<le> avail s"
  shows "pool_mid (fold drain_idle (chunk_items (iPC s) c) s) B c (set (chunk_items (iPC s) c))"
proof -
  let ?is = "chunk_items (iPC s) c"
  have fin: "finite B" by (rule pool_inv_finite [OF inv])
  have idle: "\<forall>i\<in>set ?is. ist s i = PSITEM_IDLE \<longleftrightarrow> i \<in> set (idleItems s)"
    using inv c by (auto simp: pool_inv_def set_chunk_items pool_items_def busy_state_def)
  have dist: "distinct (idleItems s)" using inv by (simp add: pool_inv_def)
  note eq = drain_round [OF dist idle distinct_chunk_items]
  let ?idle = "filter (\<lambda>i. i \<notin> set ?is) (idleItems s)"
  have sub: "pool_items s = set (idleItems s) \<union> B" "set (idleItems s) \<inter> B = {}" using inv by (auto simp: pool_inv_def)
  have out: "i \<notin> set ?is \<longleftrightarrow> fst i \<noteq> c" if "i \<in> pool_items s" for i
    using that by (auto simp: set_chunk_items pool_items_def)
  have si: "set ?idle = {i \<in> set (idleItems s). fst i \<noteq> c}" using out sub(1) by auto
  have P: "set ?idle \<union> {i \<in> B. fst i \<noteq> c} = {i \<in> pool_items s. fst i \<noteq> c}" unfolding si sub(1) by auto
  have "card {i \<in> pool_items s. fst i = c} = iPC s"
  proof -
    have "{i \<in> pool_items s. fst i = c} = set ?is" using c by (auto simp: set_chunk_items pool_items_def)
    then show ?thesis using distinct_card [OF distinct_chunk_items, of "iPC s" c]
      by (simp only: length_map length_upt chunk_items_def)
  qed
  moreover have "card (pool_items s) = card {i \<in> pool_items s. fst i \<noteq> c} + card {i \<in> pool_items s. fst i = c}"
    by (subst card_Un_disjoint [symmetric]) (auto intro: arg_cong [of _ _ card])
  moreover have "card (pool_items s) = avail s" using inv by (simp add: card_pool_items pool_inv_def)
  ultimately have n1: "card {i \<in> pool_items s. fst i \<noteq> c} = avail s - iPC s" by simp
  have n2: "card {i \<in> pool_items s. fst i \<noteq> c} = length ?idle + card {i \<in> B. fst i \<noteq> c}"
  proof -
    have "card (set ?idle \<union> {i \<in> B. fst i \<noteq> c}) = card (set ?idle) + card {i \<in> B. fst i \<noteq> c}"
      using sub(2) fin by (intro card_Un_disjoint) auto
    moreover have "card (set ?idle) = length ?idle" using dist by (intro distinct_card) simp
    ultimately show ?thesis unfolding P by simp
  qed
  have n3: "card B = card {i \<in> B. fst i \<noteq> c} + card {i \<in> B. fst i = c}"
    using fin by (subst card_Un_disjoint [symmetric]) (auto intro: arg_cong [of _ _ card])
  have cap: "card {i \<in> B. fst i = c} \<le> length ?idle"
    using n1 n2 n3 room inv by (simp add: pool_inv_def)
  have "B \<subseteq> pool_items s" using sub(1) by blast
  moreover have "{i \<in> B. fst i = c} \<subseteq> set ?is" using out sub(1) by blast
  ultimately show ?thesis
    unfolding eq pool_mid_def
    using inv c P cap idle sub dist
    by (auto simp: pool_inv_def pool_items_def busy_state_def set_chunk_items)
qed

section \<open>Users of a pool\<close>

text \<open>
  \<open>links m B\<close>: the lists of the user refer to exactly the items \<open>B\<close>; \<open>view m\<close> is what the user sees
  of its data.  Relocation takes the first idle item, stores there what was in the old one and puts
  it in its place.
\<close>

definition took_item :: "pitem \<Rightarrow> pitem list \<Rightarrow> int32 \<Rightarrow> 'a pool_scheme \<Rightarrow> 'a pool_scheme" where
  "took_item j js x s = s\<lparr>numGet := numGet s + 1, idleItems := js, used := used s + 1, ist := (ist s)(j := x)\<rparr>"

locale item_user =
  fixes reloc :: "pitem \<Rightarrow> 'a pool_scheme \<Rightarrow> bool \<times> 'a pool_scheme"
    and links :: "'a \<Rightarrow> pitem set \<Rightarrow> bool"
    and view :: "'a \<Rightarrow> 'b"
  assumes reloc_law: "p_init s \<Longrightarrow> links (pool.more s) B \<Longrightarrow> i \<in> B \<Longrightarrow> idleItems s = j # js \<Longrightarrow> j \<notin> B
      \<Longrightarrow> ist s j = PSITEM_IDLE
      \<Longrightarrow> \<exists>s' x. reloc i s = (True, s') \<and> busy_state x \<and> pool.truncate s' = pool.truncate (took_item j js x s)
           \<and> links (pool.more s') (insert j (B - {i})) \<and> view (pool.more s') = view (pool.more s)"
begin

lemma reloc_fields:
  assumes "pool.truncate s' = pool.truncate (took_item j js x s)"
  shows "p_init s' = p_init s" "chunks s' = chunks s" "idleItems s' = js" "avail s' = avail s"
    "used s' = used s + 1" "iPC s' = iPC s" "ist s' = (ist s)(j := x)" "nextChunk s' = nextChunk s"
    "pmem s' = pmem s" "numGrow s' = numGrow s"
  using assms by (cases s, cases s', simp add: pool.truncate_def took_item_def)+

lemma reloc_items_law:
  assumes "pool_mid s B c (set is)" "links (pool.more s) B" "distinct is" "\<forall>i\<in>set is. fst i = c \<and> i \<in> pool_items s"
  shows "\<exists>s' B'. reloc_items reloc is s = (True, s') \<and> pool_mid s' B' c {} \<and> links (pool.more s') B'
    \<and> view (pool.more s') = view (pool.more s) \<and> pmem s' = pmem s \<and> numGrow s' = numGrow s
    \<and> chunks s' = chunks s \<and> iPC s' = iPC s \<and> card B' = card B \<and> {i \<in> B. fst i \<noteq> c} \<subseteq> B'"
  using assms
proof (induction "is" arbitrary: s B)
  case Nil
  then show ?case by auto
next
  case (Cons i "is")
  have i: "fst i = c" "i \<in> pool_items s" using Cons.prems(4) by auto
  have rem: "\<forall>i\<in>set is. fst i = c \<and> i \<in> pool_items s" "distinct is" using Cons.prems(3,4) by auto
  show ?case
  proof (cases "i \<in> B")
    case False
    then have "ist s i = PSITEM_DRAINED" using Cons.prems(1) i by (simp add: pool_mid_def)
    moreover have "pool_mid s B c (set is)" using Cons.prems(1) False by (auto simp: pool_mid_def)
    ultimately show ?thesis using Cons.IH [OF _ Cons.prems(2) rem(2,1)] by simp
  next
    case True
    have fin: "finite B" using Cons.prems(1) finite_subset [OF _ finite_pool_items] by (auto simp: pool_mid_def)
    have busy: "ist s i \<noteq> PSITEM_DRAINED" "ist s i \<noteq> PSITEM_IDLE"
      using Cons.prems(1) True by (auto simp: pool_mid_def busy_state_def)
    have "i \<in> {i \<in> B. fst i = c}" using True i by simp
    moreover have "finite {i \<in> B. fst i = c}" using fin by simp
    ultimately have pos: "0 < card {i \<in> B. fst i = c}" by (metis card_gt_0_iff empty_iff)
    then have "idleItems s \<noteq> []" using Cons.prems(1) by (auto simp: pool_mid_def)
    then obtain j js where j: "idleItems s = j # js" by (cases "idleItems s") auto
    have jj: "j \<notin> B" "ist s j = PSITEM_IDLE" "fst j \<noteq> c" "j \<in> pool_items s" "j \<notin> set js" "p_init s"
      using Cons.prems(1) j by (auto simp: pool_mid_def)
    from reloc_law [OF jj(6) Cons.prems(2) True j jj(1,2)] obtain s1 x where
      s1: "reloc i s = (True, s1)" "busy_state x" "pool.truncate s1 = pool.truncate (took_item j js x s)"
        "links (pool.more s1) (insert j (B - {i}))" "view (pool.more s1) = view (pool.more s)" by blast
    note f = reloc_fields [OF s1(3)]
    let ?B = "insert j (B - {i})"
    let ?s2 = "s1\<lparr>used := used s1 - 1, ist := (ist s1)(i := PSITEM_DRAINED)\<rparr>"
    have cB: "card ?B = card B" using fin True jj(1) card_Suc_Diff1 [of B i] by simp
    have cc: "{k \<in> ?B. fst k = c} = {k \<in> B. fst k = c} - {i}" using jj(3) by auto
    have cap: "card {k \<in> ?B. fst k = c} \<le> length js"
      unfolding cc using Cons.prems(1) \<open>i \<in> {i \<in> B. fst i = c}\<close> by (auto simp: pool_mid_def j card_Diff_singleton)
    have items: "pool_items ?s2 = pool_items s" by (simp add: pool_items_def f)
    have m: "set js \<union> {k \<in> ?B. fst k \<noteq> c} = {k \<in> pool_items s. fst k \<noteq> c}"
      using Cons.prems(1) j jj i by (auto simp: pool_mid_def)
    have ne: "j \<noteq> i" using jj(1) True by auto
    have "pool_mid ?s2 ?B c (set is)"
      unfolding pool_mid_def items
      using Cons.prems(1) m cap jj i cB f s1(2) ne j
      by (auto simp: pool_mid_def)
    moreover have "links (pool.more ?s2) ?B" using s1(4) by simp
    moreover have "\<forall>i\<in>set is. fst i = c \<and> i \<in> pool_items ?s2" using rem(1) unfolding items .
    ultimately obtain s' B' where "reloc_items reloc is ?s2 = (True, s')" "pool_mid s' B' c {}"
      "links (pool.more s') B'" "view (pool.more s') = view (pool.more ?s2)" "pmem s' = pmem ?s2"
      "numGrow s' = numGrow ?s2" "chunks s' = chunks ?s2" "iPC s' = iPC ?s2" "card B' = card ?B"
      "{k \<in> ?B. fst k \<noteq> c} \<subseteq> B'"
      using Cons.IH [of ?s2 ?B] rem(2) by blast
    moreover have "{k \<in> B. fst k \<noteq> c} \<subseteq> {k \<in> ?B. fst k \<noteq> c}" using i(1) by auto
    moreover have "reloc_items reloc (i # is) s = reloc_items reloc is ?s2" using s1(1) busy by simp
    ultimately show ?thesis using f s1(5) cB by (intro exI [of _ s'] exI [of _ B']) auto
  qed
qed

lemma freeChunk_law:
  assumes "pool_inv s B" "links (pool.more s) B" "c \<in> set (chunks s)" "used s \<le> avail s - iPC s" "iPC s \<le> avail s"
  shows "\<exists>B'. let s' = freeChunk reloc c s in pool_inv s' B' \<and> links (pool.more s') B'
     \<and> view (pool.more s') = view (pool.more s) \<and> pmem s' = pmem s \<and> numGrow s' = numGrow s
     \<and> chunks s' = remove1 c (chunks s) \<and> iPC s' = iPC s \<and> card B' = card B \<and> {i \<in> B. fst i \<noteq> c} \<subseteq> B'"
proof -
  let ?is = "chunk_items (iPC s) c"
  let ?s1 = "fold drain_idle ?is s"
  have idle: "\<forall>i\<in>set ?is. ist s i = PSITEM_IDLE \<longleftrightarrow> i \<in> set (idleItems s)"
    using assms(1,3) by (auto simp: pool_inv_def set_chunk_items pool_items_def busy_state_def)
  have dist: "distinct (idleItems s)" using assms(1) by (simp add: pool_inv_def)
  note eq = drain_round [OF dist idle distinct_chunk_items]
  have s1: "pool.more ?s1 = pool.more s" "pmem ?s1 = pmem s" "numGrow ?s1 = numGrow s" "chunks ?s1 = chunks s"
    "iPC ?s1 = iPC s" unfolding eq by simp_all
  have mid: "pool_mid ?s1 B c (set ?is)" by (rule drained_mid [OF assms(1,3-5)])
  have "\<forall>i\<in>set ?is. fst i = c \<and> i \<in> pool_items ?s1"
    using assms(3) s1 by (auto simp: set_chunk_items pool_items_def)
  from reloc_items_law [OF mid _ distinct_chunk_items this] assms(2) s1
  obtain s2 B' where 2: "reloc_items reloc ?is ?s1 = (True, s2)" "pool_mid s2 B' c {}" "links (pool.more s2) B'"
    "view (pool.more s2) = view (pool.more s)" "pmem s2 = pmem s" "numGrow s2 = numGrow s" "chunks s2 = chunks s"
    "iPC s2 = iPC s" "card B' = card B" "{i \<in> B. fst i \<noteq> c} \<subseteq> B'" by auto
  let ?s3 = "s2\<lparr>chunks := remove1 c (chunks s2), avail := avail s2 - iPC s2\<rparr>"
  have B: "{i \<in> B'. fst i \<noteq> c} = B'" using 2(2) by (auto simp: pool_mid_def)
  have dc: "distinct (chunks s2)" using 2(2) by (simp add: pool_mid_def)
  have items: "pool_items ?s3 = {i \<in> pool_items s2. fst i \<noteq> c}"
    using dc by (auto simp: pool_items_def set_remove1_eq)
  have len: "length (remove1 c (chunks s2)) * iPC s2 = length (chunks s2) * iPC s2 - iPC s2"
    using 2(2) by (simp add: pool_mid_def length_remove1 diff_mult_distrib)
  have u: "set (idleItems s2) \<union> B' = {i \<in> pool_items s2. fst i \<noteq> c}"
    using 2(2) unfolding pool_mid_def B by blast
  have "pool_inv ?s3 B'"
    unfolding pool_inv_def items using 2(2) len dc u by (auto simp: pool_mid_def set_remove1_eq)
  moreover have "freeChunk reloc c s = ?s3" by (simp add: freeChunk_def 2(1))
  ultimately show ?thesis using 2 by (intro exI [of _ B']) (simp add: Let_def)
qed

end

text \<open>A chunk that is kept is at least half in use.\<close>

definition half_used :: "'c pool_scheme \<Rightarrow> pitem set \<Rightarrow> nat \<Rightarrow> bool" where
  "half_used s B d \<longleftrightarrow> iPC s \<le> 2 * card {i \<in> B. fst i = d}"

lemma unused_items_busy:
  assumes "pool_inv s B" "c \<in> set (chunks s)"
  shows "unused_items c s = iPC s - card {i \<in> B. fst i = c}"
proof -
  have "{i \<in> set (chunk_items (iPC s) c). ist s i = PSITEM_IDLE \<or> ist s i = PSITEM_DRAINED}
      = set (chunk_items (iPC s) c) - {i \<in> B. fst i = c}"
    using assms by (auto simp: pool_inv_def set_chunk_items pool_items_def busy_state_def)
  moreover have sub: "{i \<in> B. fst i = c} \<subseteq> set (chunk_items (iPC s) c)"
    using assms by (auto simp: pool_inv_def set_chunk_items pool_items_def)
  moreover have "card (set (chunk_items (iPC s) c)) = iPC s" by (simp add: set_chunk_items card_cartesian_product)
  moreover have "unused_items c s = card {i \<in> set (chunk_items (iPC s) c). ist s i = PSITEM_IDLE \<or> ist s i = PSITEM_DRAINED}"
    by (simp add: unused_items_def distinct_length_filter Int_def conj_commute)
  ultimately show ?thesis by (simp add: card_Diff_subset finite_subset [OF sub])
qed

lemma half_used_mono:
  assumes "half_used s B d" "{i \<in> B. fst i \<noteq> c} \<subseteq> B'" "d \<noteq> c" "iPC s' = iPC s" "finite B'"
  shows "half_used s' B' d"
proof -
  have "card {i \<in> B. fst i = d} \<le> card {i \<in> B'. fst i = d}" using assms by (intro card_mono) auto
  then show ?thesis using assms(1,4) by (simp add: half_used_def)
qed

lemma half_used_enough:
  assumes "pool_inv s B" "chunks s = c0 # cs" "\<forall>d\<in>set cs. half_used s B d"
  shows "\<not> PSitems_gcRequired s"
proof -
  have inv: "finite B" "distinct cs" "avail s = iPC s + length cs * iPC s" "used s = card B"
    using pool_inv_finite [OF assms(1)] assms(1,2) by (simp_all add: pool_inv_def)
  have "card {i \<in> B. fst i \<in> set ds} = (\<Sum>d\<leftarrow>ds. card {i \<in> B. fst i = d})" if "distinct ds" for ds
    using that
  proof (induction ds)
    case (Cons d ds)
    have "{i \<in> B. fst i \<in> set (d # ds)} = {i \<in> B. fst i = d} \<union> {i \<in> B. fst i \<in> set ds}" by auto
    moreover have "{i \<in> B. fst i = d} \<inter> {i \<in> B. fst i \<in> set ds} = {}" using Cons.prems by auto
    ultimately show ?case using Cons inv(1) by (simp add: card_Un_disjoint)
  qed simp
  from this [OF inv(2)] have "(\<Sum>d\<leftarrow>cs. card {i \<in> B. fst i = d}) \<le> card B"
    using inv(1) by (metis (no_types, lifting) card_mono mem_Collect_eq subsetI)
  moreover have "length ds * iPC s \<le> 2 * (\<Sum>d\<leftarrow>ds. card {i \<in> B. fst i = d})"
    if "\<forall>d\<in>set ds. half_used s B d" for ds
    using that by (induction ds) (auto simp: half_used_def)
  then have "length cs * iPC s \<le> 2 * (\<Sum>d\<leftarrow>cs. card {i \<in> B. fst i = d})" using assms(3) by blast
  ultimately show ?thesis by (auto simp: PSitems_gcRequired_def inv)
qed

lemma dropWhile_at: "distinct (pre @ c # post) \<Longrightarrow> tl (dropWhile (\<lambda>x. x \<noteq> c) (pre @ c # post)) = post"
  by (induction pre) auto

text \<open>What garbage collection keeps, and the condition it ends with.\<close>

definition gc_keeps :: "'c pool_scheme \<Rightarrow> pitem set \<Rightarrow> 'c pool_scheme \<Rightarrow> pitem set \<Rightarrow> bool" where
  "gc_keeps s B s' B' \<longleftrightarrow> pool_inv s' B' \<and> card B' = card B \<and> iPC s' = iPC s \<and> pmem s' = pmem s
     \<and> numGrow s' = numGrow s \<and> hd (chunks s') = hd (chunks s) \<and> set (chunks s') \<subseteq> set (chunks s)"

context item_user
begin

lemma gc_chunk_law:
  fixes s :: "'a pool_scheme"
  assumes "pool_inv s B" "links (pool.more s) B" "PSitems_gcRequired s" "chunks s = c0 # pre @ c # post"
    "\<forall>d\<in>set pre. half_used s B d"
    "s1 = (if unused_items c s > iPC s div 2 then freeChunk reloc c s else s)"
  shows "\<exists>B1 pre1. gc_keeps s B s1 B1 \<and> links (pool.more s1) B1 \<and> view (pool.more s1) = view (pool.more s)
     \<and> chunks s1 = c0 # pre1 @ post \<and> (\<forall>d\<in>set pre1. half_used s1 B1 d)"
proof (cases "unused_items c s > iPC s div 2")
  case True
  have c: "c \<in> set (chunks s)" "c \<noteq> c0" "c \<notin> set pre" using assms(1,4) by (auto simp: pool_inv_def)
  have room: "used s \<le> avail s - iPC s" "iPC s \<le> avail s" using assms(3) by (auto simp: PSitems_gcRequired_def)
  from freeChunk_law [OF assms(1,2) c(1) room] obtain B1 where B1: "pool_inv s1 B1" "links (pool.more s1) B1"
    "view (pool.more s1) = view (pool.more s)" "pmem s1 = pmem s" "numGrow s1 = numGrow s"
    "chunks s1 = remove1 c (chunks s)" "iPC s1 = iPC s" "card B1 = card B" "{i \<in> B. fst i \<noteq> c} \<subseteq> B1"
    using True assms(6) by (auto simp: Let_def)
  have ch: "chunks s1 = c0 # pre @ post" using B1(6) assms(4) c by (simp add: remove1_append)
  have "half_used s1 B1 d" if "d \<in> set pre" for d
    using half_used_mono [OF _ B1(9) _ B1(7) pool_inv_finite [OF B1(1)], of d] that assms(5) c(3) by auto
  then show ?thesis using B1 ch assms(4) c(2) by (intro exI [of _ B1] exI [of _ pre]) (auto simp: gc_keeps_def ch)
next
  case False
  have "c \<in> set (chunks s)" using assms(4) by simp
  then have "half_used s B c" using False unused_items_busy [OF assms(1)] by (auto simp: half_used_def)
  then show ?thesis using assms False
    by (intro exI [of _ B] exI [of _ "pre @ [c]"]) (auto simp: gc_keeps_def)
qed

lemma gc_chunks_law:
  fixes s :: "'a pool_scheme"
  assumes "pool_inv s B" "links (pool.more s) B" "PSitems_gcRequired s" "chunks s = c0 # pre @ c # post"
    "\<forall>d\<in>set pre. half_used s B d" "length post < fuel"
  shows "\<exists>B'. let s' = gc_chunks fuel reloc c s in gc_keeps s B s' B' \<and> links (pool.more s') B'
     \<and> view (pool.more s') = view (pool.more s) \<and> \<not> PSitems_gcRequired s'"
  using assms
proof (induction fuel arbitrary: s B pre c post)
  case (Suc fuel)
  define s1 where "s1 = (if unused_items c s > iPC s div 2 then freeChunk reloc c s else s)"
  from gc_chunk_law [OF Suc.prems(1-5) s1_def] obtain B1 pre1 where 1: "gc_keeps s B s1 B1" "links (pool.more s1) B1"
    "view (pool.more s1) = view (pool.more s)" "chunks s1 = c0 # pre1 @ post" "\<forall>d\<in>set pre1. half_used s1 B1 d"
    by blast
  have inv1: "pool_inv s1 B1" using 1(1) by (simp add: gc_keeps_def)
  have "distinct (chunks s)" using Suc.prems(1) by (simp add: pool_inv_def)
  then have "tl (dropWhile (\<lambda>x. x \<noteq> c) (chunks s)) = post"
    using dropWhile_at [of "c0 # pre" c post] Suc.prems(4) by simp
  then have eq: "gc_chunks (Suc fuel) reloc c s = (if \<not> PSitems_gcRequired s1 then s1
      else case post of [] \<Rightarrow> s1 | n # ns \<Rightarrow> gc_chunks fuel reloc n s1)"
    by (simp only: gc_chunks.simps Let_def s1_def [symmetric])
  show ?case
  proof (cases "\<not> PSitems_gcRequired s1 \<or> post = []")
    case True
    then have "\<not> PSitems_gcRequired s1" using half_used_enough [OF inv1, of c0 pre1] 1(4,5) by auto
    then show ?thesis using 1 unfolding eq by (auto simp: Let_def)
  next
    case False
    then obtain n ns where post: "post = n # ns" by (cases post) auto
    have fuel: "length ns < fuel" using Suc.prems(6) by (simp add: post)
    from Suc.IH [OF inv1 1(2) _ 1(4) [unfolded post] 1(5) fuel] False obtain B' where
      "gc_keeps s1 B1 (gc_chunks fuel reloc n s1) B'" "links (pool.more (gc_chunks fuel reloc n s1)) B'"
      "view (pool.more (gc_chunks fuel reloc n s1)) = view (pool.more s1)"
      "\<not> PSitems_gcRequired (gc_chunks fuel reloc n s1)" by (auto simp: Let_def)
    then show ?thesis using 1(1,3) False unfolding eq
      by (intro exI [of _ B']) (auto simp: Let_def post gc_keeps_def)
  qed
qed simp

text \<open>The law of garbage collection: no reference dangles, nothing is lost, it ends with a small pool.\<close>

lemma PSitems_gc_law:
  fixes s :: "'a pool_scheme"
  assumes "pool_inv s B" "links (pool.more s) B"
  shows "\<exists>B'. let s' = PSitems_gc reloc s in gc_keeps s B s' B' \<and> links (pool.more s') B'
     \<and> view (pool.more s') = view (pool.more s) \<and> \<not> PSitems_gcRequired s'"
proof (cases "PSitems_gcRequired s")
  case False
  then show ?thesis using assms by (intro exI [of _ B]) (simp add: PSitems_gc_def gc_keeps_def)
next
  case True
  have "avail s = length (chunks s) * iPC s" "iPC s < avail s"
    using assms(1) True by (simp_all add: pool_inv_def PSitems_gcRequired_def)
  then obtain c0 c cs where ch: "chunks s = c0 # [] @ c # cs"
    by (cases "chunks s" rule: remdups_adj.cases) auto
  have "PSitems_gc reloc s = gc_chunks (length (chunks s)) reloc c s"
    using True ch by (simp add: PSitems_gc_def del: gc_chunks.simps)
  then show ?thesis using gc_chunks_law [OF assms True ch, of "length (chunks s)"]
    by (simp add: ch del: gc_chunks.simps)
qed

end

end
