(* ===== verification/Flow.thy ===== *)
theory Flow
  imports Items_Spec Ps_Msg
begin

text \<open>
  Flow control between clients and daemons (\<open>src/bin/daemon/psidflowcontrol.c\<close>): the hash tables
  that remember which tasks have been sent a SENDSTOP.  The entries of all tables come from one pool
  of items; there is one table per client, named by the client's file descriptor.  An item carries
  the task identifier right behind its list pointers, so that the item's state, as the pool sees it,
  is the lower half of the identifier: the PID.
\<close>

section \<open>State\<close>

definition FLWCNTRL_HASH_SIZE :: nat where "FLWCNTRL_HASH_SIZE = 32"

record stops =
  tids :: "pitem \<Rightarrow> taskid"
  tables :: "nat \<Rightarrow> nat \<Rightarrow> pitem list"

type_synonym flow = "stops pool_scheme"

definition tid_state :: "taskid \<Rightarrow> int32" where
  "tid_state t = ucast t"

definition store_tid :: "pitem \<Rightarrow> taskid \<Rightarrow> flow \<Rightarrow> flow" where
  "store_tid i t s = pool.more_update (tids_update (\<lambda>f. f(i := t))) (s\<lparr>ist := (ist s)(i := tid_state t)\<rparr>)"

definition set_bucket :: "nat \<Rightarrow> nat \<Rightarrow> pitem list \<Rightarrow> flow \<Rightarrow> flow" where
  "set_bucket h k l s = pool.more_update (tables_update (\<lambda>f. f(h := (f h)(k := l)))) s"

definition bucket :: "nat \<Rightarrow> nat \<Rightarrow> flow \<Rightarrow> pitem list" where
  "bucket h k s = tables (pool.more s) h k"

section \<open>Relocation\<close>

text \<open>The new item takes the old one's place in whatever list this is in.\<close>

definition relocStopTID :: "pitem \<Rightarrow> flow \<Rightarrow> bool \<times> flow" where
  "relocStopTID orig s =
     (case PSitems_getItem s of
        (None, s1) \<Rightarrow> (False, s1)
      | (Some repl, s1) \<Rightarrow>
          let s2 = store_tid repl (tids (pool.more s1) orig) s1
          in (True, pool.more_update (tables_update (\<lambda>f h k. map (\<lambda>x. if x = orig then repl else x) (f h k))) s2))"

definition PSIDFlwCntrl_gc :: "flow \<Rightarrow> flow" where
  "PSIDFlwCntrl_gc s = PSitems_gc relocStopTID s"

section \<open>Tables\<close>

text \<open>
  The index is computed by the C operator \<open>%\<close> on a signed number; a negative index is undefined
  behaviour, the value \<open>None\<close> here.
\<close>

definition hash_index :: "taskid \<Rightarrow> nat option" where
  "hash_index key =
     (if 0 \<le> sint key then Some (nat (sint key) mod FLWCNTRL_HASH_SIZE)
      else if sint key mod int FLWCNTRL_HASH_SIZE = 0 then Some 0 else None)"

definition PSIDFlwCntrl_initHash :: "nat \<Rightarrow> flow \<Rightarrow> flow" where
  "PSIDFlwCntrl_initHash h s = fold (\<lambda>k. set_bucket h k []) [0..<FLWCNTRL_HASH_SIZE] s"

text \<open>Removing the entries of a bucket one by one.\<close>

primrec put_items :: "nat \<Rightarrow> nat \<Rightarrow> pitem list \<Rightarrow> flow \<Rightarrow> flow" where
  "put_items h k [] s = s"
| "put_items h k (i # is) s = put_items h k is (PSitems_putItem i (set_bucket h k is s))"

definition PSIDFlwCntrl_emptyHash :: "nat \<Rightarrow> flow \<Rightarrow> flow" where
  "PSIDFlwCntrl_emptyHash h s =
     fold (\<lambda>k s. put_items h k (bucket h k s) s) [0..<FLWCNTRL_HASH_SIZE] s"

definition PSIDFlwCntrl_addStop :: "nat \<Rightarrow> taskid \<Rightarrow> flow \<Rightarrow> (int \<times> flow) option" where
  "PSIDFlwCntrl_addStop h key s =
     (case hash_index key of
        None \<Rightarrow> None
      | Some k \<Rightarrow>
          if \<exists>i\<in>set (bucket h k s). tids (pool.more s) i = key then Some (0, s)
          else case PSitems_getItem s of
            (None, s1) \<Rightarrow> Some (-1, s1)
          | (Some i, s1) \<Rightarrow>
              let s2 = store_tid i key s1 in Some (1, set_bucket h k (bucket h k s2 @ [i]) s2))"

section \<open>Messages\<close>

text \<open>
  A message as this component handles it: the header and what follows it.  The bytes of a message
  are those of the structure in memory; the padding of the header is zero.
\<close>

record wmsg =
  w_type :: int16
  w_len :: nat
  w_sender :: taskid
  w_dest :: taskid
  w_body :: "byte list"

definition msg_bytes :: "wmsg \<Rightarrow> byte list" where
  "msg_bytes m = le_bytes 2 (unat (w_type m)) @ le_bytes 2 (w_len m) @ replicate 4 0
     @ le_bytes 8 (unat (w_sender m)) @ le_bytes 8 (unat (w_dest m)) @ w_body m"

definition PSP_CD_ACCOUNT :: int16 where "PSP_CD_ACCOUNT = 0x0030"
definition PSP_CD_SENDSTOP :: int16 where "PSP_CD_SENDSTOP = 0x0070"
definition PSP_CD_SENDCONT :: int16 where "PSP_CD_SENDCONT = 0x0071"
definition PSP_DD_SENDSTOP :: int16 where "PSP_DD_SENDSTOP = 0x0108"
definition PSP_DD_SENDCONT :: int16 where "PSP_DD_SENDCONT = 0x0109"
definition PSP_DD_SENDSTOPACK :: int16 where "PSP_DD_SENDSTOPACK = 0x010A"
definition PSP_DD_REGISTERPART :: int16 where "PSP_DD_REGISTERPART = 0x0122"

definition header_msg :: "int16 \<Rightarrow> taskid \<Rightarrow> taskid \<Rightarrow> wmsg" where
  "header_msg ty sender dest = \<lparr>w_type = ty, w_len = DDBufferMsgOffset, w_sender = sender, w_dest = dest, w_body = []\<rparr>"

text \<open>
  \<open>PSIDFlwCntrl_sendContMsgs\<close>: \<open>up\<close> is \<open>PSIDnodes_isUp\<close>.  The messages handed to \<open>sendMsg\<close> are part of
  the result.
\<close>

primrec send_conts ::
  "nodeid \<Rightarrow> (nodeid \<Rightarrow> bool) \<Rightarrow> nat \<Rightarrow> nat \<Rightarrow> taskid \<Rightarrow> pitem list \<Rightarrow> flow \<Rightarrow> wmsg list \<times> flow" where
  "send_conts myID up h k sender [] s = ([], s)"
| "send_conts myID up h k sender (i # is) s =
     (let t = tids (pool.more s) i;
          ms = (if PSC_getPID t \<noteq> 0 \<and> up (PSC_getID myID t) then [header_msg PSP_DD_SENDCONT sender t] else []);
          (ms', s') = send_conts myID up h k sender is (PSitems_putItem i (set_bucket h k is s))
      in (ms @ ms', s'))"

primrec send_cont_buckets ::
  "nodeid \<Rightarrow> (nodeid \<Rightarrow> bool) \<Rightarrow> nat \<Rightarrow> taskid \<Rightarrow> nat list \<Rightarrow> flow \<Rightarrow> wmsg list \<times> flow" where
  "send_cont_buckets myID up h sender [] s = ([], s)"
| "send_cont_buckets myID up h sender (k # ks) s =
     (let (ms, s1) = send_conts myID up h k sender (bucket h k s) s;
          (ms', s2) = send_cont_buckets myID up h sender ks s1
      in (ms @ ms', s2))"

definition PSIDFlwCntrl_sendContMsgs ::
  "nodeid \<Rightarrow> (nodeid \<Rightarrow> bool) \<Rightarrow> nat \<Rightarrow> taskid \<Rightarrow> flow \<Rightarrow> (nat \<times> wmsg list) \<times> flow" where
  "PSIDFlwCntrl_sendContMsgs myID up h sender s =
     (let (ms, s') = send_cont_buckets myID up h sender [0..<FLWCNTRL_HASH_SIZE] s in ((length ms, ms), s'))"

definition PSIDFlwCntrl_applicable :: "wmsg \<Rightarrow> bool" where
  "PSIDFlwCntrl_applicable m \<longleftrightarrow> \<not> (PSC_getPID (w_sender m) \<noteq> 0
     \<and> w_type m \<in> {PSP_CD_ACCOUNT, PSP_CD_SENDCONT, PSP_CD_SENDSTOP, PSP_DD_SENDCONT, PSP_DD_SENDSTOP,
         PSP_DD_SENDSTOPACK, PSP_DD_REGISTERPART})"

definition PSIDFlwCntrl_clearMem :: "flow \<Rightarrow> flow" where
  "PSIDFlwCntrl_clearMem s = PSitems_clearMem s"

text \<open>
  \<open>PSIDFlwCntrl_init\<close>: the pool of entries; 24 is the size of an entry.  Registering the handlers and
  the loop action is glue.
\<close>

definition PSIDFlwCntrl_init :: "flow \<Rightarrow> flow" where
  "PSIDFlwCntrl_init s = (if p_init s then s else PSitems_new 24 s)"

end
