(* ===== verification/Msgbuf.thy ===== *)
theory Msgbuf
  imports Flow
begin

text \<open>
  Buffers for messages that cannot be delivered at once (\<open>src/bin/daemon/psidmsgbuf.c\<close>) and the
  function that writes to a socket (\<open>src/lib/pscommon/pscio.c\<close>).  Buffers for small messages are the
  items of a pool, buffers for the others come from \<open>malloc\<close>; both are linked into the list of
  undelivered messages of a client, named by its file descriptor.  The state of an item, as the pool
  sees it, is the offset of the buffer.
\<close>

section \<open>Message buffers\<close>

definition MSGBUF_SMALLSIZE :: nat where "MSGBUF_SMALLSIZE = 64"

datatype mref = Small pitem | Big nat

record bufs =
  mb_offset :: "mref \<Rightarrow> nat"
  mb_size :: "mref \<Rightarrow> nat"
  mb_msg :: "mref \<Rightarrow> wmsg"
  mqueue :: "nat \<Rightarrow> mref list"
  nextBig :: nat
  usedBufs :: nat

type_synonym msgbufs = "bufs pool_scheme"

definition upd_bufs :: "(bufs \<Rightarrow> bufs) \<Rightarrow> msgbufs \<Rightarrow> msgbufs" where
  "upd_bufs f s = pool.more_update f s"

definition queue :: "nat \<Rightarrow> msgbufs \<Rightarrow> mref list" where
  "queue fd s = mqueue (pool.more s) fd"

definition set_offset :: "mref \<Rightarrow> nat \<Rightarrow> msgbufs \<Rightarrow> msgbufs" where
  "set_offset r off s =
     (let s1 = upd_bufs (mb_offset_update (\<lambda>f. f(r := off))) s
      in case r of Small i \<Rightarrow> s1\<lparr>ist := (ist s1)(i := of_nat off)\<rparr> | Big n \<Rightarrow> s1)"

definition set_queue :: "nat \<Rightarrow> mref list \<Rightarrow> msgbufs \<Rightarrow> msgbufs" where
  "set_queue fd l = upd_bufs (mqueue_update (\<lambda>f. f(fd := l)))"

definition relocSmallMsgBuf :: "pitem \<Rightarrow> msgbufs \<Rightarrow> bool \<times> msgbufs" where
  "relocSmallMsgBuf orig s =
     (case PSitems_getItem s of
        (None, s1) \<Rightarrow> (False, s1)
      | (Some repl, s1) \<Rightarrow>
          let m = pool.more s1;
              s2 = set_offset (Small repl) (mb_offset m (Small orig)) s1;
              s3 = upd_bufs (mb_size_update (\<lambda>f. f(Small repl := mb_size m (Small orig)))) s2;
              s4 = upd_bufs (mb_msg_update (\<lambda>f. f(Small repl := mb_msg m (Small orig)))) s3
          in (True, upd_bufs (mqueue_update (\<lambda>f fd. map (\<lambda>x. if x = Small orig then Small repl else x) (f fd))) s4))"

definition PSIDMsgbuf_gc :: "msgbufs \<Rightarrow> msgbufs" where
  "PSIDMsgbuf_gc s = (if \<not> PSitems_gcRequired s then s else PSitems_gc relocSmallMsgBuf s)"

definition PSIDMsgbuf_get :: "nat \<Rightarrow> msgbufs \<Rightarrow> mref option \<times> msgbufs" where
  "PSIDMsgbuf_get len s =
     (let (mp, s1) =
        (if len \<le> MSGBUF_SMALLSIZE
         then (case PSitems_getItem s of (r, s') \<Rightarrow> (map_option Small r, s'))
         else (case pmem s of
             False # bs \<Rightarrow> (None, s\<lparr>pmem := bs\<rparr>)
           | bs \<Rightarrow> (Some (Big (nextBig (pool.more s))), upd_bufs (nextBig_update Suc) (s\<lparr>pmem := tl bs\<rparr>))))
      in case mp of
           None \<Rightarrow> (None, s1)
         | Some r \<Rightarrow> (Some r, upd_bufs (mb_size_update (\<lambda>f. f(r := len)))
                              (set_offset r 0 (upd_bufs (usedBufs_update Suc) s1))))"

text \<open>A buffer of small size is an item of the pool, the others go back to \<open>free\<close>.\<close>

definition PSIDMsgbuf_put :: "mref \<Rightarrow> msgbufs \<Rightarrow> msgbufs" where
  "PSIDMsgbuf_put r s =
     upd_bufs (usedBufs_update (\<lambda>n. n - 1))
       (if mb_size (pool.more s) r \<le> MSGBUF_SMALLSIZE
        then (case r of Small i \<Rightarrow> PSitems_putItem i s | Big n \<Rightarrow> s) else s)"

definition PSIDMsgbuf_init :: "msgbufs \<Rightarrow> msgbufs" where
  "PSIDMsgbuf_init s = (if p_init s then s else PSitems_new 88 s)"

definition PSIDMsgbuf_clearMem :: "msgbufs \<Rightarrow> msgbufs" where
  "PSIDMsgbuf_clearMem s = upd_bufs (usedBufs_update (\<lambda>_. 0)) (PSitems_clearMem s)"

section \<open>Writing to a socket\<close>

text \<open>
  The results of \<open>write\<close> come from a script; an empty script means that everything is written.  The
  result is what the function returns, the number of bytes sent and the rest of the script; the bytes
  that went out are the first ones of the buffer.
\<close>

datatype wres = Wrote nat | WErr errno

definition PSCIO_MAX_RETRY :: nat where "PSCIO_MAX_RETRY = 20"

fun send_loop :: "bool \<Rightarrow> bool \<Rightarrow> nat \<Rightarrow> nat \<Rightarrow> nat \<Rightarrow> wres list \<Rightarrow> nat outcome \<times> nat \<times> wres list" where
  "send_loop pedantic indefinite toSend retries sent ws =
     (if \<not> (sent < toSend \<and> (indefinite \<or> retries < PSCIO_MAX_RETRY))
      then (if sent < toSend then Fail EAGAIN else Ret sent, sent, ws)
      else case ws of
        [] \<Rightarrow> (Ret (if \<not> pedantic \<and> \<not> indefinite then toSend - sent else toSend), toSend, [])
      | WErr e # ws' \<Rightarrow>
          if e = EINTR \<or> e = EAGAIN \<and> pedantic then send_loop pedantic indefinite toSend (retries + 1) sent ws'
          else (Fail e, sent, ws')
      | Wrote n # ws' \<Rightarrow>
          let k = min n (toSend - sent) in
          if k = 0 then (Ret 0, sent, ws')
          else if \<not> pedantic \<and> \<not> indefinite then (Ret k, sent + k, ws')
          else send_loop pedantic indefinite toSend (retries + 1) (sent + k) ws')"

definition PSCio_sendFunc :: "bool \<Rightarrow> bool \<Rightarrow> nat \<Rightarrow> wres list \<Rightarrow> nat outcome \<times> nat \<times> wres list" where
  "PSCio_sendFunc pedantic indefinite toSend ws = send_loop pedantic indefinite toSend 0 0 ws"

definition PSCio_sendSProg :: "nat \<Rightarrow> wres list \<Rightarrow> nat outcome \<times> nat \<times> wres list" where
  "PSCio_sendSProg = PSCio_sendFunc False False"

declare send_loop.simps [simp del]

text \<open>
  Without the pedantic flag and the one for endless attempts, what is returned is what was sent, or
  an error after nothing was sent.
\<close>

lemma sendSProg_result:
  assumes "PSCio_sendSProg n ws = (r, sent, ws')"
  shows "sent \<le> n \<and> (\<forall>k. r = Ret k \<longrightarrow> k = sent) \<and> (\<forall>e. r = Fail e \<longrightarrow> sent = 0) \<and> r \<noteq> Exit
    \<and> set ws' \<subseteq> set ws \<and> (\<forall>e. r = Fail e \<longrightarrow> e = EAGAIN \<or> WErr e \<in> set ws)"
proof -
  have "send_loop False False n retries 0 ws = (r, sent, ws') \<Longrightarrow> ?thesis" for retries
  proof (induction ws arbitrary: retries)
    case Nil
    then show ?case by (auto simp: send_loop.simps [of False False n retries 0] split: if_splits)
  next
    case (Cons w ws)
    show ?case
    proof (cases "w = WErr EINTR \<and> 0 < n \<and> retries < PSCIO_MAX_RETRY")
      case True
      then have "send_loop False False n (retries + 1) 0 ws = (r, sent, ws')"
        using Cons.prems by (simp add: send_loop.simps [of False False n retries 0])
      from Cons.IH [OF this] show ?thesis by auto
    next
      case False
      then show ?thesis using Cons.prems
        by (cases w) (auto simp: send_loop.simps [of False False n retries 0] Let_def split: if_splits)
    qed
  qed
  then show ?thesis using assms unfolding PSCio_sendSProg_def PSCio_sendFunc_def by blast
qed

end
