(* ===== verification/Flow_Spec.thy ===== *)
theory Flow_Spec
  imports Flow
begin

text \<open>
  What the tables of stopped tasks promise.  \<open>flow_links\<close> ties the tables to the items in use; with it
  the relocation of an entry is shown to meet the interface of pool users, and every table to be a
  set of task identifiers.
\<close>

section \<open>The entries of the tables\<close>

definition flow_links :: "stops \<Rightarrow> pitem set \<Rightarrow> bool" where
  "flow_links m B \<longleftrightarrow> (\<forall>h k. distinct (map (tids m) (tables m h k)))
     \<and> (\<forall>h k. \<forall>i\<in>set (tables m h k). i \<in> B \<and> k < FLWCNTRL_HASH_SIZE \<and> hash_index (tids m i) = Some k
            \<and> busy_state (tid_state (tids m i)) \<and> (\<forall>h' k'. i \<in> set (tables m h' k') \<longrightarrow> h' = h \<and> k' = k))
     \<and> (\<forall>i\<in>B. \<exists>h k. i \<in> set (tables m h k))"

definition flow_view :: "stops \<Rightarrow> nat \<Rightarrow> nat \<Rightarrow> taskid list" where
  "flow_view m h k = map (tids m) (tables m h k)"

definition flow_ok :: "flow \<Rightarrow> pitem set \<Rightarrow> bool" where
  "flow_ok s B \<longleftrightarrow> pool_inv s B \<and> flow_links (pool.more s) B"

text \<open>The abstract state: for each client the set of tasks that were stopped.\<close>

definition stopped :: "flow \<Rightarrow> nat \<Rightarrow> taskid set" where
  "stopped s h = (\<Union>k. set (flow_view (pool.more s) h k))"

text \<open>Identifiers a table can hold: the index exists, and the PID is not one of the item states.\<close>

definition valid_key :: "taskid \<Rightarrow> bool" where
  "valid_key t \<longleftrightarrow> hash_index t \<noteq> None \<and> busy_state (tid_state t)"

lemma hash_index_bound: "hash_index t = Some k \<Longrightarrow> k < FLWCNTRL_HASH_SIZE"
  by (auto simp: hash_index_def FLWCNTRL_HASH_SIZE_def split: if_splits)

lemma store_tid_simps [simp]:
  "ist (store_tid i t s) = (ist s)(i := tid_state t)" "tids (pool.more (store_tid i t s)) = (tids (pool.more s))(i := t)"
  "tables (pool.more (store_tid i t s)) = tables (pool.more s)" "p_init (store_tid i t s) = p_init s"
  by (simp_all add: store_tid_def)

lemma getItem_first:
  assumes "p_init s" "idleItems s = j # js" "ist s j = PSITEM_IDLE"
  shows "PSitems_getItem s = (Some j, s\<lparr>numGet := numGet s + 1, idleItems := js, used := used s + 1\<rparr>)"
  using assms by (simp add: PSitems_getItem_def)

lemma relocStopTID_law:
  fixes s :: flow
  assumes init: "p_init s" and links: "flow_links (pool.more s) B" and i: "i \<in> B"
    and j: "idleItems s = j # js" "j \<notin> B" "ist s j = PSITEM_IDLE"
  shows "\<exists>s' x. relocStopTID i s = (True, s') \<and> busy_state x \<and> pool.truncate s' = pool.truncate (took_item j js x s)
      \<and> flow_links (pool.more s') (insert j (B - {i})) \<and> flow_view (pool.more s') = flow_view (pool.more s)"
proof -
  let ?m = "pool.more s"
  let ?r = "\<lambda>x. if x = i then j else x"
  let ?s1 = "s\<lparr>numGet := numGet s + 1, idleItems := js, used := used s + 1\<rparr>"
  let ?s2 = "store_tid j (tids ?m i) ?s1"
  let ?s' = "pool.more_update (tables_update (\<lambda>f h k. map ?r (f h k))) ?s2"
  have eq: "relocStopTID i s = (True, ?s')"
    by (simp add: relocStopTID_def getItem_first [OF init j(1,3)])
  have T: "tids (pool.more ?s') = (tids ?m)(j := tids ?m i)" "tables (pool.more ?s') = (\<lambda>h k. map ?r (tables ?m h k))"
    by (simp_all add: store_tid_def)
  have nj: "j \<notin> set (tables ?m h k)" for h k using links j(2) unfolding flow_links_def by blast
  have ne: "j \<noteq> i" using i j(2) by auto
  have r: "tids (pool.more ?s') (?r x) = tids ?m x" if "x \<in> set (tables ?m h k)" for x h k
    using that nj ne by (auto simp: T)
  have view: "flow_view (pool.more ?s') = flow_view ?m"
    using nj by (auto simp: flow_view_def T fun_eq_iff)
  have mem: "y \<in> set (tables (pool.more ?s') h k) \<longleftrightarrow>
      (if y = j then i \<in> set (tables ?m h k) else y \<noteq> i \<and> y \<in> set (tables ?m h k))" for y h k
    using nj ne by (auto simp: T image_iff simp del: split_paired_Ex split_paired_All)
  have t': "tids (pool.more ?s') y = (if y = j then tids ?m i else tids ?m y)" for y by (simp add: T)
  have "flow_links (pool.more ?s') (insert j (B - {i}))"
    unfolding flow_links_def
  proof (intro conjI allI ballI)
    fix h k
    show "distinct (map (tids (pool.more ?s')) (tables (pool.more ?s') h k))"
      using fun_cong [OF fun_cong [OF view]] links unfolding flow_view_def flow_links_def by metis
  next
    fix h k y assume y: "y \<in> set (tables (pool.more ?s') h k)"
    let ?z = "if y = j then i else y"
    have z: "?z \<in> set (tables ?m h k)" using y unfolding mem by (auto split: if_splits)
    have yi: "y \<noteq> i" using y ne unfolding mem by (auto split: if_splits)
    from z have L: "?z \<in> B" "k < FLWCNTRL_HASH_SIZE" "hash_index (tids ?m ?z) = Some k" "busy_state (tid_state (tids ?m ?z))"
      "\<forall>h' k'. ?z \<in> set (tables ?m h' k') \<longrightarrow> h' = h \<and> k' = k" using links unfolding flow_links_def by blast+
    show "y \<in> insert j (B - {i})" "k < FLWCNTRL_HASH_SIZE" "hash_index (tids (pool.more ?s') y) = Some k"
      "busy_state (tid_state (tids (pool.more ?s') y))"
      using L(1-4) ne yi unfolding t' by (simp_all split: if_splits)
    fix h' k'
    show "y \<in> set (tables (pool.more ?s') h' k') \<longrightarrow> h' = h \<and> k' = k"
      using L(5) unfolding mem by (simp split: if_splits; blast)
  next
    fix y assume "y \<in> insert j (B - {i})"
    then have "(if y = j then i else y) \<in> B" using i by auto
    then obtain h k where "(if y = j then i else y) \<in> set (tables ?m h k)" using links unfolding flow_links_def by blast
    then show "\<exists>h k. y \<in> set (tables (pool.more ?s') h k)"
      using \<open>y \<in> insert j (B - {i})\<close> unfolding mem by (auto split: if_splits)
  qed
  moreover have "busy_state (tid_state (tids ?m i))" using links i unfolding flow_links_def by blast
  moreover have "pool.truncate ?s' = pool.truncate (took_item j js (tid_state (tids ?m i)) s)"
    by (simp add: pool.truncate_def took_item_def store_tid_def)
  ultimately show ?thesis using eq view by blast
qed

interpretation stop_pool: item_user relocStopTID flow_links flow_view
  by unfold_locales (rule relocStopTID_law)

section \<open>Operations\<close>

lemma flow_gc:
  assumes "flow_ok s B"
  shows "\<exists>B'. let s' = PSIDFlwCntrl_gc s in flow_ok s' B' \<and> flow_view (pool.more s') = flow_view (pool.more s)
     \<and> card B' = card B \<and> pmem s' = pmem s \<and> \<not> PSitems_gcRequired s'"
proof -
  have "pool_inv s B" "flow_links (pool.more s) B" using assms by (simp_all add: flow_ok_def)
  from stop_pool.PSitems_gc_law [OF this] show ?thesis
    by (auto simp: flow_ok_def gc_keeps_def PSIDFlwCntrl_gc_def Let_def)
qed

text \<open>Taking the first entry off a bucket and giving it back.\<close>

lemma drop_first:
  assumes ok: "flow_ok s B" and b: "bucket h k s = i # is"
  defines "s' \<equiv> PSitems_putItem i (set_bucket h k is s)"
  shows "flow_ok s' (B - {i})" "bucket h k s' = is" "tids (pool.more s') = tids (pool.more s)"
    "tables (pool.more s') = (tables (pool.more s))(h := (tables (pool.more s) h)(k := is))"
    "flow_view (pool.more s') = (flow_view (pool.more s))(h := (flow_view (pool.more s) h)(k := map (tids (pool.more s)) is))"
proof -
  let ?m = "pool.more s"
  have inv: "pool_inv s B" "flow_links ?m B" using ok by (simp_all add: flow_ok_def)
  have i: "i \<in> set (tables ?m h k)" "tables ?m h k = i # is" using b by (simp_all add: bucket_def)
  have iB: "i \<in> B" using inv(2) i(1) unfolding flow_links_def by blast
  have inv': "pool_inv (set_bucket h k is s) B" using inv(1) by (simp add: pool_inv_def pool_items_def set_bucket_def)
  have T: "tables (pool.more s') = (tables ?m)(h := (tables ?m h)(k := is))"
      and t: "tids (pool.more s') = tids ?m"
    using PSitems_putItem_inv [OF inv' iB] by (simp_all add: s'_def set_bucket_def)
  then show "tables (pool.more s') = (tables ?m)(h := (tables ?m h)(k := is))" "tids (pool.more s') = tids ?m" by simp_all
  show "bucket h k s' = is" by (simp add: bucket_def T)
  show "flow_view (pool.more s') = (flow_view ?m)(h := (flow_view ?m h)(k := map (tids ?m) is))"
    by (simp add: flow_view_def T t fun_eq_iff)
  have D: "\<forall>h k. distinct (map (tids ?m) (tables ?m h k))"
    and L: "\<And>h k y. y \<in> set (tables ?m h k) \<Longrightarrow> y \<in> B \<and> k < FLWCNTRL_HASH_SIZE \<and> hash_index (tids ?m y) = Some k
        \<and> busy_state (tid_state (tids ?m y)) \<and> (\<forall>h' k'. y \<in> set (tables ?m h' k') \<longrightarrow> h' = h \<and> k' = k)"
    and E: "\<And>y. y \<in> B \<Longrightarrow> \<exists>h k. y \<in> set (tables ?m h k)"
    using inv(2) unfolding flow_links_def by blast+
  have D': "distinct (map (tids ?m) (i # is))" using D i(2) by metis
  have sub: "y \<in> set (tables ?m h' k') \<and> y \<noteq> i" if "y \<in> set (tables (pool.more s') h' k')" for y h' k'
    using that L [OF i(1)] D' i(2) by (auto simp: T split: if_splits)
  have sup: "y \<in> set (tables (pool.more s') h' k')" if "y \<in> set (tables ?m h' k')" "y \<noteq> i" for y h' k'
    using that i(2) by (auto simp: T)
  have "flow_links (pool.more s') (B - {i})"
    unfolding flow_links_def t
  proof (intro conjI allI ballI)
    fix h' k' show "distinct (map (tids ?m) (tables (pool.more s') h' k'))" using D D' by (simp add: T)
  next
    fix h' k' y assume "y \<in> set (tables (pool.more s') h' k')"
    note y = sub [OF this] L [OF conjunct1 [OF sub [OF this]]]
    then show "y \<in> B - {i}" "k' < FLWCNTRL_HASH_SIZE" "hash_index (tids ?m y) = Some k'"
      "busy_state (tid_state (tids ?m y))" by auto
    fix h'' k''
    show "y \<in> set (tables (pool.more s') h'' k'') \<longrightarrow> h'' = h' \<and> k'' = k'" using y sub by blast+
  next
    fix y assume "y \<in> B - {i}"
    then show "\<exists>h k. y \<in> set (tables (pool.more s') h k)" using E sup by blast
  qed
  then show "flow_ok s' (B - {i})" using PSitems_putItem_inv [OF inv' iB] by (simp add: flow_ok_def s'_def)
qed

definition cont_msg :: "nodeid \<Rightarrow> (nodeid \<Rightarrow> bool) \<Rightarrow> taskid \<Rightarrow> taskid \<Rightarrow> wmsg list" where
  "cont_msg myID up sender t =
     (if PSC_getPID t \<noteq> 0 \<and> up (PSC_getID myID t) then [header_msg PSP_DD_SENDCONT sender t] else [])"

lemma upd2_upd2: "(F(h := (F h)(k := a)))(h := ((F(h := (F h)(k := a))) h)(k := b)) = F(h := (F h)(k := b))"
  by (simp add: fun_eq_iff)

lemma put_items_spec:
  assumes "flow_ok s B" "bucket h k s = is"
  shows "\<exists>B'. flow_ok (put_items h k is s) B'
    \<and> flow_view (pool.more (put_items h k is s)) = (flow_view (pool.more s))(h := (flow_view (pool.more s) h)(k := []))"
  using assms
proof (induction "is" arbitrary: s B)
  case Nil
  then show ?case by (auto simp: bucket_def flow_view_def fun_eq_iff)
next
  case (Cons i "is")
  note d = drop_first [OF Cons.prems]
  show ?case using Cons.IH [OF d(1,2)] unfolding d(5) upd2_upd2 put_items.simps .
qed

lemma send_conts_spec:
  assumes "flow_ok s B" "bucket h k s = is" "send_conts myID up h k sender is s = (ms, s')"
  shows "\<exists>B'. flow_ok s' B' \<and> ms = concat (map (cont_msg myID up sender) (flow_view (pool.more s) h k))
    \<and> flow_view (pool.more s') = (flow_view (pool.more s))(h := (flow_view (pool.more s) h)(k := []))"
  using assms
proof (induction "is" arbitrary: s B ms s')
  case Nil
  then show ?case by (auto simp: bucket_def flow_view_def fun_eq_iff)
next
  case (Cons i "is")
  let ?s = "PSitems_putItem i (set_bucket h k is s)"
  note d = drop_first [OF Cons.prems(1,2)]
  obtain ms1 s1 where 1: "send_conts myID up h k sender is ?s = (ms1, s1)" by (rule prod.exhaust)
  have r: "ms = cont_msg myID up sender (tids (pool.more s) i) @ ms1" "s' = s1"
    using Cons.prems(3) 1 by (auto simp: cont_msg_def Let_def split: if_splits)
  have v: "flow_view (pool.more s) h k = tids (pool.more s) i # map (tids (pool.more s)) is"
    using Cons.prems(2) by (simp add: flow_view_def bucket_def)
  have m: "map (tids (pool.more ?s)) is = map (tids (pool.more s)) is" by (simp add: d(3))
  have c: "flow_view (pool.more ?s) h k = map (tids (pool.more s)) is" by (simp add: d(5))
  from Cons.IH [OF d(1,2) 1] obtain B' where "flow_ok s1 B'" "ms1 = concat (map (cont_msg myID up sender) (map (tids (pool.more s)) is))"
    "flow_view (pool.more s1) = (flow_view (pool.more s))(h := (flow_view (pool.more s) h)(k := []))"
    unfolding c unfolding d(5) upd2_upd2 by blast
  moreover from this(2) have "ms = concat (map (cont_msg myID up sender) (flow_view (pool.more s) h k))"
    by (simp add: r(1) v)
  ultimately show ?case unfolding r(2) by blast
qed

lemma send_cont_buckets_spec:
  assumes "flow_ok s B" "send_cont_buckets myID up h sender ks s = (ms, s')" "distinct ks"
  shows "\<exists>B'. flow_ok s' B' \<and> ms = concat (map (\<lambda>k. concat (map (cont_msg myID up sender) (flow_view (pool.more s) h k))) ks)
    \<and> flow_view (pool.more s') = (flow_view (pool.more s))(h := (\<lambda>k. if k \<in> set ks then [] else flow_view (pool.more s) h k))"
  using assms
proof (induction ks arbitrary: s B ms s')
  case Nil
  then show ?case by (auto simp: fun_eq_iff)
next
  case (Cons k ks)
  obtain ms1 s1 where 1: "send_conts myID up h k sender (bucket h k s) s = (ms1, s1)" by (rule prod.exhaust)
  obtain ms2 s2 where 2: "send_cont_buckets myID up h sender ks s1 = (ms2, s2)" by (rule prod.exhaust)
  have r: "ms = ms1 @ ms2" "s' = s2" using Cons.prems(2) 1 2 by simp_all
  from send_conts_spec [OF Cons.prems(1) refl 1] obtain B1 where B1: "flow_ok s1 B1"
    "ms1 = concat (map (cont_msg myID up sender) (flow_view (pool.more s) h k))"
    "flow_view (pool.more s1) = (flow_view (pool.more s))(h := (flow_view (pool.more s) h)(k := []))" by blast
  have ks: "distinct ks" "k \<notin> set ks" using Cons.prems(3) by simp_all
  from Cons.IH [OF B1(1) 2 ks(1)] obtain B2 where B2: "flow_ok s2 B2"
    "ms2 = concat (map (\<lambda>k. concat (map (cont_msg myID up sender) (flow_view (pool.more s1) h k))) ks)"
    "flow_view (pool.more s2) = (flow_view (pool.more s1))(h := (\<lambda>k. if k \<in> set ks then [] else flow_view (pool.more s1) h k))"
    by blast
  have "map (\<lambda>k. concat (map (cont_msg myID up sender) (flow_view (pool.more s1) h k))) ks
      = map (\<lambda>k. concat (map (cont_msg myID up sender) (flow_view (pool.more s) h k))) ks"
    using ks(2) by (intro map_cong refl arg_cong [of _ _ concat]) (auto simp: B1(3))
  then have "ms = concat (map (\<lambda>k. concat (map (cont_msg myID up sender) (flow_view (pool.more s) h k))) (k # ks))"
    by (simp only: r B1(2) B2(2) list.map concat.simps)
  moreover have "flow_view (pool.more s2)
      = (flow_view (pool.more s))(h := (\<lambda>x. if x \<in> set (k # ks) then [] else flow_view (pool.more s) h x))"
    unfolding B2(3) B1(3) by (simp add: fun_eq_iff)
  ultimately show ?case using B2(1) unfolding r by blast
qed

lemma empty_buckets_spec:
  assumes "flow_ok s B"
  shows "\<exists>B'. let s' = fold (\<lambda>k s. put_items h k (bucket h k s) s) ks s in flow_ok s' B'
    \<and> flow_view (pool.more s') = (flow_view (pool.more s))(h := (\<lambda>k. if k \<in> set ks then [] else flow_view (pool.more s) h k))"
  using assms
proof (induction ks arbitrary: s B)
  case Nil
  then show ?case by (auto simp: fun_eq_iff)
next
  case (Cons k ks)
  from put_items_spec [OF Cons.prems refl] obtain B1 where B1: "flow_ok (put_items h k (bucket h k s) s) B1"
    "flow_view (pool.more (put_items h k (bucket h k s) s)) = (flow_view (pool.more s))(h := (flow_view (pool.more s) h)(k := []))" by blast
  have "F(h := (\<lambda>x. if x \<in> set ks then [] else (F(h := (F h)(k := []))) h x)) = F(h := (\<lambda>x. if x \<in> set (k # ks) then [] else F h x))"
    for F :: "nat \<Rightarrow> nat \<Rightarrow> taskid list" by (simp add: fun_eq_iff)
  then show ?case using Cons.IH [OF B1(1)] unfolding B1(2) Let_def by simp
qed

lemma stopped_upd:
  assumes "flow_view (pool.more s') = (flow_view (pool.more s))(h := g)"
  shows "stopped s' = (stopped s)(h := (\<Union>k. set (g k)))"
  using assms by (auto simp: stopped_def fun_eq_iff)

lemma bucket_outside:
  assumes "flow_ok s B" "k \<ge> FLWCNTRL_HASH_SIZE"
  shows "flow_view (pool.more s) h k = []"
proof -
  have "\<forall>i\<in>set (tables (pool.more s) h k). k < FLWCNTRL_HASH_SIZE" using assms(1) unfolding flow_ok_def flow_links_def by blast
  then show ?thesis using assms(2) by (cases "tables (pool.more s) h k") (auto simp: flow_view_def)
qed

lemma view_index: "flow_ok s B \<Longrightarrow> t \<in> set (flow_view (pool.more s) h k) \<Longrightarrow> hash_index t = Some k"
  unfolding flow_ok_def flow_links_def flow_view_def by auto

lemma distinct_concat_map:
  assumes "distinct ks" "\<forall>k\<in>set ks. distinct (f k)" "\<forall>k\<in>set ks. \<forall>l\<in>set ks. k \<noteq> l \<longrightarrow> set (f k) \<inter> set (f l) = {}"
  shows "distinct (concat (map f ks))"
  using assms by (induction ks) auto

lemma concat_map_concat: "concat (map (\<lambda>k. concat (map g (f k))) ks) = concat (map g (concat (map f ks)))"
  by (induction ks) auto

lemma dests_conts: "map w_dest (concat (map (cont_msg myID up sender) ts))
     = filter (\<lambda>t. PSC_getPID t \<noteq> 0 \<and> up (PSC_getID myID t)) ts"
  by (induction ts) (auto simp: cont_msg_def header_msg_def)

lemma kind_conts: "m \<in> set (concat (map (cont_msg myID up sender) ts)) \<Longrightarrow> m = header_msg PSP_DD_SENDCONT sender (w_dest m)"
  by (induction ts) (auto simp: cont_msg_def header_msg_def split: if_splits)

text \<open>The three operations as operations on the sets of stopped tasks.\<close>

lemma emptyHash_spec:
  assumes "flow_ok s B"
  shows "\<exists>B'. flow_ok (PSIDFlwCntrl_emptyHash h s) B' \<and> stopped (PSIDFlwCntrl_emptyHash h s) = (stopped s)(h := {})"
proof -
  from empty_buckets_spec [OF assms, of h "[0..<FLWCNTRL_HASH_SIZE]"] obtain B' where
    B': "flow_ok (PSIDFlwCntrl_emptyHash h s) B'"
      "flow_view (pool.more (PSIDFlwCntrl_emptyHash h s)) = (flow_view (pool.more s))(h := (\<lambda>k. if k \<in> set [0..<FLWCNTRL_HASH_SIZE] then [] else flow_view (pool.more s) h k))"
    by (auto simp: Let_def PSIDFlwCntrl_emptyHash_def)
  have "set (if k \<in> set [0..<FLWCNTRL_HASH_SIZE] then [] else flow_view (pool.more s) h k) = {}" for k
    using bucket_outside [OF assms, of k h] by simp
  then show ?thesis using B'(1) stopped_upd [OF B'(2)] by auto
qed

lemma sendContMsgs_spec:
  assumes "flow_ok s B" "PSIDFlwCntrl_sendContMsgs myID up h sender s = ((n, ms), s')"
  shows "\<exists>B'. flow_ok s' B' \<and> stopped s' = (stopped s)(h := {}) \<and> n = length ms \<and> distinct (map w_dest ms)
     \<and> set (map w_dest ms) = {t \<in> stopped s h. PSC_getPID t \<noteq> 0 \<and> up (PSC_getID myID t)}
     \<and> (\<forall>m\<in>set ms. m = header_msg PSP_DD_SENDCONT sender (w_dest m))"
proof -
  let ?ks = "[0..<FLWCNTRL_HASH_SIZE]"
  let ?v = "flow_view (pool.more s) h"
  obtain ms0 s0 where 0: "send_cont_buckets myID up h sender ?ks s = (ms0, s0)" by (rule prod.exhaust)
  then have r: "ms = ms0" "s' = s0" "n = length ms0" using assms(2) by (auto simp: PSIDFlwCntrl_sendContMsgs_def)
  from send_cont_buckets_spec [OF assms(1) 0] obtain B' where B': "flow_ok s0 B'"
    "ms0 = concat (map (cont_msg myID up sender) (concat (map ?v ?ks)))"
    "flow_view (pool.more s0) = (flow_view (pool.more s))(h := (\<lambda>k. if k \<in> set ?ks then [] else ?v k))"
    by (auto simp: concat_map_concat)
  have "set (if k \<in> set ?ks then [] else ?v k) = {}" for k
    using bucket_outside [OF assms(1), of k h] by simp
  then have st: "stopped s0 = (stopped s)(h := {})" using stopped_upd [OF B'(3)] by auto
  have "distinct (?v k)" for k using assms(1) unfolding flow_ok_def flow_links_def flow_view_def by blast
  moreover have "k \<noteq> l \<Longrightarrow> set (?v k) \<inter> set (?v l) = {}" for k l
    using view_index [OF assms(1), of _ h k] view_index [OF assms(1), of _ h l] by (metis disjoint_iff option.inject)
  ultimately have d: "distinct (concat (map ?v ?ks))" by (intro distinct_concat_map) auto
  have "set (concat (map ?v ?ks)) = stopped s h"
  proof -
    have "t \<in> set (?v k) \<Longrightarrow> k < FLWCNTRL_HASH_SIZE" for t k
      using hash_index_bound view_index [OF assms(1)] by blast
    then show ?thesis by (fastforce simp: stopped_def)
  qed
  then show ?thesis using B'(1,2) st d kind_conts by (auto simp: r dests_conts simp del: set_map)
qed

lemma add_links:
  assumes links: "flow_links m B" and j: "j \<notin> B" and key: "hash_index key = Some k" "busy_state (tid_state key)"
    and new: "key \<notin> tids m ` set (tables m h k)"
    and m': "tids m' = (tids m)(j := key)" "tables m' = (tables m)(h := (tables m h)(k := tables m h k @ [j]))"
  shows "flow_links m' (insert j B)" "flow_view m' = (flow_view m)(h := (flow_view m h)(k := flow_view m h k @ [key]))"
proof -
  have nj: "j \<notin> set (tables m h k)" for h k using links j unfolding flow_links_def by blast
  have D: "\<forall>h k. distinct (map (tids m) (tables m h k))"
    and L: "\<And>h k y. y \<in> set (tables m h k) \<Longrightarrow> y \<in> B \<and> k < FLWCNTRL_HASH_SIZE \<and> hash_index (tids m y) = Some k
        \<and> busy_state (tid_state (tids m y))"
    and U: "\<And>h k y h' k'. y \<in> set (tables m h k) \<Longrightarrow> y \<in> set (tables m h' k') \<Longrightarrow> h' = h \<and> k' = k"
    and E: "\<And>y. y \<in> B \<Longrightarrow> \<exists>h k. y \<in> set (tables m h k)"
    using links unfolding flow_links_def by blast+
  have old: "map (tids m') (tables m h' k') = flow_view m h' k'" for h' k'
    using nj by (auto simp: flow_view_def m'(1))
  show view: "flow_view m' = (flow_view m)(h := (flow_view m h)(k := flow_view m h k @ [key]))"
    using old by (auto simp: fun_eq_iff flow_view_def m')
  have mem: "y \<in> set (tables m' h' k') \<longleftrightarrow> (if y = j then h' = h \<and> k' = k else y \<in> set (tables m h' k'))" for y h' k'
    using nj by (auto simp: m'(2))
  show "flow_links m' (insert j B)"
    unfolding flow_links_def
  proof (intro conjI allI ballI)
    fix h' k'
    have "distinct (flow_view m' h' k')" using D new unfolding view by (auto simp: flow_view_def)
    then show "distinct (map (tids m') (tables m' h' k'))" by (simp add: flow_view_def)
  next
    fix h' k' y assume "y \<in> set (tables m' h' k')"
    then have y: "if y = j then h' = h \<and> k' = k else y \<in> set (tables m h' k')" unfolding mem .
    note Ly = L [of y h' k']
    show "y \<in> insert j B" "k' < FLWCNTRL_HASH_SIZE" "hash_index (tids m' y) = Some k'" "busy_state (tid_state (tids m' y))"
      using y Ly key hash_index_bound [OF key(1)] by (cases "y = j"; simp add: m'(1))+
    fix h'' k''
    show "y \<in> set (tables m' h'' k'') \<longrightarrow> h'' = h' \<and> k'' = k'"
      using y U [of y h' k' h'' k''] unfolding mem by (cases "y = j") simp_all
  next
    fix y assume "y \<in> insert j B"
    then show "\<exists>h k. y \<in> set (tables m' h k)" using E [of y] unfolding mem by (cases "y = j") auto
  qed
qed

lemma addStop_spec:
  assumes ok: "flow_ok s B" and key: "valid_key key"
  shows "\<exists>r s' B'. PSIDFlwCntrl_addStop h key s = Some (r, s') \<and> flow_ok s' B'
     \<and> (r = 0 \<and> key \<in> stopped s h \<and> s' = s
        \<or> r = -1 \<and> key \<notin> stopped s h \<and> stopped s' = stopped s
        \<or> r = 1 \<and> key \<notin> stopped s h \<and> stopped s' = (stopped s)(h := insert key (stopped s h)))"
proof -
  obtain k where k: "hash_index key = Some k" "busy_state (tid_state key)" using key by (auto simp: valid_key_def)
  let ?m = "pool.more s"
  have inv: "pool_inv s B" "flow_links ?m B" using ok by (simp_all add: flow_ok_def)
  have in_k: "key \<in> stopped s h \<longleftrightarrow> key \<in> tids ?m ` set (tables ?m h k)"
    using view_index [OF ok, of key h] k(1) by (auto simp: stopped_def flow_view_def)
  show ?thesis
  proof (cases "key \<in> stopped s h")
    case True
    then have "PSIDFlwCntrl_addStop h key s = Some (0, s)"
      using k(1) in_k by (auto simp: PSIDFlwCntrl_addStop_def bucket_def)
    then show ?thesis using ok True by blast
  next
    case False
    obtain r1 s1 where g: "PSitems_getItem s = (r1, s1)" by (rule prod.exhaust)
    note gi = PSitems_getItem_inv [OF inv(1) g]
    have nin: "\<not> (\<exists>i\<in>set (bucket h k s). tids ?m i = key)" using False in_k by (auto simp: bucket_def)
    show ?thesis
    proof (cases r1)
      case None
      have "PSIDFlwCntrl_addStop h key s = Some (-1, s1)" using k(1) nin g None by (simp add: PSIDFlwCntrl_addStop_def)
      moreover have "flow_ok s1 B" "stopped s1 = stopped s" using gi None inv(2) by (auto simp: flow_ok_def stopped_def)
      ultimately show ?thesis using False by blast
    next
      case (Some j)
      let ?s2 = "store_tid j key s1"
      let ?s3 = "set_bucket h k (bucket h k ?s2 @ [j]) ?s2"
      have "PSIDFlwCntrl_addStop h key s = Some (1, ?s3)" using k(1) nin g Some by (simp add: PSIDFlwCntrl_addStop_def Let_def)
      moreover have "pool_inv (s1\<lparr>ist := (ist s1)(j := tid_state key)\<rparr>) (insert j B)" "j \<notin> B" "pool.more s1 = ?m"
        using gi Some k(2) by auto
      then have "pool_inv ?s3 (insert j B)"
        by (simp add: set_bucket_def store_tid_def pool_inv_def pool_items_def)
      moreover have "key \<notin> tids ?m ` set (tables ?m h k)" using False in_k by simp
      note al = add_links [OF inv(2) \<open>j \<notin> B\<close> k this, of "pool.more ?s3"]
      have m3: "tids (pool.more ?s3) = (tids ?m)(j := key)"
        "tables (pool.more ?s3) = (tables ?m)(h := (tables ?m h)(k := tables ?m h k @ [j]))"
        using \<open>pool.more s1 = ?m\<close> by (simp_all add: set_bucket_def store_tid_def bucket_def)
      have "stopped ?s3 = (stopped s)(h := insert key (stopped s h))"
      proof -
        have "(\<Union>x. set (if x = k then F k @ [key] else F x)) = insert key (\<Union>x. set (F x))"
          for F :: "nat \<Rightarrow> taskid list" by (auto split: if_splits)
        from this [of "flow_view ?m h"] show ?thesis
          unfolding stopped_upd [OF al(2) [OF m3]] by (simp add: stopped_def fun_upd_def cong: if_cong)
      qed
      ultimately show ?thesis using False al(1) [OF m3] by (auto simp: flow_ok_def)
    qed
  qed
qed

end
