(* ===== verification/Msgbuf_Spec.thy ===== *)
theory Msgbuf_Spec
  imports Msgbuf Flow_Spec
begin

text \<open>
  What message buffers promise: the queues of undelivered messages keep their content and their
  order under garbage collection, and storing or releasing a buffer changes one queue at one end.
\<close>

section \<open>The buffers in the queues\<close>

fun ref_ok :: "bufs \<Rightarrow> pitem set \<Rightarrow> mref \<Rightarrow> bool" where
  "ref_ok m B (Small i) \<longleftrightarrow> i \<in> B \<and> mb_size m (Small i) \<le> MSGBUF_SMALLSIZE"
| "ref_ok m B (Big n) \<longleftrightarrow> n < nextBig m \<and> MSGBUF_SMALLSIZE < mb_size m (Big n)"

definition bufs_links :: "bufs \<Rightarrow> pitem set \<Rightarrow> bool" where
  "bufs_links m B \<longleftrightarrow> (\<forall>fd. distinct (mqueue m fd))
     \<and> (\<forall>fd. \<forall>r\<in>set (mqueue m fd). ref_ok m B r \<and> mb_size m r = w_len (mb_msg m r) \<and> mb_offset m r \<le> mb_size m r)
     \<and> (\<forall>fd fd' r. r \<in> set (mqueue m fd) \<longrightarrow> r \<in> set (mqueue m fd') \<longrightarrow> fd' = fd)
     \<and> (\<forall>i\<in>B. \<exists>fd. Small i \<in> set (mqueue m fd))"

definition queue_view :: "bufs \<Rightarrow> nat \<Rightarrow> (nat \<times> wmsg) list" where
  "queue_view m fd = map (\<lambda>r. (mb_offset m r, mb_msg m r)) (mqueue m fd)"

definition bufs_ok :: "msgbufs \<Rightarrow> pitem set \<Rightarrow> bool" where
  "bufs_ok s B \<longleftrightarrow> pool_inv s B \<and> bufs_links (pool.more s) B"

lemma bufs_linksD:
  assumes "bufs_links m B"
  shows "distinct (mqueue m fd)" "r \<in> set (mqueue m fd) \<Longrightarrow> ref_ok m B r"
    "r \<in> set (mqueue m fd) \<Longrightarrow> mb_size m r = w_len (mb_msg m r)" "r \<in> set (mqueue m fd) \<Longrightarrow> mb_offset m r \<le> mb_size m r"
    "r \<in> set (mqueue m fd) \<Longrightarrow> r \<in> set (mqueue m fd') \<Longrightarrow> fd' = fd"
    "i \<in> B \<Longrightarrow> \<exists>fd. Small i \<in> set (mqueue m fd)" "Small i \<in> set (mqueue m fd) \<Longrightarrow> i \<in> B"
  using assms unfolding bufs_links_def by (blast, blast, blast, blast, blast, blast, force)

lemma small_offset_busy:
  assumes "n \<le> MSGBUF_SMALLSIZE" shows "busy_state (of_nat n)"
proof -
  have "of_nat (n + k) \<noteq> (0 :: int32)" if "0 < k" "k \<le> 2" for k
  proof
    assume "of_nat (n + k) = (0 :: int32)"
    then have "2 ^ LENGTH(32) dvd n + k" unfolding word_of_nat_eq_0_iff .
    then have "2 ^ LENGTH(32) \<le> n + k" using that by (intro dvd_imp_le) simp_all
    then show False using assms that by (simp add: MSGBUF_SMALLSIZE_def)
  qed
  from this [of 1] this [of 2] show ?thesis
    by (simp add: busy_state_def PSITEM_IDLE_def PSITEM_DRAINED_def eq_neg_iff_add_eq_0 add.commute)
qed

lemma relocSmallMsgBuf_law:
  fixes s :: msgbufs
  assumes init: "p_init s" and links: "bufs_links (pool.more s) B" and i: "i \<in> B"
    and j: "idleItems s = j # js" "j \<notin> B" "ist s j = PSITEM_IDLE"
  shows "\<exists>s' x. relocSmallMsgBuf i s = (True, s') \<and> busy_state x \<and> pool.truncate s' = pool.truncate (took_item j js x s)
      \<and> bufs_links (pool.more s') (insert j (B - {i})) \<and> queue_view (pool.more s') = queue_view (pool.more s)"
proof -
  let ?m = "pool.more s"
  let ?r = "\<lambda>x. if x = Small i then Small j else x"
  let ?m' = "?m\<lparr>mb_offset := (mb_offset ?m)(Small j := mb_offset ?m (Small i)),
      mb_size := (mb_size ?m)(Small j := mb_size ?m (Small i)), mb_msg := (mb_msg ?m)(Small j := mb_msg ?m (Small i)),
      mqueue := (\<lambda>fd. map ?r (mqueue ?m fd))\<rparr>"
  let ?x = "of_nat (mb_offset ?m (Small i)) :: int32"
  obtain s' where eq: "relocSmallMsgBuf i s = (True, s')" "pool.more s' = ?m'"
      "pool.truncate s' = pool.truncate (took_item j js ?x s)"
    by (simp add: relocSmallMsgBuf_def getItem_first [OF init j(1,3)] set_offset_def upd_bufs_def Let_def
        pool.truncate_def took_item_def)
  note D = bufs_linksD [OF links]
  have nj: "Small j \<notin> set (mqueue ?m fd)" for fd using D(7) j(2) by blast
  have ne: "j \<noteq> i" using i j(2) by auto
  have mem: "y \<in> set (mqueue ?m' fd) \<longleftrightarrow>
      (if y = Small j then Small i \<in> set (mqueue ?m fd) else y \<noteq> Small i \<and> y \<in> set (mqueue ?m fd))" for y fd
    using nj ne by (auto simp: image_iff split: if_splits)
  have view: "queue_view ?m' = queue_view ?m" using nj by (auto simp: queue_view_def fun_eq_iff)
  have "bufs_links ?m' (insert j (B - {i}))"
    unfolding bufs_links_def
  proof (intro conjI allI ballI impI)
    fix fd show "distinct (mqueue ?m' fd)"
      using D(1) [of fd] nj [of fd] by (auto simp: distinct_map inj_on_def split: if_splits)
  next
    fix fd y assume "y \<in> set (mqueue ?m' fd)"
    then have y: "if y = Small j then Small i \<in> set (mqueue ?m fd) else y \<noteq> Small i \<and> y \<in> set (mqueue ?m fd)"
      unfolding mem .
    let ?z = "if y = Small j then Small i else y"
    have z: "?z \<in> set (mqueue ?m fd)" using y by (simp split: if_splits)
    show "ref_ok ?m' (insert j (B - {i})) y"
      using D(2) [OF z] y ne by (cases y) (auto split: if_splits)
    show "mb_size ?m' y = w_len (mb_msg ?m' y)" "mb_offset ?m' y \<le> mb_size ?m' y"
      using D(3,4) [OF z] by (auto split: if_splits)
  next
    fix fd fd' y assume "y \<in> set (mqueue ?m' fd)" "y \<in> set (mqueue ?m' fd')"
    then show "fd' = fd" unfolding mem using D(5) by (auto split: if_splits)
  next
    fix k assume "k \<in> insert j (B - {i})"
    then show "\<exists>fd. Small k \<in> set (mqueue ?m' fd)"
      unfolding mem using D(6) [of k] D(6) [OF i] by auto
  qed
  moreover have "busy_state ?x"
  proof -
    obtain fd where "Small i \<in> set (mqueue ?m fd)" using D(6) [OF i] by blast
    from D(2,4) [OF this] show ?thesis by (intro small_offset_busy) simp
  qed
  ultimately show ?thesis using eq view by metis
qed

interpretation buf_pool: item_user relocSmallMsgBuf bufs_links queue_view
  by unfold_locales (rule relocSmallMsgBuf_law)

lemma msgbuf_gc:
  assumes "bufs_ok s B"
  shows "\<exists>B'. let s' = PSIDMsgbuf_gc s in bufs_ok s' B' \<and> queue_view (pool.more s') = queue_view (pool.more s)
     \<and> card B' = card B \<and> pmem s' = pmem s \<and> \<not> PSitems_gcRequired s'"
proof -
  have "pool_inv s B" "bufs_links (pool.more s) B" using assms by (simp_all add: bufs_ok_def)
  from buf_pool.PSitems_gc_law [OF this] show ?thesis
    using assms by (auto simp: bufs_ok_def gc_keeps_def PSIDMsgbuf_gc_def Let_def)
qed

section \<open>Storing and releasing\<close>

text \<open>The part of \<open>storeMsg\<close> that works on the buffers: get one, fill it, append it.\<close>

definition store_buf :: "nat \<Rightarrow> wmsg \<Rightarrow> nat \<Rightarrow> msgbufs \<Rightarrow> bool \<times> msgbufs" where
  "store_buf fd m off s =
     (case PSIDMsgbuf_get (w_len m) s of
        (None, s1) \<Rightarrow> (False, s1)
      | (Some r, s1) \<Rightarrow>
          let s2 = set_offset r off (upd_bufs (mb_msg_update (\<lambda>f. f(r := m))) s1)
          in (True, set_queue fd (queue fd s2 @ [r]) s2))"

lemma links_add:
  assumes L: "bufs_links m B" and r: "ref_ok m' B' r" "\<And>fd. r \<notin> set (mqueue m fd)" and B': "B' = (case r of Small i \<Rightarrow> insert i B | Big n \<Rightarrow> B)"
    and m': "mqueue m' = (mqueue m)(fd := mqueue m fd @ [r])" "mb_size m' r = w_len (mb_msg m' r)" "mb_offset m' r \<le> mb_size m' r"
      "\<And>x. x \<noteq> r \<Longrightarrow> mb_size m' x = mb_size m x" "\<And>x. x \<noteq> r \<Longrightarrow> mb_msg m' x = mb_msg m x"
      "\<And>x. x \<noteq> r \<Longrightarrow> mb_offset m' x = mb_offset m x" "nextBig m \<le> nextBig m'"
  shows "bufs_links m' B'" "queue_view m' = (queue_view m)(fd := queue_view m fd @ [(mb_offset m' r, mb_msg m' r)])"
proof -
  note D = bufs_linksD [OF L]
  have mem: "x \<in> set (mqueue m' f) \<longleftrightarrow> (if x = r then f = fd else x \<in> set (mqueue m f))" for x f
    using r(2) by (auto simp: m'(1))
  have old: "x \<noteq> r" if "x \<in> set (mqueue m f)" for x f using that r(2) by blast
  show "queue_view m' = (queue_view m)(fd := queue_view m fd @ [(mb_offset m' r, mb_msg m' r)])"
    using old by (auto simp: queue_view_def m' fun_eq_iff)
  show "bufs_links m' B'"
    unfolding bufs_links_def
  proof (intro conjI allI ballI impI)
    fix f show "distinct (mqueue m' f)" using D(1) r(2) by (simp add: m'(1))
  next
    fix f x assume "x \<in> set (mqueue m' f)"
    then have x: "if x = r then f = fd else x \<in> set (mqueue m f)" unfolding mem .
    show "ref_ok m' B' x"
    proof (cases "x = r")
      case False
      then have "ref_ok m B x" using x D(2) by auto
      then show ?thesis using False m'(4) m'(7) by (cases x) (auto simp: B' split: mref.split)
    qed (simp add: r)
    show "mb_size m' x = w_len (mb_msg m' x)" "mb_offset m' x \<le> mb_size m' x"
      using x D(3,4) m' by (cases "x = r"; simp)+
  next
    fix f f' x assume "x \<in> set (mqueue m' f)" "x \<in> set (mqueue m' f')"
    then show "f' = f" unfolding mem using D(5) by (auto split: if_splits)
  next
    fix i assume "i \<in> B'"
    then show "\<exists>f. Small i \<in> set (mqueue m' f)" unfolding mem using D(6) [of i] by (auto simp: B' split: mref.splits)
  qed
qed

text \<open>The script of memory allocations: \<open>memory_left\<close> when none of them fails.\<close>

definition memory_left :: "'a pool_scheme \<Rightarrow> bool" where
  "memory_left s \<longleftrightarrow> list_all id (pmem s)"

lemma getItem_succeeds:
  assumes "pool_inv s B" "memory_left s" "PSitems_getItem s = (r, s')"
  shows "r \<noteq> None \<and> memory_left s'"
proof (cases "idleItems s")
  case (Cons i "is")
  then show ?thesis using assms by (auto simp: PSitems_getItem_def pool_inv_def memory_left_def)
next
  case Nil
  have "0 < iPC s" "p_init s" using assms(1) by (simp_all add: pool_inv_def)
  then show ?thesis using assms(2,3) Nil
    by (cases "pmem s") (auto simp: PSitems_getItem_def growItems_def Let_def memory_left_def chunk_items_def upt_conv_Cons)
qed

lemma get_spec:
  assumes ok: "bufs_ok s B" and g: "PSIDMsgbuf_get len s = (mp, s1)"
  shows "(memory_left s \<longrightarrow> mp \<noteq> None \<and> memory_left s1)
    \<and> (case mp of None \<Rightarrow> bufs_ok s1 B \<and> queue_view (pool.more s1) = queue_view (pool.more s)
      | Some r \<Rightarrow> (\<forall>fd. r \<notin> set (mqueue (pool.more s) fd)) \<and> ref_ok (pool.more s1) (insert (case r of Small i \<Rightarrow> i | _ \<Rightarrow> undefined) B) r \<and>
          nextBig (pool.more s) \<le> nextBig (pool.more s1) \<and> mqueue (pool.more s1) = mqueue (pool.more s)
          \<and> mb_size (pool.more s1) = (mb_size (pool.more s))(r := len) \<and> mb_offset (pool.more s1) = (mb_offset (pool.more s))(r := 0)
          \<and> mb_msg (pool.more s1) = mb_msg (pool.more s)
          \<and> (case r of Small i \<Rightarrow> \<forall>x. busy_state x \<longrightarrow> pool_inv (s1\<lparr>ist := (ist s1)(i := x)\<rparr>) (insert i B) | Big n \<Rightarrow> pool_inv s1 B))"
proof -
  have inv: "pool_inv s B" "bufs_links (pool.more s) B" using ok by (simp_all add: bufs_ok_def)
  note D = bufs_linksD [OF inv(2)]
  show ?thesis
  proof (cases "len \<le> MSGBUF_SMALLSIZE")
    case True
    obtain r0 s0 where i: "PSitems_getItem s = (r0, s0)" by (rule prod.exhaust)
    note gi = PSitems_getItem_inv [OF inv(1) i] and gs = getItem_succeeds [OF inv(1) _ i]
    show ?thesis
    proof (cases r0)
      case None
      then have "mp = None" "s1 = s0" using g True i by (auto simp: PSIDMsgbuf_get_def)
      then show ?thesis using gi gs None inv(2) by (auto simp: bufs_ok_def)
    next
      case (Some j)
      let ?s1 = "upd_bufs (mb_size_update (\<lambda>f. f(Small j := len))) (set_offset (Small j) 0 (upd_bufs (usedBufs_update Suc) s0))"
      have e: "mp = Some (Small j)" "s1 = ?s1" using g True i Some by (auto simp: PSIDMsgbuf_get_def)
      have j: "j \<notin> B" "\<And>x. busy_state x \<Longrightarrow> pool_inv (s0\<lparr>ist := (ist s0)(j := x)\<rparr>) (insert j B)" "pool.more s0 = pool.more s"
        using gi Some by auto
      have "Small j \<notin> set (mqueue (pool.more s) fd)" for fd using D(7) j(1) by blast
      moreover have "pool_inv (?s1\<lparr>ist := (ist ?s1)(j := x)\<rparr>) (insert j B)" if "busy_state x" for x
        using j(2) [OF that] by (simp add: upd_bufs_def set_offset_def pool_inv_def pool_items_def)
      ultimately show ?thesis using gs True Some j(3)
        by (auto simp: e upd_bufs_def set_offset_def memory_left_def)
    qed
  next
    case False
    let ?n = "nextBig (pool.more s)"
    have nb: "Big ?n \<notin> set (mqueue (pool.more s) fd)" for fd using D(2) [of "Big ?n" fd] by auto
    show ?thesis
    proof (cases "\<exists>bs. pmem s = False # bs")
      case True
      then show ?thesis using g False inv
        by (auto simp: PSIDMsgbuf_get_def bufs_ok_def memory_left_def pool_inv_pmem)
    next
      case no: False
      let ?s1 = "upd_bufs (mb_size_update (\<lambda>f. f(Big ?n := len))) (set_offset (Big ?n) 0 (upd_bufs (usedBufs_update Suc)
          (upd_bufs (nextBig_update Suc) (s\<lparr>pmem := tl (pmem s)\<rparr>))))"
      have e: "mp = Some (Big ?n)" "s1 = ?s1" using g False no
        by (auto simp: PSIDMsgbuf_get_def split: list.splits bool.splits)
      have "pool_inv ?s1 B" using inv(1) by (simp add: upd_bufs_def set_offset_def pool_inv_def pool_items_def)
      moreover have "memory_left s \<longrightarrow> memory_left ?s1"
        by (cases "pmem s") (simp_all add: memory_left_def upd_bufs_def set_offset_def)
      ultimately show ?thesis using nb False unfolding e by (simp add: upd_bufs_def set_offset_def)
    qed
  qed
qed

lemma store_buf_spec:
  assumes ok: "bufs_ok s B" and off: "off \<le> w_len m" and st: "store_buf fd m off s = (b, s')"
  shows "(\<exists>B'. bufs_ok s' B') \<and> queue_view (pool.more s') =
     (if b then (queue_view (pool.more s))(fd := queue_view (pool.more s) fd @ [(off, m)]) else queue_view (pool.more s))
     \<and> (memory_left s \<longrightarrow> b \<and> memory_left s')"
proof -
  have inv: "pool_inv s B" "bufs_links (pool.more s) B" using ok by (simp_all add: bufs_ok_def)
  obtain mp s1 where g: "PSIDMsgbuf_get (w_len m) s = (mp, s1)" by (rule prod.exhaust)
  note gs = get_spec [OF ok g]
  show ?thesis
  proof (cases mp)
    case None
    then have "b = False" "s' = s1" using st g by (auto simp: store_buf_def)
    then show ?thesis using gs None by auto
  next
    case (Some r)
    let ?B = "case r of Small i \<Rightarrow> insert i B | Big n \<Rightarrow> B"
    let ?s2 = "set_offset r off (upd_bufs (mb_msg_update (\<lambda>f. f(r := m))) s1)"
    have e: "b = True" "s' = set_queue fd (queue fd ?s2 @ [r]) ?s2"
      using st g Some by (auto simp: store_buf_def Let_def)
    let ?m = "pool.more s" and ?m1 = "pool.more s1" and ?m' = "pool.more s'"
    have f: "mqueue ?m' = (mqueue ?m1)(fd := mqueue ?m1 fd @ [r])" "mb_size ?m' = mb_size ?m1"
      "mb_msg ?m' = (mb_msg ?m1)(r := m)" "mb_offset ?m' = (mb_offset ?m1)(r := off)" "nextBig ?m' = nextBig ?m1"
      "memory_left s' = memory_left s1"
      by (auto simp: e set_queue_def upd_bufs_def set_offset_def queue_def memory_left_def Let_def split: mref.split)
    have G: "\<And>fd. r \<notin> set (mqueue ?m fd)" "nextBig ?m \<le> nextBig ?m1" "mqueue ?m1 = mqueue ?m"
      "mb_size ?m1 = (mb_size ?m)(r := w_len m)" "mb_offset ?m1 = (mb_offset ?m)(r := 0)" "mb_msg ?m1 = mb_msg ?m"
      "memory_left s \<longrightarrow> memory_left s1"
      using gs Some by auto
    have ref: "ref_ok ?m' ?B r" using gs Some by (cases r) (auto simp: f)
    have L: "bufs_links ?m' ?B" "queue_view ?m' = (queue_view ?m)(fd := queue_view ?m fd @ [(mb_offset ?m' r, mb_msg ?m' r)])"
      by (rule links_add [OF inv(2) ref G(1) refl]; use G off in \<open>simp add: f\<close>)+
    have "pool_inv s' ?B"
    proof (cases r)
      case (Small i)
      have "busy_state (of_nat off)" using ref off G(4) Small by (intro small_offset_busy) (simp add: f)
      then show ?thesis using gs Some Small
        by (auto simp: e set_queue_def upd_bufs_def set_offset_def pool_inv_def pool_items_def)
    next
      case (Big n)
      then show ?thesis using gs Some
        by (auto simp: e set_queue_def upd_bufs_def set_offset_def pool_inv_def pool_items_def)
    qed
    then show ?thesis using L G(7) by (auto simp: bufs_ok_def f e(1))
  qed
qed

lemma release_first:
  assumes ok: "bufs_ok s B" and q: "queue fd s = r # rs"
  defines "s' \<equiv> PSIDMsgbuf_put r (set_queue fd rs s)"
  shows "\<exists>B'. bufs_ok s' B'"
    "queue_view (pool.more s') = (queue_view (pool.more s))(fd := tl (queue_view (pool.more s) fd))"
    "queue fd s' = rs" "memory_left s' = memory_left s"
proof -
  let ?m = "pool.more s" and ?m' = "pool.more s'"
  have inv: "pool_inv s B" "bufs_links ?m B" using ok by (simp_all add: bufs_ok_def)
  note D = bufs_linksD [OF inv(2)]
  have rq: "mqueue ?m fd = r # rs" "r \<in> set (mqueue ?m fd)" using q by (simp_all add: queue_def)
  have ref: "ref_ok ?m B r" using D(2) rq(2) by blast
  let ?B = "case r of Small i \<Rightarrow> B - {i} | Big n \<Rightarrow> B"
  have sq: "pool_inv (set_queue fd rs s) B" "pmem (set_queue fd rs s) = pmem s"
    using inv(1) by (simp_all add: set_queue_def upd_bufs_def pool_inv_def pool_items_def)
  have put: "pool_inv s' ?B \<and> ?m' = ?m\<lparr>mqueue := (mqueue ?m)(fd := rs), usedBufs := usedBufs ?m - 1\<rparr> \<and> pmem s' = pmem s"
  proof (cases r)
    case (Small i)
    then have "s' = upd_bufs (usedBufs_update (\<lambda>n. n - 1)) (PSitems_putItem i (set_queue fd rs s))"
      using ref by (simp add: s'_def PSIDMsgbuf_put_def set_queue_def upd_bufs_def)
    moreover have "pool_inv (PSitems_putItem i (set_queue fd rs s)) (B - {i})"
      using PSitems_putItem_inv [OF sq(1)] ref Small by simp
    ultimately show ?thesis using Small
      by (auto simp: upd_bufs_def set_queue_def PSitems_putItem_def pool_inv_def pool_items_def)
  next
    case (Big n)
    then have "s' = upd_bufs (usedBufs_update (\<lambda>n. n - 1)) (set_queue fd rs s)"
      using ref by (simp add: s'_def PSIDMsgbuf_put_def)
    then show ?thesis using Big sq by (auto simp: upd_bufs_def set_queue_def pool_inv_def pool_items_def)
  qed
  then show "queue_view ?m' = (queue_view ?m)(fd := tl (queue_view ?m fd))" "queue fd s' = rs" "memory_left s' = memory_left s"
    using rq(1) by (auto simp: queue_view_def queue_def memory_left_def fun_eq_iff)
  have mq: "mqueue ?m' = (mqueue ?m)(fd := rs)" using put by simp
  have d: "r \<notin> set rs" "distinct rs" using D(1) [of fd] rq(1) by simp_all
  have mem: "x \<in> set (mqueue ?m' f) \<longleftrightarrow> x \<noteq> r \<and> x \<in> set (mqueue ?m f)" for x f
    using D(5) [of r fd f] rq d unfolding mq by (cases "f = fd") auto
  have "bufs_links ?m' ?B"
    unfolding bufs_links_def
  proof (intro conjI allI ballI impI)
    fix f show "distinct (mqueue ?m' f)" using D(1) d(2) by (simp add: mq)
  next
    fix f x assume "x \<in> set (mqueue ?m' f)"
    then have x: "x \<noteq> r" "x \<in> set (mqueue ?m f)" unfolding mem by auto
    have "ref_ok ?m B x" using D(2) x(2) .
    then show "ref_ok ?m' ?B x" using x(1) put by (cases x) (auto split: mref.splits)
    show "mb_size ?m' x = w_len (mb_msg ?m' x)" "mb_offset ?m' x \<le> mb_size ?m' x" using put D(3,4) [OF x(2)] by simp_all
  next
    fix f f' x assume "x \<in> set (mqueue ?m' f)" "x \<in> set (mqueue ?m' f')"
    then show "f' = f" unfolding mem using D(5) by blast
  next
    fix i assume "i \<in> ?B"
    then have "i \<in> B" "Small i \<noteq> r" by (auto split: mref.splits)
    then show "\<exists>f. Small i \<in> set (mqueue ?m' f)" unfolding mem using D(6) by blast
  qed
  then show "\<exists>B'. bufs_ok s' B'" using put by (auto simp: bufs_ok_def)
qed

lemma offset_first:
  assumes ok: "bufs_ok s B" and q: "queue fd s = r # rs" and off: "off \<le> mb_size (pool.more s) r"
  shows "bufs_ok (set_offset r off s) B" "queue fd (set_offset r off s) = r # rs"
    "queue_view (pool.more (set_offset r off s)) = (queue_view (pool.more s))(fd := (off, mb_msg (pool.more s) r) # tl (queue_view (pool.more s) fd))"
    "memory_left (set_offset r off s) = memory_left s"
proof -
  let ?m = "pool.more s" and ?m' = "pool.more (set_offset r off s)"
  have inv: "pool_inv s B" "bufs_links ?m B" using ok by (simp_all add: bufs_ok_def)
  note D = bufs_linksD [OF inv(2)]
  have rq: "mqueue ?m fd = r # rs" "r \<in> set (mqueue ?m fd)" using q by (simp_all add: queue_def)
  have m': "?m' = ?m\<lparr>mb_offset := (mb_offset ?m)(r := off)\<rparr>" "pmem (set_offset r off s) = pmem s"
    by (cases r; simp add: set_offset_def upd_bufs_def)+
  then show "queue fd (set_offset r off s) = r # rs" "memory_left (set_offset r off s) = memory_left s"
    using rq by (simp_all add: queue_def memory_left_def)
  have d: "r \<notin> set rs" using D(1) [of fd] rq(1) by simp
  have no: "r \<notin> set (mqueue ?m f)" if "f \<noteq> fd" for f using D(5) [OF rq(2), of f] that by auto
  have e: "mqueue ?m' = mqueue ?m" "mb_msg ?m' = mb_msg ?m" "mb_offset ?m' = (mb_offset ?m)(r := off)"
    using m' by simp_all
  show "queue_view ?m' = (queue_view ?m)(fd := (off, mb_msg ?m r) # tl (queue_view ?m fd))"
  proof
    fix f
    show "queue_view ?m' f = ((queue_view ?m)(fd := (off, mb_msg ?m r) # tl (queue_view ?m fd))) f"
    proof (cases "f = fd")
      case True
      then show ?thesis using rq(1) d unfolding queue_view_def e by simp
    next
      case False
      then show ?thesis using no [OF False] unfolding queue_view_def e by auto
    qed
  qed
  have "ref_ok ?m' B x = ref_ok ?m B x" for x by (cases x) (simp_all add: m')
  moreover have "off \<le> w_len (mb_msg ?m r)" using off D(3) [OF rq(2)] by simp
  moreover have "\<And>x f. x \<in> set (mqueue ?m f) \<Longrightarrow> mb_offset ?m x \<le> w_len (mb_msg ?m x)" using D(3,4) by metis
  ultimately have "bufs_links ?m' B" using inv(2) unfolding bufs_links_def by (auto simp: m')
  moreover have "pool_inv (set_offset r off s) B"
  proof (cases r)
    case (Small i)
    have "busy_state (of_nat off)" using D(2) [OF rq(2)] off Small by (intro small_offset_busy) simp
    then show ?thesis using inv(1) D(2) [OF rq(2)] Small
      by (auto simp: set_offset_def upd_bufs_def pool_inv_def pool_items_def)
  next
    case (Big n)
    then show ?thesis using inv(1) by (simp add: set_offset_def upd_bufs_def pool_inv_def pool_items_def)
  qed
  ultimately show "bufs_ok (set_offset r off s) B" by (simp add: bufs_ok_def)
qed

end
