(* ===== verification/Client.thy ===== *)
theory Client
  imports Msgbuf_Spec
begin

text \<open>
  The connections of the local daemon to its clients (\<open>src/bin/daemon/psidclient.c\<close>), the function
  \<open>sendMsg\<close> that dispatches messages (\<open>src/bin/daemon/psidcomm.c\<close>) and the handlers of the flow
  control messages (\<open>src/bin/daemon/psidflowcontrol.c\<close>).  Messages that are passed on by nested
  calls of \<open>sendMsg\<close> are collected in \<open>d_out\<close>, in their order; messages handed to \<open>PSID_dropMsg\<close> in
  \<open>d_drop\<close>.  What clients receive is the byte stream \<open>d_wire\<close>.
\<close>

section \<open>State\<close>

record client =
  c_tid :: taskid
  c_task :: "taskid option"
  c_initial :: bool
  c_flush :: bool
  c_close :: bool
  c_acks :: int

text \<open>What is used of a task.\<close>

record ftask =
  t_logger :: bool
  t_fd :: int
  t_stops :: int
  t_killat :: int

record daemon =
  d_myID :: nodeid
  d_up :: "nodeid \<Rightarrow> bool"
  d_nodes :: nodeid
  d_max :: int
  d_cl :: "nat \<Rightarrow> client"
  d_flow :: flow
  d_bufs :: msgbufs
  d_tasks :: "taskid \<Rightarrow> ftask option"
  d_now :: int
  d_writes :: "wres list"
  d_net :: "nat outcome list"
  d_wire :: "nat \<Rightarrow> byte list"
  d_out :: "wmsg list"
  d_drop :: "wmsg list"
  d_wait :: "nat \<Rightarrow> bool"
  d_disabled :: "nat \<Rightarrow> bool"
  d_open :: "nat \<Rightarrow> bool"
  d_rdrop :: "wmsg \<Rightarrow> bool"

definition EPIPE :: errno where "EPIPE = EOTHER 32"

definition upd_client :: "int \<Rightarrow> (client \<Rightarrow> client) \<Rightarrow> daemon \<Rightarrow> daemon" where
  "upd_client fd f d = d\<lparr>d_cl := (d_cl d)(nat fd := f (d_cl d (nat fd)))\<rparr>"

definition upd_task :: "taskid \<Rightarrow> (ftask \<Rightarrow> ftask) \<Rightarrow> daemon \<Rightarrow> daemon" where
  "upd_task t f d = d\<lparr>d_tasks := (d_tasks d)(t := map_option f (d_tasks d t))\<rparr>"

definition cqueue :: "int \<Rightarrow> daemon \<Rightarrow> mref list" where
  "cqueue fd d = queue (nat fd) (d_bufs d)"

section \<open>The table of clients\<close>

text \<open>The array exists exactly when \<open>maxClientFD\<close> is not zero.\<close>

definition doCheckClient :: "int \<Rightarrow> daemon \<Rightarrow> bool" where
  "doCheckClient fd d \<longleftrightarrow> d_max d \<noteq> 0 \<and> 0 \<le> fd \<and> fd < d_max d"

definition PSIDclient_getTID :: "int \<Rightarrow> daemon \<Rightarrow> taskid" where
  "PSIDclient_getTID fd d =
     (if \<not> doCheckClient fd d then PSC_getTID (d_myID d) (-1) 0 else c_tid (d_cl d (nat fd)))"

definition PSIDclient_getTask :: "int \<Rightarrow> daemon \<Rightarrow> taskid option" where
  "PSIDclient_getTask fd d = (if \<not> doCheckClient fd d then None else c_task (d_cl d (nat fd)))"

definition PSIDclient_register :: "int \<Rightarrow> taskid \<Rightarrow> taskid option \<Rightarrow> daemon \<Rightarrow> daemon" where
  "PSIDclient_register fd tid task d =
     (if \<not> doCheckClient fd d then d
      else
        let d1 = upd_client fd (\<lambda>c. c\<lparr>c_tid := tid, c_task := task, c_initial := True, c_acks := 0\<rparr>) d;
            d2 = d1\<lparr>d_bufs := set_queue (nat fd) [] (d_bufs d1)\<rparr>;
            d3 = d2\<lparr>d_flow := PSIDFlwCntrl_emptyHash (nat fd) (d_flow d2)\<rparr>
        in d3\<lparr>d_open := (d_open d3)(nat fd := True)\<rparr>)"

definition PSIDclient_setEstablished :: "int \<Rightarrow> daemon \<Rightarrow> daemon" where
  "PSIDclient_setEstablished fd d =
     upd_client fd (\<lambda>c. c\<lparr>c_initial := False\<rparr>)
       (d\<lparr>d_open := (d_open d)(nat fd := True), d_wait := (d_wait d)(nat fd := False), d_disabled := (d_disabled d)(nat fd := False)\<rparr>)"

definition PSIDclient_isEstablished :: "int \<Rightarrow> daemon \<Rightarrow> bool" where
  "PSIDclient_isEstablished fd d \<longleftrightarrow> doCheckClient fd d \<and> \<not> c_initial (d_cl d (nat fd))"

section \<open>Closing\<close>

definition send_conts_of :: "int \<Rightarrow> taskid \<Rightarrow> daemon \<Rightarrow> daemon" where
  "send_conts_of fd sender d =
     (let ((n, ms), f) = PSIDFlwCntrl_sendContMsgs (d_myID d) (d_up d) (nat fd) sender (d_flow d)
      in d\<lparr>d_flow := f, d_out := d_out d @ ms\<rparr>)"

primrec drop_queue :: "int \<Rightarrow> mref list \<Rightarrow> daemon \<Rightarrow> daemon" where
  "drop_queue fd [] d = d"
| "drop_queue fd (r # rs) d =
     (let m = mb_msg (pool.more (d_bufs d)) r;
          d1 = d\<lparr>d_bufs := set_queue (nat fd) rs (d_bufs d), d_drop := d_drop d @ [m]\<rparr>
      in drop_queue fd rs (d1\<lparr>d_bufs := PSIDMsgbuf_put r (d_bufs d1)\<rparr>))"

definition closeConnection :: "int \<Rightarrow> daemon \<Rightarrow> daemon" where
  "closeConnection fd d =
     (if \<not> doCheckClient fd d then d
      else
        let d1 = upd_client fd (\<lambda>c. c\<lparr>c_tid := -1\<rparr>) d;
            d2 = (case c_task (d_cl d1 (nat fd)) of None \<Rightarrow> d1 | Some t \<Rightarrow> upd_task t (\<lambda>t. t\<lparr>t_fd := -1\<rparr>) d1);
            d3 = upd_client fd (\<lambda>c. c\<lparr>c_task := None\<rparr>) d2
        in if c_close (d_cl d3 (nat fd)) then d3
           else
             let d4 = upd_client fd (\<lambda>c. c\<lparr>c_close := True\<rparr>) d3;
                 d5 = drop_queue fd (cqueue fd d4) d4;
                 d6 = d5\<lparr>d_wait := (d_wait d5)(nat fd := False)\<rparr>;
                 d7 = send_conts_of fd (PSIDclient_getTID fd d6) d6;
                 d8 = upd_client fd (\<lambda>c. c\<lparr>c_close := False\<rparr>) d7
             in d8\<lparr>d_open := (d_open d8)(nat fd := False)\<rparr>)"

text \<open>\<open>PSIDclient_delete\<close> of a client without a task, the only case inside \<open>doSend\<close>.\<close>

definition delete_no_task :: "int \<Rightarrow> daemon \<Rightarrow> daemon" where
  "delete_no_task fd d = (if fd < 0 then d else closeConnection fd d)"

section \<open>Sending to a client\<close>

definition doSend :: "int \<Rightarrow> wmsg \<Rightarrow> nat \<Rightarrow> daemon \<Rightarrow> nat outcome \<times> daemon" where
  "doSend fd m offset d =
     (let (r, sent, ws) = PSCio_sendSProg (w_len m - offset) (d_writes d);
          d1 = d\<lparr>d_writes := ws,
                d_wire := (d_wire d)(nat fd := d_wire d (nat fd) @ take sent (drop offset (msg_bytes m)))\<rparr>
      in case r of
        Ret k \<Rightarrow> (Ret (offset + k), d1)
      | Exit \<Rightarrow> (Exit, d1)
      | Fail e \<Rightarrow>
          if e = EAGAIN \<or> e = EINTR then (Ret (offset + sent), d1)
          else case PSIDclient_getTask fd d1 of
            Some t \<Rightarrow>
              (Fail e, (upd_task t (\<lambda>t. if t_killat t = 0 then t\<lparr>t_killat := d_now d1 + 10\<rparr> else t) d1)
                         \<lparr>d_disabled := (d_disabled d1)(nat fd := False)\<rparr>)
          | None \<Rightarrow> (Fail e, delete_no_task fd d1))"

definition storeMsg :: "int \<Rightarrow> wmsg \<Rightarrow> nat \<Rightarrow> daemon \<Rightarrow> bool \<times> daemon" where
  "storeMsg fd m offset d =
     (if \<not> doCheckClient fd d then (False, d)
      else (case store_buf (nat fd) m offset (d_bufs d) of (b, s) \<Rightarrow> (b, d\<lparr>d_bufs := s\<rparr>)))"

primrec flush_loop :: "int \<Rightarrow> mref list \<Rightarrow> daemon \<Rightarrow> errno option \<times> daemon" where
  "flush_loop fd [] d = (None, d)"
| "flush_loop fd (r # rs) d =
     (let m = mb_msg (pool.more (d_bufs d)) r in
      case doSend fd m (mb_offset (pool.more (d_bufs d)) r) d of
        (Fail e, d1) \<Rightarrow> (Some e, d1)
      | (Exit, d1) \<Rightarrow> (None, d1)
      | (Ret sent, d1) \<Rightarrow>
          if sent \<noteq> w_len m then (None, d1\<lparr>d_bufs := set_offset r sent (d_bufs d1)\<rparr>)
          else flush_loop fd rs (d1\<lparr>d_bufs := PSIDMsgbuf_put r (set_queue (nat fd) rs (d_bufs d1))\<rparr>))"

text \<open>On an error the function returns at once: the flag \<open>FLUSH\<close> stays set.\<close>

definition flushClientMsgs :: "int \<Rightarrow> daemon \<Rightarrow> nat outcome \<times> daemon" where
  "flushClientMsgs fd d =
     (if \<not> doCheckClient fd d then (Fail EINVAL, d)
      else if c_flush (d_cl d (nat fd)) \<or> c_close (d_cl d (nat fd)) then (Ret 1, d)
      else
        let d1 = upd_client fd (\<lambda>c. c\<lparr>c_flush := True\<rparr>) d
        in case flush_loop fd (cqueue fd d1) d1 of
          (Some e, d2) \<Rightarrow> (Fail e, d2)
        | (None, d2) \<Rightarrow>
            let d3 = (if cqueue fd d2 = [] \<and> c_acks (d_cl d2 (nat fd)) = 0
                      then send_conts_of fd (c_tid (d_cl d2 (nat fd))) d2 else d2);
                d4 = upd_client fd (\<lambda>c. c\<lparr>c_flush := False\<rparr>) d3
            in if cqueue fd d4 \<noteq> [] then (Ret 1, d4)
               else (Ret 0, d4\<lparr>d_wait := (d_wait d4)(nat fd := False)\<rparr>))"

text \<open>
  \<open>PSIDclient_send\<close>; the value \<open>Fail EAGAIN\<close> stands for \<open>EWOULDBLOCK\<close>, the same number, and \<open>Exit\<close>
  for the undefined behaviour of a negative index.
\<close>

definition PSIDclient_send :: "wmsg \<Rightarrow> daemon \<Rightarrow> nat outcome \<times> daemon" where
  "PSIDclient_send m d =
     (if PSC_getID (d_myID d) (w_dest m) \<noteq> d_myID d then (Fail EHOSTUNREACH, d)
      else case d_tasks d (w_dest m) of
        None \<Rightarrow> (Fail EHOSTUNREACH, d)
      | Some task \<Rightarrow>
          let fd = t_fd task in
          if fd = -1 \<or> \<not> doCheckClient fd d then (Fail EHOSTUNREACH, d)
          else
            let d1 = (if cqueue fd d \<noteq> [] then snd (flushClientMsgs fd d) else d);
                (r, d2) = (if cqueue fd d1 = [] then doSend fd m 0 d1 else (Ret 0, d1))
            in case r of
              Fail e \<Rightarrow> (Fail e, d2)
            | Exit \<Rightarrow> (Exit, d2)
            | Ret sent \<Rightarrow>
                if sent = w_len m then (Ret sent, d2)
                else case storeMsg fd m sent d2 of
                  (False, d3) \<Rightarrow> (Fail ENOBUFS, d3)
                | (True, d3) \<Rightarrow>
                    let d4 = d3\<lparr>d_wait := (d_wait d3)(nat fd := True)\<rparr> in
                    if \<not> PSIDFlwCntrl_applicable m then (Fail EAGAIN, d4)
                    else case PSIDFlwCntrl_addStop (nat fd) (w_sender m) (d_flow d4) of
                      None \<Rightarrow> (Exit, d4)
                    | Some (ret, f) \<Rightarrow>
                        let d5 = d4\<lparr>d_flow := f\<rparr> in
                        if ret < 0 then (Fail ENOBUFS, d5)
                        else if ret = 0 then (Ret (w_len m), d5)
                        else (Fail EAGAIN, upd_client fd (\<lambda>c. c\<lparr>c_acks := c_acks c + 1\<rparr>) d5))"

definition PSIDclient_releaseACK :: "int \<Rightarrow> daemon \<Rightarrow> daemon" where
  "PSIDclient_releaseACK fd d =
     (if \<not> doCheckClient fd d then d
      else
        let d1 = upd_client fd (\<lambda>c. c\<lparr>c_acks := c_acks c - 1\<rparr>) d
        in if c_acks (d_cl d1 (nat fd)) = 0 \<and> cqueue fd d1 = []
           then send_conts_of fd (c_tid (d_cl d1 (nat fd))) d1 else d1)"

section \<open>Dispatching messages\<close>

text \<open>
  \<open>PSID_handleMsg\<close> and \<open>sendRDP\<close> are met as recorded messages with results from a script.  The nested
  call that sends the SENDSTOP is recorded, too.  \<open>d_rdrop\<close> is the hook that drops messages at random.
\<close>

definition via_net :: "wmsg \<Rightarrow> daemon \<Rightarrow> nat outcome \<times> daemon" where
  "via_net m d =
     (case d_net d of
        [] \<Rightarrow> (Ret (w_len m), d\<lparr>d_out := d_out d @ [m]\<rparr>)
      | r # rs \<Rightarrow> (r, d\<lparr>d_net := rs, d_out := (if r = Ret (w_len m) then d_out d @ [m] else d_out d)\<rparr>))"

definition stop_msg :: "bool \<Rightarrow> wmsg \<Rightarrow> wmsg" where
  "stop_msg isRDP m = \<lparr>w_type = PSP_DD_SENDSTOP, w_len = 32, w_sender = w_dest m, w_dest = w_sender m,
     w_body = le_bytes 4 (if isRDP then 0 else 1) @ replicate 4 0\<rparr>"

definition sendMsg :: "wmsg \<Rightarrow> daemon \<Rightarrow> nat outcome \<times> daemon" where
  "sendMsg m d =
     (if d_rdrop d m then (Fail EHOSTUNREACH, d\<lparr>d_drop := d_drop d @ [m]\<rparr>) else
      let myTID = PSC_getTID (d_myID d) (-1) 0;
          node = PSC_getID (d_myID d) (w_dest m);
          (isRDP, r, d1) =
            (if w_dest m = myTID then (False, via_net m d)
             else if node = d_myID d
             then (if sint (w_type m) < 0x100 then (False, PSIDclient_send m d) else (False, via_net m d))
             else if PSC_validNode (d_nodes d) node then (True, via_net m d)
             else (False, Fail EHOSTUNREACH, d))
      in case r of
        Fail e \<Rightarrow>
          let d2 = (if e = EHOSTUNREACH \<or> e = EPIPE \<or> e = ENOBUFS then d1\<lparr>d_drop := d_drop d1 @ [m]\<rparr> else d1)
          in if e = EAGAIN \<and> PSIDFlwCntrl_applicable m
             then (Ret 0, d2\<lparr>d_out := d_out d2 @ [stop_msg isRDP m]\<rparr>) else (Fail e, d2)
      | r \<Rightarrow> (r, d1))"

section \<open>Handlers of flow control messages\<close>

definition msg_SENDSTOP :: "wmsg \<Rightarrow> daemon \<Rightarrow> daemon" where
  "msg_SENDSTOP m d =
     (case d_tasks d (w_dest m) of
        None \<Rightarrow> d
      | Some task \<Rightarrow>
          let ack = header_msg PSP_DD_SENDSTOPACK (w_dest m) (w_sender m);
              d1 = (if t_logger task then d\<lparr>d_out := d_out d @ [m\<lparr>w_type := PSP_CD_SENDSTOP\<rparr>]\<rparr>
                    else if t_fd task \<noteq> -1
                    then upd_task (w_dest m) (\<lambda>t. t\<lparr>t_stops := t_stops t + 1\<rparr>)
                           (if t_stops task = 0 then d\<lparr>d_disabled := (d_disabled d)(nat (t_fd task) := True)\<rparr> else d)
                    else d)
          in if w_len m > DDBufferMsgOffset \<and> le_nat (take 4 (w_body m)) \<noteq> 0 then d1\<lparr>d_out := d_out d1 @ [ack]\<rparr> else d1)"

definition msg_SENDSTOPACK :: "wmsg \<Rightarrow> daemon \<Rightarrow> daemon" where
  "msg_SENDSTOPACK m d =
     (case d_tasks d (w_dest m) of
        None \<Rightarrow> d
      | Some task \<Rightarrow> if t_fd task \<noteq> -1 then PSIDclient_releaseACK (t_fd task) d else d)"

definition msg_SENDCONT :: "wmsg \<Rightarrow> daemon \<Rightarrow> daemon" where
  "msg_SENDCONT m d =
     (case d_tasks d (w_dest m) of
        None \<Rightarrow> d
      | Some task \<Rightarrow>
          if t_logger task then d\<lparr>d_out := d_out d @ [m\<lparr>w_type := PSP_CD_SENDCONT\<rparr>]\<rparr>
          else if t_fd task \<noteq> -1
          then (let d1 = upd_task (w_dest m) (\<lambda>t. t\<lparr>t_stops := t_stops t - 1\<rparr>) d
                in if t_stops task - 1 = 0 then d1\<lparr>d_disabled := (d_disabled d1)(nat (t_fd task) := False)\<rparr> else d1)
          else d)"

end
