(* ===== verification/Client_Spec.thy ===== *)
theory Client_Spec
  imports Client
begin

text \<open>
  The invariant of the connections and what the operations do to the stream of bytes to a client and
  to the set of senders that wait for it, as long as neither sockets nor memory fail.
\<close>

section \<open>The invariant\<close>

definition wf_msg :: "wmsg \<Rightarrow> bool" where
  "wf_msg m \<longleftrightarrow> length (msg_bytes m) = w_len m"

definition pending :: "daemon \<Rightarrow> nat \<Rightarrow> byte list" where
  "pending d fd = concat (map (\<lambda>(off, m). drop off (msg_bytes m)) (queue_view (pool.more (d_bufs d)) fd))"

text \<open>What the client has received and what is queued for it.\<close>

definition stream :: "daemon \<Rightarrow> nat \<Rightarrow> byte list" where
  "stream d fd = d_wire d fd @ pending d fd"

definition no_errors :: "wres list \<Rightarrow> bool" where
  "no_errors ws \<longleftrightarrow> (\<forall>e. WErr e \<in> set ws \<longrightarrow> e = EAGAIN \<or> e = EINTR)"

definition queues_wf :: "msgbufs \<Rightarrow> bool" where
  "queues_wf s \<longleftrightarrow> (\<forall>fd. \<forall>(off, m)\<in>set (queue_view (pool.more s) fd). wf_msg m)"

definition client_inv :: "daemon \<Rightarrow> bool" where
  "client_inv d \<longleftrightarrow> (\<exists>B. flow_ok (d_flow d) B) \<and> (\<exists>B. bufs_ok (d_bufs d) B) \<and> queues_wf (d_bufs d)
     \<and> no_errors (d_writes d) \<and> memory_left (d_flow d) \<and> memory_left (d_bufs d)"

text \<open>Fields that only some operations touch.\<close>

definition same_setup :: "daemon \<Rightarrow> daemon \<Rightarrow> bool" where
  "same_setup d d' \<longleftrightarrow> d_myID d' = d_myID d \<and> d_up d' = d_up d \<and> d_nodes d' = d_nodes d \<and> d_max d' = d_max d
     \<and> d_tasks d' = d_tasks d"

lemma same_setup_refl [simp]: "same_setup d d"
  by (simp add: same_setup_def)

lemma same_setup_trans: "same_setup d e \<Longrightarrow> same_setup e f \<Longrightarrow> same_setup d f"
  by (simp add: same_setup_def)

section \<open>Sending bytes\<close>

lemma doSend_spec:
  assumes ok: "no_errors (d_writes d)" and m: "wf_msg m" "off \<le> w_len m"
  shows "\<exists>sent ws. doSend fd m off d = (Ret sent, d\<lparr>d_writes := ws,
      d_wire := (d_wire d)(nat fd := d_wire d (nat fd) @ take (sent - off) (drop off (msg_bytes m)))\<rparr>)
     \<and> off \<le> sent \<and> sent \<le> w_len m \<and> no_errors ws \<and> set ws \<subseteq> set (d_writes d)"
proof -
  obtain r sent ws where s: "PSCio_sendSProg (w_len m - off) (d_writes d) = (r, sent, ws)" by (metis prod_cases3)
  note sr = sendSProg_result [OF s]
  have ws: "no_errors ws" "set ws \<subseteq> set (d_writes d)" using sr ok by (auto simp: no_errors_def)
  show ?thesis
  proof (cases r)
    case (Ret k)
    then have "k = sent" "sent \<le> w_len m - off" using sr by auto
    then show ?thesis using Ret s m(2) ws
      by (intro exI [of _ "off + sent"] exI [of _ ws]) (simp add: doSend_def Let_def)
  next
    case (Fail e)
    then have "sent = 0" "e = EAGAIN \<or> e = EINTR" using sr ok by (auto simp: no_errors_def)
    then show ?thesis using Fail s m(2) ws
      by (intro exI [of _ off] exI [of _ ws]) (auto simp: doSend_def Let_def)
  next
    case Exit
    then show ?thesis using sr by simp
  qed
qed

lemma doSend_all:
  assumes "d_writes d = []" "wf_msg m" "off \<le> w_len m"
  shows "doSend fd m off d = (Ret (w_len m), d\<lparr>d_wire := (d_wire d)(nat fd := d_wire d (nat fd) @ drop off (msg_bytes m))\<rparr>)"
proof -
  have "PSCio_sendSProg (w_len m - off) [] = (Ret (w_len m - off), w_len m - off, [])"
    by (simp add: PSCio_sendSProg_def PSCio_sendFunc_def send_loop.simps PSCIO_MAX_RETRY_def)
  moreover have "take (w_len m - off) (drop off (msg_bytes m)) = drop off (msg_bytes m)"
    using assms(2) by (simp add: wf_msg_def)
  ultimately show ?thesis using assms(1,3) by (cases d) (simp add: doSend_def Let_def)
qed

section \<open>Flushing\<close>

lemma queues_wf_upd:
  assumes "queues_wf s" "queue_view (pool.more s') = (queue_view (pool.more s))(fd := l)" "\<forall>x\<in>set l. wf_msg (snd x)"
  shows "queues_wf s'"
  using assms unfolding queues_wf_def by (auto simp: split_beta)

lemma queues_wf_at: "queues_wf s \<Longrightarrow> x \<in> set (queue_view (pool.more s) fd) \<Longrightarrow> wf_msg (snd x)"
  unfolding queues_wf_def by (auto simp: split_beta)

lemma flush_loop_spec:
  assumes "bufs_ok (d_bufs d) B" "queues_wf (d_bufs d)" "no_errors (d_writes d)" "cqueue fd d = rs"
    "flush_loop fd rs d = (res, d')"
  shows "res = None \<and> (\<exists>ws wi bs. d' = d\<lparr>d_writes := ws, d_wire := wi, d_bufs := bs\<rparr>
       \<and> (\<exists>B'. bufs_ok bs B') \<and> queues_wf bs \<and> no_errors ws \<and> memory_left bs = memory_left (d_bufs d)
       \<and> (d_writes d = [] \<longrightarrow> queue (nat fd) bs = [] \<and> ws = []))
     \<and> (\<forall>f. stream d' f = stream d f)"
  using assms
proof (induction rs arbitrary: d B)
  case Nil
  then have "d' = d\<lparr>d_writes := d_writes d, d_wire := d_wire d, d_bufs := d_bufs d\<rparr>" by simp
  then show ?case using Nil
    by (intro conjI exI [of _ "d_writes d"] exI [of _ "d_wire d"] exI [of _ "d_bufs d"]) (auto simp: cqueue_def)
next
  case (Cons r rs)
  let ?v = "queue_view (pool.more (d_bufs d))"
  let ?m = "mb_msg (pool.more (d_bufs d)) r" and ?off = "mb_offset (pool.more (d_bufs d)) r"
  have q: "queue (nat fd) (d_bufs d) = r # rs" using Cons.prems(4) by (simp add: cqueue_def)
  then have v: "?v (nat fd) = (?off, ?m) # tl (?v (nat fd))" by (simp add: queue_view_def queue_def)
  have "(?off, ?m) \<in> set (?v (nat fd))" by (subst v) simp
  then have wf: "wf_msg ?m" using queues_wf_at [OF Cons.prems(2)] by fastforce
  have tl_wf: "\<forall>x\<in>set (tl (?v (nat fd))). wf_msg (snd x)"
    using queues_wf_at [OF Cons.prems(2), of _ "nat fd"] by (subst (asm) v) simp
  have rq: "r \<in> set (mqueue (pool.more (d_bufs d)) (nat fd))" using q by (simp add: queue_def)
  have L: "bufs_links (pool.more (d_bufs d)) B" using Cons.prems(1) by (simp add: bufs_ok_def)
  have off: "?off \<le> w_len ?m" "mb_size (pool.more (d_bufs d)) r = w_len ?m"
    using bufs_linksD(3,4) [OF L rq] by simp_all
  from doSend_spec [OF Cons.prems(3) wf off(1), of fd] obtain sent ws where s: "doSend fd ?m ?off d = (Ret sent,
      d\<lparr>d_writes := ws, d_wire := (d_wire d)(nat fd := d_wire d (nat fd) @ take (sent - ?off) (drop ?off (msg_bytes ?m)))\<rparr>)"
      "?off \<le> sent" "sent \<le> w_len ?m" "no_errors ws" "set ws \<subseteq> set (d_writes d)" by blast
  let ?d1 = "d\<lparr>d_writes := ws, d_wire := (d_wire d)(nat fd := d_wire d (nat fd) @ take (sent - ?off) (drop ?off (msg_bytes ?m)))\<rparr>"
  have pend: "pending d (nat fd) = drop ?off (msg_bytes ?m) @ concat (map (\<lambda>(off, m). drop off (msg_bytes m)) (tl (?v (nat fd))))"
    unfolding pending_def by (subst v) simp
  have cut: "take (sent - ?off) (drop ?off (msg_bytes ?m)) @ drop sent (msg_bytes ?m) = drop ?off (msg_bytes ?m)"
    using s(2) by (metis append_take_drop_id drop_drop le_add_diff_inverse2)
  show ?case
  proof (cases "sent = w_len ?m")
    case False
    let ?bs = "set_offset r sent (d_bufs d)"
    note o = offset_first [OF Cons.prems(1) q, of sent, unfolded off(2), OF s(3)]
    have d': "res = None" "d' = ?d1\<lparr>d_bufs := ?bs\<rparr>" using Cons.prems(5) s(1) False by (auto simp: Let_def)
    have "queues_wf ?bs"
      using queues_wf_upd [OF Cons.prems(2) o(3)] wf tl_wf by simp
    moreover have "stream d' f = stream d f" for f
      using cut unfolding stream_def d'(2) by (cases "f = nat fd") (simp_all add: pending_def o(3) pend [unfolded pending_def])
    moreover have "d_writes d \<noteq> []" using False doSend_all [OF _ wf off(1), of d fd] s(1) by auto
    ultimately show ?thesis using o(1,4) s(4) d'
      by (intro conjI exI [of _ ws] exI [of _ "d_wire ?d1"] exI [of _ ?bs]) (auto simp: fun_upd_def)
  next
    case True
    let ?bs = "PSIDMsgbuf_put r (set_queue (nat fd) rs (d_bufs d))"
    let ?d2 = "?d1\<lparr>d_bufs := ?bs\<rparr>"
    note rf = release_first [OF Cons.prems(1) q]
    obtain B2 where B2: "bufs_ok (d_bufs ?d2) B2" using rf(1) by auto
    have wf2: "queues_wf (d_bufs ?d2)"
      using queues_wf_upd [OF Cons.prems(2) rf(2)] tl_wf by simp
    have q2: "cqueue fd ?d2 = rs" using rf(3) by (simp add: cqueue_def)
    have e: "flush_loop fd rs ?d2 = (res, d')" using Cons.prems(5) s(1) True by (simp add: Let_def)
    have st: "stream ?d2 f = stream d f" for f
      using cut True wf unfolding stream_def by (cases "f = nat fd") (simp_all add: pending_def rf(2) pend [unfolded pending_def] wf_msg_def)
    have w: "d_writes d = [] \<longrightarrow> d_writes ?d2 = []" using s(5) by auto
    from Cons.IH [OF B2 wf2 _ q2 e] s(4) obtain ws' wi' bs' where I: "res = None" "d' = ?d2\<lparr>d_writes := ws', d_wire := wi', d_bufs := bs'\<rparr>"
      "\<exists>B'. bufs_ok bs' B'" "queues_wf bs'" "no_errors ws'" "memory_left bs' = memory_left (d_bufs ?d2)"
      "d_writes ?d2 = [] \<longrightarrow> queue (nat fd) bs' = [] \<and> ws' = []" "\<forall>f. stream d' f = stream ?d2 f" by auto
    then show ?thesis using st w rf(4)
      by (intro conjI exI [of _ ws'] exI [of _ wi'] exI [of _ bs']) auto
  qed
qed

lemma send_conts_of_spec:
  assumes "flow_ok (d_flow d) B"
  shows "\<exists>ms f. send_conts_of fd sender d = d\<lparr>d_flow := f, d_out := d_out d @ ms\<rparr> \<and> (\<exists>B'. flow_ok f B')
     \<and> stopped f = (stopped (d_flow d))(nat fd := {}) \<and> distinct (map w_dest ms)
     \<and> set (map w_dest ms) = {t \<in> stopped (d_flow d) (nat fd). PSC_getPID t \<noteq> 0 \<and> d_up d (PSC_getID (d_myID d) t)}
     \<and> (\<forall>m\<in>set ms. m = header_msg PSP_DD_SENDCONT sender (w_dest m))"
proof -
  obtain n ms f where s: "PSIDFlwCntrl_sendContMsgs (d_myID d) (d_up d) (nat fd) sender (d_flow d) = ((n, ms), f)"
    by (metis prod.exhaust)
  show ?thesis using sendContMsgs_spec [OF assms s] s
    by (intro exI [of _ ms] exI [of _ f]) (simp add: send_conts_of_def Let_def)
qed

lemma pool_memory:
  fixes s :: "'a pool_scheme"
  assumes "pmem s' = pmem s" shows "memory_left s' = memory_left s"
  using assms by (simp add: memory_left_def)

lemma pmem_send_conts: "send_conts myID up h k sender is s = (ms, s') \<Longrightarrow> pmem s' = pmem s"
  by (induction "is" arbitrary: s ms s')
    (auto simp: Let_def set_bucket_def PSitems_putItem_def split: prod.splits if_splits)

lemma pmem_send_cont_buckets: "send_cont_buckets myID up h sender ks s = (ms, s') \<Longrightarrow> pmem s' = pmem s"
  by (induction ks arbitrary: s ms s') (auto simp: Let_def dest: pmem_send_conts split: prod.splits)

lemma send_conts_of_inv:
  assumes "client_inv d"
  shows "client_inv (send_conts_of fd sender d)" "stream (send_conts_of fd sender d) f = stream d f"
    "same_setup d (send_conts_of fd sender d)" "d_writes (send_conts_of fd sender d) = d_writes d"
    "d_cl (send_conts_of fd sender d) = d_cl d" "d_bufs (send_conts_of fd sender d) = d_bufs d"
proof -
  obtain B where B: "flow_ok (d_flow d) B" using assms by (auto simp: client_inv_def)
  obtain n ms s where s: "PSIDFlwCntrl_sendContMsgs (d_myID d) (d_up d) (nat fd) sender (d_flow d) = ((n, ms), s)"
    by (metis prod.exhaust)
  have p: "pmem s = pmem (d_flow d)"
    using s pmem_send_cont_buckets by (auto simp: PSIDFlwCntrl_sendContMsgs_def split: prod.splits)
  have e: "send_conts_of fd sender d = d\<lparr>d_flow := s, d_out := d_out d @ ms\<rparr>" using s by (simp add: send_conts_of_def)
  show "client_inv (send_conts_of fd sender d)"
    using assms sendContMsgs_spec [OF B s] pool_memory [OF p] unfolding e by (auto simp: client_inv_def)
  show "stream (send_conts_of fd sender d) f = stream d f" "same_setup d (send_conts_of fd sender d)"
    "d_writes (send_conts_of fd sender d) = d_writes d"
    "d_cl (send_conts_of fd sender d) = d_cl d" "d_bufs (send_conts_of fd sender d) = d_bufs d"
    by (simp_all add: e stream_def pending_def same_setup_def)
qed

lemma upd_client_inv [simp]:
  "client_inv (upd_client fd f d) = client_inv d" "stream (upd_client fd f d) = stream d"
  "same_setup d0 (upd_client fd f d) = same_setup d0 d" "d_writes (upd_client fd f d) = d_writes d"
  "d_bufs (upd_client fd f d) = d_bufs d" "d_flow (upd_client fd f d) = d_flow d" "d_out (upd_client fd f d) = d_out d"
  "cqueue f' (upd_client fd f d) = cqueue f' d" "doCheckClient f' (upd_client fd f d) = doCheckClient f' d"
  "d_cl (upd_client fd f d) = (d_cl d)(nat fd := f (d_cl d (nat fd)))"
  by (simp_all add: upd_client_def client_inv_def stream_def pending_def same_setup_def cqueue_def doCheckClient_def fun_eq_iff)

lemma wait_inv [simp]:
  "client_inv (d\<lparr>d_wait := w\<rparr>) = client_inv d" "stream (d\<lparr>d_wait := w\<rparr>) = stream d"
  "same_setup d0 (d\<lparr>d_wait := w\<rparr>) = same_setup d0 d" "cqueue f' (d\<lparr>d_wait := w\<rparr>) = cqueue f' d"
  by (simp_all add: client_inv_def stream_def pending_def same_setup_def cqueue_def fun_eq_iff)

lemma flush_loop_inv:
  assumes inv: "client_inv d" and f: "flush_loop fd (cqueue fd d) d = (res, d')"
  shows "res = None" "client_inv d'" "\<And>f. stream d' f = stream d f" "same_setup d d'" "d_cl d' = d_cl d" "d_flow d' = d_flow d"
    "d_out d' = d_out d" "d_writes d = [] \<Longrightarrow> cqueue fd d' = [] \<and> d_writes d' = []"
proof -
  obtain B where B: "bufs_ok (d_bufs d) B" using inv by (auto simp: client_inv_def)
  have "queues_wf (d_bufs d)" "no_errors (d_writes d)" using inv by (simp_all add: client_inv_def)
  from flush_loop_spec [OF B this refl f] obtain ws wi bs where
    d': "res = None" "d' = d\<lparr>d_writes := ws, d_wire := wi, d_bufs := bs\<rparr>" "\<exists>B'. bufs_ok bs B'" "queues_wf bs" "no_errors ws"
      "memory_left bs = memory_left (d_bufs d)" "d_writes d = [] \<longrightarrow> queue (nat fd) bs = [] \<and> ws = []"
      "\<forall>f. stream d' f = stream d f" by blast
  then show "res = None" "\<And>f. stream d' f = stream d f" by simp_all
  show "client_inv d'" using d' inv by (simp add: client_inv_def)
  show "same_setup d d'" "d_cl d' = d_cl d" "d_flow d' = d_flow d" "d_out d' = d_out d"
    "d_writes d = [] \<Longrightarrow> cqueue fd d' = [] \<and> d_writes d' = []"
    using d'(7) by (simp_all add: d'(2) same_setup_def cqueue_def)
qed

lemma flush_inv:
  assumes inv: "client_inv d"
  shows "client_inv (snd (flushClientMsgs fd d))" "stream (snd (flushClientMsgs fd d)) f = stream d f"
    "same_setup d (snd (flushClientMsgs fd d))"
proof -
  let ?d1 = "upd_client fd (\<lambda>c. c\<lparr>c_flush := True\<rparr>) d"
  obtain res d2 where 2: "flush_loop fd (cqueue fd ?d1) ?d1 = (res, d2)" by (rule prod.exhaust)
  have i1: "client_inv ?d1" using inv by simp
  note l = flush_loop_inv [OF i1 2]
  have ss: "same_setup d ?d1" by simp
  let ?d3 = "if cqueue fd d2 = [] \<and> c_acks (d_cl d2 (nat fd)) = 0 then send_conts_of fd (c_tid (d_cl d2 (nat fd))) d2 else d2"
  have 3: "client_inv ?d3" "stream ?d3 f = stream d2 f" "same_setup d2 ?d3"
    using l(2) send_conts_of_inv [OF l(2)] by simp_all
  have "client_inv (snd (flushClientMsgs fd d)) \<and> stream (snd (flushClientMsgs fd d)) f = stream d f
     \<and> same_setup d (snd (flushClientMsgs fd d))"
    using 2 l(1,3) 3 same_setup_trans [OF same_setup_trans [OF ss l(4)] 3(3)] inv
    by (auto simp: flushClientMsgs_def Let_def simp del: if_split_eq1)
  then show "client_inv (snd (flushClientMsgs fd d))" "stream (snd (flushClientMsgs fd d)) f = stream d f"
    "same_setup d (snd (flushClientMsgs fd d))" by simp_all
qed

end
