(* ===== verification/Client_Run.thy ===== *)
theory Client_Run
  imports Client_Spec
begin

text \<open>
  Sending to a client, acknowledgements, garbage collection, and sequences of all of them: the stream
  of bytes to a client and the invariant.
\<close>

section \<open>Sending a message\<close>

text \<open>The local client a message goes to.\<close>

definition target :: "daemon \<Rightarrow> wmsg \<Rightarrow> nat option" where
  "target d m =
     (if PSC_getID (d_myID d) (w_dest m) \<noteq> d_myID d then None
      else case d_tasks d (w_dest m) of
        None \<Rightarrow> None
      | Some t \<Rightarrow> if t_fd t = -1 \<or> \<not> doCheckClient (t_fd t) d then None else Some (nat (t_fd t)))"

lemma target_setup: "same_setup d d' \<Longrightarrow> target d' m = target d m"
  by (simp add: same_setup_def target_def doCheckClient_def cong: if_cong option.case_cong)

text \<open>Senders that can be entered in the table of stopped tasks.\<close>

definition sender_ok :: "wmsg \<Rightarrow> bool" where
  "sender_ok m \<longleftrightarrow> wf_msg m \<and> (PSIDFlwCntrl_applicable m \<longrightarrow> valid_key (w_sender m))"

lemma cqueue_view: "cqueue fd d = [] \<longleftrightarrow> queue_view (pool.more (d_bufs d)) (nat fd) = []"
  by (simp add: cqueue_def queue_def queue_view_def)

lemma storeMsg_spec:
  assumes inv: "client_inv d" and c: "doCheckClient fd d" and m: "wf_msg m" "off \<le> w_len m"
  shows "\<exists>bs. storeMsg fd m off d = (True, d\<lparr>d_bufs := bs\<rparr>) \<and> client_inv (d\<lparr>d_bufs := bs\<rparr>)
     \<and> pending (d\<lparr>d_bufs := bs\<rparr>) = (pending d)(nat fd := pending d (nat fd) @ drop off (msg_bytes m))
     \<and> queue (nat fd) bs \<noteq> []"
proof -
  obtain B where B: "bufs_ok (d_bufs d) B" using inv by (auto simp: client_inv_def)
  obtain b bs where s: "store_buf (nat fd) m off (d_bufs d) = (b, bs)" by (rule prod.exhaust)
  have mem: "memory_left (d_bufs d)" using inv by (simp add: client_inv_def)
  note sp = store_buf_spec [OF B m(2) s]
  then have b: "b" "memory_left bs" using mem by auto
  have v: "queue_view (pool.more bs) = (queue_view (pool.more (d_bufs d)))(nat fd := queue_view (pool.more (d_bufs d)) (nat fd) @ [(off, m)])"
    using sp b(1) by simp
  have "queues_wf bs"
    using inv queues_wf_upd [OF _ v] queues_wf_at [of "d_bufs d"] m(1) by (auto simp: client_inv_def)
  then have "client_inv (d\<lparr>d_bufs := bs\<rparr>)" using inv sp b by (simp add: client_inv_def)
  moreover have "pending (d\<lparr>d_bufs := bs\<rparr>) = (pending d)(nat fd := pending d (nat fd) @ drop off (msg_bytes m))"
    by (simp add: pending_def v fun_eq_iff)
  moreover have "queue_view (pool.more bs) (nat fd) \<noteq> []" by (simp add: v)
  then have "queue (nat fd) bs \<noteq> []" by (simp add: queue_def queue_view_def)
  ultimately show ?thesis using s c b(1) by (intro exI [of _ bs]) (simp add: storeMsg_def)
qed

lemma doSend_inv:
  assumes inv: "client_inv d" and m: "wf_msg m" and empty: "cqueue fd d = []"
  shows "\<exists>sent d'. doSend fd m 0 d = (Ret sent, d') \<and> sent \<le> w_len m \<and> client_inv d' \<and> same_setup d d'
     \<and> d_wire d' = (d_wire d)(nat fd := d_wire d (nat fd) @ take sent (msg_bytes m)) \<and> pending d' = pending d
     \<and> d_cl d' = d_cl d \<and> d_flow d' = d_flow d \<and> d_bufs d' = d_bufs d \<and> d_out d' = d_out d"
proof -
  from doSend_spec [OF _ m, of d 0 fd] inv obtain sent ws where s: "doSend fd m 0 d = (Ret sent, d\<lparr>d_writes := ws,
      d_wire := (d_wire d)(nat fd := d_wire d (nat fd) @ take sent (msg_bytes m))\<rparr>)" "sent \<le> w_len m" "no_errors ws"
    by (auto simp: client_inv_def)
  then show ?thesis using inv
    by (intro exI [of _ sent] exI [of _ "d\<lparr>d_writes := ws, d_wire := (d_wire d)(nat fd := d_wire d (nat fd) @ take sent (msg_bytes m))\<rparr>"])
      (auto simp: client_inv_def same_setup_def pending_def fun_eq_iff)
qed

text \<open>What \<open>addStop\<close> does when memory is left.\<close>

lemma addStop_memory:
  assumes ok: "flow_ok s B" and key: "valid_key key" and mem: "memory_left s"
  shows "\<exists>r s' B'. PSIDFlwCntrl_addStop h key s = Some (r, s') \<and> flow_ok s' B' \<and> memory_left s'
     \<and> (r = 0 \<and> key \<in> stopped s h \<and> s' = s
        \<or> r = 1 \<and> key \<notin> stopped s h \<and> stopped s' = (stopped s)(h := insert key (stopped s h)))"
proof -
  from addStop_spec [OF ok key, of h] obtain r s' B' where a: "PSIDFlwCntrl_addStop h key s = Some (r, s')" "flow_ok s' B'"
    "r = 0 \<and> key \<in> stopped s h \<and> s' = s \<or> r = -1 \<and> key \<notin> stopped s h \<and> stopped s' = stopped s
      \<or> r = 1 \<and> key \<notin> stopped s h \<and> stopped s' = (stopped s)(h := insert key (stopped s h))" by blast
  obtain r1 s1 where g: "PSitems_getItem s = (r1, s1)" by (rule prod.exhaust)
  have "pool_inv s B" using ok by (simp add: flow_ok_def)
  from getItem_succeeds [OF this mem g] have "r1 \<noteq> None" "memory_left s1" by simp_all
  then have "r \<noteq> -1 \<and> memory_left s'"
    using a(1) g mem by (auto simp: PSIDFlwCntrl_addStop_def set_bucket_def store_tid_def memory_left_def Let_def split: option.splits if_splits)
  then show ?thesis using a by blast
qed

lemma send_inv:
  assumes inv: "client_inv d" and m: "sender_ok m" and s: "PSIDclient_send m d = (r, d')"
  shows "client_inv d'" "same_setup d d'"
    "stream d' f = stream d f @ (if target d m = Some f then msg_bytes m else [])"
    "target d m \<noteq> None \<Longrightarrow> r = Ret (w_len m) \<or> r = Fail EAGAIN"
proof -
  have wf: "wf_msg m" using m by (simp add: sender_ok_def)
  have "client_inv d' \<and> same_setup d d' \<and> stream d' f = stream d f @ (if target d m = Some f then msg_bytes m else [])
    \<and> (target d m \<noteq> None \<longrightarrow> r = Ret (w_len m) \<or> r = Fail EAGAIN)"
  proof (cases "target d m")
    case None
    then have "d' = d" using s by (auto simp: target_def PSIDclient_send_def Let_def split: option.splits if_splits)
    then show ?thesis using None inv by simp
  next
    case (Some h)
    then obtain t where t: "d_tasks d (w_dest m) = Some t" "PSC_getID (d_myID d) (w_dest m) = d_myID d" "t_fd t \<noteq> -1"
      "doCheckClient (t_fd t) d" "h = nat (t_fd t)" by (auto simp: target_def split: option.splits if_splits)
    let ?fd = "t_fd t"
    define d1 where "d1 = (if cqueue ?fd d \<noteq> [] then snd (flushClientMsgs ?fd d) else d)"
    have 1: "client_inv d1" "stream d1 g = stream d g" "same_setup d d1" for g
      using flush_inv [OF inv, of ?fd] inv by (simp_all add: d1_def)
    obtain r2 d2 where 2: "(if cqueue ?fd d1 = [] then doSend ?fd m 0 d1 else (Ret 0, d1)) = (r2, d2)" by (rule prod.exhaust)
    have "\<exists>sent. r2 = Ret sent \<and> sent \<le> w_len m \<and> client_inv d2 \<and> same_setup d1 d2 \<and>
        d_wire d2 = (d_wire d1)(nat ?fd := d_wire d1 (nat ?fd) @ take sent (msg_bytes m)) \<and> pending d2 = pending d1
        \<and> (sent \<noteq> 0 \<longrightarrow> pending d1 (nat ?fd) = [])"
    proof (cases "cqueue ?fd d1 = []")
      case True
      then have "pending d1 (nat ?fd) = []" by (simp add: pending_def cqueue_view)
      then show ?thesis using True 2 doSend_inv [OF 1(1) wf True] by auto
    next
      case False
      then show ?thesis using 2 1(1) by (auto intro!: exI [of _ 0])
    qed
    then obtain sent where R: "r2 = Ret sent" "sent \<le> w_len m" "client_inv d2" "same_setup d1 d2"
      "d_wire d2 = (d_wire d1)(nat ?fd := d_wire d1 (nat ?fd) @ take sent (msg_bytes m))" "pending d2 = pending d1"
      "sent \<noteq> 0 \<longrightarrow> pending d1 (nat ?fd) = []" by blast
    have ss2: "same_setup d d2" using 1(3) R(4) by (rule same_setup_trans)
    have send: "PSIDclient_send m d = (if sent = w_len m then (Ret sent, d2) else
        case storeMsg ?fd m sent d2 of (False, d3) \<Rightarrow> (Fail ENOBUFS, d3)
        | (True, d3) \<Rightarrow> (let d4 = d3\<lparr>d_wait := (d_wait d3)(nat ?fd := True)\<rparr> in
           if \<not> PSIDFlwCntrl_applicable m then (Fail EAGAIN, d4)
           else case PSIDFlwCntrl_addStop (nat ?fd) (w_sender m) (d_flow d4) of None \<Rightarrow> (Exit, d4)
           | Some (ret, f) \<Rightarrow> let d5 = d4\<lparr>d_flow := f\<rparr> in
               if ret < 0 then (Fail ENOBUFS, d5) else if ret = 0 then (Ret (w_len m), d5)
               else (Fail EAGAIN, upd_client ?fd (\<lambda>c. c\<lparr>c_acks := c_acks c + 1\<rparr>) d5)))"
      by (simp only: PSIDclient_send_def Let_def t(1-4) d1_def [symmetric] 2 R(1) simp_thms if_False if_True option.case prod.case outcome.case)
    show ?thesis
    proof (cases "sent = w_len m")
      case True
      then have "r = Ret (w_len m)" "d' = d2" using s send by simp_all
      moreover have "stream d2 f = stream d1 f @ (if h = f then msg_bytes m else [])"
        using R True wf by (auto simp: stream_def t(5) wf_msg_def)
      ultimately show ?thesis using R(3) ss2 1(2) Some by auto
    next
      case False
      have c2: "doCheckClient ?fd d2" using t(4) ss2 by (simp add: doCheckClient_def same_setup_def)
      from storeMsg_spec [OF R(3) c2 wf R(2)] obtain bs where
        st: "storeMsg ?fd m sent d2 = (True, d2\<lparr>d_bufs := bs\<rparr>)" "client_inv (d2\<lparr>d_bufs := bs\<rparr>)"
          "pending (d2\<lparr>d_bufs := bs\<rparr>) = (pending d2)(nat ?fd := pending d2 (nat ?fd) @ drop sent (msg_bytes m))" by blast
      let ?d4 = "d2\<lparr>d_bufs := bs, d_wait := (d_wait d2)(nat ?fd := True)\<rparr>"
      have "stream ?d4 f = stream d1 f @ (if h = f then msg_bytes m else [])"
      proof -
        have "stream (d2\<lparr>d_bufs := bs\<rparr>) f = stream d1 f @ (if h = f then msg_bytes m else [])"
          using R(5-7) unfolding stream_def st(3) by (cases "sent = 0") (auto simp: t(5))
        then show ?thesis by (simp add: stream_def pending_def)
      qed
      moreover have "client_inv ?d4" using st(2) by (simp add: client_inv_def)
      moreover have "same_setup d ?d4" using ss2 by (simp add: same_setup_def)
      ultimately have 4: "client_inv ?d4" "same_setup d ?d4" "stream ?d4 f = stream d1 f @ (if h = f then msg_bytes m else [])" by simp_all
      show ?thesis
      proof (cases "PSIDFlwCntrl_applicable m")
        case False
        then have "r = Fail EAGAIN" "d' = ?d4" using s send \<open>sent \<noteq> w_len m\<close> st(1) by simp_all
        then show ?thesis using 4 1(2) Some by auto
      next
        case True
        then have key: "valid_key (w_sender m)" using m by (simp add: sender_ok_def)
        obtain B where B: "flow_ok (d_flow ?d4) B" "memory_left (d_flow ?d4)" using 4(1) by (auto simp: client_inv_def)
        from addStop_memory [OF B(1) key B(2), of "nat ?fd"] obtain ret fl B' where
          a: "PSIDFlwCntrl_addStop (nat ?fd) (w_sender m) (d_flow ?d4) = Some (ret, fl)" "flow_ok fl B'" "memory_left fl" "ret = 0 \<or> ret = 1"
          by blast
        have 5: "client_inv (?d4\<lparr>d_flow := fl\<rparr>)" "same_setup d (?d4\<lparr>d_flow := fl\<rparr>)" "stream (?d4\<lparr>d_flow := fl\<rparr>) f = stream ?d4 f"
          using 4(1,2) a(2,3) by (auto simp: client_inv_def same_setup_def stream_def pending_def)
        have "r = (if ret = 0 then Ret (w_len m) else Fail EAGAIN)
           \<and> d' = (if ret = 0 then ?d4\<lparr>d_flow := fl\<rparr> else upd_client ?fd (\<lambda>c. c\<lparr>c_acks := c_acks c + 1\<rparr>) (?d4\<lparr>d_flow := fl\<rparr>))"
          using s send \<open>sent \<noteq> w_len m\<close> st(1) True a(1,4) by auto
        then show ?thesis using 4(3) 5 1(2) Some by auto
      qed
    qed
  qed
  then show "client_inv d'" "same_setup d d'" "stream d' f = stream d f @ (if target d m = Some f then msg_bytes m else [])"
    "target d m \<noteq> None \<Longrightarrow> r = Ret (w_len m) \<or> r = Fail EAGAIN" by simp_all
qed

end
