(* ===== verification/Client_Props.thy ===== *)
theory Client_Props
  imports Client_Run
begin

text \<open>
  The properties of pools, of the tables of stopped tasks and of the connections to clients, with
  their witnesses.
\<close>

section \<open>Runs\<close>

datatype client_op = OSend wmsg | OFlush int | OAck int | OGcStops | OGcBufs

fun client_step :: "client_op \<Rightarrow> daemon \<Rightarrow> daemon" where
  "client_step (OSend m) d = (if sender_ok m then snd (PSIDclient_send m d) else d)"
| "client_step (OFlush fd) d = snd (flushClientMsgs fd d)"
| "client_step (OAck fd) d = PSIDclient_releaseACK fd d"
| "client_step OGcStops d = d\<lparr>d_flow := PSIDFlwCntrl_gc (d_flow d)\<rparr>"
| "client_step OGcBufs d = d\<lparr>d_bufs := PSIDMsgbuf_gc (d_bufs d)\<rparr>"

text \<open>The messages of a run that go to a client.\<close>

definition sent_to :: "daemon \<Rightarrow> nat \<Rightarrow> client_op list \<Rightarrow> wmsg list" where
  "sent_to d fd ops =
     concat (map (\<lambda>opn. case opn of OSend m \<Rightarrow> if sender_ok m \<and> target d m = Some fd then [m] else [] | _ \<Rightarrow> []) ops)"

lemma ack_inv:
  assumes "client_inv d"
  shows "client_inv (PSIDclient_releaseACK fd d)" "stream (PSIDclient_releaseACK fd d) f = stream d f"
    "same_setup d (PSIDclient_releaseACK fd d)"
proof -
  let ?d1 = "upd_client fd (\<lambda>c. c\<lparr>c_acks := c_acks c - 1\<rparr>) d"
  have "client_inv ?d1" using assms by simp
  from send_conts_of_inv [OF this] same_setup_trans [OF _ send_conts_of_inv(3) [OF this]] assms
  show "client_inv (PSIDclient_releaseACK fd d)" "stream (PSIDclient_releaseACK fd d) f = stream d f"
    "same_setup d (PSIDclient_releaseACK fd d)"
    by (simp_all add: PSIDclient_releaseACK_def Let_def)
qed

lemma gc_stops_inv:
  assumes "client_inv d"
  shows "client_inv (d\<lparr>d_flow := PSIDFlwCntrl_gc (d_flow d)\<rparr>)" "stream (d\<lparr>d_flow := f\<rparr>) = stream d"
proof -
  obtain B where "flow_ok (d_flow d) B" using assms by (auto simp: client_inv_def)
  from flow_gc [OF this] show "client_inv (d\<lparr>d_flow := PSIDFlwCntrl_gc (d_flow d)\<rparr>)"
    using assms by (auto simp: client_inv_def Let_def memory_left_def)
  show "stream (d\<lparr>d_flow := f\<rparr>) = stream d" by (simp add: stream_def pending_def fun_eq_iff)
qed

lemma gc_bufs_inv:
  assumes "client_inv d"
  shows "client_inv (d\<lparr>d_bufs := PSIDMsgbuf_gc (d_bufs d)\<rparr>)"
    "stream (d\<lparr>d_bufs := PSIDMsgbuf_gc (d_bufs d)\<rparr>) = stream d"
proof -
  obtain B where "bufs_ok (d_bufs d) B" using assms by (auto simp: client_inv_def)
  from msgbuf_gc [OF this] obtain B' where g: "bufs_ok (PSIDMsgbuf_gc (d_bufs d)) B'"
    "queue_view (pool.more (PSIDMsgbuf_gc (d_bufs d))) = queue_view (pool.more (d_bufs d))"
    "pmem (PSIDMsgbuf_gc (d_bufs d)) = pmem (d_bufs d)" by (auto simp: Let_def)
  then show "client_inv (d\<lparr>d_bufs := PSIDMsgbuf_gc (d_bufs d)\<rparr>)"
    using assms by (auto simp: client_inv_def memory_left_def queues_wf_def)
  show "stream (d\<lparr>d_bufs := PSIDMsgbuf_gc (d_bufs d)\<rparr>) = stream d"
    by (simp add: stream_def pending_def g(2) fun_eq_iff)
qed

lemma step_keeps:
  assumes "client_inv d"
  shows "client_inv (client_step opn d)" "same_setup d (client_step opn d)"
    "stream (client_step opn d) f = stream d f @ concat (map msg_bytes (sent_to d f [opn]))"
proof -
  have "client_inv (client_step opn d) \<and> same_setup d (client_step opn d)
     \<and> stream (client_step opn d) f = stream d f @ concat (map msg_bytes (sent_to d f [opn]))"
  proof (cases opn)
    case (OSend m)
    obtain r d' where s: "PSIDclient_send m d = (r, d')" by (rule prod.exhaust)
    show ?thesis using OSend s send_inv [OF assms _ s] assms by (simp add: sent_to_def)
  next
    case (OFlush fd)
    then show ?thesis using flush_inv [OF assms] by (simp add: sent_to_def)
  next
    case (OAck fd)
    then show ?thesis using ack_inv [OF assms] by (simp add: sent_to_def)
  next
    case OGcStops
    then show ?thesis using gc_stops_inv [OF assms] by (simp add: sent_to_def same_setup_def)
  next
    case OGcBufs
    then show ?thesis using gc_bufs_inv [OF assms] by (simp add: sent_to_def same_setup_def)
  qed
  then show "client_inv (client_step opn d)" "same_setup d (client_step opn d)"
    "stream (client_step opn d) f = stream d f @ concat (map msg_bytes (sent_to d f [opn]))" by simp_all
qed

interpretation clients: inv_machine client_step client_inv
  by unfold_locales (rule step_keeps)

lemma sent_to_setup: "same_setup d d' \<Longrightarrow> sent_to d' fd ops = sent_to d fd ops"
  by (simp add: sent_to_def target_setup cong: client_op.case_cong)

lemma run_stream:
  assumes "client_inv d"
  shows "stream (fold client_step ops d) f = stream d f @ concat (map msg_bytes (sent_to d f ops))"
  using assms
proof (induction ops arbitrary: d)
  case (Cons opn ops)
  note k = step_keeps [OF Cons.prems]
  have "sent_to d f (opn # ops) = sent_to d f [opn] @ sent_to d f ops" by (simp add: sent_to_def)
  then show ?case using Cons.IH [OF k(1)] k(3) sent_to_setup [OF k(2)] by simp
qed (simp add: sent_to_def)

section \<open>Waiting for acknowledgements\<close>

definition released :: "int \<Rightarrow> daemon \<Rightarrow> daemon \<Rightarrow> bool" where
  "released fd d d' \<longleftrightarrow> stopped (d_flow d') (nat fd) = {}
     \<and> (\<exists>ms. d_out d' = d_out d @ ms \<and> distinct (map w_dest ms)
          \<and> set (map w_dest ms) = {t \<in> stopped (d_flow d) (nat fd). PSC_getPID t \<noteq> 0 \<and> d_up d (PSC_getID (d_myID d) t)}
          \<and> (\<forall>m\<in>set ms. m = header_msg PSP_DD_SENDCONT (c_tid (d_cl d (nat fd))) (w_dest m)))"

lemma send_conts_released:
  assumes "client_inv d"
  shows "released fd d (send_conts_of fd (c_tid (d_cl d (nat fd))) d)"
proof -
  obtain B where "flow_ok (d_flow d) B" using assms by (auto simp: client_inv_def)
  from send_conts_of_spec [OF this, of fd "c_tid (d_cl d (nat fd))"] show ?thesis
    by (auto simp: released_def simp del: set_map)
qed

lemma acks_release:
  assumes "client_inv d" "doCheckClient fd d" "cqueue fd d = []" "c_acks (d_cl d (nat fd)) = int (Suc n)"
  shows "cqueue fd ((PSIDclient_releaseACK fd ^^ Suc n) d) = [] \<and> released fd d ((PSIDclient_releaseACK fd ^^ Suc n) d)"
  using assms
proof (induction n arbitrary: d)
  case 0
  let ?d1 = "upd_client fd (\<lambda>c. c\<lparr>c_acks := c_acks c - 1\<rparr>) d"
  have "PSIDclient_releaseACK fd d = send_conts_of fd (c_tid (d_cl ?d1 (nat fd))) ?d1"
    using 0 by (simp add: PSIDclient_releaseACK_def Let_def)
  moreover have "client_inv ?d1" using 0 by simp
  moreover have "released fd d e = released fd ?d1 e" for e by (simp add: released_def upd_client_def)
  ultimately show ?case using send_conts_released [of ?d1 fd] send_conts_of_inv(6) [of ?d1 fd] 0 by (simp add: cqueue_def)
next
  case (Suc n)
  let ?d1 = "upd_client fd (\<lambda>c. c\<lparr>c_acks := c_acks c - 1\<rparr>) d"
  have e: "PSIDclient_releaseACK fd d = ?d1" using Suc.prems by (simp add: PSIDclient_releaseACK_def Let_def)
  have "client_inv ?d1" "doCheckClient fd ?d1" "cqueue fd ?d1 = []" "c_acks (d_cl ?d1 (nat fd)) = int (Suc n)"
    using Suc.prems by simp_all
  note IH = Suc.IH [OF this]
  have "released fd d x = released fd ?d1 x" for x by (simp add: released_def upd_client_def)
  then show ?case using IH e by (simp add: funpow_Suc_right del: funpow.simps)
qed

section \<open>Failed flushes\<close>

lemma drop_queue_cl: "d_cl (drop_queue fd rs d) = d_cl d \<and> d_max (drop_queue fd rs d) = d_max d"
  by (induction rs arbitrary: d) (simp_all add: Let_def)

lemma send_conts_of_cl: "d_cl (send_conts_of fd t d) = d_cl d \<and> d_max (send_conts_of fd t d) = d_max d"
  by (simp add: send_conts_of_def split: prod.splits)

lemma upd_cl: "d_cl (upd_client fd f d) = (d_cl d)(nat fd := f (d_cl d (nat fd)))" "d_max (upd_client fd f d) = d_max d"
  "d_cl (upd_task t g d) = d_cl d" "d_max (upd_task t g d) = d_max d"
  by (simp_all add: upd_client_def upd_task_def)

lemma close_flag: "c_flush (d_cl (closeConnection fd d) f) = c_flush (d_cl d f) \<and> d_max (closeConnection fd d) = d_max d"
  by (simp add: closeConnection_def Let_def drop_queue_cl send_conts_of_cl upd_cl split: option.split)

lemma doSend_flag:
  "doSend fd m off d = (r, d') \<Longrightarrow> c_flush (d_cl d' f) = c_flush (d_cl d f) \<and> d_max d' = d_max d"
  by (auto simp: doSend_def Let_def upd_cl close_flag delete_no_task_def split: prod.splits outcome.splits option.splits if_splits)

lemma flush_loop_flag:
  "flush_loop fd rs d = (r, d') \<Longrightarrow> c_flush (d_cl d' f) = c_flush (d_cl d f) \<and> d_max d' = d_max d"
proof (induction rs arbitrary: d)
  case (Cons x xs)
  obtain o1 d1 where s: "doSend fd (mb_msg (pool.more (d_bufs d)) x) (mb_offset (pool.more (d_bufs d)) x) d = (o1, d1)"
    by (rule prod.exhaust)
  from doSend_flag [OF s, of f] have 1: "c_flush (d_cl d1 f) = c_flush (d_cl d f)" "d_max d1 = d_max d" by simp_all
  show ?case
    using Cons.prems s 1 Cons.IH [of "d1\<lparr>d_bufs := PSIDMsgbuf_put x (set_queue (nat fd) xs (d_bufs d1))\<rparr>"]
    by (auto simp: Let_def split: outcome.splits if_splits)
qed simp

lemma register_flag: "c_flush (d_cl (PSIDclient_register fd tid task d) f) = c_flush (d_cl d f)
    \<and> d_max (PSIDclient_register fd tid task d) = d_max d"
  by (simp add: PSIDclient_register_def Let_def upd_cl)

section \<open>A daemon with one client\<close>

definition ex_flow :: flow where
  "ex_flow = PSitems_new 24 (pool.extend (pool.make False [] [] 0 0 0 0 0 0 (\<lambda>_. 0) 0 []) (stops.make (\<lambda>_. 0) (\<lambda>_ _. [])))"

definition ex_bufs :: msgbufs where
  "ex_bufs = PSitems_new 88 (pool.extend (pool.make False [] [] 0 0 0 0 0 0 (\<lambda>_. 0) 0 [])
     (bufs.make (\<lambda>_. 0) (\<lambda>_. 0) (\<lambda>_. header_msg 0 0 0) (\<lambda>_. []) 0 0))"

definition ex_client :: client where
  "ex_client = client.make 100 (Some 100) False False False 0"

definition ex_daemon :: "wres list \<Rightarrow> daemon" where
  "ex_daemon ws = daemon.make 0 (\<lambda>_. True) 4 8 (\<lambda>_. ex_client) ex_flow ex_bufs
     [100 \<mapsto> ftask.make False 3 0 0] 0 ws [] (\<lambda>_. []) [] [] (\<lambda>_. False) (\<lambda>_. False) (\<lambda>_. True) (\<lambda>_. False)"

definition ex_msg :: wmsg where
  "ex_msg = \<lparr>w_type = 0x50, w_len = 26, w_sender = 200, w_dest = 100, w_body = [1, 2]\<rparr>"

lemmas ex_defs = ex_flow_def ex_bufs_def ex_client_def ex_daemon_def pool.defs stops.defs bufs.defs client.defs ftask.defs daemon.defs

lemma ex_flow_ok: "flow_ok ex_flow {}"
  unfolding flow_ok_def by (simp add: ex_flow_def PSitems_new_inv) (simp add: PSitems_new_def flow_links_def ex_defs)

lemma ex_bufs_ok: "bufs_ok ex_bufs {}"
  unfolding bufs_ok_def by (simp add: ex_bufs_def PSitems_new_inv) (simp add: PSitems_new_def bufs_links_def ex_defs)

lemma ex_inv: "no_errors ws \<Longrightarrow> client_inv (ex_daemon ws)"
proof -
  have "d_flow (ex_daemon ws) = ex_flow" "d_bufs (ex_daemon ws) = ex_bufs" "d_writes (ex_daemon ws) = ws"
    by (simp_all add: ex_daemon_def daemon.defs)
  moreover have "queues_wf ex_bufs" "memory_left ex_flow" "memory_left ex_bufs"
    by (simp_all add: queues_wf_def queue_view_def memory_left_def PSitems_new_def ex_defs)
  ultimately show "no_errors ws \<Longrightarrow> client_inv (ex_daemon ws)"
    using ex_flow_ok ex_bufs_ok by (auto simp: client_inv_def)
qed

lemma ex_msg_ok: "wf_msg ex_msg" "PSIDFlwCntrl_applicable ex_msg" "valid_key (w_sender ex_msg)"
  by (simp_all add: wf_msg_def ex_msg_def msg_bytes_def PSIDFlwCntrl_applicable_def PSP_CD_ACCOUNT_def PSP_CD_SENDCONT_def
      PSP_CD_SENDSTOP_def PSP_DD_SENDCONT_def PSP_DD_SENDSTOP_def PSP_DD_SENDSTOPACK_def PSP_DD_REGISTERPART_def
      valid_key_def hash_index_def busy_state_def tid_state_def PSITEM_IDLE_def PSITEM_DRAINED_def)

lemma ex_target: "target (ex_daemon ws) ex_msg = Some 3" "doCheckClient 3 (ex_daemon ws)"
  by (simp_all add: target_def ex_msg_def doCheckClient_def ex_defs PSC_getID_def)

section \<open>A message to a socket that takes nothing\<close>

lemma send_stalled:
  assumes inv: "client_inv d" and q: "cqueue fd d = []" and c: "doCheckClient fd d" and tg: "target d m = Some (nat fd)"
    and w: "d_writes d = [WErr EAGAIN]" and m: "sender_ok m" "PSIDFlwCntrl_applicable m" "0 < w_len m"
    and new: "w_sender m \<notin> stopped (d_flow d) (nat fd)"
  shows "\<exists>d'. PSIDclient_send m d = (Fail EAGAIN, d') \<and> client_inv d' \<and> same_setup d d' \<and> d_writes d' = [] \<and> d_out d' = d_out d
     \<and> stopped (d_flow d') = (stopped (d_flow d))(nat fd := insert (w_sender m) (stopped (d_flow d) (nat fd)))
     \<and> d_cl d' = (d_cl d)(nat fd := (d_cl d (nat fd))\<lparr>c_acks := c_acks (d_cl d (nat fd)) + 1\<rparr>) \<and> cqueue fd d' \<noteq> []"
proof -
  obtain t where t: "d_tasks d (w_dest m) = Some t" "PSC_getID (d_myID d) (w_dest m) = d_myID d" "t_fd t \<noteq> -1"
    "doCheckClient (t_fd t) d" "nat (t_fd t) = nat fd"
    using tg by (auto simp: target_def split: option.splits if_splits)
  then have fd: "t_fd t = fd" using c by (auto simp: doCheckClient_def)
  have wf: "wf_msg m" and key: "valid_key (w_sender m)" using m by (simp_all add: sender_ok_def)
  let ?d2 = "d\<lparr>d_writes := []\<rparr>"
  have s: "doSend fd m 0 d = (Ret 0, ?d2)"
    using w m(3) by (cases d) (simp add: doSend_def PSCio_sendSProg_def PSCio_sendFunc_def send_loop.simps PSCIO_MAX_RETRY_def fun_upd_idem)
  have i2: "client_inv ?d2" using inv by (simp add: client_inv_def no_errors_def)
  have c2: "doCheckClient fd ?d2" using c by (simp add: doCheckClient_def)
  from storeMsg_spec [OF i2 c2 wf, of 0] obtain bs where st: "storeMsg fd m 0 ?d2 = (True, ?d2\<lparr>d_bufs := bs\<rparr>)"
    "client_inv (?d2\<lparr>d_bufs := bs\<rparr>)" "queue (nat fd) bs \<noteq> []" by auto
  obtain B where "flow_ok (d_flow d) B" "memory_left (d_flow d)" using inv by (auto simp: client_inv_def)
  from addStop_memory [OF this(1) key this(2), of "nat fd"] new obtain fl B' where
    a: "PSIDFlwCntrl_addStop (nat fd) (w_sender m) (d_flow d) = Some (1, fl)" "flow_ok fl B'" "memory_left fl"
      "stopped fl = (stopped (d_flow d))(nat fd := insert (w_sender m) (stopped (d_flow d) (nat fd)))" by auto
  let ?d5 = "?d2\<lparr>d_bufs := bs, d_wait := (d_wait d)(nat fd := True), d_flow := fl\<rparr>"
  have "PSIDclient_send m d = (Fail EAGAIN, upd_client fd (\<lambda>c. c\<lparr>c_acks := c_acks c + 1\<rparr>) ?d5)"
    using t(1-4) fd q s st(1) m a(1) by (simp add: PSIDclient_send_def Let_def)
  moreover have "client_inv ?d5" using st(2) a(2,3) by (auto simp: client_inv_def)
  moreover have "same_setup d ?d5" "cqueue fd ?d5 \<noteq> []" using st(3) by (simp_all add: same_setup_def cqueue_def)
  ultimately show ?thesis using a(4) by (intro exI [of _ "upd_client fd (\<lambda>c. c\<lparr>c_acks := c_acks c + 1\<rparr>) ?d5"]) (simp add: upd_cl)
qed

lemma pmem_put_items: "pmem (put_items h k is s) = pmem s"
  by (induction "is" arbitrary: s) (simp_all add: PSitems_putItem_def set_bucket_def)

lemma pmem_emptyHash: "pmem (PSIDFlwCntrl_emptyHash h s) = pmem s"
proof -
  have "pmem (fold (\<lambda>k s. put_items h k (bucket h k s) s) ks s) = pmem s" for ks
    by (induction ks arbitrary: s) (simp_all add: pmem_put_items)
  then show ?thesis by (simp add: PSIDFlwCntrl_emptyHash_def)
qed

text \<open>Registering a client on a slot whose queue is empty.\<close>

lemma register_spec:
  fixes tid :: taskid and task :: "taskid option"
  assumes inv: "client_inv d" and q: "cqueue fd d = []" and c: "doCheckClient fd d"
  defines "d' \<equiv> PSIDclient_register fd tid task d"
  shows "client_inv d'" "same_setup d d'" "cqueue fd d' = []" "stopped (d_flow d') (nat fd) = {}" "d_out d' = d_out d"
    "d_writes d' = d_writes d" "c_acks (d_cl d' (nat fd)) = 0" "c_flush (d_cl d' f) = c_flush (d_cl d f)"
    "c_close (d_cl d' f) = c_close (d_cl d f)"
proof -
  have "set_queue (nat fd) [] (d_bufs d) = d_bufs d"
    using q by (cases "d_bufs d") (simp add: set_queue_def upd_bufs_def cqueue_def queue_def fun_upd_idem)
  then have e: "d' = (upd_client fd (\<lambda>c. c\<lparr>c_tid := tid, c_task := task, c_initial := True, c_acks := 0\<rparr>) d)
      \<lparr>d_flow := PSIDFlwCntrl_emptyHash (nat fd) (d_flow d), d_open := (d_open d)(nat fd := True)\<rparr>"
    using c by (simp add: d'_def PSIDclient_register_def Let_def upd_client_def)
  obtain B where "flow_ok (d_flow d) B" using inv by (auto simp: client_inv_def)
  from emptyHash_spec [OF this, of "nat fd"] pmem_emptyHash [of "nat fd" "d_flow d"] inv
  show "client_inv d'" "stopped (d_flow d') (nat fd) = {}"
    unfolding e by (auto simp: client_inv_def upd_client_def memory_left_def)
  show "same_setup d d'" "cqueue fd d' = []" "d_out d' = d_out d"
    "d_writes d' = d_writes d" "c_acks (d_cl d' (nat fd)) = 0" "c_flush (d_cl d' f) = c_flush (d_cl d f)"
    "c_close (d_cl d' f) = c_close (d_cl d f)"
    using q unfolding e by (simp_all add: upd_client_def same_setup_def cqueue_def)
qed

section \<open>Flow control messages\<close>

datatype flow_op = FStop wmsg | FCont wmsg | FAck wmsg

fun flow_step :: "flow_op \<Rightarrow> daemon \<Rightarrow> daemon" where
  "flow_step (FStop m) d = msg_SENDSTOP m d"
| "flow_step (FCont m) d = msg_SENDCONT m d"
| "flow_step (FAck m) d = msg_SENDSTOPACK m d"

text \<open>Stops minus continues for a task.\<close>

fun stop_weight :: "taskid \<Rightarrow> flow_op \<Rightarrow> int" where
  "stop_weight t (FStop m) = (if w_dest m = t then 1 else 0)"
| "stop_weight t (FCont m) = (if w_dest m = t then -1 else 0)"
| "stop_weight t (FAck m) = 0"

text \<open>The client of a task, alone on its file descriptor, is disabled while it has active stops.\<close>

definition stops_inv :: "taskid \<Rightarrow> int \<Rightarrow> daemon \<Rightarrow> bool" where
  "stops_inv t fd d \<longleftrightarrow> (\<exists>k. d_tasks d t = Some k \<and> \<not> t_logger k \<and> t_fd k = fd \<and> (d_disabled d (nat fd) \<longleftrightarrow> 0 < t_stops k))
     \<and> (\<forall>t' k. t' \<noteq> t \<longrightarrow> d_tasks d t' = Some k \<longrightarrow> t_fd k \<noteq> -1 \<longrightarrow> nat (t_fd k) \<noteq> nat fd)"

definition active_stops :: "taskid \<Rightarrow> daemon \<Rightarrow> int" where
  "active_stops t d = (case d_tasks d t of None \<Rightarrow> 0 | Some k \<Rightarrow> t_stops k)"

lemma ack_tasks: "d_tasks (PSIDclient_releaseACK fd d) = d_tasks d \<and> d_disabled (PSIDclient_releaseACK fd d) = d_disabled d"
  by (simp add: PSIDclient_releaseACK_def Let_def send_conts_of_def upd_client_def split: prod.splits)

lemma flow_step_stops:
  assumes "stops_inv t fd d" "fd \<noteq> -1"
  shows "stops_inv t fd (flow_step opn d)" "active_stops t (flow_step opn d) = active_stops t d + stop_weight t opn"
proof -
  obtain k where k: "d_tasks d t = Some k" "\<not> t_logger k" "t_fd k = fd" "d_disabled d (nat fd) \<longleftrightarrow> 0 < t_stops k"
    and o: "\<And>t' k. t' \<noteq> t \<Longrightarrow> d_tasks d t' = Some k \<Longrightarrow> t_fd k \<noteq> -1 \<Longrightarrow> nat (t_fd k) \<noteq> nat fd"
    using assms(1) by (auto simp: stops_inv_def)
  have "stops_inv t fd (flow_step opn d) \<and> active_stops t (flow_step opn d) = active_stops t d + stop_weight t opn"
  proof (cases opn)
    case (FStop m)
    show ?thesis
    proof (cases "w_dest m = t")
      case True
      then show ?thesis using FStop k o assms(2)
        by (auto simp: msg_SENDSTOP_def stops_inv_def active_stops_def upd_task_def Let_def)
    next
      case False
      have n: "t_fd a = -1 \<or> nat (t_fd a) \<noteq> nat (t_fd k)" if "d_tasks d (w_dest m) = Some a" for a
        using o False that unfolding k(3) by blast
      show ?thesis
      proof (cases "d_tasks d (w_dest m)")
        case (Some a)
        from n [OF Some] show ?thesis
        proof
          assume "t_fd a = -1"
          then show ?thesis using Some FStop k o False by (auto simp: msg_SENDSTOP_def stops_inv_def active_stops_def Let_def)
        next
          assume "nat (t_fd a) \<noteq> nat (t_fd k)"
          then have "nat (t_fd k) \<noteq> nat (t_fd a)" by simp
          then show ?thesis using Some FStop k o False
            by (auto simp: msg_SENDSTOP_def stops_inv_def active_stops_def upd_task_def Let_def)
        qed
      qed (use FStop k o False in \<open>auto simp: msg_SENDSTOP_def stops_inv_def active_stops_def\<close>)
    qed
  next
    case (FCont m)
    show ?thesis
    proof (cases "w_dest m = t")
      case True
      then show ?thesis using FCont k o assms(2)
        by (auto simp: msg_SENDCONT_def stops_inv_def active_stops_def upd_task_def Let_def)
    next
      case False
      have n: "t_fd a = -1 \<or> nat (t_fd a) \<noteq> nat (t_fd k)" if "d_tasks d (w_dest m) = Some a" for a
        using o False that unfolding k(3) by blast
      show ?thesis
      proof (cases "d_tasks d (w_dest m)")
        case (Some a)
        from n [OF Some] show ?thesis
        proof
          assume "t_fd a = -1"
          then show ?thesis using Some FCont k o False by (auto simp: msg_SENDCONT_def stops_inv_def active_stops_def Let_def)
        next
          assume "nat (t_fd a) \<noteq> nat (t_fd k)"
          then have "nat (t_fd k) \<noteq> nat (t_fd a)" by simp
          then show ?thesis using Some FCont k o False
            by (auto simp: msg_SENDCONT_def stops_inv_def active_stops_def upd_task_def Let_def)
        qed
      qed (use FCont k o False in \<open>auto simp: msg_SENDCONT_def stops_inv_def active_stops_def\<close>)
    qed
  next
    case (FAck m)
    then show ?thesis using assms(1)
      by (auto simp: msg_SENDSTOPACK_def stops_inv_def active_stops_def ack_tasks split: option.split)
  qed
  then show "stops_inv t fd (flow_step opn d)" "active_stops t (flow_step opn d) = active_stops t d + stop_weight t opn" by simp_all
qed

interpretation stop_counts: inv_machine flow_step "\<lambda>d. stops_inv t fd d \<and> fd \<noteq> -1" for t fd
  by unfold_locales (simp add: flow_step_stops)

section \<open>A flag that is never cleared\<close>

lemma queue_simps [simp]:
  "queue f (PSIDMsgbuf_put r s) = queue f s" "queue f (set_offset r off s) = queue f s"
  "queue f (set_queue g l s) = (if f = g then l else queue f s)"
  by (auto simp: queue_def PSIDMsgbuf_put_def set_offset_def set_queue_def upd_bufs_def PSitems_putItem_def Let_def split: mref.split)

lemma getItem_more: "pool.more (snd (PSitems_getItem s)) = pool.more s"
  by (auto simp: PSitems_getItem_def growItems_def Let_def split: list.splits prod.splits)

lemma get_queue: "PSIDMsgbuf_get len s = (r, s1) \<Longrightarrow> queue f s1 = queue f s"
proof -
  assume g: "PSIDMsgbuf_get len s = (r, s1)"
  obtain x s2 where x: "PSitems_getItem s = (x, s2)" by (rule prod.exhaust)
  have "pool.more s2 = pool.more s" using getItem_more [of s] x by simp
  then show ?thesis using g x
    by (auto simp: PSIDMsgbuf_get_def Let_def queue_def upd_bufs_def set_offset_def split: if_splits list.splits bool.splits option.splits mref.splits)
qed

lemma store_queue: "queue f (snd (store_buf g m off s)) = queue f s \<or> (f = g \<and> queue f (snd (store_buf g m off s)) \<noteq> [])"
proof -
  obtain r s1 where r: "PSIDMsgbuf_get (w_len m) s = (r, s1)" by (rule prod.exhaust)
  have q: "queue h s1 = queue h s" for h by (rule get_queue [OF r])
  have e: "queue h (upd_bufs (mb_msg_update x) t) = queue h t" for h x t by (simp add: queue_def upd_bufs_def)
  show ?thesis using r q by (auto simp: store_buf_def Let_def e split: option.splits)
qed

text \<open>Garbage collection empties no queue.\<close>

lemma reloc_length: "length (queue f (snd (relocSmallMsgBuf i s))) = length (queue f s)"
proof -
  obtain x s2 where x: "PSitems_getItem s = (x, s2)" by (rule prod.exhaust)
  have "pool.more s2 = pool.more s" using getItem_more [of s] x by simp
  then show ?thesis using x by (auto simp: relocSmallMsgBuf_def queue_def set_offset_def upd_bufs_def Let_def split: option.splits)
qed

lemma queue_pool [simp]:
  "queue f (s\<lparr>used := a\<rparr>) = queue f s" "queue f (s\<lparr>ist := b\<rparr>) = queue f s" "queue f (s\<lparr>idleItems := c\<rparr>) = queue f s"
  "queue f (s\<lparr>chunks := e\<rparr>) = queue f s" "queue f (s\<lparr>avail := a\<rparr>) = queue f s"
  by (simp_all add: queue_def)

lemma reloc_items_length: "length (queue f (snd (reloc_items relocSmallMsgBuf is s))) = length (queue f s)"
proof (induction "is" arbitrary: s)
  case (Cons i "is")
  obtain b s1 where b: "relocSmallMsgBuf i s = (b, s1)" by (rule prod.exhaust)
  have "length (queue f s1) = length (queue f s)" using reloc_length [of f i s] b by simp
  then show ?case using Cons b by (cases b) simp_all
qed simp

lemma freeChunk_length: "length (queue f (freeChunk relocSmallMsgBuf c s)) = length (queue f s)"
proof -
  have d: "queue f (fold drain_idle is s) = queue f s" for "is"
    by (induction "is" arbitrary: s) (simp_all add: drain_idle_def)
  let ?r = "reloc_items relocSmallMsgBuf (chunk_items (iPC s) c) (fold drain_idle (chunk_items (iPC s) c) s)"
  have "length (queue f (snd ?r)) = length (queue f s)" by (simp add: reloc_items_length d)
  then show ?thesis by (cases ?r) (auto simp: freeChunk_def Let_def split: bool.split)
qed

lemma gc_chunks_length: "length (queue f (gc_chunks k relocSmallMsgBuf c s)) = length (queue f s)"
  by (induction k arbitrary: c s) (simp_all add: Let_def freeChunk_length split: list.split)

lemma gc_length: "length (queue f (PSIDMsgbuf_gc s)) = length (queue f s)"
  by (simp add: PSIDMsgbuf_gc_def PSitems_gc_def gc_chunks_length del: gc_chunks.simps split: list.split)

text \<open>What an operation for another client leaves alone.\<close>

definition same_slot :: "nat \<Rightarrow> daemon \<Rightarrow> daemon \<Rightarrow> bool" where
  "same_slot f d d' \<longleftrightarrow> d_max d' = d_max d \<and> c_flush (d_cl d' f) = c_flush (d_cl d f)
     \<and> queue f (d_bufs d') = queue f (d_bufs d) \<and> d_wire d' f = d_wire d f"

lemma same_slot_refl [simp]: "same_slot f d d"
  by (simp add: same_slot_def)

lemma same_slot_trans: "same_slot f d e \<Longrightarrow> same_slot f e g \<Longrightarrow> same_slot f d g"
  by (simp add: same_slot_def)

lemma drop_queue_slot: "nat fd \<noteq> f \<Longrightarrow> same_slot f d (drop_queue fd rs d)"
proof (induction rs arbitrary: d)
  case (Cons r rs)
  let ?d = "d\<lparr>d_drop := d_drop d @ [mb_msg (pool.more (d_bufs d)) r], d_bufs := PSIDMsgbuf_put r (set_queue (nat fd) rs (d_bufs d))\<rparr>"
  have "same_slot f d ?d" using Cons.prems by (simp add: same_slot_def)
  then show ?case using same_slot_trans [OF _ Cons.IH [OF Cons.prems, of ?d], of d] by (simp add: Let_def)
qed simp

lemma send_conts_slot: "same_slot f d (send_conts_of fd t d)"
  by (simp add: same_slot_def send_conts_of_def split: prod.split)

lemma same_slot_upd [simp]:
  "nat fd \<noteq> f \<Longrightarrow> same_slot f d (upd_client fd g e) = same_slot f d e" "same_slot f d (upd_task t h e) = same_slot f d e"
  "same_slot f d (e\<lparr>d_wait := w\<rparr>) = same_slot f d e" "same_slot f d (e\<lparr>d_open := o'\<rparr>) = same_slot f d e"
  "same_slot f d (e\<lparr>d_disabled := w\<rparr>) = same_slot f d e" "same_slot f d (e\<lparr>d_writes := ws\<rparr>) = same_slot f d e"
  "same_slot f d (e\<lparr>d_flow := fl\<rparr>) = same_slot f d e"
  by (auto simp: same_slot_def upd_client_def upd_task_def)

lemma close_slot:
  assumes "nat fd \<noteq> f"
  shows "same_slot f d (closeConnection fd d)"
proof -
  define d2 where "d2 = (case c_task (d_cl d (nat fd)) of None \<Rightarrow> upd_client fd (\<lambda>c. c\<lparr>c_tid := -1\<rparr>) d
    | Some t \<Rightarrow> upd_task t (\<lambda>t. t\<lparr>t_fd := -1\<rparr>) (upd_client fd (\<lambda>c. c\<lparr>c_tid := -1\<rparr>) d))"
  have "same_slot f d d2" using assms by (simp add: d2_def split: option.split)
  then have "same_slot f d (drop_queue fd q (upd_client fd g (upd_client fd h d2)))" for q g h
    using assms drop_queue_slot [OF assms] by (intro same_slot_trans [OF _ drop_queue_slot [OF assms]]) simp
  then have "same_slot f d (send_conts_of fd t ((drop_queue fd q (upd_client fd g (upd_client fd h d2)))\<lparr>d_wait := w\<rparr>))" for q g h t w
    by (intro same_slot_trans [OF _ send_conts_slot]) simp
  then show ?thesis
    using assms \<open>same_slot f d d2\<close> unfolding closeConnection_def Let_def upd_cl d2_def
    by (auto simp: upd_cl d2_def [unfolded upd_cl, symmetric])
qed

lemma doSend_slot:
  assumes "nat fd \<noteq> f" "doSend fd m off d = (r, d')"
  shows "same_slot f d d'"
proof -
  obtain r0 sent ws where p: "PSCio_sendSProg (w_len m - off) (d_writes d) = (r0, sent, ws)" by (rule prod_cases3)
  define d1 where "d1 = d\<lparr>d_writes := ws, d_wire := (d_wire d)(nat fd := d_wire d (nat fd) @ take sent (drop off (msg_bytes m)))\<rparr>"
  have d1: "same_slot f d d1" using assms(1) by (simp add: d1_def same_slot_def)
  then have "same_slot f d (delete_no_task fd d1)"
    using same_slot_trans [OF d1 close_slot [OF assms(1)]] by (simp add: delete_no_task_def)
  then show ?thesis using assms(2) d1
    by (auto simp: doSend_def p Let_def d1_def [symmetric] split: outcome.splits option.splits if_splits)
qed

lemma flush_loop_slot:
  assumes "nat fd \<noteq> f" "flush_loop fd rs d = (r, d')"
  shows "same_slot f d d'"
  using assms(2)
proof (induction rs arbitrary: d)
  case (Cons x xs)
  obtain o1 d1 where s: "doSend fd (mb_msg (pool.more (d_bufs d)) x) (mb_offset (pool.more (d_bufs d)) x) d = (o1, d1)"
    by (rule prod.exhaust)
  note 1 = doSend_slot [OF assms(1) s]
  have b: "same_slot f d (d1\<lparr>d_bufs := set_offset x k (d_bufs d1)\<rparr>)"
    "same_slot f d (d1\<lparr>d_bufs := PSIDMsgbuf_put x (set_queue (nat fd) l (d_bufs d1))\<rparr>)" for k l
    using 1 assms(1) by (simp_all add: same_slot_def)
  show ?case using Cons.prems s 1 b same_slot_trans [OF b(2) Cons.IH]
    by (auto simp: Let_def split: outcome.splits if_splits)
qed simp

lemma flush_slot:
  assumes "nat fd \<noteq> f"
  shows "same_slot f d (snd (flushClientMsgs fd d))"
proof -
  let ?d1 = "upd_client fd (\<lambda>c. c\<lparr>c_flush := True\<rparr>) d"
  obtain r d2 where 2: "flush_loop fd (cqueue fd ?d1) ?d1 = (r, d2)" by (rule prod.exhaust)
  have s: "same_slot f d d2" using same_slot_trans [OF _ flush_loop_slot [OF assms 2], of d] assms by simp
  then have "same_slot f d (send_conts_of fd t d2)" for t using same_slot_trans [OF _ send_conts_slot] by blast
  then show ?thesis using 2 s assms by (auto simp: flushClientMsgs_def Let_def split: option.split)
qed

text \<open>A slot whose flag is set, with something queued: nothing more goes out.\<close>

definition flag_set :: "int \<Rightarrow> daemon \<Rightarrow> bool" where
  "flag_set fd d \<longleftrightarrow> doCheckClient fd d \<and> c_flush (d_cl d (nat fd))"

definition stuck :: "int \<Rightarrow> byte list \<Rightarrow> daemon \<Rightarrow> bool" where
  "stuck fd w d \<longleftrightarrow> flag_set fd d \<and> cqueue fd d \<noteq> [] \<and> d_wire d (nat fd) = w"

lemma flag_flush: "flag_set fd d \<Longrightarrow> flushClientMsgs fd d = (Ret 1, d)"
  by (simp add: flag_set_def flushClientMsgs_def)

lemma slot_keeps: "same_slot (nat fd) d d' \<Longrightarrow> (flag_set fd d' = flag_set fd d) \<and> (stuck fd w d' = stuck fd w d)"
  by (simp add: same_slot_def stuck_def flag_set_def doCheckClient_def cqueue_def)

lemma store_keeps:
  assumes "storeMsg g m off d = (b, d')"
  shows "flag_set fd d' = flag_set fd d" "stuck fd w d \<Longrightarrow> stuck fd w d'"
proof -
  have "d' = d \<or> d' = d\<lparr>d_bufs := snd (store_buf (nat g) m off (d_bufs d))\<rparr>"
    using assms by (auto simp: storeMsg_def split: if_splits prod.splits)
  then show "flag_set fd d' = flag_set fd d" "stuck fd w d \<Longrightarrow> stuck fd w d'"
    using store_queue [of "nat fd" "nat g" m off "d_bufs d"] by (auto simp: flag_set_def stuck_def doCheckClient_def cqueue_def)
qed

lemma slot_upds [simp]:
  "flag_set fd (upd_client g (\<lambda>c. c\<lparr>c_acks := k c\<rparr>) e) = flag_set fd e"
  "stuck fd w (upd_client g (\<lambda>c. c\<lparr>c_acks := k c\<rparr>) e) = stuck fd w e"
  "flag_set fd (e\<lparr>d_wait := x\<rparr>) = flag_set fd e" "stuck fd w (e\<lparr>d_wait := x\<rparr>) = stuck fd w e"
  "flag_set fd (e\<lparr>d_flow := y\<rparr>) = flag_set fd e" "stuck fd w (e\<lparr>d_flow := y\<rparr>) = stuck fd w e"
  by (auto simp: flag_set_def stuck_def doCheckClient_def upd_client_def cqueue_def)

lemma send_head:
  assumes "flag_set fd d" "doCheckClient g d" "d1 = (if cqueue g d \<noteq> [] then snd (flushClientMsgs g d) else d)"
    and "(if cqueue g d1 = [] then doSend g m 0 d1 else (Ret 0, d1)) = (r, d2)"
  shows "flag_set fd d2" "stuck fd w d \<Longrightarrow> stuck fd w d2"
proof -
  have "flag_set fd d2 \<and> (stuck fd w d \<longrightarrow> stuck fd w d2)"
  proof (cases "g = fd")
    case True
    then have d1: "d1 = d" using assms(1,3) flag_flush by simp
    show ?thesis
    proof (cases "cqueue fd d = []")
      case True
      then have "doSend g m 0 d = (r, d2)" using assms(4) d1 \<open>g = fd\<close> by simp
      from doSend_flag [OF this, of "nat fd"] show ?thesis using assms(1) True by (simp add: flag_set_def stuck_def doCheckClient_def)
    qed (use assms(1,4) d1 \<open>g = fd\<close> in simp)
  next
    case False
    then have n: "nat g \<noteq> nat fd" using assms(1,2) by (auto simp: flag_set_def doCheckClient_def)
    have s1: "same_slot (nat fd) d d1" using assms(3) flush_slot [OF n] by simp
    have "same_slot (nat fd) d1 d2" using assms(4) doSend_slot [OF n] by (auto split: if_splits)
    then have "same_slot (nat fd) d d2" by (rule same_slot_trans [OF s1])
    then show ?thesis using slot_keeps [of fd d d2 w] assms(1) by simp
  qed
  then show "flag_set fd d2" "stuck fd w d \<Longrightarrow> stuck fd w d2" by simp_all
qed

lemma send_keeps:
  assumes "flag_set fd d"
  shows "flag_set fd (snd (PSIDclient_send m d))" "stuck fd w d \<Longrightarrow> stuck fd w (snd (PSIDclient_send m d))"
proof -
  have "flag_set fd (snd (PSIDclient_send m d)) \<and> (stuck fd w d \<longrightarrow> stuck fd w (snd (PSIDclient_send m d)))"
  proof (cases "PSC_getID (d_myID d) (w_dest m) \<noteq> d_myID d \<or> d_tasks d (w_dest m) = None")
    case True
    then show ?thesis using assms by (auto simp: PSIDclient_send_def split: option.split)
  next
    case False
    then obtain task where task: "d_tasks d (w_dest m) = Some task" by blast
    let ?g = "t_fd task"
    show ?thesis
    proof (cases "?g = -1 \<or> \<not> doCheckClient ?g d")
      case True
      then show ?thesis using assms False task by (simp add: PSIDclient_send_def)
    next
      case ok: False
      define d1 where "d1 = (if cqueue ?g d \<noteq> [] then snd (flushClientMsgs ?g d) else d)"
      obtain r d2 where 2: "(if cqueue ?g d1 = [] then doSend ?g m 0 d1 else (Ret 0, d1)) = (r, d2)" by (rule prod.exhaust)
      have h: "flag_set fd d2" "stuck fd w d \<Longrightarrow> stuck fd w d2" using send_head [OF assms _ d1_def 2] ok by simp_all
      define b where "b sent = fst (storeMsg ?g m sent d2)" for sent
      define d3 where "d3 sent = snd (storeMsg ?g m sent d2)" for sent
      have st: "storeMsg ?g m sent d2 = (b sent, d3 sent)" for sent by (simp add: b_def d3_def)
      have h3: "flag_set fd (d3 sent)" "stuck fd w d \<Longrightarrow> stuck fd w (d3 sent)" for sent
        using store_keeps [OF st [of sent], where fd = fd] h by auto
      have e: "PSIDclient_send m d = (case r of Fail e \<Rightarrow> (Fail e, d2) | Exit \<Rightarrow> (Exit, d2) | Ret sent \<Rightarrow>
          if sent = w_len m then (Ret sent, d2)
          else case storeMsg ?g m sent d2 of
            (False, d3) \<Rightarrow> (Fail ENOBUFS, d3)
          | (True, d3) \<Rightarrow>
              let d4 = d3\<lparr>d_wait := (d_wait d3)(nat ?g := True)\<rparr> in
              if \<not> PSIDFlwCntrl_applicable m then (Fail EAGAIN, d4)
              else case PSIDFlwCntrl_addStop (nat ?g) (w_sender m) (d_flow d4) of
                None \<Rightarrow> (Exit, d4)
              | Some (ret, f) \<Rightarrow>
                  let d5 = d4\<lparr>d_flow := f\<rparr> in
                  if ret < 0 then (Fail ENOBUFS, d5)
                  else if ret = 0 then (Ret (w_len m), d5)
                  else (Fail EAGAIN, upd_client ?g (\<lambda>c. c\<lparr>c_acks := c_acks c + 1\<rparr>) d5))"
        using False task ok 2 by (simp add: PSIDclient_send_def Let_def d1_def [symmetric])
      show ?thesis unfolding e using h h3 by (auto simp: st Let_def split: outcome.split option.split bool.split)
    qed
  qed
  then show "flag_set fd (snd (PSIDclient_send m d))" "stuck fd w d \<Longrightarrow> stuck fd w (snd (PSIDclient_send m d))" by simp_all
qed

lemma client_step_keeps:
  assumes "flag_set fd d"
  shows "flag_set fd (client_step opn d)" "stuck fd w d \<Longrightarrow> stuck fd w (client_step opn d)"
proof -
  have "flag_set fd (client_step opn d) \<and> (stuck fd w d \<longrightarrow> stuck fd w (client_step opn d))"
  proof (cases opn)
    case (OSend m)
    then show ?thesis using send_keeps [OF assms, where m = m] assms by simp
  next
    case (OFlush g)
    show ?thesis
    proof (cases "nat g = nat fd \<and> doCheckClient g d")
      case True
      then have "g = fd" using assms by (auto simp: flag_set_def doCheckClient_def)
      then show ?thesis using OFlush assms flag_flush by simp
    next
      case False
      have "same_slot (nat fd) d (snd (flushClientMsgs g d))"
        using False flush_slot [of g "nat fd" d] by (auto simp: flushClientMsgs_def)
      from slot_keeps [OF this, where w = w] show ?thesis using OFlush assms by simp
    qed
  next
    case (OAck g)
    have k: "flag_set fd (send_conts_of g t e) = flag_set fd e" "stuck fd w (send_conts_of g t e) = stuck fd w e" for t e
      using slot_keeps [OF send_conts_slot, where w = w] by simp_all
    show ?thesis using OAck assms by (simp add: PSIDclient_releaseACK_def Let_def k)
  next
    case OGcStops
    then show ?thesis using assms by simp
  next
    case OGcBufs
    have "queue (nat fd) (PSIDMsgbuf_gc (d_bufs d)) = [] \<longleftrightarrow> queue (nat fd) (d_bufs d) = []"
      using gc_length [of "nat fd" "d_bufs d"] by (metis length_0_conv)
    then show ?thesis using OGcBufs assms by (simp add: flag_set_def stuck_def doCheckClient_def cqueue_def)
  qed
  then show "flag_set fd (client_step opn d)" "stuck fd w d \<Longrightarrow> stuck fd w (client_step opn d)" by simp_all
qed

interpretation flagged: inv_machine client_step "flag_set fd" for fd
  by unfold_locales (rule client_step_keeps)

interpretation stuck_slots: inv_machine client_step "\<lambda>d. flag_set fd d \<and> stuck fd w d" for fd w
  by unfold_locales (simp add: client_step_keeps)

section \<open>The properties\<close>

text \<open>
  C5: what a client receives, followed by what is queued for it, is the concatenation of the messages
  sent to it: whatever pieces the socket accepts, in whatever order messages, flushes,
  acknowledgements and garbage collections of both pools come, no byte is lost, duplicated or
  reordered, as long as neither the socket nor memory fails.
\<close>

theorem client_stream_in_order:
  assumes "client_inv d"
  shows "client_inv (fold client_step ops d)
     \<and> stream (fold client_step ops d) fd = stream d fd @ concat (map msg_bytes (sent_to d fd ops))"
  using clients.run_inv [OF assms] run_stream [OF assms] by blast

theorem client_stream_in_order_witness:
  "stream (fold client_step [OSend ex_msg, OGcBufs, OSend ex_msg, OFlush 3] (ex_daemon [Wrote 5, WErr EAGAIN])) 3
     = msg_bytes ex_msg @ msg_bytes ex_msg"
proof -
  let ?d = "ex_daemon [Wrote 5, WErr EAGAIN]"
  have "client_inv ?d" by (rule ex_inv) (simp add: no_errors_def)
  from client_stream_in_order [OF this, of "[OSend ex_msg, OGcBufs, OSend ex_msg, OFlush 3]" 3]
  have "stream (fold client_step [OSend ex_msg, OGcBufs, OSend ex_msg, OFlush 3] ?d) 3
      = stream ?d 3 @ concat (map msg_bytes (sent_to ?d 3 [OSend ex_msg, OGcBufs, OSend ex_msg, OFlush 3]))" ..
  moreover have "stream ?d 3 = []" by (simp add: stream_def pending_def queue_view_def PSitems_new_def ex_defs)
  moreover have "sent_to ?d 3 [OSend ex_msg, OGcBufs, OSend ex_msg, OFlush 3] = [ex_msg, ex_msg]"
    using ex_target ex_msg_ok by (simp add: sent_to_def sender_ok_def)
  ultimately show ?thesis by simp
qed

text \<open>
  C26: nobody waits for ever.  When the socket takes everything that is queued, one flush and the
  acknowledgements that are outstanding empty the queue and the table of stopped tasks, and every
  stopped task with a process ID other than 0 that lives on a node that is up is sent exactly one
  SENDCONT (the others of the table get none).
\<close>

theorem stopped_senders_released:
  assumes "client_inv d" "doCheckClient fd d" "\<not> c_flush (d_cl d (nat fd))" "\<not> c_close (d_cl d (nat fd))"
    and "d_writes d = []" "c_acks (d_cl d (nat fd)) = int n"
  shows "let d' = (PSIDclient_releaseACK fd ^^ n) (snd (flushClientMsgs fd d))
     in cqueue fd d' = [] \<and> released fd d d'"
proof -
  let ?d1 = "upd_client fd (\<lambda>c. c\<lparr>c_flush := True\<rparr>) d"
  obtain res d2 where 2: "flush_loop fd (cqueue fd ?d1) ?d1 = (res, d2)" by (rule prod.exhaust)
  have i1: "client_inv ?d1" using assms(1) by simp
  note l = flush_loop_inv [OF i1 2]
  have q2: "cqueue fd d2 = []" "d_writes d2 = []" using l(8) assms(5) by simp_all
  define d3 where "d3 = (if n = 0 then send_conts_of fd (c_tid (d_cl d2 (nat fd))) d2 else d2)"
  define d4 where "d4 = (upd_client fd (\<lambda>c. c\<lparr>c_flush := False\<rparr>) d3)
     \<lparr>d_wait := (d_wait (upd_client fd (\<lambda>c. c\<lparr>c_flush := False\<rparr>) d3))(nat fd := False)\<rparr>"
  have q3: "cqueue fd d3 = []" using q2 send_conts_of_inv(6) [OF l(2)] by (simp add: d3_def cqueue_def)
  have e: "flushClientMsgs fd d = (Ret 0, d4)"
    using assms(2-4,6) 2 l(1,5) q2 q3
    by (simp add: flushClientMsgs_def Let_def d3_def [symmetric] d4_def)
  have rel: "released fd d x = released fd d2 x" for x
    using l(4-7) by (simp add: released_def same_setup_def upd_client_def)
  show ?thesis
  proof (cases n)
    case 0
    have "released fd d2 d3" using send_conts_released [OF l(2)] 0 by (simp add: d3_def)
    moreover have "released fd d2 d4 = released fd d2 d3" by (simp add: d4_def released_def upd_client_def)
    ultimately show ?thesis using 0 e q3 rel by (simp add: Let_def d4_def)
  next
    case (Suc k)
    have 3: "d3 = d2" using Suc by (simp add: d3_def)
    have cl: "d_cl d4 (nat fd) = (d_cl d (nat fd))\<lparr>c_flush := False\<rparr>"
      using l(5) by (simp add: d4_def 3)
    have "client_inv d4" "doCheckClient fd d4" "cqueue fd d4 = []" "c_acks (d_cl d4 (nat fd)) = int (Suc k)"
      using l(2,4) assms(2,6) Suc q3 cl by (simp_all add: d4_def 3 doCheckClient_def same_setup_def upd_cl)
    from acks_release [OF this] have "cqueue fd ((PSIDclient_releaseACK fd ^^ n) d4) = []"
      "released fd d4 ((PSIDclient_releaseACK fd ^^ n) d4)" using Suc by simp_all
    moreover have "released fd d4 x = released fd d x" for x
      using l(4-7) by (simp add: d4_def 3 released_def same_setup_def upd_client_def)
    ultimately show ?thesis using e by (simp add: Let_def)
  qed
qed

text \<open>A message that was stored for a socket that took nothing, whose sender was stopped.\<close>

theorem stopped_senders_released_witness:
  "\<exists>d ms. cqueue 3 d \<noteq> [] \<and> c_acks (d_cl d 3) = 1 \<and> stopped (d_flow d) 3 = {200}
     \<and> cqueue 3 (PSIDclient_releaseACK 3 (snd (flushClientMsgs 3 d))) = []
     \<and> d_out (PSIDclient_releaseACK 3 (snd (flushClientMsgs 3 d))) = d_out d @ ms \<and> map w_dest ms = [200]"
proof -
  let ?d = "ex_daemon [WErr EAGAIN]"
  have e: "client_inv ?d" "cqueue 3 ?d = []" "d_writes ?d = [WErr EAGAIN]" "stopped (d_flow ?d) (nat 3) = {}"
    by (rule ex_inv, simp_all add: no_errors_def ex_defs cqueue_def queue_def PSitems_new_def stopped_def flow_view_def)
  have m: "target ?d ex_msg = Some (nat 3)" "sender_ok ex_msg" "0 < w_len ex_msg" "w_sender ex_msg = 200"
    using ex_target ex_msg_ok by (simp_all add: sender_ok_def) (simp_all add: ex_msg_def)
  obtain d where d: "client_inv d" "same_setup ?d d" "d_writes d = []" "stopped (d_flow d) 3 = {200}"
    "d_cl d = (d_cl ?d)(3 := (d_cl ?d 3)\<lparr>c_acks := c_acks (d_cl ?d 3) + 1\<rparr>)" "cqueue 3 d \<noteq> []"
    using send_stalled [OF e(1,2) ex_target(2) m(1) e(3) m(2) ex_msg_ok(2) m(3)] e(4) m(4) by auto
  have c: "doCheckClient 3 d" using ex_target(2) d(2) by (simp add: same_setup_def doCheckClient_def)
  have cl: "\<not> c_flush (d_cl d (nat 3))" "\<not> c_close (d_cl d (nat 3))" "c_acks (d_cl d (nat 3)) = int 1"
    using d(5) by (simp_all add: ex_defs)
  let ?e = "PSIDclient_releaseACK 3 (snd (flushClientMsgs 3 d))"
  from stopped_senders_released [OF d(1) c cl(1,2) d(3) cl(3)]
  have r: "cqueue 3 ?e = []" "released 3 d ?e" by (simp_all add: Let_def)
  then obtain ms where ms: "d_out ?e = d_out d @ ms" "distinct (map w_dest ms)"
    "set (map w_dest ms) = {t \<in> stopped (d_flow d) 3. PSC_getPID t \<noteq> 0 \<and> d_up d (PSC_getID (d_myID d) t)}"
    by (auto simp: released_def simp del: set_map)
  have "PSC_getPID (200 :: taskid) \<noteq> 0" by (simp add: PSC_getPID_def)
  moreover have "d_up d = (\<lambda>_. True)" using d(2) by (simp add: same_setup_def ex_defs)
  ultimately have "set (map w_dest ms) = {200}" unfolding ms(3) d(4) by auto
  then have "length (map w_dest ms) = 1" using distinct_card [OF ms(2)] by simp
  then have "map w_dest ms = [200]" using \<open>set (map w_dest ms) = {200}\<close> by (cases ms) auto
  then show ?thesis using d(4,6) cl(3) r(1) ms(1) by (intro exI [of _ d] exI [of _ ms]) simp
qed

text \<open>
  C30: the tables of stopped tasks are sets.  Adding a task reports whether it was new, or that memory
  is exhausted, and touches one table only; sending the SENDCONT messages empties one table and
  reaches each of its members whose node is up exactly once; emptying sends nothing.
\<close>

theorem stop_tables_are_sets:
  assumes "flow_ok s B" "valid_key key" "PSIDFlwCntrl_sendContMsgs myID up h sender s = ((n, ms), s2)"
  shows "(\<exists>r s1 B1. PSIDFlwCntrl_addStop h key s = Some (r, s1) \<and> flow_ok s1 B1
        \<and> (r = 0 \<and> key \<in> stopped s h \<and> s1 = s
           \<or> r = -1 \<and> key \<notin> stopped s h \<and> stopped s1 = stopped s
           \<or> r = 1 \<and> key \<notin> stopped s h \<and> stopped s1 = (stopped s)(h := insert key (stopped s h))))
     \<and> (\<exists>B2. flow_ok s2 B2) \<and> stopped s2 = (stopped s)(h := {}) \<and> n = length ms \<and> distinct (map w_dest ms)
     \<and> set (map w_dest ms) = {t \<in> stopped s h. PSC_getPID t \<noteq> 0 \<and> up (PSC_getID myID t)}
     \<and> (\<exists>B3. flow_ok (PSIDFlwCntrl_emptyHash h s) B3) \<and> stopped (PSIDFlwCntrl_emptyHash h s) = (stopped s)(h := {})"
  using addStop_spec [OF assms(1,2), of h] sendContMsgs_spec [OF assms(1,3)] emptyHash_spec [OF assms(1), of h] by blast

theorem stop_tables_are_sets_witness:
  "\<exists>r s1. PSIDFlwCntrl_addStop 3 (w_sender ex_msg) ex_flow = Some (r, s1) \<and> (r = -1 \<or> stopped s1 3 = {w_sender ex_msg})"
proof -
  obtain n ms s2 where "PSIDFlwCntrl_sendContMsgs 0 (\<lambda>_. True) 3 100 ex_flow = ((n, ms), s2)" by (metis prod.exhaust)
  note p = stop_tables_are_sets [OF ex_flow_ok ex_msg_ok(3) this]
  have "stopped ex_flow 3 = {}" by (simp add: stopped_def flow_view_def PSitems_new_def ex_defs)
  then show ?thesis using p by auto
qed

text \<open>
  C7: garbage collection is invisible.  Whatever is in use, collecting either pool keeps the content of
  all tables and queues in their order, loses no item and leaves no reference to freed memory, takes no
  memory, and ends with a pool that needs no further collection.
\<close>

theorem gc_keeps_content:
  assumes "flow_ok f B" "bufs_ok b C"
  shows "(\<exists>B'. flow_ok (PSIDFlwCntrl_gc f) B' \<and> card B' = card B)
     \<and> flow_view (pool.more (PSIDFlwCntrl_gc f)) = flow_view (pool.more f)
     \<and> pmem (PSIDFlwCntrl_gc f) = pmem f \<and> \<not> PSitems_gcRequired (PSIDFlwCntrl_gc f)
     \<and> (\<exists>C'. bufs_ok (PSIDMsgbuf_gc b) C' \<and> card C' = card C)
     \<and> queue_view (pool.more (PSIDMsgbuf_gc b)) = queue_view (pool.more b)
     \<and> pmem (PSIDMsgbuf_gc b) = pmem b \<and> \<not> PSitems_gcRequired (PSIDMsgbuf_gc b)"
  using flow_gc [OF assms(1)] msgbuf_gc [OF assms(2)] unfolding Let_def by blast

text \<open>A pool with one item per chunk, grown three times.\<close>

definition ex_grown :: flow where
  "ex_grown = snd (growItems (snd (growItems (snd (growItems (snd (PSitems_setChunkSize 16 ex_flow)))))))"

lemma ex_grown_ok: "flow_ok ex_grown {}"
proof -
  have c: "PSitems_setChunkSize 16 ex_flow = (True, ex_flow\<lparr>iPC := 1\<rparr>)"
    by (simp add: PSitems_setChunkSize_def LIST_T_SIZE_def PSitems_new_def ex_defs)
  have "pool_inv (ex_flow\<lparr>iPC := 1\<rparr>) {}" using ex_flow_ok by (simp add: flow_ok_def pool_inv_def pool_items_def PSitems_new_def ex_defs)
  moreover have "pool_inv (snd (growItems s)) {} \<and> pool.more (snd (growItems s)) = pool.more s" if "pool_inv s {}" for s :: flow
    using growItems_inv [OF that, of "fst (growItems s)" "snd (growItems s)"] by simp
  ultimately have "pool_inv ex_grown {} \<and> pool.more ex_grown = pool.more ex_flow"
    by (simp add: ex_grown_def c)
  then show ?thesis using ex_flow_ok by (simp add: flow_ok_def)
qed

lemma grow_simps:
  "pmem s = [] \<Longrightarrow> p_init (snd (growItems s)) = p_init s" "pmem s = [] \<Longrightarrow> avail (snd (growItems s)) = avail s + iPC s"
  "pmem s = [] \<Longrightarrow> iPC (snd (growItems s)) = iPC s" "pmem s = [] \<Longrightarrow> used (snd (growItems s)) = used s"
  "pmem s = [] \<Longrightarrow> pmem (snd (growItems s)) = []"
  by (simp_all add: growItems_def Let_def)

lemma ex_grown_full: "PSitems_gcRequired ex_grown"
proof -
  have "PSitems_setChunkSize 16 ex_flow = (True, ex_flow\<lparr>iPC := 1\<rparr>)" "p_init ex_flow" "avail ex_flow = 0" "used ex_flow = 0"
    "pmem ex_flow = []" by (simp_all add: PSitems_setChunkSize_def LIST_T_SIZE_def PSitems_new_def ex_defs)
  then show ?thesis by (simp add: ex_grown_def PSitems_gcRequired_def grow_simps)
qed

theorem gc_keeps_content_witness:
  "PSitems_gcRequired ex_grown \<and> \<not> PSitems_gcRequired (PSIDFlwCntrl_gc ex_grown)
     \<and> flow_view (pool.more (PSIDFlwCntrl_gc ex_grown)) = flow_view (pool.more ex_grown)"
  using gc_keeps_content [OF ex_grown_ok ex_bufs_ok] ex_grown_full by blast

text \<open>
  C31: a flush that fails leaves its mark.  The flag that a flush is under way stays set, and neither
  closing the connection nor giving the file descriptor to a new client clears it.  So once, in any run
  \<open>ops\<close> of sends, flushes, acknowledgements and garbage collections, a message had to be queued for the new
  client, no further run \<open>ops'\<close> of them empties the queue or writes anything to the client: every flush returns at
  once.  (Messages before that one may still get through directly.)
\<close>

theorem failed_flush_blocks_slot:
  assumes "doCheckClient fd d" "flushClientMsgs fd d = (Fail e, d1)"
    and "d2 = PSIDclient_setEstablished fd (PSIDclient_register fd tid task (closeConnection fd d1))"
    and "cqueue fd (fold client_step ops d2) \<noteq> []"
  shows "let d3 = fold client_step ops d2; d4 = fold client_step ops' d3
     in cqueue fd d4 \<noteq> [] \<and> d_wire d4 (nat fd) = d_wire d3 (nat fd) \<and> flushClientMsgs fd d4 = (Ret 1, d4)"
proof -
  let ?d1 = "upd_client fd (\<lambda>c. c\<lparr>c_flush := True\<rparr>) d"
  have "\<not> (c_flush (d_cl d (nat fd)) \<or> c_close (d_cl d (nat fd)))" using assms by (auto simp: flushClientMsgs_def)
  then have "flush_loop fd (cqueue fd ?d1) ?d1 = (Some e, d1)"
    using assms by (auto simp: flushClientMsgs_def Let_def split: prod.splits option.splits if_splits)
  from flush_loop_flag [OF this, of "nat fd"] have "c_flush (d_cl d1 (nat fd))" "d_max d1 = d_max d" by (simp_all add: upd_cl)
  then have "flag_set fd d2"
    using assms(1,3) by (simp add: PSIDclient_setEstablished_def upd_cl register_flag close_flag flag_set_def doCheckClient_def)
  then have 3: "flag_set fd (fold client_step ops d2)" by (rule flagged.run_inv)
  then have "stuck fd (d_wire (fold client_step ops d2) (nat fd)) (fold client_step ops d2)" using assms(4) by (simp add: stuck_def)
  with 3 have "stuck fd (d_wire (fold client_step ops d2) (nat fd)) (fold client_step ops' (fold client_step ops d2))"
    using stuck_slots.run_inv [where fd = fd and w = "d_wire (fold client_step ops d2) (nat fd)"] by simp
  then show ?thesis using flag_flush by (simp add: Let_def stuck_def)
qed

text \<open>A daemon with a large message queued for a client whose socket fails, and the next client on it.\<close>

definition ex_big :: "taskid \<Rightarrow> wmsg" where
  "ex_big t = ex_msg\<lparr>w_len := 65, w_dest := t, w_body := replicate 41 7\<rparr>"

definition ex_failing :: daemon where
  "ex_failing = (ex_daemon [WErr EPIPE, WErr EAGAIN])\<lparr>d_bufs := snd (store_buf 3 (ex_big 100) 0 ex_bufs),
     d_tasks := [100 \<mapsto> ftask.make False 3 0 0, 300 \<mapsto> ftask.make False 3 0 0]\<rparr>"

lemma ex_big_ok: "sender_ok (ex_big t)"
  by (simp add: sender_ok_def wf_msg_def ex_big_def ex_msg_def msg_bytes_def 
      valid_key_def hash_index_def busy_state_def tid_state_def PSITEM_IDLE_def PSITEM_DRAINED_def)



lemma send_conts_frame: "d_writes (send_conts_of fd t d) = d_writes d" "d_myID (send_conts_of fd t d) = d_myID d"
  "d_tasks (send_conts_of fd t d) = d_tasks d" "d_bufs (send_conts_of fd t d) = d_bufs d"
  by (simp_all add: send_conts_of_def split: prod.split)

lemma drop_queue_frame: "d_writes (drop_queue fd rs d) = d_writes d \<and> d_myID (drop_queue fd rs d) = d_myID d
   \<and> d_tasks (drop_queue fd rs d) = d_tasks d \<and> pmem (d_bufs (drop_queue fd rs d)) = pmem (d_bufs d)"
  by (induction rs arbitrary: d) (simp_all add: Let_def PSIDMsgbuf_put_def PSitems_putItem_def set_queue_def upd_bufs_def split: mref.split)

lemma close_frame: "d_writes (closeConnection fd d) = d_writes d" "d_myID (closeConnection fd d) = d_myID d"
  "c_task (d_cl d (nat fd)) \<noteq> Some t \<Longrightarrow> d_tasks (closeConnection fd d) t = d_tasks d t"
  "pmem (d_bufs (closeConnection fd d)) = pmem (d_bufs d)"
  by (auto simp: closeConnection_def Let_def send_conts_frame drop_queue_frame upd_client_def upd_task_def split: option.split)

lemma next_frame:
  "d_writes (PSIDclient_setEstablished fd (PSIDclient_register fd tid task d)) = d_writes d"
  "d_myID (PSIDclient_setEstablished fd (PSIDclient_register fd tid task d)) = d_myID d"
  "d_tasks (PSIDclient_setEstablished fd (PSIDclient_register fd tid task d)) = d_tasks d"
  "pmem (d_bufs (PSIDclient_setEstablished fd (PSIDclient_register fd tid task d))) = pmem (d_bufs d)"
  "doCheckClient fd d \<Longrightarrow> cqueue fd (PSIDclient_setEstablished fd (PSIDclient_register fd tid task d)) = []"
  by (simp_all add: PSIDclient_setEstablished_def PSIDclient_register_def Let_def upd_client_def set_queue_def upd_bufs_def cqueue_def queue_def)

text \<open>A message that is too large for the pool, to a socket that takes nothing.\<close>

lemma big_is_queued:
  assumes "target d m = Some (nat fd)" "doCheckClient fd d" "cqueue fd d = []" "d_writes d = WErr EAGAIN # ws"
    and "MSGBUF_SMALLSIZE < w_len m" "pmem (d_bufs d) = []"
  shows "cqueue fd (snd (PSIDclient_send m d)) \<noteq> []"
proof -
  obtain t where t: "d_tasks d (w_dest m) = Some t" "PSC_getID (d_myID d) (w_dest m) = d_myID d" "t_fd t \<noteq> -1"
    "doCheckClient (t_fd t) d" "nat (t_fd t) = nat fd"
    using assms(1) by (auto simp: target_def split: option.splits if_splits)
  then have fd: "t_fd t = fd" using assms(2) by (auto simp: doCheckClient_def)
  let ?d2 = "d\<lparr>d_writes := ws\<rparr>"
  have s: "doSend fd m 0 d = (Ret 0, ?d2)"
    using assms(4,5) by (cases d) (simp add: doSend_def PSCio_sendSProg_def PSCio_sendFunc_def send_loop.simps PSCIO_MAX_RETRY_def fun_upd_idem)
  have q: "queue (nat fd) (snd (store_buf (nat fd) m 0 (d_bufs d))) \<noteq> []" "fst (store_buf (nat fd) m 0 (d_bufs d))"
    using assms(5,6) by (simp_all add: store_buf_def PSIDMsgbuf_get_def Let_def)
  have st: "storeMsg fd m 0 ?d2 = (True, ?d2\<lparr>d_bufs := snd (store_buf (nat fd) m 0 (d_bufs d))\<rparr>)"
    using assms(2) q(2) by (auto simp: storeMsg_def doCheckClient_def split: prod.split)
  show ?thesis using t(1-4) fd assms(3,5) s st q(1)
    by (simp add: PSIDclient_send_def Let_def cqueue_def upd_client_def split: option.split)
qed

lemmas flush_eval = flushClientMsgs_def Let_def ex_failing_def ex_big_def ex_msg_def store_buf_def PSIDMsgbuf_get_def MSGBUF_SMALLSIZE_def
        doCheckClient_def upd_client_def cqueue_def queue_def set_queue_def upd_bufs_def set_offset_def PSitems_new_def
        ex_defs doSend_def PSCio_sendSProg_def PSCio_sendFunc_def send_loop.simps PSCIO_MAX_RETRY_def EPIPE_def
        PSIDclient_getTask_def upd_task_def

lemma ex_failing_flush:
  "fst (flushClientMsgs 3 ex_failing) = Fail EPIPE" "d_writes (snd (flushClientMsgs 3 ex_failing)) = [WErr EAGAIN]"
  "d_myID (snd (flushClientMsgs 3 ex_failing)) = 0" "pmem (d_bufs (snd (flushClientMsgs 3 ex_failing))) = []"
  "d_tasks (snd (flushClientMsgs 3 ex_failing)) 300 = Some (ftask.make False 3 0 0)"
  "c_task (d_cl (snd (flushClientMsgs 3 ex_failing)) 3) = Some 100" "d_max (snd (flushClientMsgs 3 ex_failing)) = 8"
  by (simp_all add: flush_eval)

theorem failed_flush_blocks_slot_witness:
  "\<exists>d1 d2. flushClientMsgs 3 ex_failing = (Fail EPIPE, d1)
     \<and> d2 = PSIDclient_setEstablished 3 (PSIDclient_register 3 300 (Some 300) (closeConnection 3 d1))
     \<and> cqueue 3 (fold client_step [OFlush 3, OGcBufs, OFlush 3] (fold client_step [OSend (ex_big 300)] d2)) \<noteq> []
     \<and> d_wire (fold client_step [OFlush 3, OGcBufs, OFlush 3] (fold client_step [OSend (ex_big 300)] d2)) 3
         = d_wire (fold client_step [OSend (ex_big 300)] d2) 3"
proof -
  have c: "doCheckClient 3 ex_failing" using ex_target(2) by (simp add: ex_failing_def doCheckClient_def)
  obtain d1 where d1: "flushClientMsgs 3 ex_failing = (Fail EPIPE, d1)" using ex_failing_flush(1) by (metis prod.collapse)
  define d2 where "d2 = PSIDclient_setEstablished 3 (PSIDclient_register 3 300 (Some 300) (closeConnection 3 d1))"
  note f = ex_failing_flush [unfolded d1 snd_conv]
  have k: "d_max (closeConnection 3 d1) = 8" "d_max d2 = 8" using f(7) close_flag [of 3 d1]
    by (simp_all add: d2_def PSIDclient_setEstablished_def upd_cl register_flag)
  have ck: "doCheckClient 3 (closeConnection 3 d1)" "doCheckClient 3 d2" using k by (simp_all add: doCheckClient_def)
  have "d_tasks d2 300 = Some (ftask.make False 3 0 0)" using f(5,6) close_frame(3) [of d1 3 300] by (simp add: d2_def next_frame)
  moreover have id: "d_myID d2 = 0" using f(3) by (simp add: d2_def next_frame close_frame)
  ultimately have "target d2 (ex_big 300) = Some (nat 3)"
    using ck(2) by (simp add: target_def ex_big_def ftask.defs PSC_getID_def)
  moreover have "cqueue 3 d2 = []" unfolding d2_def by (rule next_frame(5) [OF ck(1)])
  moreover have "d_writes d2 = WErr EAGAIN # []" "pmem (d_bufs d2) = []" using f(2,4) by (simp_all add: d2_def next_frame close_frame)
  moreover have "MSGBUF_SMALLSIZE < w_len (ex_big 300)" by (simp add: ex_big_def MSGBUF_SMALLSIZE_def)
  ultimately have "cqueue 3 (snd (PSIDclient_send (ex_big 300) d2)) \<noteq> []" using ck(2) by (intro big_is_queued)
  then have "cqueue 3 (fold client_step [OSend (ex_big 300)] d2) \<noteq> []" using ex_big_ok by simp
  from failed_flush_blocks_slot [OF c d1 d2_def this, of "[OFlush 3, OGcBufs, OFlush 3]", unfolded Let_def nat_numeral]
  show ?thesis using d1 d2_def by blast
qed

text \<open>
  C38: an acknowledgement that arrives late strands a sender.  A client reconnects, its counter of
  outstanding acknowledgements starts at zero again, and the acknowledgement of a SENDSTOP of the old
  connection makes it negative.  The next sender that is stopped, in a run of a send that the socket does not
  take, its acknowledgement and a flush that delivers everything, is not told to go on: the queue is empty and nothing
  is outstanding, but the counter is at -1, the sender is still in the table, and no SENDCONT was sent.
\<close>

theorem late_ack_strands_sender:
  assumes inv: "client_inv d" and c: "doCheckClient fd d" "cqueue fd d = []" "\<not> c_flush (d_cl d (nat fd))" "\<not> c_close (d_cl d (nat fd))"
    and m: "target d m = Some (nat fd)" "sender_ok m" "PSIDFlwCntrl_applicable m" "0 < w_len m" and w: "d_writes d = [WErr EAGAIN]"
  shows "let d0 = PSIDclient_releaseACK fd (PSIDclient_register fd tid task d);
         d3 = snd (flushClientMsgs fd (PSIDclient_releaseACK fd (snd (PSIDclient_send m d0))))
     in cqueue fd d3 = [] \<and> c_acks (d_cl d3 (nat fd)) = -1 \<and> w_sender m \<in> stopped (d_flow d3) (nat fd) \<and> d_out d3 = d_out d"
proof -
  let ?r = "PSIDclient_register fd tid task d"
  note r = register_spec [OF inv c(2,1), of tid task]
  let ?d0 = "upd_client fd (\<lambda>c. c\<lparr>c_acks := c_acks c - 1\<rparr>) ?r"
  have cr: "doCheckClient fd x" if "same_setup d x" for x using that c(1) by (simp add: same_setup_def doCheckClient_def)
  have e0: "PSIDclient_releaseACK fd ?r = ?d0" using r(7) cr [OF r(2)] by (simp add: PSIDclient_releaseACK_def Let_def)
  have s0: "same_setup d ?d0" using r(2) by simp
  have "client_inv ?d0" "cqueue fd ?d0 = []" "doCheckClient fd ?d0" "target ?d0 m = Some (nat fd)" "d_writes ?d0 = [WErr EAGAIN]"
    "w_sender m \<notin> stopped (d_flow ?d0) (nat fd)"
    using r cr [OF s0] target_setup [OF s0] m(1) w by simp_all
  from send_stalled [OF this(1-5) m(2-4) this(6)] obtain d1 where
    1: "PSIDclient_send m ?d0 = (Fail EAGAIN, d1)" "client_inv d1" "same_setup ?d0 d1" "d_writes d1 = []" "d_out d1 = d_out ?d0"
      "stopped (d_flow d1) = (stopped (d_flow ?d0))(nat fd := insert (w_sender m) (stopped (d_flow ?d0) (nat fd)))"
      "d_cl d1 = (d_cl ?d0)(nat fd := (d_cl ?d0 (nat fd))\<lparr>c_acks := c_acks (d_cl ?d0 (nat fd)) + 1\<rparr>)" "cqueue fd d1 \<noteq> []" by blast
  let ?d2 = "upd_client fd (\<lambda>c. c\<lparr>c_acks := c_acks c - 1\<rparr>) d1"
  have s1: "same_setup d d1" using s0 1(3) by (rule same_setup_trans)
  have acks: "c_acks (d_cl ?d2 (nat fd)) = -1" "\<not> c_flush (d_cl ?d2 (nat fd))" "\<not> c_close (d_cl ?d2 (nat fd))"
    using 1(7) r(7-9) c(3,4) by (simp_all add: upd_cl)
  have e2: "PSIDclient_releaseACK fd d1 = ?d2" using 1(8) cr [OF s1] by (simp add: PSIDclient_releaseACK_def Let_def)
  let ?d2' = "upd_client fd (\<lambda>c. c\<lparr>c_flush := True\<rparr>) ?d2"
  obtain res d3 where 3: "flush_loop fd (cqueue fd ?d2') ?d2' = (res, d3)" by (rule prod.exhaust)
  have "client_inv ?d2'" using 1(2) by simp
  note l = flush_loop_inv [OF this 3]
  have q3: "cqueue fd d3 = []" using l(8) 1(4) by simp
  have a3: "c_acks (d_cl d3 (nat fd)) = -1" using l(5) acks(1) by simp
  have c3: "doCheckClient fd ?d2" using cr [OF s1] by simp
  let ?d4 = "upd_client fd (\<lambda>c. c\<lparr>c_flush := False\<rparr>) d3"
  have "snd (flushClientMsgs fd ?d2) = ?d4\<lparr>d_wait := (d_wait ?d4)(nat fd := False)\<rparr>"
    using 3 l(1) q3 a3 acks(2,3) c3 by (simp add: flushClientMsgs_def Let_def)
  moreover have "w_sender m \<in> stopped (d_flow d3) (nat fd)" "d_out d3 = d_out d"
    using l(6,7) 1(5,6) r(5) by simp_all
  ultimately show ?thesis using q3 a3 unfolding Let_def e0 1(1) snd_conv e2 by (simp add: upd_cl)
qed

theorem late_ack_strands_sender_witness:
  "\<exists>d3. w_sender ex_msg \<in> stopped (d_flow d3) 3 \<and> cqueue 3 d3 = [] \<and> d_out d3 = []"
proof -
  let ?d = "ex_daemon [WErr EAGAIN]"
  have "client_inv ?d" by (rule ex_inv) (simp add: no_errors_def)
  moreover have "cqueue 3 ?d = []" "\<not> c_flush (d_cl ?d (nat 3))" "\<not> c_close (d_cl ?d (nat 3))" "d_writes ?d = [WErr EAGAIN]" "d_out ?d = []"
    by (simp_all add: ex_defs cqueue_def queue_def PSitems_new_def)
  moreover have "target ?d ex_msg = Some (nat 3)" "sender_ok ex_msg" "0 < w_len ex_msg"
    using ex_target ex_msg_ok by (simp_all add: sender_ok_def) (simp add: ex_msg_def)
  ultimately show ?thesis
    using late_ack_strands_sender [of ?d 3 ex_msg 100 "Some 100"] ex_target(2) ex_msg_ok(2) by (auto simp: Let_def)
qed

text \<open>
  C40: a client is cut off exactly while more SENDSTOPs than SENDCONTs have arrived for its task: its
  counter is the difference, whatever other flow control messages come in between, and reading from it
  is disabled if and only if the counter is positive.
\<close>

theorem stops_and_conts_balance:
  assumes "stops_inv t fd d" "fd \<noteq> -1"
  shows "let d' = fold flow_step ops d
     in active_stops t d' = active_stops t d + (\<Sum>opn\<leftarrow>ops. stop_weight t opn)
        \<and> (d_disabled d' (nat fd) \<longleftrightarrow> 0 < active_stops t d')"
proof -
  have "active_stops t (fold flow_step ops d) = active_stops t d + (\<Sum>opn\<leftarrow>ops. stop_weight t opn)"
    using assms(1)
  proof (induction ops arbitrary: d)
    case (Cons opn ops)
    show ?case using Cons.IH [OF flow_step_stops(1) [OF Cons.prems assms(2)]] flow_step_stops(2) [OF Cons.prems assms(2)] by simp
  qed simp
  moreover have "stops_inv t fd (fold flow_step ops d)" using stop_counts.run_inv [of t fd d ops] assms by simp
  ultimately show ?thesis by (auto simp: Let_def stops_inv_def active_stops_def)
qed

theorem stops_and_conts_balance_witness:
  "d_disabled (fold flow_step [FStop (header_msg 0 200 100), FStop (header_msg 0 300 100), FCont (header_msg 0 200 100)] (ex_daemon [])) 3"
proof -
  have "stops_inv 100 3 (ex_daemon [])" by (auto simp: stops_inv_def ex_defs split: if_splits)
  from stops_and_conts_balance [OF this, of "[FStop (header_msg 0 200 100), FStop (header_msg 0 300 100), FCont (header_msg 0 200 100)]"]
  show ?thesis by (simp add: Let_def header_msg_def active_stops_def ex_defs)
qed

end
