(* ===== verification/Client_Table.thy ===== *)
theory Client_Table
  imports Client
begin

text \<open>
  Growing the table of clients (\<open>PSIDclient_setMax\<close> in \<open>src/bin/daemon/psidclient.c\<close>) and \<open>list_fix\<close>
  (\<open>src/include/list.h\<close>).  Here the list heads inside the table matter as memory: \<open>nxt\<close> and \<open>prv\<close> are
  the pointers stored at an address, and \<open>realloc\<close> may move the table.
\<close>

section \<open>List heads in memory\<close>

record links =
  nxt :: "nat \<Rightarrow> nat"
  prv :: "nat \<Rightarrow> nat"

definition init_list_head :: "nat \<Rightarrow> links \<Rightarrow> links" where
  "init_list_head h m = m\<lparr>nxt := (nxt m)(h := h), prv := (prv m)(h := h)\<rparr>"

definition list_fix :: "nat \<Rightarrow> nat \<Rightarrow> links \<Rightarrow> links" where
  "list_fix head old m =
     (if nxt m head = old then init_list_head head m
      else
        let m1 = m\<lparr>prv := (prv m)(nxt m head := head)\<rparr>
        in m1\<lparr>nxt := (nxt m1)(prv m1 head := head)\<rparr>)"

section \<open>The table\<close>

text \<open>The layout of \<open>client_t\<close>: its size and the offsets of \<open>msgs\<close> and \<open>stops\<close>.\<close>

definition SIZEOF_CLIENT :: nat where "SIZEOF_CLIENT = 552"
definition SIZEOF_LIST :: nat where "SIZEOF_LIST = 16"
definition SIZEOF_HASH :: nat where "SIZEOF_HASH = 32 * SIZEOF_LIST"
definition OFF_MSGS :: nat where "OFF_MSGS = 24"
definition OFF_STOPS :: nat where "OFF_STOPS = 40"

definition clientInit_lists :: "nat \<Rightarrow> links \<Rightarrow> links" where
  "clientInit_lists c m =
     fold (\<lambda>h. init_list_head (c + OFF_STOPS + h * SIZEOF_LIST)) [0..<FLWCNTRL_HASH_SIZE] (init_list_head (c + OFF_MSGS) m)"

definition fix_client :: "nat \<Rightarrow> nat \<Rightarrow> links \<Rightarrow> links" where
  "fix_client c old m =
     fold (\<lambda>h. list_fix (c + OFF_STOPS + h * SIZEOF_LIST) (old + OFF_STOPS + h * SIZEOF_HASH))
       [0..<FLWCNTRL_HASH_SIZE] (list_fix (c + OFF_MSGS) (old + OFF_MSGS) m)"

text \<open>\<open>realloc\<close> copies the old table.\<close>

definition copy_table :: "nat \<Rightarrow> nat \<Rightarrow> nat \<Rightarrow> links \<Rightarrow> links" where
  "copy_table old new n m =
     m\<lparr>nxt := (\<lambda>a. if new \<le> a \<and> a < new + n then nxt m (old + (a - new)) else nxt m a),
       prv := (\<lambda>a. if new \<le> a \<and> a < new + n then prv m (old + (a - new)) else prv m a)\<rparr>"

text \<open>
  \<open>new\<close> is the result of \<open>realloc\<close>, if it succeeds; the result is the return value, the new size, the
  address of the table and the memory.
\<close>

definition PSIDclient_setMax :: "nat \<Rightarrow> nat option \<Rightarrow> nat \<Rightarrow> nat \<Rightarrow> links \<Rightarrow> int \<times> nat \<times> nat \<times> links" where
  "PSIDclient_setMax newMax new oldMax clients m =
     (if oldMax \<ge> newMax then (0, oldMax, clients, m)
      else case new of
        None \<Rightarrow> (-1, oldMax, clients, m)
      | Some c \<Rightarrow>
          let m1 = copy_table clients c (oldMax * SIZEOF_CLIENT) m;
              m2 = (if c \<noteq> clients
                    then fold (\<lambda>fd. fix_client (c + fd * SIZEOF_CLIENT) (clients + fd * SIZEOF_CLIENT)) [0..<oldMax] m1
                    else m1)
          in (0, newMax, c, fold (\<lambda>fd. clientInit_lists (c + fd * SIZEOF_CLIENT)) [oldMax..<newMax] m2))"

text \<open>
  An empty list whose head was moved is repaired when its old address is right.  The address that is
  passed for a bucket other than the first is not: the bucket then points to the old table for ever.
\<close>

lemma list_fix_empty:
  assumes "nxt m head = old" shows "nxt (list_fix head old m) head = head \<and> prv (list_fix head old m) head = head"
  using assms by (simp add: list_fix_def init_list_head_def)

lemma moved_bucket_dangles:
  assumes "nxt m new = old" "prv m new = old" "old \<noteq> new"
    and "new = c + OFF_STOPS + h * SIZEOF_LIST" "old = oc + OFF_STOPS + h * SIZEOF_LIST" "0 < h"
  shows "nxt (list_fix new (oc + OFF_STOPS + h * SIZEOF_HASH) m) new = old
     \<and> prv (list_fix new (oc + OFF_STOPS + h * SIZEOF_HASH) m) old = new"
proof -
  have "old \<noteq> oc + OFF_STOPS + h * SIZEOF_HASH" using assms(5,6) by (simp add: SIZEOF_HASH_def SIZEOF_LIST_def)
  then show ?thesis using assms(1-3) by (simp add: list_fix_def Let_def)
qed

end
