(* ===== verification/Tsk_State.thy ===== *)
theory Tsk_State
  imports Ps_Msg
begin

text \<open>
  The tasks a daemon manages and the lists of signals they keep (\<open>src/bin/daemon/psidtask.c\<close>,
  \<open>src/include/pstask.h\<close>).  A task structure is named by its address, a number; the lists of managed
  and of obsolete tasks hold addresses.  A list of signals is the list of its entries: a task
  identifier and a signal.  Results of allocations, of \<open>kill\<close> and of sending to a forwarder come from
  scripts; what leaves the component is logged in its order.
\<close>

section \<open>State\<close>

type_synonym siglist = "(taskid \<times> int) list"

datatype task_group = TG_ANY | TG_ADMIN | TG_RESET | TG_LOGGER | TG_FORWARDER | TG_ADMINTASK | TG_SERVICE
  | TG_ACCOUNT | TG_SERVICE_SIG | TG_KVS | TG_DELEGATE | TG_PLUGINFW

record ptask =
  tk_tid :: taskid
  tk_ptid :: taskid
  tk_uid :: int
  tk_group :: task_group
  tk_forwarder :: "nat option"
  tk_fd :: int
  tk_logger :: taskid
  tk_relsig :: int
  tk_pendRes :: int
  tk_pendErr :: int
  tk_relAnswer :: bool
  tk_released :: bool
  tk_parentReleased :: bool
  tk_duplicate :: bool
  tk_suspended :: bool
  tk_removeIt :: bool
  tk_deleted :: bool
  tk_obsolete :: bool
  tk_noParricide :: bool
  tk_killat :: int
  tk_request :: bool
  tk_partition :: bool
  tk_partSize :: nat
  tk_resv :: bool
  tk_delegate :: bool
  tk_sigChldCB :: bool
  childList :: siglist
  releasedBefore :: siglist
  deadBefore :: siglist
  signalSender :: siglist
  signalReceiver :: siglist
  assignedSigs :: siglist
  keptChildren :: siglist

text \<open>The messages of this component: \<open>DDSignalMsg_t\<close>, \<open>DDErrorMsg_t\<close>, a buffer, and the one to a forwarder.\<close>

record sigmsg =
  sg_type :: int16
  sg_sender :: taskid
  sg_dest :: taskid
  sg_signal :: int
  sg_param :: int
  sg_pervasive :: bool
  sg_answer :: bool

record errmsg =
  er_type :: int16
  er_sender :: taskid
  er_dest :: taskid
  er_error :: int
  er_request :: taskid

datatype smsg = MSig sigmsg | MErr errmsg | MBuf ddmsg | MFwd taskid int int

datatype tcall = CCancelPart taskid | CTaskDead (master: bool) taskid | CSuspend taskid | CResume taskid
  | CCleanupRes taskid | CCleanupSlots taskid | CDecCount bool | CLastChild taskid | CSuspSlots taskid | CContSlots taskid
  | CChildResRel taskid taskid

datatype tevent = ESend smsg | EKill int int int | EEnable int | ECall tcall

record tstate =
  z_myID :: nodeid
  z_nodes :: nodeid
  z_up :: "nodeid \<Rightarrow> bool"
  z_heap :: "nat \<Rightarrow> ptask"
  z_managed :: "nat list"
  z_obsolete :: "nat list"
  z_mem :: "bool list"
  z_kill :: "int list"
  z_fwd :: "bool list"
  z_now :: int
  z_killDelay :: int
  z_sTN :: "int option"
  z_log :: "tevent list"
  z_stuck :: bool

definition ESRCH :: int where "ESRCH = 3"
definition EPERM :: int where "EPERM = 1"
definition EACCES_NO :: int where "EACCES_NO = 13"
definition EHOSTUNREACH_NO :: int where "EHOSTUNREACH_NO = 113"
definition ENOMEM_NO :: int where "ENOMEM_NO = 12"
definition SIGKILL :: int where "SIGKILL = 9"
definition SIGTERM :: int where "SIGTERM = 15"
definition SIGCONT :: int where "SIGCONT = 18"
definition SIGSTOP :: int where "SIGSTOP = 19"

definition log_ev :: "tevent \<Rightarrow> tstate \<Rightarrow> tstate" where
  "log_ev e s = s\<lparr>z_log := z_log s @ [e]\<rparr>"

definition upd :: "nat \<Rightarrow> (ptask \<Rightarrow> ptask) \<Rightarrow> tstate \<Rightarrow> tstate" where
  "upd r f s = s\<lparr>z_heap := (z_heap s)(r := f (z_heap s r))\<rparr>"

definition is_local :: "taskid \<Rightarrow> tstate \<Rightarrow> bool" where
  "is_local t s \<longleftrightarrow> PSC_getID (z_myID s) t = z_myID s"

definition myTID :: "tstate \<Rightarrow> taskid" where
  "myTID s = PSC_getTID (z_myID s) (-1) 0"

section \<open>Lists of signals\<close>

text \<open>An entry needs memory; without any the call has no effect.\<close>

definition PSsignal_get :: "tstate \<Rightarrow> bool \<times> tstate" where
  "PSsignal_get s = (case z_mem s of [] \<Rightarrow> (True, s) | b # bs \<Rightarrow> (b, s\<lparr>z_mem := bs\<rparr>))"

definition PSID_setSignal ::
  "((siglist \<Rightarrow> siglist) \<Rightarrow> ptask \<Rightarrow> ptask) \<Rightarrow> nat \<Rightarrow> taskid \<Rightarrow> int \<Rightarrow> tstate \<Rightarrow> tstate" where
  "PSID_setSignal fld r tid sig s =
     (let (ok, s1) = PSsignal_get s in if ok then upd r (fld (\<lambda>l. l @ [(tid, sig)])) s1 else s1)"

definition PSID_findSignal :: "siglist \<Rightarrow> taskid \<Rightarrow> int \<Rightarrow> bool" where
  "PSID_findSignal l tid sig \<longleftrightarrow> (tid, sig) \<in> set l"

definition PSID_removeSignal :: "siglist \<Rightarrow> taskid \<Rightarrow> int \<Rightarrow> bool \<times> siglist" where
  "PSID_removeSignal l tid sig = (if PSID_findSignal l tid sig then (True, remove1 (tid, sig) l) else (False, l))"

text \<open>The first entry that satisfies a test is taken out of the list.\<close>

fun take_first :: "('a \<Rightarrow> bool) \<Rightarrow> 'a list \<Rightarrow> 'a option \<times> 'a list" where
  "take_first P [] = (None, [])"
| "take_first P (x # xs) =
     (if P x then (Some x, xs) else (case take_first P xs of (r, ys) \<Rightarrow> (r, x # ys)))"

text \<open>The result is the task identifier, 0 if there is none, the signal and the rest.\<close>

definition PSID_getSignal :: "siglist \<Rightarrow> int \<Rightarrow> taskid \<times> int \<times> siglist" where
  "PSID_getSignal l sig =
     (case take_first (\<lambda>(t, g). sig = -1 \<or> g = sig) l of
        (None, l') \<Rightarrow> (0, sig, l')
      | (Some (t, g), l') \<Rightarrow> (t, g, l'))"

definition PSID_getSignalByID :: "nodeid \<Rightarrow> siglist \<Rightarrow> nodeid \<Rightarrow> int \<Rightarrow> taskid \<times> int \<times> siglist" where
  "PSID_getSignalByID myID l node sig =
     (case take_first (\<lambda>(t, g). PSC_getID myID t = node) l of
        (None, l') \<Rightarrow> (0, sig, l')
      | (Some (t, g), l') \<Rightarrow> (t, g, l'))"

definition PSID_getSignalByTID :: "siglist \<Rightarrow> taskid \<Rightarrow> int \<times> siglist" where
  "PSID_getSignalByTID l tid =
     (case take_first (\<lambda>(t, g). t = tid) l of
        (None, l') \<Rightarrow> (0, l')
      | (Some (t, g), l') \<Rightarrow> (g, l'))"

definition PSID_numSignals :: "siglist \<Rightarrow> int" where
  "PSID_numSignals l = int (length l)"

definition PSID_emptySigList :: "siglist \<Rightarrow> bool" where
  "PSID_emptySigList l \<longleftrightarrow> l = []"

text \<open>Copying a list; when memory runs out, the copy is empty.\<close>

fun clone_entries :: "siglist \<Rightarrow> tstate \<Rightarrow> bool \<times> tstate" where
  "clone_entries [] s = (True, s)"
| "clone_entries (x # xs) s = (case PSsignal_get s of (False, s1) \<Rightarrow> (False, s1) | (True, s1) \<Rightarrow> clone_entries xs s1)"

definition PSsignal_cloneList :: "siglist \<Rightarrow> tstate \<Rightarrow> siglist \<times> tstate" where
  "PSsignal_cloneList l s = (case clone_entries l s of (ok, s1) \<Rightarrow> (if ok then l else [], s1))"

section \<open>Lists of tasks\<close>

definition PStasklist_find :: "nat list \<Rightarrow> taskid \<Rightarrow> tstate \<Rightarrow> nat option" where
  "PStasklist_find l tid s = List.find (\<lambda>r. tk_tid (z_heap s r) = tid \<and> \<not> tk_deleted (z_heap s r)) l"

definition find_managed :: "taskid \<Rightarrow> tstate \<Rightarrow> nat option" where
  "find_managed tid s = PStasklist_find (z_managed s) tid s"

definition PStasklist_dequeue :: "nat \<Rightarrow> tstate \<Rightarrow> tstate" where
  "PStasklist_dequeue r s = s\<lparr>z_managed := remove1 r (z_managed s), z_obsolete := remove1 r (z_obsolete s)\<rparr>"

text \<open>
  Adding to the list of obsolete tasks first takes out an older entry with the same identifier and adds
  that again, which may find yet another one: every step shortens the list, whose length is the fuel.
  Adding to the list of managed tasks makes an older entry obsolete.
\<close>

primrec enq_obsolete :: "nat \<Rightarrow> nat \<Rightarrow> tstate \<Rightarrow> tstate" where
  "enq_obsolete 0 r s = s\<lparr>z_obsolete := z_obsolete s @ [r]\<rparr>"
| "enq_obsolete (Suc n) r s =
     (let s1 = (case PStasklist_find (z_obsolete s) (tk_tid (z_heap s r)) s of
                  None \<Rightarrow> s
                | Some old \<Rightarrow> enq_obsolete n old (upd old (\<lambda>t. t\<lparr>tk_obsolete := True\<rparr>) (PStasklist_dequeue old s)))
      in s1\<lparr>z_obsolete := z_obsolete s1 @ [r]\<rparr>)"

definition enqueue_obsolete :: "nat \<Rightarrow> tstate \<Rightarrow> tstate" where
  "enqueue_obsolete r s = enq_obsolete (length (z_obsolete s)) r s"

definition insert_before :: "nat option \<Rightarrow> nat \<Rightarrow> nat list \<Rightarrow> nat list" where
  "insert_before other r l =
     (case other of None \<Rightarrow> l @ [r] | Some q \<Rightarrow> takeWhile (\<lambda>x. x \<noteq> q) l @ [r] @ dropWhile (\<lambda>x. x \<noteq> q) l)"

definition doEnqueue :: "nat \<Rightarrow> nat option \<Rightarrow> tstate \<Rightarrow> tstate" where
  "doEnqueue r other s =
     (let s1 = (case find_managed (tk_tid (z_heap s r)) s of
                  None \<Rightarrow> s
                | Some old \<Rightarrow> enqueue_obsolete old (upd old (\<lambda>t. t\<lparr>tk_obsolete := True\<rparr>) (PStasklist_dequeue old s)))
      in s1\<lparr>z_managed := insert_before other r (z_managed s1)\<rparr>)"

definition PStasklist_enqueue :: "nat \<Rightarrow> tstate \<Rightarrow> tstate" where
  "PStasklist_enqueue r s = doEnqueue r None s"

definition PStasklist_enqueueBefore :: "nat \<Rightarrow> nat option \<Rightarrow> tstate \<Rightarrow> int \<times> tstate" where
  "PStasklist_enqueueBefore r other s =
     (case other of
        None \<Rightarrow> (-1, s)
      | Some q \<Rightarrow> (case find_managed (tk_tid (z_heap s q)) s of None \<Rightarrow> (-1, s) | Some x \<Rightarrow> (0, doEnqueue r (Some q) s)))"

definition PStasklist_count :: "tstate \<Rightarrow> int" where
  "PStasklist_count s =
     int (length (filter (\<lambda>r. \<not> (tk_deleted (z_heap s r) \<and> tk_fd (z_heap s r) = -1)) (z_managed s)))"

definition PStasklist_cleanupObsolete :: "tstate \<Rightarrow> tstate" where
  "PStasklist_cleanupObsolete s = s\<lparr>z_obsolete := []\<rparr>"

end
