(* ===== verification/Tsk_Signal.thy ===== *)
theory Tsk_Signal
  imports Tsk_State
begin

text \<open>
  Sending signals to tasks (first part of \<open>src/bin/daemon/psidsignal.c\<close>) and the end of a task
  (\<open>PSIDtask_cleanup\<close> in \<open>src/bin/daemon/psidtask.c\<close>).  The functions take \<open>sendMsg\<close> as an argument:
  it may log a message or handle it at once, as it does for messages to the daemon itself.
\<close>

type_synonym sender = "smsg \<Rightarrow> tstate \<Rightarrow> tstate"

definition PSP_CD_NOTIFYDEAD :: int16 where "PSP_CD_NOTIFYDEAD = 0x40"
definition PSP_CD_NOTIFYDEADRES :: int16 where "PSP_CD_NOTIFYDEADRES = 0x41"
definition PSP_CD_RELEASE :: int16 where "PSP_CD_RELEASE = 0x42"
definition PSP_CD_RELEASERES :: int16 where "PSP_CD_RELEASERES = 0x43"
definition PSP_CD_SIGNAL :: int16 where "PSP_CD_SIGNAL = 0x44"
definition PSP_CD_WHODIED :: int16 where "PSP_CD_WHODIED = 0x45"
definition PSP_CD_SIGRES :: int16 where "PSP_CD_SIGRES = 0x46"
definition PSP_DD_CHILDDEAD :: int16 where "PSP_DD_CHILDDEAD = 0x110"
definition PSP_DD_NEWANCESTOR :: int16 where "PSP_DD_NEWANCESTOR = 0x118"
definition PSP_DD_ADOPTCHILDSET :: int16 where "PSP_DD_ADOPTCHILDSET = 0x119"
definition PSP_DD_ADOPTFAILED :: int16 where "PSP_DD_ADOPTFAILED = 0x11A"
definition PSP_DD_INHERITDONE :: int16 where "PSP_DD_INHERITDONE = 0x11B"
definition PSP_DD_INHERITFAILED :: int16 where "PSP_DD_INHERITFAILED = 0x11C"

section \<open>Delivering a signal\<close>

text \<open>\<open>pskill\<close> forks a process that calls \<open>kill\<close>; its result, 0 or an error number, comes from a script.\<close>

definition pskill :: "int \<Rightarrow> int \<Rightarrow> int \<Rightarrow> tstate \<Rightarrow> int \<times> tstate" where
  "pskill pid sig uid s =
     (let s1 = log_ev (EKill pid sig uid) s
      in case z_kill s1 of [] \<Rightarrow> (0, s1) | e # es \<Rightarrow> (e, s1\<lparr>z_kill := es\<rparr>))"

text \<open>The result is 0 or the error number; where it is not 0 the C function returns -1.\<close>

definition PSID_kill :: "int \<Rightarrow> int \<Rightarrow> int \<Rightarrow> tstate \<Rightarrow> int \<times> tstate" where
  "PSID_kill pid sig uid s =
     (case find_managed (PSC_getTID (z_myID s) (-1) (word_of_int \<bar>pid\<bar>)) s of
        None \<Rightarrow> (ESRCH, s)
      | Some r \<Rightarrow>
          let child = z_heap s r in
          if uid \<noteq> 0 \<and> tk_uid child \<noteq> uid then (EPERM, s)
          else if sig = 0 then (0, s)
          else case tk_forwarder child of
            None \<Rightarrow> pskill pid sig uid s
          | Some f \<Rightarrow>
              let fw = z_heap s f in
              if tk_fd fw \<noteq> -1 \<and> tk_killat fw = 0
              then (let s1 = log_ev (EEnable (tk_fd fw)) s;
                        (ok, s2) = (case z_fwd s1 of [] \<Rightarrow> (True, s1) | b # bs \<Rightarrow> (b, s1\<lparr>z_fwd := bs\<rparr>))
                    in if ok then (0, log_ev (ESend (MFwd (tk_tid fw) pid sig)) s2) else pskill pid sig uid s2)
              else pskill pid sig uid s)"

definition sigres :: "taskid \<Rightarrow> taskid \<Rightarrow> int \<Rightarrow> tstate \<Rightarrow> smsg" where
  "sigres sender tid err s =
     MErr \<lparr>er_type = PSP_CD_SIGRES, er_sender = myTID s, er_dest = sender, er_error = err, er_request = tid\<rparr>"

definition answer_if :: "sender \<Rightarrow> bool \<Rightarrow> smsg \<Rightarrow> tstate \<Rightarrow> tstate" where
  "answer_if send answer m s = (if answer then send m s else s)"

definition remote_signal :: "taskid \<Rightarrow> int \<Rightarrow> taskid \<Rightarrow> int \<Rightarrow> bool \<Rightarrow> bool \<Rightarrow> smsg" where
  "remote_signal tid uid sender sig pervasive answer =
     MSig \<lparr>sg_type = PSP_CD_SIGNAL, sg_sender = sender, sg_dest = tid, sg_signal = sig, sg_param = uid,
       sg_pervasive = pervasive, sg_answer = answer\<rparr>"

text \<open>Was the signal meant for an older task with the same identifier?\<close>

definition for_obsolete :: "taskid \<Rightarrow> taskid \<Rightarrow> int \<Rightarrow> tstate \<Rightarrow> bool" where
  "for_obsolete tid sender sig s \<longleftrightarrow>
     (case PStasklist_find (z_obsolete s) tid s of
        None \<Rightarrow> False
      | Some r \<Rightarrow>
          let obsT = z_heap s r in
          sig = -1 \<and> (sender = tk_ptid obsT \<or> PSID_findSignal (childList obsT) sender (-1))
          \<or> PSID_findSignal (assignedSigs obsT) sender sig)"

text \<open>
  The last branch of \<open>PSID_sendSignal\<close>: the task \<open>r\<close> itself gets the signal.  The signal -1 stands for
  the one that the task wants to get when a relative ends.
\<close>

definition relative_signal :: "nat \<Rightarrow> int \<Rightarrow> tstate \<Rightarrow> int \<times> tstate" where
  "relative_signal r signal s =
     (let dest = z_heap s r;
          sig = (if signal \<noteq> -1 then signal else tk_relsig dest)
      in if signal \<noteq> -1 then (sig, s)
         else
           let s' = (if sig = SIGTERM \<and> z_killDelay s \<noteq> 0 \<and> tk_killat dest = 0
                     then upd r (\<lambda>t. t\<lparr>tk_killat := z_now s + z_killDelay s + (if tk_group dest = TG_LOGGER then 1 else 0)\<rparr>) s
                     else s)
           in (sig, if tk_fd dest \<noteq> -1 then log_ev (EEnable (tk_fd dest)) s' else s'))"

definition deliver :: "nat \<Rightarrow> taskid \<Rightarrow> int \<Rightarrow> taskid \<Rightarrow> int \<Rightarrow> tstate \<Rightarrow> int \<times> tstate" where
  "deliver r tid uid sender signal s =
     (let (sig, s1) = relative_signal r signal s;
          s2 = upd r (\<lambda>t. t\<lparr>assignedSigs := snd (PSID_removeSignal (assignedSigs t) sender signal)\<rparr>) s1;
          (err, s3) = PSID_kill (sint (PSC_getPID tid)) sig uid s2
      in if err \<noteq> 0 then (-1, s3) else (0, PSID_setSignal signalSender_update r sender sig s3))"

text \<open>\<open>PSID_sendSignal\<close> to one task.\<close>

definition sendSignal1 :: "sender \<Rightarrow> taskid \<Rightarrow> int \<Rightarrow> taskid \<Rightarrow> int \<Rightarrow> bool \<Rightarrow> tstate \<Rightarrow> tstate" where
  "sendSignal1 send tid uid sender signal answer s =
     (if \<not> is_local tid s then send (remote_signal tid uid sender signal False answer) s
      else case find_managed tid s of
        None \<Rightarrow> answer_if send answer (sigres sender tid ESRCH s) s
      | Some r \<Rightarrow>
          if PSC_getPID tid = 0 then answer_if send answer (sigres sender tid EACCES_NO s) s
          else if for_obsolete tid sender signal s then answer_if send answer (sigres sender tid ESRCH s) s
          else (case deliver r tid uid sender signal s of (err, s1) \<Rightarrow> answer_if send answer (sigres sender tid err s1) s1))"

text \<open>What the master and the slots of reservations are told.\<close>

definition tell_suspend :: "nat \<Rightarrow> int \<Rightarrow> tstate \<Rightarrow> tstate" where
  "tell_suspend r signal s =
     (let dest = z_heap s r in
      if tk_partition dest \<and> tk_partSize dest \<noteq> 0
      then (if signal = SIGSTOP then log_ev (ECall (CSuspend (tk_tid dest))) (upd r (\<lambda>t. t\<lparr>tk_suspended := True\<rparr>) s)
            else if signal = SIGCONT then log_ev (ECall (CResume (tk_tid dest))) (upd r (\<lambda>t. t\<lparr>tk_suspended := False\<rparr>) s)
            else s)
      else if tk_resv dest
      then (if signal = SIGSTOP \<and> \<not> tk_suspended dest
            then log_ev (ECall (CSuspSlots (tk_tid dest))) (upd r (\<lambda>t. t\<lparr>tk_suspended := True\<rparr>) s)
            else if signal = SIGCONT \<and> tk_suspended dest
            then log_ev (ECall (CContSlots (tk_tid dest))) (upd r (\<lambda>t. t\<lparr>tk_suspended := False\<rparr>) s)
            else s)
      else s)"

text \<open>
  The pervasive case goes down the tree of tasks on this node; the fuel bounds its depth, and \<open>None\<close> is
  the result when it is used up.  The loop over a list of signals ends at the first identifier 0.
\<close>

primrec sendSignalP ::
  "nat \<Rightarrow> sender \<Rightarrow> taskid \<Rightarrow> int \<Rightarrow> taskid \<Rightarrow> int \<Rightarrow> bool \<Rightarrow> tstate \<Rightarrow> tstate option" where
  "sendSignalP 0 send tid uid sender signal answer s = None"
| "sendSignalP (Suc n) send tid uid sender signal answer s =
     (if \<not> is_local tid s then Some (send (remote_signal tid uid sender signal True answer) s)
      else case find_managed tid s of
        None \<Rightarrow> Some (answer_if send answer (sigres sender tid ESRCH s) s)
      | Some r \<Rightarrow>
          if PSC_getPID tid = 0 then Some (answer_if send answer (sigres sender tid EACCES_NO s) s)
          else if for_obsolete tid sender signal s then Some (answer_if send answer (sigres sender tid ESRCH s) s)
          else
            let (kids, s1) = PSsignal_cloneList (childList (z_heap s r)) s in
            case fold (\<lambda>(c, g) so. case so of None \<Rightarrow> None
                        | Some x \<Rightarrow> if z_up x (PSC_getID (z_myID x) c) then sendSignalP n send c uid sender signal False x else Some x)
                   (takeWhile (\<lambda>(c, g). c \<noteq> 0) kids) (Some s1) of
              None \<Rightarrow> None
            | Some s2 \<Rightarrow>
                let s3 = (if tid \<noteq> sender then sendSignal1 send tid uid sender signal False s2 else s2)
                in Some (tell_suspend r signal s3))"

section \<open>Signals of a task that ends\<close>

primrec all_signals_loop :: "nat \<Rightarrow> sender \<Rightarrow> nat \<Rightarrow> tstate \<Rightarrow> tstate" where
  "all_signals_loop 0 send r s = s"
| "all_signals_loop (Suc n) send r s =
     (let task = z_heap s r;
          (t, g, l) = PSID_getSignal (signalReceiver task) (-1);
          s1 = upd r (\<lambda>x. x\<lparr>signalReceiver := l\<rparr>) s
      in if t = 0 then s1
         else all_signals_loop n send r (sendSignal1 send t (tk_uid task) (tk_tid task) g False s1))"

text \<open>Every round takes one entry; the fuel is the length of the list, plus one round for its end.\<close>

definition PSID_sendAllSignals :: "sender \<Rightarrow> nat \<Rightarrow> tstate \<Rightarrow> tstate" where
  "PSID_sendAllSignals send r s = all_signals_loop (Suc (length (signalReceiver (z_heap s r)))) send r s"

definition PSID_sendSignalsToRelatives :: "sender \<Rightarrow> nat \<Rightarrow> tstate \<Rightarrow> tstate" where
  "PSID_sendSignalsToRelatives send r s =
     (let task = z_heap s r;
          s1 = (if tk_ptid task \<noteq> 0 then sendSignal1 send (tk_ptid task) (tk_uid task) (tk_tid task) (-1) False s else s);
          (kids, s2) = PSsignal_cloneList (childList (z_heap s1 r)) s1
      in fold (\<lambda>(c, g) x. if z_up x (PSC_getID (z_myID x) c)
                         then sendSignal1 send c (tk_uid (z_heap x r)) (tk_tid (z_heap x r)) (-1) False x else x)
           (takeWhile (\<lambda>(c, g). c \<noteq> 0) kids) s2)"

section \<open>The end of a task\<close>

text \<open>The child of a forwarder, if it is still the one the forwarder controls.\<close>

definition child_of :: "nat \<Rightarrow> taskid \<Rightarrow> tstate \<Rightarrow> nat option" where
  "child_of r childTID s =
     (case find_managed childTID s of
        Some c \<Rightarrow>
          if tk_forwarder (z_heap s c) = Some r then Some c
          else (case PStasklist_find (z_obsolete s) childTID s of
                  Some c' \<Rightarrow> if tk_forwarder (z_heap s c') = Some r then Some c' else None
                | None \<Rightarrow> None)
      | None \<Rightarrow>
          (case PStasklist_find (z_obsolete s) childTID s of
             Some c' \<Rightarrow> if tk_forwarder (z_heap s c') = Some r then Some c' else None
           | None \<Rightarrow> None))"

definition childdead :: "ptask \<Rightarrow> taskid \<Rightarrow> smsg" where
  "childdead task child =
     MErr \<lparr>er_type = PSP_DD_CHILDDEAD, er_sender = tk_tid task, er_dest = tk_ptid task, er_error = 0, er_request = child\<rparr>"

text \<open>
  \<open>cleanup\<close> stands for the recursive call.  One round of the loop over the children of a forwarder:
\<close>

definition fw_child :: "sender \<Rightarrow> (nat \<Rightarrow> tstate \<Rightarrow> tstate) \<Rightarrow> nat \<Rightarrow> taskid \<Rightarrow> tstate \<Rightarrow> tstate" where
  "fw_child send cleanup r childTID s =
     (let c = child_of r childTID s;
          s1 = send (childdead (z_heap s r) childTID) s
      in case c of
           None \<Rightarrow> s1
         | Some c \<Rightarrow>
             let s2 = upd c (\<lambda>t. t\<lparr>tk_forwarder := None\<rparr>) s1;
                 child = z_heap s2 c
             in if tk_fd child = -1
                then cleanup c (if \<not> tk_obsolete child
                                then snd (PSID_kill (- sint (PSC_getPID (tk_tid child))) SIGKILL (tk_uid child) s2) else s2)
                else s2)"

primrec fw_children_loop :: "nat \<Rightarrow> sender \<Rightarrow> (nat \<Rightarrow> tstate \<Rightarrow> tstate) \<Rightarrow> nat \<Rightarrow> tstate \<Rightarrow> tstate" where
  "fw_children_loop 0 send cleanup r s = s"
| "fw_children_loop (Suc n) send cleanup r s =
     (let (t, g, l) = PSID_getSignal (childList (z_heap s r)) (-1);
          s1 = upd r (\<lambda>x. x\<lparr>childList := l\<rparr>) s
      in if t = 0 then s1 else fw_children_loop n send cleanup r (fw_child send cleanup r t s1))"

definition first_cleanup :: "sender \<Rightarrow> (nat \<Rightarrow> tstate \<Rightarrow> tstate) \<Rightarrow> nat \<Rightarrow> tstate \<Rightarrow> tstate" where
  "first_cleanup send cleanup r s0 =
     (let s1 = upd r (\<lambda>t. t\<lparr>tk_removeIt := True\<rparr>) s0;
          s2 = PSID_sendAllSignals send r s1;
          s3 = (if \<not> tk_released (z_heap s2 r) then PSID_sendSignalsToRelatives send r s2 else s2);
          s4 = (if \<not> tk_duplicate (z_heap s3 r) then log_ev (ECall (CDecCount (tk_group (z_heap s3 r) = TG_ANY))) s3 else s3);
          s5 = log_ev (ECall (CCleanupRes (tk_tid (z_heap s4 r)))) s4;
          s6 = log_ev (ECall (CCleanupSlots (tk_tid (z_heap s5 r)))) s5;
          task = z_heap s6 r;
          s7 = (if tk_request task then log_ev (ECall (CCancelPart (tk_tid task))) s6 else s6);
          s8 = (if tk_partition task \<and> tk_partSize task \<noteq> 0
                then (let s' = log_ev (ECall (CTaskDead True (tk_tid task))) s7
                      in if tk_tid task \<noteq> tk_logger task then log_ev (ECall (CTaskDead False (tk_tid task))) s' else s')
                else s7)
      in if tk_group task = TG_FORWARDER \<and> \<not> tk_released task
         then fw_children_loop (Suc (length (childList task))) send cleanup r s8 else s8)"

text \<open>
  Nested calls work on tasks in the lists that were not cleaned up before; hence the fuel, their
  number plus one.
\<close>

primrec cleanup_fuel :: "nat \<Rightarrow> sender \<Rightarrow> nat \<Rightarrow> tstate \<Rightarrow> tstate" where
  "cleanup_fuel 0 send r s = s\<lparr>z_stuck := True\<rparr>"
| "cleanup_fuel (Suc n) send r s =
     (let s1 = (if \<not> tk_removeIt (z_heap s r) then first_cleanup send (cleanup_fuel n send) r s else s);
          s2 = (if tk_fd (z_heap s1 r) \<noteq> -1 then log_ev (EEnable (tk_fd (z_heap s1 r))) s1 else s1);
          task = z_heap s2 r
      in if PSID_emptySigList (childList task) \<and> \<not> tk_delegate task \<and> \<not> tk_sigChldCB task \<and> tk_pendRes task = 0
         then upd r (\<lambda>t. t\<lparr>tk_deleted := True\<rparr>) s2 else s2)"

definition PSIDtask_cleanup :: "sender \<Rightarrow> nat \<Rightarrow> tstate \<Rightarrow> tstate" where
  "PSIDtask_cleanup send r s = cleanup_fuel (Suc (length (z_managed s) + length (z_obsolete s))) send r s"

end
