(* ===== verification/Tsk_Release.thy ===== *)
theory Tsk_Release
  imports Tsk_Signal
begin

text \<open>
  The handlers of messages between tasks (second part of \<open>src/bin/daemon/psidsignal.c\<close>): signals,
  registrations, and the release of a task, whose children are passed to its parent.  Besides
  \<open>sendMsg\<close> the functions take as an argument the handler \<open>msg_RELEASE\<close>, which some of them call
  directly and which calls them.
\<close>

type_synonym relhandler = "sigmsg \<Rightarrow> tstate \<Rightarrow> tstate"

definition tid_bytes :: "taskid \<Rightarrow> byte list" where
  "tid_bytes t = le_bytes 8 (unat t)"

definition bool_bytes :: "bool \<Rightarrow> byte list" where
  "bool_bytes b = [if b then 1 else 0]"

definition bytes_tid :: "byte list \<Rightarrow> taskid" where
  "bytes_tid bs = of_nat (le_nat bs)"

definition empty_msg :: "int16 \<Rightarrow> taskid \<Rightarrow> taskid \<Rightarrow> nat \<Rightarrow> ddmsg" where
  "empty_msg ty sender dest len =
     \<lparr>m_type = ty, m_len = len, m_sender = sender, m_dest = dest, m_subtype = 0, m_buf = (\<lambda>_. 0)\<rparr>"

section \<open>Signals\<close>

definition PSID_sendSignal :: "nat \<Rightarrow> sender \<Rightarrow> sigmsg \<Rightarrow> tstate \<Rightarrow> tstate" where
  "PSID_sendSignal fuel send m s =
     (if sg_pervasive m
      then (case sendSignalP fuel send (sg_dest m) (sg_param m) (sg_sender m) (sg_signal m) (sg_answer m) s of
              None \<Rightarrow> s\<lparr>z_stuck := True\<rparr> | Some s' \<Rightarrow> s')
      else sendSignal1 send (sg_dest m) (sg_param m) (sg_sender m) (sg_signal m) (sg_answer m) s)"

definition msg_SIGNAL :: "nat \<Rightarrow> sender \<Rightarrow> sigmsg \<Rightarrow> tstate \<Rightarrow> tstate" where
  "msg_SIGNAL fuel send m s =
     (if sg_dest m = -1 then s
      else if is_local (sg_sender m) s \<and> PSC_getPID (sg_sender m) \<noteq> 0
        \<and> (case find_managed (sg_sender m) s of
             None \<Rightarrow> True
           | Some q \<Rightarrow> tk_uid (z_heap s q) \<noteq> 0 \<and> sg_param m \<noteq> tk_uid (z_heap s q))
      then s
      else if is_local (sg_dest m) s then PSID_sendSignal fuel send m s
      else send (MSig m) s)"

definition drop_SIGNAL :: "sender \<Rightarrow> sigmsg \<Rightarrow> tstate \<Rightarrow> tstate" where
  "drop_SIGNAL send m s = (if sg_answer m then send (sigres (sg_sender m) (sg_dest m) ESRCH s) s else s)"

definition msg_NOTIFYDEAD :: "sender \<Rightarrow> sigmsg \<Rightarrow> tstate \<Rightarrow> tstate" where
  "msg_NOTIFYDEAD send m s =
     (let registrar = sg_sender m; tid = sg_dest m;
          res = m\<lparr>sg_type := PSP_CD_NOTIFYDEADRES, sg_dest := registrar, sg_sender := tid\<rparr>
      in if tid = 0
         then (case find_managed registrar s of
                 Some r \<Rightarrow> send (MSig (res\<lparr>sg_param := 0\<rparr>)) (upd r (\<lambda>t. t\<lparr>tk_relsig := sg_signal m\<rparr>) s)
               | None \<Rightarrow> send (MSig (res\<lparr>sg_param := ESRCH\<rparr>)) s)
         else if \<not> PSC_validNode (z_nodes s) (PSC_getID (z_myID s) tid)
         then send (MSig (res\<lparr>sg_param := EHOSTUNREACH_NO\<rparr>)) s
         else if is_local tid s
         then (case find_managed tid s of
                 None \<Rightarrow> send (MSig (res\<lparr>sg_param := ESRCH\<rparr>)) s
               | Some r \<Rightarrow>
                   let s1 = PSID_setSignal signalReceiver_update r registrar (sg_signal m) s;
                       s2 = (if is_local registrar s1
                             then (case find_managed registrar s1 of
                                     Some q \<Rightarrow> PSID_setSignal assignedSigs_update q tid (sg_signal m) s1
                                   | None \<Rightarrow> s1)
                             else s1)
                   in send (MSig (res\<lparr>sg_param := 0\<rparr>)) s2)
         else send (MSig m) s)"

definition msg_NOTIFYDEADRES :: "sender \<Rightarrow> sigmsg \<Rightarrow> tstate \<Rightarrow> tstate" where
  "msg_NOTIFYDEADRES send m s =
     (if \<not> is_local (sg_dest m) s then send (MSig m) s
      else
        let s1 = (if sg_param m \<noteq> 0 then s
                  else case find_managed (sg_dest m) s of
                    None \<Rightarrow> s
                  | Some r \<Rightarrow> PSID_setSignal assignedSigs_update r (sg_sender m) (sg_signal m) s)
        in send (MSig m) s1)"

text \<open>The list \<open>signalSender\<close> is searched for the signal that is asked for; -1 takes the first entry.\<close>

definition msg_WHODIED :: "sender \<Rightarrow> sigmsg \<Rightarrow> tstate \<Rightarrow> tstate" where
  "msg_WHODIED send m s =
     (case find_managed (sg_sender m) s of
        Some r \<Rightarrow>
          let (tid, g, l) = PSID_getSignal (signalSender (z_heap s r)) (sg_signal m)
          in send (MSig (m\<lparr>sg_dest := sg_sender m, sg_sender := tid, sg_signal := g\<rparr>)) (upd r (\<lambda>t. t\<lparr>signalSender := l\<rparr>) s)
      | None \<Rightarrow> send (MSig (m\<lparr>sg_dest := sg_sender m, sg_sender := -1\<rparr>)) s)"

section \<open>Passing children to the grandparent\<close>

text \<open>Tasks that are passed on: children of the sender that are alive and not released.\<close>

definition inherits :: "taskid \<Rightarrow> ptask \<Rightarrow> bool" where
  "inherits parent t \<longleftrightarrow> \<not> (tk_deleted t \<or> tk_ptid t \<noteq> parent \<or> tk_released t \<or> tk_group t = TG_FORWARDER)
     \<and> \<not> (tk_group t = TG_PLUGINFW \<and> tk_partition t)"

definition put_child :: "taskid \<Rightarrow> bool \<Rightarrow> ddmsg \<Rightarrow> bool \<times> ddmsg" where
  "put_child tid rlsd answer =
     (case PSP_putMsgBuf (tid_bytes tid) answer of
        (False, a) \<Rightarrow> (False, a)
      | (True, a) \<Rightarrow> PSP_putMsgBuf (bool_bytes rlsd) a)"

text \<open>One round of the loop over the managed tasks: the answer that is being filled is part of the state.\<close>

definition pass_child ::
  "sender \<Rightarrow> errmsg \<Rightarrow> bool \<Rightarrow> nat \<Rightarrow> nat \<Rightarrow> ddmsg \<times> tstate \<Rightarrow> ddmsg \<times> tstate" where
  "pass_child send m ok emptyLen r st =
     (case st of (answer, s) \<Rightarrow>
        let task = z_heap s r in
        if \<not> inherits (er_sender m) task then (answer, s)
        else if \<not> ok
        then (answer, sendSignal1 send (tk_tid task) (tk_uid task) (er_request m) (-1) False s)
        else
          let s1 = upd r (\<lambda>t. t\<lparr>tk_ptid := er_request m\<rparr>) s;
              s2 = (case tk_forwarder task of None \<Rightarrow> s1 | Some f \<Rightarrow> upd f (\<lambda>t. t\<lparr>tk_ptid := er_request m\<rparr>) s1);
              oldLen = m_len answer
          in case put_child (tk_tid task) (tk_released task) answer of
               (True, a) \<Rightarrow> (a, s2)
             | (False, a) \<Rightarrow>
                 let a1 = a\<lparr>m_len := oldLen\<rparr>
                 in (snd (put_child (tk_tid task) (tk_released task) (a1\<lparr>m_len := emptyLen\<rparr>)), send (MBuf a1) s2))"

definition msg_NEWANCESTOR :: "sender \<Rightarrow> errmsg \<Rightarrow> tstate \<Rightarrow> tstate" where
  "msg_NEWANCESTOR send m s =
     (let a0 = empty_msg PSP_DD_ADOPTCHILDSET (er_dest m) (er_request m) DDBufferMsgOffset;
          ok = z_up s (PSC_getID (z_myID s) (er_request m));
          a1 = (if ok then snd (PSP_putMsgBuf (tid_bytes (er_sender m)) a0) else a0);
          emptyLen = m_len a1;
          (a2, s1) = fold (pass_child send m ok emptyLen) (z_managed s) (a1, s)
      in if ok
         then (case PSP_putMsgBuf (tid_bytes 0) a2 of
                 (True, a3) \<Rightarrow> send (MBuf a3) s1
               | (False, _) \<Rightarrow>
                   let s2 = send (MBuf a2) s1
                   in send (MBuf (snd (PSP_putMsgBuf (tid_bytes 0) (a2\<lparr>m_len := emptyLen\<rparr>)))) s2)
         else send (MBuf (empty_msg PSP_DD_INHERITFAILED (er_dest m) (er_sender m) DDBufferMsgOffset)) s1)"

definition drop_ADOPTCHILDSET :: "sender \<Rightarrow> ddmsg \<Rightarrow> tstate \<Rightarrow> tstate" where
  "drop_ADOPTCHILDSET send m s =
     send (MBuf (m\<lparr>m_type := PSP_DD_ADOPTFAILED, m_dest := m_sender m, m_sender := m_dest m\<rparr>)) s"

text \<open>
  The loop over the children in the message; the result is their number, whether the end mark was
  found, and the state.  Every round reads eight bytes, so that the length of the message is fuel enough.
\<close>

primrec adopt_loop :: "nat \<Rightarrow> nat \<Rightarrow> ddmsg \<Rightarrow> nat \<Rightarrow> nat \<Rightarrow> tstate \<Rightarrow> nat \<times> bool \<times> tstate" where
  "adopt_loop 0 r m used cnt s = (cnt, False, s)"
| "adopt_loop (Suc n) r m used cnt s =
     (case PSP_getMsgBuf 8 m used of
        (None, _) \<Rightarrow> (cnt, False, s)
      | (Some bs, used1) \<Rightarrow>
          let tid = bytes_tid bs in
          if tid = 0 then (cnt, True, s)
          else
            let used2 = snd (PSP_getMsgBuf 1 m used1);
                (g, l) = PSID_getSignalByTID (deadBefore (z_heap s r)) tid;
                s1 = upd r (\<lambda>t. t\<lparr>deadBefore := l\<rparr>) s;
                s2 = upd r (\<lambda>t. t\<lparr>releasedBefore := snd (PSID_getSignalByTID (releasedBefore t) tid)\<rparr>) s1;
                s3 = (if g \<noteq> 0 then s2 else PSID_setSignal childList_update r tid (-1) s2)
            in adopt_loop n r m used2 (cnt + 1) s3)"

definition msg_ADOPTCHILDSET :: "sender \<Rightarrow> ddmsg \<Rightarrow> tstate \<Rightarrow> tstate" where
  "msg_ADOPTCHILDSET send m s =
     (case find_managed (m_dest m) s of
        None \<Rightarrow> drop_ADOPTCHILDSET send m s
      | Some r \<Rightarrow>
          if \<not> z_up s (PSC_getID (z_myID s) (m_sender m)) then drop_ADOPTCHILDSET send m s
          else case PSP_getMsgBuf 8 m 0 of
            (None, _) \<Rightarrow> s
          | (Some bs, used) \<Rightarrow>
              let child = bytes_tid bs;
                  (cnt, found_end, s1) = adopt_loop (m_len m) r m used 0 s
              in if found_end
                 then (let a = empty_msg PSP_DD_INHERITDONE (m_dest m) child 0;
                           a1 = snd (PSP_putMsgBuf (tid_bytes (m_sender m)) a);
                           a2 = snd (PSP_putMsgBuf (le_bytes 4 cnt) a1)
                       in send (MBuf a2) s1)
                 else s1)"

primrec orphan_loop :: "nat \<Rightarrow> sender \<Rightarrow> taskid \<Rightarrow> ddmsg \<Rightarrow> nat \<Rightarrow> tstate \<Rightarrow> tstate" where
  "orphan_loop 0 send ptid m used s = s"
| "orphan_loop (Suc n) send ptid m used s =
     (case PSP_getMsgBuf 8 m used of
        (None, _) \<Rightarrow> s
      | (Some bs, used1) \<Rightarrow>
          let tid = bytes_tid bs in
          if tid = 0 then send (MBuf (empty_msg PSP_DD_INHERITFAILED (m_dest m) ptid DDBufferMsgOffset)) s
          else case find_managed tid s of
            None \<Rightarrow> orphan_loop n send ptid m used1 s
          | Some r \<Rightarrow>
              let s1 = upd r (\<lambda>t. t\<lparr>tk_ptid := ptid\<rparr>) s;
                  s2 = sendSignal1 send (tk_tid (z_heap s1 r)) (tk_uid (z_heap s1 r)) ptid (-1) False s1;
                  s3 = (case tk_forwarder (z_heap s2 r) of None \<Rightarrow> s2 | Some f \<Rightarrow> upd f (\<lambda>t. t\<lparr>tk_ptid := ptid\<rparr>) s2)
              in orphan_loop n send ptid m used1 s3)"

definition msg_ADOPTFAILED :: "sender \<Rightarrow> ddmsg \<Rightarrow> tstate \<Rightarrow> tstate" where
  "msg_ADOPTFAILED send m s =
     (case PSP_getMsgBuf 8 m 0 of
        (None, _) \<Rightarrow> s
      | (Some bs, used) \<Rightarrow> orphan_loop (m_len m) send (bytes_tid bs) m used s)"

section \<open>Releasing a task\<close>

definition release_msg :: "taskid \<Rightarrow> taskid \<Rightarrow> int \<Rightarrow> bool \<Rightarrow> sigmsg" where
  "release_msg sender dest sig answer =
     \<lparr>sg_type = PSP_CD_RELEASE, sg_sender = sender, sg_dest = dest, sg_signal = sig, sg_param = 0,
       sg_pervasive = False, sg_answer = answer\<rparr>"

text \<open>A child is taken from the list of its parent; -1 tells that the request went on to the grandparent.\<close>

definition releaseChild :: "sender \<Rightarrow> relhandler \<Rightarrow> taskid \<Rightarrow> taskid \<Rightarrow> bool \<Rightarrow> tstate \<Rightarrow> int \<times> tstate" where
  "releaseChild send rel parent child answer s =
     (case find_managed parent s of
        None \<Rightarrow> (ESRCH, s)
      | Some r \<Rightarrow>
          let (g, l) = PSID_getSignalByTID (childList (z_heap s r)) child;
              s1 = upd r (\<lambda>t. t\<lparr>childList := l\<rparr>) s;
              task = z_heap s1 r
          in if g = 0
             then (if tk_ptid task \<noteq> 0
                   then (let s2 = (if is_local child s1
                                   then (case find_managed child s1 of
                                           Some c \<Rightarrow>
                                             if \<not> tk_parentReleased (z_heap s1 c)
                                             then upd c (\<lambda>t. t\<lparr>tk_pendRes := tk_pendRes t + of_bool answer, tk_parentReleased := True\<rparr>) s1
                                             else s1
                                         | None \<Rightarrow> s1)
                                   else s1)
                         in (-1, rel (release_msg child (tk_ptid task) (-1) answer) s2))
                   else (0, PSID_setSignal releasedBefore_update r child (-1) s1))
             else if PSID_emptySigList (childList task)
             then (let s2 = log_ev (ECall (CLastChild (tk_tid task))) s1
                   in (0, if tk_removeIt (z_heap s2 r) then PSIDtask_cleanup send r s2 else s2))
             else (0, s1))"

definition releaseSignal :: "taskid \<Rightarrow> taskid \<Rightarrow> int \<Rightarrow> tstate \<Rightarrow> int \<times> tstate" where
  "releaseSignal sigSndr sigRcvr sig s =
     (case find_managed sigSndr s of
        None \<Rightarrow> (ESRCH, s)
      | Some r \<Rightarrow> (0, upd r (\<lambda>t. t\<lparr>signalReceiver := snd (PSID_removeSignal (signalReceiver t) sigRcvr sig)\<rparr>) s))"

text \<open>
  The loop over the children: \<open>sent\<close> holds the nodes that were told.  A message that is handled at
  once may change the list; every round takes an entry, and the fuel bounds the rounds.
\<close>

definition newancestor_msg :: "ptask \<Rightarrow> taskid \<Rightarrow> smsg" where
  "newancestor_msg task child =
     MErr \<lparr>er_type = PSP_DD_NEWANCESTOR, er_sender = tk_tid task, er_dest = child, er_error = 0, er_request = tk_ptid task\<rparr>"

definition keeps_children :: "ptask \<Rightarrow> bool" where
  "keeps_children task \<longleftrightarrow> tk_group task = TG_KVS \<and> tk_noParricide task \<or> tk_group task = TG_PLUGINFW \<and> tk_partition task"

primrec pass_children :: "nat \<Rightarrow> sender \<Rightarrow> nat \<Rightarrow> nodeid list \<Rightarrow> tstate \<Rightarrow> tstate" where
  "pass_children 0 send r sent s = s\<lparr>z_stuck := True\<rparr>"
| "pass_children (Suc n) send r sent s =
     (let (child, g, l) = PSID_getSignal (childList (z_heap s r)) (-1);
          s1 = upd r (\<lambda>t. t\<lparr>childList := l\<rparr>) s;
          task = z_heap s1 r;
          node = PSC_getID (z_myID s) child
      in if child = 0 then s1
         else if keeps_children task \<or> node \<in> set sent then pass_children n send r sent s1
         else
           let s2 = upd r (\<lambda>t. t\<lparr>tk_pendRes := tk_pendRes t + 1\<rparr>) s1;
               s3 = send (newancestor_msg task child) s2;
               s4 = PSID_setSignal keptChildren_update r child (-1) s3
           in pass_children n send r (node # sent) s4)"

primrec drop_assigned :: "nat \<Rightarrow> sender \<Rightarrow> nat \<Rightarrow> tstate \<Rightarrow> tstate" where
  "drop_assigned 0 send r s = s\<lparr>z_stuck := True\<rparr>"
| "drop_assigned (Suc n) send r s =
     (let (sndr, sig, l) = PSID_getSignal (assignedSigs (z_heap s r)) (-1);
          s1 = upd r (\<lambda>t. t\<lparr>assignedSigs := l\<rparr>) s;
          task = z_heap s1 r
      in if sndr = 0 then s1
         else if is_local sndr s1
         then (case releaseSignal sndr (tk_tid task) sig s1 of
                 (ret, s2) \<Rightarrow> drop_assigned n send r (if ret > 0 then upd r (\<lambda>t. t\<lparr>tk_pendErr := ret\<rparr>) s2 else s2))
         else
           let s2 = send (MSig (release_msg (tk_tid task) sndr sig (tk_relAnswer task))) s1
           in drop_assigned n send r
                (if tk_relAnswer (z_heap s2 r) then upd r (\<lambda>t. t\<lparr>tk_pendRes := tk_pendRes t + 1\<rparr>) s2 else s2))"

text \<open>
  The array of nodes that were told is static: it is enlarged when there are more nodes than it has
  entries, and lost when that fails.
\<close>

definition fit_sentToNode :: "tstate \<Rightarrow> bool \<times> tstate" where
  "fit_sentToNode s =
     (let grow = (case z_sTN s of None \<Rightarrow> True | Some k \<Rightarrow> k < sint (z_nodes s)) in
      if grow
      then (case PSsignal_get s of
              (True, s1) \<Rightarrow> (True, s1\<lparr>z_sTN := Some (sint (z_nodes s))\<rparr>)
            | (False, s1) \<Rightarrow> (False, s1\<lparr>z_sTN := None\<rparr>))
      else (True, s))"

definition releaseTask :: "nat \<Rightarrow> sender \<Rightarrow> nat \<Rightarrow> tstate \<Rightarrow> int \<times> tstate" where
  "releaseTask fuel send r s =
     (case fit_sentToNode s of
        (False, s0) \<Rightarrow> (ENOMEM_NO, s0)
      | (True, s0) \<Rightarrow>
     (let s1 = upd r (\<lambda>t. t\<lparr>tk_released := True, tk_pendRes := tk_pendRes t + 1\<rparr>) s0;
          s2 = (if tk_ptid (z_heap s1 r) \<noteq> 0 then pass_children fuel send r [] s1 else s1);
          s3 = drop_assigned fuel send r s2;
          s4 = upd r (\<lambda>t. t\<lparr>tk_pendRes := tk_pendRes t - 1\<rparr>) s3
      in (tk_pendErr (z_heap s4 r), s4)))"

definition deregisterFromParent :: "sender \<Rightarrow> relhandler \<Rightarrow> nat \<Rightarrow> tstate \<Rightarrow> bool \<times> tstate" where
  "deregisterFromParent send rel r s =
     (let task = z_heap s r;
          s1 = (if is_local (tk_ptid task) s
                then (case releaseChild send rel (tk_ptid task) (tk_tid task) (tk_relAnswer task) s of
                        (ret, s') \<Rightarrow> if ret > 0 then upd r (\<lambda>t. t\<lparr>tk_pendErr := ret\<rparr>) s' else s')
                else
                  let s' = send (MSig (release_msg (tk_tid task) (tk_ptid task) (-1) (tk_relAnswer task))) s;
                      t' = z_heap s' r
                  in if \<not> tk_parentReleased t' \<and> tk_relAnswer t' then upd r (\<lambda>t. t\<lparr>tk_pendRes := tk_pendRes t + 1\<rparr>) s' else s');
          s2 = upd r (\<lambda>t. t\<lparr>tk_parentReleased := True\<rparr>) s1
      in (tk_pendRes (z_heap s2 r) = 0, s2))"

text \<open>Does the release of the task still wait, once one answer has been counted?\<close>

definition still_waits :: "sender \<Rightarrow> relhandler \<Rightarrow> nat \<Rightarrow> tstate \<Rightarrow> bool \<times> tstate" where
  "still_waits send rel r s =
     (if tk_pendRes (z_heap s r) \<noteq> 0 then (True, s)
      else if tk_parentReleased (z_heap s r) then (False, s)
      else (case deregisterFromParent send rel r s of (b, s1) \<Rightarrow> (\<not> b, s1)))"

definition answer_dest :: "nat \<Rightarrow> tstate \<Rightarrow> taskid \<Rightarrow> taskid" where
  "answer_dest r s d =
     (case tk_forwarder (z_heap s r) of
        Some f \<Rightarrow> if tk_fd (z_heap s r) = -1 then tk_tid (z_heap s f) else d
      | None \<Rightarrow> d)"

definition cleanup_if :: "sender \<Rightarrow> nat \<Rightarrow> tstate \<Rightarrow> tstate" where
  "cleanup_if send r s = (if tk_removeIt (z_heap s r) then PSIDtask_cleanup send r s else s)"

definition msg_RELEASERES :: "sender \<Rightarrow> relhandler \<Rightarrow> sigmsg \<Rightarrow> tstate \<Rightarrow> tstate" where
  "msg_RELEASERES send rel m s =
     (if \<not> is_local (sg_dest m) s then send (MSig m) s
      else case find_managed (sg_dest m) s of
        None \<Rightarrow> s
      | Some r \<Rightarrow>
          let s1 = (if sg_param m \<noteq> 0 \<and> tk_pendErr (z_heap s r) = 0 \<and> sg_param m \<noteq> ESRCH
                    then upd r (\<lambda>t. t\<lparr>tk_pendErr := sg_param m\<rparr>) s else s);
              s2 = upd r (\<lambda>t. t\<lparr>tk_pendRes := tk_pendRes t - 1\<rparr>) s1;
              (wait, s3) = still_waits send rel r s2
          in if wait then s3
             else
               let e = tk_pendErr (z_heap s3 r);
                   m1 = (if e \<noteq> 0 then m\<lparr>sg_param := e\<rparr> else m);
                   m2 = m1\<lparr>sg_dest := answer_dest r s3 (sg_dest m1)\<rparr>;
                   s4 = (if tk_relAnswer (z_heap s3 r) then send (MSig m2) s3 else s3)
               in cleanup_if send r s4)"

definition msg_RELEASE_step :: "nat \<Rightarrow> sender \<Rightarrow> relhandler \<Rightarrow> sigmsg \<Rightarrow> tstate \<Rightarrow> tstate" where
  "msg_RELEASE_step fuel send rel m s =
     (let registrar = sg_sender m; tid = sg_dest m;
          res = m\<lparr>sg_type := PSP_CD_RELEASERES, sg_sender := tid, sg_dest := registrar\<rparr>
      in if \<not> is_local tid s then send (MSig m) s
         else case find_managed tid s of
           None \<Rightarrow> s
         | Some r \<Rightarrow>
             let task = z_heap s r;
                 from_fw = (case tk_forwarder task of Some f \<Rightarrow> registrar = tk_tid (z_heap s f) | None \<Rightarrow> False)
             in if registrar = tid \<or> from_fw \<and> tk_fd task = -1
                then (if tk_released task
                      then (if sg_answer m then send (MSig (res\<lparr>sg_param := 0\<rparr>)) s else s)
                      else
                        let s1 = upd r (\<lambda>t. t\<lparr>tk_relAnswer := sg_answer m\<rparr>) s;
                            (err, s2) = releaseTask fuel send r s1
                        in if tk_pendRes (z_heap s2 r) \<noteq> 0 then s2
                           else (case deregisterFromParent send rel r s2 of
                                   (False, s3) \<Rightarrow> s3
                                 | (True, s3) \<Rightarrow> if sg_answer m then send (MSig (res\<lparr>sg_param := err\<rparr>)) s3 else s3))
                else if from_fw
                then (if sg_answer m then send (MSig (res\<lparr>sg_param := 0\<rparr>)) s else s)
                else
                  let (err, s1) = (if sg_signal m = -1 then releaseChild send rel tid registrar (sg_answer m) s
                                   else releaseSignal tid registrar (sg_signal m) s)
                  in if err < 0 then s1
                     else if sg_answer m then msg_RELEASERES send rel (res\<lparr>sg_param := err\<rparr>) s1 else s1)"

text \<open>
  \<open>msg_RELEASE\<close> calls itself for the parent of a task; the fuel bounds the length of that chain and of
  the lists of the task.
\<close>

primrec msg_RELEASE :: "nat \<Rightarrow> sender \<Rightarrow> sigmsg \<Rightarrow> tstate \<Rightarrow> tstate" where
  "msg_RELEASE 0 send m s = s\<lparr>z_stuck := True\<rparr>"
| "msg_RELEASE (Suc n) send m s = msg_RELEASE_step n send (msg_RELEASE n send) m s"

definition send_RELEASERES :: "sender \<Rightarrow> nat \<Rightarrow> taskid \<Rightarrow> tstate \<Rightarrow> tstate" where
  "send_RELEASERES send r sndr s =
     (if tk_relAnswer (z_heap s r)
      then send (MSig \<lparr>sg_type = PSP_CD_RELEASERES, sg_sender = sndr,
        sg_dest = answer_dest r s (tk_tid (z_heap s r)), sg_signal = -1, sg_param = tk_pendErr (z_heap s r),
        sg_pervasive = False, sg_answer = False\<rparr>) s
      else s)"

text \<open>The common end of the handlers of \<open>INHERITDONE\<close> and \<open>INHERITFAILED\<close>.\<close>

definition count_answer :: "sender \<Rightarrow> relhandler \<Rightarrow> nat \<Rightarrow> taskid \<Rightarrow> tstate \<Rightarrow> tstate" where
  "count_answer send rel r sndr s =
     (case still_waits send rel r (upd r (\<lambda>t. t\<lparr>tk_pendRes := tk_pendRes t - 1\<rparr>) s) of
        (True, s1) \<Rightarrow> s1
      | (False, s1) \<Rightarrow> cleanup_if send r (send_RELEASERES send r sndr s1))"

definition drop_kept :: "nat \<Rightarrow> taskid \<Rightarrow> tstate \<Rightarrow> tstate" where
  "drop_kept r child s =
     upd r (\<lambda>t. t\<lparr>keptChildren := snd (PSID_removeSignal (keptChildren t) child (-1))\<rparr>) s"

definition msg_INHERITDONE :: "sender \<Rightarrow> relhandler \<Rightarrow> ddmsg \<Rightarrow> tstate \<Rightarrow> tstate" where
  "msg_INHERITDONE send rel m s =
     (case PSP_getMsgBuf 8 m 0 of
        (None, _) \<Rightarrow> s
      | (Some bs, _) \<Rightarrow>
          (case find_managed (m_dest m) s of
             None \<Rightarrow> s
           | Some r \<Rightarrow> count_answer send rel r (m_sender m) (drop_kept r (bytes_tid bs) s)))"

definition msg_INHERITFAILED :: "sender \<Rightarrow> relhandler \<Rightarrow> ddmsg \<Rightarrow> tstate \<Rightarrow> tstate" where
  "msg_INHERITFAILED send rel m s =
     (case find_managed (m_dest m) s of
        None \<Rightarrow> s
      | Some r \<Rightarrow>
          let s1 = drop_kept r (m_sender m) s;
              s2 = (if tk_pendErr (z_heap s1 r) = 0 then upd r (\<lambda>t. t\<lparr>tk_pendErr := EACCES_NO\<rparr>) s1 else s1)
          in count_answer send rel r (m_sender m) s2)"

text \<open>The answer for a request that could not be sent.\<close>

definition drop_RELEASE :: "sender \<Rightarrow> relhandler \<Rightarrow> sigmsg \<Rightarrow> tstate \<Rightarrow> tstate" where
  "drop_RELEASE send rel m s =
     (let res = \<lparr>sg_type = (if sg_type m = PSP_CD_RELEASE then PSP_CD_RELEASERES else PSP_CD_NOTIFYDEADRES),
            sg_sender = myTID s, sg_dest = sg_sender m, sg_signal = sg_signal m, sg_param = EHOSTUNREACH_NO,
            sg_pervasive = False, sg_answer = False\<rparr>
      in if sg_type m = PSP_CD_NOTIFYDEAD \<or> sg_answer m
         then (if sg_type m = PSP_CD_RELEASE then msg_RELEASERES send rel res s else msg_NOTIFYDEADRES send res s)
         else s)"

end
