(* ===== verification/Tsk_Dispatch.thy ===== *)
theory Tsk_Dispatch
  imports Tsk_Release
begin

text \<open>
  The report that a child ended (\<open>msg_CHILDDEAD\<close> in \<open>src/bin/daemon/psidspawn.c\<close>), and the way of a
  message of this component through \<open>sendMsg\<close>, \<open>PSID_handleMsg\<close> and \<open>PSID_dropMsg\<close>
  (\<open>src/bin/daemon/psidcomm.c\<close>): messages for the daemon itself are handled before the call returns.
\<close>

section \<open>A child ended\<close>

definition WIFEXITED :: "int \<Rightarrow> bool" where "WIFEXITED st \<longleftrightarrow> st mod 128 = 0"
definition WIFSIGNALED :: "int \<Rightarrow> bool" where "WIFSIGNALED st \<longleftrightarrow> 0 < st mod 128 \<and> st mod 128 < 127"

text \<open>The part for a report that some daemon forwarded to a task.\<close>

definition childdead_relative :: "sender \<Rightarrow> errmsg \<Rightarrow> tstate \<Rightarrow> tstate" where
  "childdead_relative send m s =
     (if \<not> is_local (er_dest m) s then send (MErr m) s
      else case find_managed (er_dest m) s of
        None \<Rightarrow> s
      | Some r \<Rightarrow>
          let (found, l) = PSID_removeSignal (childList (z_heap s r)) (er_request m) (-1);
              s1 = upd r (\<lambda>t. t\<lparr>childList := l\<rparr>) s;
              s2 = (if found then s1
                    else
                      let p = tk_ptid (z_heap s1 r);
                          s' = (if p \<noteq> 0 then send (MErr (m\<lparr>er_dest := p, er_sender := myTID s1\<rparr>)) s1 else s1)
                      in PSID_setSignal deadBefore_update r (er_request m) (-1) s');
              task = z_heap s2 r
          in if tk_removeIt task \<and> PSID_emptySigList (childList task) then PSIDtask_cleanup send r s2
             else if tk_group task = TG_SERVICE_SIG
               \<and> (\<not> WIFEXITED (er_error m) \<or> WIFSIGNALED (er_error m) \<or> PSID_emptySigList (childList task))
             then sendSignal1 send (tk_tid task) (tk_uid task) (er_request m) (-1) False s2
             else s2)"

text \<open>The part for a report of a local forwarder.  \<open>own_task\<close> is the child, if the forwarder controls it.\<close>

definition own_task :: "taskid \<Rightarrow> nat option \<Rightarrow> tstate \<Rightarrow> nat option" where
  "own_task tid fw s =
     (case find_managed tid s of
        Some c \<Rightarrow>
          if tk_forwarder (z_heap s c) = fw then Some c
          else (case PStasklist_find (z_obsolete s) tid s of
                  Some c' \<Rightarrow> if tk_forwarder (z_heap s c') = fw then Some c' else None
                | None \<Rightarrow> None)
      | None \<Rightarrow>
          (case PStasklist_find (z_obsolete s) tid s of
             Some c' \<Rightarrow> if tk_forwarder (z_heap s c') = fw then Some c' else None
           | None \<Rightarrow> None))"

definition childdead_forwarder :: "sender \<Rightarrow> bool \<Rightarrow> errmsg \<Rightarrow> tstate \<Rightarrow> tstate" where
  "childdead_forwarder send obs m s =
     (let (fw, s1) =
            (case PStasklist_find (if obs then z_obsolete s else z_managed s) (er_sender m) s of
               None \<Rightarrow> (None, s)
             | Some f \<Rightarrow>
                 let (found, l) = PSID_removeSignal (childList (z_heap s f)) (er_request m) (-1);
                     s' = upd f (\<lambda>t. t\<lparr>childList := l\<rparr>) s
                 in if found
                    then (Some f, if PSID_emptySigList l then upd f (\<lambda>t. t\<lparr>tk_released := True\<rparr>) s' else s')
                    else (None, s'))
      in case own_task (er_request m) fw s1 of
           None \<Rightarrow> s1
         | Some c \<Rightarrow>
             if fw = None then s1
             else
               let s2 = log_ev (ECall (CChildResRel (tk_tid (z_heap s1 c)) (er_request m))) s1;
                   m1 = (if \<not> tk_released (z_heap s2 c)
                         then m\<lparr>er_dest := tk_ptid (z_heap s2 c), er_sender := myTID s2\<rparr> else m);
                   s3 = (if tk_fd (z_heap s2 c) = -1 then PSIDtask_cleanup send c s2 else s2);
                   s4 = (if er_dest m1 \<noteq> myTID s3 then childdead_relative send m1 s3 else s3)
               in upd c (\<lambda>t. t\<lparr>tk_forwarder := None\<rparr>) s4)"

definition msg_CHILDDEAD :: "sender \<Rightarrow> errmsg \<Rightarrow> tstate \<Rightarrow> tstate" where
  "msg_CHILDDEAD send m s =
     (let obs = (PSC_getID (z_myID s) (er_sender m) = -2);
          m1 = (if obs then m\<lparr>er_sender := PSC_getTID (z_myID s) (-1) (PSC_getPID (er_sender m))\<rparr> else m)
      in if er_dest m1 \<noteq> myTID s then childdead_relative send m1 s else childdead_forwarder send obs m1 s)"

section \<open>The way of a message\<close>

definition smsg_type :: "smsg \<Rightarrow> int16" where
  "smsg_type m = (case m of MSig a \<Rightarrow> sg_type a | MErr a \<Rightarrow> er_type a | MBuf a \<Rightarrow> m_type a | MFwd _ _ _ \<Rightarrow> 0)"

definition smsg_dest :: "smsg \<Rightarrow> taskid" where
  "smsg_dest m = (case m of MSig a \<Rightarrow> sg_dest a | MErr a \<Rightarrow> er_dest a | MBuf a \<Rightarrow> m_dest a | MFwd d _ _ \<Rightarrow> d)"

text \<open>The handlers that are registered for the messages of this component; any other message is logged.\<close>

definition handle_here :: "nat \<Rightarrow> sender \<Rightarrow> smsg \<Rightarrow> tstate \<Rightarrow> tstate" where
  "handle_here fuel send m s =
     (let rel = msg_RELEASE fuel send in
      case m of
        MSig a \<Rightarrow>
          if sg_type a = PSP_CD_NOTIFYDEAD then msg_NOTIFYDEAD send a s
          else if sg_type a = PSP_CD_NOTIFYDEADRES then msg_NOTIFYDEADRES send a s
          else if sg_type a = PSP_CD_RELEASE then rel a s
          else if sg_type a = PSP_CD_RELEASERES then msg_RELEASERES send rel a s
          else if sg_type a = PSP_CD_SIGNAL then msg_SIGNAL fuel send a s
          else if sg_type a = PSP_CD_WHODIED then msg_WHODIED send a s
          else log_ev (ESend m) s
      | MErr a \<Rightarrow>
          if er_type a = PSP_DD_NEWANCESTOR then msg_NEWANCESTOR send a s
          else if er_type a = PSP_DD_CHILDDEAD then msg_CHILDDEAD send a s
          else log_ev (ESend m) s
      | MBuf a \<Rightarrow>
          if m_type a = PSP_DD_ADOPTCHILDSET then msg_ADOPTCHILDSET send a s
          else if m_type a = PSP_DD_ADOPTFAILED then msg_ADOPTFAILED send a s
          else if m_type a = PSP_DD_INHERITDONE then msg_INHERITDONE send rel a s
          else if m_type a = PSP_DD_INHERITFAILED then msg_INHERITFAILED send rel a s
          else log_ev (ESend m) s
      | MFwd _ _ _ \<Rightarrow> log_ev (ESend m) s)"

definition drop_here :: "nat \<Rightarrow> sender \<Rightarrow> smsg \<Rightarrow> tstate \<Rightarrow> tstate" where
  "drop_here fuel send m s =
     (case m of
        MSig a \<Rightarrow>
          if sg_type a = PSP_CD_SIGNAL then drop_SIGNAL send a s
          else if sg_type a = PSP_CD_RELEASE \<or> sg_type a = PSP_CD_NOTIFYDEAD
          then drop_RELEASE send (msg_RELEASE fuel send) a s
          else s
      | MBuf a \<Rightarrow> if m_type a = PSP_DD_ADOPTCHILDSET then drop_ADOPTCHILDSET send a s else s
      | _ \<Rightarrow> s)"

text \<open>
  The fuel bounds the nesting of calls.  Messages to clients and to other nodes are logged as sent; a
  message that names no node is dropped.
\<close>

primrec sendMsg_in :: "nat \<Rightarrow> smsg \<Rightarrow> tstate \<Rightarrow> tstate" where
  "sendMsg_in 0 m s = s\<lparr>z_stuck := True\<rparr>"
| "sendMsg_in (Suc n) m s =
     (let d = smsg_dest m; node = PSC_getID (z_myID s) d in
      if d = myTID s then handle_here n (sendMsg_in n) m s
      else if node = z_myID s
      then (if sint (smsg_type m) < 0x100 then log_ev (ESend m) s else handle_here n (sendMsg_in n) m s)
      else if PSC_validNode (z_nodes s) node then log_ev (ESend m) s
      else drop_here n (sendMsg_in n) m s)"

end
