(* ===== verification/Tsk_Adopt.thy ===== *)
theory Tsk_Adopt
  imports Tsk_Dispatch
begin

text \<open>
  The passing of children from a task that is released to its parent: what \<open>msg_NEWANCESTOR\<close> on the
  node of the children puts into its messages is what \<open>msg_ADOPTCHILDSET\<close> on the node of the
  grandparent takes out of them.
\<close>

section \<open>The content of a message\<close>

definition msg_ok :: "ddmsg \<Rightarrow> bool" where
  "msg_ok m \<longleftrightarrow> 24 \<le> m_len m \<and> m_len m \<le> 1456"

definition content :: "ddmsg \<Rightarrow> byte list" where
  "content m = get_bytes 0 (m_len m - 24) (m_buf m)"

lemma length_content [simp]: "length (content m) = m_len m - 24"
  by (simp add: content_def)

lemma put_untyped:
  assumes "msg_ok m" "d \<noteq> []" "m_len m - 24 + length d \<le> 1432"
  shows "\<exists>b. PSP_putMsgBuf d m = (True, m\<lparr>m_len := m_len m + length d, m_buf := b\<rparr>)
    \<and> content (m\<lparr>m_len := m_len m + length d, m_buf := b\<rparr>) = content m @ d"
proof -
  obtain k where k: "m_len m = 24 + k" using assms(1) unfolding msg_ok_def by (metis le_Suc_ex)
  have "PSP_putMsgBuf d m = (True, m\<lparr>m_len := m_len m + length d, m_buf := put_bytes k d (m_buf m)\<rparr>)"
    using assms k by (simp add: PSP_putMsgBuf_def doPutMsgBuf_def msg_consts Let_def)
  moreover have "content (m\<lparr>m_len := m_len m + length d, m_buf := put_bytes k d (m_buf m)\<rparr>) = content m @ d"
    using k by (simp add: content_def get_put_append)
  ultimately show ?thesis by blast
qed

lemma put_untyped_full:
  assumes "msg_ok m" "d \<noteq> []" "m_len m - 24 + length d > 1432"
  shows "PSP_putMsgBuf d m = (False, m)"
  using assms by (auto simp: PSP_putMsgBuf_def doPutMsgBuf_def msg_consts msg_ok_def Let_def)

lemma get_untyped:
  assumes "msg_ok m"
  shows "PSP_getMsgBuf n m used =
    (if used + n \<le> m_len m - 24 then (Some (take n (drop used (content m))), used + n) else (None, used))"
  using assms unfolding PSP_getMsgBuf_def doGetMsgBuf_def msg_ok_def content_def
  by (auto simp: msg_consts drop_get_bytes take_get_bytes)

lemma content_shorter:
  "k \<le> m_len m \<Longrightarrow> content (m\<lparr>m_len := k\<rparr>) = take (k - 24) (content m)"
  by (simp add: content_def take_get_bytes)

lemma length_tid_bytes [simp]: "length (tid_bytes t) = 8"
  by (simp add: tid_bytes_def)

lemma bytes_tid_id [simp]: "bytes_tid (tid_bytes t) = t"
proof -
  have "unat t < 256 ^ 8" using unsigned_less [of t] by simp
  then show ?thesis by (simp add: bytes_tid_def tid_bytes_def)
qed

lemma tid_bytes_nonempty [simp]: "tid_bytes t \<noteq> []"
  using length_tid_bytes [of t] by fastforce

definition child_bytes :: "taskid \<Rightarrow> byte list" where
  "child_bytes t = tid_bytes t @ [0]"

lemma length_child_bytes [simp]: "length (child_bytes t) = 9"
  by (simp add: child_bytes_def)

section \<open>Putting a child\<close>

text \<open>\<open>holds h c m\<close>: the message has the header of \<open>h\<close> and the content \<open>c\<close>.\<close>

definition holds :: "ddmsg \<Rightarrow> byte list \<Rightarrow> ddmsg \<Rightarrow> bool" where
  "holds h c m \<longleftrightarrow> msg_ok m \<and> content m = c \<and> m_type m = m_type h \<and> m_sender m = m_sender h \<and> m_dest m = m_dest h"

lemma holds_len: "holds h c m \<Longrightarrow> m_len m = 24 + length c"
  unfolding holds_def msg_ok_def using length_content [of m] by fastforce

lemma holds_put:
  assumes "holds h c m" "d \<noteq> []" "length c + length d \<le> 1432"
  obtains m' where "PSP_putMsgBuf d m = (True, m')" "holds h (c @ d) m'"
proof -
  have l: "m_len m = 24 + length c" by (rule holds_len) (rule assms)
  have "\<exists>b. PSP_putMsgBuf d m = (True, m\<lparr>m_len := m_len m + length d, m_buf := b\<rparr>)
    \<and> content (m\<lparr>m_len := m_len m + length d, m_buf := b\<rparr>) = content m @ d"
    by (rule put_untyped) (use assms l in \<open>simp_all add: holds_def\<close>)
  then obtain b where b: "PSP_putMsgBuf d m = (True, m\<lparr>m_len := m_len m + length d, m_buf := b\<rparr>)"
      "content (m\<lparr>m_len := m_len m + length d, m_buf := b\<rparr>) = content m @ d" by blast
  have "holds h (c @ d) (m\<lparr>m_len := m_len m + length d, m_buf := b\<rparr>)"
    using assms l b(2) unfolding holds_def msg_ok_def by simp
  then show thesis using that b(1) by blast
qed

lemma holds_full:
  "holds h c m \<Longrightarrow> d \<noteq> [] \<Longrightarrow> length c + length d > 1432 \<Longrightarrow> PSP_putMsgBuf d m = (False, m)"
  using put_untyped_full [of m d] holds_len [of h c m] unfolding holds_def by simp

lemma holds_cut:
  assumes "holds h (pre @ c) m"
  shows "holds h pre (m\<lparr>m_len := 24 + length pre\<rparr>)"
  using assms holds_len [OF assms] content_shorter [of "24 + length pre" m]
  unfolding holds_def msg_ok_def by simp

lemma put_child_fits:
  assumes "holds h c m" "length c + 9 \<le> 1432"
  obtains m' where "put_child t False m = (True, m')" "holds h (c @ child_bytes t) m'"
proof -
  obtain m1 where 1: "PSP_putMsgBuf (tid_bytes t) m = (True, m1)" "holds h (c @ tid_bytes t) m1"
    using holds_put [OF assms(1), of "tid_bytes t"] assms(2) by auto
  obtain m2 where 2: "PSP_putMsgBuf [0] m1 = (True, m2)" "holds h ((c @ tid_bytes t) @ [0]) m2"
    using holds_put [OF 1(2), of "[0]"] assms(2) by auto
  show thesis using that [of m2] 1(1) 2 by (simp add: put_child_def bool_bytes_def child_bytes_def)
qed

lemma put_child_full:
  assumes "holds h c m" "length c + 9 > 1432"
  obtains m' where "put_child t False m = (False, m')" "holds h c (m'\<lparr>m_len := m_len m\<rparr>)"
proof (cases "length c + 8 \<le> 1432")
  case True
  then obtain m1 where 1: "PSP_putMsgBuf (tid_bytes t) m = (True, m1)" "holds h (c @ tid_bytes t) m1"
    using holds_put [OF assms(1), of "tid_bytes t"] by auto
  have 2: "PSP_putMsgBuf [0] m1 = (False, m1)"
    using holds_full [OF 1(2), of "[0]"] assms(2) by simp
  show thesis
    using that [of m1] 1 2 holds_cut [OF 1(2)] holds_len [OF assms(1)]
    by (simp add: put_child_def bool_bytes_def)
next
  case False
  then have "PSP_putMsgBuf (tid_bytes t) m = (False, m)"
    using holds_full [OF assms(1), of "tid_bytes t"] by simp
  moreover have "m\<lparr>m_len := m_len m\<rparr> = m" by simp
  ultimately show thesis using that [of m] assms(1) by (simp add: put_child_def)
qed

section \<open>The messages of the node of the children\<close>

definition log_send :: sender where
  "log_send m s = log_ev (ESend m) s"

definition log_bufs :: "ddmsg list \<Rightarrow> tevent list" where
  "log_bufs ms = map (\<lambda>m. ESend (MBuf m)) ms"

lemma log_bufs_simps [simp]:
  "log_bufs [] = []" "log_bufs (m # ms) = ESend (MBuf m) # log_bufs ms" "log_bufs (ms @ ns) = log_bufs ms @ log_bufs ns"
  by (simp_all add: log_bufs_def)

text \<open>\<open>kids\<close>: the content for a list of children; \<open>adopts\<close>: messages for a list of such lists.\<close>

definition kids :: "taskid \<Rightarrow> taskid list \<Rightarrow> byte list" where
  "kids p ts = tid_bytes p @ concat (map child_bytes ts)"

definition adopts :: "ddmsg \<Rightarrow> taskid \<Rightarrow> taskid list list \<Rightarrow> ddmsg list \<Rightarrow> bool" where
  "adopts h p tss ms \<longleftrightarrow> list_all2 (\<lambda>ts m. holds h (kids p ts) m) tss ms"

lemma adopts_simps [simp]:
  "adopts h p [] ms \<longleftrightarrow> ms = []"
  "adopts h p (ts # tss) (m # ms) \<longleftrightarrow> holds h (kids p ts) m \<and> adopts h p tss ms"
  by (simp_all add: adopts_def)

lemma kids_snoc: "kids p ts @ child_bytes t = kids p (ts @ [t])"
  by (simp add: kids_def)

text \<open>A child that is passed on, and its forwarder, get the new parent.\<close>

definition moved :: "taskid \<Rightarrow> nat \<Rightarrow> tstate \<Rightarrow> tstate" where
  "moved g r s =
     (let s1 = upd r (\<lambda>t. t\<lparr>tk_ptid := g\<rparr>) s
      in case tk_forwarder (z_heap s r) of None \<Rightarrow> s1 | Some f \<Rightarrow> upd f (\<lambda>t. t\<lparr>tk_ptid := g\<rparr>) s1)"

lemma moved_simps [simp]:
  "z_log (moved g r s) = z_log s" "z_managed (moved g r s) = z_managed s"
  "tk_tid (z_heap (moved g r s) q) = tk_tid (z_heap s q)"
  "tk_group (z_heap (moved g r s) q) = tk_group (z_heap s q)"
  "tk_forwarder (z_heap (moved g r s) q) = tk_forwarder (z_heap s q)"
  "tk_ptid (z_heap (moved g r s) r) = g"
  by (auto simp: moved_def upd_def Let_def split: option.splits)

lemma moved_ptid_keeps: "tk_ptid (z_heap s q) = g \<Longrightarrow> tk_ptid (z_heap (moved g r s) q) = g"
  by (auto simp: moved_def upd_def Let_def split: option.splits)

definition fw_groups :: "tstate \<Rightarrow> bool" where
  "fw_groups s \<longleftrightarrow> (\<forall>r \<in> set (z_managed s). \<forall>f. tk_forwarder (z_heap s r) = Some f \<longrightarrow> tk_group (z_heap s f) = TG_FORWARDER)"

lemma moved_inherits:
  assumes "fw_groups s" "r \<in> set (z_managed s)" "q \<noteq> r"
  shows "inherits p (z_heap (moved g r s) q) \<longleftrightarrow> inherits p (z_heap s q)"
proof (cases "tk_forwarder (z_heap s r) = Some q")
  case True
  then have "tk_group (z_heap s q) = TG_FORWARDER" using assms by (simp add: fw_groups_def)
  then show ?thesis by (simp add: inherits_def)
next
  case False
  then have "z_heap (moved g r s) q = z_heap s q"
    using assms(3) by (auto simp: moved_def upd_def Let_def split: option.splits)
  then show ?thesis by simp
qed

lemma pass_child_step:
  assumes i: "inherits (er_sender m) (z_heap s r)" and h: "holds h (kids p ts) a"
  obtains a' ts' tss ms where
    "pass_child log_send m True 32 r (a, s)
       = (a', (moved (er_request m) r s)\<lparr>z_log := z_log s @ log_bufs ms\<rparr>)"
    "holds h (kids p ts') a'" "adopts h p tss ms" "concat tss @ ts' = ts @ [tk_tid (z_heap s r)]"
proof -
  let ?t = "tk_tid (z_heap s r)"
  have rel: "tk_released (z_heap s r) = False" using i by (simp add: inherits_def)
  have unf: "pass_child log_send m True 32 r (a, s) =
      (case put_child ?t False a of
         (True, a) \<Rightarrow> (a, moved (er_request m) r s)
       | (False, a') \<Rightarrow> (snd (put_child ?t False (a'\<lparr>m_len := m_len a, m_len := 32\<rparr>)),
           log_send (MBuf (a'\<lparr>m_len := m_len a\<rparr>)) (moved (er_request m) r s)))"
    using i rel by (simp add: pass_child_def moved_def Let_def split: prod.splits bool.splits)
  show thesis
  proof (cases "length (kids p ts) + 9 \<le> 1432")
    case True
    obtain a' where a': "put_child ?t False a = (True, a')" "holds h (kids p ts @ child_bytes ?t) a'"
      by (rule put_child_fits [OF h True])
    show thesis
      by (rule that [of a' "[]" "ts @ [?t]" "[]"]) (use unf a' in \<open>simp_all add: kids_snoc\<close>)
  next
    case False
    obtain a1 where a1: "put_child ?t False a = (False, a1)" "holds h (kids p ts) (a1\<lparr>m_len := m_len a\<rparr>)"
      using put_child_full [OF h] False by (metis not_le)
    have "holds h (kids p []) (a1\<lparr>m_len := m_len a\<rparr>\<lparr>m_len := 24 + length (tid_bytes p)\<rparr>)"
      using holds_cut [of h "tid_bytes p" "concat (map child_bytes ts)" "a1\<lparr>m_len := m_len a\<rparr>"] a1(2) by (simp add: kids_def)
    then have "holds h (kids p []) (a1\<lparr>m_len := m_len a, m_len := 32\<rparr>)" by simp
    then obtain a2 where a2: "put_child ?t False (a1\<lparr>m_len := m_len a, m_len := 32\<rparr>) = (True, a2)"
        "holds h (kids p [] @ child_bytes ?t) a2"
      by (rule put_child_fits) (simp add: kids_def)
    show thesis
      by (rule that [of a2 "[a1\<lparr>m_len := m_len a\<rparr>]" "[?t]" "[ts]"])
        (use unf a1 a2 in \<open>simp_all add: log_send_def log_ev_def, simp_all add: kids_def\<close>)
  qed
qed

lemma pass_child_skip:
  "\<not> inherits (er_sender m) (z_heap s r) \<Longrightarrow> pass_child send m ok n r (a, s) = (a, s)"
  by (simp add: pass_child_def Let_def)

lemma pass_all:
  assumes "distinct rs" "set rs \<subseteq> set (z_managed s)" "fw_groups s" "holds h (kids p ts) a"
  shows "\<exists>a' s' ts' tss ms. fold (pass_child log_send m True 32) rs (a, s) = (a', s')
    \<and> holds h (kids p ts') a' \<and> adopts h p tss ms
    \<and> z_log s' = z_log s @ log_bufs ms
    \<and> concat tss @ ts' = ts @ map (\<lambda>r. tk_tid (z_heap s r)) (filter (\<lambda>r. inherits (er_sender m) (z_heap s r)) rs)
    \<and> (\<forall>q. tk_ptid (z_heap s q) = er_request m \<longrightarrow> tk_ptid (z_heap s' q) = er_request m)
    \<and> (\<forall>q \<in> set rs. inherits (er_sender m) (z_heap s q) \<longrightarrow> tk_ptid (z_heap s' q) = er_request m)"
  using assms
proof (induction rs arbitrary: a s ts)
  case Nil
  then show ?case by (intro exI [of _ a] exI [of _ s] exI [of _ ts] exI [of _ "[]"]) simp
next
  case (Cons r rs)
  show ?case
  proof (cases "inherits (er_sender m) (z_heap s r)")
    case False
    have "fold (pass_child log_send m True 32) (r # rs) (a, s) = fold (pass_child log_send m True 32) rs (a, s)"
      using False by (simp add: pass_child_skip)
    with Cons.IH [of s ts a] Cons.prems False show ?thesis by simp
  next
    case True
    obtain a1 ts1 tss1 ms1 where st:
      "pass_child log_send m True 32 r (a, s)
         = (a1, (moved (er_request m) r s)\<lparr>z_log := z_log s @ log_bufs ms1\<rparr>)"
      "holds h (kids p ts1) a1" "adopts h p tss1 ms1" "concat tss1 @ ts1 = ts @ [tk_tid (z_heap s r)]"
      by (rule pass_child_step [OF True Cons.prems(4)])
    let ?s = "(moved (er_request m) r s)\<lparr>z_log := z_log s @ log_bufs ms1\<rparr>"
    have fw: "fw_groups ?s" using Cons.prems(3) by (simp add: fw_groups_def)
    have inh: "inherits (er_sender m) (z_heap ?s q) \<longleftrightarrow> inherits (er_sender m) (z_heap s q)" if "q \<in> set rs" for q
      using moved_inherits [of s r q] Cons.prems that by auto
    have flt: "map (\<lambda>r. tk_tid (z_heap ?s r)) (filter (\<lambda>r. inherits (er_sender m) (z_heap ?s r)) rs)
        = map (\<lambda>r. tk_tid (z_heap s r)) (filter (\<lambda>r. inherits (er_sender m) (z_heap s r)) rs)"
      using inh by (simp cong: filter_cong)
    obtain a' s' ts' tss ms where ih:
      "fold (pass_child log_send m True 32) rs (a1, ?s) = (a', s')"
      "holds h (kids p ts') a'" "adopts h p tss ms" "z_log s' = z_log ?s @ log_bufs ms"
      "concat tss @ ts' = ts1 @ map (\<lambda>r. tk_tid (z_heap ?s r)) (filter (\<lambda>r. inherits (er_sender m) (z_heap ?s r)) rs)"
      "\<forall>q. tk_ptid (z_heap ?s q) = er_request m \<longrightarrow> tk_ptid (z_heap s' q) = er_request m"
      "\<forall>q \<in> set rs. inherits (er_sender m) (z_heap ?s q) \<longrightarrow> tk_ptid (z_heap s' q) = er_request m"
      using Cons.IH [of ?s ts1 a1] Cons.prems fw st(2) by auto
    have "adopts h p (tss1 @ tss) (ms1 @ ms)"
      using st(3) ih(3) by (simp add: adopts_def list_all2_appendI)
    moreover have "concat (tss1 @ tss) @ ts' = ts @ tk_tid (z_heap s r)
        # map (\<lambda>r. tk_tid (z_heap s r)) (filter (\<lambda>r. inherits (er_sender m) (z_heap s r)) rs)"
      using ih(5) st(4) flt by (metis append.assoc append_Cons append_Nil concat_append)
    moreover have "\<forall>q. tk_ptid (z_heap s q) = er_request m \<longrightarrow> tk_ptid (z_heap s' q) = er_request m"
      using ih(6) moved_ptid_keeps by simp
    moreover have "tk_ptid (z_heap s' r) = er_request m" using ih(6) by simp
    ultimately show ?thesis
      using st(1) ih(1,2,4,7) inh True
      by (intro exI [of _ a'] exI [of _ s'] exI [of _ ts'] exI [of _ "tss1 @ tss"] exI [of _ "ms1 @ ms"]) auto
  qed
qed

lemma newancestor_messages:
  assumes up: "z_up s (PSC_getID (z_myID s) (er_request m))"
    and s: "distinct (z_managed s)" "fw_groups s"
  shows "\<exists>tss tz ms ml. z_log (msg_NEWANCESTOR log_send m s) = z_log s @ log_bufs (ms @ [ml])
    \<and> adopts (empty_msg PSP_DD_ADOPTCHILDSET (er_dest m) (er_request m) 24) (er_sender m) tss ms
    \<and> holds (empty_msg PSP_DD_ADOPTCHILDSET (er_dest m) (er_request m) 24) (kids (er_sender m) tz @ tid_bytes 0) ml
    \<and> concat tss @ tz = map (\<lambda>r. tk_tid (z_heap s r)) (filter (\<lambda>r. inherits (er_sender m) (z_heap s r)) (z_managed s))
    \<and> (\<forall>q \<in> set (z_managed s). inherits (er_sender m) (z_heap s q)
          \<longrightarrow> tk_ptid (z_heap (msg_NEWANCESTOR log_send m s) q) = er_request m)"
proof -
  let ?h = "empty_msg PSP_DD_ADOPTCHILDSET (er_dest m) (er_request m) 24"
  let ?p = "er_sender m"
  have h0: "holds ?h [] ?h" by (simp add: holds_def msg_ok_def content_def empty_msg_def get_bytes_def)
  then obtain a1 where a1: "PSP_putMsgBuf (tid_bytes ?p) ?h = (True, a1)" "holds ?h (kids ?p []) a1"
    by (rule holds_put [of _ _ _ "tid_bytes ?p"]) (simp_all add: kids_def)
  have l1: "m_len a1 = 32" using holds_len [OF a1(2)] by (simp add: kids_def)
  obtain a2 s1 tz tss ms where f:
    "fold (pass_child log_send m True 32) (z_managed s) (a1, s) = (a2, s1)"
    "holds ?h (kids ?p tz) a2" "adopts ?h ?p tss ms" "z_log s1 = z_log s @ log_bufs ms"
    "concat tss @ tz = map (\<lambda>r. tk_tid (z_heap s r)) (filter (\<lambda>r. inherits ?p (z_heap s r)) (z_managed s))"
    "\<forall>q \<in> set (z_managed s). inherits ?p (z_heap s q) \<longrightarrow> tk_ptid (z_heap s1 q) = er_request m"
    using pass_all [OF s(1) subset_refl s(2) a1(2), of m] by auto
  have unf: "msg_NEWANCESTOR log_send m s =
      (case PSP_putMsgBuf (tid_bytes 0) a2 of
         (True, a3) \<Rightarrow> log_send (MBuf a3) s1
       | (False, _) \<Rightarrow> log_send (MBuf (snd (PSP_putMsgBuf (tid_bytes 0) (a2\<lparr>m_len := 32\<rparr>)))) (log_send (MBuf a2) s1))"
    using up a1(1) l1 f(1) by (simp add: msg_NEWANCESTOR_def Let_def DDBufferMsgOffset_def split: prod.splits bool.splits)
  show ?thesis
  proof (cases "length (kids ?p tz) + 8 \<le> 1432")
    case True
    then obtain a3 where a3: "PSP_putMsgBuf (tid_bytes 0) a2 = (True, a3)" "holds ?h (kids ?p tz @ tid_bytes 0) a3"
      using holds_put [OF f(2), of "tid_bytes 0"] by auto
    show ?thesis
      by (rule exI [of _ tss], rule exI [of _ tz], rule exI [of _ ms], rule exI [of _ a3])
        (use unf a3 f in \<open>simp add: log_send_def log_ev_def\<close>)
  next
    case False
    have full: "PSP_putMsgBuf (tid_bytes 0) a2 = (False, a2)"
      by (rule holds_full [OF f(2)]) (use False in simp_all)
    have "holds ?h (kids ?p []) (a2\<lparr>m_len := 32\<rparr>)"
      using holds_cut [of ?h "tid_bytes ?p" "concat (map child_bytes tz)" a2] f(2) by (simp add: kids_def)
    then obtain a3 where a3: "PSP_putMsgBuf (tid_bytes 0) (a2\<lparr>m_len := 32\<rparr>) = (True, a3)"
        "holds ?h (kids ?p [] @ tid_bytes 0) a3"
      by (rule holds_put [of _ _ _ "tid_bytes 0"]) (simp_all add: kids_def)
    have "adopts ?h ?p (tss @ [tz]) (ms @ [a2])"
      using f(2,3) by (simp add: adopts_def list_all2_appendI)
    then show ?thesis
      by (intro exI [of _ "tss @ [tz]"] exI [of _ "[]"] exI [of _ "ms @ [a2]"] exI [of _ a3])
        (use unf full a3 f in \<open>simp add: log_send_def log_ev_def\<close>)
  qed
qed

section \<open>The grandparent\<close>

lemma take_first_none: "\<forall>x \<in> set l. \<not> P x \<Longrightarrow> take_first P l = (None, l)"
  by (induction l) auto

text \<open>Task \<open>r\<close> has got more children; nothing else that the handlers look at has changed.\<close>

definition grown :: "nat \<Rightarrow> taskid list \<Rightarrow> tstate \<Rightarrow> tstate \<Rightarrow> bool" where
  "grown r ts s s' \<longleftrightarrow>
     childList (z_heap s' r) = childList (z_heap s r) @ map (\<lambda>t. (t, -1)) ts
     \<and> deadBefore (z_heap s' r) = deadBefore (z_heap s r)
     \<and> z_log s' = z_log s \<and> z_mem s' = z_mem s \<and> z_up s' = z_up s \<and> z_myID s' = z_myID s
     \<and> z_managed s' = z_managed s
     \<and> (\<forall>q. tk_tid (z_heap s' q) = tk_tid (z_heap s q) \<and> tk_deleted (z_heap s' q) = tk_deleted (z_heap s q))"

lemma grown_refl: "grown r [] s s" by (simp add: grown_def)

lemma grown_trans: "grown r ts s s' \<Longrightarrow> grown r us s' s'' \<Longrightarrow> grown r (ts @ us) s s''"
  by (auto simp: grown_def)

lemma grown_find: "grown r ts s s' \<Longrightarrow> find_managed t s' = find_managed t s"
  by (simp add: grown_def find_managed_def PStasklist_find_def)

definition undead :: "nat \<Rightarrow> taskid list \<Rightarrow> tstate \<Rightarrow> bool" where
  "undead r ts s \<longleftrightarrow> (\<forall>t \<in> set ts. t \<noteq> 0 \<and> (\<forall>g. (t, g) \<notin> set (deadBefore (z_heap s r))))"

lemma grown_undead: "grown r ts s s' \<Longrightarrow> undead r us s' \<longleftrightarrow> undead r us s"
  by (simp add: grown_def undead_def)

lemma take_content: "content m = pre @ x @ post \<Longrightarrow> take (length x) (drop (length pre) (content m)) = x"
  by simp

lemma adopt_loop_child:
  assumes m: "msg_ok m" "content m = pre @ child_bytes t @ post"
    and s: "z_mem s = []" "undead r [t] s"
  shows "\<exists>s'. adopt_loop (Suc n) r m (length pre) k s = adopt_loop n r m (length pre + 9) (k + 1) s'
    \<and> grown r [t] s s'"
proof -
  have room: "length pre + 9 \<le> m_len m - 24" using length_content [of m] m(2) by simp
  have g1: "PSP_getMsgBuf 8 m (length pre) = (Some (tid_bytes t), length pre + 8)"
    using get_untyped [OF m(1), of 8 "length pre"] room m(2) by (simp add: child_bytes_def)
  have g2: "snd (PSP_getMsgBuf 1 m (length pre + 8)) = length pre + 9"
    using get_untyped [OF m(1), of 1 "length pre + 8"] room by simp
  let ?l = "deadBefore (z_heap s r)"
  have d: "PSID_getSignalByTID ?l t = (0, ?l)"
  proof -
    have "take_first (\<lambda>(x, g). x = t) ?l = (None, ?l)"
      by (rule take_first_none) (use s(2) in \<open>auto simp: undead_def\<close>)
    then show ?thesis by (simp add: PSID_getSignalByTID_def)
  qed
  have t: "t \<noteq> 0" using s(2) by (simp add: undead_def)
  define s2 where "s2 = upd r (\<lambda>x. x\<lparr>releasedBefore := snd (PSID_getSignalByTID (releasedBefore x) t)\<rparr>)
    (upd r (\<lambda>x. x\<lparr>deadBefore := ?l\<rparr>) s)"
  have "adopt_loop (Suc n) r m (length pre) k s
      = adopt_loop n r m (length pre + 9) (k + 1) (PSID_setSignal childList_update r t (-1) s2)"
    using g1 g2 d t by (simp add: s2_def)
  moreover have "grown r [t] s (PSID_setSignal childList_update r t (-1) s2)"
    using s(1) by (simp add: grown_def PSID_setSignal_def PSsignal_get_def s2_def upd_def)
  ultimately show ?thesis by blast
qed

lemma undead_Cons: "undead r (t # ts) s \<longleftrightarrow> undead r [t] s \<and> undead r ts s"
  by (auto simp: undead_def)

lemma adopt_loop_end:
  assumes m: "msg_ok m" "content m = pre @ tz" and tz: "tz = [] \<or> tz = tid_bytes 0"
  shows "adopt_loop (Suc n) r m (length pre) k s = (k, tz \<noteq> [], s)"
proof -
  have len: "m_len m - 24 = length pre + length tz" using length_content [of m] m(2) by simp
  show ?thesis using tz
  proof
    assume "tz = []"
    then show ?thesis using get_untyped [OF m(1), of 8 "length pre"] len by simp
  next
    assume "tz = tid_bytes 0"
    then show ?thesis using get_untyped [OF m(1), of 8 "length pre"] len m(2) by simp
  qed
qed

lemma adopt_loop_all:
  assumes "msg_ok m" "content m = pre @ concat (map child_bytes ts) @ tz" "tz = [] \<or> tz = tid_bytes 0"
    and "z_mem s = []" "undead r ts s" "length ts < n"
  shows "\<exists>s'. adopt_loop n r m (length pre) k s = (k + length ts, tz \<noteq> [], s') \<and> grown r ts s s'"
  using assms
proof (induction ts arbitrary: pre n k s)
  case Nil
  then obtain n' where "n = Suc n'" by (metis gr0_implies_Suc list.size(3))
  then show ?case using adopt_loop_end [of m pre tz n' r k s] Nil by (simp add: grown_refl)
next
  case (Cons t ts)
  then obtain n' where n: "n = Suc n'" by (metis less_imp_Suc_add)
  have u: "undead r [t] s" "undead r ts s" using Cons.prems(5) undead_Cons [of r t ts s] by simp_all
  have c: "content m = pre @ child_bytes t @ concat (map child_bytes ts) @ tz" using Cons.prems(2) by simp
  obtain s1 where s1: "adopt_loop (Suc n') r m (length pre) k s = adopt_loop n' r m (length pre + 9) (k + 1) s1"
      "grown r [t] s s1"
    using adopt_loop_child [OF Cons.prems(1) c Cons.prems(4) u(1), of n' k] by blast
  have "\<exists>s'. adopt_loop n' r m (length (pre @ child_bytes t)) (k + 1) s1 = (k + 1 + length ts, tz \<noteq> [], s')
      \<and> grown r ts s1 s'"
  proof (rule Cons.IH [OF Cons.prems(1)])
    show "content m = (pre @ child_bytes t) @ concat (map child_bytes ts) @ tz" using c by simp
    show "tz = [] \<or> tz = tid_bytes 0" by (rule Cons.prems(3))
    show "z_mem s1 = []" using s1(2) Cons.prems(4) by (simp add: grown_def)
    show "undead r ts s1" using grown_undead [OF s1(2)] u(2) by simp
    show "length ts < n'" using Cons.prems(6) n by simp
  qed
  then obtain s' where s': "adopt_loop n' r m (length pre + 9) (k + 1) s1 = (k + 1 + length ts, tz \<noteq> [], s')"
      "grown r ts s1 s'" by auto
  have "grown r (t # ts) s s'" using grown_trans [OF s1(2) s'(2)] by simp
  then show ?case using s1(1) s'(1) n by (intro exI [of _ s']) simp
qed

text \<open>The answer of the grandparent: the child the parent kept and the number of children.\<close>

definition done_msg :: "ddmsg \<Rightarrow> taskid \<Rightarrow> nat \<Rightarrow> ddmsg \<Rightarrow> bool" where
  "done_msg h p n d \<longleftrightarrow> holds (empty_msg PSP_DD_INHERITDONE (m_dest h) p 24) (tid_bytes (m_sender h) @ le_bytes 4 n) d"

lemma put_first: "m_len a = 0 \<Longrightarrow> PSP_putMsgBuf d a = PSP_putMsgBuf d (a\<lparr>m_len := 24\<rparr>)"
  by (simp add: PSP_putMsgBuf_def doPutMsgBuf_def Let_def DDBufferMsgOffset_def)

lemma done_msg_built:
  "done_msg h p n (snd (PSP_putMsgBuf (le_bytes 4 n)
     (snd (PSP_putMsgBuf (tid_bytes (m_sender h)) (empty_msg PSP_DD_INHERITDONE (m_dest h) p 0)))))"
proof -
  let ?h = "empty_msg PSP_DD_INHERITDONE (m_dest h) p 24"
  have h0: "holds ?h [] ?h" by (simp add: holds_def msg_ok_def content_def empty_msg_def get_bytes_def)
  then obtain a1 where a1: "PSP_putMsgBuf (tid_bytes (m_sender h)) ?h = (True, a1)" "holds ?h (tid_bytes (m_sender h)) a1"
    by (rule holds_put [of _ _ _ "tid_bytes (m_sender h)"]) simp_all
  have ne: "le_bytes 4 n \<noteq> []" using length_le_bytes [of 4 n] by fastforce
  obtain a2 where a2: "PSP_putMsgBuf (le_bytes 4 n) a1 = (True, a2)" "holds ?h (tid_bytes (m_sender h) @ le_bytes 4 n) a2"
    using holds_put [OF a1(2) ne] by auto
  have "PSP_putMsgBuf (tid_bytes (m_sender h)) (empty_msg PSP_DD_INHERITDONE (m_dest h) p 0) = (True, a1)"
    using put_first [of "empty_msg PSP_DD_INHERITDONE (m_dest h) p 0"] a1(1) by (simp add: empty_msg_def)
  then show ?thesis using a2 by (simp add: done_msg_def)
qed

lemma adoptchildset:
  assumes m: "holds h (kids p ts @ tz) m" "tz = [] \<or> tz = tid_bytes 0"
    and s: "find_managed (m_dest h) s = Some r" "z_up s (PSC_getID (z_myID s) (m_sender h))" "z_mem s = []" "undead r ts s"
  shows "\<exists>s' d. grown r ts s s' \<and> done_msg h p (length ts) d
    \<and> msg_ADOPTCHILDSET send m s = (if tz = [] then s' else send (MBuf d) s')"
proof -
  have ok: "msg_ok m" and c: "content m = tid_bytes p @ concat (map child_bytes ts) @ tz"
    and hd: "m_dest m = m_dest h" "m_sender m = m_sender h"
    using m(1) by (simp_all add: holds_def kids_def)
  have len: "m_len m = 24 + 8 + 9 * length ts + length tz"
    using holds_len [OF m(1)] by (simp add: kids_def length_concat comp_def sum_list_triv)
  have g: "PSP_getMsgBuf 8 m 0 = (Some (tid_bytes p), 8)"
    using get_untyped [OF ok, of 8 0] len c by simp
  obtain s' where s': "adopt_loop (m_len m) r m (length (tid_bytes p)) 0 s = (length ts, tz \<noteq> [], s')" "grown r ts s s'"
    using adopt_loop_all [OF ok c m(2) s(3,4), of "m_len m" 0] len by auto
  have "msg_ADOPTCHILDSET send m s = (if tz = [] then s' else send (MBuf (snd (PSP_putMsgBuf (le_bytes 4 (length ts))
     (snd (PSP_putMsgBuf (tid_bytes (m_sender h)) (empty_msg PSP_DD_INHERITDONE (m_dest h) p 0)))))) s')"
    using s g s'(1) hd by (simp add: msg_ADOPTCHILDSET_def)
  then show ?thesis using s'(2) done_msg_built by blast
qed

lemma adopt_all:
  assumes "adopts h p tss ms" "find_managed (m_dest h) s = Some r" "z_up s (PSC_getID (z_myID s) (m_sender h))"
    "z_mem s = []" "undead r (concat tss) s"
  shows "grown r (concat tss) s (fold (msg_ADOPTCHILDSET send) ms s)"
  using assms
proof (induction tss arbitrary: ms s)
  case Nil
  then show ?case by (simp add: grown_refl)
next
  case (Cons ts tss)
  then obtain m ms' where ms: "ms = m # ms'" "holds h (kids p ts) m" "adopts h p tss ms'"
    by (auto simp: adopts_def list_all2_Cons1)
  have u: "undead r ts s" "undead r (concat tss) s" using Cons.prems(5) by (auto simp: undead_def)
  have "holds h (kids p ts @ []) m" using ms(2) by simp
  from adoptchildset [OF this _ Cons.prems(2-4) u(1)] obtain s' where
    s': "grown r ts s s'" "msg_ADOPTCHILDSET send m s = s'" by auto
  have "grown r (concat tss) s' (fold (msg_ADOPTCHILDSET send) ms' s')"
    by (rule Cons.IH [OF ms(3)])
      (use Cons.prems(2-4) u(2) grown_find [OF s'(1)] grown_undead [OF s'(1)] s'(1) in \<open>simp_all add: grown_def\<close>)
  then show ?case using grown_trans [OF s'(1)] ms(1) s'(2) by simp
qed

text \<open>All messages, the last of which carries the end mark.\<close>

lemma adopt_run:
  assumes ms: "adopts h p tss ms" "holds h (kids p tz @ tid_bytes 0) ml"
    and s: "find_managed (m_dest h) s = Some r" "z_up s (PSC_getID (z_myID s) (m_sender h))" "z_mem s = []"
      "undead r (concat tss @ tz) s"
  shows "\<exists>s' d. fold (msg_ADOPTCHILDSET log_send) (ms @ [ml]) s = log_send (MBuf d) s'
    \<and> grown r (concat tss @ tz) s s' \<and> done_msg h p (length tz) d"
proof -
  have u: "undead r (concat tss) s" "undead r tz s" using s(4) by (auto simp: undead_def)
  let ?s1 = "fold (msg_ADOPTCHILDSET log_send) ms s"
  have g: "grown r (concat tss) s ?s1" by (rule adopt_all [OF ms(1) s(1-3) u(1)])
  have "\<exists>s' d. grown r tz ?s1 s' \<and> done_msg h p (length tz) d
    \<and> msg_ADOPTCHILDSET log_send ml ?s1 = (if tid_bytes 0 = [] then s' else log_send (MBuf d) s')"
    by (rule adoptchildset [OF ms(2)])
      (use s u grown_find [OF g] grown_undead [OF g] g in \<open>simp_all add: grown_def\<close>)
  then show ?thesis using grown_trans [OF g] by auto
qed

end
