(* ===== verification/Tsk_Answer.thy ===== *)
theory Tsk_Answer
  imports Tsk_Adopt
begin

text \<open>
  The release of a task: every message that its daemon sends for the release is counted, the answers
  are counted down, the parent is asked last, and its answer goes to the task.
\<close>

section \<open>What the steps leave alone\<close>

definition frame :: "nat \<Rightarrow> tstate \<Rightarrow> tstate \<Rightarrow> bool" where
  "frame r s s' \<longleftrightarrow> z_managed s' = z_managed s \<and> z_myID s' = z_myID s
     \<and> (\<forall>q. tk_tid (z_heap s' q) = tk_tid (z_heap s q) \<and> tk_deleted (z_heap s' q) = tk_deleted (z_heap s q)
          \<and> tk_fd (z_heap s' q) = tk_fd (z_heap s q) \<and> tk_forwarder (z_heap s' q) = tk_forwarder (z_heap s q)
          \<and> tk_ptid (z_heap s' q) = tk_ptid (z_heap s q) \<and> tk_relAnswer (z_heap s' q) = tk_relAnswer (z_heap s q)
          \<and> tk_removeIt (z_heap s' q) = tk_removeIt (z_heap s q)
          \<and> tk_parentReleased (z_heap s' q) = tk_parentReleased (z_heap s q))"

lemma frame_refl [simp]: "frame r s s" by (simp add: frame_def)

lemma frame_trans: "frame r s s' \<Longrightarrow> frame r s' s'' \<Longrightarrow> frame r s s''" by (simp add: frame_def)

lemma frame_find: "frame r s s' \<Longrightarrow> find_managed t s' = find_managed t s"
  by (simp add: frame_def find_managed_def PStasklist_find_def)

lemma find_managed_upd:
  "(\<And>t. tk_tid (f t) = tk_tid t \<and> tk_deleted (f t) = tk_deleted t) \<Longrightarrow> find_managed x (upd r f s) = find_managed x s"
  unfolding find_managed_def PStasklist_find_def upd_def by (rule arg_cong2 [where f = List.find]) auto

lemma frame_local: "frame r s s' \<Longrightarrow> is_local t s' = is_local t s"
  by (simp add: frame_def is_local_def)

text \<open>The counter of task \<open>r\<close> and the log move together.\<close>

definition counts :: "nat \<Rightarrow> tstate \<Rightarrow> tstate \<Rightarrow> smsg list \<Rightarrow> bool" where
  "counts r s s' ms \<longleftrightarrow> frame r s s' \<and> z_log s' = z_log s @ map ESend ms
     \<and> tk_pendRes (z_heap s' r) = tk_pendRes (z_heap s r) + int (length ms)
     \<and> z_stuck s' = z_stuck s"

lemma counts_refl [simp]: "counts r s s []" by (simp add: counts_def)

lemma counts_trans: "counts r s s' ms \<Longrightarrow> counts r s' s'' ns \<Longrightarrow> counts r s s'' (ms @ ns)"
  by (auto simp: counts_def intro: frame_trans)

section \<open>The messages of a release\<close>

lemma set_signal_shape:
  "(\<exists>b. PSID_setSignal fld r t g s = upd r (fld (\<lambda>l. l @ [(t, g)])) (s\<lparr>z_mem := b\<rparr>))
   \<or> (\<exists>b. PSID_setSignal fld r t g s = s\<lparr>z_mem := b\<rparr>)"
proof (cases "z_mem s")
  case Nil
  then have "PSID_setSignal fld r t g s = upd r (fld (\<lambda>l. l @ [(t, g)])) (s\<lparr>z_mem := z_mem s\<rparr>)"
    by (cases s) (simp add: PSID_setSignal_def PSsignal_get_def)
  then show ?thesis by blast
next
  case (Cons b bs)
  then show ?thesis by (cases b) (auto simp: PSID_setSignal_def PSsignal_get_def)
qed

lemma counts_kept: "counts r s (PSID_setSignal keptChildren_update r t g s) []"
  using set_signal_shape [of keptChildren_update r t g s]
  by (auto simp: counts_def frame_def upd_def split: if_splits)

lemma kept_childList: "childList (z_heap (PSID_setSignal keptChildren_update r t g s) r) = childList (z_heap s r)"
  using set_signal_shape [of keptChildren_update r t g s] by (auto simp: upd_def)

lemma kept_assigned: "assignedSigs (z_heap (PSID_setSignal keptChildren_update r t g s) r) = assignedSigs (z_heap s r)"
  using set_signal_shape [of keptChildren_update r t g s] by (auto simp: upd_def)

lemma getSignal_any_Cons: "PSID_getSignal ((t, g) # l) (-1) = (t, g, l)"
  by (simp add: PSID_getSignal_def)

lemma getSignal_any_Nil: "PSID_getSignal [] k = (0, k, [])"
  by (simp add: PSID_getSignal_def)

lemma counts_sent:
  "counts r s (log_send m (upd r (\<lambda>t. t\<lparr>tk_pendRes := tk_pendRes t + 1\<rparr>) s)) [m]"
  "counts r s (upd r (\<lambda>t. t\<lparr>tk_pendRes := tk_pendRes t + 1\<rparr>) (log_send m s)) [m]"
  by (auto simp: counts_def frame_def upd_def log_send_def log_ev_def)

lemma counts_upd_lists [simp]:
  "counts r s (upd q (\<lambda>t. t\<lparr>childList := l\<rparr>) s) []"
  "counts r s (upd q (\<lambda>t. t\<lparr>assignedSigs := l\<rparr>) s) []"
  "counts r s (upd q (\<lambda>t. t\<lparr>signalReceiver := f t\<rparr>) s) []"
  "counts r s (upd q (\<lambda>t. t\<lparr>tk_pendErr := e\<rparr>) s) []"
  by (auto simp: counts_def frame_def upd_def)

lemma pass_children_counts:
  assumes "length (childList (z_heap s r)) < n"
  shows "\<exists>ms. counts r s (pass_children n log_send r sent s) ms
    \<and> assignedSigs (z_heap (pass_children n log_send r sent s) r) = assignedSigs (z_heap s r)"
  using assms
proof (induction n arbitrary: s sent)
  case (Suc n)
  show ?case
  proof (cases "childList (z_heap s r)")
    case Nil
    then have "pass_children (Suc n) log_send r sent s = upd r (\<lambda>t. t\<lparr>childList := []\<rparr>) s"
      by (simp add: getSignal_any_Nil)
    then show ?thesis by (intro exI [of _ "[]"]) (simp, simp add: upd_def)
  next
    case (Cons x l)
    obtain c g where x: "x = (c, g)" by (cases x)
    let ?s1 = "upd r (\<lambda>t. t\<lparr>childList := l\<rparr>) s"
    let ?m = "newancestor_msg (z_heap ?s1 r) c"
    let ?s4 = "PSID_setSignal keptChildren_update r c (-1)
      (log_send ?m (upd r (\<lambda>t. t\<lparr>tk_pendRes := tk_pendRes t + 1\<rparr>) ?s1))"
    have unf: "pass_children (Suc n) log_send r sent s =
        (if c = 0 then ?s1
         else if keeps_children (z_heap ?s1 r) \<or> PSC_getID (z_myID s) c \<in> set sent
         then pass_children n log_send r sent ?s1
         else pass_children n log_send r (PSC_getID (z_myID s) c # sent) ?s4)"
      using Cons x by (simp add: getSignal_any_Cons Let_def)
    have s1: "counts r s ?s1 []" "assignedSigs (z_heap ?s1 r) = assignedSigs (z_heap s r)"
        "length (childList (z_heap ?s1 r)) < n"
      using Suc.prems Cons by (simp, simp_all add: upd_def)
    have s4: "counts r s ?s4 [?m]"
      using counts_trans [OF counts_trans [OF s1(1) counts_sent(1)] counts_kept] by simp
    have s4l: "assignedSigs (z_heap ?s4 r) = assignedSigs (z_heap s r)" "length (childList (z_heap ?s4 r)) < n"
      using s1(2,3) by (simp_all add: kept_childList kept_assigned) (simp_all add: log_send_def log_ev_def upd_def)
    consider "c = 0" | "c \<noteq> 0" "keeps_children (z_heap ?s1 r) \<or> PSC_getID (z_myID s) c \<in> set sent"
      | "c \<noteq> 0" "\<not> (keeps_children (z_heap ?s1 r) \<or> PSC_getID (z_myID s) c \<in> set sent)" by blast
    then show ?thesis
    proof cases
      case 1
      then show ?thesis using unf s1 by (metis (mono_tags, lifting))
    next
      case 2
      obtain ms where "counts r ?s1 (pass_children n log_send r sent ?s1) ms"
          "assignedSigs (z_heap (pass_children n log_send r sent ?s1) r) = assignedSigs (z_heap ?s1 r)"
        using Suc.IH [OF s1(3)] by blast
      then show ?thesis using unf 2 s1 counts_trans [OF s1(1)] by (metis (mono_tags, lifting))
    next
      case 3
      obtain ms where "counts r ?s4 (pass_children n log_send r (PSC_getID (z_myID s) c # sent) ?s4) ms"
          "assignedSigs (z_heap (pass_children n log_send r (PSC_getID (z_myID s) c # sent) ?s4) r) = assignedSigs (z_heap ?s4 r)"
        using Suc.IH [OF s4l(2)] by blast
      then show ?thesis using unf 3 s4l counts_trans [OF s4] by (metis (mono_tags, lifting))
    qed
  qed
qed simp

lemma release_signal_counts:
  "releaseSignal a b g s = (e, s') \<Longrightarrow> counts r s s' []
    \<and> (\<forall>q. assignedSigs (z_heap s' q) = assignedSigs (z_heap s q))"
  by (auto simp: releaseSignal_def upd_def counts_def frame_def split: option.splits if_splits)

lemma drop_assigned_counts:
  assumes "length (assignedSigs (z_heap s r)) < n" "tk_relAnswer (z_heap s r)"
  shows "\<exists>ms. counts r s (drop_assigned n log_send r s) ms"
  using assms
proof (induction n arbitrary: s)
  case (Suc n)
  show ?case
  proof (cases "assignedSigs (z_heap s r)")
    case Nil
    then have "drop_assigned (Suc n) log_send r s = upd r (\<lambda>t. t\<lparr>assignedSigs := []\<rparr>) s"
      by (simp add: getSignal_any_Nil)
    then show ?thesis by (intro exI [of _ "[]"]) simp
  next
    case (Cons x l)
    obtain c g where x: "x = (c, g)" by (cases x)
    let ?s1 = "upd r (\<lambda>t. t\<lparr>assignedSigs := l\<rparr>) s"
    obtain ret s2 where rel: "releaseSignal c (tk_tid (z_heap ?s1 r)) g ?s1 = (ret, s2)" by force
    let ?s3 = "if ret > 0 then upd r (\<lambda>t. t\<lparr>tk_pendErr := ret\<rparr>) s2 else s2"
    let ?m = "MSig (release_msg (tk_tid (z_heap ?s1 r)) c g (tk_relAnswer (z_heap ?s1 r)))"
    let ?s4 = "upd r (\<lambda>t. t\<lparr>tk_pendRes := tk_pendRes t + 1\<rparr>) (log_send ?m ?s1)"
    have s1: "counts r s ?s1 []" "length (assignedSigs (z_heap ?s1 r)) < n" "tk_relAnswer (z_heap ?s1 r)"
      using Suc.prems Cons by (simp, simp_all add: upd_def)
    have unf: "drop_assigned (Suc n) log_send r s =
        (if c = 0 then ?s1 else if is_local c ?s1 then drop_assigned n log_send r ?s3 else drop_assigned n log_send r ?s4)"
      using Cons x s1(3) rel by (simp add: getSignal_any_Cons Let_def log_send_def log_ev_def)
    have s3: "counts r s ?s3 []" "length (assignedSigs (z_heap ?s3 r)) < n" "tk_relAnswer (z_heap ?s3 r)"
    proof -
      have a: "counts r ?s1 s2 []" "assignedSigs (z_heap s2 r) = assignedSigs (z_heap ?s1 r)"
        using release_signal_counts [OF rel] by simp_all
      have "counts r s s2 []" using counts_trans [OF s1(1) a(1)] by simp
      then show "counts r s ?s3 []" using counts_trans [of r s s2 "[]" _ "[]"] by simp
      show "length (assignedSigs (z_heap ?s3 r)) < n" using a s1(2) by (simp add: upd_def)
      show "tk_relAnswer (z_heap ?s3 r)" using a s1(3) by (simp add: upd_def counts_def frame_def)
    qed
    have s4: "counts r s ?s4 [?m]" using counts_trans [OF s1(1) counts_sent(2)] by simp
    have s4l: "length (assignedSigs (z_heap ?s4 r)) < n" "tk_relAnswer (z_heap ?s4 r)"
      using s1(2,3) by (simp_all add: log_send_def log_ev_def upd_def)
    consider "c = 0" | "c \<noteq> 0" "is_local c ?s1" | "c \<noteq> 0" "\<not> is_local c ?s1" by blast
    then show ?thesis
    proof cases
      case 1
      then show ?thesis using unf s1 by (metis (mono_tags, lifting))
    next
      case 2
      obtain ms where "counts r ?s3 (drop_assigned n log_send r ?s3) ms" using Suc.IH [OF s3(2,3)] by blast
      from counts_trans [OF s3(1) this] show ?thesis using 2 by (intro exI [of _ "[] @ ms"]) (simp only: unf if_False if_True)
    next
      case 3
      obtain ms where "counts r ?s4 (drop_assigned n log_send r ?s4) ms" using Suc.IH [OF s4l] by blast
      from counts_trans [OF s4 this] show ?thesis using 3 by (intro exI [of _ "[?m] @ ms"]) (simp only: unf if_False if_True)
    qed
  qed
qed simp

lemma fit_shape: "fit_sentToNode s = (b, s0) \<Longrightarrow> \<exists>m t. s0 = s\<lparr>z_mem := m, z_sTN := t\<rparr>"
proof -
  assume a: "fit_sentToNode s = (b, s0)"
  have same: "s\<lparr>z_mem := z_mem s, z_sTN := t\<rparr> = s\<lparr>z_sTN := t\<rparr>" for t by simp
  have same': "s\<lparr>z_mem := z_mem s, z_sTN := z_sTN s\<rparr> = s" by simp
  consider "s0 = s" | x where "s0 = s\<lparr>z_sTN := x\<rparr>" | x y where "s0 = s\<lparr>z_mem := x, z_sTN := y\<rparr>"
    using a unfolding fit_sentToNode_def PSsignal_get_def Let_def
    by (cases "z_mem s"; cases "hd (z_mem s)") (auto split: if_splits)
  then show ?thesis using same same' by (metis (no_types))
qed

lemma releaseTask_counts:
  assumes mem: "fst (fit_sentToNode s)" and n: "length (childList (z_heap s r)) < n" "length (assignedSigs (z_heap s r)) < n"
    and a: "tk_relAnswer (z_heap s r)"
  shows "\<exists>ms. counts r s (snd (releaseTask n log_send r s)) ms"
proof -
  obtain s0 where s0: "fit_sentToNode s = (True, s0)" using mem by (cases "fit_sentToNode s") auto
  have z: "z_heap s0 = z_heap s" "counts r s s0 []"
    using fit_shape [OF s0] by (auto simp: counts_def frame_def)
  let ?s1 = "upd r (\<lambda>t. t\<lparr>tk_released := True, tk_pendRes := tk_pendRes t + 1\<rparr>) s0"
  have f1: "frame r s0 ?s1" "z_log ?s1 = z_log s0" "z_stuck ?s1 = z_stuck s0"
      "tk_pendRes (z_heap ?s1 r) = tk_pendRes (z_heap s0 r) + 1"
    by (auto simp: frame_def upd_def)
  let ?s2 = "if tk_ptid (z_heap ?s1 r) \<noteq> 0 then pass_children n log_send r [] ?s1 else ?s1"
  have "\<exists>ms. counts r ?s1 ?s2 ms \<and> assignedSigs (z_heap ?s2 r) = assignedSigs (z_heap ?s1 r)"
  proof (cases "tk_ptid (z_heap ?s1 r) \<noteq> 0")
    case True
    have "length (childList (z_heap ?s1 r)) < n" using n z by (simp add: upd_def)
    from pass_children_counts [OF this] show ?thesis using True by simp
  qed (auto intro: exI [of _ "[]"])
  then obtain ms where ms: "counts r ?s1 ?s2 ms" "assignedSigs (z_heap ?s2 r) = assignedSigs (z_heap ?s1 r)" by blast
  have l2: "length (assignedSigs (z_heap ?s2 r)) < n" using ms(2) n z by (simp add: upd_def)
  have a2: "tk_relAnswer (z_heap ?s2 r)"
    using ms(1) a z unfolding counts_def frame_def by (simp add: upd_def)
  obtain ns where ns: "counts r ?s2 (drop_assigned n log_send r ?s2) ns"
    using drop_assigned_counts [OF l2 a2] by blast
  let ?s3 = "drop_assigned n log_send r ?s2"
  let ?s4 = "upd r (\<lambda>t. t\<lparr>tk_pendRes := tk_pendRes t - 1\<rparr>) ?s3"
  have s3: "counts r ?s1 ?s3 (ms @ ns)" by (rule counts_trans [OF ms(1) ns])
  have f4: "frame r ?s3 ?s4" by (simp add: frame_def upd_def)
  have "frame r s ?s4"
    using z(2) f1(1) s3 f4 unfolding counts_def by (meson frame_trans)
  then have "counts r s ?s4 (ms @ ns)"
    using z s3 f1 unfolding counts_def by (simp add: upd_def)
  moreover have "snd (releaseTask n log_send r s) = ?s4"
    using s0 by (simp add: releaseTask_def Let_def)
  ultimately show ?thesis by metis
qed

section \<open>The answers\<close>

text \<open>An answer for the task: a \<open>RELEASERES\<close>, or the outcome of passing children on.\<close>

definition answer_to :: "taskid \<Rightarrow> smsg \<Rightarrow> bool" where
  "answer_to tid a \<longleftrightarrow>
     (case a of
        MSig m \<Rightarrow> sg_type m = PSP_CD_RELEASERES \<and> sg_dest m = tid
      | MBuf m \<Rightarrow> m_dest m = tid \<and> (m_type m = PSP_DD_INHERITDONE \<and> msg_ok m \<and> 8 \<le> length (content m)
                  \<or> m_type m = PSP_DD_INHERITFAILED)
      | _ \<Rightarrow> False)"

lemmas task_types = PSP_CD_NOTIFYDEAD_def PSP_CD_NOTIFYDEADRES_def PSP_CD_RELEASE_def PSP_CD_RELEASERES_def
  PSP_CD_SIGNAL_def PSP_CD_WHODIED_def PSP_DD_ADOPTCHILDSET_def PSP_DD_ADOPTFAILED_def
  PSP_DD_INHERITDONE_def PSP_DD_INHERITFAILED_def PSP_DD_NEWANCESTOR_def PSP_DD_CHILDDEAD_def

text \<open>What a handler does before it counts the answer.\<close>

definition noted :: "nat \<Rightarrow> tstate \<Rightarrow> tstate \<Rightarrow> bool" where
  "noted r s s1 \<longleftrightarrow> frame r s s1 \<and> z_log s1 = z_log s \<and> z_stuck s1 = z_stuck s
     \<and> tk_pendRes (z_heap s1 r) = tk_pendRes (z_heap s r)"

lemma noted_upds [simp]:
  "noted r s s"
  "noted r s (upd q (\<lambda>t. t\<lparr>tk_pendErr := e\<rparr>) s)"
  "noted r s (drop_kept q c s)"
  by (auto simp: noted_def frame_def upd_def drop_kept_def)

lemma noted_trans: "noted r s s1 \<Longrightarrow> noted r s1 s2 \<Longrightarrow> noted r s s2"
  by (auto simp: noted_def intro: frame_trans)

definition dec :: "nat \<Rightarrow> tstate \<Rightarrow> tstate" where
  "dec r s = upd r (\<lambda>t. t\<lparr>tk_pendRes := tk_pendRes t - 1\<rparr>) s"

lemma dec_frame [simp]:
  "frame r s (dec r s)" "z_log (dec r s) = z_log s" "z_stuck (dec r s) = z_stuck s"
  "tk_pendRes (z_heap (dec r s) r) = tk_pendRes (z_heap s r) - 1"
  by (auto simp: dec_def frame_def upd_def)

text \<open>While the release waits, handling an answer is counting it.\<close>

lemma answer_waits:
  assumes a: "answer_to tid a" and s: "find_managed tid s = Some r" "is_local tid s"
  shows "\<exists>s1. noted r s s1 \<and> (\<forall>s2. still_waits log_send (msg_RELEASE n log_send) r (dec r s1) = (True, s2)
    \<longrightarrow> handle_here n log_send a s = s2)"
proof (cases a)
  case (MSig m)
  then have m: "sg_type m = PSP_CD_RELEASERES" "sg_dest m = tid" using a by (simp_all add: answer_to_def)
  let ?s1 = "if sg_param m \<noteq> 0 \<and> tk_pendErr (z_heap s r) = 0 \<and> sg_param m \<noteq> ESRCH
    then upd r (\<lambda>t. t\<lparr>tk_pendErr := sg_param m\<rparr>) s else s"
  have "handle_here n log_send a s = msg_RELEASERES log_send (msg_RELEASE n log_send) m s"
    using MSig m by (simp add: handle_here_def task_types)
  then have "\<forall>s2. still_waits log_send (msg_RELEASE n log_send) r (dec r ?s1) = (True, s2) \<longrightarrow> handle_here n log_send a s = s2"
    using m s by (simp add: msg_RELEASERES_def dec_def Let_def)
  moreover have "noted r s ?s1" by simp
  ultimately show ?thesis by blast
next
  case (MBuf m)
  then have d: "m_dest m = tid" using a by (simp add: answer_to_def)
  consider "m_type m = PSP_DD_INHERITDONE" "msg_ok m" "8 \<le> length (content m)" | "m_type m = PSP_DD_INHERITFAILED"
    using a MBuf by (auto simp: answer_to_def)
  then show ?thesis
  proof cases
    case 1
    let ?k = "bytes_tid (take 8 (content m))"
    have g: "PSP_getMsgBuf 8 m 0 = (Some (take 8 (content m)), 8)"
      using get_untyped [OF 1(2), of 8 0] 1(3) by simp
    have "handle_here n log_send a s = count_answer log_send (msg_RELEASE n log_send) r (m_sender m) (drop_kept r ?k s)"
      using MBuf 1(1) d s g by (simp add: handle_here_def task_types msg_INHERITDONE_def)
    then have "\<forall>s2. still_waits log_send (msg_RELEASE n log_send) r (dec r (drop_kept r ?k s)) = (True, s2)
        \<longrightarrow> handle_here n log_send a s = s2"
      by (simp add: count_answer_def dec_def)
    then show ?thesis by (intro exI [of _ "drop_kept r ?k s"]) simp
  next
    case 2
    let ?s0 = "drop_kept r (m_sender m) s"
    let ?s1 = "if tk_pendErr (z_heap ?s0 r) = 0 then upd r (\<lambda>t. t\<lparr>tk_pendErr := EACCES_NO\<rparr>) ?s0 else ?s0"
    have "handle_here n log_send a s = count_answer log_send (msg_RELEASE n log_send) r (m_sender m) ?s1"
      using MBuf 2 d s by (simp add: handle_here_def task_types msg_INHERITFAILED_def Let_def)
    then have "\<forall>s2. still_waits log_send (msg_RELEASE n log_send) r (dec r ?s1) = (True, s2) \<longrightarrow> handle_here n log_send a s = s2"
      by (simp add: count_answer_def dec_def)
    moreover have "noted r s ?s1" using noted_trans [of r s ?s0] by simp
    ultimately show ?thesis by blast
  qed
qed (use a in \<open>simp_all add: answer_to_def\<close>)

text \<open>One of several answers that are missing: nothing is sent.\<close>

lemma answer_counted:
  assumes a: "answer_to tid a" and s: "find_managed tid s = Some r" "is_local tid s" and p: "tk_pendRes (z_heap s r) \<noteq> 1"
  shows "frame r s (handle_here n log_send a s) \<and> z_log (handle_here n log_send a s) = z_log s
    \<and> tk_pendRes (z_heap (handle_here n log_send a s) r) = tk_pendRes (z_heap s r) - 1
    \<and> z_stuck (handle_here n log_send a s) = z_stuck s"
proof -
  obtain s1 where s1: "noted r s s1"
      "\<forall>s2. still_waits log_send (msg_RELEASE n log_send) r (dec r s1) = (True, s2) \<longrightarrow> handle_here n log_send a s = s2"
    using answer_waits [OF a s] by blast
  have "still_waits log_send (msg_RELEASE n log_send) r (dec r s1) = (True, dec r s1)"
    using s1(1) p by (simp add: still_waits_def noted_def)
  then have "handle_here n log_send a s = dec r s1" using s1(2) by blast
  then show ?thesis using s1(1) frame_trans [of r s s1 "dec r s1"] by (simp add: noted_def)
qed

text \<open>The last of them: the parent is asked.\<close>

lemma answer_last:
  assumes a: "answer_to tid a" and s: "find_managed tid s = Some r" "is_local tid s" and p: "tk_pendRes (z_heap s r) = 1"
    and par: "\<not> tk_parentReleased (z_heap s r)" "\<not> is_local (tk_ptid (z_heap s r)) s" "tk_relAnswer (z_heap s r)"
  shows "z_log (handle_here n log_send a s)
      = z_log s @ [ESend (MSig (release_msg (tk_tid (z_heap s r)) (tk_ptid (z_heap s r)) (-1) True))]
    \<and> tk_pendRes (z_heap (handle_here n log_send a s) r) = 1
    \<and> tk_parentReleased (z_heap (handle_here n log_send a s) r)
    \<and> tk_relAnswer (z_heap (handle_here n log_send a s) r)
    \<and> tk_removeIt (z_heap (handle_here n log_send a s) r) = tk_removeIt (z_heap s r)
    \<and> find_managed tid (handle_here n log_send a s) = Some r \<and> is_local tid (handle_here n log_send a s)
    \<and> z_stuck (handle_here n log_send a s) = z_stuck s"
proof -
  obtain s1 where s1: "noted r s s1"
      "\<forall>s2. still_waits log_send (msg_RELEASE n log_send) r (dec r s1) = (True, s2) \<longrightarrow> handle_here n log_send a s = s2"
    using answer_waits [OF a s] by blast
  let ?d = "dec r s1"
  have f: "frame r s ?d" using s1(1) frame_trans [of r s s1 ?d] by (simp add: noted_def)
  have d: "tk_pendRes (z_heap ?d r) = 0" "z_log ?d = z_log s" "z_stuck ?d = z_stuck s"
    using s1(1) p by (simp_all add: noted_def)
  have t: "tk_tid (z_heap ?d r) = tk_tid (z_heap s r)" "tk_ptid (z_heap ?d r) = tk_ptid (z_heap s r)"
      "tk_relAnswer (z_heap ?d r)" "\<not> tk_parentReleased (z_heap ?d r)" "tk_removeIt (z_heap ?d r) = tk_removeIt (z_heap s r)"
    using f par unfolding frame_def by simp_all
  have l: "\<not> is_local (tk_ptid (z_heap ?d r)) ?d" using par(2) t(2) frame_local [OF f] by simp
  let ?e = "upd r (\<lambda>t. t\<lparr>tk_parentReleased := True\<rparr>) (upd r (\<lambda>t. t\<lparr>tk_pendRes := tk_pendRes t + 1\<rparr>)
    (log_send (MSig (release_msg (tk_tid (z_heap s r)) (tk_ptid (z_heap s r)) (-1) True)) ?d))"
  have "deregisterFromParent log_send (msg_RELEASE n log_send) r ?d = (False, ?e)"
    using l t d by (simp add: deregisterFromParent_def Let_def log_send_def log_ev_def upd_def)
  then have "still_waits log_send (msg_RELEASE n log_send) r ?d = (True, ?e)"
    using d t by (simp add: still_waits_def)
  then have e: "handle_here n log_send a s = ?e" using s1(2) by blast
  have "find_managed tid ?e = find_managed tid ?d" "is_local tid ?e = is_local tid ?d"
    by (simp_all add: find_managed_upd) (simp_all add: find_managed_def PStasklist_find_def is_local_def upd_def log_send_def log_ev_def)
  then show ?thesis
    unfolding e using s frame_find [OF f] frame_local [OF f] d t
    by (simp add: upd_def log_send_def log_ev_def)
qed

text \<open>The answer of the parent is the answer for the task.\<close>

lemma releaseres_here:
  assumes "is_local (sg_dest m) s" "find_managed (sg_dest m) s = Some r"
    and "still_waits send rel r (dec r (if sg_param m \<noteq> 0 \<and> tk_pendErr (z_heap s r) = 0 \<and> sg_param m \<noteq> ESRCH
      then upd r (\<lambda>t. t\<lparr>tk_pendErr := sg_param m\<rparr>) s else s)) = (False, s3)"
  shows "msg_RELEASERES send rel m s =
    cleanup_if send r (if tk_relAnswer (z_heap s3 r)
      then send (MSig ((if tk_pendErr (z_heap s3 r) \<noteq> 0 then m\<lparr>sg_param := tk_pendErr (z_heap s3 r)\<rparr> else m)
        \<lparr>sg_dest := answer_dest r s3 (sg_dest (if tk_pendErr (z_heap s3 r) \<noteq> 0 then m\<lparr>sg_param := tk_pendErr (z_heap s3 r)\<rparr> else m))\<rparr>)) s3
      else s3)"
  using assms unfolding msg_RELEASERES_def dec_def Let_def by simp

lemma answer_final:
  assumes m: "sg_type m = PSP_CD_RELEASERES" "sg_dest m = tid" and s: "find_managed tid s = Some r" "is_local tid s"
    and p: "tk_pendRes (z_heap s r) = 1" "tk_parentReleased (z_heap s r)" "tk_relAnswer (z_heap s r)" "\<not> tk_removeIt (z_heap s r)"
  shows "\<exists>m'. z_log (handle_here n log_send (MSig m) s) = z_log s @ [ESend (MSig m')]
    \<and> sg_type m' = PSP_CD_RELEASERES \<and> sg_dest m' = answer_dest r s tid
    \<and> (sg_param m' = 0 \<longleftrightarrow> tk_pendErr (z_heap s r) = 0 \<and> sg_param m = 0)
    \<and> tk_pendRes (z_heap (handle_here n log_send (MSig m) s) r) = 0"
proof -
  define s1 where "s1 = (if sg_param m \<noteq> 0 \<and> tk_pendErr (z_heap s r) = 0 \<and> sg_param m \<noteq> ESRCH
    then upd r (\<lambda>t. t\<lparr>tk_pendErr := sg_param m\<rparr>) s else s)"
  define d where "d = dec r s1"
  have n1: "noted r s s1" by (simp add: s1_def)
  have f: "frame r s d" "z_log d = z_log s" "tk_pendRes (z_heap d r) = 0"
    using n1 p frame_trans [of r s s1 d] unfolding noted_def d_def by simp_all
  have t: "tk_relAnswer (z_heap d r)" "tk_parentReleased (z_heap d r)" "\<not> tk_removeIt (z_heap d r)"
    using f(1) p unfolding frame_def by simp_all
  have ad: "answer_dest r d x = answer_dest r s x" for x
    using f(1) unfolding frame_def answer_dest_def by (simp split: option.splits)
  have e: "tk_pendErr (z_heap d r) = tk_pendErr (z_heap s1 r)" by (simp add: d_def dec_def upd_def)
  have w: "still_waits log_send (msg_RELEASE n log_send) r d = (False, d)" using f(3) t by (simp add: still_waits_def)
  let ?m1 = "if tk_pendErr (z_heap d r) \<noteq> 0 then m\<lparr>sg_param := tk_pendErr (z_heap d r)\<rparr> else m"
  let ?m2 = "?m1\<lparr>sg_dest := answer_dest r s (sg_dest ?m1)\<rparr>"
  have h: "handle_here n log_send (MSig m) s = log_send (MSig ?m2) d"
  proof -
    have "handle_here n log_send (MSig m) s = msg_RELEASERES log_send (msg_RELEASE n log_send) m s"
      using m by (simp add: handle_here_def task_types)
    also have "\<dots> = cleanup_if log_send r (log_send (MSig ?m2) d)"
      using releaseres_here [of m s r log_send "msg_RELEASE n log_send" d] m(2) s w t(1)
      unfolding s1_def [symmetric] d_def [symmetric] by (simp only: if_True ad)
    also have "\<dots> = log_send (MSig ?m2) d" using t(3) by (simp add: cleanup_if_def log_send_def log_ev_def)
    finally show ?thesis .
  qed
  have "sg_param ?m2 = 0 \<longleftrightarrow> tk_pendErr (z_heap s r) = 0 \<and> sg_param m = 0"
    using e by (auto simp: s1_def upd_def)
  then show ?thesis using h f(2,3) m by (intro exI [of _ ?m2]) (simp add: log_send_def log_ev_def)
qed

lemma answers_counted:
  assumes "list_all (answer_to tid) as" "find_managed tid s = Some r" "is_local tid s" "int (length as) < tk_pendRes (z_heap s r)"
  shows "frame r s (fold (handle_here n log_send) as s) \<and> z_log (fold (handle_here n log_send) as s) = z_log s
    \<and> tk_pendRes (z_heap (fold (handle_here n log_send) as s) r) = tk_pendRes (z_heap s r) - int (length as)
    \<and> z_stuck (fold (handle_here n log_send) as s) = z_stuck s"
  using assms
proof (induction as arbitrary: s)
  case (Cons a as)
  let ?s1 = "handle_here n log_send a s"
  have h: "frame r s ?s1" "z_log ?s1 = z_log s" "tk_pendRes (z_heap ?s1 r) = tk_pendRes (z_heap s r) - 1" "z_stuck ?s1 = z_stuck s"
    using answer_counted [of tid a s r n] Cons.prems by auto
  show ?case
    using Cons.IH [of ?s1] Cons.prems h frame_find [OF h(1)] frame_local [OF h(1)] frame_trans [OF h(1)] by simp
qed simp

end
