(* ===== verification/Tsk_Props.thy ===== *)
theory Tsk_Props
  imports Tsk_Answer
begin

text \<open>
  Properties of the tasks of a daemon: the release of a task, the passing of its children to its
  parent, and who may signal whom.
\<close>

section \<open>Release\<close>

lemma release_own:
  assumes "find_managed (sg_dest m) s = Some r" "is_local (sg_dest m) s" "sg_sender m = sg_dest m"
    and "\<not> tk_released (z_heap s r)"
    and "releaseTask n send r (upd r (\<lambda>t. t\<lparr>tk_relAnswer := sg_answer m\<rparr>) s) = (e, s2)" "tk_pendRes (z_heap s2 r) \<noteq> 0"
  shows "msg_RELEASE (Suc n) send m s = s2"
  using assms by (simp add: msg_RELEASE_step_def)

lemma release_messages:
  assumes m: "sg_sender m = sg_dest m" "sg_answer m"
    and s: "find_managed (sg_dest m) s = Some r" "is_local (sg_dest m) s"
    and t: "\<not> tk_released (z_heap s r)" "tk_pendRes (z_heap s r) = 0"
    and n: "fst (fit_sentToNode s)" "length (childList (z_heap s r)) < n" "length (assignedSigs (z_heap s r)) < n"
    and p: "tk_pendRes (z_heap (snd (releaseTask n log_send r (upd r (\<lambda>t. t\<lparr>tk_relAnswer := True\<rparr>) s))) r) \<noteq> 0"
  shows "\<exists>ms. counts r (upd r (\<lambda>t. t\<lparr>tk_relAnswer := True\<rparr>) s) (msg_RELEASE (Suc n) log_send m s) ms"
proof -
  let ?s = "upd r (\<lambda>t. t\<lparr>tk_relAnswer := True\<rparr>) s"
  have fit: "fst (fit_sentToNode ?s)"
    using n(1) by (simp add: fit_sentToNode_def PSsignal_get_def upd_def Let_def
        split: option.splits list.splits if_splits bool.splits)
  obtain e s2 where r: "releaseTask n log_send r ?s = (e, s2)" by force
  have "\<exists>ms. counts r ?s (snd (releaseTask n log_send r ?s)) ms"
    by (rule releaseTask_counts [OF fit]) (use n in \<open>simp_all add: upd_def\<close>)
  moreover have "msg_RELEASE (Suc n) log_send m s = s2"
    by (rule release_own [OF s m(1) t(1)]) (use r m p in simp_all)
  ultimately show ?thesis using r by simp
qed

text \<open>
  C8: A task asks for its own release and its parent is on another node.  Its daemon then sends some
  messages, counts as many answers as it sent messages, sends nothing while answers are missing, asks
  the parent when the last one has come, and passes the answer of the parent to the task or its
  forwarder, exactly once; the counter is 0 then.  The result is an error if one was collected before
  or the parent reports one.
\<close>

theorem release_answered_once:
  assumes task: "find_managed tid s = Some r" "is_local tid s" "\<not> tk_released (z_heap s r)"
      "tk_pendRes (z_heap s r) = 0" "\<not> tk_parentReleased (z_heap s r)" "\<not> tk_removeIt (z_heap s r)"
      "\<not> is_local (tk_ptid (z_heap s r)) s"
    and mem: "fst (fit_sentToNode s)"
    and fuel: "length (childList (z_heap s r)) < n" "length (assignedSigs (z_heap s r)) < n"
    and req: "sg_dest m = tid" "sg_sender m = tid" "sg_answer m"
    and wait: "tk_pendRes (z_heap (snd (releaseTask n log_send r (upd r (\<lambda>t. t\<lparr>tk_relAnswer := True\<rparr>) s))) r) \<noteq> 0"
    and ans: "list_all (answer_to tid) as"
      "int (length as) = tk_pendRes (z_heap (msg_RELEASE (Suc n) log_send m s) r)"
    and fin: "sg_type f = PSP_CD_RELEASERES" "sg_dest f = tid"
  shows "let s1 = msg_RELEASE (Suc n) log_send m s;
             s2 = fold (handle_here k log_send) as s1;
             s3 = handle_here k log_send (MSig f) s2;
             q = ESend (MSig (release_msg (tk_tid (z_heap s r)) (tk_ptid (z_heap s r)) (-1) True))
         in (\<exists>ms. z_log s1 = z_log s @ map ESend ms \<and> length ms = length as)
          \<and> (\<forall>i < length as. z_log (fold (handle_here k log_send) (take i as) s1) = z_log s1)
          \<and> z_log s2 = z_log s1 @ [q]
          \<and> (\<exists>a. z_log s3 = z_log s2 @ [ESend (MSig a)] \<and> sg_type a = PSP_CD_RELEASERES
                \<and> sg_dest a = answer_dest r s2 tid
                \<and> (sg_param a = 0 \<longleftrightarrow> tk_pendErr (z_heap s2 r) = 0 \<and> sg_param f = 0))
          \<and> tk_pendRes (z_heap s3 r) = 0"
proof -
  let ?s0 = "upd r (\<lambda>t. t\<lparr>tk_relAnswer := True\<rparr>) s"
  let ?s1 = "msg_RELEASE (Suc n) log_send m s"
  obtain ms where ms: "counts r ?s0 ?s1 ms"
    using release_messages [of m s r n] task mem fuel req wait by auto
  have s0: "find_managed tid ?s0 = Some r" "is_local tid ?s0" "tk_pendRes (z_heap ?s0 r) = 0" "z_log ?s0 = z_log s"
      "\<not> is_local (tk_ptid (z_heap s r)) ?s0"
    using task by (simp_all add: find_managed_upd is_local_def) (simp_all add: upd_def)
  have fr: "frame r ?s0 ?s1" and len: "length as = length ms" and lg: "z_log ?s1 = z_log s @ map ESend ms"
    using ms s0 ans(2) by (simp_all add: counts_def)
  have s1: "find_managed tid ?s1 = Some r" "is_local tid ?s1" "\<not> is_local (tk_ptid (z_heap s r)) ?s1"
    using s0 frame_find [OF fr] frame_local [OF fr] by simp_all
  have t1: "tk_tid (z_heap ?s1 r) = tk_tid (z_heap s r)" "tk_ptid (z_heap ?s1 r) = tk_ptid (z_heap s r)"
      "tk_relAnswer (z_heap ?s1 r)" "\<not> tk_parentReleased (z_heap ?s1 r)" "\<not> tk_removeIt (z_heap ?s1 r)"
    using fr task unfolding frame_def by (simp_all add: upd_def)
  have p1: "tk_pendRes (z_heap ?s1 r) = int (length as)" using ans(2) by simp
  have ne: "as \<noteq> []"
  proof
    assume "as = []"
    then have "tk_pendRes (z_heap ?s1 r) = 0" using p1 by simp
    moreover have "?s1 = snd (releaseTask n log_send r ?s0)"
      using release_own [of m s r n log_send _ "snd (releaseTask n log_send r ?s0)"] task req wait
      by (metis prod.collapse)
    ultimately show False using wait by simp
  qed
  then obtain bs b where as: "as = bs @ [b]" by (metis rev_exhaust)
  have lb: "list_all (answer_to tid) bs" "answer_to tid b" using ans(1) as by simp_all
  let ?sb = "fold (handle_here k log_send) bs ?s1"
  have quiet: "z_log (fold (handle_here k log_send) (take i as) ?s1) = z_log ?s1" if "i < length as" for i
  proof -
    have "list_all (answer_to tid) (take i as)" using ans(1) by (simp add: list_all_length)
    then show ?thesis using answers_counted [of tid "take i as" ?s1 r k] s1 p1 that by simp
  qed
  have b: "frame r ?s1 ?sb" "z_log ?sb = z_log ?s1" "tk_pendRes (z_heap ?sb r) = 1"
    using answers_counted [OF lb(1) s1(1,2), of k] p1 as by simp_all
  have sb: "find_managed tid ?sb = Some r" "is_local tid ?sb" "\<not> is_local (tk_ptid (z_heap ?sb r)) ?sb"
      "tk_tid (z_heap ?sb r) = tk_tid (z_heap s r)" "tk_ptid (z_heap ?sb r) = tk_ptid (z_heap s r)"
      "tk_relAnswer (z_heap ?sb r)" "\<not> tk_parentReleased (z_heap ?sb r)" "\<not> tk_removeIt (z_heap ?sb r)"
    using frame_find [OF b(1)] frame_local [OF b(1)] s1 t1 b(1) unfolding frame_def by simp_all
  let ?s2 = "handle_here k log_send b ?sb"
  note last = answer_last [OF lb(2) sb(1,2) b(3) sb(7,3,6), of k]
  have s2: "fold (handle_here k log_send) as ?s1 = ?s2" using as by simp
  have "\<exists>a. z_log (handle_here k log_send (MSig f) ?s2) = z_log ?s2 @ [ESend (MSig a)]
    \<and> sg_type a = PSP_CD_RELEASERES \<and> sg_dest a = answer_dest r ?s2 tid
    \<and> (sg_param a = 0 \<longleftrightarrow> tk_pendErr (z_heap ?s2 r) = 0 \<and> sg_param f = 0)
    \<and> tk_pendRes (z_heap (handle_here k log_send (MSig f) ?s2) r) = 0"
    by (rule answer_final [OF fin]) (use last sb(8) in simp_all)
  then show ?thesis
    unfolding Let_def s2 using lg len quiet last b(2) sb(4,5) by auto
qed

definition blank_task :: "taskid \<Rightarrow> taskid \<Rightarrow> ptask" where
  "blank_task tid ptid =
     \<lparr>tk_tid = tid, tk_ptid = ptid, tk_uid = 1000, tk_group = TG_ANY, tk_forwarder = None, tk_fd = 5, tk_logger = 0,
       tk_relsig = SIGTERM, tk_pendRes = 0, tk_pendErr = 0, tk_relAnswer = False, tk_released = False,
       tk_parentReleased = False, tk_duplicate = False, tk_suspended = False, tk_removeIt = False,
       tk_deleted = False, tk_obsolete = False, tk_noParricide = False, tk_killat = 0, tk_request = False,
       tk_partition = False, tk_partSize = 0, tk_resv = False, tk_delegate = False, tk_sigChldCB = False,
       childList = [], releasedBefore = [], deadBefore = [], signalSender = [], signalReceiver = [],
       assignedSigs = [], keptChildren = []\<rparr>"

text \<open>Node 1 of four; the tasks are given with their addresses in the order of the list.\<close>

definition node1 :: "ptask list \<Rightarrow> tstate" where
  "node1 ts = \<lparr>z_myID = 1, z_nodes = 4, z_up = (\<lambda>n. True), z_heap = (\<lambda>i. if i < length ts then ts ! i else blank_task 0 0),
     z_managed = [0..<length ts], z_obsolete = [], z_mem = [], z_kill = [], z_fwd = [], z_now = 0, z_killDelay = 0,
     z_sTN = None, z_log = [], z_stuck = False\<rparr>"

text \<open>Task 7 of node 1 has a parent and a sender of a signal on node 2 and a child on node 3.\<close>

definition ex_release :: tstate where
  "ex_release = node1 [(blank_task 0x100000007 0x200000005)\<lparr>childList := [(0x300000009, -1)], assignedSigs := [(0x200000006, 15)]\<rparr>]"


definition ex_answer :: "taskid \<Rightarrow> sigmsg" where
  "ex_answer sndr = (release_msg sndr 0x100000007 (-1) True)\<lparr>sg_type := PSP_CD_RELEASERES\<rparr>"

definition ex_answers :: "smsg list" where
  "ex_answers = [MBuf (empty_msg PSP_DD_INHERITFAILED 0x300000009 0x100000007 24), MSig (ex_answer 0x200000006)]"

theorem release_answered_once_witness:
  "let s1 = msg_RELEASE 6 log_send (release_msg 0x100000007 0x100000007 (-1) True) ex_release;
       s2 = fold (handle_here 6 log_send) ex_answers s1;
       s3 = handle_here 6 log_send (MSig (ex_answer 0x200000005)) s2
   in length (z_log s1) = 2 \<and> tk_pendRes (z_heap s3 0) = 0"
proof -
  have h: "find_managed 0x100000007 ex_release = Some 0" "is_local 0x100000007 ex_release"
      "\<not> tk_released (z_heap ex_release 0)" "tk_pendRes (z_heap ex_release 0) = 0"
      "\<not> tk_parentReleased (z_heap ex_release 0)" "\<not> tk_removeIt (z_heap ex_release 0)"
      "\<not> is_local (tk_ptid (z_heap ex_release 0)) ex_release" "fst (fit_sentToNode ex_release)"
      "length (childList (z_heap ex_release 0)) < 5" "length (assignedSigs (z_heap ex_release 0)) < 5"
    by code_simp+
  have w: "tk_pendRes (z_heap (snd (releaseTask 5 log_send 0 (upd 0 (\<lambda>t. t\<lparr>tk_relAnswer := True\<rparr>) ex_release))) 0) \<noteq> 0"
      "int (length ex_answers) = tk_pendRes (z_heap (msg_RELEASE (Suc 5) log_send (release_msg 0x100000007 0x100000007 (-1) True) ex_release) 0)"
    by code_simp+
  have a: "list_all (answer_to 0x100000007) ex_answers"
    by (simp add: ex_answers_def answer_to_def empty_msg_def ex_answer_def release_msg_def)
  have l: "z_log ex_release = []" by (simp add: ex_release_def node1_def)
  show ?thesis
    using release_answered_once [OF h _ _ _ w(1) a w(2), of "ex_answer 0x200000005" 6] l
    by (auto simp: Let_def release_msg_def ex_answer_def ex_answers_def)
qed

end
