(* ===== verification/Tsk_Orphans.thy ===== *)
theory Tsk_Orphans
  imports Tsk_Props
begin

text \<open>
  What a signal leaves alone, and the tasks whose new parent is gone: \<open>msg_ADOPTFAILED\<close> reads the
  message that \<open>msg_NEWANCESTOR\<close> wrote in another format.
\<close>

section \<open>Passing the children on\<close>

text \<open>
  C11: The messages with which the node of the children reports them reach the grandparent: handled in
  their order on its node they add exactly the children that were passed on, in the order of the list of
  tasks, to its list of children, and cause one answer to the task that is released, which names the
  child that this task kept.  No message is longer than a message may be, and on their own node all
  these children have the grandparent as their parent.
\<close>

theorem children_reach_grandparent:
  assumes up: "z_up s (PSC_getID (z_myID s) (er_request m))"
    and s: "distinct (z_managed s)" "fw_groups s"
    and g: "find_managed (er_request m) g = Some r" "z_up g (PSC_getID (z_myID g) (er_dest m))" "z_mem g = []"
      "undead r (map (\<lambda>q. tk_tid (z_heap s q)) (filter (\<lambda>q. inherits (er_sender m) (z_heap s q)) (z_managed s))) g"
  shows "\<exists>ms. z_log (msg_NEWANCESTOR log_send m s) = z_log s @ log_bufs ms
    \<and> (\<forall>a \<in> set ms. m_type a = PSP_DD_ADOPTCHILDSET \<and> m_dest a = er_request m \<and> m_len a \<le> 1456)
    \<and> (let g' = fold (msg_ADOPTCHILDSET log_send) ms g in
        childList (z_heap g' r) = childList (z_heap g r)
          @ map (\<lambda>q. (tk_tid (z_heap s q), -1)) (filter (\<lambda>q. inherits (er_sender m) (z_heap s q)) (z_managed s))
        \<and> (\<exists>d. z_log g' = z_log g @ [ESend (MBuf d)] \<and> m_type d = PSP_DD_INHERITDONE \<and> m_dest d = er_sender m
              \<and> take 8 (content d) = tid_bytes (er_dest m)))
    \<and> (\<forall>q \<in> set (z_managed s). inherits (er_sender m) (z_heap s q)
          \<longrightarrow> tk_ptid (z_heap (msg_NEWANCESTOR log_send m s) q) = er_request m)"
proof -
  let ?h = "empty_msg PSP_DD_ADOPTCHILDSET (er_dest m) (er_request m) 24"
  obtain tss tz ms ml where n: "z_log (msg_NEWANCESTOR log_send m s) = z_log s @ log_bufs (ms @ [ml])"
      "adopts ?h (er_sender m) tss ms" "holds ?h (kids (er_sender m) tz @ tid_bytes 0) ml"
      "concat tss @ tz = map (\<lambda>q. tk_tid (z_heap s q)) (filter (\<lambda>q. inherits (er_sender m) (z_heap s q)) (z_managed s))"
      "\<forall>q \<in> set (z_managed s). inherits (er_sender m) (z_heap s q)
         \<longrightarrow> tk_ptid (z_heap (msg_NEWANCESTOR log_send m s) q) = er_request m"
    using newancestor_messages [OF up s] by blast
  have hd: "m_dest ?h = er_request m" "m_sender ?h = er_dest m" "m_type ?h = PSP_DD_ADOPTCHILDSET"
    by (simp_all add: empty_msg_def)
  obtain g' d where g': "fold (msg_ADOPTCHILDSET log_send) (ms @ [ml]) g = log_send (MBuf d) g'"
      "grown r (concat tss @ tz) g g'" "done_msg ?h (er_sender m) (length tz) d"
    using adopt_run [OF n(2,3), of g r] g n(4) hd by auto
  have "holds ?h c a \<Longrightarrow> m_type a = PSP_DD_ADOPTCHILDSET \<and> m_dest a = er_request m \<and> m_len a \<le> 1456" for c a
    using hd by (simp add: holds_def msg_ok_def)
  then have "\<forall>a \<in> set (ms @ [ml]). m_type a = PSP_DD_ADOPTCHILDSET \<and> m_dest a = er_request m \<and> m_len a \<le> 1456"
    using n(2,3) unfolding adopts_def list_all2_conv_all_nth
    by (metis (no_types, lifting) Un_iff empty_iff empty_set in_set_conv_nth insert_iff list.simps(15) set_append)
  moreover have "m_type d = PSP_DD_INHERITDONE \<and> m_dest d = er_sender m \<and> take 8 (content d) = tid_bytes (er_dest m)"
    using g'(3) hd by (simp add: done_msg_def holds_def empty_msg_def)
  moreover have "map (\<lambda>t. (t, -1)) (concat tss @ tz)
      = map (\<lambda>q. (tk_tid (z_heap s q), -1)) (filter (\<lambda>q. inherits (er_sender m) (z_heap s q)) (z_managed s))"
    unfolding n(4) by simp
  ultimately show ?thesis
    using n(1,5) g' by (intro exI [of _ "ms @ [ml]"]) (simp add: Let_def grown_def log_send_def log_ev_def)
qed

text \<open>Tasks 8 and 9 of node 1 are children of task 5 of node 2, whose parent is task 7 of node 1.\<close>

definition ex_children :: tstate where
  "ex_children = node1 [blank_task 0x100000007 0, blank_task 0x100000008 0x200000005,
     blank_task 0x100000009 0x200000005, (blank_task 0x10000000a 0x200000005)\<lparr>tk_released := True\<rparr>]"

definition ex_ancestor :: errmsg where
  "ex_ancestor = \<lparr>er_type = PSP_DD_NEWANCESTOR, er_sender = 0x200000005, er_dest = 0x100000008, er_error = 0,
     er_request = 0x100000007\<rparr>"

theorem children_reach_grandparent_witness:
  "\<exists>ms. z_log (msg_NEWANCESTOR log_send ex_ancestor ex_children) = log_bufs ms
    \<and> childList (z_heap (fold (msg_ADOPTCHILDSET log_send) ms ex_children) 0) = [(0x100000008, -1), (0x100000009, -1)]"
proof -
  have h: "z_up ex_children (PSC_getID (z_myID ex_children) (er_request ex_ancestor))" "distinct (z_managed ex_children)"
      "find_managed (er_request ex_ancestor) ex_children = Some 0"
      "z_up ex_children (PSC_getID (z_myID ex_children) (er_dest ex_ancestor))" "z_mem ex_children = []"
    by code_simp+
  have k: "map (\<lambda>q. tk_tid (z_heap ex_children q))
      (filter (\<lambda>q. inherits (er_sender ex_ancestor) (z_heap ex_children q)) (z_managed ex_children)) = [0x100000008, 0x100000009]"
    by code_simp
  have k': "map (\<lambda>q. (tk_tid (z_heap ex_children q), -1::int))
      (filter (\<lambda>q. inherits (er_sender ex_ancestor) (z_heap ex_children q)) (z_managed ex_children))
      = [(0x100000008, -1), (0x100000009, -1)]"
    by code_simp
  have l: "z_log ex_children = []" "childList (z_heap ex_children 0) = []" "deadBefore (z_heap ex_children 0) = []"
    by code_simp+
  have fw: "fw_groups ex_children"
    unfolding fw_groups_def by (auto simp: ex_children_def node1_def blank_task_def nth_Cons split: nat.splits)
  have u: "undead 0 (map (\<lambda>q. tk_tid (z_heap ex_children q))
      (filter (\<lambda>q. inherits (er_sender ex_ancestor) (z_heap ex_children q)) (z_managed ex_children))) ex_children"
    unfolding k by (simp add: undead_def l)
  show ?thesis
    using children_reach_grandparent [OF h(1,2) fw h(3-5) u] unfolding k' l by (auto simp: Let_def)
qed

section \<open>What a signal leaves alone\<close>

definition aside :: "nat option \<Rightarrow> tstate \<Rightarrow> tstate \<Rightarrow> bool" where
  "aside x s s' \<longleftrightarrow> z_managed s' = z_managed s \<and> z_myID s' = z_myID s \<and> z_up s' = z_up s
     \<and> (\<forall>q. x \<noteq> Some q \<longrightarrow> z_heap s' q = z_heap s q)
     \<and> (\<forall>q. tk_tid (z_heap s' q) = tk_tid (z_heap s q) \<and> tk_deleted (z_heap s' q) = tk_deleted (z_heap s q)
          \<and> tk_forwarder (z_heap s' q) = tk_forwarder (z_heap s q) \<and> tk_ptid (z_heap s' q) = tk_ptid (z_heap s q))"

lemma aside_refl [simp]: "aside x s s" by (simp add: aside_def)

lemma aside_trans: "aside x s s' \<Longrightarrow> aside x s' s'' \<Longrightarrow> aside x s s''" by (simp add: aside_def)

lemma aside_log [simp]: "aside x s (log_ev e s1) \<longleftrightarrow> aside x s s1" by (simp add: aside_def log_ev_def)

lemma aside_find: "aside x s s' \<Longrightarrow> find_managed t s' = find_managed t s"
  by (simp add: aside_def find_managed_def PStasklist_find_def)

text \<open>Sending a signal to a process only uses up scripts and writes the log.\<close>

definition quiet :: "tstate \<Rightarrow> tstate" where
  "quiet s = s\<lparr>z_log := [], z_fwd := [], z_kill := []\<rparr>"

lemma quiet_simps [simp]:
  "quiet (log_ev e s) = quiet s" "quiet (s\<lparr>z_fwd := b\<rparr>) = quiet s" "quiet (s\<lparr>z_kill := k\<rparr>) = quiet s"
  by (simp_all add: quiet_def log_ev_def)

lemma quiet_aside: "quiet s' = quiet s \<Longrightarrow> aside x s s'"
  by (cases s; cases s') (simp add: quiet_def aside_def)

lemma pskill_quiet [simp]: "quiet (snd (pskill p g u s)) = quiet s"
  by (auto simp: pskill_def Let_def split: list.splits)

lemma kill_quiet [simp]: "quiet (snd (PSID_kill p g u s)) = quiet s"
  unfolding PSID_kill_def Let_def by (auto split: option.splits list.splits)

lemma kill_aside: "aside x s (snd (PSID_kill p g u s))"
  by (rule quiet_aside) simp

lemma aside_upd [simp]:
  "aside (Some r) s (upd r (\<lambda>t. t\<lparr>tk_killat := k\<rparr>) s)"
  "aside (Some r) s (upd r (\<lambda>t. t\<lparr>assignedSigs := f t\<rparr>) s)"
  "aside (Some r) s (PSID_setSignal signalSender_update r c g s)"
  using set_signal_shape [of signalSender_update r c g s] by (auto simp: aside_def upd_def split: if_splits)

lemma relative_aside: "aside (Some r) s (snd (relative_signal r g s))"
  by (simp add: relative_signal_def Let_def)

lemma deliver_aside: "aside (Some r) s (snd (deliver r tid u sender g s))"
proof -
  obtain sig s1 where 1: "relative_signal r g s = (sig, s1)" by force
  let ?s2 = "upd r (\<lambda>t. t\<lparr>assignedSigs := snd (PSID_removeSignal (assignedSigs t) sender g)\<rparr>) s1"
  obtain e s3 where 3: "PSID_kill (sint (PSC_getPID tid)) sig u ?s2 = (e, s3)" by force
  have "aside (Some r) s s1" using relative_aside [of r s g] 1 by simp
  moreover have "aside (Some r) s1 ?s2" by simp
  moreover have "aside (Some r) ?s2 s3" using kill_aside [of "Some r" ?s2 "sint (PSC_getPID tid)" sig u] 3 by simp
  ultimately have s3: "aside (Some r) s s3" by (blast intro: aside_trans)
  have "deliver r tid u sender g s
      = (if e \<noteq> 0 then (-1, s3) else (0, PSID_setSignal signalSender_update r sender sig s3))"
    using 1 3 by (simp add: deliver_def)
  then show ?thesis using s3 aside_trans [OF s3] by simp
qed

lemma sendSignal1_aside:
  "aside (find_managed tid s) s (sendSignal1 log_send tid u sender g ans s)"
proof -
  have a: "aside x s s1 \<Longrightarrow> aside x s (answer_if log_send b c s1)" for x s1 b c
    using aside_trans [of x s s1] by (simp add: answer_if_def log_send_def)
  show ?thesis
  proof (cases "is_local tid s \<and> find_managed tid s \<noteq> None")
    case True
    then obtain r where r: "find_managed tid s = Some r" "is_local tid s" by auto
    obtain e s1 where d: "deliver r tid u sender g s = (e, s1)" by force
    have "aside (Some r) s s1" using deliver_aside [of r s tid u sender g] d by simp
    then show ?thesis using r a d by (simp add: sendSignal1_def)
  next
    case False
    then show ?thesis using a by (auto simp: sendSignal1_def log_send_def)
  qed
qed

section \<open>Orphans\<close>

lemma take_le_bytes: "k \<le> j \<Longrightarrow> take k (le_bytes j n) = le_bytes k n"
proof (induction k arbitrary: j n)
  case (Suc k)
  then obtain j' where "j = Suc j'" "k \<le> j'" by (metis Suc_le_D Suc_le_mono)
  then show ?case using Suc.IH by simp
qed simp

lemma drop_le_bytes: "k \<le> j \<Longrightarrow> drop k (le_bytes j n) = le_bytes (j - k) (n div 256 ^ k)"
proof (induction k arbitrary: j n)
  case (Suc k)
  then obtain j' where "j = Suc j'" "k \<le> j'" by (metis Suc_le_D Suc_le_mono)
  then show ?case using Suc.IH by (simp add: div_mult2_eq)
qed simp

text \<open>Eight bytes that begin one byte before an identifier.\<close>

lemma shifted_tid:
  assumes "unat t < 2 ^ 56"
  shows "bytes_tid (0 # take 7 (tid_bytes t)) = 256 * t" "drop 7 (tid_bytes t) = [0]"
proof -
  have e: "(2::nat) ^ 56 = 256 ^ 7" by simp
  have lt: "unat t < 256 ^ 7" using assms unfolding e .
  have "take 7 (tid_bytes t) = le_bytes 7 (unat t)" by (simp add: tid_bytes_def take_le_bytes)
  then have n: "le_nat (take 7 (tid_bytes t)) = unat t" using le_nat_bytes_id [OF lt] by metis
  have "of_nat (le_nat (0 # take 7 (tid_bytes t))) = (256 * t :: taskid)"
    unfolding le_nat.simps n by simp
  then show "bytes_tid (0 # take 7 (tid_bytes t)) = 256 * t" unfolding bytes_tid_def .
  have "drop 7 (tid_bytes t) = le_bytes (8 - 7) (unat t div 256 ^ 7)"
    unfolding tid_bytes_def by (rule drop_le_bytes) simp
  also have "\<dots> = le_bytes (Suc 0) 0" unfolding div_less [OF lt] by simp
  also have "\<dots> = [0]" by simp
  finally show "drop 7 (tid_bytes t) = [0]" .
qed

lemma le_bytes_0: "le_bytes k 0 = replicate k 0"
  by (induction k) simp_all

lemma tid_bytes_0: "tid_bytes 0 = [0, 0, 0, 0, 0, 0, 0, 0]"
  by (simp add: tid_bytes_def le_bytes_0 numeral_eq_Suc)

text \<open>The three reads of the loop after the parent, for a message with two children.\<close>

lemma orphan_reads:
  assumes m: "holds h (kids p [t1, t2] @ tid_bytes 0) m" and t: "unat t2 < 2 ^ 56"
  shows "PSP_getMsgBuf 8 m 0 = (Some (tid_bytes p), 8)" "PSP_getMsgBuf 8 m 8 = (Some (tid_bytes t1), 16)"
    "PSP_getMsgBuf 8 m 16 = (Some (0 # take 7 (tid_bytes t2)), 24)" "PSP_getMsgBuf 8 m 24 = (Some (tid_bytes 0), 32)"
proof -
  have ok: "msg_ok m" and len: "m_len m = 24 + 34"
    using m holds_len [OF m] by (simp_all add: holds_def kids_def)
  have s: "tid_bytes t2 = take 7 (tid_bytes t2) @ [0]"
    using shifted_tid(2) [OF t] by (metis append_take_drop_id)
  have c: "content m = tid_bytes p @ tid_bytes t1 @ (0 # take 7 (tid_bytes t2)) @ tid_bytes 0 @ [0, 0]"
  proof -
    have "content m = tid_bytes p @ tid_bytes t1 @ [0] @ tid_bytes t2 @ [0] @ tid_bytes 0"
      using m by (simp add: holds_def kids_def child_bytes_def)
    also have "\<dots> = tid_bytes p @ tid_bytes t1 @ [0] @ (take 7 (tid_bytes t2) @ [0]) @ [0] @ tid_bytes 0"
      using s by simp
    finally show ?thesis by (simp add: tid_bytes_0)
  qed
  show "PSP_getMsgBuf 8 m 0 = (Some (tid_bytes p), 8)" "PSP_getMsgBuf 8 m 8 = (Some (tid_bytes t1), 16)"
    "PSP_getMsgBuf 8 m 16 = (Some (0 # take 7 (tid_bytes t2)), 24)" "PSP_getMsgBuf 8 m 24 = (Some (tid_bytes 0), 32)"
    using get_untyped [OF ok] len by (simp_all add: c)
qed

text \<open>
  C32: Two children whose new parent is gone: only the first of them gets a signal and its old parent
  back.  The reader does not know the byte that follows each identifier, so that it takes 256 times the
  second identifier for the next one and, unless such a task exists, finds no task and then the end;
  the second child keeps the parent that is gone, and still the releasing task is told that all is done.
\<close>

theorem second_orphan_missed:
  assumes m: "holds h (kids p [t1, t2] @ tid_bytes 0) m"
    and t: "t1 \<noteq> 0" "256 * t2 \<noteq> 0" "unat t2 < 2 ^ 56"
    and f: "find_managed t1 s = Some r1" "tk_tid (z_heap s r1) = t1" "find_managed (256 * t2) s = None"
    and r2: "find_managed t2 s = Some r2" "r2 \<noteq> r1" "tk_forwarder (z_heap s r1) = None"
  shows "let s' = msg_ADOPTFAILED log_send m s in
      tk_ptid (z_heap s' r1) = p \<and> z_heap s' r2 = z_heap s r2
      \<and> z_log s' = z_log (sendSignal1 log_send t1 (tk_uid (z_heap s r1)) p (-1) False (upd r1 (\<lambda>t. t\<lparr>tk_ptid := p\<rparr>) s))
          @ [ESend (MBuf (empty_msg PSP_DD_INHERITFAILED (m_dest m) p 24))]"
proof -
  note rd = orphan_reads [OF m t(3)]
  have "m_len m = 58" using holds_len [OF m] by (simp add: kids_def)
  then obtain k where len: "m_len m = Suc (Suc (Suc k))" using that [of 55] by simp
  let ?s1 = "upd r1 (\<lambda>t. t\<lparr>tk_ptid := p\<rparr>) s"
  let ?s2 = "sendSignal1 log_send t1 (tk_uid (z_heap s r1)) p (-1) False ?s1"
  let ?e = "empty_msg PSP_DD_INHERITFAILED (m_dest m) p 24"
  have a: "aside (Some r1) ?s1 ?s2"
    using sendSignal1_aside [of t1 ?s1 "tk_uid (z_heap s r1)" p "-1" False] f(1) by (simp add: find_managed_upd)
  have fw: "tk_forwarder (z_heap ?s2 r1) = None" using a r2(3) by (simp add: aside_def upd_def)
  have n: "find_managed (256 * t2) ?s2 = None" using aside_find [OF a] f(3) by (simp add: find_managed_upd)
  have u: "tk_tid (z_heap ?s1 r1) = t1" "tk_uid (z_heap ?s1 r1) = tk_uid (z_heap s r1)"
    using f(2) by (simp_all add: upd_def)
  have "msg_ADOPTFAILED log_send m s = orphan_loop (Suc (Suc (Suc k))) log_send p m 8 s"
    using rd(1) len by (simp add: msg_ADOPTFAILED_def)
  also have "\<dots> = orphan_loop (Suc (Suc k)) log_send p m 16 ?s2"
    using rd(2) t(1) f(1) u fw by (simp add: Let_def del: orphan_loop.simps add: orphan_loop.simps(2) [of "Suc (Suc k)"])
  also have "\<dots> = orphan_loop (Suc k) log_send p m 24 ?s2"
    using rd(3) shifted_tid(1) [OF t(3)] t(2) n by (simp del: orphan_loop.simps add: orphan_loop.simps(2) [of "Suc k"])
  also have "\<dots> = log_send (MBuf ?e) ?s2"
    using rd(4) by (simp add: DDBufferMsgOffset_def)
  finally have e: "msg_ADOPTFAILED log_send m s = log_send (MBuf ?e) ?s2" .
  show ?thesis
    unfolding e Let_def using a r2(2) by (simp add: log_send_def log_ev_def aside_def upd_def)
qed

definition ex_orphans :: ddmsg where
  "ex_orphans = (empty_msg PSP_DD_ADOPTFAILED 0x300000007 0x100000008 58)
     \<lparr>m_buf := put_bytes 0 (kids 0x200000005 [0x100000008, 0x100000009] @ tid_bytes 0) (\<lambda>_. 0)\<rparr>"

theorem second_orphan_missed_witness:
  "tk_ptid (z_heap (msg_ADOPTFAILED log_send ex_orphans (node1 [blank_task 0x100000008 0x300000007, blank_task 0x100000009 0x300000007])) 1)
    = 0x300000007"
proof -
  let ?s = "node1 [blank_task 0x100000008 0x300000007, blank_task 0x100000009 0x300000007]"
  let ?b = "kids 0x200000005 [0x100000008, 0x100000009] @ tid_bytes 0"
  have "length ?b = 34" by (simp add: kids_def)
  then have "get_bytes 0 34 (put_bytes 0 ?b (\<lambda>_. 0)) = ?b" by (metis get_put_same)
  then have m: "holds ex_orphans (kids 0x200000005 [0x100000008, 0x100000009] @ tid_bytes 0) ex_orphans"
    by (simp add: holds_def msg_ok_def content_def ex_orphans_def empty_msg_def)
  have f: "find_managed 0x100000008 ?s = Some 0" "tk_tid (z_heap ?s 0) = 0x100000008" "find_managed (256 * 0x100000009) ?s = None"
      "find_managed 0x100000009 ?s = Some 1" "tk_forwarder (z_heap ?s 0) = None" "z_heap ?s 1 = blank_task 0x100000009 0x300000007"
    by code_simp+
  have t: "(0x100000008::taskid) \<noteq> 0" "256 * (0x100000009::taskid) \<noteq> 0" "unat (0x100000009::taskid) < 2 ^ 56" by simp_all
  show ?thesis
    using second_orphan_missed [OF m t f(1-4) _ f(5)] f(6) by (simp add: Let_def blank_task_def)
qed

end
