(* ===== verification/Tsk_Auth.thy ===== *)
theory Tsk_Auth
  imports Tsk_Props
begin

text \<open>Whom a client may signal: every process that gets a signal belongs to the user of the client.\<close>

section \<open>Events that a user may cause\<close>

definition owner_ok :: "int \<Rightarrow> int \<Rightarrow> tstate \<Rightarrow> bool" where
  "owner_ok u pid s \<longleftrightarrow>
     (\<exists>r. find_managed (PSC_getTID (z_myID s) (-1) (word_of_int \<bar>pid\<bar>)) s = Some r \<and> (u = 0 \<or> tk_uid (z_heap s r) = u))"

definition event_ok :: "int \<Rightarrow> tstate \<Rightarrow> tevent \<Rightarrow> bool" where
  "event_ok u s e \<longleftrightarrow>
     (case e of
        EKill pid sig v \<Rightarrow> v = u \<and> owner_ok u pid s
      | ESend (MFwd f pid sig) \<Rightarrow> owner_ok u pid s
      | ESend (MSig x) \<Rightarrow> sg_type x = PSP_CD_SIGNAL \<longrightarrow> sg_param x = u
      | _ \<Rightarrow> True)"

text \<open>The owners and the names of the tasks stay, and all new events are allowed to user \<open>u\<close>.\<close>

definition authorised :: "int \<Rightarrow> tstate \<Rightarrow> tstate \<Rightarrow> bool" where
  "authorised u s s' \<longleftrightarrow> (\<exists>es. z_log s' = z_log s @ es \<and> list_all (event_ok u s) es)
     \<and> z_managed s' = z_managed s \<and> z_myID s' = z_myID s
     \<and> (\<forall>q. tk_tid (z_heap s' q) = tk_tid (z_heap s q) \<and> tk_deleted (z_heap s' q) = tk_deleted (z_heap s q)
          \<and> tk_uid (z_heap s' q) = tk_uid (z_heap s q))"

lemma authorised_refl [simp]: "authorised u s s" by (simp add: authorised_def)

lemma authorised_event: "authorised u s s' \<Longrightarrow> event_ok u s' e = event_ok u s e"
  unfolding authorised_def event_ok_def owner_ok_def find_managed_def PStasklist_find_def
  by (simp split: tevent.splits smsg.splits)

lemma authorised_trans:
  assumes "authorised u s s'" "authorised u s' s''"
  shows "authorised u s s''"
proof -
  obtain es fs where "z_log s' = z_log s @ es" "list_all (event_ok u s) es" "z_log s'' = z_log s' @ fs" "list_all (event_ok u s') fs"
    using assms by (auto simp: authorised_def)
  moreover have "list_all (event_ok u s) fs = list_all (event_ok u s') fs"
    using authorised_event [OF assms(1)] by (simp add: list_all_iff)
  ultimately have "z_log s'' = z_log s @ (es @ fs) \<and> list_all (event_ok u s) (es @ fs)" by simp
  then show ?thesis using assms unfolding authorised_def by (metis (no_types, lifting))
qed

lemma authorised_log: "event_ok u s e \<Longrightarrow> authorised u s (log_ev e s)"
  by (simp add: authorised_def log_ev_def)

lemma authorised_scripts [simp]:
  "authorised u s (s\<lparr>z_fwd := b\<rparr>)" "authorised u s (s\<lparr>z_kill := k\<rparr>)" "authorised u s (s\<lparr>z_mem := m\<rparr>)"
  "authorised u s (s\<lparr>z_stuck := t\<rparr>)"
  by (simp_all add: authorised_def)

lemma authorised_upd [simp]:
  "authorised u s (upd r (\<lambda>t. t\<lparr>tk_killat := k\<rparr>) s)"
  "authorised u s (upd r (\<lambda>t. t\<lparr>assignedSigs := f t\<rparr>) s)"
  "authorised u s (upd r (\<lambda>t. t\<lparr>tk_suspended := c\<rparr>) s)"
  "authorised u s (PSID_setSignal signalSender_update r x g s)"
  using set_signal_shape [of signalSender_update r x g s] by (auto simp: authorised_def upd_def split: if_splits)

lemma pskill_authorised: "owner_ok u p s \<Longrightarrow> authorised u s (snd (pskill p g u s))"
proof -
  assume o: "owner_ok u p s"
  have a: "authorised u s (log_ev (EKill p g u) s)"
    by (rule authorised_log) (simp add: event_ok_def o)
  show ?thesis
    using authorised_trans [OF a] a by (auto simp: pskill_def Let_def split: list.splits)
qed

lemma owner_ok_authorised: "authorised u s s' \<Longrightarrow> owner_ok v p s' = owner_ok v p s"
  by (simp add: owner_ok_def authorised_def find_managed_def PStasklist_find_def)

lemma kill_authorised: "authorised u s (snd (PSID_kill p g u s))"
proof (cases "find_managed (PSC_getTID (z_myID s) (-1) (word_of_int \<bar>p\<bar>)) s")
  case (Some r)
  show ?thesis
  proof (cases "u \<noteq> 0 \<and> tk_uid (z_heap s r) \<noteq> u \<or> g = 0")
    case False
    then have o: "owner_ok u p s" using Some by (auto simp: owner_ok_def)
    note k = pskill_authorised [OF o, of g]
    show ?thesis
    proof (cases "tk_forwarder (z_heap s r)")
      case None
      then show ?thesis using Some False k by (simp add: PSID_kill_def Let_def)
    next
      case (Some f)
      let ?s1 = "log_ev (EEnable (tk_fd (z_heap s f))) s"
      have a1: "authorised u s ?s1" by (rule authorised_log) (simp add: event_ok_def)
      define ok where "ok = (case z_fwd ?s1 of [] \<Rightarrow> True | b # bs \<Rightarrow> b)"
      define s2 where "s2 = (case z_fwd ?s1 of [] \<Rightarrow> ?s1 | b # bs \<Rightarrow> ?s1\<lparr>z_fwd := bs\<rparr>)"
      have a2: "authorised u s s2"
        using authorised_trans [OF a1] a1 unfolding s2_def by (simp split: list.splits)
      have o2: "owner_ok u p s2" using owner_ok_authorised [OF a2] o by simp
      have a3: "authorised u s (log_ev (ESend (MFwd t p g)) s2)" for t
        by (rule authorised_trans [OF a2 authorised_log]) (simp add: event_ok_def o2)
      have a4: "authorised u s (snd (pskill p g u s2))"
        by (rule authorised_trans [OF a2 pskill_authorised [OF o2]])
      have "snd (PSID_kill p g u s) = (if tk_fd (z_heap s f) \<noteq> -1 \<and> tk_killat (z_heap s f) = 0
          then (if ok then log_ev (ESend (MFwd (tk_tid (z_heap s f)) p g)) s2 else snd (pskill p g u s2))
          else snd (pskill p g u s))"
        using Some \<open>find_managed _ s = Some r\<close> False
        by (auto simp: PSID_kill_def Let_def ok_def s2_def split: list.splits)
      then show ?thesis using a3 a4 k by simp
    qed
  qed (use Some in \<open>auto simp: PSID_kill_def Let_def\<close>)
qed (simp add: PSID_kill_def)

lemma relative_authorised: "authorised u s (snd (relative_signal r g s))"
proof -
  have l: "authorised u s (log_ev (EEnable f) s1)" if "authorised u s s1" for f s1
    using authorised_trans [OF that authorised_log] by (simp add: event_ok_def)
  show ?thesis by (simp add: relative_signal_def Let_def l)
qed

lemma deliver_authorised: "authorised u s (snd (deliver r tid u sender g s))"
proof -
  obtain sig s1 where 1: "relative_signal r g s = (sig, s1)" by force
  let ?s2 = "upd r (\<lambda>t. t\<lparr>assignedSigs := snd (PSID_removeSignal (assignedSigs t) sender g)\<rparr>) s1"
  obtain e s3 where 3: "PSID_kill (sint (PSC_getPID tid)) sig u ?s2 = (e, s3)" by force
  have "authorised u s s1" using relative_authorised [of u s r g] 1 by simp
  moreover have "authorised u s1 ?s2" by simp
  moreover have "authorised u ?s2 s3" using kill_authorised [of u ?s2 "sint (PSC_getPID tid)" sig] 3 by simp
  ultimately have s3: "authorised u s s3" by (blast intro: authorised_trans)
  have "deliver r tid u sender g s = (if e \<noteq> 0 then (-1, s3) else (0, PSID_setSignal signalSender_update r sender sig s3))"
    using 1 3 by (simp add: deliver_def)
  then show ?thesis using s3 authorised_trans [OF s3] by simp
qed

lemma answer_authorised: "authorised u s s1 \<Longrightarrow> authorised u s (answer_if log_send b (sigres x y e s2) s1)"
proof -
  assume a: "authorised u s s1"
  have "authorised u s1 (log_send (sigres x y e s2) s1)"
    unfolding log_send_def by (rule authorised_log) (simp add: event_ok_def sigres_def)
  then show ?thesis using a authorised_trans by (auto simp: answer_if_def)
qed

lemma remote_authorised: "authorised u s (log_send (remote_signal t u x g p b) s)"
  unfolding log_send_def by (rule authorised_log) (simp add: event_ok_def remote_signal_def)

lemma sendSignal1_authorised: "authorised u s (sendSignal1 log_send tid u sender g ans s)"
proof (cases "is_local tid s")
  case True
  show ?thesis
  proof (cases "find_managed tid s")
    case (Some r)
    obtain e s1 where d: "deliver r tid u sender g s = (e, s1)" by force
    have "authorised u s s1" using deliver_authorised [of u s r tid sender g] d by simp
    then show ?thesis using Some True d answer_authorised by (simp add: sendSignal1_def)
  qed (simp add: sendSignal1_def True answer_authorised)
qed (simp add: sendSignal1_def remote_authorised)

lemma suspend_authorised: "authorised u s (tell_suspend r g s)"
proof -
  have l: "authorised u s (log_ev (ECall c) s1)" if "authorised u s s1" for c s1
    using authorised_trans [OF that authorised_log] by (simp add: event_ok_def)
  show ?thesis by (simp add: tell_suspend_def Let_def l)
qed

lemma clone_authorised: "authorised u s (snd (PSsignal_cloneList l s))"
proof -
  have g: "authorised u s (snd (PSsignal_get s))" for s
    by (simp add: PSsignal_get_def split: list.splits)
  have "authorised u s (snd (clone_entries l s))"
  proof (induction l arbitrary: s)
    case (Cons x xs)
    obtain b s1 where b: "PSsignal_get s = (b, s1)" by force
    then have "authorised u s s1" using g [of s] by simp
    then show ?case using b Cons authorised_trans by (cases b) auto
  qed simp
  then show ?thesis by (simp add: PSsignal_cloneList_def case_prod_unfold)
qed

lemma sendSignalP_authorised:
  "sendSignalP n log_send tid u sender g ans s = Some s' \<Longrightarrow> authorised u s s'"
proof (induction n arbitrary: tid ans s s')
  case (Suc n)
  show ?case
  proof (cases "is_local tid s")
    case False
    then show ?thesis using Suc.prems by (auto simp: remote_authorised)
  next
    case loc: True
    show ?thesis
    proof (cases "find_managed tid s")
      case None
      then show ?thesis using loc Suc.prems by (auto simp: answer_authorised)
    next
      case (Some r)
      show ?thesis
      proof (cases "PSC_getPID tid = 0 \<or> for_obsolete tid sender g s")
        case True
        then show ?thesis using loc Some Suc.prems by (auto simp: answer_authorised split: if_splits)
      next
        case False
        obtain ks s1 where c: "PSsignal_cloneList (childList (z_heap s r)) s = (ks, s1)" by force
        define step where "step = (\<lambda>(c::taskid, g'::int) so. case so of None \<Rightarrow> None
          | Some x \<Rightarrow> if z_up x (PSC_getID (z_myID x) c) then sendSignalP n log_send c u sender g False x else Some x)"
        have st: "\<forall>x. fold step l so = Some x \<longrightarrow> (\<exists>y. so = Some y \<and> authorised u y x)" for l so
        proof (induction l arbitrary: so)
          case (Cons a l)
          show ?case
          proof (intro allI impI)
            fix x
            assume "fold step (a # l) so = Some x"
            then obtain y where y: "step a so = Some y" "authorised u y x" using Cons by auto
            then obtain z where z: "so = Some z" by (cases so) (auto simp: step_def split: prod.splits)
            have "authorised u z y" using y(1) z Suc.IH by (auto simp: step_def split: prod.splits if_splits)
            then show "\<exists>y. so = Some y \<and> authorised u y x" using z y(2) authorised_trans by blast
          qed
        qed auto
        obtain s2 where s2: "fold step (takeWhile (\<lambda>(c, g). c \<noteq> 0) ks) (Some s1) = Some s2"
            "s' = tell_suspend r g (if tid \<noteq> sender then sendSignal1 log_send tid u sender g False s2 else s2)"
          using Suc.prems loc Some False c unfolding step_def
          by (auto simp: Let_def split: option.splits)
        have "authorised u s s1" using clone_authorised [of u s "childList (z_heap s r)"] c by simp
        moreover have "authorised u s1 s2" using st s2(1) by blast
        moreover have "authorised u s2 (if tid \<noteq> sender then sendSignal1 log_send tid u sender g False s2 else s2)"
          by (simp add: sendSignal1_authorised)
        ultimately show ?thesis
          using s2(2) suspend_authorised authorised_trans by metis
      qed
    qed
  qed
qed simp

text \<open>
  C16: What a client of this node can cause with a request for a signal: without a task of its own the
  request is ignored; otherwise all processes that get a signal, directly, by way of their forwarders
  or in the tree below the destination, belong to the user of the client, requests to other nodes carry
  that user, and neither the owners nor the names of tasks change.  Only clients of the super-user may act for
  another user.
\<close>

theorem signals_authorised:
  assumes "is_local (sg_sender m) s" "PSC_getPID (sg_sender m) \<noteq> 0" "sg_type m = PSP_CD_SIGNAL"
  shows "case find_managed (sg_sender m) s of
      None \<Rightarrow> msg_SIGNAL n log_send m s = s
    | Some q \<Rightarrow> authorised (if tk_uid (z_heap s q) = 0 then sg_param m else tk_uid (z_heap s q)) s (msg_SIGNAL n log_send m s)"
proof (cases "find_managed (sg_sender m) s")
  case None
  then show ?thesis using assms by (simp add: msg_SIGNAL_def)
next
  case (Some q)
  have p: "authorised (sg_param m) s (PSID_sendSignal n log_send m s)"
    using sendSignalP_authorised [of n "sg_dest m" "sg_param m" "sg_sender m" "sg_signal m" "sg_answer m" s]
    by (auto simp: PSID_sendSignal_def sendSignal1_authorised split: option.splits)
  have f: "authorised (sg_param m) s (log_send (MSig m) s)"
    unfolding log_send_def by (rule authorised_log) (simp add: event_ok_def)
  have "authorised (if tk_uid (z_heap s q) = 0 then sg_param m else tk_uid (z_heap s q)) s (msg_SIGNAL n log_send m s)"
    using Some assms p f by (auto simp: msg_SIGNAL_def)
  then show ?thesis using Some by simp
qed

definition ex_kill :: sigmsg where
  "ex_kill = \<lparr>sg_type = PSP_CD_SIGNAL, sg_sender = 0x100000007, sg_dest = 0x100000008, sg_signal = SIGKILL, sg_param = 1000,
     sg_pervasive = True, sg_answer = False\<rparr>"

definition ex_users :: tstate where
  "ex_users = node1 [blank_task 0x100000007 0, (blank_task 0x100000008 0)\<lparr>childList := [(0x100000009, -1)]\<rparr>,
     (blank_task 0x100000009 0x100000008)\<lparr>tk_uid := 2000\<rparr>]"

theorem signals_authorised_witness:
  "authorised 1000 ex_users (msg_SIGNAL 4 log_send ex_kill ex_users)
    \<and> map (\<lambda>e. case e of EKill p g u \<Rightarrow> (p, g, u) | _ \<Rightarrow> (0, 0, 0)) (z_log (msg_SIGNAL 4 log_send ex_kill ex_users)) = [(8, 9, 1000)]"
proof
  have h: "is_local (sg_sender ex_kill) ex_users" "PSC_getPID (sg_sender ex_kill) \<noteq> 0" "sg_type ex_kill = PSP_CD_SIGNAL"
      "find_managed (sg_sender ex_kill) ex_users = Some 0" "tk_uid (z_heap ex_users 0) = 1000"
    by code_simp+
  show "authorised 1000 ex_users (msg_SIGNAL 4 log_send ex_kill ex_users)"
    using signals_authorised [OF h(1-3), of 4] h(4,5) by simp
  show "map (\<lambda>e. case e of EKill p g u \<Rightarrow> (p, g, u) | _ \<Rightarrow> (0, 0, 0)) (z_log (msg_SIGNAL 4 log_send ex_kill ex_users)) = [(8, 9, 1000)]"
    by code_simp
qed

end
