(* ===== verification/Tsk_End.thy ===== *)
theory Tsk_End
  imports Tsk_Props
begin

text \<open>The end of a task: who is told, and that it happens once.\<close>

definition remote_receivers :: "siglist \<Rightarrow> tstate \<Rightarrow> bool" where
  "remote_receivers l s \<longleftrightarrow> (\<forall>(t, g) \<in> set l. t \<noteq> 0 \<and> \<not> is_local t s)"

lemma all_signals_remote:
  assumes "remote_receivers (signalReceiver (z_heap s r)) s" "length (signalReceiver (z_heap s r)) < n"
  shows "all_signals_loop n log_send r s
    = upd r (\<lambda>t. t\<lparr>signalReceiver := []\<rparr>) (s\<lparr>z_log := z_log s
        @ map (\<lambda>(t, g). ESend (remote_signal t (tk_uid (z_heap s r)) (tk_tid (z_heap s r)) g False False)) (signalReceiver (z_heap s r))\<rparr>)"
  using assms
proof (induction n arbitrary: s)
  case (Suc n)
  show ?case
  proof (cases "signalReceiver (z_heap s r)")
    case Nil
    then show ?thesis by (cases s) (simp add: getSignal_any_Nil upd_def)
  next
    case (Cons x l)
    obtain c g where x: "x = (c, g)" by (cases x)
    have c: "c \<noteq> 0" "\<not> is_local c s" using Suc.prems(1) Cons x by (auto simp: remote_receivers_def)
    let ?s1 = "upd r (\<lambda>t. t\<lparr>signalReceiver := l\<rparr>) s"
    let ?s2 = "log_ev (ESend (remote_signal c (tk_uid (z_heap s r)) (tk_tid (z_heap s r)) g False False)) ?s1"
    have l: "\<not> is_local c ?s1" using c by (simp add: is_local_def upd_def)
    have "all_signals_loop (Suc n) log_send r s = all_signals_loop n log_send r ?s2"
      using Cons x c(1) l by (simp add: getSignal_any_Cons Let_def sendSignal1_def log_send_def)
    also have "\<dots> = upd r (\<lambda>t. t\<lparr>signalReceiver := []\<rparr>) (?s2\<lparr>z_log := z_log ?s2
        @ map (\<lambda>(t, g). ESend (remote_signal t (tk_uid (z_heap ?s2 r)) (tk_tid (z_heap ?s2 r)) g False False)) (signalReceiver (z_heap ?s2 r))\<rparr>)"
      by (rule Suc.IH)
        (use Suc.prems Cons in \<open>auto simp: remote_receivers_def is_local_def upd_def log_ev_def\<close>)
    finally show ?thesis using Cons x by (cases s) (simp add: upd_def log_ev_def)
  qed
qed simp

text \<open>
  What the other parts of the daemon are told of the end of a task, once: the status facility, the reservations
  and slots, and with \<open>send_CANCELPART\<close> and \<open>send_TASKDEAD\<close> the master and, for a sister partition, the logger.
\<close>

definition end_calls :: "ptask \<Rightarrow> tevent list" where
  "end_calls t = (if tk_duplicate t then [] else [ECall (CDecCount (tk_group t = TG_ANY))])
     @ [ECall (CCleanupRes (tk_tid t)), ECall (CCleanupSlots (tk_tid t))]
     @ (if tk_request t then [ECall (CCancelPart (tk_tid t))] else [])
     @ (if tk_partition t \<and> tk_partSize t \<noteq> 0
        then ECall (CTaskDead True (tk_tid t)) # (if tk_tid t \<noteq> tk_logger t then [ECall (CTaskDead False (tk_tid t))] else [])
        else [])"

text \<open>Each time, the selector of a task that is still connected is enabled.\<close>

definition enable_call :: "ptask \<Rightarrow> tevent list" where
  "enable_call t = (if tk_fd t \<noteq> -1 then [EEnable (tk_fd t)] else [])"

definition end_signals :: "ptask \<Rightarrow> tevent list" where
  "end_signals t = map (\<lambda>(c, g). ESend (remote_signal c (tk_uid t) (tk_tid t) g False False)) (signalReceiver t)"

lemma first_cleanup_released:
  assumes "remote_receivers (signalReceiver (z_heap s r)) s" "tk_released (z_heap s r)" "tk_group (z_heap s r) \<noteq> TG_FORWARDER"
  shows "first_cleanup log_send cl r s = upd r (\<lambda>t. t\<lparr>tk_removeIt := True, signalReceiver := []\<rparr>) (s\<lparr>z_log := z_log s
        @ end_signals (z_heap s r) @ end_calls (z_heap s r)\<rparr>)"
proof -
  let ?s1 = "upd r (\<lambda>t. t\<lparr>tk_removeIt := True\<rparr>) s"
  have r: "remote_receivers (signalReceiver (z_heap ?s1 r)) ?s1"
    using assms(1) by (simp add: remote_receivers_def is_local_def upd_def)
  define s2 where "s2 = PSID_sendAllSignals log_send r ?s1"
  have s2: "s2 = upd r (\<lambda>t. t\<lparr>tk_removeIt := True, signalReceiver := []\<rparr>) (s\<lparr>z_log := z_log s @ end_signals (z_heap s r)\<rparr>)"
    unfolding s2_def PSID_sendAllSignals_def all_signals_remote [OF r lessI]
    by (cases s) (simp add: upd_def end_signals_def)
  define lg where "lg = (\<lambda>es. s2\<lparr>z_log := z_log s2 @ es\<rparr>)"
  have l: "log_ev e (lg es) = lg (es @ [e])" for e es by (simp add: lg_def log_ev_def)
  define H where "H = z_heap s2"
  have h: "z_heap (lg es) = H" for es by (simp add: lg_def H_def)
  have s2l: "s2 = lg []" by (simp add: lg_def)
  have rel: "tk_released (H r)" "tk_group (H r) \<noteq> TG_FORWARDER" using assms by (simp_all add: H_def s2 upd_def)
  have c: "end_calls (H r) = end_calls (z_heap s r)" by (simp add: H_def s2 upd_def end_calls_def)
  have "first_cleanup log_send cl r s = lg (end_calls (H r))"
    unfolding first_cleanup_def Let_def s2_def [symmetric] s2l using rel
    by (simp add: l h end_calls_def)
  then show ?thesis unfolding c by (simp add: lg_def s2 upd_def)
qed

text \<open>
  C29: the end of a released task that is no forwarder, all of whose signal receivers live on other nodes: each task that
  asked for a signal gets one message with the signal it asked for, in the order of the requests and on behalf of
  the task (\<open>end_signals\<close>); the status facility, the reservations, the master and the logger are told exactly
  once, as \<open>end_calls\<close> says; the selector of a connected task is enabled, and nothing else is sent or called.  The list of
  receivers is empty then.  If the end is handled again, the selector is enabled again, and nothing at all is sent or called.
\<close>

theorem end_signals_once:
  assumes "\<not> tk_removeIt (z_heap s r)" "tk_released (z_heap s r)" "tk_group (z_heap s r) \<noteq> TG_FORWARDER"
    "remote_receivers (signalReceiver (z_heap s r)) s"
  shows "let t = z_heap s r; s' = PSIDtask_cleanup log_send r s; s'' = PSIDtask_cleanup log_send r s' in
    z_log s' = z_log s @ end_signals t @ end_calls t @ enable_call t
    \<and> signalReceiver (z_heap s' r) = [] \<and> tk_removeIt (z_heap s' r)
    \<and> z_log s'' = z_log s' @ enable_call t"
proof -
  define rest where "rest = (\<lambda>s1. let s2 = (if tk_fd (z_heap s1 r) \<noteq> -1 then log_ev (EEnable (tk_fd (z_heap s1 r))) s1 else s1);
      task = z_heap s2 r
    in if PSID_emptySigList (childList task) \<and> \<not> tk_delegate task \<and> \<not> tk_sigChldCB task \<and> tk_pendRes task = 0
       then upd r (\<lambda>t. t\<lparr>tk_deleted := True\<rparr>) s2 else s2)"
  have rest: "z_log (rest s1) = z_log s1 @ enable_call (z_heap s1 r)"
      "signalReceiver (z_heap (rest s1) r) = signalReceiver (z_heap s1 r)" "tk_removeIt (z_heap (rest s1) r) = tk_removeIt (z_heap s1 r)"
      "tk_fd (z_heap (rest s1) r) = tk_fd (z_heap s1 r)" for s1
    by (simp_all add: rest_def Let_def log_ev_def upd_def enable_call_def)
  define k where "k = length (z_managed s) + length (z_obsolete s)"
  have k: "PSIDtask_cleanup log_send r s = rest (first_cleanup log_send (cleanup_fuel k log_send) r s)"
    using assms(1) by (simp only: PSIDtask_cleanup_def rest_def k_def cleanup_fuel.simps Let_def if_True simp_thms)
  let ?s1 = "first_cleanup log_send (cleanup_fuel k log_send) r s"
  have s1: "z_log ?s1 = z_log s @ end_signals (z_heap s r) @ end_calls (z_heap s r)"
      "signalReceiver (z_heap ?s1 r) = []" "tk_removeIt (z_heap ?s1 r)" "tk_fd (z_heap ?s1 r) = tk_fd (z_heap s r)"
    unfolding first_cleanup_released [OF assms(4,2,3)] by (simp_all add: upd_def)
  have again: "PSIDtask_cleanup log_send r (rest ?s1) = rest (rest ?s1)"
    unfolding PSIDtask_cleanup_def cleanup_fuel.simps using rest(3) [of ?s1] s1(3)
    by (simp only: fun_cong [OF rest_def, of "rest ?s1"] Let_def if_False simp_thms)
  have e: "enable_call (z_heap ?s1 r) = enable_call (z_heap s r)" "enable_call (z_heap (rest ?s1) r) = enable_call (z_heap s r)"
    using rest(4) [of ?s1] s1(4) by (simp_all add: enable_call_def)
  show ?thesis unfolding Let_def k again using rest [of ?s1] rest(1) [of "rest ?s1"] s1 e by simp
qed

definition ex_end :: tstate where
  "ex_end = node1 [(blank_task 0x100000007 0x200000005)\<lparr>tk_released := True, tk_partition := True, tk_partSize := 2, signalReceiver := [(0x200000005, 15), (0x300000009, 9)]\<rparr>]"

theorem end_signals_once_witness:
  "signalReceiver (z_heap (PSIDtask_cleanup log_send 0 ex_end) 0) = []
    \<and> length (filter (\<lambda>e. case e of ESend (MSig _) \<Rightarrow> True | _ \<Rightarrow> False) (z_log (PSIDtask_cleanup log_send 0 ex_end))) = 2"
proof
  have r: "remote_receivers (signalReceiver (z_heap ex_end 0)) ex_end"
    by (simp add: remote_receivers_def ex_end_def node1_def is_local_def PSC_getID_def) 
  have h: "\<not> tk_removeIt (z_heap ex_end 0)" "tk_released (z_heap ex_end 0)" "tk_group (z_heap ex_end 0) \<noteq> TG_FORWARDER"
    by code_simp+
  show "signalReceiver (z_heap (PSIDtask_cleanup log_send 0 ex_end) 0) = []"
    using end_signals_once [OF h r] unfolding Let_def by blast
  show "length (filter (\<lambda>e. case e of ESend (MSig _) \<Rightarrow> True | _ \<Rightarrow> False) (z_log (PSIDtask_cleanup log_send 0 ex_end))) = 2"
    by code_simp
qed

end
