(* ===== verification/Part_State.thy ===== *)
theory Part_State
  imports Complex_Main Cpu_Spec Ps_Msg
begin

text \<open>
  The resources of the cluster as the master sees them (first part of \<open>src/bin/daemon/psidpartition.c\<close>,
  \<open>src/lib/pscommon/pspartition.c\<close>, \<open>src/include/pspartition.h\<close>).  Requests for a partition are named
  by their addresses; the three queues hold addresses, and \<open>m_dead\<close> the addresses of requests that were
  freed.  A double is a rational number here, without rounding: it only decides the order of candidates.
\<close>

section \<open>State\<close>

record slot =
  sl_node :: nodeid
  sl_cpus :: PSCPU_set

datatype sort_mode = PART_SORT_NONE | PART_SORT_PROC | PART_SORT_LOAD_1 | PART_SORT_LOAD_5 | PART_SORT_LOAD_15
  | PART_SORT_PROCLOAD | PART_SORT_DEFAULT | PART_SORT_UNKNOWN

record preq =
  rq_tid :: taskid
  rq_size :: uint32
  rq_hwType :: uint32
  rq_uid :: int
  rq_gid :: int
  rq_sort :: sort_mode
  rq_options :: uint32
  rq_num :: uint32
  rq_tpp :: nat
  rq_nodes :: "nodeid list"
  rq_slots :: "slot list"
  rq_deleted :: bool
  rq_suspended :: bool
  rq_freed :: bool

definition PART_OPT_EXCLUSIVE :: uint32 where "PART_OPT_EXCLUSIVE = 0x2"
definition PART_OPT_OVERBOOK :: uint32 where "PART_OPT_OVERBOOK = 0x4"
definition PART_OPT_WAIT :: uint32 where "PART_OPT_WAIT = 0x8"
definition PART_OPT_EXACT :: uint32 where "PART_OPT_EXACT = 0x10"
definition PART_OPT_FULL_LIST :: uint32 where "PART_OPT_FULL_LIST = 0x100"

definition has_opt :: "uint32 \<Rightarrow> preq \<Rightarrow> bool" where
  "has_opt f r \<longleftrightarrow> rq_options r AND f \<noteq> 0"

datatype overbook = OVERBOOK_FALSE | OVERBOOK_TRUE | OVERBOOK_AUTO | OVERBOOK_UNKNOWN

text \<open>What the tables of nodes and of status information (\<open>psidnodes.c\<close>, \<open>psidstatus.c\<close>) say of a node.\<close>

record nodeinfo =
  ni_up :: bool
  ni_hwStatus :: uint32
  ni_runJobs :: bool
  ni_users :: "int list"
  ni_groups :: "int list"
  ni_numThrds :: int
  ni_procs :: int
  ni_overbook :: overbook
  ni_exclusive :: bool
  ni_pinProcs :: bool
  ni_load :: "rat \<times> rat \<times> rat"

record nodeStat =
  ns_assgndThrds :: "16 word"
  ns_exclusive :: bool
  ns_taskReqPending :: "8 word"
  ns_CPUset :: PSCPU_set

datatype pevent = EProvide taskid uint32 "slot list" | EPartRes taskid int | EGetTasks nodeid | EDeadTo taskid taskid
  | EHintDec nodeid | EHook taskid | EResCleanup taskid taskid

record mstate =
  m_myID :: nodeid
  m_nrNodes :: nodeid
  m_info :: "nodeid \<Rightarrow> nodeinfo"
  m_stat :: "(nodeid \<Rightarrow> nodeStat) option"
  m_req :: "nat \<Rightarrow> preq"
  m_pend :: "nat list"
  m_run :: "nat list"
  m_susp :: "nat list"
  m_dead :: "nat list"
  m_sisters :: "taskid \<Rightarrow> (taskid \<times> nat list) option"
  m_pendingTaskReq :: int
  m_doHandle :: bool
  m_doCleanup :: bool
  m_freeOnSuspend :: bool
  m_mem :: "bool list"
  m_send :: "bool list"
  m_errno :: int
  m_log :: "pevent list"

definition plog :: "pevent \<Rightarrow> mstate \<Rightarrow> mstate" where
  "plog e s = s\<lparr>m_log := m_log s @ [e]\<rparr>"

definition upd_req :: "nat \<Rightarrow> (preq \<Rightarrow> preq) \<Rightarrow> mstate \<Rightarrow> mstate" where
  "upd_req r f s = s\<lparr>m_req := (m_req s)(r := f (m_req s r))\<rparr>"

definition upd_stat :: "nodeid \<Rightarrow> (nodeStat \<Rightarrow> nodeStat) \<Rightarrow> mstate \<Rightarrow> mstate" where
  "upd_stat n f s = s\<lparr>m_stat := map_option (\<lambda>st. st(n := f (st n))) (m_stat s)\<rparr>"

definition pmalloc :: "mstate \<Rightarrow> bool \<times> mstate" where
  "pmalloc s = (case m_mem s of [] \<Rightarrow> (True, s) | b # bs \<Rightarrow> (b, s\<lparr>m_mem := bs\<rparr>))"

definition all_nodes :: "mstate \<Rightarrow> nodeid list" where
  "all_nodes s = map of_nat [0..<nat (sint (m_nrNodes s))]"

definition ENOSPC_NO :: int where "ENOSPC_NO = 28"
definition EAGAIN_NO :: int where "EAGAIN_NO = 11"
definition EINVAL_NO :: int where "EINVAL_NO = 22"
definition EBUSY_NO :: int where "EBUSY_NO = 16"
definition ENOMEM_NO' :: int where "ENOMEM_NO' = 12"
definition EHOSTDOWN_NO :: int where "EHOSTDOWN_NO = 112"

section \<open>Queues of requests\<close>

definition findPart :: "nat list \<Rightarrow> taskid \<Rightarrow> mstate \<Rightarrow> nat option" where
  "findPart q tid s = List.find (\<lambda>r. rq_tid (m_req s r) = tid) q"

text \<open>The first request of the task must be the one that is meant.\<close>

definition deqPart :: "nat list \<Rightarrow> nat \<Rightarrow> mstate \<Rightarrow> bool \<times> nat list" where
  "deqPart q r s = (if findPart q (rq_tid (m_req s r)) s = Some r then (True, remove1 r q) else (False, q))"

definition PSpart_delReq :: "nat \<Rightarrow> mstate \<Rightarrow> mstate" where
  "PSpart_delReq r s = s\<lparr>m_dead := r # m_dead s\<rparr>"

definition PSpart_clrQueue :: "nat list \<Rightarrow> mstate \<Rightarrow> mstate" where
  "PSpart_clrQueue q s = fold PSpart_delReq q s"

section \<open>CPUs of nodes\<close>

definition allocCPUs :: "nodeid \<Rightarrow> PSCPU_set \<Rightarrow> mstate \<Rightarrow> mstate" where
  "allocCPUs n c = upd_stat n (\<lambda>x. x\<lparr>ns_CPUset := PSCPU_addCPUs (ns_CPUset x) c\<rparr>)"

definition freeCPUs :: "nodeid \<Rightarrow> PSCPU_set \<Rightarrow> mstate \<Rightarrow> mstate" where
  "freeCPUs n c = upd_stat n (\<lambda>x. x\<lparr>ns_CPUset := PSCPU_remCPUs (ns_CPUset x) c\<rparr>)"

definition zero_set :: PSCPU_set where
  "zero_set = replicate CPU_words 0"

definition stat_of :: "nodeid \<Rightarrow> mstate \<Rightarrow> nodeStat" where
  "stat_of n s = (case m_stat s of Some st \<Rightarrow> st n
     | None \<Rightarrow> \<lparr>ns_assgndThrds = 0, ns_exclusive = False, ns_taskReqPending = 0, ns_CPUset = zero_set\<rparr>)"

text \<open>The number of CPUs that may be used; it is passed on as an unsigned short.\<close>

definition usable_bits :: "nodeinfo \<Rightarrow> nat" where
  "usable_bits i = nat ((if ni_procs i \<noteq> -1 \<and> ni_procs i < ni_numThrds i then ni_procs i else ni_numThrds i) mod 65536)"

definition getFreeCPUs :: "nodeid \<Rightarrow> PSCPU_set option \<Rightarrow> nat \<Rightarrow> mstate \<Rightarrow> PSCPU_set option \<times> nat" where
  "getFreeCPUs n free tpp s = PSCPU_getUnset (ns_CPUset (stat_of n s)) (usable_bits (m_info s n)) free tpp"

section \<open>Registering requests\<close>

definition slot_count :: "slot \<Rightarrow> nat" where
  "slot_count sl = snd (PSCPU_getCPUs (sl_cpus sl) None (int PSCPU_MAX))"

definition register_slot :: "preq \<Rightarrow> slot \<Rightarrow> mstate \<Rightarrow> mstate" where
  "register_slot req sl s =
     (let n = sl_node sl;
          s1 = upd_stat n (\<lambda>x. x\<lparr>ns_assgndThrds := ns_assgndThrds x + of_nat (slot_count sl)\<rparr>) s;
          s2 = allocCPUs n (sl_cpus sl) s1
      in if has_opt PART_OPT_EXCLUSIVE req \<and> ni_exclusive (m_info s n)
         then upd_stat n (\<lambda>x. x\<lparr>ns_exclusive := True\<rparr>) s2 else s2)"

definition registerReq :: "nat \<Rightarrow> mstate \<Rightarrow> mstate" where
  "registerReq r s =
     (let req = m_req s r in
      if rq_size req = 0 \<or> rq_slots req = [] then s
      else if m_stat s = None then s
      else fold (register_slot req) (take (unat (rq_size req)) (rq_slots req)) s)"

definition unregister_slot :: "preq \<Rightarrow> slot \<Rightarrow> mstate \<Rightarrow> mstate" where
  "unregister_slot req sl s =
     (let n = sl_node sl;
          s1 = upd_stat n (\<lambda>x. x\<lparr>ns_assgndThrds := ns_assgndThrds x - of_nat (slot_count sl)\<rparr>) s;
          s2 = freeCPUs n (sl_cpus sl) s1;
          s3 = plog (EHintDec n) s2
      in if has_opt PART_OPT_EXCLUSIVE req \<and> ns_assgndThrds (stat_of n s3) = 0
         then upd_stat n (\<lambda>x. x\<lparr>ns_exclusive := False\<rparr>) s3 else s3)"

definition unregisterReq :: "nat \<Rightarrow> mstate \<Rightarrow> mstate" where
  "unregisterReq r s =
     (let req = m_req s r in
      if rq_size req = 0 \<or> rq_slots req = [] then s
      else if m_stat s = None then s
      else (fold (unregister_slot req) (take (unat (rq_size req)) (rq_slots req)) s)\<lparr>m_doHandle := True\<rparr>)"

section \<open>The life of a job\<close>

text \<open>Take a request out of the queue of running, else of suspended requests.\<close>

definition deq_run :: "nat \<Rightarrow> mstate \<Rightarrow> bool \<times> mstate" where
  "deq_run r s = (let (b, q) = deqPart (m_run s) r s in (b, s\<lparr>m_run := q\<rparr>))"

definition deq_susp :: "nat \<Rightarrow> mstate \<Rightarrow> bool \<times> mstate" where
  "deq_susp r s = (let (b, q) = deqPart (m_susp s) r s in (b, s\<lparr>m_susp := q\<rparr>))"

definition deq_pend :: "nat \<Rightarrow> mstate \<Rightarrow> bool \<times> mstate" where
  "deq_pend r s = (let (b, q) = deqPart (m_pend s) r s in (b, s\<lparr>m_pend := q\<rparr>))"

definition jobFinished :: "nat \<Rightarrow> mstate \<Rightarrow> mstate" where
  "jobFinished r s =
     (let s1 = plog (EHook (rq_tid (m_req s r))) s;
          s2 = (if \<not> rq_freed (m_req s1 r) then unregisterReq r s1 else s1);
          (b, s3) = deq_run r s2;
          s4 = (if b then s3 else snd (deq_susp r s3))
      in PSpart_delReq r s4)"

definition jobSuspended :: "nat \<Rightarrow> mstate \<Rightarrow> mstate" where
  "jobSuspended r s =
     (let s1 = snd (deq_run r s);
          s2 = (if m_freeOnSuspend s1 then upd_req r (\<lambda>q. q\<lparr>rq_freed := True\<rparr>) (unregisterReq r s1) else s1)
      in s2\<lparr>m_susp := m_susp s2 @ [r]\<rparr>)"

definition jobResumed :: "nat \<Rightarrow> mstate \<Rightarrow> mstate" where
  "jobResumed r s =
     (let s1 = snd (deq_susp r s);
          s2 = (if rq_freed (m_req s1 r) then upd_req r (\<lambda>q. q\<lparr>rq_freed := False\<rparr>) (registerReq r s1) else s1)
      in s2\<lparr>m_run := m_run s2 @ [r]\<rparr>)"

definition mark_deleted :: "nodeid \<Rightarrow> nat \<Rightarrow> mstate \<Rightarrow> mstate" where
  "mark_deleted n r s =
     (if PSC_getID (m_myID s) (rq_tid (m_req s r)) = n then upd_req r (\<lambda>q. q\<lparr>rq_deleted := True\<rparr>) s else s)"

definition cleanupRequests :: "nodeid \<Rightarrow> mstate \<Rightarrow> mstate" where
  "cleanupRequests n s =
     (let s1 = fold (mark_deleted n) (m_run s) s;
          s2 = fold (mark_deleted n) (m_pend s1) s1;
          s3 = (if m_stat s2 \<noteq> None \<and> ns_taskReqPending (stat_of n s2) \<noteq> 0
                then upd_stat n (\<lambda>x. x\<lparr>ns_taskReqPending := 0\<rparr>)
                       (s2\<lparr>m_pendingTaskReq := m_pendingTaskReq s2 - sint (ns_taskReqPending (stat_of n s2))\<rparr>)
                else s2)
      in s3\<lparr>m_doCleanup := True\<rparr>)"

definition drop_pending_req :: "nat \<Rightarrow> mstate \<Rightarrow> mstate" where
  "drop_pending_req r s = PSpart_delReq r (snd (deq_pend r s))"

definition cleanupReqQueues :: "mstate \<Rightarrow> mstate" where
  "cleanupReqQueues s =
     (let s1 = fold (\<lambda>r x. if rq_deleted (m_req x r) then jobFinished r x else x) (m_run s) s;
          s2 = fold (\<lambda>r x. if rq_deleted (m_req x r) then drop_pending_req r x else x) (m_pend s1) s1
      in s2\<lparr>m_doCleanup := False\<rparr>)"

end
