(* ===== verification/Part_Master.thy ===== *)
theory Part_Master
  imports Part_State
begin

text \<open>
  How the master finds nodes and CPUs for a request, and the handlers of the messages about jobs
  (second part of \<open>src/bin/daemon/psidpartition.c\<close>).  Results are the return value or an error number;
  \<open>errno\<close> is a field of the state where a caller reads it later.
\<close>

section \<open>Candidates\<close>

text \<open>\<open>PSIDnodes_testGUID\<close>: the list of a node names the identifier or everyone (-1).\<close>

definition PSIDnodes_testGUID :: "int list \<Rightarrow> int \<Rightarrow> bool" where
  "PSIDnodes_testGUID ids i \<longleftrightarrow> (\<exists>e \<in> set ids. e = i \<or> e = -1)"

definition nodeOK :: "nodeid \<Rightarrow> preq \<Rightarrow> mstate \<Rightarrow> bool" where
  "nodeOK n req s \<longleftrightarrow>
     PSC_validNode (m_nrNodes s) n \<and> ni_up (m_info s n)
     \<and> (rq_hwType req = 0 \<or> ni_hwStatus (m_info s n) AND rq_hwType req = rq_hwType req)
     \<and> ni_runJobs (m_info s n)
     \<and> (rq_uid req = 0 \<or> PSIDnodes_testGUID (ni_users (m_info s n)) (rq_uid req))
     \<and> (rq_gid req = 0 \<or> PSIDnodes_testGUID (ni_groups (m_info s n)) (rq_gid req))
     \<and> ni_numThrds (m_info s n) \<noteq> 0"

definition getIsExclusive :: "nodeid \<Rightarrow> mstate \<Rightarrow> bool" where
  "getIsExclusive n s \<longleftrightarrow> m_stat s \<noteq> None \<and> PSC_validNode (m_nrNodes s) n \<and> ns_exclusive (stat_of n s)"

text \<open>The result is an unsigned short.\<close>

definition getAssignedThreads :: "nodeid \<Rightarrow> mstate \<Rightarrow> int" where
  "getAssignedThreads n s =
     (if m_stat s = None \<or> \<not> PSC_validNode (m_nrNodes s) n then 0 else uint (ns_assgndThrds (stat_of n s)))"

definition nodeAvail :: "nodeid \<Rightarrow> preq \<Rightarrow> int \<Rightarrow> mstate \<Rightarrow> bool" where
  "nodeAvail n req threads s \<longleftrightarrow>
     PSC_validNode (m_nrNodes s) n \<and> ni_up (m_info s n)
     \<and> \<not> getIsExclusive n s
     \<and> \<not> (ni_procs (m_info s n) \<noteq> -1 \<and> ni_procs (m_info s n) \<le> threads)
     \<and> \<not> (has_opt PART_OPT_OVERBOOK req
          \<and> \<not> (ni_overbook (m_info s n) = OVERBOOK_FALSE \<and> ni_numThrds (m_info s n) > threads)
          \<and> ni_overbook (m_info s n) \<noteq> OVERBOOK_AUTO \<and> ni_overbook (m_info s n) \<noteq> OVERBOOK_TRUE)
     \<and> \<not> (has_opt PART_OPT_EXCLUSIVE req \<and> \<not> (ni_exclusive (m_info s n) \<and> threads = 0))"

record sortentry =
  se_id :: nodeid
  se_HWThreads :: int
  se_assgnd :: int
  se_CPUset :: PSCPU_set
  se_rating :: rat
  se_canPin :: bool

text \<open>The list of candidates, and what the loop keeps besides: \<open>tmpStat\<close> holds the free CPUs of a node in exact mode.\<close>

record sortlist =
  so_entries :: "sortentry list"
  so_freeHWTs :: nat
  so_allPin :: bool

record candloop = sortlist +
  cl_tmp :: "nodeid \<Rightarrow> PSCPU_set option"
  cl_totHWTs :: uint32
  cl_canOverbook :: bool

text \<open>The rating of a node that cannot pin; without sorting it is not set, and not used.\<close>

definition rating :: "sort_mode \<Rightarrow> int \<Rightarrow> rat \<times> rat \<times> rat \<Rightarrow> int \<Rightarrow> rat option" where
  "rating mode assgnd load thrds =
     (case load of (l1, l5, l15) \<Rightarrow>
       case mode of
         PART_SORT_PROC \<Rightarrow> Some (of_int assgnd / of_int thrds)
       | PART_SORT_LOAD_1 \<Rightarrow> Some (l1 / of_int thrds)
       | PART_SORT_LOAD_5 \<Rightarrow> Some (l5 / of_int thrds)
       | PART_SORT_LOAD_15 \<Rightarrow> Some (l15 / of_int thrds)
       | PART_SORT_PROCLOAD \<Rightarrow> Some ((of_int assgnd + l1) / of_int thrds)
       | PART_SORT_NONE \<Rightarrow> Some 0
       | _ \<Rightarrow> None)"

text \<open>The CPUs of a candidate and the number of free ones, with the new \<open>tmpStat\<close>.\<close>

definition avail_of :: "nodeid \<Rightarrow> preq \<Rightarrow> mstate \<Rightarrow> candloop \<Rightarrow> PSCPU_set \<times> nat \<times> candloop" where
  "avail_of n req s c =
     (if has_opt PART_OPT_EXACT req
      then (let free = (case cl_tmp c n of Some f \<Rightarrow> f
                        | None \<Rightarrow> the (fst (getFreeCPUs n (Some zero_set) (rq_tpp req) s)));
                (one, k) = PSCPU_getCPUs free (Some zero_set) 1
            in (the one, k, c\<lparr>cl_tmp := (cl_tmp c)(n := Some free)\<rparr>))
      else (zero_set, snd (getFreeCPUs n None (rq_tpp req) s), c))"

text \<open>A node that is available gets an entry; \<open>None\<close> for an unknown criterion.\<close>

definition add_entry :: "nodeid \<Rightarrow> preq \<Rightarrow> PSCPU_set \<Rightarrow> nat \<Rightarrow> mstate \<Rightarrow> candloop \<Rightarrow> candloop option" where
  "add_entry n req cpu k s c =
     (let i = m_info s n; pin = ni_pinProcs i;
          c1 = (if has_opt PART_OPT_EXACT req
                then c\<lparr>cl_tmp := (cl_tmp c)(n := map_option (\<lambda>f. PSCPU_remCPUs f cpu) (cl_tmp c n))\<rparr> else c);
          e = \<lparr>se_id = n, se_HWThreads = int k, se_assgnd = getAssignedThreads n s, se_CPUset = cpu,
               se_rating = 0, se_canPin = pin\<rparr>
      in if pin then Some (c1\<lparr>so_entries := so_entries c1 @ [e]\<rparr>)
         else (case rating (rq_sort req) (getAssignedThreads n s) (ni_load i) (ni_numThrds i) of
                 None \<Rightarrow> None
               | Some x \<Rightarrow> Some (c1\<lparr>so_allPin := False, so_entries := so_entries c1 @ [e\<lparr>se_rating := x\<rparr>]\<rparr>)))"

definition tally :: "nodeid \<Rightarrow> preq \<Rightarrow> nat \<Rightarrow> mstate \<Rightarrow> candloop \<Rightarrow> candloop" where
  "tally n req k s c =
     (let i = m_info s n;
          c1 = c\<lparr>so_freeHWTs := so_freeHWTs c + k\<rparr>
      in if ni_overbook i = OVERBOOK_TRUE \<or> ni_overbook i = OVERBOOK_AUTO \<or> ni_pinProcs i
         then c1\<lparr>cl_canOverbook := True,
                 cl_totHWTs := cl_totHWTs c1 + (if ni_procs i = -1 then rq_size req else of_int (ni_procs i))\<rparr>
         else if ni_procs i = -1 \<or> ni_procs i > ni_numThrds i
         then c1\<lparr>cl_totHWTs := cl_totHWTs c1 + of_int (ni_numThrds i)\<rparr>
         else c1\<lparr>cl_totHWTs := cl_totHWTs c1 + of_int (ni_procs i)\<rparr>)"

definition cand_step :: "preq \<Rightarrow> mstate \<Rightarrow> nodeid \<Rightarrow> int + candloop \<Rightarrow> int + candloop" where
  "cand_step req s n ec =
     (case ec of
        Inl e \<Rightarrow> Inl e
      | Inr c \<Rightarrow>
          if \<not> PSC_validNode (m_nrNodes s) n then Inl EINVAL_NO
          else if \<not> nodeOK n req s then Inr c
          else
            (case avail_of n req s c of (cpu, k, c1) \<Rightarrow>
             case (if k \<noteq> 0 \<and> nodeAvail n req (getAssignedThreads n s) s then add_entry n req cpu k s c1 else Some c1) of
               None \<Rightarrow> Inl EINVAL_NO
             | Some c2 \<Rightarrow>
                 if \<not> has_opt PART_OPT_EXACT req
                 then (if cl_tmp c2 n \<noteq> None then Inr c2
                       else Inr (tally n req k s (c2\<lparr>cl_tmp := (cl_tmp c2)(n := Some zero_set)\<rparr>)))
                 else Inr (tally n req k s c2)))"

definition cand_empty :: candloop where
  "cand_empty = \<lparr>so_entries = [], so_freeHWTs = 0, so_allPin = True, cl_tmp = (\<lambda>n. None), cl_totHWTs = 0, cl_canOverbook = False\<rparr>"

definition getCandidateList :: "preq \<Rightarrow> mstate \<Rightarrow> (int + candloop) \<times> mstate" where
  "getCandidateList req s =
     (case pmalloc s of
        (False, s1) \<Rightarrow> (Inl ENOMEM_NO', s1)
      | (True, s1) \<Rightarrow>
          (case fold (cand_step req s1) (take (unat (rq_num req)) (rq_nodes req)) (Inr cand_empty) of
             Inl e \<Rightarrow> (Inl e, s1)
           | Inr c \<Rightarrow>
               if has_opt PART_OPT_FULL_LIST req
               then (if length (so_entries c) < unat (rq_size req) then (Inl ENOSPC_NO, s1) else (Inr c, s1))
               else if so_freeHWTs c div rq_tpp req < unat (rq_size req) \<and> cl_totHWTs c < rq_size req
                 \<and> (\<not> has_opt PART_OPT_OVERBOOK req \<or> \<not> cl_canOverbook c)
               then (Inl ENOSPC_NO, s1)
               else (Inr c, s1)))"

section \<open>Sorting\<close>

definition compareNodes :: "sortentry \<Rightarrow> sortentry \<Rightarrow> int" where
  "compareNodes a b =
     (if se_rating b < se_rating a then 1
      else if se_rating b > se_rating a then -1
      else if se_HWThreads b > se_HWThreads a then 1
      else if se_HWThreads b < se_HWThreads a then -1
      else if sint (se_id b) < sint (se_id a) then 1
      else -1)"

text \<open>\<open>qsort\<close> of the C library, as an insertion sort with the comparison.\<close>

fun insert_cand :: "sortentry \<Rightarrow> sortentry list \<Rightarrow> sortentry list" where
  "insert_cand e [] = [e]"
| "insert_cand e (x # xs) = (if compareNodes e x < 0 then e # x # xs else x # insert_cand e xs)"

definition sortCandidates :: "candloop \<Rightarrow> candloop" where
  "sortCandidates c = c\<lparr>so_entries := foldr insert_cand (so_entries c) []\<rparr>"

section \<open>Creating the partition\<close>

text \<open>Exact mode: candidates of the same node, up to \<open>tpp\<close> of them, make a process.\<close>

fun take_node :: "nat \<Rightarrow> nodeid \<Rightarrow> sortentry list \<Rightarrow> sortentry list \<times> sortentry list" where
  "take_node 0 n es = ([], es)"
| "take_node (Suc k) n [] = ([], [])"
| "take_node (Suc k) n (e # es) =
     (if se_id e = n then (case take_node k n es of (a, b) \<Rightarrow> (e # a, b)) else ([], e # es))"

definition cur_slot :: "nodeid \<Rightarrow> slot list \<Rightarrow> slot list" where
  "cur_slot n slots =
     (if slots = [] \<or> sl_node (last slots) \<noteq> n then slots @ [\<lparr>sl_node = n, sl_cpus = zero_set\<rparr>] else slots)"

definition add_cpus :: "sortentry list \<Rightarrow> slot list \<Rightarrow> slot list" where
  "add_cpus es slots =
     butlast slots @ [fold (\<lambda>e sl. sl\<lparr>sl_cpus := PSCPU_addCPUs (sl_cpus sl) (se_CPUset e)\<rparr>) es (last slots)]"

text \<open>The first argument is the number of processes that are missing.\<close>

primrec exact_loop :: "nat \<Rightarrow> nat \<Rightarrow> sortentry list \<Rightarrow> slot list \<Rightarrow> nat \<Rightarrow> slot list \<times> nat" where
  "exact_loop 0 tpp es slots num = (slots, num)"
| "exact_loop (Suc k) tpp es slots num =
     (case es of
        [] \<Rightarrow> (slots, num)
      | e # _ \<Rightarrow>
          (case take_node tpp (se_id e) es of (own, rest) \<Rightarrow>
             let slots1 = add_cpus own (cur_slot (se_id e) slots)
             in if length own < tpp then (slots1, num)
                else exact_loop k tpp rest slots1 (num + 1)))"

text \<open>
  User-defined mode: all free CPUs of one node after the other, each node once.  The result tells
  whether over-booking is still an option.
\<close>

fun user_loop ::
  "preq \<Rightarrow> nat \<Rightarrow> mstate \<Rightarrow> sortentry list \<Rightarrow> nodeid list \<Rightarrow> slot list \<Rightarrow> nat \<Rightarrow> bool \<Rightarrow> slot list \<times> nat \<times> bool" where
  "user_loop req want s [] used slots num ob = (slots, num, ob)"
| "user_loop req want s (e # es) used slots num ob =
     (if \<not> num < want then (slots, num, ob)
      else if se_id e \<in> set used then user_loop req want s es used slots num ob
      else
        let (cs, thrds) = getFreeCPUs (se_id e) (Some zero_set) (rq_tpp req) s; cset = the cs in
        if thrds = 0 then (slots, num, False)
        else
          let num1 = num + (if has_opt PART_OPT_FULL_LIST req then 1 else thrds div rq_tpp req);
              (num2, cset2) =
                (if num1 > want
                 then (want, the (fst (PSCPU_getCPUs cset (Some (PSCPU_clrAll zero_set))
                               (int thrds - (int num1 - int want) * int (rq_tpp req)))))
                 else (num1, cset))
          in user_loop req want s es (se_id e # used) (slots @ [\<lparr>sl_node = se_id e, sl_cpus = cset2\<rparr>]) num2 ob)"

text \<open>The slots, the processes they are for, whether over-booking is still an option, and the number of slots.\<close>

definition make_slots :: "preq \<Rightarrow> candloop \<Rightarrow> mstate \<Rightarrow> bool \<Rightarrow> slot list \<times> nat \<times> bool \<times> nat" where
  "make_slots req c s ob =
     (if has_opt PART_OPT_EXACT req
      then (case exact_loop (unat (rq_size req)) (rq_tpp req) (so_entries c) [] 0 of
              (sl, k) \<Rightarrow> (sl, k, ob, if sl = [] then 1 else length sl))
      else (case user_loop req (unat (rq_size req)) s (so_entries c) [] [] 0 ob of
              (sl, k, o1) \<Rightarrow> (sl, k, o1, length sl)))"

definition must_overbook :: "preq \<Rightarrow> candloop \<Rightarrow> bool" where
  "must_overbook req c \<longleftrightarrow> has_opt PART_OPT_OVERBOOK req \<and> \<not> so_freeHWTs c div rq_tpp req \<ge> unat (rq_size req)"

text \<open>
  The number of processes or -1, and the request with its slots.  In exact mode the counter of slots
  ends one higher, also when there is no slot at all.
\<close>

definition createPartition :: "preq \<Rightarrow> candloop \<Rightarrow> mstate \<Rightarrow> (int \<times> preq) \<times> mstate" where
  "createPartition req c s =
     (if must_overbook req c \<and> \<not> so_allPin c then ((-1, req), s)
      else (case pmalloc s of
          (False, s1) \<Rightarrow> ((-1, req), s1)
        | (True, s1) \<Rightarrow>
            (case make_slots req c s1 (must_overbook req c) of (slots, num, ob, curSlot) \<Rightarrow>
               if num < unat (rq_size req) \<and> (\<not> ob \<or> curSlot = 0 \<or> has_opt PART_OPT_FULL_LIST req) then ((-1, req), s1)
               else ((int (if num < unat (rq_size req) then unat (rq_size req) else num),
                      req\<lparr>rq_slots := slots, rq_size := of_nat curSlot\<rparr>), s1))))"

section \<open>Handling requests\<close>

definition sendPartition :: "nat \<Rightarrow> mstate \<Rightarrow> bool \<times> mstate" where
  "sendPartition r s =
     (let req = m_req s r in
      case m_send s of
        False # bs \<Rightarrow> (False, s\<lparr>m_send := bs\<rparr>)
      | _ \<Rightarrow> (True, plog (EProvide (rq_tid req) (rq_options req) (rq_slots req)) (s\<lparr>m_send := tl (m_send s)\<rparr>)))"

text \<open>The nodes of a request that names none, and one thread per process for full nodes.\<close>

definition all_nodes_req :: "mstate \<Rightarrow> preq \<Rightarrow> preq" where
  "all_nodes_req s q = q\<lparr>rq_nodes := all_nodes s, rq_num := m_nrNodes s\<rparr>"

definition default_nodes :: "nat \<Rightarrow> mstate \<Rightarrow> bool \<times> mstate" where
  "default_nodes r s =
     (if rq_num (m_req s r) \<noteq> 0 then (True, s)
      else (case pmalloc s of (False, s1) \<Rightarrow> (False, s1) | (True, s1) \<Rightarrow> (True, upd_req r (all_nodes_req s1) s1)))"

definition set_errno :: "int \<Rightarrow> mstate \<Rightarrow> mstate" where
  "set_errno e s = s\<lparr>m_errno := e\<rparr>"

text \<open>The rest of \<open>getPartition\<close>, once there are candidates.\<close>

definition use_candidates :: "nat \<Rightarrow> candloop \<Rightarrow> mstate \<Rightarrow> bool \<times> mstate" where
  "use_candidates r c s2 =
     (let s3 = (if has_opt PART_OPT_FULL_LIST (m_req s2 r)
                then upd_req r (\<lambda>q. q\<lparr>rq_size := of_nat (length (so_entries c))\<rparr>) s2 else s2);
          c1 = (if rq_sort (m_req s3 r) \<noteq> PART_SORT_NONE then sortCandidates c else c);
          expected = sint (rq_size (m_req s3 r));
          ((num, req), s4) = createPartition (m_req s3 r) c1 s3;
          s5 = upd_req r (\<lambda>q. req) s4
      in if num < expected then (False, set_errno EAGAIN_NO s5)
         else (case deq_pend r s5 of
                 (False, s6) \<Rightarrow> (False, set_errno EBUSY_NO s6)
               | (True, s6) \<Rightarrow>
                   let s7 = upd_req r (\<lambda>q. q\<lparr>rq_nodes := []\<rparr>) s6
                   in sendPartition r (registerReq r (s7\<lparr>m_run := m_run s7 @ [r]\<rparr>))))"

definition getPartition :: "nat \<Rightarrow> mstate \<Rightarrow> bool \<times> mstate" where
  "getPartition r s =
     (case default_nodes r s of
        (False, s0) \<Rightarrow> (False, set_errno ENOMEM_NO' s0)
      | (True, s0) \<Rightarrow>
          let s1 = (if has_opt PART_OPT_FULL_LIST (m_req s0 r) then upd_req r (\<lambda>q. q\<lparr>rq_tpp := 1\<rparr>) s0 else s0)
          in case getCandidateList (m_req s1 r) s1 of
               (Inl e, s2) \<Rightarrow> (False, set_errno e s2)
             | (Inr c, s2) \<Rightarrow>
                 if so_entries c = [] then (False, set_errno EAGAIN_NO s2) else use_candidates r c s2)"

definition part_res :: "taskid \<Rightarrow> int \<Rightarrow> mstate \<Rightarrow> mstate" where
  "part_res t e = plog (EPartRes t e)"

text \<open>A request that cannot be served now and does not wait is answered and freed.\<close>

definition refuse :: "nat \<Rightarrow> mstate \<Rightarrow> mstate" where
  "refuse r s =
     (case deq_pend r s of (b, s1) \<Rightarrow>
        let s2 = (if b then s1 else set_errno EBUSY_NO s1)
        in PSpart_delReq r (part_res (rq_tid (m_req s2 r)) (m_errno s2) s2))"

fun handle_pending :: "nat list \<Rightarrow> mstate \<Rightarrow> mstate" where
  "handle_pending [] s = s"
| "handle_pending (r # rs) s =
     (case getPartition r s of
        (True, s1) \<Rightarrow> handle_pending rs s1
      | (False, s1) \<Rightarrow>
          if has_opt PART_OPT_WAIT (m_req s1 r) \<and> m_errno s1 \<noteq> ENOSPC_NO then s1
          else handle_pending rs (refuse r s1))"

definition handlePartRequests :: "mstate \<Rightarrow> mstate" where
  "handlePartRequests s =
     (let s1 = (if m_doCleanup s then cleanupReqQueues s else s) in
      if m_stat s1 = None \<or> m_pendingTaskReq s1 \<noteq> 0 \<or> \<not> m_doHandle s1 then s1
      else handle_pending (m_pend s1) (s1\<lparr>m_doHandle := False\<rparr>))"

text \<open>The end of \<open>handleCreatePart\<close>: a decoded request, at the master, with its nodes.\<close>

definition create_part :: "nat \<Rightarrow> mstate \<Rightarrow> mstate" where
  "create_part r s =
     (let s1 = s\<lparr>m_pend := m_pend s @ [r]\<rparr>;
          tid = rq_tid (m_req s1 r)
      in if has_opt PART_OPT_WAIT (m_req s1 r) \<or> m_pendingTaskReq s1 \<noteq> 0 then s1\<lparr>m_doHandle := True\<rparr>
         else (case getPartition r s1 of
                 (True, s2) \<Rightarrow> s2
               | (False, s2) \<Rightarrow>
                   let e = m_errno s2; s3 = snd (deq_pend r s2)
                   in part_res tid e (PSpart_delReq r s3)))"

section \<open>Messages about jobs\<close>

definition master_taskdead :: "taskid \<Rightarrow> mstate \<Rightarrow> mstate" where
  "master_taskdead tid s =
     (if m_stat s = None then s
      else case findPart (m_run s) tid s of
        Some r \<Rightarrow> jobFinished r s
      | None \<Rightarrow> (case findPart (m_susp s) tid s of Some r \<Rightarrow> jobFinished r s | None \<Rightarrow> s))"

text \<open>A message to a task: the end of a sister partition.\<close>

definition sister_taskdead :: "taskid \<Rightarrow> taskid \<Rightarrow> mstate \<Rightarrow> mstate" where
  "sister_taskdead dest tid s =
     (case m_sisters s dest of
        None \<Rightarrow> s
      | Some (logger, sis) \<Rightarrow>
          (case findPart sis tid s of
             None \<Rightarrow> s
           | Some r \<Rightarrow>
               let (b, sis1) = deqPart sis r s;
                   s1 = s\<lparr>m_sisters := (m_sisters s)(dest := Some (logger, sis1))\<rparr>;
                   s2 = (if dest = logger
                         then (let s' = fold (\<lambda>x y. plog (EDeadTo (rq_tid (m_req s x)) tid) y) sis1 s1
                               in if b then plog (EResCleanup dest tid) s' else s')
                         else s1)
               in if b then PSpart_delReq r s2 else s2))"

definition msg_TASKDEAD :: "taskid \<Rightarrow> taskid \<Rightarrow> mstate \<Rightarrow> mstate" where
  "msg_TASKDEAD dest sender s =
     (if PSC_getPID dest \<noteq> 0 then sister_taskdead dest sender s else master_taskdead sender s)"

definition msg_TASKSUSPEND :: "taskid \<Rightarrow> mstate \<Rightarrow> mstate" where
  "msg_TASKSUSPEND sender s =
     (if m_stat s = None then s
      else case findPart (m_run s) sender s of None \<Rightarrow> s | Some r \<Rightarrow> jobSuspended r s)"

definition msg_TASKRESUME :: "taskid \<Rightarrow> mstate \<Rightarrow> mstate" where
  "msg_TASKRESUME sender s =
     (if m_stat s = None then s
      else case findPart (m_susp s) sender s of None \<Rightarrow> s | Some r \<Rightarrow> jobResumed r s)"

definition msg_CANCELPART :: "taskid \<Rightarrow> mstate \<Rightarrow> mstate" where
  "msg_CANCELPART sender s =
     (if m_stat s = None then s
      else case findPart (m_pend s) sender s of None \<Rightarrow> s | Some r \<Rightarrow> drop_pending_req r s)"

section \<open>Becoming the master\<close>

definition send_GETTASKS :: "nodeid \<Rightarrow> mstate \<Rightarrow> int \<times> mstate" where
  "send_GETTASKS n s =
     (if m_stat s = None then (-1, set_errno EINVAL_NO s)
      else if \<not> ni_up (m_info s n) then (-1, set_errno EHOSTDOWN_NO s)
      else if ns_taskReqPending (stat_of n s) \<noteq> 0 then (-1, set_errno EBUSY_NO s)
      else
        let s1 = upd_stat n (\<lambda>x. x\<lparr>ns_taskReqPending := ns_taskReqPending x + 1\<rparr>) s
        in (0, plog (EGetTasks n) (s1\<lparr>m_pendingTaskReq := m_pendingTaskReq s1 + 1\<rparr>)))"

definition fresh_stat :: nodeStat where
  "fresh_stat = \<lparr>ns_assgndThrds = 0, ns_exclusive = False, ns_taskReqPending = 0, ns_CPUset = zero_set\<rparr>"

definition init_stat :: "nodeid \<Rightarrow> mstate \<Rightarrow> mstate" where
  "init_stat n s =
     (let s1 = upd_stat n (\<lambda>x. fresh_stat) s
      in if ni_up (m_info s1 n) then snd (send_GETTASKS n s1) else s1)"

definition alloc_stat :: "mstate \<Rightarrow> bool \<times> mstate" where
  "alloc_stat s = (if m_stat s \<noteq> None then (True, s) else pmalloc s)"

definition initPartHandler :: "mstate \<Rightarrow> mstate" where
  "initPartHandler s =
     (case alloc_stat s of
        (False, s1) \<Rightarrow> s1\<lparr>m_stat := None\<rparr>
      | (True, s1) \<Rightarrow>
          let s2 = (case m_stat s1 of None \<Rightarrow> s1\<lparr>m_stat := Some (\<lambda>n. fresh_stat)\<rparr> | Some st \<Rightarrow> s1)
          in fold init_stat (all_nodes s2) (s2\<lparr>m_pendingTaskReq := 0\<rparr>))"

definition exitPartHandler :: "mstate \<Rightarrow> mstate" where
  "exitPartHandler s =
     (PSpart_clrQueue (m_susp s) (PSpart_clrQueue (m_run s) (PSpart_clrQueue (m_pend s) s)))
       \<lparr>m_pend := [], m_run := [], m_susp := [], m_stat := None\<rparr>"

text \<open>A partition that a task reports to the master, new or changed.\<close>

definition forget_part :: "nat \<Rightarrow> mstate \<Rightarrow> mstate" where
  "forget_part old s = PSpart_delReq old (if \<not> rq_freed (m_req s old) then unregisterReq old s else s)"

definition handleMasterPart :: "nat \<Rightarrow> taskid \<Rightarrow> mstate \<Rightarrow> mstate" where
  "handleMasterPart r sender s =
     (let (old, s1) =
        (case findPart (m_run s) sender s of
           Some q \<Rightarrow> (Some q, snd (deq_run q s))
         | None \<Rightarrow>
             if rq_suspended (m_req s r)
             then (case findPart (m_susp s) sender s of Some q \<Rightarrow> (Some q, snd (deq_susp q s)) | None \<Rightarrow> (None, s))
             else (None, s));
          s2 = (case old of None \<Rightarrow> s1 | Some q \<Rightarrow> forget_part q s1)
      in if rq_suspended (m_req s2 r)
         then (let s3 = (if m_freeOnSuspend s2 then upd_req r (\<lambda>q. q\<lparr>rq_freed := True\<rparr>) s2 else registerReq r s2)
               in s3\<lparr>m_susp := m_susp s3 @ [r]\<rparr>)
         else (let s3 = registerReq r s2 in s3\<lparr>m_run := m_run s3 @ [r]\<rparr>))"

text \<open>The end of the tasks of a node: its part of the pending answers is off.\<close>

definition end_of_tasks :: "nodeid \<Rightarrow> mstate \<Rightarrow> mstate" where
  "end_of_tasks n s =
     (let s1 = s\<lparr>m_pendingTaskReq := m_pendingTaskReq s - sint (ns_taskReqPending (stat_of n s))\<rparr>;
          s2 = upd_stat n (\<lambda>x. x\<lparr>ns_taskReqPending := 0\<rparr>) s1
      in if m_pendingTaskReq s2 = 0 then s2\<lparr>m_doHandle := True\<rparr> else s2)"

end
