(* ===== verification/Part_Account.thy ===== *)
theory Part_Account
  imports Part_Master
begin

text \<open>
  The accounts of the master.  \<open>hold l n c\<close> counts the slots of a list that have CPU \<open>c\<close> of node \<open>n\<close>;
  \<open>acc l s\<close> says that the status of the nodes is the account of the slots \<open>l\<close>: a CPU is marked as used if
  one slot has it, none is in two slots, and the numbers of threads are those of the slots.
\<close>

declare not_None_eq [simp del]

section \<open>CPU sets\<close>

lemma finite_cpus [simp]: "finite (cpus s)"
proof -
  have "cpus s \<subseteq> {..<16 * length s}" by (auto simp: cpus_def has_def)
  then show ?thesis by (rule finite_subset) simp
qed

lemma zero_set_wf [simp]: "cpu_wf zero_set" "cpus zero_set = {}"
  by (auto simp: zero_set_def cpu_wf_def cpus_def has_def)

lemma cpus_below: "cpu_wf s \<Longrightarrow> c \<in> cpus s \<Longrightarrow> c < PSCPU_MAX"
  by (auto simp: cpus_def has_def cpu_wf_def cpu_consts)

lemma getCPUs_None: "snd (PSCPU_getCPUs s None num) = snd (PSCPU_getCPUs s (Some zero_set) num)"
proof -
  have "snd (getCPUs_loop l s num None k) = snd (getCPUs_loop l s num (Some x) k)" for l k x
    by (induction l arbitrary: k x) auto
  then show ?thesis by (simp add: PSCPU_getCPUs_def)
qed

lemma card_cpus_le: "cpu_wf s \<Longrightarrow> card (cpus s) \<le> PSCPU_MAX"
  using card_mono [of "{..<PSCPU_MAX}" "cpus s"] cpus_below by auto

lemma slot_count_card: "cpu_wf (sl_cpus sl) \<Longrightarrow> slot_count sl = card (cpus (sl_cpus sl))"
  using PSCPU_getCPUs_spec [of "sl_cpus sl" zero_set "int PSCPU_MAX"] card_cpus_le [of "sl_cpus sl"]
  by (auto simp: slot_count_def getCPUs_None)

lemma trim_loop_wf: "cpu_wf x \<Longrightarrow> \<exists>y. fst (trim_loop k (Some x) f tpp) = Some y \<and> cpu_wf y"
  by (induction k arbitrary: x f) auto

lemma getUnset_loop_wf: "cpu_wf x \<Longrightarrow> \<exists>y. fst (getUnset_loop l s (Some x) f) = Some y \<and> cpu_wf y"
  by (induction l arbitrary: x f) auto

lemma getUnset_wf: "cpu_wf new \<Longrightarrow> \<exists>y. fst (PSCPU_getUnset s n (Some new) tpp) = Some y \<and> cpu_wf y"
proof -
  assume "cpu_wf new"
  then obtain y where "fst (getUnset_loop [0..<(if n > PSCPU_MAX then PSCPU_MAX else n)] s (Some (PSCPU_clrAll new)) 0) = Some y" "cpu_wf y"
    using getUnset_loop_wf [of "PSCPU_clrAll new"] by (metis cpu_wf_simps(3))
  then show ?thesis using trim_loop_wf [of y]
    by (auto simp: PSCPU_getUnset_def Let_def split: prod.splits)
qed

section \<open>Slots and the CPUs they have\<close>

definition hold :: "slot list \<Rightarrow> nodeid \<Rightarrow> nat \<Rightarrow> nat" where
  "hold l n c = length (filter (\<lambda>sl. sl_node sl = n \<and> c \<in> cpus (sl_cpus sl)) l)"

definition thrds :: "slot list \<Rightarrow> nodeid \<Rightarrow> nat" where
  "thrds l n = sum_list (map (\<lambda>sl. if sl_node sl = n then card (cpus (sl_cpus sl)) else 0) l)"

lemma hold_simps [simp]:
  "hold [] n c = 0"
  "hold (sl # l) n c = of_bool (sl_node sl = n \<and> c \<in> cpus (sl_cpus sl)) + hold l n c"
  "hold (l @ k) n c = hold l n c + hold k n c"
  by (simp_all add: hold_def)

lemma thrds_simps [simp]:
  "thrds [] n = 0"
  "thrds (sl # l) n = (if sl_node sl = n then card (cpus (sl_cpus sl)) else 0) + thrds l n"
  "thrds (l @ k) n = thrds l n + thrds k n"
  by (simp_all add: thrds_def)

lemma hold_mset: "mset l = mset k \<Longrightarrow> hold l n c = hold k n c"
  unfolding hold_def by (simp flip: size_mset add: mset_filter)

lemma thrds_mset: "mset l = mset k \<Longrightarrow> thrds l n = thrds k n"
  unfolding thrds_def by (simp flip: sum_mset_sum_list mset_map) (simp add: mset_map)

definition used :: "nodeid \<Rightarrow> mstate \<Rightarrow> nat set" where
  "used n s = cpus (ns_CPUset (stat_of n s))"

definition acc :: "slot list \<Rightarrow> mstate \<Rightarrow> bool" where
  "acc l s \<longleftrightarrow> m_stat s \<noteq> None \<and> (\<forall>n. cpu_wf (ns_CPUset (stat_of n s))) \<and> (\<forall>sl \<in> set l. cpu_wf (sl_cpus sl))
     \<and> (\<forall>n c. hold l n c = of_bool (c \<in> used n s))
     \<and> (\<forall>n. ns_assgndThrds (stat_of n s) = of_nat (thrds l n))"

lemma acc_mset: "mset l = mset k \<Longrightarrow> acc l s = acc k s"
  using hold_mset [of l k] thrds_mset [of l k] mset_eq_setD [of l k] by (simp add: acc_def)

lemma stat_of_upd_stat:
  "m_stat s \<noteq> None \<Longrightarrow> stat_of k (upd_stat n f s) = (if k = n then f (stat_of n s) else stat_of k s)"
  by (auto simp: stat_of_def upd_stat_def)

lemma upd_stat_simps [simp]:
  "(m_stat (upd_stat n f s) = None) = (m_stat s = None)"
  "m_req (upd_stat n f s) = m_req s" "m_info (upd_stat n f s) = m_info s"
  by (auto simp: upd_stat_def)

lemma stat_of_same: "m_stat s' = m_stat s \<Longrightarrow> stat_of n s' = stat_of n s"
  by (simp add: stat_of_def)

lemma acc_same: "m_stat s' = m_stat s \<Longrightarrow> acc l s' = acc l s"
  using stat_of_same [of s' s] by (simp add: acc_def used_def)

lemma plog_simps [simp]: "m_stat (plog e s) = m_stat s" "m_req (plog e s) = m_req s" "m_info (plog e s) = m_info s"
  by (simp_all add: plog_def)

lemma stat_of_plog [simp]: "stat_of k (plog e s) = stat_of k s"
  by (rule stat_of_same) simp

section \<open>Registering\<close>

lemma register_slot_stat:
  assumes "m_stat s \<noteq> None"
  shows "stat_of k (register_slot req sl s) = (if k = sl_node sl
     then (stat_of k s)\<lparr>ns_assgndThrds := ns_assgndThrds (stat_of k s) + of_nat (slot_count sl),
        ns_CPUset := PSCPU_addCPUs (ns_CPUset (stat_of k s)) (sl_cpus sl),
        ns_exclusive := ns_exclusive (stat_of k s) \<or> has_opt PART_OPT_EXCLUSIVE req \<and> ni_exclusive (m_info s k)\<rparr>
     else stat_of k s)"
    "m_stat (register_slot req sl s) \<noteq> None"
    "m_req (register_slot req sl s) = m_req s"
    "m_info (register_slot req sl s) = m_info s"
  using assms by (cases "stat_of (sl_node sl) s", simp_all add: register_slot_def allocCPUs_def Let_def stat_of_upd_stat, auto)

lemma register_slot_acc:
  assumes a: "acc l s" and wf: "cpu_wf (sl_cpus sl)" and free: "cpus (sl_cpus sl) \<inter> used (sl_node sl) s = {}"
  shows "acc (sl # l) (register_slot req sl s)"
proof -
  have m: "m_stat s \<noteq> None" using a by (simp add: acc_def)
  note st = register_slot_stat [OF m, where req = req and sl = sl]
  have len: "length (sl_cpus sl) = length (ns_CPUset (stat_of n s))" for n
    using a wf by (simp add: acc_def cpu_wf_def)
  have u: "used n (register_slot req sl s) = used n s \<union> (if n = sl_node sl then cpus (sl_cpus sl) else {})" for n
    using len cpus_addCPUs by (auto simp: used_def st(1))
  have "hold (sl # l) n c = of_bool (c \<in> used n (register_slot req sl s))" for n c
    using a free u by (auto simp: acc_def)
  moreover have "cpu_wf (ns_CPUset (stat_of n (register_slot req sl s)))" for n
    using a wf by (auto simp: st(1) acc_def cpu_wf_def PSCPU_addCPUs_def)
  ultimately show ?thesis
    using a wf st(2) by (auto simp: acc_def st(1) slot_count_card)
qed

lemma register_slots_acc:
  assumes "acc l s" "\<forall>sl \<in> set ns. cpu_wf (sl_cpus sl)" "\<forall>n c. hold ns n c + of_bool (c \<in> used n s) \<le> (1::nat)"
  shows "acc (ns @ l) (fold (register_slot req) ns s)"
  using assms
proof (induction ns arbitrary: l s)
  case (Cons sl ns)
  have "cpus (sl_cpus sl) \<inter> used (sl_node sl) s = {}"
  proof (rule ccontr)
    assume "cpus (sl_cpus sl) \<inter> used (sl_node sl) s \<noteq> {}"
    then obtain c where "c \<in> cpus (sl_cpus sl)" "c \<in> used (sl_node sl) s" by blast
    moreover have "hold (sl # ns) (sl_node sl) c + of_bool (c \<in> used (sl_node sl) s) \<le> (1::nat)" using Cons.prems(3) by blast
    ultimately show False by simp
  qed
  then have a: "acc (sl # l) (register_slot req sl s)"
    using register_slot_acc [OF Cons.prems(1), of sl req] Cons.prems(2) by simp
  have h: "hold ns n c + of_bool (c \<in> used n (register_slot req sl s)) \<le> (1::nat)" for n c
  proof -
    have "of_bool (c \<in> used n (register_slot req sl s)) = hold (sl # l) n c" using a unfolding acc_def by metis
    also have "\<dots> = of_bool (sl_node sl = n \<and> c \<in> cpus (sl_cpus sl)) + (of_bool (c \<in> used n s) :: nat)"
      using Cons.prems(1) by (simp add: acc_def)
    finally have e: "(of_bool (c \<in> used n (register_slot req sl s)) :: nat)
        = of_bool (sl_node sl = n \<and> c \<in> cpus (sl_cpus sl)) + of_bool (c \<in> used n s)" .
    have "hold (sl # ns) n c + of_bool (c \<in> used n s) \<le> (1::nat)" using Cons.prems(3) by blast
    then show ?thesis unfolding e by simp
  qed
  have "acc (ns @ (sl # l)) (fold (register_slot req) ns (register_slot req sl s))"
    by (rule Cons.IH [OF a]) (use Cons.prems(2) h in auto)
  then show ?case using acc_mset [of "ns @ sl # l" "sl # ns @ l"] by simp
qed simp

section \<open>Unregistering\<close>

lemma unregister_slot_stat:
  assumes "m_stat s \<noteq> None"
  shows "stat_of k (unregister_slot req sl s) = (if k = sl_node sl
     then (stat_of k s)\<lparr>ns_assgndThrds := ns_assgndThrds (stat_of k s) - of_nat (slot_count sl),
        ns_CPUset := PSCPU_remCPUs (ns_CPUset (stat_of k s)) (sl_cpus sl),
        ns_exclusive := ns_exclusive (stat_of k s)
          \<and> \<not> (has_opt PART_OPT_EXCLUSIVE req \<and> ns_assgndThrds (stat_of k s) - of_nat (slot_count sl) = 0)\<rparr>
     else stat_of k s)"
    "m_stat (unregister_slot req sl s) \<noteq> None"
    "m_req (unregister_slot req sl s) = m_req s"
proof -
  define n c s3 where "n = sl_node sl" and "c = slot_count sl"
    and "s3 = plog (EHintDec n) (freeCPUs n (sl_cpus sl) (upd_stat n (\<lambda>x. x\<lparr>ns_assgndThrds := ns_assgndThrds x - of_nat c\<rparr>) s))"
  have s3: "stat_of k s3 = (if k = n then (stat_of k s)\<lparr>ns_assgndThrds := ns_assgndThrds (stat_of k s) - of_nat c,
        ns_CPUset := PSCPU_remCPUs (ns_CPUset (stat_of k s)) (sl_cpus sl)\<rparr> else stat_of k s)" "m_stat s3 \<noteq> None" for k
    using assms by (simp_all add: s3_def freeCPUs_def stat_of_upd_stat stat_of_plog)
  have "unregister_slot req sl s = (if has_opt PART_OPT_EXCLUSIVE req \<and> ns_assgndThrds (stat_of n s3) = 0
         then upd_stat n (\<lambda>x. x\<lparr>ns_exclusive := False\<rparr>) s3 else s3)"
    by (simp add: unregister_slot_def Let_def s3_def n_def c_def)
  then show "stat_of k (unregister_slot req sl s) = (if k = sl_node sl
     then (stat_of k s)\<lparr>ns_assgndThrds := ns_assgndThrds (stat_of k s) - of_nat (slot_count sl),
        ns_CPUset := PSCPU_remCPUs (ns_CPUset (stat_of k s)) (sl_cpus sl),
        ns_exclusive := ns_exclusive (stat_of k s)
          \<and> \<not> (has_opt PART_OPT_EXCLUSIVE req \<and> ns_assgndThrds (stat_of k s) - of_nat (slot_count sl) = 0)\<rparr>
     else stat_of k s)"
    unfolding n_def [symmetric] c_def [symmetric] by (cases "stat_of n s") (simp add: stat_of_upd_stat s3)
  show "m_stat (unregister_slot req sl s) \<noteq> None" "m_req (unregister_slot req sl s) = m_req s"
    using assms by (simp_all add: unregister_slot_def freeCPUs_def Let_def)
qed

lemma unregister_slot_acc:
  assumes a: "acc (sl # l) s"
  shows "acc l (unregister_slot req sl s)"
proof -
  have m: "m_stat s \<noteq> None" and wf: "cpu_wf (sl_cpus sl)" using a by (simp_all add: acc_def)
  note st = unregister_slot_stat [OF m, where req = req and sl = sl]
  have len: "length (sl_cpus sl) = length (ns_CPUset (stat_of n s))" for n
    using a by (simp add: acc_def cpu_wf_def)
  have u: "used n (unregister_slot req sl s) = used n s - (if n = sl_node sl then cpus (sl_cpus sl) else {})" for n
    using len cpus_remCPUs by (auto simp: used_def st(1))
  have "hold l n c = of_bool (c \<in> used n (unregister_slot req sl s))" for n c
  proof -
    have "of_bool (sl_node sl = n \<and> c \<in> cpus (sl_cpus sl)) + hold l n c = of_bool (c \<in> used n s)"
      using a by (simp add: acc_def)
    then show ?thesis unfolding u by (cases "sl_node sl = n \<and> c \<in> cpus (sl_cpus sl)"; cases "c \<in> used n s") simp_all
  qed
  moreover have "cpu_wf (ns_CPUset (stat_of n (unregister_slot req sl s)))" for n
    using a wf by (auto simp: st(1) acc_def cpu_wf_def PSCPU_remCPUs_def)
  ultimately show ?thesis
    using a wf st(2) by (auto simp: acc_def st(1) slot_count_card)
qed

lemma unregister_slots_acc: "acc (ns @ l) s \<Longrightarrow> acc l (fold (unregister_slot req) ns s)"
  by (induction ns arbitrary: s) (auto intro: unregister_slot_acc)

text \<open>The slots of a request, and the two functions on them.\<close>

definition slots_of :: "preq \<Rightarrow> slot list" where
  "slots_of q = take (unat (rq_size q)) (rq_slots q)"

lemma registerReq_acc:
  assumes "acc l s" "\<forall>sl \<in> set (slots_of (m_req s r)). cpu_wf (sl_cpus sl)"
    "\<forall>n c. hold (slots_of (m_req s r)) n c + of_bool (c \<in> used n s) \<le> (1::nat)"
  shows "acc (slots_of (m_req s r) @ l) (registerReq r s)"
proof (cases "rq_size (m_req s r) = 0 \<or> rq_slots (m_req s r) = []")
  case True
  then have "slots_of (m_req s r) = []" by (auto simp: slots_of_def)
  then show ?thesis using assms(1) True by (auto simp: registerReq_def)
next
  case False
  moreover have "m_stat s \<noteq> None" using assms(1) by (simp add: acc_def)
  ultimately show ?thesis using register_slots_acc [OF assms, of "m_req s r"]
    by (simp add: registerReq_def slots_of_def Let_def)
qed

lemma unregisterReq_acc:
  assumes "acc (slots_of (m_req s r) @ l) s"
  shows "acc l (unregisterReq r s)"
proof (cases "rq_size (m_req s r) = 0 \<or> rq_slots (m_req s r) = []")
  case True
  then have "slots_of (m_req s r) = []" by (auto simp: slots_of_def)
  then show ?thesis using assms True by (auto simp: unregisterReq_def)
next
  case False
  have "m_stat s \<noteq> None" using assms by (simp add: acc_def)
  then have "unregisterReq r s = (fold (unregister_slot (m_req s r)) (slots_of (m_req s r)) s)\<lparr>m_doHandle := True\<rparr>"
    using False by (simp add: unregisterReq_def slots_of_def Let_def)
  moreover have "acc l (x\<lparr>m_doHandle := True\<rparr>) = acc l x" for x by (rule acc_same) simp
  ultimately show ?thesis using unregister_slots_acc [OF assms, of "m_req s r"] by metis
qed

end
