(* ===== verification/Part_Create.thy ===== *)
theory Part_Create
  imports Part_Account
begin

text \<open>
  What \<open>createPartition\<close> hands out: CPUs of usable hardware threads that are free, each at most once, and, without
  over-booking, exactly as many as the processes of the request need.
\<close>

section \<open>Free CPUs\<close>

definition free_of :: "nodeid \<Rightarrow> mstate \<Rightarrow> nat set" where
  "free_of n s = {c. c < clip (usable_bits (m_info s n)) \<and> c \<notin> used n s}"

definition stat_wf :: "mstate \<Rightarrow> bool" where
  "stat_wf s \<longleftrightarrow> (\<forall>n. cpu_wf (ns_CPUset (stat_of n s)))"

lemma acc_stat_wf: "acc l s \<Longrightarrow> stat_wf s"
  by (simp add: acc_def stat_wf_def)

definition free_list :: "nodeid \<Rightarrow> mstate \<Rightarrow> nat list" where
  "free_list n s = filter (\<lambda>c. c \<notin> used n s) [0..<clip (usable_bits (m_info s n))]"

lemma free_list_props: "set (free_list n s) = free_of n s" "distinct (free_list n s)" "sorted (free_list n s)"
  by (auto simp: free_list_def free_of_def sorted_filter [of id, simplified])

lemma getFreeCPUs_spec:
  assumes "stat_wf s"
  shows "\<exists>f. getFreeCPUs n (Some zero_set) tpp s = (Some f, length (free_list n s) - length (free_list n s) mod tpp)
     \<and> cpu_wf f \<and> cpus f = set (take (length (free_list n s) - length (free_list n s) mod tpp) (free_list n s))"
    and "getFreeCPUs n None tpp s = (None, length (free_list n s) - length (free_list n s) mod tpp)"
proof -
  let ?k = "length (free_list n s) - length (free_list n s) mod tpp"
  have w: "cpu_wf (ns_CPUset (stat_of n s))" using assms by (simp add: stat_wf_def)
  note sp = PSCPU_getUnset_spec [OF w zero_set_wf(1), of "free_list n s" "usable_bits (m_info s n)" tpp,
      unfolded free_list_def used_def, OF refl, folded used_def, folded free_list_def]
  from sp(1) obtain f where "getFreeCPUs n (Some zero_set) tpp s = (Some f, ?k)" "cpus f = set (take ?k (free_list n s))"
    by (auto simp: getFreeCPUs_def)
  moreover have "cpu_wf f"
    using getUnset_wf [OF zero_set_wf(1), of "ns_CPUset (stat_of n s)" "usable_bits (m_info s n)" tpp] calculation(1)
    by (auto simp: getFreeCPUs_def)
  ultimately show "\<exists>f. getFreeCPUs n (Some zero_set) tpp s = (Some f, ?k) \<and> cpu_wf f \<and> cpus f = set (take ?k (free_list n s))"
    by blast
  show "getFreeCPUs n None tpp s = (None, ?k)" using sp(2) by (simp add: getFreeCPUs_def)
qed

lemma getFreeCPUs_card:
  assumes "stat_wf s" "getFreeCPUs n (Some zero_set) tpp s = (cs, k)"
  shows "cpu_wf (the cs)" "cpus (the cs) \<subseteq> free_of n s" "card (cpus (the cs)) = k" "tpp dvd k"
proof -
  let ?k = "length (free_list n s) - length (free_list n s) mod tpp"
  from getFreeCPUs_spec(1) [OF assms(1), of n tpp] assms(2)
  obtain f where f: "cs = Some f" "k = ?k" "cpu_wf f" "cpus f = set (take ?k (free_list n s))" by auto
  then show "cpu_wf (the cs)" by simp
  show "cpus (the cs) \<subseteq> free_of n s" using f set_take_subset [of ?k "free_list n s"] free_list_props(1) by simp
  show "card (cpus (the cs)) = k"
    using f distinct_card [OF distinct_take [OF free_list_props(2)], of ?k n s] by simp
  show "tpp dvd k" using f by (simp add: dvd_minus_mod)
qed

lemma getCPUs_card:
  assumes "cpu_wf s" "0 \<le> num" "num \<le> int (card (cpus s))"
  shows "cpu_wf (the (fst (PSCPU_getCPUs s (Some (PSCPU_clrAll zero_set)) num)))"
    "cpus (the (fst (PSCPU_getCPUs s (Some (PSCPU_clrAll zero_set)) num))) \<subseteq> cpus s"
    "card (cpus (the (fst (PSCPU_getCPUs s (Some (PSCPU_clrAll zero_set)) num)))) = nat num"
proof -
  let ?L = "sorted_list_of_set (cpus s)"
  obtain f where f: "PSCPU_getCPUs s (Some (PSCPU_clrAll zero_set)) num = (Some f, length (take (nat num) ?L))"
    "cpu_wf f" "cpus f = set (take (nat num) ?L)"
    using PSCPU_getCPUs_spec [OF assms(1), of "PSCPU_clrAll zero_set" num] by auto
  have "card (cpus f) = length (take (nat num) ?L)"
    using f(3) distinct_card [OF distinct_take, of ?L "nat num"] by simp
  then show "cpu_wf (the (fst (PSCPU_getCPUs s (Some (PSCPU_clrAll zero_set)) num)))"
    "cpus (the (fst (PSCPU_getCPUs s (Some (PSCPU_clrAll zero_set)) num))) \<subseteq> cpus s"
    "card (cpus (the (fst (PSCPU_getCPUs s (Some (PSCPU_clrAll zero_set)) num)))) = nat num"
    using f assms set_take_subset [of "nat num" ?L] by auto
qed

section \<open>User-defined partitions\<close>

text \<open>New slots: on nodes of their own, of free CPUs.\<close>

definition good_slots :: "mstate \<Rightarrow> nodeid list \<Rightarrow> slot list \<Rightarrow> bool" where
  "good_slots s old ns \<longleftrightarrow> distinct (map sl_node ns) \<and> set (map sl_node ns) \<inter> set old = {}
     \<and> (\<forall>sl \<in> set ns. cpu_wf (sl_cpus sl) \<and> cpus (sl_cpus sl) \<subseteq> free_of (sl_node sl) s \<and> cpus (sl_cpus sl) \<noteq> {})"

definition total_cpus :: "slot list \<Rightarrow> nat" where
  "total_cpus l = sum_list (map (\<lambda>sl. card (cpus (sl_cpus sl))) l)"

lemma total_simps [simp]: "total_cpus [] = 0" "total_cpus (sl # l) = card (cpus (sl_cpus sl)) + total_cpus l" "total_cpus (l @ k) = total_cpus l + total_cpus k"
  by (simp_all add: total_cpus_def)

text \<open>The CPUs that one turn of the loop takes from a node, and the processes they are for.\<close>

lemma turn_cpus:
  assumes wf: "stat_wf s" and g: "getFreeCPUs n (Some zero_set) (rq_tpp req) s = (cs, k)" and k: "k \<noteq> 0" and num: "num < want"
    and tpp: "0 < rq_tpp req"
    and num1: "num1 = num + (if has_opt PART_OPT_FULL_LIST req then 1 else k div rq_tpp req)"
    and r: "(num2, cset2) = (if num1 > want then (want, the (fst (PSCPU_getCPUs (the cs) (Some (PSCPU_clrAll zero_set))
                               (int k - (int num1 - int want) * int (rq_tpp req))))) else (num1, the cs))"
  shows "cpu_wf cset2" "cpus cset2 \<subseteq> free_of n s" "cpus cset2 \<noteq> {}" "num < num2" "num2 \<le> want"
    "\<not> has_opt PART_OPT_FULL_LIST req \<Longrightarrow> card (cpus cset2) + num * rq_tpp req = num2 * rq_tpp req"
proof -
  note c = getFreeCPUs_card [OF wf g]
  obtain q where q: "k = q * rq_tpp req" using c(4) by (metis dvdE mult.commute)
  have q0: "0 < q" and kd: "k div rq_tpp req = q" using q k tpp by auto
  have ne: "cpus (the cs) \<noteq> {}" using c(3) k by auto
  have "cpu_wf cset2 \<and> cpus cset2 \<subseteq> free_of n s \<and> cpus cset2 \<noteq> {} \<and> num < num2 \<and> num2 \<le> want
     \<and> (\<not> has_opt PART_OPT_FULL_LIST req \<longrightarrow> card (cpus cset2) + num * rq_tpp req = num2 * rq_tpp req)"
  proof (cases "num1 > want")
    case False
    then show ?thesis using r c ne q q0 kd num1 num by (auto simp: algebra_simps)
  next
    case True
    then have nf: "\<not> has_opt PART_OPT_FULL_LIST req" using num1 num by auto
    then have n1: "num1 = num + q" using num1 kd by simp
    let ?m = "int k - (int num1 - int want) * int (rq_tpp req)"
    have m: "?m = int ((want - num) * rq_tpp req)"
      using n1 q num by (simp add: algebra_simps of_nat_diff)
    have le: "(want - num) * rq_tpp req \<le> k" using n1 True unfolding q by (intro mult_le_mono1) simp
    have b: "0 \<le> ?m" "?m \<le> int (card (cpus (the cs)))" unfolding m c(3) using le by (simp_all del: of_nat_mult)
    note d = getCPUs_card [OF c(1) b]
    have cs2: "cset2 = the (fst (PSCPU_getCPUs (the cs) (Some (PSCPU_clrAll zero_set)) ?m))" "num2 = want" using r True by simp_all
    have cd: "card (cpus cset2) = (want - num) * rq_tpp req" using d(3) unfolding cs2(1) [symmetric] by (simp only: m nat_int)
    moreover have "0 < (want - num) * rq_tpp req" using num tpp by simp
    ultimately have "cpus cset2 \<noteq> {}" by auto
    moreover have "card (cpus cset2) + num * rq_tpp req = num2 * rq_tpp req"
      using cd cs2(2) num by (simp flip: distrib_right)
    ultimately show ?thesis using d c(2) num unfolding cs2(1) [symmetric] cs2(2) by auto
  qed
  then show "cpu_wf cset2" "cpus cset2 \<subseteq> free_of n s" "cpus cset2 \<noteq> {}" "num < num2" "num2 \<le> want"
    "\<not> has_opt PART_OPT_FULL_LIST req \<Longrightarrow> card (cpus cset2) + num * rq_tpp req = num2 * rq_tpp req" by blast+
qed

lemma user_loop_spec:
  assumes "stat_wf s" "0 < rq_tpp req" "num \<le> want"
  shows "\<exists>ns num' ob'. user_loop req want s es old slots num ob = (slots @ ns, num', ob')
     \<and> good_slots s old ns \<and> num + length ns \<le> num' \<and> num' \<le> want \<and> (ob' \<longrightarrow> ob)
     \<and> (\<not> has_opt PART_OPT_FULL_LIST req \<longrightarrow> total_cpus ns + num * rq_tpp req = num' * rq_tpp req)"
  using assms(3)
proof (induction es arbitrary: old slots num ob)
  case Nil
  then show ?case by (simp add: good_slots_def)
next
  case (Cons e es)
  show ?case
  proof (cases "\<not> num < want \<or> se_id e \<in> set old")
    case True
    then show ?thesis using Cons by (auto simp: good_slots_def)
  next
    case False
    obtain cs k where g: "getFreeCPUs (se_id e) (Some zero_set) (rq_tpp req) s = (cs, k)" by fastforce
    show ?thesis
    proof (cases "k = 0")
      case True
      then show ?thesis using Cons.prems False g by (auto simp: good_slots_def)
    next
      case k: False
      define num1 where "num1 = num + (if has_opt PART_OPT_FULL_LIST req then 1 else k div rq_tpp req)"
      obtain num2 cset2 where r: "(num2, cset2) = (if num1 > want then (want, the (fst (PSCPU_getCPUs (the cs) (Some (PSCPU_clrAll zero_set))
                               (int k - (int num1 - int want) * int (rq_tpp req))))) else (num1, the cs))" by (metis surj_pair)
      have num: "num < want" using False by simp
      note t = turn_cpus [OF assms(1) g k num assms(2) num1_def r]
      let ?sl = "\<lparr>sl_node = se_id e, sl_cpus = cset2\<rparr>"
      have u: "user_loop req want s (e # es) old slots num ob = user_loop req want s es (se_id e # old) (slots @ [?sl]) num2 ob"
        using False g k r by (simp add: num1_def [symmetric] Let_def split: prod.splits) (metis prod.inject)
      obtain ns num' ob' where ih: "user_loop req want s es (se_id e # old) (slots @ [?sl]) num2 ob = ((slots @ [?sl]) @ ns, num', ob')"
        "good_slots s (se_id e # old) ns" "num2 + length ns \<le> num'" "num' \<le> want" "ob' \<longrightarrow> ob"
        "\<not> has_opt PART_OPT_FULL_LIST req \<longrightarrow> total_cpus ns + num2 * rq_tpp req = num' * rq_tpp req"
        using Cons.IH [OF t(5), of "se_id e # old" "slots @ [?sl]" ob] by blast
      have "good_slots s old (?sl # ns)" using ih(2) t(1-3) False by (auto simp: good_slots_def)
      moreover have "\<not> has_opt PART_OPT_FULL_LIST req \<longrightarrow> total_cpus (?sl # ns) + num * rq_tpp req = num' * rq_tpp req"
        using ih(6) t(6) by auto
      moreover have "num + length (?sl # ns) \<le> num'" using ih(3) t(4) by simp
      ultimately show ?thesis using u ih by (intro exI [of _ "?sl # ns"]) auto
    qed
  qed
qed

text \<open>Slots on nodes of their own have each CPU once.\<close>

lemma good_slots_hold: "good_slots s old ns \<Longrightarrow> hold ns n c + of_bool (c \<in> used n s) \<le> (1::nat)"
proof (induction ns arbitrary: old)
  case (Cons sl ns)
  have g: "good_slots s (sl_node sl # old) ns" using Cons.prems by (auto simp: good_slots_def)
  have "hold ns n c = 0" if "sl_node sl = n"
  proof -
    have "n \<notin> sl_node ` set ns" using Cons.prems that by (simp add: good_slots_def)
    then have "\<forall>x \<in> set ns. sl_node x \<noteq> n" by auto
    then show ?thesis by (simp add: hold_def)
  qed
  moreover have "c \<notin> used n s" if "sl_node sl = n" "c \<in> cpus (sl_cpus sl)"
    using Cons.prems that by (auto simp: good_slots_def free_of_def)
  ultimately show ?case using Cons.IH [OF g] by auto
qed simp

section \<open>Exact partitions\<close>

text \<open>How many candidates have a CPU, and what is left of a node for more candidates.\<close>

definition ehold :: "sortentry list \<Rightarrow> nodeid \<Rightarrow> nat \<Rightarrow> nat" where
  "ehold es n c = length (filter (\<lambda>e. se_id e = n \<and> c \<in> cpus (se_CPUset e)) es)"

lemma ehold_simps [simp]:
  "ehold [] n c = 0"
  "ehold (e # es) n c = of_bool (se_id e = n \<and> c \<in> cpus (se_CPUset e)) + ehold es n c"
  "ehold (es @ fs) n c = ehold es n c + ehold fs n c"
  by (simp_all add: ehold_def)

definition left :: "mstate \<Rightarrow> candloop \<Rightarrow> nodeid \<Rightarrow> nat \<Rightarrow> bool" where
  "left s c n k \<longleftrightarrow> (case cl_tmp c n of None \<Rightarrow> k \<notin> used n s | Some f \<Rightarrow> k \<in> cpus f)"

definition cand_ok :: "mstate \<Rightarrow> candloop \<Rightarrow> bool" where
  "cand_ok s c \<longleftrightarrow> (\<forall>n f. cl_tmp c n = Some f \<longrightarrow> cpu_wf f)
     \<and> (\<forall>e \<in> set (so_entries c). cpu_wf (se_CPUset e))
     \<and> (\<forall>n k. ehold (so_entries c) n k + of_bool (left s c n k) + of_bool (k \<in> used n s) \<le> (1::nat))"

lemma cand_empty_ok: "cand_ok s cand_empty"
  by (auto simp: cand_ok_def cand_empty_def left_def)

lemma take_node_append: "take_node k n es = (a, b) \<Longrightarrow> es = a @ b \<and> (\<forall>e \<in> set a. se_id e = n) \<and> length a \<le> k"
  by (induction k n es arbitrary: a b rule: take_node.induct) (auto split: if_splits prod.splits)

lemma fold_add_cpus:
  assumes "cpu_wf (sl_cpus sl)" "\<forall>e \<in> set es. cpu_wf (se_CPUset e)"
  defines "r \<equiv> fold (\<lambda>e sl. sl\<lparr>sl_cpus := PSCPU_addCPUs (sl_cpus sl) (se_CPUset e)\<rparr>) es sl"
  shows "cpu_wf (sl_cpus r) \<and> sl_node r = sl_node sl \<and> cpus (sl_cpus r) = cpus (sl_cpus sl) \<union> (\<Union>e \<in> set es. cpus (se_CPUset e))"
  using assms(1,2) unfolding r_def
proof (induction es arbitrary: sl)
  case (Cons e es)
  let ?sl = "sl\<lparr>sl_cpus := PSCPU_addCPUs (sl_cpus sl) (se_CPUset e)\<rparr>"
  have len: "length (se_CPUset e) = length (sl_cpus sl)" using Cons.prems by (simp add: cpu_wf_def)
  have w: "cpu_wf (sl_cpus ?sl)" using Cons.prems len by (simp add: cpu_wf_def PSCPU_addCPUs_def)
  show ?case using Cons.IH [OF w] Cons.prems cpus_addCPUs [OF len] by auto
qed auto

lemma ehold_ge: "e \<in> set es \<Longrightarrow> se_id e = n \<Longrightarrow> c \<in> cpus (se_CPUset e) \<Longrightarrow> 1 \<le> ehold es n c"
  by (induction es) auto

lemma add_cpus_hold:
  assumes own: "\<forall>e \<in> set own. se_id e = n \<and> cpu_wf (se_CPUset e)" and wf: "\<forall>sl \<in> set slots. cpu_wf (sl_cpus sl)"
  shows "hold (add_cpus own (cur_slot n slots)) m c \<le> hold slots m c + ehold own m c"
    "\<forall>sl \<in> set (add_cpus own (cur_slot n slots)). cpu_wf (sl_cpus sl)"
    "add_cpus own (cur_slot n slots) \<noteq> []"
proof -
  obtain bl la where c: "cur_slot n slots = bl @ [la]" "sl_node la = n" "cpu_wf (sl_cpus la)" "\<forall>sl \<in> set bl. cpu_wf (sl_cpus sl)"
    "\<forall>m c. hold (bl @ [la]) m c = hold slots m c"
  proof (cases "slots = [] \<or> sl_node (last slots) \<noteq> n")
    case True
    then show ?thesis using wf that [of slots "\<lparr>sl_node = n, sl_cpus = zero_set\<rparr>"] by (auto simp: cur_slot_def)
  next
    case False
    then have "slots = butlast slots @ [last slots]" by simp
    then show ?thesis using False wf that [of "butlast slots" "last slots"]
      by (auto simp: cur_slot_def dest: in_set_butlastD)
  qed
  let ?la = "fold (\<lambda>e sl. sl\<lparr>sl_cpus := PSCPU_addCPUs (sl_cpus sl) (se_CPUset e)\<rparr>) own la"
  note f = fold_add_cpus [OF c(3), of own]
  have a: "add_cpus own (cur_slot n slots) = bl @ [?la]" by (simp add: add_cpus_def c(1))
  have "of_bool (sl_node ?la = m \<and> c \<in> cpus (sl_cpus ?la)) \<le> of_bool (sl_node la = m \<and> c \<in> cpus (sl_cpus la)) + ehold own m c"
    using f own c(2) ehold_ge [of _ own m c] by fastforce
  then show "hold (add_cpus own (cur_slot n slots)) m c \<le> hold slots m c + ehold own m c"
    using c(5) [rule_format, of m c] unfolding a by simp
  show "\<forall>sl \<in> set (add_cpus own (cur_slot n slots)). cpu_wf (sl_cpus sl)" "add_cpus own (cur_slot n slots) \<noteq> []"
    using c f own unfolding a by auto
qed

lemma exact_loop_hold:
  assumes "\<forall>e \<in> set es. cpu_wf (se_CPUset e)" "\<forall>sl \<in> set slots. cpu_wf (sl_cpus sl)" "exact_loop k tpp es slots num = (r, num')"
  shows "hold r m c \<le> hold slots m c + ehold es m c \<and> (\<forall>sl \<in> set r. cpu_wf (sl_cpus sl)) \<and> num' \<le> num + k"
  using assms
proof (induction k arbitrary: es slots num)
  case (Suc k)
  show ?case
  proof (cases es)
    case Nil
    then show ?thesis using Suc.prems by auto
  next
    case (Cons e es')
    obtain own rest where t: "take_node tpp (se_id e) es = (own, rest)" by fastforce
    note tn = take_node_append [OF t]
    have own: "\<forall>x \<in> set own. se_id x = se_id e \<and> cpu_wf (se_CPUset x)" using tn Suc.prems(1) by auto
    note a = add_cpus_hold [OF own Suc.prems(2)]
    let ?s1 = "add_cpus own (cur_slot (se_id e) slots)"
    have rest: "\<forall>x \<in> set rest. cpu_wf (se_CPUset x)" using tn Suc.prems(1) by auto
    have eh: "ehold es m c = ehold own m c + ehold rest m c" using tn by simp
    show ?thesis
    proof (cases "length own < tpp")
      case True
      then show ?thesis using Suc.prems(3) t a(1) [of m c] a(2) eh Cons by (auto simp: Let_def)
    next
      case False
      then have "exact_loop k tpp rest ?s1 (num + 1) = (r, num')" using Suc.prems(3) t Cons by (simp add: Let_def)
      from Suc.IH [OF rest a(2) this] show ?thesis using a(1) [of m c] eh by auto
    qed
  qed
qed auto

lemma insert_cand_mset: "mset (insert_cand e es) = add_mset e (mset es)"
  by (induction e es rule: insert_cand.induct) auto

lemma sortCandidates_mset: "mset (so_entries (sortCandidates c)) = mset (so_entries c)"
proof -
  have "mset (foldr insert_cand es []) = mset es" for es by (induction es) (auto simp: insert_cand_mset)
  then show ?thesis by (simp add: sortCandidates_def)
qed

lemma ehold_mset: "mset es = mset fs \<Longrightarrow> ehold es n c = ehold fs n c"
  unfolding ehold_def by (simp flip: size_mset add: mset_filter)

lemma sortCandidates_ok: "cand_ok s (sortCandidates c) = cand_ok s c"
proof -
  have "cl_tmp (sortCandidates c) = cl_tmp c" by (simp add: sortCandidates_def)
  then show ?thesis unfolding cand_ok_def left_def
    by (simp only: ehold_mset [OF sortCandidates_mset [of c]] mset_eq_setD [OF sortCandidates_mset [of c]])
qed

section \<open>The list of candidates\<close>

lemma avail_of_ok:
  assumes wf: "stat_wf s" and ok: "cand_ok s c" and a: "avail_of n req s c = (cpu, k, c1)"
  shows "cand_ok s c1" "cpu_wf cpu" "so_entries c1 = so_entries c"
    "has_opt PART_OPT_EXACT req \<Longrightarrow> \<exists>f. cl_tmp c1 n = Some f \<and> cpus cpu \<subseteq> cpus f \<and> card (cpus cpu) = k"
    "\<not> has_opt PART_OPT_EXACT req \<Longrightarrow> cpu = zero_set \<and> c1 = c"
proof -
  have "cand_ok s c1 \<and> cpu_wf cpu \<and> so_entries c1 = so_entries c
    \<and> (has_opt PART_OPT_EXACT req \<longrightarrow> (\<exists>f. cl_tmp c1 n = Some f \<and> cpus cpu \<subseteq> cpus f \<and> card (cpus cpu) = k))
    \<and> (\<not> has_opt PART_OPT_EXACT req \<longrightarrow> cpu = zero_set \<and> c1 = c)"
  proof (cases "has_opt PART_OPT_EXACT req")
    case False
    then show ?thesis using a ok by (auto simp: avail_of_def)
  next
    case True
    define f where "f = (case cl_tmp c n of Some f \<Rightarrow> f | None \<Rightarrow> the (fst (getFreeCPUs n (Some zero_set) (rq_tpp req) s)))"
    obtain fs fk where g: "getFreeCPUs n (Some zero_set) (rq_tpp req) s = (fs, fk)" by fastforce
    have f: "cpu_wf f" "\<forall>k. k \<in> cpus f \<longrightarrow> left s c n k"
      using getFreeCPUs_card(1,2) [OF wf g] g ok
      by (auto simp: f_def left_def cand_ok_def free_of_def split: option.splits)
    obtain one where o: "PSCPU_getCPUs f (Some zero_set) 1 = (Some one, k)" "cpu_wf one" "cpus one \<subseteq> cpus f" "card (cpus one) = k"
      "cpu = one" "c1 = c\<lparr>cl_tmp := (cl_tmp c)(n := Some f)\<rparr>"
    proof -
      let ?L = "sorted_list_of_set (cpus f)"
      obtain one where "PSCPU_getCPUs f (Some zero_set) 1 = (Some one, length (take (nat 1) ?L))" "cpu_wf one" "cpus one = set (take (nat 1) ?L)"
        using PSCPU_getCPUs_spec [OF f(1) zero_set_wf(1), of 1] by blast
      then show ?thesis using that [of one] a True set_take_subset [of "nat 1" ?L] distinct_card [OF distinct_take, of ?L "nat 1"]
        by (simp add: avail_of_def f_def [symmetric])
    qed
    have "ehold (so_entries c) m x + of_bool (left s c1 m x) + of_bool (x \<in> used m s) \<le> (1::nat)" for m x
    proof -
      have "ehold (so_entries c) m x + of_bool (left s c m x) + of_bool (x \<in> used m s) \<le> (1::nat)" using ok by (simp add: cand_ok_def)
      moreover have "left s c1 m x \<longrightarrow> left s c m x" using f(2) by (auto simp: left_def o(6))
      ultimately show ?thesis by (auto split: if_splits)
    qed
    then have "cand_ok s c1" using ok f(1) by (simp add: cand_ok_def o(6))
    then show ?thesis using True o by simp
  qed
  then show "cand_ok s c1" "cpu_wf cpu" "so_entries c1 = so_entries c"
    "has_opt PART_OPT_EXACT req \<Longrightarrow> \<exists>f. cl_tmp c1 n = Some f \<and> cpus cpu \<subseteq> cpus f \<and> card (cpus cpu) = k"
    "\<not> has_opt PART_OPT_EXACT req \<Longrightarrow> cpu = zero_set \<and> c1 = c" by blast+
qed

text \<open>\<open>add_entry\<close> in one equation for the two fields that matter.\<close>

lemma add_entry_fields:
  assumes "add_entry n req cpu k s c = Some c2"
  shows "\<exists>e. so_entries c2 = so_entries c @ [e] \<and> se_id e = n \<and> se_CPUset e = cpu"
    "cl_tmp c2 = (if has_opt PART_OPT_EXACT req then (cl_tmp c)(n := map_option (\<lambda>f. PSCPU_remCPUs f cpu) (cl_tmp c n)) else cl_tmp c)"
  using assms by (auto simp: add_entry_def Let_def split: if_splits option.splits)

lemma add_entry_ok:
  assumes ok: "cand_ok s c" and w: "cpu_wf cpu" and a: "add_entry n req cpu k s c = Some c2"
    and ex: "has_opt PART_OPT_EXACT req \<Longrightarrow> \<exists>f. cl_tmp c n = Some f \<and> cpus cpu \<subseteq> cpus f"
    and ne: "\<not> has_opt PART_OPT_EXACT req \<Longrightarrow> cpu = zero_set"
  shows "cand_ok s c2"
proof -
  obtain e where e: "so_entries c2 = so_entries c @ [e]" "se_id e = n" "se_CPUset e = cpu" using add_entry_fields(1) [OF a] by blast
  note t = add_entry_fields(2) [OF a]
  have b: "ehold (so_entries c) m x + of_bool (left s c m x) + of_bool (x \<in> used m s) \<le> (1::nat)" for m x using ok by (simp add: cand_ok_def)
  have l: "of_bool (m = n \<and> x \<in> cpus cpu) + of_bool (left s c2 m x) \<le> (of_bool (left s c m x) :: nat)" for m x
  proof (cases "has_opt PART_OPT_EXACT req")
    case True
    then obtain f where f: "cl_tmp c n = Some f" "cpus cpu \<subseteq> cpus f" using ex by blast
    have len: "length cpu = length f" using ok w f(1) by (simp add: cand_ok_def cpu_wf_def)
    show ?thesis using f True cpus_remCPUs [OF len] by (auto simp: left_def t)
  next
    case False
    then show ?thesis using ne by (simp add: left_def t)
  qed
  have "ehold (so_entries c2) m x + of_bool (left s c2 m x) + of_bool (x \<in> used m s) \<le> (1::nat)" for m x
  proof -
    have "of_bool (se_id e = n' \<and> P) = (of_bool (n' = n \<and> P) :: nat)" for n' P using e(2) by auto
    from this [of m "x \<in> cpus cpu"] show ?thesis using b [of m x] l [of m x] unfolding e(1) ehold_simps e(3) by linarith
  qed
  moreover have "cpu_wf f" if "cl_tmp c2 m = Some f" for m f
    using ok w that by (auto simp: cand_ok_def t cpu_wf_def PSCPU_remCPUs_def split: if_splits)
  ultimately show ?thesis using ok w e by (auto simp: cand_ok_def)
qed

lemma tally_same [simp]: "cl_tmp (tally n req k s c) = cl_tmp c" "so_entries (tally n req k s c) = so_entries c"
  by (simp_all add: tally_def Let_def)

lemma cand_ok_same: "cl_tmp c' = cl_tmp c \<Longrightarrow> so_entries c' = so_entries c \<Longrightarrow> cand_ok s c' = cand_ok s c"
  by (simp add: cand_ok_def left_def)

lemma cand_step_ok:
  assumes wf: "stat_wf s" and ok: "cand_ok s c" and st: "cand_step req s n (Inr c) = Inr c'"
  shows "cand_ok s c'"
proof (cases "PSC_validNode (m_nrNodes s) n \<and> nodeOK n req s")
  case False
  then show ?thesis using ok st by (auto simp: cand_step_def split: if_splits)
next
  case True
  obtain cpu k c1 where a: "avail_of n req s c = (cpu, k, c1)" by (metis surj_pair)
  note av = avail_of_ok [OF wf ok a]
  define ent where "ent = (if k \<noteq> 0 \<and> nodeAvail n req (getAssignedThreads n s) s then add_entry n req cpu k s c1 else Some c1)"
  obtain c2 where e: "ent = Some c2"
    using st True a by (cases ent) (simp_all add: cand_step_def ent_def)
  have ok2: "cand_ok s c2"
  proof (cases "k \<noteq> 0 \<and> nodeAvail n req (getAssignedThreads n s) s")
    case True
    then show ?thesis using e add_entry_ok [OF av(1,2), of n req k c2] av(4,5) by (auto simp: ent_def)
  next
    case False
    then have "ent = Some c1" unfolding ent_def by (rule if_not_P)
    then show ?thesis using e av(1) by simp
  qed
  have "cand_step req s n (Inr c) = (case ent of None \<Rightarrow> Inl EINVAL_NO
     | Some c2 \<Rightarrow> if \<not> has_opt PART_OPT_EXACT req
         then (if cl_tmp c2 n \<noteq> None then Inr c2 else Inr (tally n req k s (c2\<lparr>cl_tmp := (cl_tmp c2)(n := Some zero_set)\<rparr>)))
         else Inr (tally n req k s c2))"
    using True a by (simp add: cand_step_def ent_def)
  then have c': "c' = (if \<not> has_opt PART_OPT_EXACT req \<and> cl_tmp c2 n \<noteq> None then c2
      else tally n req k s (if has_opt PART_OPT_EXACT req then c2 else c2\<lparr>cl_tmp := (cl_tmp c2)(n := Some zero_set)\<rparr>))"
    using st e by (cases "has_opt PART_OPT_EXACT req"; cases "cl_tmp c2 n") simp_all
  have "cand_ok s (c2\<lparr>cl_tmp := (cl_tmp c2)(n := Some zero_set)\<rparr>)"
    unfolding cand_ok_def
  proof (intro conjI allI impI)
    show "cpu_wf f" if "cl_tmp (c2\<lparr>cl_tmp := (cl_tmp c2)(n := Some zero_set)\<rparr>) m = Some f" for m f
      using that ok2 by (auto simp: cand_ok_def split: if_splits)
    show "\<forall>e \<in> set (so_entries (c2\<lparr>cl_tmp := (cl_tmp c2)(n := Some zero_set)\<rparr>)). cpu_wf (se_CPUset e)"
      using ok2 by (simp add: cand_ok_def)
    show "ehold (so_entries (c2\<lparr>cl_tmp := (cl_tmp c2)(n := Some zero_set)\<rparr>)) m x
        + of_bool (left s (c2\<lparr>cl_tmp := (cl_tmp c2)(n := Some zero_set)\<rparr>) m x) + of_bool (x \<in> used m s) \<le> (1::nat)" for m x
    proof -
      have "ehold (so_entries c2) m x + of_bool (left s c2 m x) + of_bool (x \<in> used m s) \<le> (1::nat)" using ok2 by (simp add: cand_ok_def)
      then show ?thesis by (auto simp: left_def split: if_splits)
    qed
  qed
  then show ?thesis using ok2 cand_ok_same [of "tally n req k s x" x s for x] by (simp add: c')
qed

lemma cand_fold_ok: "stat_wf s \<Longrightarrow> cand_ok s c \<Longrightarrow> fold (cand_step req s) ns (Inr c) = Inr c' \<Longrightarrow> cand_ok s c'"
proof (induction ns arbitrary: c)
  case (Cons n ns)
  have inl: "fold (cand_step req s) ns (Inl e) = Inl e" for e by (induction ns) (auto simp: cand_step_def)
  show ?case
  proof (cases "cand_step req s n (Inr c)")
    case (Inl e)
    then show ?thesis using Cons.prems(3) inl by simp
  next
    case (Inr c2)
    then show ?thesis using Cons.IH [OF Cons.prems(1) cand_step_ok [OF Cons.prems(1,2) Inr]] Cons.prems(3) by simp
  qed
qed simp

section \<open>The partition\<close>

text \<open>A partition that may be registered: its CPUs are not in use and none is in two slots.\<close>

definition fresh_slots :: "slot list \<Rightarrow> mstate \<Rightarrow> bool" where
  "fresh_slots l s \<longleftrightarrow> (\<forall>sl \<in> set l. cpu_wf (sl_cpus sl)) \<and> (\<forall>n c. hold l n c + of_bool (c \<in> used n s) \<le> (1::nat))"

lemma fresh_slots_take: "fresh_slots l s \<Longrightarrow> fresh_slots (take k l) s"
proof -
  assume f: "fresh_slots l s"
  have "hold (take k l) n c \<le> hold l n c" for n c
    by (metis append_take_drop_id hold_simps(3) le_add1)
  then have "hold (take k l) n c + of_bool (c \<in> used n s) \<le> (1::nat)" for n c
    using f unfolding fresh_slots_def by (meson add_right_mono le_trans)
  then show ?thesis using f by (auto simp: fresh_slots_def dest: in_set_takeD)
qed

lemma pmalloc_only_mem: "pmalloc s = (b, s') \<Longrightarrow> \<exists>m. s' = s\<lparr>m_mem := m\<rparr>"
  by (cases "m_mem s") (auto simp: pmalloc_def intro: exI [of _ "[]"])

lemma mem_used [simp]: "used n (s\<lparr>m_mem := m\<rparr>) = used n s"
  by (simp add: used_def stat_of_def)

lemma mem_left [simp]: "left (s\<lparr>m_mem := m\<rparr>) c n k = left s c n k"
  by (simp add: left_def split: option.split)

lemma mem_same [simp]:
  "stat_of n (s\<lparr>m_mem := m\<rparr>) = stat_of n s" "free_of n (s\<lparr>m_mem := m\<rparr>) = free_of n s"
  "stat_wf (s\<lparr>m_mem := m\<rparr>) = stat_wf s" "fresh_slots l (s\<lparr>m_mem := m\<rparr>) = fresh_slots l s" "cand_ok (s\<lparr>m_mem := m\<rparr>) c = cand_ok s c"
  by (simp_all add: stat_of_def free_of_def stat_wf_def fresh_slots_def cand_ok_def)

lemma getCandidateList_ok:
  assumes "stat_wf s" "getCandidateList req s = (Inr c, s')"
  shows "cand_ok s c" "\<exists>m. s' = s\<lparr>m_mem := m\<rparr>"
proof -
  obtain b s1 where p: "pmalloc s = (b, s1)" by fastforce
  then obtain m where m: "s1 = s\<lparr>m_mem := m\<rparr>" using pmalloc_only_mem by blast
  have "fold (cand_step req s1) (take (unat (rq_num req)) (rq_nodes req)) (Inr cand_empty) = Inr c \<and> s' = s1"
    using assms(2) p by (auto simp: getCandidateList_def split: bool.splits sum.splits if_splits)
  then have "cand_ok s1 c" "s' = s1" using cand_fold_ok [of s1 cand_empty] cand_empty_ok assms(1) m by auto
  then show "cand_ok s c" "\<exists>m. s' = s\<lparr>m_mem := m\<rparr>" using m by auto
qed

lemma createPartition_cases:
  assumes "createPartition req c s = ((num, req'), s')"
  shows "\<exists>m. s' = s\<lparr>m_mem := m\<rparr>"
    "num = -1 \<and> req' = req \<or> (\<exists>m sl k ob1 cs. make_slots req c (s\<lparr>m_mem := m\<rparr>) (must_overbook req c) = (sl, k, ob1, cs)
       \<and> (k < unat (rq_size req) \<longrightarrow> ob1)
       \<and> num = int (if k < unat (rq_size req) then unat (rq_size req) else k)
       \<and> req' = req\<lparr>rq_slots := sl, rq_size := of_nat cs\<rparr>)"
proof -
  obtain b s1 where p: "pmalloc s = (b, s1)" by fastforce
  obtain m where m: "s1 = s\<lparr>m_mem := m\<rparr>" using pmalloc_only_mem [OF p] by blast
  obtain sl k ob1 cs where ms: "make_slots req c s1 (must_overbook req c) = (sl, k, ob1, cs)" by (metis surj_pair)
  have r: "createPartition req c s =
      (if must_overbook req c \<and> \<not> so_allPin c then ((-1, req), s)
       else if \<not> b then ((-1, req), s1)
       else if k < unat (rq_size req) \<and> (\<not> ob1 \<or> cs = 0 \<or> has_opt PART_OPT_FULL_LIST req) then ((-1, req), s1)
       else ((int (if k < unat (rq_size req) then unat (rq_size req) else k), req\<lparr>rq_slots := sl, rq_size := of_nat cs\<rparr>), s1))"
    using ms p by (auto simp add: createPartition_def split: bool.splits)
  have "s = s\<lparr>m_mem := m_mem s\<rparr>" by simp
  then show "\<exists>m. s' = s\<lparr>m_mem := m\<rparr>" using assms m unfolding r by (metis prod.inject)
  show "num = -1 \<and> req' = req \<or> (\<exists>m sl k ob1 cs. make_slots req c (s\<lparr>m_mem := m\<rparr>) (must_overbook req c) = (sl, k, ob1, cs)
       \<and> (k < unat (rq_size req) \<longrightarrow> ob1)
       \<and> num = int (if k < unat (rq_size req) then unat (rq_size req) else k)
       \<and> req' = req\<lparr>rq_slots := sl, rq_size := of_nat cs\<rparr>)"
  proof (cases "num = -1 \<and> req' = req")
    case False
    have "(k < unat (rq_size req) \<longrightarrow> ob1) \<and> num = int (if k < unat (rq_size req) then unat (rq_size req) else k)
       \<and> req' = req\<lparr>rq_slots := sl, rq_size := of_nat cs\<rparr>"
      using assms False unfolding r by (simp split: if_splits)
    then show ?thesis using ms m by blast
  qed simp
qed

lemma make_slots_fresh:
  assumes wf: "stat_wf s" and ok: "cand_ok s c" and tpp: "0 < rq_tpp req" and ms: "make_slots req c s ob = (sl, k, ob1, cs)"
  shows "fresh_slots sl s"
proof (cases "has_opt PART_OPT_EXACT req")
  case True
  then have x: "exact_loop (unat (rq_size req)) (rq_tpp req) (so_entries c) [] 0 = (sl, k)"
    using ms by (auto simp: make_slots_def split: prod.splits if_splits)
  have w: "\<forall>e \<in> set (so_entries c). cpu_wf (se_CPUset e)" using ok by (simp add: cand_ok_def)
  have h: "hold sl n i \<le> ehold (so_entries c) n i \<and> (\<forall>x \<in> set sl. cpu_wf (sl_cpus x))" for n i
    using exact_loop_hold [OF w _ x, of n i] by simp
  have "hold sl n i + of_bool (i \<in> used n s) \<le> (1::nat)" for n i
  proof -
    have "ehold (so_entries c) n i + of_bool (left s c n i) + of_bool (i \<in> used n s) \<le> (1::nat)" using ok by (simp add: cand_ok_def)
    then show ?thesis using h [of n i] by linarith
  qed
  then show ?thesis using h by (simp add: fresh_slots_def)
next
  case False
  obtain ns num' ob' where u: "user_loop req (unat (rq_size req)) s (so_entries c) [] [] 0 ob = ([] @ ns, num', ob')" "good_slots s [] ns"
    using user_loop_spec [OF wf tpp, of 0 "unat (rq_size req)"] by (metis le0)
  then have "sl = ns" using ms False by (simp add: make_slots_def)
  then show ?thesis using u(2) good_slots_hold [OF u(2)] by (simp add: fresh_slots_def) (simp add: good_slots_def)
qed

lemma createPartition_fresh:
  assumes wf: "stat_wf s" and ok: "cand_ok s c" and tpp: "0 < rq_tpp req"
    and cp: "createPartition req c s = ((num, req'), s')"
  shows "num = -1 \<and> req' = req \<or> (\<exists>sl sz. req' = req\<lparr>rq_slots := sl, rq_size := sz\<rparr> \<and> fresh_slots sl s)"
  using createPartition_cases(2) [OF cp]
proof
  assume "\<exists>m sl k ob1 cs. make_slots req c (s\<lparr>m_mem := m\<rparr>) (must_overbook req c) = (sl, k, ob1, cs)
       \<and> (k < unat (rq_size req) \<longrightarrow> ob1)
       \<and> num = int (if k < unat (rq_size req) then unat (rq_size req) else k)
       \<and> req' = req\<lparr>rq_slots := sl, rq_size := of_nat cs\<rparr>"
  then obtain m sl k ob1 cs where ms: "make_slots req c (s\<lparr>m_mem := m\<rparr>) (must_overbook req c) = (sl, k, ob1, cs)"
    "req' = req\<lparr>rq_slots := sl, rq_size := of_nat cs\<rparr>" by blast
  then show ?thesis using make_slots_fresh [of "s\<lparr>m_mem := m\<rparr>" c req "must_overbook req c" sl k ob1 cs] wf ok tpp by auto
qed simp

end
