(* ===== verification/Part_Machine.thy ===== *)
theory Part_Machine
  imports Part_Create
begin

text \<open>
  The master as a machine: requests come, wait, get their CPUs, are suspended and end, in any order, while nodes
  come and go.  The invariant of its states is that the accounts are exact: the slots of the running and the
  suspended jobs are what the status of the nodes says.
\<close>

section \<open>Queues\<close>

definition tids :: "nat list \<Rightarrow> (nat \<Rightarrow> preq) \<Rightarrow> taskid list" where
  "tids rs q = map (\<lambda>r. rq_tid (q r)) rs"

definition job_slots :: "nat list \<Rightarrow> (nat \<Rightarrow> preq) \<Rightarrow> slot list" where
  "job_slots rs q = concat (map (\<lambda>r. slots_of (q r)) rs)"

lemma job_slots_simps [simp]:
  "job_slots [] q = []" "job_slots (r # rs) q = slots_of (q r) @ job_slots rs q"
  "job_slots (rs @ ps) q = job_slots rs q @ job_slots ps q"
  by (simp_all add: job_slots_def)

lemma tids_simps [simp]: "tids [] q = []" "tids (r # rs) q = rq_tid (q r) # tids rs q" "tids (rs @ ps) q = tids rs q @ tids ps q"
  by (simp_all add: tids_def)

lemma job_slots_upd [simp]: "r \<notin> set rs \<Longrightarrow> job_slots rs (q(r := x)) = job_slots rs q"
  by (induction rs) auto

lemma tids_upd: "rq_tid x = rq_tid (q r) \<Longrightarrow> tids rs (q(r := x)) = tids rs q"
  by (simp add: tids_def)

lemma job_slots_remove: "r \<in> set rs \<Longrightarrow> mset (job_slots rs q) = mset (slots_of (q r) @ job_slots (remove1 r rs) q)"
  by (induction rs) auto

lemma in_tids: "r \<in> set rs \<Longrightarrow> rq_tid (q r) \<in> set (tids rs q)"
  by (simp add: tids_def)

lemma tids_notin: "rq_tid (q r) \<notin> set (tids rs q) \<Longrightarrow> r \<notin> set rs"
  using in_tids by metis

lemma set_tids_remove1: "set (tids (remove1 r rs) q) \<subseteq> set (tids rs q)"
  by (induction rs) auto

lemma distinct_tids_remove1: "distinct (tids rs q) \<Longrightarrow> distinct (tids (remove1 r rs) q)"
  by (induction rs) (use set_tids_remove1 in auto)

lemma findPart_Some: "findPart rs t s = Some r \<Longrightarrow> r \<in> set rs \<and> rq_tid (m_req s r) = t"
  by (auto simp: findPart_def find_Some_iff)

lemma findPart_None: "t \<notin> set (tids rs (m_req s)) \<Longrightarrow> findPart rs t s = None"
  by (auto simp: findPart_def find_None_iff tids_def)

lemma findPart_self: "distinct (tids rs (m_req s)) \<Longrightarrow> r \<in> set rs \<Longrightarrow> findPart rs (rq_tid (m_req s r)) s = Some r"
  by (induction rs) (auto simp: findPart_def dest: in_tids)

lemma deqPart_in: "distinct (tids rs (m_req s)) \<Longrightarrow> r \<in> set rs \<Longrightarrow> deqPart rs r s = (True, remove1 r rs)"
  by (simp add: deqPart_def findPart_self)

lemma deqPart_notin: "rq_tid (m_req s r) \<notin> set (tids rs (m_req s)) \<Longrightarrow> deqPart rs r s = (False, rs)"
  by (simp add: deqPart_def findPart_None)

section \<open>The invariant\<close>

definition qinv :: "mstate \<Rightarrow> bool" where
  "qinv s \<longleftrightarrow> \<not> m_freeOnSuspend s \<and> distinct (tids (m_pend s @ m_run s @ m_susp s) (m_req s))
     \<and> (\<forall>r \<in> set (m_run s @ m_susp s). \<not> rq_freed (m_req s r))
     \<and> (\<forall>r \<in> set (m_pend s). \<not> rq_freed (m_req s r) \<and> rq_slots (m_req s r) = [] \<and> 0 < rq_tpp (m_req s r))
     \<and> (\<forall>b \<in> set (m_send s). b)"

definition pinv :: "mstate \<Rightarrow> bool" where
  "pinv s \<longleftrightarrow> qinv s \<and> acc (job_slots (m_run s @ m_susp s) (m_req s)) s"

lemma qinv_tids:
  assumes "qinv s"
  shows "distinct (tids (m_pend s) (m_req s))" "distinct (tids (m_run s) (m_req s))" "distinct (tids (m_susp s) (m_req s))"
    "set (tids (m_pend s) (m_req s)) \<inter> set (tids (m_run s) (m_req s)) = {}"
    "set (tids (m_pend s) (m_req s)) \<inter> set (tids (m_susp s) (m_req s)) = {}"
    "set (tids (m_run s) (m_req s)) \<inter> set (tids (m_susp s) (m_req s)) = {}"
  using assms by (auto simp: qinv_def)

lemma pend_not_active: "qinv s \<Longrightarrow> r \<in> set (m_pend s) \<Longrightarrow> r \<notin> set (m_run s) \<and> r \<notin> set (m_susp s)"
  using qinv_tids(4,5) [of s] in_tids by (metis disjoint_iff)

text \<open>Registering and its opposite leave the queues and the requests alone.\<close>

lemma upd_stat_fields [simp]:
  "m_pend (upd_stat n f s) = m_pend s" "m_run (upd_stat n f s) = m_run s" "m_susp (upd_stat n f s) = m_susp s"
  "m_freeOnSuspend (upd_stat n f s) = m_freeOnSuspend s" "m_send (upd_stat n f s) = m_send s"
  "m_dead (upd_stat n f s) = m_dead s" "m_mem (upd_stat n f s) = m_mem s" "m_errno (upd_stat n f s) = m_errno s"
  "m_nrNodes (upd_stat n f s) = m_nrNodes s" "m_doCleanup (upd_stat n f s) = m_doCleanup s"
  "m_pendingTaskReq (upd_stat n f s) = m_pendingTaskReq s" "m_doHandle (upd_stat n f s) = m_doHandle s"
  by (simp_all add: upd_stat_def)

lemma plog_fields [simp]:
  "m_pend (plog e s) = m_pend s" "m_run (plog e s) = m_run s" "m_susp (plog e s) = m_susp s"
  "m_freeOnSuspend (plog e s) = m_freeOnSuspend s" "m_send (plog e s) = m_send s" "m_dead (plog e s) = m_dead s"
  "m_mem (plog e s) = m_mem s" "m_errno (plog e s) = m_errno s" "m_nrNodes (plog e s) = m_nrNodes s"
  "m_doCleanup (plog e s) = m_doCleanup s" "m_pendingTaskReq (plog e s) = m_pendingTaskReq s"
  "m_doHandle (plog e s) = m_doHandle s"
  by (simp_all add: plog_def)

lemma register_slot_fields [simp]:
  "m_pend (register_slot req sl s) = m_pend s" "m_run (register_slot req sl s) = m_run s"
  "m_susp (register_slot req sl s) = m_susp s" "m_freeOnSuspend (register_slot req sl s) = m_freeOnSuspend s"
  "m_send (register_slot req sl s) = m_send s" "m_dead (register_slot req sl s) = m_dead s"
  "m_mem (register_slot req sl s) = m_mem s" "m_errno (register_slot req sl s) = m_errno s"
  "m_nrNodes (register_slot req sl s) = m_nrNodes s" "m_doCleanup (register_slot req sl s) = m_doCleanup s"
  "m_pendingTaskReq (register_slot req sl s) = m_pendingTaskReq s" "m_req (register_slot req sl s) = m_req s"
  "m_info (register_slot req sl s) = m_info s" "m_doHandle (register_slot req sl s) = m_doHandle s"
  by (simp_all add: register_slot_def allocCPUs_def Let_def)

lemma unregister_slot_fields [simp]:
  "m_pend (unregister_slot req sl s) = m_pend s" "m_run (unregister_slot req sl s) = m_run s"
  "m_susp (unregister_slot req sl s) = m_susp s" "m_freeOnSuspend (unregister_slot req sl s) = m_freeOnSuspend s"
  "m_send (unregister_slot req sl s) = m_send s" "m_dead (unregister_slot req sl s) = m_dead s"
  "m_mem (unregister_slot req sl s) = m_mem s" "m_errno (unregister_slot req sl s) = m_errno s"
  "m_nrNodes (unregister_slot req sl s) = m_nrNodes s" "m_doCleanup (unregister_slot req sl s) = m_doCleanup s"
  "m_pendingTaskReq (unregister_slot req sl s) = m_pendingTaskReq s" "m_req (unregister_slot req sl s) = m_req s"
  "m_info (unregister_slot req sl s) = m_info s"
  by (simp_all add: unregister_slot_def freeCPUs_def Let_def)

lemma fold_field: "(\<And>x t. g (f x t) = g t) \<Longrightarrow> g (fold f xs s) = g s"
  by (induction xs arbitrary: s) auto

lemma registerReq_fields [simp]:
  "m_pend (registerReq r s) = m_pend s" "m_run (registerReq r s) = m_run s" "m_susp (registerReq r s) = m_susp s"
  "m_freeOnSuspend (registerReq r s) = m_freeOnSuspend s" "m_send (registerReq r s) = m_send s"
  "m_dead (registerReq r s) = m_dead s" "m_mem (registerReq r s) = m_mem s" "m_errno (registerReq r s) = m_errno s"
  "m_nrNodes (registerReq r s) = m_nrNodes s" "m_doCleanup (registerReq r s) = m_doCleanup s"
  "m_pendingTaskReq (registerReq r s) = m_pendingTaskReq s" "m_req (registerReq r s) = m_req s"
  "m_info (registerReq r s) = m_info s" "m_doHandle (registerReq r s) = m_doHandle s"
  by (simp_all add: registerReq_def Let_def fold_field)

lemma unregisterReq_fields [simp]:
  "m_pend (unregisterReq r s) = m_pend s" "m_run (unregisterReq r s) = m_run s"
  "m_susp (unregisterReq r s) = m_susp s" "m_freeOnSuspend (unregisterReq r s) = m_freeOnSuspend s"
  "m_send (unregisterReq r s) = m_send s" "m_dead (unregisterReq r s) = m_dead s"
  "m_mem (unregisterReq r s) = m_mem s" "m_errno (unregisterReq r s) = m_errno s"
  "m_nrNodes (unregisterReq r s) = m_nrNodes s" "m_doCleanup (unregisterReq r s) = m_doCleanup s"
  "m_pendingTaskReq (unregisterReq r s) = m_pendingTaskReq s" "m_req (unregisterReq r s) = m_req s"
  "m_info (unregisterReq r s) = m_info s"
  by (simp_all add: unregisterReq_def Let_def fold_field)

lemma PSpart_delReq_fields [simp]:
  "m_pend (PSpart_delReq r s) = m_pend s" "m_run (PSpart_delReq r s) = m_run s"
  "m_susp (PSpart_delReq r s) = m_susp s" "m_freeOnSuspend (PSpart_delReq r s) = m_freeOnSuspend s"
  "m_send (PSpart_delReq r s) = m_send s" "m_dead (PSpart_delReq r s) = r # m_dead s"
  "m_mem (PSpart_delReq r s) = m_mem s" "m_errno (PSpart_delReq r s) = m_errno s"
  "m_nrNodes (PSpart_delReq r s) = m_nrNodes s" "m_doCleanup (PSpart_delReq r s) = m_doCleanup s"
  "m_pendingTaskReq (PSpart_delReq r s) = m_pendingTaskReq s" "m_req (PSpart_delReq r s) = m_req s"
  "m_info (PSpart_delReq r s) = m_info s" "m_stat (PSpart_delReq r s) = m_stat s"
  "m_doHandle (PSpart_delReq r s) = m_doHandle s"
  by (simp_all add: PSpart_delReq_def)

lemma qinv_cong:
  "m_freeOnSuspend s' = m_freeOnSuspend s \<Longrightarrow> m_pend s' = m_pend s \<Longrightarrow> m_run s' = m_run s \<Longrightarrow> m_susp s' = m_susp s
     \<Longrightarrow> m_req s' = m_req s \<Longrightarrow> m_send s' = m_send s \<Longrightarrow> qinv s' = qinv s"
  by (simp add: qinv_def)

lemma pinv_cong:
  "m_freeOnSuspend s' = m_freeOnSuspend s \<Longrightarrow> m_pend s' = m_pend s \<Longrightarrow> m_run s' = m_run s \<Longrightarrow> m_susp s' = m_susp s
     \<Longrightarrow> m_req s' = m_req s \<Longrightarrow> m_send s' = m_send s \<Longrightarrow> m_stat s' = m_stat s \<Longrightarrow> pinv s' = pinv s"
  using qinv_cong [of s' s] acc_same [of s' s] by (simp add: pinv_def)

lemma acc_fields [simp]:
  "acc l (s\<lparr>m_pend := q\<rparr>) = acc l s" "acc l (s\<lparr>m_run := q\<rparr>) = acc l s" "acc l (s\<lparr>m_susp := q\<rparr>) = acc l s"
  "acc l (s\<lparr>m_req := f\<rparr>) = acc l s"
  by (simp_all add: acc_def used_def stat_of_def)

lemma pinv_fields [simp]:
  "pinv (s\<lparr>m_doHandle := d\<rparr>) = pinv s" "pinv (s\<lparr>m_doCleanup := d\<rparr>) = pinv s" "pinv (s\<lparr>m_mem := bs\<rparr>) = pinv s"
  "pinv (s\<lparr>m_errno := i\<rparr>) = pinv s" "pinv (s\<lparr>m_pendingTaskReq := i\<rparr>) = pinv s" "pinv (s\<lparr>m_info := g\<rparr>) = pinv s"
  "pinv (plog e s) = pinv s"
  by (rule pinv_cong; simp)+

section \<open>Jobs\<close>

lemma qinv_sub:
  assumes q: "qinv s" and f: "m_freeOnSuspend s' = m_freeOnSuspend s" "m_req s' = m_req s" "m_send s' = m_send s"
    and d: "distinct (tids (m_pend s' @ m_run s' @ m_susp s') (m_req s))"
    and "set (m_pend s') \<subseteq> set (m_pend s)" "set (m_run s' @ m_susp s') \<subseteq> set (m_run s @ m_susp s)"
  shows "qinv s'"
  using assms unfolding qinv_def by auto

lemma deq_active:
  assumes q: "qinv s" and r: "r \<in> set (m_run s @ m_susp s)"
    and f: "m_req x = m_req s" "m_run x = m_run s" "m_susp x = m_susp s"
  shows "(case deq_run r x of (b, y) \<Rightarrow> if b then y else snd (deq_susp r y))
    = x\<lparr>m_run := remove1 r (m_run s), m_susp := remove1 r (m_susp s)\<rparr>"
proof -
  note t = qinv_tids [OF q]
  show ?thesis
  proof (cases "r \<in> set (m_run s)")
    case True
    then have n: "r \<notin> set (m_susp s)" using t(6) in_tids by (metis disjoint_iff)
    have "deqPart (m_run s) r x = (True, remove1 r (m_run s))"
      using deqPart_in [of "m_run s" x r] True t(2) f by simp
    then show ?thesis using f n by (simp add: deq_run_def remove1_idem)
  next
    case False
    then have i: "r \<in> set (m_susp s)" using r by simp
    have "rq_tid (m_req s r) \<notin> set (tids (m_run s) (m_req s))" using i t(6) in_tids by (metis disjoint_iff)
    then have "deqPart (m_run s) r x = (False, m_run s)" using deqPart_notin [of x r "m_run s"] f by simp
    moreover have "deqPart (m_susp s) r (x\<lparr>m_run := m_run s\<rparr>) = (True, remove1 r (m_susp s))"
      using deqPart_in [of "m_susp s" "x\<lparr>m_run := m_run s\<rparr>" r] i t(3) f by simp
    ultimately show ?thesis using f False by (simp add: deq_run_def deq_susp_def remove1_idem)
  qed
qed

lemma jobFinished_queues:
  assumes q: "qinv s" and r: "r \<in> set (m_run s @ m_susp s)"
  shows "jobFinished r s = PSpart_delReq r ((unregisterReq r (plog (EHook (rq_tid (m_req s r))) s))
     \<lparr>m_run := remove1 r (m_run s), m_susp := remove1 r (m_susp s)\<rparr>)"
proof -
  have f: "\<not> rq_freed (m_req s r)" using q r by (auto simp: qinv_def)
  show ?thesis using f deq_active [OF q r, of "unregisterReq r (plog (EHook (rq_tid (m_req s r))) s)"]
    by (cases "deq_run r (unregisterReq r (plog (EHook (rq_tid (m_req s r))) s))") (auto simp add: jobFinished_def Let_def)
qed

lemma job_slots_drop:
  assumes "qinv s" "r \<in> set (m_run s @ m_susp s)"
  shows "mset (job_slots (m_run s @ m_susp s) (m_req s)) =
    mset (slots_of (m_req s r) @ job_slots (remove1 r (m_run s) @ remove1 r (m_susp s)) (m_req s))"
proof (cases "r \<in> set (m_run s)")
  case True
  then have n: "r \<notin> set (m_susp s)" using qinv_tids(6) [OF assms(1)] in_tids by (metis disjoint_iff)
  then show ?thesis using job_slots_remove [OF True, of "m_req s"] by (simp add: remove1_idem)
next
  case False
  then have "r \<in> set (m_susp s)" using assms(2) by simp
  from job_slots_remove [OF this, of "m_req s"] False show ?thesis by (simp add: remove1_idem)
qed

lemma drop_active_qinv:
  assumes q: "qinv s" and f: "m_freeOnSuspend s' = m_freeOnSuspend s" "m_req s' = m_req s" "m_send s' = m_send s"
    and n: "m_pend s' = m_pend s" "m_run s' = remove1 r (m_run s)" "m_susp s' = remove1 r (m_susp s)"
  shows "qinv s'"
proof (rule qinv_sub [OF q f])
  show "distinct (tids (m_pend s' @ m_run s' @ m_susp s') (m_req s))"
    using qinv_tids [OF q] distinct_tids_remove1 set_tids_remove1 [of r "m_run s" "m_req s"] set_tids_remove1 [of r "m_susp s" "m_req s"]
    unfolding n tids_simps distinct_append set_append by blast
  show "set (m_pend s') \<subseteq> set (m_pend s)" "set (m_run s' @ m_susp s') \<subseteq> set (m_run s @ m_susp s)"
    unfolding n using set_remove1_subset [of r] by fastforce+
qed

lemma jobFinished_pinv:
  assumes p: "pinv s" and r: "r \<in> set (m_run s @ m_susp s)"
  shows "pinv (jobFinished r s)"
proof -
  let ?s1 = "plog (EHook (rq_tid (m_req s r))) s"
  have q: "qinv s" and a: "acc (job_slots (m_run s @ m_susp s) (m_req s)) s" using p by (simp_all add: pinv_def)
  have "acc (slots_of (m_req ?s1 r) @ job_slots (remove1 r (m_run s) @ remove1 r (m_susp s)) (m_req s)) ?s1"
    using a acc_mset [OF job_slots_drop [OF q r]] acc_same [of ?s1 s] by simp
  from unregisterReq_acc [OF this]
  have "acc (job_slots (remove1 r (m_run s) @ remove1 r (m_susp s)) (m_req s)) (jobFinished r s)"
    using acc_same [of "jobFinished r s" "unregisterReq r ?s1"] by (simp add: jobFinished_queues [OF q r])
  moreover have "qinv (jobFinished r s)" by (rule drop_active_qinv [OF q, of _ r]) (simp_all add: jobFinished_queues [OF q r])
  ultimately show ?thesis by (simp add: pinv_def jobFinished_queues [OF q r])
qed

text \<open>Between the queues of running and of suspended jobs.\<close>

lemma move_pinv:
  assumes p: "pinv s" and f: "m_freeOnSuspend s' = m_freeOnSuspend s" "m_req s' = m_req s" "m_send s' = m_send s"
    and st: "m_stat s' = m_stat s" "m_pend s' = m_pend s"
    and m: "mset (m_run s' @ m_susp s') = mset (m_run s @ m_susp s)"
  shows "pinv s'"
proof -
  have q: "qinv s" and a: "acc (job_slots (m_run s @ m_susp s) (m_req s)) s" using p by (simp_all add: pinv_def)
  have t: "mset (tids (m_run s' @ m_susp s') f) = mset (tids (m_run s @ m_susp s) f)" for f
    using m unfolding tids_def by (simp only: mset_map)
  have "mset (job_slots rs q) = \<Sum>\<^sub># (image_mset (\<lambda>r. mset (slots_of (q r))) (mset rs))" for rs q
    by (induction rs) auto
  then have "mset (job_slots (m_run s' @ m_susp s') (m_req s)) = mset (job_slots (m_run s @ m_susp s) (m_req s))" using m by metis
  then have "acc (job_slots (m_run s' @ m_susp s') (m_req s')) s'" using a acc_mset acc_same [of s' s] st f by metis
  moreover have "qinv s'"
  proof (rule qinv_sub [OF q f])
    show "distinct (tids (m_pend s' @ m_run s' @ m_susp s') (m_req s))"
      using q t [of "m_req s"] mset_eq_imp_distinct_iff [OF t] mset_eq_setD [OF t [of "m_req s"]]
      unfolding qinv_def st tids_simps(3) [of "m_pend s"] distinct_append by metis
    show "set (m_pend s') \<subseteq> set (m_pend s)" "set (m_run s' @ m_susp s') \<subseteq> set (m_run s @ m_susp s)"
      using mset_eq_setD [OF m] st by auto
  qed
  ultimately show ?thesis by (simp add: pinv_def)
qed

lemma jobSuspended_pinv:
  assumes p: "pinv s" and r: "r \<in> set (m_run s)"
  shows "pinv (jobSuspended r s)"
proof -
  have q: "qinv s" using p by (simp add: pinv_def)
  have "jobSuspended r s = s\<lparr>m_run := remove1 r (m_run s), m_susp := m_susp s @ [r]\<rparr>"
    using q deqPart_in [OF qinv_tids(2) [OF q] r] by (simp add: jobSuspended_def deq_run_def qinv_def Let_def)
  then show ?thesis using r by (intro move_pinv [OF p]) simp_all
qed

lemma jobResumed_pinv:
  assumes p: "pinv s" and r: "r \<in> set (m_susp s)"
  shows "pinv (jobResumed r s)"
proof -
  have q: "qinv s" using p by (simp add: pinv_def)
  have "jobResumed r s = s\<lparr>m_susp := remove1 r (m_susp s), m_run := m_run s @ [r]\<rparr>"
    using q r deqPart_in [OF qinv_tids(3) [OF q] r] by (simp add: jobResumed_def deq_susp_def qinv_def Let_def)
  then show ?thesis using r by (intro move_pinv [OF p]) simp_all
qed

section \<open>Nodes that go\<close>

lemma stat_of_pending: "stat_of k (upd_stat n (\<lambda>x. x\<lparr>ns_taskReqPending := j\<rparr>) s) = (stat_of k s)\<lparr>ns_taskReqPending := (if m_stat s \<noteq> None \<and> k = n then j else ns_taskReqPending (stat_of k s))\<rparr>"
  by (auto simp: stat_of_def upd_stat_def split: option.splits)

lemma acc_pending [simp]: "acc l (upd_stat n (\<lambda>x. x\<lparr>ns_taskReqPending := j\<rparr>) s) = acc l s"
  by (simp add: acc_def used_def stat_of_pending)

lemma pinv_pending [simp]: "pinv (upd_stat n (\<lambda>x. x\<lparr>ns_taskReqPending := j\<rparr>) s) = pinv s"
proof -
  have "qinv (upd_stat n (\<lambda>x. x\<lparr>ns_taskReqPending := j\<rparr>) s) = qinv s" by (rule qinv_cong) simp_all
  then show ?thesis by (simp add: pinv_def)
qed

text \<open>A change of requests that the accounts do not see.\<close>

lemma pinv_req:
  assumes p: "pinv s" and s': "s' = s\<lparr>m_req := q\<rparr>" and t: "\<forall>r. rq_tid (q r) = rq_tid (m_req s r)"
    and a: "\<forall>r \<in> set (m_run s @ m_susp s). slots_of (q r) = slots_of (m_req s r) \<and> rq_freed (q r) = rq_freed (m_req s r)"
    and pe: "\<forall>r \<in> set (m_pend s). rq_slots (q r) = [] \<and> \<not> rq_freed (q r) \<and> 0 < rq_tpp (q r)"
  shows "pinv s'"
proof -
  have "tids rs q = tids rs (m_req s)" for rs using t by (simp add: tids_def)
  then have "qinv s'" using p a pe by (auto simp: pinv_def qinv_def s')
  moreover have "job_slots (m_run s @ m_susp s) q = job_slots (m_run s @ m_susp s) (m_req s)"
    using a unfolding job_slots_def by (metis map_cong)
  ultimately show ?thesis using p by (simp add: pinv_def s')
qed

lemma upd_req_pinv:
  assumes p: "pinv s" and t: "rq_tid (f (m_req s r)) = rq_tid (m_req s r)"
    and a: "slots_of (f (m_req s r)) = slots_of (m_req s r)" "rq_freed (f (m_req s r)) = rq_freed (m_req s r)"
      "rq_slots (f (m_req s r)) = rq_slots (m_req s r)" "rq_tpp (f (m_req s r)) = rq_tpp (m_req s r)"
  shows "pinv (upd_req r f s)"
proof (rule pinv_req [OF p upd_req_def])
  have "\<forall>x \<in> set (m_pend s). rq_slots (m_req s x) = [] \<and> \<not> rq_freed (m_req s x) \<and> 0 < rq_tpp (m_req s x)"
    using p by (simp add: pinv_def qinv_def)
  then show "\<forall>x \<in> set (m_pend s). rq_slots (((m_req s)(r := f (m_req s r))) x) = [] \<and> \<not> rq_freed (((m_req s)(r := f (m_req s r))) x)
      \<and> 0 < rq_tpp (((m_req s)(r := f (m_req s r))) x)" using a by simp
qed (use t a in simp_all)

lemma mark_deleted_pinv: "pinv s \<Longrightarrow> pinv (mark_deleted n r s)"
  by (auto simp: mark_deleted_def slots_of_def intro: upd_req_pinv)

lemma fold_pinv: "(\<And>x s. pinv s \<Longrightarrow> pinv (f x s)) \<Longrightarrow> pinv s \<Longrightarrow> pinv (fold f xs s)"
  by (induction xs arbitrary: s) auto

lemma cleanupRequests_pinv: "pinv s \<Longrightarrow> pinv (cleanupRequests n s)"
  by (simp add: cleanupRequests_def Let_def fold_pinv mark_deleted_pinv)

lemma end_of_tasks_pinv: "pinv s \<Longrightarrow> pinv (end_of_tasks n s)"
  by (simp add: end_of_tasks_def Let_def)

section \<open>Requests that wait\<close>

lemma deq_pend_in: "qinv s \<Longrightarrow> r \<in> set (m_pend s) \<Longrightarrow> deq_pend r s = (True, s\<lparr>m_pend := remove1 r (m_pend s)\<rparr>)"
  using deqPart_in [of "m_pend s" s r] qinv_tids(1) [of s] by (simp add: deq_pend_def)

lemma drop_pend_pinv:
  assumes p: "pinv s" shows "pinv (s\<lparr>m_pend := remove1 r (m_pend s)\<rparr>)"
proof -
  have q: "qinv s" using p by (simp add: pinv_def)
  have "qinv (s\<lparr>m_pend := remove1 r (m_pend s)\<rparr>)"
  proof (rule qinv_sub [OF q])
    show "distinct (tids (m_pend (s\<lparr>m_pend := remove1 r (m_pend s)\<rparr>) @ m_run (s\<lparr>m_pend := remove1 r (m_pend s)\<rparr>)
        @ m_susp (s\<lparr>m_pend := remove1 r (m_pend s)\<rparr>)) (m_req s))"
      using q distinct_tids_remove1 [of "m_pend s" "m_req s" r] set_tids_remove1 [of r "m_pend s" "m_req s"]
      unfolding qinv_def by auto
  qed (use set_remove1_subset [of r "m_pend s"] in auto)
  then show ?thesis using p by (simp add: pinv_def)
qed

lemma PSpart_delReq_pinv [simp]: "pinv (PSpart_delReq r s) = pinv s"
  by (rule pinv_cong) simp_all

lemma drop_pending_req_eq:
  "qinv s \<Longrightarrow> r \<in> set (m_pend s) \<Longrightarrow> drop_pending_req r s = PSpart_delReq r (s\<lparr>m_pend := remove1 r (m_pend s)\<rparr>)"
  by (simp add: drop_pending_req_def deq_pend_in)

lemma drop_pending_req_pinv: "pinv s \<Longrightarrow> r \<in> set (m_pend s) \<Longrightarrow> pinv (drop_pending_req r s)"
  using drop_pend_pinv [of s r] by (simp add: drop_pending_req_eq pinv_def [of s])

text \<open>The two loops of \<open>cleanupReqQueues\<close>.\<close>

lemma distinct_tids: "distinct (tids rs q) \<Longrightarrow> distinct rs"
  by (simp add: tids_def distinct_map)

lemma finish_loop_pinv:
  "pinv s \<Longrightarrow> distinct rs \<Longrightarrow> set rs \<subseteq> set (m_run s @ m_susp s)
     \<Longrightarrow> pinv (fold (\<lambda>r x. if rq_deleted (m_req x r) then jobFinished r x else x) rs s)"
proof (induction rs arbitrary: s)
  case (Cons r rs)
  have q: "qinv s" and r: "r \<in> set (m_run s @ m_susp s)" using Cons.prems by (auto simp: pinv_def)
  have "set rs \<subseteq> set (m_run (jobFinished r s) @ m_susp (jobFinished r s))"
    using Cons.prems by (simp add: jobFinished_queues [OF q r] subset_iff) (metis in_set_remove1)
  then show ?case using Cons jobFinished_pinv [OF Cons.prems(1) r] by simp
qed simp

lemma drop_loop_pinv:
  "pinv s \<Longrightarrow> distinct rs \<Longrightarrow> set rs \<subseteq> set (m_pend s)
     \<Longrightarrow> pinv (fold (\<lambda>r x. if rq_deleted (m_req x r) then drop_pending_req r x else x) rs s)"
proof (induction rs arbitrary: s)
  case (Cons r rs)
  have q: "qinv s" and r: "r \<in> set (m_pend s)" using Cons.prems by (auto simp: pinv_def)
  have "set rs \<subseteq> set (m_pend (drop_pending_req r s))" using Cons.prems by (simp add: drop_pending_req_eq [OF q r] subset_iff) (metis in_set_remove1)
  then show ?case using Cons drop_pending_req_pinv [OF Cons.prems(1) r] by simp
qed simp

lemma cleanupReqQueues_pinv:
  assumes "pinv s" shows "pinv (cleanupReqQueues s)"
proof -
  let ?s1 = "fold (\<lambda>r x. if rq_deleted (m_req x r) then jobFinished r x else x) (m_run s) s"
  have "qinv s" using assms by (simp add: pinv_def)
  then have p1: "pinv ?s1" using finish_loop_pinv [OF assms, of "m_run s"] distinct_tids [OF qinv_tids(2)] by simp
  then have "distinct (m_pend ?s1)" using distinct_tids [OF qinv_tids(1)] by (simp add: pinv_def)
  then show ?thesis using drop_loop_pinv [OF p1] by (simp add: cleanupReqQueues_def Let_def)
qed

end
