(* ===== verification/Part_Serve.thy ===== *)
theory Part_Serve
  imports Part_Machine "HOL-Library.Sublist"
begin

text \<open>
  Serving the requests that wait: what \<open>getPartition\<close> and the loop over the queue leave.
\<close>

section \<open>One request\<close>

text \<open>Nothing happened but to the request itself, and not to what others see of it.\<close>

definition keeps :: "nat \<Rightarrow> mstate \<Rightarrow> mstate \<Rightarrow> bool" where
  "keeps r s s' \<longleftrightarrow> pinv s' \<and> m_pend s' = m_pend s \<and> m_run s' = m_run s \<and> m_susp s' = m_susp s
     \<and> (\<forall>x. rq_tid (m_req s' x) = rq_tid (m_req s x) \<and> rq_options (m_req s' x) = rq_options (m_req s x))
     \<and> (\<forall>x. x \<noteq> r \<longrightarrow> m_req s' x = m_req s x) \<and> m_dead s' = m_dead s"

lemma keeps_refl: "pinv s \<Longrightarrow> keeps r s s"
  by (simp add: keeps_def)

lemma keeps_trans: "keeps r s s' \<Longrightarrow> keeps r s' s'' \<Longrightarrow> keeps r s s''"
  by (simp add: keeps_def)

lemma keeps_fields [simp]:
  "keeps r s (s'\<lparr>m_mem := bs\<rparr>) = keeps r s s'" "keeps r s (s'\<lparr>m_errno := i\<rparr>) = keeps r s s'" "keeps r s (set_errno i s') = keeps r s s'"
  by (simp_all add: keeps_def set_errno_def)

lemma keeps_pend:
  assumes p: "pinv s" and r: "r \<in> set (m_pend s)"
    and a: "rq_tid (f (m_req s r)) = rq_tid (m_req s r)" "rq_options (f (m_req s r)) = rq_options (m_req s r)"
      "rq_slots (f (m_req s r)) = rq_slots (m_req s r)" "rq_freed (f (m_req s r)) = rq_freed (m_req s r)" "0 < rq_tpp (f (m_req s r))"
  shows "keeps r s (upd_req r f s)"
proof -
  have na: "r \<notin> set (m_run s @ m_susp s)" using p r pend_not_active by (auto simp: pinv_def)
  have "\<forall>x \<in> set (m_pend s). rq_slots (m_req s x) = [] \<and> \<not> rq_freed (m_req s x) \<and> 0 < rq_tpp (m_req s x)"
    using p by (simp add: pinv_def qinv_def)
  then have "pinv (upd_req r f s)" using a na r by (intro pinv_req [OF p upd_req_def]) auto
  then show ?thesis using a by (simp add: keeps_def upd_req_def)
qed

lemma default_nodes_keeps:
  assumes p: "pinv s" and r: "r \<in> set (m_pend s)" and d: "default_nodes r s = (b, s')"
  shows "keeps r s s'"
proof -
  have t: "0 < rq_tpp (m_req s r)" using p r by (simp add: pinv_def qinv_def)
  obtain c s1 where m: "pmalloc s = (c, s1)" by fastforce
  obtain bs where s1: "s1 = s\<lparr>m_mem := bs\<rparr>" using pmalloc_only_mem [OF m] by blast
  have "keeps r s1 (upd_req r (all_nodes_req s1) s1)"
    by (rule keeps_pend) (use p r t in \<open>simp_all add: s1 all_nodes_req_def\<close>)
  moreover have "keeps r s s1" using keeps_refl [OF p] by (simp add: s1)
  ultimately show ?thesis
    using d m keeps_refl [OF p, of r] keeps_trans [of r s s1] by (auto simp: default_nodes_def split: if_splits bool.splits)
qed

text \<open>The request before the partition is made, and the partition itself.\<close>

definition prepared :: "nat \<Rightarrow> mstate \<Rightarrow> candloop \<Rightarrow> mstate \<Rightarrow> bool" where
  "prepared r s c s3 \<longleftrightarrow> keeps r s s3 \<and> cand_ok s3 c"

definition served :: "nat \<Rightarrow> mstate \<Rightarrow> mstate \<Rightarrow> bool" where
  "served r s s' \<longleftrightarrow> pinv s' \<and> m_pend s' = remove1 r (m_pend s) \<and> m_run s' = m_run s @ [r] \<and> m_susp s' = m_susp s
     \<and> (\<forall>x. rq_tid (m_req s' x) = rq_tid (m_req s x) \<and> rq_options (m_req s' x) = rq_options (m_req s x))
     \<and> (\<forall>x. x \<noteq> r \<longrightarrow> m_req s' x = m_req s x) \<and> m_dead s' = m_dead s"

lemma sendPartition_ok:
  assumes "\<forall>b \<in> set (m_send s). b"
  shows "sendPartition r s = (True, plog (EProvide (rq_tid (m_req s r)) (rq_options (m_req s r)) (rq_slots (m_req s r)))
     (s\<lparr>m_send := tl (m_send s)\<rparr>))"
proof (cases "m_send s")
  case (Cons b bs)
  then have "b" using assms by simp
  then show ?thesis using Cons by (simp add: sendPartition_def Let_def)
qed (simp add: sendPartition_def Let_def)

lemma tl_send_pinv: "pinv s \<Longrightarrow> pinv (s\<lparr>m_send := tl (m_send s)\<rparr>)"
proof -
  assume p: "pinv s"
  have "set (tl (m_send s)) \<subseteq> set (m_send s)" by (cases "m_send s") auto
  then have "qinv (s\<lparr>m_send := tl (m_send s)\<rparr>)" using p unfolding pinv_def qinv_def by auto
  then show ?thesis using p acc_same [of "s\<lparr>m_send := tl (m_send s)\<rparr>" s] by (simp add: pinv_def)
qed

lemma enter_run:
  assumes p: "pinv s" and r: "r \<in> set (m_pend s)" and q: "q = (m_req s r)\<lparr>rq_slots := sl, rq_size := sz, rq_nodes := []\<rparr>"
    and fr: "fresh_slots sl s \<or> sl = []"
    and s1: "s1 = s\<lparr>m_pend := remove1 r (m_pend s), m_req := (m_req s)(r := q), m_run := m_run s @ [r]\<rparr>"
  shows "pinv (registerReq r s1)"
proof -
  have qi: "qinv s" and a: "acc (job_slots (m_run s @ m_susp s) (m_req s)) s" using p by (simp_all add: pinv_def)
  have na: "r \<notin> set (m_run s)" "r \<notin> set (m_susp s)" using pend_not_active [OF qi r] by simp_all
  have nf: "\<not> rq_freed (m_req s r)" using qi r by (simp add: qinv_def)
  have so: "slots_of q = take (unat sz) sl" by (simp add: slots_of_def q)
  have us: "used n s1 = used n s" for n by (simp add: used_def stat_of_def s1)
  have f: "\<forall>x \<in> set (slots_of (m_req s1 r)). cpu_wf (sl_cpus x)" "\<forall>n c. hold (slots_of (m_req s1 r)) n c + of_bool (c \<in> used n s1) \<le> (1::nat)"
  proof -
    have "m_req s1 r = q" by (simp add: s1)
    moreover have "fresh_slots (take (unat sz) sl) s"
    proof (cases "sl = []")
      case True
      then show ?thesis by (simp add: fresh_slots_def)
    qed (use fr fresh_slots_take in auto)
    ultimately show "\<forall>x \<in> set (slots_of (m_req s1 r)). cpu_wf (sl_cpus x)"
      "\<forall>n c. hold (slots_of (m_req s1 r)) n c + of_bool (c \<in> used n s1) \<le> (1::nat)"
      unfolding us by (simp_all only: so, simp_all add: fresh_slots_def)
  qed
  have "acc (job_slots (m_run s @ m_susp s) (m_req s)) s1" using a acc_same [of s1 s] by (simp add: s1)
  from registerReq_acc [OF this f]
  have "acc (slots_of q @ job_slots (m_run s @ m_susp s) (m_req s)) (registerReq r s1)" by (simp add: s1)
  then have "acc (job_slots (m_run s1 @ m_susp s1) (m_req s1)) (registerReq r s1)"
    by (rule acc_mset [THEN iffD1, rotated]) (use na in \<open>simp add: s1\<close>)
  moreover have "qinv s1"
  proof -
    have t: "tids rs ((m_req s)(r := q)) = tids rs (m_req s)" for rs by (rule tids_upd) (simp add: q)
    have "distinct (tids (remove1 r (m_pend s) @ (m_run s @ [r]) @ m_susp s) (m_req s))"
    proof -
      have "mset (tids (remove1 r (m_pend s) @ (m_run s @ [r]) @ m_susp s) (m_req s)) = mset (tids (m_pend s @ m_run s @ m_susp s) (m_req s))"
        using r unfolding tids_def mset_map by simp
      then show ?thesis using qi mset_eq_imp_distinct_iff unfolding qinv_def by blast
    qed
    moreover have "set (remove1 r (m_pend s)) \<subseteq> set (m_pend s) - {r}"
      using distinct_tids [OF qinv_tids(1) [OF qi]] by auto
    moreover have q': "\<not> rq_freed q" using nf by (simp add: q)
    ultimately show ?thesis using qi na unfolding qinv_def s1 by (auto simp: t)
  qed
  then have "qinv (registerReq r s1)" using qinv_cong [of "registerReq r s1" s1] by simp
  ultimately show ?thesis by (simp add: pinv_def)
qed

lemma cand_ok_stat: "m_stat s' = m_stat s \<Longrightarrow> cand_ok s' c = cand_ok s c"
proof -
  assume "m_stat s' = m_stat s"
  then have "used n s' = used n s" for n by (simp add: used_def stat_of_def)
  then show ?thesis unfolding cand_ok_def left_def by (simp only:)
qed

lemma use_candidates_result:
  assumes p: "pinv s" and r: "r \<in> set (m_pend s)" and ok: "cand_ok s c" and g: "use_candidates r c s = (b, s')"
  shows "if b then served r s s' else keeps r s s'"
proof -
  define s3 where "s3 = (if has_opt PART_OPT_FULL_LIST (m_req s r) then upd_req r (\<lambda>q. q\<lparr>rq_size := of_nat (length (so_entries c))\<rparr>) s else s)"
  define c1 where "c1 = (if rq_sort (m_req s3 r) \<noteq> PART_SORT_NONE then sortCandidates c else c)"
  obtain num req s4 where cp: "createPartition (m_req s3 r) c1 s3 = ((num, req), s4)" by (metis surj_pair)
  have tpp: "0 < rq_tpp (m_req s r)" and sl: "rq_slots (m_req s r) = []" using p r by (simp_all add: pinv_def qinv_def)
  have k3: "keeps r s s3"
    using keeps_refl [OF p] keeps_pend [OF p r, of "\<lambda>q. q\<lparr>rq_size := of_nat (length (so_entries c))\<rparr>"] tpp by (simp add: s3_def)
  then have p3: "pinv s3" and r3: "r \<in> set (m_pend s3)" using r by (simp_all add: keeps_def)
  then have tpp3: "0 < rq_tpp (m_req s3 r)" and sl3: "rq_slots (m_req s3 r) = []" by (simp_all add: pinv_def qinv_def)
  have "cand_ok s3 c" using ok cand_ok_stat [of s3 s c] by (simp add: s3_def upd_req_def)
  then have ok1: "cand_ok s3 c1" by (simp add: c1_def sortCandidates_ok)
  have wf: "stat_wf s3" using p3 acc_stat_wf by (auto simp: pinv_def)
  obtain bs where s4: "s4 = s3\<lparr>m_mem := bs\<rparr>" using createPartition_cases(1) [OF cp] by blast
  have k4: "keeps r s s4" using k3 by (simp add: s4)
  have p4: "pinv s4" and r4: "r \<in> set (m_pend s4)" using p3 r3 by (simp_all add: s4)
  have g': "(b, s') = (let s5 = upd_req r (\<lambda>q. req) s4 in
      if num < sint (rq_size (m_req s3 r)) then (False, set_errno EAGAIN_NO s5)
         else (case deq_pend r s5 of
                 (False, s6) \<Rightarrow> (False, set_errno EBUSY_NO s6)
               | (True, s6) \<Rightarrow>
                   let s7 = upd_req r (\<lambda>q. q\<lparr>rq_nodes := []\<rparr>) s6
                   in sendPartition r (registerReq r (s7\<lparr>m_run := m_run s7 @ [r]\<rparr>))))"
    using g by (simp add: use_candidates_def s3_def [symmetric] c1_def [symmetric] cp Let_def)
  show ?thesis
  proof (cases "num < sint (rq_size (m_req s3 r))")
    case True
    have sint_le: "sint (rq_size (m_req s3 r)) \<le> int (unat (rq_size (m_req s3 r)))"
      by (simp add: sint_uint signed_take_bit_int_less_eq_self_iff order_trans [OF _ uint_ge_0])
    have "\<not> num < sint (rq_size (m_req s3 r))" if "num = int (if k < unat (rq_size (m_req s3 r)) then unat (rq_size (m_req s3 r)) else k)" for k
      using that sint_le by (cases "k < unat (rq_size (m_req s3 r))"; simp only: if_True if_False; linarith)
    then have "req = m_req s3 r" using createPartition_cases(2) [OF cp] True by blast
    then have "upd_req r (\<lambda>q. req) s4 = s4" by (simp add: upd_req_def s4)
    then show ?thesis using g' True k4 by (simp add: Let_def)
  next
    case False
    obtain sl sz where req: "req = (m_req s3 r)\<lparr>rq_slots := sl, rq_size := sz\<rparr>" "fresh_slots sl s3 \<or> sl = []"
    proof -
      have "m_req s3 r = (m_req s3 r)\<lparr>rq_slots := [], rq_size := rq_size (m_req s3 r)\<rparr>" using sl3 by simp
      then show ?thesis using createPartition_fresh [OF wf ok1 tpp3 cp] that by metis
    qed
    let ?s5 = "upd_req r (\<lambda>q. req) s4"
    have dq: "deqPart (m_pend ?s5) r ?s5 = (True, remove1 r (m_pend s4))"
    proof -
      have "tids (m_pend s4) (m_req ?s5) = tids (m_pend s4) (m_req s4)"
        unfolding upd_req_def by (simp add: tids_upd req s4)
      then show ?thesis using deqPart_in [of "m_pend ?s5" ?s5 r] r4 qinv_tids(1) [of s4] p4 by (simp add: pinv_def upd_req_def)
    qed
    define q where "q = (m_req s4 r)\<lparr>rq_slots := sl, rq_size := sz, rq_nodes := []\<rparr>"
    define s8 where "s8 = s4\<lparr>m_pend := remove1 r (m_pend s4), m_req := (m_req s4)(r := q), m_run := m_run s4 @ [r]\<rparr>"
    have "(b, s') = sendPartition r (registerReq r s8)"
      using g' False dq by (simp add: deq_pend_def Let_def upd_req_def s8_def q_def req s4)
    moreover have p8: "pinv (registerReq r s8)" by (rule enter_run [OF p4 r4 q_def _ s8_def]) (use req(2) in \<open>simp add: s4\<close>)
    moreover have "\<forall>b \<in> set (m_send (registerReq r s8)). b" using p8 unfolding pinv_def qinv_def by blast
    ultimately have s': "b" "s' = plog (EProvide (rq_tid q) (rq_options q) (rq_slots q)) ((registerReq r s8)\<lparr>m_send := tl (m_send s8)\<rparr>)"
      using sendPartition_ok [of "registerReq r s8" r] by (simp_all add: s8_def)
    have "pinv s'" using s'(2) tl_send_pinv [OF p8] by simp
    then show ?thesis using s' k4 by (simp add: served_def keeps_def s8_def q_def)
  qed
qed

lemma getPartition_result:
  assumes p: "pinv s" and r: "r \<in> set (m_pend s)" and g: "getPartition r s = (b, s')"
  shows "if b then served r s s' else keeps r s s'"
proof -
  obtain b0 s0 where d: "default_nodes r s = (b0, s0)" by fastforce
  note k0 = default_nodes_keeps [OF p r d]
  show ?thesis
  proof (cases b0)
    case False
    then show ?thesis using g d k0 by (auto simp: getPartition_def)
  next
    case b0: True
    define s1 where "s1 = (if has_opt PART_OPT_FULL_LIST (m_req s0 r) then upd_req r (\<lambda>q. q\<lparr>rq_tpp := 1\<rparr>) s0 else s0)"
    have p0: "pinv s0" and r0: "r \<in> set (m_pend s0)" using k0 r by (simp_all add: keeps_def)
    have k1: "keeps r s s1"
      using k0 keeps_trans [OF k0 keeps_pend [OF p0 r0, of "\<lambda>q. q\<lparr>rq_tpp := 1\<rparr>"]] by (simp add: s1_def)
    have p1: "pinv s1" using k1 by (simp add: keeps_def)
    obtain ec s2 where c: "getCandidateList (m_req s1 r) s1 = (ec, s2)" by fastforce
    have "\<exists>bs. s2 = s1\<lparr>m_mem := bs\<rparr>"
    proof -
      obtain e u where m: "pmalloc s1 = (e, u)" by fastforce
      moreover have "s2 = u" using c m by (auto simp: getCandidateList_def split: bool.splits sum.splits if_splits)
      ultimately show ?thesis using pmalloc_only_mem by blast
    qed
    then obtain bs where s2: "s2 = s1\<lparr>m_mem := bs\<rparr>" by blast
    have k2: "keeps r s s2" using k1 s2 by simp
    have gp: "(b, s') = (case ec of Inl e \<Rightarrow> (False, set_errno e s2)
         | Inr c \<Rightarrow> if so_entries c = [] then (False, set_errno EAGAIN_NO s2) else use_candidates r c s2)"
      using g d b0 c by (simp add: getPartition_def s1_def [symmetric] Let_def split: sum.splits)
    show ?thesis
    proof (cases "\<exists>cl. ec = Inr cl \<and> so_entries cl \<noteq> []")
      case False
      then show ?thesis using gp k2 by (auto split: sum.splits)
    next
      case True
      then obtain cl where cl: "ec = Inr cl" "so_entries cl \<noteq> []" by blast
      have "cand_ok s1 cl" using getCandidateList_ok(1) [of s1 "m_req s1 r" cl s2] c cl(1) acc_stat_wf p1 by (auto simp: pinv_def)
      then have ok: "cand_ok s2 cl" by (simp add: s2)
      have u: "use_candidates r cl s2 = (b, s')" using gp cl by simp
      have "if b then served r s2 s' else keeps r s2 s'"
        by (rule use_candidates_result [OF _ _ ok u]) (use k2 r in \<open>simp_all add: keeps_def\<close>)
      then show ?thesis using k2 by (auto simp: served_def keeps_def split: if_splits)
    qed
  qed
qed

section \<open>The queue\<close>

lemma refuse_eq:
  "qinv s \<Longrightarrow> r \<in> set (m_pend s) \<Longrightarrow> refuse r s = PSpart_delReq r (part_res (rq_tid (m_req s r)) (m_errno s) (s\<lparr>m_pend := remove1 r (m_pend s)\<rparr>))"
  by (simp add: refuse_def deq_pend_in)

lemma refuse_pinv: "pinv s \<Longrightarrow> r \<in> set (m_pend s) \<Longrightarrow> pinv (refuse r s)"
  using drop_pend_pinv [of s r] by (simp add: refuse_eq part_res_def pinv_def [of s])

text \<open>First come, first served: what is left is the end of the queue, and it begins with a request that waits.\<close>

lemma handle_pending_fifo:
  assumes "pinv s" "m_pend s = rs"
  shows "pinv (handle_pending rs s) \<and> m_susp (handle_pending rs s) = m_susp s
    \<and> (\<exists>dn ok. rs = dn @ m_pend (handle_pending rs s) \<and> m_run (handle_pending rs s) = m_run s @ ok \<and> subseq ok dn
         \<and> set dn \<subseteq> set ok \<union> set (m_dead (handle_pending rs s)) \<and> set (m_dead s) \<subseteq> set (m_dead (handle_pending rs s)))
    \<and> (case m_pend (handle_pending rs s) of [] \<Rightarrow> True | r # _ \<Rightarrow> has_opt PART_OPT_WAIT (m_req s r))
    \<and> (\<forall>x. x \<notin> set rs \<longrightarrow> m_req (handle_pending rs s) x = m_req s x)"
  using assms
proof (induction rs arbitrary: s)
  case Nil
  then show ?case by auto
next
  case (Cons r rs)
  have r: "r \<in> set (m_pend s)" and nr: "r \<notin> set rs"
    using Cons.prems distinct_tids [OF qinv_tids(1) [of s]] by (auto simp: pinv_def)
  obtain b s1 where g: "getPartition r s = (b, s1)" by fastforce
  note gr = getPartition_result [OF Cons.prems(1) r g]
  have op: "has_opt PART_OPT_WAIT (m_req s1 x) = has_opt PART_OPT_WAIT (m_req s x)" for x
    using gr by (auto simp: has_opt_def served_def keeps_def split: if_splits)
  show ?case
  proof (cases b)
    case True
    then have s: "pinv s1" "m_pend s1 = rs" "m_run s1 = m_run s @ [r]" "m_susp s1 = m_susp s" "m_dead s1 = m_dead s"
      using gr Cons.prems(2) by (auto simp: served_def)
    have o: "\<forall>x. x \<noteq> r \<longrightarrow> m_req s1 x = m_req s x" using gr True by (simp add: served_def)
    let ?t = "handle_pending rs s1"
    obtain dn ok where ih: "pinv ?t" "m_susp ?t = m_susp s1" "rs = dn @ m_pend ?t" "m_run ?t = m_run s1 @ ok" "subseq ok dn"
      "set dn \<subseteq> set ok \<union> set (m_dead ?t)" "set (m_dead s1) \<subseteq> set (m_dead ?t)"
      "case m_pend ?t of [] \<Rightarrow> True | r # _ \<Rightarrow> has_opt PART_OPT_WAIT (m_req s1 r)" "\<forall>x. x \<notin> set rs \<longrightarrow> m_req ?t x = m_req s1 x"
      using Cons.IH [OF s(1,2)] by blast
    have "subseq (r # ok) (r # dn)" using ih(5) by simp
    moreover have "handle_pending (r # rs) s = ?t" using g True by simp
    ultimately show ?thesis using ih s op o
      by (intro conjI exI [of _ "r # dn"] exI [of _ "r # ok"]) (auto split: list.splits)
  next
    case False
    then have k: "keeps r s s1" using gr by simp
    show ?thesis
    proof (cases "has_opt PART_OPT_WAIT (m_req s1 r) \<and> m_errno s1 \<noteq> ENOSPC_NO")
      case True
      then have "handle_pending (r # rs) s = s1" using g False by simp
      then show ?thesis using k True op Cons.prems(2) by (auto simp: keeps_def)
    next
      case nw: False
      define s2 where "s2 = refuse r s1"
      have r1: "r \<in> set (m_pend s1)" and p1: "pinv s1" using k r by (simp_all add: keeps_def)
      have s2: "pinv s2" "m_pend s2 = rs" "m_run s2 = m_run s" "m_susp s2 = m_susp s" "m_dead s2 = r # m_dead s" "m_req s2 = m_req s1"
        using refuse_pinv [OF p1 r1] p1 k Cons.prems(2) refuse_eq [of s1 r] r1
        by (simp_all add: s2_def keeps_def pinv_def part_res_def)
      have o: "\<forall>x. x \<noteq> r \<longrightarrow> m_req s1 x = m_req s x" using k by (simp add: keeps_def)
      let ?t = "handle_pending rs s2"
      obtain dn ok where ih: "pinv ?t" "m_susp ?t = m_susp s2" "rs = dn @ m_pend ?t" "m_run ?t = m_run s2 @ ok" "subseq ok dn"
        "set dn \<subseteq> set ok \<union> set (m_dead ?t)" "set (m_dead s2) \<subseteq> set (m_dead ?t)"
        "case m_pend ?t of [] \<Rightarrow> True | r # _ \<Rightarrow> has_opt PART_OPT_WAIT (m_req s2 r)" "\<forall>x. x \<notin> set rs \<longrightarrow> m_req ?t x = m_req s2 x"
        using Cons.IH [OF s2(1,2)] by blast
      have "subseq ok (r # dn)" using ih(5) by (rule list_emb_Cons)
      moreover have "handle_pending (r # rs) s = ?t" using g False nw by (auto simp: s2_def)
      ultimately show ?thesis using ih s2 op o
        by (intro conjI exI [of _ "r # dn"] exI [of _ ok]) (auto split: list.splits)
    qed
  qed
qed

lemma handlePartRequests_pinv: "pinv s \<Longrightarrow> pinv (handlePartRequests s)"
proof -
  assume p: "pinv s"
  then have p1: "pinv (if m_doCleanup s then cleanupReqQueues s else s)" using cleanupReqQueues_pinv by simp
  let ?s = "(if m_doCleanup s then cleanupReqQueues s else s)"
  have "pinv (handle_pending (m_pend ?s) (?s\<lparr>m_doHandle := False\<rparr>))"
    using handle_pending_fifo [of "?s\<lparr>m_doHandle := False\<rparr>" "m_pend ?s"] p1 by simp
  then show ?thesis using p1 by (simp add: handlePartRequests_def Let_def)
qed

section \<open>A new request\<close>

lemma append_pend_pinv:
  assumes p: "pinv s" and n: "r \<notin> set (m_pend s @ m_run s @ m_susp s)" "rq_tid (m_req s r) \<notin> set (tids (m_pend s @ m_run s @ m_susp s) (m_req s))"
    and q: "\<not> rq_freed (m_req s r)" "rq_slots (m_req s r) = []" "0 < rq_tpp (m_req s r)"
  shows "pinv (s\<lparr>m_pend := m_pend s @ [r]\<rparr>)"
proof -
  have "qinv (s\<lparr>m_pend := m_pend s @ [r]\<rparr>)" using p n q by (auto simp: pinv_def qinv_def)
  then show ?thesis using p by (simp add: pinv_def)
qed

lemma create_part_pinv:
  assumes "pinv (s\<lparr>m_pend := m_pend s @ [r]\<rparr>)"
  shows "pinv (create_part r s)"
proof -
  let ?s1 = "s\<lparr>m_pend := m_pend s @ [r]\<rparr>"
  obtain b s2 where g: "getPartition r ?s1 = (b, s2)" by fastforce
  have r1: "r \<in> set (m_pend ?s1)" by simp
  note gr = getPartition_result [OF assms r1 g]
  have t: "rq_tid (m_req s2 r) = rq_tid (m_req s r)" using gr by (auto simp: served_def keeps_def split: if_splits)
  have p2: "pinv s2" using gr by (auto simp: served_def keeps_def split: if_splits)
  moreover have "pinv (PSpart_delReq r (snd (deq_pend r s2)))" if "\<not> b"
  proof -
    have "r \<in> set (m_pend s2)" using gr that by (simp add: keeps_def)
    then have "deq_pend r s2 = (True, s2\<lparr>m_pend := remove1 r (m_pend s2)\<rparr>)" using deq_pend_in p2 by (simp add: pinv_def)
    then show ?thesis using drop_pend_pinv [OF p2, of r] by simp
  qed
  ultimately show ?thesis using g assms
    by (auto simp: create_part_def Let_def part_res_def split: bool.splits)
qed

section \<open>Messages\<close>

lemma master_taskdead_pinv: "pinv s \<Longrightarrow> pinv (master_taskdead t s)"
  using jobFinished_pinv [of s] findPart_Some [of _ t s] by (auto simp: master_taskdead_def split: option.splits)

lemma msg_TASKSUSPEND_pinv: "pinv s \<Longrightarrow> pinv (msg_TASKSUSPEND t s)"
  using jobSuspended_pinv [of s] findPart_Some [of _ t s] by (auto simp: msg_TASKSUSPEND_def split: option.splits)

lemma msg_TASKRESUME_pinv: "pinv s \<Longrightarrow> pinv (msg_TASKRESUME t s)"
  using jobResumed_pinv [of s] findPart_Some [of _ t s] by (auto simp: msg_TASKRESUME_def split: option.splits)

lemma msg_CANCELPART_pinv: "pinv s \<Longrightarrow> pinv (msg_CANCELPART t s)"
  using drop_pending_req_pinv [of s] findPart_Some [of _ t s] by (auto simp: msg_CANCELPART_def split: option.splits)

section \<open>The machine\<close>

text \<open>
  What may happen at the master; \<open>PInfo\<close> is any change of the tables of nodes, \<open>PMem\<close> of the memory.
\<close>

datatype pop = PCreate nat preq | PHandle | PDead taskid | PSuspend taskid | PResume taskid | PCancel taskid
  | PNodeDown nodeid | PTasksEnd nodeid | PInfo "nodeid \<Rightarrow> nodeinfo" | PMem "bool list"

text \<open>A request that is new: at an address that is not in use, from a task that has none.\<close>

definition new_request :: "nat \<Rightarrow> preq \<Rightarrow> mstate \<Rightarrow> bool" where
  "new_request r q s \<longleftrightarrow> r \<notin> set (m_pend s @ m_run s @ m_susp s) \<and> rq_tid q \<notin> set (tids (m_pend s @ m_run s @ m_susp s) (m_req s))
     \<and> \<not> rq_freed q \<and> rq_slots q = [] \<and> 0 < rq_tpp q"

fun pstep :: "pop \<Rightarrow> mstate \<Rightarrow> mstate" where
  "pstep (PCreate r q) s = create_part r (s\<lparr>m_req := (m_req s)(r := q)\<rparr>)"
| "pstep PHandle s = handlePartRequests s"
| "pstep (PDead t) s = master_taskdead t s"
| "pstep (PSuspend t) s = msg_TASKSUSPEND t s"
| "pstep (PResume t) s = msg_TASKRESUME t s"
| "pstep (PCancel t) s = msg_CANCELPART t s"
| "pstep (PNodeDown n) s = cleanupRequests n s"
| "pstep (PTasksEnd n) s = end_of_tasks n s"
| "pstep (PInfo i) s = s\<lparr>m_info := i\<rparr>"
| "pstep (PMem bs) s = s\<lparr>m_mem := bs\<rparr>"

lemma tids_other: "r \<notin> set rs \<Longrightarrow> tids rs (q(r := x)) = tids rs q"
  by (induction rs) auto

lemma pstep_create_pinv:
  assumes p: "pinv s" and n: "new_request r q s"
  shows "pinv (create_part r (s\<lparr>m_req := (m_req s)(r := q)\<rparr>))"
proof -
  let ?s = "s\<lparr>m_req := (m_req s)(r := q)\<rparr>"
  have o: "r \<notin> set (m_pend s)" "r \<notin> set (m_run s)" "r \<notin> set (m_susp s)" using n by (auto simp: new_request_def)
  have "qinv ?s" using p o unfolding pinv_def qinv_def by (auto simp: tids_other)
  then have "pinv ?s" using p o by (simp add: pinv_def)
  then have "pinv (?s\<lparr>m_pend := m_pend ?s @ [r]\<rparr>)"
    by (rule append_pend_pinv) (use n o in \<open>simp_all add: new_request_def tids_other\<close>)
  then show ?thesis by (rule create_part_pinv)
qed

text \<open>Every request of a run is new when it comes.\<close>

fun new_op :: "pop \<Rightarrow> mstate \<Rightarrow> bool" where
  "new_op (PCreate r q) s \<longleftrightarrow> new_request r q s"
| "new_op _ s \<longleftrightarrow> True"

fun new_requests :: "pop list \<Rightarrow> mstate \<Rightarrow> bool" where
  "new_requests [] s \<longleftrightarrow> True"
| "new_requests (e # es) s \<longleftrightarrow> new_op e s \<and> new_requests es (pstep e s)"

lemma pstep_pinv: "pinv s \<Longrightarrow> new_op e s \<Longrightarrow> pinv (pstep e s)"
  by (cases e) (auto intro: pstep_create_pinv handlePartRequests_pinv master_taskdead_pinv msg_TASKSUSPEND_pinv
      msg_TASKRESUME_pinv msg_CANCELPART_pinv cleanupRequests_pinv end_of_tasks_pinv)

text \<open>The machine of the invariant leaves out other requests; a run that has none does the same there.\<close>

definition pguard :: "pop \<Rightarrow> mstate \<Rightarrow> mstate" where
  "pguard e s = (if new_op e s then pstep e s else s)"

interpretation master: inv_machine pguard pinv
  by unfold_locales (simp add: pguard_def pstep_pinv)

lemma run_guard: "new_requests es s \<Longrightarrow> fold pstep es s = fold pguard es s"
  by (induction es arbitrary: s) (simp_all add: pguard_def)

end
