(* ===== verification/Part_Props.thy ===== *)
theory Part_Props
  imports Part_Serve
begin

text \<open>
  Properties of the master of partitions: exact accounts over any run, first come first served, the size of
  partitions, and three ways in which the books and the jobs part.
\<close>

declare not_None_eq [simp del]

section \<open>A state to apply them to\<close>

definition ex_node :: nodeinfo where
  "ex_node = \<lparr>ni_up = True, ni_hwStatus = 0, ni_runJobs = True, ni_users = [-1], ni_groups = [-1], ni_numThrds = 2, ni_procs = -1,
     ni_overbook = OVERBOOK_FALSE, ni_exclusive = True, ni_pinProcs = True, ni_load = (0, 0, 0)\<rparr>"

definition ex_req :: "taskid \<Rightarrow> uint32 \<Rightarrow> slot list \<Rightarrow> preq" where
  "ex_req t n sl = \<lparr>rq_tid = t, rq_size = n, rq_hwType = 0, rq_uid = 0, rq_gid = 0, rq_sort = PART_SORT_PROC, rq_options = 0, rq_num = 1,
     rq_tpp = 1, rq_nodes = [0], rq_slots = sl, rq_deleted = False, rq_suspended = False, rq_freed = False\<rparr>"

definition ex_master :: mstate where
  "ex_master = \<lparr>m_myID = 0, m_nrNodes = 1, m_info = (\<lambda>n. ex_node), m_stat = None, m_req = (\<lambda>r. ex_req 7 2 []), m_pend = [], m_run = [],
     m_susp = [], m_dead = [], m_sisters = (\<lambda>t. None), m_pendingTaskReq = 0, m_doHandle = False, m_doCleanup = False,
     m_freeOnSuspend = False, m_mem = [], m_send = [], m_errno = 0, m_log = []\<rparr>"

section \<open>The new master\<close>

definition no_accounts :: "mstate \<Rightarrow> bool" where
  "no_accounts s \<longleftrightarrow> m_stat s \<noteq> None \<and> (\<forall>n. ns_CPUset (stat_of n s) = zero_set \<and> ns_assgndThrds (stat_of n s) = 0)"

lemma no_accounts_acc: "no_accounts s \<Longrightarrow> acc [] s"
  by (simp add: no_accounts_def acc_def used_def)

lemma init_part_fields: "m_req (init_stat n s) = m_req s" "m_pend (init_stat n s) = m_pend s" "m_run (init_stat n s) = m_run s"
  "m_susp (init_stat n s) = m_susp s" "m_freeOnSuspend (init_stat n s) = m_freeOnSuspend s" "m_send (init_stat n s) = m_send s"
  by (simp_all add: init_stat_def send_GETTASKS_def set_errno_def Let_def)

lemma stat_of_field [simp]: "stat_of n (s\<lparr>m_pendingTaskReq := i\<rparr>) = stat_of n s" "stat_of n (s\<lparr>m_errno := e\<rparr>) = stat_of n s"
  by (simp_all add: stat_of_def)

lemma upd_stat_no_accounts:
  "no_accounts s \<Longrightarrow> ns_CPUset (f (stat_of n s)) = zero_set \<Longrightarrow> ns_assgndThrds (f (stat_of n s)) = 0 \<Longrightarrow> no_accounts (upd_stat n f s)"
  by (simp add: no_accounts_def stat_of_upd_stat)

lemma no_accounts_fields [simp]: "no_accounts (s\<lparr>m_pendingTaskReq := i\<rparr>) = no_accounts s" "no_accounts (s\<lparr>m_errno := e\<rparr>) = no_accounts s"
  "no_accounts (plog ev s) = no_accounts s"
  by (simp_all add: no_accounts_def)

lemma init_stat_no_accounts: "no_accounts s \<Longrightarrow> no_accounts (init_stat n s)"
proof -
  assume s: "no_accounts s"
  have a: "no_accounts (upd_stat n (\<lambda>x. fresh_stat) s)" by (rule upd_stat_no_accounts [OF s]) (simp_all add: fresh_stat_def)
  let ?s = "upd_stat n (\<lambda>x. fresh_stat) s"
  have "no_accounts (upd_stat n (\<lambda>x. x\<lparr>ns_taskReqPending := ns_taskReqPending x + 1\<rparr>) ?s)"
    by (rule upd_stat_no_accounts [OF a]) (use a in \<open>simp_all add: no_accounts_def\<close>)
  then show ?thesis using a by (simp add: init_stat_def send_GETTASKS_def set_errno_def Let_def)
qed

lemma initPartHandler_pinv:
  assumes q: "m_pend s = []" "m_run s = []" "m_susp s = []" "\<not> m_freeOnSuspend s" "\<forall>b \<in> set (m_send s). b" "m_stat s = None" "hd (m_mem s @ [True])"
  shows "pinv (initPartHandler s)"
proof -
  obtain s1 where a: "alloc_stat s = (True, s1)" "s1 = s\<lparr>m_mem := tl (m_mem s)\<rparr>"
    using q(6,7) by (cases "m_mem s") (auto simp: alloc_stat_def pmalloc_def)
  define s2 where "s2 = s1\<lparr>m_stat := Some (\<lambda>n. fresh_stat)\<rparr>"
  let ?t = "fold init_stat (all_nodes s2) (s2\<lparr>m_pendingTaskReq := 0\<rparr>)"
  have "no_accounts (s2\<lparr>m_pendingTaskReq := 0\<rparr>)" by (simp add: no_accounts_def s2_def stat_of_def fresh_stat_def)
  then have n: "no_accounts (fold init_stat ns (s2\<lparr>m_pendingTaskReq := 0\<rparr>))" for ns
    by (induction ns rule: rev_induct) (auto intro: init_stat_no_accounts)
  have f: "m_pend ?t = []" "m_run ?t = []" "m_susp ?t = []" "\<not> m_freeOnSuspend ?t" "\<forall>b \<in> set (m_send ?t). b"
    using q by (simp_all add: fold_field init_part_fields s2_def a(2))
  have "initPartHandler s = ?t" using q(6) a by (simp add: initPartHandler_def s2_def Let_def)
  moreover have "pinv ?t" using f no_accounts_acc [OF n] by (simp add: pinv_def qinv_def)
  ultimately show ?thesis by simp
qed

text \<open>
  Two requests come while the new master still waits for the answer of its node; the second one may wait.  Then the
  answer arrives.
\<close>

definition ex_come :: "pop list" where
  "ex_come = [PCreate 0 (ex_req 7 2 []), PCreate 1 ((ex_req 8 1 [])\<lparr>rq_options := PART_OPT_WAIT\<rparr>), PTasksEnd 0]"

lemma ex_come_new: "new_requests ex_come (initPartHandler ex_master)"
  by code_simp

lemma ex_come_queue: "m_pend (fold pstep ex_come (initPartHandler ex_master)) = [0, 1]"
  by code_simp

lemma ex_come_wait: "\<not> has_opt PART_OPT_WAIT (m_req (fold pstep ex_come (initPartHandler ex_master)) 0)"
  by code_simp

lemma new_requests_append: "new_requests (es @ es') s \<longleftrightarrow> new_requests es s \<and> new_requests es' (fold pstep es s)"
  by (induction es arbitrary: s) simp_all

text \<open>
  C2: no CPU for two jobs.  From the moment a daemon becomes the master, whatever requests come, wait, are served,
  suspended, continued, cancelled or ended, while nodes come and go and memory runs out: a CPU is marked as used if one
  of the slots of the running and the suspended jobs has it, never two slots have it, and the number of threads in
  use at a node is that of the slots there.  This is for a daemon that keeps the CPUs of suspended jobs
  (\<open>freeOnSuspend\<close> is off), whose messages all get out, that gets each request at a new address, from a task
  without a request, for at least one thread per process (\<open>new_requests\<close>), and that stays the master and is not
  told of partitions of an old one (\<open>exitPartHandler\<close> and \<open>handleMasterPart\<close> are not among the events).
  \<open>resumed_job_loses_its_cpus\<close> and \<open>unsent_partition_dangles\<close> show what happens with \<open>freeOnSuspend\<close> and after a send that failed.
\<close>

theorem no_cpu_for_two_jobs:
  fixes ops :: "pop list"
  assumes "m_pend s = []" "m_run s = []" "m_susp s = []" "\<not> m_freeOnSuspend s" "\<forall>b \<in> set (m_send s). b" "m_stat s = None" "hd (m_mem s @ [True])"
    and "new_requests ops (initPartHandler s)"
  defines "s' \<equiv> fold pstep ops (initPartHandler s)"
  shows "hold (job_slots (m_run s' @ m_susp s') (m_req s')) n c = of_bool (c \<in> used n s')
    \<and> ns_assgndThrds (stat_of n s') = of_nat (thrds (job_slots (m_run s' @ m_susp s') (m_req s')) n)"
proof -
  have "pinv s'" unfolding s'_def run_guard [OF assms(8)]
    by (rule master.run_inv [OF initPartHandler_pinv]) (use assms in auto)
  then show ?thesis by (simp add: pinv_def acc_def)
qed

theorem no_cpu_for_two_jobs_witness:
  "let s' = fold pstep (ex_come @ [PHandle, PSuspend 7, PHandle, PResume 7, PDead 8, PHandle]) (initPartHandler ex_master)
   in hold (job_slots (m_run s' @ m_susp s') (m_req s')) 0 1 = of_bool (1 \<in> used 0 s')"
proof -
  have n: "new_requests (ex_come @ [PHandle, PSuspend 7, PHandle, PResume 7, PDead 8, PHandle]) (initPartHandler ex_master)"
    unfolding new_requests_append using ex_come_new by simp
  have m: "m_pend ex_master = []" "m_run ex_master = []" "m_susp ex_master = []" "\<not> m_freeOnSuspend ex_master"
    "\<forall>b \<in> set (m_send ex_master). b" "m_stat ex_master = None" "hd (m_mem ex_master @ [True])"
    by (simp_all add: ex_master_def)
  show ?thesis unfolding Let_def by (rule no_cpu_for_two_jobs [OF m n, THEN conjunct1])
qed

text \<open>
  C10: first come, first served.  When the master looks at the requests that wait, it serves or refuses those at the
  head of the queue, and the served ones join the running jobs in their order.  What is left is the rest of the queue,
  and it begins with a request that said it would wait: no request overtakes it.  The state is one of the runs of the master
  above (\<open>pinv\<close>): in particular \<open>freeOnSuspend\<close> is off and all messages get out.
\<close>

theorem first_come_first_served:
  assumes "pinv s"
  defines "s' \<equiv> handle_pending (m_pend s) s"
  shows "\<exists>dn ok. m_pend s = dn @ m_pend s' \<and> m_run s' = m_run s @ ok \<and> subseq ok dn \<and> set dn \<subseteq> set ok \<union> set (m_dead s')
    \<and> (case m_pend s' of [] \<Rightarrow> True | r # _ \<Rightarrow> has_opt PART_OPT_WAIT (m_req s r))"
  using handle_pending_fifo [OF assms(1) refl] unfolding s'_def by blast

text \<open>The two requests above: the first, which does not wait, is served or refused, and the second never before it.\<close>

theorem first_come_first_served_witness:
  "let s = fold pstep ex_come (initPartHandler ex_master); s' = handle_pending (m_pend s) s
   in m_pend s = [0, 1] \<and> m_pend s' \<in> {[], [1]} \<and> 0 \<in> set (m_run s') \<union> set (m_dead s')"
proof -
  define s where "s = fold pstep ex_come (initPartHandler ex_master)"
  define s' where "s' = handle_pending (m_pend s) s"
  have q: "m_pend s = [0, 1]" "\<not> has_opt PART_OPT_WAIT (m_req s 0)" using ex_come_queue ex_come_wait by (simp_all add: s_def)
  have "pinv (initPartHandler ex_master)" by (rule initPartHandler_pinv) (simp_all add: ex_master_def)
  then have "pinv s" unfolding s_def run_guard [OF ex_come_new] by (rule master.run_inv)
  from first_come_first_served [OF this] obtain dn ok where d: "m_pend s = dn @ m_pend s'" "m_run s' = m_run s @ ok"
    "set dn \<subseteq> set ok \<union> set (m_dead s')" "case m_pend s' of [] \<Rightarrow> True | r # _ \<Rightarrow> has_opt PART_OPT_WAIT (m_req s r)"
    unfolding s'_def [symmetric] by blast
  have "dn \<noteq> []"
  proof
    assume "dn = []"
    then have "m_pend s' = [0, 1]" using d(1) q(1) by simp
    then show False using d(4) q(2) by simp
  qed
  then obtain xs where "dn = 0 # xs" "xs @ m_pend s' = [1]" using d(1) q(1) by (cases dn) auto
  moreover from this have "m_pend s' \<in> {[], [1]}" by (auto simp: append_eq_Cons_conv)
  ultimately show ?thesis using d(2,3) q(1) unfolding Let_def s_def [symmetric] s'_def [symmetric] by auto
qed

text \<open>
  C13: the size of a partition.  A partition that is made without over-booking, for a request that neither asks for
  exact nor for full nodes, has one slot per node, free CPUs of that node only, and as many of them as the processes
  of the request need, to the last one.
\<close>

theorem partition_has_its_size:
  assumes "stat_wf s" "0 < rq_tpp req" "\<not> has_opt PART_OPT_EXACT req" "\<not> has_opt PART_OPT_FULL_LIST req" "\<not> has_opt PART_OPT_OVERBOOK req"
    and "createPartition req c s = ((num, req'), s')" "num \<noteq> -1"
  shows "num = int (unat (rq_size req)) \<and> total_cpus (rq_slots req') = unat (rq_size req) * rq_tpp req
    \<and> unat (rq_size req') = length (rq_slots req') \<and> good_slots s [] (rq_slots req')"
proof -
  let ?w = "unat (rq_size req)"
  obtain m sl k ob1 cs where c: "make_slots req c (s\<lparr>m_mem := m\<rparr>) False = (sl, k, ob1, cs)" "k < ?w \<longrightarrow> ob1"
    "num = int (if k < ?w then ?w else k)" "req' = req\<lparr>rq_slots := sl, rq_size := of_nat cs\<rparr>"
    using createPartition_cases(2) [OF assms(6)] assms(5,7) by (auto simp: must_overbook_def)
  let ?s = "s\<lparr>m_mem := m\<rparr>"
  have wf: "stat_wf ?s" using assms(1) by simp
  obtain ns num' ob' where u: "user_loop req ?w ?s (so_entries c) [] [] 0 False = ([] @ ns, num', ob')" "good_slots ?s [] ns"
    "0 + length ns \<le> num'" "num' \<le> ?w" "ob' \<longrightarrow> False" "total_cpus ns + 0 * rq_tpp req = num' * rq_tpp req"
    using user_loop_spec [OF wf assms(2), of 0 ?w] assms(4) by (metis le0)
  then have e: "sl = ns" "k = num'" "ob1 = ob'" "cs = length ns" using c(1) assms(3) by (auto simp add: make_slots_def)
  have k: "k = ?w" using c(2) u(4,5) e by (metis le_antisym not_le)
  have "length ns \<le> ?w" using u(3) k e by simp
  then have "length ns < 2 ^ LENGTH(32)" using unsigned_less [of "rq_size req", where ?'a = nat] by simp
  then have "unat (of_nat (length ns) :: uint32) = length ns" by (simp add: unsigned_of_nat take_bit_nat_eq_self)
  moreover have "good_slots s [] ns" using u(2) by (simp add: good_slots_def)
  ultimately show ?thesis using c(3,4) e k u(6) by simp
qed

definition ex_cand :: candloop where
  "ex_cand = \<lparr>so_entries = [\<lparr>se_id = 0, se_HWThreads = 2, se_assgnd = 0, se_CPUset = zero_set, se_rating = 0, se_canPin = True\<rparr>],
     so_freeHWTs = 2, so_allPin = True, cl_tmp = (\<lambda>n. Some zero_set), cl_totHWTs = 2, cl_canOverbook = True\<rparr>"

theorem partition_has_its_size_witness:
  "fst (fst (createPartition (ex_req 7 2 []) ex_cand ex_master)) = 2
     \<and> total_cpus (rq_slots (snd (fst (createPartition (ex_req 7 2 []) ex_cand ex_master)))) = 2"
proof -
  let ?c = "createPartition (ex_req 7 2 []) ex_cand ex_master"
  have n: "fst (fst ?c) = 2" by code_simp
  have o: "\<not> has_opt PART_OPT_EXACT (ex_req 7 2 [])" "\<not> has_opt PART_OPT_FULL_LIST (ex_req 7 2 [])" "\<not> has_opt PART_OPT_OVERBOOK (ex_req 7 2 [])"
    by (simp_all add: has_opt_def ex_req_def)
  have w: "stat_wf ex_master" by (simp add: stat_wf_def stat_of_def ex_master_def)
  have t: "0 < rq_tpp (ex_req 7 2 [])" by (simp add: ex_req_def)
  have c: "?c = ((fst (fst ?c), snd (fst ?c)), snd ?c)" by simp
  have "rq_size (ex_req 7 2 []) = 2" "rq_tpp (ex_req 7 2 []) = 1" by (simp_all add: ex_req_def)
  then show ?thesis using partition_has_its_size [OF w t o c] n by simp
qed

section \<open>Where books and jobs part\<close>

lemma cleanup_susp:
  assumes p: "pinv s" shows "m_susp (cleanupReqQueues s) = m_susp s"
proof -
  have q: "qinv s" using p by (simp add: pinv_def)
  have a: "m_susp (fold (\<lambda>r x. if rq_deleted (m_req x r) then jobFinished r x else x) rs s) = m_susp s"
    if "pinv s" "distinct rs" "set rs \<subseteq> set (m_run s)" for rs s
    using that
  proof (induction rs arbitrary: s)
    case (Cons r rs)
    have q: "qinv s" and r: "r \<in> set (m_run s @ m_susp s)" using Cons.prems by (auto simp: pinv_def)
    have "r \<notin> set (m_susp s)" using qinv_tids(6) [OF q] in_tids Cons.prems(3) by (metis disjoint_iff list.set_intros(1) subsetD)
    then have s: "m_susp (jobFinished r s) = m_susp s" by (simp add: jobFinished_queues [OF q r] remove1_idem)
    have "set rs \<subseteq> set (m_run (jobFinished r s))"
      using Cons.prems by (simp add: jobFinished_queues [OF q r] subset_iff) (metis in_set_remove1)
    then show ?case using Cons s jobFinished_pinv [OF Cons.prems(1) r] by simp
  qed simp
  have b: "m_susp (fold (\<lambda>r x. if rq_deleted (m_req x r) then drop_pending_req r x else x) rs s) = m_susp s" for rs s
    by (induction rs arbitrary: s) (auto simp: drop_pending_req_def deq_pend_def split: prod.splits)
  show ?thesis using a [OF p distinct_tids [OF qinv_tids(2) [OF q]] subset_refl] b by (simp add: cleanupReqQueues_def Let_def)
qed

lemma mark_deleted_fields: "m_susp (mark_deleted n r s) = m_susp s" "m_run (mark_deleted n r s) = m_run s" "m_pend (mark_deleted n r s) = m_pend s"
  by (simp_all add: mark_deleted_def upd_req_def)

lemma cleanupRequests_susp: "m_susp (cleanupRequests n s) = m_susp s"
  by (simp add: cleanupRequests_def Let_def fold_field mark_deleted_fields)

lemma handlePartRequests_susp: "pinv s \<Longrightarrow> m_susp (handlePartRequests s) = m_susp s"
proof -
  assume p: "pinv s"
  let ?s = "(if m_doCleanup s then cleanupReqQueues s else s)"
  have p1: "pinv ?s" "m_susp ?s = m_susp s" using p cleanupReqQueues_pinv cleanup_susp by simp_all
  have "m_susp (handle_pending (m_pend ?s) (?s\<lparr>m_doHandle := False\<rparr>)) = m_susp ?s"
    using handle_pending_fifo [of "?s\<lparr>m_doHandle := False\<rparr>" "m_pend ?s"] p1 by simp
  then show ?thesis using p1 by (simp add: handlePartRequests_def Let_def)
qed

lemma cleanup_req: "m_req (cleanupReqQueues s) = m_req s"
proof -
  have j: "m_req (jobFinished r s) = m_req s" for r s
    by (auto simp: jobFinished_def deq_run_def deq_susp_def Let_def split: prod.split)
  have d: "m_req (drop_pending_req r s) = m_req s" for r s
    by (auto simp: drop_pending_req_def deq_pend_def split: prod.split)
  have f: "m_req (fold (\<lambda>r x. if rq_deleted (m_req x r) then g r x else x) rs s) = m_req s"
    if "\<And>r s. m_req (g r s) = m_req s" for g rs s using that by (induction rs arbitrary: s) auto
  show ?thesis using f [of jobFinished, OF j] f [of drop_pending_req, OF d] by (simp add: cleanupReqQueues_def Let_def)
qed

lemma cleanup_pend: "set (m_pend (cleanupReqQueues s)) \<subseteq> set (m_pend s)"
proof -
  have j: "m_pend (jobFinished r s) = m_pend s" for r s
    by (auto simp: jobFinished_def deq_run_def deq_susp_def Let_def split: prod.split)
  have d: "set (m_pend (drop_pending_req r s)) \<subseteq> set (m_pend s)" for r s
    using set_remove1_subset [of r "m_pend s"] by (auto simp: drop_pending_req_def deq_pend_def deqPart_def)
  have f: "set (m_pend (fold (\<lambda>r x. if rq_deleted (m_req x r) then g r x else x) rs s)) \<subseteq> set (m_pend s)"
    if "\<And>r s. set (m_pend (g r s)) \<subseteq> set (m_pend s)" for g rs s
    using that by (induction rs arbitrary: s) (auto, meson subsetD)
  show ?thesis using f [of drop_pending_req, OF d] f [of jobFinished] j by (simp add: cleanupReqQueues_def Let_def) blast
qed

lemma handlePartRequests_req:
  assumes p: "pinv s" and x: "x \<notin> set (m_pend s)"
  shows "m_req (handlePartRequests s) x = m_req s x"
proof -
  let ?s = "(if m_doCleanup s then cleanupReqQueues s else s)"
  have s: "pinv ?s" "m_req ?s = m_req s" "x \<notin> set (m_pend ?s)" using p x cleanupReqQueues_pinv cleanup_req cleanup_pend by auto
  have "m_req (handle_pending (m_pend ?s) (?s\<lparr>m_doHandle := False\<rparr>)) x = m_req ?s x"
    using handle_pending_fifo [of "?s\<lparr>m_doHandle := False\<rparr>" "m_pend ?s"] s by simp
  then show ?thesis using s by (simp add: handlePartRequests_def Let_def)
qed

lemma cleanupRequests_slots: "slots_of (m_req (cleanupRequests n s) r) = slots_of (m_req s r)"
proof -
  have "slots_of (m_req (mark_deleted n x s) r) = slots_of (m_req s r)" for x s by (simp add: mark_deleted_def upd_req_def slots_of_def)
  then have "slots_of (m_req (fold (mark_deleted n) xs s) r) = slots_of (m_req s r)" for xs s by (induction xs arbitrary: s) auto
  then show ?thesis by (simp add: cleanupRequests_def Let_def)
qed

text \<open>
  C23: a suspended job outlives its node.  The death of a node marks the requests of its tasks in the queues of running
  and of waiting requests only.  A suspended job whose task was there stays in its queue when the master cleans up,
  and its CPUs stay in use: nothing frees them, for the task will never be reported dead.
\<close>

theorem suspended_job_outlives_its_node:
  assumes "pinv s" "r \<in> set (m_susp s)" "PSC_getID (m_myID s) (rq_tid (m_req s r)) = n" "sl \<in> set (slots_of (m_req s r))" "c \<in> cpus (sl_cpus sl)"
  defines "s' \<equiv> handlePartRequests (cleanupRequests n s)"
  shows "r \<in> set (m_susp s') \<and> slots_of (m_req s' r) = slots_of (m_req s r) \<and> c \<in> used (sl_node sl) s'"
proof -
  let ?s = "cleanupRequests n s"
  have p: "pinv ?s" using assms(1) by (rule cleanupRequests_pinv)
  have r1: "r \<in> set (m_susp ?s)" using assms(2) by (simp add: cleanupRequests_susp)
  have q1: "qinv ?s" using p by (simp add: pinv_def)
  have p': "pinv s'" unfolding s'_def by (rule handlePartRequests_pinv [OF p])
  have r: "r \<in> set (m_susp s')" unfolding s'_def using r1 handlePartRequests_susp [OF p] by simp
  have "r \<notin> set (m_pend ?s)" using pend_not_active [OF q1] r1 by blast
  then have e: "slots_of (m_req s' r) = slots_of (m_req ?s r)" unfolding s'_def using handlePartRequests_req [OF p] by simp
  also have "\<dots> = slots_of (m_req s r)" by (rule cleanupRequests_slots)
  finally have "sl \<in> set (slots_of (m_req s' r))" using assms(4) by simp
  then have sl: "sl \<in> set (job_slots (m_run s' @ m_susp s') (m_req s'))" using r by (auto simp: job_slots_def)
  have "1 \<le> hold l m c" if "sl \<in> set l" "sl_node sl = m" for l m using that assms(5) by (induction l) auto
  then have "1 \<le> hold (job_slots (m_run s' @ m_susp s') (m_req s')) (sl_node sl) c" using sl by blast
  moreover have "hold (job_slots (m_run s' @ m_susp s') (m_req s')) (sl_node sl) c = of_bool (c \<in> used (sl_node sl) s')"
    using p' unfolding pinv_def acc_def by blast
  ultimately have "c \<in> used (sl_node sl) s'" by (metis of_bool_eq(1) not_one_le_zero)
  then show ?thesis using r e cleanupRequests_slots by simp
qed

text \<open>A master with one job, which has CPU 1 of node 0.\<close>

definition ex_slot :: slot where
  "ex_slot = \<lparr>sl_node = 0, sl_cpus = PSCPU_setCPU zero_set 1\<rparr>"

definition ex_booked :: mstate where
  "ex_booked = ex_master\<lparr>m_stat := Some (\<lambda>n. if n = 0
       then \<lparr>ns_assgndThrds = 1, ns_exclusive = False, ns_taskReqPending = 0, ns_CPUset = PSCPU_setCPU zero_set 1\<rparr> else fresh_stat),
     m_req := (\<lambda>r. if r = 0 then ex_req 7 1 [ex_slot] else (ex_req 8 1 [ex_slot])\<lparr>rq_freed := True\<rparr>)\<rparr>"

lemma ex_set [simp]: "cpus (PSCPU_setCPU zero_set 1) = {1}" "cpus (PSCPU_setCPU zero_set (Suc 0)) = {1}"
  by (simp_all add: cpus_setCPU PSCPU_MAX_def)

lemma ex_slots_of [simp]: "slots_of (ex_req t 1 [sl]) = [sl]" "slots_of ((ex_req t 1 [sl])\<lparr>rq_freed := b\<rparr>) = [sl]"
  by (simp_all add: slots_of_def ex_req_def)

lemma ex_booked_acc: "acc [ex_slot] ex_booked"
  by (auto simp: acc_def used_def stat_of_def ex_booked_def ex_slot_def fresh_stat_def)

theorem suspended_job_outlives_its_node_witness:
  "0 \<in> set (m_susp (handlePartRequests (cleanupRequests 0 (ex_booked\<lparr>m_susp := [0]\<rparr>))))
     \<and> 1 \<in> used 0 (handlePartRequests (cleanupRequests 0 (ex_booked\<lparr>m_susp := [0]\<rparr>)))"
proof -
  let ?s = "ex_booked\<lparr>m_susp := [0]\<rparr>"
  have f: "m_req ?s 0 = ex_req 7 1 [ex_slot]" "m_run ?s = []" "m_pend ?s = []" "\<not> m_freeOnSuspend ?s" "m_send ?s = []" "m_myID ?s = 0"
    by (simp_all add: ex_booked_def ex_master_def)
  have "pinv ?s" using ex_booked_acc f by (simp add: pinv_def qinv_def) (simp add: ex_req_def)
  moreover have "PSC_getID (m_myID ?s) (rq_tid (m_req ?s 0)) = 0" by (simp add: f ex_req_def) code_simp
  ultimately show ?thesis
    using suspended_job_outlives_its_node [of ?s 0 0 ex_slot 1] f by (simp add: ex_slot_def)
qed

text \<open>Freeing a slot takes its CPUs out of use, whoever has them.\<close>

lemma used_unregister_slot:
  assumes "m_stat s \<noteq> None" "stat_wf s" "cpu_wf (sl_cpus sl)"
  shows "used n (unregister_slot req sl s) = used n s - (if n = sl_node sl then cpus (sl_cpus sl) else {})"
    "stat_wf (unregister_slot req sl s)"
proof -
  note st = unregister_slot_stat [OF assms(1), where req = req and sl = sl]
  have len: "length (sl_cpus sl) = length (ns_CPUset (stat_of n s))" for n
    using assms(2,3) by (simp add: stat_wf_def cpu_wf_def)
  show "used n (unregister_slot req sl s) = used n s - (if n = sl_node sl then cpus (sl_cpus sl) else {})"
    using cpus_remCPUs [OF len] by (simp add: used_def st(1))
  show "stat_wf (unregister_slot req sl s)"
    using assms len by (auto simp: st(1) stat_wf_def cpu_wf_def PSCPU_remCPUs_def)
qed

lemma used_unregister_slots:
  assumes "m_stat s \<noteq> None" "stat_wf s" "\<forall>sl \<in> set ns. cpu_wf (sl_cpus sl)" "sl \<in> set ns" "c \<in> cpus (sl_cpus sl)"
  shows "c \<notin> used (sl_node sl) (fold (unregister_slot req) ns s)"
proof -
  have sub: "used n (fold (unregister_slot req) ns s) \<subseteq> used n s" if "m_stat s \<noteq> None" "stat_wf s" "\<forall>sl \<in> set ns. cpu_wf (sl_cpus sl)" for n ns s
    using that
  proof (induction ns arbitrary: s)
    case (Cons sl ns)
    then show ?case using used_unregister_slot [of s sl] unregister_slot_stat(2) [of s req sl] by fastforce
  qed simp
  show ?thesis using assms
  proof (induction ns arbitrary: s)
    case (Cons x ns)
    have u: "m_stat (unregister_slot req x s) \<noteq> None" "stat_wf (unregister_slot req x s)"
      using Cons.prems unregister_slot_stat(2) used_unregister_slot(2) by auto
    show ?case
    proof (cases "sl \<in> set ns")
      case True
      then show ?thesis using Cons u by simp
    next
      case False
      then have "x = sl" using Cons.prems(4) by simp
      then have "c \<notin> used (sl_node sl) (unregister_slot req x s)" using used_unregister_slot(1) [of s x "sl_node sl" req] Cons.prems by simp
      then show ?thesis using sub [OF u, of ns "sl_node sl"] Cons.prems(3) by auto
    qed
  qed simp
qed

lemma used_register_slots:
  assumes "m_stat s \<noteq> None" "stat_wf s" "\<forall>sl \<in> set ns. cpu_wf (sl_cpus sl)"
  shows "stat_wf (fold (register_slot req) ns s)" "m_stat (fold (register_slot req) ns s) \<noteq> None"
proof -
  have st: "stat_wf (register_slot req sl s)" if "m_stat s \<noteq> None" "stat_wf s" "cpu_wf (sl_cpus sl)" for s sl
    using that by (auto simp: register_slot_stat(1) [OF that(1)] stat_wf_def cpu_wf_def PSCPU_addCPUs_def)
  have "stat_wf (fold (register_slot req) ns s) \<and> m_stat (fold (register_slot req) ns s) \<noteq> None"
    using assms
  proof (induction ns arbitrary: s)
    case (Cons sl ns)
    then show ?case using st [of s sl] register_slot_stat(2) [of s req sl] by simp
  qed simp
  then show "stat_wf (fold (register_slot req) ns s)" "m_stat (fold (register_slot req) ns s) \<noteq> None" by blast+
qed

lemma registerReq_eq: "m_stat s \<noteq> None \<Longrightarrow> registerReq r s = fold (register_slot (m_req s r)) (slots_of (m_req s r)) s"
  by (auto simp: registerReq_def slots_of_def Let_def)

lemma unregisterReq_eq: "m_stat s \<noteq> None \<Longrightarrow> slots_of (m_req s r) \<noteq> [] \<Longrightarrow>
    unregisterReq r s = (fold (unregister_slot (m_req s r)) (slots_of (m_req s r)) s)\<lparr>m_doHandle := True\<rparr>"
  by (auto simp: unregisterReq_def slots_of_def Let_def)

text \<open>
  C18: with \<open>freeOnSuspend\<close>, resuming a job books CPUs twice.  The CPUs of a suspended job may go to another one.
  When the first is resumed it is registered with its old slots without a look at what is in use; when the second
  job ends, the CPUs that both have count as free, although the first runs on them.
\<close>

theorem resumed_job_loses_its_cpus:
  assumes "m_stat s \<noteq> None" "stat_wf s" "findPart (m_susp s) ta s = Some a" "rq_freed (m_req s a)" "\<forall>sl \<in> set (slots_of (m_req s a)). cpu_wf (sl_cpus sl)"
    and "findPart (m_run s) tb s = Some b" "\<not> rq_freed (m_req s b)" "\<forall>sl \<in> set (slots_of (m_req s b)). cpu_wf (sl_cpus sl)" "ta \<noteq> tb"
    and "sl \<in> set (slots_of (m_req s a))" "sl' \<in> set (slots_of (m_req s b))" "sl_node sl = sl_node sl'"
      "c \<in> cpus (sl_cpus sl)" "c \<in> cpus (sl_cpus sl')"
  defines "s' \<equiv> master_taskdead tb (msg_TASKRESUME ta s)"
  shows "a \<in> set (m_run s') \<and> sl \<in> set (slots_of (m_req s' a)) \<and> c \<notin> used (sl_node sl) s'"
proof -
  let ?s1 = "(s\<lparr>m_susp := snd (deqPart (m_susp s) a s)\<rparr>)"
  let ?s2 = "upd_req a (\<lambda>q. q\<lparr>rq_freed := False\<rparr>) (registerReq a ?s1)"
  let ?s3 = "?s2\<lparr>m_run := m_run s @ [a]\<rparr>"
  have a: "rq_tid (m_req s a) = ta" and b: "rq_tid (m_req s b) = tb" "b \<in> set (m_run s)" using findPart_Some assms(3,6) by blast+
  have ab: "a \<noteq> b" using a b assms(9) by auto
  have r3: "msg_TASKRESUME ta s = ?s3"
    using assms(1,3,4) by (simp add: msg_TASKRESUME_def jobResumed_def deq_susp_def Let_def upd_req_def split: prod.split)
  have e2: "registerReq a ?s1 = fold (register_slot (m_req s a)) (slots_of (m_req s a)) ?s1"
    using registerReq_eq [of ?s1 a] assms(1) by simp
  have w2: "stat_wf ?s3" "m_stat ?s3 \<noteq> None"
  proof -
    have "stat_wf ?s1" "m_stat ?s1 \<noteq> None" using assms(1,2) by (simp_all add: stat_wf_def stat_of_def)
    note w = used_register_slots [OF this(2,1) assms(5), of "m_req s a", folded e2]
    have "stat_of n ?s3 = stat_of n (registerReq a ?s1)" for n by (rule stat_of_same) (simp add: upd_req_def)
    then show "stat_wf ?s3" "m_stat ?s3 \<noteq> None" using w by (simp_all add: stat_wf_def upd_req_def)
  qed
  have q3: "m_req ?s3 b = m_req s b" "slots_of (m_req ?s3 a) = slots_of (m_req s a)" "rq_tid (m_req ?s3 x) = rq_tid (m_req s x)" for x
    using ab by (simp_all add: upd_req_def slots_of_def)
  have f3: "findPart (m_run s @ [a]) tb y = Some b" if "m_req y = m_req ?s3" for y
  proof -
    have "List.find (\<lambda>r. rq_tid (m_req y r) = tb) rs = List.find (\<lambda>r. rq_tid (m_req s r) = tb) rs" for rs
      using q3(3) that by (induction rs) simp_all
    moreover have "List.find P (xs @ ys) = (case List.find P xs of Some x \<Rightarrow> Some x | None \<Rightarrow> List.find P ys)" for P and xs ys :: "nat list"
      by (induction xs) simp_all
    ultimately show ?thesis using assms(6) by (simp add: findPart_def)
  qed
  let ?s4 = "unregisterReq b (plog (EHook tb) ?s3)"
  have s': "s' = jobFinished b ?s3" using w2(2) f3 [of ?s3] unfolding s'_def r3 by (simp add: master_taskdead_def)
  also have "\<dots> = PSpart_delReq b (?s4\<lparr>m_run := remove1 b (m_run s @ [a])\<rparr>)"
    using assms(7) q3(1) f3 b by (simp add: jobFinished_def deq_run_def deqPart_def Let_def q3)
  finally have s': "s' = PSpart_delReq b (?s4\<lparr>m_run := remove1 b (m_run s @ [a])\<rparr>)" .
  have ne: "slots_of (m_req s b) \<noteq> []" using assms(11) by auto
  have "unregisterReq b (plog (EHook tb) ?s3) = (fold (unregister_slot (m_req s b)) (slots_of (m_req s b)) (plog (EHook tb) ?s3))\<lparr>m_doHandle := True\<rparr>"
    using unregisterReq_eq [of "plog (EHook tb) ?s3" b] w2(2) ne q3(1) by simp
  moreover have "c \<notin> used (sl_node sl') (fold (unregister_slot (m_req s b)) (slots_of (m_req s b)) (plog (EHook tb) ?s3))"
    by (rule used_unregister_slots [OF _ _ assms(8,11,14)]) (use w2 in \<open>simp_all add: stat_wf_def\<close>)
  ultimately have "c \<notin> used (sl_node sl) s'" by (simp add: s' used_def stat_of_def assms(12))
  moreover have "a \<in> set (m_run s')" using ab by (simp add: s' in_set_remove1)
  moreover have "sl \<in> set (slots_of (m_req s' a))" using q3(2) assms(10) by (simp add: s')
  ultimately show ?thesis by simp
qed

text \<open>Job 0 of task 7 runs on CPU 1, job 1 of task 8 was suspended and gave it up.\<close>

theorem resumed_job_loses_its_cpus_witness:
  "let s = ex_booked\<lparr>m_run := [0], m_susp := [1]\<rparr>; s' = master_taskdead 7 (msg_TASKRESUME 8 s)
   in 1 \<in> set (m_run s') \<and> ex_slot \<in> set (slots_of (m_req s' 1)) \<and> 1 \<notin> used 0 s'"
proof -
  let ?s = "ex_booked\<lparr>m_run := [0], m_susp := [1]\<rparr>"
  have r: "m_req ?s 0 = ex_req 7 1 [ex_slot]" "m_req ?s 1 = (ex_req 8 1 [ex_slot])\<lparr>rq_freed := True\<rparr>" "m_req ?s (Suc 0) = m_req ?s 1"
    by (simp_all add: ex_booked_def)
  have f: "findPart (m_susp ?s) 8 ?s = Some 1" "findPart (m_run ?s) 7 ?s = Some 0"
    by (simp_all add: findPart_def ex_booked_def ex_req_def)
  have w: "m_stat ?s \<noteq> None" "stat_wf ?s"
  proof -
    have "acc [ex_slot] ?s" using ex_booked_acc by simp
    then show "m_stat ?s \<noteq> None" "stat_wf ?s" unfolding acc_def stat_wf_def by blast+
  qed
  have "rq_freed (m_req ?s 1)" "\<not> rq_freed (m_req ?s 0)" unfolding r by (simp_all add: ex_req_def)
  from resumed_job_loses_its_cpus [OF w f(1) this(1) _ f(2) this(2), of ex_slot ex_slot 1]
  moreover have "slots_of (m_req ex_booked (Suc 0)) = [ex_slot]" "slots_of (m_req ex_booked 0) = [ex_slot]" "sl_node ex_slot = 0"
    "cpu_wf (sl_cpus ex_slot)" "cpus (sl_cpus ex_slot) = {1}"
    by (simp_all add: ex_booked_def) (simp_all add: ex_slot_def)
  ultimately show ?thesis by (simp add: Let_def)
qed

text \<open>
  C28: a partition that cannot be sent.  Once the partition is made, the request moves to the running jobs and is
  registered; only then is the answer sent.  If that fails the caller frees the request, but the queue of running
  jobs still holds it, and its CPUs stay in use.
\<close>

theorem unsent_partition_dangles:
  assumes "\<not> has_opt PART_OPT_FULL_LIST (m_req s r)" "rq_sort (m_req s r) = PART_SORT_NONE"
    and "createPartition (m_req s r) c s = ((num, req), s4)" "sint (rq_size (m_req s r)) \<le> num" "rq_tid req = rq_tid (m_req s r)"
    and "findPart (m_pend s) (rq_tid (m_req s r)) s = Some r" "m_send s = False # bs"
  defines "s' \<equiv> refuse r (snd (use_candidates r c s))"
  shows "\<not> fst (use_candidates r c s) \<and> r \<in> set (m_run s') \<and> r \<in> set (m_dead s')"
proof -
  obtain m where s4: "s4 = s\<lparr>m_mem := m\<rparr>" using createPartition_cases(1) [OF assms(3)] by blast
  let ?s5 = "upd_req r (\<lambda>q. req) s4"
  have "List.find (\<lambda>x. rq_tid (m_req ?s5 x) = rq_tid (m_req s r)) rs = List.find (\<lambda>x. rq_tid (m_req s x) = rq_tid (m_req s r)) rs" for rs
    using assms(5) by (induction rs) (simp_all add: upd_req_def s4)
  then have "deqPart (m_pend s) r ?s5 = (True, remove1 r (m_pend s))"
    using assms(5,6) by (simp add: deqPart_def findPart_def upd_req_def s4)
  then have d: "deq_pend r ?s5 = (True, ?s5\<lparr>m_pend := remove1 r (m_pend s)\<rparr>)" by (simp add: deq_pend_def upd_req_def s4)
  define x where "x = registerReq r ((upd_req r (\<lambda>q. q\<lparr>rq_nodes := []\<rparr>) (?s5\<lparr>m_pend := remove1 r (m_pend s)\<rparr>))\<lparr>m_run := m_run s @ [r]\<rparr>)"
  have m: "m_send x = False # bs" "m_run x = m_run s @ [r]" using assms(7) by (simp_all add: x_def upd_req_def s4)
  have "use_candidates r c s = sendPartition r x"
    using assms(1-4) d by (simp add: use_candidates_def x_def Let_def) (simp add: upd_req_def s4)
  also have "\<dots> = (False, x\<lparr>m_send := bs\<rparr>)" using m by (simp add: sendPartition_def)
  finally have u: "use_candidates r c s = (False, x\<lparr>m_send := bs\<rparr>)" .
  have "r \<in> set (m_run (refuse r y)) \<and> r \<in> set (m_dead (refuse r y))" if "r \<in> set (m_run y)" for y
    using that by (auto simp add: refuse_def deq_pend_def part_res_def set_errno_def Let_def split: prod.split)
  then show ?thesis using u m unfolding s'_def by simp
qed

theorem unsent_partition_dangles_witness:
  "let s = ex_master\<lparr>m_req := (\<lambda>r. (ex_req 7 2 [])\<lparr>rq_sort := PART_SORT_NONE\<rparr>), m_pend := [0], m_send := [False]\<rparr>; s' = refuse 0 (snd (use_candidates 0 ex_cand s))
   in 0 \<in> set (m_run s') \<and> 0 \<in> set (m_dead s')"
proof -
  let ?s = "ex_master\<lparr>m_req := (\<lambda>r. (ex_req 7 2 [])\<lparr>rq_sort := PART_SORT_NONE\<rparr>), m_pend := [0], m_send := [False]\<rparr>"
  let ?c = "createPartition (m_req ?s 0) ex_cand ?s"
  have c: "?c = ((fst (fst ?c), snd (fst ?c)), snd ?c)" by simp
  have n: "fst (fst ?c) = 2 \<and> rq_tid (snd (fst ?c)) = 7 \<and> sint (rq_size (m_req ?s 0)) = 2" by code_simp
  have o: "\<not> has_opt PART_OPT_FULL_LIST (m_req ?s 0)" "rq_sort (m_req ?s 0) = PART_SORT_NONE" "findPart (m_pend ?s) (rq_tid (m_req ?s 0)) ?s = Some 0"
    "m_send ?s = [False]" "rq_tid (m_req ?s 0) = 7"
    by (simp_all add: ex_req_def has_opt_def findPart_def)
  show ?thesis using unsent_partition_dangles [OF o(1,2) c _ _ o(3,4)] n o(5) by (simp add: Let_def)
qed

end
