(* ===== verification/Part_Slots.thy ===== *)
theory Part_Slots
  imports Part_Account "HOL-Library.While_Combinator"
begin

text \<open>
  The hardware threads of a job and the slots made of them (\<open>getHWThreads\<close>, \<open>releaseThreads\<close> and
  \<open>createSlots\<close> of \<open>src/bin/daemon/psidpartition.c\<close>).  The array of threads and its length are one list; the
  numbers of uses are 16-bit words with sign, as in the code.  The loop of \<open>createSlots\<close> is
  \<open>while_option\<close>: it is \<open>None\<close> where the code runs for ever.
\<close>

section \<open>Hardware threads\<close>

record hwthread =
  th_node :: nodeid
  th_id :: nat
  th_used :: "16 word"

record job =
  jb_threads :: "hwthread list"
  jb_usedThreads :: uint32

definition threads_of :: "slot \<Rightarrow> hwthread list" where
  "threads_of sl = map (\<lambda>cpu. \<lparr>th_node = sl_node sl, th_id = cpu, th_used = 0\<rparr>) (filter (PSCPU_isSet (sl_cpus sl)) [0..<PSCPU_MAX])"

text \<open>The result is the number of threads and the new array; the flag tells whether there is memory for it.\<close>

definition getHWThreads :: "bool \<Rightarrow> slot list \<Rightarrow> hwthread list \<Rightarrow> int \<times> hwthread list" where
  "getHWThreads mem slots old =
     (let tot = sum_list (map slot_count slots)
      in if tot < 1 then (0, []) else if \<not> mem then (-1, old) else (int tot, concat (map threads_of slots)))"

section \<open>Releasing\<close>

text \<open>One thread against all slots, and all threads until nothing is left to release.\<close>

fun rel_slots :: "hwthread \<Rightarrow> slot list \<Rightarrow> nat \<Rightarrow> nat \<Rightarrow> hwthread \<times> slot list \<times> nat \<times> nat" where
  "rel_slots th [] tot num = (th, [], tot, num)"
| "rel_slots th (sl # sls) tot num =
     (if sl_node sl \<noteq> th_node th \<or> \<not> PSCPU_isSet (sl_cpus sl) (th_id th)
      then (case rel_slots th sls tot num of (th1, sls1, tot1, num1) \<Rightarrow> (th1, sl # sls1, tot1, num1))
      else
        let u = th_used th - 1;
            (th0, tot0) = (if sint u < 0 then (th\<lparr>th_used := 0\<rparr>, tot - 1) else (th\<lparr>th_used := u\<rparr>, tot))
        in case rel_slots th0 sls tot0 (num - 1) of
             (th1, sls1, tot1, num1) \<Rightarrow> (th1, sl\<lparr>sl_cpus := PSCPU_clrCPU (sl_cpus sl) (th_id th)\<rparr> # sls1, tot1, num1))"

fun rel_threads :: "hwthread list \<Rightarrow> slot list \<Rightarrow> nat \<Rightarrow> nat \<Rightarrow> hwthread list \<times> slot list \<times> nat \<times> nat" where
  "rel_threads [] sls tot num = ([], sls, tot, num)"
| "rel_threads (th # ths) sls tot num =
     (if num = 0 then (th # ths, sls, tot, num)
      else case rel_slots th sls tot num of
        (th1, sls1, tot1, num1) \<Rightarrow>
          (case rel_threads ths sls1 tot1 num1 of (ths2, sls2, tot2, num2) \<Rightarrow> (th1 # ths2, sls2, tot2, num2)))"

definition releaseThreads :: "slot list \<Rightarrow> job \<Rightarrow> nat \<times> slot list \<times> job" where
  "releaseThreads slots jb =
     (if slots = [] \<or> jb_threads jb = [] then (0, slots, jb)
      else let k = sum_list (map slot_count slots)
           in case rel_threads (jb_threads jb) slots k k of
                (ths, sls, tot, num) \<Rightarrow> (tot - num, sls, jb\<lparr>jb_threads := ths\<rparr>))"

section \<open>Creating slots\<close>

definition PART_OPT_NODEFIRST :: uint32 where "PART_OPT_NODEFIRST = 0x1"
definition PART_OPT_DYNAMIC :: uint32 where "PART_OPT_DYNAMIC = 0x80"

text \<open>What is asked for, and the types of hardware that the table of nodes has.\<close>

record wish =
  ws_np :: nat
  ws_ppn :: "16 word"
  ws_tpp :: nat
  ws_hwType :: uint32
  ws_options :: uint32

definition opt_set :: "uint32 \<Rightarrow> wish \<Rightarrow> bool" where
  "opt_set f w \<longleftrightarrow> ws_options w AND f \<noteq> 0"

definition hw_fits :: "(nodeid \<Rightarrow> uint32) \<Rightarrow> wish \<Rightarrow> nodeid \<Rightarrow> bool" where
  "hw_fits hw w n \<longleftrightarrow> ws_hwType w = 0 \<or> hw n AND ws_hwType w = ws_hwType w"

text \<open>The scan for the first thread with the fewest uses and for the longest run of threads on a node.\<close>

record scan =
  sc_first :: nat
  sc_min :: "16 word"
  sc_nodeTPP :: nat
  sc_maxTPP :: nat

definition scan_thread :: "(nodeid \<Rightarrow> uint32) \<Rightarrow> wish \<Rightarrow> hwthread list \<Rightarrow> nat \<Rightarrow> scan \<Rightarrow> scan" where
  "scan_thread hw w ts t c =
     (let n = th_node (ts ! t) in
      if \<not> hw_fits hw w n then c
      else
        let c1 = (if t \<noteq> 0 \<and> th_node (ts ! (t - 1)) = n then c\<lparr>sc_nodeTPP := sc_nodeTPP c + 1\<rparr>
                  else c\<lparr>sc_maxTPP := (if sc_nodeTPP c > sc_maxTPP c then sc_nodeTPP c else sc_maxTPP c), sc_nodeTPP := 1\<rparr>)
        in if sint (th_used (ts ! t)) < sint (sc_min c1) then c1\<lparr>sc_first := t, sc_min := th_used (ts ! t)\<rparr> else c1)"

definition scan_threads :: "(nodeid \<Rightarrow> uint32) \<Rightarrow> wish \<Rightarrow> hwthread list \<Rightarrow> scan" where
  "scan_threads hw w ts =
     (let c = fold (scan_thread hw w ts) [0..<length ts] \<lparr>sc_first = 0, sc_min = th_used (ts ! 0), sc_nodeTPP = 0, sc_maxTPP = 0\<rparr>
      in c\<lparr>sc_maxTPP := (if sc_nodeTPP c > sc_maxTPP c then sc_nodeTPP c else sc_maxTPP c)\<rparr>)"

text \<open>The variables of the loop; \<open>ls_done\<close> has the slots that are full, \<open>ls_cur\<close> the next one.\<close>

record lstate =
  ls_t :: nat
  ls_min :: "16 word"
  ls_next :: "16 word"
  ls_round :: nat
  ls_thrds :: nat
  ls_full :: bool
  ls_use :: "16 word list"
  ls_done :: "slot list"
  ls_cur :: slot
  ls_procs :: "nodeid \<Rightarrow> 16 word"
  ls_exit :: bool

text \<open>The threads of an unfinished slot on another node are given back, those before \<open>t\<close> first.\<close>

fun put_back :: "hwthread list \<Rightarrow> slot \<Rightarrow> nat list \<Rightarrow> 16 word list \<Rightarrow> nat \<Rightarrow> 16 word list \<times> nat" where
  "put_back ts cur [] use num = (use, num)"
| "put_back ts cur (i # is) use num =
     (if num = 0 then (use, num)
      else if sl_node cur = th_node (ts ! i) \<and> PSCPU_isSet (sl_cpus cur) (th_id (ts ! i))
      then put_back ts cur is (use[i := use ! i - 1]) (num - 1)
      else put_back ts cur is use num)"

definition back_order :: "nat \<Rightarrow> nat \<Rightarrow> nat list" where
  "back_order n t = map (\<lambda>tt. (t + n - tt) mod n) [1..<n]"

definition new_round :: "wish \<Rightarrow> lstate \<Rightarrow> lstate" where
  "new_round w s =
     (let s1 = s\<lparr>ls_min := ls_next s, ls_next := ls_next s + 1\<rparr>; ob = opt_set PART_OPT_OVERBOOK w in
      if ls_full s1 \<and> ls_round s1 = 0 \<and> \<not> ob then s1\<lparr>ls_exit := True\<rparr>
      else if opt_set PART_OPT_NODEFIRST w \<and> ls_min s1 \<noteq> 0 \<and> \<not> ob then s1\<lparr>ls_exit := True\<rparr>
      else s1\<lparr>ls_full := True, ls_round := 0\<rparr>)"

text \<open>Take the thread; if it completes the slot, go on to the next one.\<close>

definition take_thread :: "wish \<Rightarrow> hwthread list \<Rightarrow> lstate \<Rightarrow> lstate" where
  "take_thread w ts s =
     (let th = ts ! ls_t s; n = th_node th;
          cur = (ls_cur s)\<lparr>sl_cpus := PSCPU_setCPU (sl_cpus (ls_cur s)) (th_id th)\<rparr>;
          s1 = s\<lparr>ls_cur := cur, ls_use := (ls_use s)[ls_t s := ls_use s ! ls_t s + 1], ls_thrds := ls_thrds s + 1\<rparr>
      in if ls_thrds s1 = ws_tpp w
         then s1\<lparr>ls_procs := (if ws_ppn w \<noteq> 0 then (ls_procs s1)(n := ls_procs s1 n + 1) else ls_procs s1),
                 ls_done := ls_done s1 @ [cur], ls_round := ls_round s1 + 1, ls_thrds := 0\<rparr>
         else s1)"

definition use_thread :: "wish \<Rightarrow> hwthread list \<Rightarrow> lstate \<Rightarrow> lstate" where
  "use_thread w ts s =
     (let n = th_node (ts ! ls_t s);
          s1 = (if ls_thrds s = 0 then s\<lparr>ls_cur := \<lparr>sl_node = n, sl_cpus = zero_set\<rparr>\<rparr> else s)
      in if n \<noteq> sl_node (ls_cur s1)
         then (case put_back ts (ls_cur s1) (back_order (length ts) (ls_t s)) (ls_use s1) (slot_count (ls_cur s1)) of
                 (use, left) \<Rightarrow>
                   if left \<noteq> 0 then s1\<lparr>ls_use := use, ls_exit := True\<rparr>
                   else take_thread w ts (s1\<lparr>ls_use := use, ls_cur := \<lparr>sl_node = n, sl_cpus = zero_set\<rparr>, ls_thrds := 0\<rparr>))
         else take_thread w ts s1)"

definition try_thread :: "(nodeid \<Rightarrow> uint32) \<Rightarrow> wish \<Rightarrow> hwthread list \<Rightarrow> lstate \<Rightarrow> lstate" where
  "try_thread hw w ts s =
     (let n = th_node (ts ! ls_t s) in
      if sint (ls_use s ! ls_t s) > sint (ls_min s) then s
      else if \<not> hw_fits hw w n then s
      else if ws_ppn w \<noteq> 0 \<and> ls_procs s n \<ge> ws_ppn w then s
      else if opt_set PART_OPT_NODEFIRST w \<and> ls_round s \<noteq> 0 \<and> n = sl_node (last (ls_done s))
      then (if sint (ls_use s ! ls_t s) < sint (ls_next s) then s\<lparr>ls_next := ls_use s ! ls_t s\<rparr> else s)
      else use_thread w ts s)"

definition loop_mod :: "wish \<Rightarrow> nat \<Rightarrow> nat" where
  "loop_mod w n = n + (if opt_set PART_OPT_OVERBOOK w \<or> opt_set PART_OPT_NODEFIRST w then 0 else 1)"

definition slot_turn :: "(nodeid \<Rightarrow> uint32) \<Rightarrow> wish \<Rightarrow> hwthread list \<Rightarrow> lstate \<Rightarrow> lstate" where
  "slot_turn hw w ts s =
     (let s1 = (if ls_t s = 0 then new_round w s else s);
          s2 = (if ls_exit s1 then s1 else try_thread hw w ts s1)
      in s2\<lparr>ls_t := (ls_t s2 + 1) mod loop_mod w (length ts)\<rparr>)"

definition go_on :: "wish \<Rightarrow> hwthread list \<Rightarrow> lstate \<Rightarrow> bool" where
  "go_on w ts s \<longleftrightarrow> ls_t s < length ts \<and> length (ls_done s) < ws_np w \<and> \<not> ls_exit s"

definition start_loop :: "wish \<Rightarrow> hwthread list \<Rightarrow> scan \<Rightarrow> lstate" where
  "start_loop w ts c =
     \<lparr>ls_t = sc_first c, ls_min = sc_min c,
      ls_next = (if \<not> opt_set PART_OPT_NODEFIRST w \<and> sc_first c \<noteq> 0 then sc_min c + 1 else sc_min c),
      ls_round = 0, ls_thrds = 0, ls_full = False, ls_use = map th_used ts, ls_done = [],
      ls_cur = \<lparr>sl_node = 0, sl_cpus = zero_set\<rparr>, ls_procs = (\<lambda>n. 0), ls_exit = False\<rparr>"

definition slots_loop :: "(nodeid \<Rightarrow> uint32) \<Rightarrow> wish \<Rightarrow> hwthread list \<Rightarrow> lstate option" where
  "slots_loop hw w ts = while_option (go_on w ts) (slot_turn hw w ts) (start_loop w ts (scan_threads hw w ts))"

text \<open>The uses that the loop counted become those of the job.\<close>

definition commit :: "16 word list \<Rightarrow> job \<Rightarrow> job" where
  "commit use jb =
     jb\<lparr>jb_threads := map2 (\<lambda>th u. th\<lparr>th_used := u\<rparr>) (jb_threads jb) use,
        jb_usedThreads := jb_usedThreads jb + of_int (sum_list (map2 (\<lambda>th u. sint u - sint (th_used th)) (jb_threads jb) use))\<rparr>"

text \<open>
  The full slots and the job; the first flag tells whether there is memory for the helper arrays.  A job
  without threads is not a case: the callers check that.
\<close>

definition createSlots :: "bool \<Rightarrow> (nodeid \<Rightarrow> uint32) \<Rightarrow> wish \<Rightarrow> bool \<Rightarrow> job \<Rightarrow> (slot list \<times> job) option" where
  "createSlots mem hw w dryRun jb =
     (let ts = jb_threads jb; c = scan_threads hw w ts in
      if \<not> mem then Some ([], jb)
      else if sc_min c \<noteq> 0 \<and> \<not> opt_set PART_OPT_OVERBOOK w then Some ([], jb)
      else if ws_tpp w > sc_maxTPP c then Some ([], jb)
      else (case slots_loop hw w ts of
              None \<Rightarrow> None
            | Some s \<Rightarrow>
                if \<not> dryRun \<and> \<not> ls_exit s \<and> length (ls_done s) = ws_np w then Some (ls_done s, commit (ls_use s) jb)
                else Some (ls_done s, jb)))"

end
