(* ===== verification/Part_Res.thy ===== *)
theory Part_Res
  imports Part_Slots Tsk_State Ser_Pack
begin

text \<open>
  The reservations of a job (third part of \<open>src/bin/daemon/psidpartition.c\<close>, \<open>src/include/psreservation.h\<close>):
  the state, the queues, and the messages that tell the nodes.  Tasks are named by their addresses, a
  reservation by the number \<open>rv_ptr\<close>, its address.  The arrays of slots are lists of the slots that count.
  Results of allocations and of sending come from scripts (an empty script means success); what leaves the
  component is logged in its order.  The functions that plugins hook in are the argument \<open>hooks\<close>.
\<close>

section \<open>State\<close>

record rsv =
  rv_ptr :: nat
  rv_task :: taskid
  rv_requester :: taskid
  rv_nMin :: uint32
  rv_nMax :: uint32
  rv_ppn :: "16 word"
  rv_tpp :: "16 word"
  rv_hwType :: uint32
  rv_options :: uint32
  rv_rid :: int32
  rv_firstRank :: uint32
  rv_rankOffset :: uint32
  rv_nSlots :: uint32
  rv_slots :: "slot list option"
  rv_nextSlot :: uint32
  rv_relSlots :: uint32
  rv_checked :: bool
  rv_dynSent :: bool

record rtask =
  rt_tid :: taskid
  rt_ptid :: taskid
  rt_logger :: taskid
  rt_group :: task_group
  rt_delegate :: "nat option"
  rt_partition :: "slot list option"
  rt_sisters :: "slot list list"
  rt_job :: job
  rt_options :: uint32
  rt_nextResID :: int32
  rt_firstSpawner :: taskid
  rt_numChild :: int32
  rt_active :: int32
  rt_requests :: "rsv list"
  rt_reservations :: "rsv list"
  rt_spawnSlots :: "slot list option"
  rt_suspended :: bool
  rt_removeIt :: bool

text \<open>What leaves: fragmented messages with their items, and the others with their fields.\<close>

datatype frag_type = PSP_DD_RESCREATED | PSP_DD_RESSLOTS | PSP_DD_JOBCOMPLETE | PSP_DD_SLOTSRES

datatype rmsg =
    RFrag frag_type "taskid list" "item list"
  | RGranted (g_dest: taskid) (g_rid: int32) (g_nSlots: uint32)
  | RDenied (d_dest: taskid) (d_eno: int)
  | RDummy (y_dest: taskid) (y_rid: int32) (y_nSlots: uint32) (y_firstRank: uint32)
  | RDummyDenied (yd_dest: taskid) (yd_eno: int)
  | RAskLogger taskid taskid rsv
  | RForward taskid
  | RSlotsDenied taskid int
  | RReleased taskid int32 taskid taskid
  | RCleanup taskid taskid
  | RCpuSets (rel_sender: taskid) (rel_dest: taskid) "PSCPU_set list" nat
  | RSlotsRes taskid taskid int32 "nodeid list" int
  | RHookLast rsv
  | RHookRels int32 slot
  | RTaskCleanup nat

record rstate =
  rs_myID :: nodeid
  rs_myTID :: taskid
  rs_hw :: "nodeid \<Rightarrow> uint32"
  rs_thrds :: "nodeid \<Rightarrow> int16"
  rs_heap :: "nat \<Rightarrow> rtask"
  rs_managed :: "nat list"
  rs_next :: nat
  rs_mem :: "bool list"
  rs_send :: "int list"
  rs_out :: "rmsg list"

text \<open>
  \<open>PSIDHOOK_GETRESERVATION\<close>: nobody answers (or with another value than 0 and 1), the plugin refuses, or it
  filled in the reservation and the threads of the job.  \<open>PSIDHOOK_XTND_PART_DYNAMIC\<close>: does somebody answer?
\<close>

datatype hookres = HkNone | HkRefused | HkGiven rsv job

record hooks =
  hk_get :: "rsv \<Rightarrow> rtask \<Rightarrow> hookres"
  hk_extend :: "rsv \<Rightarrow> bool"

definition PART_OPT_DEFAULT :: uint32 where "PART_OPT_DEFAULT = 0x40"
definition PART_OPT_DUMMY :: uint32 where "PART_OPT_DUMMY = 0x200"
definition NODES_CHUNK :: nat where "NODES_CHUNK = 256"
definition EBUSY_NO :: int where "EBUSY_NO = 16"
definition EINVAL_NO :: int where "EINVAL_NO = 22"
definition ENOSPC_NO :: int where "ENOSPC_NO = 28"
definition EBADRQC_NO :: int where "EBADRQC_NO = 56"
definition EBADMSG_NO :: int where "EBADMSG_NO = 74"
definition ECANCELED_NO :: int where "ECANCELED_NO = 125"

section \<open>Access\<close>

definition take_mem :: "rstate \<Rightarrow> bool \<times> rstate" where
  "take_mem s = (case rs_mem s of [] \<Rightarrow> (True, s) | b # bs \<Rightarrow> (b, s\<lparr>rs_mem := bs\<rparr>))"

text \<open>The error of sending, 0 for none and for \<open>EWOULDBLOCK\<close>.\<close>

definition take_send :: "rstate \<Rightarrow> int \<times> rstate" where
  "take_send s = (case rs_send s of [] \<Rightarrow> (0, s) | e # es \<Rightarrow> (e, s\<lparr>rs_send := es\<rparr>))"

definition emit :: "rmsg list \<Rightarrow> rstate \<Rightarrow> rstate" where
  "emit ms s = s\<lparr>rs_out := rs_out s @ ms\<rparr>"

definition upd_task :: "nat \<Rightarrow> (rtask \<Rightarrow> rtask) \<Rightarrow> rstate \<Rightarrow> rstate" where
  "upd_task a f s = s\<lparr>rs_heap := (rs_heap s)(a := f (rs_heap s a))\<rparr>"

definition find_task :: "taskid \<Rightarrow> rstate \<Rightarrow> nat option" where
  "find_task t s = find (\<lambda>a. rt_tid (rs_heap s a) = t) (rs_managed s)"

definition delegate_of :: "nat \<Rightarrow> rstate \<Rightarrow> nat" where
  "delegate_of a s = (case rt_delegate (rs_heap s a) of None \<Rightarrow> a | Some d \<Rightarrow> d)"

definition add_used :: "uint32 \<Rightarrow> rtask \<Rightarrow> rtask" where
  "add_used n t = t\<lparr>rt_job := (rt_job t)\<lparr>jb_usedThreads := jb_usedThreads (rt_job t) + n\<rparr>\<rparr>"

definition rv_opt :: "uint32 \<Rightarrow> rsv \<Rightarrow> bool" where
  "rv_opt f r \<longleftrightarrow> rv_options r AND f \<noteq> 0"

definition node_tid :: "rstate \<Rightarrow> nodeid \<Rightarrow> taskid" where
  "node_tid s n = PSC_getTID (rs_myID s) n 0"

section \<open>Queues\<close>

definition enqRes :: "rsv list \<Rightarrow> rsv \<Rightarrow> rsv list" where
  "enqRes queue r = queue @ [r]"

definition findRes :: "rsv list \<Rightarrow> int32 \<Rightarrow> rsv option" where
  "findRes queue rid = find (\<lambda>r. rv_rid r = rid) queue"

fun find_last_rank :: "rsv list \<Rightarrow> taskid \<Rightarrow> rsv option \<Rightarrow> rsv option" where
  "find_last_rank [] requester answer = answer"
| "find_last_rank (r # rs) requester answer =
     (if rv_requester r \<noteq> requester then find_last_rank rs requester answer
      else if (case answer of None \<Rightarrow> False | Some a \<Rightarrow> rv_firstRank a > rv_firstRank r) then find_last_rank rs requester answer
      else find_last_rank rs requester (Some r))"

definition findResByRequester :: "rsv list \<Rightarrow> taskid \<Rightarrow> rsv option" where
  "findResByRequester queue requester = find_last_rank queue requester None"

definition same_rsv :: "rsv \<Rightarrow> rsv \<Rightarrow> bool" where
  "same_rsv r x \<longleftrightarrow> rv_ptr x = rv_ptr r"

text \<open>A reservation is removed only if the first one with its number is the same object.\<close>

definition deqRes :: "rsv list \<Rightarrow> rsv \<Rightarrow> bool \<times> rsv list" where
  "deqRes queue r =
     (case findRes queue (rv_rid r) of
        None \<Rightarrow> (False, queue)
      | Some x \<Rightarrow> if \<not> same_rsv r x then (False, queue) else (True, filter (\<lambda>y. \<not> same_rsv r y) queue))"

text \<open>What is stored of a reservation that is linked in a queue.\<close>

definition store_rsv :: "rsv \<Rightarrow> rsv list \<Rightarrow> rsv list" where
  "store_rsv r queue = map (\<lambda>x. if same_rsv r x then r else x) queue"

definition PSrsrvtn_get :: "rstate \<Rightarrow> rsv option \<times> rstate" where
  "PSrsrvtn_get s =
     (case take_mem s of
        (False, s1) \<Rightarrow> (None, s1)
      | (True, s1) \<Rightarrow>
          (Some \<lparr>rv_ptr = rs_next s1, rv_task = 0, rv_requester = 0, rv_nMin = 0, rv_nMax = 0, rv_ppn = 0, rv_tpp = 1, rv_hwType = 0,
              rv_options = 0, rv_rid = 0, rv_firstRank = 0, rv_rankOffset = 0, rv_nSlots = 0, rv_slots = None, rv_nextSlot = 0,
              rv_relSlots = 0, rv_checked = False, rv_dynSent = False\<rparr>,
           s1\<lparr>rs_next := rs_next s1 + 1\<rparr>))"

definition PStask_getNextResID :: "rtask \<Rightarrow> int32 \<times> rtask" where
  "PStask_getNextResID t =
     (let n = rt_nextResID t + 1; k = (if n = -2 then n + 3 else n) in (k, t\<lparr>rt_nextResID := k\<rparr>))"

end
