(* ===== verification/Cpu_Bytes.thy ===== *)
theory Cpu_Bytes
  imports Cpu_Spec Bytes
begin

text \<open>
  CPU sets as bytes (\<open>PSCPU_extract\<close> and \<open>PSCPU_inject\<close> of \<open>src/include/pscpu.h\<close>): both copy memory, so
  that the bytes of a set are those of its masks on a little-endian host.
\<close>

definition cpu_mem :: "PSCPU_set \<Rightarrow> byte list" where
  "cpu_mem cset = concat (map (\<lambda>m. le_bytes 2 (unat m)) cset)"

fun mem_cpu :: "byte list \<Rightarrow> PSCPU_set" where
  "mem_cpu (a # b # bs) = of_nat (le_nat [a, b]) # mem_cpu bs"
| "mem_cpu _ = []"

definition PSCPU_extract :: "PSCPU_set \<Rightarrow> nat \<Rightarrow> byte list" where
  "PSCPU_extract src num = take num (cpu_mem src)"

definition PSCPU_inject :: "PSCPU_set \<Rightarrow> byte list \<Rightarrow> nat \<Rightarrow> PSCPU_set" where
  "PSCPU_inject dest src num =
     (let k = (if num > PSCPU_MAX div 8 then PSCPU_MAX div 8 else num) in mem_cpu (take k src @ drop k (cpu_mem dest)))"

section \<open>What is copied\<close>

lemma length_cpu_mem [simp]: "length (cpu_mem s) = 2 * length s"
  by (induction s) (simp_all add: cpu_mem_def)

lemma le_bytes_2: "le_bytes 2 n = [of_nat n, of_nat (n div 256)]"
  by (simp add: numeral_2_eq_2)

lemma mem_cpu_mem [simp]: "mem_cpu (cpu_mem s) = s"
proof (induction s)
  case (Cons m s)
  have "unat m < 256 ^ 2" using unsigned_less [of m] by simp
  then have "le_nat (le_bytes 2 (unat m)) = unat m" by simp
  then show ?case using Cons by (simp add: cpu_mem_def le_bytes_2)
qed (simp add: cpu_mem_def)

lemma bit_two_bytes: "k < 16 \<Longrightarrow> bit (of_nat (le_nat [a, b]) :: 16 word) k = (if k < 8 then bit a k else bit b (k - 8))"
proof -
  assume k: "k < 16"
  have a: "\<not> bit (unat a) j" if "8 \<le> j" for j using that by (auto simp: bit_unsigned_iff dest: bit_imp_le_length)
  have "unat a + 256 * unat b = unat a + push_bit 8 (unat b)" by (simp add: push_bit_eq_mult)
  also have "\<dots> = unat a OR push_bit 8 (unat b)"
    using a by (intro disjunctive_add) (auto simp: bit_push_bit_iff not_le)
  finally have e: "le_nat [a, b] = unat a OR push_bit 8 (unat b)" by simp
  show ?thesis using k a unfolding e by (auto simp: bit_of_nat_iff bit_or_iff bit_push_bit_iff bit_unsigned_iff possible_bit_word)
qed

lemma has_mem_cpu: "even (length bs) \<Longrightarrow> has (mem_cpu bs) c \<longleftrightarrow> c div 8 < length bs \<and> bit (bs ! (c div 8)) (c mod 8)"
proof (induction bs arbitrary: c rule: mem_cpu.induct)
  case (1 a b bs)
  show ?case
  proof (cases "c < 16")
    case True
    then have "c div 8 = 0 \<and> c < 8 \<or> c div 8 = 1 \<and> 8 \<le> c" "c mod 8 = (if c < 8 then c else c - 8)" by (auto simp: mod_if)
    then show ?thesis using True bit_two_bytes [OF True, of a b] by (auto simp: has_Cons)
  next
    case False
    then obtain j where j: "c = j + 16" by (metis le_add_diff_inverse2 not_less)
    have "(j + 16) div 8 = j div 8 + 2" "(j + 16) mod 8 = j mod 8" by presburger+
    then show ?thesis using 1 unfolding j by (simp add: has_Cons)
  qed
qed (auto simp: has_def)

lemma bit_cpu_mem: "i < 2 * length s \<Longrightarrow> j < 8 \<Longrightarrow> bit (cpu_mem s ! i) j \<longleftrightarrow> has s (8 * i + j)"
  using has_mem_cpu [of "cpu_mem s" "8 * i + j"] by simp

lemma length_mem_cpu: "length (mem_cpu bs) = length bs div 2"
  by (induction bs rule: mem_cpu.induct) auto

lemma PSCPU_extract_length: "cpu_wf s \<Longrightarrow> num \<le> 128 \<Longrightarrow> length (PSCPU_extract s num) = num"
  by (simp add: PSCPU_extract_def cpu_wf_def cpu_consts)

text \<open>Extracting and injecting again keeps the CPUs below the number that the bytes have.\<close>

lemma inject_extract:
  assumes w: "cpu_wf s" "cpu_wf d" and n: "num \<le> 128"
  shows "cpu_wf (PSCPU_inject (PSCPU_clrAll d) (PSCPU_extract s num) num)"
    "cpus (PSCPU_inject (PSCPU_clrAll d) (PSCPU_extract s num) num) = {c \<in> cpus s. c < 8 * num}"
proof -
  let ?b = "take num (cpu_mem s) @ drop num (cpu_mem (PSCPU_clrAll d))"
  have l: "length (cpu_mem s) = 128" "length (cpu_mem (PSCPU_clrAll d)) = 128" "length ?b = 128"
    using w n by (simp_all add: cpu_wf_def cpu_consts PSCPU_clrAll_def)
  have e: "PSCPU_inject (PSCPU_clrAll d) (PSCPU_extract s num) num = mem_cpu ?b"
    using n l(1) by (simp add: PSCPU_inject_def PSCPU_extract_def PSCPU_MAX_def Let_def)
  show "cpu_wf (PSCPU_inject (PSCPU_clrAll d) (PSCPU_extract s num) num)"
    using l(3) by (simp add: e cpu_wf_def length_mem_cpu cpu_consts)
  have "has (mem_cpu ?b) c \<longleftrightarrow> has s c \<and> c < 8 * num" for c
  proof -
    have b: "has (mem_cpu ?b) c \<longleftrightarrow> c div 8 < 128 \<and> bit (?b ! (c div 8)) (c mod 8)"
      by (rule has_mem_cpu [of ?b c, unfolded l(3)]) simp
    have s: "has s c \<longleftrightarrow> c div 8 < 128 \<and> bit (cpu_mem s ! (c div 8)) (c mod 8)"
      by (rule has_mem_cpu [of "cpu_mem s" c, unfolded l(1) mem_cpu_mem]) simp
    have z: "bit (cpu_mem (PSCPU_clrAll d) ! (c div 8)) (c mod 8) \<Longrightarrow> c div 8 < 128 \<Longrightarrow> False"
      using has_mem_cpu [of "cpu_mem (PSCPU_clrAll d)" c, unfolded l(2) mem_cpu_mem] cpus_clrAll [of d] by (auto simp: cpus_def)
    have "c div 8 < num \<longleftrightarrow> c < 8 * num" by (simp add: div_less_iff_less_mult mult.commute)
    then show ?thesis using b s z l n by (auto simp: nth_append)
  qed
  then show "cpus (PSCPU_inject (PSCPU_clrAll d) (PSCPU_extract s num) num) = {c \<in> cpus s. c < 8 * num}"
    unfolding e by (auto simp: cpus_def)
qed

end
