(* ===== verification/Part_Tell.thy ===== *)
theory Part_Tell
  imports Part_Res Cpu_Bytes
begin

text \<open>
  Telling the nodes (\<open>prepareDestinations\<close>, \<open>send_RESCREATED\<close>, \<open>send_RESSLOTS\<close>, \<open>send_RESRELEASED\<close>,
  \<open>send_RESCLEANUP\<close>, \<open>send_JOBCOMPLETE\<close> of \<open>src/bin/daemon/psidpartition.c\<close>).  A fragmented message is
  the list of its items, in the order of the calls that add them; how items become fragments and items again
  is the business of \<open>Ser_Send\<close> and \<open>Ser_Recv\<close>.  The tests for missing arguments are left out, and so is the
  memory of the array \<open>sendCount\<close>, which is a set of nodes here.
\<close>

section \<open>Items\<close>

definition it_int32 :: "int32 \<Rightarrow> item" where "it_int32 w = (PSDATA_INT32, le_bytes 4 (unat w))"
definition it_uint32 :: "uint32 \<Rightarrow> item" where "it_uint32 w = (PSDATA_UINT32, le_bytes 4 (unat w))"
definition it_uint16 :: "uint16 \<Rightarrow> item" where "it_uint16 w = (PSDATA_UINT16, le_bytes 2 (unat w))"
definition it_tid :: "taskid \<Rightarrow> item" where "it_tid w = (PSDATA_INT64, le_bytes 8 (unat w))"
definition it_mem :: "byte list \<Rightarrow> item" where "it_mem v = (PSDATA_MEM, v)"

section \<open>Destinations\<close>

text \<open>The nodes of a list that are not marked yet, each once, and the marks after them.\<close>

fun fresh_nodes :: "nodeid set \<Rightarrow> nodeid list \<Rightarrow> nodeid list \<times> nodeid set" where
  "fresh_nodes marked [] = ([], marked)"
| "fresh_nodes marked (n # ns) =
     (if n \<in> marked then fresh_nodes marked ns
      else (case fresh_nodes (insert n marked) ns of (ds, m) \<Rightarrow> (n # ds, m)))"

definition part_nodes :: "rtask \<Rightarrow> nodeid list" where
  "part_nodes t = (case rt_partition t of None \<Rightarrow> [] | Some l \<Rightarrow> map sl_node l)"

definition sister_nodes :: "rtask \<Rightarrow> nodeid list" where
  "sister_nodes t = concat (map (map sl_node) (rt_sisters t))"

definition prepareDestinations :: "nat \<Rightarrow> nodeid set \<Rightarrow> rstate \<Rightarrow> taskid list" where
  "prepareDestinations a skip s =
     map (node_tid s) (fst (fresh_nodes skip (part_nodes (rs_heap s (delegate_of a s)) @ sister_nodes (rs_heap s a))))"

section \<open>What was reserved\<close>

text \<open>Runs of slots on the same node: from the slot \<open>i\<close> on, \<open>firstrank\<close> being the rank that begins the run.\<close>

fun rank_runs :: "uint32 \<Rightarrow> nat \<Rightarrow> int32 \<Rightarrow> slot list \<Rightarrow> (nodeid \<times> int32 \<times> int32) list" where
  "rank_runs base i firstrank [] = []"
| "rank_runs base i firstrank (sl # sls) =
     (if sls \<noteq> [] \<and> sl_node sl = sl_node (hd sls) then rank_runs base (i + 1) firstrank sls
      else let lastrank = base + of_nat i in (sl_node sl, firstrank, lastrank) # rank_runs base (i + 1) (lastrank + 1) sls)"

definition run_items :: "(nodeid \<times> int32 \<times> int32) list \<Rightarrow> item list" where
  "run_items rs = concat (map (\<lambda>(n, f, l). [it_int32 n, it_int32 f, it_int32 l]) rs)"

definition slots_of_rsv :: "rsv \<Rightarrow> slot list" where
  "slots_of_rsv r = (case rv_slots r of None \<Rightarrow> [] | Some l \<Rightarrow> l)"

definition created_items :: "rtask \<Rightarrow> rsv \<Rightarrow> item list" where
  "created_items t r =
     [it_int32 (rv_rid r), it_tid (rt_logger t), it_tid (rv_requester r), it_uint32 (rv_rankOffset r), it_tid (rv_task r)]
     @ run_items (rank_runs (rv_firstRank r) 0 (rv_firstRank r) (slots_of_rsv r))"

definition send_RESCREATED :: "nat \<Rightarrow> rsv \<Rightarrow> nodeid set \<Rightarrow> rstate \<Rightarrow> rstate" where
  "send_RESCREATED a r skip s =
     (if rv_nSlots r < 1 then s
      else let ds = prepareDestinations a skip s
           in if ds = [] then s else emit [RFrag PSP_DD_RESCREATED ds (created_items (rs_heap s a) r)] s)"

definition send_JOBCOMPLETE :: "nat \<Rightarrow> taskid \<Rightarrow> byte list list \<Rightarrow> nodeid set \<Rightarrow> rstate \<Rightarrow> rstate" where
  "send_JOBCOMPLETE a jobID env skip s =
     (let ds = prepareDestinations a skip s
      in if ds = [] then s
         else emit [RFrag PSP_DD_JOBCOMPLETE ds ([it_tid (rt_logger (rs_heap s a)), it_tid jobID,
                (PSDATA_UINT32, le_bytes 4 (length env))] @ map (\<lambda>v. (PSDATA_STRING, v @ [0])) env)] s)"

section \<open>The slots of a node\<close>

text \<open>
  The slots of a node from the slot \<open>ss\<close> on, while the count of the node is not zero; the count that is left.
  Without threads (\<open>nBytes = 0\<close>) only the ranks are added and nothing is counted.
\<close>

fun node_slots :: "nat \<Rightarrow> uint32 \<Rightarrow> nodeid \<Rightarrow> nat \<Rightarrow> slot list \<Rightarrow> nat \<Rightarrow> item list \<times> nat" where
  "node_slots nBytes base n ss [] cnt = ([], cnt)"
| "node_slots nBytes base n ss (sl # sls) cnt =
     (if cnt = 0 then ([], cnt)
      else if sl_node sl \<noteq> n then node_slots nBytes base n (ss + 1) sls cnt
      else case node_slots nBytes base n (ss + 1) sls (if nBytes = 0 then cnt else cnt - 1) of
        (is, c) \<Rightarrow> (it_int32 (base + of_nat ss) # (if nBytes = 0 then [] else [it_mem (PSCPU_extract (sl_cpus sl) nBytes)]) @ is, c))"

definition bytes_of_node :: "rstate \<Rightarrow> nodeid \<Rightarrow> nat" where
  "bytes_of_node s n = PSCPU_bytesForCPUs (unat (rs_thrds s n))"

definition slots_items :: "nat \<Rightarrow> rtask \<Rightarrow> rsv \<Rightarrow> nodeid \<Rightarrow> nat \<Rightarrow> slot list \<Rightarrow> nat \<Rightarrow> item list" where
  "slots_items nBytes t r n i rest cnt =
     [it_tid (rt_logger t), it_tid (rv_requester r), it_int32 (rv_rid r), it_uint16 (of_nat nBytes), it_uint16 (of_nat cnt)]
     @ fst (node_slots nBytes (rv_firstRank r) n i rest cnt) @ [it_int32 (-1)]"

fun tell_slots :: "rtask \<Rightarrow> rsv \<Rightarrow> nat \<Rightarrow> slot list \<Rightarrow> (nodeid \<Rightarrow> nat) \<Rightarrow> rstate \<Rightarrow> rmsg list" where
  "tell_slots t r i [] cnt s = []"
| "tell_slots t r i (sl # sls) cnt s =
     (let n = sl_node sl in
      if cnt n = 0 then tell_slots t r (i + 1) sls cnt s
      else RFrag PSP_DD_RESSLOTS [node_tid s n] (slots_items (bytes_of_node s n) t r n i (sl # sls) (cnt n))
           # tell_slots t r (i + 1) sls (cnt(n := snd (node_slots (bytes_of_node s n) (rv_firstRank r) n i (sl # sls) (cnt n)))) s)"

definition count_nodes :: "slot list \<Rightarrow> nodeid \<Rightarrow> nat" where
  "count_nodes l n = length (filter (\<lambda>sl. sl_node sl = n) l)"

definition send_RESSLOTS :: "nat \<Rightarrow> rsv \<Rightarrow> rstate \<Rightarrow> rstate" where
  "send_RESSLOTS a r s =
     (if rv_nSlots r < 1 then s
      else emit (tell_slots (rs_heap s a) r 0 (slots_of_rsv r) (count_nodes (slots_of_rsv r)) s) s)"

section \<open>What is gone\<close>

definition send_RESRELEASED :: "nat \<Rightarrow> rsv \<Rightarrow> rstate \<Rightarrow> rstate" where
  "send_RESRELEASED a r s =
     (let t = rs_heap s a; d = rs_heap s (delegate_of a s) in
      if part_nodes d = [] then s
      else emit (map (\<lambda>n. RReleased (node_tid s n) (rv_rid r) (rt_logger t) (rv_requester r))
             (fst (fresh_nodes {} (part_nodes d @ sister_nodes t)))) s)"

definition send_RESCLEANUP :: "nat \<Rightarrow> slot list \<Rightarrow> rstate \<Rightarrow> rstate" where
  "send_RESCLEANUP a sister s =
     (let t = rs_heap s a; d = rs_heap s (delegate_of a s) in
      if part_nodes d = [] then s
      else emit (map (\<lambda>n. RCleanup (node_tid s n) (rt_logger t))
             (fst (fresh_nodes (set (part_nodes d) \<union> set (sister_nodes t)) (map sl_node sister)))) s)"

end
