(* ===== verification/Part_Reserve.thy ===== *)
theory Part_Reserve
  imports Part_Tell
begin

text \<open>
  Reservations: how they are asked for, made, handed out and given back (\<open>PSIDpart_getReservation\<close>,
  \<open>handleSingleResRequest\<close>, \<open>msg_GETRESERVATION\<close>, \<open>msg_RESERVATIONRES\<close>, \<open>PSIDpart_extendRes\<close>,
  \<open>msg_GETSLOTS\<close>, \<open>msg_CHILDRESREL\<close>, \<open>PSIDpart_cleanupRes\<close> of \<open>src/bin/daemon/psidpartition.c\<close>).  An
  operation that makes slots may run for ever: then it is \<open>None\<close>.
\<close>

section \<open>Making a reservation\<close>

definition wish_of :: "rsv \<Rightarrow> nat \<Rightarrow> wish" where
  "wish_of r np = \<lparr>ws_np = np, ws_ppn = rv_ppn r, ws_tpp = unat (rv_tpp r), ws_hwType = rv_hwType r, ws_options = rv_options r\<rparr>"

text \<open>How many slots the partition could have if no thread were in use.\<close>

fun count_slots :: "(nodeid \<Rightarrow> uint32) \<Rightarrow> uint32 \<Rightarrow> nat \<Rightarrow> nodeid option \<Rightarrow> hwthread list \<Rightarrow> nat \<Rightarrow> nat" where
  "count_slots hw hwType tpp prev [] thrdsGot = 0"
| "count_slots hw hwType tpp prev (th # ths) thrdsGot =
     (let n = th_node th in
      if hwType \<noteq> 0 \<and> hw n AND hwType \<noteq> hwType then count_slots hw hwType tpp (Some n) ths thrdsGot
      else let g = (if prev = Some n then thrdsGot + 1 else 1)
           in if g = tpp then count_slots hw hwType tpp (Some n) ths 0 + 1 else count_slots hw hwType tpp (Some n) ths g)"

text \<open>A delegate keeps the threads; the task that has it keeps a count of its own (double entry).\<close>

definition book :: "nat \<Rightarrow> uint32 \<Rightarrow> rstate \<Rightarrow> rstate" where
  "book a n s = (if rt_delegate (rs_heap s a) \<noteq> None then upd_task a (add_used n) s else s)"

definition make_slots_of :: "nat \<Rightarrow> rsv \<Rightarrow> nat \<Rightarrow> bool \<Rightarrow> rstate \<Rightarrow> (slot list \<times> rstate) option" where
  "make_slots_of d r np dry s =
     (let (mem, s1) = take_mem s in
      case createSlots mem (rs_hw s1) (wish_of r np) dry (rt_job (rs_heap s1 d)) of
        None \<Rightarrow> None
      | Some (l, jb) \<Rightarrow> Some (l, upd_task d (\<lambda>t. t\<lparr>rt_job := jb\<rparr>) s1))"

definition PSIDpart_getReservation :: "rsv \<Rightarrow> rstate \<Rightarrow> (int \<times> rsv \<times> rstate) option" where
  "PSIDpart_getReservation r s =
     (case find_task (rv_task r) s of
        None \<Rightarrow> Some (-1, r, s)
      | Some a \<Rightarrow>
          let d = delegate_of a s;
              (ok, s1) = (if rv_slots r = None then take_mem s else (True, s)) in
          if \<not> ok then Some (-1, r, s1)
          else case make_slots_of d r (unat (rv_nMax r)) True s1 of
            None \<Rightarrow> None
          | Some (l, s2) \<Rightarrow>
              let got = length l; r2 = r\<lparr>rv_slots := Some l\<rparr> in
              if got < unat (rv_nMin r) then
                if rv_opt PART_OPT_DYNAMIC r then
                  (case make_slots_of d r2 got False s2 of
                     None \<Rightarrow> None
                   | Some (l3, s3) \<Rightarrow> Some (int got, r2\<lparr>rv_slots := Some l3\<rparr>, book a (of_nat got * ucast (rv_tpp r)) s3))
                else if \<not> rv_checked r2 then
                  (if count_slots (rs_hw s2) (rv_hwType r) (unat (rv_tpp r)) None (jb_threads (rt_job (rs_heap s2 d))) 0 < unat (rv_nMin r)
                   then Some (-1, r2, s2) else Some (0, r2\<lparr>rv_checked := True\<rparr>, s2))
                else Some (0, r2, s2)
              else
                let (ok3, s3) = (if rv_opt PART_OPT_DYNAMIC r then (True, s2) else if got = 0 then (False, s2) else take_mem s2) in
                if \<not> ok3 then Some (-1, r2\<lparr>rv_slots := None\<rparr>, s3)
                else case make_slots_of d r2 got False s3 of
                  None \<Rightarrow> None
                | Some (l4, s4) \<Rightarrow> Some (int (length l4), r2\<lparr>rv_slots := Some l4\<rparr>, book a (of_nat (length l4) * ucast (rv_tpp r)) s4))"

text \<open>Threads are given back to the delegate; \<open>-=\<close> on the counts.\<close>

definition give_back :: "nat \<Rightarrow> slot list \<Rightarrow> rstate \<Rightarrow> nat \<times> slot list \<times> rstate" where
  "give_back d l s =
     (case releaseThreads l (rt_job (rs_heap s d)) of
        (n, l1, jb) \<Rightarrow> (n, l1, upd_task d (\<lambda>t. t\<lparr>rt_job := jb\<rparr>) s))"

definition unbook :: "nat \<Rightarrow> nat \<Rightarrow> nat \<Rightarrow> rstate \<Rightarrow> rstate" where
  "unbook a d n s = book a (- of_nat n) (upd_task d (add_used (- of_nat n)) s)"

definition set_request :: "nat \<Rightarrow> rsv \<Rightarrow> rstate \<Rightarrow> rstate" where
  "set_request d r s = upd_task d (\<lambda>t. t\<lparr>rt_requests := store_rsv r (rt_requests t)\<rparr>) s"

definition drop_request :: "nat \<Rightarrow> rsv \<Rightarrow> rstate \<Rightarrow> rstate" where
  "drop_request d r s = upd_task d (\<lambda>t. t\<lparr>rt_requests := snd (deqRes (rt_requests t) r)\<rparr>) s"

text \<open>\<open>list_del\<close>: out of whatever queue it is in.\<close>

definition unlink_rsv :: "rsv \<Rightarrow> rstate \<Rightarrow> rstate" where
  "unlink_rsv r s = s\<lparr>rs_heap := (\<lambda>a. (rs_heap s a)\<lparr>rt_requests := filter (\<lambda>x. \<not> same_rsv r x) (rt_requests (rs_heap s a))\<rparr>)\<rparr>"

section \<open>Granting\<close>

text \<open>The ranks: the first spawner counts with the children of the task, others from their last reservation on.\<close>

definition set_ranks :: "nat \<Rightarrow> rsv \<Rightarrow> rstate \<Rightarrow> rsv \<times> rstate" where
  "set_ranks a r s =
     (let t = rs_heap s a in
      if rt_numChild t = 0 then (r, upd_task a (\<lambda>t. t\<lparr>rt_firstSpawner := rv_requester r\<rparr>) s)
      else if rv_requester r \<noteq> rt_firstSpawner t
      then let f = (case findResByRequester (rt_reservations t) (rv_requester r) of
                      None \<Rightarrow> 0 | Some p \<Rightarrow> rv_firstRank p + rv_nSlots p)
           in (r\<lparr>rv_firstRank := f, rv_rankOffset := rt_numChild t - f\<rparr>, s)
      else (r, s))"

definition grant :: "nat \<Rightarrow> rsv \<Rightarrow> int \<Rightarrow> rstate \<Rightarrow> rstate" where
  "grant a r0 got s0 =
     (let (r, s1) = set_ranks a r0 s0;
          s2 = upd_task a (\<lambda>t. t\<lparr>rt_numChild := rt_numChild t + of_int got, rt_reservations := enqRes (rt_reservations t) r\<rparr>) s1
      in emit [RGranted (rv_requester r) (rv_rid r) (rv_nSlots r)] (send_RESSLOTS a r (send_RESCREATED a r {} s2)))"

definition deny :: "rsv \<Rightarrow> int \<Rightarrow> rstate \<Rightarrow> rstate" where
  "deny r eno s = emit [RDenied (rv_requester r) eno] s"

datatype verdict = Later bool | Refuse int | Give int

text \<open>Without a plugin: the slots that can be had, and what follows from their number.\<close>

definition decide :: "hooks \<Rightarrow> nat \<Rightarrow> int \<Rightarrow> rsv \<Rightarrow> rstate \<Rightarrow> verdict \<times> rsv \<times> rstate" where
  "decide hk a got r0 s =
     (let d = delegate_of a s; r = r0\<lparr>rv_nSlots := of_int got\<rparr> in
      if got < sint (rv_nMax r) \<and> rv_opt PART_OPT_DYNAMIC r then
        let r1 = (if got < 0 then r\<lparr>rv_nSlots := 0\<rparr> else r);
            s1 = upd_task a (\<lambda>t. t\<lparr>rt_numChild := rt_numChild t + rv_nMax r\<rparr>) s
        in if hk_extend hk r1 then (Later True, r1\<lparr>rv_dynSent := True\<rparr>, s1)
           else if got < sint (rv_nMin r) then
             let s2 = upd_task a (\<lambda>t. t\<lparr>rt_numChild := rt_numChild t - rv_nMax r\<rparr>) s1
             in if got > 0
                then (case give_back d (take (nat got) (slots_of_rsv r1)) s2 of (n, l, s3) \<Rightarrow> (Refuse ENOSPC_NO, r1, unbook a d n s3))
                else (Refuse ENOSPC_NO, r1, s2)
           else (Give got, r1, upd_task a (\<lambda>t. t\<lparr>rt_numChild := rt_numChild t - (rv_nMax r - of_int got)\<rparr>) s1)
      else if got = 0 then (if rv_opt PART_OPT_WAIT r then (Later False, r, s) else (Refuse EBUSY_NO, r, s))
      else if got < 0 then (Refuse ENOSPC_NO, r, s)
      else (Give got, r, s))"

text \<open>The result: negative for a refusal, 0 if the next request has to wait too.\<close>

definition handleSingleResRequest :: "hooks \<Rightarrow> rsv \<Rightarrow> rstate \<Rightarrow> (int \<times> rstate) option" where
  "handleSingleResRequest hk r0 s =
     (case find_task (rv_task r0) s of
        None \<Rightarrow> Some (-1, deny r0 EINVAL_NO (unlink_rsv r0 s))
      | Some a \<Rightarrow>
          let d = delegate_of a s in
          if rv_dynSent r0 then Some (1, s)
          else
            let r = r0\<lparr>rv_firstRank := rt_numChild (rs_heap s a), rv_nextSlot := 0, rv_relSlots := 0\<rparr> in
            case (case hk_get hk r (rs_heap s d) of
                    HkGiven r1 jb \<Rightarrow> Some (Give (sint (rv_nSlots r1)), r1, upd_task d (\<lambda>t. t\<lparr>rt_job := jb\<rparr>) s)
                  | HkRefused \<Rightarrow> Some (Refuse ECANCELED_NO, r, s)
                  | HkNone \<Rightarrow> (case PSIDpart_getReservation r s of None \<Rightarrow> None | Some (got, r1, s1) \<Rightarrow> Some (decide hk a got r1 s1))) of
              None \<Rightarrow> None
            | Some (Later nxt, r2, s2) \<Rightarrow> Some (of_bool nxt, set_request d r2 s2)
            | Some (Refuse eno, r2, s2) \<Rightarrow> Some (-1, deny r2 eno (drop_request d r2 s2))
            | Some (Give got, r2, s2) \<Rightarrow> Some (got, grant a r2 got (drop_request d r2 s2)))"

text \<open>The requests of a task, in order, until one has to wait.\<close>

fun handle_requests :: "hooks \<Rightarrow> rsv list \<Rightarrow> rstate \<Rightarrow> rstate option" where
  "handle_requests hk [] s = Some s"
| "handle_requests hk (r # rs) s =
     (case handleSingleResRequest hk r s of
        None \<Rightarrow> None | Some (ret, s1) \<Rightarrow> if ret = 0 then Some s1 else handle_requests hk rs s1)"

definition handleResRequests :: "hooks \<Rightarrow> nat \<Rightarrow> rstate \<Rightarrow> rstate option" where
  "handleResRequests hk d s = handle_requests hk (rt_requests (rs_heap s d)) s"

text \<open>
  The handlers of reservations: asking for one (\<open>msg_GETRESERVATION\<close>

, \<open>msg_RESERVATIONRES\<close>,
  \<open>PSIDpart_extendRes\<close>), handing out slots (\<open>msg_GETSLOTS\<close>), and giving them back (\<open>msg_CHILDRESREL\<close>,
  \<open>PSIDpart_cleanupRes\<close>, \<open>PSIDpart_cleanupSlots\<close>, \<open>PSIDpart_suspSlts\<close>, \<open>PSIDpart_contSlts\<close>) of
  \<open>src/bin/daemon/psidpartition.c\<close>.  A message is the record of its fields.
\<close>

section \<open>Asking for a reservation\<close>

record getres =
  gm_sender :: taskid
  gm_dest :: taskid
  gm_nMin :: uint32
  gm_nMax :: uint32
  gm_tpp :: "16 word"
  gm_hwType :: uint32
  gm_options :: uint32
  gm_ppn :: "16 word option"
  gm_complete :: bool

definition sum_opt :: "uint32 list \<Rightarrow> rsv \<Rightarrow> bool" where
  "sum_opt fs r \<longleftrightarrow> (\<exists>f \<in> set fs. rv_opt f r)"

text \<open>The request as it is read from the message.\<close>

definition read_request :: "getres \<Rightarrow> rtask \<Rightarrow> rsv \<Rightarrow> rsv" where
  "read_request m t r =
     r\<lparr>rv_task := rt_tid t, rv_requester := gm_sender m, rv_nMin := gm_nMin m, rv_nMax := gm_nMax m, rv_tpp := gm_tpp m,
       rv_hwType := gm_hwType m, rv_options := gm_options m, rv_ppn := (case gm_ppn m of None \<Rightarrow> rv_ppn r | Some p \<Rightarrow> p)\<rparr>"

definition enq_request :: "nat \<Rightarrow> rsv \<Rightarrow> rstate \<Rightarrow> rstate" where
  "enq_request d r s = upd_task d (\<lambda>t. t\<lparr>rt_requests := enqRes (rt_requests t) r\<rparr>) s"

definition enq_reservation :: "nat \<Rightarrow> rsv \<Rightarrow> rstate \<Rightarrow> rstate" where
  "enq_reservation a r s = upd_task a (\<lambda>t. t\<lparr>rt_reservations := enqRes (rt_reservations t) r\<rparr>) s"

definition res_error :: "getres \<Rightarrow> int \<Rightarrow> rstate \<Rightarrow> rstate" where
  "res_error m eno s = emit [RDenied (gm_sender m) eno] s"

text \<open>A step forwarder asks the logger for a placeholder and waits for the answer.\<close>

definition ask_logger :: "getres \<Rightarrow> nat \<Rightarrow> rsv \<Rightarrow> rstate \<Rightarrow> rstate" where
  "ask_logger m a r s =
     (let t = rs_heap s a; d = delegate_of a s; r1 = r\<lparr>rv_options := rv_options r OR PART_OPT_DUMMY\<rparr>;
          (e, s1) = take_send (enq_request d r1 s)
      in if e \<noteq> 0 then res_error m e (drop_request d r1 s1)
         else emit [RAskLogger (rt_logger t) (rt_tid t) r] s1)"

definition placeholder :: "nat \<Rightarrow> rsv \<Rightarrow> rstate \<Rightarrow> rstate" where
  "placeholder a r s =
     (if rv_nMin r \<noteq> rv_nMax r then emit [RDummyDenied (rv_requester r) EINVAL_NO] s
      else
        let r1 = r\<lparr>rv_firstRank := rt_numChild (rs_heap s a)\<rparr>;
            s1 = upd_task a (\<lambda>t. t\<lparr>rt_numChild := rt_numChild t + rv_nMax r\<rparr>) s
        in emit [RDummy (rv_requester r) (rv_rid r1) (rv_nMax r1) (rv_firstRank r1)] (enq_reservation a r1 s1))"

definition queue_request :: "hooks \<Rightarrow> getres \<Rightarrow> nat \<Rightarrow> rsv \<Rightarrow> rstate \<Rightarrow> rstate option" where
  "queue_request hk m a r s =
     (let d = delegate_of a s; jb = rt_job (rs_heap s d) in
      if rt_requests (rs_heap s d) \<noteq> [] then
        (if sum_opt [PART_OPT_WAIT, PART_OPT_DYNAMIC] r then Some (enq_request d r s) else Some (res_error m EBUSY_NO s))
      else if jb_usedThreads jb + rv_nMin r * ucast (rv_tpp r) \<le> of_nat (length (jb_threads jb))
              \<or> sum_opt [PART_OPT_OVERBOOK, PART_OPT_WAIT, PART_OPT_DYNAMIC] r
      then map_option snd (handleSingleResRequest hk r (enq_request d r s))
      else Some (res_error m ENOSPC_NO s))"

definition msg_GETRESERVATION :: "hooks \<Rightarrow> getres \<Rightarrow> rstate \<Rightarrow> rstate option" where
  "msg_GETRESERVATION hk m s =
     (case find_task (if PSC_getPID (gm_dest m) \<noteq> 0 then gm_dest m else gm_sender m) s of
        None \<Rightarrow> Some (res_error m EACCES_NO s)
      | Some a \<Rightarrow>
          let t = rs_heap s a in
          if rt_ptid t \<noteq> 0 \<and> rt_partition t = None then
            (let (e, s1) = take_send s in if e \<noteq> 0 then Some (res_error m e s1) else Some (emit [RForward (rt_ptid t)] s1))
          else if jb_threads (rt_job (rs_heap s (delegate_of a s))) = [] then Some (res_error m EBADRQC_NO s)
          else
            case PSrsrvtn_get s of
              (None, s1) \<Rightarrow> Some (res_error m ENOMEM_NO s1)
            | (Some r0, s1) \<Rightarrow>
                let r = read_request m t r0 in
                if \<not> gm_complete m then Some (res_error m EINVAL_NO s1)
                else if rt_tid t \<noteq> rt_logger t then
                  (if rt_group t \<noteq> TG_PLUGINFW then Some (res_error m EACCES_NO s1) else Some (ask_logger m a r s1))
                else
                  let rid = fst (PStask_getNextResID t); s2 = upd_task a (\<lambda>t. snd (PStask_getNextResID t)) s1;
                      r1 = r\<lparr>rv_rid := rid\<rparr>;
                      r2 = (if rv_opt PART_OPT_DEFAULT r1 then r1\<lparr>rv_options := rt_options t\<rparr> else r1)
                  in if rv_opt PART_OPT_DUMMY r2 then Some (placeholder a r2 s2) else queue_request hk m a r2 s2)"

text \<open>The answer of the logger: number, count of ranks and first rank, where the message has it.\<close>

definition finish_dummy :: "hooks \<Rightarrow> nat \<Rightarrow> uint32 \<Rightarrow> uint32 option \<Rightarrow> rsv \<Rightarrow> rstate \<Rightarrow> rstate" where
  "finish_dummy hk a got frstRnk r s =
     (let t = rs_heap s a; d = delegate_of a s; jb = rt_job (rs_heap s d) in
      case frstRnk of
        None \<Rightarrow> deny r EINVAL_NO s
      | Some frst \<Rightarrow>
          if got \<noteq> rv_nMin r then deny r ENOSPC_NO s
          else
            let r1 = r\<lparr>rv_options := rv_options r AND NOT PART_OPT_DUMMY\<rparr>;
                r2 = (if rv_opt PART_OPT_DEFAULT r1 then r1\<lparr>rv_options := rt_options t\<rparr> else r1)
            in if jb_usedThreads jb + got * ucast (rv_tpp r2) > of_nat (length (jb_threads jb)) then deny r2 EBUSY_NO s
               else
                 let r3 = r2\<lparr>rv_firstRank := rt_numChild t, rv_nextSlot := 0, rv_relSlots := 0\<rparr> in
                 case hk_get hk r3 (rs_heap s d) of
                   HkGiven r4 jb4 \<Rightarrow>
                     let r5 = r4\<lparr>rv_rankOffset := frst - rv_firstRank r4\<rparr>;
                         s1 = upd_task a (\<lambda>t. t\<lparr>rt_numChild := rt_numChild t + got\<rparr>) (upd_task d (\<lambda>t. t\<lparr>rt_job := jb4\<rparr>) s);
                         s2 = enq_reservation a r5 s1
                     in emit [RGranted (rv_requester r5) (rv_rid r5) (rv_nSlots r5)] (send_RESSLOTS a r5 (send_RESCREATED a r5 {} s2))
                 | _ \<Rightarrow> deny r3 ECANCELED_NO s)"

definition msg_RESERVATIONRES :: "hooks \<Rightarrow> taskid \<Rightarrow> int32 \<Rightarrow> uint32 \<Rightarrow> uint32 option \<Rightarrow> rstate \<Rightarrow> rstate" where
  "msg_RESERVATIONRES hk dest rid got frstRnk s =
     (case find_task dest s of
        None \<Rightarrow> s
      | Some a \<Rightarrow>
          if rt_group (rs_heap s a) \<noteq> TG_PLUGINFW \<or> rt_partition (rs_heap s a) = None then s
          else
            let d = delegate_of a s in
            case rt_requests (rs_heap s d) of
              [] \<Rightarrow> s
            | r # _ \<Rightarrow>
                if rv_rid r \<noteq> 0 \<or> \<not> rv_opt PART_OPT_DUMMY r then s
                else
                  let s1 = drop_request d r s in
                  if rid = 0 then emit [RForward (rv_requester r)] s1
                  else finish_dummy hk a got frstRnk (r\<lparr>rv_rid := rid\<rparr>) s1)"

definition PSIDpart_extendRes :: "hooks \<Rightarrow> taskid \<Rightarrow> int32 \<Rightarrow> uint32 \<Rightarrow> slot list \<Rightarrow> rstate \<Rightarrow> (int \<times> rstate) option" where
  "PSIDpart_extendRes hk tid rid got slots s =
     (case find_task tid s of
        None \<Rightarrow> Some (-1, s)
      | Some a \<Rightarrow>
          let d = delegate_of a s in
          case findRes (rt_requests (rs_heap s d)) rid of
            None \<Rightarrow> Some (-1, s)
          | Some r \<Rightarrow>
              let s1 = drop_request d r s; n = rv_nSlots r + got in
              if got = 0 \<or> n < rv_nMin r \<or> n > rv_nMax r \<or> rv_slots r = None then
                let s2 = (case rv_slots r of
                            None \<Rightarrow> s1
                          | Some l \<Rightarrow> (case give_back d (take (unat (rv_nSlots r)) l) s1 of (k, l1, s2) \<Rightarrow> unbook a d k s2))
                in Some (0, deny r ENOSPC_NO s2)
              else
                let r1 = r\<lparr>rv_slots := Some (take (unat (rv_nSlots r)) (slots_of_rsv r) @ take (unat got) slots), rv_nSlots := n\<rparr>;
                    s2 = send_RESSLOTS a r1 (send_RESCREATED a r1 {} (enq_reservation a r1 s1));
                    (e, s3) = take_send s2
                in if e \<noteq> 0 then Some (-1, s3)
                   else map_option (Pair 0)
                     (handleResRequests hk d (emit [RGranted (rv_requester r1) (rv_rid r1) (rv_nSlots r1)] s3)))"

end
