(* ===== verification/Part_Return.thy ===== *)
theory Part_Return
  imports Part_Reserve
begin

text \<open>
  Slots on their way (\<open>msg_GETSLOTS\<close>, \<open>handleSlotsResult\<close>) and back (\<open>msg_CHILDRESREL\<close>,
  \<open>PSIDpart_cleanupRes\<close>, \<open>PSIDpart_cleanupSlots\<close>, \<open>PSIDpart_suspSlts\<close>, \<open>PSIDpart_contSlts\<close> of
  \<open>src/bin/daemon/psidpartition.c\<close>).
\<close>

section \<open>Handing out slots\<close>

definition slot_bits :: "rstate \<Rightarrow> slot list \<Rightarrow> uint16" where
  "slot_bits s l = fold (\<lambda>sl b. if rs_thrds s (sl_node sl) > b then rs_thrds s (sl_node sl) else b) l 0"

definition addSlotsToMsg :: "rstate \<Rightarrow> slot list \<Rightarrow> item list" where
  "addSlotsToMsg s l =
     (let nBytes = PSCPU_bytesForCPUs (unat (slot_bits s l)) in
      if slot_bits s l = 0 \<or> nBytes = 0 then []
      else it_uint16 (of_nat nBytes) # concat (map (\<lambda>sl. [it_int32 (sl_node sl), it_mem (PSCPU_extract (sl_cpus sl) nBytes)]) l))"

definition slots_denied :: "taskid \<Rightarrow> int \<Rightarrow> rstate \<Rightarrow> rstate" where
  "slots_denied dest eno s =
     (let (e, s1) = take_send s in if e \<noteq> 0 then s1 else emit [RFrag PSP_DD_SLOTSRES [dest] [it_int32 (-1), it_int32 (of_int eno)]] s1)"

definition hand_out :: "taskid \<Rightarrow> nat \<Rightarrow> rsv \<Rightarrow> uint16 \<Rightarrow> rstate \<Rightarrow> rstate" where
  "hand_out sender a r num s =
     (let l = take (unat num) (drop (unat (rv_nextSlot r)) (slots_of_rsv r));
          (e, s1) = take_send s
      in if e \<noteq> 0 then s1
         else upd_task a (\<lambda>t. t\<lparr>rt_active := rt_active t + ucast num,
                  rt_reservations := store_rsv (r\<lparr>rv_nextSlot := rv_nextSlot r + ucast num\<rparr>) (rt_reservations t)\<rparr>)
                (emit [RFrag PSP_DD_SLOTSRES [sender]
                    ([it_int32 (rv_rankOffset r + rv_firstRank r + rv_nextSlot r), it_uint16 num] @ addSlotsToMsg s1 l)] s1))"

text \<open>\<open>num\<close> is \<open>None\<close> if the message is too short.\<close>

definition msg_GETSLOTS :: "taskid \<Rightarrow> taskid \<Rightarrow> int32 \<Rightarrow> uint16 option \<Rightarrow> rstate \<Rightarrow> rstate" where
  "msg_GETSLOTS sender dest rid num s =
     (case find_task (if PSC_getPID dest \<noteq> 0 then dest else sender) s of
        None \<Rightarrow> slots_denied sender EACCES_NO s
      | Some a \<Rightarrow>
          let t = rs_heap s a in
          if rt_ptid t \<noteq> 0 \<and> rt_partition t = None then
            (let (e, s1) = take_send s in if e \<noteq> 0 then slots_denied sender e s1 else emit [RForward (rt_ptid t)] s1)
          else
            case num of
              None \<Rightarrow> slots_denied sender EINVAL_NO s
            | Some n \<Rightarrow>
                (case findRes (rt_reservations t) rid of
                   None \<Rightarrow> slots_denied sender EBADRQC_NO s
                 | Some r \<Rightarrow>
                     if rv_slots r = None then slots_denied sender EBADRQC_NO s
                     else if unat n > NODES_CHUNK then slots_denied sender EINVAL_NO s
                     else if rv_nextSlot r + ucast n > rv_nSlots r then slots_denied sender ENOSPC_NO s
                     else hand_out sender a r n s))"

section \<open>Suspending\<close>

text \<open>One count per thread, for the first slot that has it, until nothing is left.\<close>

fun turn_threads :: "16 word \<Rightarrow> hwthread list \<Rightarrow> slot list \<Rightarrow> nat \<Rightarrow> hwthread list \<times> nat" where
  "turn_threads k [] l num = ([], num)"
| "turn_threads k (th # ths) l num =
     (if num = 0 then (th # ths, num)
      else if \<exists>sl \<in> set l. sl_node sl = th_node th \<and> PSCPU_isSet (sl_cpus sl) (th_id th)
      then (case turn_threads k ths l (num - 1) of (ths1, n) \<Rightarrow> (th\<lparr>th_used := th_used th + k\<rparr> # ths1, n))
      else (case turn_threads k ths l num of (ths1, n) \<Rightarrow> (th # ths1, n)))"

definition turn_slots :: "bool \<Rightarrow> slot list \<Rightarrow> nat \<Rightarrow> rstate \<Rightarrow> nat \<times> rstate" where
  "turn_slots back l a s =
     (let d = delegate_of a s; jb = rt_job (rs_heap s d); tot = sum_list (map slot_count l) in
      if jb_threads jb = [] then (0, s)
      else case turn_threads (if back then 1 else -1) (jb_threads jb) l tot of
        (ths, num) \<Rightarrow>
          (tot - num,
           upd_task d (\<lambda>t. add_used (if back then of_nat (tot - num) else - of_nat (tot - num)) (t\<lparr>rt_job := jb\<lparr>jb_threads := ths\<rparr>\<rparr>)) s))"

definition PSIDpart_suspSlts :: "slot list \<Rightarrow> nat \<Rightarrow> rstate \<Rightarrow> nat \<times> rstate" where
  "PSIDpart_suspSlts = turn_slots False"

definition PSIDpart_contSlts :: "slot list \<Rightarrow> nat \<Rightarrow> rstate \<Rightarrow> nat \<times> rstate" where
  "PSIDpart_contSlts = turn_slots True"

text \<open>What \<open>SIGSTOP\<close> and \<open>SIGCONT\<close> do to the reservations of a task without partition (\<open>psidsignal.c\<close>).\<close>

definition suspend_reservations :: "bool \<Rightarrow> nat \<Rightarrow> rstate \<Rightarrow> rstate" where
  "suspend_reservations stop a s =
     (let t = rs_heap s a in
      if rt_partition t \<noteq> None \<or> rt_reservations t = [] \<or> rt_suspended t = stop then s
      else fold (\<lambda>r s. if rv_slots r = None then s else snd (turn_slots (\<not> stop) (slots_of_rsv r) a s)) (rt_reservations t)
             (upd_task a (\<lambda>t. t\<lparr>rt_suspended := stop\<rparr>) s))"

section \<open>Giving back\<close>

text \<open>A task that only waits for its delegate to be free goes when nothing is in use any more.\<close>

definition drop_delegate :: "nat \<Rightarrow> bool \<Rightarrow> rstate \<Rightarrow> rstate" where
  "drop_delegate a had s =
     (let t = rs_heap s a in
      if had \<and> rt_removeIt t \<and> jb_usedThreads (rt_job t) = 0
      then emit [RTaskCleanup a] (upd_task a (\<lambda>t. t\<lparr>rt_delegate := None\<rparr>) s) else s)"

text \<open>One set of CPUs of a message.\<close>

definition release_set :: "nat \<Rightarrow> nat \<Rightarrow> int32 \<Rightarrow> slot \<Rightarrow> rstate \<Rightarrow> rstate" where
  "release_set a d rid sl s =
     (case give_back d [sl] s of
        (n, l1, s1) \<Rightarrow>
          let had = rt_delegate (rs_heap s a) \<noteq> None;
              s2 = drop_delegate a had (unbook a d n s1)
          in if n \<noteq> slot_count sl \<and> rt_options (rs_heap s a) AND PART_OPT_DYNAMIC \<noteq> 0
             then emit [RHookRels rid (hd l1)] s2 else s2)"

record childrel =
  cr_sender :: taskid
  cr_dest :: taskid
  cr_nBytes :: nat
  cr_sets :: "byte list list"
  cr_numSlots :: uint16
  cr_rid :: int32

definition slot_of_set :: "childrel \<Rightarrow> nodeid \<Rightarrow> byte list \<Rightarrow> slot" where
  "slot_of_set m me b = \<lparr>sl_node = PSC_getID me (cr_sender m), sl_cpus = PSCPU_inject zero_set b (cr_nBytes m)\<rparr>"

text \<open>Slots are counted on the reservation; when all are released it goes.\<close>

definition count_released :: "nat \<Rightarrow> rsv \<Rightarrow> uint16 \<Rightarrow> rstate \<Rightarrow> rstate" where
  "count_released a r0 num s =
     (let r = r0\<lparr>rv_relSlots := rv_relSlots r0 + ucast num\<rparr> in
      if rv_relSlots r \<ge> rv_nSlots r then
        let s1 = upd_task a (\<lambda>t. t\<lparr>rt_reservations := snd (deqRes (rt_reservations t) r)\<rparr>) s;
            s2 = send_RESRELEASED a r s1
        in if rt_reservations (rs_heap s2 a) = [] then emit [RHookLast r] s2 else s2
      else upd_task a (\<lambda>t. t\<lparr>rt_reservations := store_rsv r (rt_reservations t)\<rparr>) s)"

definition msg_CHILDRESREL :: "hooks \<Rightarrow> childrel \<Rightarrow> rstate \<Rightarrow> rstate option" where
  "msg_CHILDRESREL hk m s =
     (case find_task (cr_dest m) s of
        None \<Rightarrow> Some s
      | Some a \<Rightarrow>
          let d = delegate_of a s; found = findRes (rt_reservations (rs_heap s a)) (cr_rid m) in
          if jb_threads (rt_job (rs_heap s d)) = [] then Some s
          else if cr_nBytes m > PSCPU_bytesForCPUs PSCPU_MAX then Some s
          else if (case found of None \<Rightarrow> False | Some r \<Rightarrow> rv_opt PART_OPT_DUMMY r \<and> rv_requester r \<noteq> 0)
          then Some (emit [RForward (rv_requester (the found))] s)
          else
            let s1 = (case found of None \<Rightarrow> s | Some r \<Rightarrow> count_released a r (cr_numSlots m) s);
                s2 = fold (\<lambda>b. release_set a d (cr_rid m) (slot_of_set m (rs_myID s) b)) (cr_sets m) s1;
                s3 = upd_task a (\<lambda>t. t\<lparr>rt_active := rt_active t - ucast (cr_numSlots m)\<rparr>) s2
            in handleResRequests hk d s3)"

section \<open>Cleaning up\<close>

text \<open>A reservation goes with the slots that nobody got; the number of threads that were released.\<close>

definition cleanup_one :: "nat \<Rightarrow> nat \<Rightarrow> rsv \<Rightarrow> nat \<times> rstate \<Rightarrow> nat \<times> rstate" where
  "cleanup_one a d r st =
     (case st of (released, s) \<Rightarrow>
        let t = rs_heap s a;
            s1 = (if rt_partition t = None \<and> rt_suspended t
                  then upd_task a (\<lambda>t. t\<lparr>rt_suspended := False\<rparr>)
                    (if rv_slots r = None then s else snd (PSIDpart_contSlts (slots_of_rsv r) d s))
                  else s);
            s2 = upd_task a (\<lambda>t. t\<lparr>rt_reservations := snd (deqRes (rt_reservations t) r)\<rparr>) s1;
            s3 = send_RESRELEASED a r s2
        in case rv_slots r of
             None \<Rightarrow> (released, s3)
           | Some l \<Rightarrow>
               (case give_back d (drop (unat (rv_nextSlot r)) l) s3 of
                  (n, l1, s4) \<Rightarrow>
                    (released + n,
                     if rt_options (rs_heap s4 a) AND PART_OPT_DYNAMIC \<noteq> 0
                     then emit (map (RHookRels (rv_rid r)) (filter (\<lambda>sl. PSCPU_any (sl_cpus sl) PSCPU_MAX) l1)) s4 else s4)))"

definition PSIDpart_cleanupRes :: "hooks \<Rightarrow> nat \<Rightarrow> rstate \<Rightarrow> rstate option" where
  "PSIDpart_cleanupRes hk a s =
     (let d = delegate_of a s;
          (released, s1) = fold (cleanup_one a d) (rt_reservations (rs_heap s a)) (0, s);
          had = rt_delegate (rs_heap s1 a) \<noteq> None;
          s2 = drop_delegate a had (unbook a d released s1)
      in if d \<noteq> a \<and> released \<noteq> 0 then handleResRequests hk d s2 else Some s2)"

end
