(* ===== verification/Part_Loop.thy ===== *)
theory Part_Loop
  imports Part_Slots
begin

text \<open>
  The loop of \<open>createSlots\<close>: it ends without over-booking, and it may run for ever with over-booking and
  a limit of processes per node.
\<close>

declare not_None_eq [simp del]

section \<open>What a turn changes\<close>

lemma put_back_length [simp]: "length (fst (put_back ts cur is use num)) = length use"
  by (induction ts cur "is" use num rule: put_back.induct) auto

text \<open>The slots grow by at most one, and only with the count of the round.\<close>

definition progress :: "lstate \<Rightarrow> lstate \<Rightarrow> bool" where
  "progress s s' \<longleftrightarrow> ls_t s' = ls_t s \<and> ls_full s' = ls_full s \<and> ls_min s' = ls_min s \<and> length (ls_use s') = length (ls_use s)
     \<and> (ls_done s' = ls_done s \<and> ls_round s' = ls_round s \<or> length (ls_done s') = length (ls_done s) + 1 \<and> \<not> ls_exit s')"

lemma take_thread_progress: "\<not> ls_exit s \<Longrightarrow> progress s (take_thread w ts s)"
  by (simp add: progress_def take_thread_def Let_def)

lemma use_thread_progress:
  assumes "\<not> ls_exit s" shows "progress s (use_thread w ts s)"
proof -
  define n where "n = th_node (ts ! ls_t s)"
  define s1 where "s1 = (if ls_thrds s = 0 then s\<lparr>ls_cur := \<lparr>sl_node = n, sl_cpus = zero_set\<rparr>\<rparr> else s)"
  obtain use left where p: "put_back ts (ls_cur s1) (back_order (length ts) (ls_t s)) (ls_use s1) (slot_count (ls_cur s1)) = (use, left)"
    by fastforce
  have "length use = length (ls_use s1)" using put_back_length p by (metis fst_conv)
  then have l: "length use = length (ls_use s)" by (simp add: s1_def)
  let ?s2 = "s1\<lparr>ls_use := use, ls_cur := \<lparr>sl_node = n, sl_cpus = zero_set\<rparr>, ls_thrds := 0\<rparr>"
  have u: "use_thread w ts s = (if n \<noteq> sl_node (ls_cur s1)
      then (if left \<noteq> 0 then s1\<lparr>ls_use := use, ls_exit := True\<rparr> else take_thread w ts ?s2) else take_thread w ts s1)"
    using p by (simp add: use_thread_def n_def [symmetric] s1_def [symmetric] Let_def)
  have f: "ls_t s1 = ls_t s" "ls_full s1 = ls_full s" "ls_min s1 = ls_min s" "ls_use s1 = ls_use s" "ls_done s1 = ls_done s"
    "ls_round s1 = ls_round s" "ls_exit s1 = ls_exit s"
    by (simp_all add: s1_def)
  have "progress s1 (take_thread w ts s1)" "progress ?s2 (take_thread w ts ?s2)"
    using assms f by (auto intro!: take_thread_progress)
  then show ?thesis using l f unfolding u progress_def by simp
qed

lemma progress_refl: "progress s s"
  by (simp add: progress_def)

lemma try_thread_progress: "\<not> ls_exit s \<Longrightarrow> progress s (try_thread hw w ts s)"
  using use_thread_progress [of s w ts] by (simp add: try_thread_def Let_def progress_refl) (simp add: progress_def)

section \<open>Without over-booking the loop ends\<close>

text \<open>A round that got nothing is the last one: at most two more rounds follow without a new slot.\<close>

definition phase :: "lstate \<Rightarrow> nat" where
  "phase s = (if \<not> ls_full s then 2 else if ls_round s \<noteq> 0 then 1 else 0)"

definition to_go :: "wish \<Rightarrow> nat \<Rightarrow> lstate \<Rightarrow> nat" where
  "to_go w n s = (if opt_set PART_OPT_NODEFIRST w then (if ls_t s = 0 then 1 else n - ls_t s + 1) else n - ls_t s)"

definition loop_order :: "wish \<Rightarrow> nat \<Rightarrow> (lstate \<times> lstate) set" where
  "loop_order w n = measures [\<lambda>s. of_bool (\<not> ls_exit s), \<lambda>s. ws_np w - length (ls_done s),
     \<lambda>s. if opt_set PART_OPT_NODEFIRST w then phase s else 0, to_go w n]"

lemma turn_decreases:
  assumes g: "go_on w ts s" and ob: "\<not> opt_set PART_OPT_OVERBOOK w"
  shows "(slot_turn hw w ts s, s) \<in> loop_order w (length ts)"
proof -
  define n where "n = length ts"
  define s1 where "s1 = (if ls_t s = 0 then new_round w s else s)"
  define s2 where "s2 = (if ls_exit s1 then s1 else try_thread hw w ts s1)"
  have t: "ls_t s < n" "length (ls_done s) < ws_np w" "\<not> ls_exit s" using g by (simp_all add: go_on_def n_def)
  have turn: "slot_turn hw w ts s = s2\<lparr>ls_t := (ls_t s2 + 1) mod loop_mod w n\<rparr>"
    by (simp add: slot_turn_def s1_def s2_def n_def Let_def)
  have d1: "ls_t s1 = ls_t s" "ls_done s1 = ls_done s" by (simp_all add: s1_def new_round_def Let_def)
  show ?thesis
  proof (cases "ls_exit s2")
    case True
    then show ?thesis using t unfolding turn n_def [symmetric] by (simp add: loop_order_def)
  next
    case False
    then have ne: "\<not> ls_exit s1" by (auto simp: s2_def split: if_splits)
    then have p: "progress s1 s2" using try_thread_progress by (simp add: s2_def)
    show ?thesis
    proof (cases "ls_done s2 = ls_done s")
      case False
      then have "length (ls_done s2) = length (ls_done s) + 1" using p d1 by (auto simp: progress_def)
      then show ?thesis using t unfolding turn n_def [symmetric] by (auto simp: loop_order_def)
    next
      case same: True
      then have k: "ls_t s2 = ls_t s" "ls_full s2 = ls_full s1" "ls_round s2 = ls_round s1" using p d1 by (auto simp: progress_def)
      show ?thesis
      proof (cases "opt_set PART_OPT_NODEFIRST w")
        case False
        then have "(ls_t s + 1) mod loop_mod w n = ls_t s + 1" using t ob by (simp add: loop_mod_def)
        then show ?thesis using False t same k unfolding turn n_def [symmetric] by (auto simp: loop_order_def to_go_def)
      next
        case nf: True
        then have m: "loop_mod w n = n" by (simp add: loop_mod_def)
        show ?thesis
        proof (cases "ls_t s = 0")
          case True
          then have "s1 = new_round w s" by (simp add: s1_def)
          then have "ls_full s1" "ls_round s1 = 0" "phase s \<noteq> 0"
            using ne ob by (auto simp: new_round_def phase_def Let_def split: if_splits)
          then show ?thesis using nf t same k unfolding turn n_def [symmetric] by (auto simp: loop_order_def phase_def)
        next
          case False
          then have "s1 = s" by (simp add: s1_def)
          moreover have "(ls_t s + 1) mod n = (if ls_t s + 1 = n then 0 else ls_t s + 1)" using t by auto
          ultimately show ?thesis using nf t same k False unfolding turn n_def [symmetric] m
            by (auto simp: loop_order_def phase_def to_go_def)
        qed
      qed
    qed
  qed
qed

lemma slots_loop_ends: "\<not> opt_set PART_OPT_OVERBOOK w \<Longrightarrow> \<exists>s. slots_loop hw w ts = Some s"
  unfolding slots_loop_def
proof (rule wf_while_option_Some [where P = "\<lambda>s. True"])
  assume ob: "\<not> opt_set PART_OPT_OVERBOOK w"
  have "{(t, s). (True \<and> go_on w ts s) \<and> t = slot_turn hw w ts s} \<subseteq> loop_order w (length ts)"
    using turn_decreases [OF _ ob] by auto
  then show "wf {(t, s). (True \<and> go_on w ts s) \<and> t = slot_turn hw w ts s}"
    by (rule wf_subset [rotated]) (simp add: loop_order_def)
qed simp_all

section \<open>The order of giving back\<close>

lemma back_order_set: "t < n \<Longrightarrow> set (back_order n t) = {..<n} - {t}"
proof -
  assume t: "t < n"
  have e: "(t + n - tt) mod n = (if tt \<le> t then t - tt else t + n - tt)" if "1 \<le> tt" "tt < n" for tt
  proof (cases "tt \<le> t")
    case True
    then have "t + n - tt = (t - tt) + n" by simp
    then have "(t + n - tt) mod n = (t - tt) mod n" by (simp only: mod_add_self2)
    then show ?thesis using True t by simp
  qed (use t that in simp)
  have "i \<in> (\<lambda>tt. (t + n - tt) mod n) ` {1..<n}" if "i < n" "i \<noteq> t" for i
  proof (cases "i < t")
    case True
    then show ?thesis using e [of "t - i"] t by (intro image_eqI [of _ _ "t - i"]) auto
  next
    case False
    then show ?thesis using e [of "t + n - i"] t that by (intro image_eqI [of _ _ "t + n - i"]) auto
  qed
  moreover have "(t + n - tt) mod n < n \<and> (t + n - tt) mod n \<noteq> t" if "1 \<le> tt" "tt < n" for tt
    using e [OF that] t that by auto
  ultimately show ?thesis by (auto simp: back_order_def)
qed

lemma back_order_distinct: "t < n \<Longrightarrow> distinct (back_order n t)"
proof -
  assume t: "t < n"
  have "card (set (back_order n t)) = length (back_order n t)"
    using t by (simp add: back_order_set) (simp add: back_order_def)
  then show ?thesis by (rule card_distinct)
qed

text \<open>How many uses are left to give back.\<close>

definition in_cur :: "hwthread list \<Rightarrow> slot \<Rightarrow> nat \<Rightarrow> bool" where
  "in_cur ts cur i \<longleftrightarrow> sl_node cur = th_node (ts ! i) \<and> PSCPU_isSet (sl_cpus cur) (th_id (ts ! i))"

lemma put_back_left: "snd (put_back ts cur is use num) = num - length (filter (in_cur ts cur) is)"
  by (induction ts cur "is" use num rule: put_back.induct) (auto simp: in_cur_def)

section \<open>What holds in the loop\<close>

definition ths_ok :: "hwthread list \<Rightarrow> bool" where
  "ths_ok ts \<longleftrightarrow> (\<forall>th \<in> set ts. th_id th < PSCPU_MAX)"

definition cur_ok :: "(nodeid \<Rightarrow> uint32) \<Rightarrow> wish \<Rightarrow> hwthread list \<Rightarrow> slot \<Rightarrow> bool" where
  "cur_ok hw w ts cur \<longleftrightarrow> cpu_wf (sl_cpus cur)
     \<and> (\<forall>c \<in> cpus (sl_cpus cur). \<exists>i < length ts. th_node (ts ! i) = sl_node cur \<and> th_id (ts ! i) = c \<and> hw_fits hw w (th_node (ts ! i)))"

definition fit_nodes :: "(nodeid \<Rightarrow> uint32) \<Rightarrow> wish \<Rightarrow> hwthread list \<Rightarrow> nodeid set" where
  "fit_nodes hw w ts = {n \<in> th_node ` set ts. hw_fits hw w n}"

definition on_node :: "slot list \<Rightarrow> nodeid \<Rightarrow> nat" where
  "on_node l n = length (filter (\<lambda>sl. sl_node sl = n) l)"

lemma on_node_simps [simp]: "on_node [] n = 0" "on_node (sl # l) n = of_bool (sl_node sl = n) + on_node l n"
  "on_node (l @ k) n = on_node l n + on_node k n"
  by (simp_all add: on_node_def)

definition procs_ok :: "wish \<Rightarrow> lstate \<Rightarrow> bool" where
  "procs_ok w s \<longleftrightarrow> (ws_ppn w \<noteq> 0 \<longrightarrow> (\<forall>n. on_node (ls_done s) n = unat (ls_procs s n) \<and> ls_procs s n \<le> ws_ppn w))"

definition sinv :: "(nodeid \<Rightarrow> uint32) \<Rightarrow> wish \<Rightarrow> hwthread list \<Rightarrow> lstate \<Rightarrow> bool" where
  "sinv hw w ts s \<longleftrightarrow> length (ls_use s) = length ts \<and> (ls_thrds s \<noteq> 0 \<longrightarrow> cur_ok hw w ts (ls_cur s))
     \<and> (\<forall>sl \<in> set (ls_done s). cur_ok hw w ts sl \<and> sl_node sl \<in> fit_nodes hw w ts) \<and> procs_ok w s"

lemma zero_slot_ok [simp]: "cur_ok hw w ts \<lparr>sl_node = n, sl_cpus = zero_set\<rparr>"
  by (simp add: cur_ok_def)

lemma take_thread_sinv:
  assumes s: "sinv hw w ts s" and ok: "ths_ok ts" and t: "ls_t s < length ts" and cur: "cur_ok hw w ts (ls_cur s)"
    and n: "sl_node (ls_cur s) = th_node (ts ! ls_t s)" and fit: "hw_fits hw w (th_node (ts ! ls_t s))"
    and ppn: "ws_ppn w \<noteq> 0 \<Longrightarrow> ls_procs s (th_node (ts ! ls_t s)) < ws_ppn w"
  shows "sinv hw w ts (take_thread w ts s)"
proof -
  let ?th = "ts ! ls_t s"
  let ?cur = "(ls_cur s)\<lparr>sl_cpus := PSCPU_setCPU (sl_cpus (ls_cur s)) (th_id ?th)\<rparr>"
  have id: "th_id ?th < PSCPU_MAX" using ok t by (simp add: ths_ok_def)
  have c: "cur_ok hw w ts ?cur"
    using cur t n fit id cpus_setCPU [of "sl_cpus (ls_cur s)" "th_id ?th"] by (auto simp: cur_ok_def)
  have f: "th_node ?th \<in> fit_nodes hw w ts" using t fit by (simp add: fit_nodes_def)
  show ?thesis
  proof (cases "ls_thrds s + 1 = ws_tpp w")
    case False
    then show ?thesis using s c by (simp add: take_thread_def sinv_def procs_ok_def Let_def)
  next
    case True
    have u: "unat (ls_procs s (th_node ?th) + 1) = unat (ls_procs s (th_node ?th)) + 1 \<and> ls_procs s (th_node ?th) + 1 \<le> ws_ppn w"
      if "ws_ppn w \<noteq> 0"
    proof
      have "ls_procs s (th_node ?th) \<noteq> -1" using ppn [OF that] by auto
      then have "ls_procs s (th_node ?th) + 1 \<noteq> 0" by (simp add: eq_neg_iff_add_eq_0)
      then show "unat (ls_procs s (th_node ?th) + 1) = unat (ls_procs s (th_node ?th)) + 1" by (metis add.commute unatSuc Suc_eq_plus1)
      show "ls_procs s (th_node ?th) + 1 \<le> ws_ppn w" using ppn [OF that] by (rule inc_le)
    qed
    have "procs_ok w (take_thread w ts s)"
      using s True u n by (auto simp: sinv_def procs_ok_def take_thread_def Let_def)
    moreover have "ls_done (take_thread w ts s) = ls_done s @ [?cur]" "length (ls_use (take_thread w ts s)) = length (ls_use s)"
      "ls_thrds (take_thread w ts s) = 0"
      using True by (simp_all add: take_thread_def Let_def)
    ultimately show ?thesis using s c f n by (simp add: sinv_def)
  qed
qed

lemma match_count:
  assumes ok: "cur_ok hw w ts cur" and t: "t < length ts" and n: "sl_node cur \<noteq> th_node (ts ! t)"
  shows "slot_count cur \<le> length (filter (in_cur ts cur) (back_order (length ts) t))"
proof -
  let ?I = "set (filter (in_cur ts cur) (back_order (length ts) t))"
  have w: "cpu_wf (sl_cpus cur)" using ok by (simp add: cur_ok_def)
  have "cpus (sl_cpus cur) \<subseteq> (\<lambda>i. th_id (ts ! i)) ` ?I"
  proof
    fix c assume c: "c \<in> cpus (sl_cpus cur)"
    then obtain i where i: "i < length ts" "th_node (ts ! i) = sl_node cur" "th_id (ts ! i) = c" using ok by (auto simp: cur_ok_def)
    have "in_cur ts cur i" using i c w isSet_has [OF w] by (auto simp: in_cur_def cpus_def)
    moreover have "i \<noteq> t" using i n by auto
    ultimately show "c \<in> (\<lambda>i. th_id (ts ! i)) ` ?I" using i t by (auto simp: back_order_set)
  qed
  then have "card (cpus (sl_cpus cur)) \<le> card ?I" by (meson card_image_le card_mono finite_imageI finite_set le_trans)
  also have "\<dots> \<le> length (filter (in_cur ts cur) (back_order (length ts) t))" by (rule card_length)
  finally show ?thesis using slot_count_card [OF w] by simp
qed

lemma use_thread_cases:
  assumes s: "sinv hw w ts s" and t: "ls_t s < length ts" 
  shows "\<exists>use cur thr. use_thread w ts s = take_thread w ts (s\<lparr>ls_use := use, ls_cur := cur, ls_thrds := thr\<rparr>)
    \<and> length use = length ts \<and> cur_ok hw w ts cur \<and> sl_node cur = th_node (ts ! ls_t s)
    \<and> (thr \<noteq> 0 \<and> cur = ls_cur s \<and> use = ls_use s \<and> thr = ls_thrds s
       \<or> thr = 0 \<and> cur = \<lparr>sl_node = th_node (ts ! ls_t s), sl_cpus = zero_set\<rparr> \<and> use = ls_use s \<and> ls_thrds s = 0
       \<or> thr = 0 \<and> cur = \<lparr>sl_node = th_node (ts ! ls_t s), sl_cpus = zero_set\<rparr> \<and> ls_thrds s \<noteq> 0 \<and> sl_node (ls_cur s) \<noteq> th_node (ts ! ls_t s)
         \<and> use = fst (put_back ts (ls_cur s) (back_order (length ts) (ls_t s)) (ls_use s) (slot_count (ls_cur s))))"
proof -
  define n where "n = th_node (ts ! ls_t s)"
  let ?z = "\<lparr>sl_node = n, sl_cpus = zero_set\<rparr>"
  have l: "length (ls_use s) = length ts" using s by (simp add: sinv_def)
  show ?thesis
  proof (cases "ls_thrds s = 0")
    case True
    then have "use_thread w ts s = take_thread w ts (s\<lparr>ls_cur := ?z\<rparr>)" by (simp add: use_thread_def n_def Let_def)
    then have "use_thread w ts s = take_thread w ts (s\<lparr>ls_use := ls_use s, ls_cur := ?z, ls_thrds := ls_thrds s\<rparr>)" by simp
    then show ?thesis using True l by (metis n_def slot.select_convs(1) zero_slot_ok)
  next
    case False
    then have ok: "cur_ok hw w ts (ls_cur s)" using s by (simp add: sinv_def)
    show ?thesis
    proof (cases "n = sl_node (ls_cur s)")
      case True
      then have "use_thread w ts s = take_thread w ts s" using False by (simp add: use_thread_def n_def Let_def)
      then have "use_thread w ts s = take_thread w ts (s\<lparr>ls_use := ls_use s, ls_cur := ls_cur s, ls_thrds := ls_thrds s\<rparr>)" by simp
      then show ?thesis using False True ok l n_def by metis
    next
      case ne: False
      obtain use left where p: "put_back ts (ls_cur s) (back_order (length ts) (ls_t s)) (ls_use s) (slot_count (ls_cur s)) = (use, left)" by fastforce
      have "left = 0" using put_back_left [of ts "ls_cur s" "back_order (length ts) (ls_t s)" "ls_use s" "slot_count (ls_cur s)"] p
          match_count [OF ok t] ne n_def by simp
      then have "use_thread w ts s = take_thread w ts (s\<lparr>ls_use := use, ls_cur := ?z, ls_thrds := 0\<rparr>)"
        using False ne p by (simp add: use_thread_def n_def Let_def)
      moreover have "length use = length ts" using put_back_length p l by (metis fst_conv)
      ultimately show ?thesis using False ne p n_def by (metis fst_conv slot.select_convs(1) zero_slot_ok)
    qed
  qed
qed

text \<open>A turn gives the thread away or leaves uses, slots and counts as they are.\<close>

lemma slot_turn_cases:
  assumes s: "sinv hw w ts s" and g: "go_on w ts s" and i: "s1 = (if ls_t s = 0 then new_round w s else s)"
  shows "\<exists>x t'. slot_turn hw w ts s = x\<lparr>ls_t := t'\<rparr> \<and> t' = (ls_t s + 1) mod loop_mod w (length ts) \<and>
     (ls_exit s1 \<and> x = s1
      \<or> \<not> ls_exit s1 \<and> (\<exists>nx. x = s1\<lparr>ls_next := nx\<rparr>)
      \<or> \<not> ls_exit s1 \<and> x = use_thread w ts s1 \<and> sint (ls_use s ! ls_t s) \<le> sint (ls_min s1) \<and> hw_fits hw w (th_node (ts ! ls_t s))
         \<and> (ws_ppn w \<noteq> 0 \<longrightarrow> ls_procs s (th_node (ts ! ls_t s)) < ws_ppn w))"
proof -
  define x where "x = (if ls_exit s1 then s1 else try_thread hw w ts s1)"
  have f: "ls_t s1 = ls_t s" "ls_use s1 = ls_use s" "ls_procs s1 = ls_procs s" by (simp_all add: i new_round_def Let_def)
  have tx: "ls_t x = ls_t s" using try_thread_progress [of s1 hw w ts] f by (simp add: x_def progress_def)
  have "slot_turn hw w ts s = x\<lparr>ls_t := (ls_t s + 1) mod loop_mod w (length ts)\<rparr>"
    by (simp add: slot_turn_def i [symmetric] x_def [symmetric] tx Let_def)
  moreover have "ls_exit s1 \<and> x = s1 \<or> \<not> ls_exit s1 \<and> (\<exists>nx. x = s1\<lparr>ls_next := nx\<rparr>)
      \<or> \<not> ls_exit s1 \<and> x = use_thread w ts s1 \<and> sint (ls_use s ! ls_t s) \<le> sint (ls_min s1) \<and> hw_fits hw w (th_node (ts ! ls_t s))
         \<and> (ws_ppn w \<noteq> 0 \<longrightarrow> ls_procs s (th_node (ts ! ls_t s)) < ws_ppn w)"
  proof (cases "ls_exit s1")
    case e: False
    define skip where "skip = (sint (ls_use s ! ls_t s) > sint (ls_min s1) \<or> \<not> hw_fits hw w (th_node (ts ! ls_t s))
        \<or> ws_ppn w \<noteq> 0 \<and> ls_procs s (th_node (ts ! ls_t s)) \<ge> ws_ppn w)"
    have same: "s1 = s1\<lparr>ls_next := ls_next s1\<rparr>" by simp
    show ?thesis
    proof (cases skip)
      case True
      then have "x = s1" using e f by (auto simp: x_def skip_def try_thread_def Let_def)
      then show ?thesis using e same by metis
    next
      case False
      then have "x = s1 \<or> x = s1\<lparr>ls_next := ls_use s1 ! ls_t s1\<rparr> \<or> x = use_thread w ts s1"
        using e f by (auto simp: x_def skip_def try_thread_def Let_def)
      then show ?thesis using e same False unfolding skip_def by (metis not_le)
    qed
  qed (simp add: x_def)
  ultimately show ?thesis by blast
qed

lemma sinv_fields [simp]: "sinv hw w ts (s\<lparr>ls_t := t\<rparr>) = sinv hw w ts s" "sinv hw w ts (s\<lparr>ls_next := x\<rparr>) = sinv hw w ts s"
  "sinv hw w ts (new_round w' s) = sinv hw w ts s"
  by (simp_all add: sinv_def procs_ok_def new_round_def Let_def)

lemma use_thread_sinv:
  assumes s: "sinv hw w ts s" and ok: "ths_ok ts" and t: "ls_t s < length ts" and fit: "hw_fits hw w (th_node (ts ! ls_t s))"
    and ppn: "ws_ppn w \<noteq> 0 \<Longrightarrow> ls_procs s (th_node (ts ! ls_t s)) < ws_ppn w"
  shows "sinv hw w ts (use_thread w ts s)"
proof -
  obtain use cur thr where u: "use_thread w ts s = take_thread w ts (s\<lparr>ls_use := use, ls_cur := cur, ls_thrds := thr\<rparr>)"
    "length use = length ts" "cur_ok hw w ts cur" "sl_node cur = th_node (ts ! ls_t s)"
    using use_thread_cases [OF s t] by metis
  let ?s = "s\<lparr>ls_use := use, ls_cur := cur, ls_thrds := thr\<rparr>"
  have "sinv hw w ts ?s" using s u by (simp add: sinv_def procs_ok_def)
  then show ?thesis unfolding u(1) by (rule take_thread_sinv) (use ok t u fit ppn in simp_all)
qed

lemma slot_turn_sinv:
  assumes s: "sinv hw w ts s" and g: "go_on w ts s" and ok: "ths_ok ts"
  shows "sinv hw w ts (slot_turn hw w ts s)"
proof -
  define s1 where "s1 = (if ls_t s = 0 then new_round w s else s)"
  have s1: "sinv hw w ts s1" using s by (simp add: s1_def)
  have f: "ls_t s1 = ls_t s" "ls_procs s1 = ls_procs s" by (simp_all add: s1_def new_round_def Let_def)
  have t: "ls_t s1 < length ts" using g f by (simp add: go_on_def)
  obtain x t' where x: "slot_turn hw w ts s = x\<lparr>ls_t := t'\<rparr>" "x = s1 \<or> (\<exists>nx. x = s1\<lparr>ls_next := nx\<rparr>)
      \<or> x = use_thread w ts s1 \<and> hw_fits hw w (th_node (ts ! ls_t s1)) \<and> (ws_ppn w \<noteq> 0 \<longrightarrow> ls_procs s1 (th_node (ts ! ls_t s1)) < ws_ppn w)"
    using slot_turn_cases [OF s g s1_def] f by metis
  then show ?thesis using s1 use_thread_sinv [OF s1 ok t] by auto
qed

lemma start_sinv: "sinv hw w ts (start_loop w ts c)"
  by (simp add: sinv_def start_loop_def procs_ok_def)

section \<open>Over-booking with a limit per node\<close>

lemma length_on_nodes: "finite F \<Longrightarrow> \<forall>sl \<in> set l. sl_node sl \<in> F \<Longrightarrow> length l = (\<Sum>n \<in> F. on_node l n)"
proof (induction l)
  case (Cons sl l)
  have "(\<Sum>n \<in> F. of_bool (sl_node sl = n)) = (1::nat)" using Cons.prems by simp
  then show ?case using Cons by (simp add: sum.distrib)
qed simp

lemma slots_within_limit:
  assumes s: "sinv hw w ts s" and p: "ws_ppn w \<noteq> 0"
  shows "length (ls_done s) \<le> unat (ws_ppn w) * card (fit_nodes hw w ts)"
proof -
  have f: "finite (fit_nodes hw w ts)" by (simp add: fit_nodes_def)
  have "length (ls_done s) = (\<Sum>n \<in> fit_nodes hw w ts. on_node (ls_done s) n)"
    using s by (intro length_on_nodes f) (auto simp: sinv_def)
  also have "\<dots> \<le> (\<Sum>n \<in> fit_nodes hw w ts. unat (ws_ppn w))"
    using s p by (intro sum_mono) (auto simp: sinv_def procs_ok_def word_le_nat_alt)
  finally show ?thesis by (simp add: mult.commute)
qed

lemma take_thread_exit [simp]: "ls_exit (take_thread w ts s) = ls_exit s" "ls_t (take_thread w ts s) = ls_t s"
  by (simp_all add: take_thread_def Let_def)

lemma overbook_turn:
  assumes s: "sinv hw w ts s" and g: "go_on w ts s" and ob: "opt_set PART_OPT_OVERBOOK w"
  shows "\<not> ls_exit (slot_turn hw w ts s)" "ls_t (slot_turn hw w ts s) < length ts"
proof -
  define s1 where "s1 = (if ls_t s = 0 then new_round w s else s)"
  have e: "\<not> ls_exit s1" using g ob by (simp add: s1_def new_round_def go_on_def Let_def)
  have s1: "sinv hw w ts s1" using s by (simp add: s1_def)
  have f: "ls_t s1 = ls_t s" by (simp add: s1_def new_round_def Let_def)
  have t: "ls_t s1 < length ts" using g f by (simp add: go_on_def)
  obtain use cur thr where u: "use_thread w ts s1 = take_thread w ts (s1\<lparr>ls_use := use, ls_cur := cur, ls_thrds := thr\<rparr>)"
    using use_thread_cases [OF s1 t] by metis
  obtain x t' where x: "slot_turn hw w ts s = x\<lparr>ls_t := t'\<rparr>" "t' = (ls_t s + 1) mod loop_mod w (length ts)"
    "(\<exists>nx. x = s1\<lparr>ls_next := nx\<rparr>) \<or> x = use_thread w ts s1"
    using slot_turn_cases [OF s g s1_def] e by metis
  show "\<not> ls_exit (slot_turn hw w ts s)" using x e u by auto
  have "(ls_t s + 1) mod length ts < length ts" by (rule mod_less_divisor) (use t in linarith)
  moreover have "loop_mod w (length ts) = length ts" using ob by (simp add: loop_mod_def)
  ultimately show "ls_t (slot_turn hw w ts s) < length ts" using x(1,2) by simp
qed

lemma overbook_for_ever:
  assumes ok: "ths_ok ts" and ne: "ts \<noteq> []" and ob: "opt_set PART_OPT_OVERBOOK w" and p: "ws_ppn w \<noteq> 0"
    and np: "unat (ws_ppn w) * card (fit_nodes hw w ts) < ws_np w" and f: "sc_first (scan_threads hw w ts) < length ts"
  shows "slots_loop hw w ts = None"
proof (rule ccontr)
  assume "slots_loop hw w ts \<noteq> None"
  then obtain s where s: "while_option (go_on w ts) (slot_turn hw w ts) (start_loop w ts (scan_threads hw w ts)) = Some s"
    by (auto simp: slots_loop_def not_None_eq)
  have "sinv hw w ts s \<and> ls_t s < length ts \<and> \<not> ls_exit s"
  proof (rule while_option_rule [OF _ s, where P = "\<lambda>s. sinv hw w ts s \<and> ls_t s < length ts \<and> \<not> ls_exit s"])
    fix s assume "sinv hw w ts s \<and> ls_t s < length ts \<and> \<not> ls_exit s" "go_on w ts s"
    then show "sinv hw w ts (slot_turn hw w ts s) \<and> ls_t (slot_turn hw w ts s) < length ts \<and> \<not> ls_exit (slot_turn hw w ts s)"
      using slot_turn_sinv [of hw w ts s] overbook_turn [of hw w ts s] ok ob by blast
  next
    show "sinv hw w ts (start_loop w ts (scan_threads hw w ts)) \<and> ls_t (start_loop w ts (scan_threads hw w ts)) < length ts
       \<and> \<not> ls_exit (start_loop w ts (scan_threads hw w ts))"
      using start_sinv f by (simp add: start_loop_def)
  qed
  moreover have "\<not> go_on w ts s" using while_option_stop [OF s] .
  ultimately show False using slots_within_limit [of hw w ts s] p np by (auto simp: go_on_def)
qed

lemma scan_first: "ts \<noteq> [] \<Longrightarrow> sc_first (scan_threads hw w ts) < length ts"
proof -
  assume ne: "ts \<noteq> []"
  have "sc_first (fold (scan_thread hw w ts) is c) < length ts" if "\<forall>i \<in> set is. i < length ts" "sc_first c < length ts" for "is" c
    using that by (induction "is" arbitrary: c) (auto simp: scan_thread_def Let_def)
  then show ?thesis using ne by (simp add: scan_threads_def Let_def)
qed

end
