(* ===== verification/Part_Fill.thy ===== *)
theory Part_Fill
  imports Part_Loop
begin

text \<open>
  What \<open>createSlots\<close> makes without over-booking: full slots of threads that nobody used, on one node each, and
  exact counts.
\<close>

declare not_None_eq [simp del]

section \<open>Threads as places\<close>

definition place :: "hwthread \<Rightarrow> nodeid \<times> nat" where
  "place th = (th_node th, th_id th)"

definition threads_ok :: "hwthread list \<Rightarrow> bool" where
  "threads_ok ts \<longleftrightarrow> distinct (map place ts) \<and> (\<forall>th \<in> set ts. th_id th < PSCPU_MAX \<and> 0 \<le> sint (th_used th))"

lemma threads_ok_ths: "threads_ok ts \<Longrightarrow> ths_ok ts"
  by (simp add: threads_ok_def ths_ok_def)

text \<open>The slots of a list that have a thread.\<close>

definition held :: "hwthread list \<Rightarrow> slot list \<Rightarrow> nat \<Rightarrow> nat" where
  "held ts l i = hold l (th_node (ts ! i)) (th_id (ts ! i))"

lemma held_simps [simp]: "held ts [] i = 0" "held ts (l @ k) i = held ts l i + held ts k i"
  "held ts (sl # l) i = of_bool (sl_node sl = th_node (ts ! i) \<and> th_id (ts ! i) \<in> cpus (sl_cpus sl)) + held ts l i"
  by (simp_all add: held_def)

lemma same_place:
  "threads_ok ts \<Longrightarrow> i < length ts \<Longrightarrow> j < length ts \<Longrightarrow> th_node (ts ! i) = th_node (ts ! j) \<Longrightarrow> th_id (ts ! i) = th_id (ts ! j) \<Longrightarrow> i = j"
  by (auto simp: threads_ok_def distinct_conv_nth place_def)

lemma in_cur_held: "cpu_wf (sl_cpus cur) \<Longrightarrow> in_cur ts cur i \<longleftrightarrow> held ts [cur] i = 1"
  by (simp add: in_cur_def isSet_has cpus_def)

lemma slot_places:
  assumes ok: "threads_ok ts" and cur: "cur_ok hw w ts cur"
  shows "card {i. i < length ts \<and> sl_node cur = th_node (ts ! i) \<and> th_id (ts ! i) \<in> cpus (sl_cpus cur)} = card (cpus (sl_cpus cur))"
proof (rule bij_betw_same_card [where f = "\<lambda>i. th_id (ts ! i)"], rule bij_betw_imageI)
  let ?I = "{i. i < length ts \<and> sl_node cur = th_node (ts ! i) \<and> th_id (ts ! i) \<in> cpus (sl_cpus cur)}"
  show "inj_on (\<lambda>i. th_id (ts ! i)) ?I" using same_place [OF ok] by (auto intro!: inj_onI)
  show "(\<lambda>i. th_id (ts ! i)) ` ?I = cpus (sl_cpus cur)" using cur by (force simp: cur_ok_def)
qed

lemma held_sum:
  assumes ok: "threads_ok ts"
  shows "\<forall>sl \<in> set l. cur_ok hw w ts sl \<Longrightarrow> (\<Sum>i < length ts. held ts l i) = sum_list (map (\<lambda>sl. card (cpus (sl_cpus sl))) l)"
proof (induction l)
  case (Cons sl l)
  have "(\<Sum>i < length ts. of_bool (sl_node sl = th_node (ts ! i) \<and> th_id (ts ! i) \<in> cpus (sl_cpus sl)) :: nat)
      = card {i. i < length ts \<and> sl_node sl = th_node (ts ! i) \<and> th_id (ts ! i) \<in> cpus (sl_cpus sl)}"
    by (simp add: lessThan_def Collect_conj_eq)
  then show ?case using Cons slot_places [OF ok, of hw w sl] by (simp add: sum.distrib)
qed simp

section \<open>Giving back\<close>

lemma put_back_use:
  assumes "distinct is" "length (filter (in_cur ts cur) is) \<le> num" "\<forall>i \<in> set is. i < length use" "j < length use"
  shows "fst (put_back ts cur is use num) ! j = use ! j - of_bool (j \<in> set is \<and> in_cur ts cur j)"
  using assms
proof (induction ts cur "is" use num rule: put_back.induct)
  case (2 ts cur i "is" use num)
  have e: "filter (in_cur ts cur) is = []" if "num = 0" using 2 that by (auto split: if_splits)
  show ?case
  proof (cases "num = 0")
    case True
    then have "filter (in_cur ts cur) (i # is) = []" using 2 by simp
    then have "\<not> (j \<in> set (i # is) \<and> in_cur ts cur j)" by (metis empty_filter_conv)
    then show ?thesis using True by simp
  next
    case False
    show ?thesis
    proof (cases "in_cur ts cur i")
      case True
      then have "put_back ts cur (i # is) use num = put_back ts cur is (use[i := use ! i - 1]) (num - 1)" using False by (simp add: in_cur_def)
      moreover have "fst (put_back ts cur is (use[i := use ! i - 1]) (num - 1)) ! j = (use[i := use ! i - 1]) ! j - of_bool (j \<in> set is \<and> in_cur ts cur j)"
        using 2 True False by (intro "2.IH"(1)) (auto simp: in_cur_def)
      ultimately show ?thesis using 2 True by (auto simp: nth_list_update)
    next
      case nc: False
      then have "put_back ts cur (i # is) use num = put_back ts cur is use num" using False by (auto simp: in_cur_def)
      moreover have "fst (put_back ts cur is use num) ! j = use ! j - of_bool (j \<in> set is \<and> in_cur ts cur j)"
        using 2 nc False by (intro "2.IH"(2)) (auto simp: in_cur_def)
      ultimately show ?thesis using nc by auto
    qed
  qed
qed simp

lemma match_exact:
  assumes ok: "threads_ok ts" and cur: "cur_ok hw w ts cur" and t: "t < length ts"
  shows "length (filter (in_cur ts cur) (back_order (length ts) t)) \<le> slot_count cur"
proof -
  let ?l = "filter (in_cur ts cur) (back_order (length ts) t)"
  have w: "cpu_wf (sl_cpus cur)" using cur by (simp add: cur_ok_def)
  have "length ?l = card (set ?l)" using back_order_distinct [OF t] by (metis distinct_card distinct_filter)
  also have "\<dots> \<le> card {i. i < length ts \<and> sl_node cur = th_node (ts ! i) \<and> th_id (ts ! i) \<in> cpus (sl_cpus cur)}"
    using t by (intro card_mono) (auto simp: in_cur_held [OF w] back_order_set)
  finally show ?thesis using slot_places [OF ok cur] slot_count_card [OF w] by simp
qed

section \<open>The invariant\<close>

definition slots_so_far :: "lstate \<Rightarrow> slot list" where
  "slots_so_far s = ls_done s @ (if ls_thrds s = 0 then [] else [ls_cur s])"

definition counted :: "hwthread list \<Rightarrow> lstate \<Rightarrow> bool" where
  "counted ts s \<longleftrightarrow> (\<forall>i < length ts. ls_use s ! i = th_used (ts ! i) + of_nat (held ts (slots_so_far s) i)
     \<and> held ts (slots_so_far s) i \<le> 1 \<and> (held ts (slots_so_far s) i = 1 \<longrightarrow> th_used (ts ! i) = 0))"

definition finv :: "(nodeid \<Rightarrow> uint32) \<Rightarrow> wish \<Rightarrow> hwthread list \<Rightarrow> lstate \<Rightarrow> bool" where
  "finv hw w ts s \<longleftrightarrow> sinv hw w ts s \<and> counted ts s \<and> (\<forall>sl \<in> set (ls_done s). card (cpus (sl_cpus sl)) = ws_tpp w)
     \<and> (ls_thrds s \<noteq> 0 \<longrightarrow> card (cpus (sl_cpus (ls_cur s))) = ls_thrds s)"

lemma unused:
  assumes ok: "threads_ok ts" and c: "counted ts s" and t: "t < length ts" and u: "sint (ls_use s ! t) \<le> 0"
  shows "held ts (slots_so_far s) t = 0" "th_used (ts ! t) = 0"
proof -
  have p: "0 \<le> sint (th_used (ts ! t))" using ok t by (simp add: threads_ok_def)
  show h: "held ts (slots_so_far s) t = 0"
  proof (rule ccontr)
    assume "held ts (slots_so_far s) t \<noteq> 0"
    then have "held ts (slots_so_far s) t = 1" "th_used (ts ! t) = 0" using c t by (auto simp: counted_def le_Suc_eq)
    then have "ls_use s ! t = 1" using c t by (simp add: counted_def)
    then show False using u by simp
  qed
  then have "ls_use s ! t = th_used (ts ! t)" using c t by (simp add: counted_def)
  then show "th_used (ts ! t) = 0" using u p by (metis antisym sint_0 signed_word_eqI)
qed

text \<open>The same counts for a list of slots; a slot that takes an unused thread keeps them.\<close>

definition counts :: "hwthread list \<Rightarrow> 16 word list \<Rightarrow> slot list \<Rightarrow> bool" where
  "counts ts use l \<longleftrightarrow> (\<forall>i < length ts. use ! i = th_used (ts ! i) + of_nat (held ts l i)
     \<and> held ts l i \<le> 1 \<and> (held ts l i = 1 \<longrightarrow> th_used (ts ! i) = 0))"

lemma counted_counts: "counted ts s = counts ts (ls_use s) (slots_so_far s)"
  by (simp add: counted_def counts_def)

lemma held_take:
  assumes ok: "threads_ok ts" and cur: "cpu_wf (sl_cpus cur)" and t: "t < length ts" and n: "sl_node cur = th_node (ts ! t)"
    and h: "held ts [cur] t = 0" and i: "i < length ts"
  shows "held ts [cur\<lparr>sl_cpus := PSCPU_setCPU (sl_cpus cur) (th_id (ts ! t))\<rparr>] i = held ts [cur] i + of_bool (i = t)"
proof -
  have id: "th_id (ts ! t) < PSCPU_MAX" using ok t by (simp add: threads_ok_def)
  have e: "cpus (PSCPU_setCPU (sl_cpus cur) (th_id (ts ! t))) = insert (th_id (ts ! t)) (cpus (sl_cpus cur))"
    using cpus_setCPU [OF cur, of "th_id (ts ! t)"] id by simp
  show ?thesis using h n same_place [OF ok i t] by (auto simp: e)
qed

lemma counts_take:
  assumes ok: "threads_ok ts" and c: "counts ts use (l @ [cur])" and cur: "cpu_wf (sl_cpus cur)" and t: "t < length ts"
    and n: "sl_node cur = th_node (ts ! t)" and h: "held ts (l @ [cur]) t = 0" and u: "th_used (ts ! t) = 0" and len: "length use = length ts"
  shows "counts ts (use[t := use ! t + 1]) (l @ [cur\<lparr>sl_cpus := PSCPU_setCPU (sl_cpus cur) (th_id (ts ! t))\<rparr>])"
    "card (cpus (PSCPU_setCPU (sl_cpus cur) (th_id (ts ! t)))) = card (cpus (sl_cpus cur)) + 1"
proof -
  let ?cur = "cur\<lparr>sl_cpus := PSCPU_setCPU (sl_cpus cur) (th_id (ts ! t))\<rparr>"
  have h0: "held ts [cur] t = 0" using h by simp
  have k: "held ts (l @ [?cur]) i = held ts (l @ [cur]) i + of_bool (i = t)" if "i < length ts" for i
    using held_take [OF ok cur t n h0 that] by simp
  show "counts ts (use[t := use ! t + 1]) (l @ [?cur])"
    unfolding counts_def
  proof (intro allI impI)
    fix i assume i: "i < length ts"
    have b: "use ! i = th_used (ts ! i) + of_nat (held ts (l @ [cur]) i)" "held ts (l @ [cur]) i \<le> 1"
      "held ts (l @ [cur]) i = 1 \<longrightarrow> th_used (ts ! i) = 0" using c i unfolding counts_def by blast+
    show "(use[t := use ! t + 1]) ! i = th_used (ts ! i) + of_nat (held ts (l @ [?cur]) i) \<and> held ts (l @ [?cur]) i \<le> 1
        \<and> (held ts (l @ [?cur]) i = 1 \<longrightarrow> th_used (ts ! i) = 0)"
    proof (cases "i = t")
      case True
      then show ?thesis unfolding k [OF i] using b h u i len by simp
    next
      case False
      then show ?thesis unfolding k [OF i] using b by (simp del: held_simps)
    qed
  qed
  have id: "th_id (ts ! t) < PSCPU_MAX" using ok t by (simp add: threads_ok_def)
  have "th_id (ts ! t) \<notin> cpus (sl_cpus cur)" using h0 n by auto
  then show "card (cpus (PSCPU_setCPU (sl_cpus cur) (th_id (ts ! t)))) = card (cpus (sl_cpus cur)) + 1"
    using cpus_setCPU [OF cur, of "th_id (ts ! t)"] id by simp
qed

lemma take_thread_finv:
  assumes ok: "threads_ok ts" and s: "sinv hw w ts s" and t: "ls_t s < length ts" and cur: "cur_ok hw w ts (ls_cur s)"
    and n: "sl_node (ls_cur s) = th_node (ts ! ls_t s)" and fit: "hw_fits hw w (th_node (ts ! ls_t s))"
    and ppn: "ws_ppn w \<noteq> 0 \<Longrightarrow> ls_procs s (th_node (ts ! ls_t s)) < ws_ppn w"
    and c: "counts ts (ls_use s) (ls_done s @ [ls_cur s])" and h: "held ts (ls_done s @ [ls_cur s]) (ls_t s) = 0" and u: "th_used (ts ! ls_t s) = 0"
    and d: "\<forall>sl \<in> set (ls_done s). card (cpus (sl_cpus sl)) = ws_tpp w" and k: "card (cpus (sl_cpus (ls_cur s))) = ls_thrds s"
  shows "finv hw w ts (take_thread w ts s)"
proof -
  let ?th = "ts ! ls_t s"
  let ?cur = "(ls_cur s)\<lparr>sl_cpus := PSCPU_setCPU (sl_cpus (ls_cur s)) (th_id ?th)\<rparr>"
  have w: "cpu_wf (sl_cpus (ls_cur s))" using cur by (simp add: cur_ok_def)
  have len: "length (ls_use s) = length ts" using s by (simp add: sinv_def)
  note ct = counts_take [OF ok c w t n h u len]
  have si: "sinv hw w ts (take_thread w ts s)"
    by (rule take_thread_sinv [OF s threads_ok_ths [OF ok] t cur n fit ppn])
  have us: "ls_use (take_thread w ts s) = (ls_use s)[ls_t s := ls_use s ! ls_t s + 1]" by (simp add: take_thread_def Let_def)
  have so: "slots_so_far (take_thread w ts s) = ls_done s @ [?cur]" by (simp add: slots_so_far_def take_thread_def Let_def)
  have "counted ts (take_thread w ts s)" using ct(1) unfolding counted_counts us so .
  moreover have "\<forall>sl \<in> set (ls_done (take_thread w ts s)). card (cpus (sl_cpus sl)) = ws_tpp w"
    using d ct(2) k by (auto simp: take_thread_def Let_def)
  moreover have "ls_thrds (take_thread w ts s) \<noteq> 0 \<longrightarrow> card (cpus (sl_cpus (ls_cur (take_thread w ts s)))) = ls_thrds (take_thread w ts s)"
    using ct(2) k by (simp add: take_thread_def Let_def)
  ultimately show ?thesis using si by (simp add: finv_def)
qed

lemma counts_zero: "counts ts use (l @ [\<lparr>sl_node = n, sl_cpus = zero_set\<rparr>]) = counts ts use l"
  by (simp add: counts_def)

lemma put_back_counts:
  assumes ok: "threads_ok ts" and c: "counts ts use (l @ [cur])" and cur: "cur_ok hw w ts cur" and t: "t < length ts"
    and n: "sl_node cur \<noteq> th_node (ts ! t)" and len: "length use = length ts"
  shows "counts ts (fst (put_back ts cur (back_order (length ts) t) use (slot_count cur))) l"
    "fst (put_back ts cur (back_order (length ts) t) use (slot_count cur)) ! t = use ! t"
proof -
  have w: "cpu_wf (sl_cpus cur)" using cur by (simp add: cur_ok_def)
  let ?u = "fst (put_back ts cur (back_order (length ts) t) use (slot_count cur))"
  have p: "?u ! i = use ! i - of_bool (i \<in> set (back_order (length ts) t) \<and> in_cur ts cur i)" if "i < length ts" for i
    using that len t by (intro put_back_use [OF back_order_distinct [OF t] match_exact [OF ok cur t]]) (auto simp: back_order_set)
  have q: "?u ! i = use ! i - of_nat (held ts [cur] i)" if "i < length ts" for i
  proof -
    have "i \<in> set (back_order (length ts) t) \<and> in_cur ts cur i \<longleftrightarrow> held ts [cur] i = 1"
      using that n t by (auto simp: back_order_set in_cur_held [OF w])
    then show ?thesis using p [OF that] by (cases "held ts [cur] i = 1") auto
  qed
  show "counts ts ?u l"
    unfolding counts_def
  proof (intro allI impI)
    fix i assume i: "i < length ts"
    have b: "use ! i = th_used (ts ! i) + of_nat (held ts l i + held ts [cur] i)" "held ts l i + held ts [cur] i \<le> 1"
      "held ts l i + held ts [cur] i = 1 \<longrightarrow> th_used (ts ! i) = 0" using c i unfolding counts_def held_simps(2) by blast+
    then show "?u ! i = th_used (ts ! i) + of_nat (held ts l i) \<and> held ts l i \<le> 1 \<and> (held ts l i = 1 \<longrightarrow> th_used (ts ! i) = 0)"
      unfolding q [OF i] by (simp del: held_simps)
  qed
  show "?u ! t = use ! t" using q [OF t] n by simp
qed

lemma use_thread_finv:
  assumes ok: "threads_ok ts" and f: "finv hw w ts s" and t: "ls_t s < length ts" and fit: "hw_fits hw w (th_node (ts ! ls_t s))"
    and ppn: "ws_ppn w \<noteq> 0 \<Longrightarrow> ls_procs s (th_node (ts ! ls_t s)) < ws_ppn w" and u: "sint (ls_use s ! ls_t s) \<le> 0"
  shows "finv hw w ts (use_thread w ts s)"
proof -
  have s: "sinv hw w ts s" and c: "counted ts s" and d: "\<forall>sl \<in> set (ls_done s). card (cpus (sl_cpus sl)) = ws_tpp w"
    and k: "ls_thrds s \<noteq> 0 \<longrightarrow> card (cpus (sl_cpus (ls_cur s))) = ls_thrds s" using f by (simp_all add: finv_def)
  note un = unused [OF ok c t u]
  obtain use cur thr where x: "use_thread w ts s = take_thread w ts (s\<lparr>ls_use := use, ls_cur := cur, ls_thrds := thr\<rparr>)"
    "length use = length ts" "cur_ok hw w ts cur" "sl_node cur = th_node (ts ! ls_t s)"
    "thr \<noteq> 0 \<and> cur = ls_cur s \<and> use = ls_use s \<and> thr = ls_thrds s
       \<or> thr = 0 \<and> cur = \<lparr>sl_node = th_node (ts ! ls_t s), sl_cpus = zero_set\<rparr> \<and> use = ls_use s \<and> ls_thrds s = 0
       \<or> thr = 0 \<and> cur = \<lparr>sl_node = th_node (ts ! ls_t s), sl_cpus = zero_set\<rparr> \<and> ls_thrds s \<noteq> 0 \<and> sl_node (ls_cur s) \<noteq> th_node (ts ! ls_t s)
         \<and> use = fst (put_back ts (ls_cur s) (back_order (length ts) (ls_t s)) (ls_use s) (slot_count (ls_cur s)))"
    using use_thread_cases [OF s t] by metis
  let ?s = "s\<lparr>ls_use := use, ls_cur := cur, ls_thrds := thr\<rparr>"
  have si: "sinv hw w ts ?s" using s x by (simp add: sinv_def procs_ok_def)
  have "counts ts use (ls_done s @ [cur]) \<and> held ts (ls_done s @ [cur]) (ls_t s) = 0 \<and> card (cpus (sl_cpus cur)) = thr"
    using x(5)
  proof (elim disjE conjE)
    assume "thr \<noteq> 0" "cur = ls_cur s" "use = ls_use s" "thr = ls_thrds s"
    then show ?thesis using c un(1) k by (simp add: counted_counts slots_so_far_def)
  next
    assume "thr = 0" "cur = \<lparr>sl_node = th_node (ts ! ls_t s), sl_cpus = zero_set\<rparr>" "use = ls_use s" "ls_thrds s = 0"
    then show ?thesis using c un(1) by (simp add: counted_counts slots_so_far_def counts_zero)
  next
    assume a: "thr = 0" "cur = \<lparr>sl_node = th_node (ts ! ls_t s), sl_cpus = zero_set\<rparr>" "ls_thrds s \<noteq> 0"
      "sl_node (ls_cur s) \<noteq> th_node (ts ! ls_t s)"
      "use = fst (put_back ts (ls_cur s) (back_order (length ts) (ls_t s)) (ls_use s) (slot_count (ls_cur s)))"
    have c': "counts ts (ls_use s) (ls_done s @ [ls_cur s])" and h': "held ts (ls_done s) (ls_t s) = 0"
      using c un(1) a(3) by (simp_all add: counted_counts slots_so_far_def)
    have cu: "cur_ok hw w ts (ls_cur s)" and len: "length (ls_use s) = length ts" using s a(3) by (simp_all add: sinv_def)
    show ?thesis using put_back_counts(1) [OF ok c' cu t a(4) len] h' a(1,2,5) by (simp add: counts_zero)
  qed
  then show ?thesis unfolding x(1) by (intro take_thread_finv [OF ok si]) (use t x fit ppn un d in simp_all)
qed

text \<open>
  The slots of a job as a whole: what \<open>createSlots\<close>

returns, that \<open>releaseThreads\<close> undoes it, and that asking
  again for what was possible succeeds.
\<close>

declare not_None_eq [simp del]

section \<open>The loop\<close>

definition linv :: "(nodeid \<Rightarrow> uint32) \<Rightarrow> wish \<Rightarrow> hwthread list \<Rightarrow> lstate \<Rightarrow> bool" where
  "linv hw w ts s \<longleftrightarrow> finv hw w ts s \<and> (ls_exit s \<or> ls_min s = 0)
     \<and> (\<not> opt_set PART_OPT_NODEFIRST w \<and> ls_t s = 0 \<longrightarrow> ls_next s = 0)
     \<and> length (ls_done s) \<le> ws_np w \<and> (length (ls_done s) = ws_np w \<longrightarrow> ls_thrds s = 0 \<and> \<not> ls_exit s)"

lemma finv_fields [simp]: "finv hw w ts (s\<lparr>ls_t := t\<rparr>) = finv hw w ts s" "finv hw w ts (s\<lparr>ls_next := x\<rparr>) = finv hw w ts s"
  "finv hw w ts (new_round w' s) = finv hw w ts s"
  by (simp_all add: finv_def counted_def slots_so_far_def) (simp_all add: new_round_def Let_def)

lemma take_thread_done: "ls_done (take_thread w ts s) = ls_done s \<or> length (ls_done (take_thread w ts s)) = length (ls_done s) + 1 \<and> ls_thrds (take_thread w ts s) = 0"
  "ls_min (take_thread w ts s) = ls_min s"
  by (simp_all add: take_thread_def Let_def)

lemma slot_turn_linv:
  assumes ok: "threads_ok ts" and ob: "\<not> opt_set PART_OPT_OVERBOOK w" and l: "linv hw w ts s" and g: "go_on w ts s"
  shows "linv hw w ts (slot_turn hw w ts s)"
proof -
  define s1 where "s1 = (if ls_t s = 0 then new_round w s else s)"
  have t: "ls_t s < length ts" "length (ls_done s) < ws_np w" "\<not> ls_exit s" using g by (simp_all add: go_on_def)
  have f1: "finv hw w ts s1" using l by (simp add: s1_def linv_def)
  have e1: "ls_t s1 = ls_t s" "ls_done s1 = ls_done s" "ls_use s1 = ls_use s" "ls_procs s1 = ls_procs s" by (simp_all add: s1_def new_round_def Let_def)
  have m1: "ls_exit s1 \<or> ls_min s1 = 0"
    using l t ob by (auto simp: s1_def new_round_def linv_def Let_def)
  have s: "sinv hw w ts s" and s1': "sinv hw w ts s1" using l f1 by (simp_all add: linv_def finv_def)
  have t1: "ls_t s1 < length ts" using t e1 by simp
  obtain x t' where x: "slot_turn hw w ts s = x\<lparr>ls_t := t'\<rparr>" "t' = (ls_t s + 1) mod loop_mod w (length ts)"
     "ls_exit s1 \<and> x = s1
      \<or> \<not> ls_exit s1 \<and> (\<exists>nx. x = s1\<lparr>ls_next := nx\<rparr>)
      \<or> \<not> ls_exit s1 \<and> x = use_thread w ts s1 \<and> sint (ls_use s ! ls_t s) \<le> sint (ls_min s1) \<and> hw_fits hw w (th_node (ts ! ls_t s))
         \<and> (ws_ppn w \<noteq> 0 \<longrightarrow> ls_procs s (th_node (ts ! ls_t s)) < ws_ppn w)"
    using slot_turn_cases [OF s g s1_def] by metis
  have nz: "\<not> opt_set PART_OPT_NODEFIRST w \<Longrightarrow> t' \<noteq> 0" using x(2) ob t by (simp add: loop_mod_def)
  have "finv hw w ts x \<and> (ls_exit x \<or> ls_min x = 0) \<and> length (ls_done x) \<le> ws_np w
      \<and> (length (ls_done x) = ws_np w \<longrightarrow> ls_thrds x = 0 \<and> \<not> ls_exit x)"
    using x(3)
  proof (elim disjE conjE exE)
    assume "ls_exit s1" "x = s1"
    then show ?thesis using f1 e1 t by simp
  next
    fix nx assume "\<not> ls_exit s1" "x = s1\<lparr>ls_next := nx\<rparr>"
    then show ?thesis using f1 e1 t m1 by simp
  next
    assume a: "\<not> ls_exit s1" "x = use_thread w ts s1" "sint (ls_use s ! ls_t s) \<le> sint (ls_min s1)" "hw_fits hw w (th_node (ts ! ls_t s))"
      "ws_ppn w \<noteq> 0 \<longrightarrow> ls_procs s (th_node (ts ! ls_t s)) < ws_ppn w"
    then have "finv hw w ts x" using m1 e1 by (simp, intro use_thread_finv [OF ok f1 t1]) simp_all
    moreover obtain use cur thr where u: "use_thread w ts s1 = take_thread w ts (s1\<lparr>ls_use := use, ls_cur := cur, ls_thrds := thr\<rparr>)"
      using use_thread_cases [OF s1' t1] by metis
    moreover have "ls_done x = ls_done s1 \<or> length (ls_done x) = length (ls_done s1) + 1 \<and> ls_thrds x = 0" "ls_min x = ls_min s1" "ls_exit x = ls_exit s1"
      using take_thread_done [of w ts "s1\<lparr>ls_use := use, ls_cur := cur, ls_thrds := thr\<rparr>"] a(2) u by simp_all
    ultimately show ?thesis using m1 a(1) e1 t by auto
  qed
  then show ?thesis using nz unfolding linv_def x(1) by auto
qed

lemma start_linv:
  assumes c: "sc_min c = 0" shows "linv hw w ts (start_loop w ts c)"
proof -
  have "counted ts (start_loop w ts c)" by (simp add: counted_def slots_so_far_def start_loop_def)
  then have "finv hw w ts (start_loop w ts c)" using start_sinv by (simp add: finv_def) (simp add: start_loop_def)
  then show ?thesis using c by (simp add: linv_def) (simp add: start_loop_def)
qed

lemma slots_loop_linv:
  assumes ok: "threads_ok ts" and ob: "\<not> opt_set PART_OPT_OVERBOOK w" and c: "sc_min (scan_threads hw w ts) = 0" and s: "slots_loop hw w ts = Some s"
  shows "linv hw w ts s"
  by (rule while_option_rule [OF _ s [unfolded slots_loop_def], where P = "linv hw w ts"])
    (use slot_turn_linv [OF ok ob] start_linv [OF c] in auto)

section \<open>What is created\<close>

text \<open>Slots of a job: full, of its threads on fitting nodes, none used before and none twice.\<close>

definition good_for :: "(nodeid \<Rightarrow> uint32) \<Rightarrow> wish \<Rightarrow> hwthread list \<Rightarrow> slot list \<Rightarrow> bool" where
  "good_for hw w ts l \<longleftrightarrow> (\<forall>sl \<in> set l. cur_ok hw w ts sl \<and> card (cpus (sl_cpus sl)) = ws_tpp w)
     \<and> (\<forall>i < length ts. held ts l i \<le> 1 \<and> (held ts l i = 1 \<longrightarrow> th_used (ts ! i) = 0))
     \<and> (ws_ppn w \<noteq> 0 \<longrightarrow> (\<forall>n. on_node l n \<le> unat (ws_ppn w)))"

text \<open>The threads once the slots are in use.\<close>

definition used_by :: "slot list \<Rightarrow> hwthread list \<Rightarrow> hwthread list" where
  "used_by l ts = map (\<lambda>th. th\<lparr>th_used := th_used th + of_nat (hold l (th_node th) (th_id th))\<rparr>) ts"

lemma linv_good:
  assumes "linv hw w ts s" shows "good_for hw w ts (ls_done s)"
proof -
  have s: "sinv hw w ts s" and c: "counted ts s" and d: "\<forall>sl \<in> set (ls_done s). card (cpus (sl_cpus sl)) = ws_tpp w"
    using assms by (simp_all add: linv_def finv_def)
  have "held ts (ls_done s) i \<le> 1 \<and> (held ts (ls_done s) i = 1 \<longrightarrow> th_used (ts ! i) = 0)" if "i < length ts" for i
  proof -
    have "held ts (ls_done s) i \<le> held ts (slots_so_far s) i" by (simp add: slots_so_far_def)
    then show ?thesis using c that by (metis counted_def le_antisym le_trans)
  qed
  then show ?thesis using s d by (auto simp: good_for_def sinv_def procs_ok_def word_le_nat_alt)
qed

lemma linv_use:
  assumes "linv hw w ts s" "ls_thrds s = 0" shows "ls_use s = map th_used (used_by (ls_done s) ts)"
proof -
  have "length (ls_use s) = length ts" "counted ts s" using assms(1) by (simp_all add: linv_def finv_def sinv_def)
  then show ?thesis using assms(2) by (intro nth_equalityI) (auto simp: counted_def slots_so_far_def used_by_def held_def)
qed

section \<open>The result\<close>

lemma commit_threads: "map2 (\<lambda>th u. th\<lparr>th_used := u\<rparr>) ts (map th_used (used_by l ts)) = used_by l ts"
  by (induction ts) (simp_all add: used_by_def)

lemma good_total:
  assumes ok: "threads_ok ts" and g: "good_for hw w ts l"
  shows "sum_list (map (\<lambda>sl. card (cpus (sl_cpus sl))) l) = length l * ws_tpp w" "(\<Sum>i < length ts. held ts l i) = length l * ws_tpp w"
proof -
  have "map (\<lambda>sl. card (cpus (sl_cpus sl))) l = map (\<lambda>sl. ws_tpp w) l" using g by (simp add: good_for_def)
  then show e: "sum_list (map (\<lambda>sl. card (cpus (sl_cpus sl))) l) = length l * ws_tpp w" by (simp only: sum_list_triv of_nat_id)
  show "(\<Sum>i < length ts. held ts l i) = length l * ws_tpp w"
    using held_sum [OF ok, of l hw w] g e by (simp add: good_for_def)
qed

lemma used_by_nth: "i < length ts \<Longrightarrow> th_used (used_by l ts ! i) = th_used (ts ! i) + of_nat (held ts l i)"
  by (simp add: used_by_def held_def)

lemma commit_count:
  assumes ok: "threads_ok ts" and g: "good_for hw w ts l"
  shows "sum_list (map2 (\<lambda>th u. sint u - sint (th_used th)) ts (map th_used (used_by l ts))) = int (length l * ws_tpp w)"
proof -
  have len: "length (used_by l ts) = length ts" by (simp add: used_by_def)
  have d: "sint (th_used (used_by l ts ! i)) - sint (th_used (ts ! i)) = int (held ts l i)" if "i < length ts" for i
  proof -
    have "held ts l i = 0 \<or> held ts l i = 1 \<and> th_used (ts ! i) = 0" using g that by (fastforce simp: good_for_def le_Suc_eq)
    then show ?thesis using used_by_nth [OF that] by auto
  qed
  have "sum_list (map2 (\<lambda>th u. sint u - sint (th_used th)) ts (map th_used (used_by l ts))) = (\<Sum>i < length ts. int (held ts l i))"
    using d len by (simp add: sum_list_sum_nth atLeast0LessThan)
  then show ?thesis using good_total(2) [OF ok g] by (metis of_nat_sum)
qed

lemma commit_good:
  "threads_ok (jb_threads jb) \<Longrightarrow> good_for hw w (jb_threads jb) l \<Longrightarrow>
   commit (map th_used (used_by l (jb_threads jb))) jb
     = jb\<lparr>jb_threads := used_by l (jb_threads jb), jb_usedThreads := jb_usedThreads jb + of_nat (length l * ws_tpp w)\<rparr>"
  unfolding commit_def commit_threads by (simp add: commit_count)

text \<open>Without over-booking the call returns, and it returns good slots.\<close>

lemma createSlots_result:
  assumes ok: "threads_ok (jb_threads jb)" and ob: "\<not> opt_set PART_OPT_OVERBOOK w"
  obtains l where "good_for hw w (jb_threads jb) l" "length l \<le> ws_np w"
    "createSlots mem hw w dry jb = Some (l,
       if dry \<or> length l \<noteq> ws_np w then jb
       else jb\<lparr>jb_threads := used_by l (jb_threads jb), jb_usedThreads := jb_usedThreads jb + of_nat (ws_np w * ws_tpp w)\<rparr>)"
proof -
  let ?ts = "jb_threads jb"
  have e: "good_for hw w ?ts []" by (simp add: good_for_def)
  have u: "used_by [] ?ts = ?ts" by (simp add: used_by_def)
  define c where "c = scan_threads hw w ?ts"
  show thesis
  proof (cases "\<not> mem \<or> sc_min c \<noteq> 0 \<or> ws_tpp w > sc_maxTPP c")
    case True
    then have "createSlots mem hw w dry jb = Some ([], jb)" using ob by (auto simp: createSlots_def c_def Let_def)
    then show thesis using that [OF e] u by simp
  next
    case False
    obtain s where s: "slots_loop hw w ?ts = Some s" using slots_loop_ends [OF ob] by blast
    have i: "linv hw w ?ts s" using False by (intro slots_loop_linv [OF ok ob _ s]) (simp add: c_def)
    note g = linv_good [OF i]
    have l: "length (ls_done s) \<le> ws_np w" using i by (simp add: linv_def)
    have x: "\<not> ls_exit s \<and> commit (ls_use s) jb = jb\<lparr>jb_threads := used_by (ls_done s) ?ts,
        jb_usedThreads := jb_usedThreads jb + of_nat (ws_np w * ws_tpp w)\<rparr>" if "length (ls_done s) = ws_np w"
    proof -
      have "ls_thrds s = 0" "\<not> ls_exit s" using i that by (simp_all add: linv_def)
      then show ?thesis using linv_use [OF i] commit_good [OF ok g] that by simp
    qed
    have "createSlots mem hw w dry jb = Some (ls_done s, if \<not> dry \<and> \<not> ls_exit s \<and> length (ls_done s) = ws_np w then commit (ls_use s) jb else jb)"
      using False s ob by (simp add: createSlots_def c_def [symmetric] Let_def)
    then show thesis using that [OF g l] x by (cases "length (ls_done s) = ws_np w") auto
  qed
qed

end
