(* ===== verification/Part_Release.thy ===== *)
theory Part_Release
  imports Part_Fill
begin

text \<open>
  Releasing (\<open>releaseThreads\<close>): every thread loses as many uses as the slots hold of it, and the number that
  is returned is the number of CPUs of the slots; so releasing is the inverse of creating.
\<close>

section \<open>One thread\<close>

definition wf_slots :: "slot list \<Rightarrow> bool" where
  "wf_slots l \<longleftrightarrow> (\<forall>sl \<in> set l. cpu_wf (sl_cpus sl))"

text \<open>The slots without a thread.\<close>

definition without :: "hwthread \<Rightarrow> slot list \<Rightarrow> slot list" where
  "without th = map (\<lambda>sl. if sl_node sl = th_node th \<and> PSCPU_isSet (sl_cpus sl) (th_id th)
     then sl\<lparr>sl_cpus := PSCPU_clrCPU (sl_cpus sl) (th_id th)\<rparr> else sl)"

definition held_of :: "slot list \<Rightarrow> hwthread \<Rightarrow> nat" where
  "held_of l th = hold l (th_node th) (th_id th)"

lemma sint_dec: "0 < sint (u :: 16 word) \<Longrightarrow> sint (u - 1) = sint u - 1"
proof -
  assume u: "0 < sint u"
  have "sint u < 2 ^ 15" using sint_lt [of u] by simp
  then show ?thesis using u by (simp add: sint_word_ariths signed_take_bit_int_eq_self)
qed

lemma rel_slots_exact:
  "wf_slots l \<Longrightarrow> int (held_of l th) \<le> sint (th_used th) \<Longrightarrow> held_of l th \<le> num \<Longrightarrow>
   rel_slots th l tot num = (th\<lparr>th_used := th_used th - of_nat (held_of l th)\<rparr>, without th l, tot, num - held_of l th)"
proof (induction th l tot num rule: rel_slots.induct)
  case (1 th tot num)
  then show ?case by (simp add: held_of_def without_def)
next
  case (2 th sl l tot num)
  have w: "cpu_wf (sl_cpus sl)" "wf_slots l" using 2 by (simp_all add: wf_slots_def)
  have i: "PSCPU_isSet (sl_cpus sl) (th_id th) \<longleftrightarrow> th_id th \<in> cpus (sl_cpus sl)" using w(1) by (simp add: isSet_has cpus_def)
  show ?case
  proof (cases "sl_node sl \<noteq> th_node th \<or> \<not> PSCPU_isSet (sl_cpus sl) (th_id th)")
    case True
    then have "held_of (sl # l) th = held_of l th" by (auto simp: held_of_def i)
    then show ?thesis using "2.IH"(1) [OF True w(2)] "2.prems" True by (auto simp: without_def)
  next
    case False
    then have h: "held_of (sl # l) th = held_of l th + 1" by (auto simp: held_of_def i)
    then have u: "sint (th_used th - 1) = sint (th_used th) - 1" using 2 by (intro sint_dec) simp
    have e: "held_of l (th\<lparr>th_used := th_used th - 1\<rparr>) = held_of l th" "without (th\<lparr>th_used := th_used th - 1\<rparr>) l = without th l"
      by (simp_all add: held_of_def without_def)
    have nn: "\<not> sint (th_used th - 1) < 0" using u h 2 by simp
    have "rel_slots (th\<lparr>th_used := th_used th - 1\<rparr>) l tot (num - 1)
        = (th\<lparr>th_used := th_used th - 1 - of_nat (held_of l th)\<rparr>, without th l, tot, num - 1 - held_of l th)"
      using "2.IH"(2) [OF False refl, of "(th\<lparr>th_used := th_used th - 1\<rparr>, tot)", OF _ refl w(2)] "2.prems" h u e nn by simp
    then show ?thesis using False nn h by (simp add: Let_def without_def algebra_simps)
  qed
qed

section \<open>All threads\<close>

lemma without_wf [simp]: "wf_slots l \<Longrightarrow> wf_slots (without th l)"
  by (auto simp: wf_slots_def without_def)

lemma held_without: "wf_slots l \<Longrightarrow> held_of (without th l) th' = (if place th' = place th then 0 else held_of l th')"
  by (induction l) (auto simp: wf_slots_def without_def held_of_def place_def isSet_has cpus_clrCPU, auto simp: cpus_def)

definition minus_held :: "slot list \<Rightarrow> hwthread list \<Rightarrow> hwthread list" where
  "minus_held l ts = map (\<lambda>th. th\<lparr>th_used := th_used th - of_nat (held_of l th)\<rparr>) ts"

lemma minus_none: "\<forall>th \<in> set ts. held_of l th = 0 \<Longrightarrow> minus_held l ts = ts"
  by (simp add: minus_held_def map_idI)

lemma rel_threads_exact:
  "wf_slots l \<Longrightarrow> distinct (map place ts) \<Longrightarrow> \<forall>th \<in> set ts. int (held_of l th) \<le> sint (th_used th) \<Longrightarrow>
   num = (\<Sum>th \<leftarrow> ts. held_of l th) \<Longrightarrow> \<exists>l'. rel_threads ts l tot num = (minus_held l ts, l', tot, 0)"
proof (induction ts arbitrary: l num)
  case (Cons th ts)
  show ?case
  proof (cases "num = 0")
    case True
    then have "\<forall>th \<in> set (th # ts). held_of l th = 0" using Cons.prems(4) by (simp add: sum_list_nonneg_eq_0_iff)
    then show ?thesis using True by (metis minus_none rel_threads.simps(2))
  next
    case False
    have h: "held_of l th \<le> num" "int (held_of l th) \<le> sint (th_used th)" using Cons.prems by simp_all
    have o: "\<forall>t \<in> set ts. held_of (without th l) t = held_of l t"
      using held_without [OF Cons.prems(1)] Cons.prems(2) by (auto simp: image_iff)
    then have s: "num - held_of l th = (\<Sum>t \<leftarrow> ts. held_of (without th l) t)" "minus_held (without th l) ts = minus_held l ts"
      using Cons.prems(4) by (simp_all add: minus_held_def cong: map_cong)
    have "\<exists>l'. rel_threads ts (without th l) tot (num - held_of l th) = (minus_held (without th l) ts, l', tot, 0)"
      using Cons.prems o s(1) by (intro Cons.IH) simp_all
    then show ?thesis using False rel_slots_exact [OF Cons.prems(1) h(2,1), of tot] s(2) by (auto simp: minus_held_def)
  qed
qed (simp add: minus_held_def)

lemma releaseThreads_exact:
  assumes "wf_slots l" "threads_ok (jb_threads jb)" "\<forall>th \<in> set (jb_threads jb). int (held_of l th) \<le> sint (th_used th)"
    and k: "(\<Sum>th \<leftarrow> jb_threads jb. held_of l th) = sum_list (map slot_count l)"
  obtains l' where "releaseThreads l jb = (sum_list (map slot_count l), l', jb\<lparr>jb_threads := minus_held l (jb_threads jb)\<rparr>)"
proof (cases "l = [] \<or> jb_threads jb = []")
  case True
  then have "sum_list (map slot_count l) = 0" using k by auto
  moreover have "minus_held l (jb_threads jb) = jb_threads jb" using True by (auto simp: minus_held_def held_of_def)
  ultimately show thesis using that [of l] True by (simp add: releaseThreads_def)
next
  case False
  obtain l' where "rel_threads (jb_threads jb) l (sum_list (map slot_count l)) (sum_list (map slot_count l))
      = (minus_held l (jb_threads jb), l', sum_list (map slot_count l), 0)"
    using rel_threads_exact [OF assms(1) _ assms(3) k [symmetric]] assms(2) by (auto simp: threads_ok_def)
  then show thesis using that [of l'] False by (simp add: releaseThreads_def)
qed

section \<open>Releasing what was created\<close>

lemma held_held_of: "held ts l i = held_of l (ts ! i)"
  by (simp add: held_def held_of_def)

lemma used_by_held: "used_by l ts = map (\<lambda>th. th\<lparr>th_used := th_used th + of_nat (held_of l th)\<rparr>) ts"
  by (simp add: used_by_def held_of_def)

lemma minus_used: "minus_held l (used_by l ts) = ts"
  by (simp add: minus_held_def used_by_held map_idI held_of_def)

lemma release_created:
  assumes ok: "threads_ok (jb_threads jb)" and g: "good_for hw w (jb_threads jb) l"
  obtains l' where "releaseThreads l (jb\<lparr>jb_threads := used_by l (jb_threads jb)\<rparr>) = (length l * ws_tpp w, l', jb)"
proof -
  let ?ts = "jb_threads jb"
  let ?us = "used_by l ?ts"
  have h: "held_of l th \<le> 1 \<and> (held_of l th = 1 \<longrightarrow> th_used th = 0)" if "th \<in> set ?ts" for th
    using g that by (auto simp: good_for_def held_held_of in_set_conv_nth)
  have w: "wf_slots l" using g by (simp add: good_for_def cur_ok_def wf_slots_def)
  have p: "map place ?us = map place ?ts" "map (held_of l) ?us = map (held_of l) ?ts"
    by (simp_all add: used_by_held place_def held_of_def)
  have b: "0 \<le> sint (th_used th + of_nat (held_of l th)) \<and> int (held_of l th) \<le> sint (th_used th + of_nat (held_of l th))"
    if "th \<in> set ?ts" for th
  proof -
    have "held_of l th = 0 \<or> held_of l th = 1 \<and> th_used th = 0" using h [OF that] by auto
    moreover have "0 \<le> sint (th_used th)" using ok that by (simp add: threads_ok_def)
    ultimately show ?thesis by auto
  qed
  have us: "threads_ok ?us" "\<forall>th \<in> set ?us. int (held_of l th) \<le> sint (th_used th)"
    using ok b p(1) by (auto simp: threads_ok_def) (auto simp: used_by_held held_of_def)
  have c: "sum_list (map slot_count l) = length l * ws_tpp w"
    using good_total(1) [OF ok g] w by (simp add: wf_slots_def slot_count_card cong: map_cong)
  have "(\<Sum>th \<leftarrow> ?us. held_of l th) = (\<Sum>i < length ?ts. held ?ts l i)"
    unfolding p(2) by (simp add: sum_list_sum_nth atLeast0LessThan held_held_of)
  then have k: "(\<Sum>th \<leftarrow> ?us. held_of l th) = sum_list (map slot_count l)" using good_total(2) [OF ok g] c by simp
  obtain l' where "releaseThreads l (jb\<lparr>jb_threads := ?us\<rparr>) = (sum_list (map slot_count l), l', jb\<lparr>jb_threads := minus_held l ?us\<rparr>)"
    using releaseThreads_exact [OF w, of "jb\<lparr>jb_threads := ?us\<rparr>"] us k by auto
  then show thesis using that c by (simp add: minus_used)
qed

text \<open>
  Asking again: a call of \<open>createSlots\<close>

for the number of slots that the last call returned gives the same
  slots, and all that were asked for.
\<close>

declare not_None_eq [simp del]

text \<open>The number of slots that are asked for matters for the end of the loop only.\<close>

lemma np_matters [simp]:
  "opt_set f (w\<lparr>ws_np := k\<rparr>) = opt_set f w" "hw_fits hw (w\<lparr>ws_np := k\<rparr>) = hw_fits hw w"
  by (simp_all add: opt_set_def hw_fits_def fun_eq_iff)

lemma np_scan [simp]: "scan_threads hw (w\<lparr>ws_np := k\<rparr>) ts = scan_threads hw w ts"
  by (simp add: scan_threads_def scan_thread_def [abs_def])

lemma np_start [simp]: "start_loop (w\<lparr>ws_np := k\<rparr>) ts c = start_loop w ts c"
  by (simp add: start_loop_def)

lemma np_turn [simp]: "slot_turn hw (w\<lparr>ws_np := k\<rparr>) ts = slot_turn hw w ts"
proof
  fix s
  have n: "new_round (w\<lparr>ws_np := k\<rparr>) x = new_round w x" for x by (simp add: new_round_def Let_def)
  have k: "take_thread (w\<lparr>ws_np := k\<rparr>) ts x = take_thread w ts x" for x by (simp add: take_thread_def Let_def)
  have u: "use_thread (w\<lparr>ws_np := k\<rparr>) ts x = use_thread w ts x" for x by (simp add: use_thread_def k Let_def split: prod.split)
  have y: "try_thread hw (w\<lparr>ws_np := k\<rparr>) ts x = try_thread hw w ts x" for x by (simp add: try_thread_def u Let_def)
  show "slot_turn hw (w\<lparr>ws_np := k\<rparr>) ts s = slot_turn hw w ts s" by (simp add: slot_turn_def loop_mod_def n y Let_def)
qed

lemma use_thread_done: "\<exists>ys. ls_done (use_thread w ts s) = ls_done s @ ys"
  by (auto simp: use_thread_def take_thread_def Let_def split: prod.split)

lemma slot_turn_done: "\<exists>ys. ls_done (slot_turn hw w ts s) = ls_done s @ ys"
proof -
  have n: "ls_done (new_round w s) = ls_done s" by (simp add: new_round_def Let_def)
  have t: "\<exists>ys. ls_done (try_thread hw w ts s) = ls_done s @ ys" for s
    using use_thread_done [of w ts s] by (simp add: try_thread_def Let_def)
  show ?thesis using t [of s] t [of "new_round w s"] by (auto simp: slot_turn_def Let_def n)
qed

lemma same_slots:
  assumes r: "slots_loop hw w ts = Some s" and k: "length (ls_done s) \<le> ws_np w"
  obtains s' where "slots_loop hw (w\<lparr>ws_np := length (ls_done s)\<rparr>) ts = Some s'" "ls_done s' = ls_done s"
proof -
  let ?k = "length (ls_done s)"
  let ?f = "slot_turn hw w ts"
  let ?c = "go_on w ts"
  let ?d = "go_on (w\<lparr>ws_np := ?k\<rparr>) ts"
  let ?s0 = "start_loop w ts (scan_threads hw w ts)"
  let ?P = "\<lambda>s. while_option ?d ?f ?s0 = while_option ?d ?f s
    \<or> (\<exists>s1 ys. while_option ?d ?f ?s0 = Some s1 \<and> ?k \<le> length (ls_done s1) \<and> ls_done s = ls_done s1 @ ys)"
  have step: "?P (?f x)" if P: "?P x" and c: "?c x" for x
  proof -
    obtain ys where ys: "ls_done (?f x) = ls_done x @ ys" using slot_turn_done by blast
    show ?thesis using P
    proof
      assume e: "while_option ?d ?f ?s0 = while_option ?d ?f x"
      show ?thesis
      proof (cases "?d x")
        case True
        then show ?thesis using e while_option_unfold [of ?d ?f x] by simp
      next
        case False
        then have "while_option ?d ?f ?s0 = Some x" using e while_option_unfold [of ?d ?f x] by simp
        moreover have "?k \<le> length (ls_done x)" using False c by (auto simp: go_on_def)
        ultimately show ?thesis using ys by blast
      qed
    next
      assume "\<exists>s1 ys. while_option ?d ?f ?s0 = Some s1 \<and> ?k \<le> length (ls_done s1) \<and> ls_done x = ls_done s1 @ ys"
      then show ?thesis using ys by (metis append.assoc)
    qed
  qed
  have "?P s" by (rule while_option_rule [OF _ r [unfolded slots_loop_def], where P = ?P]) (use step in blast)+
  then obtain s' where "while_option ?d ?f ?s0 = Some s'" "ls_done s' = ls_done s"
  proof
    assume e: "while_option ?d ?f ?s0 = while_option ?d ?f s"
    have "\<not> ?d s" by (simp add: go_on_def)
    then have "while_option ?d ?f ?s0 = Some s" using e while_option_unfold [of ?d ?f s] by simp
    then show thesis using that by blast
  next
    assume "\<exists>s1 ys. while_option ?d ?f ?s0 = Some s1 \<and> ?k \<le> length (ls_done s1) \<and> ls_done s = ls_done s1 @ ys"
    then show thesis using that by auto
  qed
  then show thesis using that by (simp add: slots_loop_def)
qed

lemma ask_again:
  assumes ob: "\<not> opt_set PART_OPT_OVERBOOK w" and ok: "threads_ok (jb_threads jb)"
    and c: "createSlots mem hw w dry jb = Some (l, jb')"
  shows "createSlots mem hw (w\<lparr>ws_np := length l\<rparr>) dry2 jb = Some (l,
    if dry2 then jb else jb\<lparr>jb_threads := used_by l (jb_threads jb), jb_usedThreads := jb_usedThreads jb + of_nat (length l * ws_tpp w)\<rparr>)"
proof -
  let ?v = "w\<lparr>ws_np := length l\<rparr>"
  let ?ts = "jb_threads jb"
  define q where "q = scan_threads hw w ?ts"
  obtain l0 jb0 where "createSlots mem hw w dry jb = Some (l0, jb0)" "length l0 \<le> ws_np w"
    by (rule createSlots_result [OF ok ob, of hw mem dry])
  then have l: "length l \<le> ws_np w" using c by simp
  obtain l2 where l2: "createSlots mem hw ?v dry2 jb = Some (l2,
       if dry2 \<or> length l2 \<noteq> length l then jb
       else jb\<lparr>jb_threads := used_by l2 ?ts, jb_usedThreads := jb_usedThreads jb + of_nat (length l * ws_tpp w)\<rparr>)"
    by (rule createSlots_result [OF ok, of ?v hw mem dry2]) (use ob in simp_all)
  have "l2 = l"
  proof (cases "\<not> mem \<or> sc_min q \<noteq> 0 \<or> ws_tpp w > sc_maxTPP q")
    case True
    then have "createSlots mem hw w dry jb = Some ([], jb)" "createSlots mem hw ?v dry2 jb = Some ([], jb)"
      using ob by (auto simp: createSlots_def q_def Let_def)
    then show ?thesis using c l2 by simp
  next
    case False
    obtain s where s: "slots_loop hw w ?ts = Some s" using slots_loop_ends [OF ob] by blast
    then have d: "ls_done s = l" using c False ob by (auto simp: createSlots_def q_def [symmetric] Let_def split: if_splits)
    obtain s' where s': "slots_loop hw ?v ?ts = Some s'" "ls_done s' = l" using same_slots [OF s] d l by metis
    then show ?thesis using l2 False ob by (auto simp: createSlots_def q_def [symmetric] Let_def split: if_splits)
  qed
  then show ?thesis using l2 by simp
qed

end
