(* ===== verification/Part_Books.thy ===== *)
theory Part_Books
  imports Part_Release
begin

text \<open>
  The books of a job: \<open>books l jb\<close> says that the counts of the threads are those of the slots \<open>l\<close>, no thread
  is in two of them, and the number of threads in use is right.  Creating slots adds them, releasing takes
  them out.
\<close>

section \<open>Books\<close>

definition books :: "slot list \<Rightarrow> job \<Rightarrow> bool" where
  "books l jb \<longleftrightarrow> threads_ok (jb_threads jb) \<and> wf_slots l
     \<and> (\<forall>th \<in> set (jb_threads jb). th_used th = of_nat (held_of l th) \<and> held_of l th \<le> 1)
     \<and> (\<forall>n c. hold l n c \<noteq> 0 \<longrightarrow> (n, c) \<in> place ` set (jb_threads jb))
     \<and> jb_usedThreads jb = of_nat (\<Sum>th \<leftarrow> jb_threads jb. held_of l th)"

lemma wf_slots_simps [simp]: "wf_slots []" "wf_slots (sl # l) \<longleftrightarrow> cpu_wf (sl_cpus sl) \<and> wf_slots l"
  "wf_slots (l @ k) \<longleftrightarrow> wf_slots l \<and> wf_slots k"
  by (auto simp: wf_slots_def)

lemma held_of_simps [simp]: "held_of [] th = 0" "held_of (l @ k) th = held_of l th + held_of k th"
  by (simp_all add: held_of_def)

text \<open>Only the CPUs that the slots have together matter.\<close>

lemma books_same:
  assumes "books l jb" "wf_slots k" "\<And>n c. hold k n c = hold l n c"
  shows "books k jb"
  using assms by (simp add: books_def held_of_def)

lemma books_mset: "books l jb \<Longrightarrow> mset k = mset l \<Longrightarrow> books k jb"
proof (rule books_same)
  assume b: "books l jb" and m: "mset k = mset l"
  show "books l jb" by (rule b)
  show "wf_slots k" using b mset_eq_setD [OF m] by (simp add: books_def wf_slots_def)
  show "hold k n c = hold l n c" for n c by (rule hold_mset [OF m])
qed

lemma books_bound: "books l jb \<Longrightarrow> hold l n c \<le> 1"
proof -
  assume b: "books l jb"
  show ?thesis
  proof (cases "hold l n c = 0")
    case False
    then have "(n, c) \<in> place ` set (jb_threads jb)" using b by (simp add: books_def)
    then obtain th where "th \<in> set (jb_threads jb)" "th_node th = n" "th_id th = c" by (auto simp: place_def)
    then show ?thesis using b by (auto simp: books_def held_of_def)
  qed simp
qed

text \<open>The CPUs of slots on threads of the job.\<close>

lemma hold_one: "hold [sl] n c = of_bool (sl_node sl = n \<and> c \<in> cpus (sl_cpus sl))"
  by simp

lemma total_held:
  assumes ok: "threads_ok ts" and w: "wf_slots k" and p: "\<forall>n c. hold k n c \<noteq> 0 \<longrightarrow> (n, c) \<in> place ` set ts"
  shows "(\<Sum>th \<leftarrow> ts. held_of k th) = sum_list (map slot_count k)"
proof -
  define hw where "hw = (\<lambda>n :: nodeid. 0 :: uint32)"
  define v where "v = \<lparr>ws_np = 0, ws_ppn = 0, ws_tpp = 0, ws_hwType = 0, ws_options = 0\<rparr>"
  have c: "\<forall>sl \<in> set k. cur_ok hw v ts sl"
  proof
    fix sl assume sl: "sl \<in> set k"
    have "\<exists>i < length ts. th_node (ts ! i) = sl_node sl \<and> th_id (ts ! i) = c" if "c \<in> cpus (sl_cpus sl)" for c
    proof -
      have "hold k (sl_node sl) c \<noteq> 0" using sl that by (auto simp: hold_def filter_empty_conv)
      then show ?thesis using p by (fastforce simp: place_def in_set_conv_nth)
    qed
    then show "cur_ok hw v ts sl" using w sl by (auto simp: cur_ok_def wf_slots_def hw_fits_def v_def)
  qed
  have "(\<Sum>th \<leftarrow> ts. held_of k th) = (\<Sum>i < length ts. held ts k i)"
    by (simp add: sum_list_sum_nth atLeast0LessThan held_held_of)
  also have "\<dots> = sum_list (map (\<lambda>sl. card (cpus (sl_cpus sl))) k)" by (rule held_sum [OF ok c])
  also have "\<dots> = sum_list (map slot_count k)" using w by (intro arg_cong [of _ _ sum_list] map_cong) (auto simp: wf_slots_def slot_count_card)
  finally show ?thesis .
qed

lemma books_start:
  "threads_ok (jb_threads jb) \<Longrightarrow> \<forall>th \<in> set (jb_threads jb). th_used th = 0 \<Longrightarrow> jb_usedThreads jb = 0 \<Longrightarrow> books [] jb"
  by (simp add: books_def)

lemma books_idle: "books [] jb \<Longrightarrow> jb_usedThreads jb = 0 \<and> (\<forall>th \<in> set (jb_threads jb). th_used th = 0)"
  by (simp add: books_def)

section \<open>Creating\<close>

lemma used_by_places: "map place (used_by k ts) = map place ts" "length (used_by k ts) = length ts"
  by (simp_all add: used_by_held place_def)

lemma books_create:
  assumes b: "books l jb" and g: "good_for hw w (jb_threads jb) k"
  shows "books (l @ k) (jb\<lparr>jb_threads := used_by k (jb_threads jb), jb_usedThreads := jb_usedThreads jb + of_nat (length k * ws_tpp w)\<rparr>)"
proof -
  let ?ts = "jb_threads jb"
  let ?us = "used_by k ?ts"
  have ok: "threads_ok ?ts" using b by (simp add: books_def)
  have gh: "held_of k th \<le> 1 \<and> (held_of k th = 1 \<longrightarrow> th_used th = 0)" if "th \<in> set ?ts" for th
    using g that by (auto simp: good_for_def held_held_of in_set_conv_nth)
  have bh: "th_used th = of_nat (held_of l th) \<and> held_of l th \<le> 1" if "th \<in> set ?ts" for th
    using b that by (simp add: books_def)
  have one: "held_of l th + held_of k th \<le> 1 \<and> 0 \<le> sint (of_nat (held_of l th + held_of k th) :: 16 word)" if "th \<in> set ?ts" for th
  proof -
    have "held_of k th = 1 \<longrightarrow> held_of l th = 0"
      using gh [OF that] bh [OF that] by (cases "held_of l th = 1") (auto simp: le_Suc_eq)
    then have "held_of l th + held_of k th = 0 \<or> held_of l th + held_of k th = 1"
      using gh [OF that] bh [OF that] by linarith
    then show ?thesis by (elim disjE) (simp_all del: of_nat_add)
  qed
  have wk: "wf_slots k" using g by (simp add: good_for_def cur_ok_def wf_slots_def)
  have us: "set ?us = (\<lambda>th. th\<lparr>th_used := th_used th + of_nat (held_of k th)\<rparr>) ` set ?ts" by (simp add: used_by_held)
  have ok': "threads_ok ?us"
    using ok one bh unfolding threads_ok_def used_by_places us by auto
  have p: "(n, c) \<in> place ` set ?us" if "hold (l @ k) n c \<noteq> 0" for n c
  proof -
    have "place ` set ?us = place ` set ?ts" using used_by_places(1) [of k ?ts] by (metis set_map)
    moreover have "(n, c) \<in> place ` set ?ts" if nz: "hold k n c \<noteq> 0"
    proof -
      obtain sl where sl: "sl \<in> set k" "sl_node sl = n" "c \<in> cpus (sl_cpus sl)" using nz by (auto simp: hold_def filter_empty_conv)
      then have "cur_ok hw w ?ts sl" using g by (simp add: good_for_def)
      then obtain i where "i < length ?ts" "th_node (?ts ! i) = n" "th_id (?ts ! i) = c" using sl by (auto simp: cur_ok_def)
      then show ?thesis by (auto simp: place_def image_iff intro!: bexI [of _ "?ts ! i"])
    qed
    moreover have "(n, c) \<in> place ` set ?ts" if "hold l n c \<noteq> 0" using b that by (simp add: books_def)
    ultimately show ?thesis using that by (cases "hold l n c = 0") auto
  qed
  have h: "held_of m (th\<lparr>th_used := u\<rparr>) = held_of m th" for m th u by (simp add: held_of_def)
  have "(\<Sum>th \<leftarrow> ?us. held_of (l @ k) th) = (\<Sum>th \<leftarrow> ?ts. held_of l th) + (\<Sum>th \<leftarrow> ?ts. held_of k th)"
    by (simp add: used_by_held h comp_def sum_list_addf)
  moreover have "(\<Sum>th \<leftarrow> ?ts. held_of k th) = length k * ws_tpp w"
    using good_total(2) [OF ok g] by (simp add: sum_list_sum_nth atLeast0LessThan held_held_of)
  moreover have "jb_usedThreads jb = of_nat (\<Sum>th \<leftarrow> ?ts. held_of l th)" using b by (simp add: books_def)
  ultimately have t: "jb_usedThreads jb + of_nat (length k * ws_tpp w) = of_nat (\<Sum>th \<leftarrow> ?us. held_of (l @ k) th)" by simp
  have c: "th_used th = of_nat (held_of (l @ k) th) \<and> held_of (l @ k) th \<le> 1" if "th \<in> set ?us" for th
  proof -
    obtain x where "x \<in> set ?ts" "th = x\<lparr>th_used := th_used x + of_nat (held_of k x)\<rparr>" using \<open>th \<in> set ?us\<close> unfolding us by blast
    then show ?thesis using one [of x] bh [of x] by (simp add: h)
  qed
  have w: "wf_slots (l @ k)" using b wk by (simp add: books_def)
  let ?jb = "jb\<lparr>jb_threads := ?us, jb_usedThreads := jb_usedThreads jb + of_nat (length k * ws_tpp w)\<rparr>"
  have f: "jb_threads ?jb = ?us" "jb_usedThreads ?jb = jb_usedThreads jb + of_nat (length k * ws_tpp w)" by simp_all
  show ?thesis unfolding books_def f using ok' w c p t by blast
qed

section \<open>Releasing\<close>

lemma minus_held_places: "map place (minus_held k ts) = map place ts"
  by (simp add: minus_held_def place_def)

lemma books_release:
  assumes b: "books (l @ k) jb"
  obtains k' where "releaseThreads k jb = (sum_list (map slot_count k), k', jb\<lparr>jb_threads := minus_held k (jb_threads jb)\<rparr>)"
    "books l (jb\<lparr>jb_threads := minus_held k (jb_threads jb), jb_usedThreads := jb_usedThreads jb - of_nat (sum_list (map slot_count k))\<rparr>)"
proof -
  let ?ts = "jb_threads jb"
  let ?us = "minus_held k ?ts"
  let ?n = "sum_list (map slot_count k)"
  have ok: "threads_ok ?ts" and w: "wf_slots l" "wf_slots k" using b by (simp_all add: books_def)
  have one: "th_used th = of_nat (held_of l th + held_of k th) \<and> held_of l th + held_of k th \<le> 1" if "th \<in> set ?ts" for th
    using b that by (simp add: books_def)
  have p: "(n, c) \<in> place ` set ?ts" if "hold l n c \<noteq> 0 \<or> hold k n c \<noteq> 0" for n c
    using b that by (auto simp: books_def)
  have tot: "(\<Sum>th \<leftarrow> ?ts. held_of k th) = ?n" using p by (intro total_held [OF ok w(2)]) blast
  have le: "\<forall>th \<in> set ?ts. int (held_of k th) \<le> sint (th_used th)"
  proof
    fix th assume "th \<in> set ?ts"
    then have "held_of k th = 0 \<and> held_of l th = 0 \<or> held_of k th = 0 \<and> held_of l th = 1 \<or> held_of k th = 1 \<and> held_of l th = 0"
      "th_used th = of_nat (held_of l th + held_of k th)"
      using one by (fastforce simp: le_Suc_eq)+
    then show "int (held_of k th) \<le> sint (th_used th)" by auto
  qed
  obtain k' where r: "releaseThreads k jb = (?n, k', jb\<lparr>jb_threads := ?us\<rparr>)"
    by (rule releaseThreads_exact [OF w(2) ok le tot])
  have h: "held_of m (th\<lparr>th_used := u\<rparr>) = held_of m th" for m th u by (simp add: held_of_def)
  have c: "th_used th = of_nat (held_of l th) \<and> held_of l th \<le> 1" if "th \<in> set ?us" for th
  proof -
    obtain x where "x \<in> set ?ts" "th = x\<lparr>th_used := th_used x - of_nat (held_of k x)\<rparr>"
      using \<open>th \<in> set ?us\<close> unfolding minus_held_def by auto
    then show ?thesis using one [of x] by (simp add: h)
  qed
  have "0 \<le> sint (th_used th)" if "th \<in> set ?us" for th
    using c [OF that] by (auto simp: le_Suc_eq)
  moreover have "th_id th < PSCPU_MAX" if "th \<in> set ?us" for th
    using ok that by (auto simp: threads_ok_def minus_held_def)
  ultimately have ok': "threads_ok ?us" using ok by (simp add: threads_ok_def minus_held_places)
  have pl: "place ` set ?us = place ` set ?ts" by (metis set_map minus_held_places)
  have "(\<Sum>th \<leftarrow> ?us. held_of l th) = (\<Sum>th \<leftarrow> ?ts. held_of l th)"
    by (simp add: minus_held_def h comp_def)
  moreover have "jb_usedThreads jb = of_nat ((\<Sum>th \<leftarrow> ?ts. held_of l th) + ?n)"
    using b tot by (simp add: books_def sum_list_addf)
  ultimately have t: "jb_usedThreads jb - of_nat ?n = of_nat (\<Sum>th \<leftarrow> ?us. held_of l th)" by simp
  let ?jb = "jb\<lparr>jb_threads := ?us, jb_usedThreads := jb_usedThreads jb - of_nat ?n\<rparr>"
  have f: "jb_threads ?jb = ?us" "jb_usedThreads ?jb = jb_usedThreads jb - of_nat ?n" by simp_all
  have "books l ?jb" unfolding books_def f pl using ok' w c p t by blast
  then show thesis using that r by blast
qed

section \<open>A partition that was just received\<close>

lemma threads_of_places: "map place (threads_of sl) = map (Pair (sl_node sl)) (filter (PSCPU_isSet (sl_cpus sl)) [0..<PSCPU_MAX])"
  by (simp add: threads_of_def place_def)

lemma threads_of_set: "cpu_wf (sl_cpus sl) \<Longrightarrow> place ` set (threads_of sl) = {sl_node sl} \<times> cpus (sl_cpus sl)"
proof -
  assume w: "cpu_wf (sl_cpus sl)"
  have "place ` set (threads_of sl) = set (map place (threads_of sl))" by simp
  also have "\<dots> = {sl_node sl} \<times> cpus (sl_cpus sl)"
    unfolding threads_of_places using cpus_below [OF w] by (auto simp: isSet_has [OF w] cpus_def)
  finally show ?thesis .
qed

lemma hold_zero: "hold l n c = 0 \<longleftrightarrow> (\<forall>sl \<in> set l. \<not> (sl_node sl = n \<and> c \<in> cpus (sl_cpus sl)))"
  by (simp add: hold_def filter_empty_conv)

lemma places_of_slots: "wf_slots l \<Longrightarrow> place ` set (concat (map threads_of l)) = {(n, c). hold l n c \<noteq> 0}"
proof (induction l)
  case (Cons sl l)
  then have "place ` set (concat (map threads_of (sl # l))) = {sl_node sl} \<times> cpus (sl_cpus sl) \<union> {(n, c). hold l n c \<noteq> 0}"
    using threads_of_set [of sl] by (simp add: image_Un)
  then show ?case by auto
qed simp

lemma threads_distinct:
  "wf_slots l \<Longrightarrow> \<forall>n c. hold l n c \<le> 1 \<Longrightarrow> distinct (map place (concat (map threads_of l)))"
proof (induction l)
  case (Cons sl l)
  have w: "cpu_wf (sl_cpus sl)" "wf_slots l" using Cons.prems(1) by simp_all
  have le: "hold l n c \<le> 1" for n c using Cons.prems(2) [rule_format, of n c] by simp
  have "hold l (sl_node sl) c = 0" if "c \<in> cpus (sl_cpus sl)" for c
    using Cons.prems(2) [rule_format, of "sl_node sl" c] that by simp
  then have "place ` set (threads_of sl) \<inter> place ` set (concat (map threads_of l)) = {}"
    unfolding places_of_slots [OF w(2)] threads_of_set [OF w(1)] by auto
  moreover have "distinct (map place (threads_of sl))"
    unfolding threads_of_places by (simp add: distinct_map inj_on_def)
  ultimately show ?case using Cons.IH w(2) le by simp
qed simp

lemma getHWThreads_ok:
  assumes "wf_slots l" "\<forall>n c. hold l n c \<le> 1"
  shows "threads_ok (snd (getHWThreads True l old))" "\<forall>th \<in> set (snd (getHWThreads True l old)). th_used th = 0"
proof -
  have i: "c < PSCPU_MAX" if "c \<in> set (filter P [0..<PSCPU_MAX])" for c P using that by simp
  show "threads_ok (snd (getHWThreads True l old))" using threads_distinct [OF assms]
    by (auto simp: getHWThreads_def threads_ok_def Let_def threads_of_def)
  show "\<forall>th \<in> set (snd (getHWThreads True l old)). th_used th = 0"
    by (auto simp: getHWThreads_def Let_def threads_of_def)
qed

end
