(* ===== verification/Part_Grant.thy ===== *)
theory Part_Grant
  imports Part_Return Part_Books
begin

text \<open>
  What a request for a reservation does to the books: either nothing was possible and the threads stay as they
  were, or the slots of the reservation are added to them.
\<close>

declare not_None_eq [simp del]

section \<open>Making slots\<close>

lemma take_mem_cases: obtains b m where "take_mem s = (b, s\<lparr>rs_mem := m\<rparr>)"
proof (cases "rs_mem s")
  case Nil
  then have "take_mem s = (True, s\<lparr>rs_mem := rs_mem s\<rparr>)" by (simp add: take_mem_def)
  then show thesis using that by blast
next
  case (Cons b bs)
  then have "take_mem s = (b, s\<lparr>rs_mem := bs\<rparr>)" by (simp add: take_mem_def)
  then show thesis using that by blast
qed

definition with_job :: "nat \<Rightarrow> job \<Rightarrow> bool list \<Rightarrow> rstate \<Rightarrow> rstate" where
  "with_job a jb m s = upd_task a (\<lambda>t. t\<lparr>rt_job := jb\<rparr>) (s\<lparr>rs_mem := m\<rparr>)"

lemma with_job_simps [simp]:
  "rs_heap (with_job a jb m s) = (rs_heap s)(a := (rs_heap s a)\<lparr>rt_job := jb\<rparr>)"
  "(with_job a jb m s)\<lparr>rs_mem := m2\<rparr> = with_job a jb m2 s"
  "with_job a jb2 m2 (with_job a jb m s) = with_job a jb2 m2 s"
  "upd_task a (\<lambda>t. t\<lparr>rt_job := jb2\<rparr>) (with_job a jb m s) = with_job a jb2 m s"
  "rs_hw (with_job a jb m s) = rs_hw s"
  by (simp_all add: with_job_def upd_task_def)

lemma with_job_same: "s\<lparr>rs_mem := m\<rparr> = with_job a (rt_job (rs_heap s a)) m s"
  by (simp add: with_job_def upd_task_def)

text \<open>The effect of slots on the job.\<close>

definition with_slots :: "wish \<Rightarrow> slot list \<Rightarrow> job \<Rightarrow> job" where
  "with_slots w l jb = jb\<lparr>jb_threads := used_by l (jb_threads jb), jb_usedThreads := jb_usedThreads jb + of_nat (length l * ws_tpp w)\<rparr>"

lemma make_slots_dry:
  assumes "threads_ok (jb_threads (rt_job (rs_heap s d)))" "\<not> opt_set PART_OPT_OVERBOOK (wish_of r np)"
  obtains b m l where "make_slots_of d r np True s = Some (l, with_job d (rt_job (rs_heap s d)) m s)" "length l \<le> np"
    "good_for (rs_hw s) (wish_of r np) (jb_threads (rt_job (rs_heap s d))) l"
    "\<exists>b. createSlots b (rs_hw s) (wish_of r np) True (rt_job (rs_heap s d)) = Some (l, rt_job (rs_heap s d)) \<and> (l \<noteq> [] \<longrightarrow> b)"
proof -
  obtain b m where m: "take_mem s = (b, s\<lparr>rs_mem := m\<rparr>)" by (rule take_mem_cases)
  obtain l where l: "good_for (rs_hw s) (wish_of r np) (jb_threads (rt_job (rs_heap s d))) l" "length l \<le> np"
    "createSlots b (rs_hw s) (wish_of r np) True (rt_job (rs_heap s d)) = Some (l, rt_job (rs_heap s d))"
    by (rule createSlots_result [OF assms, of "rs_hw s" b True]) (auto simp: wish_of_def)
  have "l \<noteq> [] \<longrightarrow> b" using l(3) by (cases b) (auto simp: createSlots_def Let_def)
  then show thesis using that [of l m] l m by (auto simp: make_slots_of_def with_job_def)
qed

lemma make_slots_wet:
  assumes ok: "threads_ok (jb_threads (rt_job (rs_heap s d)))" and ob: "\<not> opt_set PART_OPT_OVERBOOK (wish_of r np)"
    and dry: "createSlots True (rs_hw s) (wish_of r np) True (rt_job (rs_heap s d)) = Some (l, rt_job (rs_heap s d))" "l \<noteq> []"
    and t: "rv_ppn r2 = rv_ppn r" "rv_tpp r2 = rv_tpp r" "rv_hwType r2 = rv_hwType r" "rv_options r2 = rv_options r"
  obtains m l2 where "make_slots_of d r2 (length l) False s = Some (l2, with_job d (if l2 = [] then rt_job (rs_heap s d)
      else with_slots (wish_of r np) l (rt_job (rs_heap s d))) m s)" "l2 = [] \<or> l2 = l"
proof -
  obtain b m where m: "take_mem s = (b, s\<lparr>rs_mem := m\<rparr>)" by (rule take_mem_cases)
  show thesis
  proof (cases b)
    case False
    then show thesis using m by (intro that [of "[]" m]) (simp_all add: make_slots_of_def createSlots_def with_job_def Let_def)
  next
    case True
    have w: "wish_of r2 (length l) = (wish_of r np)\<lparr>ws_np := length l\<rparr>" using t by (simp add: wish_of_def)
    show thesis
      using ask_again [OF ob ok dry(1), of False] m True dry(2)
      by (intro that [of l m]) (simp_all add: make_slots_of_def with_job_def w with_slots_def)
  qed
qed

lemma opt_wish: "opt_set f (wish_of r np) = rv_opt f r"
  by (simp add: opt_set_def rv_opt_def wish_of_def)

text \<open>The result of asking for slots, without over-booking, dynamic resources and delegation.\<close>

definition got_slots :: "rstate \<Rightarrow> nat \<Rightarrow> rsv \<Rightarrow> int \<Rightarrow> rsv \<Rightarrow> job \<Rightarrow> bool" where
  "got_slots s a r got r2 jb \<longleftrightarrow>
     (let jb0 = rt_job (rs_heap s a); w = wish_of r (unat (rv_nMax r)) in
      got \<le> 0 \<and> jb = jb0
      \<or> (\<exists>l. 0 < got \<and> got = int (length l) \<and> unat (rv_nMin r) \<le> length l \<and> length l \<le> unat (rv_nMax r)
           \<and> rv_slots r2 = Some l \<and> good_for (rs_hw s) w (jb_threads jb0) l \<and> jb = with_slots w l jb0))"

lemma getReservation_result:
  assumes f: "find_task (rv_task r) s = Some a" and del: "rt_delegate (rs_heap s a) = None"
    and ok: "threads_ok (jb_threads (rt_job (rs_heap s a)))" and opt: "\<not> rv_opt PART_OPT_OVERBOOK r" "\<not> rv_opt PART_OPT_DYNAMIC r"
  shows "\<exists>got r2 jb m. PSIDpart_getReservation r s = Some (got, r2, with_job a jb m s)
    \<and> r2 = r\<lparr>rv_slots := rv_slots r2, rv_checked := rv_checked r2\<rparr> \<and> got_slots s a r got r2 jb" (is ?goal)
proof -
  have d: "delegate_of a s = a" using del by (simp add: delegate_of_def)
  let ?jb = "rt_job (rs_heap s a)"
  let ?w = "wish_of r (unat (rv_nMax r))"
  obtain b1 m1 where m1: "(if rv_slots r = None then take_mem s else (True, s)) = (b1, s\<lparr>rs_mem := m1\<rparr>)"
  proof (cases "rv_slots r = None")
    case True
    then show thesis using take_mem_cases [of s] that by metis
  next
    case False
    then show thesis using that [of True "rs_mem s"] by simp
  qed
  have no: ?goal if "PSIDpart_getReservation r s = Some (got, r2, with_job a ?jb m s)" "got \<le> 0"
    "r2 = r\<lparr>rv_slots := rv_slots r2, rv_checked := rv_checked r2\<rparr>" for got r2 m
    using that by (auto simp: got_slots_def)
  show ?goal
  proof (cases b1)
    case False
    then have "PSIDpart_getReservation r s = Some (-1, r, with_job a ?jb m1 s)"
      using f d m1 by (simp add: PSIDpart_getReservation_def with_job_same [symmetric])
    then show ?goal by (rule no) simp_all
  next
    case True
    let ?s1 = "with_job a ?jb m1 s"
    have s1: "s\<lparr>rs_mem := m1\<rparr> = ?s1" by (rule with_job_same)
    have ok1: "threads_ok (jb_threads (rt_job (rs_heap ?s1 a)))" and ob1: "\<not> opt_set PART_OPT_OVERBOOK ?w"
      using ok opt(1) by (simp_all add: opt_wish)
    obtain b2 m2 l where l: "make_slots_of a r (unat (rv_nMax r)) True ?s1 = Some (l, with_job a ?jb m2 s)"
      "length l \<le> unat (rv_nMax r)" "good_for (rs_hw s) ?w (jb_threads ?jb) l"
      "createSlots b2 (rs_hw s) ?w True ?jb = Some (l, ?jb) \<and> (l \<noteq> [] \<longrightarrow> b2)"
      using make_slots_dry [OF ok1 ob1] by (simp, metis)
    define r2 where "r2 = r\<lparr>rv_slots := Some l\<rparr>"
    have start: "PSIDpart_getReservation r s =
        (if length l < unat (rv_nMin r) then
           if \<not> rv_checked r2 then
             (if count_slots (rs_hw s) (rv_hwType r) (unat (rv_tpp r)) None (jb_threads ?jb) 0 < unat (rv_nMin r)
              then Some (-1, r2, with_job a ?jb m2 s) else Some (0, r2\<lparr>rv_checked := True\<rparr>, with_job a ?jb m2 s))
           else Some (0, r2, with_job a ?jb m2 s)
         else let (ok3, s3) = (if length l = 0 then (False, with_job a ?jb m2 s) else take_mem (with_job a ?jb m2 s)) in
           if \<not> ok3 then Some (-1, r2\<lparr>rv_slots := None\<rparr>, s3)
           else case make_slots_of a r2 (length l) False s3 of
             None \<Rightarrow> None
           | Some (l4, s4) \<Rightarrow> Some (int (length l4), r2\<lparr>rv_slots := Some l4\<rparr>, book a (of_nat (length l4) * ucast (rv_tpp r)) s4))"
      using f d m1 True opt(2) unfolding PSIDpart_getReservation_def
      by (simp add: s1 l(1) r2_def Let_def cong: if_cong split: prod.split option.split)
    show ?goal
    proof (cases "length l < unat (rv_nMin r) \<or> l = []")
      case small: True
      define k where "k \<longleftrightarrow> count_slots (rs_hw s) (rv_hwType r) (unat (rv_tpp r)) None (jb_threads ?jb) 0 < unat (rv_nMin r)"
      define got where "got = (if length l < unat (rv_nMin r) then if \<not> rv_checked r2 \<and> k then -1 else 0 else -1 :: int)"
      define r3 where "r3 = (if length l < unat (rv_nMin r) then if \<not> rv_checked r2 \<and> \<not> k then r2\<lparr>rv_checked := True\<rparr> else r2
        else r2\<lparr>rv_slots := None\<rparr>)"
      have "PSIDpart_getReservation r s = Some (got, r3, with_job a ?jb m2 s)"
        using small unfolding start k_def [symmetric] by (cases "l = []") (simp_all add: got_def r3_def)
      then show ?goal by (rule no) (simp_all add: got_def r3_def r2_def)
    next
      case False
      then have b2: "b2" using l(4) by simp
      obtain b3 m3 where m3: "take_mem (with_job a ?jb m2 s) = (b3, with_job a ?jb m3 s)"
        using take_mem_cases [of "with_job a ?jb m2 s"] by (metis with_job_simps(2))
      show ?goal
      proof (cases b3)
        case no_mem: False
        then have "PSIDpart_getReservation r s = Some (-1, r2\<lparr>rv_slots := None\<rparr>, with_job a ?jb m3 s)"
          using False m3 unfolding start by simp
        then show ?goal by (rule no) (simp_all add: r2_def)
      next
        case mem: True
        let ?s3 = "with_job a ?jb m3 s"
        have "createSlots True (rs_hw ?s3) ?w True (rt_job (rs_heap ?s3 a)) = Some (l, rt_job (rs_heap ?s3 a))" using l(4) b2 by simp
        then obtain m4 l4 where l4': "make_slots_of a r2 (length l) False ?s3 = Some (l4, with_job a (if l4 = [] then rt_job (rs_heap ?s3 a)
            else with_slots ?w l (rt_job (rs_heap ?s3 a))) m4 ?s3)" and e4: "l4 = [] \<or> l4 = l"
          by (rule make_slots_wet [of ?s3 a r "unat (rv_nMax r)" l r2, rotated 2]) (use ok1 ob1 False in \<open>simp_all add: r2_def\<close>)
        have l4: "make_slots_of a r2 (length l) False ?s3 = Some (l4, with_job a (if l4 = [] then ?jb else with_slots ?w l ?jb) m4 s)"
          using l4' by (simp cong: if_cong)
        have res: "PSIDpart_getReservation r s
            = Some (int (length l4), r2\<lparr>rv_slots := Some l4\<rparr>, with_job a (if l4 = [] then ?jb else with_slots ?w l ?jb) m4 s)"
          using False m3 mem del l4 unfolding start by (simp add: book_def)
        show ?goal
        proof (cases "l4 = []")
          case True
          then show ?goal using res by (intro no [of 0 "r2\<lparr>rv_slots := Some []\<rparr>" m4]) (simp_all add: r2_def)
        next
          case ne: False
          then have e: "l4 = l" using e4 by simp
          have "got_slots s a r (int (length l)) (r2\<lparr>rv_slots := Some l\<rparr>) (with_slots ?w l ?jb)"
            using ne e False l(2,3) by (auto simp: got_slots_def Let_def)
          then show ?goal using res ne e by (intro exI [of _ "int (length l)"] exI [of _ "r2\<lparr>rv_slots := Some l\<rparr>"] exI) (auto simp: r2_def)
        qed
      qed
    qed
  qed
qed

end
