(* ===== verification/Part_Ledger.thy ===== *)
theory Part_Ledger
  imports Part_Grant
begin

text \<open>
  The ledger of a task that has a partition: the slots of its reservations that nobody got yet, and those that
  were handed out and not released.  Together they are what the threads of the job are used for.
\<close>

declare not_None_eq [simp del]

section \<open>Messages change nothing\<close>

lemma emit_fields [simp]: "rs_heap (emit ms s) = rs_heap s" "rs_managed (emit ms s) = rs_managed s" "rs_next (emit ms s) = rs_next s"
  "rs_myID (emit ms s) = rs_myID s"
  by (simp_all add: emit_def)

lemma upd_task_simps [simp]: "rs_heap (upd_task a f s) = (rs_heap s)(a := f (rs_heap s a))" "rs_managed (upd_task a f s) = rs_managed s"
  "rs_next (upd_task a f s) = rs_next s" "rs_myID (upd_task a f s) = rs_myID s"
  by (simp_all add: upd_task_def)

lemma send_simps [simp]:
  "rs_heap (send_RESCREATED a r k s) = rs_heap s" "rs_managed (send_RESCREATED a r k s) = rs_managed s"
  "rs_next (send_RESCREATED a r k s) = rs_next s" "rs_myID (send_RESCREATED a r k s) = rs_myID s"
  "rs_heap (send_RESSLOTS a r s) = rs_heap s" "rs_managed (send_RESSLOTS a r s) = rs_managed s"
  "rs_next (send_RESSLOTS a r s) = rs_next s" "rs_myID (send_RESSLOTS a r s) = rs_myID s"
  "rs_heap (send_RESRELEASED a r s) = rs_heap s" "rs_managed (send_RESRELEASED a r s) = rs_managed s"
  "rs_next (send_RESRELEASED a r s) = rs_next s" "rs_myID (send_RESRELEASED a r s) = rs_myID s"
  by (simp_all add: send_RESCREATED_def send_RESSLOTS_def send_RESRELEASED_def Let_def)

lemma with_job_rest [simp]: "rs_managed (with_job a jb m s) = rs_managed s" "rs_next (with_job a jb m s) = rs_next s"
  "rs_myID (with_job a jb m s) = rs_myID s"
  by (simp_all add: with_job_def)

section \<open>The ledger\<close>

definition unspawned :: "rsv list \<Rightarrow> slot list" where
  "unspawned rs = concat (map (\<lambda>r. drop (unat (rv_nextSlot r)) (slots_of_rsv r)) rs)"

type_synonym ledger = "(int32 \<times> slot) list"

definition out_of :: "int32 \<Rightarrow> ledger \<Rightarrow> nat" where
  "out_of k out = length (filter (\<lambda>e. fst e = k) out)"

text \<open>
  A reservation: as many slots as it says, and no slot counts as released that is still out.  (The sum of
  \<open>nextSlot\<close> and the number asked for must not wrap around, hence the bound.)
\<close>

definition res_ok :: "ledger \<Rightarrow> rsv \<Rightarrow> bool" where
  "res_ok out r \<longleftrightarrow> length (slots_of_rsv r) = unat (rv_nSlots r) \<and> unat (rv_nextSlot r) \<le> unat (rv_nSlots r)
     \<and> unat (rv_relSlots r) + out_of (rv_rid r) out \<le> unat (rv_nextSlot r) \<and> unat (rv_nSlots r) < 2 ^ 31"

text \<open>A request that waits: of this task, for slots of its own, never over-booked.\<close>

definition req_ok :: "ledger \<Rightarrow> taskid \<Rightarrow> rsv \<Rightarrow> bool" where
  "req_ok out t r \<longleftrightarrow> rv_task r = t \<and> \<not> rv_opt PART_OPT_OVERBOOK r \<and> \<not> rv_opt PART_OPT_DYNAMIC r \<and> \<not> rv_dynSent r
     \<and> out_of (rv_rid r) out = 0 \<and> unat (rv_nMax r) < 2 ^ 31"

text \<open>The books of the threads are about the ledger \<open>out1\<close>, those of the reservations about \<open>out\<close>.\<close>

definition tinv2 :: "nat \<Rightarrow> ledger \<Rightarrow> ledger \<Rightarrow> rtask \<Rightarrow> bool" where
  "tinv2 n out1 out t \<longleftrightarrow> rt_delegate t = None
     \<and> books (unspawned (rt_reservations t) @ map snd out1) (rt_job t)
     \<and> (\<forall>r \<in> set (rt_reservations t). res_ok out r)
     \<and> (\<forall>r \<in> set (rt_requests t). req_ok out (rt_tid t) r)
     \<and> distinct (map rv_rid (rt_reservations t @ rt_requests t))
     \<and> distinct (map rv_ptr (rt_reservations t @ rt_requests t))
     \<and> (\<forall>r \<in> set (rt_reservations t @ rt_requests t). rv_ptr r < n)"

definition tinv :: "nat \<Rightarrow> ledger \<Rightarrow> rtask \<Rightarrow> bool" where
  "tinv n out = tinv2 n out out"

lemmas tinv_def2 = tinv_def tinv2_def

text \<open>What an operation on the task \<open>a\<close> leaves alone.\<close>

definition stays :: "nat \<Rightarrow> rstate \<Rightarrow> rstate \<Rightarrow> bool" where
  "stays a s s' \<longleftrightarrow> rs_managed s' = rs_managed s \<and> rs_myID s' = rs_myID s \<and> (\<forall>b. b \<noteq> a \<longrightarrow> rs_heap s' b = rs_heap s b)
     \<and> rt_tid (rs_heap s' a) = rt_tid (rs_heap s a) \<and> rt_logger (rs_heap s' a) = rt_logger (rs_heap s a)
     \<and> rt_ptid (rs_heap s' a) = rt_ptid (rs_heap s a) \<and> rt_partition (rs_heap s' a) = rt_partition (rs_heap s a)
     \<and> rt_options (rs_heap s' a) = rt_options (rs_heap s a) \<and> rt_delegate (rs_heap s' a) = rt_delegate (rs_heap s a)"

lemma stays_refl [simp]: "stays a s s" by (simp add: stays_def)

lemma stays_trans: "stays a s s1 \<Longrightarrow> stays a s1 s2 \<Longrightarrow> stays a s s2"
  by (simp add: stays_def)

lemma stays_tid: "stays a s s' \<Longrightarrow> rt_tid (rs_heap s' b) = rt_tid (rs_heap s b)"
  by (cases "b = a") (simp_all add: stays_def)

lemma stays_find: "stays a s s' \<Longrightarrow> find_task t s' = find_task t s"
proof -
  assume st: "stays a s s'"
  then have "(\<lambda>b. rt_tid (rs_heap s' b) = t) = (\<lambda>b. rt_tid (rs_heap s b) = t)" "rs_managed s' = rs_managed s"
    by (simp_all only: stays_tid [OF st]) (simp add: stays_def)
  then show ?thesis by (simp add: find_task_def)
qed

section \<open>Queues\<close>

lemma find_rid: "distinct (map rv_rid q) \<Longrightarrow> r \<in> set q \<Longrightarrow> findRes q (rv_rid r) = Some r"
  by (induction q) (auto simp: findRes_def)

lemma findRes_Some: "findRes q k = Some r \<Longrightarrow> r \<in> set q \<and> rv_rid r = k"
  by (auto simp: findRes_def find_Some_iff in_set_conv_nth)

lemma findRes_None: "findRes q k = None \<Longrightarrow> \<forall>r \<in> set q. rv_rid r \<noteq> k"
  by (simp add: findRes_def find_None_iff)

lemma deqRes_same:
  assumes "distinct (map rv_rid q)" "r \<in> set q" "rv_rid r2 = rv_rid r" "rv_ptr r2 = rv_ptr r"
  shows "deqRes q r2 = (True, filter (\<lambda>x. \<not> same_rsv r x) q)"
  using find_rid [OF assms(1,2)] assms(3,4) by (simp add: deqRes_def same_rsv_def)

lemma same_eq: "distinct (map rv_ptr q) \<Longrightarrow> r \<in> set q \<Longrightarrow> x \<in> set q \<Longrightarrow> same_rsv r x \<longleftrightarrow> x = r"
  by (auto simp: same_rsv_def distinct_map inj_on_def)

lemma store_keys: "rv_rid r2 = rv_rid r \<Longrightarrow> rv_ptr r2 = rv_ptr r \<Longrightarrow> r \<in> set q \<Longrightarrow> distinct (map rv_ptr q) \<Longrightarrow>
  map rv_rid (store_rsv r2 q) = map rv_rid q \<and> map rv_ptr (store_rsv r2 q) = map rv_ptr q"
  using same_eq [of q r] by (auto simp: store_rsv_def same_rsv_def)

lemma filter_keys: "set (map f (filter P q)) \<subseteq> set (map f q)" "distinct (map f q) \<Longrightarrow> distinct (map f (filter P q))"
  by (auto simp: distinct_map_filter)

section \<open>What keeps the ledger\<close>

lemma tinv_fields [simp]:
  "tinv n out (t\<lparr>rt_numChild := x1\<rparr>) = tinv n out t" "tinv n out (t\<lparr>rt_firstSpawner := x2\<rparr>) = tinv n out t"
  "tinv n out (t\<lparr>rt_nextResID := x3\<rparr>) = tinv n out t" "tinv n out (t\<lparr>rt_active := x4\<rparr>) = tinv n out t"
  by (simp_all add: tinv_def2)

lemma tinv_mono: "tinv n out t \<Longrightarrow> n \<le> m \<Longrightarrow> tinv m out t"
  by (auto simp: tinv_def2 dest: order_less_le_trans)

lemma tinv_store:
  assumes t: "tinv n out t" and r: "r \<in> set (rt_requests t)" and k: "rv_rid r2 = rv_rid r" "rv_ptr r2 = rv_ptr r"
    and ok: "req_ok out (rt_tid t) r2"
  shows "tinv n out (t\<lparr>rt_requests := store_rsv r2 (rt_requests t)\<rparr>)"
proof -
  have "distinct (map rv_ptr (rt_requests t))" using t by (simp add: tinv_def2)
  then have m: "map rv_rid (store_rsv r2 (rt_requests t)) = map rv_rid (rt_requests t)"
    "map rv_ptr (store_rsv r2 (rt_requests t)) = map rv_ptr (rt_requests t)" using store_keys [OF k r] by simp_all
  have s: "set (store_rsv r2 (rt_requests t)) \<subseteq> insert r2 (set (rt_requests t))" by (auto simp: store_rsv_def)
  have p: "rv_ptr r2 < n" using t r k(2) by (simp add: tinv_def2)
  have "set (map rv_rid (store_rsv r2 (rt_requests t))) = set (map rv_rid (rt_requests t))"
    "set (map rv_ptr (store_rsv r2 (rt_requests t))) = set (map rv_ptr (rt_requests t))" unfolding m by simp_all
  then have d: "distinct (map rv_rid (rt_reservations t @ store_rsv r2 (rt_requests t)))"
    "distinct (map rv_ptr (rt_reservations t @ store_rsv r2 (rt_requests t)))"
    using t unfolding map_append distinct_append m by (simp_all add: tinv_def2)
  have q: "\<forall>x \<in> set (store_rsv r2 (rt_requests t)). req_ok out (rt_tid t) x \<and> rv_ptr x < n" using t s ok p by (auto simp: tinv_def2)
  show ?thesis using t d q by (auto simp: tinv_def2)
qed

lemma tinv_drop: "tinv n out t \<Longrightarrow> tinv n out (t\<lparr>rt_requests := filter P (rt_requests t)\<rparr>)"
  by (auto simp: tinv_def2 distinct_map_filter)

lemma unspawned_simps [simp]: "unspawned [] = []" "unspawned (r # rs) = drop (unat (rv_nextSlot r)) (slots_of_rsv r) @ unspawned rs"
  "unspawned (rs @ qs) = unspawned rs @ unspawned qs"
  by (simp_all add: unspawned_def)

lemma tinv_grant:
  assumes t: "tinv n out t" and r: "r \<in> set (rt_requests t)"
    and g: "good_for hw w (jb_threads (rt_job t)) l"
    and k: "rv_rid r4 = rv_rid r" "rv_ptr r4 = rv_ptr r" "rv_slots r4 = Some l" "unat (rv_nSlots r4) = length l" "rv_nextSlot r4 = 0" "rv_relSlots r4 = 0"
    and big: "length l < 2 ^ 31"
  shows "tinv n out (t\<lparr>rt_requests := filter (\<lambda>x. \<not> same_rsv r x) (rt_requests t), rt_job := with_slots w l (rt_job t),
    rt_reservations := rt_reservations t @ [r4]\<rparr>)"
proof -
  let ?L = "unspawned (rt_reservations t) @ map snd out"
  let ?q = "filter (\<lambda>x. \<not> same_rsv r x) (rt_requests t)"
  have "books (?L @ l) (with_slots w l (rt_job t))"
    unfolding with_slots_def by (rule books_create [OF _ g]) (use t in \<open>simp add: tinv_def2\<close>)
  then have b: "books ((unspawned (rt_reservations t) @ l) @ map snd out) (with_slots w l (rt_job t))"
    by (rule books_mset) (simp add: ac_simps)
  have o: "res_ok out r4" using t r k big by (auto simp: tinv_def2 res_ok_def req_ok_def slots_of_rsv_def)
  have d: "distinct (map rv_rid (rt_reservations t @ rt_requests t))" "distinct (map rv_ptr (rt_reservations t @ rt_requests t))"
    using t by (simp_all add: tinv_def2)
  have ids: "rv_rid r \<notin> rv_rid ` set (rt_reservations t)" "rv_ptr r \<notin> rv_ptr ` set (rt_reservations t)"
    "rv_rid r \<notin> rv_rid ` set ?q" "rv_ptr r \<notin> rv_ptr ` set ?q"
    using d r by (auto simp: same_rsv_def distinct_map inj_on_def)
  have "distinct (map rv_rid (rt_reservations t @ r4 # ?q))" "distinct (map rv_ptr (rt_reservations t @ r4 # ?q))"
    using d ids k by (auto simp: distinct_map_filter)
  then show ?thesis
    using t b o r k by (auto simp: tinv_def2 slots_of_rsv_def)
qed

end
