(* ===== verification/Part_Keep.thy ===== *)
theory Part_Keep
  imports Part_Ledger
begin

text \<open>
  Every operation keeps the ledger: requests that are granted, refused or wait, slots that are handed out, and
  slots that come back.
\<close>

declare not_None_eq [simp del]

section \<open>Granting\<close>

lemma set_ranks_result:
  obtains f o1 where "fst (set_ranks a r s) = r\<lparr>rv_firstRank := f, rv_rankOffset := o1\<rparr>"
    "\<exists>k. snd (set_ranks a r s) = upd_task a (\<lambda>t. t\<lparr>rt_firstSpawner := k\<rparr>) s"
proof -
  have "upd_task a (\<lambda>t. t\<lparr>rt_firstSpawner := rt_firstSpawner (rs_heap s a)\<rparr>) s = s" by (simp add: upd_task_def)
  then have "\<exists>k. snd (set_ranks a r s) = upd_task a (\<lambda>t. t\<lparr>rt_firstSpawner := k\<rparr>) s"
    unfolding set_ranks_def Let_def by (auto split: if_splits) metis+
  moreover have "\<exists>f o1. fst (set_ranks a r s) = r\<lparr>rv_firstRank := f, rv_rankOffset := o1\<rparr>"
  proof -
    have e: "\<exists>f o1. r = r\<lparr>rv_firstRank := f, rv_rankOffset := o1\<rparr>"
      by (intro exI [of _ "rv_firstRank r"] exI [of _ "rv_rankOffset r"]) simp
    show ?thesis using e unfolding set_ranks_def Let_def by auto
  qed
  ultimately show thesis using that by blast
qed

lemma grant_result:
  obtains k c r4 where "rs_heap (grant a r got s) = (rs_heap s)(a := (rs_heap s a)\<lparr>rt_firstSpawner := k, rt_numChild := c,
      rt_reservations := rt_reservations (rs_heap s a) @ [r4]\<rparr>)"
    "\<exists>f o1. r4 = r\<lparr>rv_firstRank := f, rv_rankOffset := o1\<rparr>"
    "rs_managed (grant a r got s) = rs_managed s" "rs_next (grant a r got s) = rs_next s" "rs_myID (grant a r got s) = rs_myID s"
proof -
  obtain r4 s1 where s1: "set_ranks a r s = (r4, s1)" by fastforce
  obtain f o1 where f: "r4 = r\<lparr>rv_firstRank := f, rv_rankOffset := o1\<rparr>" and k: "\<exists>k. s1 = upd_task a (\<lambda>t. t\<lparr>rt_firstSpawner := k\<rparr>) s"
    using set_ranks_result [of a r s] s1 by (metis fst_conv snd_conv)
  then obtain k where k: "s1 = upd_task a (\<lambda>t. t\<lparr>rt_firstSpawner := k\<rparr>) s" by blast
  let ?c = "rt_numChild (rs_heap s a) + of_int got"
  have g: "rs_heap (grant a r got s) = (rs_heap s)(a := (rs_heap s a)\<lparr>rt_firstSpawner := k, rt_numChild := ?c,
      rt_reservations := rt_reservations (rs_heap s a) @ [r4]\<rparr>)"
    "rs_managed (grant a r got s) = rs_managed s" "rs_next (grant a r got s) = rs_next s" "rs_myID (grant a r got s) = rs_myID s"
    unfolding grant_def s1 k by (simp_all add: enqRes_def)
  show thesis by (rule that [OF g(1) _ g(2-4)]) (use f in blast)
qed

section \<open>One request\<close>

definition plain_hooks :: "hooks \<Rightarrow> bool" where
  "plain_hooks hk \<longleftrightarrow> (\<forall>r t. hk_get hk r t = HkNone)"

text \<open>The numbers in use are numbers that were in use, or in \<open>X\<close>, and no number was drawn.\<close>

definition rids :: "rtask \<Rightarrow> int32 set" where
  "rids t = rv_rid ` set (rt_reservations t @ rt_requests t)"

definition ids_kept :: "int32 set \<Rightarrow> rtask \<Rightarrow> rtask \<Rightarrow> bool" where
  "ids_kept X t t' \<longleftrightarrow> rt_nextResID t' = rt_nextResID t \<and> rids t' \<subseteq> X \<union> rids t"

lemma ids_refl [simp]: "ids_kept X t t"
  by (simp add: ids_kept_def)

lemma ids_trans: "ids_kept X t t1 \<Longrightarrow> ids_kept X t1 t2 \<Longrightarrow> ids_kept X t t2"
  by (auto simp: ids_kept_def)

lemma ids_mono: "ids_kept {} t t1 \<Longrightarrow> ids_kept X t t1"
  by (auto simp: ids_kept_def)

lemma rids_store: "r \<in> set q \<Longrightarrow> rv_rid r2 = rv_rid r \<Longrightarrow> rv_rid ` set (store_rsv r2 q) \<subseteq> rv_rid ` set q"
  by (auto simp: store_rsv_def)

lemma rids_filter: "rv_rid ` set (filter P q) \<subseteq> rv_rid ` set q"
  by auto

definition kept :: "nat \<Rightarrow> ledger \<Rightarrow> rstate \<Rightarrow> rstate \<Rightarrow> bool" where
  "kept a out s s' \<longleftrightarrow> stays a s s' \<and> rs_next s' = rs_next s \<and> tinv (rs_next s) out (rs_heap s' a)
     \<and> ids_kept {} (rs_heap s a) (rs_heap s' a)"

text \<open>The requests other than \<open>r\<close> still wait.\<close>

definition waits :: "nat \<Rightarrow> rsv \<Rightarrow> rstate \<Rightarrow> rstate \<Rightarrow> bool" where
  "waits a r s s' \<longleftrightarrow> (\<forall>x \<in> set (rt_requests (rs_heap s a)). \<not> same_rsv r x \<longrightarrow> x \<in> set (rt_requests (rs_heap s' a)))"

lemma kept_trans: "kept a out s s1 \<Longrightarrow> kept a out s1 s2 \<Longrightarrow> kept a out s s2"
  by (auto simp: kept_def intro: stays_trans ids_trans)

lemma kept_later:
  assumes t: "tinv (rs_next s) out (rs_heap s a)" and r: "r \<in> set (rt_requests (rs_heap s a))"
    and k: "rv_rid r3 = rv_rid r" "rv_ptr r3 = rv_ptr r" and ok: "req_ok out (rt_tid (rs_heap s a)) r3"
  shows "kept a out s (set_request a r3 (with_job a (rt_job (rs_heap s a)) m s))"
    "waits a r s (set_request a r3 (with_job a (rt_job (rs_heap s a)) m s))"
proof -
  show "kept a out s (set_request a r3 (with_job a (rt_job (rs_heap s a)) m s))"
    using tinv_store [OF t r k ok] rids_store [OF r k(1)] by (auto simp: kept_def stays_def set_request_def ids_kept_def rids_def image_Un)
  have "same_rsv r3 = same_rsv r" using k by (simp add: same_rsv_def fun_eq_iff)
  then show "waits a r s (set_request a r3 (with_job a (rt_job (rs_heap s a)) m s))"
    by (force simp: waits_def set_request_def store_rsv_def)
qed

lemma kept_refuse:
  assumes t: "tinv (rs_next s) out (rs_heap s a)" and r: "r \<in> set (rt_requests (rs_heap s a))"
    and k: "rv_rid r3 = rv_rid r" "rv_ptr r3 = rv_ptr r"
  shows "kept a out s (deny r3 e (drop_request a r3 (with_job a (rt_job (rs_heap s a)) m s)))"
    "waits a r s (deny r3 e (drop_request a r3 (with_job a (rt_job (rs_heap s a)) m s)))"
proof -
  have d: "distinct (map rv_rid (rt_requests (rs_heap s a)))" using t by (simp add: tinv_def2)
  show "kept a out s (deny r3 e (drop_request a r3 (with_job a (rt_job (rs_heap s a)) m s)))"
    using tinv_drop [OF t] deqRes_same [OF d r k]
    by (auto simp: kept_def stays_def drop_request_def deny_def ids_kept_def rids_def)
  show "waits a r s (deny r3 e (drop_request a r3 (with_job a (rt_job (rs_heap s a)) m s)))"
    using deqRes_same [OF d r k] by (simp add: waits_def drop_request_def deny_def)
qed

lemma kept_give:
  assumes t: "tinv (rs_next s) out (rs_heap s a)" and r: "r \<in> set (rt_requests (rs_heap s a))"
    and k: "rv_rid r3 = rv_rid r" "rv_ptr r3 = rv_ptr r" "rv_slots r3 = Some l" "unat (rv_nSlots r3) = length l" "rv_nextSlot r3 = 0" "rv_relSlots r3 = 0"
    and g: "good_for hw w (jb_threads (rt_job (rs_heap s a))) l" and big: "length l < 2 ^ 31"
  shows "kept a out s (grant a r3 got (drop_request a r3 (with_job a (with_slots w l (rt_job (rs_heap s a))) m s)))" (is ?kept)
    "waits a r s (grant a r3 got (drop_request a r3 (with_job a (with_slots w l (rt_job (rs_heap s a))) m s)))" (is ?waits)
proof -
  let ?s = "drop_request a r3 (with_job a (with_slots w l (rt_job (rs_heap s a))) m s)"
  have d: "distinct (map rv_rid (rt_requests (rs_heap s a)))" using t by (simp add: tinv_def2)
  obtain q c r4 where r4: "rs_heap (grant a r3 got ?s) = (rs_heap ?s)(a := (rs_heap ?s a)\<lparr>rt_firstSpawner := q, rt_numChild := c,
      rt_reservations := rt_reservations (rs_heap ?s a) @ [r4]\<rparr>)"
    "\<exists>f o1. r4 = r3\<lparr>rv_firstRank := f, rv_rankOffset := o1\<rparr>"
    "rs_managed (grant a r3 got ?s) = rs_managed ?s" "rs_next (grant a r3 got ?s) = rs_next ?s" "rs_myID (grant a r3 got ?s) = rs_myID ?s"
    by (rule grant_result)
  have k4: "rv_rid r4 = rv_rid r" "rv_ptr r4 = rv_ptr r" "rv_slots r4 = Some l" "unat (rv_nSlots r4) = length l" "rv_nextSlot r4 = 0" "rv_relSlots r4 = 0"
    using r4(2) k by auto
  have h: "rs_heap ?s a = (rs_heap s a)\<lparr>rt_job := with_slots w l (rt_job (rs_heap s a)),
      rt_requests := filter (\<lambda>x. \<not> same_rsv r x) (rt_requests (rs_heap s a))\<rparr>"
    using deqRes_same [OF d r k(1,2)] by (simp add: drop_request_def)
  have "tinv (rs_next s) out ((rs_heap s a)\<lparr>rt_requests := filter (\<lambda>x. \<not> same_rsv r x) (rt_requests (rs_heap s a)),
      rt_job := with_slots w l (rt_job (rs_heap s a)), rt_reservations := rt_reservations (rs_heap s a) @ [r4]\<rparr>)"
    by (rule tinv_grant [OF t r g k4 big])
  then show ?kept using r4(1,3,4,5) h
    by (simp add: kept_def stays_def) (use r k4(1) in \<open>auto simp: drop_request_def tinv_def2 ids_kept_def rids_def\<close>)
  show ?waits using h unfolding waits_def r4(1) by simp
qed

lemma handleSingle_kept:
  assumes hk: "plain_hooks hk" and f: "find_task (rt_tid (rs_heap s a)) s = Some a"
    and t: "tinv (rs_next s) out (rs_heap s a)" and r: "r \<in> set (rt_requests (rs_heap s a))"
  shows "\<exists>ret s'. handleSingleResRequest hk r s = Some (ret, s') \<and> kept a out s s' \<and> waits a r s s'"
proof -
  have ro: "req_ok out (rt_tid (rs_heap s a)) r" and del: "rt_delegate (rs_heap s a) = None"
    and bk: "books (unspawned (rt_reservations (rs_heap s a)) @ map snd out) (rt_job (rs_heap s a))"
    using t r by (simp_all add: tinv_def2)
  have th: "threads_ok (jb_threads (rt_job (rs_heap s a)))" using bk by (simp add: books_def)
  have d: "delegate_of a s = a" and dyn: "\<not> rv_dynSent r" using del ro by (simp_all add: delegate_of_def req_ok_def)
  define r1 where "r1 = r\<lparr>rv_firstRank := rt_numChild (rs_heap s a), rv_nextSlot := 0, rv_relSlots := 0\<rparr>"
  have f0: "find_task (rv_task r) s = Some a" and f1: "find_task (rv_task r1) s = Some a" using f ro by (simp_all add: r1_def req_ok_def)
  have o1: "\<not> rv_opt PART_OPT_OVERBOOK r1" "\<not> rv_opt PART_OPT_DYNAMIC r1" using ro by (simp_all add: r1_def req_ok_def rv_opt_def)
  obtain got r2 jb m where g: "PSIDpart_getReservation r1 s = Some (got, r2, with_job a jb m s)"
    "r2 = r1\<lparr>rv_slots := rv_slots r2, rv_checked := rv_checked r2\<rparr>" "got_slots s a r1 got r2 jb"
    using getReservation_result [OF f1 del th o1] by blast
  define r3 where "r3 = r2\<lparr>rv_nSlots := of_int got\<rparr>"
  have same: "rv_rid r3 = rv_rid r" "rv_ptr r3 = rv_ptr r" "rv_task r3 = rv_task r" "rv_options r3 = rv_options r" "rv_dynSent r3 = rv_dynSent r" "rv_nMax r3 = rv_nMax r"
    "rv_nextSlot r3 = 0" "rv_relSlots r3 = 0" "rv_slots r3 = rv_slots r2" "rv_nSlots r3 = of_int got"
    by (subst r3_def, subst g(2), simp add: r1_def)+
  have dec: "decide hk a got r2 (with_job a jb m s) =
      (if got = 0 then (if rv_opt PART_OPT_WAIT r3 then (Later False, r3, with_job a jb m s) else (Refuse EBUSY_NO, r3, with_job a jb m s))
       else if got < 0 then (Refuse ENOSPC_NO, r3, with_job a jb m s) else (Give got, r3, with_job a jb m s))"
  proof -
    have "\<not> rv_opt PART_OPT_DYNAMIC r3" using o1(2) same(4) by (simp add: rv_opt_def r1_def)
    then show ?thesis by (simp add: decide_def Let_def r3_def [symmetric])
  qed
  have start: "handleSingleResRequest hk r s = (case decide hk a got r2 (with_job a jb m s) of
      (Later nxt, r2, s2) \<Rightarrow> Some (of_bool nxt, set_request a r2 s2)
    | (Refuse eno, r2, s2) \<Rightarrow> Some (-1, deny r2 eno (drop_request a r2 s2))
    | (Give got, r2, s2) \<Rightarrow> Some (got, grant a r2 got (drop_request a r2 s2)))"
    using hk f0 d dyn g(1) unfolding handleSingleResRequest_def r1_def by (simp add: plain_hooks_def Let_def)
  show ?thesis
  proof (cases "got \<le> 0")
    case True
    then have jb: "jb = rt_job (rs_heap s a)" using g(3) by (auto simp: got_slots_def)
    have ok3: "req_ok out (rt_tid (rs_heap s a)) r3" using ro same by (simp add: req_ok_def rv_opt_def)
    show ?thesis
      using True kept_later [OF t r same(1,2) ok3, of m] kept_refuse [OF t r same(1,2), of _ m] unfolding start dec unfolding jb
      by (cases "got = 0") auto
  next
    case False
    then obtain l where l: "got = int (length l)" "length l \<le> unat (rv_nMax r1)" "rv_slots r2 = Some l"
      "good_for (rs_hw s) (wish_of r1 (unat (rv_nMax r1))) (jb_threads (rt_job (rs_heap s a))) l"
      "jb = with_slots (wish_of r1 (unat (rv_nMax r1))) l (rt_job (rs_heap s a))"
      using g(3) by (auto simp: got_slots_def Let_def)
    have "unat (rv_nMax r1) < 2 ^ 31" using ro by (simp add: r1_def req_ok_def)
    then have big: "length l < 2 ^ 31" using l(2) by simp
    then have n: "unat (rv_nSlots r3) = length l" unfolding same(10) l(1) by (simp add: unat_of_nat take_bit_nat_eq_self)
    have s3: "rv_slots r3 = Some l" using same(9) l(3) by simp
    show ?thesis
      using False kept_give [OF t r same(1,2) s3 n same(7,8) l(4) big, of got m] unfolding start dec unfolding l(5) by auto
  qed
qed

lemma handle_requests_kept:
  assumes "plain_hooks hk"
  shows "find_task (rt_tid (rs_heap s a)) s = Some a \<Longrightarrow> tinv (rs_next s) out (rs_heap s a) \<Longrightarrow>
    set rs \<subseteq> set (rt_requests (rs_heap s a)) \<Longrightarrow> distinct (map rv_ptr rs) \<Longrightarrow>
    \<exists>s'. handle_requests hk rs s = Some s' \<and> kept a out s s'"
proof (induction rs arbitrary: s)
  case Nil
  then show ?case by (simp add: kept_def)
next
  case (Cons r rs)
  obtain ret s1 where s1: "handleSingleResRequest hk r s = Some (ret, s1)" "kept a out s s1" "waits a r s s1"
    using handleSingle_kept [OF assms Cons.prems(1,2), of r] Cons.prems(3) by auto
  show ?case
  proof (cases "ret = 0")
    case True
    then show ?thesis using s1 by simp
  next
    case False
    have "set rs \<subseteq> set (rt_requests (rs_heap s1 a))"
    proof
      fix x assume x: "x \<in> set rs"
      then have "\<not> same_rsv r x" using Cons.prems(4) by (auto simp: same_rsv_def image_iff)
      then show "x \<in> set (rt_requests (rs_heap s1 a))" using s1(3) x Cons.prems(3) by (auto simp: waits_def)
    qed
    moreover have "find_task (rt_tid (rs_heap s1 a)) s1 = Some a"
      using Cons.prems(1) s1(2) stays_find stays_tid by (metis kept_def)
    moreover have "tinv (rs_next s1) out (rs_heap s1 a)" using s1(2) by (simp add: kept_def)
    ultimately obtain s' where "handle_requests hk rs s1 = Some s'" "kept a out s1 s'"
      using Cons.IH [of s1] Cons.prems(4) by auto
    then show ?thesis using False s1 kept_trans by auto
  qed
qed

lemma handleResRequests_kept:
  assumes "plain_hooks hk" "find_task (rt_tid (rs_heap s a)) s = Some a" "tinv (rs_next s) out (rs_heap s a)"
  shows "\<exists>s'. handleResRequests hk a s = Some s' \<and> kept a out s s'"
  unfolding handleResRequests_def
  by (rule handle_requests_kept [OF assms subset_refl]) (use assms(3) in \<open>simp add: tinv_def2\<close>)

text \<open>
  The operations on the reservations of a job keep its ledger: asking (\<open>msg_GETRESERVATION\<close>

), handing out slots
  (\<open>msg_GETSLOTS\<close>), taking them back (\<open>msg_CHILDRESREL\<close>) and the end of the task (\<open>PSIDpart_cleanupRes\<close>).
\<close>

declare not_None_eq [simp del]

section \<open>What they keep\<close>

text \<open>Like \<open>kept\<close>, for an operation that may make a reservation and may change the ledger.\<close>

definition moved :: "int32 set \<Rightarrow> nat \<Rightarrow> ledger \<Rightarrow> rstate \<Rightarrow> rstate \<Rightarrow> bool" where
  "moved X a out s s' \<longleftrightarrow> stays a s s' \<and> rs_next s \<le> rs_next s' \<and> tinv (rs_next s') out (rs_heap s' a)
     \<and> ids_kept X (rs_heap s a) (rs_heap s' a)"

lemma kept_moved: "kept a out s s' \<Longrightarrow> moved {} a out s s'"
  by (simp add: kept_def moved_def)

lemma moved_kept: "stays a s s1 \<Longrightarrow> rs_next s \<le> rs_next s1 \<Longrightarrow> ids_kept X (rs_heap s a) (rs_heap s1 a) \<Longrightarrow> kept a out s1 s'
   \<Longrightarrow> moved X a out s s'"
  by (auto simp: kept_def moved_def intro: stays_trans ids_trans ids_mono)

lemma take_send_cases: obtains e m where "take_send s = (e, s\<lparr>rs_send := m\<rparr>)"
proof (cases "rs_send s")
  case Nil
  then have "take_send s = (0, s\<lparr>rs_send := rs_send s\<rparr>)" by (simp add: take_send_def)
  then show thesis using that by blast
next
  case (Cons e es)
  then have "take_send s = (e, s\<lparr>rs_send := es\<rparr>)" by (simp add: take_send_def)
  then show thesis using that by blast
qed

lemma stays_fields [simp]: "stays a s (emit ms s') = stays a s s'" "stays a s (s'\<lparr>rs_send := x\<rparr>) = stays a s s'"
  "stays a s (s'\<lparr>rs_mem := y\<rparr>) = stays a s s'" "stays a s (s'\<lparr>rs_next := k\<rparr>) = stays a s s'"
  by (simp_all add: stays_def)

section \<open>Asking\<close>

lemma tinv_enq:
  assumes t: "tinv n out t" and r: "req_ok out (rt_tid t) r" "rv_rid r \<notin> rv_rid ` set (rt_reservations t @ rt_requests t)" "rv_ptr r = n"
  shows "tinv (n + 1) out (t\<lparr>rt_requests := enqRes (rt_requests t) r\<rparr>)"
proof -
  have "\<forall>x \<in> set (rt_reservations t @ rt_requests t). rv_ptr x < n" using t by (simp add: tinv_def2)
  then have "n \<notin> rv_ptr ` set (rt_reservations t @ rt_requests t)" by auto
  then show ?thesis using t r by (auto simp: tinv_def2 enqRes_def less_Suc_eq)
qed

definition eff_options :: "getres \<Rightarrow> rtask \<Rightarrow> uint32" where
  "eff_options m t = (if gm_options m AND PART_OPT_DEFAULT \<noteq> 0 then rt_options t else gm_options m)"

text \<open>
  A plain request: it is for a task that is its own logger, asks for less than \<open>2 ^ 31\<close> slots and has none of the options for
  over-booking, dynamic resources and placeholders.
\<close>

definition plain_ask :: "getres \<Rightarrow> rtask \<Rightarrow> bool" where
  "plain_ask m t \<longleftrightarrow> rt_tid t = rt_logger t \<and> gm_nMax m < 0x80000000
     \<and> eff_options m t AND PART_OPT_OVERBOOK = 0 \<and> eff_options m t AND PART_OPT_DYNAMIC = 0 \<and> eff_options m t AND PART_OPT_DUMMY = 0"

text \<open>It also draws a number that is not in use, which \<open>Part_Run\<close> shows for all runs that are not too long.\<close>

definition plain_request :: "ledger \<Rightarrow> getres \<Rightarrow> rtask \<Rightarrow> bool" where
  "plain_request out m t \<longleftrightarrow> plain_ask m t
     \<and> (let rid = fst (PStask_getNextResID t) in
         rid \<notin> rv_rid ` set (rt_reservations t @ rt_requests t) \<and> rid \<notin> fst ` set out)"

definition at_task :: "nat \<Rightarrow> taskid \<Rightarrow> taskid \<Rightarrow> rstate \<Rightarrow> bool" where
  "at_task a dest sender s \<longleftrightarrow> find_task (if PSC_getPID dest \<noteq> 0 then dest else sender) s = Some a"

lemma find_task_own: "find_task t s = Some a \<Longrightarrow> find_task (rt_tid (rs_heap s a)) s = Some a"
  by (auto simp: find_task_def find_Some_iff)

lemma out_of_none: "k \<notin> fst ` set out \<Longrightarrow> out_of k out = 0"
  by (auto simp: out_of_def filter_empty_conv)

lemma queue_request_moved:
  assumes hk: "plain_hooks hk" and f: "find_task (rt_tid (rs_heap s a)) s = Some a" and t: "tinv n out (rs_heap s a)" "rs_next s = n + 1"
    and r: "req_ok out (rt_tid (rs_heap s a)) r" "rv_rid r \<notin> rv_rid ` set (rt_reservations (rs_heap s a) @ rt_requests (rs_heap s a))" "rv_ptr r = n"
  shows "\<exists>s'. queue_request hk m a r s = Some s' \<and> moved {rv_rid r} a out s s'"
proof -
  have d: "delegate_of a s = a" using t by (simp add: delegate_of_def tinv_def2)
  let ?s = "enq_request a r s"
  have t1: "tinv (rs_next ?s) out (rs_heap ?s a)" using tinv_enq [OF t(1) r] t(2) by (simp add: enq_request_def)
  have st: "stays a s ?s" by (simp add: enq_request_def stays_def)
  have nx: "rs_next ?s = rs_next s" by (simp add: enq_request_def)
  have f1: "find_task (rt_tid (rs_heap ?s a)) ?s = Some a" using f stays_find [OF st] stays_tid [OF st] by simp
  have ids: "ids_kept {rv_rid r} (rs_heap s a) (rs_heap ?s a)" by (auto simp: ids_kept_def rids_def enq_request_def enqRes_def)
  have no: "moved {rv_rid r} a out s (res_error m e s)" for e
    using tinv_mono [OF t(1)] t(2) by (simp add: moved_def res_error_def)
  obtain ret s' where h: "handleSingleResRequest hk r ?s = Some (ret, s')" "kept a out ?s s'"
    using handleSingle_kept [OF hk f1 t1, of r] by (auto simp: enq_request_def enqRes_def)
  have "moved {rv_rid r} a out s ?s" using st t1 nx ids by (simp add: moved_def)
  moreover have "moved {rv_rid r} a out s s'" using moved_kept [OF st _ ids h(2)] nx by simp
  ultimately show ?thesis using no h(1) d unfolding queue_request_def by (auto simp: Let_def)
qed

text \<open>A request draws a number, which may be in use afterwards, or it changes nothing of the numbers.\<close>

definition asked :: "nat \<Rightarrow> ledger \<Rightarrow> rstate \<Rightarrow> rstate \<Rightarrow> bool" where
  "asked a out s s' \<longleftrightarrow> stays a s s' \<and> rs_next s \<le> rs_next s' \<and> tinv (rs_next s') out (rs_heap s' a)
     \<and> (ids_kept {} (rs_heap s a) (rs_heap s' a)
        \<or> ids_kept {fst (PStask_getNextResID (rs_heap s a))} (snd (PStask_getNextResID (rs_heap s a))) (rs_heap s' a))"

lemma moved_asked: "moved {} a out s s' \<Longrightarrow> asked a out s s'"
  by (simp add: moved_def asked_def)

lemma GETRESERVATION_moved:
  assumes hk: "plain_hooks hk" and a: "at_task a (gm_dest m) (gm_sender m) s" and t: "tinv (rs_next s) out (rs_heap s a)"
    and p: "plain_request out m (rs_heap s a)"
  shows "\<exists>s'. msg_GETRESERVATION hk m s = Some s' \<and> asked a out s s'"
proof -
  let ?t = "rs_heap s a"
  have d: "delegate_of a s = a" using t by (simp add: delegate_of_def tinv_def2)
  have f: "find_task (if PSC_getPID (gm_dest m) \<noteq> 0 then gm_dest m else gm_sender m) s = Some a" using a by (simp add: at_task_def)
  obtain e sm where send: "take_send s = (e, s\<lparr>rs_send := sm\<rparr>)" by (rule take_send_cases)
  obtain b mm where mem: "take_mem s = (b, s\<lparr>rs_mem := mm\<rparr>)" by (rule take_mem_cases)
  show ?thesis
  proof (cases "rt_ptid ?t \<noteq> 0 \<and> rt_partition ?t = None \<or> jb_threads (rt_job ?t) = [] \<or> \<not> b \<or> \<not> gm_complete m")
    case True
    have m1: "asked a out s (res_error m i s)" "asked a out s (res_error m i (s\<lparr>rs_send := sm\<rparr>))" "asked a out s (emit ms (s\<lparr>rs_send := sm\<rparr>))"
      "asked a out s (res_error m i (s\<lparr>rs_mem := mm\<rparr>))" "asked a out s (res_error m i (s\<lparr>rs_mem := mm, rs_next := Suc (rs_next s)\<rparr>))" for i ms
      using t tinv_mono [OF t, of "Suc (rs_next s)"] by (simp_all add: asked_def res_error_def)
    show ?thesis
      using True m1 d f send mem unfolding msg_GETRESERVATION_def
      by (auto simp: Let_def PSrsrvtn_get_def split: if_splits bool.splits)
  next
    case False
    let ?s1 = "s\<lparr>rs_mem := mm, rs_next := rs_next s + 1\<rparr>"
    define rid where "rid = fst (PStask_getNextResID ?t)"
    let ?s2 = "upd_task a (\<lambda>t. snd (PStask_getNextResID t)) ?s1"
    obtain r0 where r0: "PSrsrvtn_get s = (Some r0, ?s1)" "rv_ptr r0 = rs_next s" "\<not> rv_dynSent r0"
      using mem False by (auto simp: PSrsrvtn_get_def)
    define r1 where "r1 = (read_request m ?t r0)\<lparr>rv_rid := rid\<rparr>"
    define r2 where "r2 = (if rv_opt PART_OPT_DEFAULT r1 then r1\<lparr>rv_options := rt_options ?t\<rparr> else r1)"
    have o: "rv_options r2 = eff_options m ?t" by (simp add: r2_def r1_def rv_opt_def eff_options_def read_request_def)
    have r2: "rv_rid r2 = rid" "rv_ptr r2 = rs_next s" "rv_task r2 = rt_tid ?t" "rv_nMax r2 = gm_nMax m" "\<not> rv_dynSent r2"
      using r0 by (simp_all add: r2_def r1_def read_request_def)
    have o2: "\<not> rv_opt PART_OPT_DUMMY r2" "\<not> rv_opt PART_OPT_OVERBOOK r2" "\<not> rv_opt PART_OPT_DYNAMIC r2"
      using p by (simp_all add: rv_opt_def o plain_request_def plain_ask_def)
    have own: "rt_tid ?t = rt_logger ?t" using p by (simp add: plain_request_def plain_ask_def)
    have no: "\<not> (rt_ptid ?t \<noteq> 0 \<and> rt_partition ?t = None)" "jb_threads (rt_job ?t) \<noteq> []" "gm_complete m" using False by simp_all
    have "msg_GETRESERVATION hk m s = (if rv_opt PART_OPT_DUMMY r2 then Some (placeholder a r2 ?s2) else queue_request hk m a r2 ?s2)"
      unfolding msg_GETRESERVATION_def f r2_def r1_def rid_def Let_def option.case if_not_P [OF no(1)]
      by (simp only: d no(2) r0(1) prod.case option.case own if_False not_True_eq_False no(3) simp_thms)
    then have eq: "msg_GETRESERVATION hk m s = queue_request hk m a r2 ?s2" using o2(1) by simp
    have h: "rs_heap ?s2 a = ?t\<lparr>rt_nextResID := rid\<rparr>" by (simp add: rid_def PStask_getNextResID_def Let_def)
    have st: "stays a s ?s2" by (simp add: stays_def PStask_getNextResID_def Let_def)
    have fresh: "rid \<notin> rv_rid ` set (rt_reservations ?t @ rt_requests ?t)" "rid \<notin> fst ` set out"
      using p by (simp_all add: plain_request_def rid_def Let_def)
    have "\<exists>s'. queue_request hk m a r2 ?s2 = Some s' \<and> moved {rid} a out ?s2 s'"
      unfolding r2(1) [symmetric]
    proof (rule queue_request_moved [OF hk, where n = "rs_next s"])
      show "find_task (rt_tid (rs_heap ?s2 a)) ?s2 = Some a"
        unfolding stays_tid [OF st] stays_find [OF st] by (rule find_task_own [OF f])
      show "tinv (rs_next s) out (rs_heap ?s2 a)" using t unfolding h by simp
      show "req_ok out (rt_tid (rs_heap ?s2 a)) r2"
        using o2 r2 p out_of_none [OF fresh(2)] unfolding h by (simp add: req_ok_def plain_request_def plain_ask_def word_less_nat_alt)
      show "rv_rid r2 \<notin> rv_rid ` set (rt_reservations (rs_heap ?s2 a) @ rt_requests (rs_heap ?s2 a))"
        using fresh(1) r2(1) unfolding h by simp
    qed (simp_all add: r2)
    then obtain s' where s': "queue_request hk m a r2 ?s2 = Some s'" "moved {rid} a out ?s2 s'" by blast
    have "stays a ?s2 s'" "rs_next ?s2 \<le> rs_next s'" "tinv (rs_next s') out (rs_heap s' a)"
      using s'(2) by (simp_all only: moved_def)
    moreover have "ids_kept {rid} (snd (PStask_getNextResID ?t)) (rs_heap s' a)" using s'(2) by (simp add: moved_def)
    ultimately have "asked a out s s'" using stays_trans [OF st] by (simp add: asked_def rid_def)
    then show ?thesis using eq s'(1) by simp
  qed
qed

end
