(* ===== verification/Part_Back.thy ===== *)
theory Part_Back
  imports Part_Keep
begin

text \<open>
  Slots that leave and come back: \<open>msg_GETSLOTS\<close>, \<open>msg_CHILDRESREL\<close> and \<open>PSIDpart_cleanupRes\<close>, and what they
  do to the ledger.
\<close>

declare not_None_eq [simp del]

section \<open>The slots of a queue\<close>

definition waiting_of :: "rsv \<Rightarrow> slot list" where
  "waiting_of r = drop (unat (rv_nextSlot r)) (slots_of_rsv r)"

lemma unspawned_waiting: "unspawned q = concat (map waiting_of q)"
  by (simp add: unspawned_def waiting_of_def [abs_def])

lemma unspawned_store:
  "distinct (map rv_ptr q) \<Longrightarrow> r \<in> set q \<Longrightarrow> rv_ptr r2 = rv_ptr r \<Longrightarrow>
   mset (unspawned (store_rsv r2 q)) + mset (waiting_of r) = mset (unspawned q) + mset (waiting_of r2)"
proof (induction q)
  case (Cons x q)
  show ?case
  proof (cases "x = r")
    case True
    then have "\<forall>y \<in> set q. \<not> same_rsv r2 y" using Cons.prems by (auto simp: same_rsv_def image_iff)
    then have "store_rsv r2 q = q" by (simp add: store_rsv_def map_idI)
    then show ?thesis using True Cons.prems(3) by (simp add: store_rsv_def same_rsv_def waiting_of_def)
  next
    case False
    then have "\<not> same_rsv r2 x" using Cons.prems by (auto simp: same_rsv_def image_iff)
    then show ?thesis using False Cons by (simp add: store_rsv_def waiting_of_def)
  qed
qed simp

lemma unspawned_drop:
  "distinct (map rv_ptr q) \<Longrightarrow> r \<in> set q \<Longrightarrow>
   mset (unspawned (filter (\<lambda>x. \<not> same_rsv r x) q)) + mset (waiting_of r) = mset (unspawned q)"
proof (induction q)
  case (Cons x q)
  show ?case
  proof (cases "x = r")
    case True
    then have "filter (\<lambda>x. \<not> same_rsv r x) q = q" using Cons.prems by (auto simp: same_rsv_def image_iff intro!: filter_True)
    then show ?thesis using True by (simp add: same_rsv_def waiting_of_def)
  next
    case False
    then have "\<not> same_rsv r x" using Cons.prems by (auto simp: same_rsv_def image_iff)
    then show ?thesis using False Cons by (simp add: waiting_of_def)
  qed
qed simp

lemma swap_cancel:
  fixes A :: "'a multiset"
  assumes "A + r = U + q" "r + o1 = q + o2"
  shows "A + o2 = U + o1"
proof -
  have "A + o2 + r = (A + r) + o2" by (simp add: ac_simps)
  also have "\<dots> = U + (q + o2)" by (simp add: assms(1) ac_simps)
  also have "\<dots> = U + (r + o1)" by (simp only: assms(2))
  also have "\<dots> = U + o1 + r" by (simp add: ac_simps)
  finally show ?thesis by (rule add_right_imp_eq)
qed

text \<open>A reservation changes in its place.\<close>

lemma tinv2_store:
  assumes t: "tinv2 n out1 out t" and r: "r \<in> set (rt_reservations t)" and k: "rv_rid r2 = rv_rid r" "rv_ptr r2 = rv_ptr r"
    and w: "mset (waiting_of r) + mset (map snd out1) = mset (waiting_of r2) + mset (map snd out1')"
    and ok: "res_ok out' r2" and o: "\<And>i. i \<noteq> rv_rid r \<Longrightarrow> out_of i out' = out_of i out"
  shows "tinv2 n out1' out' (t\<lparr>rt_reservations := store_rsv r2 (rt_reservations t)\<rparr>)"
proof -
  let ?q = "rt_reservations t"
  have d: "distinct (map rv_ptr ?q)" "distinct (map rv_rid ?q)" using t by (simp_all add: tinv2_def)
  have m: "map rv_rid (store_rsv r2 ?q) = map rv_rid ?q" "map rv_ptr (store_rsv r2 ?q) = map rv_ptr ?q"
    using store_keys [OF k r d(1)] by simp_all
  have ms: "rv_rid ` set (store_rsv r2 ?q) = rv_rid ` set ?q" "rv_ptr ` set (store_rsv r2 ?q) = rv_ptr ` set ?q"
    using m by (metis set_map)+
  have "mset (unspawned (store_rsv r2 ?q)) + mset (waiting_of r) = mset (unspawned ?q) + mset (waiting_of r2)"
    by (rule unspawned_store [OF d(1) r k(2)])
  then have "mset (unspawned (store_rsv r2 ?q) @ map snd out1') = mset (unspawned ?q @ map snd out1)"
    using swap_cancel w unfolding mset_append by blast
  then have b: "books (unspawned (store_rsv r2 ?q) @ map snd out1') (rt_job t)"
    by (rule books_mset [rotated]) (use t in \<open>simp add: tinv2_def\<close>)
  have eq: "res_ok out' x" if "x \<in> set (store_rsv r2 ?q)" for x
  proof (cases "x = r2")
    case False
    then have x: "x \<in> set ?q" "\<not> same_rsv r2 x" using that by (auto simp: store_rsv_def split: if_splits)
    then have "rv_rid x \<noteq> rv_rid r" using d(2) r k by (auto simp: distinct_map inj_on_def same_rsv_def)
    then show ?thesis using t x(1) o by (simp add: tinv2_def res_ok_def)
  qed (use ok in simp)
  have rq: "req_ok out' (rt_tid t) x" if "x \<in> set (rt_requests t)" for x
  proof -
    have "rv_rid x \<noteq> rv_rid r" using t r that by (auto simp: tinv2_def)
    then show ?thesis using t that o by (simp add: tinv2_def req_ok_def)
  qed
  have p: "rv_ptr x < n" if "x \<in> set (store_rsv r2 ?q)" for x
  proof -
    have "rv_ptr x \<in> rv_ptr ` set ?q" using that ms(2) by blast
    then show ?thesis using t by (auto simp: tinv2_def)
  qed
  have dd: "distinct (map rv_rid (store_rsv r2 ?q @ rt_requests t))" "distinct (map rv_ptr (store_rsv r2 ?q @ rt_requests t))"
    using t unfolding map_append distinct_append m by (simp_all add: tinv2_def)
  have "\<forall>x \<in> set (store_rsv r2 ?q @ rt_requests t). rv_ptr x < n" using p t by (auto simp: tinv2_def)
  then show ?thesis using t b eq rq dd unfolding tinv2_def by simp
qed

text \<open>A reservation goes.\<close>

lemma tinv2_remove:
  assumes t: "tinv2 n out1 out t" and r: "r \<in> set (rt_reservations t)"
    and w: "waiting_of r = []" and o: "\<And>i. i \<noteq> rv_rid r \<Longrightarrow> out_of i out' = out_of i out"
  shows "tinv2 n out1 out' (t\<lparr>rt_reservations := filter (\<lambda>x. \<not> same_rsv r x) (rt_reservations t)\<rparr>)"
proof -
  let ?q = "rt_reservations t"
  have d: "distinct (map rv_ptr ?q)" "distinct (map rv_rid ?q)" using t by (simp_all add: tinv2_def)
  have "mset (unspawned (filter (\<lambda>x. \<not> same_rsv r x) ?q) @ map snd out1) = mset (unspawned ?q @ map snd out1)"
    using unspawned_drop [OF d(1) r] w by simp
  then have b: "books (unspawned (filter (\<lambda>x. \<not> same_rsv r x) ?q) @ map snd out1) (rt_job t)"
    by (rule books_mset [rotated]) (use t in \<open>simp add: tinv2_def\<close>)
  have eq: "res_ok out' x" if "x \<in> set (filter (\<lambda>x. \<not> same_rsv r x) ?q)" for x
  proof -
    have x: "x \<in> set ?q" "\<not> same_rsv r x" using that by simp_all
    then have "rv_rid x \<noteq> rv_rid r" using d(2) r by (auto simp: distinct_map inj_on_def same_rsv_def)
    then show ?thesis using t x(1) o by (simp add: tinv2_def res_ok_def)
  qed
  have rq: "req_ok out' (rt_tid t) x" if "x \<in> set (rt_requests t)" for x
  proof -
    have "rv_rid x \<noteq> rv_rid r" using t r that by (auto simp: tinv2_def)
    then show ?thesis using t that o by (simp add: tinv2_def req_ok_def)
  qed
  have dd: "distinct (map rv_rid (filter (\<lambda>x. \<not> same_rsv r x) ?q @ rt_requests t))"
    "distinct (map rv_ptr (filter (\<lambda>x. \<not> same_rsv r x) ?q @ rt_requests t))"
    using t by (auto simp: tinv2_def distinct_map_filter)
  have "\<forall>x \<in> set (filter (\<lambda>x. \<not> same_rsv r x) ?q @ rt_requests t). rv_ptr x < n" using t by (auto simp: tinv2_def)
  then show ?thesis using t b eq rq dd unfolding tinv2_def by simp
qed

section \<open>Handing out\<close>

definition given :: "nat \<Rightarrow> int32 \<Rightarrow> uint16 option \<Rightarrow> rstate \<Rightarrow> slot list" where
  "given a rid num s =
     (case (num, findRes (rt_reservations (rs_heap s a)) rid) of
        (Some n, Some r) \<Rightarrow>
          if rt_ptid (rs_heap s a) \<noteq> 0 \<and> rt_partition (rs_heap s a) = None \<or> rv_slots r = None \<or> unat n > NODES_CHUNK
             \<or> rv_nextSlot r + ucast n > rv_nSlots r \<or> fst (take_send s) \<noteq> 0 then []
          else take (unat n) (drop (unat (rv_nextSlot r)) (slots_of_rsv r))
      | _ \<Rightarrow> [])"

lemma out_of_append: "out_of i (l @ k) = out_of i l + out_of i k"
  by (simp add: out_of_def)

lemma out_of_pairs: "out_of i (map (Pair rid) l) = (if i = rid then length l else 0)"
  by (simp add: out_of_def comp_def)

lemma hand_out_moved:
  assumes t: "tinv (rs_next s) out (rs_heap s a)" and r: "findRes (rt_reservations (rs_heap s a)) rid = Some r"
    and n: "unat n \<le> NODES_CHUNK" "\<not> rv_nextSlot r + ucast n > rv_nSlots r"
  shows "moved {} a (out @ (if fst (take_send s) \<noteq> 0 then [] else map (Pair rid) (take (unat n) (drop (unat (rv_nextSlot r)) (slots_of_rsv r)))))
    s (hand_out sender a r n s)"
proof -
  obtain e m where send: "take_send s = (e, s\<lparr>rs_send := m\<rparr>)" by (rule take_send_cases)
  show ?thesis
  proof (cases "e = 0")
    case False
    then show ?thesis using t send by (simp add: hand_out_def moved_def)
  next
    case True
    let ?t = "rs_heap s a"
    define k where "k = unat n"
    have rr: "r \<in> set (rt_reservations ?t)" "rv_rid r = rid" using findRes_Some [OF r] by simp_all
    have ok: "res_ok out r" using t rr by (simp add: tinv_def2)
    have k8: "k \<le> 256" using n(1) by (simp add: k_def NODES_CHUNK_def)
    have un: "unat (ucast n :: 32 word) = k" using k8 by (simp add: k_def unsigned_ucast_eq take_bit_nat_eq_self_iff)
    have sum: "unat (rv_nextSlot r + ucast n) = unat (rv_nextSlot r) + k"
    proof -
      have "unat (rv_nextSlot r) + k < 2 ^ 32" using ok k8 by (simp add: res_ok_def)
      then show ?thesis using un by (simp add: unat_word_ariths)
    qed
    have le: "unat (rv_nextSlot r) + k \<le> unat (rv_nSlots r)" using n(2) sum by (simp add: word_less_nat_alt)
    define l where "l = take k (drop (unat (rv_nextSlot r)) (slots_of_rsv r))"
    define r2 where "r2 = r\<lparr>rv_nextSlot := rv_nextSlot r + ucast n\<rparr>"
    have len: "length l = k" using le ok by (simp add: l_def res_ok_def)
    have sl: "slots_of_rsv r2 = slots_of_rsv r" by (simp add: r2_def slots_of_rsv_def)
    have nx: "unat (rv_nextSlot r2) = unat (rv_nextSlot r) + k" using sum by (simp add: r2_def)
    have "waiting_of r = l @ waiting_of r2"
      unfolding waiting_of_def sl nx l_def by (simp add: add.commute flip: drop_drop)
    then have "tinv2 (rs_next s) (out @ map (Pair rid) l) (out @ map (Pair rid) l) (?t\<lparr>rt_reservations := store_rsv r2 (rt_reservations ?t)\<rparr>)"
    proof (intro tinv2_store [of _ out out ?t r])
      show "res_ok (out @ map (Pair rid) l) r2"
        using ok le rr(2) len sl nx by (simp add: res_ok_def out_of_append out_of_pairs) (simp add: r2_def out_of_pairs)
    qed (use t rr in \<open>simp_all add: tinv_def r2_def out_of_append out_of_pairs comp_def\<close>)
    moreover have "rv_rid ` set (store_rsv r2 (rt_reservations ?t)) \<subseteq> rv_rid ` set (rt_reservations ?t) \<union> rv_rid ` set (rt_requests ?t)"
      using rids_store [OF rr(1), of r2] by (auto simp: r2_def)
    ultimately show ?thesis
      using send True unfolding hand_out_def l_def k_def r2_def
      by (simp add: moved_def stays_def tinv_def tinv2_def ids_kept_def rids_def image_Un)
  qed
qed

lemma GETSLOTS_moved:
  assumes a: "at_task a dest sender s" and t: "tinv (rs_next s) out (rs_heap s a)"
  shows "moved {} a (out @ map (Pair rid) (given a rid num s)) s (msg_GETSLOTS sender dest rid num s)"
proof -
  obtain e m where send: "take_send s = (e, s\<lparr>rs_send := m\<rparr>)" by (rule take_send_cases)
  have no: "moved {} a out s (slots_denied sender x s)" for x
    using t send by (simp add: slots_denied_def moved_def)
  have no2: "moved {} a out s (slots_denied sender x (s\<lparr>rs_send := m\<rparr>))" for x
  proof -
    obtain e2 m2 where "take_send (s\<lparr>rs_send := m\<rparr>) = (e2, s\<lparr>rs_send := m2\<rparr>)" using take_send_cases [of "s\<lparr>rs_send := m\<rparr>"] by auto
    then show ?thesis using t by (simp add: slots_denied_def moved_def)
  qed
  have f: "find_task (if PSC_getPID dest \<noteq> 0 then dest else sender) s = Some a" using a by (simp add: at_task_def)
  show ?thesis
  proof (cases "rt_ptid (rs_heap s a) \<noteq> 0 \<and> rt_partition (rs_heap s a) = None")
    case True
    then show ?thesis using f send no2 t
      by (auto simp: msg_GETSLOTS_def given_def moved_def Let_def split: option.split)
  next
    case fwd: False
    have eq: "msg_GETSLOTS sender dest rid num s = (case num of
        None \<Rightarrow> slots_denied sender EINVAL_NO s
      | Some n \<Rightarrow> (case findRes (rt_reservations (rs_heap s a)) rid of
           None \<Rightarrow> slots_denied sender EBADRQC_NO s
         | Some r \<Rightarrow>
             if rv_slots r = None then slots_denied sender EBADRQC_NO s
             else if unat n > NODES_CHUNK then slots_denied sender EINVAL_NO s
             else if rv_nextSlot r + ucast n > rv_nSlots r then slots_denied sender ENOSPC_NO s
             else hand_out sender a r n s))"
      unfolding msg_GETSLOTS_def f Let_def option.case if_not_P [OF fwd] ..
    show ?thesis
    proof (cases "\<exists>n r. num = Some n \<and> findRes (rt_reservations (rs_heap s a)) rid = Some r")
      case False
      then have "given a rid num s = []" unfolding given_def by (auto split: option.split)
      then show ?thesis using False no unfolding eq by (auto split: option.split)
    next
      case True
      then obtain n r where nr: "num = Some n" "findRes (rt_reservations (rs_heap s a)) rid = Some r" by blast
      show ?thesis
        using no hand_out_moved [OF t nr(2), of n sender] fwd unfolding eq given_def unfolding nr
        by (auto simp: not_less)
    qed
  qed
qed


section \<open>Taking back\<close>

lemma tinv2_less:
  assumes "tinv2 n out1 out t" "\<And>i. out_of i out' \<le> out_of i out"
  shows "tinv2 n out1 out' t"
proof -
  have "res_ok out' r" if "res_ok out r" for r using that assms(2) [of "rv_rid r"] by (simp add: res_ok_def)
  moreover have "req_ok out' (rt_tid t) r" if "req_ok out (rt_tid t) r" for r using that assms(2) [of "rv_rid r"] by (simp add: req_ok_def)
  ultimately show ?thesis using assms(1) by (simp add: tinv2_def)
qed

definition away :: "int32 \<Rightarrow> slot list \<Rightarrow> ledger \<Rightarrow> ledger" where
  "away rid l out = fold (\<lambda>sl. remove1 (rid, sl)) l out"

lemma away_simps [simp]: "away rid [] out = out" "away rid (sl # l) out = away rid l (remove1 (rid, sl) out)"
  by (simp_all add: away_def)

lemma out_of_remove: "e \<in> set out \<Longrightarrow> out_of i out = out_of i (remove1 e out) + of_bool (fst e = i)"
  by (induction out) (auto simp: out_of_def)

lemma out_of_away:
  "mset (map (Pair rid) l) \<subseteq># mset out \<Longrightarrow> out_of i out = out_of i (away rid l out) + (if i = rid then length l else 0)"
proof (induction l arbitrary: out)
  case (Cons sl l)
  have "(rid, sl) \<in># mset out" using Cons.prems by (simp add: insert_subset_eq_iff)
  then have m: "(rid, sl) \<in> set out" by simp
  have "mset (map (Pair rid) l) \<subseteq># mset (remove1 (rid, sl) out)" using Cons.prems by (simp add: insert_subset_eq_iff)
  then show ?case using Cons.IH out_of_remove [OF m, of i] by auto
qed simp

text \<open>Sets of CPUs that go are taken out of the books, whatever slots they are made of.\<close>

lemma release_set_books:
  assumes del: "rt_delegate (rs_heap s a) = None" and b: "books (sl # L) (rt_job (rs_heap s a))"
  shows "\<exists>jb. rs_heap (release_set a a rid sl s) = (rs_heap s)(a := (rs_heap s a)\<lparr>rt_job := jb\<rparr>) \<and> books L jb
    \<and> stays a s (release_set a a rid sl s) \<and> rs_next (release_set a a rid sl s) = rs_next s"
proof -
  let ?t = "rs_heap s a"
  have m: "mset (L @ [sl]) = mset (sl # L)" by simp
  have b2: "books (L @ [sl]) (rt_job ?t)" by (rule books_mset [OF b m])
  obtain k' where rel: "releaseThreads [sl] (rt_job ?t) = (slot_count sl, k', (rt_job ?t)\<lparr>jb_threads := minus_held [sl] (jb_threads (rt_job ?t))\<rparr>)"
    "books L ((rt_job ?t)\<lparr>jb_threads := minus_held [sl] (jb_threads (rt_job ?t)), jb_usedThreads := jb_usedThreads (rt_job ?t) - of_nat (slot_count sl)\<rparr>)"
    using books_release [OF b2] by auto
  define jb where "jb = (rt_job ?t)\<lparr>jb_threads := minus_held [sl] (jb_threads (rt_job ?t)), jb_usedThreads := jb_usedThreads (rt_job ?t) - of_nat (slot_count sl)\<rparr>"
  have eq: "release_set a a rid sl s = upd_task a (\<lambda>t. t\<lparr>rt_job := jb\<rparr>) s"
    using rel(1) del by (simp add: release_set_def give_back_def unbook_def book_def drop_delegate_def add_used_def upd_task_def jb_def Let_def)
  show ?thesis using rel(2) unfolding eq by (intro exI [of _ jb]) (simp add: stays_def jb_def)
qed

lemma release_sets_books:
  "rt_delegate (rs_heap s a) = None \<Longrightarrow> books (l @ L) (rt_job (rs_heap s a)) \<Longrightarrow>
   \<exists>jb s'. fold (release_set a a rid) l s = s' \<and> rs_heap s' a = (rs_heap s a)\<lparr>rt_job := jb\<rparr> \<and> books L jb
     \<and> stays a s s' \<and> rs_next s' = rs_next s"
proof (induction l arbitrary: s)
  case Nil
  then show ?case by (auto intro: exI [of _ "rt_job (rs_heap s a)"])
next
  case (Cons sl l)
  let ?s = "release_set a a rid sl s"
  obtain jb where s1: "rs_heap ?s = (rs_heap s)(a := (rs_heap s a)\<lparr>rt_job := jb\<rparr>)" "books (l @ L) jb" "stays a s ?s" "rs_next ?s = rs_next s"
    using release_set_books [OF Cons.prems(1), of sl "l @ L" rid] Cons.prems(2) by auto
  obtain jb2 s' where s2: "fold (release_set a a rid) l ?s = s'" "rs_heap s' a = (rs_heap ?s a)\<lparr>rt_job := jb2\<rparr>" "books L jb2"
    "stays a ?s s'" "rs_next s' = rs_next ?s"
    using Cons.IH [of ?s] Cons.prems(1) s1(1,2) by auto
  show ?case using s1 s2 stays_trans [OF s1(3) s2(4)] by auto
qed

text \<open>A set of CPUs that several slots of a node were merged into.\<close>

definition merge_slots :: "slot list \<Rightarrow> slot" where
  "merge_slots g = \<lparr>sl_node = sl_node (hd g), sl_cpus = fold (\<lambda>sl cs. PSCPU_addCPUs cs (sl_cpus sl)) g zero_set\<rparr>"

definition one_node :: "slot list \<Rightarrow> bool" where
  "one_node g \<longleftrightarrow> g \<noteq> [] \<and> (\<forall>sl \<in> set g. sl_node sl = sl_node (hd g))"

lemma fold_addCPUs: "cpu_wf cs \<Longrightarrow> wf_slots g \<Longrightarrow>
  cpu_wf (fold (\<lambda>sl cs. PSCPU_addCPUs cs (sl_cpus sl)) g cs)
  \<and> cpus (fold (\<lambda>sl cs. PSCPU_addCPUs cs (sl_cpus sl)) g cs) = cpus cs \<union> (\<Union>sl \<in> set g. cpus (sl_cpus sl))"
proof (induction g arbitrary: cs)
  case (Cons sl g)
  have w: "cpu_wf (sl_cpus sl)" "wf_slots g" using Cons.prems(2) by simp_all
  then have l: "length (sl_cpus sl) = length cs" using Cons.prems(1) by (simp add: cpu_wf_def)
  have c: "cpu_wf (PSCPU_addCPUs cs (sl_cpus sl))" using w(1) Cons.prems(1) by (simp add: cpu_wf_def PSCPU_addCPUs_def)
  show ?case using Cons.IH [OF c w(2)] cpus_addCPUs [OF l] by auto
qed simp

lemma hold_le_one: "hold g n c \<le> 1 \<Longrightarrow> hold g n c = of_bool (\<exists>sl \<in> set g. sl_node sl = n \<and> c \<in> cpus (sl_cpus sl))"
  using hold_zero [of g n c] by (cases "hold g n c = 0") auto

lemma hold_merge:
  assumes "wf_slots g" "one_node g" "hold g n c \<le> 1"
  shows "hold [merge_slots g] n c = hold g n c"
proof -
  have "cpus (sl_cpus (merge_slots g)) = (\<Union>sl \<in> set g. cpus (sl_cpus sl))"
    using fold_addCPUs [OF zero_set_wf(1) assms(1)] by (simp add: merge_slots_def)
  moreover have "sl_node (merge_slots g) = sl_node (hd g)" by (simp add: merge_slots_def)
  moreover have "(\<exists>sl \<in> set g. sl_node sl = n \<and> c \<in> cpus (sl_cpus sl)) \<longleftrightarrow> sl_node (hd g) = n \<and> c \<in> (\<Union>sl \<in> set g. cpus (sl_cpus sl))"
  proof -
    define k where "k = sl_node (hd g)"
    have "\<forall>sl \<in> set g. sl_node sl = k" using assms(2) unfolding one_node_def k_def by blast
    then have "(\<exists>sl \<in> set g. sl_node sl = n \<and> c \<in> cpus (sl_cpus sl)) \<longleftrightarrow> k = n \<and> (\<exists>sl \<in> set g. c \<in> cpus (sl_cpus sl))" by auto
    then show ?thesis unfolding k_def by simp
  qed
  ultimately show ?thesis unfolding hold_le_one [OF assms(3)] by simp
qed

lemma merge_wf: "wf_slots g \<Longrightarrow> cpu_wf (sl_cpus (merge_slots g))"
  using fold_addCPUs [OF zero_set_wf(1)] by (simp add: merge_slots_def)

lemma hold_merges:
  "wf_slots (concat gs) \<Longrightarrow> \<forall>g \<in> set gs. one_node g \<Longrightarrow> hold (concat gs) n c \<le> 1 \<Longrightarrow>
   hold (map merge_slots gs) n c = hold (concat gs) n c \<and> wf_slots (map merge_slots gs)"
proof (induction gs)
  case (Cons g gs)
  have w: "wf_slots g" "wf_slots (concat gs)" "hold g n c \<le> 1" "hold (concat gs) n c \<le> 1" "one_node g" using Cons.prems by simp_all
  have "hold (map merge_slots (g # gs)) n c = hold [merge_slots g] n c + hold (map merge_slots gs) n c" by simp
  moreover have "hold (map merge_slots gs) n c = hold (concat gs) n c" "wf_slots (map merge_slots gs)"
    using Cons.IH [OF w(2) _ w(4)] Cons.prems(2) by simp_all
  ultimately show ?case unfolding hold_merge [OF w(1,5,3)] using merge_wf [OF w(1)] by simp
qed simp

lemma away_mset: "mset (map (Pair rid) l) \<subseteq># mset out \<Longrightarrow> mset (map snd out) = mset l + mset (map snd (away rid l out))"
proof (induction l arbitrary: out)
  case (Cons sl l)
  have "(rid, sl) \<in># mset out" using Cons.prems by (simp add: insert_subset_eq_iff)
  then have m: "(rid, sl) \<in> set out" by simp
  have "mset (map (Pair rid) l) \<subseteq># mset (remove1 (rid, sl) out)" using Cons.prems by (simp add: insert_subset_eq_iff)
  then have i: "mset (map snd (remove1 (rid, sl) out)) = mset l + mset (map snd (away rid l (remove1 (rid, sl) out)))" by (rule Cons.IH)
  have "mset out = add_mset (rid, sl) (mset (remove1 (rid, sl) out))" using m by simp
  then have "mset (map snd out) = add_mset sl (mset (map snd (remove1 (rid, sl) out)))" by (metis image_mset_add_mset mset_map snd_conv)
  then show ?case using i by simp
qed simp

lemma release_merged_tinv2:
  assumes t: "tinv2 n out1 out (rs_heap s a)" and sub: "mset (map (Pair k) (concat gs)) \<subseteq># mset out1" and g: "\<forall>g \<in> set gs. one_node g"
  shows "\<exists>s'. fold (release_set a a rid) (map merge_slots gs) s = s' \<and> tinv2 n (away k (concat gs) out1) out (rs_heap s' a)
     \<and> stays a s s' \<and> rs_next s' = rs_next s \<and> ids_kept {} (rs_heap s a) (rs_heap s' a)"
proof -
  let ?t = "rs_heap s a"
  let ?L = "unspawned (rt_reservations ?t) @ map snd (away k (concat gs) out1)"
  have "mset (concat gs @ ?L) = mset (unspawned (rt_reservations ?t) @ map snd out1)" using away_mset [OF sub] by simp
  then have b: "books (concat gs @ ?L) (rt_job ?t)" by (rule books_mset [rotated]) (use t in \<open>simp add: tinv2_def\<close>)
  have w: "wf_slots (concat gs)" using b by (simp add: books_def)
  have le: "hold (concat gs) n c \<le> 1" for n c using books_bound [OF b, of n c] by simp
  have bm: "books (map merge_slots gs @ ?L) (rt_job ?t)"
  proof (rule books_same [OF b])
    show "wf_slots (map merge_slots gs @ ?L)" using hold_merges [OF w g le] b by (simp add: books_def)
    show "hold (map merge_slots gs @ ?L) n c = hold (concat gs @ ?L) n c" for n c using hold_merges [OF w g le] by simp
  qed
  have del: "rt_delegate ?t = None" using t by (simp add: tinv2_def)
  obtain jb s' where s': "fold (release_set a a rid) (map merge_slots gs) s = s'" "rs_heap s' a = ?t\<lparr>rt_job := jb\<rparr>" "books ?L jb"
    "stays a s s'" "rs_next s' = rs_next s"
    using release_sets_books [OF del bm] by blast
  then show ?thesis using t by (simp add: tinv2_def ids_kept_def rids_def)
qed

lemma count_released_tinv2:
  assumes t: "tinv2 n out out (rs_heap s a)" and f: "findRes (rt_reservations (rs_heap s a)) rid = Some r"
    and l: "mset (map (Pair rid) l) \<subseteq># mset out" "length l = unat num"
  shows "\<exists>q. rs_heap (count_released a r num s) = (rs_heap s)(a := (rs_heap s a)\<lparr>rt_reservations := q\<rparr>)
    \<and> tinv2 n out (away rid l out) ((rs_heap s a)\<lparr>rt_reservations := q\<rparr>) \<and> stays a s (count_released a r num s)
    \<and> rs_next (count_released a r num s) = rs_next s \<and> ids_kept {} (rs_heap s a) ((rs_heap s a)\<lparr>rt_reservations := q\<rparr>)"
proof -
  let ?t = "rs_heap s a"
  let ?q = "rt_reservations ?t"
  define r2 where "r2 = r\<lparr>rv_relSlots := rv_relSlots r + ucast num\<rparr>"
  have r: "r \<in> set ?q" "rv_rid r = rid" using findRes_Some [OF f] by simp_all
  have ok: "res_ok out r" using t r by (simp add: tinv2_def)
  have oo: "out_of rid out = out_of rid (away rid l out) + length l" "\<And>i. i \<noteq> rid \<Longrightarrow> out_of i (away rid l out) = out_of i out"
    using out_of_away [OF l(1)] by auto
  have un: "unat (ucast num :: 32 word) = length l" using l(2) unsigned_less [of num, where ?'a = nat]
    by (simp add: unsigned_ucast_eq take_bit_nat_eq_self_iff)
  have sum: "unat (rv_relSlots r + ucast num) = unat (rv_relSlots r) + length l"
  proof -
    have "unat (rv_relSlots r) + length l < 2 ^ 32" using ok oo(1) r(2) by (simp add: res_ok_def)
    then show ?thesis using un by (simp add: unat_word_ariths)
  qed
  have d: "distinct (map rv_rid ?q)" using t by (simp add: tinv2_def)
  have k: "rv_rid r2 = rv_rid r" "rv_ptr r2 = rv_ptr r" and w: "waiting_of r2 = waiting_of r"
    by (simp_all add: r2_def waiting_of_def slots_of_rsv_def)
  show ?thesis
  proof (cases "rv_relSlots r2 \<ge> rv_nSlots r2")
    case True
    then have "unat (rv_nSlots r) \<le> unat (rv_relSlots r) + length l" using sum by (simp add: r2_def word_le_nat_alt)
    then have "waiting_of r = []" using ok oo(1) r(2) by (simp add: res_ok_def waiting_of_def)
    then have "tinv2 n out (away rid l out) (?t\<lparr>rt_reservations := filter (\<lambda>x. \<not> same_rsv r x) ?q\<rparr>)"
      using tinv2_remove [OF t r(1)] oo(2) r(2) by simp
    then show ?thesis
      using True deqRes_same [OF d r(1) k]
      by (intro exI [of _ "filter (\<lambda>x. \<not> same_rsv r x) ?q"])
        (auto simp: count_released_def r2_def [symmetric] Let_def stays_def ids_kept_def rids_def)
  next
    case False
    have "tinv2 n out (away rid l out) (?t\<lparr>rt_reservations := store_rsv r2 ?q\<rparr>)"
    proof (rule tinv2_store [OF t r(1) k])
      show "res_ok (away rid l out) r2"
        using ok oo(1) r(2) sum by (simp add: res_ok_def r2_def slots_of_rsv_def)
    qed (use w oo(2) r(2) in simp_all)
    then show ?thesis
      using False rids_store [OF r(1) k(1)]
      by (intro exI [of _ "store_rsv r2 ?q"]) (auto simp: count_released_def r2_def [symmetric] Let_def stays_def ids_kept_def rids_def)
  qed
qed


text \<open>Is the message about this job, and not for somebody else?  The sets of CPUs that it releases.\<close>

definition processed :: "nat \<Rightarrow> childrel \<Rightarrow> rstate \<Rightarrow> bool" where
  "processed a m s \<longleftrightarrow> jb_threads (rt_job (rs_heap s a)) \<noteq> [] \<and> cr_nBytes m \<le> PSCPU_bytesForCPUs PSCPU_MAX
     \<and> \<not> (case findRes (rt_reservations (rs_heap s a)) (cr_rid m) of None \<Rightarrow> False | Some r \<Rightarrow> rv_opt PART_OPT_DUMMY r \<and> rv_requester r \<noteq> 0)"

definition taken_back :: "nat \<Rightarrow> childrel \<Rightarrow> rstate \<Rightarrow> slot list" where
  "taken_back a m s = (if processed a m s then map (slot_of_set m (rs_myID s)) (cr_sets m) else [])"

lemma CHILDRESREL_moved:
  assumes hk: "plain_hooks hk" and f: "find_task (cr_dest m) s = Some a" and t: "tinv (rs_next s) out (rs_heap s a)"
    and l: "taken_back a m s = map merge_slots gs" "\<forall>g \<in> set gs. one_node g" "mset (map (Pair (cr_rid m)) (concat gs)) \<subseteq># mset out"
      "processed a m s \<Longrightarrow> length (concat gs) = unat (cr_numSlots m)"
  shows "\<exists>s'. msg_CHILDRESREL hk m s = Some s' \<and> moved {} a (away (cr_rid m) (concat gs) out) s s'"
proof -
  let ?t = "rs_heap s a"
  let ?found = "findRes (rt_reservations ?t) (cr_rid m)"
  let ?dummy = "case ?found of None \<Rightarrow> False | Some r \<Rightarrow> rv_opt PART_OPT_DUMMY r \<and> rv_requester r \<noteq> 0"
  have d: "delegate_of a s = a" using t by (simp add: delegate_of_def tinv_def2)
  show ?thesis
  proof (cases "jb_threads (rt_job ?t) = [] \<or> cr_nBytes m > PSCPU_bytesForCPUs PSCPU_MAX \<or> ?dummy")
    case True
    then have none: "gs = []" using l(1) by (auto simp: taken_back_def processed_def)
    have "\<exists>ms. msg_CHILDRESREL hk m s = Some (emit ms s) \<or> msg_CHILDRESREL hk m s = Some s"
      using True f d unfolding msg_CHILDRESREL_def by (auto simp: Let_def)
    then show ?thesis using t none by (auto simp: moved_def)
  next
    case False
    let ?l = "map (slot_of_set m (rs_myID s)) (cr_sets m)"
    have p: "processed a m s" using False by (simp add: processed_def not_less)
    have tb: "?l = map merge_slots gs" using p l(1) by (simp add: taken_back_def)
    have len: "length (concat gs) = unat (cr_numSlots m)" by (rule l(4) [OF p])
    let ?g = "concat gs"
    define s1 where "s1 = (case ?found of None \<Rightarrow> s | Some r \<Rightarrow> count_released a r (cr_numSlots m) s)"
    have c: "tinv2 (rs_next s) out (away (cr_rid m) ?g out) (rs_heap s1 a) \<and> stays a s s1 \<and> rs_next s1 = rs_next s
      \<and> ids_kept {} ?t (rs_heap s1 a)"
    proof (cases ?found)
      case None
      have "out_of i (away (cr_rid m) ?g out) \<le> out_of i out" for i using out_of_away [OF l(3), of i] by simp
      then show ?thesis using None t tinv2_less unfolding s1_def tinv_def by simp
    next
      case (Some r)
      have t2: "tinv2 (rs_next s) out out ?t" using t by (simp add: tinv_def)
      obtain q where q: "rs_heap (count_released a r (cr_numSlots m) s) = (rs_heap s)(a := ?t\<lparr>rt_reservations := q\<rparr>)"
        "tinv2 (rs_next s) out (away (cr_rid m) ?g out) (?t\<lparr>rt_reservations := q\<rparr>)" "stays a s (count_released a r (cr_numSlots m) s)"
        "rs_next (count_released a r (cr_numSlots m) s) = rs_next s" "ids_kept {} ?t (?t\<lparr>rt_reservations := q\<rparr>)"
        using count_released_tinv2 [OF t2 Some l(3) len] by blast
      have e: "s1 = count_released a r (cr_numSlots m) s" using Some by (simp add: s1_def)
      show ?thesis using q unfolding e by simp
    qed
    define s2 where "s2 = fold (release_set a a (cr_rid m)) ?l s1"
    have "tinv2 (rs_next s) out (away (cr_rid m) ?g out) (rs_heap s1 a)" using c by simp
    from release_merged_tinv2 [OF this l(3,2), of "cr_rid m"]
    have s2: "tinv2 (rs_next s) (away (cr_rid m) ?g out) (away (cr_rid m) ?g out) (rs_heap s2 a)" "stays a s1 s2" "rs_next s2 = rs_next s1"
      "ids_kept {} (rs_heap s1 a) (rs_heap s2 a)"
      unfolding s2_def tb by blast+
    define s3 where "s3 = upd_task a (\<lambda>t. t\<lparr>rt_active := rt_active t - ucast (cr_numSlots m)\<rparr>) s2"
    have s3: "tinv (rs_next s3) (away (cr_rid m) ?g out) (rs_heap s3 a)" "rs_next s3 = rs_next s"
      using s2 c by (simp_all add: s3_def tinv_def2)
    have "stays a s2 s3" by (simp add: s3_def stays_def)
    then have st: "stays a s s3" using c s2(2) stays_trans by blast
    have "ids_kept {} (rs_heap s2 a) (rs_heap s3 a)" by (simp add: s3_def ids_kept_def rids_def)
    then have ids: "ids_kept {} ?t (rs_heap s3 a)" using c s2(4) ids_trans by blast
    have f3: "find_task (rt_tid (rs_heap s3 a)) s3 = Some a"
      unfolding stays_tid [OF st] stays_find [OF st] by (rule find_task_own [OF f])
    obtain s' where s': "handleResRequests hk a s3 = Some s'" "kept a (away (cr_rid m) ?g out) s3 s'"
      using handleResRequests_kept [OF hk f3 s3(1)] by blast
    have nj: "jb_threads (rt_job ?t) \<noteq> []" "\<not> cr_nBytes m > PSCPU_bytesForCPUs PSCPU_MAX" "\<not> ?dummy" using False by blast+
    have "msg_CHILDRESREL hk m s = handleResRequests hk a s3"
      unfolding msg_CHILDRESREL_def f option.case Let_def d if_not_P [OF nj(1)] if_not_P [OF nj(2)] if_not_P [OF nj(3)]
      by (simp add: s3_def s2_def s1_def fold_map comp_def)
    then show ?thesis using s' moved_kept [OF st _ ids s'(2)] s3(2) tb by auto
  qed
qed

section \<open>The end of a task\<close>

lemma releaseThreads_used: "releaseThreads k (jb\<lparr>jb_usedThreads := u\<rparr>) =
    (case releaseThreads k jb of (n, l, jb') \<Rightarrow> (n, l, jb'\<lparr>jb_usedThreads := u\<rparr>))"
  by (simp add: releaseThreads_def Let_def split: prod.split)

text \<open>The reservations \<open>q\<close> are left, and \<open>n\<close> threads are released and not counted yet.\<close>

definition cleaning :: "nat \<Rightarrow> ledger \<Rightarrow> rstate \<Rightarrow> rsv list \<Rightarrow> nat \<times> rstate \<Rightarrow> bool" where
  "cleaning a out s q st \<longleftrightarrow> (case st of (n, s') \<Rightarrow> stays a s s' \<and> rs_next s' = rs_next s
     \<and> (\<exists>jb. rs_heap s' a = (rs_heap s a)\<lparr>rt_job := jb, rt_reservations := q\<rparr>
           \<and> books (unspawned q @ map snd out) (jb\<lparr>jb_usedThreads := jb_usedThreads jb - of_nat n\<rparr>)))"

lemma cleanup_one_cleaning:
  assumes c: "cleaning a out s (r # q) st" and d: "distinct (map rv_rid (r # q))" "distinct (map rv_ptr (r # q))"
    and ns: "\<not> (rt_partition (rs_heap s a) = None \<and> rt_suspended (rs_heap s a))"
  shows "cleaning a out s q (cleanup_one a a r st)"
proof -
  obtain n s' jb where st: "st = (n, s')" "stays a s s'" "rs_next s' = rs_next s"
    "rs_heap s' a = (rs_heap s a)\<lparr>rt_job := jb, rt_reservations := r # q\<rparr>"
    "books (unspawned (r # q) @ map snd out) (jb\<lparr>jb_usedThreads := jb_usedThreads jb - of_nat n\<rparr>)"
    using c by (auto simp: cleaning_def)
  let ?jb = "jb\<lparr>jb_usedThreads := jb_usedThreads jb - of_nat n\<rparr>"
  let ?L = "unspawned q @ map snd out"
  have "mset (?L @ waiting_of r) = mset (unspawned (r # q) @ map snd out)" by (simp add: waiting_of_def)
  then have b: "books (?L @ waiting_of r) ?jb" by (rule books_mset [OF st(5)])
  obtain k' where rel: "releaseThreads (waiting_of r) ?jb
      = (sum_list (map slot_count (waiting_of r)), k', ?jb\<lparr>jb_threads := minus_held (waiting_of r) (jb_threads ?jb)\<rparr>)"
    "books ?L (?jb\<lparr>jb_threads := minus_held (waiting_of r) (jb_threads ?jb),
        jb_usedThreads := jb_usedThreads ?jb - of_nat (sum_list (map slot_count (waiting_of r)))\<rparr>)"
    by (rule books_release [OF b])
  define jb2 where "jb2 = jb\<lparr>jb_threads := minus_held (waiting_of r) (jb_threads jb)\<rparr>"
  define k where "k = sum_list (map slot_count (waiting_of r))"
  have rel2: "\<exists>l1. releaseThreads (waiting_of r) jb = (k, l1, jb2)"
  proof -
    have e: "?jb\<lparr>jb_usedThreads := jb_usedThreads jb\<rparr> = jb" by simp
    have "releaseThreads (waiting_of r) (?jb\<lparr>jb_usedThreads := jb_usedThreads jb\<rparr>) = (case releaseThreads (waiting_of r) ?jb of
        (n, l, jb') \<Rightarrow> (n, l, jb'\<lparr>jb_usedThreads := jb_usedThreads jb\<rparr>))" by (rule releaseThreads_used)
    also have "\<dots> = (k, k', jb2)" by (simp only: rel(1) prod.case) (simp add: k_def jb2_def)
    finally have "releaseThreads (waiting_of r) (?jb\<lparr>jb_usedThreads := jb_usedThreads jb\<rparr>) = (k, k', jb2)" .
    then show ?thesis unfolding e by blast
  qed
  have b2: "books ?L (jb2\<lparr>jb_usedThreads := jb_usedThreads jb2 - of_nat (n + k)\<rparr>)"
    using rel(2) by (simp add: jb2_def k_def diff_diff_eq)
  have dq: "snd (deqRes (r # q) r) = q"
  proof -
    have "filter (\<lambda>x. \<not> same_rsv r x) (r # q) = q" using d(2) by (auto simp: same_rsv_def image_iff intro!: filter_True)
    then show ?thesis using deqRes_same [OF d(1), of r r] by simp
  qed
  define s3 where "s3 = send_RESRELEASED a r (upd_task a (\<lambda>t. t\<lparr>rt_reservations := snd (deqRes (rt_reservations t) r)\<rparr>) s')"
  have h3: "rs_heap s3 = (rs_heap s')(a := (rs_heap s a)\<lparr>rt_job := jb, rt_reservations := q\<rparr>)" "rs_next s3 = rs_next s" "stays a s s3"
    using st dq by (simp_all add: s3_def) (simp add: stays_def)
  have start: "cleanup_one a a r st = (case rv_slots r of None \<Rightarrow> (n, s3)
      | Some l \<Rightarrow> (case give_back a (drop (unat (rv_nextSlot r)) l) s3 of (m, l1, s4) \<Rightarrow>
          (n + m, if rt_options (rs_heap s4 a) AND PART_OPT_DYNAMIC \<noteq> 0
             then emit (map (RHookRels (rv_rid r)) (filter (\<lambda>sl. PSCPU_any (sl_cpus sl) PSCPU_MAX) l1)) s4 else s4)))"
    using ns st(4) unfolding st(1) cleanup_one_def by (auto simp: Let_def s3_def)
  show ?thesis
  proof (cases "rv_slots r")
    case None
    then have "waiting_of r = []" by (simp add: waiting_of_def slots_of_rsv_def)
    then show ?thesis using st(5) h3 None unfolding start by (auto simp: cleaning_def waiting_of_def)
  next
    case (Some l)
    then have w: "drop (unat (rv_nextSlot r)) l = waiting_of r" by (simp add: waiting_of_def slots_of_rsv_def)
    obtain l1 where g: "give_back a (waiting_of r) s3 = (k, l1, upd_task a (\<lambda>t. t\<lparr>rt_job := jb2\<rparr>) s3)"
      using rel2 h3(1) by (auto simp: give_back_def)
    have "stays a s (upd_task a (\<lambda>t. t\<lparr>rt_job := jb2\<rparr>) s3)" using h3 by (simp add: stays_def)
    then show ?thesis using Some w g h3 b2 unfolding start by (auto simp: cleaning_def intro!: exI [of _ jb2])
  qed
qed

lemma cleanup_all_cleaning:
  "cleaning a out s q st \<Longrightarrow> distinct (map rv_rid q) \<Longrightarrow> distinct (map rv_ptr q) \<Longrightarrow>
   \<not> (rt_partition (rs_heap s a) = None \<and> rt_suspended (rs_heap s a)) \<Longrightarrow> cleaning a out s [] (fold (cleanup_one a a) q st)"
proof (induction q arbitrary: st)
  case (Cons r q)
  have "cleaning a out s q (cleanup_one a a r st)" by (rule cleanup_one_cleaning [OF Cons.prems])
  then show ?case using Cons by simp
qed simp

lemma cleanupRes_moved:
  assumes t: "tinv (rs_next s) out (rs_heap s a)" and ns: "\<not> (rt_partition (rs_heap s a) = None \<and> rt_suspended (rs_heap s a))"
  shows "\<exists>s'. PSIDpart_cleanupRes hk a s = Some s' \<and> moved {} a out s s' \<and> rt_reservations (rs_heap s' a) = []"
proof -
  let ?t = "rs_heap s a"
  have d: "delegate_of a s = a" using t by (simp add: delegate_of_def tinv_def2)
  have "cleaning a out s (rt_reservations ?t) (0, s)" using t by (auto simp: cleaning_def tinv_def2 intro: exI [of _ "rt_job ?t"])
  then have c: "cleaning a out s [] (fold (cleanup_one a a) (rt_reservations ?t) (0, s))"
    by (rule cleanup_all_cleaning) (use t ns in \<open>auto simp: tinv_def2\<close>)
  obtain n s1 where s1: "fold (cleanup_one a a) (rt_reservations ?t) (0, s) = (n, s1)" by fastforce
  obtain jb where jb: "stays a s s1" "rs_next s1 = rs_next s" "rs_heap s1 a = ?t\<lparr>rt_job := jb, rt_reservations := []\<rparr>"
    "books (map snd out) (jb\<lparr>jb_usedThreads := jb_usedThreads jb - of_nat n\<rparr>)"
    using c by (auto simp: cleaning_def s1)
  let ?s2 = "upd_task a (add_used (- of_nat n)) s1"
  have del: "rt_delegate (rs_heap s1 a) = None" using jb(3) t by (simp add: tinv_def2)
  have res: "PSIDpart_cleanupRes hk a s = Some ?s2"
    using del by (simp add: PSIDpart_cleanupRes_def Let_def d s1 unbook_def book_def drop_delegate_def add_used_def)
  have h: "rs_heap ?s2 a = ?t\<lparr>rt_job := jb\<lparr>jb_usedThreads := jb_usedThreads jb - of_nat n\<rparr>, rt_reservations := []\<rparr>"
    using jb(3) by (simp add: add_used_def)
  have "tinv (rs_next s) out (rs_heap ?s2 a)" using t jb(4) unfolding h by (simp add: tinv_def2)
  moreover have "stays a s ?s2" using jb(1) by (simp add: stays_def add_used_def)
  ultimately have "moved {} a out s ?s2" "rt_reservations (rs_heap ?s2 a) = []" using jb(2) unfolding h by (auto simp: moved_def h ids_kept_def rids_def simp del: upd_task_simps(1))
  then show ?thesis using res by blast
qed

end
