(* ===== verification/Part_Run.thy ===== *)
theory Part_Run
  imports Part_Back
begin

text \<open>
  The reservations of one job as a machine: its events are the messages about reservations that reach the task of
  the job.  The ledger of the slots that are out goes along, and a handler that never returns leaves no state.
  What is asked of the messages is a hypothesis on the run (\<open>plain_run\<close>), not a filter.
\<close>

declare not_None_eq [simp del]

section \<open>Numbers\<close>

text \<open>The \<open>i\<close>-th number that a task with the counter \<open>w\<close> draws: -2, -1 and 0 are left out.\<close>

definition pos_at :: "int32 \<Rightarrow> nat \<Rightarrow> nat" where
  "pos_at w i = (if i \<le> unat (-3 - w) then i else i + 3)"

definition id_at :: "int32 \<Rightarrow> nat \<Rightarrow> int32" where
  "id_at w i = w + of_nat (pos_at w i)"

lemma of_nat_int32: "a < 2 ^ 32 \<Longrightarrow> b < 2 ^ 32 \<Longrightarrow> (of_nat a :: int32) = of_nat b \<longleftrightarrow> a = b"
proof -
  assume "a < 2 ^ 32" "b < 2 ^ 32"
  then have "unat (of_nat a :: int32) = a" "unat (of_nat b :: int32) = b" by (simp_all add: unat_of_nat take_bit_nat_eq_self)
  then show ?thesis by metis
qed

lemma pos_at_less: "i \<le> 2 ^ 32 - 4 \<Longrightarrow> pos_at w i < 2 ^ 32"
  by (simp add: pos_at_def)

lemma id_at_eq: "i \<le> 2 ^ 32 - 4 \<Longrightarrow> b < 2 ^ 32 \<Longrightarrow> id_at w i = w + of_nat b \<longleftrightarrow> pos_at w i = b"
  unfolding id_at_def add_left_cancel by (rule of_nat_int32 [OF pos_at_less])

lemma id_next:
  assumes t: "rt_nextResID t = id_at w i" and i: "i < 2 ^ 32 - 4"
  shows "fst (PStask_getNextResID t) = id_at w (Suc i)" "snd (PStask_getNextResID t) = t\<lparr>rt_nextResID := id_at w (Suc i)\<rparr>"
proof -
  let ?c = "unat (-3 - w)"
  have cl: "?c < 2 ^ 32" using unsigned_less [of "-3 - w", where ?'a = nat] by simp
  have c: "w + of_nat ?c = -3" by simp
  have "id_at w i + 1 = -2 \<longleftrightarrow> id_at w i = -3" using add_right_cancel [of "id_at w i" 1 "-3"] by simp
  also have "\<dots> \<longleftrightarrow> pos_at w i = ?c" using id_at_eq [OF _ cl, of i w] i unfolding c by simp
  also have "\<dots> \<longleftrightarrow> i = ?c" by (auto simp: pos_at_def)
  finally have eq: "id_at w i + 1 = -2 \<longleftrightarrow> i = ?c" .
  have "id_at w (Suc i) = (if id_at w i + 1 = -2 then id_at w i + 1 + 3 else id_at w i + 1)"
    unfolding eq by (auto simp: id_at_def pos_at_def)
  then show "fst (PStask_getNextResID t) = id_at w (Suc i)" "snd (PStask_getNextResID t) = t\<lparr>rt_nextResID := id_at w (Suc i)\<rparr>"
    using t by (simp_all add: PStask_getNextResID_def Let_def)
qed

lemma id_fresh: "i < j \<Longrightarrow> j \<le> 2 ^ 32 - 4 \<Longrightarrow> id_at w i \<noteq> id_at w j"
proof -
  assume ij: "i < j" "j \<le> 2 ^ 32 - 4"
  then have "pos_at w i \<noteq> pos_at w j" by (auto simp: pos_at_def)
  then show ?thesis using id_at_eq [of i "pos_at w j" w] pos_at_less [OF ij(2)] ij unfolding id_at_def [of w j] by simp
qed

text \<open>After at most \<open>k\<close> draws: only numbers that were drawn are in use.\<close>

definition ids_inv :: "int32 \<Rightarrow> nat \<Rightarrow> rtask \<Rightarrow> ledger \<Rightarrow> bool" where
  "ids_inv w k t out \<longleftrightarrow> (\<exists>i \<le> k. rt_nextResID t = id_at w i \<and> rids t \<union> fst ` set out \<subseteq> id_at w ` {1..i})"

lemma ids_inv_same:
  assumes "ids_inv w k t out" "ids_kept {} t t'" "fst ` set out' \<subseteq> rids t \<union> fst ` set out"
  shows "ids_inv w (Suc k) t' out'"
proof -
  obtain i where i: "i \<le> k" "rt_nextResID t = id_at w i" "rids t \<union> fst ` set out \<subseteq> id_at w ` {1..i}"
    using assms(1) by (auto simp: ids_inv_def)
  have "rids t' \<subseteq> rids t" "rt_nextResID t' = id_at w i" using assms(2) i(2) by (simp_all add: ids_kept_def)
  then have "rids t' \<union> fst ` set out' \<subseteq> id_at w ` {1..i}" using assms(3) i(3) by blast
  then show ?thesis using i(1) \<open>rt_nextResID t' = id_at w i\<close> unfolding ids_inv_def by (intro exI [of _ i]) simp
qed

lemma ids_inv_fresh:
  assumes "ids_inv w k t out" "k < 2 ^ 32 - 4"
  shows "fst (PStask_getNextResID t) \<notin> rids t" "fst (PStask_getNextResID t) \<notin> fst ` set out"
proof -
  obtain i where i: "i \<le> k" "rt_nextResID t = id_at w i" "rids t \<union> fst ` set out \<subseteq> id_at w ` {1..i}"
    using assms(1) by (auto simp: ids_inv_def)
  have "i < 2 ^ 32 - 4" using i(1) assms(2) by simp
  then have "fst (PStask_getNextResID t) \<notin> id_at w ` {1..i}"
    using id_next(1) [OF i(2)] id_fresh [of _ "Suc i" w] by fastforce
  then show "fst (PStask_getNextResID t) \<notin> rids t" "fst (PStask_getNextResID t) \<notin> fst ` set out" using i(3) by blast+
qed

lemma ids_inv_draw:
  assumes "ids_inv w k t out" "k < 2 ^ 32 - 4" "ids_kept {fst (PStask_getNextResID t)} (snd (PStask_getNextResID t)) t'"
  shows "ids_inv w (Suc k) t' out"
proof -
  obtain i where i: "i \<le> k" "rt_nextResID t = id_at w i" "rids t \<union> fst ` set out \<subseteq> id_at w ` {1..i}"
    using assms(1) by (auto simp: ids_inv_def)
  have "i < 2 ^ 32 - 4" using i(1) assms(2) by simp
  then have n: "fst (PStask_getNextResID t) = id_at w (Suc i)" "snd (PStask_getNextResID t) = t\<lparr>rt_nextResID := id_at w (Suc i)\<rparr>"
    using id_next [OF i(2)] by simp_all
  have sub: "id_at w ` {1..i} \<subseteq> id_at w ` {1..Suc i}" "id_at w (Suc i) \<in> id_at w ` {1..Suc i}" by auto
  have k: "rt_nextResID t' = id_at w (Suc i)" "rids t' \<subseteq> insert (id_at w (Suc i)) (rids t)"
    using assms(3) unfolding n by (simp_all add: ids_kept_def rids_def)
  have "rids t' \<union> fst ` set out \<subseteq> insert (id_at w (Suc i)) (id_at w ` {1..i})" using k(2) i(3) by blast
  also have "\<dots> \<subseteq> id_at w ` {1..Suc i}" using sub by blast
  finally show ?thesis using i(1) k(1) unfolding ids_inv_def by (intro exI [of _ "Suc i"] conjI) simp_all
qed

section \<open>Events\<close>

datatype jevent =
    EvAsk getres
  | EvSlots taskid taskid int32 "uint16 option"
  | EvBack childrel "slot list list"
  | EvServe
  | EvEnd
  | EvEnv "bool list" "int list"

fun job_handle :: "hooks \<Rightarrow> nat \<Rightarrow> jevent \<Rightarrow> rstate \<Rightarrow> ledger \<Rightarrow> (rstate \<times> ledger) option" where
  "job_handle hk a (EvAsk m) s out = map_option (\<lambda>s'. (s', out)) (msg_GETRESERVATION hk m s)"
| "job_handle hk a (EvSlots sender dest rid num) s out
     = Some (msg_GETSLOTS sender dest rid num s, out @ map (Pair rid) (given a rid num s))"
| "job_handle hk a (EvBack m gs) s out = map_option (\<lambda>s'. (s', away (cr_rid m) (concat gs) out)) (msg_CHILDRESREL hk m s)"
| "job_handle hk a EvServe s out = map_option (\<lambda>s'. (s', out)) (handleResRequests hk a s)"
| "job_handle hk a EvEnd s out = map_option (\<lambda>s'. (s', out)) (PSIDpart_cleanupRes hk a s)"
| "job_handle hk a (EvEnv bs es) s out = Some (s\<lparr>rs_mem := bs, rs_send := es\<rparr>, out)"

definition job_step :: "hooks \<Rightarrow> nat \<Rightarrow> jevent \<Rightarrow> (rstate \<times> ledger) option \<Rightarrow> (rstate \<times> ledger) option" where
  "job_step hk a ev st = (case st of None \<Rightarrow> None | Some (s, out) \<Rightarrow> job_handle hk a ev s out)"

text \<open>
  A plain event: it is for the task of the job; a request wants no over-booking, nothing dynamic and no placeholder; a
  process returns only slots that it got, several of which may be merged into a set of CPUs as \<open>sendCHILDRESREL\<close> of
  \<open>psidspawn.c\<close> does it, and says how many.
\<close>

fun plain_event :: "nat \<Rightarrow> jevent \<Rightarrow> rstate \<Rightarrow> ledger \<Rightarrow> bool" where
  "plain_event a (EvAsk m) s out \<longleftrightarrow> at_task a (gm_dest m) (gm_sender m) s \<and> plain_ask m (rs_heap s a)"
| "plain_event a (EvSlots sender dest rid num) s out \<longleftrightarrow> at_task a dest sender s"
| "plain_event a (EvBack m gs) s out \<longleftrightarrow> find_task (cr_dest m) s = Some a
     \<and> taken_back a m s = map merge_slots gs \<and> (\<forall>g \<in> set gs. one_node g)
     \<and> mset (map (Pair (cr_rid m)) (concat gs)) \<subseteq># mset out \<and> (processed a m s \<longrightarrow> length (concat gs) = unat (cr_numSlots m))"
| "plain_event a EvServe s out \<longleftrightarrow> find_task (rt_tid (rs_heap s a)) s = Some a"
| "plain_event a EvEnd s out \<longleftrightarrow> True"
| "plain_event a (EvEnv bs es) s out \<longleftrightarrow> True"

text \<open>Every event of a run is plain in the state that it meets.\<close>

fun plain_run :: "hooks \<Rightarrow> nat \<Rightarrow> jevent list \<Rightarrow> (rstate \<times> ledger) option \<Rightarrow> bool" where
  "plain_run hk a [] st \<longleftrightarrow> True"
| "plain_run hk a (ev # evs) st \<longleftrightarrow>
     (case st of None \<Rightarrow> True | Some (s, out) \<Rightarrow> plain_event a ev s out) \<and> plain_run hk a evs (job_step hk a ev st)"

section \<open>The machine\<close>

text \<open>It counts the events, and an event that is not plain does nothing; a plain run has none.\<close>

definition job_guard :: "hooks \<Rightarrow> nat \<Rightarrow> jevent \<Rightarrow> nat \<times> (rstate \<times> ledger) option \<Rightarrow> nat \<times> (rstate \<times> ledger) option" where
  "job_guard hk a ev st = (case st of (k, x) \<Rightarrow>
     (Suc k, case x of None \<Rightarrow> None | Some (s, out) \<Rightarrow> if plain_event a ev s out then job_handle hk a ev s out else Some (s, out)))"

lemma plain_run_guard: "plain_run hk a evs x \<Longrightarrow> fold (job_guard hk a) evs (k, x) = (k + length evs, fold (job_step hk a) evs x)"
proof (induction evs arbitrary: k x)
  case (Cons ev evs)
  have "job_guard hk a ev (k, x) = (Suc k, job_step hk a ev x)"
    using Cons.prems by (cases x) (auto simp: job_guard_def job_step_def)
  then show ?case using Cons by simp
qed simp

definition job_inv :: "hooks \<Rightarrow> nat \<Rightarrow> rstate \<Rightarrow> nat \<times> (rstate \<times> ledger) option \<Rightarrow> bool" where
  "job_inv hk a s0 st \<longleftrightarrow> plain_hooks hk \<and> (case st of (k, x) \<Rightarrow> k \<le> 2 ^ 32 - 4 \<longrightarrow> (case x of None \<Rightarrow> False
     | Some (s, out) \<Rightarrow> stays a s0 s \<and> rt_partition (rs_heap s a) \<noteq> None \<and> tinv (rs_next s) out (rs_heap s a)
         \<and> ids_inv (rt_nextResID (rs_heap s0 a)) k (rs_heap s a) out))"

lemma job_inv_some:
  "plain_hooks hk \<Longrightarrow> stays a s0 s \<Longrightarrow> stays a s s' \<Longrightarrow> rt_partition (rs_heap s a) \<noteq> None \<Longrightarrow> tinv (rs_next s') out (rs_heap s' a) \<Longrightarrow>
   ids_inv (rt_nextResID (rs_heap s0 a)) k (rs_heap s' a) out \<Longrightarrow> job_inv hk a s0 (k, Some (s', out))"
  using stays_trans [of a s0 s s'] by (simp add: job_inv_def) (simp add: stays_def)

lemma given_rid: "given a rid num s \<noteq> [] \<Longrightarrow> rid \<in> rids (rs_heap s a)"
  using findRes_Some [of "rt_reservations (rs_heap s a)" rid] by (auto simp: given_def rids_def split: option.splits)

lemma away_subset: "set (away rid l out) \<subseteq> set out"
proof (induction l arbitrary: out)
  case (Cons sl l)
  then show ?case using set_remove1_subset [of "(rid, sl)" out] by fastforce
qed simp

lemma job_handle_inv:
  assumes hk: "plain_hooks hk" and s0: "stays a s0 s" and t: "tinv (rs_next s) out (rs_heap s a)" and p: "rt_partition (rs_heap s a) \<noteq> None"
    and ids: "ids_inv (rt_nextResID (rs_heap s0 a)) k (rs_heap s a) out" "k < 2 ^ 32 - 4" and ev: "plain_event a ev s out"
  shows "job_inv hk a s0 (Suc k, job_handle hk a ev s out)"
proof (cases ev)
  case (EvAsk m)
  have "plain_request out m (rs_heap s a)"
    using ev EvAsk ids_inv_fresh [OF ids] by (simp add: plain_request_def rids_def Let_def)
  then obtain s' where s': "msg_GETRESERVATION hk m s = Some s'" "asked a out s s'"
    using GETRESERVATION_moved [OF hk _ t, of m] ev EvAsk by auto
  have "ids_inv (rt_nextResID (rs_heap s0 a)) (Suc k) (rs_heap s' a) out"
    using s'(2) ids_inv_same [OF ids(1)] ids_inv_draw [OF ids] by (auto simp: asked_def)
  then show ?thesis using s' EvAsk job_inv_some [OF hk s0 _ p, of s'] by (simp add: asked_def)
next
  case (EvSlots sender dest rid num)
  let ?out = "out @ map (Pair rid) (given a rid num s)"
  have m: "moved {} a ?out s (msg_GETSLOTS sender dest rid num s)" by (rule GETSLOTS_moved [OF _ t]) (use ev EvSlots in simp)
  have "fst ` set ?out \<subseteq> rids (rs_heap s a) \<union> fst ` set out" using given_rid [of a rid num s] by (cases "given a rid num s = []") auto
  then show ?thesis using m EvSlots job_inv_some [OF hk s0 _ p] ids_inv_same [OF ids(1)] by (simp add: moved_def)
next
  case (EvBack m gs)
  obtain s' where s': "msg_CHILDRESREL hk m s = Some s'" "moved {} a (away (cr_rid m) (concat gs) out) s s'"
    using CHILDRESREL_moved [OF hk _ t, of m gs] ev EvBack by auto
  have "fst ` set (away (cr_rid m) (concat gs) out) \<subseteq> rids (rs_heap s a) \<union> fst ` set out"
    using away_subset [of "cr_rid m" "concat gs" out] by auto
  then show ?thesis using s' EvBack job_inv_some [OF hk s0 _ p] ids_inv_same [OF ids(1)] by (simp add: moved_def)
next
  case EvServe
  then obtain s' where "handleResRequests hk a s = Some s'" "kept a out s s'" using handleResRequests_kept [OF hk _ t] ev by auto
  then show ?thesis using EvServe job_inv_some [OF hk s0 _ p, of s' out] ids_inv_same [OF ids(1)] by (simp add: kept_def)
next
  case EvEnd
  obtain s' where "PSIDpart_cleanupRes hk a s = Some s'" "moved {} a out s s'" using cleanupRes_moved [OF t, of hk] p by auto
  then show ?thesis using EvEnd job_inv_some [OF hk s0 _ p, of s' out] ids_inv_same [OF ids(1)] by (simp add: moved_def)
next
  case (EvEnv bs es)
  then show ?thesis using t job_inv_some [OF hk s0 _ p, of "s\<lparr>rs_mem := bs, rs_send := es\<rparr>" out] ids_inv_same [OF ids(1) ids_refl] by simp
qed

interpretation jobs: inv_machine "job_guard hk a" "job_inv hk a s0" for hk a s0
proof unfold_locales
  fix st ev
  assume i: "job_inv hk a s0 st"
  obtain k x where st: "st = (k, x)" by fastforce
  show "job_inv hk a s0 (job_guard hk a ev st)"
  proof (cases "Suc k \<le> 2 ^ 32 - 4")
    case True
    then obtain s out where x: "x = Some (s, out)" "stays a s0 s" "rt_partition (rs_heap s a) \<noteq> None" "tinv (rs_next s) out (rs_heap s a)"
      "ids_inv (rt_nextResID (rs_heap s0 a)) k (rs_heap s a) out" "plain_hooks hk"
      using i by (auto simp: job_inv_def st split: option.splits)
    have "k < 2 ^ 32 - 4" using True by simp
    then show ?thesis
      using job_handle_inv [OF x(6,2,4,3,5), of ev] x ids_inv_same [OF x(5) ids_refl] by (auto simp: job_guard_def st job_inv_def)
  next
    case False
    then show ?thesis using i by (simp add: job_guard_def st job_inv_def)
  qed
qed

section \<open>The start\<close>

text \<open>
  A job that got the partition \<open>l\<close>: the CPUs of its slots are its threads, nothing is in use, nobody is its delegate,
  and no plugin gives slots (\<open>PSIDHOOK_GETRESERVATION\<close> is not hooked).
\<close>

definition job_start :: "hooks \<Rightarrow> nat \<Rightarrow> slot list \<Rightarrow> rstate \<Rightarrow> bool" where
  "job_start hk a l s \<longleftrightarrow> plain_hooks hk \<and> wf_slots l \<and> (\<forall>n c. hold l n c \<le> 1)
     \<and> (let t = rs_heap s a in rt_partition t = Some l \<and> jb_threads (rt_job t) = snd (getHWThreads True l [])
          \<and> jb_usedThreads (rt_job t) = 0 \<and> rt_delegate t = None \<and> rt_reservations t = [] \<and> rt_requests t = [])"

lemma job_start_inv: "job_start hk a l s \<Longrightarrow> job_inv hk a s (0, Some (s, []))"
proof -
  assume j: "job_start hk a l s"
  then have "threads_ok (jb_threads (rt_job (rs_heap s a)))" "\<forall>th \<in> set (jb_threads (rt_job (rs_heap s a))). th_used th = 0"
    using getHWThreads_ok [of l "[]"] by (simp_all add: job_start_def Let_def)
  then have b: "books [] (rt_job (rs_heap s a))" using j by (intro books_start) (simp_all add: job_start_def Let_def)
  have "ids_inv (rt_nextResID (rs_heap s a)) 0 (rs_heap s a) []"
    using j by (simp add: ids_inv_def id_at_def pos_at_def rids_def job_start_def Let_def)
  then show ?thesis using j b by (simp add: job_inv_def job_start_def tinv_def2 Let_def)
qed

lemma job_run:
  assumes "job_start hk a l s" "plain_run hk a evs (Some (s, []))" "length evs \<le> 2 ^ 32 - 4"
  obtains s' out where "fold (job_step hk a) evs (Some (s, [])) = Some (s', out)" "tinv (rs_next s') out (rs_heap s' a)"
    "rt_partition (rs_heap s' a) \<noteq> None"
  using jobs.run_inv [OF job_start_inv [OF assms(1)], of evs] assms(3) unfolding plain_run_guard [OF assms(2)]
  by (auto simp: job_inv_def split: option.splits)

text \<open>All slots of a task: those that wait in its reservations and those that are out.\<close>

definition job_slots_of :: "rtask \<Rightarrow> ledger \<Rightarrow> slot list" where
  "job_slots_of t out = unspawned (rt_reservations t) @ map snd out"

lemma tinv_books: "tinv n out t \<Longrightarrow> books (job_slots_of t out) (rt_job t)"
  by (simp add: tinv_def2 job_slots_of_def)

text \<open>Events without returns are plain in every state of a run, if they are so at its start.\<close>

fun static_event :: "nat \<Rightarrow> jevent \<Rightarrow> rstate \<Rightarrow> bool" where
  "static_event a (EvBack m gs) s \<longleftrightarrow> False"
| "static_event a ev s \<longleftrightarrow> plain_event a ev s []"

lemma static_plain: "static_event a ev s \<Longrightarrow> stays a s s' \<Longrightarrow> plain_event a ev s' out"
  using stays_find [of a s s'] by (cases ev) (auto simp: at_task_def plain_ask_def eff_options_def stays_def)

lemma static_run:
  "\<forall>ev \<in> set evs. static_event a ev s0 \<Longrightarrow> job_inv hk a s0 (k, Some (s, out)) \<Longrightarrow> k + length evs \<le> 2 ^ 32 - 4 \<Longrightarrow>
   plain_run hk a evs (Some (s, out))"
proof (induction evs arbitrary: k s out)
  case (Cons ev evs)
  have s: "stays a s0 s" using Cons.prems(2,3) by (simp add: job_inv_def)
  have p: "plain_event a ev s out" by (rule static_plain [of a ev s0]) (use Cons.prems(1) s in simp_all)
  have i: "job_inv hk a s0 (job_guard hk a ev (k, Some (s, out)))" by (rule jobs.step_inv [OF Cons.prems(2)])
  then obtain s' out' where h: "job_handle hk a ev s out = Some (s', out')"
    using p Cons.prems(3) by (auto simp: job_guard_def job_inv_def split: option.splits)
  have "job_inv hk a s0 (Suc k, Some (s', out'))" using i p h by (simp add: job_guard_def)
  then have "plain_run hk a evs (Some (s', out'))" using Cons.IH Cons.prems(1,3) by simp
  then show ?case using p h by (simp add: job_step_def)
qed simp

end
