(* ===== verification/Part_Job_Props.thy ===== *)
theory Part_Job_Props
  imports Part_Run
begin

text \<open>
  Properties of the job side of partitions: exact books over any run of messages, well-formed reservations, what
  creating and releasing slots do, and the request for which creating them never ends.
\<close>

declare not_None_eq [simp del]

section \<open>A job to apply them to\<close>

definition ex_cpu :: "nat \<Rightarrow> PSCPU_set" where
  "ex_cpu c = PSCPU_setCPU zero_set c"

definition ex_part :: "slot list" where
  "ex_part = [\<lparr>sl_node = 0, sl_cpus = PSCPU_setCPU (ex_cpu 0) 1\<rparr>]"

definition ex_task :: rtask where
  "ex_task = \<lparr>rt_tid = 7, rt_ptid = 0, rt_logger = 7, rt_group = TG_LOGGER, rt_delegate = None, rt_partition = Some ex_part, rt_sisters = [],
     rt_job = \<lparr>jb_threads = snd (getHWThreads True ex_part []), jb_usedThreads = 0\<rparr>, rt_options = 0, rt_nextResID = 100, rt_firstSpawner = 0,
     rt_numChild = 0, rt_active = 0, rt_requests = [], rt_reservations = [], rt_spawnSlots = None, rt_suspended = False, rt_removeIt = False\<rparr>"

definition ex_state :: rstate where
  "ex_state = \<lparr>rs_myID = 0, rs_myTID = 0, rs_hw = (\<lambda>n. 0), rs_thrds = (\<lambda>n. 2), rs_heap = (\<lambda>a. ex_task), rs_managed = [0], rs_next = 0,
     rs_mem = [], rs_send = [], rs_out = []\<rparr>"

definition no_hooks :: hooks where
  "no_hooks = \<lparr>hk_get = (\<lambda>r t. HkNone), hk_extend = (\<lambda>r. False)\<rparr>"

definition ex_ask :: getres where
  "ex_ask = \<lparr>gm_sender = 7, gm_dest = 7, gm_nMin = 1, gm_nMax = 2, gm_tpp = 1, gm_hwType = 0, gm_options = 0, gm_ppn = None, gm_complete = True\<rparr>"

lemma ex_part_wf: "wf_slots ex_part"
  by (simp add: ex_part_def ex_cpu_def)

lemma ex_part_hold: "hold ex_part n c \<le> 1"
  by (simp add: ex_part_def)

lemma ex_start: "job_start no_hooks 0 ex_part ex_state"
  using ex_part_wf ex_part_hold
  by (simp add: job_start_def plain_hooks_def no_hooks_def ex_state_def ex_task_def)

lemma ex_plain:
  "\<forall>ev \<in> set evs. static_event 0 ev ex_state \<Longrightarrow> length evs \<le> 2 ^ 32 - 4 \<Longrightarrow> plain_run no_hooks 0 evs (Some (ex_state, []))"
  by (rule static_run [OF _ job_start_inv [OF ex_start]]) simp_all

lemma ex_at: "find_task 7 ex_state = Some 0"
  by (simp add: find_task_def ex_state_def ex_task_def)

lemma ex_asks: "static_event 0 (EvAsk ex_ask) ex_state"
  using ex_at by (simp add: at_task_def plain_ask_def eff_options_def ex_ask_def ex_state_def ex_task_def)

lemma ex_slots: "static_event 0 (EvSlots 7 7 rid num) ex_state"
  using ex_at by (simp add: at_task_def)

section \<open>Runs\<close>

text \<open>
  C3: over any run of messages about the reservations of a job that fulfils what follows, no handler hangs, no CPU is in two
  slots of the job, whether they wait in a reservation or are out at a process, and the counts of the threads and of the job
  are exactly those of the slots.  Asked of the run: the job starts with nothing in use, has no delegate and its task is its
  own logger; no plugin gives slots (\<open>job_start\<close>); every request (\<open>plain_run\<close>) is without \<open>PART_OPT_OVERBOOK\<close>,
  \<open>PART_OPT_DYNAMIC\<close> and \<open>PART_OPT_DUMMY\<close> and has \<open>nMax\<close> below \<open>2 ^ 31\<close>; processes return only slots that they got,
  and say how many; there are at most \<open>2 ^ 32 - 4\<close> events, so that no number of a reservation comes back; the task is
  not suspended.  Mallocs and sends may fail.
\<close>

theorem job_run_exact:
  assumes "job_start hk a l s" "plain_run hk a evs (Some (s, []))" "length evs \<le> 2 ^ 32 - 4"
  shows "\<exists>s' out. fold (job_step hk a) evs (Some (s, [])) = Some (s', out)
    \<and> (let t = rs_heap s' a; sls = job_slots_of t out in
        (\<forall>n c. hold sls n c \<le> 1)
        \<and> (\<forall>th \<in> set (jb_threads (rt_job t)). th_used th = of_nat (hold sls (th_node th) (th_id th)))
        \<and> jb_usedThreads (rt_job t) = of_nat (sum_list (map slot_count sls)))"
proof -
  obtain s' out where run: "fold (job_step hk a) evs (Some (s, [])) = Some (s', out)" "tinv (rs_next s') out (rs_heap s' a)"
    by (rule job_run [OF assms])
  let ?l = "job_slots_of (rs_heap s' a) out"
  let ?jb = "rt_job (rs_heap s' a)"
  have b: "books ?l ?jb" by (rule tinv_books [OF run(2)])
  have "(\<Sum>th \<leftarrow> jb_threads ?jb. held_of ?l th) = sum_list (map slot_count ?l)"
    by (rule total_held) (use b in \<open>simp_all add: books_def\<close>)
  then show ?thesis using run(1) b books_bound [OF b] by (auto simp: Let_def books_def held_of_def)
qed

theorem job_run_exact_witness:
  "\<exists>s' out. fold (job_step no_hooks 0) [EvAsk ex_ask, EvSlots 7 7 101 (Some 1), EvEnd] (Some (ex_state, [])) = Some (s', out)
     \<and> hold (job_slots_of (rs_heap s' 0) out) 0 0 \<le> 1"
proof -
  have "plain_run no_hooks 0 [EvAsk ex_ask, EvSlots 7 7 101 (Some 1), EvEnd] (Some (ex_state, []))"
    by (rule ex_plain) (use ex_asks ex_slots in simp_all)
  from job_run_exact [OF ex_start this] show ?thesis unfolding Let_def by (simp only: list.size) auto
qed

text \<open>
  C25: over the runs of C3, with the same hypotheses, the reservations of a job stay well-formed: their numbers are unique, each
  has as many slots as it says, no more are handed out than there are and no more come back than are out; the slots are
  sets of CPUs of the right length, the threads are distinct and none has a negative count.
\<close>

theorem job_run_well_formed:
  assumes "job_start hk a l s" "plain_run hk a evs (Some (s, []))" "length evs \<le> 2 ^ 32 - 4"
  shows "\<exists>s' out. fold (job_step hk a) evs (Some (s, [])) = Some (s', out)
    \<and> (let t = rs_heap s' a in
        threads_ok (jb_threads (rt_job t)) \<and> wf_slots (job_slots_of t out)
        \<and> distinct (map rv_rid (rt_reservations t @ rt_requests t))
        \<and> (\<forall>r \<in> set (rt_reservations t). length (slots_of_rsv r) = unat (rv_nSlots r) \<and> rv_nextSlot r \<le> rv_nSlots r
             \<and> unat (rv_relSlots r) + out_of (rv_rid r) out \<le> unat (rv_nextSlot r)))"
proof -
  obtain s' out where run: "fold (job_step hk a) evs (Some (s, [])) = Some (s', out)" "tinv (rs_next s') out (rs_heap s' a)"
    by (rule job_run [OF assms])
  have "books (job_slots_of (rs_heap s' a) out) (rt_job (rs_heap s' a))" by (rule tinv_books [OF run(2)])
  then show ?thesis using run by (auto simp: Let_def books_def tinv_def2 res_ok_def word_le_nat_alt)
qed

theorem job_run_well_formed_witness:
  "\<exists>s' out. fold (job_step no_hooks 0) [EvAsk ex_ask, EvAsk ex_ask] (Some (ex_state, [])) = Some (s', out)
     \<and> distinct (map rv_rid (rt_reservations (rs_heap s' 0) @ rt_requests (rs_heap s' 0)))"
proof -
  have "plain_run no_hooks 0 [EvAsk ex_ask, EvAsk ex_ask] (Some (ex_state, []))"
    by (rule ex_plain) (use ex_asks in simp_all)
  from job_run_well_formed [OF ex_start this] show ?thesis unfolding Let_def by (simp only: list.size) auto
qed

text \<open>
  C21: when the task of a job ends after a run of C3, with its hypotheses (no over-booking, nothing dynamic, no delegate, not
  suspended), all its reservations go, and what is in use afterwards are exactly the slots that are still out, thread
  by thread and in total; so once these are back, every thread is free.
\<close>

theorem job_end_frees:
  assumes "job_start hk a l s" "plain_run hk a evs (Some (s, []))" "length evs \<le> 2 ^ 32 - 4"
    and "fold (job_step hk a) evs (Some (s, [])) = Some (s1, out)"
  shows "\<exists>s2. job_step hk a EvEnd (Some (s1, out)) = Some (s2, out)
    \<and> (let t = rs_heap s2 a in
        rt_reservations t = [] \<and> jb_usedThreads (rt_job t) = of_nat (sum_list (map (slot_count \<circ> snd) out))
        \<and> (\<forall>th \<in> set (jb_threads (rt_job t)). th_used th = of_nat (hold (map snd out) (th_node th) (th_id th)))
        \<and> (out = [] \<longrightarrow> (\<forall>th \<in> set (jb_threads (rt_job t)). th_used th = 0)))"
proof -
  have i: "tinv (rs_next s1) out (rs_heap s1 a)" "rt_partition (rs_heap s1 a) \<noteq> None"
    using job_run [OF assms(1-3)] assms(4) by (metis option.inject prod.inject)+
  obtain s2 where s2: "PSIDpart_cleanupRes hk a s1 = Some s2" "moved {} a out s1 s2" "rt_reservations (rs_heap s2 a) = []"
    using cleanupRes_moved [OF i(1), of hk] i(2) by blast
  have b: "books (map snd out) (rt_job (rs_heap s2 a))"
    using s2(2,3) tinv_books [of "rs_next s2" out "rs_heap s2 a"] by (simp add: moved_def job_slots_of_def)
  have "(\<Sum>th \<leftarrow> jb_threads (rt_job (rs_heap s2 a)). held_of (map snd out) th) = sum_list (map slot_count (map snd out))"
    by (rule total_held) (use b in \<open>simp_all add: books_def\<close>)
  then show ?thesis using s2 b i(2) by (auto simp: job_step_def Let_def books_def held_of_def)
qed

theorem job_end_frees_witness:
  "\<exists>s1 out s2. fold (job_step no_hooks 0) [EvAsk ex_ask, EvSlots 7 7 101 (Some 1)] (Some (ex_state, [])) = Some (s1, out)
     \<and> job_step no_hooks 0 EvEnd (Some (s1, out)) = Some (s2, out) \<and> rt_reservations (rs_heap s2 0) = []"
proof -
  have p: "plain_run no_hooks 0 [EvAsk ex_ask, EvSlots 7 7 101 (Some 1)] (Some (ex_state, []))"
    by (rule ex_plain) (use ex_asks ex_slots in simp_all)
  have l: "length [EvAsk ex_ask, EvSlots 7 7 101 (Some 1)] \<le> 2 ^ 32 - 4" by simp
  obtain s1 out where r: "fold (job_step no_hooks 0) [EvAsk ex_ask, EvSlots 7 7 101 (Some 1)] (Some (ex_state, [])) = Some (s1, out)"
    by (rule job_run [OF ex_start p l])
  then show ?thesis using job_end_frees [OF ex_start p l r] unfolding Let_def by blast
qed

section \<open>Slots\<close>

definition ex_job :: job where
  "ex_job = \<lparr>jb_threads = [\<lparr>th_node = 0, th_id = 0, th_used = 0\<rparr>, \<lparr>th_node = 0, th_id = 1, th_used = 0\<rparr>], jb_usedThreads = 0\<rparr>"

definition ex_wish :: "nat \<Rightarrow> wish" where
  "ex_wish n = \<lparr>ws_np = n, ws_ppn = 1, ws_tpp = 1, ws_hwType = 0, ws_options = 0\<rparr>"

lemma ex_job_ok: "threads_ok (jb_threads ex_job)"
  by (simp add: threads_ok_def ex_job_def place_def PSCPU_MAX_def)

text \<open>
  C12: without over-booking, creating slots returns, with at most as many slots as wanted, each of exactly the wanted number of
  threads of one fitting node, all unused before, none in two slots, and no more slots per node than allowed.  The job
  changes only if the slots are all there and it is no dry run: then exactly these threads count as used once more.
\<close>

theorem created_slots_fit:
  assumes "threads_ok (jb_threads jb)" "\<not> opt_set PART_OPT_OVERBOOK w"
  shows "\<exists>l. createSlots mem hw w dry jb = Some (l, if dry \<or> length l \<noteq> ws_np w then jb else with_slots w l jb) \<and> length l \<le> ws_np w
    \<and> (\<forall>i j. i < j \<and> j < length l \<and> sl_node (l ! i) = sl_node (l ! j) \<longrightarrow> cpus (sl_cpus (l ! i)) \<inter> cpus (sl_cpus (l ! j)) = {})
    \<and> (\<forall>sl \<in> set l. hw_fits hw w (sl_node sl) \<or> ws_tpp w = 0)
    \<and> (\<forall>sl \<in> set l. card (cpus (sl_cpus sl)) = ws_tpp w
         \<and> (\<forall>c \<in> cpus (sl_cpus sl). \<exists>th \<in> set (jb_threads jb). th_node th = sl_node sl \<and> th_id th = c \<and> th_used th = 0))
    \<and> (ws_ppn w \<noteq> 0 \<longrightarrow> (\<forall>n. length (filter (\<lambda>sl. sl_node sl = n) l) \<le> unat (ws_ppn w)))"
proof -
  let ?ts = "jb_threads jb"
  obtain l where g: "good_for hw w ?ts l" "length l \<le> ws_np w"
    "createSlots mem hw w dry jb = Some (l, if dry \<or> length l \<noteq> ws_np w then jb
       else jb\<lparr>jb_threads := used_by l ?ts, jb_usedThreads := jb_usedThreads jb + of_nat (ws_np w * ws_tpp w)\<rparr>)"
    using createSlots_result [OF assms] by blast
  have res: "createSlots mem hw w dry jb = Some (l, if dry \<or> length l \<noteq> ws_np w then jb else with_slots w l jb)"
    unfolding g(3) with_slots_def by auto
  have thr: "\<exists>i < length ?ts. th_node (?ts ! i) = sl_node sl \<and> th_id (?ts ! i) = c \<and> hw_fits hw w (th_node (?ts ! i))"
    if "sl \<in> set l" "c \<in> cpus (sl_cpus sl)" for sl c using g(1) that by (simp add: good_for_def cur_ok_def)
  have le: "held ?ts l i \<le> 1 \<and> (held ?ts l i = 1 \<longrightarrow> th_used (?ts ! i) = 0)" if "i < length ?ts" for i
    using g(1) that by (simp add: good_for_def)
  have free: "\<exists>th \<in> set ?ts. th_node th = sl_node sl \<and> th_id th = c \<and> th_used th = 0" if sl: "sl \<in> set l" "c \<in> cpus (sl_cpus sl)" for sl c
  proof -
    obtain i where i: "i < length ?ts" "th_node (?ts ! i) = sl_node sl" "th_id (?ts ! i) = c" using thr [OF sl] by blast
    have "held ?ts l i \<noteq> 0" using sl i by (auto simp: held_def hold_def filter_empty_conv)
    then have "th_used (?ts ! i) = 0" using le [OF i(1)] by (simp add: le_Suc_eq)
    then show ?thesis using i by (intro bexI [of _ "?ts ! i"]) simp_all
  qed
  have dis: "cpus (sl_cpus (l ! i)) \<inter> cpus (sl_cpus (l ! j)) = {}" if ij: "i < j" "j < length l" "sl_node (l ! i) = sl_node (l ! j)" for i j
  proof (rule ccontr)
    assume "cpus (sl_cpus (l ! i)) \<inter> cpus (sl_cpus (l ! j)) \<noteq> {}"
    then obtain c where c: "c \<in> cpus (sl_cpus (l ! i))" "c \<in> cpus (sl_cpus (l ! j))" by blast
    have "l ! j \<in> set l" using ij by simp
    then obtain x where x: "x < length ?ts" "th_node (?ts ! x) = sl_node (l ! j)" "th_id (?ts ! x) = c" using thr c(2) by blast
    have "{i, j} \<subseteq> {k. k < length l \<and> sl_node (l ! k) = th_node (?ts ! x) \<and> th_id (?ts ! x) \<in> cpus (sl_cpus (l ! k))}"
      using ij c x by auto
    then have "card {i, j} \<le> card {k. k < length l \<and> sl_node (l ! k) = th_node (?ts ! x) \<and> th_id (?ts ! x) \<in> cpus (sl_cpus (l ! k))}"
      by (intro card_mono) simp_all
    then have "2 \<le> held ?ts l x" using ij(1) by (simp add: held_def hold_def length_filter_conv_card)
    then show False using le [OF x(1)] by simp
  qed
  have fit: "hw_fits hw w (sl_node sl) \<or> ws_tpp w = 0" if "sl \<in> set l" for sl
  proof (cases "cpus (sl_cpus sl) = {}")
    case True
    then show ?thesis using g(1) that by (auto simp: good_for_def)
  next
    case False
    then show ?thesis using thr [OF that] by fastforce
  qed
  have tpp: "card (cpus (sl_cpus sl)) = ws_tpp w" if "sl \<in> set l" for sl using g(1) that by (simp add: good_for_def)
  have ppn: "ws_ppn w \<noteq> 0 \<longrightarrow> (\<forall>n. length (filter (\<lambda>sl. sl_node sl = n) l) \<le> unat (ws_ppn w))"
    using g(1) by (simp add: good_for_def on_node_def)
  show ?thesis
    by (intro exI [of _ l] conjI allI ballI impI) (use res g(2) dis fit tpp free ppn in \<open>simp_all only: simp_thms\<close>)
qed

theorem created_slots_fit_witness:
  "\<exists>l. createSlots True (\<lambda>n. 0) (ex_wish 1) False ex_job = Some (l, with_slots (ex_wish 1) l ex_job) \<and> length l = 1"
proof -
  obtain l where l: "createSlots True (\<lambda>n. 0) (ex_wish 1) False ex_job
      = Some (l, if False \<or> length l \<noteq> ws_np (ex_wish 1) then ex_job else with_slots (ex_wish 1) l ex_job)"
    using created_slots_fit [OF ex_job_ok, of "ex_wish 1" True "\<lambda>n. 0" False] by (auto simp: ex_wish_def opt_set_def)
  have "map_option (length \<circ> fst) (createSlots True (\<lambda>n. 0) (ex_wish 1) False ex_job) = Some 1" by code_simp
  then show ?thesis using l by (auto simp: ex_wish_def)
qed

text \<open>
  C15: releasing the slots that were just created gives every thread back: the number released is that of the threads in the slots,
  and with it taken off the count the job is as it was before.
\<close>

theorem release_undoes_create:
  assumes "threads_ok (jb_threads jb)" "\<not> opt_set PART_OPT_OVERBOOK w"
    and "createSlots mem hw w False jb = Some (l, jb')" "length l = ws_np w"
  shows "\<exists>l' jb2. releaseThreads l jb' = (length l * ws_tpp w, l', jb2)
    \<and> jb2\<lparr>jb_usedThreads := jb_usedThreads jb2 - of_nat (length l * ws_tpp w)\<rparr> = jb"
proof -
  obtain k where k: "good_for hw w (jb_threads jb) k" "createSlots mem hw w False jb = Some (k, if False \<or> length k \<noteq> ws_np w then jb
      else jb\<lparr>jb_threads := used_by k (jb_threads jb), jb_usedThreads := jb_usedThreads jb + of_nat (ws_np w * ws_tpp w)\<rparr>)"
    by (rule createSlots_result [OF assms(1,2)])
  have "k = l" using k(2) assms(3) by simp
  then have g: "good_for hw w (jb_threads jb) l"
    "jb' = jb\<lparr>jb_threads := used_by l (jb_threads jb), jb_usedThreads := jb_usedThreads jb + of_nat (length l * ws_tpp w)\<rparr>"
    using k assms(3,4) by simp_all
  obtain l' where r: "releaseThreads l (jb\<lparr>jb_threads := used_by l (jb_threads jb)\<rparr>) = (length l * ws_tpp w, l', jb)"
    by (rule release_created [OF assms(1) g(1)])
  have "releaseThreads l jb' = (length l * ws_tpp w, l', jb\<lparr>jb_usedThreads := jb_usedThreads jb + of_nat (length l * ws_tpp w)\<rparr>)"
    using releaseThreads_used [where k = l and jb = "jb\<lparr>jb_threads := used_by l (jb_threads jb)\<rparr>"
        and u = "jb_usedThreads jb + of_nat (length l * ws_tpp w)"] r
    by (simp add: g(2))
  then show ?thesis by simp
qed

theorem release_undoes_create_witness:
  "\<exists>l jb' l' jb2. createSlots True (\<lambda>n. 0) (ex_wish 1) False ex_job = Some (l, jb') \<and> releaseThreads l jb' = (1, l', jb2)
     \<and> jb2\<lparr>jb_usedThreads := jb_usedThreads jb2 - 1\<rparr> = ex_job"
proof -
  have "map_option (length \<circ> fst) (createSlots True (\<lambda>n. 0) (ex_wish 1) False ex_job) = Some 1" by code_simp
  then obtain l jb' where c: "createSlots True (\<lambda>n. 0) (ex_wish 1) False ex_job = Some (l, jb')" "length l = 1" by auto
  have "\<not> opt_set PART_OPT_OVERBOOK (ex_wish 1)" "length l = ws_np (ex_wish 1)" using c(2) by (simp_all add: ex_wish_def opt_set_def)
  from release_undoes_create [OF ex_job_ok this(1) c(1) this(2)] show ?thesis using c by (auto simp: ex_wish_def)
qed

text \<open>
  C9: for a task without a delegate, a request for slots without \<open>PART_OPT_OVERBOOK\<close> and \<open>PART_OPT_DYNAMIC\<close> is granted as
  a whole or not at all: \<open>PSIDpart_getReservation\<close> returns, and either the job is as it was, or the reservation has between
  \<open>nMin\<close> and \<open>nMax\<close> slots of threads that were all unused (\<open>good_for\<close>), and exactly they are in use now.  (With
  \<open>PART_OPT_DYNAMIC\<close> fewer than \<open>nMin\<close> slots may be taken, for a plugin to add the others.)
\<close>

theorem reservation_whole_or_none:
  assumes "find_task (rv_task r) s = Some a" "rt_delegate (rs_heap s a) = None" "threads_ok (jb_threads (rt_job (rs_heap s a)))"
    and "\<not> rv_opt PART_OPT_OVERBOOK r" "\<not> rv_opt PART_OPT_DYNAMIC r"
  shows "\<exists>got r' s'. PSIDpart_getReservation r s = Some (got, r', s')
    \<and> (let jb = rt_job (rs_heap s a); jb' = rt_job (rs_heap s' a); w = wish_of r (unat (rv_nMax r)) in
        got \<le> 0 \<and> jb' = jb
        \<or> (\<exists>l. got = int (length l) \<and> rv_slots r' = Some l \<and> unat (rv_nMin r) \<le> length l \<and> length l \<le> unat (rv_nMax r)
             \<and> good_for (rs_hw s) w (jb_threads jb) l \<and> jb' = with_slots w l jb))"
proof -
  obtain got r2 jb m where g: "PSIDpart_getReservation r s = Some (got, r2, with_job a jb m s)" "got_slots s a r got r2 jb"
    using getReservation_result [OF assms] by blast
  show ?thesis
  proof (cases "got \<le> 0")
    case True
    then show ?thesis using g by (intro exI [of _ got] exI [of _ r2] exI [of _ "with_job a jb m s"]) (auto simp: got_slots_def Let_def)
  next
    case False
    show ?thesis using g by (auto simp: got_slots_def Let_def)
  qed
qed

definition ex_rsv :: rsv where
  "ex_rsv = \<lparr>rv_ptr = 0, rv_task = 7, rv_requester = 7, rv_nMin = 1, rv_nMax = 1, rv_ppn = 0, rv_tpp = 1, rv_hwType = 0, rv_options = 0,
     rv_rid = 101, rv_firstRank = 0, rv_rankOffset = 0, rv_nSlots = 0, rv_slots = None, rv_nextSlot = 0, rv_relSlots = 0,
     rv_checked = False, rv_dynSent = False\<rparr>"

definition ex_two :: rstate where
  "ex_two = ex_state\<lparr>rs_heap := (\<lambda>a. ex_task\<lparr>rt_job := ex_job\<rparr>)\<rparr>"

theorem reservation_whole_or_none_witness:
  "\<exists>r' s' l. PSIDpart_getReservation ex_rsv ex_two = Some (1, r', s') \<and> rv_slots r' = Some l \<and> length l = 1"
proof -
  define w where "w = \<lparr>ws_np = 1, ws_ppn = 0, ws_tpp = 1, ws_hwType = 0, ws_options = 0\<rparr>"
  have dry: "map_option (length \<circ> fst) (createSlots True (\<lambda>n. 0) w True ex_job) = Some 1" unfolding w_def by code_simp
  have wet: "map_option (length \<circ> fst) (createSlots True (\<lambda>n. 0) w False ex_job) = Some 1" unfolding w_def by code_simp
  obtain l jb where l: "createSlots True (\<lambda>n. 0) w True ex_job = Some (l, jb)" "length l = 1" using dry by auto
  have jb: "jb = ex_job" using l(1) by (auto simp: createSlots_def Let_def split: if_splits option.splits)
  have ne: "l \<noteq> []" using l(2) by auto
  obtain l2 jb2 where l2: "createSlots True (\<lambda>n. 0) w False ex_job = Some (l2, jb2)" "length l2 = 1" using wet by auto
  have m: "make_slots_of 0 r 1 d ex_two = Some (if d then (l, upd_task 0 (\<lambda>t. t\<lparr>rt_job := jb\<rparr>) ex_two) else (l2, upd_task 0 (\<lambda>t. t\<lparr>rt_job := jb2\<rparr>) ex_two))"
    if "wish_of r 1 = w" for d r
    using l l2 that by (simp add: make_slots_of_def take_mem_def ex_two_def ex_state_def)
  have same: "upd_task 0 (\<lambda>t. t\<lparr>rt_job := ex_job\<rparr>) ex_two = ex_two" by (simp add: upd_task_def ex_two_def fun_upd_idem)
  have "delegate_of 0 ex_two = 0" "find_task 7 ex_two = Some 0" "take_mem ex_two = (True, ex_two)" "rv_task ex_rsv = 7"
    "rt_delegate (rs_heap ex_two 0) = None"
    by (simp_all add: delegate_of_def find_task_def take_mem_def ex_two_def ex_state_def ex_task_def ex_rsv_def)
  moreover have "unat (rv_nMax ex_rsv) = 1" "unat (rv_nMin ex_rsv) = 1" "wish_of ex_rsv 1 = w" "wish_of (ex_rsv\<lparr>rv_slots := Some l\<rparr>) 1 = w"
    "rv_slots ex_rsv = None" "\<not> rv_opt PART_OPT_DYNAMIC ex_rsv"
    by (simp_all add: ex_rsv_def wish_of_def w_def rv_opt_def)
  ultimately have g: "map_option fst (PSIDpart_getReservation ex_rsv ex_two) = Some 1"
    using l(2) l2(2) same ne by (simp add: PSIDpart_getReservation_def m [unfolded One_nat_def] jb book_def Let_def)
  have t: "threads_ok (jb_threads (rt_job (rs_heap ex_two 0)))" using ex_job_ok by (simp add: ex_two_def)
  have f: "find_task (rv_task ex_rsv) ex_two = Some 0" "rt_delegate (rs_heap ex_two 0) = None"
    "\<not> rv_opt PART_OPT_OVERBOOK ex_rsv" "\<not> rv_opt PART_OPT_DYNAMIC ex_rsv"
    by (simp_all add: find_task_def ex_rsv_def ex_two_def ex_state_def ex_task_def rv_opt_def)
  obtain got r' s' where r: "PSIDpart_getReservation ex_rsv ex_two = Some (got, r', s')"
    "got \<le> 0 \<or> (\<exists>l. got = int (length l) \<and> rv_slots r' = Some l)"
    using reservation_whole_or_none [OF f(1,2) t f(3,4)] unfolding Let_def by metis
  then have "got = 1" using g by simp
  then show ?thesis using r by auto
qed

text \<open>
  C17: over-booking together with a limit of processes per node that is too small for the number of slots: creating them never returns
  (the loop of the daemon turns for ever), since the loop only ends with an error or with all slots.
\<close>

theorem createSlots_hangs:
  assumes "\<forall>th \<in> set (jb_threads jb). th_id th < PSCPU_MAX" "jb_threads jb \<noteq> []"
    and "opt_set PART_OPT_OVERBOOK w" "ws_ppn w \<noteq> 0"
    and "unat (ws_ppn w) * card {n \<in> th_node ` set (jb_threads jb). hw_fits hw w n} < ws_np w"
    and "ws_tpp w \<le> sc_maxTPP (scan_threads hw w (jb_threads jb))"
  shows "createSlots True hw w dry jb = None"
proof -
  have "slots_loop hw w (jb_threads jb) = None"
    using assms scan_first [of "jb_threads jb" hw w] by (intro overbook_for_ever) (simp_all add: ths_ok_def fit_nodes_def)
  then show ?thesis using assms by (simp add: createSlots_def Let_def)
qed

theorem createSlots_hangs_witness:
  "createSlots True (\<lambda>n. 0) ((ex_wish 2)\<lparr>ws_options := PART_OPT_OVERBOOK\<rparr>) False ex_job = None"
proof (rule createSlots_hangs)
  have "{n \<in> th_node ` set (jb_threads ex_job). hw_fits (\<lambda>n. 0) ((ex_wish 2)\<lparr>ws_options := PART_OPT_OVERBOOK\<rparr>) n} = {0}"
    by (auto simp: ex_job_def ex_wish_def hw_fits_def)
  then show "unat (ws_ppn ((ex_wish 2)\<lparr>ws_options := PART_OPT_OVERBOOK\<rparr>))
      * card {n \<in> th_node ` set (jb_threads ex_job). hw_fits (\<lambda>n. 0) ((ex_wish 2)\<lparr>ws_options := PART_OPT_OVERBOOK\<rparr>) n}
      < ws_np ((ex_wish 2)\<lparr>ws_options := PART_OPT_OVERBOOK\<rparr>)" by (simp add: ex_wish_def)
  show "opt_set PART_OPT_OVERBOOK ((ex_wish 2)\<lparr>ws_options := PART_OPT_OVERBOOK\<rparr>)" by code_simp
  show "ws_tpp ((ex_wish 2)\<lparr>ws_options := PART_OPT_OVERBOOK\<rparr>)
      \<le> sc_maxTPP (scan_threads (\<lambda>n. 0) ((ex_wish 2)\<lparr>ws_options := PART_OPT_OVERBOOK\<rparr>) (jb_threads ex_job))" by code_simp
qed (simp_all add: ex_job_def ex_wish_def PSCPU_MAX_def)

text \<open>
  C35: the CPUs of a slot survive the way to another node: the bytes that \<open>PSCPU_extract\<close> takes for \<open>n\<close> CPUs and
  \<open>PSCPU_inject\<close> puts into a cleared set give the same CPUs, if the number of bytes is that of \<open>PSCPU_bytesForCPUs\<close>.
\<close>

theorem cpu_bytes_round_trip:
  assumes "cpu_wf s" "cpu_wf d" "0 < n" "n \<le> PSCPU_MAX" "\<forall>c \<in> cpus s. c < n"
  shows "cpus (PSCPU_inject (PSCPU_clrAll d) (PSCPU_extract s (PSCPU_bytesForCPUs n)) (PSCPU_bytesForCPUs n)) = cpus s"
proof -
  let ?k = "PSCPU_bytesForCPUs n"
  have k: "?k = (n - 1) div 8 + 1" using assms(3,4) by (simp add: PSCPU_bytesForCPUs_def Let_def)
  then have "?k \<le> 128" using assms(4) by (simp add: PSCPU_MAX_def)
  moreover have "n \<le> 8 * ?k" using k by linarith
  ultimately show ?thesis using inject_extract(2) [OF assms(1,2)] assms(5) by force
qed

theorem cpu_bytes_round_trip_witness:
  "cpus (PSCPU_inject (PSCPU_clrAll zero_set) (PSCPU_extract (ex_cpu 1) (PSCPU_bytesForCPUs 2)) (PSCPU_bytesForCPUs 2)) = {1}"
proof -
  have c: "cpus (ex_cpu 1) = {1}" "cpu_wf (ex_cpu 1)" by (simp_all add: ex_cpu_def cpus_setCPU PSCPU_MAX_def)
  show ?thesis using cpu_bytes_round_trip [OF c(2) zero_set_wf(1), of 2] c(1) by (simp add: PSCPU_MAX_def)
qed

end
