(* ===== verification/Ses_State.thy ===== *)
theory Ses_State
  imports Part_Return
begin

text \<open>
  What a node knows of the reservations it is part of (\<open>src/bin/daemon/psidsession.c\<close>): sessions, their jobs and the
  reservations of a job; and the tasks that wait for such information (\<open>delayedTasks\<close>, \<open>PSIDspawn_fillTaskFromResInfo\<close>,
  \<open>PSIDspawn_startDelayedTasks\<close> of \<open>src/bin/daemon/psidspawn.c\<close>).  Lists that own their items are lists of
  records.  Allocations and the results of \<open>spawnTask\<close> come from scripts; times of creation are only logged and
  left out.  A handler whose variable keeps what was in memory, because the message was too short, reads
  \<open>x_junk\<close>; one that follows a NULL pointer is \<open>None\<close>.
\<close>

section \<open>State\<close>

record resentry =
  re_node :: nodeid
  re_firstRank :: int32
  re_lastRank :: int32

record resslot =
  rl_rank :: int32
  rl_cpus :: PSCPU_set

record resinfo =
  ri_resID :: int32
  ri_partHolder :: taskid
  ri_rankOffset :: uint32
  ri_minRank :: int32
  ri_maxRank :: int32
  ri_entries :: "resentry list"
  ri_nLocalSlots :: uint16
  ri_localSlots :: "resslot list option"

record sjob =
  sj_ID :: taskid
  sj_sessID :: taskid
  sj_extra :: "byte list list option"
  sj_resInfos :: "resinfo list"

record session =
  ses_ID :: taskid
  ses_jobs :: "sjob list"

text \<open>A task of the node, named by its address.\<close>

record stask =
  st_ptr :: nat
  st_tid :: taskid
  st_group :: task_group
  st_logger :: taskid
  st_spawner :: taskid
  st_resID :: int32
  st_rank :: int32
  st_jobRank :: int32
  st_delay :: uint32
  st_deleted :: bool
  st_cpus :: PSCPU_set
  st_partHolder :: taskid

text \<open>A message \<open>PSP_DD_CHILDRESREL\<close> that waits for more slots.\<close>

record pendcrr =
  pc_dest :: taskid
  pc_resID :: int32
  pc_sender :: taskid
  pc_pendSlots :: int16
  pc_numSlots :: uint16
  pc_sets :: "PSCPU_set list"

datatype dmsg =
    DSpawnFailed taskid int32 int32
  | DSpawn stask
  | DChildRel childrel
  | DJobCreated sjob
  | DJobRemoved sjob
  | DJobComplete sjob
  | DForward taskid

record dstate =
  x_myID :: nodeid
  x_myTID :: taskid
  x_cfg :: sercfg
  x_numThrds :: uint16
  x_up :: "nodeid \<Rightarrow> bool"
  x_sessions :: "session list"
  x_managed :: "stask list"
  x_delayed :: "stask list"
  x_crr :: "pendcrr list"
  x_mem :: "bool list"
  x_spawn :: "int32 list"
  x_junk :: "64 word"
  x_out :: "dmsg list"

definition DELAY_RESINFO :: uint32 where "DELAY_RESINFO = 0x1"
definition EADDRINUSE_NO :: int32 where "EADDRINUSE_NO = 98"
definition EADDRNOTAVAIL_NO :: int32 where "EADDRNOTAVAIL_NO = 99"
definition ECHILD_NO :: int32 where "ECHILD_NO = 10"

definition x_take_mem :: "dstate \<Rightarrow> bool \<times> dstate" where
  "x_take_mem s = (case x_mem s of [] \<Rightarrow> (True, s) | b # bs \<Rightarrow> (b, s\<lparr>x_mem := bs\<rparr>))"

definition x_take_spawn :: "dstate \<Rightarrow> int32 \<times> dstate" where
  "x_take_spawn s = (case x_spawn s of [] \<Rightarrow> (0, s) | e # es \<Rightarrow> (e, s\<lparr>x_spawn := es\<rparr>))"

definition x_emit :: "dmsg list \<Rightarrow> dstate \<Rightarrow> dstate" where
  "x_emit ms s = s\<lparr>x_out := x_out s @ ms\<rparr>"

section \<open>Finding\<close>

definition PSID_findSessionByID :: "taskid \<Rightarrow> session list \<Rightarrow> session option" where
  "PSID_findSessionByID sessionID ss = find (\<lambda>x. ses_ID x = sessionID) ss"

definition PSID_findJobInSession :: "session \<Rightarrow> taskid \<Rightarrow> sjob option" where
  "PSID_findJobInSession ses jobID = find (\<lambda>j. sj_ID j = jobID) (ses_jobs ses)"

definition PSID_findResInfo :: "taskid \<Rightarrow> taskid \<Rightarrow> int32 \<Rightarrow> session list \<Rightarrow> resinfo option" where
  "PSID_findResInfo sessionID jobID resID ss =
     (case PSID_findSessionByID sessionID ss of
        None \<Rightarrow> None
      | Some ses \<Rightarrow>
          (case PSID_findJobInSession ses jobID of
             None \<Rightarrow> None
           | Some j \<Rightarrow> find (\<lambda>r. ri_resID r = resID) (sj_resInfos j)))"

text \<open>Writing through the pointer that a search gave: the first item that matches.\<close>

fun upd_first :: "('a \<Rightarrow> bool) \<Rightarrow> ('a \<Rightarrow> 'a) \<Rightarrow> 'a list \<Rightarrow> 'a list" where
  "upd_first P f [] = []"
| "upd_first P f (x # xs) = (if P x then f x # xs else x # upd_first P f xs)"

fun del_first :: "('a \<Rightarrow> bool) \<Rightarrow> 'a list \<Rightarrow> 'a list" where
  "del_first P [] = []"
| "del_first P (x # xs) = (if P x then xs else x # del_first P xs)"

definition upd_session :: "taskid \<Rightarrow> (session \<Rightarrow> session) \<Rightarrow> dstate \<Rightarrow> dstate" where
  "upd_session sid f s = s\<lparr>x_sessions := upd_first (\<lambda>x. ses_ID x = sid) f (x_sessions s)\<rparr>"

definition upd_job :: "taskid \<Rightarrow> taskid \<Rightarrow> (sjob \<Rightarrow> sjob) \<Rightarrow> dstate \<Rightarrow> dstate" where
  "upd_job sid jid f = upd_session sid (\<lambda>x. x\<lparr>ses_jobs := upd_first (\<lambda>j. sj_ID j = jid) f (ses_jobs x)\<rparr>)"

section \<open>Tasks that wait\<close>

text \<open>The filter clears the reason and says whether the task is meant; the task is then marked.\<close>

definition cleanupFilter :: "int32 \<Rightarrow> stask \<Rightarrow> bool \<times> stask" where
  "cleanupFilter resID t =
     (if st_resID t \<noteq> resID then (False, t) else (True, t\<lparr>st_delay := st_delay t AND NOT DELAY_RESINFO\<rparr>))"

definition PSIDspawn_cleanupDelayedTasks :: "(stask \<Rightarrow> bool \<times> stask) \<Rightarrow> dstate \<Rightarrow> dstate" where
  "PSIDspawn_cleanupDelayedTasks flt s =
     s\<lparr>x_delayed := map (\<lambda>t. if st_deleted t then t
         else case flt t of (False, u) \<Rightarrow> u | (True, u) \<Rightarrow> u\<lparr>st_deleted := True\<rparr>) (x_delayed s)\<rparr>"

text \<open>The error, 0 for none, and the task.\<close>

definition PSIDspawn_fillTaskFromResInfo :: "stask \<Rightarrow> resinfo option \<Rightarrow> int32 \<times> stask" where
  "PSIDspawn_fillTaskFromResInfo t r =
     (case r of
        None \<Rightarrow> (0, t\<lparr>st_delay := st_delay t OR DELAY_RESINFO\<rparr>)
      | Some res \<Rightarrow>
          if ri_nLocalSlots res = 0 then (0, t\<lparr>st_delay := st_delay t OR DELAY_RESINFO\<rparr>)
          else
            let t1 = t\<lparr>st_jobRank := st_rank t - ri_rankOffset res\<rparr> in
            if sint (st_jobRank t1) < sint (ri_minRank res) \<or> sint (st_jobRank t1) > sint (ri_maxRank res) then (EADDRNOTAVAIL_NO, t1)
            else case ri_localSlots res of
              None \<Rightarrow> (EADDRNOTAVAIL_NO, t1)
            | Some l \<Rightarrow>
                (case find (\<lambda>sl. rl_rank sl = st_jobRank t1) (take (unat (ri_nLocalSlots res)) l) of
                   None \<Rightarrow> (EADDRNOTAVAIL_NO, t1)
                 | Some sl \<Rightarrow>
                     let t2 = t1\<lparr>st_cpus := rl_cpus sl, st_partHolder := ri_partHolder res\<rparr>
                     in if \<not> PSCPU_any (st_cpus t2) PSCPU_MAX then (EADDRINUSE_NO, t2) else (0, t2)))"

definition PSIDspawn_delayTask :: "stask \<Rightarrow> dstate \<Rightarrow> dstate" where
  "PSIDspawn_delayTask t s = s\<lparr>x_delayed := filter (\<lambda>u. st_ptr u \<noteq> st_ptr t) (x_delayed s) @ [t]\<rparr>"

section \<open>Giving resources back\<close>

definition NUM_CPUSETS :: nat where "NUM_CPUSETS = 8"

definition own_bytes :: "dstate \<Rightarrow> nat" where
  "own_bytes s = PSCPU_bytesForCPUs (unat (x_numThrds s))"

definition zero_sets :: "PSCPU_set list" where
  "zero_sets = replicate NUM_CPUSETS zero_set"

text \<open>The first set always goes, the others up to the first empty one.\<close>

definition sendPendCRR :: "pendcrr \<Rightarrow> dstate \<Rightarrow> dstate" where
  "sendPendCRR crr s =
     (let n = own_bytes s in
      x_emit [DChildRel \<lparr>cr_sender = pc_sender crr, cr_dest = pc_dest crr, cr_nBytes = n,
        cr_sets = map (\<lambda>c. PSCPU_extract c n) (take 1 (pc_sets crr) @ takeWhile (\<lambda>c. PSCPU_any c (n * 8)) (drop 1 (pc_sets crr))),
        cr_numSlots = pc_numSlots crr, cr_rid = pc_resID crr\<rparr>] s)"

definition findPendCRR :: "taskid \<Rightarrow> int32 \<Rightarrow> pendcrr list \<Rightarrow> pendcrr option" where
  "findPendCRR dest resID l = find (\<lambda>c. pc_dest c = dest \<and> pc_resID c = resID) l"

definition sendAllPendCRR :: "dstate \<Rightarrow> dstate" where
  "sendAllPendCRR s = fold (\<lambda>c s. (sendPendCRR c s)\<lparr>x_crr := tl (x_crr s)\<rparr>) (x_crr s) s"

definition no_resources :: "task_group \<Rightarrow> bool" where
  "no_resources g \<longleftrightarrow> g \<in> {TG_SERVICE, TG_SERVICE_SIG, TG_ADMINTASK, TG_KVS, TG_PLUGINFW}"

text \<open>The first set that has none of the CPUs; 8 if there is none.\<close>

fun first_fit :: "PSCPU_set \<Rightarrow> nat \<Rightarrow> PSCPU_set list \<Rightarrow> nat" where
  "first_fit c nb [] = 0"
| "first_fit c nb (x # xs) = (if PSCPU_overlap c x nb then first_fit c nb xs + 1 else 0)"

text \<open>How many calls are still to come: this one, and one for each other task of the reservation.\<close>

definition calls_expected :: "stask \<Rightarrow> dstate \<Rightarrow> nat" where
  "calls_expected t s =
     1 + length (filter (\<lambda>u. \<not> (st_deleted u \<or> st_group u = TG_FORWARDER) \<and> \<not> (st_logger u \<noteq> st_logger t \<or> st_resID u \<noteq> st_resID t)
        \<and> PSCPU_any (st_cpus u) (own_bytes s * 8) \<and> st_tid u \<noteq> st_tid t) (x_managed s))"

text \<open>Fit the CPUs of a task into the message; it goes when it is full or complete.\<close>

definition fit_crr :: "PSCPU_set \<Rightarrow> pendcrr \<Rightarrow> dstate \<Rightarrow> bool \<times> pendcrr \<times> dstate" where
  "fit_crr cs crr s =
     (let k = first_fit cs (8 * own_bytes s) (pc_sets crr);
          (k1, crr1, s1) = (if k = NUM_CPUSETS then (0, crr\<lparr>pc_sets := zero_sets, pc_numSlots := 0\<rparr>, sendPendCRR crr s) else (k, crr, s));
          crr2 = crr1\<lparr>pc_sets := (pc_sets crr1)[k1 := PSCPU_addCPUs (pc_sets crr1 ! k1) cs],
                     pc_numSlots := pc_numSlots crr1 + 1, pc_pendSlots := pc_pendSlots crr1 - 1\<rparr>
      in if pc_pendSlots crr2 = 0 then (True, crr2, sendPendCRR crr2 s1) else (False, crr2, s1))"

definition is_crr :: "taskid \<Rightarrow> int32 \<Rightarrow> pendcrr \<Rightarrow> bool" where
  "is_crr dest resID c \<longleftrightarrow> pc_dest c = dest \<and> pc_resID c = resID"

definition sendCHILDRESREL :: "stask \<Rightarrow> taskid \<Rightarrow> bool \<Rightarrow> dstate \<Rightarrow> dstate" where
  "sendCHILDRESREL t sender combine s =
     (let n = own_bytes s in
      if no_resources (st_group t) then s
      else if \<not> PSCPU_any (st_cpus t) (n * 8) then s
      else
        let dest = (case PSID_findResInfo (st_logger t) (st_spawner t) (st_resID t) (x_sessions s) of
                      None \<Rightarrow> st_logger t
                    | Some res \<Rightarrow> if ri_partHolder res \<noteq> 0 then ri_partHolder res else st_logger t)
        in if \<not> combine
           then x_emit [DChildRel \<lparr>cr_sender = sender, cr_dest = dest, cr_nBytes = n, cr_sets = [PSCPU_extract (st_cpus t) n],
                          cr_numSlots = 1, cr_rid = st_resID t\<rparr>] s
           else
             let (ok, s1) = (case findPendCRR dest (st_resID t) (x_crr s) of
                   Some crr \<Rightarrow> (True, s)
                 | None \<Rightarrow>
                     (case x_take_mem s of
                        (False, s1) \<Rightarrow> (False, s1)
                      | (True, s1) \<Rightarrow>
                          (True, s1\<lparr>x_crr := x_crr s1 @ [\<lparr>pc_dest = dest, pc_resID = st_resID t, pc_sender = sender,
                             pc_pendSlots = of_nat (calls_expected t s1), pc_numSlots = 0, pc_sets = zero_sets\<rparr>]\<rparr>)))
             in if \<not> ok then s1
                else case findPendCRR dest (st_resID t) (x_crr s1) of
                  None \<Rightarrow> s1
                | Some crr \<Rightarrow>
                    (case fit_crr (st_cpus t) crr s1 of
                       (True, crr2, s2) \<Rightarrow> s2\<lparr>x_crr := del_first (is_crr dest (st_resID t)) (x_crr s2)\<rparr>
                     | (False, crr2, s2) \<Rightarrow> s2\<lparr>x_crr := upd_first (is_crr dest (st_resID t)) (\<lambda>_. crr2) (x_crr s2)\<rparr>))"

end
