(* ===== verification/Ses_Ops.thy ===== *)
theory Ses_Ops
  imports Ses_State
begin

text \<open>
  The handlers of \<open>src/bin/daemon/psidsession.c\<close> in the order of the source, and the functions of
  \<open>src/bin/daemon/psidspawn.c\<close> that start, delay and drop tasks by what is known of their reservation.  A
  fragmented message is the data buffer that \<open>recvFragMsg\<close> hands to the handler with the last fragment.
\<close>

section \<open>Reading\<close>

text \<open>A variable that is read into keeps what it had if the buffer gives nothing.\<close>

definition get_word :: "sercfg \<Rightarrow> PS_DataType \<Rightarrow> nat \<Rightarrow> 'a::len word \<Rightarrow> PS_DataBuffer \<Rightarrow> 'a word \<times> PS_DataBuffer" where
  "get_word cfg ty sz old d =
     (case getFromBuf cfg ty sz d of (Got v, d1) \<Rightarrow> (of_nat (le_nat v), d1) | (_, d1) \<Rightarrow> (old, d1))"

definition getInt32 :: "sercfg \<Rightarrow> int32 \<Rightarrow> PS_DataBuffer \<Rightarrow> int32 \<times> PS_DataBuffer" where
  "getInt32 cfg = get_word cfg PSDATA_INT32 4"
definition getUint32 :: "sercfg \<Rightarrow> uint32 \<Rightarrow> PS_DataBuffer \<Rightarrow> uint32 \<times> PS_DataBuffer" where
  "getUint32 cfg = get_word cfg PSDATA_UINT32 4"
definition getUint16 :: "sercfg \<Rightarrow> uint16 \<Rightarrow> PS_DataBuffer \<Rightarrow> uint16 \<times> PS_DataBuffer" where
  "getUint16 cfg = get_word cfg PSDATA_UINT16 2"
definition getTaskId :: "sercfg \<Rightarrow> taskid \<Rightarrow> PS_DataBuffer \<Rightarrow> taskid \<times> PS_DataBuffer" where
  "getTaskId cfg = get_word cfg PSDATA_INT64 8"
definition getMem :: "sercfg \<Rightarrow> nat \<Rightarrow> byte list \<Rightarrow> PS_DataBuffer \<Rightarrow> byte list \<times> PS_DataBuffer" where
  "getMem cfg n old d = (case getFromBuf cfg PSDATA_MEM n d of (Got v, d1) \<Rightarrow> (v, d1) | (_, d1) \<Rightarrow> (old, d1))"

section \<open>Items\<close>

definition putResinfo :: "int32 \<Rightarrow> dstate \<Rightarrow> dstate" where
  "putResinfo resID = PSIDspawn_cleanupDelayedTasks (cleanupFilter resID)"

text \<open>The flag says whether plugins are told (there is a caller).\<close>

definition putJob :: "bool \<Rightarrow> sjob \<Rightarrow> dstate \<Rightarrow> dstate" where
  "putJob caller j s =
     (let s1 = fold (\<lambda>r. putResinfo (ri_resID r)) (sj_resInfos j) s
      in if caller then x_emit [DJobRemoved (j\<lparr>sj_resInfos := []\<rparr>)] s1 else s1)"

definition putSession :: "bool \<Rightarrow> session \<Rightarrow> dstate \<Rightarrow> dstate" where
  "putSession caller ses s = fold (putJob caller) (ses_jobs ses) s"

definition new_resinfo :: resinfo where
  "new_resinfo = \<lparr>ri_resID = 0, ri_partHolder = 0, ri_rankOffset = 0, ri_minRank = 0, ri_maxRank = 0, ri_entries = [],
     ri_nLocalSlots = 0, ri_localSlots = None\<rparr>"

section \<open>Reservations come\<close>

text \<open>Remnants with the same number are dropped.\<close>

definition addReservationToJob :: "taskid \<Rightarrow> taskid \<Rightarrow> resinfo \<Rightarrow> sjob \<Rightarrow> dstate \<Rightarrow> dstate" where
  "addReservationToJob sid jid res j s =
     upd_job sid jid (\<lambda>j. j\<lparr>sj_resInfos := filter (\<lambda>r. ri_resID r \<noteq> ri_resID res) (sj_resInfos j) @ [res]\<rparr>)
       (fold (\<lambda>r. putResinfo (ri_resID r)) (filter (\<lambda>r. ri_resID r = ri_resID res) (sj_resInfos j)) s)"

text \<open>The array comes from \<open>calloc\<close>: what cannot be read is 0.\<close>

fun get_entries :: "sercfg \<Rightarrow> nat \<Rightarrow> PS_DataBuffer \<Rightarrow> resentry list" where
  "get_entries cfg 0 d = []"
| "get_entries cfg (Suc n) d =
     (let (nd, d1) = getInt32 cfg 0 d; (f, d2) = getInt32 cfg 0 d1; (l, d3) = getInt32 cfg 0 d2
      in \<lparr>re_node = nd, re_firstRank = f, re_lastRank = l\<rparr> # get_entries cfg n d3)"

fun rank_bounds :: "resentry list \<Rightarrow> int32 \<times> int32" where
  "rank_bounds [] = (0, 0)"
| "rank_bounds (e # es) =
     fold (\<lambda>e (mn, mx). (if sint (re_firstRank e) < sint mn then re_firstRank e else mn, if sint (re_lastRank e) > sint mx then re_lastRank e else mx))
       es (re_firstRank e, re_lastRank e)"

definition entrysize :: nat where "entrysize = 12"

text \<open>A session or a job that is not there yet; without memory its address is used all the same.\<close>

definition need_session :: "taskid \<Rightarrow> dstate \<Rightarrow> dstate option" where
  "need_session sid s =
     (if PSID_findSessionByID sid (x_sessions s) \<noteq> None then Some s
      else case x_take_mem s of
        (False, s1) \<Rightarrow> None
      | (True, s1) \<Rightarrow> Some (s1\<lparr>x_sessions := x_sessions s1 @ [\<lparr>ses_ID = sid, ses_jobs = []\<rparr>]\<rparr>))"

definition find_job :: "taskid \<Rightarrow> taskid \<Rightarrow> dstate \<Rightarrow> sjob option" where
  "find_job sid jid s =
     (case PSID_findSessionByID sid (x_sessions s) of None \<Rightarrow> None | Some ses \<Rightarrow> PSID_findJobInSession ses jid)"

definition need_job :: "taskid \<Rightarrow> taskid \<Rightarrow> dstate \<Rightarrow> (bool \<times> dstate) option" where
  "need_job sid jid s =
     (if find_job sid jid s \<noteq> None then Some (False, s)
      else case x_take_mem s of
        (False, s1) \<Rightarrow> None
      | (True, s1) \<Rightarrow>
          Some (True, upd_session sid (\<lambda>x. x\<lparr>ses_jobs := ses_jobs x @ [\<lparr>sj_ID = jid, sj_sessID = sid, sj_extra = None, sj_resInfos = []\<rparr>]\<rparr>) s1))"

definition store_resinfo :: "taskid \<Rightarrow> taskid \<Rightarrow> resinfo \<Rightarrow> dstate \<Rightarrow> dstate option" where
  "store_resinfo sid jid res s =
     (case need_session sid s of
        None \<Rightarrow> None
      | Some s1 \<Rightarrow>
          (case need_job sid jid s1 of
             None \<Rightarrow> None
           | Some (created, s2) \<Rightarrow>
               (case find_job sid jid s2 of
                  None \<Rightarrow> None
                | Some j \<Rightarrow>
                    let s3 = addReservationToJob sid jid res j s2
                    in Some (if created then x_emit [DJobCreated (the (find_job sid jid s3))] s3 else s3))))"

definition handleResCreated :: "PS_DataBuffer \<Rightarrow> dstate \<Rightarrow> dstate option" where
  "handleResCreated d s =
     (let cfg = x_cfg s;
          (resID, d1) = getInt32 cfg (ucast (x_junk s)) d;
          (sessionID, d2) = getTaskId cfg (x_junk s) d1;
          (jobID, d3) = getTaskId cfg (x_junk s) d2;
          (rankOffset, d4) = getUint32 cfg (ucast (x_junk s)) d3;
          (partHolder, d5) = getTaskId cfg (x_junk s) d4
      in case x_take_mem s of
           (False, s1) \<Rightarrow> None
         | (True, s1) \<Rightarrow>
             (case x_take_mem s1 of
                (False, s2) \<Rightarrow> Some (putResinfo resID s2)
              | (True, s2) \<Rightarrow>
                  let es = get_entries cfg (unat (of_nat (PSdbGetAvail d5 div entrysize) :: uint32)) d5; (mn, mx) = rank_bounds es
                  in store_resinfo sessionID jobID
                       (new_resinfo\<lparr>ri_resID := resID, ri_rankOffset := rankOffset, ri_partHolder := partHolder, ri_entries := es,
                          ri_minRank := mn, ri_maxRank := mx\<rparr>) s2))"

text \<open>Fragments for this node are collected (\<open>msg\<close> is what is complete now), others are passed on.\<close>

definition frag_or_forward :: "(PS_DataBuffer \<Rightarrow> dstate \<Rightarrow> dstate option) \<Rightarrow> taskid \<Rightarrow> PS_DataBuffer option \<Rightarrow> dstate \<Rightarrow> dstate option" where
  "frag_or_forward handle dest msg s =
     (if PSC_getID (x_myID s) dest = x_myID s then (case msg of None \<Rightarrow> Some s | Some d \<Rightarrow> handle d s)
      else if \<not> x_up s (PSC_getID (x_myID s) dest) then Some s
      else Some (x_emit [DForward dest] s))"

definition msg_RESCREATED :: "taskid \<Rightarrow> PS_DataBuffer option \<Rightarrow> dstate \<Rightarrow> dstate option" where
  "msg_RESCREATED = frag_or_forward handleResCreated"

text \<open>The environment of a job is complete.\<close>

definition handleJobComplete :: "PS_DataBuffer \<Rightarrow> dstate \<Rightarrow> dstate" where
  "handleJobComplete d s =
     (let cfg = x_cfg s; (sessionID, d1) = getTaskId cfg (x_junk s) d; (jobID, d2) = getTaskId cfg (x_junk s) d1
      in case find_job sessionID jobID s of
           None \<Rightarrow> s
         | Some j \<Rightarrow>
             if sj_extra j \<noteq> None then s
             else
               let env = (case getStringArrayM cfg True d2 of (Got vs, d3) \<Rightarrow> vs | (_, d3) \<Rightarrow> []);
                   s1 = upd_job sessionID jobID (\<lambda>j. j\<lparr>sj_extra := Some env\<rparr>) s
               in x_emit [DJobComplete (j\<lparr>sj_extra := Some env\<rparr>)] s1)"

definition msg_JOBCOMPLETE :: "taskid \<Rightarrow> PS_DataBuffer option \<Rightarrow> dstate \<Rightarrow> dstate" where
  "msg_JOBCOMPLETE dest msg s =
     (if PSC_getID (x_myID s) dest \<noteq> x_myID s then s else case msg of None \<Rightarrow> s | Some d \<Rightarrow> handleJobComplete d s)"

section \<open>Reservations go\<close>

definition checkJob :: "taskid \<Rightarrow> taskid \<Rightarrow> dstate \<Rightarrow> dstate" where
  "checkJob sid jid s =
     (case find_job sid jid s of
        None \<Rightarrow> s
      | Some j \<Rightarrow>
          if sj_resInfos j = []
          then putJob True j (upd_session sid (\<lambda>x. x\<lparr>ses_jobs := del_first (\<lambda>j. sj_ID j = jid) (ses_jobs x)\<rparr>) s)
          else s)"

definition del_session :: "taskid \<Rightarrow> dstate \<Rightarrow> dstate" where
  "del_session sid s = s\<lparr>x_sessions := del_first (\<lambda>x. ses_ID x = sid) (x_sessions s)\<rparr>"

definition checkSession :: "taskid \<Rightarrow> dstate \<Rightarrow> dstate" where
  "checkSession sid s =
     (case PSID_findSessionByID sid (x_sessions s) of
        None \<Rightarrow> s
      | Some ses \<Rightarrow> if ses_jobs ses = [] then putSession True ses (del_session sid s) else s)"

definition msg_RESRELEASED :: "int32 \<Rightarrow> taskid \<Rightarrow> taskid \<Rightarrow> dstate \<Rightarrow> dstate" where
  "msg_RESRELEASED resID sessionID jobID s =
     (case find_job sessionID jobID s of
        None \<Rightarrow> s
      | Some j \<Rightarrow>
          let s1 = (case find (\<lambda>r. ri_resID r = resID) (sj_resInfos j) of
                      None \<Rightarrow> s
                    | Some r \<Rightarrow> putResinfo resID
                        (upd_job sessionID jobID (\<lambda>j. j\<lparr>sj_resInfos := del_first (\<lambda>r. ri_resID r = resID) (sj_resInfos j)\<rparr>) s))
          in checkSession sessionID (checkJob sessionID jobID s1))"

definition msg_RESCLEANUP :: "taskid \<Rightarrow> dstate \<Rightarrow> dstate" where
  "msg_RESCLEANUP sender s =
     (case PSID_findSessionByID sender (x_sessions s) of
        None \<Rightarrow> s | Some ses \<Rightarrow> putSession True ses (del_session sender s))"

definition session_clearMem :: "dstate \<Rightarrow> dstate" where
  "session_clearMem s = fold (putSession False) (x_sessions s) (s\<lparr>x_sessions := []\<rparr>)"

section \<open>Starting tasks\<close>

text \<open>
  One task: it is spawned, fails, waits for something else or is not meant.  What \<open>spawnTask\<close> does beyond its
  result is not modelled.
\<close>

definition drop_delayed :: "stask \<Rightarrow> dstate \<Rightarrow> dstate" where
  "drop_delayed t s = s\<lparr>x_delayed := filter (\<lambda>u. st_ptr u \<noteq> st_ptr t) (x_delayed s)\<rparr>"

definition spawn_delayed :: "stask \<Rightarrow> dstate \<Rightarrow> dstate" where
  "spawn_delayed t s =
     (let (e, s1) = x_take_spawn (drop_delayed t s); s2 = x_emit [DSpawn t] s1
      in if e \<noteq> 0 then sendCHILDRESREL t (x_myTID s2) False (x_emit [DSpawnFailed (st_tid t) (st_rank t) e] s2) else s2)"

definition start_one :: "resinfo \<Rightarrow> stask \<Rightarrow> dstate \<Rightarrow> dstate" where
  "start_one res t s =
     (if st_deleted t then s
      else if st_resID t \<noteq> ri_resID res \<or> ri_nLocalSlots res = 0 \<or> st_delay t AND DELAY_RESINFO = 0 then s
      else case PSIDspawn_fillTaskFromResInfo t (Some res) of
        (e, t1) \<Rightarrow>
          if e \<noteq> 0 then x_emit [DSpawnFailed (st_spawner t) (st_rank t) e] (drop_delayed t s)
          else
            let t2 = t1\<lparr>st_delay := st_delay t1 AND NOT DELAY_RESINFO\<rparr> in
            if st_delay t2 \<noteq> 0 then s\<lparr>x_delayed := map (\<lambda>u. if st_ptr u = st_ptr t then t2 else u) (x_delayed s)\<rparr>
            else spawn_delayed t2 s)"

definition PSIDspawn_startDelayedTasks :: "resinfo \<Rightarrow> dstate \<Rightarrow> dstate" where
  "PSIDspawn_startDelayedTasks res s = fold (start_one res) (x_delayed s) s"

text \<open>One of the tasks of a spawn request, a clone of the decoded one with its rank and environment.\<close>

definition is_service :: "task_group \<Rightarrow> bool" where
  "is_service g \<longleftrightarrow> g \<in> {TG_SERVICE, TG_SERVICE_SIG, TG_ADMINTASK, TG_KVS}"

definition spawn_clone :: "resinfo option \<Rightarrow> taskid \<Rightarrow> stask \<Rightarrow> dstate \<Rightarrow> dstate" where
  "spawn_clone resI sender t s =
     (case (if is_service (st_group t) then (0, t\<lparr>st_cpus := PSCPU_setAll (st_cpus t)\<rparr>) else PSIDspawn_fillTaskFromResInfo t resI) of
        (e, t1) \<Rightarrow>
          if e \<noteq> 0 then x_emit [DSpawnFailed sender (st_rank t) e] s
          else if st_delay t1 \<noteq> 0 then PSIDspawn_delayTask t1 s
          else
            let (e2, s1) = x_take_spawn s; s2 = x_emit [DSpawn t1] s1
            in if e2 \<noteq> 0 then sendCHILDRESREL t1 (x_myTID s2) False (x_emit [DSpawnFailed sender (st_rank t) e2] s2) else s2)"

definition handle_clones :: "taskid \<Rightarrow> stask list \<Rightarrow> dstate \<Rightarrow> dstate" where
  "handle_clones sender ts s =
     (case ts of [] \<Rightarrow> s
      | t # _ \<Rightarrow> fold (spawn_clone (PSID_findResInfo (st_logger t) (st_spawner t) (st_resID t) (x_sessions s)) sender) ts s)"

definition PSIDspawn_cleanupByNode :: "nodeid \<Rightarrow> dstate \<Rightarrow> dstate" where
  "PSIDspawn_cleanupByNode n s =
     s\<lparr>x_delayed := map (\<lambda>t. if PSC_getID (x_myID s) (st_tid t) = n then t\<lparr>st_deleted := True\<rparr> else t) (x_delayed s)\<rparr>"

definition cleanup_spawned :: "taskid \<Rightarrow> stask \<Rightarrow> dstate \<Rightarrow> dstate" where
  "cleanup_spawned tid t s =
     (if st_deleted t \<or> st_tid t \<noteq> tid then s
      else
        let upd = (\<lambda>u s. s\<lparr>x_delayed := map (\<lambda>v. if st_ptr v = st_ptr t then u else v) (x_delayed s)\<rparr>);
            t1 = t\<lparr>st_deleted := True\<rparr>;
            s1 = x_emit [DSpawnFailed (st_tid t) (st_rank t) ECHILD_NO] (upd t1 s)
        in if PSCPU_any (st_cpus t) PSCPU_MAX
           then upd (t1\<lparr>st_cpus := PSCPU_clrAll (st_cpus t)\<rparr>) (sendCHILDRESREL t1 (x_myTID s) True s1) else s1)"

definition PSIDspawn_cleanupBySpawner :: "taskid \<Rightarrow> dstate \<Rightarrow> dstate" where
  "PSIDspawn_cleanupBySpawner tid s = fold (cleanup_spawned tid) (x_delayed s) s"

section \<open>Slots come\<close>

text \<open>The slots up to the first wrong rank; a rank that cannot be read is the one before.\<close>

fun read_slots :: "sercfg \<Rightarrow> nat \<Rightarrow> byte list \<Rightarrow> int32 \<Rightarrow> int32 \<Rightarrow> nat \<Rightarrow> int32 \<Rightarrow> PS_DataBuffer \<Rightarrow> resslot list option" where
  "read_slots cfg nBytes junk mn mx 0 rank d = Some []"
| "read_slots cfg nBytes junk mn mx (Suc n) rank d =
     (let (k, d1) = getInt32 cfg rank d in
      if sint k < 0 \<or> sint k < sint mn \<or> sint k > sint mx then None
      else
        let (b, d2) = getMem cfg nBytes junk d1
        in map_option (\<lambda>l. \<lparr>rl_rank = k, rl_cpus = PSCPU_inject zero_set b nBytes\<rparr> # l) (read_slots cfg nBytes junk mn mx n k d2))"

definition upd_resinfo :: "taskid \<Rightarrow> taskid \<Rightarrow> int32 \<Rightarrow> (resinfo \<Rightarrow> resinfo) \<Rightarrow> dstate \<Rightarrow> dstate" where
  "upd_resinfo sid jid resID f = upd_job sid jid (\<lambda>j. j\<lparr>sj_resInfos := upd_first (\<lambda>r. ri_resID r = resID) f (sj_resInfos j)\<rparr>)"

definition handleResSlots :: "PS_DataBuffer \<Rightarrow> dstate \<Rightarrow> dstate option" where
  "handleResSlots d s =
     (let cfg = x_cfg s;
          (sessionID, d1) = getTaskId cfg (x_junk s) d;
          (jobID, d2) = getTaskId cfg (x_junk s) d1;
          (resID, d3) = getInt32 cfg (ucast (x_junk s)) d2
      in case PSID_findResInfo sessionID jobID resID (x_sessions s) of
           None \<Rightarrow> (case x_take_mem s of (False, s1) \<Rightarrow> None | (True, s1) \<Rightarrow> Some (putResinfo resID s1))
         | Some res \<Rightarrow>
             if ri_localSlots res \<noteq> None then Some s
             else
               let (nBytes, d4) = getUint16 cfg (ucast (x_junk s)) d3 in
               if nBytes = 0 \<or> unat nBytes \<noteq> own_bytes s then Some s
               else
                 let (num, d5) = getUint16 cfg (ucast (x_junk s)) d4 in
                 case x_take_mem s of
                   (False, s1) \<Rightarrow> Some s1
                 | (True, s1) \<Rightarrow>
                     (case read_slots cfg (unat nBytes) (replicate (unat nBytes) (ucast (x_junk s))) (ri_minRank res) (ri_maxRank res) (unat num)
                             (ucast (x_junk s)) d5 of
                        None \<Rightarrow> Some (upd_resinfo sessionID jobID resID (\<lambda>r. r\<lparr>ri_nLocalSlots := num\<rparr>) s1)
                      | Some l \<Rightarrow>
                          Some (PSIDspawn_startDelayedTasks (res\<lparr>ri_nLocalSlots := num, ri_localSlots := Some l\<rparr>)
                            (upd_resinfo sessionID jobID resID (\<lambda>r. r\<lparr>ri_nLocalSlots := num, ri_localSlots := Some l\<rparr>) s1))))"

definition msg_RESSLOTS :: "taskid \<Rightarrow> PS_DataBuffer option \<Rightarrow> dstate \<Rightarrow> dstate option" where
  "msg_RESSLOTS = frag_or_forward handleResSlots"

end
