(* ===== verification/Ses_Spec.thy ===== *)
theory Ses_Spec
  imports Ses_Ops
begin

text \<open>
  Sessions as a map: which reservation is found under the identifiers of a session, a job and a reservation.  The
  handlers keep the lists free of duplicates and of empty jobs and sessions, and change the map as they should.
\<close>

section \<open>Lists with keys\<close>

lemma find_upd_first: "(\<And>x. key (f x) = key x) \<Longrightarrow>
  find (\<lambda>x. key x = k) (upd_first (\<lambda>x. key x = j) f xs)
    = (if k = j then map_option f (find (\<lambda>x. key x = k) xs) else find (\<lambda>x. key x = k) xs)"
  by (induction xs) auto

lemma map_upd_first: "(\<And>x. key (f x) = key x) \<Longrightarrow> map key (upd_first P f xs) = map key xs"
  by (induction xs) auto

lemma set_upd_first: "set (upd_first P f xs) \<subseteq> set xs \<union> f ` {x \<in> set xs. P x}"
  by (induction xs) auto

lemma find_del_first: "distinct (map key xs) \<Longrightarrow>
  find (\<lambda>x. key x = k) (del_first (\<lambda>x. key x = j) xs) = (if k = j then None else find (\<lambda>x. key x = k) xs)"
  by (induction xs) (auto simp: find_None_iff image_iff)

lemma set_del_first: "set (del_first P xs) \<subseteq> set xs"
  by (induction xs) auto

lemma map_del_first: "set (map key (del_first P xs)) \<subseteq> set (map key xs) \<and> (distinct (map key xs) \<longrightarrow> distinct (map key (del_first P xs)))"
  by (induction xs) auto

lemma find_app: "find P (xs @ ys) = (case find P xs of None \<Rightarrow> find P ys | Some x \<Rightarrow> Some x)"
  by (induction xs) auto

lemma find_filter: "find (\<lambda>x. key x = k) (filter (\<lambda>x. key x \<noteq> j) xs) = (if k = j then None else find (\<lambda>x. key x = k) xs)"
  by (induction xs) auto

lemma find_key: "find (\<lambda>x. key x = k) xs = Some x \<Longrightarrow> key x = k \<and> x \<in> set xs"
  by (auto simp: find_Some_iff in_set_conv_nth)

lemma find_none: "find (\<lambda>x. key x = k) xs = None \<longleftrightarrow> k \<notin> key ` set xs"
  by (auto simp: find_None_iff)

section \<open>The invariant and the map\<close>

definition job_wf :: "taskid \<Rightarrow> sjob \<Rightarrow> bool" where
  "job_wf sid j \<longleftrightarrow> sj_sessID j = sid \<and> distinct (map ri_resID (sj_resInfos j))"

definition jobs_wf :: "session \<Rightarrow> bool" where
  "jobs_wf x \<longleftrightarrow> distinct (map sj_ID (ses_jobs x)) \<and> (\<forall>j \<in> set (ses_jobs x). job_wf (ses_ID x) j)"

definition ses_wf :: "session list \<Rightarrow> bool" where
  "ses_wf ss \<longleftrightarrow> distinct (map ses_ID ss) \<and> (\<forall>x \<in> set ss. jobs_wf x)"

definition no_empty :: "session list \<Rightarrow> bool" where
  "no_empty ss \<longleftrightarrow> (\<forall>x \<in> set ss. ses_jobs x \<noteq> [] \<and> (\<forall>j \<in> set (ses_jobs x). sj_resInfos j \<noteq> []))"

definition res_map :: "session list \<Rightarrow> taskid \<times> taskid \<times> int32 \<Rightarrow> resinfo option" where
  "res_map ss k = PSID_findResInfo (fst k) (fst (snd k)) (snd (snd k)) ss"

section \<open>What does not touch the sessions\<close>

lemma sessions_same [simp]:
  "x_sessions (putResinfo k s) = x_sessions s" "x_sessions (x_emit ms s) = x_sessions s"
  "x_sessions (PSIDspawn_cleanupDelayedTasks flt s) = x_sessions s"
  by (simp_all add: putResinfo_def PSIDspawn_cleanupDelayedTasks_def x_emit_def)

lemma sessions_fold: "(\<And>x s. x_sessions (f x s) = x_sessions s) \<Longrightarrow> x_sessions (fold f xs s) = x_sessions s"
  by (induction xs arbitrary: s) simp_all

lemma sessions_put [simp]: "x_sessions (putJob b j s) = x_sessions s" "x_sessions (putSession b x s) = x_sessions s"
proof -
  show "x_sessions (putJob b j s) = x_sessions s" for b j s
    using sessions_fold [of "\<lambda>r. putResinfo (ri_resID r)" "sj_resInfos j" s] by (simp add: putJob_def Let_def)
  then show "x_sessions (putSession b x s) = x_sessions s"
    unfolding putSession_def by (rule sessions_fold)
qed

lemma sessions_mem: "x_take_mem s = (b, s1) \<Longrightarrow> x_sessions s1 = x_sessions s"
  by (auto simp: x_take_mem_def split: list.splits)

lemma sessions_spawn: "x_take_spawn s = (e, s1) \<Longrightarrow> x_sessions s1 = x_sessions s"
  by (auto simp: x_take_spawn_def split: list.splits)

lemma sessions_fit: "x_sessions (snd (snd (fit_crr cs crr s))) = x_sessions s"
  by (simp add: fit_crr_def sendPendCRR_def Let_def)

lemma sessions_rel [simp]: "x_sessions (sendCHILDRESREL t k c s) = x_sessions s"
proof -
  have fit: "fit_crr cs crr s2 = (b, q, s3) \<Longrightarrow> x_sessions s3 = x_sessions s2" for cs crr s2 b q s3
    using sessions_fit [of cs crr s2] by simp
  show ?thesis
    by (auto simp: sendCHILDRESREL_def Let_def split: option.split prod.split bool.split dest!: fit sessions_mem)
qed

lemma sessions_start [simp]: "x_sessions (start_one res t s) = x_sessions s"
proof -
  have "x_sessions (spawn_delayed u s) = x_sessions s" for u
    by (auto simp: spawn_delayed_def drop_delayed_def Let_def split: prod.split dest!: sessions_spawn)
  then show ?thesis by (simp add: start_one_def drop_delayed_def Let_def split: prod.split)
qed

lemma sessions_started [simp]: "x_sessions (PSIDspawn_startDelayedTasks res s) = x_sessions s"
  unfolding PSIDspawn_startDelayedTasks_def by (rule sessions_fold) simp

section \<open>Changes of the lists\<close>

lemma upd_session_sessions: "x_sessions (upd_session sid f s) = upd_first (\<lambda>x. ses_ID x = sid) f (x_sessions s)"
  by (simp add: upd_session_def)

lemma wf_upd_job:
  assumes w: "ses_wf ss" and f: "\<And>j. sj_ID (f j) = sj_ID j" "\<And>j. job_wf sid j \<Longrightarrow> job_wf sid (f j)"
  shows "ses_wf (upd_first (\<lambda>x. ses_ID x = sid) (\<lambda>x. x\<lparr>ses_jobs := upd_first (\<lambda>j. sj_ID j = jid) f (ses_jobs x)\<rparr>) ss)"
proof -
  let ?g = "\<lambda>x. x\<lparr>ses_jobs := upd_first (\<lambda>j. sj_ID j = jid) f (ses_jobs x)\<rparr>"
  have "jobs_wf (?g x)" if "jobs_wf x" "ses_ID x = sid" for x
    using that f set_upd_first [of "\<lambda>j. sj_ID j = jid" f "ses_jobs x"] map_upd_first [of sj_ID f, OF f(1)]
    by (fastforce simp: jobs_wf_def)
  then show ?thesis
    using w set_upd_first [of "\<lambda>x. ses_ID x = sid" ?g ss] map_upd_first [of ses_ID ?g "\<lambda>x. ses_ID x = sid" ss]
    by (fastforce simp: ses_wf_def)
qed

lemma map_upd_job:
  assumes f: "\<And>j. sj_ID (f j) = sj_ID j"
  shows "res_map (upd_first (\<lambda>x. ses_ID x = sid) (\<lambda>x. x\<lparr>ses_jobs := upd_first (\<lambda>j. sj_ID j = jid) f (ses_jobs x)\<rparr>) ss) (a, b, c)
    = (if a = sid \<and> b = jid
       then (case PSID_findSessionByID sid ss of None \<Rightarrow> None
             | Some x \<Rightarrow> (case PSID_findJobInSession x jid of None \<Rightarrow> None | Some j \<Rightarrow> find (\<lambda>r. ri_resID r = c) (sj_resInfos (f j))))
       else res_map ss (a, b, c))"
  by (auto simp: res_map_def PSID_findResInfo_def PSID_findSessionByID_def PSID_findJobInSession_def
      find_upd_first [of ses_ID] find_upd_first [of sj_ID, OF f] split: option.split)


text \<open>Sessions and jobs without content are allowed in one place only.\<close>

definition full_but :: "taskid \<Rightarrow> taskid \<Rightarrow> session list \<Rightarrow> bool" where
  "full_but sid jid ss \<longleftrightarrow> (\<forall>x \<in> set ss. (ses_ID x \<noteq> sid \<longrightarrow> ses_jobs x \<noteq> [])
     \<and> (\<forall>j \<in> set (ses_jobs x). ses_ID x = sid \<and> sj_ID j = jid \<or> sj_resInfos j \<noteq> []))"

lemma full_but_empty: "no_empty ss \<Longrightarrow> full_but sid jid ss"
  by (auto simp: no_empty_def full_but_def)

lemma in_upd_first: "distinct (map key xs) \<Longrightarrow> y \<in> set (upd_first (\<lambda>x. key x = k) f xs) \<Longrightarrow>
  (\<exists>x \<in> set xs. key x = k \<and> y = f x) \<or> y \<in> set xs \<and> key y \<noteq> k"
  by (induction xs) (auto simp: image_iff split: if_splits)

lemma full_upd_job:
  assumes w: "ses_wf ss" and e: "full_but sid jid ss" and j: "PSID_findSessionByID sid ss = Some x" "PSID_findJobInSession x jid = Some j"
    and f: "\<And>j. sj_ID (f j) = sj_ID j" "\<And>j. sj_resInfos (f j) \<noteq> []"
  shows "no_empty (upd_first (\<lambda>x. ses_ID x = sid) (\<lambda>x. x\<lparr>ses_jobs := upd_first (\<lambda>j. sj_ID j = jid) f (ses_jobs x)\<rparr>) ss)"
    (is "no_empty (upd_first _ ?g ss)")
  unfolding no_empty_def
proof
  fix y assume y: "y \<in> set (upd_first (\<lambda>x. ses_ID x = sid) ?g ss)"
  have d: "distinct (map ses_ID ss)" using w by (simp add: ses_wf_def)
  have x: "x \<in> set ss" "ses_ID x = sid" using find_key [of ses_ID sid ss x] j(1) by (simp_all add: PSID_findSessionByID_def)
  from in_upd_first [OF d y] show "ses_jobs y \<noteq> [] \<and> (\<forall>j \<in> set (ses_jobs y). sj_resInfos j \<noteq> [])"
  proof (elim disjE conjE bexE)
    fix z assume z: "z \<in> set ss" "ses_ID z = sid" "y = ?g z"
    have "z = x" using z x d by (auto simp: distinct_map inj_on_def)
    then have ne: "ses_jobs z \<noteq> []" using j(2) by (auto simp: PSID_findJobInSession_def)
    have dj: "distinct (map sj_ID (ses_jobs z))" using w z by (simp add: ses_wf_def jobs_wf_def)
    have "map sj_ID (upd_first (\<lambda>j. sj_ID j = jid) f (ses_jobs z)) = map sj_ID (ses_jobs z)" by (rule map_upd_first) (rule f(1))
    then have "upd_first (\<lambda>j. sj_ID j = jid) f (ses_jobs z) \<noteq> []" using ne by auto
    moreover have "sj_resInfos k \<noteq> []" if "k \<in> set (upd_first (\<lambda>j. sj_ID j = jid) f (ses_jobs z))" for k
      using in_upd_first [OF dj that] f(2) e z(1,2) by (auto simp: full_but_def)
    ultimately show ?thesis using z(3) by simp
  next
    assume "y \<in> set ss" "ses_ID y \<noteq> sid"
    then show ?thesis using e by (auto simp: full_but_def)
  qed
qed

section \<open>A reservation is stored\<close>

definition sess_ok :: "session list \<Rightarrow> bool" where
  "sess_ok ss \<longleftrightarrow> ses_wf ss \<and> no_empty ss"

lemma need_session_result:
  assumes n: "need_session sid s = Some s1" and w: "ses_wf (x_sessions s)" "no_empty (x_sessions s)"
  shows "ses_wf (x_sessions s1) \<and> full_but sid jid (x_sessions s1) \<and> res_map (x_sessions s1) = res_map (x_sessions s)
    \<and> PSID_findSessionByID sid (x_sessions s1) \<noteq> None"
proof (cases "PSID_findSessionByID sid (x_sessions s)")
  case (Some x)
  then show ?thesis using n w full_but_empty by (simp add: need_session_def)
next
  case None
  obtain b s2 where m: "x_take_mem s = (b, s2)" by fastforce
  have "b" using n None m by (cases b) (simp_all add: need_session_def)
  then have s1: "x_sessions s1 = x_sessions s @ [\<lparr>ses_ID = sid, ses_jobs = []\<rparr>]"
    using n None m sessions_mem [OF m] by (auto simp: need_session_def)
  have new: "sid \<notin> ses_ID ` set (x_sessions s)" using None find_none [of ses_ID sid "x_sessions s"] by (simp add: PSID_findSessionByID_def)
  have "ses_wf (x_sessions s1)" using w(1) new by (auto simp: ses_wf_def s1 jobs_wf_def)
  moreover have "full_but sid jid (x_sessions s1)" using w(2) by (auto simp: full_but_def s1 no_empty_def)
  moreover have "res_map (x_sessions s1) k = res_map (x_sessions s) k" for k
    using None by (cases "fst k = sid")
      (auto simp: res_map_def PSID_findResInfo_def PSID_findSessionByID_def PSID_findJobInSession_def s1 find_app split: option.split)
  moreover have "PSID_findSessionByID sid (x_sessions s1) \<noteq> None"
    by (simp add: PSID_findSessionByID_def s1 find_app split: option.split)
  ultimately show ?thesis by (simp add: fun_eq_iff)
qed

lemma find_job_upd: "find_job sid jid (upd_session sid (\<lambda>x. x\<lparr>ses_jobs := ses_jobs x @ [j]\<rparr>) s) =
   (case PSID_findSessionByID sid (x_sessions s) of None \<Rightarrow> None
    | Some x \<Rightarrow> find (\<lambda>j. sj_ID j = jid) (ses_jobs x @ [j]))"
  by (auto simp: find_job_def PSID_findSessionByID_def PSID_findJobInSession_def upd_session_sessions find_upd_first [of ses_ID] split: option.split)

lemma need_job_result:
  assumes n: "need_job sid jid s = Some (c, s1)" and w: "ses_wf (x_sessions s)" "full_but sid jid (x_sessions s)"
    and x: "PSID_findSessionByID sid (x_sessions s) \<noteq> None"
  shows "ses_wf (x_sessions s1) \<and> full_but sid jid (x_sessions s1) \<and> res_map (x_sessions s1) = res_map (x_sessions s)
    \<and> find_job sid jid s1 \<noteq> None"
proof (cases "find_job sid jid s")
  case (Some j)
  then show ?thesis using n w by (simp add: need_job_def)
next
  case None
  let ?j = "\<lparr>sj_ID = jid, sj_sessID = sid, sj_extra = None, sj_resInfos = []\<rparr>"
  let ?g = "\<lambda>x. x\<lparr>ses_jobs := ses_jobs x @ [?j]\<rparr>"
  obtain b s2 where m: "x_take_mem s = (b, s2)" by fastforce
  have b: "b" using n None m by (cases b) (simp_all add: need_job_def)
  have e1: "s1 = upd_session sid ?g s2" using n None m b by (auto simp: need_job_def)
  have e2: "x_sessions s2 = x_sessions s" by (rule sessions_mem [OF m])
  have s1: "x_sessions s1 = upd_first (\<lambda>x. ses_ID x = sid) ?g (x_sessions s)" using e1 e2 by (simp add: upd_session_sessions)
  have d: "distinct (map ses_ID (x_sessions s))" using w(1) by (simp add: ses_wf_def)
  have nj: "jid \<notin> sj_ID ` set (ses_jobs x)" if "x \<in> set (x_sessions s)" "ses_ID x = sid" for x
  proof -
    obtain y where y: "PSID_findSessionByID sid (x_sessions s) = Some y" using x by blast
    then have "y \<in> set (x_sessions s)" "ses_ID y = sid" using find_key [of ses_ID sid "x_sessions s" y] by (simp_all add: PSID_findSessionByID_def)
    then have "y = x" using that d by (auto simp: distinct_map inj_on_def)
    then show ?thesis using None y find_none [of sj_ID jid "ses_jobs x"] by (simp add: find_job_def PSID_findJobInSession_def)
  qed
  have in_s1: "(\<exists>x \<in> set (x_sessions s). ses_ID x = sid \<and> y = ?g x) \<or> y \<in> set (x_sessions s) \<and> ses_ID y \<noteq> sid"
    if "y \<in> set (x_sessions s1)" for y using in_upd_first [OF d] that unfolding s1 by blast
  have "ses_wf (x_sessions s1)"
  proof -
    have "distinct (map ses_ID (x_sessions s1))" unfolding s1 using d by (subst map_upd_first) simp_all
    moreover have "jobs_wf y" if "y \<in> set (x_sessions s1)" for y
      using in_s1 [OF that] w(1) nj by (auto simp: ses_wf_def jobs_wf_def job_wf_def)
    ultimately show ?thesis by (simp add: ses_wf_def)
  qed
  moreover have "full_but sid jid (x_sessions s1)"
    unfolding full_but_def using in_s1 w(2) by (fastforce simp: full_but_def)
  moreover have "res_map (x_sessions s1) k = res_map (x_sessions s) k" for k
    using None by (auto simp: res_map_def PSID_findResInfo_def PSID_findSessionByID_def PSID_findJobInSession_def s1 find_app
      find_upd_first [of ses_ID] find_job_def split: option.split)
  moreover have "find_job sid jid s1 \<noteq> None"
    using x unfolding e1 find_job_upd e2 by (auto simp: find_app split: option.split)
  ultimately show ?thesis by (simp add: fun_eq_iff)
qed

lemma find_job_Some: "find_job sid jid s = Some j \<Longrightarrow>
  \<exists>x. PSID_findSessionByID sid (x_sessions s) = Some x \<and> PSID_findJobInSession x jid = Some j"
  by (auto simp: find_job_def split: option.splits)

lemma store_resinfo_result:
  assumes n: "store_resinfo sid jid res s = Some s1" and ok: "sess_ok (x_sessions s)"
  shows "sess_ok (x_sessions s1) \<and> res_map (x_sessions s1) = (res_map (x_sessions s))((sid, jid, ri_resID res) \<mapsto> res)"
proof -
  obtain s2 where s2: "need_session sid s = Some s2" using n by (auto simp: store_resinfo_def split: option.splits)
  obtain c s3 where s3: "need_job sid jid s2 = Some (c, s3)" using n s2 by (auto simp: store_resinfo_def split: option.splits)
  have r2: "ses_wf (x_sessions s2)" "full_but sid jid (x_sessions s2)" "res_map (x_sessions s2) = res_map (x_sessions s)"
    "PSID_findSessionByID sid (x_sessions s2) \<noteq> None"
    using need_session_result [OF s2] ok by (simp_all add: sess_ok_def)
  have r3: "ses_wf (x_sessions s3)" "full_but sid jid (x_sessions s3)" "res_map (x_sessions s3) = res_map (x_sessions s)"
    "find_job sid jid s3 \<noteq> None"
    using need_job_result [OF s3 r2(1,2,4)] r2(3) by simp_all
  obtain j where j: "find_job sid jid s3 = Some j" using r3(4) by blast
  obtain x where x: "PSID_findSessionByID sid (x_sessions s3) = Some x" "PSID_findJobInSession x jid = Some j"
    using find_job_Some [OF j] by blast
  let ?f = "\<lambda>j. j\<lparr>sj_resInfos := filter (\<lambda>r. ri_resID r \<noteq> ri_resID res) (sj_resInfos j) @ [res]\<rparr>"
  have fold: "x_sessions (fold (\<lambda>r. putResinfo (ri_resID r)) l s3) = x_sessions s3" for l by (rule sessions_fold) simp
  have e: "x_sessions s1 = upd_first (\<lambda>x. ses_ID x = sid) (\<lambda>x. x\<lparr>ses_jobs := upd_first (\<lambda>j. sj_ID j = jid) ?f (ses_jobs x)\<rparr>) (x_sessions s3)"
    using n s2 s3 j by (auto simp: store_resinfo_def addReservationToJob_def upd_job_def upd_session_sessions fold Let_def split: if_splits)
  have "job_wf sid (?f i)" if "job_wf sid i" for i using that by (auto simp: job_wf_def distinct_map_filter)
  then have "ses_wf (x_sessions s1)" unfolding e by (intro wf_upd_job [OF r3(1)]) simp_all
  moreover have "no_empty (x_sessions s1)" unfolding e by (rule full_upd_job [OF r3(1,2) x]) simp_all
  moreover have "res_map (x_sessions s1) (a, b, k) = ((res_map (x_sessions s3))((sid, jid, ri_resID res) \<mapsto> res)) (a, b, k)" for a b k
    unfolding e using x
    by (subst map_upd_job) (auto simp: find_app find_filter [of ri_resID] res_map_def PSID_findResInfo_def split: option.split)
  ultimately show ?thesis unfolding r3(3) by (auto simp: sess_ok_def fun_eq_iff)
qed

end
