(* ===== verification/Spec2Isabelle.thy ===== *)
theory Spec2Isabelle
  imports Rdp_Props Ser_Props Cpu_Props Env_Props Client_Props Client_Table Tsk_Orphans Tsk_Auth Tsk_End Part_Props Part_Job_Props Ses_Spec
begin

text \<open>
  ParaStation management: a model of the core of the daemon \<open>psid\<close>.

  \<^bold>\<open>The program.\<close>  On every node of a cluster runs one daemon (\<open>src/bin/daemon\<close>).  The daemons start
  processes, carry signals and messages between them, and one of them, the master, gives nodes and
  CPUs to jobs.  Daemons talk to each other by datagrams over the reliable protocol RDP
  (\<open>src/lib/putil/rdp.c\<close>), to the processes on their node over stream sockets.  Messages have a fixed size;
  larger data is cut into fragments (\<open>src/lib/pscommon/psserial.c\<close>).  Handlers are called by message type
  from the main loop, one at a time; \<open>sendMsg\<close> (\<open>src/bin/daemon/psidcomm.c\<close>) picks the way of a message:
  to a handler of this daemon at once, to a client, or to another node.  Everything is single-threaded, so
  that every function of the model is a function from the state to the state.

  \<^bold>\<open>Conventions.\<close>  A static variable of a C file is a field of the record of its component.  Integers have
  the width they have in C where they can overflow (\<open>Prelude\<close>); counters that only grow with memory are
  numbers.  What the operating system answers (memory, sockets, \<open>kill\<close>, time) is read from scripts, lists
  in the state that are used up; an empty script stands for success.  What leaves a component is
  appended to a log in its order.  Errors are option or sum values or the return codes of the code.
  Output to logs is left out throughout.

  \<^bold>\<open>Foundations.\<close>
  \<open>Prelude\<close>: machine integers, time, lemmas on lists and words, and the locale \<open>inv_machine\<close> of a state
  machine with an invariant.  \<open>Bytes\<close>: little-endian numbers, memory, and the locale \<open>byte_reader\<close> of a
  reader that takes values off a stream.  \<open>Ps_Msg\<close>: task identifiers (\<open>pscommon.c\<close>) and message
  buffers (\<open>psprotocol.c\<close>).

  \<^bold>\<open>Reliable datagrams\<close> (\<open>src/lib/putil/rdp.c\<close>).
  \<open>Rdp_State\<close> has the headers, the pools of buffers, the table of connections and the socket; \<open>Rdp_Iptable\<close>
  the hash of addresses; \<open>Rdp_Ops\<close> the functions in the order of the source.  \<open>Rdp_Inv\<close>, \<open>Rdp_Pres\<close>,
  \<open>Rdp_Api\<close> and \<open>Rdp_Machine\<close> show that no buffer is lost or used twice over any run; \<open>Rdp_Frame\<close> and
  \<open>Rdp_Sound\<close> that closed connections hold nothing; \<open>Rdp_States\<close> that connections follow the transition
  table; \<open>Rdp_Deliver\<close> and \<open>Rdp_Link\<close> that packets are delivered once and in order, that acknowledgements
  release prefixes, that losses are reported and that the handshake synchronises both sides.

  \<^bold>\<open>Serialisation\<close> (\<open>src/lib/pscommon/psserial.c\<close>).
  \<open>Ser_Data\<close> has data buffers and unpacking, \<open>Ser_Send\<close> packing, fragments and their reception;
  \<open>Ser_Pack\<close>, \<open>Ser_Frag\<close>, \<open>Ser_Recv\<close> and \<open>Ser_Safe\<close> show round trips over typed and untyped messages, over
  fragments for several destinations, and that nothing is read or written out of bounds.  The loop that
  cuts data into fragments takes the length of the data as fuel; every round takes at least one byte.

  \<^bold>\<open>CPU sets\<close> (\<open>pscpu.c\<close>): \<open>Cpu_Set\<close>, \<open>Cpu_Spec\<close>: operations on masks are operations on sets; the width
  of the shifts matters.  \<^bold>\<open>Environments and string vectors\<close> (\<open>psenv.c\<close>, \<open>psstrv.c\<close>): \<open>Env\<close>, \<open>Strv\<close>,
  \<open>Env_Spec\<close>: an environment is a finite map (locale \<open>keyed_env\<close>).

  \<^bold>\<open>Connections to clients.\<close>
  \<open>Items\<close> are the pools of \<open>psitems.c\<close>: chunks that are emptied by moving items, under the contract
  \<open>item_user\<close> that a user relocates its references (\<open>Items_Spec\<close>).  \<open>Flow\<close> (\<open>psidflowcontrol.c\<close>) and \<open>Msgbuf\<close>
  (\<open>psidmsgbuf.c\<close>) are such users.  \<open>Client\<close> (\<open>psidclient.c\<close>, \<open>pscio.c\<close>, \<open>sendMsg\<close>) has the queues to clients
  and who is stopped while they are full.  \<open>Client_Spec\<close> and \<open>Client_Run\<close> show that a client receives
  what was sent, in order, under partial writes and garbage collection, and that stopped
  senders are released; \<open>Client_Table\<close> that growing the table of clients moves list heads wrongly.

  \<^bold>\<open>Tasks and signals\<close> (\<open>psidtask.c\<close>, \<open>psidsignal.c\<close>, \<open>msg_CHILDDEAD\<close> of \<open>psidspawn.c\<close>).
  \<open>Tsk_State\<close> has tasks, named by addresses, and their lists; \<open>Tsk_Signal\<close> the delivery of signals and
  the end of a task; \<open>Tsk_Release\<close> the handlers; \<open>Tsk_Dispatch\<close> the way of a message to its handler.  The
  functions take \<open>sendMsg\<close> as an argument: the lemmas use \<open>log_send\<close>, which defers messages
  (right for messages to other nodes and clients), \<open>sendMsg_in\<close> closes the circle for messages to the daemon itself.
  Fuel bounds the depth of nested calls and the length of lists; \<open>z_stuck\<close> is set when it runs out, and
  the lemmas show that lists shorter than the fuel never use it up.  \<open>Tsk_Adopt\<close>, \<open>Tsk_Answer\<close>, \<open>Tsk_Props\<close>,
  \<open>Tsk_Orphans\<close>, \<open>Tsk_Auth\<close> and \<open>Tsk_End\<close> show: children that are passed on arrive at the grandparent, a
  release is answered once, orphans are missed, signals respect users, and the end of a task is told
  once to all who asked.

  \<^bold>\<open>Partitions\<close> (\<open>psidpartition.c\<close>, \<open>pspartition.c\<close>): the master's side.
  \<open>Part_State\<close> has the requests, named by addresses, the three queues and the status of the nodes;
  \<open>Part_Master\<close> the choice of candidates, the creation of partitions and the handlers.  Tables of nodes and their
  load are a field of the state, which any step may change; \<open>qsort\<close> is an insertion sort with the comparison of
  the code, and shrinking the array of slots does not fail.  \<open>Part_Account\<close> shows that registering keeps the
  accounts, \<open>Part_Create\<close> that new partitions have free CPUs only and the right number of them,
  \<open>Part_Machine\<close> and \<open>Part_Serve\<close> that the accounts are exact over any run (locale \<open>inv_machine\<close>) and that
  requests are served in their order.  This holds while the CPUs of suspended jobs are kept and answers can
  be sent; \<open>Part_Props\<close> shows what happens otherwise.

  \<^bold>\<open>Reservations of a job\<close> (\<open>psidpartition.c\<close>, \<open>pspartition.h\<close>, \<open>psreservation.c\<close>): the side of the task
  that got a partition.  \<open>Part_Slots\<close> has its hardware threads and the loop that makes slots of them; the loop
  is a \<open>while_option\<close>, since it need not end.  \<open>Part_Loop\<close> and \<open>Part_Fill\<close> show that without
  over-booking it does end and what the slots are, and with it that it may run for ever; \<open>Part_Release\<close>
  that releasing undoes it and that a dry run promises what the next run gives.
  \<open>Part_Res\<close> has the reservations and their queues, \<open>Part_Tell\<close> the messages to the nodes (\<open>Cpu_Bytes\<close>: CPU
  sets as bytes), \<open>Part_Reserve\<close> and \<open>Part_Return\<close> the handlers, with the functions that plugins
  hook in as the argument \<open>hooks\<close>.  \<open>Part_Books\<close> says when the counts of the threads are those of a list
  of slots; \<open>Part_Grant\<close>, \<open>Part_Ledger\<close>, \<open>Part_Keep\<close> and \<open>Part_Back\<close> that the handlers keep this for the
  slots that wait in reservations and those that are out; \<open>Part_Run\<close> makes a machine of them (locale
  \<open>inv_machine\<close>) and shows that at most \<open>2 ^ 32 - 4\<close> events never draw a number of a reservation twice;
  \<open>Part_Job_Props\<close> has the properties.  What they ask of the messages is a hypothesis on the run
  (\<open>plain_run\<close>): requests without over-booking, dynamic resources and placeholders, and processes that return what
  they got; the job has no delegate, is not suspended, and no plugin gives slots (\<open>job_start\<close>).

  \<^bold>\<open>Sessions of a node\<close> (\<open>psidsession.c\<close>, parts of \<open>psidspawn.c\<close>): what a node learns of the reservations it is
  part of.  \<open>Ses_State\<close> has sessions, jobs and reservations, the tasks that wait for them and the messages that
  give CPUs back, \<open>Ses_Ops\<close> the handlers; \<open>Ses_Spec\<close> shows that they implement a map from the identifiers of a
  session, a job and a reservation.


  \<^bold>\<open>Not modelled.\<close>  Logging, memory that C functions leak, and the code that only calls the system or other
  libraries: starting processes and their terminals (\<open>psidspawn.c\<close>, \<open>psidforwarder.c\<close>), hardware detection
  and binding (\<open>psidhw.c\<close>, \<open>psidpin.c\<close>), the main loop, configuration, \<open>psiadmin\<close>, and the plugins, of which
  \<open>psslurm\<close> is the largest.  Of the modelled files, statistics, debug output and clean-up at exit are left
  out; where \<open>sendMsg\<close> would call a handler at once, \<open>Client\<close> records the call instead.  Still
  open: the tables of nodes and the election of the master (\<open>psidnodes.c\<close>, \<open>psidstatus.c\<close>), lists of ranges (\<open>pscomplist.c\<close>), timers, and the key-value space.
\<close>

end
